(* ===== verification/Vx_Base.thy ===== *)
theory Vx_Base
  imports Main "HOL-Library.Word"
begin

unbundle bit_operations_syntax

section \<open>Prelude: machine types, C arrays and linear searches\<close>

text \<open>
  The prelude of the development.  It fixes the machine types of the 32-bit ARM target, the
  kernel's error codes (\<open>kernel/include/syscalls.h\<close>), the way C arrays, C strings and C
  loops are represented, and the facts about them that every component uses:

  \<^item> \<open>uint8_t\<close>, \<open>uint16_t\<close> and \<open>uint32_t\<close> are \<open>8 word\<close>, \<open>16 word\<close> and \<open>32 word\<close>;
    a C \<open>int\<close> whose range never matters is an \<open>int\<close>;
  \<^item> a C array is a list of fixed length; \<open>blit\<close> is the effect of copying bytes into it;
  \<^item> a C string is the list of its bytes before the terminating NUL; \<open>cstr\<close> writes a literal;
  \<^item> a loop \<open>for (i = lo; i < hi; i++) if (P(i)) \<dots> break\<close> is \<open>first_idx P lo hi\<close>;
  \<^item> little-endian fields of a byte array are \<open>rd16\<close>, \<open>rd32\<close>, \<open>le16\<close> and \<open>le32\<close>.
\<close>

subsection \<open>Types and error codes\<close>

type_synonym u8 = "8 word"
type_synonym u16 = "16 word"
type_synonym u32 = "32 word"
type_synonym cstring = "u8 list"

named_theorems vx_consts \<open>the numeric constants of the C headers\<close>
named_theorems vx_inv \<open>preservation of component invariants\<close>

abbreviation E_OK :: int where "E_OK \<equiv> 0"
abbreviation E_FAIL :: int where "E_FAIL \<equiv> - 1"
abbreviation E_INVAL :: int where "E_INVAL \<equiv> - 2"
abbreviation E_ARG :: int where "E_ARG \<equiv> - 3"
abbreviation E_PTR :: int where "E_PTR \<equiv> - 4"
abbreviation E_PERM :: int where "E_PERM \<equiv> - 5"
abbreviation E_NOENT :: int where "E_NOENT \<equiv> - 6"
abbreviation E_BADF :: int where "E_BADF \<equiv> - 7"
abbreviation E_MFILE :: int where "E_MFILE \<equiv> - 8"

text \<open>A failed \<open>ASSERT\<close> or a \<open>PANIC\<close> halts the kernel (\<open>kernel/include/assert.h\<close>); a store or
  load outside its array and a division by zero have no defined effect.  They are the left summand
  of the result of an operation that can run into them.\<close>

datatype fault = AssertFail | OutOfBounds | DivByZero

text \<open>Sequencing of operations that may stop the kernel.\<close>

definition fbind :: "fault + 'a \<Rightarrow> ('a \<Rightarrow> fault + 'b) \<Rightarrow> fault + 'b" where
  "fbind m f = (case m of Inl e \<Rightarrow> Inl e | Inr x \<Rightarrow> f x)"

lemma fbind_simps [simp]: "fbind (Inl e) f = Inl e" "fbind (Inr x) f = f x"
  by (simp_all add: fbind_def)

lemma fbind_InrE:
  assumes "fbind m f = Inr y"
  obtains x where "m = Inr x" "f x = Inr y"
  using assms by (cases m) auto

lemma fbind_cong [fundef_cong]:
  "m = m' \<Longrightarrow> (\<And>x. m' = Inr x \<Longrightarrow> f x = g x) \<Longrightarrow> fbind m f = fbind m' g"
  by (cases m') auto

text \<open>The address-space layout shared by the memory, process and system-call code
  (\<open>kernel/include/mmu.h\<close>, \<open>kernel/include/page_alloc.h\<close>).\<close>

definition VA_OFFSET :: u32 where [vx_consts]: "VA_OFFSET = 0x40000000"
definition PAGE_SIZE :: u32 where [vx_consts]: "PAGE_SIZE = 0x1000"
definition USER_SPACE_VA :: u32 where [vx_consts]: "USER_SPACE_VA = 0x40000000"
definition USER_SPACE_BYTES :: u32 where [vx_consts]: "USER_SPACE_BYTES = 0x100000"

text \<open>A string literal of the source, as its bytes.\<close>

definition cstr :: "string \<Rightarrow> cstring" where
  "cstr s = map of_char s"

subsection \<open>Linear search\<close>

definition first_idx :: "(nat \<Rightarrow> bool) \<Rightarrow> nat \<Rightarrow> nat \<Rightarrow> nat option" where
  "first_idx P lo hi = List.find P [lo..<hi]"

lemma first_idx_None_iff: "first_idx P lo hi = None \<longleftrightarrow> (\<forall>k. lo \<le> k \<and> k < hi \<longrightarrow> \<not> P k)"
  by (auto simp: first_idx_def find_None_iff)

lemma first_idx_SomeD:
  assumes "first_idx P lo hi = Some k"
  shows "lo \<le> k" "k < hi" "P k" "\<And>j. lo \<le> j \<Longrightarrow> j < k \<Longrightarrow> \<not> P j"
proof -
  from assms obtain i where i: "i < hi - lo" "P (lo + i)" "k = lo + i"
    and min: "\<forall>j<i. \<not> P ([lo..<hi] ! j)"
    by (auto simp: first_idx_def find_Some_iff)
  from i show "lo \<le> k" "k < hi" "P k" by auto
  fix j assume j: "lo \<le> j" "j < k"
  then have "j - lo < i" using i by simp
  then have "\<not> P ([lo..<hi] ! (j - lo))" using min by blast
  with j i show "\<not> P j" by simp
qed

lemma first_idx_Some_iff:
  "first_idx P lo hi = Some k \<longleftrightarrow> lo \<le> k \<and> k < hi \<and> P k \<and> (\<forall>j. lo \<le> j \<and> j < k \<longrightarrow> \<not> P j)"
proof
  assume "first_idx P lo hi = Some k"
  then show "lo \<le> k \<and> k < hi \<and> P k \<and> (\<forall>j. lo \<le> j \<and> j < k \<longrightarrow> \<not> P j)"
    using first_idx_SomeD by blast
next
  assume r: "lo \<le> k \<and> k < hi \<and> P k \<and> (\<forall>j. lo \<le> j \<and> j < k \<longrightarrow> \<not> P j)"
  then obtain m where m: "first_idx P lo hi = Some m"
    using first_idx_None_iff [of P lo hi] by (cases "first_idx P lo hi") auto
  have "m = k"
    using first_idx_SomeD [OF m] r by (metis nat_neq_iff)
  with m show "first_idx P lo hi = Some k" by simp
qed

lemma first_idx_cong:
  assumes "\<And>k. lo \<le> k \<Longrightarrow> k < hi \<Longrightarrow> P k = Q k"
  shows "first_idx P lo hi = first_idx Q lo hi"
  unfolding first_idx_def by (rule find_cong) (use assms in auto)

lemma first_idx_exists:
  "lo \<le> k \<Longrightarrow> k < hi \<Longrightarrow> P k \<Longrightarrow> \<exists>m. first_idx P lo hi = Some m"
  using first_idx_None_iff [of P lo hi] by (cases "first_idx P lo hi") auto

lemma first_idx_unfold [code]:
  "first_idx P lo hi = (if lo < hi then if P lo then Some lo else first_idx P (Suc lo) hi else None)"
  by (simp add: first_idx_def upt_conv_Cons)

subsection \<open>Arrays\<close>

text \<open>\<open>blit buf off xs\<close> is the array \<open>buf\<close> after the bytes \<open>xs\<close> were stored from index
  \<open>off\<close> on.  The callers check the bounds the source checks; a store beyond the end of the
  array would be lost here, so the components prove that their stores are in range.\<close>

definition blit :: "'a list \<Rightarrow> nat \<Rightarrow> 'a list \<Rightarrow> 'a list" where
  "blit buf off xs = take off buf @ take (length buf - off) xs @ drop (off + length xs) buf"

lemma length_blit [simp]: "length (blit buf off xs) = length buf"
  by (auto simp: blit_def)

lemma nth_blit:
  assumes "i < length buf"
  shows "blit buf off xs ! i = (if off \<le> i \<and> i < off + length xs then xs ! (i - off) else buf ! i)"
  using assms by (auto simp: blit_def nth_append)

lemma blit_Nil [simp]: "blit buf off [] = buf"
  by (simp add: blit_def)

lemma take_drop_blit:
  "off + length xs \<le> length buf \<Longrightarrow> take (length xs) (drop off (blit buf off xs)) = xs"
  by (simp add: blit_def)

lemma blit_all: "length xs = length buf \<Longrightarrow> blit buf 0 xs = xs"
  by (simp add: blit_def)

lemma map_nth_upt: "n \<le> length xs \<Longrightarrow> map ((!) xs) [0..<n] = take n xs"
  by (rule nth_equalityI) auto

lemma map_plus_upt: "map ((+) i) [0..<n] = [i..<i + n]"
  by (rule nth_equalityI) auto

subsection \<open>Masks\<close>

lemma and_not_mask: "(a::'a::len word) AND NOT (mask n) = a - take_bit n a"
proof -
  have "(a AND mask n) AND (a AND NOT (mask n)) = 0" by (rule bit_eqI) (auto simp: bit_simps)
  then have "(a AND mask n) + (a AND NOT (mask n)) = (a AND mask n) OR (a AND NOT (mask n))"
    by (rule disjunctive_add_eq_or)
  also have "(a AND mask n) OR (a AND NOT (mask n)) = a" by (rule bit_eqI) (auto simp: bit_simps)
  finally show ?thesis by (simp add: take_bit_eq_mask algebra_simps)
qed

lemma unat_and_not_mask: "unat ((a::'a::len word) AND NOT (mask n)) = unat a - unat a mod 2 ^ n"
proof -
  have t: "unat (take_bit n a) = unat a mod 2 ^ n"
    unfolding unsigned_take_bit_eq by (simp only: take_bit_eq_mod)
  then have "take_bit n a \<le> a" by (simp add: word_le_nat_alt)
  then show ?thesis by (simp add: and_not_mask unat_sub t)
qed

subsection \<open>Pointer chains\<close>

text \<open>\<open>chain nxt h xs\<close>: following \<open>nxt\<close> from the pointer \<open>h\<close> visits exactly \<open>xs\<close> and ends in
  \<open>NULL\<close>.\<close>

primrec chain :: "('a \<Rightarrow> 'a option) \<Rightarrow> 'a option \<Rightarrow> 'a list \<Rightarrow> bool" where
  "chain nxt h [] \<longleftrightarrow> h = None"
| "chain nxt h (x # xs) \<longleftrightarrow> h = Some x \<and> chain nxt (nxt x) xs"

lemma chain_cong: "(\<And>x. x \<in> set xs \<Longrightarrow> nxt' x = nxt x) \<Longrightarrow> chain nxt' h xs = chain nxt h xs"
  by (induction xs arbitrary: h) auto

lemma chain_unique: "chain nxt h xs \<Longrightarrow> chain nxt h ys \<Longrightarrow> xs = ys"
proof (induction xs arbitrary: h ys)
  case Nil
  then show ?case by (cases ys) auto
next
  case (Cons x xs)
  then show ?case by (cases ys) auto
qed

subsection \<open>Little-endian fields\<close>

definition rd16 :: "u8 list \<Rightarrow> nat \<Rightarrow> u16" where
  "rd16 p i = (ucast (p ! i) OR push_bit 8 (ucast (p ! (i + 1))))"

definition rd32 :: "u8 list \<Rightarrow> nat \<Rightarrow> u32" where
  "rd32 p i = (ucast (p ! i) OR push_bit 8 (ucast (p ! (i + 1)))
     OR push_bit 16 (ucast (p ! (i + 2))) OR push_bit 24 (ucast (p ! (i + 3))))"

definition le16 :: "u16 \<Rightarrow> u8 list" where
  "le16 v = [ucast v, ucast (drop_bit 8 v)]"

definition le32 :: "u32 \<Rightarrow> u8 list" where
  "le32 v = [ucast v, ucast (drop_bit 8 v), ucast (drop_bit 16 v), ucast (drop_bit 24 v)]"

text \<open>The bytes of a word that was put together from four bytes.\<close>

lemma byte_of_rd32:
  assumes "j < 4"
  shows "(ucast (drop_bit (8 * j) (rd32 b i)) :: u8) = b ! (i + j)"
proof (rule bit_word_eqI)
  fix n assume "n < LENGTH(8)"
  then have n: "n < 8" by simp
  consider "j = 0" | "j = 1" | "j = 2" | "j = 3" using assms by linarith
  then show "bit (ucast (drop_bit (8 * j) (rd32 b i)) :: u8) n = bit (b ! (i + j)) n"
    by cases (use n in \<open>auto simp: rd32_def bit_simps dest: bit_imp_le_length\<close>)
qed

lemma le32_rd32: "le32 (rd32 b i) = [b ! i, b ! (i + 1), b ! (i + 2), b ! (i + 3)]"
  using byte_of_rd32 [of 0 b i] byte_of_rd32 [of 1 b i] byte_of_rd32 [of 2 b i] byte_of_rd32 [of 3 b i]
  by (simp add: le32_def)

lemma length_le16 [simp]: "length (le16 v) = 2"
  by (simp add: le16_def)

lemma length_le32 [simp]: "length (le32 v) = 4"
  by (simp add: le32_def)

lemma rd32_cong:
  "(\<And>k. k < 4 \<Longrightarrow> p ! (i + k) = q ! (j + k)) \<Longrightarrow> rd32 p i = rd32 q j"
proof -
  assume eq: "\<And>k. k < 4 \<Longrightarrow> p ! (i + k) = q ! (j + k)"
  have "p ! i = q ! j" "p ! (i + 1) = q ! (j + 1)" "p ! (i + 2) = q ! (j + 2)"
    "p ! (i + 3) = q ! (j + 3)"
    using eq [of 0] eq [of 1] eq [of 2] eq [of 3] by simp_all
  then show ?thesis by (simp only: rd32_def)
qed

lemma rd32_le32: "rd32 (le32 v) 0 = v"
proof (rule bit_word_eqI)
  fix n assume "n < LENGTH(32)"
  then consider "n < 8" | "8 \<le> n" "n < 16" | "16 \<le> n" "n < 24" | "24 \<le> n" "n < 32"
    by force
  then show "bit (rd32 (le32 v) 0) n = bit v n"
    by cases (auto simp: rd32_def le32_def bit_simps)
qed

lemma rd16_le16: "rd16 (le16 v) 0 = v"
  unfolding rd16_def le16_def
  by (rule bit_word_eqI) (auto simp: bit_simps)

lemma rd32_blit_le32:
  "off + 4 \<le> length buf \<Longrightarrow> rd32 (blit buf off (le32 v)) off = v"
proof -
  assume "off + 4 \<le> length buf"
  then have "rd32 (blit buf off (le32 v)) off = rd32 (le32 v) 0"
    by (intro rd32_cong) (simp add: nth_blit)
  then show ?thesis by (simp add: rd32_le32)
qed

lemma rd32_blit_other:
  assumes "i + 4 \<le> length buf" "i + 4 \<le> off \<or> off + length xs \<le> i"
  shows "rd32 (blit buf off xs) i = rd32 buf i"
  using assms by (intro rd32_cong) (auto simp: nth_blit)

end
