(* ===== verification/Mmio.thy ===== *)
theory Mmio
  imports Vx_Base
begin

section \<open>Memory-mapped hardware (\<open>kernel/src/arch/arm/include/mmio.h\<close>)\<close>

text \<open>
  The drivers reach the hardware through \<open>mmio_read32\<close> and \<open>mmio_write32\<close>, through plain loads and
  stores into device memory, and read the tick counter that the timer interrupt advances.  What the
  hardware does then is not code of the kernel: it is a record \<open>'w bus\<close> of functions on a world
  \<open>'w\<close>, a parameter of every definition that uses it.  A register read may change the world (time
  passes, a status bit is acknowledged), so it returns the world after it.

  \<open>bus_writes\<close> is a sequence of register writes in program order and \<open>bus_reads\<close> a sequence of reads
  whose values only go to the console.
\<close>

record 'w bus =
  mmio_read32 :: "u32 \<Rightarrow> 'w \<Rightarrow> u32 \<times> 'w"
  mmio_write32 :: "u32 \<Rightarrow> u32 \<Rightarrow> 'w \<Rightarrow> 'w"
  mem_load :: "u32 \<Rightarrow> nat \<Rightarrow> 'w \<Rightarrow> u8 list"
  mem_store :: "u32 \<Rightarrow> u8 list \<Rightarrow> 'w \<Rightarrow> 'w"
  timer_get_ticks :: "'w \<Rightarrow> u32 \<times> 'w"

fun bus_writes :: "'w bus \<Rightarrow> (u32 \<times> u32) list \<Rightarrow> 'w \<Rightarrow> 'w" where
  "bus_writes B [] w = w"
| "bus_writes B ((a, v) # avs) w = bus_writes B avs (mmio_write32 B a v w)"

fun bus_reads :: "'w bus \<Rightarrow> u32 list \<Rightarrow> 'w \<Rightarrow> 'w" where
  "bus_reads B [] w = w"
| "bus_reads B (a # as) w = bus_reads B as (snd (mmio_read32 B a w))"

lemma bus_writes_append [simp]: "bus_writes B (xs @ ys) w = bus_writes B ys (bus_writes B xs w)"
  by (induction B xs w rule: bus_writes.induct) auto

text \<open>\<open>while ((mmio_read32(addr) & bit) && timeout > 0) timeout--;\<close>  The result is whether the loop
  left with \<open>timeout > 0\<close>.\<close>

fun wait_clear :: "'w bus \<Rightarrow> u32 \<Rightarrow> u32 \<Rightarrow> nat \<Rightarrow> 'w \<Rightarrow> bool \<times> 'w" where
  "wait_clear B addr bits 0 w = (False, snd (mmio_read32 B addr w))"
| "wait_clear B addr bits (Suc t) w =
     (case mmio_read32 B addr w of (v, w') \<Rightarrow> if v AND bits \<noteq> 0 then wait_clear B addr bits t w' else (True, w'))"

text \<open>\<open>while (timeout > 0) { if (mmio_read32(addr) & bits) return success; timeout--; }\<close>\<close>

fun wait_set :: "'w bus \<Rightarrow> u32 \<Rightarrow> u32 \<Rightarrow> nat \<Rightarrow> 'w \<Rightarrow> bool \<times> 'w" where
  "wait_set B addr bits 0 w = (False, w)"
| "wait_set B addr bits (Suc t) w =
     (case mmio_read32 B addr w of (v, w') \<Rightarrow> if v AND bits \<noteq> 0 then (True, w') else wait_set B addr bits t w')"

text \<open>A wait reports success only after a read that showed the awaited state, and reports a time-out
  only after every one of its reads showed the other one.\<close>

lemma wait_clear_success:
  "wait_clear B addr bits t w = (True, w') \<Longrightarrow> \<exists>v u. mmio_read32 B addr u = (v, w') \<and> v AND bits = 0"
  by (induction B addr bits t w rule: wait_clear.induct) (auto split: prod.splits if_splits)

lemma wait_set_success:
  "wait_set B addr bits t w = (True, w') \<Longrightarrow> \<exists>v u. mmio_read32 B addr u = (v, w') \<and> v AND bits \<noteq> 0"
  by (induction B addr bits t w rule: wait_set.induct) (auto split: prod.splits if_splits)

text \<open>\<open>while (c() && timeout--);\<close> and \<open>while (timeout--) if (c()) break;\<close> with the value of \<open>timeout\<close>
  afterwards.  The counter is decremented once more by the test that ends the loop, so running out leaves
  it at the largest value and not at 0.\<close>

fun spin_while :: "('w \<Rightarrow> bool \<times> 'w) \<Rightarrow> nat \<Rightarrow> 'w \<Rightarrow> u32 \<times> 'w" where
  "spin_while c 0 w = (case c w of (b, w') \<Rightarrow> (if b then - 1 else 0, w'))"
| "spin_while c (Suc t) w = (case c w of (b, w') \<Rightarrow> if b then spin_while c t w' else (of_nat (Suc t), w'))"

fun spin_until :: "('w \<Rightarrow> bool \<times> 'w) \<Rightarrow> nat \<Rightarrow> 'w \<Rightarrow> u32 \<times> 'w" where
  "spin_until c 0 w = (- 1, w)"
| "spin_until c (Suc t) w = (case c w of (b, w') \<Rightarrow> if b then (of_nat t, w') else spin_until c t w')"

definition reg_test :: "'w bus \<Rightarrow> u32 \<Rightarrow> (u32 \<Rightarrow> bool) \<Rightarrow> 'w \<Rightarrow> bool \<times> 'w" where
  "reg_test B addr f w = (case mmio_read32 B addr w of (v, w') \<Rightarrow> (f v, w'))"

text \<open>The test \<open>if (!timeout)\<close> after such a loop does not report that the time ran out.\<close>

lemma spin_while_timeout: "(\<And>w. fst (c w)) \<Longrightarrow> fst (spin_while c t w) = - 1"
  by (induction t arbitrary: w) (auto simp: split_beta)

lemma spin_until_timeout: "(\<And>w. \<not> fst (c w)) \<Longrightarrow> fst (spin_until c t w) = - 1"
  by (induction t arbitrary: w) (auto simp: split_beta)

end
