(* ===== verification/Cpsw.thy ===== *)
theory Cpsw
  imports Mmio
begin

section \<open>The Ethernet MAC driver (\<open>kernel/src/drivers/cpsw.c\<close>)\<close>

text \<open>
  The driver of the CPSW switch: bring-up (\<open>cpsw_init\<close> and the steps it calls), the station address,
  transmission (\<open>cpsw_tx\<close>) and the polled receiver (\<open>cpsw_rx_poll\<close>).  The static variables are the
  record \<open>nic\<close>, with the world of the hardware behind the bus in \<open>hw\<close>; the network core extends this
  record by its own state.  \<open>s_rx_cb\<close> says whether the callback pointer is set; the function it
  points to is an argument of \<open>cpsw_rx_poll\<close>, whose result is \<open>None\<close> when the callback does not
  return.  Register addresses are the sums of base and offset of the source.  Console output, memory
  barriers, cache maintenance and delay loops have no effect in the model; the register reads made
  for the console are kept.

  The locale \<open>transmitter\<close> states what the driver relies on of the DMA engine: an idle engine shows
  its descriptor as not owned, and writing the head descriptor pointer transmits the described
  buffer.
\<close>

subsection \<open>Registers\<close>

definition CPSW_MAC_LEN :: nat where [vx_consts]: "CPSW_MAC_LEN = 6"
definition CPSW_FRAME_MAXLEN :: nat where [vx_consts]: "CPSW_FRAME_MAXLEN = 1024"
definition RESET_TIMEOUT :: nat where [vx_consts]: "RESET_TIMEOUT = 10000"
definition CM_PER_CPSW_CLKSTCTRL :: u32 where [vx_consts]: "CM_PER_CPSW_CLKSTCTRL = 0x44E00144"
definition CLKACTIVITY_CPSW_125M :: u32 where [vx_consts]: "CLKACTIVITY_CPSW_125M = 0x10"
definition CONF_GMII_SEL :: u32 where [vx_consts]: "CONF_GMII_SEL = 0x44E10650"
definition GMII1_SEL_MII :: u32 where [vx_consts]: "GMII1_SEL_MII = 0"
definition CONF_MII1_COL :: u32 where [vx_consts]: "CONF_MII1_COL = 0x44E10908"
definition CONF_MII1_CRS :: u32 where [vx_consts]: "CONF_MII1_CRS = 0x44E1090C"
definition CONF_MII1_RX_ER :: u32 where [vx_consts]: "CONF_MII1_RX_ER = 0x44E10910"
definition CONF_MII1_TX_EN :: u32 where [vx_consts]: "CONF_MII1_TX_EN = 0x44E10914"
definition CONF_MII1_RX_DV :: u32 where [vx_consts]: "CONF_MII1_RX_DV = 0x44E10918"
definition CONF_MII1_TXD3 :: u32 where [vx_consts]: "CONF_MII1_TXD3 = 0x44E1091C"
definition CONF_MII1_TXD2 :: u32 where [vx_consts]: "CONF_MII1_TXD2 = 0x44E10920"
definition CONF_MII1_TXD1 :: u32 where [vx_consts]: "CONF_MII1_TXD1 = 0x44E10924"
definition CONF_MII1_TXD0 :: u32 where [vx_consts]: "CONF_MII1_TXD0 = 0x44E10928"
definition CONF_MII1_TX_CLK :: u32 where [vx_consts]: "CONF_MII1_TX_CLK = 0x44E1092C"
definition CONF_MII1_RX_CLK :: u32 where [vx_consts]: "CONF_MII1_RX_CLK = 0x44E10930"
definition CONF_MII1_RXD3 :: u32 where [vx_consts]: "CONF_MII1_RXD3 = 0x44E10934"
definition CONF_MII1_RXD2 :: u32 where [vx_consts]: "CONF_MII1_RXD2 = 0x44E10938"
definition CONF_MII1_RXD1 :: u32 where [vx_consts]: "CONF_MII1_RXD1 = 0x44E1093C"
definition CONF_MII1_RXD0 :: u32 where [vx_consts]: "CONF_MII1_RXD0 = 0x44E10940"
definition PIN_TX :: u32 where [vx_consts]: "PIN_TX = 0"
definition PIN_RX :: u32 where [vx_consts]: "PIN_RX = 0x20"
definition SS_SOFT_RESET :: u32 where [vx_consts]: "SS_SOFT_RESET = 0x4A100008"
definition SS_STAT_PORT_EN :: u32 where [vx_consts]: "SS_STAT_PORT_EN = 0x4A10000C"
definition SS_SOFT_RESET_BIT :: u32 where [vx_consts]: "SS_SOFT_RESET_BIT = 1"
definition SS_STAT_PORT_EN_P0 :: u32 where [vx_consts]: "SS_STAT_PORT_EN_P0 = 1"
definition SS_STAT_PORT_EN_P1 :: u32 where [vx_consts]: "SS_STAT_PORT_EN_P1 = 2"
definition STATS_RXGOODFRAMES :: u32 where [vx_consts]: "STATS_RXGOODFRAMES = 0x4A100900"
definition STATS_RXCRCERRORS :: u32 where [vx_consts]: "STATS_RXCRCERRORS = 0x4A100910"
definition STATS_RXOVERSIZEDFRAMES :: u32 where [vx_consts]: "STATS_RXOVERSIZEDFRAMES = 0x4A100918"
definition STATS_RXUNDERSIZEDFRAMES :: u32 where [vx_consts]: "STATS_RXUNDERSIZEDFRAMES = 0x4A100920"
definition CPDMA_TX_CONTROL :: u32 where [vx_consts]: "CPDMA_TX_CONTROL = 0x4A100804"
definition CPDMA_RX_CONTROL :: u32 where [vx_consts]: "CPDMA_RX_CONTROL = 0x4A100814"
definition CPDMA_SOFT_RESET :: u32 where [vx_consts]: "CPDMA_SOFT_RESET = 0x4A10081C"
definition CPDMA_DMASTATUS :: u32 where [vx_consts]: "CPDMA_DMASTATUS = 0x4A100824"
definition CPDMA_RX_BUFFER_OFFSET :: u32 where [vx_consts]: "CPDMA_RX_BUFFER_OFFSET = 0x4A100828"
definition CPDMA_TX_INTMASK_CLEAR :: u32 where [vx_consts]: "CPDMA_TX_INTMASK_CLEAR = 0x4A10088C"
definition CPDMA_EOI_VECTOR :: u32 where [vx_consts]: "CPDMA_EOI_VECTOR = 0x4A100894"
definition CPDMA_EOI_RX :: u32 where [vx_consts]: "CPDMA_EOI_RX = 1"
definition CPDMA_RX_INTMASK_CLEAR :: u32 where [vx_consts]: "CPDMA_RX_INTMASK_CLEAR = 0x4A1008AC"
definition CPDMA_SOFT_RESET_BIT :: u32 where [vx_consts]: "CPDMA_SOFT_RESET_BIT = 1"
definition CPDMA_TX_EN :: u32 where [vx_consts]: "CPDMA_TX_EN = 1"
definition CPDMA_RX_EN :: u32 where [vx_consts]: "CPDMA_RX_EN = 1"
definition CPSW_WR_C0_TX_EN :: u32 where [vx_consts]: "CPSW_WR_C0_TX_EN = 0x4A10122C"
definition CPSW_WR_C0_RX_EN :: u32 where [vx_consts]: "CPSW_WR_C0_RX_EN = 0x4A101230"
definition STATERAM_TX0_HDP :: u32 where [vx_consts]: "STATERAM_TX0_HDP = 0x4A100A00"
definition STATERAM_RX0_HDP :: u32 where [vx_consts]: "STATERAM_RX0_HDP = 0x4A100A20"
definition STATERAM_TX0_CP :: u32 where [vx_consts]: "STATERAM_TX0_CP = 0x4A100A40"
definition STATERAM_RX0_CP :: u32 where [vx_consts]: "STATERAM_RX0_CP = 0x4A100A60"
definition TX_BD_PA :: u32 where [vx_consts]: "TX_BD_PA = 0x4A102000"
definition RX_BD_PA :: u32 where [vx_consts]: "RX_BD_PA = 0x4A102010"
definition TX_BUF_PA :: u32 where [vx_consts]: "TX_BUF_PA = 0x4A102020"
definition RX_BUF_PA :: u32 where [vx_consts]: "RX_BUF_PA = 0x4A102420"
definition BD_OFF_NEXT :: u32 where [vx_consts]: "BD_OFF_NEXT = 0"
definition BD_OFF_BUFPTR :: u32 where [vx_consts]: "BD_OFF_BUFPTR = 4"
definition BD_OFF_BUFLEN :: u32 where [vx_consts]: "BD_OFF_BUFLEN = 8"
definition BD_OFF_FLAGS :: u32 where [vx_consts]: "BD_OFF_FLAGS = 12"
definition BD_OWNER :: u32 where [vx_consts]: "BD_OWNER = 0x80000000"
definition BD_SOP :: u32 where [vx_consts]: "BD_SOP = 0x08000000"
definition BD_EOP :: u32 where [vx_consts]: "BD_EOP = 0x04000000"
definition SL1_MACCONTROL :: u32 where [vx_consts]: "SL1_MACCONTROL = 0x4A100D84"
definition SL1_SOFT_RESET :: u32 where [vx_consts]: "SL1_SOFT_RESET = 0x4A100D8C"
definition SL1_RX_MAXLEN :: u32 where [vx_consts]: "SL1_RX_MAXLEN = 0x4A100D90"
definition MAC_FULLDUPLEX :: u32 where [vx_consts]: "MAC_FULLDUPLEX = 1"
definition MAC_GMII_EN :: u32 where [vx_consts]: "MAC_GMII_EN = 0x20"
definition SL1_SOFT_RESET_BIT :: u32 where [vx_consts]: "SL1_SOFT_RESET_BIT = 1"
definition ALE_CONTROL :: u32 where [vx_consts]: "ALE_CONTROL = 0x4A100D08"
definition ALE_PORTCTL0 :: u32 where [vx_consts]: "ALE_PORTCTL0 = 0x4A100D40"
definition ALE_PORTCTL1 :: u32 where [vx_consts]: "ALE_PORTCTL1 = 0x4A100D44"
definition ALE_ENABLE :: u32 where [vx_consts]: "ALE_ENABLE = 0x80000000"
definition ALE_CLEAR_TABLE :: u32 where [vx_consts]: "ALE_CLEAR_TABLE = 0x40000000"
definition ALE_BYPASS :: u32 where [vx_consts]: "ALE_BYPASS = 0x10"
definition ALE_PORT_FORWARD :: u32 where [vx_consts]: "ALE_PORT_FORWARD = 3"

subsection \<open>Bring-up\<close>

record 'w nic =
  s_mac :: "u8 list"
  s_rx_cb :: bool
  call_count :: u32
  hw :: 'w

definition wait_bit_clear :: "'w bus \<Rightarrow> u32 \<Rightarrow> u32 \<Rightarrow> nat \<Rightarrow> 'w \<Rightarrow> int \<times> 'w" where
  "wait_bit_clear B addr bits timeout w =
     (case wait_clear B addr bits timeout w of (ok, w') \<Rightarrow> (if ok then 0 else - 1, w'))"

definition cpsw_clock_verify :: "'w bus \<Rightarrow> 'w \<Rightarrow> int \<times> 'w" where
  "cpsw_clock_verify B w =
     (case wait_set B CM_PER_CPSW_CLKSTCTRL CLKACTIVITY_CPSW_125M RESET_TIMEOUT w of
        (ok, w') \<Rightarrow> (if ok then 0 else - 1, w'))"

definition cpsw_pinmux_init :: "'w bus \<Rightarrow> 'w \<Rightarrow> 'w" where
  "cpsw_pinmux_init B w = bus_writes B
     [(CONF_GMII_SEL, GMII1_SEL_MII),
      (CONF_MII1_TX_EN, PIN_TX), (CONF_MII1_TXD3, PIN_TX), (CONF_MII1_TXD2, PIN_TX),
      (CONF_MII1_TXD1, PIN_TX), (CONF_MII1_TXD0, PIN_TX),
      (CONF_MII1_TX_CLK, PIN_RX), (CONF_MII1_RX_DV, PIN_RX), (CONF_MII1_RX_ER, PIN_RX),
      (CONF_MII1_RXD3, PIN_RX), (CONF_MII1_RXD2, PIN_RX), (CONF_MII1_RXD1, PIN_RX),
      (CONF_MII1_RXD0, PIN_RX), (CONF_MII1_RX_CLK, PIN_RX), (CONF_MII1_COL, PIN_RX),
      (CONF_MII1_CRS, PIN_RX)] w"

definition cpsw_ss_reset :: "'w bus \<Rightarrow> 'w \<Rightarrow> int \<times> 'w" where
  "cpsw_ss_reset B w =
     (case wait_bit_clear B SS_SOFT_RESET SS_SOFT_RESET_BIT RESET_TIMEOUT
         (mmio_write32 B SS_SOFT_RESET SS_SOFT_RESET_BIT w) of (rc, w') \<Rightarrow>
        if rc \<noteq> 0 then (- 1, w')
        else (0, mmio_write32 B SS_STAT_PORT_EN (SS_STAT_PORT_EN_P0 OR SS_STAT_PORT_EN_P1) w'))"

definition channel_clear :: "nat \<Rightarrow> (u32 \<times> u32) list" where
  "channel_clear i = [(STATERAM_TX0_HDP + of_nat (i * 4), 0), (STATERAM_RX0_HDP + of_nat (i * 4), 0),
     (STATERAM_TX0_CP + of_nat (i * 4), 0), (STATERAM_RX0_CP + of_nat (i * 4), 0)]"

definition cpsw_cpdma_init :: "'w bus \<Rightarrow> 'w \<Rightarrow> int \<times> 'w" where
  "cpsw_cpdma_init B w =
     (case wait_bit_clear B CPDMA_SOFT_RESET CPDMA_SOFT_RESET_BIT RESET_TIMEOUT
         (mmio_write32 B CPDMA_SOFT_RESET CPDMA_SOFT_RESET_BIT w) of (rc, w') \<Rightarrow>
        if rc \<noteq> 0 then (- 1, w')
        else (0, bus_reads B [CPDMA_TX_CONTROL, CPDMA_RX_CONTROL, CPDMA_DMASTATUS]
          (bus_writes B (concat (map channel_clear [0..<8]) @
            [(CPDMA_RX_BUFFER_OFFSET, 0), (CPDMA_TX_INTMASK_CLEAR, 0xFF), (CPDMA_RX_INTMASK_CLEAR, 0xFF),
             (CPSW_WR_C0_TX_EN, 0), (CPSW_WR_C0_RX_EN, 0), (CPDMA_TX_CONTROL, CPDMA_TX_EN)]) w')))"

definition cpsw_mac_init :: "'w bus \<Rightarrow> 'w \<Rightarrow> int \<times> 'w" where
  "cpsw_mac_init B w =
     (case wait_bit_clear B SL1_SOFT_RESET SL1_SOFT_RESET_BIT RESET_TIMEOUT
         (mmio_write32 B SL1_SOFT_RESET SL1_SOFT_RESET_BIT w) of (rc, w') \<Rightarrow>
        if rc \<noteq> 0 then (- 1, w')
        else (0, bus_writes B [(SL1_RX_MAXLEN, 1522), (SL1_MACCONTROL, MAC_FULLDUPLEX),
          (SL1_MACCONTROL, MAC_FULLDUPLEX OR MAC_GMII_EN)] w'))"

definition cpsw_ale_init :: "'w bus \<Rightarrow> 'w \<Rightarrow> 'w" where
  "cpsw_ale_init B w = bus_writes B
     [(ALE_CONTROL, ALE_ENABLE OR ALE_CLEAR_TABLE), (ALE_CONTROL, ALE_ENABLE OR ALE_BYPASS),
      (ALE_PORTCTL0, ALE_PORT_FORWARD), (ALE_PORTCTL1, ALE_PORT_FORWARD)] w"

text \<open>The writes that hand the receive descriptor to the DMA engine.\<close>

definition rx_arm :: "(u32 \<times> u32) list" where
  "rx_arm = [(RX_BD_PA + BD_OFF_NEXT, 0), (RX_BD_PA + BD_OFF_BUFPTR, RX_BUF_PA),
     (RX_BD_PA + BD_OFF_BUFLEN, of_nat CPSW_FRAME_MAXLEN),
     (RX_BD_PA + BD_OFF_FLAGS, BD_OWNER OR BD_SOP OR BD_EOP OR of_nat CPSW_FRAME_MAXLEN)]"

definition cpsw_bd_init :: "'w bus \<Rightarrow> 'w \<Rightarrow> 'w" where
  "cpsw_bd_init B w =
     (let w1 = bus_writes B ([(TX_BD_PA + BD_OFF_NEXT, 0), (TX_BD_PA + BD_OFF_BUFPTR, 0),
                 (TX_BD_PA + BD_OFF_BUFLEN, 0), (TX_BD_PA + BD_OFF_FLAGS, 0)] @ rx_arm) w;
          w2 = bus_reads B [RX_BD_PA + BD_OFF_FLAGS] w1;
          w3 = bus_writes B [(SS_STAT_PORT_EN, SS_STAT_PORT_EN_P0 OR SS_STAT_PORT_EN_P1),
                 (STATERAM_RX0_HDP, RX_BD_PA)] w2;
          w4 = bus_writes B [(CPDMA_RX_CONTROL, CPDMA_RX_EN)] (bus_reads B [CPDMA_DMASTATUS] w3)
      in bus_reads B [CPDMA_DMASTATUS, CPDMA_DMASTATUS, STATERAM_RX0_HDP] w4)"

definition cpsw_init :: "'w bus \<Rightarrow> 'w \<Rightarrow> int \<times> 'w" where
  "cpsw_init B w0 =
     (case cpsw_clock_verify B w0 of (r1, w1) \<Rightarrow> if r1 \<noteq> 0 then (- 1, w1) else
      case cpsw_ss_reset B (cpsw_pinmux_init B w1) of (r2, w2) \<Rightarrow> if r2 \<noteq> 0 then (- 1, w2) else
      case cpsw_cpdma_init B w2 of (r3, w3) \<Rightarrow> if r3 \<noteq> 0 then (- 1, w3) else
      case cpsw_mac_init B w3 of (r4, w4) \<Rightarrow> if r4 \<noteq> 0 then (- 1, w4) else
      (0, bus_reads B [SL1_MACCONTROL, ALE_CONTROL, ALE_PORTCTL0, ALE_PORTCTL1]
            (cpsw_bd_init B (cpsw_ale_init B w4))))"

subsection \<open>Station address, transmission and reception\<close>

definition cpsw_set_mac :: "u8 list \<Rightarrow> ('w, 'a) nic_scheme \<Rightarrow> ('w, 'a) nic_scheme" where
  "cpsw_set_mac mac s = s\<lparr>s_mac := take CPSW_MAC_LEN mac\<rparr>"

definition cpsw_get_mac :: "('w, 'a) nic_scheme \<Rightarrow> u8 list" where
  "cpsw_get_mac s = take CPSW_MAC_LEN (s_mac s)"

text \<open>The descriptor of a frame of \<open>n\<close> bytes in the transmit buffer, and the write that starts it.\<close>

definition tx_go :: "nat \<Rightarrow> (u32 \<times> u32) list" where
  "tx_go n = [(TX_BD_PA + BD_OFF_NEXT, 0), (TX_BD_PA + BD_OFF_BUFPTR, TX_BUF_PA),
     (TX_BD_PA + BD_OFF_BUFLEN, of_nat n),
     (TX_BD_PA + BD_OFF_FLAGS, BD_OWNER OR BD_SOP OR BD_EOP OR of_nat n),
     (STATERAM_TX0_HDP, TX_BD_PA)]"

text \<open>The argument is the list of the \<open>len\<close> bytes at \<open>buf\<close>.\<close>

definition cpsw_tx :: "'w bus \<Rightarrow> u8 list \<Rightarrow> ('w, 'a) nic_scheme \<Rightarrow> int \<times> ('w, 'a) nic_scheme" where
  "cpsw_tx B buf s =
     (if length buf > CPSW_FRAME_MAXLEN then (- 1, s)
      else case wait_clear B (TX_BD_PA + BD_OFF_FLAGS) BD_OWNER RESET_TIMEOUT (hw s) of
        (False, w) \<Rightarrow> (- 1, s\<lparr>hw := w\<rparr>)
      | (True, w) \<Rightarrow> (0, s\<lparr>hw := bus_writes B (tx_go (length buf)) (mem_store B TX_BUF_PA buf w)\<rparr>))"

definition cpsw_set_rx_callback :: "('w, 'a) nic_scheme \<Rightarrow> ('w, 'a) nic_scheme" where
  "cpsw_set_rx_callback s = s\<lparr>s_rx_cb := True\<rparr>"

definition rx_diagnostic :: "u32 list" where
  "rx_diagnostic = [RX_BD_PA + BD_OFF_NEXT, RX_BD_PA + BD_OFF_BUFPTR, RX_BD_PA + BD_OFF_BUFLEN,
     RX_BD_PA + BD_OFF_FLAGS, CPDMA_DMASTATUS, STATERAM_RX0_HDP, STATERAM_RX0_CP, SL1_MACCONTROL, ALE_CONTROL,
     ALE_PORTCTL0, ALE_PORTCTL1, CPDMA_RX_CONTROL, CPDMA_TX_CONTROL, SS_STAT_PORT_EN, STATS_RXGOODFRAMES,
     STATS_RXCRCERRORS, STATS_RXOVERSIZEDFRAMES, STATS_RXUNDERSIZEDFRAMES]"

text \<open>The acknowledgement of a received frame, and the descriptor handed back for the next one.\<close>

definition rx_rearm :: "(u32 \<times> u32) list" where
  "rx_rearm = [(STATERAM_RX0_CP, RX_BD_PA), (CPDMA_EOI_VECTOR, CPDMA_EOI_RX)] @ rx_arm @ [(STATERAM_RX0_HDP, RX_BD_PA)]"

definition cpsw_rx_poll ::
  "'w bus \<Rightarrow> (u8 list \<Rightarrow> ('w, 'a) nic_scheme \<Rightarrow> ('w, 'a) nic_scheme option) \<Rightarrow>
   ('w, 'a) nic_scheme \<Rightarrow> ('w, 'a) nic_scheme option" where
  "cpsw_rx_poll B cb s0 =
     (let s1 = s0\<lparr>call_count := call_count s0 + 1\<rparr>;
          s2 = (if call_count s1 mod 1000 = 0 then s1\<lparr>hw := bus_reads B rx_diagnostic (hw s1)\<rparr> else s1)
      in case mmio_read32 B (RX_BD_PA + BD_OFF_FLAGS) (hw s2) of (flags, w) \<Rightarrow>
        let s3 = s2\<lparr>hw := w\<rparr> in
        if flags AND BD_OWNER \<noteq> 0 then Some s3
        else let len = unat (flags AND 0xFFFF) in
          map_option (\<lambda>s4. s4\<lparr>hw := bus_writes B rx_rearm (hw s4)\<rparr>)
            (if s_rx_cb s3 \<and> len > 0 then cb (mem_load B RX_BUF_PA len (hw s3)) s3 else Some s3))"

text \<open>The callback gets the bytes of the frame at the time of the call.  The code hands it a pointer into the receive
  buffer; the bytes there are the same until the descriptor is handed back, which happens after the callback or
  in a nested poll that comes to its end.\<close>

subsection \<open>The transmitter and the receiver as the driver sees them\<close>

text \<open>\<open>ready w\<close>: the engine will release the transmit descriptor in time.  \<open>sent w\<close> is what has gone
  out on the wire.\<close>

locale transmitter =
  fixes B :: "'w bus" and ready :: "'w \<Rightarrow> bool" and sent :: "'w \<Rightarrow> u8 list list"
  assumes release: "ready w \<Longrightarrow> \<exists>w'. wait_clear B (TX_BD_PA + BD_OFF_FLAGS) BD_OWNER RESET_TIMEOUT w = (True, w') \<and>
      ready w' \<and> sent w' = sent w"
    and start: "ready w \<Longrightarrow> length buf \<le> CPSW_FRAME_MAXLEN \<Longrightarrow>
      ready (bus_writes B (tx_go (length buf)) (mem_store B TX_BUF_PA buf w)) \<and>
      sent (bus_writes B (tx_go (length buf)) (mem_store B TX_BUF_PA buf w)) = sent w @ [buf]"
    and tick: "ready w \<Longrightarrow> ready (snd (timer_get_ticks B w)) \<and> sent (snd (timer_get_ticks B w)) = sent w"
begin

lemma cpsw_tx_sends:
  assumes "ready (hw s)" "length buf \<le> CPSW_FRAME_MAXLEN"
  shows "\<exists>w. cpsw_tx B buf s = (0, s\<lparr>hw := w\<rparr>) \<and> ready w \<and> sent w = sent (hw s) @ [buf]"
proof -
  obtain w where w: "wait_clear B (TX_BD_PA + BD_OFF_FLAGS) BD_OWNER RESET_TIMEOUT (hw s) = (True, w)"
    "ready w" "sent w = sent (hw s)"
    using release [OF assms(1)] by blast
  let ?w = "bus_writes B (tx_go (length buf)) (mem_store B TX_BUF_PA buf w)"
  have "cpsw_tx B buf s = (0, s\<lparr>hw := ?w\<rparr>)" using w assms(2) by (simp add: cpsw_tx_def)
  then show ?thesis using start [OF w(2) assms(2)] w(3) by auto
qed

end

text \<open>\<open>pend w\<close>: the receive descriptor belongs to the processor, with \<open>frame\<close> in the buffer.  Nothing
  but handing the descriptor back changes that.\<close>

locale pending_frame =
  fixes B :: "'w bus" and pend :: "'w \<Rightarrow> bool" and frame :: "u8 list"
  assumes flags: "pend w \<Longrightarrow> mmio_read32 B (RX_BD_PA + BD_OFF_FLAGS) w = (fl, w') \<Longrightarrow>
      fl AND BD_OWNER = 0 \<and> unat (fl AND 0xFFFF) = length frame"
    and contents: "pend w \<Longrightarrow> mem_load B RX_BUF_PA (length frame) w = frame"
    and reading: "pend w \<Longrightarrow> pend (snd (mmio_read32 B a w))"
    and sending: "pend w \<Longrightarrow> pend (bus_writes B (tx_go n) (mem_store B TX_BUF_PA buf w))"
    and clock: "pend w \<Longrightarrow> pend (snd (timer_get_ticks B w))"
begin

lemma pend_reads: "pend w \<Longrightarrow> pend (bus_reads B as w)"
  by (induction as arbitrary: w) (auto intro: reading)

lemma pend_wait: "pend w \<Longrightarrow> pend (snd (wait_clear B a bits t w))"
proof (induction t arbitrary: w)
  case 0
  then show ?case by (simp add: reading)
next
  case (Suc t)
  obtain v w' where r: "mmio_read32 B a w = (v, w')" by fastforce
  then have "pend w'" using reading [OF Suc(2), of a] by simp
  then show ?case using Suc(1) r by simp
qed

lemma pend_tx: "pend (hw s) \<Longrightarrow> \<exists>w. snd (cpsw_tx B buf s) = s\<lparr>hw := w\<rparr> \<and> pend w"
proof -
  assume p: "pend (hw s)"
  obtain ok w where r: "wait_clear B (TX_BD_PA + BD_OFF_FLAGS) BD_OWNER RESET_TIMEOUT (hw s) = (ok, w)" by fastforce
  have w: "pend w" using pend_wait [OF p, of "TX_BD_PA + BD_OFF_FLAGS" BD_OWNER RESET_TIMEOUT] r by simp
  define w' where "w' = (if length buf > CPSW_FRAME_MAXLEN then hw s else if ok
    then bus_writes B (tx_go (length buf)) (mem_store B TX_BUF_PA buf w) else w)"
  have "snd (cpsw_tx B buf s) = s\<lparr>hw := w'\<rparr>" using r by (simp add: cpsw_tx_def w'_def split: bool.splits)
  moreover have "pend w'" using p w sending by (simp add: w'_def)
  ultimately show ?thesis by blast
qed

text \<open>Polling delivers the frame while the descriptor still shows it.\<close>

lemma poll_delivers:
  assumes "pend (hw s)" "s_rx_cb s" "frame \<noteq> []"
  shows "\<exists>w c. pend w \<and> cpsw_rx_poll B cb s =
    map_option (\<lambda>s4. s4\<lparr>hw := bus_writes B rx_rearm (hw s4)\<rparr>) (cb frame (s\<lparr>call_count := c, hw := w\<rparr>))"
proof -
  define s1 where "s1 = s\<lparr>call_count := call_count s + 1\<rparr>"
  define u where "u = (if call_count s1 mod 1000 = 0 then bus_reads B rx_diagnostic (hw s) else hw s)"
  have u: "pend u" using assms(1) by (auto simp: u_def intro: pend_reads)
  obtain fl w where r: "mmio_read32 B (RX_BD_PA + BD_OFF_FLAGS) u = (fl, w)" by fastforce
  have w: "pend w" using reading [OF u, of "RX_BD_PA + BD_OFF_FLAGS"] r by simp
  have s2: "(if call_count s1 mod 1000 = 0 then s1\<lparr>hw := bus_reads B rx_diagnostic (hw s1)\<rparr> else s1) = s1\<lparr>hw := u\<rparr>"
    by (simp add: u_def s1_def)
  have "cpsw_rx_poll B cb s =
      map_option (\<lambda>s4. s4\<lparr>hw := bus_writes B rx_rearm (hw s4)\<rparr>) (cb frame (s1\<lparr>hw := w\<rparr>))"
    using r flags [OF u r] contents [OF w] assms(2,3)
    by (simp add: cpsw_rx_poll_def s1_def [symmetric] s2 Let_def) (simp add: s1_def)
  then show ?thesis using w by (auto simp: s1_def)
qed

end

subsection \<open>A network interface in memory\<close>

text \<open>An instance of both contracts: registers that hold what was written, a transmit buffer whose
  contents go out when the head pointer is written, a receive buffer and a clock.\<close>

record sim_nic =
  sim_regs :: "u32 \<Rightarrow> u32"
  sim_txbuf :: "u8 list"
  sim_rxbuf :: "u8 list"
  sim_wire :: "u8 list list"
  sim_clock :: u32

definition sim_bus :: "sim_nic bus" where
  "sim_bus = \<lparr>mmio_read32 = (\<lambda>a w. (sim_regs w a, w)),
     mmio_write32 = (\<lambda>a v w. if a = STATERAM_TX0_HDP
       then w\<lparr>sim_wire := sim_wire w @ [take (unat (sim_regs w (TX_BD_PA + BD_OFF_BUFLEN))) (sim_txbuf w)],
              sim_regs := (sim_regs w)(TX_BD_PA + BD_OFF_FLAGS := 0)\<rparr>
       else w\<lparr>sim_regs := (sim_regs w)(a := v)\<rparr>),
     mem_load = (\<lambda>a n w. take n (sim_rxbuf w)),
     mem_store = (\<lambda>a bs w. w\<lparr>sim_txbuf := blit (sim_txbuf w) 0 bs\<rparr>),
     timer_get_ticks = (\<lambda>w. (sim_clock w, w))\<rparr>"

definition sim_ready :: "sim_nic \<Rightarrow> bool" where
  "sim_ready w \<longleftrightarrow> sim_regs w (TX_BD_PA + BD_OFF_FLAGS) = 0 \<and> length (sim_txbuf w) = CPSW_FRAME_MAXLEN"

definition sim_pend :: "u8 list \<Rightarrow> sim_nic \<Rightarrow> bool" where
  "sim_pend frame w \<longleftrightarrow> sim_regs w (RX_BD_PA + BD_OFF_FLAGS) = of_nat (length frame) \<and> length frame \<le> CPSW_FRAME_MAXLEN \<and>
     sim_rxbuf w = frame"

lemmas sim_regs_simps = sim_bus_def tx_go_def STATERAM_TX0_HDP_def TX_BD_PA_def RX_BD_PA_def BD_OFF_NEXT_def
  BD_OFF_BUFPTR_def BD_OFF_BUFLEN_def BD_OFF_FLAGS_def CPSW_FRAME_MAXLEN_def

interpretation sim_tx: transmitter sim_bus sim_ready sim_wire
proof
  fix w :: sim_nic
  assume r: "sim_ready w"
  have "wait_clear sim_bus (TX_BD_PA + BD_OFF_FLAGS) BD_OWNER (Suc n) w = (True, w)" for n
    using r by (simp add: sim_ready_def sim_bus_def)
  then have "wait_clear sim_bus (TX_BD_PA + BD_OFF_FLAGS) BD_OWNER RESET_TIMEOUT w = (True, w)"
    by (simp add: RESET_TIMEOUT_def numeral_eq_Suc)
  then show "\<exists>w'. wait_clear sim_bus (TX_BD_PA + BD_OFF_FLAGS) BD_OWNER RESET_TIMEOUT w = (True, w') \<and>
      sim_ready w' \<and> sim_wire w' = sim_wire w" using r by blast
  show "sim_ready (snd (timer_get_ticks sim_bus w)) \<and> sim_wire (snd (timer_get_ticks sim_bus w)) = sim_wire w"
    using r by (simp add: sim_bus_def)
  fix buf :: "u8 list"
  assume l: "length buf \<le> CPSW_FRAME_MAXLEN"
  then have n: "unat (of_nat (length buf) :: u32) = length buf"
    by (simp add: CPSW_FRAME_MAXLEN_def unat_of_nat)
  have b: "take (length buf) (blit (sim_txbuf w) 0 buf) = buf"
    using r l take_drop_blit [of 0 buf "sim_txbuf w"] by (simp add: sim_ready_def)
  show "sim_ready (bus_writes sim_bus (tx_go (length buf)) (mem_store sim_bus TX_BUF_PA buf w)) \<and>
      sim_wire (bus_writes sim_bus (tx_go (length buf)) (mem_store sim_bus TX_BUF_PA buf w)) = sim_wire w @ [buf]"
    using r l n b by (simp add: sim_ready_def sim_regs_simps)
qed

interpretation sim_rx: pending_frame sim_bus "sim_pend frame" frame for frame
proof
  fix w w' :: sim_nic and fl a :: u32 and n :: nat and buf :: "u8 list"
  assume p: "sim_pend frame w"
  show "fl AND BD_OWNER = 0 \<and> unat (fl AND 0xFFFF) = length frame"
    if "mmio_read32 sim_bus (RX_BD_PA + BD_OFF_FLAGS) w = (fl, w')"
  proof -
    have fl: "fl = of_nat (length frame)" "length frame \<le> 1024"
      using that p by (auto simp: sim_bus_def sim_pend_def CPSW_FRAME_MAXLEN_def)
    then have u: "unat fl = length frame" by (simp add: unat_of_nat)
    have t: "fl AND 0xFFFF = take_bit 16 fl" by (simp add: take_bit_eq_mask mask_eq_exp_minus_1)
    have "unat (take_bit 16 fl) = unat fl"
      by (simp only: unsigned_take_bit_eq) (use u fl(2) in \<open>simp add: take_bit_eq_mod\<close>)
    then have "take_bit 16 fl = fl" by (simp only: word_unat_eq_iff)
    then have "fl AND BD_OWNER = take_bit 16 fl AND BD_OWNER" by simp
    also have "BD_OWNER = push_bit 31 1" by (simp add: BD_OWNER_def)
    also have "take_bit 16 fl AND push_bit 31 1 = 0" by (rule bit_word_eqI) (simp only: bit_and_iff bit_take_bit_iff bit_push_bit_iff, auto)
    finally show ?thesis using t u \<open>take_bit 16 fl = fl\<close> by (simp add: BD_OWNER_def)
  qed
  show "mem_load sim_bus RX_BUF_PA (length frame) w = frame" using p by (simp add: sim_bus_def sim_pend_def)
  show "sim_pend frame (snd (mmio_read32 sim_bus a w))" "sim_pend frame (snd (timer_get_ticks sim_bus w))"
    using p by (simp_all add: sim_bus_def)
  show "sim_pend frame (bus_writes sim_bus (tx_go n) (mem_store sim_bus TX_BUF_PA buf w))"
    using p by (simp add: sim_pend_def sim_regs_simps)
qed

end
