(* ===== verification/Netcore.thy ===== *)
theory Netcore
  imports Cpsw
begin

section \<open>The network core (\<open>kernel/src/drivers/netcore.c\<close>)\<close>

text \<open>
  Ethernet, ARP, IPv4, ICMP and the UDP hook, every function of the file.  The static variables,
  those inside functions included, are the record \<open>net_state\<close>, which extends the state of the MAC
  driver; packed structs are records with the functions that lay them out in memory in the
  processor's little-endian order.

  Two points where the order of events matters are kept.  The payload of \<open>ip_tx\<close> is named by the
  static buffer it lies in and read after the address resolution, as the code does, because the
  resolution may receive frames that overwrite such a buffer.  And the functions below the receiver
  take the receive callback as an argument: in the kernel it is \<open>netcore_rx\<close> itself, reached again
  through \<open>cpsw_rx_poll\<close>.  \<open>rx_depth n\<close> ties that knot with at most \<open>n\<close> activations of the callback
  on the stack; \<open>None\<close> means that they do not suffice.

  The handler of UDP datagrams is a function on the world behind the bus; no code of the kernel
  installs one.
\<close>

subsection \<open>Constants, packet layouts and state\<close>

definition ETHERTYPE_ARP :: u16 where [vx_consts]: "ETHERTYPE_ARP = 0x0806"
definition ETHERTYPE_IPV4 :: u16 where [vx_consts]: "ETHERTYPE_IPV4 = 0x0800"
definition IP_PROTO_ICMP :: u8 where [vx_consts]: "IP_PROTO_ICMP = 1"
definition IP_PROTO_UDP :: u8 where [vx_consts]: "IP_PROTO_UDP = 17"
definition ETH_HEADER_LEN :: nat where [vx_consts]: "ETH_HEADER_LEN = 14"
definition ETH_MIN_FRAME :: nat where [vx_consts]: "ETH_MIN_FRAME = 60"
definition ETH_PAYLOAD_MAX :: nat where [vx_consts]: "ETH_PAYLOAD_MAX = CPSW_FRAME_MAXLEN - ETH_HEADER_LEN"
definition ARP_CACHE_SIZE :: nat where [vx_consts]: "ARP_CACHE_SIZE = 8"
definition ARP_TIMEOUT :: u32 where [vx_consts]: "ARP_TIMEOUT = 6000"
definition ARP_RESOLVE_ITER :: nat where "ARP_RESOLVE_ITER = 50000"
definition IP_HEADER_LEN :: nat where [vx_consts]: "IP_HEADER_LEN = 20"
definition IP_VER_IHL :: u8 where [vx_consts]: "IP_VER_IHL = 0x45"
definition IP_TTL :: u8 where [vx_consts]: "IP_TTL = 64"
definition IP_PAYLOAD_MAX :: nat where [vx_consts]: "IP_PAYLOAD_MAX = ETH_PAYLOAD_MAX - IP_HEADER_LEN"
definition ICMP_HEADER_LEN :: nat where [vx_consts]: "ICMP_HEADER_LEN = 8"
definition ICMP_ECHO_REQ :: u8 where [vx_consts]: "ICMP_ECHO_REQ = 8"
definition ICMP_ECHO_REP :: u8 where [vx_consts]: "ICMP_ECHO_REP = 0"
definition ICMP_DATA_LEN :: nat where [vx_consts]: "ICMP_DATA_LEN = 56"
definition ICMP_WAIT_ITER :: nat where "ICMP_WAIT_ITER = 200000"
definition UDP_HEADER_LEN :: nat where [vx_consts]: "UDP_HEADER_LEN = 8"
definition UDP_DATA_MAX :: nat where [vx_consts]: "UDP_DATA_MAX = IP_PAYLOAD_MAX - UDP_HEADER_LEN"

record eth_hdr =
  eth_dst :: "u8 list"
  eth_src :: "u8 list"
  ethertype :: u16

record arp_pkt =
  hw_type :: u16
  proto_type :: u16
  hw_len :: u8
  proto_len :: u8
  opcode :: u16
  sender_mac :: "u8 list"
  sender_ip :: u32
  target_mac :: "u8 list"
  target_ip :: u32

record ip_hdr =
  ver_ihl :: u8
  tos :: u8
  total_len :: u16
  ip_id :: u16
  flags_frag :: u16
  ttl :: u8
  protocol :: u8
  ip_checksum :: u16
  src_ip :: u32
  dst_ip :: u32

record icmp_hdr =
  icmp_type :: u8
  icmp_code :: u8
  icmp_checksum :: u16
  icmp_id :: u16
  icmp_seq :: u16

record udp_hdr =
  src_port :: u16
  dst_port :: u16
  udp_length :: u16
  udp_checksum :: u16

text \<open>The structs in memory.\<close>

definition eth_bytes :: "eth_hdr \<Rightarrow> u8 list" where
  "eth_bytes h = eth_dst h @ eth_src h @ le16 (ethertype h)"

definition eth_of :: "u8 list \<Rightarrow> eth_hdr" where
  "eth_of p = \<lparr>eth_dst = take 6 p, eth_src = take 6 (drop 6 p), ethertype = rd16 p 12\<rparr>"

definition arp_bytes :: "arp_pkt \<Rightarrow> u8 list" where
  "arp_bytes p = le16 (hw_type p) @ le16 (proto_type p) @ [hw_len p, proto_len p] @ le16 (opcode p) @
     sender_mac p @ le32 (sender_ip p) @ target_mac p @ le32 (target_ip p)"

definition arp_of :: "u8 list \<Rightarrow> arp_pkt" where
  "arp_of p = \<lparr>hw_type = rd16 p 0, proto_type = rd16 p 2, hw_len = p ! 4, proto_len = p ! 5, opcode = rd16 p 6,
     sender_mac = take 6 (drop 8 p), sender_ip = rd32 p 14, target_mac = take 6 (drop 18 p), target_ip = rd32 p 24\<rparr>"

definition ip_bytes :: "ip_hdr \<Rightarrow> u8 list" where
  "ip_bytes h = [ver_ihl h, tos h] @ le16 (total_len h) @ le16 (ip_id h) @ le16 (flags_frag h) @
     [ttl h, protocol h] @ le16 (ip_checksum h) @ le32 (src_ip h) @ le32 (dst_ip h)"

definition ip_of :: "u8 list \<Rightarrow> ip_hdr" where
  "ip_of p = \<lparr>ver_ihl = p ! 0, tos = p ! 1, total_len = rd16 p 2, ip_id = rd16 p 4, flags_frag = rd16 p 6,
     ttl = p ! 8, protocol = p ! 9, ip_checksum = rd16 p 10, src_ip = rd32 p 12, dst_ip = rd32 p 16\<rparr>"

definition icmp_bytes :: "icmp_hdr \<Rightarrow> u8 list" where
  "icmp_bytes h = [icmp_type h, icmp_code h] @ le16 (icmp_checksum h) @ le16 (icmp_id h) @ le16 (icmp_seq h)"

definition icmp_of :: "u8 list \<Rightarrow> icmp_hdr" where
  "icmp_of p = \<lparr>icmp_type = p ! 0, icmp_code = p ! 1, icmp_checksum = rd16 p 2, icmp_id = rd16 p 4, icmp_seq = rd16 p 6\<rparr>"

definition udp_bytes :: "udp_hdr \<Rightarrow> u8 list" where
  "udp_bytes h = le16 (src_port h) @ le16 (dst_port h) @ le16 (udp_length h) @ le16 (udp_checksum h)"

definition udp_of :: "u8 list \<Rightarrow> udp_hdr" where
  "udp_of p = \<lparr>src_port = rd16 p 0, dst_port = rd16 p 2, udp_length = rd16 p 4, udp_checksum = rd16 p 6\<rparr>"

record arp_entry =
  ae_ip :: u32
  ae_mac :: "u8 list"
  ae_ts :: u32
  ae_valid :: bool

record icmp_rep =
  rep_got :: bool
  rep_id :: u16
  rep_seq :: u16
  rep_ts :: u32

record 'w net_state = "'w nic" +
  g_mac :: "u8 list"
  g_ip :: u32
  g_ip_id :: u16
  g_tx_frame :: "u8 list"
  g_arp :: "arp_entry list"
  g_icmp_rep :: icmp_rep
  g_udp_cb :: "(u32 \<Rightarrow> u16 \<Rightarrow> u16 \<Rightarrow> u8 list \<Rightarrow> 'w \<Rightarrow> 'w) option"
  ip_tx_buf :: "u8 list"
  reply_buf :: "u8 list"
  udp_buf :: "u8 list"
  ping_buf :: "u8 list"

text \<open>The receive callback, as the functions below it see it.\<close>

type_synonym 'w rx_cb = "u8 list \<Rightarrow> 'w net_state \<Rightarrow> 'w net_state option"

subsection \<open>Helpers\<close>

definition bswap16 :: "u16 \<Rightarrow> u16" where
  "bswap16 v = drop_bit 8 v OR push_bit 8 v"

fun cksum_sum :: "u8 list \<Rightarrow> u32 \<Rightarrow> u32" where
  "cksum_sum (a # b # p) s = cksum_sum p (s + (push_bit 8 (ucast a) OR ucast b))"
| "cksum_sum [a] s = s + push_bit 8 (ucast a)"
| "cksum_sum [] s = s"

lemma fold_step: "unat ((s AND 0xFFFF) + drop_bit 16 s) = unat s mod 65536 + unat (s :: u32) div 65536"
proof -
  have "s AND 0xFFFF = take_bit 16 s" by (simp add: take_bit_eq_mask mask_eq_exp_minus_1)
  then have a: "unat (s AND 0xFFFF) = unat s mod 65536"
    by (simp only: unsigned_take_bit_eq) (simp add: take_bit_eq_mod)
  have d: "unat (drop_bit 16 s) = unat s div 65536"
    by (simp only: unat_drop_bit_eq) (simp add: drop_bit_eq_div)
  have "unat s < 2 ^ 32" using unsigned_less [of s] by simp
  then have "unat s mod 65536 + unat s div 65536 < 2 ^ 32" by simp
  then show ?thesis by (simp add: unat_word_ariths(1) a d)
qed

lemma fold_more: "drop_bit 16 (s :: u32) \<noteq> 0 \<longleftrightarrow> 65536 \<le> unat s"
proof -
  have "unat (drop_bit 16 s) = unat s div 65536"
    by (simp only: unat_drop_bit_eq) (simp add: drop_bit_eq_div)
  moreover have "drop_bit 16 s = 0 \<longleftrightarrow> unat (drop_bit 16 s) = 0" by (simp add: unat_eq_0)
  ultimately show ?thesis by (simp add: div_eq_0_iff not_less)
qed

function cksum_fold :: "u32 \<Rightarrow> u32" where
  "cksum_fold s = (if drop_bit 16 s \<noteq> 0 then cksum_fold ((s AND 0xFFFF) + drop_bit 16 s) else s)"
  by pat_completeness auto
termination
proof (relation "measure unat")
  fix s :: u32
  assume "drop_bit 16 s \<noteq> 0"
  then have "65536 \<le> unat s" by (simp add: fold_more)
  then have "unat s mod 65536 + unat s div 65536 < unat s"
    using div_mult_mod_eq [of "unat s" 65536] by linarith
  then show "((s AND 0xFFFF) + drop_bit 16 s, s) \<in> measure unat" by (simp add: fold_step)
qed simp

declare cksum_fold.simps [simp del]

definition net_cksum :: "u8 list \<Rightarrow> u16" where
  "net_cksum p = ucast (NOT (cksum_fold (cksum_sum p 0)))"

definition mac_is_bcast :: "u8 list \<Rightarrow> bool" where
  "mac_is_bcast m \<longleftrightarrow> m ! 0 AND m ! 1 AND m ! 2 AND m ! 3 AND m ! 4 AND m ! 5 = 0xFF"

definition mac_eq :: "u8 list \<Rightarrow> u8 list \<Rightarrow> bool" where
  "mac_eq a b \<longleftrightarrow> a ! 0 = b ! 0 \<and> a ! 1 = b ! 1 \<and> a ! 2 = b ! 2 \<and> a ! 3 = b ! 3 \<and> a ! 4 = b ! 4 \<and> a ! 5 = b ! 5"

subsection \<open>Ethernet transmission\<close>

definition ether_tx :: "'w bus \<Rightarrow> u8 list \<Rightarrow> u16 \<Rightarrow> u8 list \<Rightarrow> 'w net_state \<Rightarrow> int \<times> 'w net_state" where
  "ether_tx B dst etype payload s =
     (if length payload > ETH_PAYLOAD_MAX then (- 1, s)
      else let fr1 = blit (g_tx_frame s) 0 (eth_bytes \<lparr>eth_dst = take 6 dst, eth_src = take 6 (g_mac s), ethertype = bswap16 etype\<rparr>);
               fr2 = blit fr1 ETH_HEADER_LEN payload;
               flen = ETH_HEADER_LEN + length payload;
               fr3 = (if flen < ETH_MIN_FRAME then blit fr2 flen (replicate (ETH_MIN_FRAME - flen) 0) else fr2);
               flen' = (if flen < ETH_MIN_FRAME then ETH_MIN_FRAME else flen)
        in cpsw_tx B (take flen' fr3) (s\<lparr>g_tx_frame := fr3\<rparr>))"

subsection \<open>The ARP cache\<close>

fun arp_find_loop :: "u32 \<Rightarrow> u32 \<Rightarrow> nat list \<Rightarrow> arp_entry list \<Rightarrow> nat option \<times> arp_entry list" where
  "arp_find_loop now ip [] t = (None, t)"
| "arp_find_loop now ip (i # js) t =
     (if ae_valid (t ! i) \<and> ae_ip (t ! i) = ip then
        if now - ae_ts (t ! i) < ARP_TIMEOUT then (Some i, t)
        else arp_find_loop now ip js (t[i := (t ! i)\<lparr>ae_valid := False\<rparr>])
      else arp_find_loop now ip js t)"

definition get_ticks :: "'w bus \<Rightarrow> 'w net_state \<Rightarrow> u32 \<times> 'w net_state" where
  "get_ticks B s = (case timer_get_ticks B (hw s) of (t, w) \<Rightarrow> (t, s\<lparr>hw := w\<rparr>))"

definition arp_find :: "'w bus \<Rightarrow> u32 \<Rightarrow> 'w net_state \<Rightarrow> nat option \<times> 'w net_state" where
  "arp_find B ip s = (case get_ticks B s of (now, s') \<Rightarrow>
     case arp_find_loop now ip [0..<ARP_CACHE_SIZE] (g_arp s') of (r, t) \<Rightarrow> (r, s'\<lparr>g_arp := t\<rparr>))"

fun arp_alloc_loop :: "nat list \<Rightarrow> nat \<Rightarrow> arp_entry list \<Rightarrow> nat" where
  "arp_alloc_loop [] oldest t = oldest"
| "arp_alloc_loop (i # js) oldest t =
     (if \<not> ae_valid (t ! i) then i
      else arp_alloc_loop js (if ae_ts (t ! i) < ae_ts (t ! oldest) then i else oldest) t)"

definition arp_alloc :: "'w net_state \<Rightarrow> nat" where
  "arp_alloc s = arp_alloc_loop [0..<ARP_CACHE_SIZE] 0 (g_arp s)"

definition arp_cache_update :: "'w bus \<Rightarrow> u32 \<Rightarrow> u8 list \<Rightarrow> 'w net_state \<Rightarrow> 'w net_state" where
  "arp_cache_update B ip mac s =
     (case arp_find B ip s of (r, s1) \<Rightarrow>
        let e = (case r of Some i \<Rightarrow> i | None \<Rightarrow> arp_alloc s1) in
        case get_ticks B s1 of (now, s2) \<Rightarrow>
          s2\<lparr>g_arp := (g_arp s2)[e := \<lparr>ae_ip = ip, ae_mac = take 6 mac, ae_ts = now, ae_valid = True\<rparr>]\<rparr>)"

subsection \<open>ARP requests and resolution\<close>

definition arp_request :: "'w bus \<Rightarrow> u32 \<Rightarrow> 'w net_state \<Rightarrow> 'w net_state" where
  "arp_request B ip s = snd (ether_tx B (replicate 6 0xFF) ETHERTYPE_ARP
     (arp_bytes \<lparr>hw_type = bswap16 1, proto_type = bswap16 ETHERTYPE_IPV4, hw_len = 6, proto_len = 4,
        opcode = bswap16 1, sender_mac = take 6 (g_mac s), sender_ip = g_ip s, target_mac = replicate 6 0,
        target_ip = ip\<rparr>) s)"

fun arp_poll :: "'w bus \<Rightarrow> 'w rx_cb \<Rightarrow> u32 \<Rightarrow> nat \<Rightarrow> 'w net_state \<Rightarrow> (u8 list option \<times> 'w net_state) option" where
  "arp_poll B cb ip 0 s = Some (None, s)"
| "arp_poll B cb ip (Suc n) s =
     (case cpsw_rx_poll B cb s of
        None \<Rightarrow> None
      | Some s1 \<Rightarrow> (case arp_find B ip s1 of
          (Some i, s2) \<Rightarrow> Some (Some (take 6 (ae_mac (g_arp s2 ! i))), s2)
        | (None, s2) \<Rightarrow> arp_poll B cb ip n s2))"

definition arp_resolve :: "'w bus \<Rightarrow> 'w rx_cb \<Rightarrow> u32 \<Rightarrow> 'w net_state \<Rightarrow> (u8 list option \<times> 'w net_state) option" where
  "arp_resolve B cb ip s =
     (case arp_find B ip s of
        (Some i, s1) \<Rightarrow> Some (Some (take 6 (ae_mac (g_arp s1 ! i))), s1)
      | (None, s1) \<Rightarrow> arp_poll B cb ip ARP_RESOLVE_ITER (arp_request B ip s1))"

definition arp_rx :: "'w bus \<Rightarrow> u8 list \<Rightarrow> 'w net_state \<Rightarrow> 'w net_state" where
  "arp_rx B payload s =
     (if length payload < 28 then s
      else let p = arp_of payload; s1 = arp_cache_update B (sender_ip p) (sender_mac p) s in
        if bswap16 (opcode p) = 1 \<and> target_ip p = g_ip s1
        then snd (ether_tx B (sender_mac p) ETHERTYPE_ARP
          (arp_bytes \<lparr>hw_type = bswap16 1, proto_type = bswap16 ETHERTYPE_IPV4, hw_len = 6, proto_len = 4,
             opcode = bswap16 2, sender_mac = take 6 (g_mac s1), sender_ip = g_ip s1,
             target_mac = sender_mac p, target_ip = sender_ip p\<rparr>) s1)
        else s1)"

subsection \<open>IPv4 transmission\<close>

datatype pbuf = ReplyBuf | UdpBuf | PingBuf

definition pbuf_data :: "pbuf \<Rightarrow> 'w net_state \<Rightarrow> u8 list" where
  "pbuf_data b s = (case b of ReplyBuf \<Rightarrow> reply_buf s | UdpBuf \<Rightarrow> udp_buf s | PingBuf \<Rightarrow> ping_buf s)"

definition ip_tx_hdr :: "u32 \<Rightarrow> u8 \<Rightarrow> nat \<Rightarrow> 'w net_state \<Rightarrow> ip_hdr" where
  "ip_tx_hdr dst proto len s = \<lparr>ver_ihl = IP_VER_IHL, tos = 0, total_len = bswap16 (of_nat (IP_HEADER_LEN + len)),
     ip_id = bswap16 (g_ip_id s), flags_frag = 0, ttl = IP_TTL, protocol = proto, ip_checksum = 0,
     src_ip = g_ip s, dst_ip = dst\<rparr>"

text \<open>The packet: the header, laid out first with a zero checksum, then with the checksum of that,
  and the payload.\<close>

definition ip_packet :: "u8 list \<Rightarrow> ip_hdr \<Rightarrow> u8 list \<Rightarrow> u8 list" where
  "ip_packet tx h payload =
     (let tx1 = blit tx 0 (ip_bytes h);
          tx2 = blit tx1 0 (ip_bytes (h\<lparr>ip_checksum := net_cksum (take IP_HEADER_LEN tx1)\<rparr>))
      in blit tx2 IP_HEADER_LEN payload)"

definition ip_tx :: "'w bus \<Rightarrow> 'w rx_cb \<Rightarrow> u32 \<Rightarrow> u8 \<Rightarrow> pbuf \<Rightarrow> nat \<Rightarrow> 'w net_state \<Rightarrow> (int \<times> 'w net_state) option" where
  "ip_tx B cb dst proto pb len s =
     (if len > IP_PAYLOAD_MAX then Some (- 1, s)
      else case arp_resolve B cb dst s of
        None \<Rightarrow> None
      | Some (None, s1) \<Rightarrow> Some (- 1, s1)
      | Some (Some dst_mac, s1) \<Rightarrow>
          let tx = ip_packet (ip_tx_buf s1) (ip_tx_hdr dst proto len s1) (take len (pbuf_data pb s1)) in
          Some (ether_tx B dst_mac ETHERTYPE_IPV4 (take (IP_HEADER_LEN + len) tx)
            (s1\<lparr>g_ip_id := g_ip_id s1 + 1, ip_tx_buf := tx\<rparr>)))"

subsection \<open>Reception\<close>

text \<open>The ICMP message in the static buffer \<open>buf\<close>: the header with a zero checksum, the data, and
  then the checksum over both.\<close>

definition icmp_fill :: "u8 list \<Rightarrow> icmp_hdr \<Rightarrow> u8 list \<Rightarrow> u8 list" where
  "icmp_fill buf h data =
     (let b1 = blit (blit buf 0 (icmp_bytes h)) ICMP_HEADER_LEN data;
          ck = net_cksum (take (ICMP_HEADER_LEN + length data) b1)
      in blit b1 0 (icmp_bytes (h\<lparr>icmp_checksum := ck\<rparr>)))"

definition icmp_rx :: "'w bus \<Rightarrow> 'w rx_cb \<Rightarrow> u32 \<Rightarrow> u8 list \<Rightarrow> 'w net_state \<Rightarrow> 'w net_state option" where
  "icmp_rx B cb src payload s =
     (if length payload < ICMP_HEADER_LEN then Some s
      else let h = icmp_of payload in
        if icmp_type h = ICMP_ECHO_REQ then
          let data = take ICMP_DATA_LEN (drop ICMP_HEADER_LEN payload);
              rep = \<lparr>icmp_type = ICMP_ECHO_REP, icmp_code = 0, icmp_checksum = 0, icmp_id = icmp_id h, icmp_seq = icmp_seq h\<rparr>;
              s1 = s\<lparr>reply_buf := icmp_fill (reply_buf s) rep data\<rparr>
          in map_option snd (ip_tx B cb src IP_PROTO_ICMP ReplyBuf (ICMP_HEADER_LEN + length data) s1)
        else if icmp_type h = ICMP_ECHO_REP then
          (case get_ticks B s of (now, s1) \<Rightarrow>
             Some (s1\<lparr>g_icmp_rep := \<lparr>rep_got = True, rep_id = bswap16 (icmp_id h), rep_seq = bswap16 (icmp_seq h), rep_ts = now\<rparr>\<rparr>))
        else Some s)"

definition udp_rx :: "u32 \<Rightarrow> u8 list \<Rightarrow> 'w net_state \<Rightarrow> 'w net_state" where
  "udp_rx src payload s =
     (if length payload < UDP_HEADER_LEN then s
      else let h = udp_of payload; n = unat (bswap16 (udp_length h)) in
        if n < UDP_HEADER_LEN then s
        else let dlen = min (n - UDP_HEADER_LEN) (length payload - UDP_HEADER_LEN) in
          case g_udp_cb s of
            None \<Rightarrow> s
          | Some f \<Rightarrow> s\<lparr>hw := f src (bswap16 (src_port h)) (bswap16 (dst_port h)) (take dlen (drop UDP_HEADER_LEN payload)) (hw s)\<rparr>)"

definition ip_rx :: "'w bus \<Rightarrow> 'w rx_cb \<Rightarrow> u8 list \<Rightarrow> 'w net_state \<Rightarrow> 'w net_state option" where
  "ip_rx B cb payload s =
     (if length payload < IP_HEADER_LEN then Some s
      else let h = ip_of payload in
        if ver_ihl h \<noteq> IP_VER_IHL then Some s
        else if flags_frag h AND bswap16 0x1FFF \<noteq> 0 then Some s
        else if net_cksum (take IP_HEADER_LEN payload) \<noteq> 0 then Some s
        else if dst_ip h \<noteq> g_ip s \<and> dst_ip h \<noteq> 0xFFFFFFFF then Some s
        else let total = unat (bswap16 (total_len h)) in
          if total < IP_HEADER_LEN \<or> total > length payload then Some s
          else let ip_pay = take (total - IP_HEADER_LEN) (drop IP_HEADER_LEN payload) in
            if protocol h = IP_PROTO_ICMP then icmp_rx B cb (src_ip h) ip_pay s
            else if protocol h = IP_PROTO_UDP then Some (udp_rx (src_ip h) ip_pay s)
            else Some s)"

definition netcore_rx :: "'w bus \<Rightarrow> 'w rx_cb \<Rightarrow> u8 list \<Rightarrow> 'w net_state \<Rightarrow> 'w net_state option" where
  "netcore_rx B cb frame s =
     (if length frame < ETH_HEADER_LEN then Some s
      else let h = eth_of frame in
        if \<not> mac_eq (eth_dst h) (g_mac s) \<and> \<not> mac_is_bcast (eth_dst h) then Some s
        else let etype = bswap16 (ethertype h); payload = drop ETH_HEADER_LEN frame in
          if etype = ETHERTYPE_ARP then Some (arp_rx B payload s)
          else if etype = ETHERTYPE_IPV4 then ip_rx B cb payload s
          else Some s)"

fun rx_depth :: "nat \<Rightarrow> 'w bus \<Rightarrow> 'w rx_cb" where
  "rx_depth 0 B frame s = None"
| "rx_depth (Suc n) B frame s = netcore_rx B (rx_depth n B) frame s"

subsection \<open>The public interface\<close>

definition netcore_init :: "u32 \<Rightarrow> 'w net_state \<Rightarrow> int \<times> 'w net_state" where
  "netcore_init my_ip s =
     (0, cpsw_set_rx_callback (s\<lparr>g_mac := cpsw_get_mac s, g_ip := my_ip, g_ip_id := 0,
        g_arp := replicate ARP_CACHE_SIZE \<lparr>ae_ip = 0, ae_mac = replicate 6 0, ae_ts = 0, ae_valid = False\<rparr>,
        g_icmp_rep := (g_icmp_rep s)\<lparr>rep_got := False\<rparr>, g_udp_cb := None\<rparr>))"

definition netcore_send_udp :: "'w bus \<Rightarrow> 'w rx_cb \<Rightarrow> u32 \<Rightarrow> u16 \<Rightarrow> u16 \<Rightarrow> u8 list \<Rightarrow> 'w net_state \<Rightarrow>
    (int \<times> 'w net_state) option" where
  "netcore_send_udp B cb dst dport sport data s =
     (if length data > UDP_DATA_MAX then Some (- 1, s)
      else let h = \<lparr>src_port = bswap16 sport, dst_port = bswap16 dport,
                 udp_length = bswap16 (of_nat (UDP_HEADER_LEN + length data)), udp_checksum = 0\<rparr>;
               b = blit (blit (udp_buf s) 0 (udp_bytes h)) UDP_HEADER_LEN data
        in ip_tx B cb dst IP_PROTO_UDP UdpBuf (UDP_HEADER_LEN + length data) (s\<lparr>udp_buf := b\<rparr>))"

fun ping_poll :: "'w bus \<Rightarrow> 'w rx_cb \<Rightarrow> u16 \<Rightarrow> u16 \<Rightarrow> u32 \<Rightarrow> nat \<Rightarrow> 'w net_state \<Rightarrow>
    (int \<times> u32 option \<times> 'w net_state) option" where
  "ping_poll B cb i q t0 0 s = Some (- 1, None, s)"
| "ping_poll B cb i q t0 (Suc n) s =
     (case cpsw_rx_poll B cb s of
        None \<Rightarrow> None
      | Some s1 \<Rightarrow>
          if rep_got (g_icmp_rep s1) \<and> rep_id (g_icmp_rep s1) = i \<and> rep_seq (g_icmp_rep s1) = q
          then (case get_ticks B s1 of (t, s2) \<Rightarrow>
                 Some (0, Some (t - t0), s2\<lparr>g_icmp_rep := (g_icmp_rep s2)\<lparr>rep_got := False\<rparr>\<rparr>))
          else ping_poll B cb i q t0 n s1)"

text \<open>With a non-null \<open>rtt_ticks\<close>; the second result is what is stored there.\<close>

definition netcore_ping :: "'w bus \<Rightarrow> 'w rx_cb \<Rightarrow> u32 \<Rightarrow> u16 \<Rightarrow> u16 \<Rightarrow> 'w net_state \<Rightarrow>
    (int \<times> u32 option \<times> 'w net_state) option" where
  "netcore_ping B cb dst i q s =
     (let h = \<lparr>icmp_type = ICMP_ECHO_REQ, icmp_code = 0, icmp_checksum = 0, icmp_id = bswap16 i, icmp_seq = bswap16 q\<rparr>;
          b = icmp_fill (ping_buf s) h (map of_nat [0..<ICMP_DATA_LEN]);
          s1 = s\<lparr>ping_buf := b, g_icmp_rep := (g_icmp_rep s)\<lparr>rep_got := False\<rparr>\<rparr>
      in case ip_tx B cb dst IP_PROTO_ICMP PingBuf (ICMP_HEADER_LEN + ICMP_DATA_LEN) s1 of
           None \<Rightarrow> None
         | Some (rc, s2) \<Rightarrow>
             if rc \<noteq> 0 then Some (- 1, None, s2)
             else (case get_ticks B s2 of (t0, s3) \<Rightarrow> ping_poll B cb i q t0 ICMP_WAIT_ITER s3))"

definition netcore_get_mac :: "'w net_state \<Rightarrow> u8 list" where
  "netcore_get_mac s = take 6 (g_mac s)"

definition netcore_get_ip :: "'w net_state \<Rightarrow> u32" where
  "netcore_get_ip s = g_ip s"

definition netcore_set_udp_handler :: "(u32 \<Rightarrow> u16 \<Rightarrow> u16 \<Rightarrow> u8 list \<Rightarrow> 'w \<Rightarrow> 'w) option \<Rightarrow> 'w net_state \<Rightarrow> 'w net_state" where
  "netcore_set_udp_handler cb s = s\<lparr>g_udp_cb := cb\<rparr>"

end
