(* ===== verification/Netcore_Props.thy ===== *)
theory Netcore_Props
  imports Netcore
begin

section \<open>The network core: properties\<close>

text \<open>
  The Internet checksum against its definition as a one's-complement sum, the byte order in which the
  senders store it, and the receiver: the ARP and ICMP answers it gives over a transmitter that works
  as its manual says, and the re-entrance of the receive callback.
\<close>

subsection \<open>The checksum\<close>

text \<open>The big-endian 16-bit words of a byte string, the last one padded with a zero byte, and the
  one's-complement residue of a sum of such words.\<close>

fun be_words :: "u8 list \<Rightarrow> nat list" where
  "be_words (a # b # p) = (unat a * 256 + unat b) # be_words p"
| "be_words [a] = [unat a * 256]"
| "be_words [] = []"

definition ones_residue :: "nat \<Rightarrow> nat" where
  "ones_residue n = (if n = 0 then 0 else (n - 1) mod 65535 + 1)"

lemma be_word_unat: "unat (push_bit 8 (ucast a) OR ucast b :: u32) = unat (a :: u8) * 256 + unat (b :: u8)"
proof -
  have d: "push_bit 8 (ucast a) AND (ucast b :: u32) = 0"
    by (rule bit_word_eqI) (auto simp: bit_simps dest: bit_imp_le_length)
  have "unat a < 256" "unat b < 256" using unsigned_less [of a] unsigned_less [of b] by simp_all
  moreover have "unat (push_bit 8 (ucast a) :: u32) = unat a * 256" if "unat a < 256"
    using that by (simp add: push_bit_eq_mult unat_word_ariths(2) unsigned_ucast_eq take_bit_eq_mod)
  ultimately show ?thesis
    by (simp add: disjunctive_add_eq_or [OF d, symmetric] unat_word_ariths(1) unsigned_ucast_eq take_bit_eq_mod)
qed

lemma be_words_bound: "sum_list (be_words p) \<le> 65535 * ((length p + 1) div 2)"
proof (induction p rule: be_words.induct)
  case (1 a b p)
  have "unat a < 256" "unat b < 256" using unsigned_less [of a] unsigned_less [of b] by simp_all
  then show ?case using 1 by simp
next
  case (2 a)
  have "unat a < 256" using unsigned_less [of a] by simp
  then show ?case by simp
qed simp

lemma cksum_sum_unat:
  "unat s + sum_list (be_words p) < 2 ^ 32 \<Longrightarrow> unat (cksum_sum p s) = unat s + sum_list (be_words p)"
proof (induction p s rule: cksum_sum.induct)
  case (1 a b p s)
  have w: "unat (push_bit 8 (ucast a) OR ucast b :: u32) = unat a * 256 + unat b" by (rule be_word_unat)
  have "unat (s + (push_bit 8 (ucast a) OR ucast b)) = unat s + (unat a * 256 + unat b)"
    using 1(2) by (simp add: unat_word_ariths(1) w)
  then show ?case using 1 by simp
next
  case (2 a s)
  have "unat (push_bit 8 (ucast a) :: u32) = unat a * 256" using be_word_unat [of a 0] by simp
  then show ?case using 2 by (simp add: unat_word_ariths(1))
qed simp

lemma ones_residue_step: "65536 \<le> n \<Longrightarrow> ones_residue (n mod 65536 + n div 65536) = ones_residue n"
proof -
  assume n: "65536 \<le> n"
  let ?m = "n mod 65536 + n div 65536"
  have pos: "0 < n div 65536" using n by (simp add: div_greater_zero_iff)
  have eq: "n = ?m + n div 65536 * 65535" using div_mult_mod_eq [of n 65536] by simp
  have "n - 1 = (?m - 1) + n div 65536 * 65535" using eq pos by simp
  then have "(n - 1) mod 65535 = (?m - 1) mod 65535" by (metis mod_mult_self1)
  then show ?thesis using pos n by (simp add: ones_residue_def)
qed

lemma cksum_fold_residue: "unat (cksum_fold s) = ones_residue (unat s)"
proof (induction s rule: cksum_fold.induct)
  case (1 s)
  show ?case
  proof (cases "drop_bit 16 s = 0")
    case True
    then have "unat s < 65536" using fold_more [of s] by auto
    then show ?thesis using True by (auto simp: cksum_fold.simps [of s] ones_residue_def)
  next
    case False
    then have "65536 \<le> unat s" by (simp add: fold_more)
    then show ?thesis
      using 1 [OF False] False by (simp add: cksum_fold.simps [of s] fold_step ones_residue_step)
  qed
qed

lemma ones_residue_le: "ones_residue n \<le> 65535"
  using mod_less_divisor [of 65535 "n - 1"] by (simp add: ones_residue_def del: mod_less_divisor)

lemma ones_residue_full: "ones_residue n = 65535 \<longleftrightarrow> 0 < n \<and> 65535 dvd n"
proof (cases n)
  case (Suc m)
  have "m mod 65535 = 65534 \<longleftrightarrow> Suc m mod 65535 = 0" by (simp add: mod_Suc)
  then show ?thesis using Suc by (simp add: ones_residue_def dvd_eq_mod_eq_0)
qed (simp add: ones_residue_def)

text \<open>The complement of the residue is, up to the two representations of zero, the only 16-bit value
  that completes a sum to a multiple of 65535.\<close>

lemma ones_complement:
  assumes "0 < n" "u \<le> 65535"
  shows "65535 dvd n + u \<longleftrightarrow> u = 65535 - ones_residue n \<or> u = 65535 \<and> ones_residue n = 65535"
proof -
  let ?r = "ones_residue n"
  have r: "?r \<le> 65535" "1 \<le> ?r" using assms ones_residue_le [of n] by (auto simp: ones_residue_def)
  have "n + u = (n - 1) div 65535 * 65535 + (?r + u)"
    using assms(1) div_mult_mod_eq [of "n - 1" 65535] by (simp add: ones_residue_def)
  then have "65535 dvd n + u \<longleftrightarrow> 65535 dvd ?r + u" by (simp only: dvd_add_times_triv_left_iff)
  also have "\<dots> \<longleftrightarrow> ?r + u = 65535 \<or> ?r + u = 2 * 65535"
  proof
    assume "65535 dvd ?r + u"
    then obtain q where q: "?r + u = 65535 * q" by (rule dvdE)
    then have "q = 1 \<or> q = 2" using r assms(2) by linarith
    then show "?r + u = 65535 \<or> ?r + u = 2 * 65535" using q by auto
  qed auto
  also have "\<dots> \<longleftrightarrow> u = 65535 - ?r \<or> u = 65535 \<and> ?r = 65535" using r assms(2) by auto
  finally show ?thesis .
qed

lemma unat_not: "unat (NOT (y :: u16)) = 65535 - unat y"
proof -
  have "NOT y = - 1 - y" by (simp add: not_eq_complement)
  then have "unat (NOT y) = unat (- 1 :: u16) - unat y" by (simp only: unat_sub [OF word_order.extremum])
  then show ?thesis by (simp add: unsigned_minus_1_eq_mask mask_eq_exp_minus_1)
qed

lemma ucast_not_unat: "unat (x :: u32) \<le> 65535 \<Longrightarrow> unat (ucast (NOT x) :: u16) = 65535 - unat x"
proof -
  assume x: "unat x \<le> 65535"
  have "(ucast (NOT x) :: u16) = NOT (ucast x)" by (rule bit_word_eqI) (auto simp: bit_simps)
  moreover have "unat (ucast x :: u16) = unat x" using x by (simp add: unsigned_ucast_eq take_bit_eq_mod)
  ultimately show ?thesis by (simp only: unat_not)
qed

lemma net_cksum_unat:
  "length p \<le> 65535 \<Longrightarrow> unat (net_cksum p) = 65535 - ones_residue (sum_list (be_words p))"
proof -
  assume "length p \<le> 65535"
  then have "sum_list (be_words p) < 2 ^ 32"
    using be_words_bound [of p] mult_le_mono2 [of "(length p + 1) div 2" 32768 65535] by simp
  then have "unat (cksum_sum p 0) = sum_list (be_words p)" using cksum_sum_unat [of 0 p] by simp
  then show ?thesis
    using ones_residue_le by (simp add: net_cksum_def ucast_not_unat cksum_fold_residue)
qed

text \<open>C32: \<open>net_cksum\<close>, with its 32-bit accumulator and its folding loop, computes the Internet checksum
  of RFC 1071 for every length a frame can have: the complement of the one's-complement sum of the
  big-endian words.  In particular a byte string passes the receiver's test exactly when its word sum
  is a positive multiple of 65535.\<close>

theorem net_cksum_rfc1071:
  assumes "length p \<le> 65535"
  shows "unat (net_cksum p) = 65535 - ones_residue (sum_list (be_words p)) \<and>
    (net_cksum p = 0 \<longleftrightarrow> 0 < sum_list (be_words p) \<and> 65535 dvd sum_list (be_words p))"
proof -
  let ?n = "sum_list (be_words p)"
  have u: "unat (net_cksum p) = 65535 - ones_residue ?n" by (rule net_cksum_unat [OF assms])
  have "net_cksum p = 0 \<longleftrightarrow> unat (net_cksum p) = 0" by (simp add: unat_eq_0)
  also have "\<dots> \<longleftrightarrow> ones_residue ?n = 65535" using u ones_residue_le [of ?n] by linarith
  also have "\<dots> \<longleftrightarrow> 0 < ?n \<and> 65535 dvd ?n" by (rule ones_residue_full)
  finally show ?thesis using u by blast
qed

theorem net_cksum_rfc1071_witness:
  "unat (net_cksum [0x45, 0, 0, 0x1C]) = 65535 - ones_residue (sum_list (be_words [0x45, 0, 0, 0x1C]))"
  using net_cksum_rfc1071 [of "[0x45, 0, 0, 0x1C]"] by simp

subsection \<open>The byte order of stored checksums\<close>

lemma unat16_lt: "unat (v :: u16) < 65536"
  using unsigned_less [of v] by simp

lemma bswap16_unat: "unat (bswap16 v) = unat (ucast v :: u8) * 256 + unat (ucast (drop_bit 8 v) :: u8)"
proof -
  have "(ucast (bswap16 v) :: u32) = push_bit 8 (ucast (ucast v :: u8)) OR ucast (ucast (drop_bit 8 v) :: u8)"
    by (rule bit_word_eqI) (auto simp: bswap16_def bit_simps dest: bit_imp_le_length)
  then have "unat (ucast (bswap16 v) :: u32) = unat (ucast v :: u8) * 256 + unat (ucast (drop_bit 8 v) :: u8)"
    by (simp only: be_word_unat)
  moreover have "unat (bswap16 v) < 65536" using unsigned_less [of "bswap16 v"] by simp
  ultimately show ?thesis by (simp add: unsigned_ucast_eq take_bit_eq_mod)
qed

lemma bswap16_invol [simp]: "bswap16 (bswap16 v) = v"
proof (rule bit_word_eqI)
  fix n assume "n < LENGTH(16)"
  then show "bit (bswap16 (bswap16 v)) n = bit v n" by (cases "n < 8") (auto simp: bswap16_def bit_simps)
qed

lemma bswap16_FFFF: "bswap16 0xFFFF = 0xFFFF"
  by (simp add: bswap16_def)

lemma length_ip_bytes [simp]: "length (ip_bytes h) = 20"
  by (simp add: ip_bytes_def)

lemma ip_words_checksum:
  "sum_list (be_words (ip_bytes (h\<lparr>ip_checksum := c\<rparr>))) = sum_list (be_words (ip_bytes (h\<lparr>ip_checksum := 0\<rparr>))) + unat (bswap16 c)"
  by (simp add: ip_bytes_def le16_def le32_def bswap16_unat)

text \<open>A header whose checksum field holds \<open>c\<close> passes the test exactly when, up to the byte order,
  \<open>c\<close> is the checksum of the header with a zero field.\<close>

lemma ip_checksum_passes:
  assumes "ver_ihl h \<noteq> 0"
  shows "net_cksum (ip_bytes (h\<lparr>ip_checksum := c\<rparr>)) = 0 \<longleftrightarrow> bswap16 c = net_cksum (ip_bytes (h\<lparr>ip_checksum := 0\<rparr>))
    \<or> bswap16 c = 0xFFFF \<and> net_cksum (ip_bytes (h\<lparr>ip_checksum := 0\<rparr>)) = 0"
proof -
  let ?S = "sum_list (be_words (ip_bytes (h\<lparr>ip_checksum := 0\<rparr>)))" and ?u = "unat (bswap16 c)"
  let ?k = "net_cksum (ip_bytes (h\<lparr>ip_checksum := 0\<rparr>))"
  have "0 < unat (ver_ihl h)" using assms by (simp add: unat_gt_0)
  then have S: "0 < ?S" by (simp add: ip_bytes_def)
  have k: "unat ?k = 65535 - ones_residue ?S" by (rule net_cksum_unat) simp
  have u: "?u \<le> 65535" using unat16_lt [of "bswap16 c"] by linarith
  have "net_cksum (ip_bytes (h\<lparr>ip_checksum := c\<rparr>)) = 0 \<longleftrightarrow> unat (net_cksum (ip_bytes (h\<lparr>ip_checksum := c\<rparr>))) = 0"
    by (simp add: unat_eq_0)
  also have "\<dots> \<longleftrightarrow> ones_residue (?S + ?u) = 65535"
    using net_cksum_unat [of "ip_bytes (h\<lparr>ip_checksum := c\<rparr>)"] ones_residue_le [of "?S + ?u"]
    by (simp add: ip_words_checksum [where h = h and c = c])
  also have "\<dots> \<longleftrightarrow> 65535 dvd ?S + ?u" using S by (simp add: ones_residue_full)
  also have "\<dots> \<longleftrightarrow> ?u = 65535 - ones_residue ?S \<or> ?u = 65535 \<and> ones_residue ?S = 65535"
    by (rule ones_complement [OF S u])
  also have "\<dots> \<longleftrightarrow> ?u = unat ?k \<or> ?u = 65535 \<and> unat ?k = 0"
    using k ones_residue_le [of ?S] by auto
  also have "\<dots> \<longleftrightarrow> bswap16 c = ?k \<or> bswap16 c = 0xFFFF \<and> ?k = 0"
    by (simp add: word_unat_eq_iff)
  finally show ?thesis .
qed

lemma take_ip_packet:
  assumes "length tx = ETH_PAYLOAD_MAX"
  shows "take IP_HEADER_LEN (ip_packet tx h payload) = ip_bytes (h\<lparr>ip_checksum := net_cksum (ip_bytes h)\<rparr>)"
proof -
  have c: "ETH_PAYLOAD_MAX = 1010" "IP_HEADER_LEN = 20" by (simp_all add: vx_consts)
  have "take 20 (blit tx 0 (ip_bytes g)) = ip_bytes g" for g
    using assms by (simp add: blit_def c)
  moreover have "take 20 (blit (blit tx' 0 (ip_bytes g)) 20 payload) = ip_bytes g" if "length tx' = 1010" for g tx'
    using that by (simp add: blit_def)
  ultimately show ?thesis using assms by (simp add: ip_packet_def c Let_def)
qed

text \<open>C33: the header that \<open>ip_tx\<close> builds holds the checksum in the byte order of the processor, not of the
  network: it passes the receiver's own test exactly when the two bytes of the checksum are equal.
  Whenever they differ, \<open>ip_rx\<close> of any host that runs this code drops the packet; with the bytes
  exchanged the header would always be accepted.\<close>

theorem ip_tx_checksum_byte_order:
  assumes "length tx = ETH_PAYLOAD_MAX" and "h = ip_tx_hdr dst proto len s"
  shows "(net_cksum (take IP_HEADER_LEN (ip_packet tx h payload)) = 0 \<longleftrightarrow> bswap16 (net_cksum (ip_bytes h)) = net_cksum (ip_bytes h)) \<and>
    (bswap16 (net_cksum (ip_bytes h)) \<noteq> net_cksum (ip_bytes h) \<longrightarrow> ip_rx B cb (ip_packet tx h payload) r = Some r) \<and>
    net_cksum (ip_bytes (h\<lparr>ip_checksum := bswap16 (net_cksum (ip_bytes h))\<rparr>)) = 0"
proof -
  let ?c = "net_cksum (ip_bytes h)"
  have v: "ver_ihl h \<noteq> 0" and z: "h\<lparr>ip_checksum := 0\<rparr> = h"
    using assms(2) by (simp_all add: ip_tx_hdr_def IP_VER_IHL_def)
  have b: "bswap16 ?c = 0xFFFF \<longleftrightarrow> ?c = 0xFFFF"
    by (metis bswap16_invol bswap16_FFFF)
  have t: "net_cksum (take IP_HEADER_LEN (ip_packet tx h payload)) = 0 \<longleftrightarrow> bswap16 ?c = ?c"
    using ip_checksum_passes [OF v, of ?c] b by (auto simp: take_ip_packet [OF assms(1)] z)
  have "length (ip_packet tx h payload) = 1010" using assms(1) by (simp add: ip_packet_def Let_def vx_consts)
  then have "ip_rx B cb (ip_packet tx h payload) r = Some r" if "bswap16 ?c \<noteq> ?c"
    using t that by (simp add: ip_rx_def Let_def)
  moreover have "net_cksum (ip_bytes (h\<lparr>ip_checksum := bswap16 ?c\<rparr>)) = 0"
    using ip_checksum_passes [OF v, of "bswap16 ?c"] by (simp add: z)
  ultimately show ?thesis using t by blast
qed

subsection \<open>Buffers and layouts\<close>

text \<open>The sizes of the static arrays, and of the addresses in the ARP cache.\<close>

definition net_inv :: "'w net_state \<Rightarrow> bool" where
  "net_inv s \<longleftrightarrow> length (g_mac s) = 6 \<and> length (g_tx_frame s) = CPSW_FRAME_MAXLEN \<and>
     length (g_arp s) = ARP_CACHE_SIZE \<and> (\<forall>e \<in> set (g_arp s). length (ae_mac e) = 6) \<and>
     length (ip_tx_buf s) = ETH_PAYLOAD_MAX \<and> length (reply_buf s) = ICMP_HEADER_LEN + ICMP_DATA_LEN \<and>
     length (udp_buf s) = UDP_HEADER_LEN + UDP_DATA_MAX \<and> length (ping_buf s) = ICMP_HEADER_LEN + ICMP_DATA_LEN"

text \<open>A frame on the wire: destination, source, type in network order, payload, padding.\<close>

definition eth_frame :: "u8 list \<Rightarrow> u8 list \<Rightarrow> u16 \<Rightarrow> u8 list \<Rightarrow> u8 list" where
  "eth_frame dst src etype payload =
     dst @ src @ le16 (bswap16 etype) @ payload @ replicate (ETH_MIN_FRAME - ETH_HEADER_LEN - length payload) 0"

lemma blit_append: "blit (xs @ ys) (length xs) zs = xs @ blit ys 0 zs"
  by (simp add: blit_def)

lemma blit_start: "length zs \<le> length ys \<Longrightarrow> blit ys 0 zs = zs @ drop (length zs) ys"
  by (simp add: blit_def)

lemma blit_twice:
  "length xs + length ys \<le> length zs \<Longrightarrow> blit (blit zs 0 xs) (length xs) ys = xs @ ys @ drop (length xs + length ys) zs"
  using blit_append [of xs "drop (length xs) zs" ys]
  by (simp add: blit_start [of xs zs] blit_start [of ys "drop (length xs) zs"] add.commute)

lemma eth_frame_built:
  assumes "length F = CPSW_FRAME_MAXLEN" "length hdr = ETH_HEADER_LEN" "length payload \<le> ETH_PAYLOAD_MAX"
    and "n = ETH_HEADER_LEN + length payload"
  shows "take (if n < ETH_MIN_FRAME then ETH_MIN_FRAME else n)
      (if n < ETH_MIN_FRAME then blit (blit (blit F 0 hdr) ETH_HEADER_LEN payload) n (replicate (ETH_MIN_FRAME - n) 0)
       else blit (blit F 0 hdr) ETH_HEADER_LEN payload)
    = hdr @ payload @ replicate (ETH_MIN_FRAME - ETH_HEADER_LEN - length payload) 0"
proof -
  have c: "CPSW_FRAME_MAXLEN = 1024" "ETH_HEADER_LEN = 14" "ETH_PAYLOAD_MAX = 1010" "ETH_MIN_FRAME = 60"
    by (simp_all add: vx_consts)
  have 1: "blit (blit F 0 hdr) 14 payload = (hdr @ payload) @ drop n F"
    using blit_twice [of hdr payload F] assms by (simp add: c)
  have n: "n = length (hdr @ payload)" using assms by simp
  have 2: "blit ((hdr @ payload) @ drop n F) n z = (hdr @ payload) @ z @ drop (length z) (drop n F)"
    if "length z \<le> length F - n" for z
    unfolding n blit_append using that n blit_start [of z "drop n F"] by simp
  show ?thesis
  proof (cases "n < 60")
    case True
    then show ?thesis using assms 2 [of "replicate (60 - n) 0"] by (simp add: c 1)
  next
    case False
    then show ?thesis using assms by (simp add: c 1)
  qed
qed

context transmitter
begin

lemma ether_tx_sends:
  assumes "ready (hw s)" "net_inv s" "length payload \<le> ETH_PAYLOAD_MAX" "length dst = 6"
  shows "\<exists>w fr. ether_tx B dst etype payload s = (0, s\<lparr>g_tx_frame := fr, hw := w\<rparr>) \<and> length fr = CPSW_FRAME_MAXLEN \<and>
    ready w \<and> sent w = sent (hw s) @ [eth_frame dst (g_mac s) etype payload]"
proof -
  let ?hdr = "eth_bytes \<lparr>eth_dst = take 6 dst, eth_src = take 6 (g_mac s), ethertype = bswap16 etype\<rparr>"
  let ?n = "ETH_HEADER_LEN + length payload" and ?F = "g_tx_frame s"
  let ?fr = "if ?n < ETH_MIN_FRAME then blit (blit (blit ?F 0 ?hdr) ETH_HEADER_LEN payload) ?n (replicate (ETH_MIN_FRAME - ?n) 0)
       else blit (blit ?F 0 ?hdr) ETH_HEADER_LEN payload"
  have F: "length ?F = CPSW_FRAME_MAXLEN" "length (g_mac s) = 6" using assms(2) by (simp_all add: net_inv_def)
  have h: "?hdr = dst @ g_mac s @ le16 (bswap16 etype)" using assms(4) F by (simp add: eth_bytes_def)
  then have lh: "length ?hdr = ETH_HEADER_LEN" using assms(4) F by (simp add: vx_consts)
  have f: "take (if ?n < ETH_MIN_FRAME then ETH_MIN_FRAME else ?n) ?fr = eth_frame dst (g_mac s) etype payload"
    unfolding eth_frame_built [OF F(1) lh assms(3) refl] using h by (simp add: eth_frame_def)
  have "length (eth_frame dst (g_mac s) etype payload) \<le> CPSW_FRAME_MAXLEN"
    using assms(3,4) F by (simp add: eth_frame_def vx_consts)
  then obtain w where w: "cpsw_tx B (eth_frame dst (g_mac s) etype payload) (s\<lparr>g_tx_frame := ?fr\<rparr>) = (0, s\<lparr>g_tx_frame := ?fr, hw := w\<rparr>)"
    "ready w" "sent w = sent (hw s) @ [eth_frame dst (g_mac s) etype payload]"
    using cpsw_tx_sends [of "s\<lparr>g_tx_frame := ?fr\<rparr>"] assms(1) by auto
  have "ether_tx B dst etype payload s = (0, s\<lparr>g_tx_frame := ?fr, hw := w\<rparr>)"
    unfolding ether_tx_def Let_def f using w(1) assms(3) by simp
  moreover have "length ?fr = CPSW_FRAME_MAXLEN" using F by simp
  ultimately show ?thesis using w by blast
qed

end

subsection \<open>The ARP cache\<close>

lemma arp_find_loop_shape:
  "arp_find_loop now ip js t = (r, t') \<Longrightarrow> \<forall>e \<in> set t. length (ae_mac e) = 6 \<Longrightarrow> \<forall>j \<in> set js. j < length t \<Longrightarrow>
     length t' = length t \<and> (\<forall>e \<in> set t'. length (ae_mac e) = 6) \<and> (\<forall>i. r = Some i \<longrightarrow> i \<in> set js)"
proof (induction now ip js t arbitrary: r t' rule: arp_find_loop.induct)
  case (2 now ip i js t)
  have u: "\<forall>e \<in> set (t[i := (t ! i)\<lparr>ae_valid := False\<rparr>]). length (ae_mac e) = 6"
    using 2(4,5) set_update_subset_insert [of t i "(t ! i)\<lparr>ae_valid := False\<rparr>"] by fastforce
  consider "ae_valid (t ! i) \<and> ae_ip (t ! i) = ip \<and> now - ae_ts (t ! i) < ARP_TIMEOUT"
    | "ae_valid (t ! i) \<and> ae_ip (t ! i) = ip \<and> \<not> now - ae_ts (t ! i) < ARP_TIMEOUT"
    | "\<not> (ae_valid (t ! i) \<and> ae_ip (t ! i) = ip)" by blast
  then show ?case
  proof cases
    case 1
    then show ?thesis using 2(3-5) by auto
  next
    case c: 2
    then show ?thesis using 2(1) [of r t'] 2(3-5) u by auto
  next
    case c: 3
    then have "arp_find_loop now ip js t = (r, t')" using 2(3) by auto
    then show ?thesis using 2(2) [of r t'] 2(4,5) c by auto
  qed
qed simp

lemma arp_alloc_loop_less: "\<forall>j \<in> set js. j < n \<Longrightarrow> k < n \<Longrightarrow> arp_alloc_loop js k t < n"
  by (induction js k t rule: arp_alloc_loop.induct) auto

text \<open>An entry whose address no valid entry has is not found, and looking for it changes nothing.\<close>

lemma arp_find_loop_absent:
  "\<forall>j \<in> set js. \<not> (ae_valid (t ! j) \<and> ae_ip (t ! j) = ip) \<Longrightarrow> arp_find_loop now ip js t = (None, t)"
  by (induction js) auto

text \<open>A fresh entry that is the only one for its address is found.\<close>

lemma arp_find_loop_present:
  assumes "i \<in> set js" "ae_valid (t ! i)" "ae_ip (t ! i) = ip" "now - ae_ts (t ! i) < ARP_TIMEOUT"
    and "\<forall>j \<in> set js. ae_valid (t ! j) \<and> ae_ip (t ! j) = ip \<longrightarrow> j = i"
  shows "arp_find_loop now ip js t = (Some i, t)"
  using assms(1,5)
proof (induction js)
  case (Cons j js)
  show ?case
  proof (cases "j = i")
    case True
    then show ?thesis using assms(2-4) by simp
  next
    case False
    then have "\<not> (ae_valid (t ! j) \<and> ae_ip (t ! j) = ip)" using bspec [OF Cons(3), of j] by simp
    moreover have "i \<in> set js" using Cons(2) False by auto
    then have r: "arp_find_loop now ip js t = (Some i, t)"
      by (rule Cons(1)) (rule ballI, rule bspec [OF Cons(3)], erule list.set_intros(2))
    ultimately show ?thesis by (simp only: arp_find_loop.simps if_False r)
  qed
qed simp

context transmitter
begin

lemma get_ticks_ok:
  assumes "ready (hw s)"
  obtains now w where "get_ticks B s = (now, s\<lparr>hw := w\<rparr>)" "ready w" "sent w = sent (hw s)"
    "timer_get_ticks B (hw s) = (now, w)"
  using assms tick [of "hw s"] by (cases "timer_get_ticks B (hw s)") (auto simp: get_ticks_def)

lemma arp_cache_update_stores:
  assumes "ready (hw s)" "net_inv s" "length mac = 6"
  shows "\<exists>w t i now. arp_cache_update B ip mac s = s\<lparr>hw := w, g_arp := t\<rparr> \<and> ready w \<and> sent w = sent (hw s) \<and>
    net_inv (s\<lparr>hw := w, g_arp := t\<rparr>) \<and> i < ARP_CACHE_SIZE \<and>
    t ! i = \<lparr>ae_ip = ip, ae_mac = mac, ae_ts = now, ae_valid = True\<rparr>"
proof -
  have a: "length (g_arp s) = 8" "\<forall>e \<in> set (g_arp s). length (ae_mac e) = 6"
    using assms(2) by (simp_all add: net_inv_def ARP_CACHE_SIZE_def)
  obtain n1 w1 where 1: "get_ticks B s = (n1, s\<lparr>hw := w1\<rparr>)" "ready w1" "sent w1 = sent (hw s)"
    using get_ticks_ok [OF assms(1)] by metis
  obtain r t where f: "arp_find_loop n1 ip [0..<ARP_CACHE_SIZE] (g_arp s) = (r, t)" by fastforce
  have t: "length t = 8" "\<forall>e \<in> set t. length (ae_mac e) = 6" "\<forall>i. r = Some i \<longrightarrow> i < 8"
    using arp_find_loop_shape [OF f a(2)] a(1) by (auto simp: ARP_CACHE_SIZE_def)
  define s1 where "s1 = s\<lparr>hw := w1, g_arp := t\<rparr>"
  obtain n2 w2 where 2: "get_ticks B s1 = (n2, s1\<lparr>hw := w2\<rparr>)" "ready w2" "sent w2 = sent w1"
  proof -
    have "ready (hw s1)" "sent (hw s1) = sent w1" using 1(2) by (simp_all add: s1_def)
    then show thesis using get_ticks_ok [of s1] that by metis
  qed
  define i where "i = (case r of Some i \<Rightarrow> i | None \<Rightarrow> arp_alloc s1)"
  have i: "i < 8"
    using t(3) arp_alloc_loop_less [of "[0..<8]" 8 0 t]
    by (auto simp: i_def arp_alloc_def s1_def ARP_CACHE_SIZE_def split: option.splits)
  let ?t = "t[i := \<lparr>ae_ip = ip, ae_mac = mac, ae_ts = n2, ae_valid = True\<rparr>]"
  have "arp_cache_update B ip mac s = s\<lparr>hw := w2, g_arp := ?t\<rparr>"
    using 1(1) f 2(1) assms(3) by (simp add: arp_cache_update_def arp_find_def i_def [unfolded s1_def] s1_def Let_def)
  moreover have "net_inv (s\<lparr>hw := w2, g_arp := ?t\<rparr>)"
    using assms t i by (auto simp: net_inv_def ARP_CACHE_SIZE_def set_conv_nth nth_list_update)
  moreover have "?t ! i = \<lparr>ae_ip = ip, ae_mac = mac, ae_ts = n2, ae_valid = True\<rparr>" "i < ARP_CACHE_SIZE"
    using i t(1) by (simp_all add: ARP_CACHE_SIZE_def)
  ultimately show ?thesis using 1(3) 2(2,3) by metis
qed

end

subsection \<open>Reading what was laid out\<close>

lemma le16_join [simp]: "ucast (ucast v :: u8) OR push_bit 8 (ucast (ucast (drop_bit 8 v) :: u8)) = (v :: u16)"
  using rd16_le16 [of v] by (simp add: rd16_def le16_def)

lemma le32_join [simp]:
  "ucast (ucast v :: u8) OR push_bit 8 (ucast (ucast (drop_bit 8 v) :: u8)) OR
   push_bit 16 (ucast (ucast (drop_bit 16 v) :: u8)) OR push_bit 24 (ucast (ucast (drop_bit 24 v) :: u8)) = (v :: u32)"
  using rd32_le32 [of v] by (simp add: rd32_def le32_def numeral_eq_Suc)

lemma list6:
  assumes "length m = 6"
  obtains a b c d e f where "m = [a, b, c, d, e, f]"
  using assms by (auto simp: length_Suc_conv numeral_eq_Suc)

lemma arp_of_bytes:
  assumes "length (sender_mac p) = 6" "length (target_mac p) = 6"
  shows "arp_of (arp_bytes p @ z) = p"
proof -
  obtain a b c d e f where s: "sender_mac p = [a, b, c, d, e, f]" using list6 [OF assms(1)] .
  obtain a' b' c' d' e' f' where t: "target_mac p = [a', b', c', d', e', f']" using list6 [OF assms(2)] .
  show ?thesis
    by (rule arp_pkt.equality) (simp_all add: arp_of_def arp_bytes_def rd16_def rd32_def le16_def le32_def s t)
qed

lemma eth_of_frame:
  assumes "length dst = 6" "length src = 6"
  shows "eth_of (eth_frame dst src et p) = \<lparr>eth_dst = dst, eth_src = src, ethertype = bswap16 et\<rparr>"
    and "drop ETH_HEADER_LEN (eth_frame dst src et p) = p @ replicate (ETH_MIN_FRAME - ETH_HEADER_LEN - length p) 0"
    and "ETH_HEADER_LEN \<le> length (eth_frame dst src et p)"
proof -
  obtain a b c d e f where s: "dst = [a, b, c, d, e, f]" using list6 [OF assms(1)] .
  obtain a' b' c' d' e' f' where t: "src = [a', b', c', d', e', f']" using list6 [OF assms(2)] .
  show "eth_of (eth_frame dst src et p) = \<lparr>eth_dst = dst, eth_src = src, ethertype = bswap16 et\<rparr>"
    by (simp add: eth_of_def eth_frame_def rd16_def le16_def s t)
  show "drop ETH_HEADER_LEN (eth_frame dst src et p) = p @ replicate (ETH_MIN_FRAME - ETH_HEADER_LEN - length p) 0"
    by (simp add: eth_frame_def le16_def s t ETH_HEADER_LEN_def)
  show "ETH_HEADER_LEN \<le> length (eth_frame dst src et p)"
    using assms by (simp add: eth_frame_def ETH_HEADER_LEN_def)
qed

lemma mac_eq_refl: "mac_eq m m"
  by (simp add: mac_eq_def)

lemma netcore_rx_accepts:
  assumes "dst = g_mac s \<or> dst = replicate 6 0xFF" "length dst = 6" "length src = 6"
    and "pl = p @ replicate (ETH_MIN_FRAME - ETH_HEADER_LEN - length p) 0"
  shows "netcore_rx B cb (eth_frame dst src et p) s =
    (if et = ETHERTYPE_ARP then Some (arp_rx B pl s) else if et = ETHERTYPE_IPV4 then ip_rx B cb pl s else Some s)"
proof -
  have "mac_eq dst (g_mac s) \<or> mac_is_bcast dst"
    using assms(1) mac_eq_refl by (auto simp: mac_is_bcast_def numeral_eq_Suc)
  then show ?thesis
    using eth_of_frame(3) [OF assms(2,3), of et p]
    by (auto simp: netcore_rx_def Let_def eth_of_frame(1,2) [OF assms(2,3)] assms(4))
qed

subsection \<open>Answering ARP\<close>

definition arp_reply :: "u8 list \<Rightarrow> u32 \<Rightarrow> arp_pkt \<Rightarrow> arp_pkt" where
  "arp_reply mac ip p = \<lparr>hw_type = bswap16 1, proto_type = bswap16 ETHERTYPE_IPV4, hw_len = 6, proto_len = 4,
     opcode = bswap16 2, sender_mac = mac, sender_ip = ip, target_mac = sender_mac p, target_ip = sender_ip p\<rparr>"

lemma length_arp_bytes:
  "length (sender_mac p) = 6 \<Longrightarrow> length (target_mac p) = 6 \<Longrightarrow> length (arp_bytes p) = 28"
  by (simp add: arp_bytes_def)

text \<open>An ARP request for the kernel's address, sent to the station or to everyone, is answered by
  exactly one frame, to the requester, that binds the kernel's address to its station address, and
  leaves the requester's binding in the cache; the callback needs no deeper stack than its own, and
  the sizes of all buffers stay as they are.\<close>

lemma netcore_rx_answers_arp:
  assumes "transmitter B ready sent" "ready (hw s)" "net_inv s"
    and "dst = g_mac s \<or> dst = replicate 6 0xFF" "length src = 6"
    and "length (sender_mac p) = 6" "length (target_mac p) = 6" "opcode p = bswap16 1" "target_ip p = g_ip s"
  shows "\<exists>s'. rx_depth 1 B (eth_frame dst src ETHERTYPE_ARP (arp_bytes p)) s = Some s' \<and> net_inv s' \<and> ready (hw s') \<and>
    sent (hw s') = sent (hw s) @ [eth_frame (sender_mac p) (g_mac s) ETHERTYPE_ARP (arp_bytes (arp_reply (g_mac s) (g_ip s) p))] \<and>
    (\<exists>i < ARP_CACHE_SIZE. ae_valid (g_arp s' ! i) \<and> ae_ip (g_arp s' ! i) = sender_ip p \<and> ae_mac (g_arp s' ! i) = sender_mac p)"
proof -
  have m: "length (g_mac s) = 6" using assms(3) by (simp add: net_inv_def)
  have d: "length dst = 6" using assms(4) m by auto
  obtain w t i now where u: "arp_cache_update B (sender_ip p) (sender_mac p) s = s\<lparr>hw := w, g_arp := t\<rparr>"
    "ready w" "sent w = sent (hw s)" "net_inv (s\<lparr>hw := w, g_arp := t\<rparr>)" "i < ARP_CACHE_SIZE"
    "t ! i = \<lparr>ae_ip = sender_ip p, ae_mac = sender_mac p, ae_ts = now, ae_valid = True\<rparr>"
    using transmitter.arp_cache_update_stores [OF assms(1-3,6), of "sender_ip p"] by blast
  let ?r = "arp_bytes (arp_reply (g_mac s) (g_ip s) p)" and ?s = "s\<lparr>hw := w, g_arp := t\<rparr>"
  have lr: "length ?r \<le> ETH_PAYLOAD_MAX"
    using length_arp_bytes [of "arp_reply (g_mac s) (g_ip s) p"] m assms(6) by (simp add: arp_reply_def vx_consts)
  obtain w' fr where x: "ether_tx B (sender_mac p) ETHERTYPE_ARP ?r ?s = (0, ?s\<lparr>g_tx_frame := fr, hw := w'\<rparr>)"
    "length fr = CPSW_FRAME_MAXLEN" "ready w'"
    "sent w' = sent (hw ?s) @ [eth_frame (sender_mac p) (g_mac ?s) ETHERTYPE_ARP ?r]"
    using transmitter.ether_tx_sends [OF assms(1), of ?s ?r "sender_mac p" ETHERTYPE_ARP] u(2,4) lr assms(6)
    by auto
  have "arp_rx B (arp_bytes p @ z) s = ?s\<lparr>g_tx_frame := fr, hw := w'\<rparr>" for z
    using x(1) m assms(8,9) u(1)
    by (simp add: arp_rx_def arp_of_bytes [OF assms(6,7)] length_arp_bytes [OF assms(6,7)] arp_reply_def Let_def)
  then have "rx_depth 1 B (eth_frame dst src ETHERTYPE_ARP (arp_bytes p)) s = Some (?s\<lparr>g_tx_frame := fr, hw := w'\<rparr>)"
    using netcore_rx_accepts [OF assms(4) d assms(5) refl, where et = ETHERTYPE_ARP] by simp
  moreover have "net_inv (?s\<lparr>g_tx_frame := fr, hw := w'\<rparr>)" using u(4) x(2) by (simp add: net_inv_def)
  ultimately show ?thesis using x(3,4) u(3,5,6) by auto
qed

subsection \<open>Echo requests\<close>

text \<open>An echo request that the receiver accepts: a valid header for the kernel's address around an
  ICMP message of type 8.\<close>

definition echo_for :: "u32 \<Rightarrow> ip_hdr \<Rightarrow> icmp_hdr \<Rightarrow> u8 list \<Rightarrow> bool" where
  "echo_for ip h ih data \<longleftrightarrow> ver_ihl h = IP_VER_IHL \<and> flags_frag h = 0 \<and> net_cksum (ip_bytes h) = 0 \<and> dst_ip h = ip \<and>
     total_len h = bswap16 (of_nat (28 + length data)) \<and> protocol h = IP_PROTO_ICMP \<and> icmp_type ih = ICMP_ECHO_REQ \<and>
     length data \<le> 982"

definition echo_frame :: "u8 list \<Rightarrow> u8 list \<Rightarrow> ip_hdr \<Rightarrow> icmp_hdr \<Rightarrow> u8 list \<Rightarrow> u8 list" where
  "echo_frame dst src h ih data = eth_frame dst src ETHERTYPE_IPV4 (ip_bytes h @ icmp_bytes ih @ data)"

definition echo_answer :: "icmp_hdr \<Rightarrow> icmp_hdr" where
  "echo_answer ih = ih\<lparr>icmp_type := ICMP_ECHO_REP, icmp_code := 0, icmp_checksum := 0\<rparr>"

lemma length_icmp_bytes [simp]: "length (icmp_bytes h) = 8"
  by (simp add: icmp_bytes_def)

lemma ip_of_bytes: "ip_of (ip_bytes h @ z) = h"
  by (rule ip_hdr.equality) (simp_all add: ip_of_def ip_bytes_def rd16_def rd32_def le16_def le32_def)

lemma icmp_of_bytes: "icmp_of (icmp_bytes h @ z) = h"
  by (rule icmp_hdr.equality) (simp_all add: icmp_of_def icmp_bytes_def rd16_def le16_def)

lemma rx_echo:
  assumes "echo_for (g_ip s) h ih data" "net_inv s" "length src = 6"
  shows "netcore_rx B cb (echo_frame (g_mac s) src h ih data) s =
    map_option snd (ip_tx B cb (src_ip h) IP_PROTO_ICMP ReplyBuf (ICMP_HEADER_LEN + length (take ICMP_DATA_LEN data))
      (s\<lparr>reply_buf := icmp_fill (reply_buf s) (echo_answer ih) (take ICMP_DATA_LEN data)\<rparr>))"
proof -
  have m: "length (g_mac s) = 6" using assms(2) by (simp add: net_inv_def)
  let ?p = "ip_bytes h @ icmp_bytes ih @ data"
  define z where "z = replicate (ETH_MIN_FRAME - ETH_HEADER_LEN - length ?p) (0 :: u8)"
  have e: "netcore_rx B cb (echo_frame (g_mac s) src h ih data) s = ip_rx B cb (?p @ z) s"
    unfolding echo_frame_def z_def
    using netcore_rx_accepts [OF disjI1 [OF refl] m assms(3) refl, where p = ?p and et = ETHERTYPE_IPV4]
    by (simp add: vx_consts)
  have t: "unat (of_nat (28 + length data) :: u16) = 28 + length data"
    using assms(1) by (simp add: echo_for_def unat_of_nat del: of_nat_add)
  have "ip_rx B cb (?p @ z) s = icmp_rx B cb (src_ip h) (icmp_bytes ih @ data) s"
    using assms(1) t by (simp add: ip_rx_def echo_for_def ip_of_bytes Let_def vx_consts del: of_nat_add)
  also have "\<dots> = map_option snd (ip_tx B cb (src_ip h) IP_PROTO_ICMP ReplyBuf
      (ICMP_HEADER_LEN + length (take ICMP_DATA_LEN data))
      (s\<lparr>reply_buf := icmp_fill (reply_buf s) (echo_answer ih) (take ICMP_DATA_LEN data)\<rparr>))"
  proof -
    have a: "\<lparr>icmp_type = ICMP_ECHO_REP, icmp_code = 0, icmp_checksum = 0, icmp_id = icmp_id ih, icmp_seq = icmp_seq ih\<rparr> = echo_answer ih"
      by (rule icmp_hdr.equality) (simp_all add: echo_answer_def)
    show ?thesis
      using assms(1) by (simp add: icmp_rx_def echo_for_def icmp_of_bytes Let_def a ICMP_HEADER_LEN_def ICMP_ECHO_REQ_def)
  qed
  finally show ?thesis using e by simp
qed

lemma icmp_fill_message:
  assumes "length buf = ICMP_HEADER_LEN + ICMP_DATA_LEN" "length d \<le> ICMP_DATA_LEN" "icmp_checksum h = 0"
  shows "take (ICMP_HEADER_LEN + length d) (icmp_fill buf h d) = icmp_bytes (h\<lparr>icmp_checksum := net_cksum (icmp_bytes h @ d)\<rparr>) @ d"
    and "length (icmp_fill buf h d) = length buf"
proof -
  have c: "ICMP_HEADER_LEN = 8" "ICMP_DATA_LEN = 56" by (simp_all add: vx_consts)
  have 1: "blit (blit buf 0 (icmp_bytes h)) 8 d = icmp_bytes h @ d @ drop (8 + length d) buf"
    using blit_twice [of "icmp_bytes h" d buf] assms by (simp add: c)
  have 2: "blit (icmp_bytes h @ r) 0 (icmp_bytes g) = icmp_bytes g @ r" for r g
    using blit_start [of "icmp_bytes g" "icmp_bytes h @ r"] by simp
  show "take (ICMP_HEADER_LEN + length d) (icmp_fill buf h d) = icmp_bytes (h\<lparr>icmp_checksum := net_cksum (icmp_bytes h @ d)\<rparr>) @ d"
    using assms by (simp add: icmp_fill_def c 1 2 Let_def)
  show "length (icmp_fill buf h d) = length buf" by (simp add: icmp_fill_def Let_def)
qed

lemma ip_packet_bytes:
  assumes "length tx = ETH_PAYLOAD_MAX" "length pl \<le> IP_PAYLOAD_MAX"
  shows "take (IP_HEADER_LEN + length pl) (ip_packet tx h pl) = ip_bytes (h\<lparr>ip_checksum := net_cksum (ip_bytes h)\<rparr>) @ pl"
    and "length (ip_packet tx h pl) = ETH_PAYLOAD_MAX"
proof -
  have c: "ETH_PAYLOAD_MAX = 1010" "IP_HEADER_LEN = 20" "IP_PAYLOAD_MAX = 990" by (simp_all add: vx_consts)
  have 1: "blit tx 0 (ip_bytes g) = ip_bytes g @ drop 20 tx" for g
    using blit_start [of "ip_bytes g" tx] assms by (simp add: c)
  have 2: "blit (ip_bytes h @ r) 0 (ip_bytes g) = ip_bytes g @ r" for r g
    using blit_start [of "ip_bytes g" "ip_bytes h @ r"] by simp
  have 3: "blit (ip_bytes g @ drop 20 tx) 20 pl = ip_bytes g @ pl @ drop (20 + length pl) tx" for g
    using blit_append [of "ip_bytes g" "drop 20 tx" pl] blit_start [of pl "drop 20 tx"] assms
    by (simp add: c add.commute)
  show "take (IP_HEADER_LEN + length pl) (ip_packet tx h pl) = ip_bytes (h\<lparr>ip_checksum := net_cksum (ip_bytes h)\<rparr>) @ pl"
    by (simp add: ip_packet_def Let_def c 1 2 3)
  show "length (ip_packet tx h pl) = ETH_PAYLOAD_MAX" using assms by (simp add: ip_packet_def Let_def)
qed

text \<open>C34: a ping from a host whose address is in the ARP cache is answered by exactly one frame to
  that host: an echo reply with the identifier, the sequence number and the first 56 data bytes of the
  request.  The callback needs no deeper stack than its own.\<close>

theorem netcore_rx_answers_ping:
  assumes "transmitter B ready sent" "ready (hw s)" "net_inv s"
    and "echo_for (g_ip s) h ih data" "length src = 6"
    and "i < ARP_CACHE_SIZE" "ae_valid (g_arp s ! i)" "ae_ip (g_arp s ! i) = src_ip h"
    and "\<forall>j < ARP_CACHE_SIZE. ae_valid (g_arp s ! j) \<and> ae_ip (g_arp s ! j) = src_ip h \<longrightarrow> j = i"
    and "fst (timer_get_ticks B (hw s)) - ae_ts (g_arp s ! i) < ARP_TIMEOUT"
    and "d = take ICMP_DATA_LEN data" "H = ip_tx_hdr (src_ip h) IP_PROTO_ICMP (ICMP_HEADER_LEN + length d) s"
  shows "\<exists>s'. rx_depth 1 B (echo_frame (g_mac s) src h ih data) s = Some s' \<and> net_inv s' \<and> ready (hw s') \<and>
    g_ip_id s' = g_ip_id s + 1 \<and>
    sent (hw s') = sent (hw s) @ [eth_frame (ae_mac (g_arp s ! i)) (g_mac s) ETHERTYPE_IPV4
      (ip_bytes (H\<lparr>ip_checksum := net_cksum (ip_bytes H)\<rparr>) @
       icmp_bytes ((echo_answer ih)\<lparr>icmp_checksum := net_cksum (icmp_bytes (echo_answer ih) @ d)\<rparr>) @ d)]"
proof -
  let ?m = "icmp_bytes ((echo_answer ih)\<lparr>icmp_checksum := net_cksum (icmp_bytes (echo_answer ih) @ d)\<rparr>) @ d"
  define rb where "rb = icmp_fill (reply_buf s) (echo_answer ih) d"
  define s0 where "s0 = s\<lparr>reply_buf := rb\<rparr>"
  have ld: "length d \<le> ICMP_DATA_LEN" by (simp add: assms(11))
  have rb: "take (ICMP_HEADER_LEN + length d) rb = ?m" "length rb = ICMP_HEADER_LEN + ICMP_DATA_LEN"
    using icmp_fill_message [of "reply_buf s" d "echo_answer ih"] assms(3) ld
    by (simp_all add: rb_def net_inv_def echo_answer_def)
  obtain now w where k: "get_ticks B s0 = (now, s0\<lparr>hw := w\<rparr>)" "ready w" "sent w = sent (hw s)"
    "timer_get_ticks B (hw s) = (now, w)"
  proof -
    have "ready (hw s0)" "hw s0 = hw s" using assms(2) by (simp_all add: s0_def)
    then show thesis using transmitter.get_ticks_ok [OF assms(1), of s0] that by metis
  qed
  have "arp_find_loop now (src_ip h) [0..<ARP_CACHE_SIZE] (g_arp s) = (Some i, g_arp s)"
  proof (rule arp_find_loop_present [OF _ assms(7,8)])
    show "i \<in> set [0..<ARP_CACHE_SIZE]" using assms(6) by simp
    show "now - ae_ts (g_arp s ! i) < ARP_TIMEOUT" using assms(10) by (simp only: k(4) fst_conv)
    show "\<forall>j \<in> set [0..<ARP_CACHE_SIZE]. ae_valid (g_arp s ! j) \<and> ae_ip (g_arp s ! j) = src_ip h \<longrightarrow> j = i"
      using assms(9) by (simp only: set_upt) (metis atLeastLessThan_iff)
  qed
  then have f: "arp_find B (src_ip h) s0 = (Some i, s0\<lparr>hw := w\<rparr>)"
    by (simp add: arp_find_def k(1)) (simp add: s0_def)
  have mac: "length (ae_mac (g_arp s ! i)) = 6" using assms(3,6) by (simp add: net_inv_def)
  let ?p = "ip_bytes (H\<lparr>ip_checksum := net_cksum (ip_bytes H)\<rparr>) @ ?m"
  let ?tx = "ip_packet (ip_tx_buf s) H ?m"
  define s1 where "s1 = s0\<lparr>hw := w, g_ip_id := g_ip_id s + 1, ip_tx_buf := ?tx\<rparr>"
  have lm: "length ?m = 8 + length d" "length ?m \<le> IP_PAYLOAD_MAX" using ld by (simp_all add: vx_consts)
  have tx: "length (ip_tx_buf s) = ETH_PAYLOAD_MAX" using assms(3) by (simp add: net_inv_def)
  have p: "take (IP_HEADER_LEN + length ?m) ?tx = ?p" "length ?tx = ETH_PAYLOAD_MAX"
    by (rule ip_packet_bytes [OF tx lm(2)])+
  have i1: "net_inv s1" using assms(3) rb(2) p(2) by (simp add: net_inv_def s1_def s0_def)
  have "length ?p \<le> ETH_PAYLOAD_MAX" using ld by (simp add: vx_consts)
  then obtain w' fr where x: "ether_tx B (ae_mac (g_arp s ! i)) ETHERTYPE_IPV4 ?p s1 = (0, s1\<lparr>g_tx_frame := fr, hw := w'\<rparr>)"
    "length fr = CPSW_FRAME_MAXLEN" "ready w'"
    "sent w' = sent (hw s1) @ [eth_frame (ae_mac (g_arp s ! i)) (g_mac s1) ETHERTYPE_IPV4 ?p]"
    using transmitter.ether_tx_sends [OF assms(1), of s1 ?p "ae_mac (g_arp s ! i)" ETHERTYPE_IPV4] i1 k(2) mac
    by (auto simp: s1_def)
  have H: "ip_tx_hdr (src_ip h) IP_PROTO_ICMP (8 + length d) (s0\<lparr>hw := w\<rparr>) = H"
    by (simp add: assms(12) ip_tx_hdr_def s0_def ICMP_HEADER_LEN_def)
  have b: "take (8 + length d) (pbuf_data ReplyBuf (s0\<lparr>hw := w\<rparr>)) = ?m"
    using rb(1) by (simp add: pbuf_data_def s0_def ICMP_HEADER_LEN_def)
  have le: "\<not> IP_PAYLOAD_MAX < 8 + length d" using lm by simp
  have r: "arp_resolve B (rx_depth 0 B) (src_ip h) s0 = Some (Some (ae_mac (g_arp s ! i)), s0\<lparr>hw := w\<rparr>)"
    using mac by (simp add: arp_resolve_def f) (simp add: s0_def)
  have "ip_tx B (rx_depth 0 B) (src_ip h) IP_PROTO_ICMP ReplyBuf (8 + length d) s0 = Some (0, s1\<lparr>g_tx_frame := fr, hw := w'\<rparr>)"
    using x(1) p(1) lm(1)
    by (simp only: ip_tx_def le r H b if_False option.case prod.case Let_def) (simp add: s1_def s0_def)
  then have "rx_depth 1 B (echo_frame (g_mac s) src h ih data) s = Some (s1\<lparr>g_tx_frame := fr, hw := w'\<rparr>)"
    using rx_echo [OF assms(4,3,5), of B "rx_depth 0 B"]
    by (simp add: assms(11) [symmetric] rb_def [symmetric] s0_def ICMP_HEADER_LEN_def)
  moreover have "net_inv (s1\<lparr>g_tx_frame := fr, hw := w'\<rparr>)" using i1 x(2) by (simp add: net_inv_def)
  ultimately show ?thesis using x(3,4) k(3) by (auto simp: s1_def s0_def)
qed

subsection \<open>Re-entrance of the receiver\<close>

definition unknown_host :: "u32 \<Rightarrow> 'w net_state \<Rightarrow> bool" where
  "unknown_host ip s \<longleftrightarrow> (\<forall>e \<in> set (g_arp s). \<not> (ae_valid e \<and> ae_ip e = ip))"

lemma net_inv_hw [simp]:
  "net_inv (s\<lparr>hw := w\<rparr>) = net_inv s" "net_inv (s\<lparr>call_count := c\<rparr>) = net_inv s"
  by (simp_all add: net_inv_def)

lemma unknown_host_upd [simp]:
  "unknown_host ip (s\<lparr>hw := w\<rparr>) = unknown_host ip s" "unknown_host ip (s\<lparr>call_count := c\<rparr>) = unknown_host ip s"
  "unknown_host ip (s\<lparr>g_tx_frame := fr\<rparr>) = unknown_host ip s" "unknown_host ip (s\<lparr>reply_buf := rb\<rparr>) = unknown_host ip s"
  by (simp_all add: unknown_host_def)

context pending_frame
begin

lemma ether_tx_pend:
  assumes "pend (hw s)"
  shows "\<exists>w fr. snd (ether_tx B dst et pl s) = s\<lparr>g_tx_frame := fr, hw := w\<rparr> \<and> length fr = length (g_tx_frame s) \<and> pend w"
proof (cases "length pl > ETH_PAYLOAD_MAX")
  case True
  then have "snd (ether_tx B dst et pl s) = s\<lparr>g_tx_frame := g_tx_frame s, hw := hw s\<rparr>" by (simp add: ether_tx_def)
  then show ?thesis using assms by blast
next
  case False
  let ?h = "eth_bytes \<lparr>eth_dst = take 6 dst, eth_src = take 6 (g_mac s), ethertype = bswap16 et\<rparr>"
  let ?n = "ETH_HEADER_LEN + length pl" and ?F = "g_tx_frame s"
  define fr where "fr = (if ?n < ETH_MIN_FRAME then blit (blit (blit ?F 0 ?h) ETH_HEADER_LEN pl) ?n (replicate (ETH_MIN_FRAME - ?n) 0)
       else blit (blit ?F 0 ?h) ETH_HEADER_LEN pl)"
  obtain w where "snd (cpsw_tx B (take (if ?n < ETH_MIN_FRAME then ETH_MIN_FRAME else ?n) fr) (s\<lparr>g_tx_frame := fr\<rparr>)) = s\<lparr>g_tx_frame := fr, hw := w\<rparr>" "pend w"
    using pend_tx [of "s\<lparr>g_tx_frame := fr\<rparr>"] assms by auto
  then have "snd (ether_tx B dst et pl s) = s\<lparr>g_tx_frame := fr, hw := w\<rparr>" using False by (simp add: ether_tx_def Let_def fr_def)
  moreover have "length fr = length ?F" by (simp add: fr_def)
  ultimately show ?thesis using \<open>pend w\<close> by blast
qed

lemma arp_find_unknown:
  assumes "pend (hw s)" "unknown_host ip s" "net_inv s"
  shows "\<exists>w. arp_find B ip s = (None, s\<lparr>hw := w\<rparr>) \<and> pend w"
proof -
  obtain now w where k: "timer_get_ticks B (hw s) = (now, w)" by fastforce
  have "arp_find_loop now ip [0..<ARP_CACHE_SIZE] (g_arp s) = (None, g_arp s)"
    by (rule arp_find_loop_absent) (use assms(2,3) in \<open>auto simp: unknown_host_def net_inv_def\<close>)
  then have "arp_find B ip s = (None, s\<lparr>hw := w\<rparr>)" by (simp add: arp_find_def get_ticks_def k)
  then show ?thesis using clock [OF assms(1)] k by auto
qed

text \<open>Resolving an unknown address polls the receiver, which runs the callback on the frame again.\<close>

lemma arp_resolve_reenters:
  assumes "pend (hw s)" "unknown_host ip s" "net_inv s" "s_rx_cb s" "frame \<noteq> []"
    and "\<And>w c fr. pend w \<Longrightarrow> length fr = CPSW_FRAME_MAXLEN \<Longrightarrow> cb frame (s\<lparr>g_tx_frame := fr, call_count := c, hw := w\<rparr>) = None"
  shows "arp_resolve B cb ip s = None"
proof -
  obtain w where f: "arp_find B ip s = (None, s\<lparr>hw := w\<rparr>)" "pend w" using arp_find_unknown [OF assms(1-3)] by blast
  have "\<exists>w2 fr. arp_request B ip (s\<lparr>hw := w\<rparr>) = s\<lparr>g_tx_frame := fr, hw := w2\<rparr> \<and> length fr = length (g_tx_frame s) \<and> pend w2"
    using ether_tx_pend [of "s\<lparr>hw := w\<rparr>"] f(2) by (simp add: arp_request_def)
  then obtain w2 fr where q: "arp_request B ip (s\<lparr>hw := w\<rparr>) = s\<lparr>g_tx_frame := fr, hw := w2\<rparr>" "pend w2" "length fr = length (g_tx_frame s)"
    by blast
  obtain w3 c where l: "pend w3" "cpsw_rx_poll B cb (s\<lparr>g_tx_frame := fr, hw := w2\<rparr>) =
      map_option (\<lambda>s4. s4\<lparr>hw := bus_writes B rx_rearm (hw s4)\<rparr>) (cb frame (s\<lparr>g_tx_frame := fr, call_count := c, hw := w3\<rparr>))"
    using poll_delivers [of "s\<lparr>g_tx_frame := fr, hw := w2\<rparr>" cb] q(2) assms(4,5) by auto
  have "cb frame (s\<lparr>g_tx_frame := fr, call_count := c, hw := w3\<rparr>) = None"
    using assms(3,6) l(1) q(3) by (simp add: net_inv_def)
  then have "arp_poll B cb ip (Suc n) (s\<lparr>g_tx_frame := fr, hw := w2\<rparr>) = None" for n using l(2) by simp
  moreover have "ARP_RESOLVE_ITER = Suc 49999" by (simp add: ARP_RESOLVE_ITER_def)
  ultimately have "arp_poll B cb ip ARP_RESOLVE_ITER (s\<lparr>g_tx_frame := fr, hw := w2\<rparr>) = None" by metis
  then show ?thesis by (simp add: arp_resolve_def f q(1))
qed

end

lemma echo_frame_nonempty: "echo_frame dst src h ih data \<noteq> []"
  by (simp add: echo_frame_def eth_frame_def ip_bytes_def)

text \<open>C35: \<open>cpsw_rx_poll\<close> runs the callback before it hands the descriptor back, so the frame is still
  pending while the callback runs.  A ping from a host that has no entry in the ARP cache makes the
  callback resolve the host's address, the resolution polls, and the poll delivers the same ping
  again: no stack depth is enough for the callback to return.\<close>

theorem ping_from_unknown_host_recurses:
  assumes "pending_frame B pend (echo_frame (g_mac s) src h ih data)" "pend (hw s)" "s_rx_cb s" "net_inv s"
    and "echo_for (g_ip s) h ih data" "length src = 6" "unknown_host (src_ip h) s"
  shows "rx_depth n B (echo_frame (g_mac s) src h ih data) s = None"
proof -
  define F where "F = echo_frame (g_mac s) src h ih data"
  have "rx_depth n B F t = None"
    if "g_mac t = g_mac s" "g_ip t = g_ip s" "pend (hw t)" "s_rx_cb t" "net_inv t" "unknown_host (src_ip h) t" for t
    using that
  proof (induction n arbitrary: t)
    case (Suc n)
    let ?d = "take ICMP_DATA_LEN data"
    define t1 where "t1 = t\<lparr>reply_buf := icmp_fill (reply_buf t) (echo_answer ih) ?d\<rparr>"
    have t1: "g_mac t1 = g_mac s" "g_ip t1 = g_ip s" "pend (hw t1)" "s_rx_cb t1" "net_inv t1" "unknown_host (src_ip h) t1"
      using Suc(2-7) by (simp_all add: t1_def net_inv_def icmp_fill_def Let_def)
    have "arp_resolve B (rx_depth n B) (src_ip h) t1 = None"
    proof (rule pending_frame.arp_resolve_reenters [OF assms(1) t1(3,6,5,4) echo_frame_nonempty])
      fix w c and fr :: "u8 list" assume a: "pend w" "length fr = CPSW_FRAME_MAXLEN"
      show "rx_depth n B (echo_frame (g_mac s) src h ih data) (t1\<lparr>g_tx_frame := fr, call_count := c, hw := w\<rparr>) = None"
        unfolding F_def [symmetric] by (rule Suc(1)) (use t1 a in \<open>simp_all add: net_inv_def\<close>)
    qed
    then have "ip_tx B (rx_depth n B) (src_ip h) IP_PROTO_ICMP ReplyBuf (ICMP_HEADER_LEN + length ?d) t1 = None"
      by (simp add: ip_tx_def vx_consts)
    moreover have "F = echo_frame (g_mac t) src h ih data" using Suc(2) by (simp add: F_def)
    ultimately show ?case using rx_echo [of t h ih data src B "rx_depth n B"] Suc(3,6) assms(5,6) by (simp add: t1_def)
  qed simp
  then show ?thesis using assms(2-4,7) by (simp add: F_def)
qed

subsection \<open>Concrete instances\<close>

text \<open>The kernel at 10.0.0.100 on the simulated interface, an ARP request and a ping from 10.0.0.1.\<close>

definition demo_mac :: "u8 list" where "demo_mac = [0xDE, 0xAD, 0xBE, 0xEF, 0, 1]"
definition demo_peer :: "u8 list" where "demo_peer = [2, 0, 0, 0, 0, 9]"

definition demo_net :: "sim_nic \<Rightarrow> arp_entry \<Rightarrow> sim_nic net_state" where
  "demo_net w e = \<lparr>s_mac = demo_mac, s_rx_cb = True, call_count = 0, hw = w, g_mac = demo_mac, g_ip = 0x6400000A, g_ip_id = 0,
     g_tx_frame = replicate CPSW_FRAME_MAXLEN 0,
     g_arp = e # replicate 7 \<lparr>ae_ip = 0, ae_mac = replicate 6 0, ae_ts = 0, ae_valid = False\<rparr>,
     g_icmp_rep = \<lparr>rep_got = False, rep_id = 0, rep_seq = 0, rep_ts = 0\<rparr>, g_udp_cb = None,
     ip_tx_buf = replicate ETH_PAYLOAD_MAX 0, reply_buf = replicate (ICMP_HEADER_LEN + ICMP_DATA_LEN) 0,
     udp_buf = replicate (UDP_HEADER_LEN + UDP_DATA_MAX) 0, ping_buf = replicate (ICMP_HEADER_LEN + ICMP_DATA_LEN) 0\<rparr>"

definition demo_nic :: "u8 list \<Rightarrow> sim_nic" where
  "demo_nic frame = \<lparr>sim_regs = (\<lambda>a. if a = RX_BD_PA + BD_OFF_FLAGS then of_nat (length frame) else 0),
     sim_txbuf = replicate CPSW_FRAME_MAXLEN 0, sim_rxbuf = frame, sim_wire = [], sim_clock = 100\<rparr>"

definition demo_entry0 :: arp_entry where
  "demo_entry0 = \<lparr>ae_ip = 0, ae_mac = replicate 6 0, ae_ts = 0, ae_valid = False\<rparr>"

definition demo_entry1 :: arp_entry where
  "demo_entry1 = \<lparr>ae_ip = 0x0100000A, ae_mac = demo_peer, ae_ts = 90, ae_valid = True\<rparr>"

lemma demo_macs [simp]: "length demo_mac = 6" "length demo_peer = 6"
  by (simp_all add: demo_mac_def demo_peer_def)

lemma demo_net_inv: "net_inv (demo_net w demo_entry0)" "net_inv (demo_net w demo_entry1)"
  by (simp_all add: net_inv_def demo_net_def ARP_CACHE_SIZE_def demo_entry0_def demo_entry1_def)

lemma demo_net_fields [simp]:
  "hw (demo_net w e) = w" "g_mac (demo_net w e) = demo_mac" "g_ip (demo_net w e) = 0x6400000A" "s_rx_cb (demo_net w e)"
  "ip_tx_buf (demo_net w e) = replicate ETH_PAYLOAD_MAX 0" "g_arp (demo_net w e) ! 0 = e"
  by (simp_all add: demo_net_def)

lemma demo_nic_wire [simp]: "sim_wire (demo_nic f) = []"
  by (simp add: demo_nic_def)

lemma demo_ready: "sim_ready (demo_nic f)"
  by (simp add: sim_ready_def demo_nic_def vx_consts)

definition demo_arp :: arp_pkt where
  "demo_arp = \<lparr>hw_type = bswap16 1, proto_type = bswap16 ETHERTYPE_IPV4, hw_len = 6, proto_len = 4, opcode = bswap16 1,
     sender_mac = demo_peer, sender_ip = 0x0100000A, target_mac = replicate 6 0, target_ip = 0x6400000A\<rparr>"

lemma demo_arp_fields [simp]:
  "sender_mac demo_arp = demo_peer" "length (target_mac demo_arp) = 6" "opcode demo_arp = bswap16 1" "target_ip demo_arp = 0x6400000A"
  by (simp_all add: demo_arp_def)

definition demo_ip :: ip_hdr where
  "demo_ip = \<lparr>ver_ihl = 0x45, tos = 0, total_len = bswap16 30, ip_id = 0, flags_frag = 0, ttl = 64, protocol = 1,
     ip_checksum = bswap16 0x667B, src_ip = 0x0100000A, dst_ip = 0x6400000A\<rparr>"

definition demo_icmp :: icmp_hdr where
  "demo_icmp = \<lparr>icmp_type = 8, icmp_code = 0, icmp_checksum = 0, icmp_id = 0x100, icmp_seq = 0x200\<rparr>"

definition demo_sent :: ip_hdr where
  "demo_sent = ip_tx_hdr 0x0100000A 1 8 (demo_net (demo_nic []) demo_entry0)"

lemma demo_sent_cksum: "net_cksum (ip_bytes demo_sent) = 0x667D"
proof -
  have e: "demo_sent = \<lparr>ver_ihl = 0x45, tos = 0, total_len = bswap16 28, ip_id = bswap16 0, flags_frag = 0, ttl = 64, protocol = 1,
     ip_checksum = 0, src_ip = 0x6400000A, dst_ip = 0x0100000A\<rparr>"
    by (simp add: demo_sent_def ip_tx_hdr_def demo_net_def vx_consts)
  show ?thesis unfolding e by code_simp
qed

theorem ip_tx_checksum_byte_order_witness:
  "\<forall>cb r. ip_rx sim_bus cb (ip_packet (replicate ETH_PAYLOAD_MAX 0) demo_sent []) r = Some r"
proof -
  have "bswap16 (net_cksum (ip_bytes demo_sent)) \<noteq> net_cksum (ip_bytes demo_sent)"
    by (simp add: demo_sent_cksum bswap16_def)
  then show ?thesis
    using ip_tx_checksum_byte_order [OF _ demo_sent_def, of "replicate ETH_PAYLOAD_MAX 0" "[]" sim_bus] by simp
qed

theorem netcore_rx_answers_arp_witness:
  "\<exists>s'. rx_depth 1 sim_bus (eth_frame (replicate 6 0xFF) demo_peer ETHERTYPE_ARP (arp_bytes demo_arp))
      (demo_net (demo_nic []) demo_entry0) = Some s' \<and>
    sim_wire (hw s') = [eth_frame demo_peer demo_mac ETHERTYPE_ARP (arp_bytes (arp_reply demo_mac 0x6400000A demo_arp))]"
  using netcore_rx_answers_arp [OF sim_tx.transmitter_axioms, of "demo_net (demo_nic []) demo_entry0" "replicate 6 0xFF" demo_peer demo_arp]
  by (auto simp: demo_ready demo_net_inv simp del: rx_depth.simps One_nat_def)

lemma demo_echo: "echo_for 0x6400000A demo_ip demo_icmp [1, 2]"
proof -
  have "net_cksum (ip_bytes demo_ip) = 0" by code_simp
  then show ?thesis by (simp add: echo_for_def demo_ip_def demo_icmp_def vx_consts)
qed

theorem netcore_rx_answers_ping_witness:
  "\<exists>s' p. rx_depth 1 sim_bus (echo_frame demo_mac demo_peer demo_ip demo_icmp [1, 2]) (demo_net (demo_nic []) demo_entry1) = Some s' \<and>
    sim_wire (hw s') = [eth_frame demo_peer demo_mac ETHERTYPE_IPV4 p]"
proof -
  let ?s = "demo_net (demo_nic []) demo_entry1"
  have u: "\<forall>j < ARP_CACHE_SIZE. ae_valid (g_arp ?s ! j) \<and> ae_ip (g_arp ?s ! j) = src_ip demo_ip \<longrightarrow> j = 0"
  proof (intro allI impI)
    fix j assume "j < ARP_CACHE_SIZE" "ae_valid (g_arp ?s ! j) \<and> ae_ip (g_arp ?s ! j) = src_ip demo_ip"
    then show "j = 0" by (cases j) (simp_all add: demo_net_def ARP_CACHE_SIZE_def)
  qed
  have "fst (timer_get_ticks sim_bus (hw ?s)) - ae_ts (g_arp ?s ! 0) < ARP_TIMEOUT"
    by (simp add: sim_bus_def demo_nic_def demo_entry1_def ARP_TIMEOUT_def)
  from netcore_rx_answers_ping [OF sim_tx.transmitter_axioms, of ?s, OF _ _ _ _ _ _ _ u this refl refl, of demo_icmp "[1, 2]" demo_peer]
  show ?thesis
    using demo_echo demo_ready [of "[]"] demo_net_inv(2) [of "demo_nic []"]
    by (auto simp: demo_entry1_def demo_ip_def ARP_CACHE_SIZE_def simp del: rx_depth.simps One_nat_def)
qed

theorem ping_from_unknown_host_recurses_witness:
  "\<forall>n. rx_depth n sim_bus (echo_frame demo_mac demo_peer demo_ip demo_icmp [1, 2])
    (demo_net (demo_nic (echo_frame demo_mac demo_peer demo_ip demo_icmp [1, 2])) demo_entry0) = None"
proof -
  let ?f = "echo_frame demo_mac demo_peer demo_ip demo_icmp [1, 2]"
  have "sim_pend ?f (demo_nic ?f)"
    by (simp add: sim_pend_def demo_nic_def echo_frame_def eth_frame_def vx_consts)
  moreover have "unknown_host (src_ip demo_ip) (demo_net (demo_nic ?f) demo_entry0)"
    by (simp add: unknown_host_def demo_net_def demo_entry0_def)
  ultimately show ?thesis
    using ping_from_unknown_host_recurses [of sim_bus "sim_pend ?f" "demo_net (demo_nic ?f) demo_entry0" demo_peer demo_ip demo_icmp "[1, 2]"]
      sim_rx.pending_frame_axioms [of ?f] demo_echo demo_net_inv(1) [of "demo_nic ?f"] by simp
qed

end
