(* ===== verification/Klibc.thy ===== *)
theory Klibc
  imports Vx_Base
begin

section \<open>The kernel C library (\<open>kernel/libc/src/string.c\<close>, \<open>kernel/libc/src/format.c\<close>)\<close>

text \<open>
  String functions read through a C string pointer: a list of bytes whose end, or whose first
  zero byte, is the terminator (\<open>chr0\<close> is the byte under the pointer).  The memory functions
  work on arrays with explicit indices.

  \<open>kvsnprintf\<close> is modelled with its output buffer, its position and a flag that records whether
  any store fell outside the buffer.  \<open>fmt_text\<close> is the reference: the complete text a format
  and its arguments stand for.  The lemmas show that the buffer holds the reference text cut to
  the buffer's size and terminated, that nothing is stored outside, and that the return value is
  the length of the whole text.
\<close>

subsection \<open>Strings and memory\<close>

definition chr0 :: "cstring \<Rightarrow> u8" where
  "chr0 s = (case s of [] \<Rightarrow> 0 | c # _ \<Rightarrow> c)"

fun strcmp :: "cstring \<Rightarrow> cstring \<Rightarrow> int" where
  "strcmp s1 s2 =
     (case s1 of
        [] \<Rightarrow> - uint (chr0 s2)
      | a # as \<Rightarrow>
          if a \<noteq> 0 \<and> a = chr0 s2 then strcmp as (tl s2) else uint a - uint (chr0 s2))"

declare strcmp.simps [simp del]

fun strncmp :: "cstring \<Rightarrow> cstring \<Rightarrow> nat \<Rightarrow> int" where
  "strncmp s1 s2 0 = 0"
| "strncmp s1 s2 (Suc n) =
     (let c1 = chr0 s1; c2 = chr0 s2 in
      if c1 \<noteq> c2 then uint c1 - uint c2
      else if c1 = 0 then 0
      else strncmp (tl s1) (tl s2) n)"

fun strlen :: "cstring \<Rightarrow> nat" where
  "strlen [] = 0"
| "strlen (c # cs) = (if c = 0 then 0 else Suc (strlen cs))"

text \<open>The copy loops: the destination array and the index of the next store.\<close>

fun strcpy :: "u8 list \<Rightarrow> nat \<Rightarrow> cstring \<Rightarrow> u8 list" where
  "strcpy dst i [] = dst[i := 0]"
| "strcpy dst i (c # cs) = (if c = 0 then dst[i := 0] else strcpy (dst[i := c]) (Suc i) cs)"

fun memcpy :: "u8 list \<Rightarrow> nat \<Rightarrow> u8 list \<Rightarrow> nat \<Rightarrow> nat \<Rightarrow> u8 list" where
  "memcpy dst i src j 0 = dst"
| "memcpy dst i src j (Suc n) = memcpy (dst[i := src ! j]) (Suc i) src (Suc j) n"

fun memset :: "u8 list \<Rightarrow> nat \<Rightarrow> u8 \<Rightarrow> nat \<Rightarrow> u8 list" where
  "memset s i c 0 = s"
| "memset s i c (Suc n) = memset (s[i := c]) (Suc i) c n"

fun memcmp :: "u8 list \<Rightarrow> u8 list \<Rightarrow> nat \<Rightarrow> int" where
  "memcmp p1 p2 0 = 0"
| "memcmp p1 p2 (Suc n) =
     (if p1 ! 0 \<noteq> p2 ! 0 then uint (p1 ! 0) - uint (p2 ! 0) else memcmp (tl p1) (tl p2) n)"

subsection \<open>Formatted output\<close>

datatype fmt_arg = AInt u32 | AStr "cstring option"

record fmt_out =
  fo_buf :: "u8 list option"
  fo_pos :: u32
  fo_oob :: bool

definition put :: "u32 \<Rightarrow> u8 \<Rightarrow> fmt_out \<Rightarrow> fmt_out" where
  "put cap ch st =
     (let st' = (case fo_buf st of
          Some buf \<Rightarrow>
            if cap = 0 \<or> fo_pos st + 1 < cap
            then st\<lparr>fo_buf := Some (buf[unat (fo_pos st) := ch]),
                    fo_oob := fo_oob st \<or> length buf \<le> unat (fo_pos st)\<rparr>
            else st
        | None \<Rightarrow> st)
      in st'\<lparr>fo_pos := fo_pos st + 1\<rparr>)"

definition puts :: "u32 \<Rightarrow> u8 list \<Rightarrow> fmt_out \<Rightarrow> fmt_out" where
  "puts cap cs st = fold (put cap) cs st"

definition digit_char :: "bool \<Rightarrow> nat \<Rightarrow> u8" where
  "digit_char upper d = (if d < 10 then 48 + of_nat d else (if upper then 65 else 97) + of_nat (d - 10))"

fun render_rev :: "nat \<Rightarrow> nat \<Rightarrow> bool \<Rightarrow> u8 list" where
  "render_rev v base upper =
     (if v = 0 \<or> base < 2 then []
      else digit_char upper (v mod base) # render_rev (v div base) base upper)"

declare render_rev.simps [simp del]

definition render_uint :: "u32 \<Rightarrow> nat \<Rightarrow> bool \<Rightarrow> u8 list" where
  "render_uint v base upper = (if v = 0 then [48] else rev (render_rev (unat v) base upper))"

text \<open>\<open>va_arg\<close>: the next argument, read as the format asks for it.  A format that does not fit
  its arguments has no defined meaning; the model then reads 0, or the null string.\<close>

definition va_int :: "fmt_arg list \<Rightarrow> u32 \<times> fmt_arg list" where
  "va_int ap = (case ap of AInt v # r \<Rightarrow> (v, r) | _ # r \<Rightarrow> (0, r) | [] \<Rightarrow> (0, []))"

definition va_str :: "fmt_arg list \<Rightarrow> cstring option \<times> fmt_arg list" where
  "va_str ap = (case ap of AStr s # r \<Rightarrow> (s, r) | _ # r \<Rightarrow> (None, r) | [] \<Rightarrow> (None, []))"

fun fmt_flags :: "u8 list \<Rightarrow> bool \<Rightarrow> bool \<Rightarrow> bool \<times> bool \<times> u8 list" where
  "fmt_flags (c # p) left zero =
     (if c = 45 then fmt_flags p True zero
      else if c = 48 then fmt_flags p left True
      else (left, zero, c # p))"
| "fmt_flags [] left zero = (left, zero, [])"

text \<open>The width is a C \<open>int\<close>: 32 bits that wrap around as the instructions of the target do, read as a
  signed number where it is compared.\<close>

fun fmt_width :: "u8 list \<Rightarrow> u32 \<Rightarrow> u32 \<times> u8 list" where
  "fmt_width (c # p) w =
     (if 48 \<le> c \<and> c \<le> 57 then fmt_width p (w * 10 + ucast (c - 48)) else (w, c # p))"
| "fmt_width [] w = (w, [])"

definition pad_space :: "u32 \<Rightarrow> nat \<Rightarrow> nat" where
  "pad_space width len = (if sint width > int len then nat (sint width - int len) else 0)"

definition pad_num :: "bool \<Rightarrow> bool \<Rightarrow> u32 \<Rightarrow> u8 list \<Rightarrow> u8 list" where
  "pad_num left zero width tmp =
     (let space = pad_space width (length tmp) in
      if \<not> left
      then if zero
        then (if tmp \<noteq> [] \<and> hd tmp = 45 then 45 # replicate space 48 @ tl tmp
              else replicate space 48 @ tmp)
        else replicate space 32 @ tmp
      else tmp @ replicate space 32)"

definition pad_str :: "bool \<Rightarrow> u32 \<Rightarrow> cstring option \<Rightarrow> u8 list" where
  "pad_str left width s =
     (let t = (case s of None \<Rightarrow> cstr ''(null)'' | Some t \<Rightarrow> take (strlen t) t);
          space = pad_space width (length t) in
      (if \<not> left then replicate space 32 else []) @ t @ (if left then replicate space 32 else []))"

definition signed_text :: "u32 \<Rightarrow> u8 list" where
  "signed_text v =
     (if sint v < 0 then 45 # render_uint (- v) 10 False else render_uint v 10 False)"

text \<open>One conversion, from the byte after \<open>%\<close>: the bytes it stores, the arguments that are
  left, and whether the pointer moves past the conversion character.\<close>

definition fmt_conv :: "bool \<Rightarrow> bool \<Rightarrow> u32 \<Rightarrow> u8 \<Rightarrow> fmt_arg list \<Rightarrow> u8 list \<times> fmt_arg list" where
  "fmt_conv left zero width spec ap =
     (if spec = 100 then let (v, r) = va_int ap in (pad_num left zero width (signed_text v), r)
      else if spec = 117 then let (v, r) = va_int ap in (pad_num left zero width (render_uint v 10 False), r)
      else if spec = 120 then let (v, r) = va_int ap in (pad_num left zero width (render_uint v 16 False), r)
      else if spec = 88 then let (v, r) = va_int ap in (pad_num left zero width (render_uint v 16 True), r)
      else if spec = 111 then let (v, r) = va_int ap in (pad_num left zero width (render_uint v 8 False), r)
      else if spec = 112 then let (v, r) = va_int ap in
        (pad_num left zero width ([48, 120] @ render_uint v 16 False), r)
      else if spec = 115 then let (s, r) = va_str ap in (pad_str left width s, r)
      else if spec = 99 then let (v, r) = va_int ap in ([ucast v], r)
      else if spec = 37 then ([37], ap)
      else ([37, spec], ap))"

definition fmt_parse :: "u8 list \<Rightarrow> bool \<times> bool \<times> u32 \<times> u8 list" where
  "fmt_parse p =
     (let (left, zero, p1) = fmt_flags p False False;
          (width, p2) = fmt_width p1 0;
          p3 = (if p2 \<noteq> [] \<and> hd p2 = 108 then tl p2 else p2)
      in (left, zero \<and> \<not> left, width, p3))"

lemma fmt_flags_length: "fmt_flags p l z = (l', z', q) \<Longrightarrow> length q \<le> length p"
  by (induction p l z rule: fmt_flags.induct) (fastforce split: if_splits)+

lemma fmt_width_length: "fmt_width p w = (w', q) \<Longrightarrow> length q \<le> length p"
  by (induction p w rule: fmt_width.induct) (fastforce split: if_splits)+

lemma fmt_parse_length: "fmt_parse p = (l, z, w, q) \<Longrightarrow> length q \<le> length p"
  by (auto simp: fmt_parse_def Let_def split: prod.splits if_splits
      dest!: fmt_flags_length fmt_width_length)

function kfmt :: "u32 \<Rightarrow> u8 list \<Rightarrow> fmt_arg list \<Rightarrow> fmt_out \<Rightarrow> fmt_out" where
  "kfmt cap [] ap st = st"
| "kfmt cap (c # p) ap st =
     (if c = 0 then st
      else if c \<noteq> 37 then kfmt cap p ap (put cap c st)
      else case fmt_parse p of (left, zero, width, q) \<Rightarrow>
        (case fmt_conv left zero width (chr0 q) ap of (cs, r) \<Rightarrow>
           kfmt cap (if chr0 q = 0 then [] else tl q) r (puts cap cs st)))"
  by pat_completeness auto
termination
  by (relation "measure (\<lambda>(cap, p, ap, st). length p)")
    (auto dest!: sym [of _ "fmt_parse _"] fmt_parse_length)

definition kvsnprintf :: "u8 list option \<Rightarrow> u32 \<Rightarrow> u8 list \<Rightarrow> fmt_arg list \<Rightarrow> int \<times> fmt_out" where
  "kvsnprintf buf cap fmt ap =
     (let st = kfmt cap fmt ap \<lparr>fo_buf = buf, fo_pos = 0, fo_oob = False\<rparr>;
          pos = fo_pos st
      in (sint pos, case fo_buf st of
            None \<Rightarrow> st
          | Some b \<Rightarrow>
              if cap > 0
              then let e = (if pos < cap then pos else cap - 1) in
                st\<lparr>fo_buf := Some (b[unat e := 0]), fo_oob := fo_oob st \<or> length b \<le> unat e\<rparr>
              else st))"

definition ksnprintf :: "u8 list option \<Rightarrow> u32 \<Rightarrow> u8 list \<Rightarrow> fmt_arg list \<Rightarrow> int \<times> fmt_out" where
  "ksnprintf = kvsnprintf"

text \<open>The bytes the formatter hands to \<open>put\<close>, with no buffer in sight.\<close>

function fmt_text :: "u8 list \<Rightarrow> fmt_arg list \<Rightarrow> u8 list" where
  "fmt_text [] ap = []"
| "fmt_text (c # p) ap =
     (if c = 0 then []
      else if c \<noteq> 37 then c # fmt_text p ap
      else case fmt_parse p of (left, zero, width, q) \<Rightarrow>
        (case fmt_conv left zero width (chr0 q) ap of (cs, r) \<Rightarrow>
           cs @ fmt_text (if chr0 q = 0 then [] else tl q) r))"
  by pat_completeness auto
termination
  by (relation "measure (\<lambda>(p, ap). length p)")
    (auto dest!: sym [of _ "fmt_parse _"] fmt_parse_length)

subsection \<open>The string functions against their specification\<close>

lemma chr0_simps [simp]: "chr0 [] = 0" "chr0 (c # cs) = c"
  by (simp_all add: chr0_def)

lemma strcmp_Nil [simp]: "strcmp [] t = - uint (chr0 t)"
  by (simp add: strcmp.simps)

lemma strcmp_Cons [simp]:
  "strcmp (a # s) t = (if a \<noteq> 0 \<and> a = chr0 t then strcmp s (tl t) else uint a - uint (chr0 t))"
  by (simp add: strcmp.simps)

lemma strcmp_eq_0: "0 \<notin> set s \<Longrightarrow> 0 \<notin> set t \<Longrightarrow> strcmp s t = 0 \<longleftrightarrow> s = t"
proof (induction s arbitrary: t)
  case Nil
  then show ?case by (cases t) (auto simp: unsigned_eq_0_iff)
next
  case (Cons a s)
  then show ?case by (cases t) (auto simp: word_uint_eq_iff)
qed

lemma strncmp_eq_0:
  "0 \<notin> set s \<Longrightarrow> 0 \<notin> set t \<Longrightarrow> strncmp s t n = 0 \<longleftrightarrow> take n s = take n t"
proof (induction n arbitrary: s t)
  case 0
  then show ?case by simp
next
  case (Suc n)
  then show ?case by (cases s; cases t) (auto simp: Let_def word_uint_eq_iff)
qed

lemma strlen_nz: "0 \<notin> set s \<Longrightarrow> strlen s = length s"
  by (induction s) auto

lemma blit_Cons: "i < length dst \<Longrightarrow> blit (dst[i := c]) (Suc i) cs = blit dst i (c # cs)"
  by (rule nth_equalityI) (auto simp: nth_blit nth_list_update nth_Cons' less_Suc_eq_le)

lemma blit_single: "i < length dst \<Longrightarrow> dst[i := c] = blit dst i [c]"
  by (rule nth_equalityI) (auto simp: nth_blit nth_list_update)

lemma strcpy_blit:
  "0 \<notin> set s \<Longrightarrow> i + length s < length dst \<Longrightarrow> strcpy dst i s = blit dst i (s @ [0])"
proof (induction s arbitrary: dst i)
  case Nil
  then show ?case by (simp add: blit_single)
next
  case (Cons c s)
  then show ?case by (simp add: blit_Cons)
qed

lemma memcpy_blit:
  "j + n \<le> length src \<Longrightarrow> i + n \<le> length dst \<Longrightarrow> memcpy dst i src j n = blit dst i (take n (drop j src))"
proof (induction n arbitrary: dst i j)
  case 0
  then show ?case by simp
next
  case (Suc n)
  then have "drop j src = src ! j # drop (Suc j) src" by (intro Cons_nth_drop_Suc [symmetric]) simp
  with Suc show ?case by (simp add: blit_Cons)
qed

lemma memset_blit: "i + n \<le> length s \<Longrightarrow> memset s i c n = blit s i (replicate n c)"
  by (induction n arbitrary: s i) (auto simp: blit_Cons)

lemma memcmp_eq_0:
  "n \<le> length p \<Longrightarrow> n \<le> length q \<Longrightarrow> memcmp p q n = 0 \<longleftrightarrow> take n p = take n q"
proof (induction n arbitrary: p q)
  case 0
  then show ?case by simp
next
  case (Suc n)
  then show ?case by (cases p; cases q) (auto simp: word_uint_eq_iff)
qed

subsection \<open>Numbers\<close>

definition char_digit :: "u8 \<Rightarrow> nat" where
  "char_digit c = (if c \<ge> 97 then unat (c - 97) + 10 else if c \<ge> 65 then unat (c - 65) + 10 else unat (c - 48))"

definition digits_value :: "nat \<Rightarrow> u8 list \<Rightarrow> nat" where
  "digits_value base cs = foldl (\<lambda>v c. v * base + char_digit c) 0 cs"

lemma char_digit_char: "d < 16 \<Longrightarrow> char_digit (digit_char upper d) = d"
proof -
  assume "d < 16"
  then have "d \<in> set [0..<16]" by simp
  then have "\<forall>d\<in>set [0..<16]. char_digit (digit_char True d) = d \<and> char_digit (digit_char False d) = d"
    by (simp add: char_digit_def digit_char_def upt_rec)
  with \<open>d \<in> set [0..<16]\<close> show ?thesis by (cases upper) simp_all
qed

lemma digits_value_snoc: "digits_value base (cs @ [c]) = digits_value base cs * base + char_digit c"
  by (simp add: digits_value_def)

lemma digits_value_render_rev:
  "2 \<le> base \<Longrightarrow> base \<le> 16 \<Longrightarrow> digits_value base (rev (render_rev v base upper)) = v"
proof (induction v base upper rule: render_rev.induct)
  case (1 v base upper)
  show ?case
  proof (cases "v = 0")
    case True
    then show ?thesis by (simp add: render_rev.simps digits_value_def)
  next
    case False
    have "v mod base < 16" using "1.prems" by (meson mod_less_divisor order_less_le_trans less_le_trans zero_less_numeral)
    with False "1" show ?thesis
      by (simp add: render_rev.simps [of v base upper] digits_value_snoc char_digit_char)
  qed
qed

lemma render_rev_length: "2 \<le> base \<Longrightarrow> v < base ^ n \<Longrightarrow> length (render_rev v base upper) \<le> n"
proof (induction n arbitrary: v)
  case 0
  then show ?case by (simp add: render_rev.simps)
next
  case (Suc n)
  have "v div base < base ^ n" using Suc.prems by (simp add: less_mult_imp_div_less mult.commute)
  with Suc show ?case by (subst render_rev.simps) auto
qed

subsection \<open>The formatter against its reference\<close>

lemma puts_Nil [simp]: "puts cap [] st = st"
  by (simp add: puts_def)

lemma puts_Cons [simp]: "puts cap (c # cs) st = puts cap cs (put cap c st)"
  by (simp add: puts_def)

lemma puts_append [simp]: "puts cap (cs @ ds) st = puts cap ds (puts cap cs st)"
  by (simp add: puts_def)

lemma kfmt_puts: "kfmt cap p ap st = puts cap (fmt_text p ap) st"
proof (induction p ap arbitrary: st rule: fmt_text.induct)
  case (1 ap)
  then show ?case by simp
next
  case (2 c p ap)
  then show ?case by (auto split: prod.splits)
qed

lemma unat_succ: "unat (p :: u32) + 1 < 2 ^ 32 \<Longrightarrow> unat (p + 1) = unat p + 1"
  by (simp add: unat_word_ariths)

lemma puts_buffer:
  assumes "length b = unat cap" "0 < cap" "unat pos + length cs < 2 ^ 32"
  shows "puts cap cs \<lparr>fo_buf = Some b, fo_pos = pos, fo_oob = False\<rparr> =
    \<lparr>fo_buf = Some (blit b (unat pos) (take (unat cap - 1 - unat pos) cs)), fo_pos = pos + of_nat (length cs), fo_oob = False\<rparr>"
  using assms(1,3)
proof (induction cs arbitrary: b pos)
  case Nil
  then show ?case by simp
next
  case (Cons c cs)
  have u: "unat (pos + 1) = unat pos + 1" using Cons.prems(2) by (intro unat_succ) simp
  have cap: "cap \<noteq> 0" "0 < unat cap" using assms(2) by (auto simp: unat_gt_0)
  show ?case
  proof (cases "unat pos + 1 < unat cap")
    case True
    then obtain m where "unat cap - 1 - unat pos = Suc m" "unat cap - 1 - Suc (unat pos) = m"
      by (cases "unat cap - 1 - unat pos") auto
    with True Cons u show ?thesis by (simp add: put_def blit_Cons word_less_nat_alt add.assoc)
  next
    case False
    with Cons cap u show ?thesis by (auto simp: put_def word_less_nat_alt add.assoc)
  qed
qed

lemma render_uint_value:
  "2 \<le> base \<Longrightarrow> base \<le> 16 \<Longrightarrow> digits_value base (render_uint v base upper) = unat v"
proof (cases "v = 0")
  case True
  then show ?thesis by (simp add: render_uint_def digits_value_def char_digit_def)
next
  case False
  assume "2 \<le> base" "base \<le> 16"
  with False show ?thesis by (simp add: render_uint_def digits_value_render_rev)
qed

lemma render_uint_length:
  assumes "8 \<le> base"
  shows "length (render_uint v base upper) \<le> 11"
proof -
  have "unat v < 2 ^ 32" using unsigned_less [of v] by simp
  also have "(2::nat) ^ 32 \<le> 8 ^ 11" by simp
  also have "(8::nat) ^ 11 \<le> base ^ 11" using assms by (rule power_mono) simp
  finally show ?thesis using render_rev_length [of base "unat v" 11 upper] assms
    by (auto simp: render_uint_def)
qed

text \<open>\<open>strcmp\<close>, \<open>strncmp\<close> and \<open>memcmp\<close> return 0 exactly when the strings, their first
  \<open>n\<close> bytes, or the two memory blocks are equal; \<open>strcpy\<close>, \<open>memcpy\<close> and \<open>memset\<close> store exactly
  the bytes they should, and nothing else, when the destination has room.\<close>

lemma string_functions_correct:
  assumes "0 \<notin> set s" "0 \<notin> set t" "n \<le> length p" "n \<le> length q" "i + length s < length d"
    "i + n \<le> length d"
  shows "(strcmp s t = 0 \<longleftrightarrow> s = t) \<and> (strncmp s t n = 0 \<longleftrightarrow> take n s = take n t) \<and>
    strlen s = length s \<and> (memcmp p q n = 0 \<longleftrightarrow> take n p = take n q) \<and>
    strcpy d i s = blit d i (s @ [0]) \<and> memcpy d i p 0 n = blit d i (take n p) \<and>
    memset d i c n = blit d i (replicate n c)"
  using assms by (simp add: strcmp_eq_0 strncmp_eq_0 strlen_nz memcmp_eq_0 strcpy_blit memcpy_blit memset_blit)

theorem string_functions_correct_witness:
  "strcmp (cstr ''fat32'') (cstr ''fat32'') = 0 \<and>
   strcpy [9, 9, 9, 9] 1 [65, 66] = [9, 65, 66, 0] \<and> memset [9, 9, 9, 9] 1 7 2 = [9, 7, 7, 9]"
proof -
  have "strcmp (cstr ''fat32'') (cstr ''fat32'') = 0"
    using string_functions_correct [of "cstr ''fat32''" "cstr ''fat32''" 0 "[]" "[]" 0 "replicate 6 0"]
    by (simp add: cstr_def)
  moreover have "strcpy [9, 9, 9, 9] 1 [65, 66] = [9, 65, 66, 0]" "memset [9, 9, 9, 9] 1 7 2 = [9, 7, 7, 9]"
    using string_functions_correct [of "[65, 66]" "[]" 2 "[1, 2]" "[1, 2]" 1 "[9, 9, 9, 9]" 7]
    by (simp_all add: blit_def)
  ultimately show ?thesis by blast
qed

lemma sint_of_nat_small: "n < 2 ^ 31 \<Longrightarrow> sint (of_nat n :: u32) = int n"
  by (simp add: sint_uint signed_take_bit_int_eq_self take_bit_nat_eq_self unsigned_of_nat)

lemma kvsnprintf_text:
  assumes "length b = unat cap" "0 < cap" "length (fmt_text fmt ap) < 2 ^ 31"
  shows "kvsnprintf (Some b) cap fmt ap =
    (int (length (fmt_text fmt ap)),
     \<lparr>fo_buf = Some (blit b 0 (take (unat cap - 1) (fmt_text fmt ap) @ [0])),
      fo_pos = of_nat (length (fmt_text fmt ap)), fo_oob = False\<rparr>)"
proof -
  let ?l = "length (fmt_text fmt ap)" and ?t = "take (unat cap - 1) (fmt_text fmt ap)"
  have cap: "cap \<noteq> 0" "0 < unat cap" using assms(2) by (auto simp: unat_gt_0)
  then have c1: "unat (cap - 1) = unat cap - 1" by (metis unat_minus_one)
  have u: "unat (of_nat ?l :: u32) = ?l" using assms(3) by (simp add: unsigned_of_nat take_bit_nat_eq_self)
  have len: "length ?t < unat cap" using cap by simp
  have "(blit b 0 ?t)[length ?t := 0] = blit b 0 (?t @ [0])"
    using len assms(1) by (intro nth_equalityI) (auto simp: nth_blit nth_list_update nth_append)
  moreover have "unat (if of_nat ?l < cap then of_nat ?l else cap - 1) = length ?t"
    using u c1 by (auto simp: word_less_nat_alt)
  moreover have "kfmt cap fmt ap \<lparr>fo_buf = Some b, fo_pos = 0, fo_oob = False\<rparr> =
      \<lparr>fo_buf = Some (blit b 0 ?t), fo_pos = of_nat ?l, fo_oob = False\<rparr>"
    using puts_buffer [OF assms(1,2), of 0 "fmt_text fmt ap"] assms(3) by (simp add: kfmt_puts)
  moreover have "\<not> unat cap \<le> unat cap - Suc 0" using cap by simp
  ultimately show ?thesis
    using len assms cap sint_of_nat_small [OF assms(3)] by (cases "of_nat ?l < cap") (simp_all add: kvsnprintf_def Let_def)
qed

text \<open>The digits \<open>render_uint\<close> writes read back, in the same base, as the number, and there
  are at most 11 of them for the bases 8, 10 and 16 the formatter uses, so that neither the
  12-byte array of reversed digits nor the 16-byte array of the caller (which adds a sign or
  \<open>0x\<close>) is overrun.\<close>

lemma render_uint_roundtrip:
  assumes "base \<in> {8, 10, 16}"
  shows "digits_value base (render_uint v base upper) = unat v \<and>
    length (render_uint v base upper) \<le> 11 \<and> length ([48, 120] @ render_uint v base upper) \<le> 16"
  using assms render_uint_value [of base v upper] render_uint_length [of base v upper] by auto

theorem render_uint_roundtrip_witness:
  "digits_value 16 (render_uint 48879 16 False) = 48879"
  using render_uint_roundtrip [of 16 48879 False] by simp

text \<open>With a size of 0 the guard of \<open>put\<close> is always true, and any text with a byte in it is
  stored beyond a buffer of no bytes.\<close>

lemma kvsnprintf_size_0_overruns:
  "fo_oob (snd (kvsnprintf (Some []) 0 [65] []))"
  by (simp add: kvsnprintf_def put_def Let_def)

end
