(* ===== verification/Block_Cache.thy ===== *)
theory Block_Cache
  imports Klibc
begin

section \<open>Block devices and the buffer cache\<close>

text \<open>
  \<open>kernel/src/kernel/block/block.c\<close> (the registry of block devices and the two dispatch
  functions) and \<open>kernel/src/kernel/block/buffer_cache.c\<close> (64 write-back buffers of 512 bytes).

  A pointer to a \<open>struct block_device\<close> is an optional address (\<open>None\<close> is \<open>NULL\<close>); the
  argument \<open>D\<close> is the memory the devices live in.  The driver's sector functions are fields of
  the device, as in the source: they act on the medium \<open>'w\<close>, about which nothing is assumed in
  the definitions.  A sector function returns its code, the caller's buffer after the call, and
  the new medium.

  The contract of a medium is the locale \<open>sector_device\<close>.  Over it, the lemmas show that the
  cache is transparent: \<open>bread\<close> delivers the contents the medium would have if every store made
  so far had gone through, no operation loses a store, and a successful \<open>bsync\<close> makes the
  medium equal to that view.
\<close>

subsection \<open>Block devices\<close>

record 'w block_operations =
  read_sectors :: "('w \<Rightarrow> u32 \<Rightarrow> u32 \<Rightarrow> u8 list \<Rightarrow> int \<times> u8 list \<times> 'w) option"
  write_sectors :: "('w \<Rightarrow> u32 \<Rightarrow> u32 \<Rightarrow> u8 list \<Rightarrow> int \<times> 'w) option"

record 'w block_device =
  bd_name :: cstring
  bd_sector_size :: u32
  bd_total_sectors :: u32
  bd_ops :: "'w block_operations option"

type_synonym bdev_ptr = "nat option"
type_synonym 'w bdev_mem = "nat \<Rightarrow> 'w block_device"

definition MAX_BLOCK_DEVS :: nat where [vx_consts]: "MAX_BLOCK_DEVS = 4"

text \<open>\<open>bdevs[0 .. num_bdevs)\<close> is the list of the registered pointers.\<close>

definition block_register :: "nat \<Rightarrow> nat list \<Rightarrow> int \<times> nat list" where
  "block_register bdev bdevs =
     (if length bdevs \<ge> MAX_BLOCK_DEVS then (E_FAIL, bdevs) else (E_OK, bdevs @ [bdev]))"

definition block_find :: "'w bdev_mem \<Rightarrow> cstring \<Rightarrow> nat list \<Rightarrow> bdev_ptr" where
  "block_find D name bdevs = List.find (\<lambda>p. strcmp (bd_name (D p)) name = 0) bdevs"

definition block_read ::
  "'w bdev_mem \<Rightarrow> bdev_ptr \<Rightarrow> u32 \<Rightarrow> u32 \<Rightarrow> u8 list \<Rightarrow> 'w \<Rightarrow> int \<times> u8 list \<times> 'w" where
  "block_read D bdev lba count buf w =
     (case bdev of None \<Rightarrow> (E_FAIL, buf, w)
      | Some p \<Rightarrow> (case bd_ops (D p) of None \<Rightarrow> (E_FAIL, buf, w)
          | Some ops \<Rightarrow> (case read_sectors ops of None \<Rightarrow> (E_FAIL, buf, w)
              | Some f \<Rightarrow> f w lba count buf)))"

definition block_write ::
  "'w bdev_mem \<Rightarrow> bdev_ptr \<Rightarrow> u32 \<Rightarrow> u32 \<Rightarrow> u8 list \<Rightarrow> 'w \<Rightarrow> int \<times> 'w" where
  "block_write D bdev lba count buf w =
     (case bdev of None \<Rightarrow> (E_PERM, w)
      | Some p \<Rightarrow> (case bd_ops (D p) of None \<Rightarrow> (E_PERM, w)
          | Some ops \<Rightarrow> (case write_sectors ops of None \<Rightarrow> (E_PERM, w)
              | Some f \<Rightarrow> f w lba count buf)))"

subsection \<open>The buffer cache\<close>

definition BCACHE_BUFFERS :: nat where [vx_consts]: "BCACHE_BUFFERS = 64"
definition BCACHE_BLOCK_SIZE :: nat where [vx_consts]: "BCACHE_BLOCK_SIZE = 512"

record buffer_head =
  bh_bdev :: bdev_ptr
  bh_lba :: u32
  bh_data :: "u8 list"
  bh_valid :: bool
  bh_dirty :: bool
  bh_last_used :: u32

record bcache_state =
  buffers :: "buffer_head list"
  tick_counter :: u32
  stat_hits :: u32
  stat_misses :: u32

text \<open>The cache together with the medium behind it.\<close>

record 'w io_state =
  cache :: bcache_state
  medium :: 'w

definition bcache_init :: "bcache_state \<Rightarrow> bcache_state" where
  "bcache_init c = \<lparr>buffers = map (\<lambda>b. b\<lparr>bh_bdev := None, bh_lba := 0, bh_valid := False,
       bh_dirty := False, bh_last_used := 0\<rparr>) (buffers c),
     tick_counter = 0, stat_hits = 0, stat_misses = 0\<rparr>"

definition buf_at :: "bcache_state \<Rightarrow> nat \<Rightarrow> buffer_head" where
  "buf_at c i = buffers c ! i"

definition set_buf :: "nat \<Rightarrow> buffer_head \<Rightarrow> bcache_state \<Rightarrow> bcache_state" where
  "set_buf i b c = c\<lparr>buffers := (buffers c)[i := b]\<rparr>"

definition find_cached :: "bdev_ptr \<Rightarrow> u32 \<Rightarrow> bcache_state \<Rightarrow> nat option" where
  "find_cached bdev lba c = first_idx
     (\<lambda>i. bh_valid (buf_at c i) \<and> bh_bdev (buf_at c i) = bdev \<and> bh_lba (buf_at c i) = lba)
     0 BCACHE_BUFFERS"

text \<open>The loop of \<open>pick_victim\<close>, from index \<open>i\<close> with the current candidate.\<close>

function victim_loop :: "bcache_state \<Rightarrow> nat \<Rightarrow> nat \<Rightarrow> nat" where
  "victim_loop c i victim =
     (if i < BCACHE_BUFFERS
      then if \<not> bh_valid (buf_at c i) then i
        else victim_loop c (Suc i)
          (if bh_last_used (buf_at c i) < bh_last_used (buf_at c victim) then i else victim)
      else victim)"
  by pat_completeness auto
termination
  by (relation "measure (\<lambda>(c, i, v). BCACHE_BUFFERS - i)") auto

declare victim_loop.simps [simp del]

definition pick_victim :: "bcache_state \<Rightarrow> nat" where
  "pick_victim c = victim_loop c 0 0"

definition flush_buffer :: "'w bdev_mem \<Rightarrow> nat \<Rightarrow> 'w io_state \<Rightarrow> int \<times> 'w io_state" where
  "flush_buffer D i s =
     (let b = buf_at (cache s) i in
      if \<not> bh_valid b \<or> \<not> bh_dirty b then (E_OK, s)
      else let (rc, w) = block_write D (bh_bdev b) (bh_lba b) 1 (bh_data b) (medium s) in
        (rc, if rc = E_OK
             then s\<lparr>cache := set_buf i (b\<lparr>bh_dirty := False\<rparr>) (cache s), medium := w\<rparr>
             else s\<lparr>medium := w\<rparr>))"

text \<open>\<open>bread\<close> after a miss: write the victim back if needed, then load the sector into it.\<close>

definition bread_load :: "'w bdev_mem \<Rightarrow> bdev_ptr \<Rightarrow> u32 \<Rightarrow> nat \<Rightarrow> 'w io_state \<Rightarrow> nat option \<times> 'w io_state"
  where
  "bread_load D bdev lba i s =
     (let b = buf_at (cache s) i;
          (rc, d, w) = block_read D bdev lba 1 (bh_data b) (medium s);
          c = cache s in
      if rc \<noteq> E_OK
      then (None, s\<lparr>cache := set_buf i (b\<lparr>bh_data := d, bh_valid := False\<rparr>) c, medium := w\<rparr>)
      else let t = tick_counter c + 1 in
        (Some i, s\<lparr>cache := (set_buf i (b\<lparr>bh_bdev := bdev, bh_lba := lba, bh_data := d,
            bh_valid := True, bh_dirty := False, bh_last_used := t\<rparr>) c)\<lparr>tick_counter := t\<rparr>,
          medium := w\<rparr>))"

definition bread_miss :: "'w bdev_mem \<Rightarrow> bdev_ptr \<Rightarrow> u32 \<Rightarrow> 'w io_state \<Rightarrow> nat option \<times> 'w io_state"
  where
  "bread_miss D bdev lba s =
     (let i = pick_victim (cache s); b = buf_at (cache s) i in
      if bh_valid b \<and> bh_dirty b
      then (case flush_buffer D i s of (rc, s') \<Rightarrow>
             if rc \<noteq> E_OK then (None, s') else bread_load D bdev lba i s')
      else bread_load D bdev lba i s)"

definition bread :: "'w bdev_mem \<Rightarrow> bdev_ptr \<Rightarrow> u32 \<Rightarrow> 'w io_state \<Rightarrow> nat option \<times> 'w io_state" where
  "bread D bdev lba s =
     (case find_cached bdev lba (cache s) of
        Some i \<Rightarrow>
          let c = cache s; t = tick_counter c + 1 in
          (Some i, s\<lparr>cache := (set_buf i ((buf_at c i)\<lparr>bh_last_used := t\<rparr>) c)
             \<lparr>tick_counter := t, stat_hits := stat_hits c + 1\<rparr>\<rparr>)
      | None \<Rightarrow>
          bread_miss D bdev lba
            (s\<lparr>cache := (cache s)\<lparr>stat_misses := stat_misses (cache s) + 1\<rparr>\<rparr>))"

definition brelse :: "nat \<Rightarrow> 'w io_state \<Rightarrow> 'w io_state" where
  "brelse i s = s"

definition bmark_dirty :: "nat \<Rightarrow> 'w io_state \<Rightarrow> 'w io_state" where
  "bmark_dirty i s =
     (let b = buf_at (cache s) i in
      if bh_valid b then s\<lparr>cache := set_buf i (b\<lparr>bh_dirty := True\<rparr>) (cache s)\<rparr> else s)"

text \<open>The stores \<open>bh->data[\<dots>] = \<dots>\<close> that callers make through the pointer \<open>bread\<close> returned.\<close>

definition bstore :: "nat \<Rightarrow> u8 list \<Rightarrow> 'w io_state \<Rightarrow> 'w io_state" where
  "bstore i d s = s\<lparr>cache := set_buf i ((buf_at (cache s) i)\<lparr>bh_data := d\<rparr>) (cache s)\<rparr>"

definition binvalidate :: "bdev_ptr \<Rightarrow> u32 \<Rightarrow> 'w io_state \<Rightarrow> 'w io_state" where
  "binvalidate bdev lba s =
     (case find_cached bdev lba (cache s) of
        None \<Rightarrow> s
      | Some i \<Rightarrow> s\<lparr>cache := set_buf i ((buf_at (cache s) i)
            \<lparr>bh_valid := False, bh_dirty := False\<rparr>) (cache s)\<rparr>)"

definition bsync_step :: "'w bdev_mem \<Rightarrow> nat \<Rightarrow> int \<times> 'w io_state \<Rightarrow> int \<times> 'w io_state" where
  "bsync_step D i = (\<lambda>(last_err, s).
     if bh_valid (buf_at (cache s) i) \<and> bh_dirty (buf_at (cache s) i)
     then (case flush_buffer D i s of (rc, s') \<Rightarrow> (if rc \<noteq> E_OK then rc else last_err, s'))
     else (last_err, s))"

definition bsync :: "'w bdev_mem \<Rightarrow> 'w io_state \<Rightarrow> int \<times> 'w io_state" where
  "bsync D s = fold (bsync_step D) [0..<BCACHE_BUFFERS] (E_OK, s)"

definition bcache_hits :: "bcache_state \<Rightarrow> u32" where "bcache_hits c = stat_hits c"
definition bcache_misses :: "bcache_state \<Rightarrow> u32" where "bcache_misses c = stat_misses c"

subsection \<open>The contract of a medium, and the view through the cache\<close>

text \<open>\<open>sector w p lba\<close> is the contents of sector \<open>lba\<close> of device \<open>p\<close> on the medium \<open>w\<close>.  A
  read that succeeds delivers it; a write that succeeds replaces it; a write that fails may tear
  the sector it was meant for; nothing else on the medium changes.\<close>

locale sector_device =
  fixes D :: "'w bdev_mem" and sector :: "'w \<Rightarrow> nat \<Rightarrow> u32 \<Rightarrow> u8 list"
  assumes sector_length: "length (sector w p lba) = BCACHE_BLOCK_SIZE"
    and read_ok: "length buf = BCACHE_BLOCK_SIZE \<Longrightarrow>
      block_read D (Some p) lba 1 buf w = (E_OK, d, w') \<Longrightarrow> d = sector w p lba"
    and read_frame: "length buf = BCACHE_BLOCK_SIZE \<Longrightarrow>
      block_read D (Some p) lba 1 buf w = (rc, d, w') \<Longrightarrow>
      length d = BCACHE_BLOCK_SIZE \<and> sector w' = sector w"
    and write_ok: "length d = BCACHE_BLOCK_SIZE \<Longrightarrow>
      block_write D (Some p) lba 1 d w = (E_OK, w') \<Longrightarrow> sector w' p lba = d"
    and write_frame: "length d = BCACHE_BLOCK_SIZE \<Longrightarrow>
      block_write D (Some p) lba 1 d w = (rc, w') \<Longrightarrow>
      (q, l) \<noteq> (p, lba) \<Longrightarrow> sector w' q l = sector w q l"

definition holds :: "bcache_state \<Rightarrow> nat \<Rightarrow> nat \<Rightarrow> u32 \<Rightarrow> bool" where
  "holds c i p lba \<longleftrightarrow> i < BCACHE_BUFFERS \<and> bh_valid (buf_at c i) \<and>
     bh_bdev (buf_at c i) = Some p \<and> bh_lba (buf_at c i) = lba"

text \<open>What the kernel sees: a cached sector through its buffer, any other on the medium.\<close>

definition view :: "('w \<Rightarrow> nat \<Rightarrow> u32 \<Rightarrow> u8 list) \<Rightarrow> 'w io_state \<Rightarrow> nat \<Rightarrow> u32 \<Rightarrow> u8 list" where
  "view sector s p lba = (case find_cached (Some p) lba (cache s) of
       Some i \<Rightarrow> bh_data (buf_at (cache s) i)
     | None \<Rightarrow> sector (medium s) p lba)"

definition buf_ok :: "('w \<Rightarrow> nat \<Rightarrow> u32 \<Rightarrow> u8 list) \<Rightarrow> 'w \<Rightarrow> buffer_head \<Rightarrow> bool" where
  "buf_ok sector w b \<longleftrightarrow> length (bh_data b) = BCACHE_BLOCK_SIZE \<and>
     (bh_valid b \<longrightarrow> (case bh_bdev b of None \<Rightarrow> False
        | Some p \<Rightarrow> \<not> bh_dirty b \<longrightarrow> bh_data b = sector w p (bh_lba b)))"

definition cache_inv :: "('w \<Rightarrow> nat \<Rightarrow> u32 \<Rightarrow> u8 list) \<Rightarrow> 'w io_state \<Rightarrow> bool" where
  "cache_inv sector s \<longleftrightarrow> length (buffers (cache s)) = BCACHE_BUFFERS \<and>
     (\<forall>i<BCACHE_BUFFERS. buf_ok sector (medium s) (buf_at (cache s) i)) \<and>
     (\<forall>i j p lba. holds (cache s) i p lba \<longrightarrow> holds (cache s) j p lba \<longrightarrow> i = j)"

lemma find_cached_None: "find_cached (Some p) lba c = None \<longleftrightarrow> (\<forall>i. \<not> holds c i p lba)"
  by (auto simp: find_cached_def first_idx_None_iff holds_def)

lemma find_cached_Some: "find_cached (Some p) lba c = Some i \<Longrightarrow> holds c i p lba"
  using first_idx_SomeD(2,3) [of _ 0 BCACHE_BUFFERS i] by (fastforce simp: find_cached_def holds_def)

lemma cache_inv_unique:
  "cache_inv sector s \<Longrightarrow> holds (cache s) i p lba \<Longrightarrow> holds (cache s) j p lba \<Longrightarrow> i = j"
  by (auto simp: cache_inv_def)

lemma view_cached: "cache_inv sector s \<Longrightarrow> holds (cache s) i p lba \<Longrightarrow>
    view sector s p lba = bh_data (buf_at (cache s) i)"
  by (cases "find_cached (Some p) lba (cache s)")
    (auto simp: view_def find_cached_None dest!: find_cached_Some dest: cache_inv_unique)

lemma view_uncached: "(\<And>i. \<not> holds (cache s) i p lba) \<Longrightarrow> view sector s p lba = sector (medium s) p lba"
  using find_cached_None [of p lba "cache s"] by (simp add: view_def)

lemma holds_bound: "holds c i p lba \<Longrightarrow> i < BCACHE_BUFFERS"
  by (simp add: holds_def)

lemma buf_at_set: "buffers c' = (buffers c)[i := b] \<Longrightarrow> i < length (buffers c) \<Longrightarrow>
    buf_at c' j = (if j = i then b else buf_at c j)"
  by (simp add: buf_at_def)

text \<open>Every operation replaces one buffer, and changes the medium at most in the sector that
  buffer held.  The two lemmas below are the invariant and the view after such a step.\<close>

definition one_buffer :: "('w \<Rightarrow> nat \<Rightarrow> u32 \<Rightarrow> u8 list) \<Rightarrow> nat \<Rightarrow> buffer_head \<Rightarrow>
    'w io_state \<Rightarrow> 'w io_state \<Rightarrow> bool" where
  "one_buffer sector i b s s' \<longleftrightarrow> i < BCACHE_BUFFERS \<and>
     buffers (cache s') = (buffers (cache s))[i := b] \<and> buf_ok sector (medium s') b \<and>
     (\<forall>p lba j. bh_valid b \<longrightarrow> bh_bdev b = Some p \<longrightarrow> bh_lba b = lba \<longrightarrow>
        holds (cache s) j p lba \<longrightarrow> j = i) \<and>
     (\<forall>p lba. \<not> holds (cache s) i p lba \<longrightarrow> sector (medium s') p lba = sector (medium s) p lba)"

lemma one_buffer_holds:
  assumes "cache_inv sector s" "one_buffer sector i b s s'"
  shows "holds (cache s') j p lba \<longleftrightarrow>
    (if j = i then bh_valid b \<and> bh_bdev b = Some p \<and> bh_lba b = lba else holds (cache s) j p lba)"
  using assms by (auto simp: holds_def one_buffer_def cache_inv_def buf_at_set)

lemma one_buffer_unique:
  "one_buffer sector i b s s' \<Longrightarrow> bh_valid b \<Longrightarrow> bh_bdev b = Some p \<Longrightarrow> bh_lba b = lba \<Longrightarrow>
   holds (cache s) j p lba \<Longrightarrow> j = i"
  unfolding one_buffer_def by blast

lemma one_buffer_inv:
  assumes inv: "cache_inv sector s" and step: "one_buffer sector i b s s'"
  shows "cache_inv sector s'"
proof -
  have "buf_ok sector (medium s') (buf_at (cache s') j)" if j: "j < BCACHE_BUFFERS" for j
  proof (cases "j = i")
    case True
    then show ?thesis using step inv by (simp add: one_buffer_def cache_inv_def buf_at_set)
  next
    case False
    then have eq: "buf_at (cache s') j = buf_at (cache s) j"
      using step inv by (simp add: one_buffer_def cache_inv_def buf_at_set)
    have ok: "buf_ok sector (medium s) (buf_at (cache s) j)" using inv j by (simp add: cache_inv_def)
    have "sector (medium s') p (bh_lba (buf_at (cache s) j)) = sector (medium s) p (bh_lba (buf_at (cache s) j))"
      if "bh_valid (buf_at (cache s) j)" "bh_bdev (buf_at (cache s) j) = Some p" for p
    proof -
      have "holds (cache s) j p (bh_lba (buf_at (cache s) j))" using that j by (simp add: holds_def)
      then have "\<not> holds (cache s) i p (bh_lba (buf_at (cache s) j))"
        using cache_inv_unique [OF inv] False by blast
      then show ?thesis using step by (simp add: one_buffer_def)
    qed
    with ok show ?thesis unfolding eq buf_ok_def by (cases "bh_bdev (buf_at (cache s) j)") simp_all
  qed
  moreover have "length (buffers (cache s')) = BCACHE_BUFFERS"
    using inv step by (simp add: cache_inv_def one_buffer_def)
  moreover have "j = k" if "holds (cache s') j p lba" "holds (cache s') k p lba" for j k p lba
    using that cache_inv_unique [OF inv, of j p lba k] one_buffer_unique [OF step]
    unfolding one_buffer_holds [OF inv step] by (metis (full_types))
  ultimately show ?thesis unfolding cache_inv_def by blast
qed

lemma one_buffer_view:
  assumes inv: "cache_inv sector s" and step: "one_buffer sector i b s s'"
  shows "view sector s' p lba =
    (if bh_valid b \<and> bh_bdev b = Some p \<and> bh_lba b = lba then bh_data b
     else if holds (cache s) i p lba then sector (medium s') p lba
     else view sector s p lba)"
proof -
  note h = one_buffer_holds [OF inv step]
  have inv': "cache_inv sector s'" by (rule one_buffer_inv [OF inv step])
  have at: "buf_at (cache s') j = (if j = i then b else buf_at (cache s) j)" for j
    using step inv by (simp add: one_buffer_def cache_inv_def buf_at_set)
  show ?thesis
  proof (cases "\<exists>j. holds (cache s') j p lba")
    case True
    then obtain j where j: "holds (cache s') j p lba" by blast
    have v: "view sector s' p lba = bh_data (buf_at (cache s') j)" by (rule view_cached [OF inv' j])
    show ?thesis
    proof (cases "j = i")
      case True
      then show ?thesis using v j by (simp add: h at)
    next
      case False
      then have "holds (cache s) j p lba" using j by (simp add: h)
      moreover from this have "\<not> holds (cache s) i p lba" using cache_inv_unique [OF inv] False by blast
      moreover have "\<not> (bh_valid b \<and> bh_bdev b = Some p \<and> bh_lba b = lba)"
        using calculation step False by (auto simp: one_buffer_def)
      moreover have "view sector s p lba = bh_data (buf_at (cache s) j)"
        by (rule view_cached [OF inv]) (rule calculation(1))
      ultimately show ?thesis using v False unfolding at by auto
    qed
  next
    case False
    then have "view sector s' p lba = sector (medium s') p lba" by (intro view_uncached) auto
    moreover have "\<not> (bh_valid b \<and> bh_bdev b = Some p \<and> bh_lba b = lba)" using False h [of i] by auto
    moreover have "view sector s p lba = sector (medium s') p lba" if "\<not> holds (cache s) i p lba"
    proof -
      have "\<not> holds (cache s) j p lba" for j using False that h [of j] by (cases "j = i") auto
      then show ?thesis using step that by (simp add: view_uncached one_buffer_def)
    qed
    ultimately show ?thesis by auto
  qed
qed

text \<open>A step that changes no contents: the buffer is unchanged but for its clean flag and its
  time stamp, and the sector it holds is written or torn only while the buffer keeps its data.\<close>

lemma one_buffer_same_view:
  assumes inv: "cache_inv sector s" and step: "one_buffer sector i b s s'"
    and same: "bh_valid b = bh_valid (buf_at (cache s) i)" "bh_bdev b = bh_bdev (buf_at (cache s) i)"
      "bh_lba b = bh_lba (buf_at (cache s) i)" "bh_data b = bh_data (buf_at (cache s) i)"
  shows "view sector s' = view sector s"
proof (intro ext)
  fix p lba
  have i: "i < BCACHE_BUFFERS" using step by (simp add: one_buffer_def)
  show "view sector s' p lba = view sector s p lba"
    using one_buffer_view [OF inv step, of p lba] view_cached [OF inv, of i p lba] same i
    by (auto simp: holds_def)
qed

lemma cache_inv_buf_ok: "cache_inv sector s \<Longrightarrow> i < BCACHE_BUFFERS \<Longrightarrow> buf_ok sector (medium s) (buf_at (cache s) i)"
  by (simp add: cache_inv_def)

lemma cache_inv_length: "cache_inv sector s \<Longrightarrow> length (buffers (cache s)) = BCACHE_BUFFERS"
  by (simp add: cache_inv_def)

lemma victim_loop_bound: "v < BCACHE_BUFFERS \<Longrightarrow> victim_loop c i v < BCACHE_BUFFERS"
  by (induction c i v rule: victim_loop.induct) (subst victim_loop.simps, simp)

lemma pick_victim_bound: "pick_victim c < BCACHE_BUFFERS"
  unfolding pick_victim_def by (rule victim_loop_bound) (simp add: BCACHE_BUFFERS_def)

lemma victim_loop_invalid:
  "i \<le> j \<Longrightarrow> j < BCACHE_BUFFERS \<Longrightarrow> \<not> bh_valid (buf_at c j) \<Longrightarrow> \<not> bh_valid (buf_at c (victim_loop c i v))"
proof (induction c i v rule: victim_loop.induct)
  case (1 c i v)
  show ?case
  proof (cases "bh_valid (buf_at c i)")
    case True
    then have "i \<noteq> j" using "1.prems" by auto
    with True "1" show ?thesis by (subst victim_loop.simps) simp
  next
    case False
    with "1.prems" show ?thesis by (subst victim_loop.simps) simp
  qed
qed

lemma victim_loop_oldest:
  assumes "\<And>j. i \<le> j \<Longrightarrow> j < BCACHE_BUFFERS \<Longrightarrow> bh_valid (buf_at c j)"
  shows "bh_last_used (buf_at c (victim_loop c i v)) \<le> bh_last_used (buf_at c v) \<and>
     (i \<le> k \<longrightarrow> k < BCACHE_BUFFERS \<longrightarrow>
        bh_last_used (buf_at c (victim_loop c i v)) \<le> bh_last_used (buf_at c k))"
  using assms
proof (induction c i v rule: victim_loop.induct)
  case (1 c i v)
  show ?case
  proof (cases "i < BCACHE_BUFFERS")
    case True
    let ?v = "if bh_last_used (buf_at c i) < bh_last_used (buf_at c v) then i else v"
    let ?r = "bh_last_used (buf_at c (victim_loop c (Suc i) ?v))"
    have valid: "bh_valid (buf_at c i)" using "1.prems" True by simp
    then have eq: "victim_loop c i v = victim_loop c (Suc i) ?v" using True by (subst victim_loop.simps) simp
    have IH: "?r \<le> bh_last_used (buf_at c ?v) \<and>
      (Suc i \<le> k \<longrightarrow> k < BCACHE_BUFFERS \<longrightarrow> ?r \<le> bh_last_used (buf_at c k))"
      using True valid "1.prems" by (intro "1.IH") auto
    have v: "bh_last_used (buf_at c ?v) \<le> bh_last_used (buf_at c v)"
      "bh_last_used (buf_at c ?v) \<le> bh_last_used (buf_at c i)" by auto
    have "?r \<le> bh_last_used (buf_at c v)" "?r \<le> bh_last_used (buf_at c i)"
      using conjunct1 [OF IH] v order_trans by blast+
    then show ?thesis using conjunct2 [OF IH] unfolding eq by (cases "k = i") auto
  next
    case False
    then show ?thesis by (subst (1 2) victim_loop.simps) auto
  qed
qed

context sector_device
begin

lemma flush_buffer_step:
  assumes inv: "cache_inv sector s" and i: "i < BCACHE_BUFFERS" and fl: "flush_buffer D i s = (rc, s')"
  shows "\<exists>b. one_buffer sector i b s s' \<and> bh_valid b = bh_valid (buf_at (cache s) i) \<and>
    bh_bdev b = bh_bdev (buf_at (cache s) i) \<and> bh_lba b = bh_lba (buf_at (cache s) i) \<and>
    bh_data b = bh_data (buf_at (cache s) i) \<and> (rc = E_OK \<longrightarrow> \<not> (bh_valid b \<and> bh_dirty b)) \<and>
    (bh_dirty b \<longrightarrow> bh_dirty (buf_at (cache s) i))"
proof -
  define b where "b = buf_at (cache s) i"
  have ok: "buf_ok sector (medium s) b" using cache_inv_buf_ok [OF inv i] by (simp add: b_def)
  have id: "(buffers (cache s))[i := b] = buffers (cache s)" by (simp add: b_def buf_at_def)
  have uniq: "j = i" if "holds (cache s) j p lba" "bh_valid b" "bh_bdev b = Some p" "bh_lba b = lba" for j p lba
    by (rule cache_inv_unique [OF inv that(1)]) (use that i in \<open>simp add: holds_def b_def\<close>)
  show ?thesis
  proof (cases "bh_valid b \<and> bh_dirty b")
    case False
    then have "s' = s" "rc = E_OK" using fl by (auto simp: flush_buffer_def b_def Let_def)
    with False id ok i uniq show ?thesis
      by (intro exI [of _ b]) (auto simp: one_buffer_def b_def [symmetric])
  next
    case True
    then obtain p where p: "bh_bdev b = Some p" using ok by (auto simp: buf_ok_def split: option.splits)
    have len: "length (bh_data b) = BCACHE_BLOCK_SIZE" using ok by (simp add: buf_ok_def)
    obtain rc' w where wr: "block_write D (Some p) (bh_lba b) 1 (bh_data b) (medium s) = (rc', w)"
      by (cases "block_write D (Some p) (bh_lba b) 1 (bh_data b) (medium s)")
    have frame: "sector w q l = sector (medium s) q l" if "\<not> holds (cache s) i q l" for q l
      using write_frame [OF len wr, of q l] that True p i by (auto simp: holds_def b_def)
    let ?b = "if rc' = E_OK then b\<lparr>bh_dirty := False\<rparr> else b"
    have "rc = rc'" "medium s' = w" "buffers (cache s') = (buffers (cache s))[i := ?b]"
      using fl True p wr id by (auto simp: flush_buffer_def b_def [symmetric] Let_def set_buf_def)
    moreover have "buf_ok sector w ?b"
      using write_ok [OF len, of p "bh_lba b" "medium s" w] wr len p True by (auto simp: buf_ok_def)
    ultimately show ?thesis using frame uniq i p True
      by (intro exI [of _ ?b]) (auto simp: one_buffer_def b_def [symmetric])
  qed
qed

lemma flush_buffer_inv:
  assumes "cache_inv sector s" "i < BCACHE_BUFFERS" "flush_buffer D i s = (rc, s')"
  shows "cache_inv sector s'" "view sector s' = view sector s"
    "\<And>j p lba. holds (cache s') j p lba \<longleftrightarrow> holds (cache s) j p lba"
    "\<And>j. j \<noteq> i \<Longrightarrow> buf_at (cache s') j = buf_at (cache s) j"
    "rc = E_OK \<Longrightarrow> \<not> (bh_valid (buf_at (cache s') i) \<and> bh_dirty (buf_at (cache s') i))"
proof -
  obtain b where st: "one_buffer sector i b s s'"
    and same: "bh_valid b = bh_valid (buf_at (cache s) i)" "bh_bdev b = bh_bdev (buf_at (cache s) i)"
      "bh_lba b = bh_lba (buf_at (cache s) i)" "bh_data b = bh_data (buf_at (cache s) i)"
    and cl: "rc = E_OK \<longrightarrow> \<not> (bh_valid b \<and> bh_dirty b)"
    using flush_buffer_step [OF assms] by blast
  show "cache_inv sector s'" by (rule one_buffer_inv [OF assms(1) st])
  show "view sector s' = view sector s" by (rule one_buffer_same_view [OF assms(1) st same])
  show "holds (cache s') j p lba \<longleftrightarrow> holds (cache s) j p lba" for j p lba
    using one_buffer_holds [OF assms(1) st, of j p lba] same assms(2) by (auto simp: holds_def)
  have at: "buf_at (cache s') j = (if j = i then b else buf_at (cache s) j)" for j
    using st cache_inv_length [OF assms(1)] by (simp add: one_buffer_def buf_at_set)
  show "j \<noteq> i \<Longrightarrow> buf_at (cache s') j = buf_at (cache s) j" for j by (simp add: at)
  show "rc = E_OK \<Longrightarrow> \<not> (bh_valid (buf_at (cache s') i) \<and> bh_dirty (buf_at (cache s') i))"
    using cl by (simp add: at)
qed

lemma bread_load_inv:
  assumes inv: "cache_inv sector s" and i: "i < BCACHE_BUFFERS"
    and clean: "\<not> (bh_valid (buf_at (cache s) i) \<and> bh_dirty (buf_at (cache s) i))"
    and new: "\<And>j. \<not> holds (cache s) j p lba" and ld: "bread_load D (Some p) lba i s = (r, s')"
  shows "cache_inv sector s' \<and> view sector s' = view sector s \<and>
    (\<forall>k. r = Some k \<longrightarrow> holds (cache s') k p lba \<and> bh_data (buf_at (cache s') k) = view sector s p lba)"
proof -
  define b where "b = buf_at (cache s) i"
  have ok: "buf_ok sector (medium s) b" using cache_inv_buf_ok [OF inv i] by (simp add: b_def)
  then have len: "length (bh_data b) = BCACHE_BLOCK_SIZE" by (simp add: buf_ok_def)
  obtain rc d w where rd: "block_read D (Some p) lba 1 (bh_data b) (medium s) = (rc, d, w)"
    by (metis prod_cases3)
  have fr: "length d = BCACHE_BLOCK_SIZE" "sector w = sector (medium s)"
    using read_frame [OF len rd] by auto
  let ?t = "tick_counter (cache s) + 1"
  let ?b = "if rc = E_OK then b\<lparr>bh_bdev := Some p, bh_lba := lba, bh_data := d, bh_valid := True,
      bh_dirty := False, bh_last_used := ?t\<rparr> else b\<lparr>bh_data := d, bh_valid := False\<rparr>"
  have s': "medium s' = w" "buffers (cache s') = (buffers (cache s))[i := ?b]"
    and r: "r = (if rc = E_OK then Some i else None)"
    using ld rd by (auto simp: bread_load_def Let_def set_buf_def b_def [symmetric] split: if_splits)
  have st: "one_buffer sector i ?b s s'"
    using s' i fr new read_ok [OF len] rd by (auto simp: one_buffer_def buf_ok_def)
  have hold: "sector (medium s) q l = view sector s q l" if "holds (cache s) i q l" for q l
    using view_cached [OF inv that] that clean ok by (simp add: holds_def buf_ok_def b_def)
  have new_view: "view sector s p lba = sector (medium s) p lba" by (rule view_uncached [OF new])
  have "view sector s' q l = view sector s q l" for q l
    using one_buffer_view [OF inv st, of q l] hold [of q l] new_view read_ok [OF len] rd fr s'
    by (auto split: if_splits)
  moreover have "holds (cache s') i p lba \<and> bh_data (buf_at (cache s') i) = view sector s p lba" if "rc = E_OK"
    using that one_buffer_holds [OF inv st, of i p lba] s'(2) i cache_inv_length [OF inv]
      read_ok [OF len] rd new_view by (auto simp: buf_at_set)
  ultimately show ?thesis using one_buffer_inv [OF inv st] r by (auto split: if_splits)
qed

lemma bread_miss_inv:
  assumes inv: "cache_inv sector s" and new: "\<And>j. \<not> holds (cache s) j p lba"
    and ms: "bread_miss D (Some p) lba s = (r, s')"
  shows "cache_inv sector s' \<and> view sector s' = view sector s \<and>
    (\<forall>k. r = Some k \<longrightarrow> holds (cache s') k p lba \<and> bh_data (buf_at (cache s') k) = view sector s p lba)"
proof -
  let ?i = "pick_victim (cache s)"
  have i: "?i < BCACHE_BUFFERS" by (rule pick_victim_bound)
  show ?thesis
  proof (cases "bh_valid (buf_at (cache s) ?i) \<and> bh_dirty (buf_at (cache s) ?i)")
    case False
    then have "bread_load D (Some p) lba ?i s = (r, s')" using ms by (auto simp: bread_miss_def Let_def)
    then show ?thesis by (rule bread_load_inv [OF inv i False new])
  next
    case True
    obtain rc s1 where fl: "flush_buffer D ?i s = (rc, s1)" by (cases "flush_buffer D ?i s")
    note fi = flush_buffer_inv [OF inv i fl]
    show ?thesis
    proof (cases "rc = E_OK")
      case False
      then have "r = None" "s' = s1" using ms True fl by (auto simp: bread_miss_def Let_def)
      then show ?thesis using fi by simp
    next
      case ok: True
      then have ld: "bread_load D (Some p) lba ?i s1 = (r, s')"
        using ms True fl by (auto simp: bread_miss_def Let_def)
      have "\<not> holds (cache s1) j p lba" for j using new fi(3) by blast
      from bread_load_inv [OF fi(1) i fi(5) [OF ok] this ld] show ?thesis by (simp add: fi(2))
    qed
  qed
qed

lemma bread_inv:
  assumes inv: "cache_inv sector s" and br: "bread D (Some p) lba s = (r, s')"
  shows "cache_inv sector s' \<and> view sector s' = view sector s \<and>
    (\<forall>k. r = Some k \<longrightarrow> holds (cache s') k p lba \<and> bh_data (buf_at (cache s') k) = view sector s p lba)"
proof (cases "find_cached (Some p) lba (cache s)")
  case None
  let ?s = "s\<lparr>cache := (cache s)\<lparr>stat_misses := stat_misses (cache s) + 1\<rparr>\<rparr>"
  have same: "buf_at (cache ?s) = buf_at (cache s)" by (simp add: buf_at_def fun_eq_iff)
  then have hd: "holds (cache ?s) = holds (cache s)" by (simp add: holds_def fun_eq_iff)
  have inv': "cache_inv sector ?s" using inv unfolding cache_inv_def hd same by simp
  have vw: "view sector ?s = view sector s"
    by (simp add: view_def fun_eq_iff find_cached_def buf_at_def split: option.split)
  have new: "\<not> holds (cache ?s) j p lba" for j using None unfolding hd by (simp add: find_cached_None)
  have "bread_miss D (Some p) lba ?s = (r, s')" using br None by (simp add: bread_def)
  from bread_miss_inv [OF inv' new this] show ?thesis by (simp add: vw)
next
  case (Some i)
  let ?b = "(buf_at (cache s) i)\<lparr>bh_last_used := tick_counter (cache s) + 1\<rparr>"
  have h: "holds (cache s) i p lba" by (rule find_cached_Some [OF Some])
  note i = holds_bound [OF h]
  have s': "r = Some i" "medium s' = medium s" "buffers (cache s') = (buffers (cache s))[i := ?b]"
    using br Some by (auto simp: bread_def Let_def set_buf_def)
  have st: "one_buffer sector i ?b s s'"
    using s' i cache_inv_buf_ok [OF inv i] h
    by (auto simp: one_buffer_def buf_ok_def holds_def intro: cache_inv_unique [OF inv, unfolded holds_def])
  have "view sector s' = view sector s" by (rule one_buffer_same_view [OF inv st]) simp_all
  moreover have "holds (cache s') i p lba" using one_buffer_holds [OF inv st, of i p lba] h by (simp add: holds_def)
  ultimately show ?thesis
    using one_buffer_inv [OF inv st] s'(1) view_cached [OF one_buffer_inv [OF inv st], of i p lba] by auto
qed

lemma bstore_dirty_inv:
  assumes inv: "cache_inv sector s" and h: "holds (cache s) i p lba"
    and d: "length d = BCACHE_BLOCK_SIZE"
  shows "cache_inv sector (bmark_dirty i (bstore i d s)) \<and>
    view sector (bmark_dirty i (bstore i d s)) =
      (\<lambda>q l. if q = p \<and> l = lba then d else view sector s q l)"
proof -
  note i = holds_bound [OF h]
  let ?s' = "bmark_dirty i (bstore i d s)" and ?b = "(buf_at (cache s) i)\<lparr>bh_data := d, bh_dirty := True\<rparr>"
  have s': "medium ?s' = medium s" "buffers (cache ?s') = (buffers (cache s))[i := ?b]"
    using h i cache_inv_length [OF inv]
    by (auto simp: bmark_dirty_def bstore_def set_buf_def Let_def buf_at_def holds_def)
  have st: "one_buffer sector i ?b s ?s'"
    using s' i h d by (auto simp: one_buffer_def buf_ok_def holds_def
        intro: cache_inv_unique [OF inv, unfolded holds_def])
  have "view sector ?s' q l = (if q = p \<and> l = lba then d else view sector s q l)" for q l
    using one_buffer_view [OF inv st, of q l] h by (auto simp: holds_def)
  then show ?thesis using one_buffer_inv [OF inv st] by (simp add: fun_eq_iff)
qed

text \<open>\<open>bsync\<close>: after the first \<open>n\<close> buffers have been visited.\<close>

lemma bsync_prefix:
  assumes inv: "cache_inv sector s"
  shows "n \<le> BCACHE_BUFFERS \<Longrightarrow> fold (bsync_step D) [0..<n] (E_OK, s) = (rc, s') \<Longrightarrow>
    cache_inv sector s' \<and> view sector s' = view sector s \<and>
    (rc = E_OK \<longrightarrow> (\<forall>i<n. \<not> (bh_valid (buf_at (cache s') i) \<and> bh_dirty (buf_at (cache s') i))))"
proof (induction n arbitrary: rc s')
  case 0
  then show ?case using inv by simp
next
  case (Suc n)
  obtain rc1 s1 where f: "fold (bsync_step D) [0..<n] (E_OK, s) = (rc1, s1)"
    by (cases "fold (bsync_step D) [0..<n] (E_OK, s)")
  have IH: "cache_inv sector s1 \<and> view sector s1 = view sector s \<and>
    (rc1 = E_OK \<longrightarrow> (\<forall>i<n. \<not> (bh_valid (buf_at (cache s1) i) \<and> bh_dirty (buf_at (cache s1) i))))"
    using Suc f by simp
  have st: "bsync_step D n (rc1, s1) = (rc, s')" using Suc.prems(2) f by simp
  have n: "n < BCACHE_BUFFERS" using Suc.prems by simp
  show ?case
  proof (cases "bh_valid (buf_at (cache s1) n) \<and> bh_dirty (buf_at (cache s1) n)")
    case False
    then have "s' = s1" "rc = rc1" using st by (auto simp: bsync_step_def)
    then show ?thesis using IH False by (auto simp: less_Suc_eq)
  next
    case True
    obtain rc2 s2 where fl: "flush_buffer D n s1 = (rc2, s2)" by (cases "flush_buffer D n s1")
    note fi = flush_buffer_inv [OF conjunct1 [OF IH] n fl]
    have "s' = s2" "rc = (if rc2 \<noteq> E_OK then rc2 else rc1)" using st True fl by (auto simp: bsync_step_def)
    then show ?thesis using fi IH by (auto simp: less_Suc_eq split: if_splits)
  qed
qed

lemma clean_view_medium:
  assumes "cache_inv sector s" "\<forall>i<BCACHE_BUFFERS. \<not> (bh_valid (buf_at (cache s) i) \<and> bh_dirty (buf_at (cache s) i))"
  shows "view sector s = sector (medium s)"
proof (intro ext)
  fix p lba
  show "view sector s p lba = sector (medium s) p lba"
  proof (cases "\<exists>i. holds (cache s) i p lba")
    case True
    then obtain i where h: "holds (cache s) i p lba" by blast
    then show ?thesis
      using view_cached [OF assms(1) h] assms(2) cache_inv_buf_ok [OF assms(1) holds_bound [OF h]]
      by (auto simp: holds_def buf_ok_def)
  next
    case False
    then show ?thesis by (intro view_uncached) blast
  qed
qed

lemma bsync_inv:
  assumes "cache_inv sector s" "bsync D s = (rc, s')"
  shows "cache_inv sector s' \<and> view sector s' = view sector s \<and>
    (rc = E_OK \<longrightarrow> sector (medium s') = view sector s)"
  using bsync_prefix [OF assms(1) order_refl assms(2) [unfolded bsync_def]] clean_view_medium [of s'] by auto

end

subsection \<open>A medium: sectors in memory\<close>

text \<open>A disk that keeps its sectors in memory and never fails, as a device at address 0.\<close>

definition ram_sector :: "(u32 \<Rightarrow> u8 list) \<Rightarrow> nat \<Rightarrow> u32 \<Rightarrow> u8 list" where
  "ram_sector w p lba = take BCACHE_BLOCK_SIZE (w lba @ replicate BCACHE_BLOCK_SIZE 0)"

definition ram_mem :: "(u32 \<Rightarrow> u8 list) bdev_mem" where
  "ram_mem p = \<lparr>bd_name = cstr ''ram'', bd_sector_size = 512, bd_total_sectors = 0,
     bd_ops = (if p = 0 then Some \<lparr>
        read_sectors = Some (\<lambda>w lba n buf. (E_OK, ram_sector w 0 lba, w)),
        write_sectors = Some (\<lambda>w lba n buf. (E_OK, w(lba := buf)))\<rparr> else None)\<rparr>"

definition ram_sector_at :: "(u32 \<Rightarrow> u8 list) \<Rightarrow> nat \<Rightarrow> u32 \<Rightarrow> u8 list" where
  "ram_sector_at w p lba = (if p = 0 then ram_sector w 0 lba else replicate BCACHE_BLOCK_SIZE 0)"

lemma ram_sector_length: "length (ram_sector w p lba) = BCACHE_BLOCK_SIZE"
  by (simp add: ram_sector_def)

lemma ram_sector_upd: "length d = BCACHE_BLOCK_SIZE \<Longrightarrow>
    ram_sector (w(lba := d)) p l = (if l = lba then d else ram_sector w p l)"
  by (simp add: ram_sector_def)

interpretation ram: sector_device ram_mem ram_sector_at
  by unfold_locales
    (auto simp: ram_sector_at_def ram_sector_length ram_sector_upd ram_mem_def block_read_def
      block_write_def split: if_splits)

definition ram_boot :: "(u32 \<Rightarrow> u8 list) io_state" where
  "ram_boot = \<lparr>cache = bcache_init \<lparr>buffers = replicate BCACHE_BUFFERS
       \<lparr>bh_bdev = None, bh_lba = 0, bh_data = replicate BCACHE_BLOCK_SIZE 0, bh_valid = False,
        bh_dirty = False, bh_last_used = 0\<rparr>,
       tick_counter = 0, stat_hits = 0, stat_misses = 0\<rparr>, medium = (\<lambda>lba. [])\<rparr>"

text \<open>After \<open>bcache_init\<close> the cache is empty and consistent with any medium.\<close>

lemma bcache_init_inv:
  assumes "length (buffers c) = BCACHE_BUFFERS" "\<forall>b\<in>set (buffers c). length (bh_data b) = BCACHE_BLOCK_SIZE"
  shows "cache_inv sector \<lparr>cache = bcache_init c, medium = w\<rparr> \<and>
    view sector \<lparr>cache = bcache_init c, medium = w\<rparr> = sector w"
proof -
  have "\<not> holds (bcache_init c) i p lba" for i p lba
    using assms(1) by (cases "i < BCACHE_BUFFERS") (simp_all add: holds_def bcache_init_def buf_at_def)
  moreover from this have "view sector \<lparr>cache = bcache_init c, medium = w\<rparr> p lba = sector w p lba" for p lba
    by (subst view_uncached) simp_all
  ultimately show ?thesis using assms
    by (auto simp: cache_inv_def fun_eq_iff bcache_init_def buf_at_def buf_ok_def)
qed

lemma ram_boot_inv: "cache_inv ram_sector_at ram_boot"
  unfolding ram_boot_def by (rule conjunct1 [OF bcache_init_inv]) simp_all

text \<open>C5: reading through the buffer cache is transparent.  Whatever it has to evict, write back
  or load, and whether or not the device fails underneath it, \<open>bread\<close> keeps the cache consistent
  and keeps the contents of every sector as the kernel sees it; when it returns a buffer, that
  buffer holds the requested sector and its data is the sector's contents.\<close>

theorem bread_transparent:
  assumes "sector_device D sector" "cache_inv sector s" "bread D (Some p) lba s = (r, s')"
  shows "cache_inv sector s' \<and> view sector s' = view sector s \<and>
    (\<forall>k. r = Some k \<longrightarrow> holds (cache s') k p lba \<and> bh_data (buf_at (cache s') k) = view sector s p lba)"
  by (rule sector_device.bread_inv [OF assms])

theorem bread_transparent_witness:
  "cache_inv ram_sector_at (snd (bread ram_mem (Some 0) 7 ram_boot)) \<and>
   view ram_sector_at (snd (bread ram_mem (Some 0) 7 ram_boot)) = view ram_sector_at ram_boot"
  using bread_transparent [OF ram.sector_device_axioms ram_boot_inv, of 0 7] by (metis prod.collapse)

text \<open>A store into a buffer, followed by \<open>bmark_dirty\<close>, changes the contents of exactly the
  sector the buffer holds.\<close>

lemma bstore_updates_view:
  assumes "cache_inv sector s" "sector_device D sector" "holds (cache s) i p lba"
    "length d = BCACHE_BLOCK_SIZE"
  shows "cache_inv sector (bmark_dirty i (bstore i d s)) \<and>
    view sector (bmark_dirty i (bstore i d s)) =
      (\<lambda>q l. if q = p \<and> l = lba then d else view sector s q l)"
  by (rule sector_device.bstore_dirty_inv [OF assms(2,1,3,4)])

lemma ram_bread_7: "bread ram_mem (Some 0) 7 ram_boot =
    (Some 0, snd (bread ram_mem (Some 0) 7 ram_boot))"
proof -
  have "find_cached (Some 0) 7 (cache ram_boot) = None"
    by (auto simp: ram_boot_def find_cached_None holds_def bcache_init_def buf_at_def)
  moreover have "pick_victim ((cache ram_boot)\<lparr>stat_misses := 1\<rparr>) = 0"
    unfolding pick_victim_def
    by (subst victim_loop.simps) (simp add: ram_boot_def bcache_init_def buf_at_def BCACHE_BUFFERS_def)
  ultimately show ?thesis
    by (simp add: bread_def bread_miss_def Let_def bread_load_def ram_boot_def bcache_init_def
        buf_at_def BCACHE_BUFFERS_def block_read_def ram_mem_def)
qed

lemma ram_holds_7: "holds (cache (snd (bread ram_mem (Some 0) 7 ram_boot))) 0 0 7"
  using ram.bread_inv [OF ram_boot_inv ram_bread_7] by blast

theorem bstore_updates_view_witness:
  "view ram_sector_at (bmark_dirty 0 (bstore 0 (replicate BCACHE_BLOCK_SIZE 5)
      (snd (bread ram_mem (Some 0) 7 ram_boot)))) 0 7 = replicate BCACHE_BLOCK_SIZE 5"
  using bstore_updates_view [OF conjunct1 [OF ram.bread_inv [OF ram_boot_inv ram_bread_7]]
      ram.sector_device_axioms ram_holds_7, of "replicate BCACHE_BLOCK_SIZE 5"] by simp

text \<open>C6: \<open>bsync\<close> keeps every sector's contents as the kernel sees it, even when some write
  fails, and when it returns \<open>E_OK\<close> the medium holds exactly those contents: no store is lost.\<close>

theorem bsync_writes_back:
  assumes "sector_device D sector" "cache_inv sector s" "bsync D s = (rc, s')"
  shows "cache_inv sector s' \<and> view sector s' = view sector s \<and>
    (rc = E_OK \<longrightarrow> sector (medium s') = view sector s)"
  by (rule sector_device.bsync_inv [OF assms])

theorem bsync_writes_back_witness:
  "view ram_sector_at (snd (bsync ram_mem ram_boot)) = view ram_sector_at ram_boot"
  using bsync_writes_back [OF ram.sector_device_axioms ram_boot_inv] by (metis prod.collapse)

text \<open>The buffer chosen for eviction is an empty one whenever there is one, and otherwise one
  whose last use is the least recent of all.\<close>

lemma pick_victim_lru:
  assumes "j < BCACHE_BUFFERS"
  shows "pick_victim c < BCACHE_BUFFERS \<and>
    (\<not> bh_valid (buf_at c j) \<longrightarrow> \<not> bh_valid (buf_at c (pick_victim c))) \<and>
    ((\<forall>k<BCACHE_BUFFERS. bh_valid (buf_at c k)) \<longrightarrow>
       bh_last_used (buf_at c (pick_victim c)) \<le> bh_last_used (buf_at c j))"
  using assms victim_loop_invalid [of 0 j c 0] victim_loop_oldest [of 0 c 0 j]
  by (auto simp: pick_victim_bound pick_victim_def [symmetric])

theorem pick_victim_lru_witness:
  "\<not> bh_valid (buf_at (cache ram_boot) (pick_victim (cache ram_boot)))"
  using pick_victim_lru [of 0 "cache ram_boot"]
  by (simp add: BCACHE_BUFFERS_def ram_boot_def bcache_init_def buf_at_def)

end
