(* ===== verification/Fat32.thy ===== *)
theory Fat32
  imports Block_Cache
begin

section \<open>The FAT32 driver (\<open>kernel/src/kernel/fs/fat32.c\<close>)\<close>

text \<open>
  Every function of the driver, over the buffer cache.  The static variables of the file are the
  record \<open>fat_state\<close>; the scratch buffer \<open>sector_buf\<close>, which is filled before every use, is a
  local list.  \<open>D\<close> is the memory of the block devices.

  Sector access is \<open>bread\<close>, reads and stores through the buffer's data, \<open>bmark_dirty\<close> after
  stores and \<open>brelse\<close>; \<open>fat_edit\<close> is that pattern.  The loops over cluster chains follow the
  entries of the FAT and need not end on a cyclic chain: they are partial functions in the option
  type, and \<open>None\<close> is a call that never returns.  A division by a zero cluster size (a volume that
  was not mounted) is the fault \<open>DivByZero\<close>.

  The bytes \<open>fat32_read\<close> stores into the caller's buffer are its second result; the bytes
  \<open>fat32_write\<close> takes from it are a list, its length is the argument \<open>len\<close>.
\<close>

subsection \<open>Constants and state\<close>

definition FAT32_SECTOR_SZ :: nat where [vx_consts]: "FAT32_SECTOR_SZ = 512"
definition FAT32_DIR_ENTRY_SZ :: nat where [vx_consts]: "FAT32_DIR_ENTRY_SZ = 32"
definition FAT32_MAX_FILES :: nat where [vx_consts]: "FAT32_MAX_FILES = 32"
definition FAT32_EOC :: u32 where [vx_consts]: "FAT32_EOC = 0x0FFFFFF8"

definition BPB_BytsPerSec :: nat where [vx_consts]: "BPB_BytsPerSec = 11"
definition BPB_SecPerClus :: nat where [vx_consts]: "BPB_SecPerClus = 13"
definition BPB_RsvdSecCnt :: nat where [vx_consts]: "BPB_RsvdSecCnt = 14"
definition BPB_NumFATs :: nat where [vx_consts]: "BPB_NumFATs = 16"
definition BPB_FATSz32 :: nat where [vx_consts]: "BPB_FATSz32 = 36"
definition BPB_RootClus :: nat where [vx_consts]: "BPB_RootClus = 44"
definition BPB_FSInfo :: nat where [vx_consts]: "BPB_FSInfo = 48"
definition BPB_Signature :: nat where [vx_consts]: "BPB_Signature = 510"

definition DIR_Name :: nat where [vx_consts]: "DIR_Name = 0"
definition DIR_Attr :: nat where [vx_consts]: "DIR_Attr = 11"
definition DIR_NTRes :: nat where [vx_consts]: "DIR_NTRes = 12"
definition DIR_FstClusHI :: nat where [vx_consts]: "DIR_FstClusHI = 20"
definition DIR_FstClusLO :: nat where [vx_consts]: "DIR_FstClusLO = 26"
definition DIR_FileSize :: nat where [vx_consts]: "DIR_FileSize = 28"

definition NT_RES_LOWER_BASE :: u8 where [vx_consts]: "NT_RES_LOWER_BASE = 0x08"
definition NT_RES_LOWER_EXT :: u8 where [vx_consts]: "NT_RES_LOWER_EXT = 0x10"
definition ATTR_VOLUME_ID :: u8 where [vx_consts]: "ATTR_VOLUME_ID = 0x08"
definition ATTR_DIRECTORY :: u8 where [vx_consts]: "ATTR_DIRECTORY = 0x10"
definition ATTR_ARCHIVE :: u8 where [vx_consts]: "ATTR_ARCHIVE = 0x20"
definition ATTR_LONG_NAME :: u8 where [vx_consts]: "ATTR_LONG_NAME = 0x0F"
definition DIR_ENTRY_END :: u8 where [vx_consts]: "DIR_ENTRY_END = 0x00"
definition DIR_ENTRY_DELETED :: u8 where [vx_consts]: "DIR_ENTRY_DELETED = 0xE5"

abbreviation CH_DOT :: u8 where "CH_DOT \<equiv> 46"
abbreviation CH_SPACE :: u8 where "CH_SPACE \<equiv> 32"
abbreviation CH_SLASH :: u8 where "CH_SLASH \<equiv> 47"

record fat_fs =
  part_lba :: u32
  fat_lba :: u32
  data_lba :: u32
  sectors_per_cluster :: u32
  bytes_per_cluster :: u32
  bytes_per_sector :: u32
  root_cluster :: u32
  fat_sectors :: u32
  num_fats :: u32
  fsinfo_lba :: u32

record fat32_file =
  ff_in_use :: bool
  ff_name :: cstring
  ff_raw_name :: "u8 list"
  ff_nt_res :: u8
  first_cluster :: u32
  ff_size :: u32
  dir_entry_lba :: u32
  dir_entry_offset :: nat

record 'w fat_state =
  ffs :: fat_fs
  file_table :: "fat32_file list"
  file_count :: nat
  fs_bdev :: bdev_ptr
  fio :: "'w io_state"

record fat32_resolve =
  r_cluster :: u32
  r_size :: u32
  r_is_dir :: bool
  r_entry_lba :: u32
  r_entry_off :: nat
  r_raw_name :: "u8 list"
  r_nt_res :: u8

text \<open>A local \<open>struct fat32_resolve\<close> before it is filled in: the fields the code leaves unset for the
  root directory are not read.\<close>

definition resolve0 :: fat32_resolve where
  "resolve0 = \<lparr>r_cluster = 0, r_size = 0, r_is_dir = False, r_entry_lba = 0, r_entry_off = 0,
     r_raw_name = replicate 11 0, r_nt_res = 0\<rparr>"

subsection \<open>Sectors\<close>

text \<open>\<open>bread\<close>; then \<open>g\<close> looks at the buffer and may give new contents; \<open>brelse\<close>.  \<open>None\<close> is the
  failure of \<open>bread\<close>.\<close>

definition fat_edit :: "'w bdev_mem \<Rightarrow> u32 \<Rightarrow> (u8 list \<Rightarrow> u8 list option \<times> 'a) \<Rightarrow> 'w fat_state \<Rightarrow> 'a option \<times> 'w fat_state"
  where
  "fat_edit D lba g s = (case bread D (fs_bdev s) lba (fio s) of
     (None, io) \<Rightarrow> (None, s\<lparr>fio := io\<rparr>)
   | (Some i, io) \<Rightarrow> (case g (bh_data (buf_at (cache io) i)) of
        (None, x) \<Rightarrow> (Some x, s\<lparr>fio := brelse i io\<rparr>)
      | (Some d, x) \<Rightarrow> (Some x, s\<lparr>fio := brelse i (bmark_dirty i (bstore i d io))\<rparr>)))"

definition fat_read_sector :: "'w bdev_mem \<Rightarrow> u32 \<Rightarrow> 'w fat_state \<Rightarrow> u8 list option \<times> 'w fat_state" where
  "fat_read_sector D lba s = fat_edit D lba (\<lambda>d. (None, take FAT32_SECTOR_SZ d)) s"

definition fat32_min :: "nat \<Rightarrow> nat \<Rightarrow> nat" where
  "fat32_min a b = (if a < b then a else b)"

definition cluster_to_sector :: "fat_fs \<Rightarrow> u32 \<Rightarrow> u32" where
  "cluster_to_sector f cluster = data_lba f + (cluster - 2) * sectors_per_cluster f"

text \<open>The sector and the offset of a FAT entry, in the first copy of the FAT.\<close>

definition fat_sector_idx :: "u32 \<Rightarrow> u32" where
  "fat_sector_idx c = (c * 4) div 512"

definition fat_sector_off :: "u32 \<Rightarrow> nat" where
  "fat_sector_off c = unat ((c * 4) mod 512)"

definition fat_next_cluster :: "'w bdev_mem \<Rightarrow> u32 \<Rightarrow> 'w fat_state \<Rightarrow> u32 \<times> 'w fat_state" where
  "fat_next_cluster D cur s =
     (case fat_edit D (fat_lba (ffs s) + fat_sector_idx cur) (\<lambda>d. (None, rd32 d (fat_sector_off cur))) s of
        (None, s') \<Rightarrow> (FAT32_EOC, s')
      | (Some entry, s') \<Rightarrow> (entry AND 0x0FFFFFFF, s'))"

subsection \<open>Names\<close>

definition to_upper :: "u8 \<Rightarrow> u8" where
  "to_upper c = (if c \<ge> 97 \<and> c \<le> 122 then c - (97 - 65) else c)"

definition to_lower :: "u8 \<Rightarrow> u8" where
  "to_lower c = (if c \<ge> 65 \<and> c \<le> 90 then c + (97 - 65) else c)"

text \<open>\<open>name_to_raw\<close>: the bytes up to the first dot, at most eight, and at most three bytes after it,
  in upper case, over a field of spaces.\<close>

definition name_to_raw :: "cstring \<Rightarrow> u8 list" where
  "name_to_raw name =
     (let raw = replicate 11 CH_SPACE;
          raw = blit raw 0 (map to_upper (take 8 (takeWhile (\<lambda>c. c \<noteq> CH_DOT) name)))
      in case dropWhile (\<lambda>c. c \<noteq> CH_DOT) name of
           [] \<Rightarrow> raw
         | dot # ext \<Rightarrow> blit raw 8 (map to_upper (take 3 ext)))"

definition raw_to_name :: "u8 list \<Rightarrow> u8 \<Rightarrow> cstring" where
  "raw_to_name raw nt_res =
     (let lower_base = (nt_res AND NT_RES_LOWER_BASE \<noteq> 0);
          lower_ext = (nt_res AND NT_RES_LOWER_EXT \<noteq> 0);
          base = map (if lower_base then to_lower else id) (takeWhile (\<lambda>c. c \<noteq> CH_SPACE) (take 8 raw))
      in if raw ! 8 \<noteq> CH_SPACE
         then base @ CH_DOT # map (if lower_ext then to_lower else id)
                (takeWhile (\<lambda>c. c \<noteq> CH_SPACE) (take 3 (drop 8 raw)))
         else base)"

definition raw_name_eq :: "u8 list \<Rightarrow> u8 list \<Rightarrow> bool" where
  "raw_name_eq a b \<longleftrightarrow> list_all (\<lambda>i. a ! i = b ! i) [0..<11]"

definition detect_nt_res :: "cstring \<Rightarrow> u8" where
  "detect_nt_res name =
     (let base = takeWhile (\<lambda>c. c \<noteq> CH_DOT) name;
          ext = drop 1 (dropWhile (\<lambda>c. c \<noteq> CH_DOT) name);
          lower = list_ex (\<lambda>c. c \<ge> 97 \<and> c \<le> 122);
          upper = list_ex (\<lambda>c. c \<ge> 65 \<and> c \<le> 90)
      in (if lower base \<and> \<not> upper base then NT_RES_LOWER_BASE else 0) OR
         (if lower ext \<and> \<not> upper ext then NT_RES_LOWER_EXT else 0))"

subsection \<open>Mounting\<close>

definition parse_bpb :: "'w bdev_mem \<Rightarrow> 'w fat_state \<Rightarrow> int \<times> 'w fat_state" where
  "parse_bpb D s0 =
     (case fat_read_sector D (part_lba (ffs s0)) s0 of
        (None, s) \<Rightarrow> (E_FAIL, s)
      | (Some b, s) \<Rightarrow>
          if rd16 b BPB_Signature \<noteq> 0xAA55 then (E_FAIL, s)
          else let f = (ffs s)\<lparr>bytes_per_sector := ucast (rd16 b BPB_BytsPerSec),
                   sectors_per_cluster := ucast (b ! BPB_SecPerClus),
                   num_fats := ucast (b ! BPB_NumFATs), fat_sectors := rd32 b BPB_FATSz32,
                   root_cluster := rd32 b BPB_RootClus\<rparr>;
                 reserved = ucast (rd16 b BPB_RsvdSecCnt); fsinfo = ucast (rd16 b BPB_FSInfo) in
            if bytes_per_sector f \<noteq> of_nat FAT32_SECTOR_SZ then (E_FAIL, s\<lparr>ffs := f\<rparr>)
            else let fl = part_lba f + reserved in
              (E_OK, s\<lparr>ffs := f\<lparr>bytes_per_cluster := sectors_per_cluster f * bytes_per_sector f,
                 fat_lba := fl, data_lba := fl + num_fats f * fat_sectors f,
                 fsinfo_lba := part_lba f + fsinfo\<rparr>\<rparr>))"

text \<open>How a loop over the sectors of a directory ends: an I/O error, the end of the search, or the
  end of the sectors.\<close>

datatype walk = WFail | WDone | WMore

text \<open>The offsets \<open>0, 32, \<dots>, 480\<close> of the entries in a sector.\<close>

definition dir_offs :: "nat list" where
  "dir_offs = map (\<lambda>i. i * FAT32_DIR_ENTRY_SZ) [0..<FAT32_SECTOR_SZ div FAT32_DIR_ENTRY_SZ]"

definition entry_cluster :: "u8 list \<Rightarrow> nat \<Rightarrow> u32" where
  "entry_cluster d off = push_bit 16 (ucast (rd16 d (off + DIR_FstClusHI))) OR ucast (rd16 d (off + DIR_FstClusLO))"

definition entry_raw :: "u8 list \<Rightarrow> nat \<Rightarrow> u8 list" where
  "entry_raw d off = map (\<lambda>k. d ! (off + DIR_Name + k)) [0..<11]"

definition scan_file :: "u8 list \<Rightarrow> u32 \<Rightarrow> nat \<Rightarrow> fat32_file" where
  "scan_file d lba off = (let raw = entry_raw d off; nt = d ! (off + DIR_NTRes) in
     \<lparr>ff_in_use = True, ff_name = raw_to_name raw nt, ff_raw_name = raw, ff_nt_res = nt,
      first_cluster = entry_cluster d off, ff_size = rd32 d (off + DIR_FileSize),
      dir_entry_lba = lba, dir_entry_offset = off\<rparr>)"

fun scan_entries :: "u8 list \<Rightarrow> u32 \<Rightarrow> nat list \<Rightarrow> 'w fat_state \<Rightarrow> bool \<times> 'w fat_state" where
  "scan_entries d lba [] s = (False, s)"
| "scan_entries d lba (off # offs) s =
     (let first = d ! (off + DIR_Name); attr = d ! (off + DIR_Attr) in
      if first = DIR_ENTRY_END then (True, s)
      else if first = DIR_ENTRY_DELETED then scan_entries d lba offs s
      else if attr = ATTR_LONG_NAME then scan_entries d lba offs s
      else if attr AND (ATTR_VOLUME_ID OR ATTR_DIRECTORY) \<noteq> 0 then scan_entries d lba offs s
      else if file_count s \<ge> FAT32_MAX_FILES then (True, s)
      else scan_entries d lba offs
        (s\<lparr>file_table := (file_table s)[file_count s := scan_file d lba off], file_count := file_count s + 1\<rparr>))"

fun scan_sectors :: "'w bdev_mem \<Rightarrow> u32 \<Rightarrow> nat list \<Rightarrow> 'w fat_state \<Rightarrow> walk \<times> 'w fat_state" where
  "scan_sectors D base [] s = (WMore, s)"
| "scan_sectors D base (k # ks) s =
     (case fat_read_sector D (base + of_nat k) s of
        (None, s') \<Rightarrow> (WFail, s')
      | (Some d, s') \<Rightarrow> (case scan_entries d (base + of_nat k) dir_offs s' of
           (True, s'') \<Rightarrow> (WDone, s'')
         | (False, s'') \<Rightarrow> scan_sectors D base ks s''))"

partial_function (option) scan_clusters :: "'w bdev_mem \<Rightarrow> u32 \<Rightarrow> 'w fat_state \<Rightarrow> (int \<times> 'w fat_state) option" where
  "scan_clusters D cluster s =
     (if cluster < FAT32_EOC \<and> cluster \<noteq> 0 then
        (case scan_sectors D (cluster_to_sector (ffs s) cluster) [0..<unat (sectors_per_cluster (ffs s))] s of
           (WFail, s') \<Rightarrow> Some (E_FAIL, s')
         | (WDone, s') \<Rightarrow> Some (E_OK, s')
         | (WMore, s') \<Rightarrow> (case fat_next_cluster D cluster s' of (c, s'') \<Rightarrow> scan_clusters D c s''))
      else Some (E_OK, s))"

definition scan_root_dir :: "'w bdev_mem \<Rightarrow> 'w fat_state \<Rightarrow> (int \<times> 'w fat_state) option" where
  "scan_root_dir D s = scan_clusters D (root_cluster (ffs s)) (s\<lparr>file_count := 0\<rparr>)"

definition fat32_init :: "'w bdev_mem \<Rightarrow> nat list \<Rightarrow> u32 \<Rightarrow> 'w fat_state \<Rightarrow> (int \<times> 'w fat_state) option" where
  "fat32_init D bdevs partition_lba s0 =
     (let s = s0\<lparr>fs_bdev := block_find D (cstr ''mmc0'') bdevs\<rparr> in
      if fs_bdev s = None then Some (E_FAIL, s)
      else let s1 = s\<lparr>ffs := (ffs s)\<lparr>part_lba := partition_lba\<rparr>, file_count := 0,
             file_table := map (\<lambda>f. f\<lparr>ff_in_use := False\<rparr>) (file_table s)\<rparr> in
        case parse_bpb D s1 of (rc, s2) \<Rightarrow>
          if rc \<noteq> E_OK then Some (E_FAIL, s2)
          else map_option (\<lambda>(rc, s3). (if rc \<noteq> E_OK then E_FAIL else E_OK, s3)) (scan_root_dir D s2))"

subsection \<open>Path lookup\<close>

definition entry_resolve :: "u8 list \<Rightarrow> u32 \<Rightarrow> nat \<Rightarrow> fat32_resolve" where
  "entry_resolve d lba off = \<lparr>r_cluster = entry_cluster d off, r_size = rd32 d (off + DIR_FileSize),
     r_is_dir = (d ! (off + DIR_Attr) AND ATTR_DIRECTORY \<noteq> 0), r_entry_lba = lba, r_entry_off = off,
     r_raw_name = entry_raw d off, r_nt_res = d ! (off + DIR_NTRes)\<rparr>"

datatype lookup = LHit fat32_resolve | LEnd | LMore

fun lookup_entries :: "u8 list \<Rightarrow> u8 list \<Rightarrow> u32 \<Rightarrow> nat list \<Rightarrow> lookup" where
  "lookup_entries query d lba [] = LMore"
| "lookup_entries query d lba (off # offs) =
     (let first = d ! (off + DIR_Name); attr = d ! (off + DIR_Attr) in
      if first = DIR_ENTRY_END then LEnd
      else if first = DIR_ENTRY_DELETED then lookup_entries query d lba offs
      else if attr = ATTR_LONG_NAME then lookup_entries query d lba offs
      else if attr AND ATTR_VOLUME_ID \<noteq> 0 then lookup_entries query d lba offs
      else if raw_name_eq (drop (off + DIR_Name) d) query then LHit (entry_resolve d lba off)
      else lookup_entries query d lba offs)"

text \<open>The result \<open>None\<close> is an I/O error.\<close>

fun lookup_sectors :: "'w bdev_mem \<Rightarrow> u8 list \<Rightarrow> u32 \<Rightarrow> nat list \<Rightarrow> 'w fat_state \<Rightarrow> lookup option \<times> 'w fat_state" where
  "lookup_sectors D query base [] s = (Some LMore, s)"
| "lookup_sectors D query base (k # ks) s =
     (case fat_edit D (base + of_nat k) (\<lambda>d. (None, lookup_entries query d (base + of_nat k) dir_offs)) s of
        (None, s') \<Rightarrow> (None, s')
      | (Some LMore, s') \<Rightarrow> lookup_sectors D query base ks s'
      | (Some r, s') \<Rightarrow> (Some r, s'))"

partial_function (option) dir_lookup_component ::
  "'w bdev_mem \<Rightarrow> u32 \<Rightarrow> u8 list \<Rightarrow> fat32_resolve \<Rightarrow> 'w fat_state \<Rightarrow> (int \<times> fat32_resolve \<times> 'w fat_state) option" where
  "dir_lookup_component D cluster query out s =
     (if cluster \<ge> 2 \<and> cluster < FAT32_EOC then
        (case lookup_sectors D query (cluster_to_sector (ffs s) cluster) [0..<unat (sectors_per_cluster (ffs s))] s of
           (None, s') \<Rightarrow> Some (E_FAIL, out, s')
         | (Some (LHit r), s') \<Rightarrow> Some (E_OK, r, s')
         | (Some LEnd, s') \<Rightarrow> Some (E_NOENT, out, s')
         | (Some LMore, s') \<Rightarrow> (case fat_next_cluster D cluster s' of (c, s'') \<Rightarrow> dir_lookup_component D c query out s''))
      else Some (E_NOENT, out, s))"

function resolve_walk :: "'w bdev_mem \<Rightarrow> cstring \<Rightarrow> u32 \<Rightarrow> bool \<Rightarrow> fat32_resolve \<Rightarrow> 'w fat_state \<Rightarrow>
    (int \<times> fat32_resolve \<times> 'w fat_state) option" where
  "resolve_walk D path cur_cluster cur_is_dir out s =
     (if path = [] then Some (E_OK, out, s)
      else if \<not> cur_is_dir then Some (E_NOENT, out, s)
      else let comp = take 12 (takeWhile (\<lambda>c. c \<noteq> CH_SLASH) path);
               path' = dropWhile (\<lambda>c. c = CH_SLASH) (dropWhile (\<lambda>c. c \<noteq> CH_SLASH) path) in
        case dir_lookup_component D cur_cluster (name_to_raw comp) out s of
          None \<Rightarrow> None
        | Some (rc, out', s') \<Rightarrow>
            if rc \<noteq> E_OK then Some (rc, out', s')
            else resolve_walk D path' (r_cluster out') (r_is_dir out') out' s')"
  by pat_completeness auto
termination
proof (relation "measure (\<lambda>(D, path, c, b, out, s). length path)")
  have "length (dropWhile (\<lambda>c. c = CH_SLASH) (dropWhile (\<lambda>c. c \<noteq> CH_SLASH) path)) < length path" if "path \<noteq> []" for path
  proof (cases path)
    case (Cons a p)
    have "length (dropWhile P (dropWhile Q p)) \<le> length p" for P Q
      using length_dropWhile_le [of P "dropWhile Q p"] length_dropWhile_le [of Q p] by linarith
    then show ?thesis using Cons length_dropWhile_le [of "\<lambda>c. c = CH_SLASH" p] by (auto simp: le_imp_less_Suc)
  qed (use that in simp)
  then show "\<And>D path cur_cluster cur_is_dir out s x xa x2 x' y xb ya.
       path \<noteq> [] \<Longrightarrow> \<not> \<not> cur_is_dir \<Longrightarrow> x = take 12 (takeWhile (\<lambda>c. c \<noteq> CH_SLASH) path) \<Longrightarrow>
       xa = dropWhile (\<lambda>c. c = CH_SLASH) (dropWhile (\<lambda>c. c \<noteq> CH_SLASH) path) \<Longrightarrow>
       dir_lookup_component D cur_cluster (name_to_raw x) out s = Some x2 \<Longrightarrow> (x', y) = x2 \<Longrightarrow> (xb, ya) = y \<Longrightarrow>
       \<not> x' \<noteq> E_OK \<Longrightarrow>
       ((D, xa, r_cluster xb, r_is_dir xb, xb, ya), (D, path, cur_cluster, cur_is_dir, out, s))
         \<in> measure (\<lambda>(D, path, c, b, out, s). length path)" by simp
qed simp

declare resolve_walk.simps [simp del]

definition resolve_path :: "'w bdev_mem \<Rightarrow> cstring \<Rightarrow> fat32_resolve \<Rightarrow> 'w fat_state \<Rightarrow>
    (int \<times> fat32_resolve \<times> 'w fat_state) option" where
  "resolve_path D path0 out s =
     (let path = dropWhile (\<lambda>c. c = CH_SLASH) path0 in
      if path = []
      then Some (E_OK, out\<lparr>r_cluster := root_cluster (ffs s), r_size := 0, r_is_dir := True,
             r_entry_lba := 0, r_entry_off := 0\<rparr>, s)
      else resolve_walk D path (root_cluster (ffs s)) True out s)"

definition same_entry :: "u32 \<Rightarrow> nat \<Rightarrow> fat32_file \<Rightarrow> bool" where
  "same_entry lba off f \<longleftrightarrow> ff_in_use f \<and> dir_entry_lba f = lba \<and> dir_entry_offset f = off"

definition cache_file :: "fat32_resolve \<Rightarrow> 'w fat_state \<Rightarrow> int \<times> 'w fat_state" where
  "cache_file r s =
     (case first_idx (\<lambda>i. same_entry (r_entry_lba r) (r_entry_off r) (file_table s ! i)) 0 (file_count s) of
        Some i \<Rightarrow> (int i, s\<lparr>file_table := (file_table s)[i := (file_table s ! i)
            \<lparr>first_cluster := r_cluster r, ff_size := r_size r\<rparr>]\<rparr>)
      | None \<Rightarrow>
          if file_count s \<ge> FAT32_MAX_FILES then (E_MFILE, s)
          else (int (file_count s), s\<lparr>file_table := (file_table s)[file_count s :=
              \<lparr>ff_in_use = True, ff_name = raw_to_name (r_raw_name r) (r_nt_res r), ff_raw_name = r_raw_name r,
               ff_nt_res = r_nt_res r, first_cluster = r_cluster r, ff_size = r_size r,
               dir_entry_lba = r_entry_lba r, dir_entry_offset = r_entry_off r\<rparr>],
             file_count := file_count s + 1\<rparr>))"

definition fat32_lookup :: "'w bdev_mem \<Rightarrow> cstring \<Rightarrow> 'w fat_state \<Rightarrow> (int \<times> 'w fat_state) option" where
  "fat32_lookup D path s = map_option (\<lambda>(rc, r, s').
     if rc \<noteq> E_OK then (rc, s') else if r_is_dir r then (E_NOENT, s') else cache_file r s')
     (resolve_path D path resolve0 s)"

subsection \<open>Reading\<close>

fun walk_chain :: "'w bdev_mem \<Rightarrow> u32 \<Rightarrow> nat \<Rightarrow> 'w fat_state \<Rightarrow> u32 \<times> 'w fat_state" where
  "walk_chain D cur 0 s = (cur, s)"
| "walk_chain D cur (Suc n) s =
     (case fat_next_cluster D cur s of (next_c, s') \<Rightarrow>
        if next_c \<ge> FAT32_EOC \<or> next_c = 0 then (0, s') else walk_chain D next_c n s')"

text \<open>The remaining sectors \<open>ks\<close> of one cluster, from byte \<open>intra\<close> of the first on; \<open>acc\<close> is what
  has been stored in the caller's buffer.  The first result is false after an I/O error.\<close>

fun read_sectors_loop :: "'w bdev_mem \<Rightarrow> u32 \<Rightarrow> nat list \<Rightarrow> nat \<Rightarrow> nat \<Rightarrow> u8 list \<Rightarrow> 'w fat_state \<Rightarrow>
    bool \<times> nat \<times> u8 list \<times> 'w fat_state" where
  "read_sectors_loop D base [] intra remaining acc s = (True, remaining, acc, s)"
| "read_sectors_loop D base (k # ks) intra remaining acc s =
     (if remaining > 0 then
        let chunk = fat32_min remaining (FAT32_SECTOR_SZ - intra) in
        case fat_edit D (base + of_nat k) (\<lambda>d. (None, take chunk (drop intra d))) s of
          (None, s') \<Rightarrow> (False, remaining, acc, s')
        | (Some bytes, s') \<Rightarrow> read_sectors_loop D base ks 0 (remaining - chunk) (acc @ bytes) s'
      else (True, remaining, acc, s))"

text \<open>The \<open>(int)\<close> cast of a \<open>uint32_t\<close>.\<close>

definition int_cast :: "nat \<Rightarrow> int" where
  "int_cast n = sint (of_nat n :: u32)"

partial_function (option) read_loop :: "'w bdev_mem \<Rightarrow> u32 \<Rightarrow> nat \<Rightarrow> nat \<Rightarrow> u8 list \<Rightarrow> 'w fat_state \<Rightarrow>
    (int \<times> u8 list \<times> 'w fat_state) option" where
  "read_loop D cur intra_cluster remaining acc s =
     (if remaining > 0 then
        (case read_sectors_loop D (cluster_to_sector (ffs s) cur)
             [intra_cluster div unat (bytes_per_sector (ffs s))..<unat (sectors_per_cluster (ffs s))]
             (intra_cluster mod unat (bytes_per_sector (ffs s))) remaining acc s of
           (ok, rem', acc', s') \<Rightarrow>
             if \<not> ok then Some (E_FAIL, acc', s')
             else if rem' = 0 then Some (int_cast (length acc'), acc', s')
             else (case fat_next_cluster D cur s' of (c, s'') \<Rightarrow>
               if c \<ge> FAT32_EOC \<or> c = 0 then Some (int_cast (length acc'), acc', s'')
               else read_loop D c 0 rem' acc' s''))
      else Some (int_cast (length acc), acc, s))"

definition bad_index :: "int \<Rightarrow> 'w fat_state \<Rightarrow> bool" where
  "bad_index file_index s \<longleftrightarrow> file_index < 0 \<or> file_index \<ge> int (file_count s)"

definition fat32_read :: "'w bdev_mem \<Rightarrow> int \<Rightarrow> u32 \<Rightarrow> u32 \<Rightarrow> 'w fat_state \<Rightarrow>
    (fault + int \<times> u8 list \<times> 'w fat_state) option" where
  "fat32_read D file_index offset len s =
     (if bad_index file_index s then Some (Inr (E_BADF, [], s))
      else let f = file_table s ! nat file_index in
        if offset \<ge> ff_size f then Some (Inr (0, [], s))
        else let remaining = fat32_min (unat len) (unat (ff_size f - offset)) in
          if bytes_per_cluster (ffs s) = 0 then Some (Inl DivByZero)
          else case walk_chain D (first_cluster f) (unat (offset div bytes_per_cluster (ffs s))) s of (cur, s') \<Rightarrow>
            if cur = 0 then Some (Inr (E_FAIL, [], s'))
            else if bytes_per_sector (ffs s') = 0 \<and> remaining > 0 then Some (Inl DivByZero)
            else map_option Inr (read_loop D cur (unat (offset mod bytes_per_cluster (ffs s))) remaining [] s'))"

definition fat32_get_file_count :: "'w fat_state \<Rightarrow> int" where
  "fat32_get_file_count s = int (file_count s)"

definition fat32_get_file_info :: "int \<Rightarrow> 'w fat_state \<Rightarrow> int \<times> (cstring \<times> u32) option" where
  "fat32_get_file_info index s =
     (if bad_index index s then (E_BADF, None)
      else (E_OK, Some (ff_name (file_table s ! nat index), ff_size (file_table s ! nat index))))"

text \<open>\<open>fat32_listdir\<close>: the entries found so far are the names and sizes in the caller's array.\<close>

fun list_entries :: "nat \<Rightarrow> u8 list \<Rightarrow> nat list \<Rightarrow> (cstring \<times> u32) list \<Rightarrow> bool \<times> (cstring \<times> u32) list" where
  "list_entries mx d [] acc = (False, acc)"
| "list_entries mx d (off # offs) acc =
     (if length acc < mx then
        let first = d ! (off + DIR_Name); attr = d ! (off + DIR_Attr) in
        if first = DIR_ENTRY_END then (True, acc)
        else if first = DIR_ENTRY_DELETED then list_entries mx d offs acc
        else if attr = ATTR_LONG_NAME then list_entries mx d offs acc
        else if attr AND ATTR_VOLUME_ID \<noteq> 0 then list_entries mx d offs acc
        else if first = CH_DOT then list_entries mx d offs acc
        else list_entries mx d offs (acc @ [(raw_to_name (entry_raw d off) (d ! (off + DIR_NTRes)),
          if attr AND ATTR_DIRECTORY \<noteq> 0 then 0 else rd32 d (off + DIR_FileSize))])
      else (False, acc))"

fun list_sectors :: "'w bdev_mem \<Rightarrow> nat \<Rightarrow> u32 \<Rightarrow> nat list \<Rightarrow> (cstring \<times> u32) list \<Rightarrow> 'w fat_state \<Rightarrow>
    walk \<times> (cstring \<times> u32) list \<times> 'w fat_state" where
  "list_sectors D mx base [] acc s = (WMore, acc, s)"
| "list_sectors D mx base (k # ks) acc s =
     (if length acc < mx then
        (case fat_edit D (base + of_nat k) (\<lambda>d. (None, list_entries mx d dir_offs acc)) s of
           (None, s') \<Rightarrow> (WFail, acc, s')
         | (Some (True, acc'), s') \<Rightarrow> (WDone, acc', s')
         | (Some (False, acc'), s') \<Rightarrow> list_sectors D mx base ks acc' s')
      else (WMore, acc, s))"

partial_function (option) list_clusters :: "'w bdev_mem \<Rightarrow> nat \<Rightarrow> u32 \<Rightarrow> (cstring \<times> u32) list \<Rightarrow> 'w fat_state \<Rightarrow>
    (int \<times> (cstring \<times> u32) list \<times> 'w fat_state) option" where
  "list_clusters D mx cluster acc s =
     (if cluster \<ge> 2 \<and> cluster < FAT32_EOC \<and> length acc < mx then
        (case list_sectors D mx (cluster_to_sector (ffs s) cluster) [0..<unat (sectors_per_cluster (ffs s))] acc s of
           (WFail, acc', s') \<Rightarrow> Some (E_FAIL, acc', s')
         | (WDone, acc', s') \<Rightarrow> Some (int_cast (length acc'), acc', s')
         | (WMore, acc', s') \<Rightarrow> (case fat_next_cluster D cluster s' of (c, s'') \<Rightarrow> list_clusters D mx c acc' s''))
      else Some (int_cast (length acc), acc, s))"

definition fat32_listdir :: "'w bdev_mem \<Rightarrow> cstring \<Rightarrow> u32 \<Rightarrow> 'w fat_state \<Rightarrow>
    (int \<times> (cstring \<times> u32) list \<times> 'w fat_state) option" where
  "fat32_listdir D path mx s =
     (if path = [] then list_clusters D (unat mx) (root_cluster (ffs s)) [] s
      else case resolve_path D path resolve0 s of
        None \<Rightarrow> None
      | Some (rc, r, s') \<Rightarrow>
          if rc \<noteq> E_OK then Some (rc, [], s')
          else if \<not> r_is_dir r then Some (E_NOENT, [], s')
          else list_clusters D (unat mx) (r_cluster r) [] s')"

subsection \<open>Writing\<close>

text \<open>The new value of an entry: the top four bits are kept.\<close>

definition fat_merge :: "u32 \<Rightarrow> u32 \<Rightarrow> u32" where
  "fat_merge old nv = (old AND 0xF0000000) OR (nv AND 0x0FFFFFFF)"

fun set_entry_copies :: "'w bdev_mem \<Rightarrow> u32 \<Rightarrow> u32 \<Rightarrow> nat list \<Rightarrow> 'w fat_state \<Rightarrow> int \<times> 'w fat_state" where
  "set_entry_copies D cluster nv [] s = (E_OK, s)"
| "set_entry_copies D cluster nv (f # fs) s =
     (case fat_edit D (fat_lba (ffs s) + of_nat f * fat_sectors (ffs s) + fat_sector_idx cluster)
          (\<lambda>d. (Some (blit d (fat_sector_off cluster) (le32 (fat_merge (rd32 d (fat_sector_off cluster)) nv))), ())) s of
        (None, s') \<Rightarrow> (E_FAIL, s')
      | (Some _, s') \<Rightarrow> set_entry_copies D cluster nv fs s')"

definition fat_set_entry :: "'w bdev_mem \<Rightarrow> u32 \<Rightarrow> u32 \<Rightarrow> 'w fat_state \<Rightarrow> int \<times> 'w fat_state" where
  "fat_set_entry D cluster nv s = set_entry_copies D cluster nv [0..<unat (num_fats (ffs s))] s"

fun alloc_loop :: "'w bdev_mem \<Rightarrow> u32 \<Rightarrow> nat \<Rightarrow> 'w fat_state \<Rightarrow> u32 \<times> 'w fat_state" where
  "alloc_loop D c 0 s = (0, s)"
| "alloc_loop D c (Suc n) s =
     (case fat_next_cluster D c s of (entry, s') \<Rightarrow>
        if entry = 0
        then (case fat_set_entry D c FAT32_EOC s' of (rc, s'') \<Rightarrow> (if rc \<noteq> E_OK then 0 else c, s''))
        else alloc_loop D (c + 1) n s')"

text \<open>\<open>for (c = 2; c < max_entries; c++)\<close>: the number of rounds left is the second argument.\<close>

definition fat_alloc_cluster :: "'w bdev_mem \<Rightarrow> 'w fat_state \<Rightarrow> u32 \<times> 'w fat_state" where
  "fat_alloc_cluster D s = (let max_entries = fat_sectors (ffs s) * 128 in
     alloc_loop D 2 (unat max_entries - 2) s)"

partial_function (option) fat_free_chain :: "'w bdev_mem \<Rightarrow> u32 \<Rightarrow> 'w fat_state \<Rightarrow> (int \<times> 'w fat_state) option" where
  "fat_free_chain D cur s =
     (if cur \<ge> 2 \<and> cur < FAT32_EOC then
        (case fat_next_cluster D cur s of (next_c, s') \<Rightarrow>
           case fat_set_entry D cur 0 s' of (rc, s'') \<Rightarrow>
             if rc \<noteq> E_OK then Some (E_FAIL, s'') else fat_free_chain D next_c s'')
      else Some (E_OK, s))"

definition put_entry :: "fat32_file \<Rightarrow> u8 list \<Rightarrow> u8 list" where
  "put_entry f d =
     (let off = dir_entry_offset f;
          hi = ucast (drop_bit 16 (first_cluster f)); lo = ucast (first_cluster f AND 0xFFFF)
      in blit (blit (blit d (off + DIR_FstClusHI) (le16 hi)) (off + DIR_FstClusLO) (le16 lo))
           (off + DIR_FileSize) (le32 (ff_size f)))"

definition update_dir_entry :: "'w bdev_mem \<Rightarrow> fat32_file \<Rightarrow> 'w fat_state \<Rightarrow> int \<times> 'w fat_state" where
  "update_dir_entry D f s =
     (case fat_edit D (dir_entry_lba f) (\<lambda>d. (Some (put_entry f d), ())) s of
        (None, s') \<Rightarrow> (E_FAIL, s') | (Some _, s') \<Rightarrow> (E_OK, s'))"

definition upd_file :: "nat \<Rightarrow> (fat32_file \<Rightarrow> fat32_file) \<Rightarrow> 'w fat_state \<Rightarrow> 'w fat_state" where
  "upd_file i g s = s\<lparr>file_table := (file_table s)[i := g (file_table s ! i)]\<rparr>"

text \<open>The cluster after \<open>cur\<close>, appending one when the chain ends there.  \<open>Inl\<close> is the reason for
  giving up: no free cluster, or a failed update of the FAT.\<close>

datatype no_next = NoSpace | NoLink

definition next_or_alloc :: "'w bdev_mem \<Rightarrow> u32 \<Rightarrow> 'w fat_state \<Rightarrow> (no_next + u32) \<times> 'w fat_state" where
  "next_or_alloc D cur s =
     (case fat_next_cluster D cur s of (next_c, s') \<Rightarrow>
        if next_c \<ge> FAT32_EOC \<or> next_c = 0
        then (case fat_alloc_cluster D s' of (new_c, s'') \<Rightarrow>
               if new_c = 0 then (Inl NoSpace, s'')
               else (case fat_set_entry D cur new_c s'' of (rc, s3) \<Rightarrow>
                 if rc \<noteq> E_OK then (Inl NoLink, s3) else (Inr new_c, s3)))
        else (Inr next_c, s'))"

fun extend_chain :: "'w bdev_mem \<Rightarrow> u32 \<Rightarrow> nat \<Rightarrow> 'w fat_state \<Rightarrow> u32 option \<times> 'w fat_state" where
  "extend_chain D cur 0 s = (Some cur, s)"
| "extend_chain D cur (Suc n) s =
     (case next_or_alloc D cur s of
        (Inl _, s') \<Rightarrow> (None, s') | (Inr c, s') \<Rightarrow> extend_chain D c n s')"

fun write_sectors_loop :: "'w bdev_mem \<Rightarrow> u32 \<Rightarrow> nat list \<Rightarrow> nat \<Rightarrow> u8 list \<Rightarrow> nat \<Rightarrow> 'w fat_state \<Rightarrow>
    bool \<times> u8 list \<times> nat \<times> 'w fat_state" where
  "write_sectors_loop D base [] intra data written s = (True, data, written, s)"
| "write_sectors_loop D base (k # ks) intra data written s =
     (if data \<noteq> [] then
        let chunk = fat32_min (length data) (FAT32_SECTOR_SZ - intra) in
        case fat_edit D (base + of_nat k) (\<lambda>d. (Some (blit d intra (take chunk data)), ())) s of
          (None, s') \<Rightarrow> (False, data, written, s')
        | (Some _, s') \<Rightarrow> write_sectors_loop D base ks 0 (drop chunk data) (written + chunk) s'
      else (True, data, written, s))"

text \<open>The loop of \<open>fat32_write\<close> over the clusters, with the bytes still to write; \<open>Inl\<close> is a return
  with \<open>E_FAIL\<close>, \<open>Inr\<close> the number of bytes written.\<close>

partial_function (option) write_loop :: "'w bdev_mem \<Rightarrow> u32 \<Rightarrow> nat \<Rightarrow> u8 list \<Rightarrow> nat \<Rightarrow> 'w fat_state \<Rightarrow>
    ((unit + nat) \<times> 'w fat_state) option" where
  "write_loop D cur intra_cluster data written s =
     (if data \<noteq> [] then
        (case write_sectors_loop D (cluster_to_sector (ffs s) cur)
             [intra_cluster div unat (bytes_per_sector (ffs s))..<unat (sectors_per_cluster (ffs s))]
             (intra_cluster mod unat (bytes_per_sector (ffs s))) data written s of
           (ok, data', written', s') \<Rightarrow>
             if \<not> ok then Some (Inl (), s')
             else if data' = [] then Some (Inr written', s')
             else (case next_or_alloc D cur s' of (r, s'') \<Rightarrow>
               (case r of
                  Inr c \<Rightarrow> write_loop D c 0 data' written' s''
                | Inl e \<Rightarrow> if e = NoSpace then Some (Inr written', s'') else Some (Inl (), s''))))
      else Some (Inr written, s))"

definition write_finish :: "'w bdev_mem \<Rightarrow> nat \<Rightarrow> u32 \<Rightarrow> nat \<Rightarrow> 'w fat_state \<Rightarrow> int \<times> 'w fat_state" where
  "write_finish D i offset written s =
     (let new_end = offset + of_nat written;
          s1 = upd_file i (\<lambda>f. if new_end > ff_size f then f\<lparr>ff_size := new_end\<rparr> else f) s
      in (int_cast written, snd (update_dir_entry D (file_table s1 ! i) s1)))"

definition fat32_write :: "'w bdev_mem \<Rightarrow> int \<Rightarrow> u32 \<Rightarrow> u8 list \<Rightarrow> 'w fat_state \<Rightarrow> (fault + int \<times> 'w fat_state) option" where
  "fat32_write D file_index offset data s =
     (if bad_index file_index s then Some (Inr (E_BADF, s))
      else if data = [] then Some (Inr (0, s))
      else let i = nat file_index in
        case (if first_cluster (file_table s ! i) = 0 then fat_alloc_cluster D s
              else (first_cluster (file_table s ! i), s)) of (fc, s1) \<Rightarrow>
          if fc = 0 then Some (Inr (E_FAIL, s1))
          else let s2 = upd_file i (\<lambda>f. f\<lparr>first_cluster := fc\<rparr>) s1 in
            if bytes_per_cluster (ffs s2) = 0 then Some (Inl DivByZero)
            else case extend_chain D fc (unat (offset div bytes_per_cluster (ffs s2))) s2 of
              (None, s3) \<Rightarrow> Some (Inr (E_FAIL, s3))
            | (Some cur, s3) \<Rightarrow>
                if bytes_per_sector (ffs s3) = 0 then Some (Inl DivByZero)
                else map_option (\<lambda>(r, s4). Inr (case r of Inl _ \<Rightarrow> (E_FAIL, s4)
                        | Inr written \<Rightarrow> write_finish D i offset written s4))
                  (write_loop D cur (unat (offset mod bytes_per_cluster (ffs s2))) data 0 s3))"

subsection \<open>Creating, truncating, removing and renaming\<close>

definition new_entry :: "u8 list \<Rightarrow> u8 \<Rightarrow> u8 list" where
  "new_entry raw nt_res =
     (blit (replicate FAT32_DIR_ENTRY_SZ 0) DIR_Name raw)[DIR_Attr := ATTR_ARCHIVE, DIR_NTRes := nt_res]"

text \<open>The first free entry of a sector, and the sector with the new entry in it.\<close>

definition create_in_sector :: "u8 list \<Rightarrow> u8 \<Rightarrow> u8 list \<Rightarrow> u8 list option \<times> nat option" where
  "create_in_sector raw nt_res d =
     (case List.find (\<lambda>off. d ! off = DIR_ENTRY_END \<or> d ! off = DIR_ENTRY_DELETED) dir_offs of
        None \<Rightarrow> (None, None)
      | Some off \<Rightarrow>
          let d1 = blit d off (new_entry raw nt_res);
              d2 = (if d ! off = DIR_ENTRY_END \<and> off + FAT32_DIR_ENTRY_SZ < FAT32_SECTOR_SZ
                    then d1[off + FAT32_DIR_ENTRY_SZ := DIR_ENTRY_END] else d1)
          in (Some d2, Some off))"

fun create_sectors :: "'w bdev_mem \<Rightarrow> u8 list \<Rightarrow> u8 \<Rightarrow> u32 \<Rightarrow> nat list \<Rightarrow> 'w fat_state \<Rightarrow>
    (walk \<times> u32 \<times> nat) \<times> 'w fat_state" where
  "create_sectors D raw nt_res base [] s = ((WMore, 0, 0), s)"
| "create_sectors D raw nt_res base (k # ks) s =
     (case fat_edit D (base + of_nat k) (create_in_sector raw nt_res) s of
        (None, s') \<Rightarrow> ((WFail, 0, 0), s')
      | (Some (Some off), s') \<Rightarrow> ((WDone, base + of_nat k, off), s')
      | (Some None, s') \<Rightarrow> create_sectors D raw nt_res base ks s')"

definition add_file :: "u8 list \<Rightarrow> u8 \<Rightarrow> u32 \<Rightarrow> nat \<Rightarrow> 'w fat_state \<Rightarrow> int \<times> 'w fat_state" where
  "add_file raw nt_res lba off s = (int (file_count s),
     s\<lparr>file_table := (file_table s)[file_count s := \<lparr>ff_in_use = True, ff_name = raw_to_name raw nt_res,
         ff_raw_name = raw, ff_nt_res = nt_res, first_cluster = 0, ff_size = 0, dir_entry_lba = lba,
         dir_entry_offset = off\<rparr>], file_count := file_count s + 1\<rparr>)"

partial_function (option) create_clusters :: "'w bdev_mem \<Rightarrow> u8 list \<Rightarrow> u8 \<Rightarrow> u32 \<Rightarrow> 'w fat_state \<Rightarrow> (int \<times> 'w fat_state) option" where
  "create_clusters D raw nt_res cluster s =
     (if cluster \<ge> 2 \<and> cluster < FAT32_EOC then
        (case create_sectors D raw nt_res (cluster_to_sector (ffs s) cluster) [0..<unat (sectors_per_cluster (ffs s))] s of
           ((w, lba, off), s') \<Rightarrow>
             if w = WFail then Some (E_FAIL, s')
             else if w = WDone then Some (add_file raw nt_res lba off s')
             else (case fat_next_cluster D cluster s' of (c, s'') \<Rightarrow> create_clusters D raw nt_res c s''))
      else Some (E_FAIL, s))"

definition fat32_create :: "'w bdev_mem \<Rightarrow> cstring \<Rightarrow> 'w fat_state \<Rightarrow> (int \<times> 'w fat_state) option" where
  "fat32_create D name s =
     (if file_count s \<ge> FAT32_MAX_FILES then Some (E_FAIL, s)
      else create_clusters D (name_to_raw name) (detect_nt_res name) (root_cluster (ffs s)) s)"

definition fat32_truncate :: "'w bdev_mem \<Rightarrow> int \<Rightarrow> u32 \<Rightarrow> 'w fat_state \<Rightarrow> (int \<times> 'w fat_state) option" where
  "fat32_truncate D file_index new_size s =
     (if bad_index file_index s then Some (E_BADF, s)
      else if new_size \<noteq> 0 then Some (E_FAIL, s)
      else let i = nat file_index in
        case (if first_cluster (file_table s ! i) \<noteq> 0
              then fat_free_chain D (first_cluster (file_table s ! i)) s else Some (E_OK, s)) of
          None \<Rightarrow> None
        | Some (rc, s1) \<Rightarrow>
            if rc \<noteq> E_OK then Some (E_FAIL, s1)
            else let s2 = upd_file i (\<lambda>f. f\<lparr>first_cluster := 0, ff_size := 0\<rparr>) s1
              in Some (update_dir_entry D (file_table s2 ! i) s2))"

definition edit_file :: "u32 \<Rightarrow> nat \<Rightarrow> (fat32_file \<Rightarrow> fat32_file) \<Rightarrow> 'w fat_state \<Rightarrow> 'w fat_state" where
  "edit_file lba off g s =
     (case first_idx (\<lambda>i. same_entry lba off (file_table s ! i)) 0 (file_count s) of
        None \<Rightarrow> s | Some i \<Rightarrow> upd_file i g s)"

definition fat32_unlink :: "'w bdev_mem \<Rightarrow> cstring \<Rightarrow> 'w fat_state \<Rightarrow> (int \<times> 'w fat_state) option" where
  "fat32_unlink D path s =
     (case resolve_path D path resolve0 s of
        None \<Rightarrow> None
      | Some (rc, r, s1) \<Rightarrow>
          if rc \<noteq> E_OK then Some (rc, s1)
          else if r_is_dir r then Some (E_PERM, s1)
          else case (if r_cluster r \<ge> 2 then fat_free_chain D (r_cluster r) s1 else Some (E_OK, s1)) of
            None \<Rightarrow> None
          | Some (fr, s2) \<Rightarrow>
              if fr \<noteq> E_OK then Some (fr, s2)
              else case fat_edit D (r_entry_lba r) (\<lambda>d. (Some (d[r_entry_off r + DIR_Name := DIR_ENTRY_DELETED]), ())) s2 of
                (None, s3) \<Rightarrow> Some (E_FAIL, s3)
              | (Some _, s3) \<Rightarrow>
                  Some (E_OK, edit_file (r_entry_lba r) (r_entry_off r) (\<lambda>f. f\<lparr>ff_in_use := False\<rparr>) s3))"

definition fat32_rename :: "'w bdev_mem \<Rightarrow> cstring \<Rightarrow> cstring \<Rightarrow> 'w fat_state \<Rightarrow> (int \<times> 'w fat_state) option" where
  "fat32_rename D old_path new_path s =
     (case resolve_path D old_path resolve0 s of
        None \<Rightarrow> None
      | Some (rc, src, s1) \<Rightarrow>
          if rc \<noteq> E_OK then Some (rc, s1)
          else if r_is_dir src then Some (E_PERM, s1)
          else case resolve_path D new_path resolve0 s1 of
            None \<Rightarrow> None
          | Some (rc2, dst, s2) \<Rightarrow>
              if rc2 = E_OK then Some (E_PERM, s2)
              else let new_raw = name_to_raw new_path; new_nt = detect_nt_res new_path in
                case fat_edit D (r_entry_lba src) (\<lambda>d. (Some ((blit d (r_entry_off src + DIR_Name) new_raw)
                    [r_entry_off src + DIR_NTRes := new_nt]), ())) s2 of
                  (None, s3) \<Rightarrow> Some (E_FAIL, s3)
                | (Some _, s3) \<Rightarrow>
                    Some (E_OK, edit_file (r_entry_lba src) (r_entry_off src)
                      (\<lambda>f. f\<lparr>ff_raw_name := new_raw, ff_nt_res := new_nt, ff_name := raw_to_name new_raw new_nt\<rparr>) s3))"

end
