(* ===== verification/Irq.thy ===== *)
theory Irq
  imports Mmio
begin

section \<open>Interrupts (\<open>kernel/src/kernel/irq/irq_core.c\<close>, \<open>kernel/src/drivers/intc.c\<close>)\<close>

text \<open>
  The table of interrupt handlers, the dispatcher and the driver of the interrupt controller.  A
  handler is named by a number in place of its address; what it does is an argument of the
  dispatcher, and \<open>None\<close> is a handler that does not return.  The record \<open>irq_state\<close> is extended by
  the state the handlers work on.
\<close>

definition MAX_IRQS :: nat where [vx_consts]: "MAX_IRQS = 128"
definition INTC_BASE :: u32 where [vx_consts]: "INTC_BASE = 0x48200000"
definition INTC_SIR_IRQ :: u32 where [vx_consts]: "INTC_SIR_IRQ = 0x40"
definition INTC_CONTROL :: u32 where [vx_consts]: "INTC_CONTROL = 0x48"
definition INTC_THRESHOLD :: u32 where [vx_consts]: "INTC_THRESHOLD = 0x68"
definition INTC_MIR_CLEAR :: "u32 \<Rightarrow> u32" where "INTC_MIR_CLEAR n = 0x88 + n * 0x20"
definition INTC_MIR_SET :: "u32 \<Rightarrow> u32" where "INTC_MIR_SET n = 0x8C + n * 0x20"
definition INTC_ILR :: "u32 \<Rightarrow> u32" where "INTC_ILR m = 0x100 + m * 4"
definition ACTIVEIRQ_MASK :: u32 where [vx_consts]: "ACTIVEIRQ_MASK = 0x7F"
definition SPURIOUSIRQ_MASK :: u32 where [vx_consts]: "SPURIOUSIRQ_MASK = 0xFFFFFF80"
definition NEWIRQAGR :: u32 where [vx_consts]: "NEWIRQAGR = 1"

subsection \<open>The interrupt controller\<close>

definition intc_init :: "'w bus \<Rightarrow> 'w \<Rightarrow> 'w" where
  "intc_init B w = bus_writes B
     [(INTC_BASE + INTC_MIR_SET 0, 0xFFFFFFFF), (INTC_BASE + INTC_MIR_SET 1, 0xFFFFFFFF),
      (INTC_BASE + INTC_MIR_SET 2, 0xFFFFFFFF), (INTC_BASE + INTC_MIR_SET 3, 0xFFFFFFFF),
      (INTC_BASE + INTC_THRESHOLD, 0xFF), (INTC_BASE + INTC_CONTROL, NEWIRQAGR)] w"

definition intc_get_active_irq :: "'w bus \<Rightarrow> 'w \<Rightarrow> u32 \<times> 'w" where
  "intc_get_active_irq B w = (case mmio_read32 B (INTC_BASE + INTC_SIR_IRQ) w of (sir, w') \<Rightarrow>
     (if sir AND SPURIOUSIRQ_MASK \<noteq> 0 then 128 else sir AND ACTIVEIRQ_MASK, w'))"

definition intc_eoi :: "'w bus \<Rightarrow> 'w \<Rightarrow> 'w" where
  "intc_eoi B w = mmio_write32 B (INTC_BASE + INTC_CONTROL) NEWIRQAGR w"

definition intc_enable_irq :: "'w bus \<Rightarrow> u32 \<Rightarrow> 'w \<Rightarrow> 'w" where
  "intc_enable_irq B irq_num w = (if irq_num \<ge> 128 then w
     else mmio_write32 B (INTC_BASE + INTC_MIR_CLEAR (irq_num div 32)) (push_bit (unat (irq_num mod 32)) 1) w)"

definition intc_disable_irq :: "'w bus \<Rightarrow> u32 \<Rightarrow> 'w \<Rightarrow> 'w" where
  "intc_disable_irq B irq_num w = (if irq_num \<ge> 128 then w
     else mmio_write32 B (INTC_BASE + INTC_MIR_SET (irq_num div 32)) (push_bit (unat (irq_num mod 32)) 1) w)"

definition intc_set_priority :: "'w bus \<Rightarrow> u32 \<Rightarrow> u32 \<Rightarrow> 'w \<Rightarrow> 'w" where
  "intc_set_priority B irq_num priority w = (if irq_num \<ge> 128 \<or> priority > 63 then w
     else mmio_write32 B (INTC_BASE + INTC_ILR irq_num) (priority AND 0x3F) w)"

subsection \<open>The handler table\<close>

record irq_desc =
  irq_handler :: "nat option"
  irq_data :: "nat option"
  irq_count :: u32

record 'w irq_state =
  irq_table :: "irq_desc list"
  ihw :: 'w

definition irq_init :: "('w, 'a) irq_state_scheme \<Rightarrow> ('w, 'a) irq_state_scheme" where
  "irq_init s = s\<lparr>irq_table := replicate MAX_IRQS \<lparr>irq_handler = None, irq_data = None, irq_count = 0\<rparr>\<rparr>"

definition irq_register_handler :: "u32 \<Rightarrow> nat option \<Rightarrow> nat option \<Rightarrow> ('w, 'a) irq_state_scheme \<Rightarrow>
    int \<times> ('w, 'a) irq_state_scheme" where
  "irq_register_handler irq_num handler data s =
     (let i = unat irq_num in
      if i \<ge> MAX_IRQS then (- 1, s)
      else if handler = None then (- 1, s)
      else if irq_handler (irq_table s ! i) \<noteq> None then (- 1, s)
      else (0, s\<lparr>irq_table := (irq_table s)[i := \<lparr>irq_handler = handler, irq_data = data, irq_count = 0\<rparr>]\<rparr>))"

definition irq_unregister_handler :: "u32 \<Rightarrow> ('w, 'a) irq_state_scheme \<Rightarrow> ('w, 'a) irq_state_scheme" where
  "irq_unregister_handler irq_num s =
     (let i = unat irq_num in
      if i \<ge> MAX_IRQS then s
      else s\<lparr>irq_table := (irq_table s)[i := (irq_table s ! i)\<lparr>irq_handler := None, irq_data := None\<rparr>]\<rparr>)"

definition irq_dispatch :: "'w bus \<Rightarrow> (nat \<Rightarrow> nat option \<Rightarrow> ('w, 'a) irq_state_scheme \<Rightarrow> ('w, 'a) irq_state_scheme option) \<Rightarrow>
    ('w, 'a) irq_state_scheme \<Rightarrow> ('w, 'a) irq_state_scheme option" where
  "irq_dispatch B run s0 =
     (case intc_get_active_irq B (ihw s0) of (irq_num, w) \<Rightarrow>
        let s = s0\<lparr>ihw := w\<rparr>; i = unat irq_num in
        if i \<ge> MAX_IRQS then Some (s\<lparr>ihw := intc_eoi B (ihw s)\<rparr>)
        else (case irq_handler (irq_table s ! i) of
            None \<Rightarrow> Some (s\<lparr>ihw := intc_eoi B (ihw s)\<rparr>)
          | Some h \<Rightarrow> map_option (\<lambda>s1. s1\<lparr>irq_table := (irq_table s1)[i := (irq_table s1 ! i)\<lparr>irq_count := irq_count (irq_table s1 ! i) + 1\<rparr>],
                ihw := intc_eoi B (ihw s1)\<rparr>) (run h (irq_data (irq_table s ! i)) s)))"

definition irq_get_count :: "u32 \<Rightarrow> ('w, 'a) irq_state_scheme \<Rightarrow> u32" where
  "irq_get_count irq_num s = (if unat irq_num \<ge> MAX_IRQS then 0 else irq_count (irq_table s ! unat irq_num))"

subsection \<open>Properties\<close>

text \<open>The number the controller reports is a valid index exactly when it is not spurious.\<close>

lemma active_irq_range:
  assumes "intc_get_active_irq B w = (n, w')" "mmio_read32 B (INTC_BASE + INTC_SIR_IRQ) w = (sir, w')"
  shows "unat n < MAX_IRQS \<longleftrightarrow> sir AND SPURIOUSIRQ_MASK = 0" and "unat n \<le> MAX_IRQS"
proof -
  have "sir AND 0x7F = take_bit 7 sir" by (simp add: take_bit_eq_mask mask_eq_exp_minus_1)
  then have "unat (sir AND 0x7F) = unat sir mod 128"
    by (simp only: unsigned_take_bit_eq) (simp add: take_bit_eq_mod)
  then have "unat (sir AND 0x7F) < 128" by simp
  then show "unat n < MAX_IRQS \<longleftrightarrow> sir AND SPURIOUSIRQ_MASK = 0" "unat n \<le> MAX_IRQS"
    using assms by (auto simp: intc_get_active_irq_def vx_consts split: if_splits)
qed

end
