(* ===== verification/Sched.thy ===== *)
theory Sched
  imports Klibc
begin

section \<open>Tasks, the round-robin scheduler, wait queues and sleeping\<close>

text \<open>
  \<open>kernel/src/kernel/scheduler/\<close> (\<open>task.c\<close>, \<open>scheduler.c\<close>) and \<open>kernel/src/kernel/sync/\<close>
  (\<open>wait_queue.c\<close>, \<open>sleep.c\<close>, \<open>atomic.c\<close>, \<open>spinlock.c\<close>).

  A \<open>struct task_struct *\<close> is an optional address (\<open>None\<close> is \<open>NULL\<close>) and \<open>mem\<close> is the memory
  of task structures, so that the intrusive lists \<open>wait_next\<close> and \<open>sleep_next\<close> are modelled as
  the pointer chains they are.  \<open>stk\<close> is the memory the kernel stacks live in, one word per
  address.  \<open>scheduler_yield\<close> is modelled up to and including the switch: its result is the
  state in which the chosen task continues.  \<open>PANIC\<close> and the use of a null pointer are the left
  summand of the result.  The code between \<open>cpsid i\<close> and the restoring \<open>msr\<close> is one step.
\<close>

subsection \<open>Data\<close>

datatype task_state = READY | RUNNING | BLOCKED | ZOMBIE

fun state_code :: "task_state \<Rightarrow> u32" where
  "state_code READY = 0"
| "state_code RUNNING = 1"
| "state_code BLOCKED = 2"
| "state_code ZOMBIE = 3"

record vfs_fd =
  fd_in_use :: bool
  fd_file_index :: u32
  fd_offset :: u32
  fd_flags :: int
  fd_ops :: "nat option"

definition MAX_FDS :: nat where [vx_consts]: "MAX_FDS = 16"
definition MAX_TASKS :: nat where [vx_consts]: "MAX_TASKS = 5"
definition STACK_CANARY_VALUE :: u32 where [vx_consts]: "STACK_CANARY_VALUE = 0xDEADBEEF"
definition TICK_MS :: u32 where [vx_consts]: "TICK_MS = 10"

record task_context =
  ctx_sp :: u32
  ctx_sp_usr :: u32
  ctx_lr_usr :: u32

type_synonym task_ptr = "nat option"

record task_struct =
  task_ctx :: task_context
  stack_base :: u32
  stack_size :: u32
  tstate :: task_state
  tname :: "cstring option"
  tid :: u32
  wait_next :: task_ptr
  sleep_next :: task_ptr
  wake_tick :: u32
  t_pid :: int
  t_ppid :: int
  t_exit_status :: int
  pgd_pa :: u32
  user_pa :: u32
  user_order :: nat
  kstack_pa :: u32
  kstack_order :: nat
  t_files :: "vfs_fd list"

record sched =
  tmem :: "nat \<Rightarrow> task_struct"
  stk :: "u32 \<Rightarrow> u32"
  tasks :: "task_ptr list"
  task_count :: u32
  current_task :: task_ptr
  current_task_index :: nat
  scheduler_started :: bool
  need_reschedule :: bool
  jiffies :: u32
  sleep_head :: task_ptr

text \<open>\<open>t->field = \<dots>\<close>\<close>

definition upd_task :: "nat \<Rightarrow> (task_struct \<Rightarrow> task_struct) \<Rightarrow> sched \<Rightarrow> sched" where
  "upd_task t f s = s\<lparr>tmem := (tmem s)(t := f (tmem s t))\<rparr>"

subsection \<open>Stack initialisation\<close>

definition KERNEL_STACK_RESERVE :: u32 where [vx_consts]: "KERNEL_STACK_RESERVE = 512"

text \<open>\<open>*--stack_ptr = v\<close>\<close>

definition push_word :: "u32 \<Rightarrow> u32 \<times> (u32 \<Rightarrow> u32) \<Rightarrow> u32 \<times> (u32 \<Rightarrow> u32)" where
  "push_word v = (\<lambda>(p, m). (p - 4, m(p - 4 := v)))"

text \<open>The words of the first frame, in the order they are pushed: the entry point, R12 down to R0,
  the padding, the SPSR, the trampoline, and nine zeroes.\<close>

definition boot_frame :: "u32 \<Rightarrow> u32 \<Rightarrow> u32 list" where
  "boot_frame svc_exit_trampoline entry_point =
     entry_point # map (\<lambda>i. if i \<le> 1 then 0 else 0x0BAD0000 OR of_nat i) (rev [0..<13]) @
     [0, if entry_point \<ge> 0xC0000000 then 0x13 else 0x10, svc_exit_trampoline] @ replicate 9 0"

text \<open>The stack words of all tasks are in \<open>stk\<close>, by their address.  The stack of the first process lies in the
  user window, where user code could overwrite the saved frame; the model keeps \<open>stk\<close> apart from the bytes of user
  memory, so a program that writes there is outside of it.\<close>

definition task_stack_init :: "u32 \<Rightarrow> nat \<Rightarrow> u32 \<Rightarrow> u32 \<Rightarrow> u32 \<Rightarrow> sched \<Rightarrow> fault + sched" where
  "task_stack_init svc_exit_trampoline task entry_point base sz s =
     (let m0 = (stk s)(base := STACK_CANARY_VALUE);
          (ptr, m1) = fold push_word (boot_frame svc_exit_trampoline entry_point) (base + sz, m0);
          usr = base + sz - KERNEL_STACK_RESERVE;
          s1 = upd_task task (\<lambda>t. t\<lparr>task_ctx := \<lparr>ctx_sp = ptr, ctx_sp_usr = usr, ctx_lr_usr = entry_point\<rparr>,
            stack_base := base, stack_size := sz, tstate := READY\<rparr>) (s\<lparr>stk := m1\<rparr>)
      in if ptr \<le> base then Inl AssertFail
         else if usr \<le> base then Inl AssertFail
         else Inr s1)"

subsection \<open>The task table\<close>

definition scheduler_init :: "sched \<Rightarrow> sched" where
  "scheduler_init s = s\<lparr>tasks := replicate MAX_TASKS None, task_count := 0, current_task := None,
     current_task_index := 0, scheduler_started := False\<rparr>"

definition scheduler_add_task :: "u32 \<Rightarrow> nat \<Rightarrow> sched \<Rightarrow> int \<times> sched" where
  "scheduler_add_task kernel_pgd task s =
     (let n = task_count s in
      if n \<ge> of_nat MAX_TASKS then (- 1, s)
      else
        (uint n,
         (upd_task task (\<lambda>t. t\<lparr>tid := n, tstate := READY, t_pid := uint n, t_ppid := - 1, t_exit_status := 0,
              pgd_pa := (if pgd_pa t = 0 then kernel_pgd else pgd_pa t)\<rparr>)
            (s\<lparr>tasks := (tasks s)[unat n := Some task]\<rparr>))\<lparr>task_count := n + 1\<rparr>))"

text \<open>\<open>scheduler_start\<close> with no task spins forever; otherwise its effect is that of the first
  task starting to run.\<close>

definition scheduler_start :: "sched \<Rightarrow> fault + sched" where
  "scheduler_start s =
     (if task_count s = 0 then Inl AssertFail
      else case tasks s ! 0 of
        None \<Rightarrow> Inl OutOfBounds
      | Some t \<Rightarrow> Inr ((upd_task t (\<lambda>x. x\<lparr>tstate := RUNNING\<rparr>) s)
          \<lparr>current_task := Some t, current_task_index := 0, scheduler_started := True\<rparr>))"

text \<open>The search of \<open>scheduler_yield\<close>: \<open>k\<close> slots are left to look at, the last one looked at
  was \<open>idx\<close>.\<close>

fun next_ready :: "sched \<Rightarrow> nat \<Rightarrow> nat \<Rightarrow> nat \<times> task_ptr" where
  "next_ready s 0 idx = (idx, None)"
| "next_ready s (Suc k) idx =
     (let i = (idx + 1) mod MAX_TASKS in
      case tasks s ! i of
        Some t \<Rightarrow> if tstate (tmem s t) = READY then (i, Some t) else next_ready s k i
      | None \<Rightarrow> next_ready s k i)"

definition switch_to :: "nat \<Rightarrow> nat \<Rightarrow> nat \<Rightarrow> sched \<Rightarrow> sched" where
  "switch_to prev next idx s =
     (let s1 = (if tstate (tmem s prev) = RUNNING then upd_task prev (\<lambda>t. t\<lparr>tstate := READY\<rparr>) s else s)
      in (upd_task next (\<lambda>t. t\<lparr>tstate := RUNNING\<rparr>) s1)\<lparr>current_task_index := idx, current_task := Some next\<rparr>)"

definition force_idle :: "sched \<Rightarrow> (sched \<times> nat \<times> nat) option" where
  "force_idle s = (case tasks s ! 0 of
      Some z \<Rightarrow> Some (upd_task z (\<lambda>t. t\<lparr>tstate := READY\<rparr>) s, z, 0)
    | None \<Rightarrow> None)"

text \<open>From the choice of the next task to the switch.\<close>

definition yield_choose :: "nat \<Rightarrow> sched \<Rightarrow> fault + sched" where
  "yield_choose prev s =
     (let (next_index, found) = next_ready s MAX_TASKS (current_task_index s);
          next = (case found of Some t \<Rightarrow> t | None \<Rightarrow> prev) in
      if next = prev then
        (if tstate (tmem s prev) = ZOMBIE then
           (case tasks s ! 0 of
              Some z \<Rightarrow> if tstate (tmem s z) \<noteq> ZOMBIE
                then Inr (switch_to prev z 0 (upd_task z (\<lambda>t. t\<lparr>tstate := READY\<rparr>) s))
                else Inl AssertFail
            | None \<Rightarrow> Inl AssertFail)
         else Inr s)
      else if tstate (tmem s next) \<noteq> READY then
        (case force_idle s of
           Some (s', z, i) \<Rightarrow> Inr (switch_to prev z i s')
         | None \<Rightarrow> Inl AssertFail)
      else Inr (switch_to prev next next_index s))"

definition scheduler_yield :: "sched \<Rightarrow> fault + sched" where
  "scheduler_yield s0 =
     (if \<not> need_reschedule s0 then Inr s0
      else let s = s0\<lparr>need_reschedule := False\<rparr> in
        case current_task s of
          None \<Rightarrow> if task_count s = 1 then Inr s else Inl OutOfBounds
        | Some prev \<Rightarrow>
            if stk s (stack_base (tmem s prev)) \<noteq> STACK_CANARY_VALUE then Inl AssertFail
            else if task_count s = 1 then Inr s
            else yield_choose prev s)"

definition scheduler_terminate_task :: "u32 \<Rightarrow> sched \<Rightarrow> fault + sched" where
  "scheduler_terminate_task idx s =
     (if idx \<ge> of_nat MAX_TASKS then Inr s
      else case tasks s ! unat idx of
        None \<Rightarrow> Inr s
      | Some t \<Rightarrow>
          let s1 = upd_task t (\<lambda>x. x\<lparr>tstate := ZOMBIE\<rparr>) s in
          if current_task s1 = Some t then scheduler_yield (s1\<lparr>need_reschedule := True\<rparr>)
          else Inr s1)"

definition scheduler_current_task :: "sched \<Rightarrow> task_ptr" where
  "scheduler_current_task s = current_task s"

definition tasks_array_get :: "nat \<Rightarrow> sched \<Rightarrow> task_ptr" where
  "tasks_array_get idx s = (if idx \<ge> MAX_TASKS then None else tasks s ! idx)"

definition scheduler_add_forked :: "nat \<Rightarrow> sched \<Rightarrow> int \<times> sched" where
  "scheduler_add_forked task s =
     (let slot = tid (tmem s task) in
      if slot \<ge> of_nat MAX_TASKS \<or> tasks s ! unat slot \<noteq> None then (- 1, s)
      else (uint slot, upd_task task (\<lambda>t. t\<lparr>tstate := READY\<rparr>)
              (s\<lparr>tasks := (tasks s)[unat slot := Some task], task_count := task_count s + 1\<rparr>)))"

definition scheduler_release_slot :: "nat \<Rightarrow> sched \<Rightarrow> sched" where
  "scheduler_release_slot idx s =
     (if idx \<ge> MAX_TASKS then s
      else if tasks s ! idx \<noteq> None
      then s\<lparr>tasks := (tasks s)[idx := None],
             task_count := (if task_count s > 0 then task_count s - 1 else task_count s)\<rparr>
      else s)"

record process_info =
  pi_id :: u32
  pi_name :: "u8 list"
  pi_state :: u32

definition task_info :: "task_struct \<Rightarrow> process_info" where
  "task_info t =
     (let src = (case tname t of Some n \<Rightarrow> n | None \<Rightarrow> cstr ''unknown'');
          copy_len = min (strlen src) 31
      in \<lparr>pi_id = tid t, pi_name = take copy_len src @ [0], pi_state = state_code (tstate t)\<rparr>)"

fun get_tasks_loop :: "sched \<Rightarrow> nat \<Rightarrow> task_ptr list \<Rightarrow> process_info list" where
  "get_tasks_loop s 0 ts = []"
| "get_tasks_loop s (Suc n) [] = []"
| "get_tasks_loop s (Suc n) (None # ts) = get_tasks_loop s (Suc n) ts"
| "get_tasks_loop s (Suc n) (Some t # ts) = task_info (tmem s t) # get_tasks_loop s n ts"

text \<open>The entries written to the caller's array, and their number.\<close>

definition scheduler_get_tasks :: "u32 \<Rightarrow> sched \<Rightarrow> process_info list \<times> nat" where
  "scheduler_get_tasks max_count s =
     (let xs = get_tasks_loop s (unat max_count) (tasks s) in (xs, length xs))"

subsection \<open>Wait queues\<close>

type_synonym wait_queue = task_ptr

definition wake_up :: "wait_queue \<Rightarrow> sched \<Rightarrow> wait_queue \<times> sched" where
  "wake_up wq s = (case wq of
      None \<Rightarrow> (wq, s)
    | Some t \<Rightarrow> (wait_next (tmem s t), upd_task t (\<lambda>x. x\<lparr>wait_next := None, tstate := READY\<rparr>) s))"

text \<open>One round of \<open>wait_event\<close> whose condition was false: the caller enqueues itself and yields.
  It continues with the next round when it is scheduled again.\<close>

definition wait_enqueue :: "wait_queue \<Rightarrow> sched \<Rightarrow> wait_queue \<times> sched" where
  "wait_enqueue wq s = (case scheduler_current_task s of
      None \<Rightarrow> (wq, s)
    | Some me \<Rightarrow> (Some me, (upd_task me (\<lambda>t. t\<lparr>wait_next := wq, tstate := BLOCKED\<rparr>) s)
        \<lparr>need_reschedule := True\<rparr>))"

definition wait_block :: "wait_queue \<Rightarrow> sched \<Rightarrow> fault + wait_queue \<times> sched" where
  "wait_block wq s =
     (let (wq', s') = wait_enqueue wq s in
      case scheduler_yield s' of Inl e \<Rightarrow> Inl e | Inr s'' \<Rightarrow> Inr (wq', s''))"

text \<open>\<open>while (wq.head != 0) wake_up(&wq);\<close>, the loop of \<open>do_exit\<close> and \<open>do_kill_by_pid\<close>.\<close>

partial_function (option) wake_all :: "wait_queue \<Rightarrow> sched \<Rightarrow> sched option" where
  "wake_all wq s = (case wq of None \<Rightarrow> Some s
     | Some t \<Rightarrow> (let (wq', s') = wake_up wq s in wake_all wq' s'))"

subsection \<open>Sleeping\<close>

definition msleep :: "u32 \<Rightarrow> sched \<Rightarrow> fault + sched" where
  "msleep ms s =
     (if ms = 0 then Inr s
      else let ticks = (if ms div TICK_MS = 0 then 1 else ms div TICK_MS);
               s1 = (case scheduler_current_task s of
                   None \<Rightarrow> s
                 | Some me \<Rightarrow> (upd_task me (\<lambda>t. t\<lparr>wake_tick := jiffies s + ticks,
                       sleep_next := sleep_head s, tstate := BLOCKED\<rparr>) s)
                     \<lparr>sleep_head := Some me, need_reschedule := True\<rparr>)
        in scheduler_yield s1)"

text \<open>\<open>pp\<close> points either to \<open>sleep_head\<close> or to the \<open>sleep_next\<close> field of a task.\<close>

datatype sleep_link = Head | Next nat

definition link_get :: "sleep_link \<Rightarrow> sched \<Rightarrow> task_ptr" where
  "link_get pp s = (case pp of Head \<Rightarrow> sleep_head s | Next t \<Rightarrow> sleep_next (tmem s t))"

definition link_set :: "sleep_link \<Rightarrow> task_ptr \<Rightarrow> sched \<Rightarrow> sched" where
  "link_set pp v s = (case pp of Head \<Rightarrow> s\<lparr>sleep_head := v\<rparr>
     | Next t \<Rightarrow> upd_task t (\<lambda>x. x\<lparr>sleep_next := v\<rparr>) s)"

partial_function (option) sleep_walk :: "sleep_link \<Rightarrow> sched \<Rightarrow> sched option" where
  "sleep_walk pp s = (case link_get pp s of
      None \<Rightarrow> Some s
    | Some t \<Rightarrow>
        if jiffies s \<ge> wake_tick (tmem s t)
        then sleep_walk pp (upd_task t (\<lambda>x. x\<lparr>sleep_next := None, wake_tick := 0, tstate := READY\<rparr>)
               (link_set pp (sleep_next (tmem s t)) s))
        else sleep_walk (Next t) s)"

definition sleep_tick :: "sched \<Rightarrow> sched option" where
  "sleep_tick s = sleep_walk Head (s\<lparr>jiffies := jiffies s + 1\<rparr>)"

definition scheduler_tick :: "sched \<Rightarrow> sched option" where
  "scheduler_tick s =
     (if \<not> scheduler_started s then Some s
      else map_option (\<lambda>s'. s'\<lparr>need_reschedule := True\<rparr>) (sleep_tick s))"

subsection \<open>Atomics and spinlocks\<close>

text \<open>The interrupt mask is the CPSR word; \<open>cpsid i\<close> sets bit 7.\<close>

definition irq_save_disable :: "u32 \<Rightarrow> u32 \<times> u32" where
  "irq_save_disable cpsr = (cpsr, cpsr OR 0x80)"

definition irq_restore :: "u32 \<Rightarrow> u32 \<Rightarrow> u32" where
  "irq_restore fl cpsr = (cpsr AND NOT 0xFF) OR (fl AND 0xFF)"

definition atomic_add_return :: "u32 \<Rightarrow> u32 \<times> u32 \<Rightarrow> u32 \<times> u32 \<times> u32" where
  "atomic_add_return delta = (\<lambda>(counter, cpsr).
     (let (fl, cpsr1) = irq_save_disable cpsr; result = counter + delta
      in (result, result, irq_restore fl cpsr1)))"

definition atomic_cmpxchg :: "u32 \<Rightarrow> u32 \<Rightarrow> u32 \<times> u32 \<Rightarrow> u32 \<times> u32 \<times> u32" where
  "atomic_cmpxchg expected new_val = (\<lambda>(counter, cpsr).
     (let (fl, cpsr1) = irq_save_disable cpsr; old = counter
      in (old, if old = expected then new_val else counter, irq_restore fl cpsr1)))"

record spinlock = lk_locked :: u32

definition spin_lock :: "spinlock \<Rightarrow> spinlock" where "spin_lock l = l\<lparr>lk_locked := 1\<rparr>"
definition spin_unlock :: "spinlock \<Rightarrow> spinlock" where "spin_unlock l = l\<lparr>lk_locked := 0\<rparr>"

definition spin_lock_irqsave :: "spinlock \<Rightarrow> u32 \<Rightarrow> u32 \<times> spinlock \<times> u32" where
  "spin_lock_irqsave l cpsr = (let (fl, cpsr1) = irq_save_disable cpsr in (fl, l\<lparr>lk_locked := 1\<rparr>, cpsr1))"

definition spin_unlock_irqrestore :: "spinlock \<Rightarrow> u32 \<Rightarrow> u32 \<Rightarrow> spinlock \<times> u32" where
  "spin_unlock_irqrestore l fl cpsr = (l\<lparr>lk_locked := 0\<rparr>, irq_restore fl cpsr)"

subsection \<open>The scheduler's invariant and the round-robin order\<close>

lemma upd_task_simps [simp]:
  "tmem (upd_task t f s) = (tmem s)(t := f (tmem s t))"
  "stk (upd_task t f s) = stk s" "tasks (upd_task t f s) = tasks s"
  "task_count (upd_task t f s) = task_count s" "current_task (upd_task t f s) = current_task s"
  "current_task_index (upd_task t f s) = current_task_index s"
  "scheduler_started (upd_task t f s) = scheduler_started s"
  "need_reschedule (upd_task t f s) = need_reschedule s"
  "jiffies (upd_task t f s) = jiffies s" "sleep_head (upd_task t f s) = sleep_head s"
  by (simp_all add: upd_task_def)

definition ready_slot :: "sched \<Rightarrow> nat \<Rightarrow> bool" where
  "ready_slot s i \<longleftrightarrow> (case tasks s ! i of Some t \<Rightarrow> tstate (tmem s t) = READY | None \<Rightarrow> False)"

text \<open>The table has its five slots; the running task is the one in the current slot and its
  canary is intact, as is that of every task; no task is in two slots; the idle task sits in slot
  0 and is ready whenever it is not the current one; the counter counts the occupied slots.\<close>

definition slots_inj :: "task_ptr list \<Rightarrow> bool" where
  "slots_inj ts \<longleftrightarrow> (\<forall>i<length ts. \<forall>j<length ts. ts ! i \<noteq> None \<longrightarrow> ts ! i = ts ! j \<longrightarrow> i = j)"

definition idle_ok :: "sched \<Rightarrow> bool" where
  "idle_ok s \<longleftrightarrow> (case tasks s ! 0 of None \<Rightarrow> False
     | Some z \<Rightarrow> tstate (tmem s z) = READY \<or> tstate (tmem s z) = RUNNING)"

definition sched_inv :: "sched \<Rightarrow> bool" where
  "sched_inv s \<longleftrightarrow> length (tasks s) = MAX_TASKS \<and> current_task_index s < MAX_TASKS \<and>
     current_task s \<noteq> None \<and> tasks s ! current_task_index s = current_task s \<and>
     slots_inj (tasks s) \<and>
     (\<forall>i<MAX_TASKS. \<forall>t. tasks s ! i = Some t \<longrightarrow>
        stk s (stack_base (tmem s t)) = STACK_CANARY_VALUE \<and>
        (tstate (tmem s t) = RUNNING \<longrightarrow> current_task s = Some t)) \<and>
     idle_ok s \<and> task_count s = of_nat (length (filter (\<lambda>p. p \<noteq> None) (tasks s)))"

lemma next_ready_Some:
  "next_ready s k idx = (i, Some t) \<Longrightarrow>
   \<exists>d. 1 \<le> d \<and> d \<le> k \<and> i = (idx + d) mod MAX_TASKS \<and> tasks s ! i = Some t \<and>
     tstate (tmem s t) = READY \<and> (\<forall>e. 1 \<le> e \<and> e < d \<longrightarrow> \<not> ready_slot s ((idx + e) mod MAX_TASKS))"
proof (induction s k idx rule: next_ready.induct)
  case (1 s idx)
  then show ?case by simp
next
  case (2 s k idx)
  let ?i = "(idx + 1) mod MAX_TASKS"
  show ?case
  proof (cases "ready_slot s ?i")
    case True
    then have "i = ?i \<and> tasks s ! ?i = Some t \<and> tstate (tmem s t) = READY"
      using "2.prems" by (auto simp: Let_def ready_slot_def split: option.splits)
    then show ?thesis by (intro exI [of _ 1]) auto
  next
    case False
    then have "next_ready s k ?i = (i, Some t)"
      using "2.prems" by (auto simp: Let_def ready_slot_def split: option.splits if_splits)
    then obtain d where d: "1 \<le> d" "d \<le> k" "i = (?i + d) mod MAX_TASKS" "tasks s ! i = Some t"
      "tstate (tmem s t) = READY" "\<forall>e. 1 \<le> e \<and> e < d \<longrightarrow> \<not> ready_slot s ((?i + e) mod MAX_TASKS)"
      using "2.IH" False by (fastforce simp: ready_slot_def split: option.splits)
    have sh: "(?i + e) mod MAX_TASKS = (idx + Suc e) mod MAX_TASKS" for e
      by (simp add: mod_simps)
    have "\<not> ready_slot s ((idx + e) mod MAX_TASKS)" if "1 \<le> e" "e < Suc d" for e
    proof (cases "e = 1")
      case True
      then show ?thesis using False by simp
    next
      case ne: False
      with that obtain m where "e = Suc m" "1 \<le> m" by (cases e) auto
      with that d(6) sh [of m] show ?thesis by auto
    qed
    with d show ?thesis unfolding sh by (intro exI [of _ "Suc d"]) auto
  qed
qed

lemma next_ready_None:
  "next_ready s k idx = (i, None) \<Longrightarrow> 1 \<le> e \<Longrightarrow> e \<le> k \<Longrightarrow> \<not> ready_slot s ((idx + e) mod MAX_TASKS)"
proof (induction s k idx arbitrary: e rule: next_ready.induct)
  case (1 s idx)
  then show ?case by simp
next
  case (2 s k idx)
  let ?i = "(idx + 1) mod MAX_TASKS"
  have nr: "\<not> ready_slot s ?i" and rest: "next_ready s k ?i = (i, None)"
    using "2.prems"(1) by (auto simp: Let_def ready_slot_def split: option.splits if_splits)
  show ?case
  proof (cases "e = 1")
    case True
    then show ?thesis using nr by simp
  next
    case False
    with "2.prems"(2) obtain m where m: "e = Suc m" "1 \<le> m" by (cases e) auto
    have "\<not> ready_slot s ((?i + m) mod MAX_TASKS)"
      using "2.IH" nr rest "2.prems"(3) m by (cases "tasks s ! ?i") (auto simp: ready_slot_def)
    then show ?thesis by (simp add: m mod_simps)
  qed
qed

lemma switch_to_tmem:
  "tmem (switch_to prev next idx s) t =
    (if t = next then (tmem s t)\<lparr>tstate := RUNNING\<rparr>
     else if t = prev \<and> tstate (tmem s t) = RUNNING then (tmem s t)\<lparr>tstate := READY\<rparr> else tmem s t)"
  by (auto simp: switch_to_def Let_def)

lemma switch_to_simps [simp]:
  "tasks (switch_to prev next idx s) = tasks s" "stk (switch_to prev next idx s) = stk s"
  "task_count (switch_to prev next idx s) = task_count s"
  "current_task (switch_to prev next idx s) = Some next"
  "current_task_index (switch_to prev next idx s) = idx"
  "need_reschedule (switch_to prev next idx s) = need_reschedule s"
  by (simp_all add: switch_to_def Let_def)

lemma sched_invI:
  assumes "length (tasks s) = MAX_TASKS" "current_task_index s < MAX_TASKS" "current_task s = Some c"
    "tasks s ! current_task_index s = Some c" "slots_inj (tasks s)"
    "\<And>i t. i < MAX_TASKS \<Longrightarrow> tasks s ! i = Some t \<Longrightarrow>
       stk s (stack_base (tmem s t)) = STACK_CANARY_VALUE \<and>
       (tstate (tmem s t) = RUNNING \<longrightarrow> current_task s = Some t)"
    "idle_ok s" "task_count s = of_nat (length (filter (\<lambda>p. p \<noteq> None) (tasks s)))"
  shows "sched_inv s"
  unfolding sched_inv_def
proof (intro conjI allI impI)
  show "current_task s \<noteq> None" "tasks s ! current_task_index s = current_task s" by (simp_all only: assms(3,4)) simp
qed (use assms(1,2,5,7,8) assms(6) in blast)+

lemma sched_inv_current: "sched_inv s \<Longrightarrow> \<exists>c. current_task s = Some c"
  by (auto simp: sched_inv_def)

lemma sched_inv_tasks:
  assumes "sched_inv s" "i < MAX_TASKS" "tasks s ! i = Some t"
  shows "stk s (stack_base (tmem s t)) = STACK_CANARY_VALUE" "tstate (tmem s t) = RUNNING \<Longrightarrow> current_task s = Some t"
  using assms by (auto simp: sched_inv_def)

lemma sched_inv_inj:
  assumes "sched_inv s" "i < MAX_TASKS" "j < MAX_TASKS" "tasks s ! i = Some t" "tasks s ! j = Some t"
  shows "i = j"
proof -
  have "slots_inj (tasks s)" "length (tasks s) = MAX_TASKS" using assms(1) by (auto simp: sched_inv_def)
  then show ?thesis using assms(2-5) unfolding slots_inj_def by force
qed

lemma sched_inv_slot:
  assumes "sched_inv s" "i < MAX_TASKS" "tasks s ! i = current_task s"
  shows "i = current_task_index s"
proof -
  obtain c where c: "current_task s = Some c" using sched_inv_current [OF assms(1)] by blast
  have "current_task_index s < MAX_TASKS" "tasks s ! current_task_index s = Some c"
    using assms(1) c by (auto simp: sched_inv_def)
  then show ?thesis using sched_inv_inj [OF assms(1,2)] assms(3) c by simp
qed

lemma sched_inv_switch:
  assumes inv: "sched_inv s" and prev: "current_task s = Some prev" and idx: "idx < MAX_TASKS"
    and nx: "tasks s ! idx = Some next"
  shows "sched_inv (switch_to prev next idx s)"
proof -
  let ?s = "switch_to prev next idx s"
  have "stk ?s (stack_base (tmem ?s t)) = STACK_CANARY_VALUE \<and>
      (tstate (tmem ?s t) = RUNNING \<longrightarrow> current_task ?s = Some t)"
    if "i < MAX_TASKS" "tasks s ! i = Some t" for i t
    using sched_inv_tasks [OF inv that] prev by (auto simp: switch_to_tmem)
  moreover have "idle_ok ?s"
    using inv by (auto simp: sched_inv_def idle_ok_def switch_to_tmem split: option.splits)
  ultimately show ?thesis using inv idx nx by (simp add: sched_inv_def)
qed

lemma need_False_inv [simp]: "sched_inv (s\<lparr>need_reschedule := b\<rparr>) = sched_inv s"
  by (simp add: sched_inv_def idle_ok_def split: option.split)

lemma ready_slot_need [simp]: "ready_slot (s\<lparr>need_reschedule := b\<rparr>) = ready_slot s"
  by (simp add: ready_slot_def fun_eq_iff split: option.split)

text \<open>The outcome of a yield: to the next ready slot if there is another one, else nothing.\<close>

lemma yield_switches:
  assumes inv: "sched_inv s" and need: "need_reschedule s" and cnt: "task_count s \<noteq> 1"
    and d: "1 \<le> d" "d < MAX_TASKS" "ready_slot s ((current_task_index s + d) mod MAX_TASKS)"
    and first: "\<And>e. 1 \<le> e \<Longrightarrow> e < d \<Longrightarrow> \<not> ready_slot s ((current_task_index s + e) mod MAX_TASKS)"
    and prev: "current_task s = Some prev"
  shows "\<exists>next. tasks s ! ((current_task_index s + d) mod MAX_TASKS) = Some next \<and>
    scheduler_yield s = Inr (switch_to prev next ((current_task_index s + d) mod MAX_TASKS)
      (s\<lparr>need_reschedule := False\<rparr>))"
proof -
  let ?s = "s\<lparr>need_reschedule := False\<rparr>" and ?i = "current_task_index s"
  have canary: "stk s (stack_base (tmem s prev)) = STACK_CANARY_VALUE"
    using inv prev sched_inv_tasks(1) [OF inv, of ?i prev] by (simp add: sched_inv_def)
  obtain i f where nr: "next_ready ?s MAX_TASKS ?i = (i, f)" by (cases "next_ready ?s MAX_TASKS ?i")
  obtain nxt where f: "f = Some nxt"
    using next_ready_None [of ?s MAX_TASKS ?i i d] nr d by (cases f) auto
  obtain e where e: "1 \<le> e" "e \<le> MAX_TASKS" "i = (?i + e) mod MAX_TASKS" "tasks s ! i = Some nxt"
    "tstate (tmem s nxt) = READY" "\<forall>e'. 1 \<le> e' \<and> e' < e \<longrightarrow> \<not> ready_slot s ((?i + e') mod MAX_TASKS)"
    using next_ready_Some [OF nr [unfolded f]] by auto
  have "ready_slot s ((?i + e) mod MAX_TASKS)" using e by (simp add: ready_slot_def)
  then have ed: "e = d" using first e d by (metis linorder_neqE_nat)
  have "nxt \<noteq> prev"
  proof
    assume "nxt = prev"
    then have "(?i + d) mod MAX_TASKS = ?i"
      using sched_inv_slot [OF inv, of "(?i + d) mod MAX_TASKS"] e ed prev by (simp add: MAX_TASKS_def)
    moreover have "?i < MAX_TASKS" using inv by (simp add: sched_inv_def)
    ultimately show False using d by (simp add: MAX_TASKS_def) presburger
  qed
  then have "scheduler_yield s = Inr (switch_to prev nxt ((?i + d) mod MAX_TASKS) ?s)"
    using need prev canary cnt nr f e ed by (simp add: scheduler_yield_def yield_choose_def Let_def)
  then show ?thesis using e ed by blast
qed

lemma yield_stays:
  assumes inv: "sched_inv s" and need: "need_reschedule s"
    and none: "\<And>d. 1 \<le> d \<Longrightarrow> d < MAX_TASKS \<Longrightarrow> \<not> ready_slot s ((current_task_index s + d) mod MAX_TASKS)"
  shows "scheduler_yield s = Inr (s\<lparr>need_reschedule := False\<rparr>) \<and> current_task_index s = 0"
proof -
  let ?s = "s\<lparr>need_reschedule := False\<rparr>" and ?i = "current_task_index s"
  obtain prev where prev: "current_task s = Some prev" using sched_inv_current [OF inv] by blast
  have i: "?i < MAX_TASKS" "tasks s ! ?i = Some prev" using inv prev by (auto simp: sched_inv_def)
  note canary = sched_inv_tasks(1) [OF inv i]
  obtain z where z: "tasks s ! 0 = Some z" "tstate (tmem s z) = READY \<or> tstate (tmem s z) = RUNNING"
    using inv by (auto simp: sched_inv_def idle_ok_def split: option.splits)
  have i0: "?i = 0"
  proof (rule ccontr)
    assume n0: "?i \<noteq> 0"
    then have "(?i + (MAX_TASKS - ?i)) mod MAX_TASKS = 0" "1 \<le> MAX_TASKS - ?i" "MAX_TASKS - ?i < MAX_TASKS"
      using i by auto
    then have "\<not> ready_slot s 0" using none [of "MAX_TASKS - ?i"] by simp
    then have "current_task s = Some z" using z sched_inv_tasks(2) [OF inv _ z(1)] by (auto simp: ready_slot_def MAX_TASKS_def)
    then show False using sched_inv_slot [OF inv, of 0] z n0 by (simp add: MAX_TASKS_def)
  qed
  obtain k f where nr: "next_ready ?s MAX_TASKS ?i = (k, f)" by (cases "next_ready ?s MAX_TASKS ?i")
  have fp: "(case f of Some t \<Rightarrow> t | None \<Rightarrow> prev) = prev"
  proof (cases f)
    case (Some t)
    then obtain e where e: "1 \<le> e" "e \<le> MAX_TASKS" "k = (?i + e) mod MAX_TASKS" "tasks s ! k = Some t" "tstate (tmem s t) = READY"
      using next_ready_Some [OF nr [unfolded Some]] by auto
    then have "ready_slot s ((?i + e) mod MAX_TASKS)" by (simp add: ready_slot_def)
    then have "e = MAX_TASKS" using none [of e] e by (metis le_neq_implies_less)
    then show ?thesis using e i i0 Some by simp
  qed simp
  have "tstate (tmem s prev) \<noteq> ZOMBIE" using z i i0 by auto
  then show ?thesis using need prev canary nr fp i0
    by (simp add: scheduler_yield_def yield_choose_def Let_def)
qed

text \<open>How far slot \<open>k\<close> is ahead of slot \<open>c\<close> in the round: 1 to 5.\<close>

definition rr_dist :: "nat \<Rightarrow> nat \<Rightarrow> nat" where
  "rr_dist k c = (if c < k then k - c else k + MAX_TASKS - c)"

lemma rr_dist_bounds: "k < MAX_TASKS \<Longrightarrow> c < MAX_TASKS \<Longrightarrow> 1 \<le> rr_dist k c \<and> rr_dist k c \<le> MAX_TASKS"
  by (auto simp: rr_dist_def)

lemma rr_dist_self: "k < MAX_TASKS \<Longrightarrow> c < MAX_TASKS \<Longrightarrow> (c + rr_dist k c) mod MAX_TASKS = k"
  by (auto simp: rr_dist_def)

lemma rr_dist_step:
  assumes "k < MAX_TASKS" "c < MAX_TASKS" "1 \<le> d" "d < rr_dist k c" "d < MAX_TASKS"
  shows "rr_dist k ((c + d) mod MAX_TASKS) < rr_dist k c"
proof (cases "c + d < MAX_TASKS")
  case True
  then show ?thesis using assms by (auto simp: rr_dist_def split: if_splits)
next
  case False
  then have "(c + d) mod MAX_TASKS = c + d - MAX_TASKS" using assms by (simp add: le_mod_geq)
  then show ?thesis using assms False by (auto simp: rr_dist_def split: if_splits)
qed

lemma first_ready:
  assumes "1 \<le> d" "ready_slot s ((c + d) mod MAX_TASKS)"
  obtains e where "1 \<le> e" "e \<le> d" "ready_slot s ((c + e) mod MAX_TASKS)"
    "\<And>e'. 1 \<le> e' \<Longrightarrow> e' < e \<Longrightarrow> \<not> ready_slot s ((c + e') mod MAX_TASKS)"
proof -
  let ?P = "\<lambda>e. 1 \<le> e \<and> ready_slot s ((c + e) mod MAX_TASKS)"
  show ?thesis
    by (rule that [of "LEAST e. ?P e"]) (use assms LeastI [of ?P d] Least_le [of ?P d] not_less_Least [of _ ?P] in auto)
qed

lemma yield_dist:
  assumes inv: "sched_inv s" and need: "need_reschedule s" and cnt: "task_count s \<noteq> 1"
    and y: "scheduler_yield s = Inr s'" and k: "k < MAX_TASKS"
    and ready: "current_task_index s \<noteq> k \<Longrightarrow> ready_slot s k"
  shows "current_task_index s' = k \<or> rr_dist k (current_task_index s') < rr_dist k (current_task_index s)"
proof -
  let ?c = "current_task_index s"
  have c: "?c < MAX_TASKS" using inv by (simp add: sched_inv_def)
  obtain prev where prev: "current_task s = Some prev" using sched_inv_current [OF inv] by blast
  note D = rr_dist_bounds [OF k c]
  show ?thesis
  proof (cases "\<exists>d. 1 \<le> d \<and> d < MAX_TASKS \<and> ready_slot s ((?c + d) mod MAX_TASKS)")
    case True
    then obtain d0 where "1 \<le> d0" "d0 < MAX_TASKS" "ready_slot s ((?c + d0) mod MAX_TASKS)" by blast
    then obtain d where d: "1 \<le> d" "d \<le> d0" "ready_slot s ((?c + d) mod MAX_TASKS)"
      and fst: "\<And>e. 1 \<le> e \<Longrightarrow> e < d \<Longrightarrow> \<not> ready_slot s ((?c + e) mod MAX_TASKS)"
      using first_ready by metis
    have dm: "d < MAX_TASKS" using d(2) \<open>d0 < MAX_TASKS\<close> by simp
    have c': "current_task_index s' = (?c + d) mod MAX_TASKS"
      using yield_switches [OF inv need cnt d(1) dm d(3) fst prev] y by auto
    have "d \<le> rr_dist k ?c"
    proof (rule ccontr)
      assume "\<not> d \<le> rr_dist k ?c"
      then have "\<not> ready_slot s k" using fst [of "rr_dist k ?c"] D rr_dist_self [OF k c] by simp
      then have "?c = k" using ready by blast
      then show False using \<open>\<not> d \<le> rr_dist k ?c\<close> dm by (simp add: rr_dist_def)
    qed
    then show ?thesis
      using c' rr_dist_self [OF k c] rr_dist_step [OF k c d(1) _ dm] by (cases "d = rr_dist k ?c") auto
  next
    case False
    then have "scheduler_yield s = Inr (s\<lparr>need_reschedule := False\<rparr>)"
      using yield_stays [OF inv need] by blast
    then have c': "current_task_index s' = ?c" using y by simp
    have "?c = k"
    proof (rule ccontr)
      assume "?c \<noteq> k"
      then have "ready_slot s ((?c + rr_dist k ?c) mod MAX_TASKS)" "rr_dist k ?c < MAX_TASKS"
        using ready rr_dist_self [OF k c] k c by (auto simp: rr_dist_def)
      then show False using False D by blast
    qed
    then show ?thesis using c' by simp
  qed
qed

text \<open>A concrete table: the idle task running in slot 0 and a ready task in slot 2.\<close>

definition demo_task :: "nat \<Rightarrow> task_state \<Rightarrow> task_struct" where
  "demo_task n st = \<lparr>task_ctx = \<lparr>ctx_sp = 0, ctx_sp_usr = 0, ctx_lr_usr = 0\<rparr>,
     stack_base = of_nat n * 0x1000, stack_size = 0x1000, tstate = st, tname = None, tid = of_nat n,
     wait_next = None, sleep_next = None, wake_tick = 0, t_pid = int n, t_ppid = - 1,
     t_exit_status = 0, pgd_pa = 0, user_pa = 0, user_order = 0, kstack_pa = 0, kstack_order = 0,
     t_files = []\<rparr>"

definition demo_sched :: sched where
  "demo_sched = \<lparr>tmem = (\<lambda>t. if t = 1 then demo_task 1 RUNNING else demo_task t READY),
     stk = (\<lambda>a. STACK_CANARY_VALUE), tasks = [Some 1, None, Some 2, None, None], task_count = 2,
     current_task = Some 1, current_task_index = 0, scheduler_started = True,
     need_reschedule = True, jiffies = 0, sleep_head = None\<rparr>"

lemma less_MAX_TASKS: "i < MAX_TASKS \<longleftrightarrow> i = 0 \<or> i = 1 \<or> i = 2 \<or> i = 3 \<or> i = 4"
  by (auto simp: MAX_TASKS_def)

lemma demo_sched_inv: "sched_inv demo_sched"
proof (rule sched_invI)
  show "slots_inj (tasks demo_sched)"
    by (auto simp: slots_inj_def demo_sched_def less_Suc_eq nth_Cons')
qed (auto simp: demo_sched_def idle_ok_def MAX_TASKS_def demo_task_def less_Suc_eq nth_Cons')

definition demo_sched2 :: sched where
  "demo_sched2 = (switch_to 1 2 2 (demo_sched\<lparr>need_reschedule := False\<rparr>))\<lparr>need_reschedule := True\<rparr>"

lemma demo_sched2_inv: "sched_inv demo_sched2"
  unfolding demo_sched2_def need_False_inv
  by (rule sched_inv_switch) (simp_all add: demo_sched_inv, simp_all add: demo_sched_def MAX_TASKS_def)

lemma demo_sched2_simps [simp]:
  "tasks demo_sched2 = [Some 1, None, Some 2, None, None]" "task_count demo_sched2 = 2"
  "current_task demo_sched2 = Some 2" "current_task_index demo_sched2 = 2" "need_reschedule demo_sched2"
  "tstate (tmem demo_sched2 (Suc 0)) = READY"
  by (simp_all add: demo_sched2_def demo_sched_def switch_to_tmem demo_task_def)

lemma demo_sched_simps [simp]:
  "tasks demo_sched = [Some 1, None, Some 2, None, None]" "task_count demo_sched = 2"
  "current_task demo_sched = Some 1" "current_task_index demo_sched = 0" "need_reschedule demo_sched"
  "tstate (tmem demo_sched 2) = READY"
  by (simp_all add: demo_sched_def demo_task_def)

lemma demo_yield: "scheduler_yield demo_sched = Inr (demo_sched2\<lparr>need_reschedule := False\<rparr>)"
proof -
  have "\<exists>next. tasks demo_sched ! ((current_task_index demo_sched + 2) mod MAX_TASKS) = Some next \<and>
    scheduler_yield demo_sched = Inr (switch_to 1 next ((current_task_index demo_sched + 2) mod MAX_TASKS)
      (demo_sched\<lparr>need_reschedule := False\<rparr>))"
  proof (rule yield_switches [OF demo_sched_inv])
    fix e :: nat assume "1 \<le> e" "e < 2"
    then have "e = 1" by simp
    then show "\<not> ready_slot demo_sched ((current_task_index demo_sched + e) mod MAX_TASKS)"
      by (simp add: ready_slot_def MAX_TASKS_def)
  qed (simp_all add: ready_slot_def MAX_TASKS_def)
  then have "scheduler_yield demo_sched = Inr (switch_to 1 2 2 (demo_sched\<lparr>need_reschedule := False\<rparr>))"
    by (simp add: MAX_TASKS_def numeral_2_eq_2)
  then show ?thesis by (simp add: demo_sched2_def switch_to_def Let_def upd_task_def)
qed

lemma demo_yield2: "scheduler_yield demo_sched2 = Inr ((switch_to 2 1 0 demo_sched2)\<lparr>need_reschedule := False\<rparr>)"
proof -
  have "\<exists>next. tasks demo_sched2 ! ((current_task_index demo_sched2 + 3) mod MAX_TASKS) = Some next \<and>
    scheduler_yield demo_sched2 = Inr (switch_to 2 next ((current_task_index demo_sched2 + 3) mod MAX_TASKS)
      (demo_sched2\<lparr>need_reschedule := False\<rparr>))"
  proof (rule yield_switches [OF demo_sched2_inv])
    fix e :: nat assume "1 \<le> e" "e < 3"
    then have "e = 1 \<or> e = 2" by auto
    then show "\<not> ready_slot demo_sched2 ((current_task_index demo_sched2 + e) mod MAX_TASKS)"
      by (auto simp: ready_slot_def MAX_TASKS_def)
  qed (simp_all add: ready_slot_def MAX_TASKS_def)
  then have "scheduler_yield demo_sched2 = Inr (switch_to 2 1 0 (demo_sched2\<lparr>need_reschedule := False\<rparr>))"
    by (simp add: MAX_TASKS_def)
  then show ?thesis by (simp add: switch_to_def Let_def upd_task_def)
qed

text \<open>C7: \<open>scheduler_yield\<close> in a consistent state with a pending reschedule never panics and keeps
  the state consistent.  It switches to the first ready task after the current slot in circular
  order: that task alone becomes running, the previous one becomes ready if it was running and
  keeps its state otherwise (a blocked task stays blocked, a zombie stays a zombie), and nothing
  else about any task changes.  If no other task is ready nothing happens; then the idle task is
  the current one.\<close>

theorem scheduler_yield_round_robin:
  assumes "sched_inv s" "need_reschedule s" "task_count s \<noteq> 1" "current_task s = Some prev"
  shows "\<exists>s'. scheduler_yield s = Inr s' \<and> sched_inv s' \<and> \<not> need_reschedule s' \<and>
    (\<forall>d. 1 \<le> d \<and> d < MAX_TASKS \<and> ready_slot s ((current_task_index s + d) mod MAX_TASKS) \<and>
       (\<forall>e. 1 \<le> e \<and> e < d \<longrightarrow> \<not> ready_slot s ((current_task_index s + e) mod MAX_TASKS)) \<longrightarrow>
       current_task_index s' = (current_task_index s + d) mod MAX_TASKS \<and>
       current_task s' = tasks s ! ((current_task_index s + d) mod MAX_TASKS) \<and>
       (\<forall>t. tmem s' t = (tmem s t)\<lparr>tstate := (if current_task s' = Some t then RUNNING
          else if t = prev \<and> tstate (tmem s t) = RUNNING then READY else tstate (tmem s t))\<rparr>)) \<and>
    ((\<forall>d. 1 \<le> d \<and> d < MAX_TASKS \<longrightarrow> \<not> ready_slot s ((current_task_index s + d) mod MAX_TASKS)) \<longrightarrow>
       s' = s\<lparr>need_reschedule := False\<rparr> \<and> current_task_index s = 0)"
proof (cases "\<exists>d. 1 \<le> d \<and> d < MAX_TASKS \<and> ready_slot s ((current_task_index s + d) mod MAX_TASKS)")
  case True
  let ?c = "current_task_index s"
  from True obtain d0 where d0: "1 \<le> d0" "d0 < MAX_TASKS" "ready_slot s ((?c + d0) mod MAX_TASKS)" by blast
  then obtain d where d: "1 \<le> d" "d \<le> d0" "ready_slot s ((?c + d) mod MAX_TASKS)"
    and fst: "\<And>e. 1 \<le> e \<Longrightarrow> e < d \<Longrightarrow> \<not> ready_slot s ((?c + e) mod MAX_TASKS)"
    using first_ready by metis
  have dm: "d < MAX_TASKS" using d(2) d0(2) by simp
  obtain nxt where n: "tasks s ! ((?c + d) mod MAX_TASKS) = Some nxt"
    and y: "scheduler_yield s = Inr (switch_to prev nxt ((?c + d) mod MAX_TASKS) (s\<lparr>need_reschedule := False\<rparr>))"
    using yield_switches [OF assms(1-3) d(1) dm d(3) fst assms(4)] by blast
  have uniq: "d' = d" if "1 \<le> d'" "ready_slot s ((?c + d') mod MAX_TASKS)"
      "\<forall>e. 1 \<le> e \<and> e < d' \<longrightarrow> \<not> ready_slot s ((?c + e) mod MAX_TASKS)" for d'
    using that fst d by (metis linorder_neqE_nat)
  have inv': "sched_inv (switch_to prev nxt ((?c + d) mod MAX_TASKS) (s\<lparr>need_reschedule := False\<rparr>))"
    by (rule sched_inv_switch) (use assms n in \<open>simp_all add: MAX_TASKS_def\<close>)
  have m: "tmem (switch_to prev nxt j (s\<lparr>need_reschedule := False\<rparr>)) t =
      (tmem s t)\<lparr>tstate := (if Some nxt = Some t then RUNNING
        else if t = prev \<and> tstate (tmem s t) = RUNNING then READY else tstate (tmem s t))\<rparr>" for t j
    by (auto simp: switch_to_tmem)
  show ?thesis
  proof (rule exI [of _ "switch_to prev nxt ((?c + d) mod MAX_TASKS) (s\<lparr>need_reschedule := False\<rparr>)"],
      intro conjI allI impI, goal_cases)
    case 1 show ?case by (rule y)
  next
    case 2 show ?case by (rule inv')
  next
    case 3 show ?case by simp
  next
    case (4 d') then show ?case using uniq [of d'] by simp
  next
    case (5 d') then show ?case using uniq [of d'] n by simp
  next
    case (6 d' t) show ?case unfolding switch_to_simps by (rule m)
  next
    case 7 then show ?case using d dm by blast
  next
    case 8 then show ?case using d dm by blast
  qed
next
  case False
  then have "scheduler_yield s = Inr (s\<lparr>need_reschedule := False\<rparr>) \<and> current_task_index s = 0"
    using yield_stays [OF assms(1,2)] by blast
  then show ?thesis using False assms(1) by auto
qed

theorem scheduler_yield_round_robin_witness:
  "sched_inv demo_sched2 \<and> (\<exists>s'. scheduler_yield demo_sched = Inr s' \<and> sched_inv s')"
  using scheduler_yield_round_robin [OF demo_sched_inv, of 1] demo_sched2_inv
  by (auto simp: demo_sched_def)

text \<open>C8: no starvation.  Take any sequence of yields, each with a reschedule pending, between
  which other code may change the state as long as it stays consistent and the same slot stays
  current.  A slot whose task is ready at every yield at which it is not current gets the CPU
  within five yields.\<close>

theorem scheduler_no_starvation:
  assumes inv: "\<And>i. sched_inv (f i)" and need: "\<And>i. need_reschedule (f i)"
    and cnt: "\<And>i. task_count (f i) \<noteq> 1" and y: "\<And>i. scheduler_yield (f i) = Inr (g i)"
    and same: "\<And>i. current_task_index (f (Suc i)) = current_task_index (g i)"
    and k: "k < MAX_TASKS" and ready: "\<And>i. current_task_index (f i) \<noteq> k \<Longrightarrow> ready_slot (f i) k"
  shows "\<exists>i<MAX_TASKS. current_task_index (g i) = k"
proof -
  have "\<exists>j. i \<le> j \<and> j < i + n \<and> current_task_index (g j) = k"
    if "rr_dist k (current_task_index (f i)) \<le> n" for i n
    using that
  proof (induction n arbitrary: i)
    case 0
    have "current_task_index (f i) < MAX_TASKS" using inv [of i] by (simp add: sched_inv_def)
    then show ?case using 0 rr_dist_bounds [OF k] by fastforce
  next
    case (Suc n)
    show ?case
    proof (cases "current_task_index (g i) = k")
      case False
      then have "rr_dist k (current_task_index (f (Suc i))) \<le> n"
        using yield_dist [OF inv need cnt y k ready, of i] Suc.prems same by simp
      from Suc.IH [OF this] show ?thesis by (metis Suc_leD add_Suc add_Suc_right)
    qed auto
  qed
  from this [of 0 MAX_TASKS] inv [of 0] k show ?thesis
    using rr_dist_bounds [OF k] by (auto simp: sched_inv_def)
qed

theorem scheduler_no_starvation_witness:
  "\<exists>i<MAX_TASKS. current_task_index (if even i then demo_sched2\<lparr>need_reschedule := False\<rparr>
      else (switch_to 2 1 0 demo_sched2)\<lparr>need_reschedule := False\<rparr>) = 2"
  by (rule scheduler_no_starvation [of "\<lambda>i. if even i then demo_sched else demo_sched2"])
    (auto simp: demo_sched_inv demo_sched2_inv demo_yield demo_yield2,
     auto simp: demo_sched_def demo_sched2_def ready_slot_def demo_task_def MAX_TASKS_def)

subsection \<open>Wait queues as lists\<close>

definition waiters :: "wait_queue \<Rightarrow> sched \<Rightarrow> nat list \<Rightarrow> bool" where
  "waiters wq s xs \<longleftrightarrow> distinct xs \<and> chain (\<lambda>t. wait_next (tmem s t)) wq xs"

lemma waiters_Nil: "waiters wq s [] \<longleftrightarrow> wq = None"
  by (simp add: waiters_def)

lemma wake_up_waiters:
  assumes "waiters wq s (x # xs)"
  shows "fst (wake_up wq s) = wait_next (tmem s x) \<and>
    snd (wake_up wq s) = upd_task x (\<lambda>t. t\<lparr>wait_next := None, tstate := READY\<rparr>) s \<and>
    waiters (fst (wake_up wq s)) (snd (wake_up wq s)) xs"
proof -
  have "chain (\<lambda>t. wait_next (tmem (upd_task x (\<lambda>t. t\<lparr>wait_next := None, tstate := READY\<rparr>) s) t)) h xs =
      chain (\<lambda>t. wait_next (tmem s t)) h xs" for h
    using assms by (intro chain_cong) (auto simp: waiters_def)
  then show ?thesis using assms by (auto simp: waiters_def wake_up_def)
qed

lemma wake_all_waiters:
  "waiters wq s xs \<Longrightarrow> wake_all wq s =
     Some (s\<lparr>tmem := (\<lambda>t. if t \<in> set xs then (tmem s t)\<lparr>wait_next := None, tstate := READY\<rparr> else tmem s t)\<rparr>)"
proof (induction xs arbitrary: wq s)
  case Nil
  then show ?case by (subst wake_all.simps) (simp add: waiters_def)
next
  case (Cons x xs)
  let ?s = "upd_task x (\<lambda>t. t\<lparr>wait_next := None, tstate := READY\<rparr>) s"
  have wq: "wq = Some x" "x \<notin> set xs" using Cons.prems by (auto simp: waiters_def)
  have w: "waiters (wait_next (tmem s x)) ?s xs" using wake_up_waiters [OF Cons.prems] by metis
  have "wake_all wq s = wake_all (wait_next (tmem s x)) ?s"
    using wq by (subst wake_all.simps) (simp add: wake_up_def)
  also have "\<dots> = Some (?s\<lparr>tmem := (\<lambda>t. if t \<in> set xs
      then (tmem ?s t)\<lparr>wait_next := None, tstate := READY\<rparr> else tmem ?s t)\<rparr>)"
    by (rule Cons.IH [OF w])
  finally show ?case using wq by (auto simp: upd_task_def fun_eq_iff)
qed

lemma wait_enqueue_waiters:
  assumes "waiters wq s xs" "current_task s = Some me" "me \<notin> set xs"
  shows "waiters (fst (wait_enqueue wq s)) (snd (wait_enqueue wq s)) (me # xs)"
proof -
  have "chain (\<lambda>t. wait_next (tmem (snd (wait_enqueue wq s)) t)) wq xs = chain (\<lambda>t. wait_next (tmem s t)) wq xs"
    using assms by (intro chain_cong) (auto simp: wait_enqueue_def scheduler_current_task_def)
  then show ?thesis using assms by (simp add: waiters_def wait_enqueue_def scheduler_current_task_def)
qed

text \<open>The wake-everyone loop of \<open>do_exit\<close> and \<open>do_kill_by_pid\<close> always ends on a well-formed
  queue, makes every waiter ready, takes it off the queue, and touches nothing else.\<close>

lemma wake_all_terminates:
  assumes "waiters wq s xs"
  shows "wake_all wq s =
     Some (s\<lparr>tmem := (\<lambda>t. if t \<in> set xs then (tmem s t)\<lparr>wait_next := None, tstate := READY\<rparr> else tmem s t)\<rparr>)"
  by (rule wake_all_waiters [OF assms])

theorem wake_all_terminates_witness:
  "\<exists>s'. wake_all (Some 2) demo_sched = Some s' \<and> tstate (tmem s' 2) = READY"
proof -
  have "waiters (Some 2) demo_sched [2]"
    by (simp add: waiters_def demo_sched_def demo_task_def)
  from wake_all_terminates [OF this] show ?thesis by simp
qed

subsection \<open>The sleep list\<close>

definition due :: "sched \<Rightarrow> nat \<Rightarrow> bool" where
  "due s t \<longleftrightarrow> jiffies s \<ge> wake_tick (tmem s t)"

abbreviation sleep_nxt :: "sched \<Rightarrow> nat \<Rightarrow> task_ptr" where
  "sleep_nxt s \<equiv> \<lambda>t. sleep_next (tmem s t)"

lemma sleep_walk_spec:
  assumes "chain (sleep_nxt s) (link_get pp s) xs" "distinct xs" "\<And>t. pp = Next t \<Longrightarrow> t \<notin> set xs"
  shows "\<exists>s'. sleep_walk pp s = Some s' \<and>
    chain (sleep_nxt s') (link_get pp s') (filter (\<lambda>t. \<not> due s t) xs) \<and>
    (\<forall>t. tstate (tmem s' t) = (if t \<in> set xs \<and> due s t then READY else tstate (tmem s t))) \<and>
    (\<forall>t. t \<notin> set xs \<longrightarrow> pp \<noteq> Next t \<longrightarrow> tmem s' t = tmem s t) \<and>
    (pp \<noteq> Head \<longrightarrow> sleep_head s' = sleep_head s) \<and>
    jiffies s' = jiffies s \<and> tasks s' = tasks s \<and> current_task s' = current_task s \<and>
    (\<forall>t. \<not> due s t \<longrightarrow> wake_tick (tmem s' t) = wake_tick (tmem s t))"
  using assms
proof (induction xs arbitrary: pp s)
  case Nil
  then show ?case by (subst sleep_walk.simps) simp
next
  case (Cons x xs)
  have g: "link_get pp s = Some x" using Cons.prems by simp
  show ?case
  proof (cases "due s x")
    case True
    define s1 where "s1 = upd_task x (\<lambda>t. t\<lparr>sleep_next := None, wake_tick := 0, tstate := READY\<rparr>)
        (link_set pp (sleep_next (tmem s x)) s)"
    have st: "sleep_walk pp s = sleep_walk pp s1"
      using g True by (subst sleep_walk.simps) (simp add: due_def s1_def)
    have px: "pp \<noteq> Next x" using Cons.prems(3) [of x] by auto
    have get: "link_get pp s1 = sleep_next (tmem s x)"
      using px by (cases pp) (auto simp: link_get_def link_set_def s1_def)
    have same: "tmem s1 t = tmem s t" if "t \<in> set xs" for t
      using that Cons.prems(2,3) by (cases pp) (auto simp: link_set_def s1_def)
    have "chain (sleep_nxt s1) (link_get pp s1) xs"
      unfolding get using Cons.prems(1) same by (subst chain_cong [of xs _ "sleep_nxt s"]) auto
    from Cons.IH [OF this] Cons.prems(2,3) obtain s' where s': "sleep_walk pp s1 = Some s'"
      "chain (sleep_nxt s') (link_get pp s') (filter (\<lambda>t. \<not> due s1 t) xs)"
      "\<forall>t. tstate (tmem s' t) = (if t \<in> set xs \<and> due s1 t then READY else tstate (tmem s1 t))"
      "\<forall>t. t \<notin> set xs \<longrightarrow> pp \<noteq> Next t \<longrightarrow> tmem s' t = tmem s1 t"
      "pp \<noteq> Head \<longrightarrow> sleep_head s' = sleep_head s1" "jiffies s' = jiffies s1"
      "tasks s' = tasks s1" "current_task s' = current_task s1"
      "\<forall>t. \<not> due s1 t \<longrightarrow> wake_tick (tmem s' t) = wake_tick (tmem s1 t)" by auto
    have fields: "jiffies s1 = jiffies s" "tasks s1 = tasks s" "current_task s1 = current_task s"
      "pp \<noteq> Head \<longrightarrow> sleep_head s1 = sleep_head s"
      "\<And>t. tstate (tmem s1 t) = (if t = x then READY else tstate (tmem s t))"
      "\<And>t. t \<noteq> x \<Longrightarrow> wake_tick (tmem s1 t) = wake_tick (tmem s t)"
      "\<And>t. t \<noteq> x \<Longrightarrow> pp \<noteq> Next t \<Longrightarrow> tmem s1 t = tmem s t"
      by (cases pp; simp add: link_set_def s1_def)+
    have due: "due s1 t = due s t" if "t \<noteq> x" for t using fields(1) fields(6) [OF that] by (simp add: due_def)
    have "due s1 t = due s t" if "t \<in> set xs" for t by (rule due) (use that Cons.prems(2) in auto)
    then have fl: "filter (\<lambda>t. \<not> due s1 t) xs = filter (\<lambda>t. \<not> due s t) (x # xs)"
      using True by (simp cong: filter_cong)
    have "tstate (tmem s' t) = (if t \<in> set (x # xs) \<and> due s t then READY else tstate (tmem s t))" for t
      using s'(3) fields(5) due [of t] True Cons.prems(2) by (cases "t = x") auto
    moreover have "wake_tick (tmem s' t) = wake_tick (tmem s t)" if "\<not> due s t" for t
      using that True s'(9) due [of t] fields(6) [of t] by (cases "t = x") auto
    moreover have "tmem s' t = tmem s t" if "t \<notin> set (x # xs)" "pp \<noteq> Next t" for t
      using that s'(4) fields(7) by auto
    ultimately show ?thesis using st s' fields(1-4) fl by simp
  next
    case False
    have st: "sleep_walk pp s = sleep_walk (Next x) s"
      using g False by (subst sleep_walk.simps) (simp add: due_def)
    have "chain (sleep_nxt s) (link_get (Next x) s) xs" using Cons.prems(1) by (simp add: link_get_def)
    from Cons.IH [OF this] Cons.prems(2) obtain s' where s': "sleep_walk (Next x) s = Some s'"
      "chain (sleep_nxt s') (link_get (Next x) s') (filter (\<lambda>t. \<not> due s t) xs)"
      "\<forall>t. tstate (tmem s' t) = (if t \<in> set xs \<and> due s t then READY else tstate (tmem s t))"
      "\<forall>t. t \<notin> set xs \<longrightarrow> Next x \<noteq> Next t \<longrightarrow> tmem s' t = tmem s t"
      "sleep_head s' = sleep_head s" "jiffies s' = jiffies s"
      "tasks s' = tasks s" "current_task s' = current_task s"
      "\<forall>t. \<not> due s t \<longrightarrow> wake_tick (tmem s' t) = wake_tick (tmem s t)" by auto
    have "link_get pp s' = Some x"
      using g s'(4,5) Cons.prems(3) by (cases pp) (auto simp: link_get_def)
    moreover have "chain (sleep_nxt s') (sleep_next (tmem s' x)) (filter (\<lambda>t. \<not> due s t) xs)"
      using s'(2) by (simp add: link_get_def)
    moreover have "tstate (tmem s' t) = (if t \<in> set (x # xs) \<and> due s t then READY else tstate (tmem s t))" for t
      using s'(3) False Cons.prems(2) by auto
    ultimately show ?thesis using st s' False by simp
  qed
qed

text \<open>A timer tick always gets to the end of the sleep list.  It advances the clock, makes
  ready exactly the sleepers whose time has come, takes exactly those off the list, keeps the
  order and the deadlines of the others, and changes the state of no other task.\<close>

lemma sleep_tick_wakes_due:
  assumes "chain (sleep_nxt s) (sleep_head s) xs" "distinct xs"
  shows "\<exists>s'. sleep_tick s = Some s' \<and> jiffies s' = jiffies s + 1 \<and>
    chain (sleep_nxt s') (sleep_head s') (filter (\<lambda>t. \<not> wake_tick (tmem s t) \<le> jiffies s + 1) xs) \<and>
    (\<forall>t. tstate (tmem s' t) =
       (if t \<in> set xs \<and> wake_tick (tmem s t) \<le> jiffies s + 1 then READY else tstate (tmem s t))) \<and>
    (\<forall>t. \<not> wake_tick (tmem s t) \<le> jiffies s + 1 \<longrightarrow> wake_tick (tmem s' t) = wake_tick (tmem s t))"
  using sleep_walk_spec [of "s\<lparr>jiffies := jiffies s + 1\<rparr>" Head xs] assms
  by (auto simp: sleep_tick_def due_def link_get_def)

theorem sleep_tick_wakes_due_witness:
  "\<exists>s'. sleep_tick (demo_sched\<lparr>sleep_head := Some 2\<rparr>) = Some s' \<and> sleep_head s' = None \<and>
    tstate (tmem s' 2) = READY"
  using sleep_tick_wakes_due [of "demo_sched\<lparr>sleep_head := Some 2\<rparr>" "[2]"]
  by (auto simp: demo_sched_def demo_task_def)

subsection \<open>Table updates\<close>

lemma filter_update_Some:
  "i < length ts \<Longrightarrow> ts ! i = None \<Longrightarrow>
   length (filter (\<lambda>p. p \<noteq> None) (ts[i := Some t])) = Suc (length (filter (\<lambda>p. p \<noteq> None) ts))"
  by (induction ts arbitrary: i) (auto split: nat.splits)

lemma filter_update_None:
  "i < length ts \<Longrightarrow> ts ! i \<noteq> None \<Longrightarrow>
   Suc (length (filter (\<lambda>p. p \<noteq> None) (ts[i := None]))) = length (filter (\<lambda>p. p \<noteq> None) ts)"
  by (induction ts arbitrary: i) (auto split: nat.splits)

lemma slots_inj_add:
  assumes "slots_inj ts" "Some t \<notin> set ts"
  shows "slots_inj (ts[i := Some t])"
  unfolding slots_inj_def
proof (intro allI impI)
  fix j k assume a: "j < length (ts[i := Some t])" "k < length (ts[i := Some t])"
    "ts[i := Some t] ! j \<noteq> None" "ts[i := Some t] ! j = ts[i := Some t] ! k"
  have "ts ! j \<noteq> Some t" "ts ! k \<noteq> Some t" using a(1,2) assms(2) by (metis length_list_update nth_mem)+
  with a assms(1) show "j = k" by (cases "j = i"; cases "k = i") (auto simp: slots_inj_def)
qed

lemma scheduler_add_forked_inv:
  assumes inv: "sched_inv s" and new: "\<And>i. i < MAX_TASKS \<Longrightarrow> tasks s ! i \<noteq> Some t"
    and canary: "stk s (stack_base (tmem s t)) = STACK_CANARY_VALUE"
    and slot: "tid (tmem s t) < of_nat MAX_TASKS" "tasks s ! unat (tid (tmem s t)) = None"
  shows "fst (scheduler_add_forked t s) = uint (tid (tmem s t)) \<and> sched_inv (snd (scheduler_add_forked t s)) \<and>
    ready_slot (snd (scheduler_add_forked t s)) (unat (tid (tmem s t)))"
proof -
  let ?i = "unat (tid (tmem s t))"
  have i: "?i < MAX_TASKS" using slot(1) by (simp add: word_less_nat_alt MAX_TASKS_def)
  have len: "length (tasks s) = MAX_TASKS" using inv by (simp add: sched_inv_def)
  obtain c where "current_task s = Some c" using sched_inv_current [OF inv] by blast
  then have c: "current_task s = Some c" "tasks s ! current_task_index s = Some c" "current_task_index s < MAX_TASKS"
    using inv by (simp_all add: sched_inv_def)
  have cur: "current_task_index s \<noteq> ?i" using c(2) slot(2) by auto
  have "slots_inj (tasks s)" using inv by (simp add: sched_inv_def)
  then have inj: "slots_inj ((tasks s)[?i := Some t])"
    using new by (intro slots_inj_add) (auto simp: in_set_conv_nth len)
  have "idle_ok s" using inv by (simp add: sched_inv_def)
  then obtain z where z: "tasks s ! 0 = Some z" "tstate (tmem s z) = READY \<or> tstate (tmem s z) = RUNNING" "z \<noteq> t"
    using new [of 0] by (auto simp: idle_ok_def MAX_TASKS_def split: option.splits)
  then have i0: "?i \<noteq> 0" using slot(2) by (metis option.distinct(1))
  define s' where "s' = snd (scheduler_add_forked t s)"
  have s': "tasks s' = (tasks s)[?i := Some t]" "task_count s' = task_count s + 1" "stk s' = stk s"
      "current_task s' = current_task s" "current_task_index s' = current_task_index s"
      "tmem s' = (tmem s)(t := (tmem s t)\<lparr>tstate := READY\<rparr>)"
    and rc: "fst (scheduler_add_forked t s) = uint (tid (tmem s t))"
    using slot by (auto simp: s'_def scheduler_add_forked_def Let_def)
  have tk: "stk s' (stack_base (tmem s' u)) = STACK_CANARY_VALUE \<and> (tstate (tmem s' u) = RUNNING \<longrightarrow> current_task s' = Some u)"
    if "j < MAX_TASKS" "tasks s' ! j = Some u" for j u
  proof (cases "j = ?i")
    case True
    then show ?thesis using that canary i len by (simp add: s')
  next
    case False
    then have j: "tasks s ! j = Some u" using that by (simp add: s'(1))
    then have "u \<noteq> t" using new that(1) by blast
    then show ?thesis using sched_inv_tasks [OF inv that(1) j] by (simp add: s')
  qed
  have "sched_inv s'"
  proof (rule sched_invI)
    show "task_count s' = of_nat (length (filter (\<lambda>p. p \<noteq> None) (tasks s')))"
      unfolding s'(1,2) filter_update_Some [OF i [folded len] slot(2)]
      using inv by (simp add: sched_inv_def)
    show "idle_ok s'" using z i0 by (simp add: idle_ok_def s')
    show "current_task s' = Some c" "tasks s' ! current_task_index s' = Some c"
      using c cur by (simp_all add: s')
    show "j < MAX_TASKS \<Longrightarrow> tasks s' ! j = Some u \<Longrightarrow> stk s' (stack_base (tmem s' u)) = STACK_CANARY_VALUE \<and>
        (tstate (tmem s' u) = RUNNING \<longrightarrow> current_task s' = Some u)" for j u by (rule tk)
  qed (use c inj len in \<open>simp_all add: s'(1,5)\<close>)
  moreover have "ready_slot s' ?i" using i len by (simp add: ready_slot_def s')
  ultimately show ?thesis using rc by (simp add: s'_def)
qed

lemma count_pos: "length (filter (\<lambda>p. p \<noteq> None) ts) \<le> MAX_TASKS \<Longrightarrow> i < length ts \<Longrightarrow> ts ! i \<noteq> None \<Longrightarrow>
    (0::u32) < of_nat (length (filter (\<lambda>p. p \<noteq> None) ts))"
proof -
  assume a: "length (filter (\<lambda>p. p \<noteq> None) ts) \<le> MAX_TASKS" "i < length ts" "ts ! i \<noteq> None"
  have "ts ! i \<in> set (filter (\<lambda>p. p \<noteq> None) ts)" using a by simp
  then have "0 < length (filter (\<lambda>p. p \<noteq> None) ts)" by (metis length_pos_if_in_set)
  then show ?thesis using a(1) by (simp add: word_less_nat_alt unat_of_nat MAX_TASKS_def)
qed

lemma scheduler_release_slot_inv:
  assumes inv: "sched_inv s" and i: "i < MAX_TASKS" "i \<noteq> 0" "i \<noteq> current_task_index s" "tasks s ! i \<noteq> None"
  shows "sched_inv (scheduler_release_slot i s) \<and> tasks (scheduler_release_slot i s) = (tasks s)[i := None]"
proof -
  have len: "length (tasks s) = MAX_TASKS" using inv by (simp add: sched_inv_def)
  have eq: "tasks (scheduler_release_slot i s) = (tasks s)[i := None]"
    using i by (simp add: scheduler_release_slot_def)
  have "slots_inj (tasks s)" using inv by (simp add: sched_inv_def)
  then have inj: "slots_inj ((tasks s)[i := None])" using i len by (auto simp: slots_inj_def nth_list_update)
  have idle: "idle_ok (scheduler_release_slot i s)"
    using inv i by (auto simp: sched_inv_def idle_ok_def scheduler_release_slot_def split: option.splits)
  have le: "length (filter (\<lambda>p. p \<noteq> None) (tasks s)) \<le> MAX_TASKS" using len by (metis length_filter_le)
  have cnt: "task_count s = of_nat (length (filter (\<lambda>p. p \<noteq> None) (tasks s)))" using inv by (simp add: sched_inv_def)
  have "task_count (scheduler_release_slot i s) = of_nat (length (filter (\<lambda>p. p \<noteq> None) ((tasks s)[i := None])))"
    using i count_pos [OF le, of i] len filter_update_None [of i "tasks s", symmetric]
    by (simp add: scheduler_release_slot_def cnt)
  then show ?thesis using inv i inj idle len eq
    by (auto simp: sched_inv_def scheduler_release_slot_def nth_list_update split: if_splits)
qed

subsection \<open>The first stack frame\<close>

lemma word_4_inj:
  fixes p :: u32
  assumes "i < 1000" "j < 1000" "p - 4 * of_nat i = p - 4 * of_nat j"
  shows "i = j"
proof -
  have "(of_nat (4 * i) :: u32) = of_nat (4 * j)" using assms(3) by simp
  then have "unat (of_nat (4 * i) :: u32) = unat (of_nat (4 * j) :: u32)" by (simp only:)
  then show ?thesis using assms(1,2) by (simp only: unat_of_nat) (simp add: take_bit_nat_eq_self_iff)
qed

lemma push_words:
  "length ws < 999 \<Longrightarrow> fold push_word ws (p, m) = (q, m') \<Longrightarrow>
   q = p - 4 * of_nat (length ws) \<and> (\<forall>k<length ws. m' (p - 4 * of_nat (Suc k)) = ws ! k) \<and>
   (\<forall>a. (\<forall>k<length ws. a \<noteq> p - 4 * of_nat (Suc k)) \<longrightarrow> m' a = m a)"
proof (induction ws arbitrary: q m' rule: rev_induct)
  case Nil
  then show ?case by simp
next
  case (snoc w ws)
  obtain q1 m1 where f: "fold push_word ws (p, m) = (q1, m1)" by (cases "fold push_word ws (p, m)")
  have IH: "q1 = p - 4 * of_nat (length ws)" "\<forall>k<length ws. m1 (p - 4 * of_nat (Suc k)) = ws ! k"
    "\<forall>a. (\<forall>k<length ws. a \<noteq> p - 4 * of_nat (Suc k)) \<longrightarrow> m1 a = m a"
    using snoc.IH [OF _ f] snoc.prems(1) by auto
  have q: "q1 - 4 = p - 4 * of_nat (Suc (length ws))" by (simp add: IH(1))
  have qm: "q = p - 4 * of_nat (Suc (length ws))" "m' = m1(p - 4 * of_nat (Suc (length ws)) := w)"
  proof -
    have "push_word w (q1, m1) = (q, m')" using snoc.prems(2) f by simp
    then show "q = p - 4 * of_nat (Suc (length ws))" "m' = m1(p - 4 * of_nat (Suc (length ws)) := w)"
      using q by (auto simp: push_word_def simp del: of_nat_Suc)
  qed
  have "m' (p - 4 * of_nat (Suc k)) = (ws @ [w]) ! k" if "k < Suc (length ws)" for k
  proof (cases "k = length ws")
    case True
    then show ?thesis by (simp add: qm)
  next
    case False
    then have k: "k < length ws" using that by simp
    then have "p - 4 * of_nat (Suc k) \<noteq> p - 4 * of_nat (Suc (length ws))"
      using word_4_inj [of "Suc k" "Suc (length ws)" p] snoc.prems(1) by fastforce
    then show ?thesis using IH(2) k by (simp add: qm(2) nth_append del: of_nat_Suc)
  qed
  moreover have "m' a = m a" if "\<forall>k<Suc (length ws). a \<noteq> p - 4 * of_nat (Suc k)" for a
    using that IH(3) by (simp add: qm(2) less_Suc_eq del: of_nat_Suc)
  ultimately show ?case using qm(1) by simp
qed

lemma boot_frame_length: "length (boot_frame tr entry) = 26"
  by (simp add: boot_frame_def)

text \<open>\<open>task_stack_init\<close> on a stack of at least 1024 bytes that does not wrap around the address
  space never panics.  It leaves a 26-word frame below the top of the stack, readable from the
  saved stack pointer in the order the context switch pops it (nine zeroes, the trampoline, the
  SPSR, the padding, R0 to R12, the entry point), the canary at the bottom intact, and the user
  stack pointer 512 bytes below the top.  No other word of memory is written.\<close>

lemma task_stack_init_frame:
  assumes "unat base + unat sz < 2 ^ 32" "1024 \<le> sz"
  shows "\<exists>m. task_stack_init tr task entry base sz s = Inr (upd_task task (\<lambda>t. t\<lparr>
        task_ctx := \<lparr>ctx_sp = base + sz - 104, ctx_sp_usr = base + sz - 512, ctx_lr_usr = entry\<rparr>,
        stack_base := base, stack_size := sz, tstate := READY\<rparr>) (s\<lparr>stk := m\<rparr>)) \<and>
    (\<forall>k<26. m (base + sz - 104 + 4 * of_nat k) = rev (boot_frame tr entry) ! k) \<and> m base = STACK_CANARY_VALUE \<and>
    (\<forall>a. a \<noteq> base \<and> (\<forall>k<26. a \<noteq> base + sz - 4 * of_nat (Suc k)) \<longrightarrow> m a = stk s a)"
proof -
  let ?m0 = "(stk s)(base := STACK_CANARY_VALUE)" and ?fr = "boot_frame tr entry"
  obtain q m where f: "fold push_word ?fr (base + sz, ?m0) = (q, m)"
    by (cases "fold push_word ?fr (base + sz, ?m0)")
  have pw: "q = base + sz - 104" "\<forall>k<26. m (base + sz - 4 * of_nat (Suc k)) = ?fr ! k"
    "\<forall>a. (\<forall>k<26. a \<noteq> base + sz - 4 * of_nat (Suc k)) \<longrightarrow> m a = ?m0 a"
    using push_words [OF _ f] by (auto simp: boot_frame_length)
  have sz: "1024 \<le> unat sz" using assms(2) by (simp add: word_le_nat_alt)
  have top: "unat (base + sz) = unat base + unat sz" using assms(1) by (simp add: unat_add_lem [THEN iffD1])
  have sub: "unat (base + sz - of_nat n) = unat base + unat sz - n" if "n \<le> 1024" for n
  proof -
    have "unat (of_nat n :: u32) = n" using that by (simp add: unat_of_nat take_bit_nat_eq_self)
    moreover from this have "(of_nat n :: u32) \<le> base + sz" using top sz that by (simp add: word_le_nat_alt)
    ultimately show ?thesis using top by (simp add: unat_sub)
  qed
  have gt: "base < base + sz - of_nat n" if "n \<le> 1000" for n
    using sub [of n] that sz by (simp add: word_less_nat_alt)
  have "base \<noteq> base + sz - 4 * of_nat (Suc k)" if "k < 26" for k
  proof -
    have "(of_nat (4 * Suc k) :: u32) = 4 * of_nat (Suc k)" by (simp only: of_nat_mult of_nat_numeral)
    moreover have "4 * Suc k \<le> 1000" using that by simp
    ultimately have "base < base + sz - 4 * of_nat (Suc k)" using gt [of "4 * Suc k"] by (simp only:)
    then show ?thesis by (rule less_imp_neq)
  qed
  then have can: "m base = STACK_CANARY_VALUE" using pw(3) by simp
  have "m (base + sz - 104 + 4 * of_nat k) = rev ?fr ! k" if "k < 26" for k
  proof -
    have "(of_nat (104 - 4 * k) :: u32) = 104 - 4 * of_nat k" using that by (simp add: of_nat_diff)
    moreover have "104 - 4 * k = 4 * Suc (25 - k)" using that by simp
    ultimately have eq: "base + sz - 104 + 4 * of_nat k = base + sz - 4 * of_nat (Suc (25 - k))"
      by (metis (no_types, lifting) diff_add_eq diff_diff_eq2 of_nat_mult of_nat_numeral)
    show ?thesis unfolding eq using pw(2) [rule_format, of "25 - k"] that
      by (simp add: rev_nth boot_frame_length del: of_nat_Suc)
  qed
  moreover have "\<not> base + sz - 104 \<le> base" "\<not> base + sz - KERNEL_STACK_RESERVE \<le> base"
    using gt [of 104] gt [of 512] by (simp_all add: not_le KERNEL_STACK_RESERVE_def)
  moreover have "\<forall>a. a \<noteq> base \<and> (\<forall>k<26. a \<noteq> base + sz - 4 * of_nat (Suc k)) \<longrightarrow> m a = stk s a"
    using pw(3) by simp
  ultimately show ?thesis using f pw(1) can
    by (intro exI [of _ m]) (simp add: task_stack_init_def Let_def KERNEL_STACK_RESERVE_def del: of_nat_Suc)
qed

end
