(* ===== verification/Uart.thy ===== *)
theory Uart
  imports Irq Sched Klibc
begin

section \<open>The console driver (\<open>kernel/src/drivers/uart.c\<close>)\<close>

text \<open>
  The receive ring and its interrupt handler, the blocking transmitter and the console's formatted
  output.  The ring, the wait queue of readers and the scheduler whose tasks the handler wakes are
  fields of \<open>uart_state\<close>, an extension of the interrupt state, so that the handler can be installed in
  the dispatcher.  Waiting for a status bit has no bound in the code: those loops are partial
  functions, and \<open>None\<close> is a loop that never ends.
\<close>

definition UART_RX_BUFFER_SIZE :: nat where [vx_consts]: "UART_RX_BUFFER_SIZE = 256"
definition UART0_BASE :: u32 where [vx_consts]: "UART0_BASE = 0x44E09000"
definition UART0_IRQ :: u32 where [vx_consts]: "UART0_IRQ = 72"
definition CM_PER_UART0_CLKCTRL :: u32 where [vx_consts]: "CM_PER_UART0_CLKCTRL = 0x44E0006C"
definition UART_RHR :: u32 where [vx_consts]: "UART_RHR = 0"
definition UART_THR :: u32 where [vx_consts]: "UART_THR = 0"
definition UART_IER :: u32 where [vx_consts]: "UART_IER = 4"
definition UART_IIR :: u32 where [vx_consts]: "UART_IIR = 8"
definition UART_FCR :: u32 where [vx_consts]: "UART_FCR = 8"
definition UART_LCR :: u32 where [vx_consts]: "UART_LCR = 0xC"
definition UART_LSR :: u32 where [vx_consts]: "UART_LSR = 0x14"
definition UART_SCR :: u32 where [vx_consts]: "UART_SCR = 0x40"
definition IER_RHR_IT :: u32 where [vx_consts]: "IER_RHR_IT = 1"
definition IIR_IT_PENDING :: u32 where [vx_consts]: "IIR_IT_PENDING = 1"
definition IIR_IT_TYPE_MASK :: u32 where [vx_consts]: "IIR_IT_TYPE_MASK = 0x3E"
definition LSR_DR :: u32 where [vx_consts]: "LSR_DR = 1"
definition LSR_THRE :: u32 where [vx_consts]: "LSR_THRE = 0x20"
definition LSR_ERROR_MASK :: u32 where [vx_consts]: "LSR_ERROR_MASK = 0x1E"

record 'w uart_state = "'w irq_state" +
  rb_data :: "u8 list"
  rb_head :: u32
  rb_tail :: u32
  rb_overflow :: u32
  uart_irq_fire_count :: u32
  uart_rx_wq :: wait_queue
  usc :: sched

subsection \<open>The receive ring\<close>

definition uart_init :: "('w, 'a) uart_state_scheme \<Rightarrow> ('w, 'a) uart_state_scheme" where
  "uart_init s = s\<lparr>rb_head := 0, rb_tail := 0, rb_overflow := 0\<rparr>"

text \<open>Storing a received byte, and waking a reader when it was stored.\<close>

definition rx_store :: "u8 \<Rightarrow> ('w, 'a) uart_state_scheme \<Rightarrow> ('w, 'a) uart_state_scheme" where
  "rx_store ch s =
     (let next_head = (rb_head s + 1) mod of_nat UART_RX_BUFFER_SIZE in
      if next_head = rb_tail s then s\<lparr>rb_overflow := rb_overflow s + 1\<rparr>
      else let (wq, sc') = wake_up (uart_rx_wq s) (usc s) in
        s\<lparr>rb_data := (rb_data s)[unat (rb_head s) := ch], rb_head := next_head, uart_rx_wq := wq, usc := sc'\<rparr>)"

definition uart_read_reg :: "'w bus \<Rightarrow> u32 \<Rightarrow> ('w, 'a) uart_state_scheme \<Rightarrow> u32 \<times> ('w, 'a) uart_state_scheme" where
  "uart_read_reg B r s = (case mmio_read32 B (UART0_BASE + r) (ihw s) of (v, w) \<Rightarrow> (v, s\<lparr>ihw := w\<rparr>))"

partial_function (option) rx_drain :: "'w bus \<Rightarrow> ('w, 'a) uart_state_scheme \<Rightarrow> ('w, 'a) uart_state_scheme option" where
  "rx_drain B s =
     (case uart_read_reg B UART_LSR s of (lsr, s1) \<Rightarrow>
        if lsr AND LSR_ERROR_MASK \<noteq> 0 then rx_drain B (snd (uart_read_reg B UART_RHR s1))
        else if lsr AND LSR_DR = 0 then Some s1
        else (case uart_read_reg B UART_RHR s1 of (ch, s2) \<Rightarrow> rx_drain B (rx_store (ucast (ch AND 0xFF)) s2)))"

definition uart_rx_irq_handler :: "'w bus \<Rightarrow> ('w, 'a) uart_state_scheme \<Rightarrow> ('w, 'a) uart_state_scheme option" where
  "uart_rx_irq_handler B s0 =
     (case uart_read_reg B UART_IIR (s0\<lparr>uart_irq_fire_count := uart_irq_fire_count s0 + 1\<rparr>) of (iir, s1) \<Rightarrow>
        if iir AND IIR_IT_PENDING \<noteq> 0 then Some s1
        else if drop_bit 1 (iir AND IIR_IT_TYPE_MASK) = 6
        then (case uart_read_reg B UART_LSR s1 of (lsr, s2) \<Rightarrow>
               if lsr AND LSR_DR = 0 then Some s2 else rx_drain B s2)
        else rx_drain B s1)"

definition uart_getc :: "('w, 'a) uart_state_scheme \<Rightarrow> int \<times> ('w, 'a) uart_state_scheme" where
  "uart_getc s =
     (if rb_head s = rb_tail s then (- 1, s)
      else (uint (rb_data s ! unat (rb_tail s)), s\<lparr>rb_tail := (rb_tail s + 1) mod of_nat UART_RX_BUFFER_SIZE\<rparr>))"

definition uart_rx_available :: "('w, 'a) uart_state_scheme \<Rightarrow> int" where
  "uart_rx_available s =
     (if rb_head s \<ge> rb_tail s then sint (rb_head s - rb_tail s)
      else sint (of_nat UART_RX_BUFFER_SIZE - rb_tail s + rb_head s))"

definition uart_rx_clear :: "('w, 'a) uart_state_scheme \<Rightarrow> ('w, 'a) uart_state_scheme" where
  "uart_rx_clear s = s\<lparr>rb_head := 0, rb_tail := 0\<rparr>"

definition uart_get_irq_fire_count :: "('w, 'a) uart_state_scheme \<Rightarrow> u32" where
  "uart_get_irq_fire_count s = uart_irq_fire_count s"

text \<open>The clock wait of \<open>uart_enable_rx_interrupt\<close>; the delay loop has no effect.\<close>

partial_function (option) clock_wait :: "'w bus \<Rightarrow> 'w \<Rightarrow> 'w option" where
  "clock_wait B w = (case mmio_read32 B CM_PER_UART0_CLKCTRL w of (v, w') \<Rightarrow>
     if v AND 0x30000 \<noteq> 0 then clock_wait B w' else Some w')"

text \<open>\<open>h\<close> stands for the address of \<open>uart_rx_irq_handler\<close>.\<close>

definition uart_enable_rx_interrupt :: "'w bus \<Rightarrow> nat \<Rightarrow> ('w, 'a) uart_state_scheme \<Rightarrow> ('w, 'a) uart_state_scheme option" where
  "uart_enable_rx_interrupt B h s =
     map_option (\<lambda>w. case mmio_read32 B (UART0_BASE + UART_LCR) w of (lcr_save, w1) \<Rightarrow>
        let w2 = bus_writes B [(UART0_BASE + UART_LCR, lcr_save AND 0x7F), (UART0_BASE + UART_IER, 0),
              (UART0_BASE + UART_FCR, 7), (UART0_BASE + UART_SCR, 0xC0), (UART0_BASE + UART_LCR, lcr_save),
              (UART0_BASE + UART_IER, IER_RHR_IT)] w1
        in case irq_register_handler UART0_IRQ (Some h) None (s\<lparr>ihw := w2\<rparr>) of (ret, s1) \<Rightarrow>
          if ret \<noteq> 0 then s1 else s1\<lparr>ihw := intc_enable_irq B UART0_IRQ (ihw s1)\<rparr>)
       (clock_wait B (mmio_write32 B CM_PER_UART0_CLKCTRL 2 (ihw s)))"

subsection \<open>Transmission\<close>

partial_function (option) thr_wait :: "'w bus \<Rightarrow> 'w \<Rightarrow> 'w option" where
  "thr_wait B w = (case mmio_read32 B (UART0_BASE + UART_LSR) w of (v, w') \<Rightarrow>
     if v AND LSR_THRE = 0 then thr_wait B w' else Some w')"

definition uart_putc :: "'w bus \<Rightarrow> u8 \<Rightarrow> 'w \<Rightarrow> 'w option" where
  "uart_putc B c w = map_option (mmio_write32 B (UART0_BASE + UART_THR) (ucast c)) (thr_wait B w)"

fun putc_all :: "'w bus \<Rightarrow> u8 list \<Rightarrow> 'w \<Rightarrow> 'w option" where
  "putc_all B [] w = Some w"
| "putc_all B (c # cs) w = (case uart_putc B c w of None \<Rightarrow> None | Some w' \<Rightarrow> putc_all B cs w')"

fun uart_puts :: "'w bus \<Rightarrow> cstring \<Rightarrow> 'w \<Rightarrow> 'w option" where
  "uart_puts B [] w = Some w"
| "uart_puts B (c # s) w =
     (case putc_all B (if c = 10 then [13, c] else [c]) w of None \<Rightarrow> None | Some w' \<Rightarrow> uart_puts B s w')"

text \<open>\<open>simple_udivmod\<close>: \<open>k\<close> rounds are left, the next one is for bit \<open>k - 1\<close>.\<close>

fun udivmod_loop :: "u32 \<Rightarrow> u32 \<Rightarrow> nat \<Rightarrow> u32 \<Rightarrow> u32 \<Rightarrow> u32 \<times> u32" where
  "udivmod_loop n d 0 q r = (q, r)"
| "udivmod_loop n d (Suc i) q r =
     (let r1 = push_bit 1 r OR (drop_bit i n AND 1) in
      if r1 \<ge> d then udivmod_loop n d i (q OR push_bit i 1) (r1 - d) else udivmod_loop n d i q r1)"

definition simple_udivmod :: "u32 \<Rightarrow> u32 \<Rightarrow> u32 \<times> u32" where
  "simple_udivmod n d = (if d = 0 then (0, 0) else udivmod_loop n d 32 0 0)"

text \<open>The digits of \<open>print_uint\<close>, last one first, into the \<open>k\<close> free slots of its buffer.\<close>

fun print_rev :: "nat \<Rightarrow> u32 \<Rightarrow> u32 \<Rightarrow> fault + u8 list" where
  "print_rev 0 base num = (if num = 0 then Inr [] else Inl OutOfBounds)"
| "print_rev (Suc k) base num =
     (if num = 0 then Inr []
      else case simple_udivmod num base of (q, r) \<Rightarrow>
        if unat r < 16 then fbind (print_rev k base q) (\<lambda>ds. Inr (cstr ''0123456789abcdef'' ! unat r # ds))
        else Inl OutOfBounds)"

definition print_uint :: "u32 \<Rightarrow> u32 \<Rightarrow> fault + u8 list" where
  "print_uint num base = (if num = 0 then Inr [48] else fbind (print_rev 32 base num) (\<lambda>ds. Inr (rev ds)))"

definition crlf :: "cstring \<Rightarrow> u8 list" where
  "crlf s = concat (map (\<lambda>c. if c = 10 then [13, c] else [c]) s)"

text \<open>The field after \<open>%\<close>: a width is read only behind a zero, and is not used.\<close>

definition skip_width :: "cstring \<Rightarrow> cstring" where
  "skip_width p = (case p of c # p' \<Rightarrow> if c = 48 then dropWhile (\<lambda>c. 48 \<le> c \<and> c \<le> 57) p' else p | [] \<Rightarrow> p)"

definition print_conv :: "u8 \<Rightarrow> fmt_arg list \<Rightarrow> fault + u8 list \<times> fmt_arg list" where
  "print_conv c ap =
     (if c = 100 \<or> c = 117 then let (v, r) = va_int ap in fbind (print_uint v 10) (\<lambda>t. Inr (t, r))
      else if c = 120 \<or> c = 88 then let (v, r) = va_int ap in fbind (print_uint v 16) (\<lambda>t. Inr (t, r))
      else if c = 115 then let (s, r) = va_str ap in
        Inr (crlf (case s of Some s \<Rightarrow> s | None \<Rightarrow> cstr ''(null)''), r)
      else if c = 99 then let (v, r) = va_int ap in Inr ([ucast v], r)
      else if c = 37 then Inr ([37], ap)
      else Inr ([37, c], ap))"

lemma skip_width_length: "length (skip_width p) \<le> length p"
  by (auto simp: skip_width_def split: list.splits intro: le_trans [OF length_dropWhile_le])

text \<open>The bytes that \<open>uart_printf\<close> sends.  A format that ends inside a field makes the loop step over
  the terminating NUL.\<close>

function printf_text :: "cstring \<Rightarrow> fmt_arg list \<Rightarrow> fault + u8 list" where
  "printf_text [] ap = Inr []"
| "printf_text (c # p) ap =
     (if c \<noteq> 37 then fbind (printf_text p ap) (\<lambda>t. Inr ((if c = 10 then [13, c] else [c]) @ t))
      else case skip_width p of
        [] \<Rightarrow> Inl OutOfBounds
      | d # p' \<Rightarrow> fbind (print_conv d ap) (\<lambda>(t, ap'). fbind (printf_text p' ap') (\<lambda>t'. Inr (t @ t'))))"
  by pat_completeness auto
termination
proof (relation "measure (length \<circ> fst)")
  fix c :: u8 and p p' :: cstring and d and ap ap' :: "fmt_arg list"
  assume "skip_width p = d # p'"
  then have "length p' < length (c # p)" using skip_width_length [of p] by simp
  then show "((p', ap'), c # p, ap) \<in> measure (length \<circ> fst)" by simp
qed auto

definition uart_printf :: "'w bus \<Rightarrow> cstring \<Rightarrow> fmt_arg list \<Rightarrow> 'w \<Rightarrow> (fault + 'w) option" where
  "uart_printf B fmt ap w = (case printf_text fmt ap of Inl e \<Rightarrow> Some (Inl e) | Inr t \<Rightarrow> map_option Inr (putc_all B t w))"

subsection \<open>The ring as a bounded queue\<close>

definition ring_inv :: "('w, 'a) uart_state_scheme \<Rightarrow> bool" where
  "ring_inv s \<longleftrightarrow> length (rb_data s) = 256 \<and> rb_head s < 256 \<and> rb_tail s < 256"

definition ring_count :: "('w, 'a) uart_state_scheme \<Rightarrow> nat" where
  "ring_count s = (unat (rb_head s) + 256 - unat (rb_tail s)) mod 256"

definition ring_bytes :: "('w, 'a) uart_state_scheme \<Rightarrow> u8 list" where
  "ring_bytes s = map (\<lambda>k. rb_data s ! ((unat (rb_tail s) + k) mod 256)) [0..<ring_count s]"

text \<open>Any interleaving of arrivals and reads: \<open>ops\<close> are the arrivals (\<open>Some\<close>) and reads (\<open>None\<close>) in
  order.  The result has the bytes that were stored and the bytes that were read.\<close>

fun queue_run :: "('s \<Rightarrow> u8 list) \<Rightarrow> nat \<Rightarrow> (u8 \<Rightarrow> 's \<Rightarrow> 's) \<Rightarrow> ('s \<Rightarrow> int \<times> 's) \<Rightarrow> u8 option list \<Rightarrow> 's \<Rightarrow> u8 list \<times> int list \<times> 's" where
  "queue_run q cap push pop [] s = ([], [], s)"
| "queue_run q cap push pop (Some c # ops) s =
     (case queue_run q cap push pop ops (push c s) of (st, rd, s') \<Rightarrow> (if length (q s) < cap then c # st else st, rd, s'))"
| "queue_run q cap push pop (None # ops) s =
     (case queue_run q cap push pop ops (snd (pop s)) of (st, rd, s') \<Rightarrow> (st, if q s = [] then rd else fst (pop s) # rd, s'))"

text \<open>What the readers and the interrupt handler rely on.\<close>

locale byte_queue =
  fixes inv :: "'s \<Rightarrow> bool" and q :: "'s \<Rightarrow> u8 list" and cap :: nat
    and push :: "u8 \<Rightarrow> 's \<Rightarrow> 's" and pop :: "'s \<Rightarrow> int \<times> 's"
  assumes push_inv: "inv s \<Longrightarrow> inv (push c s)"
    and push_q: "inv s \<Longrightarrow> q (push c s) = (if length (q s) < cap then q s @ [c] else q s)"
    and pop_inv: "inv s \<Longrightarrow> inv (snd (pop s))"
    and pop_empty: "inv s \<Longrightarrow> q s = [] \<Longrightarrow> pop s = (- 1, s)"
    and pop_q: "inv s \<Longrightarrow> q s = c # cs \<Longrightarrow> fst (pop s) = uint c \<and> q (snd (pop s)) = cs"
begin

lemma run_fifo: "inv s \<Longrightarrow> queue_run q cap push pop ops s = (st, rd, s') \<Longrightarrow> inv s' \<and> map uint (q s @ st) = rd @ map uint (q s')"
proof (induction ops arbitrary: s st rd)
  case (Cons x ops)
  show ?case
  proof (cases x)
    case (Some c)
    obtain st1 where r: "queue_run q cap push pop ops (push c s) = (st1, rd, s')" "st = (if length (q s) < cap then c # st1 else st1)"
      using Cons(3) Some by (auto split: prod.splits)
    then show ?thesis using Cons(1) [OF push_inv [OF Cons(2)] r(1)] push_q [OF Cons(2), of c] by (auto split: if_splits)
  next
    case None
    obtain rd1 where r: "queue_run q cap push pop ops (snd (pop s)) = (st, rd1, s')" "rd = (if q s = [] then rd1 else fst (pop s) # rd1)"
      using Cons(3) None by (auto split: prod.splits)
    then have ih: "inv s' \<and> map uint (q (snd (pop s)) @ st) = rd1 @ map uint (q s')" using Cons(1) [OF pop_inv [OF Cons(2)]] by blast
    show ?thesis
    proof (cases "q s")
      case Nil
      then show ?thesis using ih r(2) pop_empty [OF Cons(2)] by simp
    next
      case (Cons c cs)
      then show ?thesis using ih r(2) pop_q [OF \<open>inv s\<close> Cons] by simp
    qed
  qed
qed simp

end

lemma unat_mod256: "unat ((a :: u32) mod 256) = unat a mod 256"
  using unat_mod_distrib [of a 256] by simp

lemma ring_pos:
  assumes "h < 256" "t < 256" "n = (h + 256 - t) mod (256 :: nat)"
  shows "(t + n) mod 256 = h" "\<And>k. k < n \<Longrightarrow> (t + k) mod 256 \<noteq> h" "n = 255 \<longleftrightarrow> (h + 1) mod 256 = t"
    "n = 0 \<longleftrightarrow> h = t" "n \<le> 255"
    "n < 255 \<Longrightarrow> ((h + 1) mod 256 + 256 - t) mod 256 = n + 1"
    "0 < n \<Longrightarrow> (h + 256 - (t + 1) mod 256) mod 256 = n - 1"
proof -
  have n: "n = (if t \<le> h then h - t else h + 256 - t)"
    using assms by (auto simp: mod_if)
  have m: "(x :: nat) mod 256 = (if x < 256 then x else x - 256)" if "x < 512" for x
    using that by (simp add: mod_if)
  show "(t + n) mod 256 = h" "n = 255 \<longleftrightarrow> (h + 1) mod 256 = t" "n = 0 \<longleftrightarrow> h = t" "n \<le> 255"
    "n < 255 \<Longrightarrow> ((h + 1) mod 256 + 256 - t) mod 256 = n + 1"
    "0 < n \<Longrightarrow> (h + 256 - (t + 1) mod 256) mod 256 = n - 1"
    using assms(1,2) n by (auto simp: m split: if_splits)
  show "(t + k) mod 256 \<noteq> h" if "k < n" for k
    using assms(1,2) n that m [of "t + k"] by (auto split: if_splits)
qed

lemma ring_bytes_Cons:
  assumes "ring_inv s" "0 < ring_count s"
  shows "ring_bytes s = rb_data s ! unat (rb_tail s) # map (\<lambda>k. rb_data s ! ((unat (rb_tail s) + 1 + k) mod 256)) [0..<ring_count s - 1]"
proof -
  have "unat (rb_tail s) < 256" using assms(1) by (simp add: ring_inv_def word_less_nat_alt)
  moreover have "[0..<ring_count s] = 0 # map Suc [0..<ring_count s - 1]"
    using assms(2) by (simp add: map_Suc_upt upt_conv_Cons)
  ultimately show ?thesis by (simp add: ring_bytes_def)
qed

lemma rx_store_ring:
  assumes "ring_inv s"
  shows "ring_inv (rx_store c s)" and "ring_bytes (rx_store c s) = (if length (ring_bytes s) < 255 then ring_bytes s @ [c] else ring_bytes s)"
proof -
  let ?h = "unat (rb_head s)" and ?t = "unat (rb_tail s)" and ?n = "ring_count s"
  have b: "length (rb_data s) = 256" "?h < 256" "?t < 256" using assms by (simp_all add: ring_inv_def word_less_nat_alt)
  note pos = ring_pos [OF b(2,3) ring_count_def [of s]]
  have h1: "unat ((rb_head s + 1) mod 256) = (?h + 1) mod 256"
    using b(2) by (simp add: unat_mod256 unat_word_ariths(1))
  have full: "(rb_head s + 1) mod 256 = rb_tail s \<longleftrightarrow> ?n = 255"
    using h1 pos(3) by (simp add: word_unat_eq_iff)
  obtain wq sc' where w: "wake_up (uart_rx_wq s) (usc s) = (wq, sc')" by fastforce
  define s' where "s' = s\<lparr>rb_data := (rb_data s)[?h := c], rb_head := (rb_head s + 1) mod 256, uart_rx_wq := wq, usc := sc'\<rparr>"
  show "ring_inv (rx_store c s)"
  proof (cases "?n = 255")
    case True
    then show ?thesis using assms full by (simp add: rx_store_def UART_RX_BUFFER_SIZE_def ring_inv_def)
  next
    case False
    have "(rb_head s + 1) mod 256 < 256" using h1 by (simp add: word_less_nat_alt)
    then show ?thesis using assms False full w by (simp add: rx_store_def UART_RX_BUFFER_SIZE_def ring_inv_def)
  qed
  show "ring_bytes (rx_store c s) = (if length (ring_bytes s) < 255 then ring_bytes s @ [c] else ring_bytes s)"
  proof (cases "?n = 255")
    case True
    then show ?thesis using full by (simp add: rx_store_def UART_RX_BUFFER_SIZE_def ring_bytes_def ring_count_def)
  next
    case False
    then have n: "?n < 255" using pos(5) by simp
    have r: "rx_store c s = s'" using False full w by (simp add: rx_store_def UART_RX_BUFFER_SIZE_def s'_def)
    have n': "ring_count s' = ?n + 1" using pos(6) [OF n] h1 by (simp add: ring_count_def s'_def)
    have "map (\<lambda>k. rb_data s' ! ((?t + k) mod 256)) [0..<?n] = ring_bytes s"
      unfolding ring_bytes_def by (rule map_cong) (use not_sym [OF pos(2)] in \<open>auto simp: s'_def\<close>)
    moreover have "rb_data s' ! ((?t + ?n) mod 256) = c" using pos(1) b by (simp add: s'_def)
    moreover have "unat (rb_tail s') = ?t" by (simp add: s'_def)
    ultimately show ?thesis using n by (simp add: r ring_bytes_def [of s'] n') (simp add: ring_bytes_def)
  qed
qed

lemma uart_getc_ring:
  assumes "ring_inv s"
  shows "ring_inv (snd (uart_getc s))" and "ring_bytes s = [] \<Longrightarrow> uart_getc s = (- 1, s)"
    and "ring_bytes s = c # cs \<Longrightarrow> fst (uart_getc s) = uint c \<and> ring_bytes (snd (uart_getc s)) = cs"
proof -
  let ?h = "unat (rb_head s)" and ?t = "unat (rb_tail s)" and ?n = "ring_count s"
  have b: "length (rb_data s) = 256" "?h < 256" "?t < 256" using assms by (simp_all add: ring_inv_def word_less_nat_alt)
  note pos = ring_pos [OF b(2,3) ring_count_def [of s]]
  have t1: "unat ((rb_tail s + 1) mod 256) = (?t + 1) mod 256"
    using b(3) by (simp add: unat_mod256 unat_word_ariths(1))
  have e: "rb_head s = rb_tail s \<longleftrightarrow> ?n = 0" using pos(4) by (simp add: word_unat_eq_iff)
  have l: "length (ring_bytes s) = ?n" by (simp add: ring_bytes_def)
  have "(rb_tail s + 1) mod 256 < 256" using t1 by (simp add: word_less_nat_alt)
  then show "ring_inv (snd (uart_getc s))" using assms by (simp add: uart_getc_def ring_inv_def UART_RX_BUFFER_SIZE_def)
  show "uart_getc s = (- 1, s)" if "ring_bytes s = []" using that l e by (simp add: uart_getc_def)
  show "fst (uart_getc s) = uint c \<and> ring_bytes (snd (uart_getc s)) = cs" if "ring_bytes s = c # cs"
  proof -
    have n: "0 < ?n" using that l by (metis length_greater_0_conv list.discI)
    let ?s = "s\<lparr>rb_tail := (rb_tail s + 1) mod 256\<rparr>"
    have g: "uart_getc s = (uint (rb_data s ! ?t), ?s)" using n e by (simp add: uart_getc_def UART_RX_BUFFER_SIZE_def)
    have "ring_count ?s = ?n - 1" using pos(7) [OF n] t1 by (simp add: ring_count_def)
    then have "ring_bytes ?s = map (\<lambda>k. rb_data s ! ((?t + 1 + k) mod 256)) [0..<?n - 1]"
      by (simp add: ring_bytes_def t1 mod_add_left_eq)
    then show ?thesis using ring_bytes_Cons [OF assms n] that g by simp
  qed
qed

interpretation ring: byte_queue ring_inv ring_bytes 255 rx_store uart_getc
  by unfold_locales (fact rx_store_ring uart_getc_ring)+

lemma uart_rx_available_ring: "ring_inv s \<Longrightarrow> uart_rx_available s = int (length (ring_bytes s))"
proof -
  assume "ring_inv s"
  then have b: "unat (rb_head s) < 256" "unat (rb_tail s) < 256" by (simp_all add: ring_inv_def word_less_nat_alt)
  define v where "v = (if rb_head s \<ge> rb_tail s then rb_head s - rb_tail s else 256 - rb_tail s + rb_head s)"
  have "unat v = ring_count s"
  proof (cases "rb_head s \<ge> rb_tail s")
    case True
    then have "unat (rb_tail s) \<le> unat (rb_head s)" by (simp add: word_le_nat_alt)
    then show ?thesis using True b by (simp add: v_def unat_sub ring_count_def mod_if)
  next
    case False
    then have l: "unat (rb_head s) < unat (rb_tail s)" by (simp add: word_le_nat_alt)
    have "rb_tail s \<le> 256" using b(2) by (simp add: word_le_nat_alt)
    then have "unat (256 - rb_tail s + rb_head s) = 256 - unat (rb_tail s) + unat (rb_head s)"
      using b by (simp add: unat_word_ariths(1) unat_sub)
    then show ?thesis using False l b by (simp add: v_def ring_count_def mod_if add.commute)
  qed
  moreover have "ring_count s < 256" by (simp add: ring_count_def)
  ultimately have "sint v = int (ring_count s)"
    by (simp add: sint_uint signed_take_bit_eq_if_positive uint_nat bit_uint_iff bit_iff_odd take_bit_int_eq_self)
  moreover have "uart_rx_available s = sint v"
    by (simp add: uart_rx_available_def v_def UART_RX_BUFFER_SIZE_def)
  ultimately show ?thesis by (simp add: ring_bytes_def)
qed

text \<open>C36: whatever the order in which bytes arrive and readers call \<open>uart_getc\<close>, the readers get exactly
  the stored bytes, in the order of their arrival, and what they have not yet got is in the ring.  A
  byte is stored whenever fewer than 255 wait, and \<open>uart_rx_available\<close> tells how many do.\<close>

theorem uart_ring_fifo:
  assumes "ring_inv s" "queue_run ring_bytes 255 rx_store uart_getc ops s = (stored, got, s')"
  shows "ring_inv s' \<and> map uint (ring_bytes s @ stored) = got @ map uint (ring_bytes s') \<and>
    uart_rx_available s' = int (length (ring_bytes s'))"
  using ring.run_fifo [OF assms] uart_rx_available_ring by blast

subsection \<open>Division by shifting\<close>

lemma mod_div_double:
  fixes n d :: nat
  assumes "0 < d" "b < 2" "r = 2 * (n mod d) + b"
  shows "(2 * n + b) div d = 2 * (n div d) + (if d \<le> r then 1 else 0)" "(2 * n + b) mod d = (if d \<le> r then r - d else r)"
proof -
  have "2 * n + b = 2 * (n div d * d) + r" using assms(3) div_mult_mod_eq [of n d] by linarith
  then have e: "2 * n + b = 2 * (n div d) * d + r" by (simp only: mult.assoc)
  have "r < 2 * d" using assms mod_less_divisor [of d n] by linarith
  then have "r div d = (if d \<le> r then 1 else 0)" "r mod d = (if d \<le> r then r - d else r)"
    using assms(1) by (auto simp: div_if mod_if)
  then show "(2 * n + b) div d = 2 * (n div d) + (if d \<le> r then 1 else 0)" "(2 * n + b) mod d = (if d \<le> r then r - d else r)"
    unfolding e using assms(1) by simp_all
qed

lemma shift_in_bit:
  fixes r n :: u32
  assumes "2 * unat r + 1 < 2 ^ 32"
  shows "unat (push_bit 1 r OR (drop_bit i n AND 1)) = 2 * unat r + unat n div 2 ^ i mod 2"
proof -
  have d: "push_bit 1 r AND (drop_bit i n AND 1) = 0"
    by (rule bit_word_eqI) (simp only: bit_and_iff bit_push_bit_iff bit_1_iff, auto)
  have "drop_bit i n AND 1 = take_bit 1 (drop_bit i n)" by (simp add: take_bit_eq_mask)
  then have b: "unat (drop_bit i n AND 1) = unat n div 2 ^ i mod 2"
    by (simp only: unsigned_take_bit_eq unat_drop_bit_eq) (simp add: take_bit_eq_mod drop_bit_eq_div)
  have "unat (push_bit 1 r) = 2 * unat r"
    using assms by (simp add: push_bit_eq_mult unat_word_ariths(2))
  then have "unat (push_bit 1 r + (drop_bit i n AND 1)) = 2 * unat r + unat n div 2 ^ i mod 2"
    using assms b by (simp only: unat_word_ariths(1)) simp
  then show ?thesis by (simp only: disjunctive_add_eq_or [OF d])
qed

lemma set_quotient_bit:
  fixes q :: u32
  assumes "unat q = a * 2 ^ Suc i" "i < 32"
  shows "unat (q OR push_bit i 1) = a * 2 ^ Suc i + 2 ^ i"
proof -
  have "2 ^ Suc i dvd unat q" using assms(1) by simp
  then have "take_bit (Suc i) (unat q) = 0" by (simp add: take_bit_eq_0_iff)
  then have "\<not> bit (take_bit (Suc i) (unat q)) j" for j by simp
  then have z: "\<not> bit q j" if "j < Suc i" for j
    using that by (auto simp: bit_take_bit_iff bit_unsigned_iff)
  have d: "q AND push_bit i 1 = 0" by (rule bit_word_eqI) (use z in \<open>auto simp: bit_simps\<close>)
  have p: "unat (push_bit i 1 :: u32) = 2 ^ i" 
  proof -
    have "unat (push_bit i 1 :: u32) = take_bit 32 (push_bit i (unat (1 :: u32)))" by (simp only: unsigned_push_bit_eq) simp
    also have "\<dots> = 2 ^ i" using assms(2) by (simp add: push_bit_eq_mult take_bit_nat_eq_self)
    finally show ?thesis .
  qed
  have "unat q + 2 ^ i < 2 ^ 32"
  proof -
    have "unat q < 2 ^ 32" using unsigned_less [of q] by simp
    moreover obtain c where c: "(2 :: nat) ^ 32 = c * 2 ^ Suc i"
      using assms(2) by (metis Suc_leI le_imp_power_dvd dvdE mult.commute)
    ultimately have "a * 2 ^ Suc i < c * 2 ^ Suc i" using assms(1) by (simp only:)
    then have "a < c" by (simp only: mult_less_cancel2)
    then have "(a + 1) * 2 ^ Suc i \<le> 2 ^ 32" unfolding c by (intro mult_le_mono1) simp
    then have "a * 2 ^ Suc i + 2 ^ Suc i \<le> 2 ^ 32" by (simp only: distrib_right mult_1)
    moreover have "(2 :: nat) ^ i < 2 ^ Suc i" by simp
    ultimately show ?thesis using assms(1) by linarith
  qed
  then have "unat (q + push_bit i 1) = a * 2 ^ Suc i + 2 ^ i"
    using p assms(1) by (simp only: unat_word_ariths(1)) simp
  then show ?thesis by (simp only: disjunctive_add_eq_or [OF d])
qed

lemma udivmod_loop_correct:
  assumes "0 < d" "k \<le> 32" "unat r = unat n div 2 ^ k mod unat d" "unat q = unat n div 2 ^ k div unat d * 2 ^ k"
    and "udivmod_loop n d k q r = (q', r')"
  shows "unat q' = unat n div unat d \<and> unat r' = unat n mod unat d"
  using assms(2-)
proof (induction k arbitrary: q r)
  case (Suc i)
  let ?N = "unat n div 2 ^ Suc i" and ?D = "unat d"
  let ?b = "unat n div 2 ^ i mod 2" and ?r1 = "push_bit 1 r OR (drop_bit i n AND 1)"
  have d: "0 < ?D" using assms(1) by (simp add: word_less_nat_alt)
  have N: "unat n div 2 ^ i = 2 * ?N + ?b"
    using div_mult2_eq [of "unat n" "2 ^ i" 2] div_mult_mod_eq [of "unat n div 2 ^ i" 2] by (simp add: mult.commute)
  have "?N < 2 ^ 31"
  proof -
    have "unat n < 2 ^ 32" using unsigned_less [of n] by simp
    also have "(2 :: nat) ^ 32 \<le> 2 ^ 31 * 2 ^ Suc i" by simp
    finally show ?thesis by (simp add: less_mult_imp_div_less)
  qed
  moreover have "unat r \<le> ?N" using Suc(3) by (metis mod_less_eq_dividend)
  ultimately have "2 * unat r + 1 < 2 ^ 32" by simp
  then have r1: "unat ?r1 = 2 * (?N mod ?D) + ?b" by (simp only: shift_in_bit Suc(3))
  note step = mod_div_double [OF d, of ?b _ ?N, OF _ r1, folded N]
  have i: "i \<le> 32" "i < 32" using Suc(2) by simp_all
  show ?case
  proof (cases "d \<le> ?r1")
    case True
    then have le: "?D \<le> unat ?r1" by (simp add: word_le_nat_alt)
    have "unat (?r1 - d) = unat n div 2 ^ i mod ?D" using True le step(2) by (simp add: unat_sub)
    moreover have "unat (q OR push_bit i 1) = unat n div 2 ^ i div ?D * 2 ^ i"
      using set_quotient_bit [OF Suc(4) i(2)] step(1) le by (simp add: algebra_simps)
    moreover have "udivmod_loop n d i (q OR push_bit i 1) (?r1 - d) = (q', r')" using Suc(5) True by (simp add: Let_def)
    ultimately show ?thesis using Suc(1) [OF i(1)] by blast
  next
    case False
    then have le: "\<not> ?D \<le> unat ?r1" by (simp add: word_le_nat_alt)
    have "unat ?r1 = unat n div 2 ^ i mod ?D" using le step(2) by simp
    moreover have "unat q = unat n div 2 ^ i div ?D * 2 ^ i" using Suc(4) step(1) le by (simp add: algebra_simps)
    moreover have "udivmod_loop n d i q ?r1 = (q', r')" using Suc(5) False by (simp add: Let_def)
    ultimately show ?thesis using Suc(1) [OF i(1)] by blast
  qed
qed simp

lemma simple_udivmod_correct: "d \<noteq> 0 \<Longrightarrow> simple_udivmod n d = (n div d, n mod d)"
proof -
  assume d: "d \<noteq> 0"
  obtain q r where u: "udivmod_loop n d 32 0 0 = (q, r)" by fastforce
  have "unat n < 2 ^ 32" using unsigned_less [of n] by simp
  then have z: "unat n div 2 ^ 32 = 0" by simp
  have "unat q = unat n div unat d \<and> unat r = unat n mod unat d"
    by (rule udivmod_loop_correct [OF _ _ _ _ u]) (use d z in \<open>simp_all add: word_gt_0\<close>)
  then have "q = n div d" "r = n mod d" by (simp_all add: word_unat_eq_iff unat_div_distrib unat_mod_distrib)
  then show ?thesis using d u by (simp add: simple_udivmod_def)
qed

lemma digit_table: "d < 16 \<Longrightarrow> cstr ''0123456789abcdef'' ! d = digit_char False d"
proof -
  assume "d < 16"
  then have "d \<in> set [0..<16]" by simp
  moreover have "\<forall>d\<in>set [0..<16]. cstr ''0123456789abcdef'' ! d = digit_char False d" by code_simp
  ultimately show ?thesis by blast
qed

lemma print_rev_digits:
  assumes "2 \<le> unat base" "unat base \<le> 16" "unat num < unat base ^ k"
  shows "print_rev k base num = Inr (render_rev (unat num) (unat base) False)"
  using assms(3)
proof (induction k arbitrary: num)
  case 0
  then have "num = 0" by (simp add: unat_eq_0)
  then show ?case by (simp add: render_rev.simps)
next
  case (Suc k)
  show ?case
  proof (cases "num = 0")
    case True
    then show ?thesis by (simp add: render_rev.simps)
  next
    case False
    then have n: "unat num \<noteq> 0" by (simp add: unat_eq_0)
    have "base \<noteq> 0" using assms(1) by auto
    then have dm: "simple_udivmod num base = (num div base, num mod base)" by (rule simple_udivmod_correct)
    have r: "unat (num mod base) = unat num mod unat base" "unat (num div base) = unat num div unat base"
      by (simp_all add: unat_mod_distrib unat_div_distrib)
    have "unat num mod unat base < 16" using assms(1,2) mod_less_divisor [of "unat base" "unat num"] by linarith
    moreover have "unat (num div base) < unat base ^ k"
      using Suc(2) by (simp add: r less_mult_imp_div_less mult.commute)
    ultimately show ?thesis
      using Suc(1) [of "num div base"] False n dm assms(1)
      by (simp add: r digit_table render_rev.simps [of "unat num"])
  qed
qed

text \<open>The shift-and-subtract division of the console agrees with the machine's division and remainder
  for every dividend and every non-zero divisor, although its 32-bit remainder is shifted first; and
  \<open>print_uint\<close>, in base 10 and 16, never leaves its buffer and prints the same digits as the kernel's
  formatter.\<close>

lemma uart_numbers_correct:
  assumes "d \<noteq> 0"
  shows "simple_udivmod n d = (n div d, n mod d) \<and> print_uint n 10 = Inr (render_uint n 10 False) \<and>
    print_uint n 16 = Inr (render_uint n 16 False)"
proof -
  have n: "unat n < 2 ^ 32" using unsigned_less [of n] by simp
  then have "unat n < 10 ^ 32" "unat n < 16 ^ 32" by (simp_all add: less_trans)
  then show ?thesis
    using simple_udivmod_correct [OF assms] print_rev_digits [of 10 n 32] print_rev_digits [of 16 n 32]
    by (simp add: print_uint_def render_uint_def)
qed

theorem uart_numbers_correct_witness:
  "simple_udivmod 0xFFFFFFFF 0x80000001 = (1, 0x7FFFFFFE)"
  using uart_numbers_correct [of "0x80000001" "0xFFFFFFFF"] by simp

definition demo_uart :: "unit uart_state" where
  "demo_uart = \<lparr>irq_table = [], ihw = (), rb_data = replicate 256 0, rb_head = 255, rb_tail = 255, rb_overflow = 0,
     uart_irq_fire_count = 0, uart_rx_wq = None, usc = demo_sched\<rparr>"

theorem uart_ring_fifo_witness:
  "\<exists>s'. queue_run ring_bytes 255 rx_store uart_getc [Some 65, Some 66, None] demo_uart = ([65, 66], [65], s') \<and> map uint (ring_bytes s') = [66]"
proof -
  have e: "ring_inv demo_uart" "ring_bytes demo_uart = []"
    by (simp_all add: demo_uart_def ring_inv_def ring_bytes_def ring_count_def)
  obtain st rd s' where r: "queue_run ring_bytes 255 rx_store uart_getc [Some 65, Some 66, None] demo_uart = (st, rd, s')"
    by (cases "queue_run ring_bytes 255 rx_store uart_getc [Some 65, Some 66, None] demo_uart") auto
  have b: "ring_bytes (rx_store 65 demo_uart) = [65]" "ring_bytes (rx_store 66 (rx_store 65 demo_uart)) = [65, 66]"
    using rx_store_ring [OF e(1), of 65] rx_store_ring [OF rx_store_ring(1) [OF e(1), of 65], of 66] e(2) by simp_all
  have "fst (uart_getc (rx_store 66 (rx_store 65 demo_uart))) = 65"
    using uart_getc_ring(3) [OF rx_store_ring(1) [OF rx_store_ring(1) [OF e(1)]] b(2)] by simp
  then have "st = [65, 66]" "rd = [65]" using r b e(2) by (auto split: prod.splits)
  then show ?thesis using r uart_ring_fifo [OF e(1) r] e(2) by auto
qed

end
