(* ===== verification/Page_Alloc.thy ===== *)
theory Page_Alloc
  imports Vx_Base
begin

unbundle bit_operations_syntax

section \<open>The bitmap page allocator (\<open>kernel/src/kernel/mm/page_alloc.c\<close>)\<close>

text \<open>
  One bit per 4 KB page of the 112 MB pool that starts at physical address \<open>0x81000000\<close>.
  The state is the bitmap, kept as the array of 32-bit words of the source, and the counter of
  free pages.  \<open>used\<close> is the abstraction: the set of the pages whose bit is set.  The lemmas
  show that the allocator hands out naturally aligned, pairwise disjoint blocks, that it fails
  only when there is no aligned free block, that the counter always agrees with the bitmap, and
  that freeing a block is the inverse of allocating it.
\<close>

subsection \<open>State and operations\<close>

definition PAGE_MAX_ORDER :: nat where [vx_consts]: "PAGE_MAX_ORDER = 8"
definition POOL_PA_BASE :: u32 where [vx_consts]: "POOL_PA_BASE = 0x81000000"
definition POOL_PA_END :: u32 where [vx_consts]: "POOL_PA_END = 0x80000000 + 128 * 1024 * 1024"
definition POOL_PAGES :: nat where
  [vx_consts]: "POOL_PAGES = unat ((POOL_PA_END - POOL_PA_BASE) div PAGE_SIZE)"
definition BITMAP_WORDS :: nat where [vx_consts]: "BITMAP_WORDS = (POOL_PAGES + 31) div 32"

record page_state =
  bitmap :: "u32 list"
  free_count :: u32

definition bit_get :: "page_state \<Rightarrow> nat \<Rightarrow> u32" where
  "bit_get s idx = drop_bit (idx mod 32) (bitmap s ! (idx div 32)) AND 1"

definition bit_set :: "page_state \<Rightarrow> nat \<Rightarrow> page_state" where
  "bit_set s idx = s\<lparr>bitmap := (bitmap s)[idx div 32 :=
     (bitmap s ! (idx div 32)) OR push_bit (idx mod 32) 1]\<rparr>"

definition bit_clear :: "page_state \<Rightarrow> nat \<Rightarrow> page_state" where
  "bit_clear s idx = s\<lparr>bitmap := (bitmap s)[idx div 32 :=
     (bitmap s ! (idx div 32)) AND NOT (push_bit (idx mod 32) 1)]\<rparr>"

definition page_alloc_init :: page_state where
  "page_alloc_init = \<lparr>bitmap = replicate BITMAP_WORDS 0, free_count = of_nat POOL_PAGES\<rparr>"

definition all_zero :: "page_state \<Rightarrow> nat \<Rightarrow> nat \<Rightarrow> bool" where
  "all_zero s i count \<longleftrightarrow> list_all (\<lambda>j. bit_get s (i + j) = 0) [0..<count]"

function alloc_scan :: "page_state \<Rightarrow> nat \<Rightarrow> nat \<Rightarrow> nat option" where
  "alloc_scan s count i =
     (if 0 < count \<and> i + count \<le> POOL_PAGES
      then if all_zero s i count then Some i else alloc_scan s count (i + count)
      else None)"
  by pat_completeness auto
termination
  by (relation "measure (\<lambda>(s, count, i). Suc POOL_PAGES - i)") auto

declare alloc_scan.simps [simp del]

definition set_block :: "page_state \<Rightarrow> nat \<Rightarrow> nat \<Rightarrow> page_state" where
  "set_block s i count = fold (\<lambda>j t. bit_set t (i + j)) [0..<count] s"

definition alloc_pages :: "u32 \<Rightarrow> nat \<Rightarrow> page_state \<Rightarrow> u32 \<times> page_state" where
  "alloc_pages gflags order s =
     (if order > PAGE_MAX_ORDER then (0, s)
      else let count = 2 ^ order in
        case alloc_scan s count 0 of
          None \<Rightarrow> (0, s)
        | Some i \<Rightarrow> let t = set_block s i count in
            (POOL_PA_BASE + of_nat i * PAGE_SIZE, t\<lparr>free_count := free_count t - of_nat count\<rparr>))"

fun clear_bits :: "nat list \<Rightarrow> page_state \<Rightarrow> fault + page_state" where
  "clear_bits [] s = Inr s"
| "clear_bits (k # ks) s =
     (if BITMAP_WORDS \<le> k div 32 then Inl OutOfBounds
      else if bit_get s k \<noteq> 1 then Inl AssertFail
      else clear_bits ks (bit_clear s k))"

definition page_index :: "u32 \<Rightarrow> nat" where
  "page_index pa = unat ((pa - POOL_PA_BASE) div PAGE_SIZE)"

definition free_pages :: "u32 \<Rightarrow> nat \<Rightarrow> page_state \<Rightarrow> fault + page_state" where
  "free_pages pa order s =
     (if \<not> pa \<ge> POOL_PA_BASE then Inl AssertFail
      else if \<not> pa < POOL_PA_END then Inl AssertFail
      else if pa AND (PAGE_SIZE - 1) \<noteq> 0 then Inl AssertFail
      else if \<not> order \<le> PAGE_MAX_ORDER then Inl AssertFail
      else let count = 2 ^ order; idx = page_index pa in
        case clear_bits (map (\<lambda>j. idx + j) [0..<count]) s of
          Inl e \<Rightarrow> Inl e
        | Inr t \<Rightarrow> Inr (t\<lparr>free_count := free_count t + of_nat count\<rparr>))"

definition page_alloc_total_pages :: u32 where
  "page_alloc_total_pages = of_nat POOL_PAGES"

definition page_alloc_free_pages :: "page_state \<Rightarrow> u32" where
  "page_alloc_free_pages s = free_count s"

text \<open>The boot self-test: 100 single pages are allocated and checked, freed again, and then one
  block of the largest order is allocated, checked and freed.  \<open>None\<close> and \<open>False\<close> stand for a
  printed \<open>FAIL\<close> line followed by the early return.\<close>

definition SELFTEST_ORDER0_N :: nat where [vx_consts]: "SELFTEST_ORDER0_N = 100"

fun selftest_alloc :: "nat \<Rightarrow> u32 list \<Rightarrow> page_state \<Rightarrow> u32 list option \<times> page_state" where
  "selftest_alloc 0 ps s = (Some ps, s)"
| "selftest_alloc (Suc n) ps s =
     (let (pa, t) = alloc_pages 1 0 s in
      if pa = 0 then (None, t)
      else if pa AND (PAGE_SIZE - 1) \<noteq> 0 then (None, t)
      else if pa < POOL_PA_BASE \<or> pa \<ge> POOL_PA_END then (None, t)
      else if pa \<in> set ps then (None, t)
      else selftest_alloc n (ps @ [pa]) t)"

fun selftest_free :: "u32 list \<Rightarrow> page_state \<Rightarrow> fault + page_state" where
  "selftest_free [] s = Inr s"
| "selftest_free (pa # ps) s =
     (case free_pages pa 0 s of Inl e \<Rightarrow> Inl e | Inr t \<Rightarrow> selftest_free ps t)"

definition page_alloc_selftest :: "page_state \<Rightarrow> fault + bool \<times> page_state" where
  "page_alloc_selftest s =
     (let snapshot = free_count s in
      case selftest_alloc SELFTEST_ORDER0_N [] s of
        (None, t) \<Rightarrow> Inr (False, t)
      | (Some ps, t) \<Rightarrow>
          (case selftest_free ps t of
             Inl e \<Rightarrow> Inl e
           | Inr u \<Rightarrow>
               if free_count u \<noteq> snapshot then Inr (False, u)
               else let (big, v) = alloc_pages 1 PAGE_MAX_ORDER u in
                 if big = 0 then Inr (False, v)
                 else if big AND (push_bit (12 + PAGE_MAX_ORDER) 1 - 1) \<noteq> 0 then Inr (False, v)
                 else (case free_pages big PAGE_MAX_ORDER v of
                     Inl e \<Rightarrow> Inl e
                   | Inr w \<Rightarrow> Inr (free_count w = snapshot, w))))"

subsection \<open>Abstraction and invariant\<close>

definition used :: "page_state \<Rightarrow> nat set" where
  "used s = {k. k < POOL_PAGES \<and> bit_get s k = 1}"

definition page_inv :: "page_state \<Rightarrow> bool" where
  "page_inv s \<longleftrightarrow> length (bitmap s) = BITMAP_WORDS \<and>
     unat (free_count s) + card (used s) = POOL_PAGES"

lemma POOL_PAGES_eq: "POOL_PAGES = 28672"
  by (simp add: vx_consts)

lemma BITMAP_WORDS_eq: "BITMAP_WORDS = 896"
  by (simp add: BITMAP_WORDS_def POOL_PAGES_eq)

lemma PAGE_MAX_ORDER_eq: "PAGE_MAX_ORDER = 8"
  by (simp add: vx_consts)

lemmas pool_eqs = POOL_PAGES_eq BITMAP_WORDS_eq PAGE_MAX_ORDER_eq

lemma bit_get_bit: "bit_get s k = of_bool (bit (bitmap s ! (k div 32)) (k mod 32))"
  by (simp add: bit_get_def and_one_eq mod_2_eq_odd bit_iff_odd_drop_bit)

lemma bit_get_0_iff: "bit_get s k = 0 \<longleftrightarrow> bit_get s k \<noteq> 1"
  by (simp add: bit_get_bit)

lemma same_bit_iff: "k div 32 = m div 32 \<and> k mod 32 = m mod 32 \<longleftrightarrow> k = (m :: nat)"
  by (metis div_mult_mod_eq)

lemma word_of_page: "length (bitmap s) = BITMAP_WORDS \<Longrightarrow> k < POOL_PAGES \<Longrightarrow> k div 32 < length (bitmap s)"
  by (simp add: pool_eqs)

lemma bit_get_set:
  assumes "k div 32 < length (bitmap s)"
  shows "bit_get (bit_set s k) m = (if m = k then 1 else bit_get s m)"
  using assms same_bit_iff [of m k]
  by (auto simp: bit_get_bit bit_set_def nth_list_update bit_simps)

lemma bit_get_clear:
  assumes "k div 32 < length (bitmap s)"
  shows "bit_get (bit_clear s k) m = (if m = k then 0 else bit_get s m)"
  using assms same_bit_iff [of m k]
  by (auto simp: bit_get_bit bit_clear_def nth_list_update bit_simps)

lemma bit_set_frame [simp]:
  "length (bitmap (bit_set s k)) = length (bitmap s)" "free_count (bit_set s k) = free_count s"
  by (simp_all add: bit_set_def)

lemma bit_clear_frame [simp]:
  "length (bitmap (bit_clear s k)) = length (bitmap s)" "free_count (bit_clear s k) = free_count s"
  by (simp_all add: bit_clear_def)

lemma used_free_count [simp]: "used (s\<lparr>free_count := c\<rparr>) = used s"
  by (simp add: used_def bit_get_def)

lemma used_bounded: "used s \<subseteq> {..<POOL_PAGES}"
  by (auto simp: used_def)

lemma finite_used [simp]: "finite (used s)"
  using used_bounded finite_subset by blast

lemma bitmap_eqI:
  assumes "length (bitmap s) = BITMAP_WORDS" "length (bitmap t) = BITMAP_WORDS"
    and "used s = used t"
  shows "bitmap s = bitmap t"
proof (rule nth_equalityI)
  show "length (bitmap s) = length (bitmap t)" using assms by simp
next
  fix i assume i: "i < length (bitmap s)"
  show "bitmap s ! i = bitmap t ! i"
  proof (rule bit_word_eqI)
    fix n assume n: "n < LENGTH(32)"
    have k: "32 * i + n < POOL_PAGES" "(32 * i + n) div 32 = i" "(32 * i + n) mod 32 = n"
      using i n assms(1) by (auto simp: pool_eqs)
    have "32 * i + n \<in> used s \<longleftrightarrow> 32 * i + n \<in> used t" using assms(3) by simp
    with k show "bit (bitmap s ! i) n = bit (bitmap t ! i) n"
      by (simp add: used_def bit_get_bit)
  qed
qed

lemma used_init: "used page_alloc_init = {}"
  by (auto simp: used_def page_alloc_init_def bit_get_def pool_eqs)

lemma page_inv_init: "page_inv page_alloc_init"
  using used_init by (simp add: page_inv_def page_alloc_init_def pool_eqs)

subsection \<open>Blocks of pages\<close>

text \<open>The address of page \<open>i\<close> of the pool.\<close>

definition page_addr :: "nat \<Rightarrow> u32" where
  "page_addr i = POOL_PA_BASE + of_nat i * PAGE_SIZE"

lemma unat_page_addr: "i < POOL_PAGES \<Longrightarrow> unat (page_addr i) = 0x81000000 + i * 4096"
proof -
  assume "i < POOL_PAGES"
  then have "unat (of_nat i :: u32) = i" "i * 4096 < 2 ^ 32" "0x81000000 + i * 4096 < 2 ^ 32"
    by (simp_all add: pool_eqs unat_of_nat take_bit_nat_eq_self)
  then show ?thesis
    by (simp add: page_addr_def vx_consts unat_word_ariths)
qed

lemma page_index_addr: "i < POOL_PAGES \<Longrightarrow> page_index (page_addr i) = i"
proof -
  assume "i < POOL_PAGES"
  then have "unat (of_nat i :: u32) = i" "i * 4096 < 2 ^ 32"
    by (simp_all add: pool_eqs unat_of_nat take_bit_nat_eq_self)
  then show ?thesis
    by (simp add: page_index_def page_addr_def PAGE_SIZE_def unat_div unat_word_ariths)
qed

lemma page_addr_in_pool:
  assumes "i < POOL_PAGES"
  shows "page_addr i \<ge> POOL_PA_BASE" "page_addr i < POOL_PA_END"
    "page_addr i AND (PAGE_SIZE - 1) = 0" "page_addr i \<noteq> 0"
proof -
  note u = unat_page_addr [OF assms]
  show "page_addr i \<ge> POOL_PA_BASE" "page_addr i < POOL_PA_END"
    using u assms by (simp_all add: word_le_nat_alt word_less_nat_alt vx_consts pool_eqs)
  show "page_addr i \<noteq> 0" using u by auto
  have "page_addr i AND (PAGE_SIZE - 1) = take_bit 12 (page_addr i)"
    by (simp add: take_bit_eq_mask vx_consts mask_eq_exp_minus_1)
  also have "\<dots> = 0"
    using u by (simp add: unsigned_take_bit_eq flip: unat_eq_0) (simp add: take_bit_eq_mod)
  finally show "page_addr i AND (PAGE_SIZE - 1) = 0" .
qed

lemma page_addr_inj: "i < POOL_PAGES \<Longrightarrow> j < POOL_PAGES \<Longrightarrow> page_addr i = page_addr j \<longleftrightarrow> i = j"
  by (metis page_index_addr)

lemma all_zero_iff:
  "i + count \<le> POOL_PAGES \<Longrightarrow> all_zero s i count \<longleftrightarrow> {i..<i + count} \<inter> used s = {}"
  by (fastforce simp: all_zero_def list_all_iff used_def bit_get_0_iff le_iff_add)

lemma alloc_scan_SomeD:
  "alloc_scan s count i = Some k \<Longrightarrow> count dvd i \<Longrightarrow>
     i \<le> k \<and> count dvd k \<and> k + count \<le> POOL_PAGES \<and> all_zero s k count"
proof (induction s count i rule: alloc_scan.induct)
  case (1 s count i)
  then show ?case
    by (subst (asm) (2) alloc_scan.simps) (fastforce split: if_splits)
qed

lemma alloc_scan_NoneD:
  "alloc_scan s count i = None \<Longrightarrow> count dvd i \<Longrightarrow> 0 < count \<Longrightarrow>
     i \<le> k \<Longrightarrow> count dvd k \<Longrightarrow> k + count \<le> POOL_PAGES \<Longrightarrow> \<not> all_zero s k count"
proof (induction s count i rule: alloc_scan.induct)
  case (1 s count i)
  show ?case
  proof (cases "k = i")
    case True
    with "1.prems" show ?thesis by (subst (asm) alloc_scan.simps) (auto split: if_splits)
  next
    case False
    then obtain m where "k = i + count * m" "0 < m"
      using "1.prems" by (metis dvd_diff_nat dvd_def le_add_diff_inverse gr0I mult_0_right add_0_right)
    then have "i + count \<le> k" by (cases m) auto
    with "1" show ?thesis
      by (subst (asm) (2) alloc_scan.simps) (auto split: if_splits)
  qed
qed

lemma set_block_Suc: "set_block s i (Suc n) = bit_set (set_block s i n) (i + n)"
  by (simp add: set_block_def)

lemma set_block_frame:
  "length (bitmap (set_block s i n)) = length (bitmap s)"
  "free_count (set_block s i n) = free_count s"
  by (induction n) (simp_all add: set_block_Suc, simp_all add: set_block_def)

lemma used_set_block:
  assumes "length (bitmap s) = BITMAP_WORDS" "i + n \<le> POOL_PAGES"
  shows "used (set_block s i n) = used s \<union> {i..<i + n}"
  using assms(2)
proof (induction n)
  case 0
  then show ?case by (simp add: set_block_def)
next
  case (Suc n)
  have "(i + n) div 32 < length (bitmap (set_block s i n))"
    using Suc.prems assms(1) by (intro word_of_page) (simp_all add: set_block_frame)
  then have "used (bit_set (set_block s i n) (i + n)) = insert (i + n) (used (set_block s i n))"
    using Suc.prems by (auto simp: used_def bit_get_set)
  with Suc show ?case by (auto simp: set_block_Suc)
qed

lemma clear_bits_ok:
  assumes "length (bitmap s) = BITMAP_WORDS" "distinct ks" "set ks \<subseteq> used s"
  shows "\<exists>t. clear_bits ks s = Inr t \<and> used t = used s - set ks \<and>
    length (bitmap t) = BITMAP_WORDS \<and> free_count t = free_count s"
  using assms
proof (induction ks arbitrary: s)
  case Nil
  then show ?case by simp
next
  case (Cons k ks)
  have k: "k div 32 < BITMAP_WORDS" "bit_get s k = 1" "k < POOL_PAGES"
    using Cons.prems by (auto simp: used_def pool_eqs)
  have u: "used (bit_clear s k) = used s - {k}"
    using k Cons.prems(1) by (auto simp: used_def bit_get_clear)
  with Cons.prems have "distinct ks" "set ks \<subseteq> used (bit_clear s k)" by auto
  with Cons.IH [of "bit_clear s k"] Cons.prems(1) u k show ?case by auto
qed

lemma clear_bits_not_used:
  assumes "k \<in> set ks" "k \<notin> used s" "length (bitmap s) = BITMAP_WORDS"
  shows "\<exists>e. clear_bits ks s = Inl e"
  using assms
proof (induction ks arbitrary: s)
  case Nil
  then show ?case by simp
next
  case (Cons x ks)
  have "k = x \<Longrightarrow> BITMAP_WORDS \<le> k div 32 \<or> bit_get s k \<noteq> 1"
    using Cons.prems(2) by (auto simp: used_def pool_eqs)
  moreover have "x div 32 < BITMAP_WORDS \<Longrightarrow> k \<notin> used (bit_clear s x)"
    using Cons.prems by (auto simp: used_def bit_get_clear)
  ultimately show ?case using Cons by (cases "k = x") auto
qed

subsection \<open>What the operations do\<close>

definition page_block :: "u32 \<Rightarrow> nat \<Rightarrow> nat set" where
  "page_block pa n = {page_index pa..<page_index pa + 2 ^ n}"

definition is_block :: "u32 \<Rightarrow> nat \<Rightarrow> bool" where
  "is_block pa n \<longleftrightarrow> n \<le> PAGE_MAX_ORDER \<and>
     (\<exists>i. pa = page_addr i \<and> 2 ^ n dvd i \<and> i + 2 ^ n \<le> POOL_PAGES)"

lemma order_pos: "0 < (2::nat) ^ n"
  by simp

lemma block_start_lt: "i + 2 ^ n \<le> POOL_PAGES \<Longrightarrow> i < POOL_PAGES"
  using order_pos [of n] by linarith

lemma is_blockE:
  assumes "is_block pa n"
  obtains i where "pa = page_addr i" "i < POOL_PAGES" "i + 2 ^ n \<le> POOL_PAGES" "2 ^ n dvd i"
    "page_block pa n = {i..<i + 2 ^ n}" "n \<le> PAGE_MAX_ORDER"
proof -
  from assms obtain i where i: "pa = page_addr i" "2 ^ n dvd i" "i + 2 ^ n \<le> POOL_PAGES"
    "n \<le> PAGE_MAX_ORDER" by (auto simp: is_block_def)
  moreover have "i < POOL_PAGES" using i(3) order_pos [of n] by linarith
  ultimately show ?thesis using that by (simp add: page_block_def page_index_addr)
qed

lemma unat_order: "n \<le> PAGE_MAX_ORDER \<Longrightarrow> unat (of_nat (2 ^ n) :: u32) = 2 ^ n"
  using power_strict_increasing [of n 32 "2::nat"]
  by (simp only: unat_of_nat take_bit_nat_eq_self_iff) (simp add: pool_eqs)

lemma two_power_order_le: "n \<le> PAGE_MAX_ORDER \<Longrightarrow> (2::nat) ^ n \<le> 256"
  using power_increasing [of n 8 "2::nat"] by (simp add: pool_eqs)

lemma page_state_eqI: "page_inv s \<Longrightarrow> page_inv t \<Longrightarrow> used s = used t \<Longrightarrow> s = t"
  by (rule page_state.equality)
    (auto simp: page_inv_def word_unat_eq_iff intro: bitmap_eqI)

lemma alloc_pages_SomeD:
  assumes "page_inv s" "alloc_pages g n s = (pa, t)" "pa \<noteq> 0"
  shows "is_block pa n" "page_block pa n \<inter> used s = {}" "used t = used s \<union> page_block pa n"
    "page_inv t" "unat (free_count t) + 2 ^ n = unat (free_count s)"
proof -
  from assms(2,3) obtain i where n: "n \<le> PAGE_MAX_ORDER" and i: "alloc_scan s (2 ^ n) 0 = Some i"
    and pa: "pa = page_addr i"
    and t: "t = (set_block s i (2 ^ n))\<lparr>free_count := free_count s - of_nat (2 ^ n)\<rparr>"
    by (auto simp: alloc_pages_def page_addr_def Let_def set_block_frame split: if_splits option.splits)
  have b: "2 ^ n dvd i" "i + 2 ^ n \<le> POOL_PAGES" "{i..<i + 2 ^ n} \<inter> used s = {}"
    using alloc_scan_SomeD [OF i] all_zero_iff [of i "2 ^ n" s] by simp_all
  show blk: "is_block pa n" using n b pa by (auto simp: is_block_def)
  have pb: "page_block pa n = {i..<i + 2 ^ n}"
    using b(2) pa by (simp add: page_block_def page_index_addr block_start_lt)
  show dis: "page_block pa n \<inter> used s = {}" using b pb by simp
  have len: "length (bitmap s) = BITMAP_WORDS" using assms(1) by (simp add: page_inv_def)
  show ut: "used t = used s \<union> page_block pa n" using t pb used_set_block [OF len b(2)] by simp
  have "card (used s \<union> page_block pa n) = card (used s) + 2 ^ n"
    using dis pb by (subst card_Un_disjoint) auto
  moreover have "card (used s \<union> page_block pa n) \<le> POOL_PAGES"
    using used_bounded [of t] ut card_mono [of "{..<POOL_PAGES}"] by fastforce
  ultimately have c: "card (used t) = card (used s) + 2 ^ n" "card (used s) + 2 ^ n \<le> POOL_PAGES"
    using ut by auto
  have fs: "unat (free_count s) + card (used s) = POOL_PAGES" using assms(1) by (simp add: page_inv_def)
  note unat_order [OF n]
  moreover have "2 ^ n \<le> unat (free_count s)" using c fs by linarith
  ultimately have "unat (free_count s - of_nat (2 ^ n)) = unat (free_count s) - 2 ^ n"
    by (subst unat_sub) (auto simp: word_le_nat_alt)
  then show fc: "unat (free_count t) + 2 ^ n = unat (free_count s)"
    using t \<open>2 ^ n \<le> unat (free_count s)\<close> by simp
  then show "page_inv t"
    using c fs len t by (simp add: page_inv_def set_block_frame)
qed

lemma alloc_pages_0D:
  assumes "alloc_pages g n s = (0, t)"
  shows "t = s" "n > PAGE_MAX_ORDER \<or>
    (\<forall>k. 2 ^ n dvd k \<longrightarrow> k + 2 ^ n \<le> POOL_PAGES \<longrightarrow> {k..<k + 2 ^ n} \<inter> used s \<noteq> {})"
proof -
  consider "n > PAGE_MAX_ORDER" "t = s" | "alloc_scan s (2 ^ n) 0 = None" "t = s"
  proof (cases "alloc_scan s (2 ^ n) 0")
    case None
    with assms that show ?thesis by (auto simp: alloc_pages_def split: if_splits)
  next
    case (Some i)
    then have "i < POOL_PAGES"
      using alloc_scan_SomeD [OF Some] block_start_lt [of i n] by simp
    then have "page_addr i \<noteq> 0" by (rule page_addr_in_pool)
    with Some assms that show ?thesis
      by (auto simp: alloc_pages_def page_addr_def Let_def split: if_splits)
  qed
  then show "t = s" "n > PAGE_MAX_ORDER \<or>
    (\<forall>k. 2 ^ n dvd k \<longrightarrow> k + 2 ^ n \<le> POOL_PAGES \<longrightarrow> {k..<k + 2 ^ n} \<inter> used s \<noteq> {})"
    using alloc_scan_NoneD [of s "2 ^ n" 0] by (cases, auto simp: all_zero_iff)+
qed

lemma free_pages_ok:
  assumes "page_inv s" "is_block pa n" "page_block pa n \<subseteq> used s"
  shows "\<exists>t. free_pages pa n s = Inr t \<and> used t = used s - page_block pa n \<and> page_inv t"
proof -
  from assms(2) obtain i where i: "pa = page_addr i" "i < POOL_PAGES" "i + 2 ^ n \<le> POOL_PAGES"
    "page_block pa n = {i..<i + 2 ^ n}" "n \<le> PAGE_MAX_ORDER" by (rule is_blockE)
  let ?ks = "map ((+) i) [0..<2 ^ n]"
  have ks: "distinct ?ks" "set ?ks = page_block pa n"
    using i(4) by (simp_all add: map_plus_upt)
  have len: "length (bitmap s) = BITMAP_WORDS" using assms(1) by (simp add: page_inv_def)
  obtain u where u: "clear_bits ?ks s = Inr u" "used u = used s - page_block pa n"
    "length (bitmap u) = BITMAP_WORDS" "free_count u = free_count s"
    using clear_bits_ok [OF len ks(1)] ks(2) assms(3) by auto
  let ?t = "u\<lparr>free_count := free_count u + of_nat (2 ^ n)\<rparr>"
  have r: "free_pages pa n s = Inr ?t"
    using page_addr_in_pool [OF i(2)] i(1,5) u(1)
    by (simp add: free_pages_def page_index_addr [OF i(2)] Let_def comp_def)
  have "card (page_block pa n) = 2 ^ n" using i(4) by simp
  then have c: "card (used u) + 2 ^ n = card (used s)"
    using assms(3) u(2) card_Diff_subset [of "page_block pa n" "used s"] card_mono [of "used s" "page_block pa n"]
      i(4) by simp
  have fs: "unat (free_count s) + card (used s) = POOL_PAGES" using assms(1) by (simp add: page_inv_def)
  note unat_order [OF i(5)]
  moreover have "unat (free_count s) + 2 ^ n < 2 ^ 32" using c fs by (simp add: pool_eqs)
  ultimately have "unat (free_count s + of_nat (2 ^ n)) = unat (free_count s) + 2 ^ n"
    by (simp add: unat_word_ariths)
  then have "page_inv ?t" using c fs u by (simp add: page_inv_def)
  with r u(2) show ?thesis by auto
qed

lemma free_pages_not_owned:
  assumes "page_inv s" "is_block pa n" "k \<in> page_block pa n" "k \<notin> used s"
  shows "\<exists>e. free_pages pa n s = Inl e"
proof -
  from assms(2) obtain i where i: "pa = page_addr i" "i < POOL_PAGES"
    "page_block pa n = {i..<i + 2 ^ n}" "n \<le> PAGE_MAX_ORDER" by (rule is_blockE)
  have "k \<in> set (map ((+) i) [0..<2 ^ n])"
    using assms(3) i(3) by (simp add: map_plus_upt)
  then obtain e where "clear_bits (map ((+) i) [0..<2 ^ n]) s = Inl e"
    using clear_bits_not_used [OF _ assms(4)] assms(1) unfolding page_inv_def by blast
  then show ?thesis
    using page_addr_in_pool [OF i(2)] i(1,4)
    by (simp add: free_pages_def page_index_addr [OF i(2)] Let_def)
qed

subsection \<open>The interface of the page allocator\<close>

text \<open>What the slab, the page-table and the process code rely on: \<open>alloc\<close> returns 0 and
  changes nothing, or hands out a block that nobody owns; \<open>release\<close> takes back an owned block
  and stops the kernel on any other; the owned blocks determine the state.\<close>

locale page_provider =
  fixes alloc :: "u32 \<Rightarrow> nat \<Rightarrow> 's \<Rightarrow> u32 \<times> 's"
    and release :: "u32 \<Rightarrow> nat \<Rightarrow> 's \<Rightarrow> fault + 's"
    and owned :: "'s \<Rightarrow> nat set"
    and pinv :: "'s \<Rightarrow> bool"
    and blocks :: "u32 \<Rightarrow> nat \<Rightarrow> nat set"
    and block_ok :: "u32 \<Rightarrow> nat \<Rightarrow> bool"
  assumes alloc_fail: "alloc g n s = (0, t) \<Longrightarrow> t = s"
    and alloc_ok: "pinv s \<Longrightarrow> alloc g n s = (pa, t) \<Longrightarrow> pa \<noteq> 0 \<Longrightarrow>
      block_ok pa n \<and> blocks pa n \<inter> owned s = {} \<and> owned t = owned s \<union> blocks pa n \<and> pinv t"
    and release_ok: "pinv s \<Longrightarrow> block_ok pa n \<Longrightarrow> blocks pa n \<subseteq> owned s \<Longrightarrow>
      \<exists>t. release pa n s = Inr t \<and> owned t = owned s - blocks pa n \<and> pinv t"
    and release_bad: "pinv s \<Longrightarrow> block_ok pa n \<Longrightarrow> k \<in> blocks pa n \<Longrightarrow> k \<notin> owned s \<Longrightarrow>
      \<exists>e. release pa n s = Inl e"
    and blocks_nonempty: "block_ok pa n \<Longrightarrow> blocks pa n \<noteq> {}"
    and owned_ext: "pinv s \<Longrightarrow> pinv t \<Longrightarrow> owned s = owned t \<Longrightarrow> s = t"
begin

lemma alloc_inv: "pinv s \<Longrightarrow> pinv (snd (alloc g n s))"
  using alloc_fail alloc_ok by (metis prod.collapse)

lemma alloc_then_release:
  assumes "pinv s" "alloc g n s = (pa, t)" "pa \<noteq> 0"
  shows "release pa n t = Inr s"
proof -
  note a = alloc_ok [OF assms]
  then obtain u where u: "release pa n t = Inr u" "owned u = owned t - blocks pa n" "pinv u"
    using release_ok [of t pa n] by blast
  with a have "owned u = owned s" by auto
  with u assms(1) have "u = s" by (intro owned_ext) auto
  with u show ?thesis by simp
qed

lemma allocs_disjoint:
  assumes "pinv s" "alloc g n s = (pa, t)" "pa \<noteq> 0" "alloc h m t = (pb, u)" "pb \<noteq> 0"
  shows "blocks pa n \<inter> blocks pb m = {}"
  using alloc_ok [OF assms(1-3)] alloc_ok [of t h m pb u] assms(4,5) by auto

lemma release_inv:
  assumes "pinv s" "block_ok pa n" "release pa n s = Inr t"
  shows "blocks pa n \<subseteq> owned s" "owned t = owned s - blocks pa n" "pinv t"
proof -
  show sub: "blocks pa n \<subseteq> owned s"
    using release_bad [OF assms(1,2)] assms(3) by fastforce
  show "owned t = owned s - blocks pa n" "pinv t"
    using release_ok [OF assms(1,2) sub] assms(3) by auto
qed

lemma double_release_stops:
  assumes "pinv s" "block_ok pa n" "release pa n s = Inr t"
  shows "\<exists>e. release pa n t = Inl e"
  using release_inv [OF assms] blocks_nonempty [OF assms(2)] release_bad [OF _ assms(2), of t] by blast

end

interpretation pg: page_provider alloc_pages free_pages used page_inv page_block is_block
proof unfold_locales
  fix g n s t assume "alloc_pages g n s = (0, t)"
  then show "t = s" by (rule alloc_pages_0D)
next
  fix g n s pa t assume "page_inv s" "alloc_pages g n s = (pa, t)" "pa \<noteq> 0"
  note alloc_pages_SomeD [OF this]
  then show "is_block pa n \<and> page_block pa n \<inter> used s = {} \<and>
    used t = used s \<union> page_block pa n \<and> page_inv t" by blast
qed (use free_pages_ok free_pages_not_owned page_state_eqI in
      \<open>auto simp: page_block_def\<close>)

lemmas page_inv_alloc [vx_inv] = pg.alloc_inv

subsection \<open>The self-test\<close>

lemma alloc_page_succeeds:
  assumes "page_inv s" "card (used s) < POOL_PAGES"
  shows "\<exists>i t. alloc_pages g 0 s = (page_addr i, t) \<and> i < POOL_PAGES \<and> i \<notin> used s \<and>
    used t = insert i (used s) \<and> page_inv t"
proof -
  obtain pa t where a: "alloc_pages g 0 s = (pa, t)" by fastforce
  have "pa \<noteq> 0"
  proof
    assume "pa = 0"
    with a alloc_pages_0D(2) [of g 0 s t] have "\<forall>k<POOL_PAGES. k \<in> used s"
      by (auto simp: pool_eqs)
    then have "used s = {..<POOL_PAGES}" using used_bounded [of s] by auto
    with assms(2) show False by simp
  qed
  note d = alloc_pages_SomeD [OF assms(1) a this]
  from d(1) obtain i where "pa = page_addr i" "i < POOL_PAGES" "page_block pa 0 = {i..<i + 2 ^ 0}"
    by (rule is_blockE)
  with d a show ?thesis by auto
qed

lemma selftest_alloc_ok:
  assumes "page_inv s" "card (used s) + n \<le> POOL_PAGES" "set is \<subseteq> used s" "distinct is"
  shows "\<exists>js t. selftest_alloc n (map page_addr is) s = (Some (map page_addr (is @ js)), t) \<and>
    page_inv t \<and> distinct (is @ js) \<and> set js \<inter> used s = {} \<and> used t = used s \<union> set js"
  using assms
proof (induction n arbitrary: "is" s)
  case 0
  then show ?case by (intro exI [of _ "[]"]) auto
next
  case (Suc n)
  then obtain i t where i: "alloc_pages 1 0 s = (page_addr i, t)" "i < POOL_PAGES" "i \<notin> used s"
    "used t = insert i (used s)" "page_inv t"
    using alloc_page_succeeds [of s 1] by auto
  have new: "page_addr i \<notin> set (map page_addr is)"
    using i(2,3) Suc.prems(3) used_bounded [of s] by (fastforce simp: page_addr_inj)
  have "set (is @ [i]) \<subseteq> used t" "distinct (is @ [i])" "card (used t) + n \<le> POOL_PAGES"
    using i Suc.prems by auto
  then obtain js u where "selftest_alloc n (map page_addr (is @ [i])) t =
      (Some (map page_addr ((is @ [i]) @ js)), u)" "page_inv u" "distinct ((is @ [i]) @ js)"
    "set js \<inter> used t = {}" "used u = used t \<union> set js"
    using Suc.IH [OF i(5)] by blast
  with i new page_addr_in_pool [OF i(2)] show ?case
    by (intro exI [of _ "i # js"] exI [of _ u]) (auto simp: not_le not_less)
qed

lemma selftest_free_ok:
  assumes "page_inv s" "set is \<subseteq> used s" "distinct is"
  shows "\<exists>t. selftest_free (map page_addr is) s = Inr t \<and> page_inv t \<and> used t = used s - set is"
  using assms
proof (induction "is" arbitrary: s)
  case Nil
  then show ?case by simp
next
  case (Cons i "is")
  then have i: "i < POOL_PAGES" using used_bounded [of s] by auto
  then have "is_block (page_addr i) 0" "page_block (page_addr i) 0 = {i}"
    by (auto simp: is_block_def page_block_def page_index_addr)
  then obtain t where t: "free_pages (page_addr i) 0 s = Inr t" "used t = used s - {i}" "page_inv t"
    using free_pages_ok [OF Cons.prems(1), of "page_addr i" 0] Cons.prems(2) by auto
  then have "set is \<subseteq> used t" "distinct is" using Cons.prems by auto
  with Cons.IH [OF t(3)] t show ?case by auto
qed

lemma block_aligned:
  assumes "is_block pa n"
  shows "unat pa mod (4096 * 2 ^ n) = 0"
proof -
  from assms obtain i where i: "pa = page_addr i" "i < POOL_PAGES" "2 ^ n dvd i" "n \<le> PAGE_MAX_ORDER"
    by (rule is_blockE)
  have "(2::nat) ^ n dvd 2 ^ 8" using i(4) by (intro le_imp_power_dvd) (simp add: pool_eqs)
  then have "4096 * 2 ^ n dvd (0x81000000 :: nat)"
    using dvd_trans [of "4096 * 2 ^ n" "4096 * 2 ^ 8" "0x81000000 :: nat"] by simp
  moreover have "4096 * 2 ^ n dvd i * 4096" using i(3) by (simp add: mult.commute mult_dvd_mono)
  ultimately show ?thesis using unat_page_addr [OF i(2)] i(1) by (simp add: dvd_add)
qed

lemma big_block_mask: "is_block pa PAGE_MAX_ORDER \<Longrightarrow> pa AND (push_bit (12 + PAGE_MAX_ORDER) 1 - 1) = 0"
proof -
  assume "is_block pa PAGE_MAX_ORDER"
  then have "unat pa mod 2 ^ 20 = 0" using block_aligned [of pa 8] by (simp add: pool_eqs)
  then have "take_bit 20 pa = 0"
    by (simp add: take_bit_eq_mod unat_mod flip: unat_eq_0)
  then show ?thesis
    by (simp add: take_bit_eq_mask mask_eq_exp_minus_1 pool_eqs push_bit_eq_mult)
qed

lemma big_alloc_succeeds:
  assumes "page_inv s" "n \<le> PAGE_MAX_ORDER" "2 ^ n dvd k" "k + 2 ^ n \<le> POOL_PAGES"
    "{k..<k + 2 ^ n} \<inter> used s = {}"
  shows "fst (alloc_pages g n s) \<noteq> 0"
  using assms alloc_pages_0D(2) [of g n s "snd (alloc_pages g n s)"] by (metis leD prod.collapse)

subsection \<open>Properties\<close>

text \<open>C2: \<open>alloc_pages\<close> on a consistent allocator either returns 0 and changes nothing, which happens exactly
  when the order is larger than the largest one or the pool has no naturally aligned free block of that
  size; or it returns the address of a naturally aligned block of \<open>2 ^ order\<close> pages of the pool that
  nobody owned, marks exactly these pages as used and lowers the free counter by the size of the
  block.  The agreement of counter and bitmap is kept.\<close>

theorem alloc_pages_correct:
  assumes "page_inv s" "alloc_pages g n s = (pa, t)"
  shows "page_inv t \<and>
    (pa = 0 \<longleftrightarrow> n > PAGE_MAX_ORDER \<or> \<not> (\<exists>k. 2 ^ n dvd k \<and> k + 2 ^ n \<le> POOL_PAGES \<and> {k..<k + 2 ^ n} \<inter> used s = {})) \<and>
    (if pa = 0 then t = s
     else (\<exists>i. pa = page_addr i \<and> 2 ^ n dvd i \<and> i + 2 ^ n \<le> POOL_PAGES \<and>
         {i..<i + 2 ^ n} \<inter> used s = {} \<and> used t = used s \<union> {i..<i + 2 ^ n}) \<and>
       unat pa mod (4096 * 2 ^ n) = 0 \<and> unat (free_count t) + 2 ^ n = unat (free_count s))"
proof (cases "pa = 0")
  case True
  then show ?thesis using alloc_pages_0D [of g n s t] assms by auto
next
  case False
  note d = alloc_pages_SomeD [OF assms False]
  from d(1) obtain i where "pa = page_addr i" "i + 2 ^ n \<le> POOL_PAGES" "2 ^ n dvd i"
    "page_block pa n = {i..<i + 2 ^ n}" "n \<le> PAGE_MAX_ORDER" by (rule is_blockE)
  with False d block_aligned [OF d(1)] show ?thesis by auto
qed

theorem alloc_pages_correct_witness:
  "(\<exists>pa t. alloc_pages 1 3 page_alloc_init = (pa, t) \<and> pa \<noteq> 0 \<and>
     unat pa mod (4096 * 2 ^ 3) = 0 \<and> page_inv t) \<and> alloc_pages 1 9 page_alloc_init = (0, page_alloc_init)"
proof
  obtain pa t where a: "alloc_pages 1 3 page_alloc_init = (pa, t)" by fastforce
  have "\<exists>k. (2 :: nat) ^ 3 dvd k \<and> k + 2 ^ 3 \<le> POOL_PAGES \<and> {k..<k + 2 ^ 3} \<inter> used page_alloc_init = {}"
    by (intro exI [of _ 0]) (simp add: pool_eqs used_init)
  then have "pa \<noteq> 0" using alloc_pages_correct [OF page_inv_init a] by (simp add: pool_eqs)
  with a alloc_pages_correct [OF page_inv_init a] show "\<exists>pa t. alloc_pages 1 3 page_alloc_init = (pa, t) \<and> pa \<noteq> 0 \<and>
     unat pa mod (4096 * 2 ^ 3) = 0 \<and> page_inv t" by (intro exI [of _ pa] exI [of _ t]) simp
  obtain qa u where b: "alloc_pages 1 9 page_alloc_init = (qa, u)" by fastforce
  then show "alloc_pages 1 9 page_alloc_init = (0, page_alloc_init)"
    using alloc_pages_correct [OF page_inv_init b] by (simp add: pool_eqs split: if_splits)
qed

text \<open>C4: Freeing a block right after it was allocated restores the allocator's state exactly,
  bitmap words and counter included; freeing it a second time stops the kernel.\<close>

theorem free_pages_inverts_alloc:
  assumes "page_inv s" "alloc_pages g n s = (pa, t)" "pa \<noteq> 0"
  shows "free_pages pa n t = Inr s \<and> (\<exists>e. free_pages pa n s = Inl e)"
proof -
  have "free_pages pa n t = Inr s" by (rule pg.alloc_then_release [OF assms])
  moreover have "page_inv t" "is_block pa n" using alloc_pages_SomeD [OF assms] by auto
  ultimately show ?thesis using pg.double_release_stops by blast
qed

theorem free_pages_inverts_alloc_witness:
  "\<exists>pa t. alloc_pages 1 8 page_alloc_init = (pa, t) \<and> free_pages pa 8 t = Inr page_alloc_init"
proof -
  have "fst (alloc_pages 1 8 page_alloc_init) \<noteq> 0"
    using big_alloc_succeeds [OF page_inv_init, of 8 0] by (simp add: pool_eqs used_init)
  then obtain pa t where "alloc_pages 1 8 page_alloc_init = (pa, t)" "pa \<noteq> 0"
    by (metis prod.collapse)
  with free_pages_inverts_alloc [OF page_inv_init this] show ?thesis by blast
qed

text \<open>The boot self-test passes and leaves the allocator as it found it, from every consistent
  state that still has one free block of the largest order.\<close>

lemma page_alloc_selftest_passes:
  assumes "page_inv s" "2 ^ PAGE_MAX_ORDER dvd k" "k + 2 ^ PAGE_MAX_ORDER \<le> POOL_PAGES"
    "{k..<k + 2 ^ PAGE_MAX_ORDER} \<inter> used s = {}"
  shows "page_alloc_selftest s = Inr (True, s)"
proof -
  have "used s \<subseteq> {..<POOL_PAGES} - {k..<k + 2 ^ PAGE_MAX_ORDER}"
    using assms(4) used_bounded [of s] by auto
  then have "card (used s) \<le> card ({..<POOL_PAGES} - {k..<k + 2 ^ PAGE_MAX_ORDER})"
    by (intro card_mono) auto
  also have "\<dots> = POOL_PAGES - 256"
    using assms(3) by (subst card_Diff_subset) (auto simp: pool_eqs)
  finally have "card (used s) + SELFTEST_ORDER0_N \<le> POOL_PAGES" by (simp add: pool_eqs vx_consts)
  then obtain js t where t: "selftest_alloc SELFTEST_ORDER0_N [] s = (Some (map page_addr js), t)"
    "page_inv t" "distinct js" "set js \<inter> used s = {}" "used t = used s \<union> set js"
    using selftest_alloc_ok [OF assms(1), of SELFTEST_ORDER0_N "[]"] by auto
  obtain u where u: "selftest_free (map page_addr js) t = Inr u" "page_inv u" "used u = used t - set js"
    using selftest_free_ok [OF t(2) _ t(3)] t(5) by auto
  have "used u = used s" using u(3) t(4,5) by auto
  then have [simp]: "u = s" using u(2) assms(1) by (intro page_state_eqI)
  obtain big v where a: "alloc_pages 1 PAGE_MAX_ORDER s = (big, v)" by fastforce
  have big: "big \<noteq> 0" using big_alloc_succeeds [OF assms(1) _ assms(2-4), of 1] a by simp
  have "is_block big PAGE_MAX_ORDER" using alloc_pages_SomeD(1) [OF assms(1) a big] .
  then show ?thesis
    using t(1) u(1) a big big_block_mask pg.alloc_then_release [OF assms(1) a big]
    by (simp add: page_alloc_selftest_def)
qed

theorem page_alloc_selftest_passes_witness:
  "page_alloc_selftest page_alloc_init = Inr (True, page_alloc_init)"
  by (rule page_alloc_selftest_passes [OF page_inv_init, of 0])
    (simp_all add: used_init pool_eqs)

end
