(* ===== verification/Vfs.thy ===== *)
theory Vfs
  imports Fat32 Uart Page_Alloc
begin

section \<open>The virtual file system (\<open>kernel/src/kernel/fs/vfs.c\<close>)\<close>

text \<open>
  The mount table, the per-task descriptor tables and the operations that dispatch to the mounted
  file systems.  The record \<open>sys\<close> is the state these operations and the file systems share: it
  extends the console's state (with the scheduler, whose tasks hold the descriptor tables) by the
  mount table, the boot descriptor table, the page allocator that \<open>/proc\<close> reports on, the FAT32 driver
  and the registry of character devices.

  A \<open>struct vfs_operations\<close> is a record of functions on that state; a pointer to one is a number, and
  the argument \<open>Ops\<close> gives the structure at a number.  A null entry is \<open>None\<close>.  Every call into a file
  system can run into a fault, or not return: \<open>None\<close> is a call that has not returned, because it
  loops or because the caller waits for input.

  Data read through a call is its second result; data to write is a list.
\<close>

subsection \<open>State\<close>

definition MAX_MOUNTS :: nat where [vx_consts]: "MAX_MOUNTS = 4"
definition O_RDONLY :: int where [vx_consts]: "O_RDONLY = 0"
definition O_WRONLY :: int where [vx_consts]: "O_WRONLY = 1"
definition O_RDWR :: int where [vx_consts]: "O_RDWR = 2"
definition O_ACCMODE :: int where [vx_consts]: "O_ACCMODE = 3"
definition O_CREAT :: int where [vx_consts]: "O_CREAT = 4"
definition O_TRUNC :: int where [vx_consts]: "O_TRUNC = 8"
definition O_APPEND :: int where [vx_consts]: "O_APPEND = 16"

record vfs_mount_entry =
  mount_point :: cstring
  m_ops :: "nat option"
  mp_len :: nat
  m_in_use :: bool

datatype dev_fn = NullDev | TtyDev

record char_device =
  cd_name :: cstring
  cd_read :: "dev_fn option"
  cd_write :: "dev_fn option"

record ('u, 'w) sys = "'u uart_state" +
  boot_fd_table :: "vfs_fd list"
  mount_table :: "vfs_mount_entry list"
  sys_pages :: page_state
  fat :: "'w fat_state"
  cdevs :: "char_device list"

type_synonym 'a res = "(fault + 'a) option"
type_synonym file_info = "cstring \<times> u32"

record 's vfs_operations =
  vo_lookup :: "cstring \<Rightarrow> 's \<Rightarrow> (int \<times> 's) res"
  vo_read :: "(int \<Rightarrow> u32 \<Rightarrow> u32 \<Rightarrow> 's \<Rightarrow> (int \<times> u8 list \<times> 's) res) option"
  vo_get_file_count :: "('s \<Rightarrow> int) option"
  vo_get_file_info :: "(int \<Rightarrow> 's \<Rightarrow> int \<times> file_info option) option"
  vo_listdir :: "(cstring \<Rightarrow> u32 \<Rightarrow> 's \<Rightarrow> (int \<times> file_info list \<times> 's) res) option"
  vo_create :: "(cstring \<Rightarrow> 's \<Rightarrow> (int \<times> 's) res) option"
  vo_write :: "(int \<Rightarrow> u32 \<Rightarrow> u8 list \<Rightarrow> 's \<Rightarrow> (int \<times> 's) res) option"
  vo_truncate :: "(int \<Rightarrow> u32 \<Rightarrow> 's \<Rightarrow> (int \<times> 's) res) option"
  vo_unlink :: "(cstring \<Rightarrow> 's \<Rightarrow> (int \<times> 's) res) option"
  vo_rename :: "(cstring \<Rightarrow> cstring \<Rightarrow> 's \<Rightarrow> (int \<times> 's) res) option"

type_synonym ('u, 'w) ops_mem = "nat \<Rightarrow> ('u, 'w) sys vfs_operations"

text \<open>Sequencing of such calls.\<close>

definition rbind :: "'a res \<Rightarrow> ('a \<Rightarrow> 'b res) \<Rightarrow> 'b res" where
  "rbind m f = (case m of None \<Rightarrow> None | Some (Inl e) \<Rightarrow> Some (Inl e) | Some (Inr x) \<Rightarrow> f x)"

abbreviation ret :: "'a \<Rightarrow> 'a res" where "ret x \<equiv> Some (Inr x)"

lemma rbind_simps [simp]: "rbind None f = None" "rbind (Some (Inl e)) f = Some (Inl e)" "rbind (Some (Inr x)) f = f x"
  by (simp_all add: rbind_def)

lemma rbind_InrE:
  assumes "rbind m f = ret y"
  obtains x where "m = ret x" "f x = ret y"
  using assms by (auto simp: rbind_def split: option.splits sum.splits)

text \<open>\<open>current_fds\<close>: the table of the current task, or the boot table; and a store into it.\<close>

definition current_fds :: "('u, 'w) sys \<Rightarrow> vfs_fd list" where
  "current_fds s = (case scheduler_current_task (usc s) of Some t \<Rightarrow> t_files (tmem (usc s) t) | None \<Rightarrow> boot_fd_table s)"

definition set_fds :: "(vfs_fd list \<Rightarrow> vfs_fd list) \<Rightarrow> ('u, 'w) sys \<Rightarrow> ('u, 'w) sys" where
  "set_fds g s = (case scheduler_current_task (usc s) of
      Some t \<Rightarrow> s\<lparr>usc := upd_task t (\<lambda>x. x\<lparr>t_files := g (t_files x)\<rparr>) (usc s)\<rparr>
    | None \<Rightarrow> s\<lparr>boot_fd_table := g (boot_fd_table s)\<rparr>)"

definition free_fd :: vfs_fd where
  "free_fd = \<lparr>fd_in_use = False, fd_file_index = 0, fd_offset = 0, fd_flags = 0, fd_ops = None\<rparr>"

definition vfs_init :: "('u, 'w) sys \<Rightarrow> ('u, 'w) sys" where
  "vfs_init s = s\<lparr>boot_fd_table := replicate MAX_FDS free_fd,
     mount_table := replicate MAX_MOUNTS \<lparr>mount_point = [], m_ops = None, mp_len = 0, m_in_use = False\<rparr>\<rparr>"

definition vfs_mount :: "cstring \<Rightarrow> nat \<Rightarrow> ('u, 'w) sys \<Rightarrow> int \<times> ('u, 'w) sys" where
  "vfs_mount mp ops s =
     (case first_idx (\<lambda>i. \<not> m_in_use (mount_table s ! i)) 0 MAX_MOUNTS of
        None \<Rightarrow> (E_FAIL, s)
      | Some slot \<Rightarrow> (E_OK, s\<lparr>mount_table := (mount_table s)[slot :=
          \<lparr>mount_point = mp, m_ops = Some ops, mp_len = strlen mp, m_in_use = True\<rparr>]\<rparr>))"

subsection \<open>Path resolution\<close>

definition resolve_root :: "('u, 'w) sys \<Rightarrow> nat option" where
  "resolve_root s =
     (case first_idx (\<lambda>i. m_in_use (mount_table s ! i) \<and> mp_len (mount_table s ! i) = 1 \<and>
          mount_point (mount_table s ! i) ! 0 = CH_SLASH) 0 MAX_MOUNTS of
        Some i \<Rightarrow> m_ops (mount_table s ! i) | None \<Rightarrow> None)"

text \<open>Whether a mount matches: \<open>path[mp_len]\<close> is the terminating NUL when the path ends there.\<close>

definition mount_matches :: "cstring \<Rightarrow> vfs_mount_entry \<Rightarrow> bool" where
  "mount_matches path m \<longleftrightarrow> m_in_use m \<and> strncmp path (mount_point m) (mp_len m) = 0 \<and>
     (mount_point m ! (mp_len m - 1) = CH_SLASH \<or>
      (let nxt = (if mp_len m < length path then path ! mp_len m else 0) in nxt = CH_SLASH \<or> nxt = 0))"

fun resolve_best :: "cstring \<Rightarrow> vfs_mount_entry list \<Rightarrow> nat list \<Rightarrow> (nat \<times> nat) option \<Rightarrow> (nat \<times> nat) option" where
  "resolve_best path ms [] best = best"
| "resolve_best path ms (i # js) best =
     (if mount_matches path (ms ! i) \<and> (case best of None \<Rightarrow> True | Some (b, best_len) \<Rightarrow> mp_len (ms ! i) > best_len)
      then resolve_best path ms js (Some (i, mp_len (ms ! i)))
      else resolve_best path ms js best)"

text \<open>The result is the pointer to the operations, with the path below the mount.\<close>

definition resolve :: "cstring \<Rightarrow> ('u, 'w) sys \<Rightarrow> (nat \<times> cstring) option" where
  "resolve path s =
     (if chr0 path \<noteq> CH_SLASH then map_option (\<lambda>ops. (ops, path)) (resolve_root s)
      else case resolve_best path (mount_table s) [0..<MAX_MOUNTS] None of
        None \<Rightarrow> None
      | Some (best, best_len) \<Rightarrow>
          map_option (\<lambda>ops. (ops, dropWhile (\<lambda>c. c = CH_SLASH) (drop best_len path))) (m_ops (mount_table s ! best)))"

subsection \<open>Files\<close>

definition fd_free_slot :: "vfs_fd list \<Rightarrow> nat option" where
  "fd_free_slot fds = first_idx (\<lambda>i. \<not> fd_in_use (fds ! i)) 3 MAX_FDS"

definition bad_fd :: "int \<Rightarrow> ('u, 'w) sys \<Rightarrow> bool" where
  "bad_fd fd s \<longleftrightarrow> fd < 0 \<or> fd \<ge> int MAX_FDS \<or> \<not> fd_in_use (current_fds s ! nat fd)"

text \<open>Finding or creating the file, and truncating it; \<open>Inl\<close> is the value \<open>vfs_open\<close> returns at once.\<close>

definition open_file :: "('u, 'w) sys vfs_operations \<Rightarrow> cstring \<Rightarrow> int \<Rightarrow> ('u, 'w) sys \<Rightarrow> ((int + int) \<times> ('u, 'w) sys) res" where
  "open_file fs rest flags s0 =
     rbind (vo_lookup fs rest s0) (\<lambda>(idx, s).
       if idx < 0 then
         (case vo_create fs of
            Some create \<Rightarrow> if flags AND O_CREAT \<noteq> 0
              then rbind (create rest s) (\<lambda>(idx', s'). ret (if idx' < 0 then Inl idx' else Inr idx', s'))
              else ret (Inl E_NOENT, s)
          | None \<Rightarrow> ret (Inl E_NOENT, s))
       else if flags AND O_TRUNC \<noteq> 0 then
         (case vo_truncate fs of
            Some trunc \<Rightarrow> rbind (trunc idx 0 s) (\<lambda>(r, s'). ret (if r < 0 then Inl r else Inr idx, s'))
          | None \<Rightarrow> ret (Inr idx, s))
       else ret (Inr idx, s))"

definition start_offset :: "('u, 'w) sys vfs_operations \<Rightarrow> int \<Rightarrow> int \<Rightarrow> ('u, 'w) sys \<Rightarrow> u32" where
  "start_offset fs idx flags s =
     (if flags AND O_APPEND = 0 then 0
      else case vo_get_file_info fs of
        None \<Rightarrow> 0
      | Some info \<Rightarrow> (case info idx s of (rc, Some (nm, sz)) \<Rightarrow> if rc = E_OK then sz else 0 | (rc, None) \<Rightarrow> 0))"

definition vfs_open :: "('u, 'w) ops_mem \<Rightarrow> cstring \<Rightarrow> int \<Rightarrow> ('u, 'w) sys \<Rightarrow> (int \<times> ('u, 'w) sys) res" where
  "vfs_open Ops path flags s0 =
     (let access = flags AND O_ACCMODE in
      if access \<noteq> O_RDONLY \<and> access \<noteq> O_WRONLY \<and> access \<noteq> O_RDWR then ret (E_ARG, s0)
      else case resolve path s0 of
        None \<Rightarrow> ret (E_NOENT, s0)
      | Some (p, rest) \<Rightarrow>
          if (access = O_WRONLY \<or> access = O_RDWR) \<and> vo_write (Ops p) = None then ret (E_PERM, s0)
          else rbind (open_file (Ops p) rest flags s0) (\<lambda>(r, s). case r of
            Inl e \<Rightarrow> ret (e, s)
          | Inr idx \<Rightarrow> (case fd_free_slot (current_fds s) of
              None \<Rightarrow> ret (E_MFILE, s)
            | Some fd \<Rightarrow> ret (int fd, set_fds (\<lambda>fds. fds[fd := \<lparr>fd_in_use = True, fd_file_index = of_int idx,
                  fd_offset = start_offset (Ops p) idx flags s, fd_flags = flags, fd_ops = Some p\<rparr>]) s))))"

definition advance :: "int \<Rightarrow> int \<Rightarrow> ('u, 'w) sys \<Rightarrow> ('u, 'w) sys" where
  "advance fd n s = (if n > 0 then set_fds (\<lambda>fds. fds[nat fd := (fds ! nat fd)\<lparr>fd_offset := fd_offset (fds ! nat fd) + of_int n\<rparr>]) s else s)"

definition vfs_read :: "('u, 'w) ops_mem \<Rightarrow> int \<Rightarrow> u32 \<Rightarrow> ('u, 'w) sys \<Rightarrow> (int \<times> u8 list \<times> ('u, 'w) sys) res" where
  "vfs_read Ops fd len s =
     (if bad_fd fd s then ret (E_BADF, [], s)
      else let f = current_fds s ! nat fd in
        case fd_ops f of
          None \<Rightarrow> ret (E_FAIL, [], s)
        | Some p \<Rightarrow> (case vo_read (Ops p) of
            None \<Rightarrow> ret (E_FAIL, [], s)
          | Some rd \<Rightarrow> rbind (rd (sint (fd_file_index f)) (fd_offset f) len s)
              (\<lambda>(n, bytes, s'). ret (n, bytes, advance fd n s'))))"

definition vfs_write :: "('u, 'w) ops_mem \<Rightarrow> int \<Rightarrow> u8 list \<Rightarrow> ('u, 'w) sys \<Rightarrow> (int \<times> ('u, 'w) sys) res" where
  "vfs_write Ops fd data s =
     (if bad_fd fd s then ret (E_BADF, s)
      else let f = current_fds s ! nat fd; access = fd_flags f AND O_ACCMODE in
        if access \<noteq> O_WRONLY \<and> access \<noteq> O_RDWR then ret (E_PERM, s)
        else case fd_ops f of
          None \<Rightarrow> ret (E_PERM, s)
        | Some p \<Rightarrow> (case vo_write (Ops p) of
            None \<Rightarrow> ret (E_PERM, s)
          | Some wr \<Rightarrow> rbind (wr (sint (fd_file_index f)) (fd_offset f) data s) (\<lambda>(n, s'). ret (n, advance fd n s'))))"

definition vfs_close :: "int \<Rightarrow> ('u, 'w) sys \<Rightarrow> int \<times> ('u, 'w) sys" where
  "vfs_close fd s = (if bad_fd fd s then (E_BADF, s) else (E_OK, set_fds (\<lambda>fds. fds[nat fd := free_fd]) s))"

definition vfs_dup :: "int \<Rightarrow> ('u, 'w) sys \<Rightarrow> int \<times> ('u, 'w) sys" where
  "vfs_dup oldfd s =
     (if bad_fd oldfd s then (E_BADF, s)
      else case fd_free_slot (current_fds s) of
        None \<Rightarrow> (E_MFILE, s)
      | Some i \<Rightarrow> (int i, set_fds (\<lambda>fds. fds[i := fds ! nat oldfd]) s))"

definition vfs_dup2 :: "int \<Rightarrow> int \<Rightarrow> ('u, 'w) sys \<Rightarrow> int \<times> ('u, 'w) sys" where
  "vfs_dup2 oldfd newfd s =
     (if bad_fd oldfd s then (E_BADF, s)
      else if newfd < 0 \<or> newfd \<ge> int MAX_FDS then (E_BADF, s)
      else if oldfd = newfd then (newfd, s)
      else (newfd, set_fds (\<lambda>fds. fds[nat newfd := fds ! nat oldfd]) s))"

definition vfs_unlink :: "('u, 'w) ops_mem \<Rightarrow> cstring \<Rightarrow> ('u, 'w) sys \<Rightarrow> (int \<times> ('u, 'w) sys) res" where
  "vfs_unlink Ops path s =
     (case resolve path s of
        None \<Rightarrow> ret (E_PERM, s)
      | Some (p, rest) \<Rightarrow> (case vo_unlink (Ops p) of None \<Rightarrow> ret (E_PERM, s) | Some unlink \<Rightarrow> unlink rest s))"

definition vfs_rename :: "('u, 'w) ops_mem \<Rightarrow> cstring \<Rightarrow> cstring \<Rightarrow> ('u, 'w) sys \<Rightarrow> (int \<times> ('u, 'w) sys) res" where
  "vfs_rename Ops old_path new_path s =
     (case (resolve old_path s, resolve new_path s) of
        (Some (p, old_rest), Some (p', new_rest)) \<Rightarrow>
          if p \<noteq> p' then ret (E_PERM, s)
          else (case vo_rename (Ops p) of None \<Rightarrow> ret (E_PERM, s) | Some rename \<Rightarrow> rename old_rest new_rest s)
      | _ \<Rightarrow> ret (E_NOENT, s))"

fun listdir_loop :: "(int \<Rightarrow> int \<times> file_info option) \<Rightarrow> int \<Rightarrow> nat list \<Rightarrow> file_info list \<Rightarrow> file_info list" where
  "listdir_loop info mx [] acc = acc"
| "listdir_loop info mx (i # js) acc =
     (if int (length acc) < mx then
        (case info (int i) of (rc, e) \<Rightarrow>
           listdir_loop info mx js (if rc = E_OK then acc @ (case e of Some x \<Rightarrow> [x] | None \<Rightarrow> []) else acc))
      else acc)"

definition vfs_listdir :: "('u, 'w) ops_mem \<Rightarrow> cstring \<Rightarrow> u32 \<Rightarrow> ('u, 'w) sys \<Rightarrow> (int \<times> file_info list \<times> ('u, 'w) sys) res" where
  "vfs_listdir Ops path max_entries s =
     (case resolve path s of
        None \<Rightarrow> ret (E_NOENT, [], s)
      | Some (p, rest) \<Rightarrow> (case vo_listdir (Ops p) of
          Some ld \<Rightarrow> ld rest max_entries s
        | None \<Rightarrow>
            if rest \<noteq> [] then ret (E_NOENT, [], s)
            else (case (vo_get_file_count (Ops p), vo_get_file_info (Ops p)) of
                (Some cnt, Some info) \<Rightarrow>
                  let total = cnt s in
                  if total < 0 then ret (total, [], s)
                  else let out = listdir_loop (\<lambda>i. info i s) (sint max_entries) [0..<nat total] []
                    in ret (int (length out), out, s)
              | _ \<Rightarrow> ret (E_NOENT, [], s))))"

end
