(* ===== verification/Devfs.thy ===== *)
theory Devfs
  imports Vfs
begin

section \<open>Character devices, \<open>/dev\<close> and \<open>/proc\<close>\<close>

text \<open>
  The registry of character devices (\<open>kernel/src/kernel/dev/char_dev.c\<close>), the file system over it
  (\<open>kernel/src/kernel/fs/devfs.c\<close>) with its two devices, and the generated files of
  \<open>kernel/src/kernel/fs/procfs.c\<close>; at the end the operation tables of the three file systems.

  \<open>B\<close> is the bus of the console and \<open>D\<close> the memory of the block devices.  A read of \<open>/dev/tty\<close> waits
  for input; with an empty receive ring the call has not returned.  The sizes of the kernel image in
  \<open>/proc/meminfo\<close> come from the linker and are a parameter.
\<close>

subsection \<open>The registry\<close>

definition MAX_CHAR_DEVS :: nat where [vx_consts]: "MAX_CHAR_DEVS = 16"

definition char_dev_register :: "char_device \<Rightarrow> ('u, 'w) sys \<Rightarrow> int \<times> ('u, 'w) sys" where
  "char_dev_register d s =
     (if length (cdevs s) \<ge> MAX_CHAR_DEVS then (- 1, s)
      else (int (length (cdevs s)), s\<lparr>cdevs := cdevs s @ [d]\<rparr>))"

definition char_dev_count :: "('u, 'w) sys \<Rightarrow> int" where
  "char_dev_count s = int (length (cdevs s))"

definition char_dev_at :: "u32 \<Rightarrow> ('u, 'w) sys \<Rightarrow> char_device option" where
  "char_dev_at i s = (if unat i \<ge> length (cdevs s) then None else Some (cdevs s ! unat i))"

definition char_dev_find :: "cstring \<Rightarrow> ('u, 'w) sys \<Rightarrow> int" where
  "char_dev_find name s =
     (case first_idx (\<lambda>i. strcmp (cd_name (cdevs s ! i)) name = 0) 0 (length (cdevs s)) of
        Some i \<Rightarrow> int i | None \<Rightarrow> - 1)"

subsection \<open>\<open>/dev\<close>\<close>

definition null_read :: "u32 \<Rightarrow> u32 \<Rightarrow> ('u, 'w) sys \<Rightarrow> (int \<times> u8 list \<times> ('u, 'w) sys) res" where
  "null_read off len s = ret (0, [], s)"

definition null_write :: "u32 \<Rightarrow> u8 list \<Rightarrow> ('u, 'w) sys \<Rightarrow> (int \<times> ('u, 'w) sys) res" where
  "null_write off data s = ret (int_cast (length data), s)"

definition tty_read :: "u32 \<Rightarrow> u32 \<Rightarrow> ('u, 'w) sys \<Rightarrow> (int \<times> u8 list \<times> ('u, 'w) sys) res" where
  "tty_read off len s =
     (if len = 0 then ret (0, [], s)
      else if uart_rx_available s > 0
      then (case uart_getc s of (c, s') \<Rightarrow> if c < 0 then ret (0, [], s') else ret (1, [of_int c], s'))
      else None)"

definition tty_write :: "'u bus \<Rightarrow> u32 \<Rightarrow> u8 list \<Rightarrow> ('u, 'w) sys \<Rightarrow> (int \<times> ('u, 'w) sys) res" where
  "tty_write B off data s =
     (case putc_all B (crlf data) (ihw s) of
        None \<Rightarrow> None | Some w \<Rightarrow> ret (int_cast (length data), s\<lparr>ihw := w\<rparr>))"

definition devfs_lookup :: "cstring \<Rightarrow> ('u, 'w) sys \<Rightarrow> (int \<times> ('u, 'w) sys) res" where
  "devfs_lookup name s = ret (char_dev_find name s, s)"

definition devfs_read :: "int \<Rightarrow> u32 \<Rightarrow> u32 \<Rightarrow> ('u, 'w) sys \<Rightarrow> (int \<times> u8 list \<times> ('u, 'w) sys) res" where
  "devfs_read idx off len s =
     (case char_dev_at (of_int idx) s of
        None \<Rightarrow> ret (E_FAIL, [], s)
      | Some d \<Rightarrow> (case cd_read d of
          None \<Rightarrow> ret (E_FAIL, [], s)
        | Some NullDev \<Rightarrow> null_read off len s
        | Some TtyDev \<Rightarrow> tty_read off len s))"

definition devfs_write :: "'u bus \<Rightarrow> int \<Rightarrow> u32 \<Rightarrow> u8 list \<Rightarrow> ('u, 'w) sys \<Rightarrow> (int \<times> ('u, 'w) sys) res" where
  "devfs_write B idx off data s =
     (case char_dev_at (of_int idx) s of
        None \<Rightarrow> ret (E_PERM, s)
      | Some d \<Rightarrow> (case cd_write d of
          None \<Rightarrow> ret (E_PERM, s)
        | Some NullDev \<Rightarrow> null_write off data s
        | Some TtyDev \<Rightarrow> tty_write B off data s))"

definition devfs_get_file_count :: "('u, 'w) sys \<Rightarrow> int" where
  "devfs_get_file_count s = char_dev_count s"

definition devfs_get_file_info :: "int \<Rightarrow> ('u, 'w) sys \<Rightarrow> int \<times> file_info option" where
  "devfs_get_file_info i s =
     (case char_dev_at (of_int i) s of
        None \<Rightarrow> (E_NOENT, None) | Some d \<Rightarrow> (E_OK, Some (take 31 (cd_name d), 0)))"

definition devfs_listdir :: "cstring \<Rightarrow> u32 \<Rightarrow> ('u, 'w) sys \<Rightarrow> (int \<times> file_info list \<times> ('u, 'w) sys) res" where
  "devfs_listdir path mx s =
     (if path \<noteq> [] then ret (E_NOENT, [], s)
      else let out = take (unat mx) (map (\<lambda>d. (take 31 (cd_name d), 0)) (cdevs s)) in ret (int_cast (length out), out, s))"

definition null_dev :: char_device where
  "null_dev = \<lparr>cd_name = cstr ''null'', cd_read = Some NullDev, cd_write = Some NullDev\<rparr>"

definition tty_dev :: char_device where
  "tty_dev = \<lparr>cd_name = cstr ''tty'', cd_read = Some TtyDev, cd_write = Some TtyDev\<rparr>"

definition devfs_ops :: "'u bus \<Rightarrow> ('u, 'w) sys vfs_operations" where
  "devfs_ops B = \<lparr>vo_lookup = devfs_lookup, vo_read = Some devfs_read, vo_get_file_count = Some devfs_get_file_count,
     vo_get_file_info = Some devfs_get_file_info, vo_listdir = Some devfs_listdir, vo_create = None,
     vo_write = Some (devfs_write B), vo_truncate = None, vo_unlink = None, vo_rename = None\<rparr>"

definition devfs_init :: "('u, 'w) sys \<Rightarrow> ('u, 'w) sys" where
  "devfs_init s = snd (char_dev_register null_dev (snd (char_dev_register tty_dev s)))"

subsection \<open>\<open>/proc\<close>\<close>

definition PROCFS_STATIC_FILES :: int where [vx_consts]: "PROCFS_STATIC_FILES = 3"
definition PROCFS_STATUS_BASE :: int where [vx_consts]: "PROCFS_STATUS_BASE = 3"
definition PROCFS_GEN_BUF :: nat where [vx_consts]: "PROCFS_GEN_BUF = 512"

text \<open>\<open>ksnprintf(gen_buf, PROCFS_GEN_BUF, \<dots>)\<close>: the length it returns and the buffer.  The earlier
  contents of the buffer are never read.\<close>

definition gen :: "cstring \<Rightarrow> fmt_arg list \<Rightarrow> int \<times> u8 list" where
  "gen fmt ap = (case ksnprintf (Some (replicate PROCFS_GEN_BUF 0)) (of_nat PROCFS_GEN_BUF) fmt ap of (n, st) \<Rightarrow>
     (n, case fo_buf st of Some b \<Rightarrow> b | None \<Rightarrow> []))"

definition NL :: cstring where "NL = [10]"

type_synonym image_sizes = "u32 \<times> u32 \<times> u32"

definition gen_meminfo :: "image_sizes \<Rightarrow> ('u, 'w) sys \<Rightarrow> int \<times> u8 list" where
  "gen_meminfo sizes s = (case sizes of (text, data, bss) \<Rightarrow>
     let bc = cache (fio (fat s)) in
     gen (cstr ''MemTotal:      %10u kB'' @ NL @ cstr ''PoolTotal:     %10u kB'' @ NL @
          cstr ''PoolFree:      %10u kB'' @ NL @ cstr ''KernelText:    %10u bytes'' @ NL @
          cstr ''KernelData:    %10u bytes'' @ NL @ cstr ''KernelBSS:     %10u bytes'' @ NL @
          cstr ''BufCacheHits:  %10u'' @ NL @ cstr ''BufCacheMiss:  %10u'' @ NL)
       [AInt (128 * 1024), AInt (page_alloc_total_pages * 4), AInt (page_alloc_free_pages (sys_pages s) * 4),
        AInt text, AInt data, AInt bss, AInt (bcache_hits bc), AInt (bcache_misses bc)])"

definition gen_version :: "int \<times> u8 list" where
  "gen_version = gen (cstr ''VinixOS 0.1 (armv7-a) BeagleBone Black'' @ NL @ cstr ''Built with arm-none-eabi-gcc'' @ NL @
     cstr ''100%% hand-written '' @ [0xE2, 0x80, 0x94] @ cstr '' kernel, libc, userspace'' @ NL) []"

definition gen_mounts :: "int \<times> u8 list" where
  "gen_mounts = gen (cstr ''/      fat32'' @ NL @ cstr ''/dev   devfs'' @ NL @ cstr ''/proc  procfs'' @ NL) []"

definition state_str :: "u32 \<Rightarrow> cstring" where
  "state_str c = (if c = state_code READY then cstr ''READY'' else if c = state_code RUNNING then cstr ''RUNNING''
     else if c = state_code BLOCKED then cstr ''BLOCKED'' else if c = state_code ZOMBIE then cstr ''ZOMBIE'' else cstr ''???'')"

definition gen_pid_status :: "nat \<Rightarrow> ('u, 'w) sys \<Rightarrow> int \<times> u8 list" where
  "gen_pid_status slot s = (case tasks_array_get slot (usc s) of
     None \<Rightarrow> (0, [])
   | Some p \<Rightarrow> let t = tmem (usc s) p in
       gen (cstr ''Name:         %s'' @ NL @ cstr ''Pid:          %d'' @ NL @ cstr ''PPid:         %d'' @ NL @
            cstr ''State:        %s'' @ NL @ cstr ''ExitStatus:   %d'' @ NL @ cstr ''StackBase:    0x%08x'' @ NL @
            cstr ''StackSize:    %u bytes'' @ NL @ cstr ''Pgd:          0x%08x'' @ NL)
         [AStr (Some (case tname t of Some n \<Rightarrow> n | None \<Rightarrow> cstr ''(unnamed)'')), AInt (of_int (t_pid t)), AInt (of_int (t_ppid t)),
          AStr (Some (state_str (state_code (tstate t)))), AInt (of_int (t_exit_status t)), AInt (stack_base t),
          AInt (stack_size t), AInt (pgd_pa t)])"

definition regenerate :: "image_sizes \<Rightarrow> int \<Rightarrow> ('u, 'w) sys \<Rightarrow> int \<times> u8 list" where
  "regenerate sizes file_index s =
     (if file_index = 0 then gen_meminfo sizes s
      else if file_index = 1 then gen_version
      else if file_index = 2 then gen_mounts
      else let slot = file_index - PROCFS_STATUS_BASE in
        if slot \<ge> 0 \<and> slot < int MAX_TASKS then gen_pid_status (nat slot) s else (0, []))"

text \<open>\<open>split_component\<close> into an array of \<open>cap\<close> bytes: the first component, and the rest when a slash
  follows.\<close>

definition split_component :: "cstring \<Rightarrow> nat \<Rightarrow> cstring \<times> cstring option" where
  "split_component path cap =
     (let first = take (cap - 1) (takeWhile (\<lambda>c. c \<noteq> CH_SLASH) path); p = drop (length first) path
      in (first, case p of c # r \<Rightarrow> if c = CH_SLASH then Some r else None | [] \<Rightarrow> None))"

text \<open>The accumulator is a 32-bit \<open>int\<close>.\<close>

fun parse_digits :: "cstring \<Rightarrow> u32 \<Rightarrow> u32 \<times> cstring" where
  "parse_digits [] v = (v, [])"
| "parse_digits (c # s) v = (if c \<ge> 48 \<and> c \<le> 57 then parse_digits s (v * 10 + (ucast c - 48)) else (v, c # s))"

definition parse_pid :: "cstring \<Rightarrow> int option" where
  "parse_pid s = (case parse_digits s 0 of (v, rest) \<Rightarrow> if rest = s \<or> rest \<noteq> [] then None else Some (sint v))"

definition pid_slot :: "cstring \<Rightarrow> ('u, 'w) sys \<Rightarrow> nat option" where
  "pid_slot name s = (case parse_pid name of
     None \<Rightarrow> None
   | Some pid \<Rightarrow> if pid < 0 \<or> pid \<ge> int MAX_TASKS then None
       else if tasks_array_get (nat pid) (usc s) = None then None else Some (nat pid))"

definition procfs_lookup :: "cstring \<Rightarrow> ('u, 'w) sys \<Rightarrow> (int \<times> ('u, 'w) sys) res" where
  "procfs_lookup name s =
     (if name = [] then ret (E_NOENT, s)
      else if strcmp name (cstr ''meminfo'') = 0 then ret (0, s)
      else if strcmp name (cstr ''version'') = 0 then ret (1, s)
      else if strcmp name (cstr ''mounts'') = 0 then ret (2, s)
      else case split_component name 8 of (head, rest) \<Rightarrow>
        case rest of
          None \<Rightarrow> ret (E_NOENT, s)
        | Some r \<Rightarrow> (case pid_slot head s of
            None \<Rightarrow> ret (E_NOENT, s)
          | Some pid \<Rightarrow> if strcmp r (cstr ''status'') \<noteq> 0 then ret (E_NOENT, s) else ret (PROCFS_STATUS_BASE + int pid, s)))"

definition procfs_read :: "image_sizes \<Rightarrow> int \<Rightarrow> u32 \<Rightarrow> u32 \<Rightarrow> ('u, 'w) sys \<Rightarrow> (int \<times> u8 list \<times> ('u, 'w) sys) res" where
  "procfs_read sizes file_index off len s =
     (case regenerate sizes file_index s of (n, buf) \<Rightarrow>
        if n \<le> 0 then ret (0, [], s)
        else if int (unat off) \<ge> n then ret (0, [], s)
        else let avail = nat n - unat off; k = (if unat len < avail then unat len else avail) in
          if unat off + k > length buf then Some (Inl OutOfBounds)
          else ret (int_cast k, take k (drop (unat off) buf), s))"

definition procfs_statics :: "cstring list" where
  "procfs_statics = [cstr ''meminfo'', cstr ''version'', cstr ''mounts'']"

definition slot_name :: "nat \<Rightarrow> cstring" where
  "slot_name slot = fmt_text (cstr ''%u'') [AInt (of_nat slot)]"

definition live_slots :: "('u, 'w) sys \<Rightarrow> nat list" where
  "live_slots s = filter (\<lambda>i. tasks_array_get i (usc s) \<noteq> None) [0..<MAX_TASKS]"

definition procfs_listdir :: "cstring \<Rightarrow> u32 \<Rightarrow> ('u, 'w) sys \<Rightarrow> (int \<times> file_info list \<times> ('u, 'w) sys) res" where
  "procfs_listdir path mx s =
     (if path = [] then
        let out = take (unat mx) (map (\<lambda>n. (n, 0)) (procfs_statics @ map slot_name (live_slots s))) in ret (int_cast (length out), out, s)
      else case pid_slot path s of
        None \<Rightarrow> ret (E_NOENT, [], s)
      | Some pid \<Rightarrow> let out = take (unat mx) [(cstr ''status'', 0)] in ret (int_cast (length out), out, s))"

definition procfs_get_file_count :: "('u, 'w) sys \<Rightarrow> int" where
  "procfs_get_file_count s = PROCFS_STATIC_FILES + int (length (live_slots s))"

definition procfs_get_file_info :: "int \<Rightarrow> ('u, 'w) sys \<Rightarrow> int \<times> file_info option" where
  "procfs_get_file_info i s =
     (if i < 0 then (E_BADF, None)
      else if i < 3 then (E_OK, Some (procfs_statics ! nat i, 0))
      else let slot = i - PROCFS_STATUS_BASE in
        if slot < 0 \<or> slot \<ge> int MAX_TASKS then (E_BADF, None)
        else if tasks_array_get (nat slot) (usc s) = None then (E_BADF, None)
        else (E_OK, Some (slot_name (nat slot), 0)))"

definition procfs_ops :: "image_sizes \<Rightarrow> ('u, 'w) sys vfs_operations" where
  "procfs_ops sizes = \<lparr>vo_lookup = procfs_lookup, vo_read = Some (procfs_read sizes),
     vo_get_file_count = Some procfs_get_file_count, vo_get_file_info = Some procfs_get_file_info,
     vo_listdir = Some procfs_listdir, vo_create = None, vo_write = None, vo_truncate = None,
     vo_unlink = None, vo_rename = None\<rparr>"

subsection \<open>The table of FAT32\<close>

text \<open>The functions of the driver on the shared state.\<close>

definition on_fat :: "('w fat_state \<Rightarrow> (fault + 'a \<times> 'w fat_state) option) \<Rightarrow> ('u, 'w) sys \<Rightarrow> ('a \<times> ('u, 'w) sys) res" where
  "on_fat f s = map_option (map_sum id (\<lambda>(x, t). (x, s\<lparr>fat := t\<rparr>))) (f (fat s))"

definition total :: "('a \<times> 'w fat_state) option \<Rightarrow> (fault + 'a \<times> 'w fat_state) option" where
  "total = map_option Inr"

definition fat32_ops :: "'w bdev_mem \<Rightarrow> ('u, 'w) sys vfs_operations" where
  "fat32_ops D = \<lparr>vo_lookup = (\<lambda>path. on_fat (\<lambda>t. total (fat32_lookup D path t))),
     vo_read = Some (\<lambda>i off len s. rbind (on_fat (\<lambda>t. map_option (map_sum id (\<lambda>(n, bs, t'). ((n, bs), t'))) (fat32_read D i off len t)) s)
        (\<lambda>((n, bs), s'). ret (n, bs, s'))),
     vo_get_file_count = Some (\<lambda>s. fat32_get_file_count (fat s)),
     vo_get_file_info = Some (\<lambda>i s. fat32_get_file_info i (fat s)),
     vo_listdir = Some (\<lambda>path mx s. rbind (on_fat (\<lambda>t. total (map_option (\<lambda>(n, es, t'). ((n, es), t')) (fat32_listdir D path mx t))) s)
        (\<lambda>((n, es), s'). ret (n, es, s'))),
     vo_create = Some (\<lambda>name. on_fat (\<lambda>t. total (fat32_create D name t))),
     vo_write = Some (\<lambda>i off data. on_fat (fat32_write D i off data)),
     vo_truncate = Some (\<lambda>i sz. on_fat (\<lambda>t. total (fat32_truncate D i sz t))),
     vo_unlink = Some (\<lambda>path. on_fat (\<lambda>t. total (fat32_unlink D path t))),
     vo_rename = Some (\<lambda>old new. on_fat (\<lambda>t. total (fat32_rename D old new t)))\<rparr>"

text \<open>The three tables at their addresses.\<close>

definition vinix_ops :: "'u bus \<Rightarrow> 'w bdev_mem \<Rightarrow> image_sizes \<Rightarrow> ('u, 'w) ops_mem" where
  "vinix_ops B D sizes p = (if p = 0 then fat32_ops D else if p = 1 then devfs_ops B else procfs_ops sizes)"

end
