(* ===== verification/Fat32_Props.thy ===== *)
theory Fat32_Props
  imports Fat32
begin

section \<open>FAT32: what the driver guarantees\<close>

text \<open>
  The lemmas read the driver against the volume as the kernel sees it through the cache (\<open>vol\<close>).
  \<open>fat_entry\<close> is an entry of the FAT on that volume, \<open>chain_from\<close> a cluster chain, \<open>fdata\<close> the
  bytes in the clusters of a chain.  The client lemmas are proved once, in the locale of a sector
  device whose transfers succeed (\<open>reliable_device\<close>, an extension of \<open>sector_device\<close>), which the
  RAM disk interprets.  It is the case without I/O errors: the SD card is a \<open>sector_device\<close> (\<open>Mmc_Props\<close>), whose
  transfers may time out, and what the cache does then is shown in \<open>Block_Cache\<close>.

  The geometry (\<open>geom\<close>) is what a formatted volume guarantees: the copies of the FAT lie between
  the reserved sectors and the data area and no address wraps around.
\<close>

subsection \<open>A device without I/O errors\<close>

locale reliable_device = sector_device D sector for D :: "'w bdev_mem" and sector +
  assumes read_succeeds: "length buf = BCACHE_BLOCK_SIZE \<Longrightarrow> fst (block_read D (Some p) lba 1 buf w) = E_OK"
    and write_succeeds: "length buf = BCACHE_BLOCK_SIZE \<Longrightarrow> fst (block_write D (Some p) lba 1 buf w) = E_OK"

definition vol :: "('w \<Rightarrow> nat \<Rightarrow> u32 \<Rightarrow> u8 list) \<Rightarrow> 'w fat_state \<Rightarrow> u32 \<Rightarrow> u8 list" where
  "vol sector s = view sector (fio s) (the (fs_bdev s))"

definition fat_inv :: "('w \<Rightarrow> nat \<Rightarrow> u32 \<Rightarrow> u8 list) \<Rightarrow> 'w fat_state \<Rightarrow> bool" where
  "fat_inv sector s \<longleftrightarrow> fs_bdev s \<noteq> None \<and> cache_inv sector (fio s)"

text \<open>A step that changes nothing but the cache and the volume.\<close>

definition io_only :: "'w fat_state \<Rightarrow> 'w fat_state \<Rightarrow> bool" where
  "io_only s s' \<longleftrightarrow> s' = s\<lparr>fio := fio s'\<rparr>"

lemma io_only_refl [simp]: "io_only s s"
  by (simp add: io_only_def)

lemma io_onlyD: "io_only s s' \<Longrightarrow> ffs s' = ffs s \<and> file_table s' = file_table s \<and> file_count s' = file_count s \<and> fs_bdev s' = fs_bdev s"
  unfolding io_only_def by (metis fat_state.ext_inject fat_state.surjective fat_state.update_convs(5))

lemma io_only_trans: "io_only s t \<Longrightarrow> io_only t u \<Longrightarrow> io_only s u"
  unfolding io_only_def by (metis fat_state.fold_congs(5) fat_state.surjective fat_state.update_convs(5))

context reliable_device
begin

lemma vol_length: "fat_inv sector s \<Longrightarrow> length (vol sector s lba) = 512"
proof -
  assume "fat_inv sector s"
  then have "cache_inv sector (fio s)" by (simp add: fat_inv_def)
  then show ?thesis
    using cache_inv_buf_ok [of sector "fio s"] sector_length [of "medium (fio s)" "the (fs_bdev s)" lba]
      find_cached_Some [of "the (fs_bdev s)" lba "cache (fio s)"]
    by (auto simp: vol_def view_def buf_ok_def BCACHE_BLOCK_SIZE_def holds_def split: option.splits)
qed

lemma flush_succeeds:
  assumes "cache_inv sector s" "i < BCACHE_BUFFERS"
  shows "fst (flush_buffer D i s) = E_OK"
proof -
  let ?b = "buf_at (cache s) i"
  have ok: "buf_ok sector (medium s) ?b" using cache_inv_buf_ok [OF assms] .
  show ?thesis
  proof (cases "bh_valid ?b \<and> bh_dirty ?b")
    case True
    then obtain p where p: "bh_bdev ?b = Some p" "length (bh_data ?b) = BCACHE_BLOCK_SIZE"
      using ok by (auto simp: buf_ok_def split: option.splits)
    then show ?thesis using True write_succeeds [OF p(2), of p "bh_lba ?b" "medium s"]
      by (auto simp: flush_buffer_def Let_def split: prod.splits)
  qed (auto simp: flush_buffer_def Let_def)
qed

lemma bread_load_succeeds:
  assumes "cache_inv sector s" "i < BCACHE_BUFFERS"
  shows "fst (bread_load D (Some p) lba i s) = Some i"
proof -
  have "length (bh_data (buf_at (cache s) i)) = BCACHE_BLOCK_SIZE" using cache_inv_buf_ok [OF assms] by (simp add: buf_ok_def)
  from read_succeeds [OF this, of p lba "medium s"] show ?thesis by (auto simp: bread_load_def Let_def split: prod.splits)
qed

lemma bread_succeeds:
  assumes inv: "cache_inv sector s"
  shows "\<exists>i s'. bread D (Some p) lba s = (Some i, s')"
proof (cases "find_cached (Some p) lba (cache s)")
  case None
  let ?s = "s\<lparr>cache := (cache s)\<lparr>stat_misses := stat_misses (cache s) + 1\<rparr>\<rparr>" and ?i = "pick_victim (cache s)"
  have at: "buf_at (cache ?s) = buf_at (cache s)" by (simp add: buf_at_def fun_eq_iff)
  have "holds (cache ?s) = holds (cache s)" using at by (simp add: holds_def fun_eq_iff)
  then have inv': "cache_inv sector ?s" using inv unfolding cache_inv_def at by simp
  have i: "pick_victim (cache ?s) < BCACHE_BUFFERS" by (rule pick_victim_bound)
  have "fst (bread_miss D (Some p) lba ?s) \<noteq> None"
  proof (cases "flush_buffer D (pick_victim (cache ?s)) ?s")
    case (Pair rc s1)
    have rc: "rc = E_OK" using flush_succeeds [OF inv' i] Pair by simp
    then have "cache_inv sector s1" using flush_buffer_inv [OF inv' i Pair] by blast
    from bread_load_succeeds [OF this i] bread_load_succeeds [OF inv' i] show ?thesis
      using Pair rc by (auto simp: bread_miss_def Let_def)
  qed
  then show ?thesis using None by (cases "bread_miss D (Some p) lba ?s") (auto simp: bread_def)
qed (simp add: bread_def Let_def)

text \<open>The law of sector access.\<close>

lemma fat_edit_ok:
  assumes inv: "fat_inv sector s" and len: "\<And>d d' x. length d = 512 \<Longrightarrow> g d = (Some d', x) \<Longrightarrow> length d' = 512"
  shows "\<exists>s'. fat_edit D lba g s = (Some (snd (g (vol sector s lba))), s') \<and> fat_inv sector s' \<and> io_only s s' \<and>
    vol sector s' = (case fst (g (vol sector s lba)) of None \<Rightarrow> vol sector s | Some d \<Rightarrow> (vol sector s)(lba := d))"
proof -
  obtain p where p: "fs_bdev s = Some p" and ci: "cache_inv sector (fio s)" using inv by (auto simp: fat_inv_def)
  obtain i io where br: "bread D (Some p) lba (fio s) = (Some i, io)" using bread_succeeds [OF ci] by blast
  have B: "cache_inv sector io" "view sector io = view sector (fio s)" "holds (cache io) i p lba"
    "bh_data (buf_at (cache io) i) = view sector (fio s) p lba" using bread_inv [OF ci br] by auto
  let ?d = "vol sector s lba"
  have d: "bh_data (buf_at (cache io) i) = ?d" using B(4) p by (simp add: vol_def)
  obtain dn x where g: "g ?d = (dn, x)" by fastforce
  show ?thesis
  proof (cases dn)
    case None
    then show ?thesis using br p g d B(1,2)
      by (auto simp: fat_edit_def brelse_def fat_inv_def io_only_def vol_def)
  next
    case (Some d')
    have l: "length d' = BCACHE_BLOCK_SIZE" using len [OF vol_length [OF inv, of lba]] g Some by (simp add: BCACHE_BLOCK_SIZE_def)
    note S = bstore_dirty_inv [OF B(1,3) l]
    have v: "view sector (bmark_dirty i (bstore i d' io)) p = (view sector (fio s) p)(lba := d')"
      using S B(2) by (auto simp: fun_eq_iff)
    then show ?thesis using br p g d Some S
      by (auto simp: fat_edit_def brelse_def fat_inv_def io_only_def vol_def)
  qed
qed

lemma fat_look:
  assumes inv: "fat_inv sector s"
  shows "\<exists>s'. fat_edit D lba (\<lambda>d. (None, g d)) s = (Some (g (vol sector s lba)), s') \<and> fat_inv sector s' \<and> io_only s s' \<and>
    vol sector s' = vol sector s"
  using fat_edit_ok [OF inv, of "\<lambda>d. (None, g d)" lba] by simp

lemma fat_put:
  assumes inv: "fat_inv sector s" and len: "\<And>d. length d = 512 \<Longrightarrow> length (g d) = 512"
  shows "\<exists>s'. fat_edit D lba (\<lambda>d. (Some (g d), ())) s = (Some (), s') \<and> fat_inv sector s' \<and> io_only s s' \<and>
    vol sector s' = (vol sector s)(lba := g (vol sector s lba))"
proof -
  have "\<And>d d' x. length d = 512 \<Longrightarrow> (Some (g d), ()) = (Some d', x) \<Longrightarrow> length d' = 512" using len by auto
  from fat_edit_ok [OF inv, of "\<lambda>d. (Some (g d), ())" lba, OF this] show ?thesis by simp
qed

end

subsection \<open>Entries of the FAT\<close>

definition fat_entry :: "fat_fs \<Rightarrow> (u32 \<Rightarrow> u8 list) \<Rightarrow> u32 \<Rightarrow> u32" where
  "fat_entry f v c = rd32 (v (fat_lba f + fat_sector_idx c)) (fat_sector_off c) AND 0x0FFFFFFF"

text \<open>The number of entries of the FAT, and the geometry of a volume.\<close>

definition nclus :: "fat_fs \<Rightarrow> nat" where
  "nclus f = unat (fat_sectors f) * 128"

definition geom :: "fat_fs \<Rightarrow> bool" where
  "geom f \<longleftrightarrow> bytes_per_sector f = 512 \<and> 0 < sectors_per_cluster f \<and> sectors_per_cluster f < 256 \<and>
     bytes_per_cluster f = sectors_per_cluster f * 512 \<and> 0 < num_fats f \<and> nclus f < 0x0FFFFFF8 \<and>
     unat (fat_lba f) + unat (num_fats f) * unat (fat_sectors f) = unat (data_lba f) \<and>
     unat (data_lba f) + nclus f * unat (sectors_per_cluster f) < 2 ^ 32"

lemma fat_sector_off_bound: "fat_sector_off c \<le> 508" "4 dvd fat_sector_off c"
proof -
  have "unat ((c * 4) mod 512) = (unat c * 4) mod 2 ^ 32 mod 512" by (simp add: unat_mod unat_word_ariths)
  moreover have "(unat c * 4) mod 2 ^ 32 mod 512 = (unat c * 4) mod 512" by (simp add: mod_mod_cancel)
  ultimately have "fat_sector_off c = (unat c * 4) mod 512" by (simp add: fat_sector_off_def)
  then have "fat_sector_off c = 4 * (unat c mod 128)" using mult_mod_right [of 4 "unat c" 128] by (simp add: mult.commute)
  then show "fat_sector_off c \<le> 508" "4 dvd fat_sector_off c" by auto
qed

lemma fat_pos:
  assumes "unat c < 2 ^ 28"
  shows "unat (fat_sector_idx c) = unat c div 128" "fat_sector_off c = 4 * (unat c mod 128)"
proof -
  have m: "unat (c * 4) = unat c * 4" using assms by (simp add: unat_word_ariths)
  show "unat (fat_sector_idx c) = unat c div 128" by (simp add: fat_sector_idx_def unat_div m)
  show "fat_sector_off c = 4 * (unat c mod 128)"
    using mult_mod_right [of 4 "unat c" 128] by (simp add: fat_sector_off_def unat_mod m mult.commute)
qed

lemma fat_pos_inj:
  assumes "unat c < 2 ^ 28" "unat c' < 2 ^ 28" "fat_sector_idx c = fat_sector_idx c'" "fat_sector_off c = fat_sector_off c'"
  shows "c = c'"
proof -
  have "unat c div 128 = unat c' div 128" "unat c mod 128 = unat c' mod 128"
    using assms fat_pos(1) [OF assms(1)] fat_pos(1) [OF assms(2)] fat_pos(2) [OF assms(1)] fat_pos(2) [OF assms(2)] by auto
  then have "unat c = unat c'" by (metis div_mult_mod_eq)
  then show ?thesis by (simp add: word_unat_eq_iff)
qed

lemma unat32_lt: "unat (x :: u32) < 2 ^ 32"
  using unsigned_less [where w = x] by simp

lemma nclus_lt: "geom f \<Longrightarrow> unat c < nclus f \<Longrightarrow> unat c < 2 ^ 28 \<and> c < FAT32_EOC \<and> unat (fat_sector_idx c) < unat (fat_sectors f)"
proof -
  assume g: "geom f" "unat c < nclus f"
  then have c: "unat c < 0x0FFFFFF8" by (simp add: geom_def)
  moreover have "unat c div 128 < unat (fat_sectors f)" using g(2) by (simp add: nclus_def less_mult_imp_div_less)
  ultimately show ?thesis using fat_pos(1) [of c] by (simp add: FAT32_EOC_def word_less_nat_alt)
qed

text \<open>The sectors of copy \<open>n\<close> of the FAT.\<close>

definition fat_sector :: "fat_fs \<Rightarrow> nat \<Rightarrow> u32 \<Rightarrow> u32" where
  "fat_sector f n c = fat_lba f + of_nat n * fat_sectors f + fat_sector_idx c"

lemma unat_fat_sector:
  assumes g: "geom f" and n: "n < unat (num_fats f)" and c: "unat c < nclus f"
  shows "unat (fat_sector f n c) = unat (fat_lba f) + n * unat (fat_sectors f) + unat c div 128"
    "unat (fat_sector f n c) < unat (data_lba f)"
proof -
  have i: "unat c div 128 < unat (fat_sectors f)" using c by (simp add: nclus_def less_mult_imp_div_less)
  have "Suc n * unat (fat_sectors f) \<le> unat (num_fats f) * unat (fat_sectors f)" using n by (intro mult_le_mono1) simp
  then have b: "unat (fat_lba f) + n * unat (fat_sectors f) + unat c div 128 < unat (data_lba f)"
    using g i by (simp add: geom_def)
  then have lt: "unat (fat_lba f) + n * unat (fat_sectors f) + unat c div 128 < 2 ^ 32"
    using unat32_lt [of "data_lba f"] by simp
  have "unat (of_nat n * fat_sectors f) = n * unat (fat_sectors f)"
  proof -
    have "n < 2 ^ 32" using n unat32_lt [of "num_fats f"] by simp
    then have "unat (of_nat n :: u32) = n" by (simp add: unat_of_nat take_bit_nat_eq_self)
    then show ?thesis using lt by (simp add: unat_word_ariths)
  qed
  then show "unat (fat_sector f n c) = unat (fat_lba f) + n * unat (fat_sectors f) + unat c div 128"
    using lt fat_pos(1) [OF conjunct1 [OF nclus_lt [OF g c]]] by (simp add: fat_sector_def unat_word_ariths)
  then show "unat (fat_sector f n c) < unat (data_lba f)" using b by simp
qed

lemma fat_sector_inj:
  assumes g: "geom f" and n: "n < unat (num_fats f)" "m < unat (num_fats f)" and c: "unat c < nclus f" "unat c' < nclus f"
    and eq: "fat_sector f n c = fat_sector f m c'"
  shows "n = m \<and> fat_sector_idx c = fat_sector_idx c'"
proof -
  let ?k = "unat (fat_sectors f)"
  have i: "unat c div 128 < ?k" "unat c' div 128 < ?k" using c by (simp_all add: nclus_def less_mult_imp_div_less)
  have "n * ?k + unat c div 128 = m * ?k + unat c' div 128"
    using unat_fat_sector(1) [OF g n(1) c(1)] unat_fat_sector(1) [OF g n(2) c(2)] eq by simp
  moreover have "(n * ?k + unat c div 128) div ?k = n" "(m * ?k + unat c' div 128) div ?k = m" using i by auto
  ultimately have nm: "n = m" by metis
  then have "unat (fat_sector_idx c) = unat (fat_sector_idx c')"
    using \<open>n * ?k + unat c div 128 = m * ?k + unat c' div 128\<close>
      fat_pos(1) [OF conjunct1 [OF nclus_lt [OF g c(1)]]] fat_pos(1) [OF conjunct1 [OF nclus_lt [OF g c(2)]]] by simp
  then show ?thesis using nm by (simp add: word_unat_eq_iff)
qed

text \<open>The entry of cluster \<open>c\<close> in copy \<open>n\<close> of the FAT, and the effect of storing a nv.\<close>

definition fat_copy :: "fat_fs \<Rightarrow> (u32 \<Rightarrow> u8 list) \<Rightarrow> nat \<Rightarrow> u32 \<Rightarrow> u32" where
  "fat_copy f v n c = rd32 (v (fat_sector f n c)) (fat_sector_off c)"

lemma fat_entry_copy: "fat_entry f v c = fat_copy f v 0 c AND 0x0FFFFFFF"
  by (simp add: fat_entry_def fat_copy_def fat_sector_def)

definition put_fat :: "u32 \<Rightarrow> u32 \<Rightarrow> u8 list \<Rightarrow> u8 list" where
  "put_fat c nv d = blit d (fat_sector_off c) (le32 (fat_merge (rd32 d (fat_sector_off c)) nv))"

definition set_vol :: "fat_fs \<Rightarrow> u32 \<Rightarrow> u32 \<Rightarrow> nat list \<Rightarrow> (u32 \<Rightarrow> u8 list) \<Rightarrow> (u32 \<Rightarrow> u8 list)" where
  "set_vol f c nv ns v = fold (\<lambda>n v. v(fat_sector f n c := put_fat c nv (v (fat_sector f n c)))) ns v"

lemma length_put_fat [simp]: "length (put_fat c nv d) = length d"
  by (simp add: put_fat_def)

lemma set_vol_apply:
  assumes g: "geom f" and c: "unat c < nclus f" and n: "k \<le> unat (num_fats f)"
  shows "set_vol f c nv [0..<k] v lba = (if \<exists>n<k. lba = fat_sector f n c then put_fat c nv (v lba) else v lba)"
  using n
proof (induction k arbitrary: lba)
  case 0
  then show ?case by (simp add: set_vol_def)
next
  case (Suc k)
  let ?x = "fat_sector f k c"
  have st: "set_vol f c nv [0..<Suc k] v = (set_vol f c nv [0..<k] v)(?x := put_fat c nv (set_vol f c nv [0..<k] v ?x))"
    by (simp add: set_vol_def)
  have "?x \<noteq> fat_sector f n c" if "n < k" for n
    using fat_sector_inj [OF g _ _ c c, of k n] that Suc.prems by auto
  then have "set_vol f c nv [0..<k] v ?x = v ?x" using Suc.IH [of ?x] Suc.prems by auto
  then have st': "set_vol f c nv [0..<Suc k] v lba = (if lba = ?x then put_fat c nv (v lba) else set_vol f c nv [0..<k] v lba)"
    unfolding st by simp
  show ?case unfolding st' using Suc.IH [of lba] Suc.prems by (auto simp: less_Suc_eq)
qed

context reliable_device
begin

lemma set_entry_copies_ok:
  "fat_inv sector s \<Longrightarrow> \<exists>s'. set_entry_copies D c nv ns s = (E_OK, s') \<and> fat_inv sector s' \<and> io_only s s' \<and>
    vol sector s' = set_vol (ffs s) c nv ns (vol sector s)"
proof (induction ns arbitrary: s)
  case Nil
  then show ?case by (simp add: set_vol_def)
next
  case (Cons n ns)
  obtain s1 where
    s1: "fat_edit D (fat_sector (ffs s) n c) (\<lambda>d. (Some (put_fat c nv d), ())) s = (Some (), s1)"
    "fat_inv sector s1" "io_only s s1"
    "vol sector s1 = (vol sector s)(fat_sector (ffs s) n c := put_fat c nv (vol sector s (fat_sector (ffs s) n c)))"
    using fat_put [OF Cons.prems, of "put_fat c nv" "fat_sector (ffs s) n c"] by auto
  obtain s' where s': "set_entry_copies D c nv ns s1 = (E_OK, s')" "fat_inv sector s'" "io_only s1 s'"
    "vol sector s' = set_vol (ffs s1) c nv ns (vol sector s1)" using Cons.IH [OF s1(2)] by blast
  have "set_entry_copies D c nv (n # ns) s = (E_OK, s')"
    using s1(1) s'(1) by (simp add: fat_sector_def put_fat_def)
  then show ?case using s'(2,4) io_only_trans [OF s1(3) s'(3)] s1(4) io_onlyD [OF s1(3)]
    by (auto simp: set_vol_def)
qed

end

text \<open>What storing an entry does: in every copy of the FAT that entry has the new value under its
  old top four bits, every other entry of every copy and everything outside the copies is kept.\<close>

definition fat_stored :: "fat_fs \<Rightarrow> u32 \<Rightarrow> u32 \<Rightarrow> (u32 \<Rightarrow> u8 list) \<Rightarrow> (u32 \<Rightarrow> u8 list) \<Rightarrow> bool" where
  "fat_stored f c nv v v' \<longleftrightarrow>
     (\<forall>n<unat (num_fats f). fat_copy f v' n c = fat_merge (fat_copy f v n c) nv) \<and>
     (\<forall>n<unat (num_fats f). \<forall>d. unat d < nclus f \<longrightarrow> d \<noteq> c \<longrightarrow> fat_copy f v' n d = fat_copy f v n d) \<and>
     (\<forall>lba. lba < fat_lba f \<or> data_lba f \<le> lba \<longrightarrow> v' lba = v lba)"

lemma set_vol_stored:
  assumes g: "geom f" and c: "unat c < nclus f" and l: "\<And>lba. length (v lba) = 512"
  shows "fat_stored f c nv v (set_vol f c nv [0..<unat (num_fats f)] v)"
proof -
  let ?v = "set_vol f c nv [0..<unat (num_fats f)] v"
  note ap = set_vol_apply [OF g c order_refl, of nv v]
  have "fat_copy f ?v n c = fat_merge (fat_copy f v n c) nv" if n: "n < unat (num_fats f)" for n
  proof -
    have "?v (fat_sector f n c) = put_fat c nv (v (fat_sector f n c))" using ap [of "fat_sector f n c"] n by auto
    then show ?thesis using fat_sector_off_bound(1) [of c] l
      by (simp add: fat_copy_def put_fat_def rd32_blit_le32)
  qed
  moreover have "fat_copy f ?v n d = fat_copy f v n d" if n: "n < unat (num_fats f)" and d: "unat d < nclus f" "d \<noteq> c" for n d
  proof (cases "\<exists>m<unat (num_fats f). fat_sector f n d = fat_sector f m c")
    case True
    then obtain m where m: "m < unat (num_fats f)" "fat_sector f n d = fat_sector f m c" by blast
    have "fat_sector_idx d = fat_sector_idx c" using fat_sector_inj [OF g n m(1) d(1) c m(2)] by simp
    then have "fat_sector_off d \<noteq> fat_sector_off c"
      using fat_pos_inj [of d c] nclus_lt [OF g d(1)] nclus_lt [OF g c] d(2) by blast
    then have "fat_sector_off d + 4 \<le> fat_sector_off c \<or> fat_sector_off c + 4 \<le> fat_sector_off d"
      using fat_sector_off_bound(2) [of c] fat_sector_off_bound(2) [of d] by (auto elim!: dvdE)
    then have "rd32 (put_fat c nv (v (fat_sector f n d))) (fat_sector_off d) = rd32 (v (fat_sector f n d)) (fat_sector_off d)"
      unfolding put_fat_def using fat_sector_off_bound(1) [of d] l by (intro rd32_blit_other) auto
    then show ?thesis using ap [of "fat_sector f n d"] True by (simp add: fat_copy_def)
  next
    case False
    then show ?thesis using ap [of "fat_sector f n d"] by (auto simp: fat_copy_def)
  qed
  moreover have "?v lba = v lba" if lba: "lba < fat_lba f \<or> data_lba f \<le> lba" for lba
  proof -
    have "lba \<noteq> fat_sector f n c" if n: "n < unat (num_fats f)" for n
      using unat_fat_sector [OF g n c] lba by (auto simp: word_less_nat_alt word_le_nat_alt)
    then show ?thesis using ap [of lba] by auto
  qed
  ultimately show ?thesis unfolding fat_stored_def by blast
qed

lemma fat_merge_mask: "fat_merge old nv AND 0x0FFFFFFF = nv AND 0x0FFFFFFF"
proof -
  have "(0xF0000000 :: u32) AND 0x0FFFFFFF = 0" by simp
  then show ?thesis by (simp add: fat_merge_def bit.conj_disj_distrib2 and.assoc)
qed

lemma mask_id: "unat (x :: u32) < 2 ^ 28 \<Longrightarrow> x AND 0x0FFFFFFF = x"
proof -
  assume "unat x < 2 ^ 28"
  have "x AND 0x0FFFFFFF = take_bit 28 x" by (simp add: take_bit_eq_mask mask_eq_exp_minus_1)
  then have "unat (x AND 0x0FFFFFFF) = unat x mod 2 ^ 28" by (simp add: unsigned_take_bit_eq take_bit_eq_mod unat_mod)
  then show ?thesis using \<open>unat x < 2 ^ 28\<close> by (simp add: word_unat_eq_iff)
qed

lemma fat_stored_entry:
  assumes g: "geom f" and st: "fat_stored f c nv v v'"
  shows "fat_entry f v' c = nv AND 0x0FFFFFFF" "\<And>d. unat d < nclus f \<Longrightarrow> d \<noteq> c \<Longrightarrow> fat_entry f v' d = fat_entry f v d"
proof -
  have n: "0 < unat (num_fats f)" using g by (simp add: geom_def word_less_nat_alt)
  show "fat_entry f v' c = nv AND 0x0FFFFFFF" using st n by (simp add: fat_entry_copy fat_stored_def fat_merge_mask)
  show "fat_entry f v' d = fat_entry f v d" if "unat d < nclus f" "d \<noteq> c" for d
    using st n that by (simp add: fat_entry_copy fat_stored_def)
qed

context reliable_device
begin

lemma fat_next_ok:
  assumes inv: "fat_inv sector s"
  shows "\<exists>s'. fat_next_cluster D c s = (fat_entry (ffs s) (vol sector s) c, s') \<and> fat_inv sector s' \<and> io_only s s' \<and>
    vol sector s' = vol sector s"
  using fat_look [OF inv, of "fat_lba (ffs s) + fat_sector_idx c" "\<lambda>d. rd32 d (fat_sector_off c)"]
  by (auto simp: fat_next_cluster_def fat_entry_def)

lemma fat_set_ok:
  assumes inv: "fat_inv sector s" and g: "geom (ffs s)" and c: "unat c < nclus (ffs s)"
  shows "\<exists>s'. fat_set_entry D c nv s = (E_OK, s') \<and> fat_inv sector s' \<and> io_only s s' \<and>
    fat_stored (ffs s) c nv (vol sector s) (vol sector s')"
  using set_entry_copies_ok [OF inv, of c nv "[0..<unat (num_fats (ffs s))]"] set_vol_stored [OF g c, of "vol sector s" nv]
    vol_length [OF inv]
  by (auto simp: fat_set_entry_def)

end

subsection \<open>Chains of clusters\<close>

text \<open>\<open>cs\<close> are the clusters of the chain that starts at \<open>c\<close>.\<close>

fun chain_from :: "fat_fs \<Rightarrow> (u32 \<Rightarrow> u8 list) \<Rightarrow> u32 \<Rightarrow> u32 list \<Rightarrow> bool" where
  "chain_from f v c [] \<longleftrightarrow> c \<ge> FAT32_EOC \<or> c = 0"
| "chain_from f v c (x # xs) \<longleftrightarrow> c = x \<and> 2 \<le> unat x \<and> unat x < nclus f \<and> chain_from f v (fat_entry f v x) xs"

lemma chain_from_range: "chain_from f v c cs \<Longrightarrow> d \<in> set cs \<Longrightarrow> 2 \<le> unat d \<and> unat d < nclus f"
  by (induction f v c cs rule: chain_from.induct) auto

lemma chain_from_cong:
  "(\<And>d. d \<in> set cs \<Longrightarrow> fat_entry f v' d = fat_entry f v d) \<Longrightarrow> chain_from f v c cs \<Longrightarrow> chain_from f v' c cs"
  by (induction f v c cs rule: chain_from.induct) auto

lemma chain_head: "geom f \<Longrightarrow> chain_from f v c cs \<Longrightarrow> cs \<noteq> [] \<Longrightarrow> \<not> (c \<ge> FAT32_EOC \<or> c = 0)"
  using nclus_lt [of f c] by (cases cs) (auto simp: not_le)

lemma le2: "2 \<le> (c :: u32) \<longleftrightarrow> 2 \<le> unat c"
  by (simp add: word_le_nat_alt)

context reliable_device
begin

lemma fat_free_chain_ok:
  "fat_inv sector s \<Longrightarrow> geom (ffs s) \<Longrightarrow> chain_from (ffs s) (vol sector s) c cs \<Longrightarrow> distinct cs \<Longrightarrow>
   \<exists>s'. fat_free_chain D c s = Some (E_OK, s') \<and> fat_inv sector s' \<and> io_only s s' \<and>
     (\<forall>d. unat d < nclus (ffs s) \<longrightarrow> fat_entry (ffs s) (vol sector s') d =
        (if d \<in> set cs then 0 else fat_entry (ffs s) (vol sector s) d)) \<and>
     (\<forall>lba. lba < fat_lba (ffs s) \<or> data_lba (ffs s) \<le> lba \<longrightarrow> vol sector s' lba = vol sector s lba)"
proof (induction cs arbitrary: c s)
  case Nil
  then have "\<not> (c \<ge> 2 \<and> c < FAT32_EOC)" by (auto simp: not_le)
  then show ?case using Nil by (subst fat_free_chain.simps) auto
next
  case (Cons x xs)
  let ?f = "ffs s" and ?v = "vol sector s"
  have c: "c = x" "2 \<le> unat c" "unat c < nclus ?f" "chain_from ?f ?v (fat_entry ?f ?v c) xs" using Cons.prems(3) by auto
  obtain s1 where s1: "fat_next_cluster D c s = (fat_entry ?f ?v c, s1)" "fat_inv sector s1" "io_only s s1" "vol sector s1 = ?v"
    using fat_next_ok [OF Cons.prems(1)] by blast
  have f1: "ffs s1 = ?f" using io_onlyD [OF s1(3)] by simp
  obtain s2 where s2: "fat_set_entry D c 0 s1 = (E_OK, s2)" "fat_inv sector s2" "io_only s1 s2"
    "fat_stored ?f c 0 ?v (vol sector s2)"
    using fat_set_ok [OF s1(2), of c 0] Cons.prems(2) c(3) f1 s1(4) by auto
  have f2: "ffs s2 = ?f" using io_onlyD [OF s2(3)] f1 by simp
  note E = fat_stored_entry [OF Cons.prems(2) s2(4)]
  have "x \<notin> set xs" "distinct xs" using Cons.prems(4) by auto
  then have "chain_from ?f (vol sector s2) (fat_entry ?f ?v c) xs"
    using E(2) chain_from_range [OF c(4)] c(1) by (intro chain_from_cong [OF _ c(4)]) auto
  then obtain s' where s': "fat_free_chain D (fat_entry ?f ?v c) s2 = Some (E_OK, s')" "fat_inv sector s'" "io_only s2 s'"
    "\<forall>d. unat d < nclus ?f \<longrightarrow> fat_entry ?f (vol sector s') d = (if d \<in> set xs then 0 else fat_entry ?f (vol sector s2) d)"
    "\<forall>lba. lba < fat_lba ?f \<or> data_lba ?f \<le> lba \<longrightarrow> vol sector s' lba = vol sector s2 lba"
    using Cons.IH [of s2 "fat_entry ?f ?v c", unfolded f2] s2(2) Cons.prems(2) \<open>distinct xs\<close> by blast
  have go: "c \<ge> 2 \<and> c < FAT32_EOC" using c(2) nclus_lt [OF Cons.prems(2) c(3)] by (simp add: le2)
  have "fat_free_chain D c s = Some (E_OK, s')"
    using go s1(1) s2(1) s'(1) by (subst fat_free_chain.simps) simp
  moreover have "fat_entry ?f (vol sector s') d = (if d \<in> set (x # xs) then 0 else fat_entry ?f ?v d)" if "unat d < nclus ?f" for d
    using s'(4) that E(1) E(2) [OF that] c(1) by (cases "d = c") auto
  moreover have "vol sector s' lba = ?v lba" if "lba < fat_lba ?f \<or> data_lba ?f \<le> lba" for lba
    using s'(5) that s2(4) unfolding fat_stored_def by metis
  moreover have "io_only s s'" using io_only_trans [OF io_only_trans [OF s1(3) s2(3)] s'(3)] .
  ultimately show ?case using s'(2) by blast
qed

lemma alloc_loop_ok:
  "fat_inv sector s \<Longrightarrow> geom (ffs s) \<Longrightarrow> unat c + n \<le> nclus (ffs s) \<Longrightarrow> 2 \<le> unat c \<Longrightarrow>
   \<exists>r s'. alloc_loop D c n s = (r, s') \<and> fat_inv sector s' \<and> io_only s s' \<and>
     (r = 0 \<and> vol sector s' = vol sector s \<and>
        (\<forall>d. unat c \<le> unat d \<longrightarrow> unat d < unat c + n \<longrightarrow> fat_entry (ffs s) (vol sector s) d \<noteq> 0) \<or>
      unat c \<le> unat r \<and> unat r < unat c + n \<and> fat_entry (ffs s) (vol sector s) r = 0 \<and>
        fat_stored (ffs s) r FAT32_EOC (vol sector s) (vol sector s') \<and>
        (\<forall>d. unat c \<le> unat d \<longrightarrow> unat d < unat r \<longrightarrow> fat_entry (ffs s) (vol sector s) d \<noteq> 0))"
proof (induction n arbitrary: c s)
  case 0
  then show ?case by auto
next
  case (Suc n)
  let ?f = "ffs s" and ?v = "vol sector s"
  have c: "unat c < nclus ?f" using Suc.prems(3) by simp
  obtain s1 where s1: "fat_next_cluster D c s = (fat_entry ?f ?v c, s1)" "fat_inv sector s1" "io_only s s1" "vol sector s1 = ?v"
    using fat_next_ok [OF Suc.prems(1)] by blast
  have f1: "ffs s1 = ?f" using io_onlyD [OF s1(3)] by simp
  show ?case
  proof (cases "fat_entry ?f ?v c = 0")
    case True
    obtain s2 where s2: "fat_set_entry D c FAT32_EOC s1 = (E_OK, s2)" "fat_inv sector s2" "io_only s1 s2"
      "fat_stored ?f c FAT32_EOC ?v (vol sector s2)"
      using fat_set_ok [OF s1(2), of c FAT32_EOC] Suc.prems(2) c f1 s1(4) by auto
    have "alloc_loop D c (Suc n) s = (c, s2)" using s1(1) s2(1) True by simp
    then show ?thesis using s2(2,4) io_only_trans [OF s1(3) s2(3)] True by auto
  next
    case False
    have "unat c < 2 ^ 28" using nclus_lt [OF Suc.prems(2) c] by simp
    then have c1: "unat (c + 1) = unat c + 1" by (simp add: unat_word_ariths)
    obtain r s' where r: "alloc_loop D (c + 1) n s1 = (r, s')" "fat_inv sector s'" "io_only s1 s'"
      "r = 0 \<and> vol sector s' = ?v \<and>
        (\<forall>d. unat c + 1 \<le> unat d \<longrightarrow> unat d < unat c + 1 + n \<longrightarrow> fat_entry ?f ?v d \<noteq> 0) \<or>
       unat c + 1 \<le> unat r \<and> unat r < unat c + 1 + n \<and> fat_entry ?f ?v r = 0 \<and>
        fat_stored ?f r FAT32_EOC ?v (vol sector s') \<and>
        (\<forall>d. unat c + 1 \<le> unat d \<longrightarrow> unat d < unat r \<longrightarrow> fat_entry ?f ?v d \<noteq> 0)"
      using Suc.IH [of s1 "c + 1"] s1(2,4) f1 c1 Suc.prems(2-4) by auto
    have step: "alloc_loop D c (Suc n) s = (r, s')" using s1(1) r(1) False by simp
    have d: "d = c \<or> unat c + 1 \<le> unat d" if "unat c \<le> unat d" for d using that by (auto simp: word_unat_eq_iff)
    show ?thesis
    proof (intro exI conjI)
      show "alloc_loop D c (Suc n) s = (r, s')" "fat_inv sector s'" "io_only s s'"
        using step r(2) io_only_trans [OF s1(3) r(3)] by blast+
      show "r = 0 \<and> vol sector s' = ?v \<and> (\<forall>d. unat c \<le> unat d \<longrightarrow> unat d < unat c + Suc n \<longrightarrow> fat_entry ?f ?v d \<noteq> 0) \<or>
        unat c \<le> unat r \<and> unat r < unat c + Suc n \<and> fat_entry ?f ?v r = 0 \<and> fat_stored ?f r FAT32_EOC ?v (vol sector s') \<and>
        (\<forall>d. unat c \<le> unat d \<longrightarrow> unat d < unat r \<longrightarrow> fat_entry ?f ?v d \<noteq> 0)"
        using r(4) d False by auto
    qed
  qed
qed

lemma fat_alloc_ok:
  assumes inv: "fat_inv sector s" and g: "geom (ffs s)"
  shows "\<exists>r s'. fat_alloc_cluster D s = (r, s') \<and> fat_inv sector s' \<and> io_only s s' \<and>
     (r = 0 \<and> vol sector s' = vol sector s \<and>
        (\<forall>d. 2 \<le> unat d \<longrightarrow> unat d < nclus (ffs s) \<longrightarrow> fat_entry (ffs s) (vol sector s) d \<noteq> 0) \<or>
      2 \<le> unat r \<and> unat r < nclus (ffs s) \<and> fat_entry (ffs s) (vol sector s) r = 0 \<and>
        fat_stored (ffs s) r FAT32_EOC (vol sector s) (vol sector s') \<and>
        (\<forall>d. 2 \<le> unat d \<longrightarrow> unat d < unat r \<longrightarrow> fat_entry (ffs s) (vol sector s) d \<noteq> 0))"
proof -
  have m: "unat (fat_sectors (ffs s) * 128) = nclus (ffs s)" using g by (simp add: geom_def nclus_def unat_word_ariths)
  show ?thesis
  proof (cases "2 \<le> nclus (ffs s)")
    case True
    then have "unat (2 :: u32) + (nclus (ffs s) - 2) = nclus (ffs s)" by simp
    from alloc_loop_ok [OF inv g, of 2 "nclus (ffs s) - 2", unfolded this] show ?thesis
      unfolding fat_alloc_cluster_def Let_def m by auto
  next
    case False
    then show ?thesis using m inv by (auto simp: fat_alloc_cluster_def Let_def)
  qed
qed

end

subsection \<open>A disk in memory, and a small volume\<close>

text \<open>A device at every address, which keeps its sectors in memory.\<close>

definition disk_sector :: "(nat \<Rightarrow> u32 \<Rightarrow> u8 list) \<Rightarrow> nat \<Rightarrow> u32 \<Rightarrow> u8 list" where
  "disk_sector w p lba = take BCACHE_BLOCK_SIZE (w p lba @ replicate BCACHE_BLOCK_SIZE 0)"

definition disk_mem :: "(nat \<Rightarrow> u32 \<Rightarrow> u8 list) bdev_mem" where
  "disk_mem p = \<lparr>bd_name = cstr ''mmc0'', bd_sector_size = 512, bd_total_sectors = 0,
     bd_ops = Some \<lparr>
        read_sectors = Some (\<lambda>w lba n buf. (E_OK, disk_sector w p lba, w)),
        write_sectors = Some (\<lambda>w lba n buf. (E_OK, w(p := (w p)(lba := buf))))\<rparr>\<rparr>"

interpretation disk: reliable_device disk_mem disk_sector
  by unfold_locales (auto simp: disk_mem_def disk_sector_def block_read_def block_write_def)

text \<open>Two copies of a FAT of one sector from sector 1 on, clusters of one sector from sector 3 on, and
  one file in the clusters 3 and 4.\<close>

definition demo_fs :: fat_fs where
  "demo_fs = \<lparr>part_lba = 0, fat_lba = 1, data_lba = 3, sectors_per_cluster = 1, bytes_per_cluster = 512,
     bytes_per_sector = 512, root_cluster = 2, fat_sectors = 1, num_fats = 2, fsinfo_lba = 0\<rparr>"

definition demo_fat :: "u8 list" where
  "demo_fat = blit (blit (blit (replicate 512 0) 8 (le32 0x0FFFFFFF)) 12 (le32 4)) 16 (le32 0x0FFFFFFF)"

definition demo_file :: fat32_file where
  "demo_file = \<lparr>ff_in_use = True, ff_name = cstr ''a.txt'', ff_raw_name = cstr ''A       TXT'', ff_nt_res = 0x18,
     first_cluster = 3, ff_size = 600, dir_entry_lba = 3, dir_entry_offset = 0\<rparr>"

definition demo_volume :: "u32 \<Rightarrow> u8 list" where
  "demo_volume lba = (if lba = 1 \<or> lba = 2 then demo_fat else replicate 512 (ucast lba))"

definition demo_fat_state :: "(nat \<Rightarrow> u32 \<Rightarrow> u8 list) fat_state" where
  "demo_fat_state = \<lparr>ffs = demo_fs, file_table = replicate FAT32_MAX_FILES demo_file, file_count = 1, fs_bdev = Some 0,
     fio = \<lparr>cache = bcache_init \<lparr>buffers = replicate BCACHE_BUFFERS
         \<lparr>bh_bdev = None, bh_lba = 0, bh_data = replicate BCACHE_BLOCK_SIZE 0, bh_valid = False,
          bh_dirty = False, bh_last_used = 0\<rparr>,
         tick_counter = 0, stat_hits = 0, stat_misses = 0\<rparr>, medium = (\<lambda>p. demo_volume)\<rparr>\<rparr>"

lemma demo_vol: "fat_inv disk_sector demo_fat_state" "vol disk_sector demo_fat_state = demo_volume"
proof -
  have i: "cache_inv disk_sector (fio demo_fat_state) \<and> view disk_sector (fio demo_fat_state) = disk_sector (\<lambda>p. demo_volume)"
    unfolding demo_fat_state_def fat_state.simps by (rule bcache_init_inv) simp_all
  then show "fat_inv disk_sector demo_fat_state" by (simp add: fat_inv_def) (simp add: demo_fat_state_def)
  have "length (demo_volume lba) = 512" for lba by (simp add: demo_volume_def demo_fat_def)
  then show "vol disk_sector demo_fat_state = demo_volume"
    using i by (auto simp: vol_def disk_sector_def BCACHE_BLOCK_SIZE_def fun_eq_iff)
qed

lemma demo_geom: "geom (ffs demo_fat_state)" "nclus demo_fs = 128" "ffs demo_fat_state = demo_fs"
  by (simp_all add: geom_def nclus_def demo_fat_state_def demo_fs_def)

lemma demo_entry: "fat_entry demo_fs demo_volume 3 = 4" "fat_entry demo_fs demo_volume 4 = 0x0FFFFFFF"
  "fat_entry demo_fs demo_volume 2 = 0x0FFFFFFF" "fat_entry demo_fs demo_volume 5 = 0"
proof -
  have "rd32 demo_fat 12 = 4" "rd32 demo_fat 16 = 0x0FFFFFFF" "rd32 demo_fat 8 = 0x0FFFFFFF"
    by (simp_all add: demo_fat_def rd32_blit_le32 rd32_blit_other)
  moreover have "rd32 demo_fat 20 = 0" unfolding demo_fat_def by (simp add: rd32_blit_other) (simp add: rd32_def)
  ultimately show "fat_entry demo_fs demo_volume 3 = 4" "fat_entry demo_fs demo_volume 4 = 0x0FFFFFFF"
    "fat_entry demo_fs demo_volume 2 = 0x0FFFFFFF" "fat_entry demo_fs demo_volume 5 = 0"
    by (simp_all add: fat_entry_def demo_fs_def demo_volume_def fat_sector_idx_def fat_sector_off_def)
qed

lemma demo_chain: "chain_from demo_fs demo_volume 3 [3, 4]"
  using demo_entry by (simp add: demo_geom(2) FAT32_EOC_def)

text \<open>\<open>fat_set_entry\<close> on a volume with a sound geometry succeeds and writes the entry into every
  copy of the FAT, keeping the top four bits that are reserved there; every other entry of every
  copy, the reserved sectors before the FAT and the whole data area stay as they are; and
  \<open>fat_next_cluster\<close> then reads the stored word back.\<close>

lemma fat_set_entry_all_copies:
  assumes "reliable_device D sector" "fat_inv sector s" "geom (ffs s)" "unat c < nclus (ffs s)"
  shows "\<exists>s'. fat_set_entry D c nv s = (E_OK, s') \<and> fat_inv sector s' \<and>
    fat_stored (ffs s) c nv (vol sector s) (vol sector s') \<and>
    fst (fat_next_cluster D c s') = nv AND 0x0FFFFFFF"
proof -
  obtain s' where s': "fat_set_entry D c nv s = (E_OK, s')" "fat_inv sector s'" "io_only s s'"
    "fat_stored (ffs s) c nv (vol sector s) (vol sector s')"
    using reliable_device.fat_set_ok [OF assms] by blast
  have "ffs s' = ffs s" using io_onlyD [OF s'(3)] by simp
  then have "fst (fat_next_cluster D c s') = nv AND 0x0FFFFFFF"
    using reliable_device.fat_next_ok [OF assms(1) s'(2), of c] fat_stored_entry(1) [OF assms(3) s'(4)] by auto
  then show ?thesis using s' by blast
qed

theorem fat_set_entry_all_copies_witness:
  "\<exists>s'. fat_set_entry disk_mem 5 7 demo_fat_state = (E_OK, s') \<and> fst (fat_next_cluster disk_mem 5 s') = 7"
  using fat_set_entry_all_copies [OF disk.reliable_device_axioms demo_vol(1) demo_geom(1), of 5 7]
  by (auto simp: demo_geom)

text \<open>C30: on a device whose transfers succeed and a volume with a sound geometry, \<open>fat_alloc_cluster\<close>
  returns 0 only when the FAT has no free entry, and then changes nothing; otherwise it returns the
  lowest cluster whose entry is free, makes that entry the end of a chain in every copy of the FAT, and
  changes no other entry and nothing outside the FAT.\<close>

theorem fat_alloc_cluster_fresh:
  assumes "reliable_device D sector" "fat_inv sector s" "geom (ffs s)"
  shows "\<exists>r s'. fat_alloc_cluster D s = (r, s') \<and> fat_inv sector s' \<and>
     (r = 0 \<and> vol sector s' = vol sector s \<and>
        (\<forall>d. 2 \<le> unat d \<longrightarrow> unat d < nclus (ffs s) \<longrightarrow> fat_entry (ffs s) (vol sector s) d \<noteq> 0) \<or>
      2 \<le> unat r \<and> unat r < nclus (ffs s) \<and> fat_entry (ffs s) (vol sector s) r = 0 \<and>
        fat_stored (ffs s) r FAT32_EOC (vol sector s) (vol sector s') \<and>
        (\<forall>d. 2 \<le> unat d \<longrightarrow> unat d < unat r \<longrightarrow> fat_entry (ffs s) (vol sector s) d \<noteq> 0))"
  using reliable_device.fat_alloc_ok [OF assms] by blast

theorem fat_alloc_cluster_fresh_witness:
  "\<exists>s'. fat_alloc_cluster disk_mem demo_fat_state = (5, s') \<and> fat_inv disk_sector s' \<and>
     fat_entry demo_fs (vol disk_sector s') 5 = FAT32_EOC \<and> fat_entry demo_fs (vol disk_sector s') 3 = 4"
proof -
  obtain r s' where a: "fat_alloc_cluster disk_mem demo_fat_state = (r, s')" "fat_inv disk_sector s'" and
    b: "r = 0 \<and> (\<forall>d. 2 \<le> unat d \<longrightarrow> unat d < 128 \<longrightarrow> fat_entry demo_fs demo_volume d \<noteq> 0) \<or>
      2 \<le> unat r \<and> fat_entry demo_fs demo_volume r = 0 \<and> fat_stored demo_fs r FAT32_EOC demo_volume (vol disk_sector s') \<and>
      (\<forall>d. 2 \<le> unat d \<longrightarrow> unat d < unat r \<longrightarrow> fat_entry demo_fs demo_volume d \<noteq> 0)"
    using fat_alloc_cluster_fresh [OF disk.reliable_device_axioms demo_vol(1) demo_geom(1)]
    unfolding demo_vol(2) demo_geom(2,3) by blast
  have "unat r = 5"
  proof -
    have "\<not> unat r < 5" if "2 \<le> unat r" "fat_entry demo_fs demo_volume r = 0"
    proof
      assume "unat r < 5"
      then have "unat r = 2 \<or> unat r = 3 \<or> unat r = 4" using that(1) by linarith
      then have "r = 2 \<or> r = 3 \<or> r = 4" by (simp add: word_unat_eq_iff)
      then show False using that(2) demo_entry by auto
    qed
    moreover have "2 \<le> unat r \<and> fat_entry demo_fs demo_volume r = 0 \<and> \<not> 5 < unat r"
      using b spec [of _ "5 :: u32"] demo_entry(4) by fastforce
    ultimately show ?thesis by auto
  qed
  then have r: "r = 5" by (simp add: word_unat_eq_iff)
  have st: "fat_stored demo_fs 5 FAT32_EOC demo_volume (vol disk_sector s')" using b r by auto
  show ?thesis using a r fat_stored_entry [OF demo_geom(1) [unfolded demo_geom(3)] st] demo_entry
    by (auto simp: FAT32_EOC_def demo_geom)
qed



subsection \<open>Reading a file\<close>

definition cdata :: "fat_fs \<Rightarrow> (u32 \<Rightarrow> u8 list) \<Rightarrow> u32 \<Rightarrow> u8 list" where
  "cdata f v c = concat (map (\<lambda>k. v (cluster_to_sector f c + of_nat k)) [0..<unat (sectors_per_cluster f)])"

definition fdata :: "fat_fs \<Rightarrow> (u32 \<Rightarrow> u8 list) \<Rightarrow> u32 list \<Rightarrow> u8 list" where
  "fdata f v cs = concat (map (cdata f v) cs)"

definition clus_bytes :: "fat_fs \<Rightarrow> nat" where
  "clus_bytes f = unat (sectors_per_cluster f) * 512"

lemma clus_bytes_eq: "geom f \<Longrightarrow> unat (bytes_per_cluster f) = clus_bytes f \<and> 0 < clus_bytes f"
  by (auto simp: geom_def clus_bytes_def unat_word_ariths word_less_nat_alt)

lemma length_concat_const: "(\<And>x. x \<in> set xs \<Longrightarrow> length (g x) = n) \<Longrightarrow> length (concat (map g xs)) = length xs * n"
  by (induction xs) auto

lemma length_cdata: "(\<And>lba. length (v lba) = 512) \<Longrightarrow> length (cdata f v c) = clus_bytes f"
  unfolding cdata_def clus_bytes_def by (subst length_concat_const [where n = 512]) auto

lemma length_fdata: "(\<And>lba. length (v lba) = 512) \<Longrightarrow> length (fdata f v cs) = length cs * clus_bytes f"
  unfolding fdata_def by (subst length_concat_const [where n = "clus_bytes f"]) (auto simp: length_cdata)

lemma drop_concat:
  "(\<And>x. x \<in> set xs \<Longrightarrow> length (g x) = n) \<Longrightarrow> q \<le> length xs \<Longrightarrow> drop (q * n + r) (concat (map g xs)) = drop r (concat (map g (drop q xs)))"
proof (induction q arbitrary: xs)
  case (Suc q)
  then obtain y ys where xs: "xs = y # ys" by (cases xs) auto
  have "drop (Suc q * n + r) (concat (map g xs)) = drop (q * n + r) (concat (map g ys))"
    using Suc.prems(1) by (simp add: xs)
  then show ?case using Suc.IH [of ys] Suc.prems by (simp add: xs)
qed simp

context reliable_device
begin

text \<open>The sectors \<open>ks\<close> of a cluster from byte \<open>intra\<close> on.\<close>

lemma read_sectors_loop_ok:
  assumes "fat_inv sector s" "intra < 512"
  shows "\<exists>s'. read_sectors_loop D base ks intra remaining acc s =
      (True, remaining - (length (drop intra (concat (map (\<lambda>k. vol sector s (base + of_nat k)) ks)))),
       acc @ take remaining (drop intra (concat (map (\<lambda>k. vol sector s (base + of_nat k)) ks))), s') \<and>
    fat_inv sector s' \<and> io_only s s' \<and> vol sector s' = vol sector s"
  using assms
proof (induction ks arbitrary: intra remaining acc s)
  case Nil
  then show ?case by simp
next
  case (Cons k ks)
  let ?v = "vol sector s" and ?ch = "fat32_min remaining (512 - intra)"
  let ?d = "?v (base + of_nat k)"
  have l: "length ?d = 512" by (rule vol_length [OF Cons.prems(1)])
  show ?case
  proof (cases "remaining > 0")
    case True
    obtain s1 where s1: "fat_edit D (base + of_nat k) (\<lambda>d. (None, take ?ch (drop intra d))) s = (Some (take ?ch (drop intra ?d)), s1)"
      "fat_inv sector s1" "io_only s s1" "vol sector s1 = ?v" using fat_look [OF Cons.prems(1), of "base + of_nat k" "\<lambda>d. take ?ch (drop intra d)"] by blast
    let ?rest = "concat (map (\<lambda>k. ?v (base + of_nat k)) ks)"
    obtain s' where s': "read_sectors_loop D base ks 0 (remaining - ?ch) (acc @ take ?ch (drop intra ?d)) s1 =
        (True, remaining - ?ch - length ?rest, (acc @ take ?ch (drop intra ?d)) @ take (remaining - ?ch) ?rest, s')"
      "fat_inv sector s'" "io_only s1 s'" "vol sector s' = ?v"
      using Cons.IH [OF s1(2), of 0 "remaining - ?ch" "acc @ take ?ch (drop intra ?d)"] s1(4) by auto
    have "take ?ch (drop intra ?d) @ take (remaining - ?ch) ?rest = take remaining (drop intra ?d @ ?rest)"
      using l Cons.prems(2) by (cases "remaining < 512 - intra") (simp_all add: fat32_min_def)
    moreover have "drop intra (?d @ ?rest) = drop intra ?d @ ?rest" using l Cons.prems(2) by simp
    moreover have "remaining - ?ch - length ?rest = remaining - length (drop intra ?d @ ?rest)"
      using l Cons.prems(2) by (simp add: fat32_min_def)
    ultimately show ?thesis using True s1(1) s' io_only_trans [OF s1(3) s'(3)]
      by (simp add: FAT32_SECTOR_SZ_def Let_def)
  next
    case False
    then show ?thesis using Cons.prems(1) by simp
  qed
qed

lemma walk_chain_ok:
  "fat_inv sector s \<Longrightarrow> geom (ffs s) \<Longrightarrow> chain_from (ffs s) (vol sector s) c cs \<Longrightarrow> n < length cs \<Longrightarrow>
   \<exists>s'. walk_chain D c n s = (cs ! n, s') \<and> fat_inv sector s' \<and> io_only s s' \<and> vol sector s' = vol sector s \<and>
     chain_from (ffs s) (vol sector s) (cs ! n) (drop n cs)"
proof (induction n arbitrary: c cs s)
  case 0
  then show ?case by (cases cs) auto
next
  case (Suc n)
  let ?f = "ffs s" and ?v = "vol sector s"
  obtain xs where cs: "cs = c # xs" "chain_from ?f ?v (fat_entry ?f ?v c) xs" using Suc.prems(3,4) by (cases cs) auto
  obtain y ys where xs: "xs = y # ys" using Suc.prems(4) cs(1) by (cases xs) auto
  have y: "fat_entry ?f ?v c = y" "2 \<le> unat y" "y < FAT32_EOC"
    using cs(2) xs nclus_lt [OF Suc.prems(2), of y] by auto
  obtain s1 where s1: "fat_next_cluster D c s = (fat_entry ?f ?v c, s1)" "fat_inv sector s1" "io_only s s1" "vol sector s1 = ?v"
    using fat_next_ok [OF Suc.prems(1)] by blast
  have f1: "ffs s1 = ?f" using io_onlyD [OF s1(3)] by simp
  obtain s' where s': "walk_chain D (fat_entry ?f ?v c) n s1 = (xs ! n, s')" "fat_inv sector s'" "io_only s1 s'"
    "vol sector s' = ?v" "chain_from ?f ?v (xs ! n) (drop n xs)"
    using Suc.IH [OF s1(2), of "fat_entry ?f ?v c" xs] Suc.prems(2,4) cs s1(4) f1 by auto
  have "\<not> (y \<ge> FAT32_EOC \<or> y = 0)" using y by auto
  then have "walk_chain D c (Suc n) s = (xs ! n, s')" using s1(1) s'(1) y(1) by simp
  then show ?case using s' cs io_only_trans [OF s1(3) s'(3)] by auto
qed

text \<open>Reading from byte \<open>intra\<close> of the first cluster of a chain that holds enough bytes.\<close>

lemma read_loop_ok:
  "fat_inv sector s \<Longrightarrow> geom (ffs s) \<Longrightarrow> chain_from (ffs s) (vol sector s) c cs \<Longrightarrow> cs \<noteq> [] \<Longrightarrow>
   intra < clus_bytes (ffs s) \<Longrightarrow> intra + remaining \<le> length cs * clus_bytes (ffs s) \<Longrightarrow>
   \<exists>s'. read_loop D c intra remaining acc s =
       Some (int_cast (length acc + remaining), acc @ take remaining (drop intra (fdata (ffs s) (vol sector s) cs)), s') \<and>
     fat_inv sector s' \<and> io_only s s' \<and> vol sector s' = vol sector s"
proof (induction cs arbitrary: c intra remaining acc s)
  case (Cons x xs)
  let ?f = "ffs s" and ?v = "vol sector s"
  let ?base = "cluster_to_sector ?f c" and ?spc = "unat (sectors_per_cluster (ffs s))"
  have l: "length (?v lba) = 512" for lba by (rule vol_length [OF Cons.prems(1)])
  have c: "c = x" "unat c < nclus ?f" "chain_from ?f ?v (fat_entry ?f ?v c) xs" using Cons.prems(3) by auto
  have bps: "unat (bytes_per_sector ?f) = 512" using Cons.prems(2) by (simp add: geom_def)
  have q: "intra div 512 \<le> ?spc" using Cons.prems(5) by (simp add: clus_bytes_def less_mult_imp_div_less less_imp_le)
  have "drop (intra div 512 * 512 + intra mod 512) (cdata ?f ?v c) =
      drop (intra mod 512) (concat (map (\<lambda>k. ?v (?base + of_nat k)) (drop (intra div 512) [0..<?spc])))"
    unfolding cdata_def by (rule drop_concat) (use l q in auto)
  then have dr: "drop (intra mod 512) (concat (map (\<lambda>k. ?v (?base + of_nat k)) [intra div 512..<?spc])) = drop intra (cdata ?f ?v c)"
    by (simp add: drop_upt)
  have lc: "length (cdata ?f ?v c) = clus_bytes ?f" by (rule length_cdata [OF l])
  define part where "part = drop intra (cdata ?f ?v c)"
  have lp: "length part = clus_bytes ?f - intra" "part \<noteq> []" using lc Cons.prems(5) by (auto simp: part_def)
  have fd: "drop intra (fdata ?f ?v (x # xs)) = part @ fdata ?f ?v xs"
    using lc Cons.prems(5) c(1) by (simp add: fdata_def part_def)
  obtain s1 where s1: "read_sectors_loop D ?base [intra div 512..<?spc] (intra mod 512) remaining acc s =
      (True, remaining - length part, acc @ take remaining part, s1)"
    "fat_inv sector s1" "io_only s s1" "vol sector s1 = ?v"
    using read_sectors_loop_ok [OF Cons.prems(1), of "intra mod 512" ?base "[intra div 512..<?spc]" remaining acc]
    unfolding dr part_def by auto
  have f1: "ffs s1 = ?f" using io_onlyD [OF s1(3)] by simp
  consider "remaining = 0" | "0 < remaining" "remaining \<le> length part" | "length part < remaining" by linarith
  then show ?case
  proof cases
    case 1
    then have "read_loop D c intra remaining acc s = Some (int_cast (length acc), acc, s)" by (subst read_loop.simps) simp
    then show ?thesis using 1 Cons.prems(1) by auto
  next
    case 2
    then have "read_loop D c intra remaining acc s = Some (int_cast (length acc + remaining), acc @ take remaining part, s1)"
      using s1(1) by (subst read_loop.simps) (auto simp: bps)
    then show ?thesis using s1(2-4) 2 by (auto simp: fd)
  next
    case False: 3
    obtain s2 where s2: "fat_next_cluster D c s1 = (fat_entry ?f ?v c, s2)" "fat_inv sector s2" "io_only s1 s2" "vol sector s2 = ?v"
      using fat_next_ok [OF s1(2), of c] f1 s1(4) by auto
    have f2: "ffs s2 = ?f" using io_onlyD [OF s2(3)] f1 by simp
    have xs: "xs \<noteq> []" using False Cons.prems(6) lp(1) Cons.prems(5) by auto
    have nx: "\<not> (fat_entry ?f ?v c \<ge> FAT32_EOC \<or> fat_entry ?f ?v c = 0)"
      by (rule chain_head [OF Cons.prems(2) c(3) xs])
    let ?rem = "remaining - length part"
    have fit: "0 + ?rem \<le> length xs * clus_bytes ?f" using Cons.prems(5,6) lp(1) False by simp
    have pos: "0 < clus_bytes ?f" using clus_bytes_eq [OF Cons.prems(2)] by simp
    obtain s' where s': "read_loop D (fat_entry ?f ?v c) 0 ?rem (acc @ part) s2 =
        Some (int_cast (length (acc @ part) + ?rem), (acc @ part) @ take ?rem (fdata ?f ?v xs), s')"
      "fat_inv sector s'" "io_only s2 s'" "vol sector s' = ?v"
      using Cons.IH [OF s2(2), of "fat_entry ?f ?v c" 0 ?rem "acc @ part"] Cons.prems(2) c(3) xs pos fit s2(4) f2 by auto
    have "read_loop D c intra remaining acc s = read_loop D (fat_entry ?f ?v c) 0 ?rem (acc @ part) s2"
      using s1(1) s2(1) False nx by (subst read_loop.simps) (auto simp: bps)
    then show ?thesis using s' False io_only_trans [OF io_only_trans [OF s1(3) s2(3)] s'(3)] by (auto simp: fd)
  qed
qed simp

end

lemma fat32_read_slice:
  assumes "reliable_device D sector" "fat_inv sector s" "geom (ffs s)" "i < file_count s"
    and "chain_from (ffs s) (vol sector s) (first_cluster (file_table s ! i)) cs"
    and "unat (ff_size (file_table s ! i)) \<le> length cs * clus_bytes (ffs s)"
  shows "\<exists>s'. fat32_read D (int i) offset len s =
      (let bs = take (unat len) (drop (unat offset) (take (unat (ff_size (file_table s ! i))) (fdata (ffs s) (vol sector s) cs)))
       in Some (Inr (int_cast (length bs), bs, s'))) \<and>
    fat_inv sector s' \<and> io_only s s' \<and> vol sector s' = vol sector s"
proof -
  let ?f = "ffs s" and ?v = "vol sector s" and ?fl = "file_table s ! i"
  let ?sz = "unat (ff_size ?fl)" and ?off = "unat offset" and ?B = "clus_bytes (ffs s)"
  have B: "unat (bytes_per_cluster ?f) = ?B" "0 < ?B" using clus_bytes_eq [OF assms(3)] by auto
  have l: "length (?v lba) = 512" for lba by (rule reliable_device.vol_length [OF assms(1,2)])
  have lf: "length (fdata ?f ?v cs) = length cs * ?B" by (rule length_fdata [OF l])
  have gi: "\<not> bad_index (int i) s" using assms(4) by (simp add: bad_index_def)
  show ?thesis
  proof (cases "offset \<ge> ff_size ?fl")
    case True
    then show ?thesis using gi assms(2) by (auto simp: fat32_read_def word_le_nat_alt int_cast_def)
  next
    case False
    then have lt: "?off < ?sz" by (simp add: word_le_nat_alt)
    let ?n = "min (unat len) (?sz - ?off)" and ?q = "?off div ?B" and ?r = "?off mod ?B"
    have rem: "fat32_min (unat len) (unat (ff_size ?fl - offset)) = ?n"
      using lt by (auto simp: fat32_min_def unat_sub word_le_nat_alt)
    have q: "?q < length cs" using lt assms(6) by (simp add: less_mult_imp_div_less)
    obtain s1 where s1: "walk_chain D (first_cluster ?fl) ?q s = (cs ! ?q, s1)" "fat_inv sector s1" "io_only s s1"
      "vol sector s1 = ?v" "chain_from ?f ?v (cs ! ?q) (drop ?q cs)"
      using reliable_device.walk_chain_ok [OF assms(1-3,5) q] by blast
    have f1: "ffs s1 = ?f" using io_onlyD [OF s1(3)] by simp
    have ne: "drop ?q cs \<noteq> []" using q by simp
    have nz: "cs ! ?q \<noteq> 0" using chain_head [OF assms(3) s1(5) ne] by simp
    have "?r + ?n \<le> length (drop ?q cs) * ?B"
    proof -
      have "?off + ?n \<le> length cs * ?B" using lt assms(6) by simp
      moreover have "?off = ?q * ?B + ?r" by simp
      moreover have "length cs * ?B = ?q * ?B + (length cs - ?q) * ?B" using q by (simp flip: distrib_right)
      ultimately show ?thesis unfolding length_drop by linarith
    qed
    then obtain s' where s': "read_loop D (cs ! ?q) ?r ?n [] s1 =
        Some (int_cast ?n, take ?n (drop ?r (fdata ?f ?v (drop ?q cs))), s')"
      "fat_inv sector s'" "io_only s1 s'" "vol sector s' = ?v"
      using reliable_device.read_loop_ok [OF assms(1) s1(2), of "cs ! ?q" "drop ?q cs" ?r ?n "[]"] assms(3) s1(4,5) ne B(2) f1 by auto
    have "drop (?q * ?B + ?r) (fdata ?f ?v cs) = drop ?r (fdata ?f ?v (drop ?q cs))"
      unfolding fdata_def by (rule drop_concat) (use q length_cdata [OF l] in auto)
    then have dr: "drop ?off (fdata ?f ?v cs) = drop ?r (fdata ?f ?v (drop ?q cs))" by simp
    let ?bs = "take (unat len) (drop ?off (take ?sz (fdata ?f ?v cs)))"
    have bs: "?bs = take ?n (drop ?r (fdata ?f ?v (drop ?q cs)))" by (simp add: drop_take take_take dr min.commute)
    have lb: "length ?bs = ?n" using lf assms(6) lt by auto
    have z: "bytes_per_cluster ?f \<noteq> 0" "bytes_per_sector ?f \<noteq> 0" using B assms(3) by (auto simp: geom_def)
    have "fat32_read D (int i) offset len s = map_option Inr (read_loop D (cs ! ?q) ?r ?n [] s1)"
      using gi False s1(1) nz z f1 rem by (simp add: fat32_read_def Let_def unat_div unat_mod B(1))
    then show ?thesis using s' io_only_trans [OF s1(3) s'(3)] bs lb by (auto simp: Let_def)
  qed
qed

text \<open>\<open>fat32_read\<close> of an open file whose chain holds its size returns exactly the bytes of the file
  from the offset on, at most \<open>len\<close> of them and nothing past the end of the file, with their number as
  the result; the loops over the chain end, and the volume and the file table are unchanged.\<close>

lemma fat32_read_correct:
  assumes "reliable_device D sector" "fat_inv sector s" "geom (ffs s)" "i < file_count s"
    and "chain_from (ffs s) (vol sector s) (first_cluster (file_table s ! i)) cs"
    and "unat (ff_size (file_table s ! i)) \<le> length cs * clus_bytes (ffs s)"
  shows "\<exists>s'. fat32_read D (int i) offset len s =
      (let bs = take (unat len) (drop (unat offset) (take (unat (ff_size (file_table s ! i))) (fdata (ffs s) (vol sector s) cs)))
       in Some (Inr (int_cast (length bs), bs, s'))) \<and>
    fat_inv sector s' \<and> io_only s s' \<and> vol sector s' = vol sector s"
  by (rule fat32_read_slice [OF assms])

theorem fat32_read_correct_witness:
  "\<exists>s'. fat32_read disk_mem 0 510 4 demo_fat_state = Some (Inr (4, [4, 4, 5, 5], s'))"
proof -
  have f: "file_table demo_fat_state ! 0 = demo_file" "file_count demo_fat_state = 1"
    by (simp_all add: demo_fat_state_def FAT32_MAX_FILES_def)
  have c: "clus_bytes demo_fs = 512" by (simp add: clus_bytes_def demo_fs_def)
  have d: "fdata demo_fs demo_volume [3, 4] = replicate 512 4 @ replicate 512 5"
    by (simp add: fdata_def cdata_def demo_fs_def cluster_to_sector_def demo_volume_def)
  have "take 4 (drop 510 (take 600 (fdata demo_fs demo_volume [3, 4]))) = [4, 4, 5, 5]"
    unfolding d by (simp add: take_replicate drop_replicate numeral_eq_Suc)
  then show ?thesis
    using fat32_read_correct [OF disk.reliable_device_axioms demo_vol(1) demo_geom(1), of 0 "[3, 4]" 510 4] demo_chain
    by (auto simp: demo_geom demo_vol(2) f c demo_file_def int_cast_def Let_def)
qed

end
