(* ===== verification/Vfs_Props.thy ===== *)
theory Vfs_Props
  imports Devfs Fat32_Props
begin

section \<open>The virtual file system: properties\<close>

text \<open>
  Path resolution picks the longest mount that covers the path; and the operations of the virtual file
  system change only the descriptor they are called for, whatever file system serves it.  The locale
  \<open>file_system\<close> is what the virtual file system relies on: a file system leaves the scheduler, the
  descriptor tables and the mount table alone, and a read delivers no more bytes than asked for.  It is interpreted for the operation tables of FAT32,
  \<open>/dev\<close> and \<open>/proc\<close>.
\<close>

subsection \<open>Resolution\<close>

definition covers :: "cstring \<Rightarrow> cstring \<Rightarrow> bool" where
  "covers mp path \<longleftrightarrow> take (length mp) path = mp \<and>
     (last mp = CH_SLASH \<or> length path = length mp \<or> path ! length mp = CH_SLASH)"

definition mounts_ok :: "('u, 'w) sys \<Rightarrow> bool" where
  "mounts_ok s \<longleftrightarrow> length (mount_table s) = MAX_MOUNTS \<and>
     (\<forall>m \<in> set (mount_table s). m_in_use m \<longrightarrow> mount_point m \<noteq> [] \<and> 0 \<notin> set (mount_point m) \<and>
        mp_len m = length (mount_point m) \<and> m_ops m \<noteq> None)"

lemma mount_matches_covers:
  assumes "m_in_use m" "mount_point m \<noteq> []" "0 \<notin> set (mount_point m)" "mp_len m = length (mount_point m)" "0 \<notin> set path"
  shows "mount_matches path m \<longleftrightarrow> covers (mount_point m) path"
proof -
  let ?mp = "mount_point m"
  have "strncmp path ?mp (length ?mp) = 0 \<longleftrightarrow> take (length ?mp) path = ?mp"
    using strncmp_eq_0 [OF assms(5,3)] by simp
  moreover have "length ?mp \<le> length path" if "take (length ?mp) path = ?mp"
    using that by (metis length_take min.cobounded1)
  moreover have "length ?mp < length path \<Longrightarrow> path ! length ?mp \<noteq> 0" using assms(5) by (metis nth_mem)
  moreover have "?mp ! (length ?mp - 1) = last ?mp" using assms(2) by (simp add: last_conv_nth)
  ultimately show ?thesis
    using assms(1,4) by (auto simp: mount_matches_def covers_def Let_def split: if_splits)
qed

lemma resolve_best_spec:
  assumes "\<forall>i \<in> set js. i < length ms"
    and "case best of None \<Rightarrow> True | Some (b, l) \<Rightarrow> P b \<and> l = mp_len (ms ! b)"
    and "\<forall>i \<in> set js. mount_matches path (ms ! i) \<longrightarrow> P i"
  shows "case resolve_best path ms js best of
      None \<Rightarrow> best = None \<and> (\<forall>i \<in> set js. \<not> mount_matches path (ms ! i))
    | Some (b, l) \<Rightarrow> P b \<and> l = mp_len (ms ! b) \<and> (\<forall>i \<in> set js. mount_matches path (ms ! i) \<longrightarrow> mp_len (ms ! i) \<le> l) \<and>
        (case best of None \<Rightarrow> True | Some (b', l') \<Rightarrow> l' \<le> l)"
  using assms
proof (induction js arbitrary: best)
  case Nil
  then show ?case by (auto split: option.splits)
next
  case (Cons i js)
  let ?take = "mount_matches path (ms ! i) \<and> (case best of None \<Rightarrow> True | Some (b, l) \<Rightarrow> mp_len (ms ! i) > l)"
  show ?case
  proof (cases ?take)
    case True
    then have p: "P i" using Cons(4) by simp
    have "case resolve_best path ms js (Some (i, mp_len (ms ! i))) of
        None \<Rightarrow> Some (i, mp_len (ms ! i)) = None \<and> (\<forall>i \<in> set js. \<not> mount_matches path (ms ! i))
      | Some (b, l) \<Rightarrow> P b \<and> l = mp_len (ms ! b) \<and> (\<forall>i \<in> set js. mount_matches path (ms ! i) \<longrightarrow> mp_len (ms ! i) \<le> l) \<and>
          (case Some (i, mp_len (ms ! i)) of None \<Rightarrow> True | Some (b', l') \<Rightarrow> l' \<le> l)"
      by (rule Cons(1)) (use Cons(2,4) p in auto)
    then show ?thesis using True by (auto split: option.splits prod.splits)
  next
    case False
    have "case resolve_best path ms js best of
        None \<Rightarrow> best = None \<and> (\<forall>i \<in> set js. \<not> mount_matches path (ms ! i))
      | Some (b, l) \<Rightarrow> P b \<and> l = mp_len (ms ! b) \<and> (\<forall>i \<in> set js. mount_matches path (ms ! i) \<longrightarrow> mp_len (ms ! i) \<le> l) \<and>
          (case best of None \<Rightarrow> True | Some (b', l') \<Rightarrow> l' \<le> l)"
      by (rule Cons(1)) (use Cons(2-4) in auto)
    then show ?thesis using False by (auto split: option.splits prod.splits)
  qed
qed

text \<open>C37: an absolute path is served by the mounted file system with the longest mount point that covers
  it, where a mount point covers a path only up to a separator; the rest of the path, without leading
  slashes, goes to that file system.  No file system is found exactly when no mount point covers the
  path.\<close>

theorem resolve_longest_mount:
  assumes "mounts_ok s" "0 \<notin> set path" "chr0 path = CH_SLASH"
  shows "case resolve path s of
      None \<Rightarrow> \<forall>m \<in> set (mount_table s). m_in_use m \<longrightarrow> \<not> covers (mount_point m) path
    | Some (p, rest) \<Rightarrow> \<exists>m \<in> set (mount_table s). m_in_use m \<and> covers (mount_point m) path \<and> m_ops m = Some p \<and>
        rest = dropWhile (\<lambda>c. c = CH_SLASH) (drop (length (mount_point m)) path) \<and>
        (\<forall>m' \<in> set (mount_table s). m_in_use m' \<and> covers (mount_point m') path \<longrightarrow> length (mount_point m') \<le> length (mount_point m))"
proof -
  let ?ms = "mount_table s"
  have l: "length ?ms = 4" using assms(1) by (simp add: mounts_ok_def MAX_MOUNTS_def)
  have ok: "mount_matches path m \<longleftrightarrow> m_in_use m \<and> covers (mount_point m) path" if "m \<in> set ?ms" for m
    using that assms(1,2) mount_matches_covers [of m path] by (auto simp: mounts_ok_def mount_matches_def)
  have len: "mp_len m = length (mount_point m) \<and> m_ops m \<noteq> None" if "m \<in> set ?ms" "m_in_use m" for m
    using that assms(1) by (auto simp: mounts_ok_def)
  let ?P = "\<lambda>i. i < 4 \<and> mount_matches path (?ms ! i)"
  have sp: "case resolve_best path ?ms [0..<4] None of
      None \<Rightarrow> (None :: (nat \<times> nat) option) = None \<and> (\<forall>i \<in> set [0..<4]. \<not> mount_matches path (?ms ! i))
    | Some (b, l) \<Rightarrow> ?P b \<and> l = mp_len (?ms ! b) \<and> (\<forall>i \<in> set [0..<4]. mount_matches path (?ms ! i) \<longrightarrow> mp_len (?ms ! i) \<le> l) \<and>
        (case (None :: (nat \<times> nat) option) of None \<Rightarrow> True | Some (b', l') \<Rightarrow> l' \<le> l)"
    by (rule resolve_best_spec) (use l in auto)
  show ?thesis
  proof (cases "resolve_best path ?ms [0..<4] None")
    case None
    then have "\<not> mount_matches path m" if "m \<in> set ?ms" for m using sp that l by (auto simp: in_set_conv_nth)
    then show ?thesis using None ok assms(3) by (simp add: resolve_def MAX_MOUNTS_def)
  next
    case (Some r)
    obtain b n where r: "r = (b, n)" by fastforce
    define m where "m = ?ms ! b"
    have b: "b < 4" "mount_matches path m" "n = mp_len m" and mx: "\<forall>i < 4. mount_matches path (?ms ! i) \<longrightarrow> mp_len (?ms ! i) \<le> n"
      using sp Some r by (auto simp: m_def)
    have m: "m \<in> set ?ms" "m_in_use m" "covers (mount_point m) path" using b l ok by (auto simp: m_def)
    obtain p where p: "m_ops m = Some p" using len [OF m(1,2)] by auto
    have "resolve path s = Some (p, dropWhile (\<lambda>c. c = CH_SLASH) (drop (length (mount_point m)) path))"
      using Some r assms(3) p b(3) len [OF m(1,2)] by (simp add: resolve_def MAX_MOUNTS_def m_def)
    moreover have "length (mount_point m') \<le> length (mount_point m)"
      if m': "m' \<in> set ?ms" "m_in_use m'" "covers (mount_point m') path" for m'
    proof -
      obtain i where "i < 4" "m' = ?ms ! i" using m'(1) l by (auto simp: in_set_conv_nth)
      then show ?thesis using mx ok [OF m'(1)] m' len [OF m'(1,2)] len [OF m(1,2)] b(3) by auto
    qed
    ultimately show ?thesis using m p by auto
  qed
qed

definition demo_mount :: "cstring \<Rightarrow> nat \<Rightarrow> vfs_mount_entry" where
  "demo_mount mp p = \<lparr>mount_point = mp, m_ops = Some p, mp_len = length mp, m_in_use = True\<rparr>"

subsection \<open>Descriptors\<close>

definition same_tables :: "('u, 'w) sys \<Rightarrow> ('u, 'w) sys \<Rightarrow> bool" where
  "same_tables s s' \<longleftrightarrow> usc s' = usc s \<and> boot_fd_table s' = boot_fd_table s \<and> mount_table s' = mount_table s"

lemma same_tables_refl [simp]: "same_tables s s"
  by (simp add: same_tables_def)

lemma same_tables_trans: "same_tables s t \<Longrightarrow> same_tables t u \<Longrightarrow> same_tables s u"
  by (simp add: same_tables_def)

lemma same_tables_fds: "same_tables s s' \<Longrightarrow> current_fds s' = current_fds s"
  by (auto simp: same_tables_def current_fds_def split: option.splits)

lemma set_fds_simps [simp]:
  "current_fds (set_fds g s) = g (current_fds s)" "mount_table (set_fds g s) = mount_table s"
  "fat (set_fds g s) = fat s" "cdevs (set_fds g s) = cdevs s"
  by (simp_all add: set_fds_def current_fds_def scheduler_current_task_def split: option.splits)

locale file_system =
  fixes fs :: "('u, 'w) sys vfs_operations"
  assumes lookup: "vo_lookup fs name s = ret (r, s') \<Longrightarrow> same_tables s s'"
    and reading: "vo_read fs = Some rd \<Longrightarrow> rd i off len s = ret (n, bytes, s') \<Longrightarrow> same_tables s s'"
    and amount: "vo_read fs = Some rd \<Longrightarrow> rd i off len s = ret (n, bytes, s') \<Longrightarrow>
      length bytes \<le> unat len \<and> (n > 0 \<longrightarrow> n = int_cast (length bytes))"
    and listing: "vo_listdir fs = Some ld \<Longrightarrow> ld path mx s = ret (n, es, s') \<Longrightarrow> same_tables s s'"
    and creating: "vo_create fs = Some cr \<Longrightarrow> cr name s = ret (r, s') \<Longrightarrow> same_tables s s'"
    and writing: "vo_write fs = Some wr \<Longrightarrow> wr i off data s = ret (r, s') \<Longrightarrow> same_tables s s'"
    and truncating: "vo_truncate fs = Some tr \<Longrightarrow> tr i off s = ret (r, s') \<Longrightarrow> same_tables s s'"
    and unlinking: "vo_unlink fs = Some un \<Longrightarrow> un name s = ret (r, s') \<Longrightarrow> same_tables s s'"
    and renaming: "vo_rename fs = Some rn \<Longrightarrow> rn old new s = ret (r, s') \<Longrightarrow> same_tables s s'"
begin

lemma open_file_tables:
  assumes "open_file fs rest flags s = ret (r, s')"
  shows "same_tables s s'" and "r = Inl e \<Longrightarrow> e < 0" and "r = Inr i \<Longrightarrow> 0 \<le> i"
proof -
  obtain idx s1 where l: "vo_lookup fs rest s = ret (idx, s1)"
    using assms by (auto simp: open_file_def elim!: rbind_InrE)
  have s1: "same_tables s s1" by (rule lookup [OF l])
  have "same_tables s1 s' \<and> (\<forall>e. r = Inl e \<longrightarrow> e < 0) \<and> (\<forall>i. r = Inr i \<longrightarrow> 0 \<le> i)"
    using assms l
    by (auto simp: open_file_def split: if_splits option.splits elim!: rbind_InrE
        intro: creating truncating simp: creating truncating)
  then show "same_tables s s'" "r = Inl e \<Longrightarrow> e < 0" "r = Inr i \<Longrightarrow> 0 \<le> i"
    using s1 same_tables_trans by blast+
qed

end

lemma on_fat_tables: "on_fat f s = ret (x, s') \<Longrightarrow> same_tables s s'"
  by (cases "f (fat s)") (auto simp: on_fat_def same_tables_def map_sum_def split: sum.splits)

text \<open>The loops of \<open>fat32_read\<close> never deliver more than was asked for.\<close>

lemma fat32_min_le: "fat32_min a b \<le> a"
  by (simp add: fat32_min_def)

lemma read_sectors_loop_amount:
  "read_sectors_loop D base ks intra remaining acc s = (ok, rem', acc', s') \<Longrightarrow> length acc' + rem' \<le> length acc + remaining"
proof (induction ks arbitrary: intra remaining acc s)
  case Nil
  then show ?case by simp
next
  case (Cons k ks)
  show ?case
  proof (cases "remaining > 0")
    case False
    then show ?thesis using Cons.prems by simp
  next
    case True
    let ?chunk = "fat32_min remaining (FAT32_SECTOR_SZ - intra)"
    obtain r s1 where e: "fat_edit D (base + of_nat k) (\<lambda>d. (None, take ?chunk (drop intra d))) s = (r, s1)" by fastforce
    show ?thesis
    proof (cases r)
      case None
      then show ?thesis using Cons.prems True e by (simp add: Let_def)
    next
      case (Some bytes)
      then have "length bytes \<le> ?chunk" using e by (auto simp: fat_edit_def split: option.splits prod.splits)
      moreover have "length acc' + rem' \<le> length (acc @ bytes) + (remaining - ?chunk)"
        using Cons.prems True e Some by (intro Cons.IH [of 0 _ _ s1]) (simp add: Let_def)
      ultimately show ?thesis using fat32_min_le [of remaining "FAT32_SECTOR_SZ - intra"] by simp
    qed
  qed
qed

lemma read_loop_amount_aux:
  assumes "read_loop D cur intra remaining acc s = Some y"
  shows "length (fst (snd y)) \<le> length acc + remaining \<and> (fst y > 0 \<longrightarrow> fst y = int_cast (length (fst (snd y))))"
proof (rule read_loop.raw_induct [OF _ assms, where P = "\<lambda>D cur intra remaining acc s y.
     length (fst (snd y)) \<le> length acc + remaining \<and> (fst y > 0 \<longrightarrow> fst y = int_cast (length (fst (snd y))))"], goal_cases)
  case (1 f D cur intra remaining acc s y)
  show ?case
  proof (cases "remaining > 0")
    case False
    then have "y = (int_cast (length acc), acc, s)" using 1(2) by simp
    then show ?thesis by simp
  next
    case True
    obtain ok rem' acc1 s1 where l: "read_sectors_loop D (cluster_to_sector (ffs s) cur)
        [intra div unat (bytes_per_sector (ffs s))..<unat (sectors_per_cluster (ffs s))]
        (intra mod unat (bytes_per_sector (ffs s))) remaining acc s = (ok, rem', acc1, s1)" by (metis prod_cases4)
    note a = read_sectors_loop_amount [OF l]
    obtain c s2 where c: "fat_next_cluster D cur s1 = (c, s2)" by fastforce
    show ?thesis
    proof (cases "ok \<and> rem' \<noteq> 0 \<and> \<not> (c \<ge> FAT32_EOC \<or> c = 0)")
      case True
      then have "f D c 0 rem' acc1 s2 = Some y" using 1(2) l c \<open>remaining > 0\<close> by simp
      from 1(1) [OF this] a show ?thesis by simp
    next
      case False
      then show ?thesis using 1(2) l c \<open>remaining > 0\<close> a by (auto split: if_splits)
    qed
  qed
qed

lemma read_loop_amount:
  "read_loop D cur intra remaining acc s = Some (n, acc', s') \<Longrightarrow>
   length acc' \<le> length acc + remaining \<and> (n > 0 \<longrightarrow> n = int_cast (length acc'))"
  using read_loop_amount_aux [of D cur intra remaining acc s "(n, acc', s')"] by simp

lemma fat32_read_amount:
  "fat32_read D i off len s = Some (Inr (n, bytes, s')) \<Longrightarrow> length bytes \<le> unat len \<and> (n > 0 \<longrightarrow> n = int_cast (length bytes))"
  using fat32_min_le by (auto simp: fat32_read_def Let_def split: if_splits prod.splits dest!: read_loop_amount intro: order_trans)

lemma on_fat_Inr:
  assumes "on_fat f s = ret (x, s')"
  obtains t where "f (fat s) = Some (Inr (x, t))" "s' = s\<lparr>fat := t\<rparr>"
  using assms by (cases "f (fat s)") (auto simp: on_fat_def map_sum_def split: sum.splits)

interpretation fat32: file_system "fat32_ops D" for D
proof unfold_locales
  fix rd :: "int \<Rightarrow> u32 \<Rightarrow> u32 \<Rightarrow> ('b, 'a) sys \<Rightarrow> (int \<times> u8 list \<times> ('b, 'a) sys) res" and i off len s n bytes s'
  assume "vo_read (fat32_ops D) = Some rd" "rd i off len s = ret (n, bytes, s')"
  then show "length bytes \<le> unat len \<and> (n > 0 \<longrightarrow> n = int_cast (length bytes))"
    by (auto simp: fat32_ops_def map_sum_def split: sum.splits elim!: rbind_InrE on_fat_Inr dest!: fat32_read_amount)
qed (auto simp: fat32_ops_def elim!: rbind_InrE dest: on_fat_tables)

lemma uart_getc_tables: "uart_getc (s :: ('u, 'w) sys) = (c, s') \<Longrightarrow> same_tables s s'"
  by (auto simp: uart_getc_def same_tables_def split: if_splits)

interpretation devfs: file_system "devfs_ops B" for B
  by unfold_locales (auto simp: devfs_ops_def devfs_lookup_def devfs_read_def devfs_write_def devfs_listdir_def null_read_def
      null_write_def tty_read_def tty_write_def Let_def same_tables_def
      int_cast_def word_gt_0 [symmetric] Suc_le_eq unat_gt_0
      split: option.splits dev_fn.splits if_splits prod.splits dest!: uart_getc_tables)

interpretation procfs: file_system "procfs_ops sizes" for sizes
  by unfold_locales (auto simp: procfs_ops_def procfs_lookup_def procfs_read_def procfs_listdir_def Let_def
      split: option.splits if_splits prod.splits)

interpretation vinix: file_system "vinix_ops B D sizes p" for B D sizes p
  by (simp add: vinix_ops_def fat32.file_system_axioms devfs.file_system_axioms procfs.file_system_axioms)

lemma vfs_open_effect:
  assumes "vfs_open (vinix_ops B D sizes) path flags s = ret (r, s')" "length (current_fds s) = MAX_FDS"
  shows "mount_table s' = mount_table s \<and>
    (r < 0 \<and> current_fds s' = current_fds s \<or>
     (\<exists>fd p rest idx off. r = int fd \<and> 3 \<le> fd \<and> fd < MAX_FDS \<and> \<not> fd_in_use (current_fds s ! fd) \<and>
       (\<forall>i. 3 \<le> i \<and> i < fd \<longrightarrow> fd_in_use (current_fds s ! i)) \<and> resolve path s = Some (p, rest) \<and> 0 \<le> idx \<and>
       current_fds s' = (current_fds s)[fd := \<lparr>fd_in_use = True, fd_file_index = of_int idx, fd_offset = off,
         fd_flags = flags, fd_ops = Some p\<rparr>] \<and>
       fst (vfs_close r s') = E_OK \<and> current_fds (snd (vfs_close r s')) = (current_fds s)[fd := free_fd]))"
proof -
  let ?acc = "flags AND O_ACCMODE"
  show ?thesis
  proof (cases "(?acc \<noteq> O_RDONLY \<and> ?acc \<noteq> O_WRONLY \<and> ?acc \<noteq> O_RDWR) \<or> resolve path s = None")
    case True
    then have "r < 0 \<and> s' = s" using assms(1) by (auto simp: vfs_open_def Let_def split: if_splits)
    then show ?thesis by simp
  next
    case False
    then obtain p rest where p: "resolve path s = Some (p, rest)" and a: "\<not> (?acc \<noteq> O_RDONLY \<and> ?acc \<noteq> O_WRONLY \<and> ?acc \<noteq> O_RDWR)"
      by auto
    show ?thesis
    proof (cases "(?acc = O_WRONLY \<or> ?acc = O_RDWR) \<and> vo_write (vinix_ops B D sizes p) = None")
      case True
      then have "r < 0 \<and> s' = s" using assms(1) p by (auto simp: vfs_open_def Let_def vx_consts)
      then show ?thesis by simp
    next
      case nw: False
      obtain q s1 where o: "open_file (vinix_ops B D sizes p) rest flags s = ret (q, s1)"
        using assms(1) p a nw by (auto simp: vfs_open_def Let_def split: if_splits elim!: rbind_InrE)
      note t = vinix.open_file_tables [OF o]
      have fds: "current_fds s1 = current_fds s" "mount_table s1 = mount_table s"
        using t(1) same_tables_fds by (auto simp: same_tables_def)
      show ?thesis
      proof (cases q)
        case (Inl e)
        then show ?thesis using assms(1) p a nw o fds t(2) by (simp add: vfs_open_def Let_def)
      next
        case q: (Inr idx)
        show ?thesis
        proof (cases "fd_free_slot (current_fds s)")
          case None
          then show ?thesis using assms(1) p a nw o fds q by (simp add: vfs_open_def Let_def)
        next
          case (Some fd)
          let ?off = "start_offset (vinix_ops B D sizes p) idx flags s1"
          let ?e = "\<lparr>fd_in_use = True, fd_file_index = of_int idx, fd_offset = ?off, fd_flags = flags, fd_ops = Some p\<rparr>"
          have fd: "3 \<le> fd" "fd < MAX_FDS" "\<not> fd_in_use (current_fds s ! fd)" "\<forall>i. 3 \<le> i \<and> i < fd \<longrightarrow> fd_in_use (current_fds s ! i)"
            using first_idx_SomeD [OF Some [unfolded fd_free_slot_def]] by auto
          have r: "r = int fd" "s' = set_fds (\<lambda>fds. fds[fd := ?e]) s1"
            using assms(1) p a nw o fds q Some by (simp_all add: vfs_open_def Let_def)
          then have f': "current_fds s' = (current_fds s)[fd := ?e]" using fds by simp
          have "fst (vfs_close r s') = E_OK" "current_fds (snd (vfs_close r s')) = (current_fds s)[fd := free_fd]"
            using f' r(1) fd(2) assms(2) by (simp_all add: vfs_close_def bad_fd_def)
          then show ?thesis using r(1) fd f' p t(3) [OF q] fds(2) r(2) by auto
        qed
      qed
    qed
  qed
qed

text \<open>C38: a successful \<open>vfs_open\<close> returns the lowest free descriptor from 3 on and fills exactly that entry
  of the caller's table, with the flags and the file system that resolution chose; a failed one
  returns a negative code and leaves the table as it was.  Closing the new descriptor gives the entry
  back.  The mount table never changes, whichever of the three file systems serves the path.\<close>

theorem vfs_open_descriptor:
  assumes "vfs_open (vinix_ops B D sizes) path flags s = ret (r, s')" "length (current_fds s) = MAX_FDS"
  shows "mount_table s' = mount_table s \<and>
    (r < 0 \<and> current_fds s' = current_fds s \<or>
     (\<exists>fd p rest idx off. r = int fd \<and> 3 \<le> fd \<and> fd < MAX_FDS \<and> \<not> fd_in_use (current_fds s ! fd) \<and>
       (\<forall>i. 3 \<le> i \<and> i < fd \<longrightarrow> fd_in_use (current_fds s ! i)) \<and> resolve path s = Some (p, rest) \<and> 0 \<le> idx \<and>
       current_fds s' = (current_fds s)[fd := \<lparr>fd_in_use = True, fd_file_index = of_int idx, fd_offset = off,
         fd_flags = flags, fd_ops = Some p\<rparr>] \<and>
       fst (vfs_close r s') = E_OK \<and> current_fds (snd (vfs_close r s')) = (current_fds s)[fd := free_fd]))"
  by (rule vfs_open_effect [OF assms])

definition demo_sys :: "(unit, 'w) sys \<Rightarrow> (unit, 'w) sys" where
  "demo_sys s = s\<lparr>usc := (usc s)\<lparr>current_task := None\<rparr>, boot_fd_table := replicate MAX_FDS free_fd,
     mount_table := [demo_mount (cstr ''/'') 0, demo_mount (cstr ''/dev'') 1, demo_mount (cstr ''/proc'') 2,
       \<lparr>mount_point = [], m_ops = None, mp_len = 0, m_in_use = False\<rparr>]\<rparr>"

lemma demo_paths:
  "cstr ''/proc/version'' = [47, 112, 114, 111, 99, 47, 118, 101, 114, 115, 105, 111, 110]"
  "cstr ''/devices'' = [47, 100, 101, 118, 105, 99, 101, 115]"
  "cstr ''/'' = [47]" "cstr ''/dev'' = [47, 100, 101, 118]" "cstr ''/proc'' = [47, 112, 114, 111, 99]"
  by (simp_all add: cstr_def)

lemma demo_mounts_ok: "mounts_ok (demo_sys s)"
  by (simp add: mounts_ok_def demo_sys_def MAX_MOUNTS_def demo_mount_def demo_paths)

text \<open>\<open>/devices\<close> is not on \<open>/dev\<close> but on the root file system.\<close>

theorem resolve_longest_mount_witness:
  "\<forall>s :: (unit, 'w) sys. resolve (cstr ''/devices'') (demo_sys s) = Some (0, [100, 101, 118, 105, 99, 101, 115])"
proof
  fix s :: "(unit, 'w) sys"
  have "case resolve (cstr ''/devices'') (demo_sys s) of None \<Rightarrow> False | Some (p, rest) \<Rightarrow> p = 0 \<and> rest = [100, 101, 118, 105, 99, 101, 115]"
    using resolve_longest_mount [OF demo_mounts_ok, of "cstr ''/devices''" s]
    by (auto simp: demo_sys_def demo_mount_def demo_paths covers_def chr0_def split: option.splits)
  then show "resolve (cstr ''/devices'') (demo_sys s) = Some (0, [100, 101, 118, 105, 99, 101, 115])"
    by (auto split: option.splits)
qed

lemma demo_matches:
  "mount_matches (cstr ''/proc/version'') (demo_mount (cstr ''/'') 0)" "\<not> mount_matches (cstr ''/proc/version'') (demo_mount (cstr ''/dev'') 1)"
  "mount_matches (cstr ''/proc/version'') (demo_mount (cstr ''/proc'') 2)"
  using mount_matches_covers [of "demo_mount (cstr ''/'') 0" "cstr ''/proc/version''"]
    mount_matches_covers [of "demo_mount (cstr ''/dev'') 1" "cstr ''/proc/version''"]
    mount_matches_covers [of "demo_mount (cstr ''/proc'') 2" "cstr ''/proc/version''"]
  by (simp_all add: demo_paths demo_mount_def covers_def)

lemma demo_resolve: "resolve (cstr ''/proc/version'') (demo_sys s) = Some (2, [118, 101, 114, 115, 105, 111, 110])"
proof -
  have "[0..<4] = [0, 1, 2, 3 :: nat]" by (simp add: upt_rec)
  moreover have l: "mp_len (demo_mount mp p) = length mp" "m_ops (demo_mount mp p) = Some p" for mp p by (simp_all add: demo_mount_def)
  moreover have "\<not> mount_matches p \<lparr>mount_point = [], m_ops = None, mp_len = 0, m_in_use = False\<rparr>" for p by (simp add: mount_matches_def)
  ultimately have "resolve_best (cstr ''/proc/version'') (mount_table (demo_sys s)) [0..<4] None = Some (2, 5)"
    using demo_matches by (simp add: demo_sys_def) (simp add: demo_paths)
  then show ?thesis by (simp add: resolve_def MAX_MOUNTS_def demo_sys_def l) (simp add: demo_paths chr0_def)
qed

theorem vfs_open_descriptor_witness:
  "\<forall>(s :: (unit, 'w) sys) B D sizes. \<exists>s'. vfs_open (vinix_ops B D sizes) (cstr ''/proc/version'') 0 (demo_sys s) = ret (3, s') \<and>
     fd_in_use (current_fds s' ! 3) \<and> \<not> fd_in_use (current_fds (snd (vfs_close 3 s')) ! 3)"
proof (intro allI)
  fix s :: "(unit, 'w) sys" and B D sizes
  have fds: "current_fds (demo_sys s) = replicate MAX_FDS free_fd"
    by (simp add: demo_sys_def current_fds_def scheduler_current_task_def)
  have "resolve (cstr ''/proc/version'') (demo_sys s) = Some (2, [118, 101, 114, 115, 105, 111, 110])"
    by (rule demo_resolve)
  moreover have "procfs_lookup [118, 101, 114, 115, 105, 111, 110] (demo_sys s) = ret (1, demo_sys s)"
    by (simp add: procfs_lookup_def cstr_def)
  moreover have "fd_free_slot (replicate MAX_FDS free_fd) = Some 3"
    by (simp add: fd_free_slot_def first_idx_Some_iff MAX_FDS_def free_fd_def)
  ultimately have o: "\<exists>s'. vfs_open (vinix_ops B D sizes) (cstr ''/proc/version'') 0 (demo_sys s) = ret (3, s')"
    by (simp add: vfs_open_def open_file_def vinix_ops_def procfs_ops_def vx_consts fds [unfolded MAX_FDS_def])
  then obtain s' where s': "vfs_open (vinix_ops B D sizes) (cstr ''/proc/version'') 0 (demo_sys s) = ret (3, s')" by blast
  have "length (current_fds (demo_sys s)) = MAX_FDS" by (simp add: fds)
  from vfs_open_descriptor [OF s' this]
  have "fd_in_use (current_fds s' ! 3)" "\<not> fd_in_use (current_fds (snd (vfs_close 3 s')) ! 3)"
    by (auto simp: fds MAX_FDS_def free_fd_def)
  then show "\<exists>s'. vfs_open (vinix_ops B D sizes) (cstr ''/proc/version'') 0 (demo_sys s) = ret (3, s') \<and>
     fd_in_use (current_fds s' ! 3) \<and> \<not> fd_in_use (current_fds (snd (vfs_close 3 s')) ! 3)"
    using s' by blast
qed

end
