(* ===== verification/Slab.thy ===== *)
theory Slab
  imports Page_Alloc Klibc
begin

section \<open>The slab allocator (\<open>kernel/src/kernel/mm/slab.c\<close>)\<close>

text \<open>
  Caches of fixed-size objects carved out of single pages, and \<open>kmalloc\<close>/\<open>kfree\<close> over seven
  size classes.  A \<open>struct kmem_cache *\<close> is an index into \<open>cache_pool\<close>, a pointer to an object is
  its address, and \<open>None\<close> is \<open>NULL\<close>.  The two kinds of words the allocator keeps in its pages are
  the maps \<open>hdr_cache\<close> (the header at the start of a page) and \<open>obj_next\<close> (the link in a free
  object).

  The invariant names, beside the state, the owner of every slab page and the free list of every
  cache.  The lemmas show that an allocation hands out an object that is not live, that freeing a
  live object makes exactly that object free again and finds the right cache through the page
  header, and that two live objects never overlap.
\<close>

subsection \<open>State and operations\<close>

definition SLAB_MAX_CACHES :: nat where [vx_consts]: "SLAB_MAX_CACHES = 16"
definition SLAB_PAGE_HDR_BYTES :: u32 where [vx_consts]: "SLAB_PAGE_HDR_BYTES = 8"
definition PAGE_MASK :: u32 where [vx_consts]: "PAGE_MASK = NOT (PAGE_SIZE - 1)"

record kmem_cache =
  kc_name :: cstring
  obj_size :: u32
  objs_per_page :: u32
  freelist :: "u32 option"
  total_objs :: u32
  free_objs :: u32
  kc_in_use :: bool

definition kmalloc_sizes :: "u32 list" where
  "kmalloc_sizes = [32, 64, 128, 256, 512, 1024, 2048]"

definition KMALLOC_CLASSES :: nat where [vx_consts]: "KMALLOC_CLASSES = 7"

record slab_state =
  cache_pool :: "kmem_cache list"
  kmalloc_caches :: "nat option list"
  hdr_cache :: "u32 \<Rightarrow> nat option"
  obj_next :: "u32 \<Rightarrow> u32 option"
  pages :: page_state

definition align_up_8 :: "u32 \<Rightarrow> u32" where
  "align_up_8 x = (x + 7) AND NOT 7"

text \<open>\<open>cache->field = \<dots>\<close>\<close>

definition upd_cache :: "nat \<Rightarrow> (kmem_cache \<Rightarrow> kmem_cache) \<Rightarrow> slab_state \<Rightarrow> slab_state" where
  "upd_cache c f s = s\<lparr>cache_pool := (cache_pool s)[c := f (cache_pool s ! c)]\<rparr>"

text \<open>\<open>obj->next = cache->freelist; cache->freelist = obj\<close>\<close>

definition push_obj :: "nat \<Rightarrow> u32 \<Rightarrow> slab_state \<Rightarrow> slab_state" where
  "push_obj c a s = upd_cache c (\<lambda>k. k\<lparr>freelist := Some a\<rparr>)
     (s\<lparr>obj_next := (obj_next s)(a := freelist (cache_pool s ! c))\<rparr>)"

definition slab_refill :: "nat \<Rightarrow> slab_state \<Rightarrow> int \<times> slab_state" where
  "slab_refill c s =
     (case alloc_pages 0 0 (pages s) of (pa, pg) \<Rightarrow>
        if pa = 0 then (- 1, s\<lparr>pages := pg\<rparr>)
        else
          let page_va = pa + VA_OFFSET;
              s1 = s\<lparr>pages := pg, hdr_cache := (hdr_cache s)(page_va := Some c)\<rparr>;
              obj_base = page_va + SLAB_PAGE_HDR_BYTES;
              n = objs_per_page (cache_pool s ! c);
              s2 = fold (\<lambda>i. push_obj c (obj_base + of_nat i * obj_size (cache_pool s ! c))) [0..<unat n] s1
          in (0, upd_cache c (\<lambda>k. k\<lparr>total_objs := total_objs k + n, free_objs := free_objs k + n\<rparr>) s2))"

definition kmem_cache_create :: "cstring \<Rightarrow> u32 \<Rightarrow> slab_state \<Rightarrow> fault + nat option \<times> slab_state" where
  "kmem_cache_create nm sz s =
     (if \<not> sz \<ge> 4 then Inl AssertFail
      else if \<not> sz \<le> PAGE_SIZE - SLAB_PAGE_HDR_BYTES then Inl AssertFail
      else let aligned = align_up_8 sz in
        case first_idx (\<lambda>i. \<not> kc_in_use (cache_pool s ! i)) 0 SLAB_MAX_CACHES of
          None \<Rightarrow> Inr (None, s)
        | Some i \<Rightarrow> Inr (Some i, s\<lparr>cache_pool := (cache_pool s)[i :=
              \<lparr>kc_name = nm, obj_size = aligned,
               objs_per_page = (PAGE_SIZE - SLAB_PAGE_HDR_BYTES) div aligned, freelist = None,
               total_objs = 0, free_objs = 0, kc_in_use = True\<rparr>]\<rparr>))"

definition kmem_cache_alloc :: "nat option \<Rightarrow> slab_state \<Rightarrow> fault + u32 option \<times> slab_state" where
  "kmem_cache_alloc cache s =
     (case cache of None \<Rightarrow> Inl AssertFail
      | Some c \<Rightarrow>
          if \<not> kc_in_use (cache_pool s ! c) then Inl AssertFail
          else case (if freelist (cache_pool s ! c) = None then slab_refill c s else (0, s)) of (rc, s1) \<Rightarrow>
            if rc < 0 then Inr (None, s1)
            else case freelist (cache_pool s1 ! c) of
              None \<Rightarrow> Inl OutOfBounds
            | Some obj \<Rightarrow> Inr (Some obj, upd_cache c
                (\<lambda>k. k\<lparr>freelist := obj_next s1 obj, free_objs := free_objs k - 1\<rparr>) s1))"

definition kmem_cache_free :: "nat option \<Rightarrow> u32 option \<Rightarrow> slab_state \<Rightarrow> fault + slab_state" where
  "kmem_cache_free cache ptr s =
     (case cache of None \<Rightarrow> Inl AssertFail
      | Some c \<Rightarrow> (case ptr of None \<Rightarrow> Inl AssertFail
          | Some obj \<Rightarrow> Inr (upd_cache c (\<lambda>k. k\<lparr>free_objs := free_objs k + 1\<rparr>) (push_obj c obj s))))"

definition kmalloc :: "u32 \<Rightarrow> slab_state \<Rightarrow> fault + u32 option \<times> slab_state" where
  "kmalloc sz s =
     (if sz = 0 then Inr (None, s)
      else case first_idx (\<lambda>i. sz \<le> kmalloc_sizes ! i) 0 KMALLOC_CLASSES of
        Some i \<Rightarrow> kmem_cache_alloc (kmalloc_caches s ! i) s
      | None \<Rightarrow> Inr (None, s))"

definition kfree :: "u32 option \<Rightarrow> slab_state \<Rightarrow> fault + slab_state" where
  "kfree ptr s =
     (case ptr of None \<Rightarrow> Inr s
      | Some a \<Rightarrow>
          let page_va = a AND PAGE_MASK in
          if hdr_cache s page_va = None then Inl AssertFail
          else kmem_cache_free (hdr_cache s page_va) ptr s)"

definition slab_cache_free_count :: "nat \<Rightarrow> slab_state \<Rightarrow> u32" where
  "slab_cache_free_count c s = free_objs (cache_pool s ! c)"

definition slab_cache_total_count :: "nat \<Rightarrow> slab_state \<Rightarrow> u32" where
  "slab_cache_total_count c s = total_objs (cache_pool s ! c)"

fun slab_init_loop :: "nat list \<Rightarrow> slab_state \<Rightarrow> fault + slab_state" where
  "slab_init_loop [] s = Inr s"
| "slab_init_loop (i # is) s =
     fbind (kmem_cache_create (cstr ''kmalloc'') (kmalloc_sizes ! i) s) (\<lambda>(c, s1).
       if c = None then Inl AssertFail
       else slab_init_loop is (s1\<lparr>kmalloc_caches := (kmalloc_caches s1)[i := c]\<rparr>))"

definition slab_init :: "slab_state \<Rightarrow> fault + slab_state" where
  "slab_init s = slab_init_loop [0..<KMALLOC_CLASSES] s"

text \<open>The self-test.  The loops that allocate and free ten objects; \<open>None\<close> and \<open>False\<close> are a
  printed \<open>FAIL\<close> line and the early return.\<close>

fun slab_test_alloc :: "nat \<Rightarrow> nat option \<Rightarrow> u32 list \<Rightarrow> slab_state \<Rightarrow> fault + (u32 list option \<times> slab_state)" where
  "slab_test_alloc 0 c objs s = Inr (Some objs, s)"
| "slab_test_alloc (Suc n) c objs s =
     fbind (kmem_cache_alloc c s) (\<lambda>(r, s1).
       case r of None \<Rightarrow> Inr (None, s1)
       | Some a \<Rightarrow> if a \<in> set objs then Inr (None, s1) else slab_test_alloc n c (objs @ [a]) s1)"

fun slab_test_free :: "nat option \<Rightarrow> u32 list \<Rightarrow> slab_state \<Rightarrow> fault + slab_state" where
  "slab_test_free c [] s = Inr s"
| "slab_test_free c (a # as) s = fbind (kmem_cache_free c (Some a) s) (slab_test_free c as)"

definition slab_test_kmalloc :: "slab_state \<Rightarrow> fault + bool \<times> slab_state" where
  "slab_test_kmalloc s =
     fbind (kmalloc 16 s) (\<lambda>(a, s1).
     fbind (kmalloc 100 s1) (\<lambda>(b, s2).
     fbind (kmalloc 1000 s2) (\<lambda>(d, s3).
     fbind (kmalloc 3000 s3) (\<lambda>(big, s4).
       if a = None \<or> b = None \<or> d = None then Inr (False, s4)
       else if big \<noteq> None then fbind (kfree big s4) (\<lambda>s5. Inr (False, s5))
       else fbind (kfree a s4) (\<lambda>s5. fbind (kfree b s5) (\<lambda>s6. fbind (kfree d s6) (\<lambda>s7. Inr (True, s7))))))))"

definition slab_selftest :: "slab_state \<Rightarrow> fault + bool \<times> slab_state" where
  "slab_selftest s =
     fbind (kmem_cache_create (cstr ''test64'') 64 s) (\<lambda>(c, s1).
       if c = None then Inr (False, s1)
       else fbind (slab_test_alloc 10 c [] s1) (\<lambda>(r, s2).
         case r of None \<Rightarrow> Inr (False, s2)
         | Some objs \<Rightarrow>
             fbind (slab_test_free c objs s2) (\<lambda>s3.
             fbind (kmem_cache_alloc c s3) (\<lambda>(reuse, s4).
               if reuse \<notin> Some ` set objs then Inr (False, s4)
               else fbind (kmem_cache_free c reuse s4) slab_test_kmalloc))))"

subsection \<open>Where the objects are\<close>

definition page_va :: "nat \<Rightarrow> u32" where
  "page_va i = page_addr i + VA_OFFSET"

definition slab_obj :: "nat \<Rightarrow> u32 \<Rightarrow> nat \<Rightarrow> u32" where
  "slab_obj i sz k = page_va i + SLAB_PAGE_HDR_BYTES + of_nat k * sz"

definition cache_wf :: "kmem_cache \<Rightarrow> bool" where
  "cache_wf k \<longleftrightarrow> 8 \<le> unat (obj_size k) \<and> unat (obj_size k) \<le> 4088 \<and> 8 dvd unat (obj_size k) \<and>
     unat (objs_per_page k) = 4088 div unat (obj_size k)"

lemma unat_page_va: "i < POOL_PAGES \<Longrightarrow> unat (page_va i) = 0xC1000000 + i * 4096"
proof -
  assume i: "i < POOL_PAGES"
  then have "unat (page_addr i) + unat VA_OFFSET < 2 ^ 32"
    by (simp add: unat_page_addr POOL_PAGES_eq VA_OFFSET_def)
  then show ?thesis using i by (simp add: page_va_def unat_add_lem [THEN iffD1] unat_page_addr VA_OFFSET_def)
qed

lemma page_va_inj: "i < POOL_PAGES \<Longrightarrow> j < POOL_PAGES \<Longrightarrow> page_va i = page_va j \<longleftrightarrow> i = j"
proof (intro iffI)
  assume "i < POOL_PAGES" "j < POOL_PAGES" "page_va i = page_va j"
  then have "0xC1000000 + i * 4096 = (0xC1000000 + j * 4096 :: nat)" by (simp only: unat_page_va [symmetric])
  then show "i = j" by simp
qed simp

lemma obj_fits:
  assumes "cache_wf k" "n < unat (objs_per_page k)"
  shows "n * unat (obj_size k) + unat (obj_size k) \<le> 4088"
proof -
  have "Suc n * unat (obj_size k) \<le> 4088 div unat (obj_size k) * unat (obj_size k)"
    using assms by (intro mult_le_mono1) (simp add: cache_wf_def)
  also have "\<dots> \<le> 4088" by simp
  finally show ?thesis by simp
qed

lemma unat_slab_obj:
  assumes "cache_wf k" "n < unat (objs_per_page k)" "i < POOL_PAGES"
  shows "unat (slab_obj i (obj_size k) n) = 0xC1000000 + i * 4096 + 8 + n * unat (obj_size k)"
proof -
  have fit: "n * unat (obj_size k) + unat (obj_size k) \<le> 4088" by (rule obj_fits [OF assms(1,2)])
  then have "n * unat (obj_size k) < 2 ^ 32" by simp
  moreover have "1 \<le> unat (obj_size k)" using assms(1) by (simp add: cache_wf_def)
  then have "n \<le> n * unat (obj_size k)" by (cases "unat (obj_size k)") auto
  then have "n \<le> 4088" using fit by linarith
  then have "n < 2 ^ 32" by simp
  then have "unat (of_nat n :: u32) = n" by (simp add: unat_of_nat take_bit_nat_eq_self)
  ultimately have "unat (of_nat n * obj_size k) = n * unat (obj_size k)"
    by (simp add: unat_word_ariths)
  moreover have "0xC1000000 + i * 4096 + 8 + n * unat (obj_size k) < 2 ^ 32"
    using assms(3) fit by (simp add: POOL_PAGES_eq)
  ultimately show ?thesis
    by (simp add: slab_obj_def unat_word_ariths unat_page_va [OF assms(3)] SLAB_PAGE_HDR_BYTES_def)
qed

lemma unat_page_mask: "unat (a AND PAGE_MASK) = unat a - unat a mod 4096"
proof -
  have "PAGE_MASK = NOT (mask 12)" by (simp add: PAGE_MASK_def PAGE_SIZE_def mask_eq_exp_minus_1)
  then show ?thesis using unat_and_not_mask [of a 12] by simp
qed
lemma unat_align_up_8: "unat x \<le> 4088 \<Longrightarrow> unat (align_up_8 x) = (unat x + 7) div 8 * 8"
proof -
  assume "unat x \<le> 4088"
  then have "unat (x + 7) = unat x + 7" by (simp add: unat_word_ariths)
  moreover have "align_up_8 x = (x + 7) AND NOT (mask 3)" by (simp add: align_up_8_def mask_eq_exp_minus_1)
  ultimately show ?thesis using unat_and_not_mask [of "x + 7" 3] by (simp add: minus_mod_eq_div_mult) 
qed

lemma slab_obj_page:
  assumes "cache_wf k" "n < unat (objs_per_page k)" "i < POOL_PAGES"
  shows "slab_obj i (obj_size k) n AND PAGE_MASK = page_va i"
proof -
  have fit: "n * unat (obj_size k) + unat (obj_size k) \<le> 4088" "0 < unat (obj_size k)"
    using obj_fits [OF assms(1,2)] assms(1) by (auto simp: cache_wf_def)
  let ?x = "n * unat (obj_size k)"
  have "0xC1000000 + i * 4096 + 8 + ?x = (8 + ?x) + (0xC1000 + i) * 4096" by simp
  then have "(0xC1000000 + i * 4096 + 8 + ?x) mod 4096 = (8 + ?x) mod 4096" by (simp only: mod_mult_self1)
  moreover have "8 + ?x < 4096" using fit by linarith
  ultimately have "(0xC1000000 + i * 4096 + 8 + ?x) mod 4096 = 8 + ?x" by simp
  then have "unat (slab_obj i (obj_size k) n AND PAGE_MASK) = unat (page_va i)"
    unfolding unat_page_mask unat_slab_obj [OF assms] unat_page_va [OF assms(3)] by linarith
  then show ?thesis by (simp only: word_unat_eq_iff)
qed

lemma slab_obj_inj:
  assumes "cache_wf k" "n < unat (objs_per_page k)" "i < POOL_PAGES"
    "m < unat (objs_per_page k)" "slab_obj i (obj_size k) n = slab_obj i (obj_size k) m"
  shows "n = m"
proof -
  have "n * unat (obj_size k) = m * unat (obj_size k)"
    using unat_slab_obj [OF assms(1-3)] unat_slab_obj [OF assms(1,4,3)] unfolding assms(5) by linarith
  then show ?thesis using assms(1) by (simp add: cache_wf_def)
qed

subsection \<open>The invariant\<close>

text \<open>\<open>own i\<close> is the cache that page \<open>i\<close> of the pool belongs to, \<open>fl c\<close> the free list of cache
  \<open>c\<close>.\<close>

definition cache_objs :: "(nat \<Rightarrow> nat option) \<Rightarrow> slab_state \<Rightarrow> nat \<Rightarrow> u32 set" where
  "cache_objs own s c = {a. \<exists>i k. own i = Some c \<and> k < unat (objs_per_page (cache_pool s ! c)) \<and>
     a = slab_obj i (obj_size (cache_pool s ! c)) k}"

definition cache_ok :: "(nat \<Rightarrow> nat option) \<Rightarrow> u32 list \<Rightarrow> slab_state \<Rightarrow> nat \<Rightarrow> bool" where
  "cache_ok own xs s c \<longleftrightarrow> cache_wf (cache_pool s ! c) \<and>
     chain (obj_next s) (freelist (cache_pool s ! c)) xs \<and> distinct xs \<and>
     set xs \<subseteq> cache_objs own s c \<and> free_objs (cache_pool s ! c) = of_nat (length xs)"

definition owners_ok :: "(nat \<Rightarrow> nat option) \<Rightarrow> slab_state \<Rightarrow> bool" where
  "owners_ok own s \<longleftrightarrow> page_inv (pages s) \<and> dom own \<subseteq> used (pages s) \<and>
     (\<forall>i c. own i = Some c \<longrightarrow> c < SLAB_MAX_CACHES \<and> kc_in_use (cache_pool s ! c) \<and>
        hdr_cache s (page_va i) = Some c)"

definition slab_inv :: "(nat \<Rightarrow> nat option) \<Rightarrow> (nat \<Rightarrow> u32 list) \<Rightarrow> slab_state \<Rightarrow> bool" where
  "slab_inv own fl s \<longleftrightarrow> owners_ok own s \<and> length (cache_pool s) = SLAB_MAX_CACHES \<and>
     (\<forall>c<SLAB_MAX_CACHES. kc_in_use (cache_pool s ! c) \<longrightarrow> cache_ok own (fl c) s c)"

text \<open>The objects that are in the hands of callers.\<close>

definition live :: "(nat \<Rightarrow> nat option) \<Rightarrow> (nat \<Rightarrow> u32 list) \<Rightarrow> slab_state \<Rightarrow> nat \<Rightarrow> u32 set" where
  "live own fl s c = cache_objs own s c - set (fl c)"

lemma own_bound: "owners_ok own s \<Longrightarrow> own i = Some c \<Longrightarrow> i < POOL_PAGES"
  using used_bounded [of "pages s"] by (auto simp: owners_ok_def)

lemma slab_invD:
  assumes "slab_inv own fl s" "c < SLAB_MAX_CACHES" "kc_in_use (cache_pool s ! c)"
  shows "cache_wf (cache_pool s ! c)" "chain (obj_next s) (freelist (cache_pool s ! c)) (fl c)"
    "distinct (fl c)" "set (fl c) \<subseteq> cache_objs own s c" "free_objs (cache_pool s ! c) = of_nat (length (fl c))"
    "owners_ok own s" "length (cache_pool s) = SLAB_MAX_CACHES"
  using assms by (auto simp: slab_inv_def cache_ok_def)

text \<open>An object determines its page, hence its cache.\<close>

lemma cache_objs_page:
  assumes "slab_inv own fl s" "a \<in> cache_objs own s c"
  obtains i where "own i = Some c" "a AND PAGE_MASK = page_va i" "i < POOL_PAGES" "c < SLAB_MAX_CACHES"
    "kc_in_use (cache_pool s ! c)" "hdr_cache s (page_va i) = Some c"
proof -
  from assms(2) obtain i k where a: "own i = Some c" "k < unat (objs_per_page (cache_pool s ! c))"
    "a = slab_obj i (obj_size (cache_pool s ! c)) k" by (auto simp: cache_objs_def)
  have o: "owners_ok own s" using assms(1) by (simp add: slab_inv_def)
  have c: "c < SLAB_MAX_CACHES" "kc_in_use (cache_pool s ! c)" "hdr_cache s (page_va i) = Some c"
    using o a(1) by (auto simp: owners_ok_def)
  have "cache_wf (cache_pool s ! c)" by (rule slab_invD(1) [OF assms(1) c(1,2)])
  then show ?thesis using that a c own_bound [OF o a(1)] slab_obj_page by blast
qed

lemma cache_objs_disjoint:
  assumes "slab_inv own fl s" "a \<in> cache_objs own s c" "a \<in> cache_objs own s d"
  shows "c = d"
proof -
  obtain i where i: "own i = Some c" "a AND PAGE_MASK = page_va i" "i < POOL_PAGES"
    using cache_objs_page [OF assms(1,2)] by metis
  obtain j where j: "own j = Some d" "a AND PAGE_MASK = page_va j" "j < POOL_PAGES"
    using cache_objs_page [OF assms(1,3)] by metis
  show ?thesis using i j page_va_inj by auto
qed

text \<open>A cache is not affected by what happens to another one.\<close>

lemma cache_ok_frame:
  assumes "cache_ok own xs s d" "cache_pool s' ! d = cache_pool s ! d"
    "\<And>a. a \<in> set xs \<Longrightarrow> obj_next s' a = obj_next s a"
    "\<And>i. own' i = Some d \<longleftrightarrow> own i = Some d"
  shows "cache_ok own' xs s' d"
proof -
  have "cache_objs own' s' d = cache_objs own s d" using assms(2,4) by (simp add: cache_objs_def)
  moreover have "chain (obj_next s') h xs = chain (obj_next s) h xs" for h
    using assms(3) by (intro chain_cong) auto
  ultimately show ?thesis using assms(1,2) by (simp add: cache_ok_def)
qed

lemma upd_cache_simps [simp]:
  "cache_pool (upd_cache c f s) = (cache_pool s)[c := f (cache_pool s ! c)]"
  "kmalloc_caches (upd_cache c f s) = kmalloc_caches s" "hdr_cache (upd_cache c f s) = hdr_cache s"
  "obj_next (upd_cache c f s) = obj_next s" "pages (upd_cache c f s) = pages s"
  by (simp_all add: upd_cache_def)

text \<open>A step on the free list of cache \<open>c\<close> alone.\<close>

lemma slab_inv_step:
  assumes inv: "slab_inv own fl s" and c: "c < SLAB_MAX_CACHES" "kc_in_use (cache_pool s ! c)"
    and pool: "cache_pool s' = (cache_pool s)[c := k]"
    and k: "obj_size k = obj_size (cache_pool s ! c)" "objs_per_page k = objs_per_page (cache_pool s ! c)"
      "kc_in_use k" "free_objs k = of_nat (length xs)"
    and xs: "chain (obj_next s') (freelist k) xs" "distinct xs" "set xs \<subseteq> cache_objs own s c"
    and frame: "\<And>a. a \<notin> cache_objs own s c \<Longrightarrow> obj_next s' a = obj_next s a"
      "hdr_cache s' = hdr_cache s" "pages s' = pages s"
  shows "slab_inv own (fl(c := xs)) s'" "live own (fl(c := xs)) s' c = cache_objs own s c - set xs"
    "\<And>d. d \<noteq> c \<Longrightarrow> live own (fl(c := xs)) s' d = live own fl s d"
proof -
  note D = slab_invD [OF inv c]
  have lc: "c < length (cache_pool s)" using c(1) D(7) by simp
  have at: "cache_pool s' ! d = (if d = c then k else cache_pool s ! d)" for d
    using lc by (simp add: pool)
  have objs: "cache_objs own s' d = cache_objs own s d" for d
    using k by (cases "d = c") (simp_all add: cache_objs_def at)
  have "cache_ok own xs s' c" using D(1) k xs objs by (simp add: cache_ok_def at cache_wf_def)
  moreover have "cache_ok own (fl d) s' d" if "d < SLAB_MAX_CACHES" "kc_in_use (cache_pool s ! d)" "d \<noteq> c" for d
  proof (rule cache_ok_frame)
    show "cache_ok own (fl d) s d" using inv that by (simp add: slab_inv_def)
    fix a assume "a \<in> set (fl d)"
    then have "a \<in> cache_objs own s d" using slab_invD(4) [OF inv that(1,2)] by blast
    then show "obj_next s' a = obj_next s a" using cache_objs_disjoint [OF inv] that(3) frame(1) by blast
  qed (use that in \<open>simp_all add: at\<close>)
  moreover have "owners_ok own s'" using D(6) k(3) frame by (auto simp: owners_ok_def at)
  ultimately show "slab_inv own (fl(c := xs)) s'" using D(7) pool by (auto simp: slab_inv_def at)
  show "live own (fl(c := xs)) s' c = cache_objs own s c - set xs" by (simp add: live_def objs)
  show "live own (fl(c := xs)) s' d = live own fl s d" if "d \<noteq> c" for d using that by (simp add: live_def objs)
qed

lemma pop_obj:
  assumes inv: "slab_inv own fl s" and c: "c < SLAB_MAX_CACHES" "kc_in_use (cache_pool s ! c)"
    and fl: "fl c = a # xs"
  defines "s' \<equiv> upd_cache c (\<lambda>k. k\<lparr>freelist := obj_next s a, free_objs := free_objs k - 1\<rparr>) s"
  shows "freelist (cache_pool s ! c) = Some a" "slab_inv own (fl(c := xs)) s'"
    "a \<in> cache_objs own s c" "live own (fl(c := xs)) s' c = insert a (live own fl s c)" "a \<notin> live own fl s c"
    "\<And>d. d \<noteq> c \<Longrightarrow> live own (fl(c := xs)) s' d = live own fl s d"
proof -
  note D = slab_invD [OF inv c]
  have ch: "chain (obj_next s) (obj_next s a) xs" "distinct (a # xs)" "set (a # xs) \<subseteq> cache_objs own s c"
    using D(2-4) fl by auto
  show "freelist (cache_pool s ! c) = Some a" using D(2) fl by simp
  show "a \<in> cache_objs own s c" using ch by simp
  let ?k = "(cache_pool s ! c)\<lparr>freelist := obj_next s a, free_objs := free_objs (cache_pool s ! c) - 1\<rparr>"
  note st = slab_inv_step [OF inv c, of s' ?k xs]
  have "free_objs ?k = of_nat (length xs)" using D(5) fl by simp
  note st' = st [OF _ _ _ _ this]
  show "slab_inv own (fl(c := xs)) s'" by (rule st') (use ch c in \<open>simp_all add: s'_def\<close>)
  have "live own (fl(c := xs)) s' c = cache_objs own s c - set xs"
    by (rule st') (use ch c in \<open>simp_all add: s'_def\<close>)
  then show "live own (fl(c := xs)) s' c = insert a (live own fl s c)" using ch fl by (auto simp: live_def)
  show "a \<notin> live own fl s c" using fl by (simp add: live_def)
  show "live own (fl(c := xs)) s' d = live own fl s d" if "d \<noteq> c" for d
    by (rule st') (use ch c that in \<open>simp_all add: s'_def\<close>)
qed

lemma kmem_cache_free_live:
  assumes inv: "slab_inv own fl s" and a: "a \<in> live own fl s c"
  shows "\<exists>s'. kmem_cache_free (Some c) (Some a) s = Inr s' \<and> slab_inv own (fl(c := a # fl c)) s' \<and>
    live own (fl(c := a # fl c)) s' c = live own fl s c - {a} \<and>
    (\<forall>d. d \<noteq> c \<longrightarrow> live own (fl(c := a # fl c)) s' d = live own fl s d)"
proof -
  have ac: "a \<in> cache_objs own s c" "a \<notin> set (fl c)" using a by (auto simp: live_def)
  obtain i where c: "c < SLAB_MAX_CACHES" "kc_in_use (cache_pool s ! c)"
    using cache_objs_page [OF inv ac(1)] by metis
  note D = slab_invD [OF inv c]
  have lc: "c < length (cache_pool s)" using c(1) D(7) by simp
  let ?s = "upd_cache c (\<lambda>k. k\<lparr>free_objs := free_objs k + 1\<rparr>) (push_obj c a s)"
  let ?k = "(cache_pool s ! c)\<lparr>freelist := Some a, free_objs := free_objs (cache_pool s ! c) + 1\<rparr>"
  have pool: "cache_pool ?s = (cache_pool s)[c := ?k]" using lc by (simp add: push_obj_def)
  have nx: "obj_next ?s = (obj_next s)(a := freelist (cache_pool s ! c))" by (simp add: push_obj_def)
  have "chain ((obj_next s)(a := h')) h (fl c) = chain (obj_next s) h (fl c)" for h h'
    using ac(2) by (intro chain_cong) auto
  then have ch: "chain (obj_next ?s) (freelist ?k) (a # fl c)" using D(2) unfolding nx by simp
  have oth: "hdr_cache ?s = hdr_cache s" "pages ?s = pages s" by (simp_all add: push_obj_def)
  have fr: "obj_next ?s b = obj_next s b" if "b \<notin> cache_objs own s c" for b unfolding nx using that ac(1) by auto
  have len: "free_objs ?k = of_nat (length (a # fl c))" using D(5) by simp
  have xs: "distinct (a # fl c)" "set (a # fl c) \<subseteq> cache_objs own s c" using D(3,4) ac by auto
  note st = slab_inv_step [OF inv c pool _ _ _ len ch xs fr oth]
  have "kmem_cache_free (Some c) (Some a) s = Inr ?s" by (simp add: kmem_cache_free_def)
  moreover have "slab_inv own (fl(c := a # fl c)) ?s" by (rule st) (use c in simp_all)
  moreover have "live own (fl(c := a # fl c)) ?s c = cache_objs own s c - set (a # fl c)"
    by (rule st) (use c in simp_all)
  moreover have "live own (fl(c := a # fl c)) ?s d = live own fl s d" if "d \<noteq> c" for d
    by (rule st) (use c that in simp_all)
  ultimately show ?thesis by (auto simp: live_def)
qed

subsection \<open>Refilling\<close>

lemma push_obj_simps [simp]:
  "kmalloc_caches (push_obj c a s) = kmalloc_caches s" "hdr_cache (push_obj c a s) = hdr_cache s"
  "pages (push_obj c a s) = pages s"
  "cache_pool (push_obj c a s) = (cache_pool s)[c := (cache_pool s ! c)\<lparr>freelist := Some a\<rparr>]"
  "obj_next (push_obj c a s) = (obj_next s)(a := freelist (cache_pool s ! c))"
  by (simp_all add: push_obj_def)

lemma push_objs:
  assumes "c < length (cache_pool s)" "distinct as" "set as \<inter> set xs = {}"
    "chain (obj_next s) (freelist (cache_pool s ! c)) xs"
  shows "\<exists>h. cache_pool (fold (push_obj c) as s) = (cache_pool s)[c := (cache_pool s ! c)\<lparr>freelist := h\<rparr>] \<and>
    chain (obj_next (fold (push_obj c) as s)) h (rev as @ xs) \<and>
    (\<forall>a. a \<notin> set as \<longrightarrow> obj_next (fold (push_obj c) as s) a = obj_next s a) \<and>
    hdr_cache (fold (push_obj c) as s) = hdr_cache s \<and> pages (fold (push_obj c) as s) = pages s \<and>
    kmalloc_caches (fold (push_obj c) as s) = kmalloc_caches s"
  using assms
proof (induction as arbitrary: s xs)
  case Nil
  then show ?case by (intro exI [of _ "freelist (cache_pool s ! c)"]) simp
next
  case (Cons a as)
  let ?s = "push_obj c a s"
  have "chain ((obj_next s)(a := h')) h xs = chain (obj_next s) h xs" for h h'
    using Cons.prems(3) by (intro chain_cong) auto
  then have "chain (obj_next ?s) (freelist (cache_pool ?s ! c)) (a # xs)" using Cons.prems(1,4) by simp
  moreover have "c < length (cache_pool ?s)" "distinct as" "set as \<inter> set (a # xs) = {}"
    using Cons.prems(1-3) by auto
  ultimately obtain h where h: "cache_pool (fold (push_obj c) as ?s) = (cache_pool ?s)[c := (cache_pool ?s ! c)\<lparr>freelist := h\<rparr>]"
    "chain (obj_next (fold (push_obj c) as ?s)) h (rev as @ a # xs)"
    "\<forall>b. b \<notin> set as \<longrightarrow> obj_next (fold (push_obj c) as ?s) b = obj_next ?s b"
    "hdr_cache (fold (push_obj c) as ?s) = hdr_cache ?s" "pages (fold (push_obj c) as ?s) = pages ?s"
    "kmalloc_caches (fold (push_obj c) as ?s) = kmalloc_caches ?s"
    using Cons.IH [of ?s "a # xs"] by blast
  then show ?case using Cons.prems(1) by (intro exI [of _ h]) simp
qed

text \<open>The state after a refill that got a page: page \<open>i\<close> is new to the slab, its header names the
  cache, and the free list is the page's objects, last one first.\<close>

definition slab_grows :: "(nat \<Rightarrow> nat option) \<Rightarrow> slab_state \<Rightarrow> (nat \<Rightarrow> nat option) \<Rightarrow> slab_state \<Rightarrow> bool" where
  "slab_grows own s own' s' \<longleftrightarrow> kmalloc_caches s' = kmalloc_caches s \<and> used (pages s) \<subseteq> used (pages s') \<and>
     dom own' = dom own \<union> (used (pages s') - used (pages s)) \<and>
     (\<forall>d. obj_size (cache_pool s' ! d) = obj_size (cache_pool s ! d) \<and>
        kc_in_use (cache_pool s' ! d) = kc_in_use (cache_pool s ! d))"

lemma slab_refill_ok:
  assumes inv: "slab_inv own fl s" and c: "c < SLAB_MAX_CACHES" "kc_in_use (cache_pool s ! c)"
    and empty: "fl c = []" and rf: "slab_refill c s = (rc, s')" and rc: "rc \<ge> 0"
  shows "\<exists>i xs. i \<in> used (pages s') \<and> own i = None \<and> xs \<noteq> [] \<and>
    slab_inv (own(i \<mapsto> c)) (fl(c := xs)) s' \<and> live (own(i \<mapsto> c)) (fl(c := xs)) s' = live own fl s \<and>
    kc_in_use (cache_pool s' ! c) \<and> slab_grows own s (own(i \<mapsto> c)) s'"
proof -
  note D = slab_invD [OF inv c]
  have lc: "c < length (cache_pool s)" using c(1) D(7) by simp
  let ?K = "cache_pool s ! c"
  obtain pa pg where al: "alloc_pages 0 0 (pages s) = (pa, pg)" by fastforce
  have pa: "pa \<noteq> 0" using rf rc al by (auto simp: slab_refill_def)
  have pinv: "page_inv (pages s)" using D(6) by (simp add: owners_ok_def)
  note A = alloc_pages_SomeD [OF pinv al pa]
  from A(1) obtain i where i: "pa = page_addr i" "i < POOL_PAGES" "page_block pa 0 = {i..<i + 2 ^ 0}"
    by (rule is_blockE)
  have new: "i \<notin> used (pages s)" "used pg = insert i (used (pages s))" using A(2,3) i(3) by auto
  have own: "own i = None" using D(6) new(1) by (auto simp: owners_ok_def)
  let ?n = "unat (objs_per_page ?K)" and ?own = "own(i \<mapsto> c)"
  let ?as = "map (slab_obj i (obj_size ?K)) [0..<?n]"
  let ?s1 = "s\<lparr>pages := pg, hdr_cache := (hdr_cache s)(page_va i := Some c)\<rparr>"
  have das: "distinct ?as"
    using slab_obj_inj [OF D(1) _ i(2)] by (auto simp: distinct_map inj_on_def)
  obtain h where h: "cache_pool (fold (push_obj c) ?as ?s1) = (cache_pool s)[c := ?K\<lparr>freelist := h\<rparr>]"
    "chain (obj_next (fold (push_obj c) ?as ?s1)) h (rev ?as)"
    "\<forall>a. a \<notin> set ?as \<longrightarrow> obj_next (fold (push_obj c) ?as ?s1) a = obj_next s a"
    "hdr_cache (fold (push_obj c) ?as ?s1) = (hdr_cache s)(page_va i := Some c)"
    "pages (fold (push_obj c) ?as ?s1) = pg"
    using push_objs [of c ?s1 ?as "[]"] lc das D(2) empty by auto
  let ?k = "?K\<lparr>freelist := h, total_objs := total_objs ?K + objs_per_page ?K,
      free_objs := free_objs ?K + objs_per_page ?K\<rparr>"
  have s': "s' = upd_cache c (\<lambda>k. k\<lparr>total_objs := total_objs k + objs_per_page ?K,
      free_objs := free_objs k + objs_per_page ?K\<rparr>) (fold (push_obj c) ?as ?s1)"
    using rf rc al pa i(1)
    by (auto simp: slab_refill_def Let_def page_va_def [symmetric] slab_obj_def [abs_def] fold_map comp_def)
  have pool: "cache_pool s' = (cache_pool s)[c := ?k]" using lc h(1) by (simp add: s')
  have at: "cache_pool s' ! d = (if d = c then ?k else cache_pool s ! d)" for d using lc by (simp add: pool)
  have f': "obj_next s' = obj_next (fold (push_obj c) ?as ?s1)" "hdr_cache s' = (hdr_cache s)(page_va i := Some c)"
    "pages s' = pg" using h(4,5) by (simp_all add: s')
  have objs: "cache_objs ?own s' d = (if d = c then cache_objs own s c \<union> set ?as else cache_objs own s d)" for d
  proof -
    have "?own j = Some d \<longleftrightarrow> j = i \<and> d = c \<or> own j = Some d" for j using own by auto
    then show ?thesis unfolding cache_objs_def by (cases "d = c") (auto simp: at, blast)
  qed
  have "cache_wf ?k" using D(1) by (simp add: cache_wf_def)
  moreover have "(of_nat ?n :: u32) = objs_per_page ?K" by simp
  ultimately have "cache_ok ?own (rev ?as) s' c"
    using D(5) empty h(2) das by (simp add: cache_ok_def at f' objs)
  moreover have "cache_ok ?own (fl d) s' d" if d: "d < SLAB_MAX_CACHES" "kc_in_use (cache_pool s ! d)" "d \<noteq> c" for d
  proof (rule cache_ok_frame)
    show "cache_ok own (fl d) s d" using inv d by (simp add: slab_inv_def)
    fix a assume "a \<in> set (fl d)"
    then have "a \<in> cache_objs own s d" using slab_invD(4) [OF inv d(1,2)] by blast
    then obtain j where j: "own j = Some d" "a AND PAGE_MASK = page_va j" "j < POOL_PAGES"
      using cache_objs_page [OF inv] by metis
    then have "page_va j \<noteq> page_va i" using own i(2) page_va_inj by auto
    then have "a \<notin> set ?as" using slab_obj_page [OF D(1) _ i(2)] j(2) by auto
    then show "obj_next s' a = obj_next s a" using h(3) f'(1) by simp
  qed (use d own in \<open>auto simp: at\<close>)
  moreover have "owners_ok ?own s'"
    using D(6) c A(4) new(2) i(2) page_va_inj own_bound [OF D(6)]
    by (auto simp: owners_ok_def at f' split: if_splits)
  ultimately have inv': "slab_inv ?own (fl(c := rev ?as)) s'" using D(7) pool by (auto simp: slab_inv_def at)
  have "a \<notin> set ?as" if a: "a \<in> cache_objs own s c" for a
  proof -
    obtain j where j: "own j = Some c" "a AND PAGE_MASK = page_va j" "j < POOL_PAGES"
      using cache_objs_page [OF inv a] by metis
    then have "page_va j \<noteq> page_va i" using own i(2) page_va_inj by auto
    then show ?thesis using slab_obj_page [OF D(1) _ i(2)] j(2) by auto
  qed
  then have "live ?own (fl(c := rev ?as)) s' = live own fl s"
    using empty by (auto simp: live_def objs fun_eq_iff)
  moreover have "rev ?as \<noteq> []" using D(1) by (auto simp: cache_wf_def div_eq_0_iff)
  moreover have "kmalloc_caches s' = kmalloc_caches s"
    using push_objs [of c ?s1 ?as "[]"] lc das D(2) empty by (auto simp: s')
  then have "slab_grows own s ?own s'" using new by (auto simp: slab_grows_def at f')
  ultimately show ?thesis using inv' own new(2) c by (intro exI [of _ i] exI [of _ "rev ?as"]) (simp add: at f')
qed

subsection \<open>Allocation, release and the size classes\<close>

lemma live_objs: "live own fl s c \<subseteq> cache_objs own s c"
  by (auto simp: live_def)

lemma kmem_cache_alloc_cases:
  assumes inv: "slab_inv own fl s" and c: "c < SLAB_MAX_CACHES" "kc_in_use (cache_pool s ! c)"
  shows "kmem_cache_alloc (Some c) s = Inr (None, s) \<and> fst (alloc_pages 0 0 (pages s)) = 0 \<and> live own fl s c = cache_objs own s c \<or>
    (\<exists>a s' own' fl'. kmem_cache_alloc (Some c) s = Inr (Some a, s') \<and> slab_inv own' fl' s' \<and>
       a \<in> cache_objs own' s' c \<and> (\<forall>d. a \<notin> live own fl s d) \<and> slab_grows own s own' s' \<and>
       live own' fl' s' = (live own fl s)(c := insert a (live own fl s c)))"
proof (cases "fl c")
  case Nil
  have free: "freelist (cache_pool s ! c) = None" using slab_invD(2) [OF inv c] Nil by simp
  obtain rc s1 where rf: "slab_refill c s = (rc, s1)" by fastforce
  show ?thesis
  proof (cases "rc < 0")
    case True
    then have "fst (alloc_pages 0 0 (pages s)) = 0 \<and> s1 = s\<lparr>pages := snd (alloc_pages 0 0 (pages s))\<rparr>"
      using rf by (auto simp: slab_refill_def Let_def split: prod.splits if_splits)
    moreover from this have "snd (alloc_pages 0 0 (pages s)) = pages s"
      using alloc_pages_0D(1) by (metis prod.collapse)
    ultimately show ?thesis using c free rf True Nil by (simp add: kmem_cache_alloc_def live_def)
  next
    case False
    then obtain i xs where r: "own i = None" "xs \<noteq> []" "slab_inv (own(i \<mapsto> c)) (fl(c := xs)) s1"
      "live (own(i \<mapsto> c)) (fl(c := xs)) s1 = live own fl s" "kc_in_use (cache_pool s1 ! c)"
      "slab_grows own s (own(i \<mapsto> c)) s1"
      using slab_refill_ok [OF inv c Nil rf] by auto
    then obtain a ys where xs: "xs = a # ys" by (cases xs) auto
    note p = pop_obj [OF r(3) c(1) r(5), of a ys]
    let ?s = "upd_cache c (\<lambda>k. k\<lparr>freelist := obj_next s1 a, free_objs := free_objs k - 1\<rparr>) s1"
    have "kmem_cache_alloc (Some c) s = Inr (Some a, ?s)"
      using c free rf False p(1) xs by (simp add: kmem_cache_alloc_def)
    moreover have "live (own(i \<mapsto> c)) ((fl(c := xs))(c := ys)) ?s = (live own fl s)(c := insert a (live own fl s c))"
      using p(4,6) xs r(4) by (auto simp: fun_eq_iff)
    moreover have "slab_inv (own(i \<mapsto> c)) ((fl(c := xs))(c := ys)) ?s" "a \<in> cache_objs (own(i \<mapsto> c)) s1 c"
      using p(2,3) xs by simp_all
    moreover have "a \<notin> live own fl s d" for d
      using p(5) xs r(4) cache_objs_disjoint [OF r(3) calculation(4), of d] live_objs [of "own(i \<mapsto> c)" "fl(c := xs)" s1 d]
      by (cases "d = c") auto
    moreover have "cache_objs (own(i \<mapsto> c)) ?s c = cache_objs (own(i \<mapsto> c)) s1 c"
      using slab_invD(7) [OF r(3) c(1) r(5)] c(1) by (simp add: cache_objs_def)
    moreover have "slab_grows own s (own(i \<mapsto> c)) ?s"
      using r(6) slab_invD(7) [OF r(3) c(1) r(5)] c(1) by (simp add: slab_grows_def nth_list_update)
    ultimately show ?thesis by blast
  qed
next
  case (Cons a xs)
  note p = pop_obj [OF inv c Cons]
  let ?s = "upd_cache c (\<lambda>k. k\<lparr>freelist := obj_next s a, free_objs := free_objs k - 1\<rparr>) s"
  have "kmem_cache_alloc (Some c) s = Inr (Some a, ?s)" using c p(1) by (simp add: kmem_cache_alloc_def)
  moreover have "live own (fl(c := xs)) ?s = (live own fl s)(c := insert a (live own fl s c))"
    using p(4,6) by (auto simp: fun_eq_iff)
  moreover have "a \<notin> live own fl s d" for d
    using p(5) cache_objs_disjoint [OF inv p(3), of d] live_objs [of own fl s d] by (cases "d = c") auto
  moreover have "cache_objs own ?s c = cache_objs own s c"
    using slab_invD(7) [OF inv c] c(1) by (simp add: cache_objs_def)
  moreover have "slab_grows own s own ?s"
    using slab_invD(7) [OF inv c] c(1) by (simp add: slab_grows_def nth_list_update)
  ultimately show ?thesis using p(2,3) by blast
qed

lemma kfree_live:
  assumes inv: "slab_inv own fl s" and a: "a \<in> live own fl s c"
  shows "\<exists>s'. kfree (Some a) s = Inr s' \<and> slab_inv own (fl(c := a # fl c)) s' \<and>
    live own (fl(c := a # fl c)) s' = (live own fl s)(c := live own fl s c - {a})"
proof -
  obtain i where i: "a AND PAGE_MASK = page_va i" "hdr_cache s (page_va i) = Some c"
    using cache_objs_page [OF inv subsetD [OF live_objs a]] by metis
  then have "kfree (Some a) s = kmem_cache_free (Some c) (Some a) s" by (simp add: kfree_def)
  then show ?thesis using kmem_cache_free_live [OF inv a] by (auto simp: fun_eq_iff)
qed

subsection \<open>Creating caches\<close>

definition new_cache :: "cstring \<Rightarrow> u32 \<Rightarrow> kmem_cache" where
  "new_cache nm sz = \<lparr>kc_name = nm, obj_size = align_up_8 sz,
     objs_per_page = (PAGE_SIZE - SLAB_PAGE_HDR_BYTES) div align_up_8 sz, freelist = None,
     total_objs = 0, free_objs = 0, kc_in_use = True\<rparr>"

lemma new_cache_wf: "4 \<le> unat sz \<Longrightarrow> unat sz \<le> 4088 \<Longrightarrow> cache_wf (new_cache nm sz)"
  by (simp add: cache_wf_def new_cache_def unat_align_up_8 vx_consts unat_div) presburger

lemma kmem_cache_create_eq:
  assumes "4 \<le> unat sz" "unat sz \<le> 4088"
  shows "kmem_cache_create nm sz s =
    (case first_idx (\<lambda>i. \<not> kc_in_use (cache_pool s ! i)) 0 SLAB_MAX_CACHES of
       None \<Rightarrow> Inr (None, s)
     | Some i \<Rightarrow> Inr (Some i, s\<lparr>cache_pool := (cache_pool s)[i := new_cache nm sz]\<rparr>))"
  using assms by (simp add: kmem_cache_create_def new_cache_def PAGE_SIZE_def SLAB_PAGE_HDR_BYTES_def
      word_le_nat_alt Let_def split: option.split)

lemma kmem_cache_create_inv:
  fixes nm :: cstring
  assumes inv: "slab_inv own fl s" and sz: "4 \<le> unat sz" "unat sz \<le> 4088"
    and i: "i < SLAB_MAX_CACHES" "\<not> kc_in_use (cache_pool s ! i)"
  defines "s' \<equiv> s\<lparr>cache_pool := (cache_pool s)[i := new_cache nm sz]\<rparr>"
  shows "slab_inv own (fl(i := [])) s' \<and> live own (fl(i := [])) s' = (live own fl s)(i := {})"
proof -
  have len: "length (cache_pool s) = SLAB_MAX_CACHES" and o: "owners_ok own s" using inv by (simp_all add: slab_inv_def)
  have at: "cache_pool s' ! d = (if d = i then new_cache nm sz else cache_pool s ! d)" for d
    using i(1) len by (simp add: s'_def)
  have none: "own j \<noteq> Some i" for j using o i(2) by (auto simp: owners_ok_def)
  have objs: "cache_objs own s' d = (if d = i then {} else cache_objs own s d)" for d
    using none by (simp add: cache_objs_def at)
  have "cache_ok own [] s' i"
    using new_cache_wf [OF sz, of nm] by (simp add: cache_ok_def at) (simp add: new_cache_def)
  moreover have "cache_ok own (fl d) s' d" if "d < SLAB_MAX_CACHES" "kc_in_use (cache_pool s ! d)" "d \<noteq> i" for d
    by (rule cache_ok_frame [of own _ s]) (use inv that in \<open>simp_all add: slab_inv_def at s'_def\<close>)
  moreover have "owners_ok own s'"
  proof -
    have "kc_in_use (cache_pool s' ! c)" if "own j = Some c" for j c
      using that o none [of j] by (auto simp: at owners_ok_def)
    moreover have "pages s' = pages s" "hdr_cache s' = hdr_cache s" by (simp_all add: s'_def)
    ultimately show ?thesis using o by (simp add: owners_ok_def)
  qed
  ultimately have "slab_inv own (fl(i := [])) s'" using len by (auto simp: slab_inv_def at s'_def new_cache_def)
  then show ?thesis by (auto simp: live_def objs fun_eq_iff)
qed

text \<open>The size-class table: class \<open>i\<close> points to a cache in use whose objects have size
  \<open>kmalloc_sizes[i]\<close>.\<close>

definition kmalloc_ready :: "slab_state \<Rightarrow> bool" where
  "kmalloc_ready s \<longleftrightarrow> (\<forall>i<KMALLOC_CLASSES. \<exists>c<SLAB_MAX_CACHES. kmalloc_caches s ! i = Some c \<and>
     kc_in_use (cache_pool s ! c) \<and> obj_size (cache_pool s ! c) = kmalloc_sizes ! i)"

lemma kmalloc_sizes_nth:
  "i < KMALLOC_CLASSES \<Longrightarrow> unat (kmalloc_sizes ! i) = 32 * 2 ^ i \<and> align_up_8 (kmalloc_sizes ! i) = kmalloc_sizes ! i"
proof -
  assume "i < KMALLOC_CLASSES"
  then consider "i = 0" | "i = 1" | "i = 2" | "i = 3" | "i = 4" | "i = 5" | "i = 6"
    by (auto simp: KMALLOC_CLASSES_def less_Suc_eq numeral_eq_Suc)
  then show ?thesis by cases (simp_all add: kmalloc_sizes_def align_up_8_def)
qed

lemma kmalloc_sizes_range: "i < KMALLOC_CLASSES \<Longrightarrow> 4 \<le> unat (kmalloc_sizes ! i) \<and> unat (kmalloc_sizes ! i) \<le> 4088"
proof -
  assume i: "i < KMALLOC_CLASSES"
  then have "(2::nat) ^ i \<le> 2 ^ 6" by (intro power_increasing) (simp_all add: KMALLOC_CLASSES_def)
  moreover have "1 \<le> (2::nat) ^ i" by simp
  ultimately show ?thesis using kmalloc_sizes_nth [OF i] by simp
qed

text \<open>The state in the middle of \<open>slab_init\<close>: the first \<open>j\<close> classes are set up.\<close>

definition classes_done :: "nat \<Rightarrow> slab_state \<Rightarrow> bool" where
  "classes_done j s \<longleftrightarrow> length (kmalloc_caches s) = KMALLOC_CLASSES \<and>
     (\<forall>i<SLAB_MAX_CACHES. kc_in_use (cache_pool s ! i) \<longleftrightarrow> i < j) \<and>
     (\<forall>i<j. kmalloc_caches s ! i = Some i \<and> obj_size (cache_pool s ! i) = kmalloc_sizes ! i)"

lemma slab_init_loop_ok:
  assumes "j \<le> KMALLOC_CLASSES" "slab_inv own (\<lambda>c. []) s" "classes_done j s"
  shows "\<exists>s'. slab_init_loop [j..<KMALLOC_CLASSES] s = Inr s' \<and> slab_inv own (\<lambda>c. []) s' \<and>
    classes_done KMALLOC_CLASSES s' \<and> pages s' = pages s"
  using assms
proof (induction "KMALLOC_CLASSES - j" arbitrary: j s)
  case 0
  then show ?case by simp
next
  case (Suc n)
  then have j: "j < KMALLOC_CLASSES" "j < SLAB_MAX_CACHES" by (simp_all add: vx_consts)
  note sz = kmalloc_sizes_range [OF j(1)]
  have len: "length (cache_pool s) = SLAB_MAX_CACHES" using Suc.prems(2) by (simp add: slab_inv_def)
  have "first_idx (\<lambda>i. \<not> kc_in_use (cache_pool s ! i)) 0 SLAB_MAX_CACHES = Some j"
    using Suc.prems(3) j by (auto simp: first_idx_Some_iff classes_done_def)
  then have cr: "kmem_cache_create (cstr ''kmalloc'') (kmalloc_sizes ! j) s =
      Inr (Some j, s\<lparr>cache_pool := (cache_pool s)[j := new_cache (cstr ''kmalloc'') (kmalloc_sizes ! j)]\<rparr>)"
    using sz by (simp add: kmem_cache_create_eq)
  let ?s1 = "s\<lparr>cache_pool := (cache_pool s)[j := new_cache (cstr ''kmalloc'') (kmalloc_sizes ! j)]\<rparr>"
  let ?s2 = "?s1\<lparr>kmalloc_caches := (kmalloc_caches ?s1)[j := Some j]\<rparr>"
  have "\<not> kc_in_use (cache_pool s ! j)" using Suc.prems(3) j by (simp add: classes_done_def)
  then have "slab_inv own ((\<lambda>c. [])(j := [])) ?s1"
    using kmem_cache_create_inv [OF Suc.prems(2) _ _ j(2), of "kmalloc_sizes ! j" "cstr ''kmalloc''"] sz by blast
  then have inv: "slab_inv own (\<lambda>c. []) ?s2"
    by (simp add: slab_inv_def owners_ok_def cache_ok_def cache_objs_def fun_upd_idem)
  have "classes_done (Suc j) ?s2"
    using Suc.prems(3) j len kmalloc_sizes_nth [OF j(1)]
    by (auto simp: classes_done_def nth_list_update less_Suc_eq new_cache_def)
  moreover have "n = KMALLOC_CLASSES - Suc j" "Suc j \<le> KMALLOC_CLASSES" using Suc.hyps(2) j by simp_all
  ultimately obtain s' where "slab_init_loop [Suc j..<KMALLOC_CLASSES] ?s2 = Inr s'" "slab_inv own (\<lambda>c. []) s'"
    "classes_done KMALLOC_CLASSES s'" "pages s' = pages ?s2"
    using Suc.hyps(1) [OF _ _ inv] by blast
  then show ?case using j cr by (simp add: upt_conv_Cons)
qed

definition slab_boot :: slab_state where
  "slab_boot = \<lparr>cache_pool = replicate SLAB_MAX_CACHES \<lparr>kc_name = [], obj_size = 0, objs_per_page = 0,
       freelist = None, total_objs = 0, free_objs = 0, kc_in_use = False\<rparr>,
     kmalloc_caches = replicate KMALLOC_CLASSES None, hdr_cache = (\<lambda>a. None), obj_next = (\<lambda>a. None),
     pages = page_alloc_init\<rparr>"

lemma slab_boot_inv: "slab_inv (\<lambda>i. None) (\<lambda>c. []) slab_boot" "classes_done 0 slab_boot"
  by (simp_all add: slab_inv_def owners_ok_def slab_boot_def page_inv_init classes_done_def)

lemma slab_init_ready: "classes_done KMALLOC_CLASSES s \<Longrightarrow> kmalloc_ready s"
proof -
  assume d: "classes_done KMALLOC_CLASSES s"
  have "\<exists>c<SLAB_MAX_CACHES. kmalloc_caches s ! i = Some c \<and> kc_in_use (cache_pool s ! c) \<and>
      obj_size (cache_pool s ! c) = kmalloc_sizes ! i" if "i < KMALLOC_CLASSES" for i
    using d that by (intro exI [of _ i]) (auto simp: classes_done_def vx_consts)
  then show ?thesis by (simp add: kmalloc_ready_def)
qed

lemma slab_init_boot: "\<exists>s. slab_init slab_boot = Inr s \<and> slab_inv (\<lambda>i. None) (\<lambda>c. []) s \<and>
    classes_done KMALLOC_CLASSES s \<and> pages s = page_alloc_init"
  using slab_init_loop_ok [of 0 "\<lambda>i. None" slab_boot] slab_boot_inv by (auto simp: slab_init_def slab_boot_def)

text \<open>\<open>slab_init\<close> on an empty cache pool passes every assertion and leaves a consistent
  allocator with no live object whose seven classes have the object sizes 32 to 2048, and
  \<open>kmalloc\<close> then serves a request from the smallest class that fits: it returns \<open>NULL\<close> and
  changes nothing for 0 bytes and for more than 2048 bytes, and otherwise is the allocation from a
  cache in use whose objects hold the request.\<close>

lemma kmalloc_size_classes:
  assumes "slab_inv own (\<lambda>c. []) s0" "classes_done 0 s0"
  shows "\<exists>s. slab_init s0 = Inr s \<and> slab_inv own (\<lambda>c. []) s \<and> kmalloc_ready s \<and>
    (\<forall>t sz. kmalloc_ready t \<longrightarrow>
      (if sz = 0 \<or> unat sz > 2048 then kmalloc sz t = Inr (None, t)
       else \<exists>c<SLAB_MAX_CACHES. kmalloc sz t = kmem_cache_alloc (Some c) t \<and> kc_in_use (cache_pool t ! c) \<and>
         unat sz \<le> unat (obj_size (cache_pool t ! c)) \<and>
         (unat (obj_size (cache_pool t ! c)) = 32 \<or> unat (obj_size (cache_pool t ! c)) < 2 * unat sz)))"
proof -
  obtain s where s: "slab_init s0 = Inr s" "slab_inv own (\<lambda>c. []) s" "classes_done KMALLOC_CLASSES s"
    using slab_init_loop_ok [OF _ assms] by (auto simp: slab_init_def)
  have "if sz = 0 \<or> unat sz > 2048 then kmalloc sz t = Inr (None, t)
       else \<exists>c<SLAB_MAX_CACHES. kmalloc sz t = kmem_cache_alloc (Some c) t \<and> kc_in_use (cache_pool t ! c) \<and>
         unat sz \<le> unat (obj_size (cache_pool t ! c)) \<and>
         (unat (obj_size (cache_pool t ! c)) = 32 \<or> unat (obj_size (cache_pool t ! c)) < 2 * unat sz)"
    if rd: "kmalloc_ready t" for t sz
  proof (cases "first_idx (\<lambda>i. sz \<le> kmalloc_sizes ! i) 0 KMALLOC_CLASSES")
    case None
    then have "\<not> sz \<le> kmalloc_sizes ! 6" by (auto simp: first_idx_None_iff KMALLOC_CLASSES_def)
    then have "unat sz > 2048" by (simp add: kmalloc_sizes_def word_le_nat_alt)
    then show ?thesis using None by (simp add: kmalloc_def)
  next
    case (Some i)
    note f = first_idx_SomeD [OF Some]
    have i: "i < KMALLOC_CLASSES" "unat sz \<le> 32 * 2 ^ i"
      using f(2,3) kmalloc_sizes_nth by (auto simp: word_le_nat_alt)
    have prev: "32 * 2 ^ (i - 1) < unat sz" if "0 < i"
      using f(4) [of "i - 1"] that i kmalloc_sizes_nth [of "i - 1"] by (simp add: word_le_nat_alt)
    have "(2::nat) ^ i \<le> 2 ^ 6" using i(1) by (intro power_increasing) (simp_all add: KMALLOC_CLASSES_def)
    then have le: "unat sz \<le> 2048" using i(2) by simp
    obtain c where c: "c < SLAB_MAX_CACHES" "kmalloc_caches t ! i = Some c" "kc_in_use (cache_pool t ! c)"
      "obj_size (cache_pool t ! c) = kmalloc_sizes ! i" using rd i(1) by (auto simp: kmalloc_ready_def)
    have "unat (kmalloc_sizes ! i) = 32 \<or> unat (kmalloc_sizes ! i) < 2 * unat sz"
      using prev kmalloc_sizes_nth [OF i(1)] by (cases i) auto
    then show ?thesis using Some c le i kmalloc_sizes_nth [OF i(1)] by (auto simp: kmalloc_def)
  qed
  then show ?thesis using s slab_init_ready by blast
qed

theorem kmalloc_size_classes_witness:
  "\<exists>s. slab_init slab_boot = Inr s \<and> slab_inv (\<lambda>i. None) (\<lambda>c. []) s \<and> kmalloc_ready s"
  using kmalloc_size_classes [OF slab_boot_inv] by blast

subsection \<open>Safety of allocation and release\<close>

lemma slab_alloc_boot:
  "\<exists>s a s' own fl. slab_init slab_boot = Inr s \<and> kmem_cache_alloc (Some 2) s = Inr (Some a, s') \<and>
     slab_inv own fl s' \<and> live own fl s' 2 = {a} \<and> classes_done KMALLOC_CLASSES s \<and>
     slab_grows (\<lambda>i. None) s own s' \<and> pages s = page_alloc_init"
proof -
  obtain s where s: "slab_init slab_boot = Inr s" "slab_inv (\<lambda>i. None) (\<lambda>c. []) s"
    "classes_done KMALLOC_CLASSES s" "pages s = page_alloc_init" using slab_init_boot by blast
  have c: "2 < SLAB_MAX_CACHES" "kc_in_use (cache_pool s ! 2)"
    using s(3) by (simp_all add: classes_done_def vx_consts)
  have "fst (alloc_pages 0 0 (pages s)) \<noteq> 0"
    using alloc_page_succeeds [OF page_inv_init, of 0] s(4) page_addr_in_pool(4) by (auto simp: used_init POOL_PAGES_eq)
  then obtain a s' own fl where "kmem_cache_alloc (Some 2) s = Inr (Some a, s')" "slab_inv own fl s'"
    "live own fl s' = (live (\<lambda>i. None) (\<lambda>c. []) s)(2 := insert a (live (\<lambda>i. None) (\<lambda>c. []) s 2))"
    "slab_grows (\<lambda>i. None) s own s'"
    using kmem_cache_alloc_cases [OF s(2) c] by blast
  moreover have "live (\<lambda>i. None) (\<lambda>c. []) s 2 = {}" by (simp add: live_def cache_objs_def)
  ultimately have "live own fl s' 2 = {a}" by simp
  with \<open>slab_inv own fl s'\<close> \<open>kmem_cache_alloc (Some 2) s = _\<close> \<open>slab_grows _ s own s'\<close> s show ?thesis by blast
qed

text \<open>C9: the slab allocator hands out fresh objects.  On a consistent allocator,
  \<open>kmem_cache_alloc\<close> either returns \<open>NULL\<close> without changing anything, and then every object of the
  cache is live and the page allocator has no page left, or it returns an object of the cache that
  was not live in any cache, which is now the only additional live object; the allocator stays
  consistent.\<close>

theorem kmem_cache_alloc_fresh:
  assumes "slab_inv own fl s" "c < SLAB_MAX_CACHES" "kc_in_use (cache_pool s ! c)"
  shows "kmem_cache_alloc (Some c) s = Inr (None, s) \<and> fst (alloc_pages 0 0 (pages s)) = 0 \<and> live own fl s c = cache_objs own s c \<or>
    (\<exists>a s' own' fl'. kmem_cache_alloc (Some c) s = Inr (Some a, s') \<and> slab_inv own' fl' s' \<and>
       a \<in> cache_objs own' s' c \<and> (\<forall>d. a \<notin> live own fl s d) \<and> slab_grows own s own' s' \<and>
       live own' fl' s' = (live own fl s)(c := insert a (live own fl s c)))"
  by (rule kmem_cache_alloc_cases [OF assms])

theorem kmem_cache_alloc_fresh_witness:
  "\<exists>s. slab_init slab_boot = Inr s \<and>
    (kmem_cache_alloc (Some 0) s = Inr (None, s) \<or> (\<exists>a s'. kmem_cache_alloc (Some 0) s = Inr (Some a, s')))"
proof -
  obtain s where s: "slab_init slab_boot = Inr s" "slab_inv (\<lambda>i. None) (\<lambda>c. []) s"
    "classes_done KMALLOC_CLASSES s" using slab_init_boot by blast
  then have "0 < SLAB_MAX_CACHES" "kc_in_use (cache_pool s ! 0)" by (simp_all add: classes_done_def vx_consts)
  from kmem_cache_alloc_fresh [OF s(2) this] s(1) show ?thesis by blast
qed

text \<open>\<open>kfree\<close> of a live object passes its assertions, finds the object's cache through the header
  of its page, and makes exactly that object free again; the allocator stays consistent.\<close>

lemma kfree_releases_live:
  assumes "slab_inv own fl s" "a \<in> live own fl s c"
  shows "\<exists>s' fl'. kfree (Some a) s = Inr s' \<and> slab_inv own fl' s' \<and>
    live own fl' s' = (live own fl s)(c := live own fl s c - {a})"
  using kfree_live [OF assms] by blast

theorem kfree_releases_live_witness:
  "\<exists>s a s' s''. slab_init slab_boot = Inr s \<and> kmem_cache_alloc (Some 2) s = Inr (Some a, s') \<and>
    kfree (Some a) s' = Inr s''"
proof -
  obtain s a s' own fl where s: "slab_init slab_boot = Inr s" "kmem_cache_alloc (Some 2) s = Inr (Some a, s')"
    "slab_inv own fl s'" "live own fl s' 2 = {a}" using slab_alloc_boot by blast
  with kfree_releases_live [OF s(3), of a 2] show ?thesis by blast
qed

subsection \<open>Live objects do not overlap\<close>

lemma live_place:
  assumes "slab_inv own fl s" "x \<in> live own fl s e"
  obtains i k where "x = slab_obj i (obj_size (cache_pool s ! e)) k" "own i = Some e" "i < POOL_PAGES"
    "unat x = 0xC1000000 + i * 4096 + 8 + k * unat (obj_size (cache_pool s ! e))"
    "k * unat (obj_size (cache_pool s ! e)) + unat (obj_size (cache_pool s ! e)) \<le> 4088" "8 dvd unat (obj_size (cache_pool s ! e))"
proof -
  have o: "x \<in> cache_objs own s e" using assms(2) live_objs by blast
  then obtain i k where x: "own i = Some e" "k < unat (objs_per_page (cache_pool s ! e))"
    "x = slab_obj i (obj_size (cache_pool s ! e)) k" by (auto simp: cache_objs_def)
  obtain j where e: "e < SLAB_MAX_CACHES" "kc_in_use (cache_pool s ! e)"
    using cache_objs_page [OF assms(1) o] by metis
  note D = slab_invD [OF assms(1) e]
  have "i < POOL_PAGES" by (rule own_bound [OF D(6) x(1)])
  then show ?thesis using that x unat_slab_obj [OF D(1) x(2)] obj_fits [OF D(1) x(2)] D(1) by (auto simp: cache_wf_def)
qed

lemma live_disjoint:
  assumes "slab_inv own fl s" "a \<in> live own fl s c" "b \<in> live own fl s d" "a \<noteq> b"
  shows "unat a + unat (obj_size (cache_pool s ! c)) \<le> unat b \<or> unat b + unat (obj_size (cache_pool s ! d)) \<le> unat a"
proof -
  let ?C = "unat (obj_size (cache_pool s ! c))" and ?D = "unat (obj_size (cache_pool s ! d))"
  obtain i k where a: "a = slab_obj i (obj_size (cache_pool s ! c)) k" "own i = Some c" "unat a = 0xC1000000 + i * 4096 + 8 + k * ?C"
    "k * ?C + ?C \<le> 4088" using live_place [OF assms(1,2)] by metis
  obtain j l where b: "b = slab_obj j (obj_size (cache_pool s ! d)) l" "own j = Some d" "unat b = 0xC1000000 + j * 4096 + 8 + l * ?D"
    "l * ?D + ?D \<le> 4088" using live_place [OF assms(1,3)] by metis
  have "i \<noteq> j \<or> k \<noteq> l" using a(1,2) b(1,2) assms(4) by auto
  then consider "i = j" "Suc k \<le> l" | "i = j" "Suc l \<le> k" | "Suc i \<le> j" | "Suc j \<le> i"
    by linarith
  then show ?thesis
  proof cases
    case 1
    then have "Suc k * ?C \<le> l * ?C" "c = d" using a(2) b(2) by (simp_all only: mult_le_mono1) simp
    then show ?thesis using a(3) b(3) 1(1) by simp
  next
    case 2
    then have "Suc l * ?C \<le> k * ?C" "c = d" using a(2) b(2) by (simp_all only: mult_le_mono1) simp
    then show ?thesis using a(3) b(3) 2(1) by simp
  next
    case 3
    then have "Suc i * 4096 \<le> j * 4096" by (rule mult_le_mono1)
    then show ?thesis using a(3,4) b(3) by simp
  next
    case 4
    then have "Suc j * 4096 \<le> i * 4096" by (rule mult_le_mono1)
    then show ?thesis using a(3) b(3,4) by simp
  qed
qed

text \<open>The first \<open>n\<close> bytes of a block lie in one page of the pool, behind its header, from a multiple of 8 on.\<close>

definition block_place :: "u32 \<Rightarrow> nat \<Rightarrow> bool" where
  "block_place a n \<longleftrightarrow> 8 dvd unat a \<and>
     (\<exists>i < POOL_PAGES. unat (page_va i) + 8 \<le> unat a \<and> unat a + n \<le> unat (page_va i) + 4096)"

lemma live_block_place:
  assumes "slab_inv own fl s" "a \<in> live own fl s c" "n \<le> unat (obj_size (cache_pool s ! c))"
  shows "block_place a n"
proof -
  let ?C = "unat (obj_size (cache_pool s ! c))"
  obtain i k where a: "i < POOL_PAGES" "unat a = 0xC1000000 + i * 4096 + 8 + k * ?C" "k * ?C + ?C \<le> 4088" "8 dvd ?C"
    using live_place [OF assms(1,2)] by metis
  have "8 dvd unat a" unfolding a(2) using a(4) by (intro dvd_add dvd_mult) simp_all
  then show ?thesis using a(1-3) assms(3) by (auto simp: block_place_def unat_page_va)
qed

subsection \<open>Any sequence of \<open>kmalloc\<close> and \<open>kfree\<close>\<close>

text \<open>\<open>kmalloc_run s L\<close>: the callers of \<open>kmalloc\<close> and \<open>kfree\<close> have brought the allocator from boot into the state
  \<open>s\<close>, and \<open>L\<close> is what they hold: the blocks they got and have not freed, with the sizes they asked for.
  They free only what they hold.\<close>

inductive kmalloc_run :: "slab_state \<Rightarrow> (u32 \<Rightarrow> nat option) \<Rightarrow> bool" where
  run_boot: "slab_init slab_boot = Inr s \<Longrightarrow> kmalloc_run s (\<lambda>a. None)"
| run_alloc: "kmalloc_run s L \<Longrightarrow> kmalloc sz s = Inr (Some a, s') \<Longrightarrow> kmalloc_run s' (L(a := Some (unat sz)))"
| run_null: "kmalloc_run s L \<Longrightarrow> kmalloc sz s = Inr (None, s') \<Longrightarrow> kmalloc_run s' L"
| run_free: "kmalloc_run s L \<Longrightarrow> L a \<noteq> None \<Longrightarrow> kfree (Some a) s = Inr s' \<Longrightarrow> kmalloc_run s' (L(a := None))"

definition holds_live :: "(u32 \<Rightarrow> nat option) \<Rightarrow> (nat \<Rightarrow> nat option) \<Rightarrow> (nat \<Rightarrow> u32 list) \<Rightarrow> slab_state \<Rightarrow> bool" where
  "holds_live L own fl s \<longleftrightarrow> slab_inv own fl s \<and> kmalloc_ready s \<and>
     (\<forall>a n. L a = Some n \<longrightarrow> (\<exists>c. a \<in> live own fl s c \<and> n \<le> unat (obj_size (cache_pool s ! c))))"

lemma holds_liveD:
  assumes "holds_live L own fl s" "L a = Some n"
  obtains c where "a \<in> live own fl s c" "n \<le> unat (obj_size (cache_pool s ! c))"
  using assms unfolding holds_live_def by blast

lemma kmalloc_ready_grows: "kmalloc_ready s \<Longrightarrow> slab_grows own s own' s' \<Longrightarrow> kmalloc_ready s'"
  by (simp add: kmalloc_ready_def slab_grows_def)

lemma kmalloc_serves:
  assumes "kmalloc_ready s" "sz \<noteq> 0" "unat sz \<le> 2048"
  obtains c where "c < SLAB_MAX_CACHES" "kmalloc sz s = kmem_cache_alloc (Some c) s" "kc_in_use (cache_pool s ! c)"
    "unat sz \<le> unat (obj_size (cache_pool s ! c))"
  using kmalloc_size_classes [OF slab_boot_inv] assms by (metis not_le)

lemma kmalloc_refuses: "kmalloc_ready s \<Longrightarrow> sz = 0 \<or> unat sz > 2048 \<Longrightarrow> kmalloc sz s = Inr (None, s)"
  using kmalloc_size_classes [OF slab_boot_inv] by metis

lemma kmalloc_outcome:
  assumes "holds_live L own fl s"
  shows "kmalloc sz s = Inr (None, s) \<or>
    (\<exists>a s' own' fl'. kmalloc sz s = Inr (Some a, s') \<and> L a = None \<and> holds_live (L(a := Some (unat sz))) own' fl' s')"
proof (cases "sz = 0 \<or> unat sz > 2048")
  case True
  then show ?thesis using kmalloc_refuses assms by (simp add: holds_live_def)
next
  case False
  then obtain c where c: "c < SLAB_MAX_CACHES" "kmalloc sz s = kmem_cache_alloc (Some c) s" "kc_in_use (cache_pool s ! c)"
    "unat sz \<le> unat (obj_size (cache_pool s ! c))"
    using kmalloc_serves [of s sz] assms by (auto simp: holds_live_def not_less)
  have inv: "slab_inv own fl s" using assms by (simp add: holds_live_def)
  from kmem_cache_alloc_cases [OF inv c(1,3)] show ?thesis
  proof
    assume "\<exists>a s' own' fl'. kmem_cache_alloc (Some c) s = Inr (Some a, s') \<and> slab_inv own' fl' s' \<and>
       a \<in> cache_objs own' s' c \<and> (\<forall>d. a \<notin> live own fl s d) \<and> slab_grows own s own' s' \<and>
       live own' fl' s' = (live own fl s)(c := insert a (live own fl s c))"
    then obtain a s' own' fl' where r: "kmem_cache_alloc (Some c) s = Inr (Some a, s')" "slab_inv own' fl' s'"
      "\<forall>d. a \<notin> live own fl s d" "slab_grows own s own' s'" "live own' fl' s' = (live own fl s)(c := insert a (live own fl s c))" by blast
    have sz: "obj_size (cache_pool s' ! d) = obj_size (cache_pool s ! d)" for d using r(4) by (simp add: slab_grows_def)
    have "L a = None" using assms r(3) by (cases "L a") (auto simp: holds_live_def)
    moreover have "\<exists>d. b \<in> live own' fl' s' d \<and> n \<le> unat (obj_size (cache_pool s' ! d))"
      if "(L(a := Some (unat sz))) b = Some n" for b n
    proof (cases "b = a")
      case True
      then show ?thesis using that c(4) by (intro exI [of _ c]) (simp add: r(5) sz)
    next
      case False
      then have "L b = Some n" using that by simp
      then obtain d where "b \<in> live own fl s d" "n \<le> unat (obj_size (cache_pool s ! d))" by (rule holds_liveD [OF assms])
      then show ?thesis by (intro exI [of _ d]) (auto simp: r(5) sz)
    qed
    ultimately show ?thesis using r(1,2,4) c(2) kmalloc_ready_grows assms unfolding holds_live_def by metis
  qed (use c(2) in simp)
qed

lemma kfree_outcome:
  assumes "holds_live L own fl s" "L a = Some m"
  shows "\<exists>s' fl'. kfree (Some a) s = Inr s' \<and> holds_live (L(a := None)) own fl' s'"
proof -
  have inv: "slab_inv own fl s" using assms(1) by (simp add: holds_live_def)
  obtain c where c: "a \<in> live own fl s c" by (rule holds_liveD [OF assms])
  obtain i where i: "a AND PAGE_MASK = page_va i" "hdr_cache s (page_va i) = Some c" "c < length (cache_pool s)"
    using cache_objs_page [OF inv subsetD [OF live_objs c]] inv unfolding slab_inv_def by metis
  obtain s' where s': "kfree (Some a) s = Inr s'" "slab_inv own (fl(c := a # fl c)) s'"
    "live own (fl(c := a # fl c)) s' = (live own fl s)(c := live own fl s c - {a})" using kfree_live [OF inv c] by blast
  have same: "kmalloc_caches s' = kmalloc_caches s" "obj_size (cache_pool s' ! d) = obj_size (cache_pool s ! d)"
    "kc_in_use (cache_pool s' ! d) = kc_in_use (cache_pool s ! d)" for d
    using s'(1) i by (auto simp: kfree_def kmem_cache_free_def nth_list_update split: if_splits)
  have "\<exists>d. b \<in> live own (fl(c := a # fl c)) s' d \<and> n \<le> unat (obj_size (cache_pool s' ! d))" if "(L(a := None)) b = Some n" for b n
  proof -
    have "b \<noteq> a" "L b = Some n" using that by (auto split: if_splits)
    then obtain d where "b \<in> live own fl s d" "n \<le> unat (obj_size (cache_pool s ! d))" by (metis holds_liveD [OF assms(1)])
    then show ?thesis using \<open>b \<noteq> a\<close> by (intro exI [of _ d]) (auto simp: s'(3) same)
  qed
  moreover have "kmalloc_ready s'" using assms(1) by (simp add: holds_live_def kmalloc_ready_def same)
  ultimately show ?thesis using s'(1,2) unfolding holds_live_def by blast
qed

lemma kmalloc_run_live: "kmalloc_run s L \<Longrightarrow> \<exists>own fl. holds_live L own fl s"
proof (induction rule: kmalloc_run.induct)
  case (run_boot s)
  then show ?case using slab_init_boot slab_init_ready by (auto simp: holds_live_def)
next
  case (run_alloc s L sz a s')
  then obtain own fl where "holds_live L own fl s" by blast
  then show ?case using kmalloc_outcome [of L own fl s sz] run_alloc.hyps(2) by (fastforce simp del: fun_upd_apply)
next
  case (run_null s L sz s')
  then obtain own fl where "holds_live L own fl s" by blast
  then show ?case using kmalloc_outcome [of L own fl s sz] run_null.hyps(2) by auto
next
  case (run_free s L a s')
  then obtain own fl m where "holds_live L own fl s" "L a = Some m" by blast
  then show ?case using kfree_outcome [of L own fl s a m] run_free.hyps(3) by (fastforce simp del: fun_upd_apply)
qed

text \<open>C10: after any sequence of \<open>kmalloc\<close> and \<open>kfree\<close> calls from boot, in which callers free only what they
  hold: no two held blocks overlap, every held block is aligned to 8 bytes and lies with the bytes asked
  for inside one page of the pool, behind the page's header; a next \<open>kmalloc\<close> passes every assertion
  and never gives a block that is held; and a \<open>kfree\<close> of a held block passes every assertion.\<close>

theorem kmalloc_blocks_disjoint:
  assumes "kmalloc_run s L"
  shows "(\<forall>a b m n. L a = Some m \<and> L b = Some n \<and> a \<noteq> b \<longrightarrow> unat a + m \<le> unat b \<or> unat b + n \<le> unat a) \<and>
    (\<forall>a n. L a = Some n \<longrightarrow> block_place a n) \<and>
    (\<forall>sz. \<exists>r s'. kmalloc sz s = Inr (r, s') \<and> (\<forall>a. r = Some a \<longrightarrow> L a = None)) \<and>
    (\<forall>a. L a \<noteq> None \<longrightarrow> (\<exists>s'. kfree (Some a) s = Inr s'))"
proof -
  obtain own fl where h: "holds_live L own fl s" using kmalloc_run_live [OF assms] by blast
  then have inv: "slab_inv own fl s" and L: "L a = Some n \<Longrightarrow> \<exists>c. a \<in> live own fl s c \<and> n \<le> unat (obj_size (cache_pool s ! c))" for a n
    by (auto simp: holds_live_def)
  have "unat a + m \<le> unat b \<or> unat b + n \<le> unat a" if "L a = Some m" "L b = Some n" "a \<noteq> b" for a b m n
    using L [OF that(1)] L [OF that(2)] live_disjoint [OF inv _ _ that(3)] by fastforce
  moreover have "block_place a n" if "L a = Some n" for a n using L [OF that] live_block_place [OF inv] by blast
  moreover have "\<exists>r s'. kmalloc sz s = Inr (r, s') \<and> (\<forall>a. r = Some a \<longrightarrow> L a = None)" for sz
    using kmalloc_outcome [OF h, of sz] by auto
  moreover have "\<exists>s'. kfree (Some a) s = Inr s'" if "L a \<noteq> None" for a using kfree_outcome [OF h] that by blast
  ultimately show ?thesis by blast
qed

text \<open>Two requests of 100 bytes after boot give two blocks.\<close>

lemma kmalloc_first:
  assumes "slab_inv own fl s" "kmalloc_ready s" "page_inv (pages s)" "card (used (pages s)) < POOL_PAGES" "sz \<noteq> 0" "unat sz \<le> 2048"
  shows "\<exists>a s'. kmalloc sz s = Inr (Some a, s')"
proof -
  obtain c where c: "c < SLAB_MAX_CACHES" "kmalloc sz s = kmem_cache_alloc (Some c) s" "kc_in_use (cache_pool s ! c)"
    using kmalloc_serves [OF assms(2,5,6)] by metis
  have "fst (alloc_pages 0 0 (pages s)) \<noteq> 0"
    using alloc_page_succeeds [OF assms(3), of 0] assms(4) page_addr_in_pool(4) by auto
  then show ?thesis using kmem_cache_alloc_cases [OF assms(1) c(1,3)] c(2) by auto
qed

theorem kmalloc_blocks_disjoint_witness:
  "\<exists>s s1 a. slab_init slab_boot = Inr s \<and> kmalloc 100 s = Inr (Some a, s1) \<and> block_place a 100 \<and>
     (\<forall>b s2. kmalloc 100 s1 = Inr (Some b, s2) \<longrightarrow> unat a + 100 \<le> unat b \<or> unat b + 100 \<le> unat a)"
proof -
  obtain s where s: "slab_init slab_boot = Inr s" "slab_inv (\<lambda>i. None) (\<lambda>c. []) s"
    "classes_done KMALLOC_CLASSES s" "pages s = page_alloc_init" using slab_init_boot by blast
  obtain a s1 where a: "kmalloc 100 s = Inr (Some a, s1)"
    using kmalloc_first [OF s(2) slab_init_ready [OF s(3)], of 100] s(4) page_inv_init by (auto simp: used_init POOL_PAGES_eq)
  note r1 = run_alloc [OF run_boot [OF s(1)] a]
  have "block_place a 100" using kmalloc_blocks_disjoint [OF r1] by simp
  moreover have "unat a + 100 \<le> unat b \<or> unat b + 100 \<le> unat a" if b: "kmalloc 100 s1 = Inr (Some b, s2)" for b s2
  proof -
    have "b \<noteq> a" using kmalloc_blocks_disjoint [OF r1] b by (metis fun_upd_same option.distinct(1) prod.inject sum.inject(2))
    then show ?thesis using kmalloc_blocks_disjoint [OF run_alloc [OF r1 b]] by simp
  qed
  ultimately show ?thesis using s(1) a by blast
qed

end
