(* ===== verification/Mmu.thy ===== *)
theory Mmu
  imports Page_Alloc
begin

section \<open>Page tables (\<open>kernel/src/kernel/mmu/mmu.c\<close>, \<open>kernel/include/mmu.h\<close>)\<close>

text \<open>
  The kernel uses first-level tables of 4096 one-megabyte sections.  A table is a function from
  the index of a section to its descriptor.  The tables of processes live in pages of the page
  allocator: \<open>pgds\<close> is the contents of the table at each physical address.

  \<open>section_translate\<close> is what the hardware makes of a table (ARM short descriptors, sections
  only): the physical address, and whether user mode may access it.  The lemmas show what the
  boot code and \<open>mmu_init\<close> map, and that a table built by \<open>mmu_new_pgd\<close> and
  \<open>mmu_install_user_section\<close> gives user mode exactly the one megabyte at \<open>USER_SPACE_VA\<close>.
\<close>

subsection \<open>Constants\<close>

definition MMU_SECTION_SIZE :: u32 where [vx_consts]: "MMU_SECTION_SIZE = 0x100000"
definition MMU_SECTION_SHIFT :: nat where [vx_consts]: "MMU_SECTION_SHIFT = 20"
definition MMU_L1_ENTRIES :: nat where [vx_consts]: "MMU_L1_ENTRIES = 4096"

definition MMU_SECT_PERIPHERAL :: u32 where [vx_consts]:
  "MMU_SECT_PERIPHERAL = 0x2 OR push_bit 10 0x1 OR push_bit 5 0 OR push_bit 12 0 OR push_bit 4 1"
definition MMU_SECT_KERNEL_RAM :: u32 where [vx_consts]:
  "MMU_SECT_KERNEL_RAM = 0x2 OR push_bit 10 0x1 OR push_bit 5 0 OR push_bit 12 1 OR push_bit 3 1 OR
     push_bit 2 1 OR push_bit 16 1"
definition MMU_SECT_USER_RAM :: u32 where [vx_consts]:
  "MMU_SECT_USER_RAM = 0x2 OR push_bit 10 0x3 OR push_bit 5 1 OR push_bit 12 1 OR push_bit 3 1 OR
     push_bit 2 1 OR push_bit 16 1"
definition MMU_SECT_FB_RAM :: u32 where [vx_consts]:
  "MMU_SECT_FB_RAM = 0x2 OR push_bit 10 0x1 OR push_bit 5 0 OR push_bit 12 1 OR push_bit 4 1"

definition PERIPH_L4_WKUP_PA :: u32 where [vx_consts]: "PERIPH_L4_WKUP_PA = 0x44E00000"
definition PERIPH_L4_WKUP_SECTIONS :: nat where [vx_consts]: "PERIPH_L4_WKUP_SECTIONS = 1"
definition PERIPH_L4_PER_PA :: u32 where [vx_consts]: "PERIPH_L4_PER_PA = 0x48000000"
definition PERIPH_L4_PER_SECTIONS :: nat where [vx_consts]: "PERIPH_L4_PER_SECTIONS = 4"
definition PERIPH_CPSW_PA :: u32 where [vx_consts]: "PERIPH_CPSW_PA = 0x4A100000"
definition PERIPH_CPSW_SECTIONS :: nat where [vx_consts]: "PERIPH_CPSW_SECTIONS = 1"
definition FB_PA_BASE :: u32 where [vx_consts]: "FB_PA_BASE = 0x80800000"
definition FB_SECTIONS :: nat where [vx_consts]: "FB_SECTIONS = 4"
definition KERNEL_VA_BASE :: u32 where [vx_consts]: "KERNEL_VA_BASE = 0xC0000000"
definition KERNEL_DDR_PA :: u32 where [vx_consts]: "KERNEL_DDR_PA = 0x80000000"
definition KERNEL_DDR_MB :: nat where [vx_consts]: "KERNEL_DDR_MB = 5"
definition USER_SPACE_PA :: u32 where [vx_consts]: "USER_SPACE_PA = KERNEL_DDR_PA + of_nat KERNEL_DDR_MB * MMU_SECTION_SIZE"
definition USER_SPACE_MB :: nat where [vx_consts]: "USER_SPACE_MB = 1"
definition POOL_KERNEL_VA_BASE :: u32 where [vx_consts]: "POOL_KERNEL_VA_BASE = 0xC1000000"
definition POOL_KERNEL_PA_BASE :: u32 where [vx_consts]: "POOL_KERNEL_PA_BASE = 0x81000000"
definition POOL_KERNEL_MB :: nat where [vx_consts]: "POOL_KERNEL_MB = 112"
definition BOOT_IDENTITY_PA :: u32 where [vx_consts]: "BOOT_IDENTITY_PA = 0x80000000"
definition BOOT_IDENTITY_MB :: nat where [vx_consts]: "BOOT_IDENTITY_MB = 128"

subsection \<open>Operations\<close>

type_synonym l1_table = "nat \<Rightarrow> u32"

record mmu_state =
  kpgd :: l1_table
  pgds :: "u32 \<Rightarrow> l1_table"
  ttbr0 :: u32

definition sect_idx :: "u32 \<Rightarrow> nat" where
  "sect_idx va = unat (drop_bit MMU_SECTION_SHIFT va)"

text \<open>The loop \<open>for (i = 0; i < n; i++) pgd[(va + i * 1MB) >> 20] = (pa + i * 1MB) | attr\<close>.\<close>

definition map_run :: "u32 \<Rightarrow> u32 \<Rightarrow> u32 \<Rightarrow> nat \<Rightarrow> l1_table \<Rightarrow> l1_table" where
  "map_run va pa attr n t = fold (\<lambda>i t. t(sect_idx (va + of_nat i * MMU_SECTION_SIZE) :=
     (pa + of_nat i * MMU_SECTION_SIZE) OR attr)) [0..<n] t"

definition clear_run :: "u32 \<Rightarrow> nat \<Rightarrow> l1_table \<Rightarrow> l1_table" where
  "clear_run pa n t = fold (\<lambda>i t. t(sect_idx (pa + of_nat i * MMU_SECTION_SIZE) := 0)) [0..<n] t"

definition mmu_build_page_table_boot :: "l1_table \<Rightarrow> l1_table" where
  "mmu_build_page_table_boot t0 =
     (let t1 = fold (\<lambda>i t. t(i := 0)) [0..<MMU_L1_ENTRIES] t0;
          t2 = map_run PERIPH_L4_WKUP_PA PERIPH_L4_WKUP_PA MMU_SECT_PERIPHERAL PERIPH_L4_WKUP_SECTIONS t1;
          t3 = map_run PERIPH_L4_PER_PA PERIPH_L4_PER_PA MMU_SECT_PERIPHERAL PERIPH_L4_PER_SECTIONS t2;
          t4 = map_run PERIPH_CPSW_PA PERIPH_CPSW_PA MMU_SECT_PERIPHERAL PERIPH_CPSW_SECTIONS t3;
          t5 = map_run FB_PA_BASE FB_PA_BASE MMU_SECT_FB_RAM FB_SECTIONS t4;
          t6 = map_run USER_SPACE_VA USER_SPACE_PA MMU_SECT_USER_RAM USER_SPACE_MB t5;
          t7 = map_run KERNEL_VA_BASE KERNEL_DDR_PA MMU_SECT_KERNEL_RAM KERNEL_DDR_MB t6;
          t8 = map_run POOL_KERNEL_VA_BASE POOL_KERNEL_PA_BASE MMU_SECT_KERNEL_RAM POOL_KERNEL_MB t7
      in map_run BOOT_IDENTITY_PA BOOT_IDENTITY_PA MMU_SECT_KERNEL_RAM BOOT_IDENTITY_MB t8)"

text \<open>\<open>mmu_init\<close> removes the identity mapping of the memory and puts the framebuffer back; the
  TLB flush and the vector base have no counterpart in the table.\<close>

definition mmu_init :: "mmu_state \<Rightarrow> mmu_state" where
  "mmu_init s = s\<lparr>kpgd := map_run FB_PA_BASE FB_PA_BASE MMU_SECT_FB_RAM FB_SECTIONS
     (clear_run BOOT_IDENTITY_PA BOOT_IDENTITY_MB (kpgd s))\<rparr>"

definition mmu_install_page_table :: "u32 \<Rightarrow> u32 \<Rightarrow> u32 \<Rightarrow> mmu_state \<Rightarrow> mmu_state" where
  "mmu_install_page_table section_va l2_table_va domain s =
     (let l2_pa = l2_table_va - VA_OFFSET in
      s\<lparr>kpgd := (kpgd s)(sect_idx section_va :=
        (l2_pa AND 0xFFFFFC00) OR push_bit 5 (domain AND 0xF) OR 0x01)\<rparr>)"

definition PGD_KERNEL_START_IDX :: nat where
  "PGD_KERNEL_START_IDX = sect_idx KERNEL_VA_BASE"

definition copy_entries :: "l1_table \<Rightarrow> u32 \<Rightarrow> nat \<Rightarrow> l1_table \<Rightarrow> l1_table" where
  "copy_entries src pa n t = fold (\<lambda>i t. t(sect_idx pa + i := src (sect_idx pa + i))) [0..<n] t"

definition fresh_pgd :: "l1_table \<Rightarrow> l1_table \<Rightarrow> l1_table" where
  "fresh_pgd kp old =
     (let t1 = fold (\<lambda>i t. t(i := 0)) [0..<PGD_KERNEL_START_IDX] old;
          t2 = fold (\<lambda>i t. t(i := kp i)) [PGD_KERNEL_START_IDX..<MMU_L1_ENTRIES] t1;
          wkup_idx = sect_idx PERIPH_L4_WKUP_PA;
          t3 = t2(wkup_idx := kp wkup_idx);
          t4 = copy_entries kp PERIPH_L4_PER_PA PERIPH_L4_PER_SECTIONS t3;
          t5 = copy_entries kp FB_PA_BASE FB_SECTIONS t4
      in copy_entries kp PERIPH_CPSW_PA PERIPH_CPSW_SECTIONS t5)"

definition mmu_new_pgd :: "page_state \<Rightarrow> mmu_state \<Rightarrow> u32 \<times> page_state \<times> mmu_state" where
  "mmu_new_pgd pg s =
     (case alloc_pages 0 2 pg of (pa, pg') \<Rightarrow>
        if pa = 0 then (0, pg', s)
        else (pa, pg', s\<lparr>pgds := (pgds s)(pa := fresh_pgd (kpgd s) (pgds s pa))\<rparr>))"

definition mmu_free_pgd :: "u32 \<Rightarrow> page_state \<Rightarrow> fault + page_state" where
  "mmu_free_pgd pgd_pa pg = free_pages pgd_pa 2 pg"

text \<open>\<open>mmu_kernel_pgd_pa\<close>: the linker places the kernel's table at the virtual address \<open>pgd_va\<close>.\<close>

definition mmu_kernel_pgd_pa :: "u32 \<Rightarrow> u32" where
  "mmu_kernel_pgd_pa pgd_va = pgd_va - VA_OFFSET"

definition mmu_switch_pgd :: "u32 \<Rightarrow> mmu_state \<Rightarrow> mmu_state" where
  "mmu_switch_pgd pgd_pa s = s\<lparr>ttbr0 := pgd_pa OR 0x4A\<rparr>"

definition mmu_install_user_section :: "u32 \<Rightarrow> u32 \<Rightarrow> u32 \<Rightarrow> mmu_state \<Rightarrow> mmu_state" where
  "mmu_install_user_section pgd_pa user_va upa s =
     s\<lparr>pgds := (pgds s)(pgd_pa := (pgds s pgd_pa)(sect_idx user_va := upa OR MMU_SECT_USER_RAM))\<rparr>"

subsection \<open>What a table means\<close>

definition section_translate :: "l1_table \<Rightarrow> u32 \<Rightarrow> (u32 \<times> bool) option" where
  "section_translate t va =
     (let e = t (sect_idx va) in
      if take_bit 2 e = 2
      then Some (push_bit 20 (drop_bit 20 e) OR take_bit 20 va, take_bit 2 (drop_bit 10 e) = 3)
      else None)"

lemma sect_idx_eq: "sect_idx va = unat va div 2 ^ 20"
proof -
  have "sect_idx va = drop_bit 20 (unat va)" by (simp only: sect_idx_def MMU_SECTION_SHIFT_def unat_drop_bit_eq)
  then show ?thesis by (simp only: drop_bit_eq_div)
qed

lemma sect_idx_bound: "sect_idx va < MMU_L1_ENTRIES"
  using unsigned_less [of va, where 'a = nat] by (simp add: sect_idx_eq MMU_L1_ENTRIES_def less_mult_imp_div_less)

lemma sect_idx_run:
  assumes "unat va + n * 2 ^ 20 \<le> 2 ^ 32" "i < n"
  shows "sect_idx (va + of_nat i * MMU_SECTION_SIZE) = sect_idx va + i"
proof -
  have "i * 2 ^ 20 + 2 ^ 20 \<le> n * (2 ^ 20 :: nat)" using assms(2) by (metis Suc_leI add.commute mult_Suc mult_le_mono1)
  then have le: "unat va + i * 2 ^ 20 < 2 ^ 32" "i * 2 ^ 20 < (2 ^ 32 :: nat)" using assms(1) by simp_all
  then have "unat (of_nat i :: u32) = i" by (simp add: unat_of_nat take_bit_nat_eq_self)
  then have "unat (of_nat i * MMU_SECTION_SIZE) = i * 2 ^ 20"
    using le(2) by (simp add: MMU_SECTION_SIZE_def unat_word_ariths)
  then have "unat (va + of_nat i * MMU_SECTION_SIZE) = unat va + i * 2 ^ 20"
    using le(1) by (simp add: unat_word_ariths)
  then show ?thesis by (simp add: sect_idx_eq)
qed

lemma fold_upd_plus:
  "fold (\<lambda>i t. t(b + i := h i)) [0..<n] t x = (if b \<le> x \<and> x < b + n then h (x - b) else t x)"
  by (induction n) auto

lemma fold_upd_range:
  "a \<le> b \<Longrightarrow> fold (\<lambda>i t. t(i := h i)) [a..<b] t x = (if a \<le> x \<and> x < b then h x else t x)"
  by (induction b) (auto simp: le_Suc_eq)

lemma map_run_apply:
  assumes "unat va + n * 2 ^ 20 \<le> 2 ^ 32"
  shows "map_run va pa attr n t x =
    (if sect_idx va \<le> x \<and> x < sect_idx va + n
     then (pa + of_nat (x - sect_idx va) * MMU_SECTION_SIZE) OR attr else t x)"
proof -
  have "map_run va pa attr n t =
      fold (\<lambda>i t. t(sect_idx va + i := (pa + of_nat i * MMU_SECTION_SIZE) OR attr)) [0..<n] t"
    unfolding map_run_def by (rule fold_cong) (simp_all add: sect_idx_run [OF assms])
  then show ?thesis by (simp add: fold_upd_plus)
qed

lemma clear_run_apply:
  assumes "unat va + n * 2 ^ 20 \<le> 2 ^ 32"
  shows "clear_run va n t x = (if sect_idx va \<le> x \<and> x < sect_idx va + n then 0 else t x)"
proof -
  have "clear_run va n t = fold (\<lambda>i t. t(sect_idx va + i := 0)) [0..<n] t"
    unfolding clear_run_def by (rule fold_cong) (simp_all add: sect_idx_run [OF assms])
  then show ?thesis by (simp add: fold_upd_plus)
qed

lemma copy_entries_apply:
  "copy_entries src pa n t x = (if sect_idx pa \<le> x \<and> x < sect_idx pa + n then src x else t x)"
  by (auto simp: copy_entries_def fold_upd_plus)

lemma or_sect:
  fixes w attr :: u32
  assumes "drop_bit 20 attr = 0"
  shows "take_bit 2 (push_bit 20 w OR attr) = take_bit 2 attr"
    "take_bit 2 (drop_bit 10 (push_bit 20 w OR attr)) = take_bit 2 (drop_bit 10 attr)"
    "push_bit 20 (drop_bit 20 (push_bit 20 w OR attr)) = push_bit 20 w"
proof -
  have a: "\<not> bit attr n" if "20 \<le> n" for n
  proof -
    have "bit attr n = bit (drop_bit 20 attr) (n - 20)" using that by (simp add: bit_drop_bit_eq)
    then show ?thesis using assms by simp
  qed
  show "take_bit 2 (push_bit 20 w OR attr) = take_bit 2 attr"
    by (rule bit_eqI) (auto simp: bit_simps)
  show "take_bit 2 (drop_bit 10 (push_bit 20 w OR attr)) = take_bit 2 (drop_bit 10 attr)"
    by (rule bit_eqI) (auto simp: bit_simps)
  show "push_bit 20 (drop_bit 20 (push_bit 20 w OR attr)) = push_bit 20 w"
    by (rule bit_eqI) (auto simp: bit_simps a)
qed

lemma or_offset: "push_bit 20 w OR take_bit 20 va = push_bit 20 w + take_bit 20 (va :: u32)"
  by (rule disjunctive_add_eq_or [symmetric]) (rule bit_eqI, auto simp: bit_simps)

text \<open>An entry written by \<open>map_run\<close> translates an address by adding the distance of the run.\<close>

lemma translate_run:
  fixes vb pb attr :: u32
  assumes e: "t (sect_idx va) = (pb + of_nat (sect_idx va - sect_idx vb) * MMU_SECTION_SIZE) OR attr"
    and le: "sect_idx vb \<le> sect_idx va"
    and al: "vb = push_bit 20 (drop_bit 20 vb)" "pb = push_bit 20 (drop_bit 20 pb)"
    and at: "drop_bit 20 attr = 0" "take_bit 2 attr = 2"
  shows "section_translate t va = Some (va - vb + pb, take_bit 2 (drop_bit 10 attr) = 3)"
proof -
  let ?k = "drop_bit 20 va - drop_bit 20 vb"
  have "(of_nat (sect_idx va - sect_idx vb) :: u32) = of_nat (sect_idx va) - of_nat (sect_idx vb)"
    using le by (simp add: of_nat_diff)
  also have "\<dots> = ?k" by (simp add: sect_idx_def MMU_SECTION_SHIFT_def)
  finally have k: "(of_nat (sect_idx va - sect_idx vb) :: u32) = ?k" .
  have pb: "pb + ?k * MMU_SECTION_SIZE = push_bit 20 (drop_bit 20 pb + ?k)"
    using al(2) by (simp add: push_bit_eq_mult MMU_SECTION_SIZE_def algebra_simps)
  have "push_bit 20 (drop_bit 20 pb + ?k) + take_bit 20 va = va - vb + pb"
  proof -
    have "push_bit 20 (drop_bit 20 va) + take_bit 20 va = va" by (rule bits_ident)
    then have "va - vb = push_bit 20 ?k + take_bit 20 va"
      using al(1) by (simp add: push_bit_eq_mult algebra_simps)
    then show ?thesis using al(2) by (simp add: push_bit_eq_mult algebra_simps)
  qed
  then show ?thesis
    using or_sect [OF at(1), of "drop_bit 20 pb + ?k"] at(2) e
    by (simp add: section_translate_def Let_def k pb or_offset)
qed

lemma attr_facts:
  "drop_bit 20 MMU_SECT_PERIPHERAL = 0" "take_bit 2 MMU_SECT_PERIPHERAL = 2" "take_bit 2 (drop_bit 10 MMU_SECT_PERIPHERAL) = 1"
  "drop_bit 20 MMU_SECT_KERNEL_RAM = 0" "take_bit 2 MMU_SECT_KERNEL_RAM = 2" "take_bit 2 (drop_bit 10 MMU_SECT_KERNEL_RAM) = 1"
  "drop_bit 20 MMU_SECT_USER_RAM = 0" "take_bit 2 MMU_SECT_USER_RAM = 2" "take_bit 2 (drop_bit 10 MMU_SECT_USER_RAM) = 3"
  "drop_bit 20 MMU_SECT_FB_RAM = 0" "take_bit 2 MMU_SECT_FB_RAM = 2" "take_bit 2 (drop_bit 10 MMU_SECT_FB_RAM) = 1"
  by (simp_all add: vx_consts push_bit_eq_mult drop_bit_eq_div)

text \<open>The kernel's table after \<open>mmu_build_page_table_boot\<close> and \<open>mmu_init\<close>.\<close>

definition boot_mmu :: "mmu_state \<Rightarrow> mmu_state" where
  "boot_mmu s = mmu_init (s\<lparr>kpgd := mmu_build_page_table_boot (kpgd s)\<rparr>)"

definition zero_mmu :: mmu_state where
  "zero_mmu = \<lparr>kpgd = (\<lambda>x. 0), pgds = (\<lambda>p x. 0), ttbr0 = 0\<rparr>"

lemma sect_idx_consts:
  "sect_idx PERIPH_L4_WKUP_PA = 0x44E" "sect_idx PERIPH_L4_PER_PA = 0x480" "sect_idx PERIPH_CPSW_PA = 0x4A1"
  "sect_idx FB_PA_BASE = 0x808" "sect_idx USER_SPACE_VA = 0x400" "sect_idx KERNEL_VA_BASE = 0xC00"
  "sect_idx POOL_KERNEL_VA_BASE = 0xC10" "sect_idx BOOT_IDENTITY_PA = 0x800"
  by (simp_all add: sect_idx_eq vx_consts)

lemma boot_mmu_entry:
  assumes "x < MMU_L1_ENTRIES"
  shows "kpgd (boot_mmu s) x =
    (if 0x808 \<le> x \<and> x < 0x80C then (FB_PA_BASE + of_nat (x - 0x808) * MMU_SECTION_SIZE) OR MMU_SECT_FB_RAM
     else if 0xC10 \<le> x \<and> x < 0xC80 then (POOL_KERNEL_PA_BASE + of_nat (x - 0xC10) * MMU_SECTION_SIZE) OR MMU_SECT_KERNEL_RAM
     else if 0xC00 \<le> x \<and> x < 0xC05 then (KERNEL_DDR_PA + of_nat (x - 0xC00) * MMU_SECTION_SIZE) OR MMU_SECT_KERNEL_RAM
     else if x = 0x400 then (USER_SPACE_PA + of_nat (x - 0x400) * MMU_SECTION_SIZE) OR MMU_SECT_USER_RAM
     else if x = 0x4A1 then (PERIPH_CPSW_PA + of_nat (x - 0x4A1) * MMU_SECTION_SIZE) OR MMU_SECT_PERIPHERAL
     else if 0x480 \<le> x \<and> x < 0x484 then (PERIPH_L4_PER_PA + of_nat (x - 0x480) * MMU_SECTION_SIZE) OR MMU_SECT_PERIPHERAL
     else if x = 0x44E then (PERIPH_L4_WKUP_PA + of_nat (x - 0x44E) * MMU_SECTION_SIZE) OR MMU_SECT_PERIPHERAL
     else 0)"
proof -
  have b: "unat FB_PA_BASE + FB_SECTIONS * 2 ^ 20 \<le> 2 ^ 32" "unat BOOT_IDENTITY_PA + BOOT_IDENTITY_MB * 2 ^ 20 \<le> 2 ^ 32"
    "unat POOL_KERNEL_VA_BASE + POOL_KERNEL_MB * 2 ^ 20 \<le> 2 ^ 32" "unat KERNEL_VA_BASE + KERNEL_DDR_MB * 2 ^ 20 \<le> 2 ^ 32"
    "unat USER_SPACE_VA + USER_SPACE_MB * 2 ^ 20 \<le> 2 ^ 32" "unat PERIPH_CPSW_PA + PERIPH_CPSW_SECTIONS * 2 ^ 20 \<le> 2 ^ 32"
    "unat PERIPH_L4_PER_PA + PERIPH_L4_PER_SECTIONS * 2 ^ 20 \<le> 2 ^ 32"
    "unat PERIPH_L4_WKUP_PA + PERIPH_L4_WKUP_SECTIONS * 2 ^ 20 \<le> 2 ^ 32"
    by (simp_all add: vx_consts)
  have n: "FB_SECTIONS = 4" "BOOT_IDENTITY_MB = 128" "POOL_KERNEL_MB = 112" "KERNEL_DDR_MB = 5" "USER_SPACE_MB = 1"
    "PERIPH_CPSW_SECTIONS = 1" "PERIPH_L4_PER_SECTIONS = 4" "PERIPH_L4_WKUP_SECTIONS = 1" by (simp_all add: vx_consts)
  have "kpgd (boot_mmu s) = map_run FB_PA_BASE FB_PA_BASE MMU_SECT_FB_RAM FB_SECTIONS
      (clear_run BOOT_IDENTITY_PA BOOT_IDENTITY_MB (mmu_build_page_table_boot (kpgd s)))"
    by (simp add: boot_mmu_def mmu_init_def)
  then show ?thesis using assms
    by (simp only: mmu_build_page_table_boot_def Let_def
        map_run_apply [OF b(1)] clear_run_apply [OF b(2)] map_run_apply [OF b(2)] map_run_apply [OF b(3)]
        map_run_apply [OF b(4)] map_run_apply [OF b(5)] map_run_apply [OF b(6)] map_run_apply [OF b(7)]
        map_run_apply [OF b(8)] sect_idx_consts fold_upd_range le0)
      (auto simp: MMU_L1_ENTRIES_def n)
qed

lemma aligned_consts:
  "KERNEL_VA_BASE = push_bit 20 (drop_bit 20 KERNEL_VA_BASE)" "KERNEL_DDR_PA = push_bit 20 (drop_bit 20 KERNEL_DDR_PA)"
  "POOL_KERNEL_VA_BASE = push_bit 20 (drop_bit 20 POOL_KERNEL_VA_BASE)"
  "POOL_KERNEL_PA_BASE = push_bit 20 (drop_bit 20 POOL_KERNEL_PA_BASE)"
  "USER_SPACE_VA = push_bit 20 (drop_bit 20 USER_SPACE_VA)" "USER_SPACE_PA = push_bit 20 (drop_bit 20 USER_SPACE_PA)"
  "FB_PA_BASE = push_bit 20 (drop_bit 20 FB_PA_BASE)" "PERIPH_CPSW_PA = push_bit 20 (drop_bit 20 PERIPH_CPSW_PA)"
  "PERIPH_L4_PER_PA = push_bit 20 (drop_bit 20 PERIPH_L4_PER_PA)"
  "PERIPH_L4_WKUP_PA = push_bit 20 (drop_bit 20 PERIPH_L4_WKUP_PA)"
  by (simp_all add: vx_consts)

lemma entry_user:
  assumes "pb = push_bit 20 (drop_bit 20 pb)" "drop_bit 20 attr = 0"
  shows "take_bit 2 (drop_bit 10 ((pb + of_nat k * MMU_SECTION_SIZE) OR attr)) = take_bit 2 (drop_bit 10 attr)"
proof -
  have "pb + of_nat k * MMU_SECTION_SIZE = push_bit 20 (drop_bit 20 pb + of_nat k)"
    using assms(1) by (simp add: push_bit_eq_mult MMU_SECTION_SIZE_def algebra_simps)
  then show ?thesis using or_sect(2) [OF assms(2)] by simp
qed

lemma boot_mmu_user:
  assumes "x < MMU_L1_ENTRIES" "take_bit 2 (drop_bit 10 (kpgd (boot_mmu s) x)) = 3"
  shows "x = 0x400"
proof (rule ccontr)
  assume "x \<noteq> 0x400"
  then have "take_bit 2 (drop_bit 10 (kpgd (boot_mmu s) x)) = 1 \<or> take_bit 2 (drop_bit 10 (kpgd (boot_mmu s) x)) = 0"
    unfolding boot_mmu_entry [OF assms(1)]
    by (simp only: entry_user [OF aligned_consts(7) attr_facts(10)] entry_user [OF aligned_consts(4) attr_facts(4)]
        entry_user [OF aligned_consts(2) attr_facts(4)] entry_user [OF aligned_consts(8) attr_facts(1)]
        entry_user [OF aligned_consts(9) attr_facts(1)] entry_user [OF aligned_consts(10) attr_facts(1)] attr_facts
        split: if_split) simp
  then show False using assms(2) by auto
qed

lemma sect_idx_le: "n * 0x100000 \<le> unat va \<longleftrightarrow> n \<le> sect_idx va"
  by (simp add: sect_idx_eq less_eq_div_iff_mult_less_eq)

lemma sect_range:
  assumes "lo = of_nat (n * 0x100000)" "hi = of_nat (m * 0x100000)" "n < 4096" "m < 4096"
  shows "va \<in> {lo..<hi} \<longleftrightarrow> n \<le> sect_idx va \<and> sect_idx va < m"
proof -
  have "unat (of_nat (k * 0x100000) :: u32) = k * 0x100000" if "k < 4096" for k :: nat
  proof -
    have "k * 0x100000 < 2 ^ 32" using that by simp
    then show ?thesis by (simp only: unsigned_of_nat take_bit_nat_eq_self len_num1 len_bit0 mult_numeral_1_right) (simp add: take_bit_nat_eq_self)
  qed
  then show ?thesis using assms sect_idx_le [of n va] sect_idx_le [of m va]
    by (auto simp: word_le_nat_alt word_less_nat_alt simp del: of_nat_mult)
qed

lemma range_idx:
  "va \<in> {0x40000000..<0x40100000} \<longleftrightarrow> sect_idx va = 0x400"
  "va \<in> {0xC0000000..<0xC0500000} \<longleftrightarrow> 0xC00 \<le> sect_idx va \<and> sect_idx va < 0xC05"
  "va \<in> {0xC1000000..<0xC8000000} \<longleftrightarrow> 0xC10 \<le> sect_idx va \<and> sect_idx va < 0xC80"
  "va \<in> {0x80800000..<0x80C00000} \<longleftrightarrow> 0x808 \<le> sect_idx va \<and> sect_idx va < 0x80C"
  "va \<in> {0x44E00000..<0x44F00000} \<longleftrightarrow> sect_idx va = 0x44E"
  "va \<in> {0x48000000..<0x48400000} \<longleftrightarrow> 0x480 \<le> sect_idx va \<and> sect_idx va < 0x484"
  "va \<in> {0x4A100000..<0x4A200000} \<longleftrightarrow> sect_idx va = 0x4A1"
  using sect_range [of _ "0x400" _ "0x401" va] sect_range [of _ "0xC00" _ "0xC05" va] sect_range [of _ "0xC10" _ "0xC80" va]
    sect_range [of _ "0x808" _ "0x80C" va] sect_range [of _ "0x44E" _ "0x44F" va] sect_range [of _ "0x480" _ "0x484" va]
    sect_range [of _ "0x4A1" _ "0x4A2" va]
  by simp_all linarith+

lemma user_range_idx: "USER_SPACE_VA \<le> va \<and> va < USER_SPACE_VA + USER_SPACE_BYTES \<longleftrightarrow> sect_idx va = 0x400"
  using range_idx(1) [of va] by (simp add: USER_SPACE_VA_def USER_SPACE_BYTES_def)








subsection \<open>The table of a process\<close>

lemma fresh_pgd_apply:
  assumes "x < MMU_L1_ENTRIES"
  shows "fresh_pgd kp old x =
    (if 0xC00 \<le> x \<or> x = 0x44E \<or> 0x480 \<le> x \<and> x < 0x484 \<or> 0x808 \<le> x \<and> x < 0x80C \<or> x = 0x4A1 then kp x else 0)"
proof -
  have n: "PGD_KERNEL_START_IDX = 0xC00" "FB_SECTIONS = 4" "PERIPH_CPSW_SECTIONS = 1" "PERIPH_L4_PER_SECTIONS = 4" "MMU_L1_ENTRIES = 4096"
    by (simp only: PGD_KERNEL_START_IDX_def sect_idx_consts) (simp_all add: vx_consts)
  have le: "PGD_KERNEL_START_IDX \<le> MMU_L1_ENTRIES" by (simp add: n)
  show ?thesis using assms
    by (simp only: fresh_pgd_def Let_def copy_entries_apply fold_upd_range [OF le] fold_upd_range [OF le0]
        sect_idx_consts fun_upd_apply) (auto simp: n)
qed

lemma boot_mmu_zero:
  assumes "x < MMU_L1_ENTRIES" "\<not> (0xC00 \<le> x \<or> x = 0x44E \<or> 0x480 \<le> x \<and> x < 0x484 \<or> 0x808 \<le> x \<and> x < 0x80C \<or> x = 0x4A1)" "x \<noteq> 0x400"
  shows "kpgd (boot_mmu s) x = 0"
proof -
  have "\<not> (0xC10 \<le> x \<and> x < 0xC80)" "\<not> (0xC00 \<le> x \<and> x < 0xC05)" using assms(2) by auto
  then show ?thesis using assms(2,3) by (simp only: boot_mmu_entry [OF assms(1)] de_Morgan_disj if_False simp_thms)
qed

text \<open>C12: isolation of processes.  In the table that \<open>mmu_new_pgd\<close> builds from the kernel's table,
  once \<open>mmu_install_user_section\<close> has installed the megabyte of memory at a section-aligned
  physical address, the user addresses reach exactly that megabyte, in user mode too, and every other
  address, those of the kernel, the framebuffer and the peripherals included, is as in the kernel's own
  table: so user mode can access nothing but that megabyte.\<close>

theorem process_address_space:
  assumes "upa = push_bit 20 (drop_bit 20 upa)" "mmu_new_pgd pg (boot_mmu s) = (pa, pg', s')" "pa \<noteq> 0"
  shows "section_translate (pgds (mmu_install_user_section pa USER_SPACE_VA upa s') pa) va =
      (if va \<in> {0x40000000..<0x40100000} then Some (va - USER_SPACE_VA + upa, True)
       else section_translate (kpgd (boot_mmu s)) va) \<and>
    (\<forall>qa. section_translate (kpgd (boot_mmu s)) va = Some (qa, True) \<longrightarrow> va \<in> {0x40000000..<0x40100000})"
proof -
  let ?t = "pgds (mmu_install_user_section pa USER_SPACE_VA upa s') pa"
  have "pgds s' pa = fresh_pgd (kpgd (boot_mmu s)) (pgds (boot_mmu s) pa)"
    using assms(2,3) by (auto simp: mmu_new_pgd_def split: prod.splits if_splits)
  then have t: "?t x = (if x = 0x400 then upa OR MMU_SECT_USER_RAM else kpgd (boot_mmu s) x)" if "x < MMU_L1_ENTRIES" for x
    using that boot_mmu_zero [OF that, of s] by (simp add: mmu_install_user_section_def sect_idx_consts fresh_pgd_apply)
  have user: "section_translate ?t va = Some (va - USER_SPACE_VA + upa, True)" if "sect_idx va = 0x400"
  proof -
    have "?t (sect_idx va) = (upa + of_nat (sect_idx va - sect_idx USER_SPACE_VA) * MMU_SECTION_SIZE) OR MMU_SECT_USER_RAM"
      using that t [of "0x400"] by (simp add: sect_idx_consts MMU_L1_ENTRIES_def)
    from translate_run [where t = ?t and va = va and vb = USER_SPACE_VA and pb = upa and attr = MMU_SECT_USER_RAM,
        OF this _ aligned_consts(5) assms(1) attr_facts(7,8)] that
    show ?thesis by (simp add: sect_idx_consts attr_facts)
  qed
  moreover have "section_translate ?t va = section_translate (kpgd (boot_mmu s)) va" if "sect_idx va \<noteq> 0x400"
    using t [OF sect_idx_bound, of va] that by (simp add: section_translate_def)
  moreover have "sect_idx va = 0x400" if "section_translate (kpgd (boot_mmu s)) va = Some (qa, True)" for qa
    using that by (intro boot_mmu_user [OF sect_idx_bound, of s]) (auto simp: section_translate_def Let_def split: if_splits)
  ultimately show ?thesis unfolding range_idx by auto
qed

theorem process_address_space_witness:
  "\<exists>pg pa pg' s'. mmu_new_pgd pg (boot_mmu zero_mmu) = (pa, pg', s') \<and>
    section_translate (pgds (mmu_install_user_section pa USER_SPACE_VA 0x82000000 s') pa) 0x40000123 = Some (0x82000123, True)"
proof -
  obtain pa pg' where al: "alloc_pages 0 2 page_alloc_init = (pa, pg')" by fastforce
  have pa: "pa \<noteq> 0"
  proof
    assume "pa = 0"
    with al have "\<forall>k. 2 ^ 2 dvd k \<longrightarrow> k + 2 ^ 2 \<le> POOL_PAGES \<longrightarrow> {k..<k + 2 ^ 2} \<inter> used page_alloc_init \<noteq> {}"
      using alloc_pages_0D(2) [of 0 2 page_alloc_init pg'] by (auto simp: PAGE_MAX_ORDER_def)
    from this [rule_format, of 0] show False by (simp add: used_init POOL_PAGES_eq)
  qed
  obtain s' where n: "mmu_new_pgd page_alloc_init (boot_mmu zero_mmu) = (pa, pg', s')"
    using al pa by (simp add: mmu_new_pgd_def)
  have "0x82000000 = push_bit 20 (drop_bit 20 (0x82000000 :: u32))" by simp
  from process_address_space [OF this n pa] have "section_translate (pgds (mmu_install_user_section pa USER_SPACE_VA 0x82000000 s') pa) 0x40000123 = Some (0x82000123, True)"
    by (simp add: USER_SPACE_VA_def USER_SPACE_BYTES_def)
  with n show ?thesis by blast
qed

end
