(* ===== verification/Process.thy ===== *)
theory Process
  imports Sched Slab Mmu
begin

section \<open>Processes: fork, exit, wait, kill (\<open>kernel/src/kernel/proc/\<close>)\<close>

text \<open>
  \<open>fork.c\<close> and \<open>wait.c\<close> over the scheduler, the slab allocator, the page allocator and the page
  tables.  The kernel state collects the state of those components, the words of the user
  processes' physical memory (\<open>pmem\<close>) and the queue of parents that wait.  A task structure that
  \<open>do_fork\<close> gets from \<open>kmalloc\<close> is at the address of the object.

  User memory is read and written through the page table of the current task; the kernel's own
  window on the page pool is the address minus \<open>VA_OFFSET\<close>, as shown for the kernel's table.
  \<open>do_wait\<close> is modelled by its rounds: a round that finds no zombie child ends with the caller
  blocked and another task running, and is repeated when the caller is scheduled again.
\<close>

subsection \<open>State\<close>

record svc_context =
  sv_spsr :: u32
  sv_r :: "nat \<Rightarrow> u32"
  sv_lr :: u32

record kstate =
  sc :: sched
  sl :: slab_state
  mm :: mmu_state
  pmem :: "u32 \<Rightarrow> u32"
  parent_wq :: wait_queue

definition USER_MEM_PAGES_ORDER :: nat where [vx_consts]: "USER_MEM_PAGES_ORDER = 8"
definition USER_MEM_SIZE :: u32 where [vx_consts]: "USER_MEM_SIZE = push_bit 20 1"
definition KSTACK_PAGES_ORDER :: nat where [vx_consts]: "KSTACK_PAGES_ORDER = 0"
definition KSTACK_SIZE :: u32 where [vx_consts]: "KSTACK_SIZE = 4096"
definition sizeof_task_struct :: u32 where [vx_consts]: "sizeof_task_struct = 456"

text \<open>The structure after its bytes were set to zero.\<close>

definition zero_task :: task_struct where
  "zero_task = \<lparr>task_ctx = \<lparr>ctx_sp = 0, ctx_sp_usr = 0, ctx_lr_usr = 0\<rparr>, stack_base = 0,
     stack_size = 0, tstate = READY, tname = None, tid = 0, wait_next = None, sleep_next = None,
     wake_tick = 0, t_pid = 0, t_ppid = 0, t_exit_status = 0, pgd_pa = 0, user_pa = 0, user_order = 0,
     kstack_pa = 0, kstack_order = 0,
     t_files = replicate MAX_FDS \<lparr>fd_in_use = False, fd_file_index = 0, fd_offset = 0, fd_flags = 0, fd_ops = None\<rparr>\<rparr>"

text \<open>The page table a task runs on: its own, or the kernel's.\<close>

definition task_table :: "u32 \<Rightarrow> mmu_state \<Rightarrow> task_struct \<Rightarrow> l1_table" where
  "task_table kernel_pgd m t = (if pgd_pa t = kernel_pgd then kpgd m else pgds m (pgd_pa t))"

definition user_word :: "l1_table \<Rightarrow> (u32 \<Rightarrow> u32) \<Rightarrow> u32 \<Rightarrow> u32" where
  "user_word tbl m va = (case section_translate tbl va of Some (pa, u) \<Rightarrow> m pa | None \<Rightarrow> 0)"

subsection \<open>Fork\<close>

definition child_frame :: "u32 \<Rightarrow> svc_context \<Rightarrow> u32 list" where
  "child_frame svc_exit_trampoline ctx =
     sv_lr ctx # map (sv_r ctx) (rev [1..<13]) @ [0, 0, sv_spsr ctx, svc_exit_trampoline] @ replicate 9 0"

definition fork_build_child_stack :: "u32 \<Rightarrow> nat \<Rightarrow> u32 \<Rightarrow> svc_context \<Rightarrow> sched \<Rightarrow> sched" where
  "fork_build_child_stack svc_exit_trampoline child kstack_base ctx s =
     (let m0 = (stk s)(kstack_base := STACK_CANARY_VALUE);
          (p, m1) = fold push_word (child_frame svc_exit_trampoline ctx) (kstack_base + KSTACK_SIZE, m0)
      in upd_task child (\<lambda>t. t\<lparr>task_ctx := (task_ctx t)\<lparr>ctx_sp := p\<rparr>\<rparr>) (s\<lparr>stk := m1\<rparr>))"

definition copy_user :: "l1_table \<Rightarrow> u32 \<Rightarrow> (u32 \<Rightarrow> u32) \<Rightarrow> (u32 \<Rightarrow> u32)" where
  "copy_user tbl dst m = fold (\<lambda>w m. m(dst + 4 * of_nat w := user_word tbl m (USER_SPACE_VA + 4 * of_nat w)))
     [0..<unat (USER_MEM_SIZE div 4)] m"

text \<open>The last part of \<open>do_fork\<close>, when everything has been allocated.\<close>

definition fork_finish :: "u32 \<Rightarrow> u32 \<Rightarrow> u32 \<Rightarrow> u32 \<Rightarrow> svc_context \<Rightarrow> nat \<Rightarrow> nat \<Rightarrow> nat \<Rightarrow> u32 \<Rightarrow> u32 \<Rightarrow> u32 \<Rightarrow>
    kstate \<Rightarrow> int \<times> kstate" where
  "fork_finish kernel_pgd svc_exit_trampoline sp_usr lr_usr ctx parent child slot upa kpa gpa k =
     (let tbl = task_table kernel_pgd (mm k) (tmem (sc k) parent);
          m = copy_user tbl upa (pmem k);
          mm1 = mmu_install_user_section gpa USER_SPACE_VA upa (mm k);
          kva = kpa + VA_OFFSET;
          s1 = fork_build_child_stack svc_exit_trampoline child kva ctx (sc k);
          s2 = upd_task child (\<lambda>t. t\<lparr>stack_base := kva, stack_size := KSTACK_SIZE,
                 task_ctx := (task_ctx t)\<lparr>ctx_sp_usr := sp_usr, ctx_lr_usr := lr_usr\<rparr>,
                 tid := of_nat slot, t_pid := int slot, t_ppid := t_pid (tmem s1 parent),
                 t_exit_status := 0, tstate := READY, pgd_pa := gpa, user_pa := upa,
                 user_order := USER_MEM_PAGES_ORDER, kstack_pa := kpa, kstack_order := KSTACK_PAGES_ORDER,
                 tname := Some (cstr ''forked''),
                 t_files := take MAX_FDS (t_files (tmem s1 parent))\<rparr>) s1
      in (int slot, k\<lparr>pmem := m, mm := mm1, sc := snd (scheduler_add_forked child s2)\<rparr>))"

definition set_pages :: "page_state \<Rightarrow> kstate \<Rightarrow> kstate" where
  "set_pages pg k = k\<lparr>sl := (sl k)\<lparr>pages := pg\<rparr>\<rparr>"

text \<open>The clean-up of a failed fork: the blocks acquired so far, latest first, then the task.\<close>

fun fork_undo :: "(u32 \<times> nat) list \<Rightarrow> u32 \<Rightarrow> kstate \<Rightarrow> fault + int \<times> kstate" where
  "fork_undo [] a k = fbind (kfree (Some a) (sl k)) (\<lambda>s. Inr (- 1, k\<lparr>sl := s\<rparr>))"
| "fork_undo ((pa, order) # bs) a k =
     fbind (free_pages pa order (pages (sl k))) (\<lambda>pg. fork_undo bs a (set_pages pg k))"

definition fork_alloc :: "u32 \<Rightarrow> u32 \<Rightarrow> u32 \<Rightarrow> u32 \<Rightarrow> svc_context \<Rightarrow> nat \<Rightarrow> u32 \<Rightarrow> nat \<Rightarrow> kstate \<Rightarrow> fault + int \<times> kstate" where
  "fork_alloc kernel_pgd tramp sp_usr lr_usr ctx parent a slot k =
     (case alloc_pages 0 USER_MEM_PAGES_ORDER (pages (sl k)) of (upa, pg1) \<Rightarrow>
        if upa = 0 then fork_undo [] a (set_pages pg1 k)
        else case alloc_pages 0 KSTACK_PAGES_ORDER pg1 of (kpa, pg2) \<Rightarrow>
          if kpa = 0 then fork_undo [(upa, USER_MEM_PAGES_ORDER)] a (set_pages pg2 k)
          else case mmu_new_pgd pg2 (mm k) of (gpa, pg3, mm1) \<Rightarrow>
            if gpa = 0
            then fork_undo [(kpa, KSTACK_PAGES_ORDER), (upa, USER_MEM_PAGES_ORDER)] a (set_pages pg3 k)
            else Inr (fork_finish kernel_pgd tramp sp_usr lr_usr ctx parent (unat a) slot upa kpa gpa
              ((set_pages pg3 k)\<lparr>mm := mm1\<rparr>)))"

definition do_fork :: "u32 \<Rightarrow> u32 \<Rightarrow> u32 \<Rightarrow> u32 \<Rightarrow> svc_context \<Rightarrow> kstate \<Rightarrow> fault + int \<times> kstate" where
  "do_fork kernel_pgd tramp sp_usr lr_usr ctx k =
     (case scheduler_current_task (sc k) of
        None \<Rightarrow> Inr (- 1, k)
      | Some parent \<Rightarrow>
          case first_idx (\<lambda>i. tasks_array_get i (sc k) = None) 2 MAX_TASKS of
            None \<Rightarrow> Inr (- 1, k)
          | Some slot \<Rightarrow>
              fbind (kmalloc sizeof_task_struct (sl k)) (\<lambda>(r, s1).
                case r of
                  None \<Rightarrow> Inr (- 1, k\<lparr>sl := s1\<rparr>)
                | Some a \<Rightarrow> fork_alloc kernel_pgd tramp sp_usr lr_usr ctx parent a slot
                    (k\<lparr>sl := s1, sc := upd_task (unat a) (\<lambda>t. zero_task) (sc k)\<rparr>)))"

subsection \<open>Exit, wait and kill\<close>

definition is_zombie_child :: "int \<Rightarrow> sched \<Rightarrow> nat \<Rightarrow> bool" where
  "is_zombie_child pp s i = (case tasks_array_get i s of
     Some t \<Rightarrow> t_ppid (tmem s t) = pp \<and> tstate (tmem s t) = ZOMBIE | None \<Rightarrow> False)"

definition has_zombie_child :: "int \<Rightarrow> sched \<Rightarrow> bool" where
  "has_zombie_child pp s \<longleftrightarrow> first_idx (is_zombie_child pp s) 0 MAX_TASKS \<noteq> None"

text \<open>\<open>None\<close> is a wake-up loop that does not end.  \<open>do_exit\<close> does not return to its caller: its
  result is the state in which the next task runs.\<close>

definition do_exit :: "int \<Rightarrow> kstate \<Rightarrow> (fault + kstate) option" where
  "do_exit status k =
     (case scheduler_current_task (sc k) of
        None \<Rightarrow> Some (Inr k)
      | Some me \<Rightarrow>
          let s1 = upd_task me (\<lambda>t. t\<lparr>t_exit_status := status, tstate := ZOMBIE\<rparr>) (sc k) in
          map_option (\<lambda>s2. fbind (scheduler_yield (s2\<lparr>need_reschedule := True\<rparr>))
              (\<lambda>s3. Inr (k\<lparr>sc := s3, parent_wq := None\<rparr>)))
            (wake_all (parent_wq k) s1))"

definition reap :: "u32 \<Rightarrow> nat \<Rightarrow> nat \<Rightarrow> kstate \<Rightarrow> fault + (int \<times> int) \<times> kstate" where
  "reap kernel_pgd i t k =
     (let z = tmem (sc k) t;
          k1 = k\<lparr>sc := scheduler_release_slot i (sc k)\<rparr>
      in fbind (kfree (Some (of_nat t)) (sl k1)) (\<lambda>s2.
         let k2 = k1\<lparr>sl := s2\<rparr> in
         fbind (if pgd_pa z \<noteq> 0 \<and> pgd_pa z \<noteq> kernel_pgd then mmu_free_pgd (pgd_pa z) (pages (sl k2))
                else Inr (pages (sl k2))) (\<lambda>pg3.
         fbind (if user_pa z \<noteq> 0 then free_pages (user_pa z) (user_order z) pg3 else Inr pg3) (\<lambda>pg4.
         fbind (if kstack_pa z \<noteq> 0 then free_pages (kstack_pa z) (kstack_order z) pg4 else Inr pg4) (\<lambda>pg5.
           Inr ((t_pid z, t_exit_status z), set_pages pg5 k2))))))"

text \<open>One round of \<open>do_wait\<close>: \<open>Inr (Some (pid, status), k)\<close> when it returns (the status is only
  stored with a pid), \<open>Inr (None, k)\<close> when the caller has been blocked.\<close>

definition do_wait_round :: "u32 \<Rightarrow> kstate \<Rightarrow> fault + (int \<times> int option) option \<times> kstate" where
  "do_wait_round kernel_pgd k =
     (case scheduler_current_task (sc k) of
        None \<Rightarrow> Inr (Some (- 1, None), k)
      | Some me \<Rightarrow>
          let mypid = t_pid (tmem (sc k) me) in
          if has_zombie_child mypid (sc k)
          then (case first_idx (is_zombie_child mypid (sc k)) 0 MAX_TASKS of
              None \<Rightarrow> Inr (Some (- 1, None), k)
            | Some i \<Rightarrow> (case tasks_array_get i (sc k) of
                None \<Rightarrow> Inr (Some (- 1, None), k)
              | Some t \<Rightarrow> fbind (reap kernel_pgd i t k) (\<lambda>((p, st), k'). Inr (Some (p, Some st), k'))))
          else fbind (wait_block (parent_wq k) (sc k)) (\<lambda>(wq, s). Inr (None, k\<lparr>sc := s, parent_wq := wq\<rparr>)))"

definition do_kill_by_pid :: "int \<Rightarrow> int \<Rightarrow> kstate \<Rightarrow> (int \<times> kstate) option" where
  "do_kill_by_pid p status k =
     (if p < 0 \<or> p \<ge> int MAX_TASKS then Some (- 1, k)
      else if (case scheduler_current_task (sc k) of Some me \<Rightarrow> t_pid (tmem (sc k) me) = p | None \<Rightarrow> False)
      then Some (- 1, k)
      else case tasks_array_get (nat p) (sc k) of
        None \<Rightarrow> Some (- 1, k)
      | Some t \<Rightarrow>
          if t_ppid (tmem (sc k) t) < 0 then Some (- 1, k)
          else if tstate (tmem (sc k) t) = ZOMBIE then Some (0, k)
          else map_option (\<lambda>s. (0, k\<lparr>sc := s, parent_wq := None\<rparr>))
            (wake_all (parent_wq k)
              (upd_task t (\<lambda>x. x\<lparr>t_exit_status := status, tstate := ZOMBIE\<rparr>) (sc k))))"

subsection \<open>Undoing a fork\<close>

lemma slab_inv_pages:
  assumes "slab_inv own fl s" "page_inv pg" "dom own \<subseteq> used pg"
  shows "slab_inv own fl (s\<lparr>pages := pg\<rparr>)" "live own fl (s\<lparr>pages := pg\<rparr>) = live own fl s"
  using assms by (simp_all add: slab_inv_def owners_ok_def cache_ok_def cache_objs_def live_def fun_eq_iff)

lemma set_pages_simps [simp]:
  "sl (set_pages pg k) = (sl k)\<lparr>pages := pg\<rparr>" "sc (set_pages pg k) = sc k" "mm (set_pages pg k) = mm k"
  "pmem (set_pages pg k) = pmem k" "parent_wq (set_pages pg k) = parent_wq k"
  by (simp_all add: set_pages_def)

text \<open>The blocks \<open>bs\<close> were allocated one after the other, latest first, on top of \<open>base\<close>.\<close>

inductive allocated_on :: "page_state \<Rightarrow> (u32 \<times> nat) list \<Rightarrow> page_state \<Rightarrow> bool" where
  base: "page_inv pg \<Longrightarrow> allocated_on pg [] pg"
| more: "allocated_on pg bs pg1 \<Longrightarrow> alloc_pages g n pg1 = (pa, pg2) \<Longrightarrow> pa \<noteq> 0 \<Longrightarrow>
    allocated_on pg ((pa, n) # bs) pg2"

inductive_cases allocated_on_NilE: "allocated_on pg [] pg'"
inductive_cases allocated_on_ConsE: "allocated_on pg (b # bs) pg'"

lemma allocated_on_inv: "allocated_on pg bs pg' \<Longrightarrow> page_inv pg' \<and> used pg \<subseteq> used pg'"
proof (induction rule: allocated_on.induct)
  case (base pg)
  then show ?case by simp
next
  case (more pg bs pg1 g n pa pg2)
  then show ?case using alloc_pages_SomeD(3,4) [of pg1 g n pa pg2] by auto
qed

lemma fork_undo_ok:
  "allocated_on pg bs (pages (sl k)) \<Longrightarrow> slab_inv own fl ((sl k)\<lparr>pages := pg\<rparr>) \<Longrightarrow>
   a \<in> live own fl ((sl k)\<lparr>pages := pg\<rparr>) c \<Longrightarrow>
   \<exists>s. fork_undo bs a k = Inr (- 1, k\<lparr>sl := s\<rparr>) \<and> kfree (Some a) ((sl k)\<lparr>pages := pg\<rparr>) = Inr s"
proof (induction bs arbitrary: k)
  case Nil
  then have "pages (sl k) = pg" by (auto elim: allocated_on_NilE)
  then have sl: "(sl k)\<lparr>pages := pg\<rparr> = sl k" by simp
  then show ?case using Nil(2,3) kfree_live [of own fl "sl k" a c] by auto
next
  case (Cons b bs)
  obtain pa n where b: "b = (pa, n)" by fastforce
  from Cons.prems(1) obtain pg1 g where p: "allocated_on pg bs pg1"
    "alloc_pages g n pg1 = (pa, pages (sl k))" "pa \<noteq> 0" by (auto simp: b elim: allocated_on_ConsE)
  have "free_pages pa n (pages (sl k)) = Inr pg1"
    using pg.alloc_then_release [OF conjunct1 [OF allocated_on_inv [OF p(1)]] p(2,3)] .
  then have "fork_undo (b # bs) a k = fork_undo bs a (set_pages pg1 k)" by (simp add: b)
  moreover obtain s where "fork_undo bs a (set_pages pg1 k) = Inr (- 1, (set_pages pg1 k)\<lparr>sl := s\<rparr>)"
    "kfree (Some a) ((sl k)\<lparr>pages := pg\<rparr>) = Inr s"
    using Cons.IH [of "set_pages pg1 k"] p(1) Cons.prems(2,3) by auto
  moreover have "(set_pages pg1 k)\<lparr>sl := s\<rparr> = k\<lparr>sl := s\<rparr>" by (simp add: set_pages_def)
  ultimately show ?case by simp
qed

subsection \<open>Copying the user memory\<close>

text \<open>\<open>tbl\<close> maps the user range to the megabyte at \<open>ppa\<close>.\<close>

definition maps_user :: "l1_table \<Rightarrow> u32 \<Rightarrow> bool" where
  "maps_user tbl ppa \<longleftrightarrow> ppa = push_bit 20 (drop_bit 20 ppa) \<and>
     (\<forall>va. sect_idx va = 0x400 \<longrightarrow> (\<exists>u. section_translate tbl va = Some (va - USER_SPACE_VA + ppa, u)))"

lemma user_va_idx: "w < 0x40000 \<Longrightarrow> sect_idx (USER_SPACE_VA + 4 * of_nat w) = 0x400"
proof -
  assume w: "w < 0x40000"
  then have "unat (of_nat w :: u32) = w" by (simp add: unat_of_nat take_bit_nat_eq_self)
  then have "unat (USER_SPACE_VA + 4 * of_nat w) = 0x40000000 + 4 * w"
    using w by (simp add: USER_SPACE_VA_def unat_word_ariths)
  then show ?thesis using w by (simp add: sect_idx_eq)
qed

lemma user_word_maps: "maps_user tbl ppa \<Longrightarrow> w < 0x40000 \<Longrightarrow>
    user_word tbl m (USER_SPACE_VA + 4 * of_nat w) = m (ppa + 4 * of_nat w)"
  using user_va_idx [of w] by (auto simp: maps_user_def user_word_def algebra_simps split: option.splits)

lemma unat_mb_offset:
  fixes p :: u32
  assumes "p = push_bit 20 (drop_bit 20 p)" "i < 0x40000"
  shows "unat (p + 4 * of_nat i) = sect_idx p * 2 ^ 20 + 4 * i"
proof -
  have "unat p mod 2 ^ 20 = 0"
  proof -
    have "take_bit 20 (push_bit 20 (drop_bit 20 p)) = 0" by (simp add: take_bit_push_bit)
    then have "take_bit 20 p = 0" using assms(1) by simp
    then have "unat (take_bit 20 p) = 0" by simp
    then show ?thesis unfolding unsigned_take_bit_eq by (simp only: take_bit_eq_mod)
  qed
  then have p: "unat p = sect_idx p * 2 ^ 20" using div_mult_mod_eq [of "unat p" "2 ^ 20"] by (simp add: sect_idx_eq)
  have i: "unat (4 * of_nat i :: u32) = 4 * i" using assms(2) by (simp add: unat_word_ariths unat_of_nat take_bit_nat_eq_self)
  have "sect_idx p * 2 ^ 20 + 4 * i < 2 ^ 32"
    using sect_idx_bound [of p] assms(2) by (simp add: MMU_L1_ENTRIES_def)
  then show ?thesis using p i by (simp add: unat_word_ariths)
qed

lemma mb_offset_inj:
  fixes p q :: u32
  assumes "p = push_bit 20 (drop_bit 20 p)" "q = push_bit 20 (drop_bit 20 q)" "i < 0x40000" "j < 0x40000"
    "p + 4 * of_nat i = q + 4 * of_nat j"
  shows "p = q \<and> i = j"
proof -
  have e: "sect_idx p * 2 ^ 20 + 4 * i = sect_idx q * 2 ^ 20 + 4 * j"
    using unat_mb_offset [OF assms(1,3)] unat_mb_offset [OF assms(2,4)] assms(5) by simp
  then have "sect_idx p = sect_idx q" using assms(3,4) by (simp add: algebra_simps)
  moreover from this e have "i = j" by simp
  moreover from calculation assms(5) have "p = q" by simp
  ultimately show ?thesis by simp
qed

lemma copy_user_prefix:
  assumes "maps_user tbl ppa" "upa = push_bit 20 (drop_bit 20 upa)" "upa \<noteq> ppa" "n \<le> 0x40000"
  shows "fold (\<lambda>w m. m(upa + 4 * of_nat w := user_word tbl m (USER_SPACE_VA + 4 * of_nat w))) [0..<n] m x =
    (if \<exists>w<n. x = upa + 4 * of_nat w then m (x - upa + ppa) else m x)"
  using assms(4)
proof (induction n arbitrary: x)
  case 0
  then show ?case by simp
next
  case (Suc n)
  have ppa: "ppa = push_bit 20 (drop_bit 20 ppa)" using assms(1) by (simp add: maps_user_def)
  let ?f = "\<lambda>n. fold (\<lambda>w m. m(upa + 4 * of_nat w := user_word tbl m (USER_SPACE_VA + 4 * of_nat w))) [0..<n] m"
  have IH: "?f n y = (if \<exists>w<n. y = upa + 4 * of_nat w then m (y - upa + ppa) else m y)" for y
    by (rule Suc.IH) (use Suc.prems in linarith)
  have "ppa + 4 * of_nat n \<noteq> upa + 4 * of_nat w" if "w < n" for w
    using mb_offset_inj [OF ppa assms(2), of n w] assms(3) that Suc.prems by auto
  then have src: "user_word tbl (?f n) (USER_SPACE_VA + 4 * of_nat n) = m (ppa + 4 * of_nat n)"
    using user_word_maps [OF assms(1), of n] Suc.prems IH by auto
  show ?case
  proof (cases "x = upa + 4 * of_nat n")
    case True
    then have "\<exists>w<Suc n. x = upa + 4 * of_nat w" by blast
    moreover have "?f (Suc n) x = m (x - upa + ppa)" unfolding True using src by (simp add: add.commute)
    ultimately show ?thesis by (simp only: if_True)
  next
    case False
    then have "(\<exists>w<Suc n. x = upa + 4 * of_nat w) \<longleftrightarrow> (\<exists>w<n. x = upa + 4 * of_nat w)" by (metis less_Suc_eq)
    moreover have "?f (Suc n) x = ?f n x" using False by simp
    ultimately show ?thesis using IH [of x] by (simp only:)
  qed
qed

lemma copy_user_child:
  assumes "maps_user tbl ppa" "upa = push_bit 20 (drop_bit 20 upa)" "upa \<noteq> ppa" "w < 0x40000"
  shows "copy_user tbl upa m (upa + 4 * of_nat w) = m (ppa + 4 * of_nat w)"
    "copy_user tbl upa m (ppa + 4 * of_nat w) = m (ppa + 4 * of_nat w)"
proof -
  have n: "unat (USER_MEM_SIZE div 4) = 0x40000" by (simp add: USER_MEM_SIZE_def push_bit_eq_mult)
  have c: "copy_user tbl upa m x = (if \<exists>w<0x40000. x = upa + 4 * of_nat w then m (x - upa + ppa) else m x)" for x
    unfolding copy_user_def n by (rule copy_user_prefix [OF assms(1-3)]) simp
  show "copy_user tbl upa m (upa + 4 * of_nat w) = m (ppa + 4 * of_nat w)"
    using assms(4) unfolding c by (auto simp: algebra_simps)
  have "ppa = push_bit 20 (drop_bit 20 ppa)" using assms(1) by (simp add: maps_user_def)
  then have "\<not> (\<exists>v<0x40000. ppa + 4 * of_nat w = upa + 4 * of_nat v)"
    using mb_offset_inj [OF _ assms(2), of ppa w] assms(3,4) by auto
  then show "copy_user tbl upa m (ppa + 4 * of_nat w) = m (ppa + 4 * of_nat w)" unfolding c by (rule if_not_P)
qed

subsection \<open>What a fork keeps\<close>

lemma kmalloc_cases:
  assumes inv: "slab_inv own fl s" and rd: "kmalloc_ready s"
  shows "kmalloc sz s = Inr (None, s) \<or>
    (\<exists>a s' own' fl' c. kmalloc sz s = Inr (Some a, s') \<and> slab_inv own' fl' s' \<and> a \<in> live own' fl' s' c \<and>
       a \<in> cache_objs own' s' c \<and> (\<forall>d. a \<notin> live own fl s d) \<and> slab_grows own s own' s' \<and>
       live own' fl' s' = (live own fl s)(c := insert a (live own fl s c)))"
proof (cases "first_idx (\<lambda>i. sz \<le> kmalloc_sizes ! i) 0 KMALLOC_CLASSES")
  case None
  then show ?thesis by (simp add: kmalloc_def)
next
  case (Some i)
  then have "i < KMALLOC_CLASSES" by (auto dest: first_idx_SomeD)
  then obtain c where c: "c < SLAB_MAX_CACHES" "kmalloc_caches s ! i = Some c" "kc_in_use (cache_pool s ! c)"
    using rd by (auto simp: kmalloc_ready_def)
  show ?thesis
  proof (cases "sz = 0")
    case False
    then have "kmalloc sz s = kmem_cache_alloc (Some c) s" using Some c by (simp add: kmalloc_def)
    then show ?thesis using kmem_cache_alloc_cases [OF inv c(1,3)] by fastforce
  qed (simp add: kmalloc_def)
qed

text \<open>A kernel address of the page pool that is on an allocated page, or an address outside the pool.\<close>

definition held :: "page_state \<Rightarrow> u32 \<Rightarrow> bool" where
  "held pg va \<longleftrightarrow> (page_index (va - VA_OFFSET) < POOL_PAGES \<longrightarrow> page_index (va - VA_OFFSET) \<in> used pg)"

text \<open>The consistency of the kernel state: the scheduler and the allocator are consistent, every
  scheduled task is a live object or lies outside the pool, and neither its stack nor its page
  table is on a free page.\<close>

definition task_mem_ok :: "(nat \<Rightarrow> nat option) \<Rightarrow> (nat \<Rightarrow> u32 list) \<Rightarrow> kstate \<Rightarrow> nat \<Rightarrow> bool" where
  "task_mem_ok own fl k t \<longleftrightarrow> t < 2 ^ 32 \<and> held (pages (sl k)) (stack_base (tmem (sc k) t)) \<and>
     held (pages (sl k)) (pgd_pa (tmem (sc k) t) + VA_OFFSET) \<and>
     ((\<exists>c. of_nat t \<in> live own fl (sl k) c) \<or> POOL_PAGES \<le> page_index (of_nat t - VA_OFFSET))"

definition proc_inv :: "(nat \<Rightarrow> nat option) \<Rightarrow> (nat \<Rightarrow> u32 list) \<Rightarrow> kstate \<Rightarrow> bool" where
  "proc_inv own fl k \<longleftrightarrow> sched_inv (sc k) \<and> slab_inv own fl (sl k) \<and> kmalloc_ready (sl k) \<and>
     (\<forall>i<MAX_TASKS. \<forall>t. tasks (sc k) ! i = Some t \<longrightarrow> task_mem_ok own fl k t)"

lemma page_index_offset:
  assumes "i < POOL_PAGES" "n < 4096"
  shows "page_index (page_addr i + of_nat n) = i"
proof -
  have "unat (of_nat i * PAGE_SIZE + of_nat n :: u32) = i * 4096 + n"
    using assms by (simp add: POOL_PAGES_eq PAGE_SIZE_def unat_word_ariths unat_of_nat take_bit_nat_eq_self)
  then show ?thesis using assms(2) by (simp add: page_index_def page_addr_def PAGE_SIZE_def unat_div)
qed

lemma cache_objs_index:
  assumes "slab_inv own fl s" "a \<in> cache_objs own s c"
  shows "page_index (a - VA_OFFSET) < POOL_PAGES"
proof -
  obtain i where i: "a AND PAGE_MASK = page_va i" "i < POOL_PAGES" using cache_objs_page [OF assms] by metis
  have "unat (a AND PAGE_MASK) = unat a div 4096 * 4096"
    using unat_and_not_mask [of a 12] by (simp add: PAGE_MASK_def PAGE_SIZE_def mask_eq_exp_minus_1 minus_mod_eq_div_mult)
  then have "unat a div 4096 * 4096 = 0xC1000000 + i * 4096" using i unat_page_va by simp
  then have "\<exists>n<4096. unat a = 0xC1000000 + i * 4096 + n"
    by (intro exI [of _ "unat a mod 4096"]) (use div_mult_mod_eq [of "unat a" 4096] in simp)
  then obtain n where n: "n < 4096" "unat a = unat (page_va i) + n" using i unat_page_va by auto
  then have "(of_nat (unat a) :: u32) = of_nat (unat (page_va i) + n)" by (simp only:)
  then have "a = page_va i + of_nat n" by simp
  then have "a - VA_OFFSET = page_addr i + of_nat n" by (simp add: page_va_def)
  then show ?thesis using page_index_offset [OF i(2) n(1)] i(2) by simp
qed

lemma fresh_not_task:
  assumes "task_mem_ok own fl k t" "\<forall>d. a \<notin> live own fl (sl k) d" "page_index (a - VA_OFFSET) < POOL_PAGES"
  shows "unat a \<noteq> t"
  using assms by (auto simp: task_mem_ok_def)

text \<open>Another block of pages changes nothing of what was held.\<close>

lemma held_mono: "held pg va \<Longrightarrow> used pg \<subseteq> used pg' \<Longrightarrow> held pg' va"
  by (auto simp: held_def)

lemma is_block_mb:
  assumes "is_block pa 8"
  shows "pa = push_bit 20 (drop_bit 20 pa)"
proof -
  obtain i where i: "pa = page_addr i" "i < POOL_PAGES" "2 ^ 8 dvd i" using assms by (auto elim: is_blockE)
  from i(3) obtain j where j: "i = 256 * j" by auto
  have u: "unat pa = (0x810 + j) * 2 ^ 20" using i(1,2) unat_page_addr [of i] j by simp
  have "unat (push_bit 20 (drop_bit 20 pa)) = (0x810 + j) * 2 ^ 20"
    using i(2) j by (simp add: push_bit_eq_mult unat_word_ariths unat_drop_bit_eq drop_bit_eq_div u POOL_PAGES_eq)
  then show ?thesis using u by (simp add: word_unat_eq_iff)
qed

lemma install_maps_user:
  assumes "upa = push_bit 20 (drop_bit 20 upa)"
  shows "maps_user (pgds (mmu_install_user_section pa USER_SPACE_VA upa s) pa) upa"
proof -
  let ?t = "pgds (mmu_install_user_section pa USER_SPACE_VA upa s) pa"
  have "section_translate ?t va = Some (va - USER_SPACE_VA + upa, True)" if "sect_idx va = 0x400" for va
  proof -
    have "?t (sect_idx va) = (upa + of_nat (sect_idx va - sect_idx USER_SPACE_VA) * MMU_SECTION_SIZE) OR MMU_SECT_USER_RAM"
      using that by (simp add: sect_idx_consts mmu_install_user_section_def)
    from translate_run [where t = ?t and va = va and vb = USER_SPACE_VA and pb = upa and attr = MMU_SECT_USER_RAM,
        OF this _ aligned_consts(5) assms attr_facts(7,8)] that
    show ?thesis by (simp add: sect_idx_consts attr_facts)
  qed
  then show ?thesis using assms by (auto simp: maps_user_def)
qed

lemma child_frame_length [simp]: "length (child_frame tr ctx) = 26"
  by (simp add: child_frame_def)

lemma rev_child_frame:
  "rev (child_frame tr ctx) = replicate 9 0 @ [tr, sv_spsr ctx, 0, 0] @ map (sv_r ctx) [1..<13] @ [sv_lr ctx]"
  by (simp add: child_frame_def rev_map)

text \<open>The child's stack: the frame is popped in the order of \<open>context_switch\<close> and then
  \<open>svc_exit_trampoline\<close>; nothing outside the new page changes and the canary is intact.\<close>

lemma fork_build_child_stack_ok:
  assumes i: "i < POOL_PAGES"
    and s'_def: "s' = fork_build_child_stack tr c (page_va i) ctx s"
  shows "tmem s' = (tmem s)(c := (tmem s c)\<lparr>task_ctx := (task_ctx (tmem s c))\<lparr>ctx_sp := page_va i + 3992\<rparr>\<rparr>) \<and>
    stk s' (page_va i) = STACK_CANARY_VALUE \<and>
    (\<forall>j<26. stk s' (page_va i + 3992 + 4 * of_nat j) = rev (child_frame tr ctx) ! j) \<and>
    (\<forall>a. page_index (a - VA_OFFSET) \<noteq> i \<longrightarrow> stk s' a = stk s a) \<and> s' = s\<lparr>tmem := tmem s', stk := stk s'\<rparr>"
proof -
  let ?b = "page_va i" and ?m0 = "(stk s)(page_va i := STACK_CANARY_VALUE)" and ?fr = "child_frame tr ctx"
  obtain q m where f: "fold push_word ?fr (?b + KSTACK_SIZE, ?m0) = (q, m)"
    by (cases "fold push_word ?fr (?b + KSTACK_SIZE, ?m0)")
  have at: "?b + KSTACK_SIZE - 4 * of_nat (Suc j) = ?b + of_nat (4096 - 4 * Suc j)" if "j < 26" for j
    using that by (simp add: KSTACK_SIZE_def of_nat_diff)
  have pw: "q = ?b + 3992" "\<forall>j<26. m (?b + of_nat (4096 - 4 * Suc j)) = ?fr ! j"
    "\<forall>a. (\<forall>j<26. a \<noteq> ?b + of_nat (4096 - 4 * Suc j)) \<longrightarrow> m a = ?m0 a"
  proof -
    have "length ?fr < 999" by simp
    note pw = push_words [OF this f, unfolded child_frame_length]
    have P: "q = ?b + KSTACK_SIZE - 4 * of_nat 26" "\<forall>j<26. m (?b + KSTACK_SIZE - 4 * of_nat (Suc j)) = ?fr ! j"
      "\<forall>a. (\<forall>j<26. a \<noteq> ?b + KSTACK_SIZE - 4 * of_nat (Suc j)) \<longrightarrow> m a = ?m0 a"
      using pw by blast+
    show "q = ?b + 3992" using P(1) by (simp add: KSTACK_SIZE_def)
    show "\<forall>j<26. m (?b + of_nat (4096 - 4 * Suc j)) = ?fr ! j" using P(2) at by metis
    show "\<forall>a. (\<forall>j<26. a \<noteq> ?b + of_nat (4096 - 4 * Suc j)) \<longrightarrow> m a = ?m0 a" using P(3) at by metis
  qed
  have off: "page_index (?b + of_nat n - VA_OFFSET) = i" if "n < 4096" for n
    using page_index_offset [OF i that] by (simp add: page_va_def)
  have "?b \<noteq> ?b + of_nat (4096 - 4 * Suc j)" if "j < 26" for j
  proof -
    have "unat (of_nat (4096 - 4 * Suc j) :: u32) = 4096 - 4 * Suc j" by (simp only: unat_of_nat take_bit_nat_eq_self_iff) simp
    moreover have "4096 - 4 * Suc j \<noteq> 0" using that by simp
    ultimately have "(of_nat (4096 - 4 * Suc j) :: u32) \<noteq> 0" by (metis unat_0)
    then show ?thesis by simp
  qed
  then have can: "m ?b = STACK_CANARY_VALUE" using pw(3) by simp
  have fr: "m (?b + 3992 + 4 * of_nat j) = rev ?fr ! j" if "j < 26" for j
  proof -
    have "4096 - 4 * Suc (25 - j) = 3992 + 4 * j" using that by simp
    then have "?b + of_nat (4096 - 4 * Suc (25 - j)) = ?b + 3992 + 4 * of_nat j" by simp
    then show ?thesis using pw(2) [rule_format, of "25 - j"] that by (simp add: rev_nth add.assoc)
  qed
  have out: "m a = stk s a" if "page_index (a - VA_OFFSET) \<noteq> i" for a
  proof -
    have ne: "a \<noteq> ?b + of_nat n" if "n < 4096" for n using off [OF that] \<open>page_index (a - VA_OFFSET) \<noteq> i\<close> by blast
    have "a \<noteq> ?b + of_nat 0" "\<forall>j<26. a \<noteq> ?b + of_nat (4096 - 4 * Suc j)"
      by (rule ne, simp) (intro allI impI ne, simp)
    then show ?thesis using pw(3) by (simp only: fun_upd_apply) simp
  qed
  have s': "s' = upd_task c (\<lambda>t. t\<lparr>task_ctx := (task_ctx t)\<lparr>ctx_sp := ?b + 3992\<rparr>\<rparr>) (s\<lparr>stk := m\<rparr>)"
    using f pw(1) by (simp add: s'_def fork_build_child_stack_def)
  show ?thesis using can fr out unfolding s' by (simp add: upd_task_def)
qed

text \<open>The three outcomes of the allocations.\<close>

lemma fork_alloc_cases:
  assumes inv: "slab_inv own fl (sl k)" and a: "a \<in> live own fl (sl k) c"
  shows "(\<exists>s. fork_alloc kp tr su lu ctx parent a slot k = Inr (- 1, k\<lparr>sl := s\<rparr>) \<and> kfree (Some a) (sl k) = Inr s) \<or>
    (\<exists>upa kpa gpa pg mm1. fork_alloc kp tr su lu ctx parent a slot k =
        Inr (fork_finish kp tr su lu ctx parent (unat a) slot upa kpa gpa ((set_pages pg k)\<lparr>mm := mm1\<rparr>)) \<and>
      allocated_on (pages (sl k)) [(gpa, 2), (kpa, 0), (upa, 8)] pg \<and>
      mm1 = (mm k)\<lparr>pgds := (pgds (mm k))(gpa := fresh_pgd (kpgd (mm k)) (pgds (mm k) gpa))\<rparr>)"
proof -
  let ?pg = "pages (sl k)"
  have pinv: "page_inv ?pg" using inv by (simp add: slab_inv_def owners_ok_def)
  have same: "(sl k)\<lparr>pages := ?pg\<rparr> = sl k" by simp
  have undo: "\<exists>s. fork_undo bs a (set_pages pg' k) = Inr (- 1, k\<lparr>sl := s\<rparr>) \<and> kfree (Some a) (sl k) = Inr s"
    if "allocated_on ?pg bs pg'" for bs pg'
    using fork_undo_ok [of ?pg bs "set_pages pg' k" own fl a c] that inv a by (auto simp: set_pages_def)
  obtain upa pg1 where 1: "alloc_pages 0 8 ?pg = (upa, pg1)" by fastforce
  obtain kpa pg2 where 2: "alloc_pages 0 0 pg1 = (kpa, pg2)" by fastforce
  obtain gpa pg3 where 3: "alloc_pages 0 2 pg2 = (gpa, pg3)" by fastforce
  note fa = fork_alloc_def USER_MEM_PAGES_ORDER_def KSTACK_PAGES_ORDER_def mmu_new_pgd_def
  note b = allocated_on.base [OF pinv]
  consider "upa = 0" | "upa \<noteq> 0" "kpa = 0" | "upa \<noteq> 0" "kpa \<noteq> 0" "gpa = 0" | "upa \<noteq> 0" "kpa \<noteq> 0" "gpa \<noteq> 0" by blast
  then show ?thesis
  proof cases
    case c1: 1
    show ?thesis using undo [OF b] alloc_pages_0D(1) [of 0 8 ?pg pg1] 1 c1 by (simp add: fa)
  next
    case c2: 2
    note b1 = allocated_on.more [OF b 1 c2(1)]
    show ?thesis using undo [OF b1] alloc_pages_0D(1) [of 0 0 pg1 pg2] 1 2 c2 by (simp add: fa)
  next
    case c3: 3
    note b2 = allocated_on.more [OF allocated_on.more [OF b 1 c3(1)] 2 c3(2)]
    show ?thesis using undo [OF b2] alloc_pages_0D(1) [of 0 2 pg2 pg3] 1 2 3 c3 by (simp add: fa)
  next
    case c4: 4
    note b3 = allocated_on.more [OF allocated_on.more [OF allocated_on.more [OF b 1 c4(1)] 2 c4(2)] 3 c4(3)]
    show ?thesis using b3 1 2 3 c4 by (intro disjI2) (auto simp: fa)
  qed
qed

subsection \<open>Fork\<close>

text \<open>The last part of a fork, on blocks that were free before.\<close>

lemma fork_finish_ok:
  assumes sinv: "sched_inv (sc k)"
    and par: "tasks (sc k) ! current_task_index (sc k) = Some parent" "child \<noteq> parent"
    and new0: "\<forall>i<MAX_TASKS. tasks (sc k) ! i \<noteq> Some child"
    and slot: "slot < MAX_TASKS" "tasks (sc k) ! slot = None"
    and kpa: "kpa = page_addr ki" "ki < POOL_PAGES"
    and stacks0: "\<forall>i<MAX_TASKS. \<forall>t. tasks (sc k) ! i = Some t \<longrightarrow>
      page_index (stack_base (tmem (sc k) t) - VA_OFFSET) \<noteq> ki"
    and res: "fork_finish kp tr su lu ctx parent child slot upa kpa gpa k = (r, k')"
  shows "r = int slot \<and> sched_inv (sc k') \<and> tasks (sc k') = (tasks (sc k))[slot := Some child] \<and> ready_slot (sc k') slot \<and>
    (\<forall>t. t \<noteq> child \<longrightarrow> tmem (sc k') t = tmem (sc k) t) \<and>
    (\<forall>a. page_index (a - VA_OFFSET) \<noteq> ki \<longrightarrow> stk (sc k') a = stk (sc k) a) \<and>
    (let c = tmem (sc k') child in t_pid c = int slot \<and> t_ppid c = t_pid (tmem (sc k) parent) \<and> tstate c = READY \<and>
       t_files c = take MAX_FDS (t_files (tmem (sc k) parent)) \<and> pgd_pa c = gpa \<and> user_pa c = upa \<and>
       user_order c = 8 \<and> kstack_pa c = kpa \<and> kstack_order c = 0 \<and> stack_base c = kpa + VA_OFFSET \<and>
       task_ctx c = \<lparr>ctx_sp = stack_base c + 3992, ctx_sp_usr = su, ctx_lr_usr = lu\<rparr> \<and>
       (\<forall>j<26. stk (sc k') (ctx_sp (task_ctx c) + 4 * of_nat j) = rev (child_frame tr ctx) ! j)) \<and>
    pmem k' = copy_user (task_table kp (mm k) (tmem (sc k) parent)) upa (pmem k) \<and>
    mm k' = mmu_install_user_section gpa USER_SPACE_VA upa (mm k) \<and> sl k' = sl k \<and> parent_wq k' = parent_wq k"
proof -
  note new = new0 [rule_format] and stacks = stacks0 [rule_format]
  have kva: "kpa + VA_OFFSET = page_va ki" by (simp add: kpa page_va_def)
  define s1 where "s1 = fork_build_child_stack tr child (page_va ki) ctx (sc k)"
  note S1 = fork_build_child_stack_ok [OF kpa(2) s1_def]
  have tm1: "tmem s1 = (tmem (sc k))(child := (tmem (sc k) child)\<lparr>task_ctx := (task_ctx (tmem (sc k) child))\<lparr>ctx_sp := page_va ki + 3992\<rparr>\<rparr>)"
    and can: "stk s1 (page_va ki) = STACK_CANARY_VALUE"
    and fr: "\<forall>j<26. stk s1 (page_va ki + 3992 + 4 * of_nat j) = rev (child_frame tr ctx) ! j"
    and out: "\<forall>a. page_index (a - VA_OFFSET) \<noteq> ki \<longrightarrow> stk s1 a = stk (sc k) a"
    and s1: "s1 = (sc k)\<lparr>tmem := tmem s1, stk := stk s1\<rparr>"
    using S1 by blast+
  define ct where "ct = (tmem s1 child)\<lparr>stack_base := page_va ki, stack_size := KSTACK_SIZE,
     task_ctx := (task_ctx (tmem s1 child))\<lparr>ctx_sp_usr := su, ctx_lr_usr := lu\<rparr>,
     tid := of_nat slot, t_pid := int slot, t_ppid := t_pid (tmem s1 parent), t_exit_status := 0,
     tstate := READY, pgd_pa := gpa, user_pa := upa, user_order := USER_MEM_PAGES_ORDER, kstack_pa := kpa,
     kstack_order := KSTACK_PAGES_ORDER, tname := Some (cstr ''forked''),
     t_files := take MAX_FDS (t_files (tmem s1 parent))\<rparr>"
  define s2 where "s2 = (sc k)\<lparr>tmem := (tmem (sc k))(child := ct), stk := stk s1\<rparr>"
  have up: "upd_task child (\<lambda>t. ct) s1 = s2" by (subst s1) (simp add: s2_def upd_task_def tm1 fun_eq_iff)
  have r: "r = int slot" and k': "k' = k\<lparr>pmem := copy_user (task_table kp (mm k) (tmem (sc k) parent)) upa (pmem k),
      mm := mmu_install_user_section gpa USER_SPACE_VA upa (mm k), sc := snd (scheduler_add_forked child s2)\<rparr>"
    using res up by (auto simp: fork_finish_def Let_def kva s1_def [symmetric] ct_def upd_task_def)
  have par1: "tmem s1 parent = tmem (sc k) parent" using par(2) by (simp add: tm1)
  have inv2: "sched_inv s2"
  proof -
    obtain c where c: "current_task (sc k) = Some c" using sched_inv_current [OF sinv] by blast
    have c2: "tasks (sc k) ! current_task_index (sc k) = Some c" "current_task_index (sc k) < MAX_TASKS"
      using sinv c by (simp_all add: sched_inv_def)
    have ne: "t \<noteq> child" if "i < MAX_TASKS" "tasks (sc k) ! i = Some t" for i t using new that by blast
    have base: "length (tasks (sc k)) = MAX_TASKS" "slots_inj (tasks (sc k))"
      "task_count (sc k) = of_nat (length (filter (\<lambda>p. p \<noteq> None) (tasks (sc k))))" and "idle_ok (sc k)"
      using sinv by (simp_all add: sched_inv_def)
    from this(4) have idle: "idle_ok s2" using new [of 0] by (auto simp: idle_ok_def s2_def MAX_TASKS_def split: option.splits)
    show ?thesis
    proof (rule sched_invI)
      fix i t assume it: "i < MAX_TASKS" "tasks s2 ! i = Some t"
      then have t: "t \<noteq> child" "tasks (sc k) ! i = Some t" using ne by (auto simp: s2_def)
      then show "stk s2 (stack_base (tmem s2 t)) = STACK_CANARY_VALUE \<and> (tstate (tmem s2 t) = RUNNING \<longrightarrow> current_task s2 = Some t)"
        using sched_inv_tasks [OF sinv it(1) t(2)] out stacks [OF it(1) t(2)] by (simp add: s2_def)
    qed (use base c c2 idle in \<open>simp_all add: s2_def\<close>)
  qed
  have slot': "unat (of_nat slot :: u32) = slot" using slot(1) by (simp add: unat_of_nat take_bit_nat_eq_self MAX_TASKS_def)
  have ctid: "tid (tmem s2 child) = of_nat slot" by (simp add: s2_def ct_def)
  have "(of_nat slot :: u32) < of_nat MAX_TASKS" using slot(1) slot' by (simp add: word_less_nat_alt MAX_TASKS_def)
  then have add: "sched_inv (snd (scheduler_add_forked child s2)) \<and> ready_slot (snd (scheduler_add_forked child s2)) slot"
    using scheduler_add_forked_inv [OF inv2, of child] new slot(2) can ctid slot' by (simp add: s2_def ct_def)
  have fin: "tasks (sc k') = (tasks (sc k))[slot := Some child]" "tmem (sc k') = (tmem (sc k))(child := ct)" "stk (sc k') = stk s1"
    using \<open>(of_nat slot :: u32) < of_nat MAX_TASKS\<close> slot(2) ctid slot'
    by (auto simp: k' scheduler_add_forked_def Let_def s2_def ct_def fun_eq_iff)
  have c: "tmem (sc k') child = ct" by (simp add: fin)
  have ctx: "task_ctx ct = \<lparr>ctx_sp = page_va ki + 3992, ctx_sp_usr = su, ctx_lr_usr = lu\<rparr>" by (simp add: ct_def tm1)
  have fld: "t_pid ct = int slot" "t_ppid ct = t_pid (tmem (sc k) parent)" "tstate ct = READY"
    "t_files ct = take MAX_FDS (t_files (tmem (sc k) parent))" "pgd_pa ct = gpa" "user_pa ct = upa"
    "user_order ct = 8" "kstack_pa ct = kpa" "kstack_order ct = 0" "stack_base ct = page_va ki"
    by (simp_all add: ct_def par1 USER_MEM_PAGES_ORDER_def KSTACK_PAGES_ORDER_def)
  have k'_parts: "pmem k' = copy_user (task_table kp (mm k) (tmem (sc k) parent)) upa (pmem k)"
    "mm k' = mmu_install_user_section gpa USER_SPACE_VA upa (mm k)" "sl k' = sl k" "parent_wq k' = parent_wq k"
    "sc k' = snd (scheduler_add_forked child s2)"
    by (simp_all add: k')
  have rest: "\<forall>t. t \<noteq> child \<longrightarrow> tmem (sc k') t = tmem (sc k) t" by (simp add: fin(2))
  show ?thesis unfolding Let_def c fld ctx kva task_context.simps fin(3)
    by (intro conjI refl r rest out fin(1) fr k'_parts(1-4) conjunct1 [OF add, folded k'_parts(5)]
      conjunct2 [OF add, folded k'_parts(5)])
qed

lemma sched_inv_fresh:
  assumes inv: "sched_inv s" and new: "\<And>i. i < MAX_TASKS \<Longrightarrow> tasks s ! i \<noteq> Some c"
  shows "sched_inv (upd_task c f s)"
proof -
  obtain p where p: "current_task s = Some p" using sched_inv_current [OF inv] by blast
  have base: "length (tasks s) = MAX_TASKS" "current_task_index s < MAX_TASKS" "slots_inj (tasks s)"
    "task_count s = of_nat (length (filter (\<lambda>p. p \<noteq> None) (tasks s)))" "tasks s ! current_task_index s = Some p" "idle_ok s"
    using inv p by (simp_all add: sched_inv_def)
  from base(6) have idle: "idle_ok (upd_task c f s)"
    using new [of 0] by (auto simp: idle_ok_def upd_task_def MAX_TASKS_def split: option.splits)
  show ?thesis
  proof (rule sched_invI)
    fix i t assume it: "i < MAX_TASKS" "tasks (upd_task c f s) ! i = Some t"
    then have t: "t \<noteq> c" "tasks s ! i = Some t" using new by (auto simp: upd_task_def)
    then show "stk (upd_task c f s) (stack_base (tmem (upd_task c f s) t)) = STACK_CANARY_VALUE \<and>
        (tstate (tmem (upd_task c f s) t) = RUNNING \<longrightarrow> current_task (upd_task c f s) = Some t)"
      using sched_inv_tasks [OF inv it(1) t(2)] by (simp add: upd_task_def)
  qed (use base p idle in \<open>simp_all add: upd_task_def\<close>)
qed

lemma copy_user_frame:
  assumes "maps_user tbl ppa" "is_block upa 8" "upa \<noteq> ppa" "page_index x \<notin> page_block upa 8"
  shows "copy_user tbl upa m x = m x"
proof -
  obtain i where i: "upa = page_addr i" "i + 256 \<le> POOL_PAGES" "page_block upa 8 = {i..<i + 256}"
    using assms(2) by (auto elim: is_blockE)
  have "x \<noteq> upa + 4 * of_nat w" if "w < 0x40000" for w
  proof
    assume x: "x = upa + 4 * of_nat w"
    obtain q r where w: "q * 1024 + r = w" "w div 1024 = q" "w mod 1024 = r" using div_mult_mod_eq [of w 1024] by blast
    have "i * 4096 + 4 * w = (i + w div 1024) * 4096 + 4 * (w mod 1024)" using w(1) unfolding w(2,3) by (auto simp: algebra_simps)
    then have "(of_nat (i * 4096 + 4 * w) :: u32) = of_nat ((i + w div 1024) * 4096 + 4 * (w mod 1024))" by (simp only:)
    then have "x = page_addr (i + w div 1024) + of_nat (4 * (w mod 1024))"
      by (simp add: x i(1) page_addr_def PAGE_SIZE_def algebra_simps)
    moreover have "i + w div 1024 < POOL_PAGES" "w div 1024 < 256" using that i(2) by auto
    ultimately have "page_index x = i + w div 1024" using page_index_offset [of "i + w div 1024" "4 * (w mod 1024)"] by simp
    then show False using assms(4) i(3) \<open>w div 1024 < 256\<close> by simp
  qed
  then have n: "\<not> (\<exists>w<0x40000. x = upa + 4 * of_nat w)" by blast
  have u: "unat (USER_MEM_SIZE div 4) = 0x40000" by (simp add: USER_MEM_SIZE_def push_bit_eq_mult)
  have "copy_user tbl upa m x = (if \<exists>w<0x40000. x = upa + 4 * of_nat w then m (x - upa + ppa) else m x)"
    unfolding copy_user_def u by (rule copy_user_prefix [OF assms(1) is_block_mb [OF assms(2)] assms(3)]) simp
  also have "\<dots> = m x" by (rule if_not_P [OF n])
  finally show ?thesis .
qed

lemma three_blocks:
  assumes al: "allocated_on pg [(g, 2), (kp, 0), (u, 8)] pg'"
  shows "is_block u 8" "is_block kp 0" "is_block g 2" "g \<noteq> 0" "page_inv pg'"
    "used pg' = used pg \<union> page_block u 8 \<union> page_block kp 0 \<union> page_block g 2"
    "page_block u 8 \<inter> used pg = {}" "page_block kp 0 \<inter> (used pg \<union> page_block u 8) = {}"
    "page_block g 2 \<inter> (used pg \<union> page_block u 8 \<union> page_block kp 0) = {}"
proof -
  from al obtain g1 g2 g3 p1 p2 where A: "page_inv pg" "alloc_pages g1 8 pg = (u, p1)" "u \<noteq> 0"
    "alloc_pages g2 0 p1 = (kp, p2)" "kp \<noteq> 0" "alloc_pages g3 2 p2 = (g, pg')" "g \<noteq> 0"
    by (auto elim!: allocated_on_ConsE allocated_on_NilE)
  note B1 = alloc_pages_SomeD [OF A(1-3)]
  note B2 = alloc_pages_SomeD [OF B1(4) A(4,5)]
  note B3 = alloc_pages_SomeD [OF B2(4) A(6,7)]
  show "is_block u 8" "is_block kp 0" "is_block g 2" "g \<noteq> 0" "page_inv pg'"
    "used pg' = used pg \<union> page_block u 8 \<union> page_block kp 0 \<union> page_block g 2"
    "page_block u 8 \<inter> used pg = {}" "page_block kp 0 \<inter> (used pg \<union> page_block u 8) = {}"
    "page_block g 2 \<inter> (used pg \<union> page_block u 8 \<union> page_block kp 0) = {}"
    using B1 B2 B3 A(7) by auto
qed

text \<open>What a failed and what a successful fork leave behind.\<close>

definition fork_failed :: "(nat \<Rightarrow> nat option) \<Rightarrow> (nat \<Rightarrow> u32 list) \<Rightarrow> kstate \<Rightarrow> kstate \<Rightarrow> bool" where
  "fork_failed own fl k k' \<longleftrightarrow> mm k' = mm k \<and> pmem k' = pmem k \<and> parent_wq k' = parent_wq k \<and>
     tasks (sc k') = tasks (sc k) \<and> current_task (sc k') = current_task (sc k) \<and>
     (\<forall>i<MAX_TASKS. \<forall>t. tasks (sc k) ! i = Some t \<longrightarrow> tmem (sc k') t = tmem (sc k) t) \<and>
     (\<exists>own' fl'. proc_inv own' fl' k' \<and> live own' fl' (sl k') = live own fl (sl k) \<and>
        used (pages (sl k)) \<subseteq> used (pages (sl k')) \<and> used (pages (sl k')) - used (pages (sl k)) \<subseteq> dom own')"

definition fork_child :: "u32 \<Rightarrow> u32 \<Rightarrow> u32 \<Rightarrow> u32 \<Rightarrow> svc_context \<Rightarrow> nat \<Rightarrow> kstate \<Rightarrow> nat \<Rightarrow> nat \<Rightarrow> kstate \<Rightarrow> bool" where
  "fork_child kp tr su lu ctx parent k slot child k' \<longleftrightarrow>
     (let p = tmem (sc k) parent; c = tmem (sc k') child in
      2 \<le> slot \<and> slot < MAX_TASKS \<and> tasks (sc k) ! slot = None \<and>
      tasks (sc k') = (tasks (sc k))[slot := Some child] \<and> ready_slot (sc k') slot \<and>
      (\<forall>t. t \<noteq> child \<longrightarrow> tmem (sc k') t = tmem (sc k) t) \<and>
      t_pid c = int slot \<and> t_ppid c = t_pid p \<and> t_files c = take MAX_FDS (t_files p) \<and>
      task_ctx c = \<lparr>ctx_sp = stack_base c + 3992, ctx_sp_usr = su, ctx_lr_usr = lu\<rparr> \<and>
      (\<forall>j<26. stk (sc k') (ctx_sp (task_ctx c) + 4 * of_nat j) =
         (replicate 9 0 @ [tr, sv_spsr ctx, 0, 0] @ map (sv_r ctx) [1..<13] @ [sv_lr ctx]) ! j) \<and>
      (\<forall>a. page_index (a - VA_OFFSET) \<noteq> page_index (kstack_pa c) \<longrightarrow> stk (sc k') a = stk (sc k) a) \<and>
      kpgd (mm k') = kpgd (mm k) \<and> (\<forall>g. g \<noteq> pgd_pa c \<longrightarrow> pgds (mm k') g = pgds (mm k) g) \<and>
      (\<forall>w<0x40000. user_word (task_table kp (mm k') c) (pmem k') (USER_SPACE_VA + 4 * of_nat w) =
         user_word (task_table kp (mm k) p) (pmem k) (USER_SPACE_VA + 4 * of_nat w)) \<and>
      (\<forall>x. held (pages (sl k)) (x + VA_OFFSET) \<longrightarrow> pmem k' x = pmem k x) \<and>
      maps_user (task_table kp (mm k') c) (user_pa c) \<and>
      page_block (user_pa c) 8 \<inter> used (pages (sl k)) = {} \<and> page_block (user_pa c) 8 \<subseteq> used (pages (sl k')))"

text \<open>The memory of a forked task: its structure is a live object, its user memory, kernel stack and
  page table are allocated blocks apart from each other and from the slab pages.\<close>

definition child_blocks :: "task_struct \<Rightarrow> nat set" where
  "child_blocks z = page_block (user_pa z) (user_order z) \<union> page_block (kstack_pa z) (kstack_order z) \<union> page_block (pgd_pa z) 2"

definition child_mem :: "(nat \<Rightarrow> nat option) \<Rightarrow> (nat \<Rightarrow> u32 list) \<Rightarrow> kstate \<Rightarrow> nat \<Rightarrow> bool" where
  "child_mem own fl k t \<longleftrightarrow> (let z = tmem (sc k) t in (\<exists>c. of_nat t \<in> live own fl (sl k) c) \<and>
     is_block (user_pa z) (user_order z) \<and> is_block (kstack_pa z) (kstack_order z) \<and> is_block (pgd_pa z) 2 \<and>
     page_block (user_pa z) (user_order z) \<inter> page_block (kstack_pa z) (kstack_order z) = {} \<and>
     page_block (pgd_pa z) 2 \<inter> (page_block (user_pa z) (user_order z) \<union> page_block (kstack_pa z) (kstack_order z)) = {} \<and>
     child_blocks z \<subseteq> used (pages (sl k)) - dom own)"

lemma page_index_block: "is_block pa n \<Longrightarrow> page_index pa \<in> page_block pa n"
  by (auto simp: page_block_def)

lemma kernel_pgd_not_block: "is_block pa n \<Longrightarrow> POOL_PAGES \<le> page_index kp \<Longrightarrow> pa \<noteq> kp"
  by (metis is_blockE leD page_index_addr)

lemma proc_inv_pages:
  assumes s: "slab_inv own' fl' s'" and rd: "kmalloc_ready s'" and sub: "used (pages (sl k)) \<subseteq> used (pages s')"
    and lv: "\<And>c. live own fl (sl k) c \<subseteq> live own' fl' s' c" and t: "task_mem_ok own fl k t"
    and k': "sl k' = s'" "tmem (sc k') t = tmem (sc k) t"
  shows "task_mem_ok own' fl' k' t"
  using t lv held_mono [OF _ sub] unfolding task_mem_ok_def k' by blast

lemma kfree_frame:
  assumes "kfree (Some a) s = Inr s'"
  shows "pages s' = pages s" "kmalloc_ready s' = kmalloc_ready s"
proof -
  obtain c where c: "s' = upd_cache c (\<lambda>k. k\<lparr>free_objs := free_objs k + 1\<rparr>) (push_obj c a s)"
    using assms by (auto simp: kfree_def kmem_cache_free_def Let_def split: if_splits option.splits)
  show "pages s' = pages s" by (simp add: c upd_cache_def push_obj_def)
  have "kmalloc_caches s' = kmalloc_caches s" by (simp add: c upd_cache_def push_obj_def)
  moreover have "kc_in_use (cache_pool s' ! d) = kc_in_use (cache_pool s ! d) \<and> obj_size (cache_pool s' ! d) = obj_size (cache_pool s ! d)" for d
    unfolding c by (cases "c < length (cache_pool s)")
      (auto simp: upd_cache_def push_obj_def nth_list_update list_update_beyond not_less)
  ultimately show "kmalloc_ready s' = kmalloc_ready s" by (simp add: kmalloc_ready_def)
qed

lemma fork_failed_undo:
  assumes inv: "proc_inv own fl k"
    and km: "slab_inv own' fl' s1" "a \<in> live own' fl' s1 c"
        "a \<in> cache_objs own' s1 c" "\<forall>d. a \<notin> live own fl (sl k) d" "slab_grows own (sl k) own' s1"
        "live own' fl' s1 = (live own fl (sl k))(c := insert a (live own fl (sl k) c))"
    and new: "\<And>i. i < MAX_TASKS \<Longrightarrow> tasks (sc k) ! i \<noteq> Some (unat a)"
    and k1_def: "k1 = k\<lparr>sl := s1, sc := upd_task (unat a) (\<lambda>t. zero_task) (sc k)\<rparr>"
    and rd: "kmalloc_ready (sl k)" and s: "kfree (Some a) s1 = Inr s"
  shows "fork_failed own fl k (k1\<lparr>sl := s\<rparr>)"
proof -
  have sinv: "sched_inv (sc k)"
    and tm: "\<And>i t. i < MAX_TASKS \<Longrightarrow> tasks (sc k) ! i = Some t \<Longrightarrow> task_mem_ok own fl k t"
    using inv by (simp_all add: proc_inv_def)
  have sl: "slab_inv own' (fl'(c := a # fl' c)) s" "live own' (fl'(c := a # fl' c)) s = (live own' fl' s1)(c := live own' fl' s1 c - {a})"
    using kfree_live [OF km(1,2)] s by auto
  have lv: "live own' (fl'(c := a # fl' c)) s = live own fl (sl k)"
    using km(4) by (auto simp: sl(2) km(6) fun_eq_iff)
  have grow: "used (pages (sl k)) \<subseteq> used (pages s)" "used (pages s) - used (pages (sl k)) \<subseteq> dom own'"
    using km(5) by (auto simp: slab_grows_def kfree_frame(1) [OF s])
  have rd': "kmalloc_ready s" using kfree_frame(2) [OF s] kmalloc_ready_grows [OF rd km(5)] by simp
  have same: "tmem (sc k1) t = tmem (sc k) t" if "i < MAX_TASKS" "tasks (sc k) ! i = Some t" for i t
    using new [OF that(1)] that(2) by (auto simp: k1_def upd_task_def)
  have inv1: "sched_inv (sc (k1\<lparr>sl := s\<rparr>))" using sched_inv_fresh [OF sinv new] by (simp add: k1_def)
  have "task_mem_ok own' (fl'(c := a # fl' c)) (k1\<lparr>sl := s\<rparr>) t" if it: "i < MAX_TASKS" "tasks (sc k) ! i = Some t" for i t
    by (rule proc_inv_pages [OF sl(1) rd' grow(1) _ tm [OF it]]) (simp_all add: lv same [OF it])
  then have "proc_inv own' (fl'(c := a # fl' c)) (k1\<lparr>sl := s\<rparr>)"
    using inv1 sl(1) rd' by (simp add: proc_inv_def) (simp add: k1_def upd_task_def)
  then show ?thesis using lv grow same unfolding fork_failed_def by (auto simp: k1_def upd_task_def)
qed

lemma fork_child_ok:
  assumes inv: "proc_inv own fl k" and cur: "current_task (sc k) = Some parent"
    and tbl: "maps_user (task_table kp (mm k) (tmem (sc k) parent)) ppa" "held (pages (sl k)) (ppa + VA_OFFSET)"
    and kp: "POOL_PAGES \<le> page_index kp"
    and slot: "2 \<le> slot" "slot < MAX_TASKS" "tasks (sc k) ! slot = None"
    and km: "slab_inv own' fl' s1" "a \<in> live own' fl' s1 c"
        "a \<in> cache_objs own' s1 c" "\<forall>d. a \<notin> live own fl (sl k) d" "slab_grows own (sl k) own' s1"
        "live own' fl' s1 = (live own fl (sl k))(c := insert a (live own fl (sl k) c))"
    and new: "\<And>i. i < MAX_TASKS \<Longrightarrow> tasks (sc k) ! i \<noteq> Some (unat a)"
    and k1_def: "k1 = k\<lparr>sl := s1, sc := upd_task (unat a) (\<lambda>t. zero_task) (sc k)\<rparr>"
    and rd: "kmalloc_ready (sl k)"
    and al: "allocated_on (pages s1) [(gpa, 2), (kpa, 0), (upa, 8)] pg"
    and mm1: "mm1 = (mm k)\<lparr>pgds := (pgds (mm k))(gpa := fresh_pgd (kpgd (mm k)) (pgds (mm k) gpa))\<rparr>"
    and res: "fork_finish kp tr su lu ctx parent (unat a) slot upa kpa gpa ((set_pages pg k1)\<lparr>mm := mm1\<rparr>) = (r, k')"
  shows "r = int slot \<and> (\<exists>own' fl'. proc_inv own' fl' k' \<and> child_mem own' fl' k' (unat a)) \<and>
    fork_child kp tr su lu ctx parent k slot (unat a) k'"
proof -
  have sinv: "sched_inv (sc k)" and tm: "\<And>i t. i < MAX_TASKS \<Longrightarrow> tasks (sc k) ! i = Some t \<Longrightarrow> task_mem_ok own fl k t"
    using inv by (simp_all add: proc_inv_def)
  note B = three_blocks [OF al]
  have par: "tasks (sc k) ! current_task_index (sc k) = Some parent" "current_task_index (sc k) < MAX_TASKS"
    using sinv cur by (simp_all add: sched_inv_def)
  let ?k = "(set_pages pg k1)\<lparr>mm := mm1\<rparr>"
  have grow1: "used (pages (sl k)) \<subseteq> used (pages s1)" using km(5) by (simp add: slab_grows_def)
  have grow: "used (pages s1) \<subseteq> used pg" by (auto simp: B(6))
  have same: "tmem (sc ?k) t = tmem (sc k) t" if "i < MAX_TASKS" "tasks (sc k) ! i = Some t" for i t
    using new [OF that(1)] that(2) by (auto simp: k1_def upd_task_def)
  note spar = same [OF par(2,1)]
  have tk: "tasks (sc ?k) = tasks (sc k)" "current_task_index (sc ?k) = current_task_index (sc k)"
    by (simp_all add: k1_def upd_task_def)
  have sinv1: "sched_inv (sc ?k)" using sched_inv_fresh [OF sinv new] by (simp add: k1_def)
  obtain ki where ki: "kpa = page_addr ki" "ki < POOL_PAGES" "page_block kpa 0 = {ki}"
    using B(2) by (auto elim!: is_blockE)
  have stk: "page_index (stack_base (tmem (sc ?k) t) - VA_OFFSET) \<noteq> ki" if it: "i < MAX_TASKS" "tasks (sc ?k) ! i = Some t" for i t
  proof -
    have t: "tasks (sc k) ! i = Some t" using it(2) tk(1) by simp
    have "ki \<notin> used (pages (sl k))" using B(8) ki(3) grow1 by auto
    then show ?thesis using tm [OF it(1) t] same [OF it(1) t] ki(2) by (auto simp: task_mem_ok_def held_def)
  qed
  have pre: "tasks (sc ?k) ! current_task_index (sc ?k) = Some parent" "unat a \<noteq> parent" "tasks (sc ?k) ! slot = None"
    "\<And>i. i < MAX_TASKS \<Longrightarrow> tasks (sc ?k) ! i \<noteq> Some (unat a)"
    using par new new [OF par(2)] slot(3) by (auto simp only: tk)
  have pre': "\<forall>i<MAX_TASKS. tasks (sc ?k) ! i \<noteq> Some (unat a)"
    "\<forall>i<MAX_TASKS. \<forall>t. tasks (sc ?k) ! i = Some t \<longrightarrow> page_index (stack_base (tmem (sc ?k) t) - VA_OFFSET) \<noteq> ki"
    using pre(4) stk by blast+
  note FF = fork_finish_ok [OF sinv1 pre(1,2) pre'(1) slot(2) pre(3) ki(1,2) pre'(2) res, unfolded spar]
  have kk: "mm ?k = mm1" "pmem ?k = pmem k" "sl ?k = s1\<lparr>pages := pg\<rparr>" by (simp_all add: k1_def)
  have F: "r = int slot" "sched_inv (sc k')" "tasks (sc k') = (tasks (sc k))[slot := Some (unat a)]" "ready_slot (sc k') slot"
    "\<forall>t. t \<noteq> unat a \<longrightarrow> tmem (sc k') t = tmem (sc ?k) t"
    "pmem k' = copy_user (task_table kp mm1 (tmem (sc k) parent)) upa (pmem k)"
    "mm k' = mmu_install_user_section gpa USER_SPACE_VA upa mm1" "sl k' = s1\<lparr>pages := pg\<rparr>"
    "\<forall>a. page_index (a - VA_OFFSET) \<noteq> ki \<longrightarrow> stk (sc k') a = stk (sc ?k) a"
    and FC: "let c = tmem (sc k') (unat a) in t_pid c = int slot \<and> t_ppid c = t_pid (tmem (sc k) parent) \<and> tstate c = READY \<and>
       t_files c = take MAX_FDS (t_files (tmem (sc k) parent)) \<and> pgd_pa c = gpa \<and> user_pa c = upa \<and>
       user_order c = 8 \<and> kstack_pa c = kpa \<and> kstack_order c = 0 \<and> stack_base c = kpa + VA_OFFSET \<and>
       task_ctx c = \<lparr>ctx_sp = stack_base c + 3992, ctx_sp_usr = su, ctx_lr_usr = lu\<rparr> \<and>
       (\<forall>j<26. stk (sc k') (ctx_sp (task_ctx c) + 4 * of_nat j) = rev (child_frame tr ctx) ! j)"
    using FF [unfolded tk kk] by blast+
  define ct where "ct = tmem (sc k') (unat a)"
  note C = FC [folded ct_def, unfolded Let_def]
  have ctbl: "task_table kp (mm k') ct = pgds (mm k') gpa" "gpa \<noteq> kp"
    using C kernel_pgd_not_block [OF B(3) kp] by (auto simp: task_table_def)
  have cmap: "maps_user (task_table kp (mm k') ct) upa"
    using install_maps_user [OF is_block_mb [OF B(1)], of gpa mm1] by (simp only: ctbl(1)) (simp only: F(7))
  have ppa_ne: "upa \<noteq> ppa" using page_index_block [OF B(1)] B(6,7) tbl(2) grow1 used_bounded [of pg] by (auto simp: held_def)
  have ptab: "task_table kp mm1 (tmem (sc k) parent) = task_table kp (mm k) (tmem (sc k) parent)" 
  proof -
    have "held (pages (sl k)) (pgd_pa (tmem (sc k) parent) + VA_OFFSET)" using tm [OF par(2,1)] by (simp add: task_mem_ok_def)
    then have "pgd_pa (tmem (sc k) parent) \<noteq> gpa"
      using page_index_block [OF B(3)] B(9) grow1 used_bounded [of pg] B(6) by (auto simp: held_def)
    then show ?thesis by (simp add: task_table_def mm1)
  qed
  note pm = F(6) [unfolded ptab]
  have words: "user_word (task_table kp (mm k') ct) (pmem k') (USER_SPACE_VA + 4 * of_nat w) =
      user_word (task_table kp (mm k) (tmem (sc k) parent)) (pmem k) (USER_SPACE_VA + 4 * of_nat w)" if w: "w < 0x40000" for w
    unfolding user_word_maps [OF cmap w] user_word_maps [OF tbl(1) w] pm
    by (rule copy_user_child(1) [OF tbl(1) is_block_mb [OF B(1)] ppa_ne w])
  have frame: "pmem k' x = pmem k x" if "held (pages (sl k)) (x + VA_OFFSET)" for x
    unfolding pm using that B(6,7) grow1 used_bounded [of pg] by (intro copy_user_frame [OF tbl(1) B(1) ppa_ne]) (auto simp: held_def)
  have stacks: "\<forall>x. page_index (x - VA_OFFSET) \<noteq> page_index kpa \<longrightarrow> stk (sc k') x = stk (sc k) x"
    using F(9) ki by (simp add: page_index_addr k1_def upd_task_def)
  have tables: "kpgd (mm k') = kpgd (mm k)" "\<forall>g. g \<noteq> gpa \<longrightarrow> pgds (mm k') g = pgds (mm k) g"
    by (simp_all add: F(7) mm1 mmu_install_user_section_def)
  have rest: "tmem (sc k') t = tmem (sc k) t" if "t \<noteq> unat a" for t
    using F(5) that by (simp add: k1_def upd_task_def)
  have sl': "slab_inv own' fl' (sl k')" "live own' fl' (sl k') = live own' fl' s1"
    unfolding F(8) using slab_inv_pages [OF km(1) B(5)] km(1) grow by (auto simp: slab_inv_def owners_ok_def)
  have rd': "kmalloc_ready (sl k')" using kmalloc_ready_grows [OF rd km(5)] by (simp add: F(8) kmalloc_ready_def)
  have mem: "task_mem_ok own' fl' k' t" if it: "i < MAX_TASKS" "tasks (sc k') ! i = Some t" for i t
  proof (cases "t = unat a")
    case True
    have "page_index (kpa + VA_OFFSET - VA_OFFSET) \<in> used pg" "page_index (gpa + VA_OFFSET - VA_OFFSET) \<in> used pg"
      using page_index_block [OF B(2)] page_index_block [OF B(3)] by (simp_all add: B(6))
    moreover have "unat a < 2 ^ 32" using unsigned_less [of a] by simp
    moreover have "of_nat (unat a) \<in> live own' fl' (sl k') c" using km(2) by (simp add: sl'(2))
    ultimately show ?thesis unfolding task_mem_ok_def held_def True ct_def [symmetric] using C F(8) by auto
  next
    case False
    have len: "length (tasks (sc k)) = MAX_TASKS" using sinv by (simp add: sched_inv_def)
    have t: "tasks (sc k) ! i = Some t" using it False len unfolding F(3) by (cases "i = slot") auto
    have "used (pages (sl k)) \<subseteq> used (pages (sl k'))" using grow grow1 by (simp add: F(8))
    moreover have "live own fl (sl k) d \<subseteq> live own' fl' (sl k') d" for d unfolding sl'(2) km(6) by auto
    ultimately show ?thesis by (rule proc_inv_pages [OF sl'(1) rd' _ _ tm [OF it(1) t] refl rest [OF False]])
  qed
  have "proc_inv own' fl' k'" using F(2) sl'(1) rd' mem by (simp add: proc_inv_def)
  moreover have "fork_child kp tr su lu ctx parent k slot (unat a) k'"
    unfolding fork_child_def Let_def ct_def [symmetric]
    using slot F(3,4) rest C words frame cmap B(6,7) grow1 stacks tables by (auto simp: F(8) rev_child_frame)
  moreover have "child_mem own' fl' k' (unat a)"
  proof -
    have "dom own' \<subseteq> used (pages s1)" using km(1) by (simp add: slab_inv_def owners_ok_def)
    then have "(page_block upa 8 \<union> page_block kpa 0 \<union> page_block gpa 2) \<inter> dom own' = {}" using B(7-9) by auto
    moreover have "of_nat (unat a) \<in> live own' fl' (sl k') c" using km(2) by (simp add: sl'(2))
    ultimately show ?thesis unfolding child_mem_def child_blocks_def Let_def ct_def [symmetric]
      using C B(1-3,6-9) F(8) by auto
  qed
  ultimately show ?thesis using F(1) by blast
qed

lemma fork_done:
  assumes inv: "proc_inv own fl k" and cur: "current_task (sc k) = Some parent"
    and tbl: "maps_user (task_table kp (mm k) (tmem (sc k) parent)) ppa" "held (pages (sl k)) (ppa + VA_OFFSET)"
    and kp: "POOL_PAGES \<le> page_index kp"
    and slot: "2 \<le> slot" "slot < MAX_TASKS" "tasks (sc k) ! slot = None"
    and km: "slab_inv own' fl' s1" "a \<in> live own' fl' s1 c"
        "a \<in> cache_objs own' s1 c" "\<forall>d. a \<notin> live own fl (sl k) d" "slab_grows own (sl k) own' s1"
        "live own' fl' s1 = (live own fl (sl k))(c := insert a (live own fl (sl k) c))"
    and new: "\<And>i. i < MAX_TASKS \<Longrightarrow> tasks (sc k) ! i \<noteq> Some (unat a)"
    and k1_def: "k1 = k\<lparr>sl := s1, sc := upd_task (unat a) (\<lambda>t. zero_task) (sc k)\<rparr>"
    and rd: "kmalloc_ready (sl k)"
  shows "(\<exists>k'. fork_alloc kp tr su lu ctx parent a slot k1 = Inr (- 1, k') \<and> fork_failed own fl k k') \<or>
    (\<exists>child k' own' fl'. fork_alloc kp tr su lu ctx parent a slot k1 = Inr (int slot, k') \<and> proc_inv own' fl' k' \<and>
       fork_child kp tr su lu ctx parent k slot child k' \<and> child_mem own' fl' k' child)"
proof -
  have sinv: "sched_inv (sc k)"
    and tm: "\<And>i t. i < MAX_TASKS \<Longrightarrow> tasks (sc k) ! i = Some t \<Longrightarrow> task_mem_ok own fl k t"
    using inv by (simp_all add: proc_inv_def)
  have par: "tasks (sc k) ! current_task_index (sc k) = Some parent" "current_task_index (sc k) < MAX_TASKS"
    using sinv cur by (simp_all add: sched_inv_def)
  have k1: "sl k1 = s1" "mm k1 = mm k" "pmem k1 = pmem k" "parent_wq k1 = parent_wq k"
    "tasks (sc k1) = tasks (sc k)" "current_task (sc k1) = current_task (sc k)"
    "current_task_index (sc k1) = current_task_index (sc k)"
    "\<And>t. t \<noteq> unat a \<Longrightarrow> tmem (sc k1) t = tmem (sc k) t"
    by (simp_all add: k1_def upd_task_def)
  have inv1: "sched_inv (sc k1)" using sched_inv_fresh [OF sinv new] by (simp add: k1_def)
  have grow: "used (pages (sl k)) \<subseteq> used (pages s1)" using km(5) by (simp add: slab_grows_def)
  have rd1: "kmalloc_ready s1" using kmalloc_ready_grows [OF rd km(5)] .
  from fork_alloc_cases [of own' fl' k1 a c kp tr su lu ctx parent slot] km(1,2) k1(1)
  have "(\<exists>s. fork_alloc kp tr su lu ctx parent a slot k1 = Inr (- 1, k1\<lparr>sl := s\<rparr>) \<and> kfree (Some a) s1 = Inr s) \<or>
    (\<exists>upa kpa gpa pg mm1. fork_alloc kp tr su lu ctx parent a slot k1 =
        Inr (fork_finish kp tr su lu ctx parent (unat a) slot upa kpa gpa ((set_pages pg k1)\<lparr>mm := mm1\<rparr>)) \<and>
      allocated_on (pages s1) [(gpa, 2), (kpa, 0), (upa, 8)] pg \<and>
      mm1 = (mm k)\<lparr>pgds := (pgds (mm k))(gpa := fresh_pgd (kpgd (mm k)) (pgds (mm k) gpa))\<rparr>)"
    by (simp add: k1)
  then show ?thesis
  proof (elim disjE exE conjE)
    fix s assume s: "fork_alloc kp tr su lu ctx parent a slot k1 = Inr (- 1, k1\<lparr>sl := s\<rparr>)" "kfree (Some a) s1 = Inr s"
    show ?thesis using fork_failed_undo [OF inv km new k1_def rd s(2)] s(1) by blast
  next
    fix upa kpa gpa pg mm1
    assume f: "fork_alloc kp tr su lu ctx parent a slot k1 =
        Inr (fork_finish kp tr su lu ctx parent (unat a) slot upa kpa gpa ((set_pages pg k1)\<lparr>mm := mm1\<rparr>))"
      and al: "allocated_on (pages s1) [(gpa, 2), (kpa, 0), (upa, 8)] pg"
      and mm1: "mm1 = (mm k)\<lparr>pgds := (pgds (mm k))(gpa := fresh_pgd (kpgd (mm k)) (pgds (mm k) gpa))\<rparr>"
    obtain r k' where k': "fork_finish kp tr su lu ctx parent (unat a) slot upa kpa gpa ((set_pages pg k1)\<lparr>mm := mm1\<rparr>) = (r, k')"
      by fastforce
    show ?thesis using fork_child_ok [OF inv cur tbl kp slot km new k1_def rd al mm1 k'] f k' by auto
  qed
qed

lemma do_fork_outcomes:
  assumes inv: "proc_inv own fl k" and cur: "current_task (sc k) = Some parent"
    and tbl: "maps_user (task_table kp (mm k) (tmem (sc k) parent)) ppa" "held (pages (sl k)) (ppa + VA_OFFSET)"
    and kp: "POOL_PAGES \<le> page_index kp"
  shows "(\<exists>k'. do_fork kp tr su lu ctx k = Inr (- 1, k') \<and> fork_failed own fl k k') \<or>
    (\<exists>slot child k' own' fl'. do_fork kp tr su lu ctx k = Inr (int slot, k') \<and> proc_inv own' fl' k' \<and>
       fork_child kp tr su lu ctx parent k slot child k' \<and> child_mem own' fl' k' child)"
proof -
  have sinv: "sched_inv (sc k)" and slinv: "slab_inv own fl (sl k)" and rd: "kmalloc_ready (sl k)"
    and tm: "\<And>i t. i < MAX_TASKS \<Longrightarrow> tasks (sc k) ! i = Some t \<Longrightarrow> task_mem_ok own fl k t"
    using inv by (simp_all add: proc_inv_def)
  have par: "tasks (sc k) ! current_task_index (sc k) = Some parent" "current_task_index (sc k) < MAX_TASKS"
    using sinv cur by (simp_all add: sched_inv_def)
  have self: "fork_failed own fl k k" using inv by (auto simp: fork_failed_def)
  show ?thesis
  proof (cases "first_idx (\<lambda>i. tasks_array_get i (sc k) = None) 2 MAX_TASKS")
    case None
    then show ?thesis using self by (simp add: do_fork_def scheduler_current_task_def cur)
  next
    case (Some slot)
    then have slot: "2 \<le> slot" "slot < MAX_TASKS" "tasks (sc k) ! slot = None"
      using first_idx_SomeD [OF Some] by (simp_all add: tasks_array_get_def)
    from kmalloc_cases [OF slinv rd, of sizeof_task_struct] show ?thesis
    proof (elim disjE exE conjE)
      assume "kmalloc sizeof_task_struct (sl k) = Inr (None, sl k)"
      then show ?thesis using self Some by (simp add: do_fork_def scheduler_current_task_def cur)
    next
      fix a s1 own' fl' c
      assume km: "kmalloc sizeof_task_struct (sl k) = Inr (Some a, s1)" "slab_inv own' fl' s1" "a \<in> live own' fl' s1 c"
        "a \<in> cache_objs own' s1 c" "\<forall>d. a \<notin> live own fl (sl k) d" "slab_grows own (sl k) own' s1"
        "live own' fl' s1 = (live own fl (sl k))(c := insert a (live own fl (sl k) c))"
      define k1 where "k1 = k\<lparr>sl := s1, sc := upd_task (unat a) (\<lambda>t. zero_task) (sc k)\<rparr>"
      have df: "do_fork kp tr su lu ctx k = fork_alloc kp tr su lu ctx parent a slot k1"
        using km(1) Some by (simp add: do_fork_def scheduler_current_task_def cur k1_def)
      have new: "tasks (sc k) ! i \<noteq> Some (unat a)" if "i < MAX_TASKS" for i
        using fresh_not_task [OF tm [OF that] km(5) cache_objs_index [OF km(2,4)]] by auto
      show ?thesis unfolding df using fork_done [OF inv cur tbl kp slot km(2-7) new k1_def rd] by blast
    qed
  qed
qed

subsection \<open>When a fork succeeds\<close>

text \<open>The naturally aligned megabytes of the pool that are free.\<close>

definition free_mb :: "page_state \<Rightarrow> nat set" where
  "free_mb pg = {j. j * 256 + 256 \<le> POOL_PAGES \<and> {j * 256..<j * 256 + 256} \<inter> used pg = {}}"

text \<open>A slot of the task table and four free megabytes: one is for the child, and each of the blocks for its
  structure, its kernel stack and its page table may take a part of another one.\<close>

definition fork_room :: "kstate \<Rightarrow> bool" where
  "fork_room k \<longleftrightarrow> (\<exists>i. 2 \<le> i \<and> i < MAX_TASKS \<and> tasks (sc k) ! i = None) \<and> 4 \<le> card (free_mb (pages (sl k)))"

lemma finite_free_mb [simp]: "finite (free_mb pg)"
  by (rule finite_subset [of _ "{..POOL_PAGES}"]) (auto simp: free_mb_def)

lemma block_one_mb:
  assumes "2 ^ n dvd i" "n \<le> 8" "x \<in> {i..<i + 2 ^ n}"
  shows "x div 256 = i div (256 :: nat)"
proof -
  obtain q where q: "i = 2 ^ n * q" using assms(1) by auto
  obtain t where t: "x = 2 ^ n * q + t" "t < 2 ^ n" using assms(3) q by (auto simp: le_iff_add)
  have p: "(256 :: nat) = 2 ^ n * 2 ^ (8 - n)" using assms(2) by (simp flip: power_add)
  show ?thesis unfolding p div_mult2_eq using q t by simp
qed

lemma alloc_free_mb:
  assumes "page_inv pg" "n \<le> 8" "alloc_pages g n pg = (pa, pg')" "Suc m \<le> card (free_mb pg)"
  shows "pa \<noteq> 0" "page_inv pg'" "m \<le> card (free_mb pg')"
proof -
  obtain j where j: "j * 256 + 256 \<le> POOL_PAGES" "{j * 256..<j * 256 + 256} \<inter> used pg = {}"
  proof -
    have "free_mb pg \<noteq> {}" using assms(4) by (metis Suc_n_not_le_n card.empty le_0_eq nat.distinct(1))
    then show ?thesis using that by (auto simp: free_mb_def)
  qed
  have pw: "(2 :: nat) ^ n dvd 256" "(2 :: nat) ^ n \<le> 256"
    using le_imp_power_dvd [OF assms(2), of "2 :: nat"] power_increasing [OF assms(2), of "2 :: nat"] by simp_all
  show pa: "pa \<noteq> 0"
  proof
    assume "pa = 0"
    then have "\<forall>k. 2 ^ n dvd k \<longrightarrow> k + 2 ^ n \<le> POOL_PAGES \<longrightarrow> {k..<k + 2 ^ n} \<inter> used pg \<noteq> {}"
      using alloc_pages_0D(2) [of g n pg pg'] assms(2,3) by (auto simp: PAGE_MAX_ORDER_def)
    moreover have "{j * 256..<j * 256 + 2 ^ n} \<subseteq> {j * 256..<j * 256 + 256}" using pw(2) by auto
    then have "{j * 256..<j * 256 + 2 ^ n} \<inter> used pg = {}" using j(2) by blast
    moreover have "2 ^ n dvd j * 256" "j * 256 + 2 ^ n \<le> POOL_PAGES" using j(1) pw by (simp_all add: dvd_mult)
    ultimately show False by blast
  qed
  note A = alloc_pages_SomeD [OF assms(1,3) pa]
  show "page_inv pg'" by (rule A(4))
  obtain i where i: "2 ^ n dvd i" "page_block pa n = {i..<i + 2 ^ n}" using is_blockE [OF A(1)] by metis
  have "free_mb pg - {i div 256} \<subseteq> free_mb pg'"
  proof
    fix l assume l: "l \<in> free_mb pg - {i div 256}"
    have "x div 256 = l" if "x \<in> {l * 256..<l * 256 + 256}" for x
      using that by (auto intro!: div_nat_eqI)
    then have "{l * 256..<l * 256 + 256} \<inter> {i..<i + 2 ^ n} = {}" using block_one_mb [OF i(1) assms(2)] l by blast
    then show "l \<in> free_mb pg'" using l A(3) i(2) by (auto simp: free_mb_def)
  qed
  then have "card (free_mb pg - {i div 256}) \<le> card (free_mb pg')" by (intro card_mono) auto
  moreover have "card (free_mb pg) - 1 \<le> card (free_mb pg - {i div 256})" by (simp add: card_Diff_singleton_if)
  ultimately show "m \<le> card (free_mb pg')" using assms(4) by linarith
qed

lemma slab_refill_pages: "pages (snd (slab_refill c s)) = snd (alloc_pages 0 0 (pages s))"
proof -
  have "pages (fold (\<lambda>i. push_obj c (f i)) xs t) = pages t" for f :: "nat \<Rightarrow> u32" and xs t by (induction xs arbitrary: t) auto
  then show ?thesis by (auto simp: slab_refill_def Let_def split: prod.splits)
qed

lemma kmalloc_task_room:
  assumes "slab_inv own fl s" "kmalloc_ready s" "Suc m \<le> card (free_mb (pages s))"
  shows "\<exists>a s'. kmalloc sizeof_task_struct s = Inr (Some a, s') \<and> m \<le> card (free_mb (pages s')) \<and> page_inv (pages s')"
proof -
  have pinv: "page_inv (pages s)" using assms(1) by (simp add: slab_inv_def owners_ok_def)
  obtain pa pg where al: "alloc_pages 0 0 (pages s) = (pa, pg)" by fastforce
  note A = alloc_free_mb [OF pinv _ al assms(3), simplified]
  obtain c where c: "c < SLAB_MAX_CACHES" "kmalloc sizeof_task_struct s = kmem_cache_alloc (Some c) s" "kc_in_use (cache_pool s ! c)"
    using kmalloc_serves [OF assms(2), of sizeof_task_struct] by (auto simp: sizeof_task_struct_def)
  obtain a s' where k: "kmem_cache_alloc (Some c) s = Inr (Some a, s')"
    using kmem_cache_alloc_cases [OF assms(1) c(1,3)] A(1) al by auto
  then have "pages s' = pages s \<or> pages s' = pages (snd (slab_refill c s))"
    by (auto simp: kmem_cache_alloc_def split: if_splits prod.splits option.splits)
  then have "pages s' = pages s \<or> pages s' = pg" by (simp add: slab_refill_pages al)
  then show ?thesis using k c(2) A(2,3) pinv assms(3) by auto
qed

lemma do_fork_room:
  assumes "proc_inv own fl k" "current_task (sc k) = Some parent" "fork_room k"
  shows "\<exists>slot k'. do_fork kp tr su lu ctx k = Inr (int slot, k')"
proof -
  have sl: "slab_inv own fl (sl k)" "kmalloc_ready (sl k)" and c4: "Suc 3 \<le> card (free_mb (pages (sl k)))"
    using assms(1,3) by (auto simp: proc_inv_def fork_room_def)
  obtain i where i: "2 \<le> i" "i < MAX_TASKS" "tasks (sc k) ! i = None" using assms(3) by (auto simp: fork_room_def)
  then obtain slot where slot: "first_idx (\<lambda>i. tasks_array_get i (sc k) = None) 2 MAX_TASKS = Some slot"
    using first_idx_exists [of 2 i MAX_TASKS "\<lambda>i. tasks_array_get i (sc k) = None"] by (auto simp: tasks_array_get_def)
  obtain a s1 where a: "kmalloc sizeof_task_struct (sl k) = Inr (Some a, s1)" "Suc 2 \<le> card (free_mb (pages s1))" "page_inv (pages s1)"
    using kmalloc_task_room [OF sl c4] by auto
  obtain upa pg1 where u: "alloc_pages 0 8 (pages s1) = (upa, pg1)" by fastforce
  note U = alloc_free_mb [OF a(3) _ u a(2), simplified]
  obtain kpa pg2 where q: "alloc_pages 0 0 pg1 = (kpa, pg2)" by fastforce
  have "Suc 1 \<le> card (free_mb pg1)" using U(3) by simp
  note Q = alloc_free_mb [OF U(2) _ q this, simplified]
  obtain gpa pg3 where g: "alloc_pages 0 2 pg2 = (gpa, pg3)" by fastforce
  have "Suc 0 \<le> card (free_mb pg2)" using Q(3) by simp
  note G = alloc_free_mb [OF Q(2) _ g this, simplified]
  show ?thesis using assms(2) slot a(1) u q g U(1) Q(1) G(1)
    by (auto simp: do_fork_def scheduler_current_task_def fork_alloc_def USER_MEM_PAGES_ORDER_def KSTACK_PAGES_ORDER_def mmu_new_pgd_def
        fork_finish_def Let_def)
qed

text \<open>C14: \<open>do_fork\<close> on a consistent kernel state never fails an assertion.  The memory of the caller, the
  megabyte at \<open>ppa\<close> that its page table maps, may be a block of the page pool, as for a forked process,
  or lie outside of it, as for the first process; the kernel's own page table lies outside of the
  pool.  Either the call returns \<open>-1\<close> and undoes everything: the task table, every scheduled task, the
  page tables and the user memory are as before, no object is live that was not, and the only pages
  that may stay allocated are pages the slab allocator now owns; this happens only when the task table
  is full or fewer than four megabytes of the pool are free.  Or it returns the number of a free slot
  from 2 on, which now holds a ready child of the caller with the caller's descriptors, the caller's
  registers on a fresh kernel stack with R0 zero, and a fresh megabyte of memory mapped at the user
  addresses, equal word for word to the caller's; every other task, every other stack and page table, and
  all memory that is not on a page that was free keep their contents, and the kernel state stays
  consistent.\<close>

theorem do_fork_correct:
  assumes "proc_inv own fl k" "current_task (sc k) = Some parent"
    and "maps_user (task_table kernel_pgd (mm k) (tmem (sc k) parent)) ppa" "held (pages (sl k)) (ppa + VA_OFFSET)"
    and "POOL_PAGES \<le> page_index kernel_pgd"
  shows "(\<exists>k'. do_fork kernel_pgd tramp sp_usr lr_usr ctx k = Inr (- 1, k') \<and> fork_failed own fl k k' \<and> \<not> fork_room k) \<or>
    (\<exists>slot child k' own' fl'. do_fork kernel_pgd tramp sp_usr lr_usr ctx k = Inr (int slot, k') \<and> proc_inv own' fl' k' \<and>
       fork_child kernel_pgd tramp sp_usr lr_usr ctx parent k slot child k' \<and> child_mem own' fl' k' child)"
  using do_fork_outcomes [OF assms, of tramp sp_usr lr_usr ctx] do_fork_room [OF assms(1,2), of kernel_pgd tramp sp_usr lr_usr ctx]
  by (cases "fork_room k") auto

text \<open>The first process, whose memory is at \<open>USER_SPACE_PA\<close>, forks.\<close>

definition demo_ctx :: svc_context where
  "demo_ctx = \<lparr>sv_spsr = 0x10, sv_r = (\<lambda>i. of_nat i), sv_lr = 0x40000100\<rparr>"

definition demo_k :: "slab_state \<Rightarrow> kstate" where
  "demo_k s = \<lparr>sc = demo_sched, sl = s, mm = mmu_install_user_section 0 USER_SPACE_VA USER_SPACE_PA zero_mmu,
     pmem = (\<lambda>a. a), parent_wq = None\<rparr>"

lemma demo_k_ok:
  "\<exists>s. proc_inv (\<lambda>i. None) (\<lambda>c. []) (demo_k s) \<and> fork_room (demo_k s)"
proof -
  obtain s where s: "slab_inv (\<lambda>i. None) (\<lambda>c. []) s" "classes_done KMALLOC_CLASSES s" "pages s = page_alloc_init"
    using slab_init_boot by blast
  have "task_mem_ok (\<lambda>i. None) (\<lambda>c. []) (demo_k s) t" if "t = 1 \<or> t = 2" for t
    using that by (auto simp: task_mem_ok_def held_def demo_k_def demo_sched_def demo_task_def page_index_def
      PAGE_SIZE_def POOL_PA_BASE_def VA_OFFSET_def POOL_PAGES_eq)
  then have "proc_inv (\<lambda>i. None) (\<lambda>c. []) (demo_k s)"
    unfolding proc_inv_def less_MAX_TASKS using s(1) slab_init_ready [OF s(2)] by (auto simp: demo_k_def demo_sched_inv nth_Cons')
  moreover have "{0, 1, 2, 3} \<subseteq> free_mb (pages s)" by (auto simp: free_mb_def s(3) used_init POOL_PAGES_eq)
  then have "card {0, 1, 2, 3 :: nat} \<le> card (free_mb (pages s))" by (rule card_mono [OF finite_free_mb])
  then have "fork_room (demo_k s)" unfolding fork_room_def
    by (intro conjI exI [of _ 3]) (simp_all add: demo_k_def demo_sched_def MAX_TASKS_def)
  ultimately show ?thesis by blast
qed

theorem do_fork_correct_witness:
  "\<exists>s slot k'. do_fork 0x80004000 0xC0001000 0x40100000 0x40000200 demo_ctx (demo_k s) = Inr (int slot, k') \<and> 2 \<le> slot \<and>
     user_word (task_table 0x80004000 (mm k') (tmem (sc k') (the (tasks (sc k') ! slot)))) (pmem k') (USER_SPACE_VA + 4 * of_nat 7) =
       user_word (task_table 0x80004000 (mm (demo_k s)) (tmem (sc (demo_k s)) 1)) (pmem (demo_k s)) (USER_SPACE_VA + 4 * of_nat 7)"
proof -
  obtain s where k: "proc_inv (\<lambda>i. None) (\<lambda>c. []) (demo_k s)" and room: "fork_room (demo_k s)" using demo_k_ok by blast
  have cur: "current_task (sc (demo_k s)) = Some 1" by (simp add: demo_k_def demo_sched_def)
  have map: "maps_user (task_table 0x80004000 (mm (demo_k s)) (tmem (sc (demo_k s)) 1)) USER_SPACE_PA"
    using install_maps_user [OF aligned_consts(6), of 0 zero_mmu] by (simp add: demo_k_def task_table_def demo_sched_def demo_task_def)
  have out: "held (pages (sl (demo_k s))) (USER_SPACE_PA + VA_OFFSET)" "POOL_PAGES \<le> page_index 0x80004000"
    by (simp_all add: held_def page_index_def PAGE_SIZE_def POOL_PA_BASE_def POOL_PAGES_eq USER_SPACE_PA_def VA_OFFSET_def
        KERNEL_DDR_PA_def KERNEL_DDR_MB_def MMU_SECTION_SIZE_def)
  obtain slot child k' where r: "do_fork 0x80004000 0xC0001000 0x40100000 0x40000200 demo_ctx (demo_k s) = Inr (int slot, k')"
    "fork_child 0x80004000 0xC0001000 0x40100000 0x40000200 demo_ctx 1 (demo_k s) slot child k'"
    using do_fork_correct [OF k cur map out, of "0xC0001000" "0x40100000" "0x40000200" demo_ctx] room by auto
  have "length (tasks (sc (demo_k s))) = MAX_TASKS" using k by (simp add: proc_inv_def sched_inv_def)
  then have "the (tasks (sc k') ! slot) = child" "2 \<le> slot" using r(2) by (simp_all add: fork_child_def Let_def)
  moreover have "\<forall>w<0x40000. user_word (task_table 0x80004000 (mm k') (tmem (sc k') child)) (pmem k') (USER_SPACE_VA + 4 * of_nat w) =
       user_word (task_table 0x80004000 (mm (demo_k s)) (tmem (sc (demo_k s)) 1)) (pmem (demo_k s)) (USER_SPACE_VA + 4 * of_nat w)"
    using r(2) unfolding fork_child_def Let_def by blast
  from this [rule_format, of 7] have "user_word (task_table 0x80004000 (mm k') (tmem (sc k') child)) (pmem k') (USER_SPACE_VA + 4 * of_nat 7) =
       user_word (task_table 0x80004000 (mm (demo_k s)) (tmem (sc (demo_k s)) 1)) (pmem (demo_k s)) (USER_SPACE_VA + 4 * of_nat 7)"
    by simp
  ultimately show ?thesis using r(1) by blast
qed

subsection \<open>Wait\<close>

lemma slab_pages_free:
  assumes "slab_inv own fl s" "is_block pa n" "page_block pa n \<subseteq> used (pages s) - dom own"
  shows "\<exists>pg. free_pages pa n (pages s) = Inr pg \<and> used pg = used (pages s) - page_block pa n \<and>
    slab_inv own fl (s\<lparr>pages := pg\<rparr>) \<and> live own fl (s\<lparr>pages := pg\<rparr>) = live own fl s"
proof -
  have p: "page_inv (pages s)" "dom own \<subseteq> used (pages s)" using assms(1) by (simp_all add: slab_inv_def owners_ok_def)
  obtain pg where pg: "free_pages pa n (pages s) = Inr pg" "used pg = used (pages s) - page_block pa n" "page_inv pg"
    using free_pages_ok [OF p(1) assms(2)] assms(3) by blast
  moreover have "dom own \<subseteq> used pg" using p(2) assms(3) pg(2) by auto
  ultimately show ?thesis using slab_inv_pages [OF assms(1)] by blast
qed

lemma is_block_nonzero: "is_block pa n \<Longrightarrow> pa \<noteq> 0"
  by (metis is_blockE page_addr_in_pool(4))

lemma reap_ok:
  assumes inv: "proc_inv own fl k" and i: "i < MAX_TASKS" "i \<noteq> 0" "i \<noteq> current_task_index (sc k)" "tasks (sc k) ! i = Some t"
    and cm: "child_mem own fl k t" and kp: "POOL_PAGES \<le> page_index kp"
  shows "\<exists>k' fl' c. reap kp i t k = Inr ((t_pid (tmem (sc k) t), t_exit_status (tmem (sc k) t)), k') \<and>
    sched_inv (sc k') \<and> tasks (sc k') = (tasks (sc k))[i := None] \<and> slab_inv own fl' (sl k') \<and>
    used (pages (sl k')) = used (pages (sl k)) - child_blocks (tmem (sc k) t) \<and>
    live own fl' (sl k') = (live own fl (sl k))(c := live own fl (sl k) c - {of_nat t}) \<and> of_nat t \<in> live own fl (sl k) c"
proof -
  let ?z = "tmem (sc k) t"
  have sinv: "sched_inv (sc k)" and slinv: "slab_inv own fl (sl k)" using inv by (simp_all add: proc_inv_def)
  obtain c where c: "of_nat t \<in> live own fl (sl k) c" using cm by (auto simp: child_mem_def Let_def)
  obtain s2 where s2: "kfree (Some (of_nat t)) (sl k) = Inr s2" "slab_inv own (fl(c := of_nat t # fl c)) s2"
    "live own (fl(c := of_nat t # fl c)) s2 = (live own fl (sl k))(c := live own fl (sl k) c - {of_nat t})"
    using kfree_live [OF slinv c] by blast
  have M: "is_block (user_pa ?z) (user_order ?z)" "is_block (kstack_pa ?z) (kstack_order ?z)" "is_block (pgd_pa ?z) 2"
     "page_block (user_pa ?z) (user_order ?z) \<inter> page_block (kstack_pa ?z) (kstack_order ?z) = {}"
     "page_block (pgd_pa ?z) 2 \<inter> (page_block (user_pa ?z) (user_order ?z) \<union> page_block (kstack_pa ?z) (kstack_order ?z)) = {}"
     "child_blocks ?z \<subseteq> used (pages s2) - dom own"
    using cm by (simp_all add: child_mem_def Let_def kfree_frame(1) [OF s2(1)])
  obtain p3 where p3: "free_pages (pgd_pa ?z) 2 (pages s2) = Inr p3" "used p3 = used (pages s2) - page_block (pgd_pa ?z) 2"
    "slab_inv own (fl(c := of_nat t # fl c)) (s2\<lparr>pages := p3\<rparr>)" "live own (fl(c := of_nat t # fl c)) (s2\<lparr>pages := p3\<rparr>) = live own (fl(c := of_nat t # fl c)) s2"
    using slab_pages_free [OF s2(2) M(3)] M(6) by (auto simp: child_blocks_def)
  obtain p4 where p4: "free_pages (user_pa ?z) (user_order ?z) p3 = Inr p4" "used p4 = used p3 - page_block (user_pa ?z) (user_order ?z)"
    "slab_inv own (fl(c := of_nat t # fl c)) (s2\<lparr>pages := p4\<rparr>)" "live own (fl(c := of_nat t # fl c)) (s2\<lparr>pages := p4\<rparr>) = live own (fl(c := of_nat t # fl c)) s2"
  proof -
    have "page_block (user_pa ?z) (user_order ?z) \<subseteq> used (pages (s2\<lparr>pages := p3\<rparr>)) - dom own"
      using M(5,6) by (auto simp: child_blocks_def p3(2))
    from slab_pages_free [OF p3(3) M(1) this] show ?thesis using that p3(4) by auto
  qed
  obtain p5 where p5: "free_pages (kstack_pa ?z) (kstack_order ?z) p4 = Inr p5" "used p5 = used p4 - page_block (kstack_pa ?z) (kstack_order ?z)"
    "slab_inv own (fl(c := of_nat t # fl c)) (s2\<lparr>pages := p5\<rparr>)" "live own (fl(c := of_nat t # fl c)) (s2\<lparr>pages := p5\<rparr>) = live own (fl(c := of_nat t # fl c)) s2"
  proof -
    have "page_block (kstack_pa ?z) (kstack_order ?z) \<subseteq> used (pages (s2\<lparr>pages := p4\<rparr>)) - dom own"
      using M(4-6) by (auto simp: child_blocks_def p3(2) p4(2))
    from slab_pages_free [OF p4(3) M(2) this] show ?thesis using that p4(4) by auto
  qed
  let ?k = "k\<lparr>sc := scheduler_release_slot i (sc k), sl := s2\<lparr>pages := p5\<rparr>\<rparr>"
  have "reap kp i t k = Inr ((t_pid ?z, t_exit_status ?z), ?k)"
    using s2(1) p3(1) p4(1) p5(1) M(1-3)[THEN is_block_nonzero] kernel_pgd_not_block [OF M(3) kp]
    by (simp add: reap_def Let_def mmu_free_pgd_def set_pages_def)
  moreover have "used p5 = used (pages (sl k)) - child_blocks ?z"
    unfolding p5(2) p4(2) p3(2) kfree_frame(1) [OF s2(1)] child_blocks_def by blast
  moreover have "sched_inv (scheduler_release_slot i (sc k)) \<and> tasks (scheduler_release_slot i (sc k)) = (tasks (sc k))[i := None]"
    using scheduler_release_slot_inv [OF sinv i(1-3)] i(4) by simp
  ultimately show ?thesis using p5(3,4) s2(3) c
    by (intro exI [of _ ?k] exI [of _ "fl(c := of_nat t # fl c)"] exI [of _ c]) simp
qed

text \<open>C15: \<open>do_wait\<close> in a process with a child that has exited returns at once, without a failed
  assertion, with the pid and the exit status of its first such child.  The child's slot is free
  again, its structure is no longer live, and exactly the pages of its memory, its kernel stack and
  its page table are given back; the scheduler and the allocator stay consistent.\<close>

theorem do_wait_reaps:
  assumes "proc_inv own fl k" "current_task (sc k) = Some me" "tstate (tmem (sc k) me) = RUNNING"
    and "i < MAX_TASKS" "is_zombie_child (t_pid (tmem (sc k) me)) (sc k) i"
    and "\<forall>j<i. \<not> is_zombie_child (t_pid (tmem (sc k) me)) (sc k) j"
    and "tasks (sc k) ! i = Some t" "child_mem own fl k t" "POOL_PAGES \<le> page_index kernel_pgd"
  shows "\<exists>k' fl' c. do_wait_round kernel_pgd k =
      Inr (Some (t_pid (tmem (sc k) t), Some (t_exit_status (tmem (sc k) t))), k') \<and>
    sched_inv (sc k') \<and> tasks (sc k') = (tasks (sc k))[i := None] \<and> slab_inv own fl' (sl k') \<and>
    used (pages (sl k')) = used (pages (sl k)) - child_blocks (tmem (sc k) t) \<and>
    live own fl' (sl k') = (live own fl (sl k))(c := live own fl (sl k) c - {of_nat t}) \<and> of_nat t \<in> live own fl (sl k) c"
proof -
  have sinv: "sched_inv (sc k)" using assms(1) by (simp add: proc_inv_def)
  have z: "tstate (tmem (sc k) t) = ZOMBIE" using assms(4,5,7) by (simp add: is_zombie_child_def tasks_array_get_def)
  have f: "first_idx (is_zombie_child (t_pid (tmem (sc k) me)) (sc k)) 0 MAX_TASKS = Some i"
    using assms(4-6) by (simp add: first_idx_Some_iff)
  have "idle_ok (sc k)" "tasks (sc k) ! current_task_index (sc k) = current_task (sc k)" using sinv by (simp_all add: sched_inv_def)
  then have "i \<noteq> 0" "i \<noteq> current_task_index (sc k)" using z assms(2,3,7) by (auto simp: idle_ok_def intro!: gr0I)
  then obtain k' fl' c where k': "reap kernel_pgd i t k = Inr ((t_pid (tmem (sc k) t), t_exit_status (tmem (sc k) t)), k')"
    "sched_inv (sc k')" "tasks (sc k') = (tasks (sc k))[i := None]" "slab_inv own fl' (sl k')"
    "used (pages (sl k')) = used (pages (sl k)) - child_blocks (tmem (sc k) t)"
    "live own fl' (sl k') = (live own fl (sl k))(c := live own fl (sl k) c - {of_nat t})" "of_nat t \<in> live own fl (sl k) c"
    using reap_ok [OF assms(1,4) _ _ assms(7-9)] by blast
  have "do_wait_round kernel_pgd k = Inr (Some (t_pid (tmem (sc k) t), Some (t_exit_status (tmem (sc k) t))), k')"
    using assms(2,4,7) f k'(1) by (simp add: do_wait_round_def scheduler_current_task_def has_zombie_child_def tasks_array_get_def Let_def)
  then show ?thesis using k'(2-7) by blast
qed

text \<open>A state with a zombie child: task 2 of the demonstration table exited, and its structure was
  the object \<open>a\<close>.\<close>

definition demo_zombie :: "nat \<Rightarrow> u32 \<Rightarrow> u32 \<Rightarrow> u32 \<Rightarrow> task_struct" where
  "demo_zombie a u kp g = (demo_task 2 ZOMBIE)\<lparr>t_ppid := 1, t_exit_status := 7, user_pa := u, user_order := 8,
     kstack_pa := kp, pgd_pa := g\<rparr>"

definition demo_sched_zombie :: "nat \<Rightarrow> task_struct \<Rightarrow> sched" where
  "demo_sched_zombie a z = demo_sched\<lparr>tmem := (tmem demo_sched)(a := z), tasks := [Some 1, None, Some a, None, None]\<rparr>"

lemma demo_zombie_inv:
  assumes "a \<noteq> 1" "stack_base z = 0x2000" "tstate z = ZOMBIE"
  shows "sched_inv (demo_sched_zombie a z)"
proof (rule sched_invI)
  show "slots_inj (tasks (demo_sched_zombie a z))"
    using assms(1) by (auto simp: slots_inj_def demo_sched_zombie_def less_Suc_eq nth_Cons')
qed (use assms in \<open>auto simp: demo_sched_zombie_def demo_sched_def idle_ok_def MAX_TASKS_def demo_task_def less_Suc_eq nth_Cons'\<close>)

definition demo_pages :: page_state where
  "demo_pages = (set_block page_alloc_init 0 261)\<lparr>free_count := 28411\<rparr>"

lemma demo_pages_ok: "page_inv demo_pages" "used demo_pages = {0..<261}"
proof -
  have l: "length (bitmap page_alloc_init) = BITMAP_WORDS" using page_inv_init by (simp add: page_inv_def)
  show u: "used demo_pages = {0..<261}"
    using used_set_block [OF l, of 0 261] by (simp add: demo_pages_def used_init POOL_PAGES_eq)
  show "page_inv demo_pages"
    unfolding page_inv_def u using l by (simp add: demo_pages_def set_block_frame POOL_PAGES_eq)
qed

lemma demo_block: "n \<le> 8 \<Longrightarrow> 2 ^ n dvd i \<Longrightarrow> i + 2 ^ n \<le> POOL_PAGES \<Longrightarrow>
    is_block (page_addr i) n \<and> page_block (page_addr i) n = {i..<i + 2 ^ n}"
  by (auto simp: is_block_def page_block_def PAGE_MAX_ORDER_eq block_start_lt page_index_addr)

lemma demo_child:
  "\<exists>own fl s a. slab_inv own fl s \<and> kmalloc_ready s \<and> a \<in> live own fl s 2 \<and> page_index (a - VA_OFFSET) < POOL_PAGES \<and>
     {0..<261} \<subseteq> used (pages s) - dom own"
proof -
  obtain s where s: "slab_inv (\<lambda>i. None) (\<lambda>c. []) s" "classes_done KMALLOC_CLASSES s"
    using slab_init_boot by blast
  let ?s = "s\<lparr>pages := demo_pages\<rparr>"
  have inv: "slab_inv (\<lambda>i. None) (\<lambda>c. []) ?s" using slab_inv_pages(1) [OF s(1) demo_pages_ok(1)] by simp
  have rd: "kmalloc_ready ?s" using slab_init_ready [OF s(2)] by (simp add: kmalloc_ready_def)
  have c: "2 < SLAB_MAX_CACHES" "kc_in_use (cache_pool ?s ! 2)" using s(2) by (simp_all add: classes_done_def vx_consts)
  have "fst (alloc_pages 0 0 (pages ?s)) \<noteq> 0"
    using alloc_page_succeeds [OF demo_pages_ok(1), of 0] page_addr_in_pool(4) by (auto simp: demo_pages_ok(2) POOL_PAGES_eq)
  then obtain a s' own' fl' where s': "slab_inv own' fl' s'" "a \<in> cache_objs own' s' 2"
    "slab_grows (\<lambda>i. None) ?s own' s'" "a \<in> live own' fl' s' 2"
    using kmem_cache_alloc_cases [OF inv c] by (auto simp: fun_eq_iff)
  then show ?thesis using cache_objs_index [OF s'(1,2)] kmalloc_ready_grows [OF rd s'(3)]
    by (auto simp: slab_grows_def demo_pages_ok(2) intro!: exI [of _ own'] exI [of _ fl'] exI [of _ s'] exI [of _ a])
qed

theorem do_wait_reaps_witness:
  "\<exists>k k'. do_wait_round 0x80004000 k = Inr (Some (2, Some 7), k') \<and> tasks (sc k') = [Some 1, None, None, None, None]"
proof -
  obtain own fl s a where s: "slab_inv own fl s" "kmalloc_ready s" "a \<in> live own fl s 2"
    "page_index (a - VA_OFFSET) < POOL_PAGES" "{0..<261} \<subseteq> used (pages s) - dom own" using demo_child by blast
  let ?z = "demo_zombie (unat a) (page_addr 0) (page_addr 260) (page_addr 256)"
  let ?k = "\<lparr>sc = demo_sched_zombie (unat a) ?z, sl = s, mm = zero_mmu, pmem = (\<lambda>a. 0), parent_wq = None\<rparr>"
  have b: "is_block (page_addr 0) 8" "page_block (page_addr 0) 8 = {0..<256}" "is_block (page_addr 260) 0"
    "page_block (page_addr 260) 0 = {260}" "is_block (page_addr 256) 2" "page_block (page_addr 256) 2 = {256..<260}"
    using demo_block [of 8 0] demo_block [of 0 260] demo_block [of 2 256] by (auto simp: POOL_PAGES_eq)
  have "page_index (1 - VA_OFFSET) \<ge> POOL_PAGES" by (simp add: page_index_def PAGE_SIZE_def POOL_PA_BASE_def VA_OFFSET_def POOL_PAGES_eq)
  then have "a \<noteq> 1" using s(4) by auto
  then have a1: "unat a \<noteq> 1" by (metis unat_1 word_unat_eq_iff)
  have pi: "page_index (page_addr 256) \<in> used (pages s)" using subsetD [OF s(5), of 256] page_index_addr [of 256] by (auto simp: POOL_PAGES_eq)
  have z: "stack_base ?z = 0x2000" "tstate ?z = ZOMBIE" "t_pid ?z = 2" "t_ppid ?z = 1" "t_exit_status ?z = 7"
    "user_pa ?z = page_addr 0" "user_order ?z = 8" "kstack_pa ?z = page_addr 260" "kstack_order ?z = 0" "pgd_pa ?z = page_addr 256"
    by (simp_all add: demo_zombie_def demo_task_def)
  have k: "tmem (sc ?k) (unat a) = ?z" "tmem (sc ?k) 1 = demo_task 1 RUNNING" "tasks (sc ?k) = [Some 1, None, Some (unat a), None, None]"
    "current_task (sc ?k) = Some 1"
    using a1 by (simp_all add: demo_sched_zombie_def demo_sched_def)
  have "task_mem_ok own fl ?k t" if "t = 1 \<or> t = unat a" for t
    using that
  proof
    assume "t = 1"
    then show ?thesis using k(2) by (simp add: task_mem_ok_def held_def demo_task_def page_index_def
      PAGE_SIZE_def POOL_PA_BASE_def VA_OFFSET_def POOL_PAGES_eq)
  next
    assume t: "t = unat a"
    have "POOL_PAGES \<le> page_index (0x2000 - VA_OFFSET)"
      by (simp add: page_index_def PAGE_SIZE_def POOL_PA_BASE_def VA_OFFSET_def POOL_PAGES_eq)
    then show ?thesis unfolding task_mem_ok_def held_def t k(1) z using pi s(3) unsigned_less [of a] by auto
  qed
  then have inv: "proc_inv own fl ?k"
    unfolding proc_inv_def less_MAX_TASKS using demo_zombie_inv [OF a1 z(1,2)] s(1,2) k(3) by (auto simp: nth_Cons')
  have cm: "child_mem own fl ?k (unat a)"
  proof -
    have "{0..<256} \<union> {260} \<union> {256..<260} \<subseteq> used (pages s) - dom own" by (rule order_trans [OF _ s(5)]) auto
    moreover have "{0..<256::nat} \<inter> {260} = {}" "{256..<260::nat} \<inter> ({0..<256} \<union> {260}) = {}" by auto
    ultimately show ?thesis unfolding child_mem_def child_blocks_def Let_def k(1) z b using b(1,3,5) s(3) by auto
  qed
  have "POOL_PAGES \<le> page_index 0x80004000" by (simp add: page_index_def PAGE_SIZE_def POOL_PA_BASE_def POOL_PAGES_eq)
  note app = do_wait_reaps [OF inv k(4), where i = 2 and t = "unat a" and kernel_pgd = "0x80004000", unfolded k(1,2,3) z]
  have zc: "is_zombie_child 1 (sc ?k) 2" "\<forall>j<2. \<not> is_zombie_child 1 (sc ?k) j"
    using k(1-3) z by (auto simp: is_zombie_child_def tasks_array_get_def MAX_TASKS_def less_2_cases_iff demo_task_def)
  show ?thesis using app zc cm \<open>POOL_PAGES \<le> page_index 0x80004000\<close> by (auto simp: demo_task_def MAX_TASKS_def)
qed

subsection \<open>Exit and kill\<close>

text \<open>Changing the states of tasks other than the idle task, to anything but running.\<close>

lemma sched_inv_states:
  assumes inv: "sched_inv s" and idle: "tasks s ! 0 = Some z"
    and m: "\<And>t. stack_base (m t) = stack_base (tmem s t) \<and> (tstate (m t) = RUNNING \<longrightarrow> tstate (tmem s t) = RUNNING)"
    and z: "tstate (m z) = READY \<or> tstate (m z) = RUNNING"
  shows "sched_inv (s\<lparr>tmem := m\<rparr>)"
proof -
  obtain p where p: "current_task s = Some p" using sched_inv_current [OF inv] by blast
  have base: "length (tasks s) = MAX_TASKS" "current_task_index s < MAX_TASKS" "slots_inj (tasks s)"
    "task_count s = of_nat (length (filter (\<lambda>p. p \<noteq> None) (tasks s)))" "tasks s ! current_task_index s = Some p"
    using inv p by (simp_all add: sched_inv_def)
  show ?thesis
  proof (rule sched_invI)
    fix i t assume it: "i < MAX_TASKS" "tasks (s\<lparr>tmem := m\<rparr>) ! i = Some t"
    then show "stk (s\<lparr>tmem := m\<rparr>) (stack_base (tmem (s\<lparr>tmem := m\<rparr>) t)) = STACK_CANARY_VALUE \<and>
        (tstate (tmem (s\<lparr>tmem := m\<rparr>) t) = RUNNING \<longrightarrow> current_task (s\<lparr>tmem := m\<rparr>) = Some t)"
      using sched_inv_tasks [OF inv it(1)] m by simp
  qed (use base p idle z in \<open>simp_all add: idle_ok_def\<close>)
qed

lemma two_tasks:
  assumes "sched_inv s" "i < MAX_TASKS" "i \<noteq> 0" "tasks s ! i \<noteq> None" "tasks s ! 0 \<noteq> None"
  shows "task_count s \<noteq> 1"
proof -
  have len: "length (tasks s) = MAX_TASKS" and cnt: "task_count s = of_nat (length (filter (\<lambda>p. p \<noteq> None) (tasks s)))"
    using assms(1) by (simp_all add: sched_inv_def)
  have "{0, i} \<subseteq> {j. j < length (tasks s) \<and> tasks s ! j \<noteq> None}" using assms(2,4,5) len by (auto simp: MAX_TASKS_def)
  then have "card {0, i} \<le> card {j. j < length (tasks s) \<and> tasks s ! j \<noteq> None}" by (intro card_mono) auto
  then have "2 \<le> length (filter (\<lambda>p. p \<noteq> None) (tasks s))" using assms(3) by (simp add: length_filter_conv_card)
  moreover have "length (filter (\<lambda>p. p \<noteq> None) (tasks s)) \<le> 5" using length_filter_le [of _ "tasks s"] len by (simp add: MAX_TASKS_def)
  ultimately have "unat (task_count s) \<noteq> 1" by (simp add: cnt unat_of_nat take_bit_nat_eq_self)
  then show ?thesis by auto
qed

text \<open>\<open>do_exit\<close> of a process other than the idle task, with every waiting parent on the queue once,
  ends: it stores the status, leaves the process a zombie that is never scheduled again, wakes every
  waiting parent, empties the queue and hands the CPU to another task; the scheduler stays
  consistent.\<close>

definition exit_task :: "nat \<Rightarrow> int \<Rightarrow> nat list \<Rightarrow> nat \<Rightarrow> (nat \<Rightarrow> task_struct) \<Rightarrow> nat \<Rightarrow> task_struct" where
  "exit_task me status ps nxt m t =
     (if t = me then (m t)\<lparr>t_exit_status := status, tstate := ZOMBIE\<rparr>
      else if t \<in> set ps then (m t)\<lparr>wait_next := None, tstate := (if t = nxt then RUNNING else READY)\<rparr>
      else if t = nxt then (m t)\<lparr>tstate := RUNNING\<rparr> else m t)"

lemma do_exit_correct:
  assumes "sched_inv (sc k)" "current_task (sc k) = Some me" "current_task_index (sc k) \<noteq> 0"
    and "waiters (parent_wq k) (sc k) ps" "me \<notin> set ps"
  shows "\<exists>k' nxt. do_exit status k = Some (Inr k') \<and> sched_inv (sc k') \<and> parent_wq k' = None \<and>
    current_task (sc k') = Some nxt \<and> nxt \<noteq> me \<and> (nxt \<in> set ps \<or> tstate (tmem (sc k) nxt) = READY) \<and>
    tmem (sc k') = exit_task me status ps nxt (tmem (sc k)) \<and> tasks (sc k') = tasks (sc k) \<and> stk (sc k') = stk (sc k) \<and>
    sl k' = sl k \<and> mm k' = mm k \<and> pmem k' = pmem k"
proof -
  let ?s = "sc k" and ?i = "current_task_index (sc k)"
  let ?s1 = "upd_task me (\<lambda>t. t\<lparr>t_exit_status := status, tstate := ZOMBIE\<rparr>) ?s"
  define m where "m t = (if t \<in> set ps then (tmem ?s1 t)\<lparr>wait_next := None, tstate := READY\<rparr> else tmem ?s1 t)" for t
  have cur: "tasks ?s ! ?i = Some me" "?i < MAX_TASKS" and idle: "idle_ok ?s"
    using assms(1,2) by (simp_all add: sched_inv_def)
  obtain z where z: "tasks ?s ! 0 = Some z" "tstate (tmem ?s z) = READY \<or> tstate (tmem ?s z) = RUNNING"
    using idle by (auto simp: idle_ok_def split: option.splits)
  have zme: "z \<noteq> me" using sched_inv_inj [OF assms(1) _ cur(2) z(1)] cur(1) assms(3) by (auto simp: MAX_TASKS_def)
  have zr: "tstate (tmem ?s z) = READY"
    using z zme sched_inv_tasks(2) [OF assms(1) _ z(1)] assms(2) by (auto simp: MAX_TASKS_def)
  have "waiters (parent_wq k) ?s1 ps"
    using assms(4) by (auto simp: waiters_def upd_task_def elim!: chain_cong [THEN iffD1, rotated])
  then have wk: "wake_all (parent_wq k) ?s1 = Some (?s\<lparr>tmem := m\<rparr>)"
    using wake_all_waiters [of "parent_wq k" ?s1 ps] by (simp add: m_def [abs_def] upd_task_def)
  let ?s2 = "?s\<lparr>tmem := m, need_reschedule := True\<rparr>"
  have mz: "tstate (m z) = READY" using zr zme by (simp add: m_def upd_task_def)
  have "sched_inv (?s\<lparr>tmem := m\<rparr>)"
    by (rule sched_inv_states [OF assms(1) z(1)]) (use mz in \<open>auto simp: m_def upd_task_def\<close>)
  then have inv2: "sched_inv ?s2" using need_False_inv [of True "?s\<lparr>tmem := m\<rparr>"] by simp
  have rz: "ready_slot ?s2 0" using z(1) mz by (simp add: ready_slot_def)
  have "(?i + (MAX_TASKS - ?i)) mod MAX_TASKS = 0" "1 \<le> MAX_TASKS - ?i" using cur(2) by auto
  then obtain d where d: "1 \<le> d" "d \<le> MAX_TASKS - ?i" "ready_slot ?s2 ((?i + d) mod MAX_TASKS)"
    and first: "\<And>e. 1 \<le> e \<Longrightarrow> e < d \<Longrightarrow> \<not> ready_slot ?s2 ((?i + e) mod MAX_TASKS)"
    using first_ready [of "MAX_TASKS - ?i" ?s2 ?i] rz by metis
  have dm: "d < MAX_TASKS" using d(2) assms(3) cur(2) by simp
  have cnt: "task_count ?s2 \<noteq> 1" using two_tasks [OF assms(1) cur(2) assms(3)] cur(1) z(1) by simp
  obtain nxt where nxt: "tasks ?s ! ((?i + d) mod MAX_TASKS) = Some nxt"
    "scheduler_yield ?s2 = Inr (switch_to me nxt ((?i + d) mod MAX_TASKS) (?s2\<lparr>need_reschedule := False\<rparr>))"
    using yield_switches [OF inv2 _ cnt d(1) dm _ _, of me] d(3) first assms(2) by auto
  have "(?i + d) mod MAX_TASKS \<noteq> ?i" using d(1) dm cur(2) by (simp add: MAX_TASKS_def) presburger
  then have ne: "nxt \<noteq> me" using sched_inv_inj [OF assms(1) _ cur(2) nxt(1)] cur(1) by (auto simp: MAX_TASKS_def)
  define s3 where "s3 = switch_to me nxt ((?i + d) mod MAX_TASKS) (?s2\<lparr>need_reschedule := False\<rparr>)"
  have "sched_inv (?s2\<lparr>need_reschedule := False\<rparr>)" using inv2 by (simp only: need_False_inv)
  then have inv3: "sched_inv s3" unfolding s3_def
    by (rule sched_inv_switch) (use assms(2) nxt(1) in \<open>simp_all add: MAX_TASKS_def\<close>)
  have tm: "tmem s3 t = (if t = nxt then (m t)\<lparr>tstate := RUNNING\<rparr>
      else if t = me \<and> tstate (m t) = RUNNING then (m t)\<lparr>tstate := READY\<rparr> else m t)" for t
    by (auto simp: s3_def switch_to_tmem)
  have mme: "m me = (tmem ?s me)\<lparr>t_exit_status := status, tstate := ZOMBIE\<rparr>" using assms(5) by (simp add: m_def upd_task_def)
  let ?k = "k\<lparr>sc := s3, parent_wq := None\<rparr>"
  have "do_exit status k = Some (Inr ?k)"
    using wk nxt(2) by (simp add: do_exit_def scheduler_current_task_def assms(2) Let_def s3_def)
  moreover have "current_task s3 = Some nxt" by (simp add: s3_def)
  moreover have "tmem s3 = exit_task me status ps nxt (tmem ?s)"
    using ne assms(5) by (intro ext) (auto simp: tm mme exit_task_def m_def upd_task_def)
  moreover have "nxt \<in> set ps \<or> tstate (tmem ?s nxt) = READY"
    using d(3) nxt(1) ne by (auto simp: ready_slot_def m_def upd_task_def split: if_splits)
  moreover have "tasks s3 = tasks ?s" "stk s3 = stk ?s" by (simp_all add: s3_def switch_to_def upd_task_def)
  ultimately show ?thesis using inv3 ne by (intro exI [of _ ?k] exI [of _ nxt]) simp
qed

text \<open>\<open>do_kill_by_pid\<close> on a process that waits for a child: the victim is marked a zombie, but it is
  itself on the queue of waiting parents that is then woken, so it is ready again and runs on.\<close>

lemma kill_waiting_task_resurrected:
  assumes "0 \<le> p" "p < int MAX_TASKS" "current_task (sc k) = Some me" "t_pid (tmem (sc k) me) \<noteq> p"
    and "tasks (sc k) ! nat p = Some t" "t_ppid (tmem (sc k) t) \<ge> 0" "tstate (tmem (sc k) t) = BLOCKED"
    and "waiters (parent_wq k) (sc k) ps" "t \<in> set ps"
  shows "\<exists>k'. do_kill_by_pid p status k = Some (0, k') \<and> tstate (tmem (sc k') t) = READY"
proof -
  let ?s1 = "upd_task t (\<lambda>x. x\<lparr>t_exit_status := status, tstate := ZOMBIE\<rparr>) (sc k)"
  have "waiters (parent_wq k) ?s1 ps"
    using assms(8) by (auto simp: waiters_def upd_task_def elim!: chain_cong [THEN iffD1, rotated])
  from wake_all_waiters [OF this] show ?thesis using assms
    by (auto simp: do_kill_by_pid_def scheduler_current_task_def tasks_array_get_def nat_less_iff)
qed

end
