(* ===== verification/Exec.thy ===== *)
theory Exec
  imports Vfs_Props Process
begin

section \<open>Program loading (\<open>kernel/src/kernel/proc/exec.c\<close>)\<close>

text \<open>
  \<open>do_exec\<close>: the ELF loader with the hand-over of the arguments.  \<open>umem\<close> is the memory of the current
  task as the kernel sees it through the task's page table, from addresses to bytes; a C string in
  that memory is read again each time the code looks at it, since the loader overwrites it.  Only the
  megabyte from \<open>USER_SPACE_VA\<close> on is mapped: a load outside of it does not return a value and is the
  fault \<open>OutOfBounds\<close>, as is a store behind the end of one of the kernel's own arrays.

  A kernel buffer that is filled from the front is the list of the bytes stored so far.
\<close>

subsection \<open>User memory\<close>

type_synonym umem = "u32 \<Rightarrow> u8"

definition ustore :: "u32 \<Rightarrow> u8 list \<Rightarrow> umem \<Rightarrow> umem" where
  "ustore va bs um = (\<lambda>x. let k = unat (x - va) in if k < length bs then bs ! k else um x)"

definition uload32 :: "umem \<Rightarrow> u32 \<Rightarrow> u32" where
  "uload32 um va = rd32 [um va, um (va + 1), um (va + 2), um (va + 3)] 0"

definition USER_END :: u32 where [vx_consts]: "USER_END = USER_SPACE_VA + USER_SPACE_BYTES"

definition in_user_space :: "u32 \<Rightarrow> u32 \<Rightarrow> bool" where
  "in_user_space addr len =
     (let end = addr + len in \<not> end < addr \<and> addr \<ge> USER_SPACE_VA \<and> end \<le> USER_END)"

text \<open>A string at \<open>p\<close>: at most \<open>n\<close> more bytes are mapped.\<close>

fun ustr :: "umem \<Rightarrow> u32 \<Rightarrow> nat \<Rightarrow> cstring option" where
  "ustr um p 0 = None"
| "ustr um p (Suc n) = (if um p = 0 then Some [] else map_option (Cons (um p)) (ustr um (p + 1) n))"

definition user_string :: "umem \<Rightarrow> u32 \<Rightarrow> fault + cstring" where
  "user_string um p =
     (if \<not> in_user_space p 1 then Inl OutOfBounds
      else case ustr um p (unat (USER_END - p)) of None \<Rightarrow> Inl OutOfBounds | Some s \<Rightarrow> Inr s)"

subsection \<open>ELF headers\<close>

definition EXEC_READ_CHUNK :: u32 where [vx_consts]: "EXEC_READ_CHUNK = 128"
definition ET_EXEC :: u16 where [vx_consts]: "ET_EXEC = 2"
definition EM_ARM :: u16 where [vx_consts]: "EM_ARM = 40"
definition EV_CURRENT :: u32 where [vx_consts]: "EV_CURRENT = 1"
definition PT_LOAD :: u32 where [vx_consts]: "PT_LOAD = 1"

record elf32_ehdr =
  e_ident :: "u8 list"
  e_type :: u16
  e_machine :: u16
  e_version :: u32
  e_entry :: u32
  e_phoff :: u32
  e_phentsize :: u16
  e_phnum :: u16

record elf32_phdr =
  p_type :: u32
  p_offset :: u32
  p_vaddr :: u32
  p_filesz :: u32
  p_memsz :: u32

definition ehdr_of :: "u8 list \<Rightarrow> elf32_ehdr" where
  "ehdr_of b = \<lparr>e_ident = take 16 b, e_type = rd16 b 16, e_machine = rd16 b 18, e_version = rd32 b 20,
     e_entry = rd32 b 24, e_phoff = rd32 b 28, e_phentsize = rd16 b 42, e_phnum = rd16 b 44\<rparr>"

definition phdr_of :: "u8 list \<Rightarrow> elf32_phdr" where
  "phdr_of b = \<lparr>p_type = rd32 b 0, p_offset = rd32 b 4, p_vaddr = rd32 b 8, p_filesz = rd32 b 16, p_memsz = rd32 b 20\<rparr>"

definition validate_header :: "elf32_ehdr \<Rightarrow> int" where
  "validate_header h =
     (if take 4 (e_ident h) \<noteq> [0x7F, 0x45, 0x4C, 0x46] then E_ARG
      else if e_ident h ! 4 \<noteq> 1 \<or> e_ident h ! 5 \<noteq> 1 then E_ARG
      else if e_type h \<noteq> ET_EXEC \<or> e_machine h \<noteq> EM_ARM \<or> e_version h \<noteq> EV_CURRENT then E_ARG
      else if e_phentsize h \<noteq> 32 \<or> e_phnum h = 0 then E_ARG
      else if e_phoff h \<noteq> 52 then E_ARG
      else if \<not> in_user_space (e_entry h) 4 then E_PTR
      else E_OK)"

subsection \<open>Reading from the file\<close>

partial_function (option) read_exact :: "('u, 'w) ops_mem \<Rightarrow> int \<Rightarrow> u32 \<Rightarrow> u32 \<Rightarrow> u8 list \<Rightarrow> ('u, 'w) sys \<Rightarrow>
    (int \<times> u8 list \<times> ('u, 'w) sys) res" where
  "read_exact Ops fd got len buf s =
     (if got < len then
        (case vfs_read Ops fd (len - got) s of
           None \<Rightarrow> None
         | Some r \<Rightarrow> (case r of
             Inl e \<Rightarrow> Some (Inl e)
           | Inr (n, bytes, s') \<Rightarrow>
               if n \<le> 0 then Some (Inr (E_FAIL, buf @ bytes, s'))
               else read_exact Ops fd (got + of_int n) len (buf @ bytes) s'))
      else Some (Inr (E_OK, buf, s)))"

partial_function (option) skip_bytes :: "('u, 'w) ops_mem \<Rightarrow> int \<Rightarrow> u32 \<Rightarrow> ('u, 'w) sys \<Rightarrow> (int \<times> ('u, 'w) sys) res" where
  "skip_bytes Ops fd left s =
     (if left > 0 then
        (case vfs_read Ops fd (if left > EXEC_READ_CHUNK then EXEC_READ_CHUNK else left) s of
           None \<Rightarrow> None
         | Some r \<Rightarrow> (case r of
             Inl e \<Rightarrow> Some (Inl e)
           | Inr (n, bytes, s') \<Rightarrow>
               if n \<le> 0 then Some (Inr (E_FAIL, s')) else skip_bytes Ops fd (left - of_int n) s'))
      else Some (Inr (E_OK, s)))"

subsection \<open>Arguments\<close>

definition USER_ARGV_MAX :: nat where [vx_consts]: "USER_ARGV_MAX = 16"
definition USER_ARGV_AREA_VA :: u32 where [vx_consts]: "USER_ARGV_AREA_VA = USER_END - 512"
definition USER_ARGV_STRS_SZ :: nat where [vx_consts]: "USER_ARGV_STRS_SZ = 448"

text \<open>One argument string into \<open>kbuf\<close>; \<open>Inr (Inl e)\<close> is an early return with the code \<open>e\<close>.  The
  loop condition loads the byte before the check of its address.\<close>

function copy_arg :: "umem \<Rightarrow> u32 \<Rightarrow> u8 list \<Rightarrow> fault + int + u8 list" where
  "copy_arg um s kbuf =
     (if \<not> in_user_space s 1 then Inl OutOfBounds
      else if um s = 0 then
        (if length kbuf \<ge> USER_ARGV_STRS_SZ then Inl OutOfBounds else Inr (Inr (kbuf @ [0])))
      else if length kbuf + 1 \<ge> USER_ARGV_STRS_SZ then Inr (Inl E_ARG)
      else copy_arg um (s + 1) (kbuf @ [um s]))"
  by auto
termination
  by (relation "measure (\<lambda>(um, s, kbuf). USER_ARGV_STRS_SZ - length kbuf)") auto

declare copy_arg.simps [simp del]

text \<open>\<open>n\<close> entries of the array are left.  The result is the buffer and the offsets.\<close>

fun snapshot_loop :: "umem \<Rightarrow> u32 \<Rightarrow> nat \<Rightarrow> nat \<Rightarrow> u8 list \<Rightarrow> u16 list \<Rightarrow> fault + int + u8 list \<times> u16 list" where
  "snapshot_loop um argv argc 0 kbuf offs = Inr (Inr (kbuf, offs))"
| "snapshot_loop um argv argc (Suc n) kbuf offs =
     (let s = uload32 um (argv + 4 * of_nat argc) in
      if s = 0 then Inr (Inr (kbuf, offs))
      else if \<not> in_user_space s 1 then Inr (Inl E_PTR)
      else fbind (copy_arg um s kbuf) (\<lambda>r. case r of
          Inl e \<Rightarrow> Inr (Inl e)
        | Inr kbuf' \<Rightarrow> snapshot_loop um argv (Suc argc) n kbuf' (offs @ [of_nat (length kbuf)])))"

definition snapshot_argv :: "umem \<Rightarrow> u32 \<Rightarrow> fault + int + u8 list \<times> u16 list" where
  "snapshot_argv um argv =
     (if argv = 0 then Inr (Inr ([], []))
      else if \<not> in_user_space argv (4 * of_nat USER_ARGV_MAX) then Inr (Inl E_PTR)
      else snapshot_loop um argv 0 USER_ARGV_MAX [] [])"

definition snap_end :: "u8 list \<Rightarrow> u16 list \<Rightarrow> nat" where
  "snap_end kbuf offs = fold (\<lambda>off pos. unat off + length (takeWhile (\<lambda>c. c \<noteq> 0) (drop (unat off) kbuf)) + 1) offs 0"

definition set_r :: "nat \<Rightarrow> u32 \<Rightarrow> svc_context \<Rightarrow> svc_context" where
  "set_r i v c = c\<lparr>sv_r := (sv_r c)(i := v)\<rparr>"

definition install_argv :: "u8 list \<Rightarrow> u16 list \<Rightarrow> nat \<Rightarrow> svc_context \<Rightarrow> umem \<Rightarrow> svc_context \<times> umem" where
  "install_argv kbuf offs snap_pos ctx um =
     (let argc = length offs in
      if argc = 0 then (set_r 1 0 (set_r 0 0 ctx), um)
      else let strs = USER_ARGV_AREA_VA + 4 * of_nat USER_ARGV_MAX;
               um1 = ustore strs (take snap_pos kbuf) um;
               um2 = ustore USER_ARGV_AREA_VA (concat (map (\<lambda>off. le32 (strs + ucast off)) offs)) um1;
               um3 = ustore (USER_ARGV_AREA_VA + 4 * of_nat argc) (le32 0) um2
        in (set_r 1 USER_ARGV_AREA_VA (set_r 0 (of_nat argc) ctx), um3))"

subsection \<open>Loading\<close>

text \<open>One \<open>PT_LOAD\<close> segment; the path is a pointer into the memory that is being overwritten.\<close>

definition load_segment :: "('u, 'w) ops_mem \<Rightarrow> u32 \<Rightarrow> elf32_phdr \<Rightarrow> umem \<Rightarrow> ('u, 'w) sys \<Rightarrow> (int \<times> umem \<times> ('u, 'w) sys) res" where
  "load_segment Ops path ph um s0 =
     (case user_string um path of
        Inl e \<Rightarrow> Some (Inl e)
      | Inr name \<Rightarrow>
          rbind (vfs_open Ops name O_RDONLY s0) (\<lambda>(seg, s1).
            if seg < 0 then ret (seg, um, s1)
            else rbind (skip_bytes Ops seg (p_offset ph) s1) (\<lambda>(rc, s2).
              if rc \<noteq> E_OK then ret (E_FAIL, um, snd (vfs_close seg s2))
              else rbind (read_exact Ops seg 0 (p_filesz ph) [] s2) (\<lambda>(rc, bytes, s3).
                let um1 = ustore (p_vaddr ph) bytes um; s4 = snd (vfs_close seg s3) in
                if rc \<noteq> E_OK then ret (E_FAIL, um1, s4)
                else ret (E_OK,
                  if p_memsz ph > p_filesz ph
                  then ustore (p_vaddr ph + p_filesz ph) (replicate (unat (p_memsz ph - p_filesz ph)) 0) um1 else um1, s4)))))"

fun load_segments :: "('u, 'w) ops_mem \<Rightarrow> u32 \<Rightarrow> int \<Rightarrow> nat \<Rightarrow> umem \<Rightarrow> ('u, 'w) sys \<Rightarrow> (int \<times> umem \<times> ('u, 'w) sys) res" where
  "load_segments Ops path fd 0 um s = ret (E_OK, um, s)"
| "load_segments Ops path fd (Suc n) um s0 =
     rbind (read_exact Ops fd 0 32 [] s0) (\<lambda>(rc, b, s1).
       if rc \<noteq> E_OK then ret (E_FAIL, um, s1)
       else let ph = phdr_of b in
         if p_type ph \<noteq> PT_LOAD then load_segments Ops path fd n um s1
         else if p_filesz ph > p_memsz ph then ret (E_ARG, um, s1)
         else if \<not> in_user_space (p_vaddr ph) (p_memsz ph) then ret (E_PTR, um, s1)
         else rbind (load_segment Ops path ph um s1) (\<lambda>(rc, um', s2).
           if rc \<noteq> E_OK then ret (rc, um', s2) else load_segments Ops path fd n um' s2))"

text \<open>From \<open>vfs_open\<close> on: the entry point is the second result.  On every way out the file is
  closed.\<close>

definition load_program :: "('u, 'w) ops_mem \<Rightarrow> u32 \<Rightarrow> umem \<Rightarrow> ('u, 'w) sys \<Rightarrow> (int \<times> u32 \<times> umem \<times> ('u, 'w) sys) res" where
  "load_program Ops path um s0 =
     (case user_string um path of
        Inl e \<Rightarrow> Some (Inl e)
      | Inr name \<Rightarrow>
          rbind (vfs_open Ops name O_RDONLY s0) (\<lambda>(fd, s1).
            if fd < 0 then ret (fd, 0, um, s1)
            else rbind (read_exact Ops fd 0 52 [] s1) (\<lambda>(rc, b, s2).
              if rc \<noteq> E_OK then ret (E_FAIL, 0, um, snd (vfs_close fd s2))
              else let ehdr = ehdr_of b; ok = validate_header ehdr in
                if ok \<noteq> E_OK then ret (ok, 0, um, snd (vfs_close fd s2))
                else rbind (load_segments Ops path fd (unat (e_phnum ehdr)) um s2) (\<lambda>(rc, um', s3).
                  ret (rc, e_entry ehdr, um', snd (vfs_close fd s3))))))"

definition do_exec :: "('u, 'w) ops_mem \<Rightarrow> u32 \<Rightarrow> svc_context \<Rightarrow> u32 \<Rightarrow> umem \<Rightarrow> ('u, 'w) sys \<Rightarrow>
    (int \<times> svc_context \<times> umem \<times> ('u, 'w) sys) res" where
  "do_exec Ops path ctx argv um s =
     (case snapshot_argv um argv of
        Inl e \<Rightarrow> Some (Inl e)
      | Inr (Inl e) \<Rightarrow> ret (e, ctx, um, s)
      | Inr (Inr (kbuf, offs)) \<Rightarrow>
          rbind (load_program Ops path um s) (\<lambda>(rc, entry, um1, s1).
            if rc \<noteq> E_OK then ret (rc, ctx, um1, s1)
            else case install_argv kbuf offs (snap_end kbuf offs) ctx um1 of (ctx1, um2) \<Rightarrow>
              ret (E_OK, (set_r 3 0 (set_r 2 0 ctx1))\<lparr>sv_lr := entry\<rparr>, um2, s1)))"

subsection \<open>Stores into user memory\<close>

definition confined :: "umem \<Rightarrow> umem \<Rightarrow> bool" where
  "confined um um' \<longleftrightarrow> (\<forall>x. um' x \<noteq> um x \<longrightarrow> USER_SPACE_VA \<le> x \<and> x < USER_END)"

lemma confined_refl [simp]: "confined um um"
  by (simp add: confined_def)

lemma confined_trans: "confined a b \<Longrightarrow> confined b c \<Longrightarrow> confined a c"
  unfolding confined_def by metis

lemma in_user_space_unat:
  "in_user_space a n \<longleftrightarrow> 0x40000000 \<le> unat a \<and> unat a + unat n \<le> 0x40100000"
proof -
  have c: "unat USER_SPACE_VA = 0x40000000" "unat USER_END = 0x40100000"
    by (simp_all add: USER_SPACE_VA_def USER_END_def USER_SPACE_BYTES_def)
  show ?thesis
  proof (cases "unat a + unat n < 2 ^ 32")
    case True
    then have "unat (a + n) = unat a + unat n" by (simp add: unat_word_ariths)
    then show ?thesis by (auto simp: in_user_space_def Let_def word_le_nat_alt word_less_nat_alt c)
  next
    case False
    have "unat (a + n) = (unat a + unat n) mod 2 ^ 32" by (simp add: unat_word_ariths)
    also have "\<dots> = unat a + unat n - 2 ^ 32"
    proof -
      have "unat a < 2 ^ 32" "unat n < 2 ^ 32" using unsigned_less [of a] unsigned_less [of n] by simp_all
      then have "unat a + unat n - 2 ^ 32 < 2 ^ 32" by simp
      then show ?thesis using False by (simp add: mod_if [of "unat a + unat n"])
    qed
    finally have "unat (a + n) = unat a + unat n - 2 ^ 32" .
    moreover have "unat n < 2 ^ 32" using unsigned_less [of n] by simp
    ultimately have "unat (a + n) < unat a" using False by linarith
    then show ?thesis using False by (auto simp: in_user_space_def Let_def word_less_nat_alt)
  qed
qed

lemma ustore_confined:
  assumes "in_user_space va n" "length bs \<le> unat n"
  shows "confined um (ustore va bs um)"
  unfolding confined_def
proof (intro allI impI)
  fix x assume "ustore va bs um x \<noteq> um x"
  then have k: "unat (x - va) < length bs" by (auto simp: ustore_def Let_def split: if_splits)
  have b: "0x40000000 \<le> unat va" "unat va + length bs \<le> 0x40100000" using assms by (auto simp: in_user_space_unat)
  have "x = va + (x - va)" by simp
  then have "unat x = unat va + unat (x - va)" using k b by (subst \<open>x = va + (x - va)\<close>, subst unat_word_ariths) simp
  then show "USER_SPACE_VA \<le> x \<and> x < USER_END"
    using k b by (simp add: word_le_nat_alt word_less_nat_alt USER_SPACE_VA_def USER_END_def USER_SPACE_BYTES_def)
qed

subsection \<open>Descriptors\<close>

text \<open>Outside of \<open>X\<close>, the same descriptors are open and are the same.\<close>

definition same_fd :: "vfs_fd \<Rightarrow> vfs_fd \<Rightarrow> bool" where
  "same_fd a b \<longleftrightarrow> fd_in_use a = fd_in_use b \<and> (fd_in_use a \<longrightarrow> a = b)"

definition fds_except :: "nat set \<Rightarrow> ('u, 'w) sys \<Rightarrow> ('u, 'w) sys \<Rightarrow> bool" where
  "fds_except X s s' \<longleftrightarrow> length (current_fds s') = length (current_fds s) \<and> mount_table s' = mount_table s \<and>
     (\<forall>i < length (current_fds s). i \<notin> X \<longrightarrow> same_fd (current_fds s ! i) (current_fds s' ! i))"

lemma same_fd_refl [simp]: "same_fd a a"
  by (simp add: same_fd_def)

lemma fds_except_refl [simp]: "fds_except X s s"
  by (simp add: fds_except_def)

lemma same_fd_trans: "same_fd a b \<Longrightarrow> same_fd b c \<Longrightarrow> same_fd a c"
  unfolding same_fd_def by argo

lemma fds_except_trans: "fds_except X s t \<Longrightarrow> fds_except X t u \<Longrightarrow> fds_except X s u"
  unfolding fds_except_def by (metis same_fd_trans)

lemma fds_except_mono: "fds_except X s t \<Longrightarrow> X \<subseteq> Y \<Longrightarrow> fds_except Y s t"
  by (auto simp: fds_except_def)

lemma fds_except_len: "fds_except X s s' \<Longrightarrow> length (current_fds s') = length (current_fds s)"
  by (simp add: fds_except_def)

lemma vfs_read_frame:
  assumes "vfs_read (vinix_ops B D sizes) fd len s = ret (n, bytes, s')"
  shows "fds_except {nat fd} s s'" "length bytes \<le> unat len" "n > 0 \<Longrightarrow> n = int_cast (length bytes)"
proof -
  have "fds_except {nat fd} s s' \<and> length bytes \<le> unat len \<and> (n > 0 \<longrightarrow> n = int_cast (length bytes))"
  proof (cases "bad_fd fd s \<or> fd_ops (current_fds s ! nat fd) = None \<or>
      vo_read (vinix_ops B D sizes (the (fd_ops (current_fds s ! nat fd)))) = None")
    case True
    then consider "bad_fd fd s" | "\<not> bad_fd fd s" "fd_ops (current_fds s ! nat fd) = None"
      | p where "\<not> bad_fd fd s" "fd_ops (current_fds s ! nat fd) = Some p" "vo_read (vinix_ops B D sizes p) = None"
      by (cases "fd_ops (current_fds s ! nat fd)") auto
    then have "n \<le> 0 \<and> bytes = [] \<and> s' = s" using assms by cases (auto simp: vfs_read_def Let_def)
    then show ?thesis by simp
  next
    case False
    then obtain p rd where p: "fd_ops (current_fds s ! nat fd) = Some p" "vo_read (vinix_ops B D sizes p) = Some rd" by auto
    obtain t where t: "rd (sint (fd_file_index (current_fds s ! nat fd))) (fd_offset (current_fds s ! nat fd)) len s = ret (n, bytes, t)"
      "s' = advance fd n t"
    proof -
      have "rbind (rd (sint (fd_file_index (current_fds s ! nat fd))) (fd_offset (current_fds s ! nat fd)) len s)
          (\<lambda>(n, bytes, s'). ret (n, bytes, advance fd n s')) = ret (n, bytes, s')"
        using assms False p by (simp add: vfs_read_def Let_def)
      then show thesis using that by (auto elim!: rbind_InrE)
    qed
    have "current_fds t = current_fds s \<and> mount_table t = mount_table s"
      using vinix.reading [OF p(2) t(1)] same_tables_fds by (auto simp: same_tables_def)
    then have "fds_except {nat fd} s s'" by (auto simp: t(2) advance_def fds_except_def)
    then show ?thesis using vinix.amount [OF p(2) t(1)] by simp
  qed
  then show "fds_except {nat fd} s s'" "length bytes \<le> unat len" "n > 0 \<Longrightarrow> n = int_cast (length bytes)" by simp_all
qed

lemma vfs_open_frame:
  assumes "vfs_open (vinix_ops B D sizes) path flags s = ret (fd, s')" "length (current_fds s) = MAX_FDS"
  shows "fd < 0 \<Longrightarrow> fds_except {} s s'"
    and "0 \<le> fd \<Longrightarrow> fds_except {nat fd} s s' \<and> fd < int MAX_FDS \<and> \<not> fd_in_use (current_fds s ! nat fd)"
proof -
  have eff: "mount_table s' = mount_table s \<and> (fd < 0 \<and> current_fds s' = current_fds s \<or>
     (\<exists>k e. fd = int k \<and> k < MAX_FDS \<and> \<not> fd_in_use (current_fds s ! k) \<and> current_fds s' = (current_fds s)[k := e]))"
    using vfs_open_effect [OF assms] by blast
  show "fd < 0 \<Longrightarrow> fds_except {} s s'" using eff by (auto simp: fds_except_def)
  assume "0 \<le> fd"
  then obtain k e where "fd = int k" "k < MAX_FDS" "\<not> fd_in_use (current_fds s ! k)" "current_fds s' = (current_fds s)[k := e]"
    "mount_table s' = mount_table s" using eff by auto
  then show "fds_except {nat fd} s s' \<and> fd < int MAX_FDS \<and> \<not> fd_in_use (current_fds s ! nat fd)"
    by (simp add: fds_except_def)
qed

lemma vfs_close_frame:
  assumes "fds_except (insert (nat fd) X) s s'" "0 \<le> fd" "fd < int MAX_FDS" "length (current_fds s) = MAX_FDS"
    "\<not> fd_in_use (current_fds s ! nat fd)"
  shows "fds_except X s (snd (vfs_close fd s'))"
proof -
  let ?s = "snd (vfs_close fd s')"
  have fd: "nat fd < length (current_fds s')" "length (current_fds s') = length (current_fds s)"
    using assms(1-4) by (auto simp: fds_except_def)
  have c: "\<not> fd_in_use (current_fds ?s ! nat fd)" "length (current_fds ?s) = length (current_fds s)" "mount_table ?s = mount_table s'"
    "i \<noteq> nat fd \<Longrightarrow> current_fds ?s ! i = current_fds s' ! i" for i
    using fd assms(2,3) by (auto simp: vfs_close_def bad_fd_def free_fd_def)
  have "same_fd (current_fds s ! i) (current_fds ?s ! i)" if "i < length (current_fds s)" "i \<notin> X" for i
  proof (cases "i = nat fd")
    case True
    then show ?thesis using c(1) assms(5) by (simp add: same_fd_def)
  next
    case False
    then have "same_fd (current_fds s ! i) (current_fds s' ! i)" using assms(1) that by (simp add: fds_except_def)
    then show ?thesis using c(4) [OF False] by simp
  qed
  then show ?thesis using c(2,3) assms(1) by (simp add: fds_except_def)
qed

lemma u32_less: "unat (x :: u32) < 4294967296"
  using unsigned_less [of x] by simp

lemma of_int_int_cast: "of_int (int_cast n) = (of_nat n :: u32)"
  by (simp add: int_cast_def)

lemma read_exact_frame:
  fixes s :: "('u, 'w) sys"
  assumes "read_exact (vinix_ops B D sizes) fd got len buf s = ret (rc, buf', s')"
    "got = of_nat (length buf)" "length buf \<le> unat len"
  shows "fds_except {nat fd} s s' \<and> length buf' \<le> unat len \<and> (rc = 0 \<longrightarrow> length buf' = unat len)"
proof -
  let ?P = "\<lambda>Ops fd got len buf (s :: ('u, 'w) sys) (y :: fault + int \<times> u8 list \<times> ('u, 'w) sys). Ops = vinix_ops B D sizes \<longrightarrow> got = of_nat (length buf) \<longrightarrow> length buf \<le> unat len \<longrightarrow>
     (case y of Inl e \<Rightarrow> True | Inr (rc, buf', s') \<Rightarrow>
       fds_except {nat fd} s s' \<and> length buf' \<le> unat len \<and> (rc = 0 \<longrightarrow> length buf' = unat len))"
  have "?P (vinix_ops B D sizes) fd got len buf s (Inr (rc, buf', s'))"
  proof (rule read_exact.raw_induct [OF _ assms(1), where P = ?P], goal_cases)
    case (1 f Ops fd got len buf s y)
    show ?case
    proof (intro impI, goal_cases)
      case ops: 1
      have l: "unat got = length buf" using ops(2,3) u32_less [of len] by (simp add: unat_of_nat take_bit_nat_eq_self)
      show ?case
      proof (cases "got < len")
        case False
        then have "y = Inr (E_OK, buf, s)" using 1(2) by simp
        then show ?thesis using ops l False by (auto simp: word_less_nat_alt)
      next
        case True
        then have d: "unat (len - got) = unat len - length buf" using l by (simp add: unat_sub word_le_nat_alt word_less_nat_alt)
        obtain r where r: "vfs_read Ops fd (len - got) s = Some r" using 1(2) True by (auto split: option.splits)
        show ?thesis
        proof (cases r)
          case (Inl e)
          then show ?thesis using 1(2) True r by auto
        next
          case (Inr t)
          obtain n bytes s1 where t: "t = (n, bytes, s1)" by (metis prod_cases3)
          note fr = vfs_read_frame [OF r [unfolded Inr t ops(1)]]
          have bl: "length (buf @ bytes) \<le> unat len" using fr(2) d ops(3) by simp
          show ?thesis
          proof (cases "n \<le> 0")
            case True
            then have "y = Inr (E_FAIL, buf @ bytes, s1)" using 1(2) \<open>got < len\<close> r Inr t by simp
            then show ?thesis using fr(1) bl by simp
          next
            case False
            then have "f Ops fd (got + of_int n) len (buf @ bytes) s1 = Some y" using 1(2) \<open>got < len\<close> r Inr t by simp
            moreover have "got + of_int n = of_nat (length (buf @ bytes))"
              using False fr(3) ops(2) of_int_int_cast [of "length bytes"] by simp
            ultimately show ?thesis using 1(1) [of Ops fd "got + of_int n" len "buf @ bytes" s1 y] ops(1) bl fds_except_trans [OF fr(1)]
              by (auto split: sum.splits prod.splits)
          qed
        qed
      qed
    qed
  qed
  then show ?thesis using assms(2,3) by simp
qed

lemma skip_bytes_frame:
  fixes s :: "('u, 'w) sys"
  assumes "skip_bytes (vinix_ops B D sizes) fd left s = ret (rc, s')"
  shows "fds_except {nat fd} s s'"
proof -
  let ?P = "\<lambda>Ops fd left (s :: ('u, 'w) sys) (y :: fault + int \<times> ('u, 'w) sys). Ops = vinix_ops B D sizes \<longrightarrow> (case y of Inl e \<Rightarrow> True | Inr (rc, s') \<Rightarrow> fds_except {nat fd} s s')"
  have "?P (vinix_ops B D sizes) fd left s (Inr (rc, s'))"
  proof (rule skip_bytes.raw_induct [OF _ assms(1), where P = ?P], goal_cases)
    case (1 f Ops fd left s y)
    show ?case
    proof (intro impI)
      assume ops: "Ops = vinix_ops B D sizes"
      let ?c = "if left > EXEC_READ_CHUNK then EXEC_READ_CHUNK else left"
      show "case y of Inl e \<Rightarrow> True | Inr (rc, s') \<Rightarrow> fds_except {nat fd} s s'"
      proof (cases "left > 0 \<and> (\<exists>n bytes s1. vfs_read Ops fd ?c s = ret (n, bytes, s1))")
        case False
        then show ?thesis using 1(2) by (auto split: if_splits option.splits sum.splits)
      next
        case True
        then obtain n bytes s1 where r: "vfs_read Ops fd ?c s = ret (n, bytes, s1)" by blast
        note fr = vfs_read_frame(1) [OF r [unfolded ops]]
        show ?thesis
        proof (cases "n \<le> 0")
          case True
          then have "y = Inr (E_FAIL, s1)" using 1(2) \<open>left > 0 \<and> _\<close> r by simp
          then show ?thesis using fr by simp
        next
          case False
          then have "f Ops fd (left - of_int n) s1 = Some y" using 1(2) \<open>left > 0 \<and> _\<close> r by simp
          then show ?thesis using 1(1) [of Ops fd "left - of_int n" s1 y] ops fds_except_trans [OF fr]
            by (auto split: sum.splits prod.splits)
        qed
      qed
    qed
  qed
  then show ?thesis by simp
qed

subsection \<open>The loader\<close>

lemma load_segment_frame:
  assumes "load_segment (vinix_ops B D sizes) path ph um s = ret (rc, um', s')" "length (current_fds s) = MAX_FDS"
    "in_user_space (p_vaddr ph) (p_memsz ph)" "p_filesz ph \<le> p_memsz ph"
  shows "fds_except {} s s' \<and> confined um um'"
proof -
  obtain name where nm: "user_string um path = Inr name" using assms(1) by (auto simp: load_segment_def split: sum.splits)
  obtain seg s1 where o: "vfs_open (vinix_ops B D sizes) name O_RDONLY s = ret (seg, s1)"
    using assms(1) nm by (auto simp: load_segment_def elim!: rbind_InrE)
  note of = vfs_open_frame [OF o assms(2)]
  show ?thesis
  proof (cases "seg < 0")
    case True
    then have "um' = um" "s' = s1" using assms(1) nm o by (simp_all add: load_segment_def)
    then show ?thesis using of(1) True by simp
  next
    case False
    then have f: "fds_except {nat seg} s s1" "seg < int MAX_FDS" "\<not> fd_in_use (current_fds s ! nat seg)" using of(2) by auto
    obtain rc1 s2 where k: "skip_bytes (vinix_ops B D sizes) seg (p_offset ph) s1 = ret (rc1, s2)"
      using assms(1) nm o False by (auto simp: load_segment_def elim!: rbind_InrE)
    have f2: "fds_except {nat seg} s s2" using fds_except_trans [OF f(1) skip_bytes_frame [OF k]] .
    have cl: "fds_except {} s (snd (vfs_close seg t))" if "fds_except {nat seg} s t" for t
      using vfs_close_frame [of seg "{}" s t] that f(2,3) False assms(2) by simp
    show ?thesis
    proof (cases "rc1 = E_OK")
      case bad: False
      then have "um' = um" "s' = snd (vfs_close seg s2)" using assms(1) nm o k False by (simp_all add: load_segment_def)
      then show ?thesis using cl [OF f2] by simp
    next
      case ok: True
      obtain rc2 bytes s3 where r: "read_exact (vinix_ops B D sizes) seg 0 (p_filesz ph) [] s2 = ret (rc2, bytes, s3)"
        using assms(1) nm o k False ok by (auto simp: load_segment_def elim!: rbind_InrE)
      have rf: "fds_except {nat seg} s2 s3" "length bytes \<le> unat (p_filesz ph)" using read_exact_frame [OF r] by auto
      have u: "um' = ustore (p_vaddr ph) bytes um \<or>
          um' = ustore (p_vaddr ph + p_filesz ph) (replicate (unat (p_memsz ph - p_filesz ph)) 0) (ustore (p_vaddr ph) bytes um)"
        "s' = snd (vfs_close seg s3)"
        using assms(1) nm o k False ok r by (auto simp: load_segment_def Let_def split: if_splits)
      have w: "0x40000000 \<le> unat (p_vaddr ph)" "unat (p_vaddr ph) + unat (p_memsz ph) \<le> 0x40100000" "unat (p_filesz ph) \<le> unat (p_memsz ph)"
        using assms(3,4) by (auto simp: in_user_space_unat word_le_nat_alt)
      have c1: "confined um (ustore (p_vaddr ph) bytes um)" by (rule ustore_confined [OF assms(3)]) (use rf(2) w in simp)
      have "unat (p_vaddr ph + p_filesz ph) = unat (p_vaddr ph) + unat (p_filesz ph)" using w by (simp add: unat_word_ariths)
      then have "in_user_space (p_vaddr ph + p_filesz ph) (p_memsz ph - p_filesz ph)"
        using w assms(4) by (simp add: in_user_space_unat unat_sub)
      then have "confined v (ustore (p_vaddr ph + p_filesz ph) (replicate (unat (p_memsz ph - p_filesz ph)) 0) v)" for v
        by (rule ustore_confined) simp
      then have "confined um um'" using u(1) c1 confined_trans by blast
      then show ?thesis using cl [OF fds_except_trans [OF f2 rf(1)]] u(2) by simp
    qed
  qed
qed

lemma load_segments_frame:
  "load_segments (vinix_ops B D sizes) path fd n um s = ret (rc, um', s') \<Longrightarrow> length (current_fds s) = MAX_FDS \<Longrightarrow>
   fds_except {nat fd} s s' \<and> confined um um'"
proof (induction n arbitrary: um s)
  case 0
  then show ?case by simp
next
  case (Suc n)
  obtain rc1 b s1 where r: "read_exact (vinix_ops B D sizes) fd 0 32 [] s = ret (rc1, b, s1)"
    using Suc.prems(1) by (auto elim!: rbind_InrE)
  have f: "fds_except {nat fd} s s1" using read_exact_frame [OF r] by simp
  have l: "length (current_fds s1) = MAX_FDS" using fds_except_len [OF f] Suc.prems(2) by simp
  let ?ph = "phdr_of b"
  show ?case
  proof (cases "rc1 = E_OK \<and> p_type ?ph = PT_LOAD \<and> \<not> p_filesz ?ph > p_memsz ?ph \<and> in_user_space (p_vaddr ?ph) (p_memsz ?ph)")
    case False
    then show ?thesis using Suc.prems(1) r f l Suc.IH [of um s1] fds_except_trans [OF f]
      by (auto simp: Let_def split: if_splits)
  next
    case True
    obtain rc2 um2 s2 where g: "load_segment (vinix_ops B D sizes) path ?ph um s1 = ret (rc2, um2, s2)"
      using Suc.prems(1) r True by (auto simp: Let_def elim!: rbind_InrE)
    have gf: "fds_except {} s1 s2" "confined um um2" using load_segment_frame [OF g l] True by auto
    have f2: "fds_except {nat fd} s s2" using fds_except_trans [OF f fds_except_mono [OF gf(1)]] by simp
    show ?thesis
    proof (cases "rc2 = E_OK")
      case ok: True
      then have "load_segments (vinix_ops B D sizes) path fd n um2 s2 = ret (rc, um', s')"
        using Suc.prems(1) r True g by (simp add: Let_def)
      from Suc.IH [OF this] show ?thesis
        using fds_except_len [OF gf(1)] l fds_except_trans [OF f2] confined_trans [OF gf(2)] by auto
    next
      case bad: False
      then show ?thesis using Suc.prems(1) r True g f2 gf(2) by (simp add: Let_def)
    qed
  qed
qed

lemma load_program_frame:
  assumes "load_program (vinix_ops B D sizes) path um s = ret (rc, entry, um', s')" "length (current_fds s) = MAX_FDS"
  shows "fds_except {} s s' \<and> confined um um' \<and> (rc = E_OK \<longrightarrow> in_user_space entry 4)"
proof -
  obtain name where nm: "user_string um path = Inr name" using assms(1) by (auto simp: load_program_def split: sum.splits)
  obtain fd s1 where o: "vfs_open (vinix_ops B D sizes) name O_RDONLY s = ret (fd, s1)"
    using assms(1) nm by (auto simp: load_program_def elim!: rbind_InrE)
  note of = vfs_open_frame [OF o assms(2)]
  show ?thesis
  proof (cases "fd < 0")
    case True
    then have "um' = um" "s' = s1" "rc = fd" using assms(1) nm o by (simp_all add: load_program_def)
    then show ?thesis using of(1) True by simp
  next
    case False
    then have f: "fds_except {nat fd} s s1" "fd < int MAX_FDS" "\<not> fd_in_use (current_fds s ! nat fd)" using of(2) by auto
    have cl: "fds_except {} s (snd (vfs_close fd t))" if "fds_except {nat fd} s t" for t
      using vfs_close_frame [of fd "{}" s t] that f(2,3) False assms(2) by simp
    obtain rc1 b s2 where r: "read_exact (vinix_ops B D sizes) fd 0 52 [] s1 = ret (rc1, b, s2)"
      using assms(1) nm o False by (auto simp: load_program_def elim!: rbind_InrE)
    have f2: "fds_except {nat fd} s s2" using fds_except_trans [OF f(1)] read_exact_frame [OF r] by simp
    let ?h = "ehdr_of b"
    show ?thesis
    proof (cases "rc1 = E_OK \<and> validate_header ?h = E_OK")
      case bad: False
      then have "um' = um \<and> s' = snd (vfs_close fd s2) \<and> rc \<noteq> E_OK"
        using assms(1) nm o False r by (auto simp: load_program_def Let_def split: if_splits)
      then show ?thesis using cl [OF f2] by simp
    next
      case ok: True
      obtain s3 where g: "load_segments (vinix_ops B D sizes) path fd (unat (e_phnum ?h)) um s2 = ret (rc, um', s3)"
        and e: "s' = snd (vfs_close fd s3)" "entry = e_entry ?h"
        using assms(1) nm o False r ok by (auto simp: load_program_def Let_def elim!: rbind_InrE)
      have gf: "fds_except {nat fd} s2 s3" "confined um um'"
        using load_segments_frame [OF g] fds_except_len [OF f2] assms(2) by auto
      have "in_user_space (e_entry ?h) 4" using ok by (auto simp: validate_header_def split: if_splits)
      then show ?thesis using cl [OF fds_except_trans [OF f2 gf(1)]] gf(2) e by simp
    qed
  qed
qed

lemma copy_arg_bound: "copy_arg um s kbuf = Inr (Inr kbuf') \<Longrightarrow> length kbuf' \<le> USER_ARGV_STRS_SZ"
proof (induction um s kbuf rule: copy_arg.induct)
  case (1 um s kbuf)
  show ?case
  proof (cases "um s = 0")
    case True
    then show ?thesis using 1(2) by (auto simp: copy_arg.simps [of um s] split: if_splits)
  next
    case False
    then have "in_user_space s 1" "\<not> USER_ARGV_STRS_SZ \<le> length kbuf + 1" "copy_arg um (s + 1) (kbuf @ [um s]) = Inr (Inr kbuf')"
      using 1(2) by (auto simp: copy_arg.simps [of um s] split: if_splits)
    then show ?thesis using 1(1) False by simp
  qed
qed

lemma snapshot_loop_bound:
  "snapshot_loop um argv argc n kbuf offs = Inr (Inr (kbuf', offs')) \<Longrightarrow> length kbuf \<le> USER_ARGV_STRS_SZ \<Longrightarrow>
   length kbuf' \<le> USER_ARGV_STRS_SZ \<and> length offs' \<le> length offs + n"
proof (induction n arbitrary: argc kbuf offs)
  case 0
  then show ?case by simp
next
  case (Suc n)
  let ?s = "uload32 um (argv + 4 * of_nat argc)"
  show ?case
  proof (cases "?s = 0")
    case True
    then show ?thesis using Suc.prems by simp
  next
    case False
    then obtain k1 where "copy_arg um ?s kbuf = Inr (Inr k1)"
      "snapshot_loop um argv (Suc argc) n k1 (offs @ [of_nat (length kbuf)]) = Inr (Inr (kbuf', offs'))"
      using Suc.prems(1) by (auto simp: Let_def split: if_splits sum.splits elim!: fbind_InrE)
    then show ?thesis using Suc.IH [of "Suc argc" k1] copy_arg_bound by fastforce
  qed
qed

lemma snapshot_argv_bound:
  assumes "snapshot_argv um argv = Inr (Inr (kbuf, offs))"
  shows "length kbuf \<le> USER_ARGV_STRS_SZ \<and> length offs \<le> USER_ARGV_MAX"
  using assms snapshot_loop_bound [of um argv 0 USER_ARGV_MAX "[]" "[]" kbuf offs]
  by (auto simp: snapshot_argv_def split: if_splits)

lemma copy_arg_error: "copy_arg um s kbuf = Inr (Inl e) \<Longrightarrow> e < 0"
proof (induction um s kbuf rule: copy_arg.induct)
  case (1 um s kbuf)
  show ?case
  proof (cases "copy_arg um (s + 1) (kbuf @ [um s]) = Inr (Inl e) \<and> in_user_space s 1 \<and> um s \<noteq> 0 \<and> \<not> USER_ARGV_STRS_SZ \<le> length kbuf + 1")
    case True
    then show ?thesis using 1(1) by blast
  next
    case False
    then show ?thesis using 1(2) by (auto simp: copy_arg.simps [of um s] split: if_splits)
  qed
qed

lemma snapshot_loop_error: "snapshot_loop um argv a n kbuf offs = Inr (Inl e) \<Longrightarrow> e < 0"
proof (induction n arbitrary: a kbuf offs)
  case 0
  then show ?case by simp
next
  case (Suc n)
  let ?s = "uload32 um (argv + 4 * of_nat a)"
  show ?case
  proof (cases "?s = 0 \<or> \<not> in_user_space ?s 1")
    case True
    then show ?thesis using Suc.prems by (auto simp: Let_def split: if_splits)
  next
    case False
    then obtain r where "copy_arg um ?s kbuf = Inr r"
      "(case r of Inl e \<Rightarrow> Inr (Inl e) | Inr k \<Rightarrow> snapshot_loop um argv (Suc a) n k (offs @ [of_nat (length kbuf)])) = Inr (Inl e)"
      using Suc.prems by (auto simp: Let_def elim!: fbind_InrE)
    then show ?thesis using Suc.IH copy_arg_error by (cases r) auto
  qed
qed

lemma snapshot_argv_error: "snapshot_argv um argv = Inr (Inl e) \<Longrightarrow> e < 0"
  using snapshot_loop_error by (auto simp: snapshot_argv_def split: if_splits)

lemma argv_area: "unat USER_ARGV_AREA_VA = 0x400FFE00" "n \<le> 16 \<Longrightarrow> unat (USER_ARGV_AREA_VA + 4 * of_nat n) = 0x400FFE00 + 4 * n"
proof -
  show a: "unat USER_ARGV_AREA_VA = 0x400FFE00"
    by (simp add: USER_ARGV_AREA_VA_def USER_END_def USER_SPACE_VA_def USER_SPACE_BYTES_def)
  assume "n \<le> 16"
  then have "unat (4 * of_nat n :: u32) = 4 * n" by (simp add: unat_word_ariths unat_of_nat take_bit_nat_eq_self)
  then show "unat (USER_ARGV_AREA_VA + 4 * of_nat n) = 0x400FFE00 + 4 * n" using a \<open>n \<le> 16\<close> by (simp add: unat_word_ariths)
qed

lemma length_argv_array [simp]: "length (concat (map (\<lambda>off. le32 (f off)) offs)) = 4 * length offs"
  by (induction offs) auto

lemma install_argv_confined:
  assumes "install_argv kbuf offs p ctx um = (ctx', um')" "length kbuf \<le> USER_ARGV_STRS_SZ" "length offs \<le> USER_ARGV_MAX"
  shows "confined um um'"
proof (cases "length offs = 0")
  case True
  then show ?thesis using assms(1) by (simp add: install_argv_def)
next
  case False
  let ?strs = "USER_ARGV_AREA_VA + 4 * of_nat USER_ARGV_MAX"
  let ?u1 = "ustore ?strs (take p kbuf) um"
  let ?u2 = "ustore USER_ARGV_AREA_VA (concat (map (\<lambda>off. le32 (?strs + ucast off)) offs)) ?u1"
  have um': "um' = ustore (USER_ARGV_AREA_VA + 4 * of_nat (length offs)) (le32 0) ?u2"
    using False assms(1) by (simp add: install_argv_def Let_def)
  have w: "in_user_space ?strs 448" "in_user_space USER_ARGV_AREA_VA 64" "in_user_space (USER_ARGV_AREA_VA + 4 * of_nat (length offs)) 4"
    using argv_area(1) argv_area(2) [of USER_ARGV_MAX] argv_area(2) [of "length offs"] assms(3)
    by (simp_all add: in_user_space_unat USER_ARGV_MAX_def)
  have "confined um ?u1" by (rule ustore_confined [OF w(1)]) (use assms(2) in \<open>simp add: USER_ARGV_STRS_SZ_def\<close>)
  moreover have "confined ?u1 ?u2" by (rule ustore_confined [OF w(2)]) (use assms(3) in \<open>simp add: USER_ARGV_MAX_def\<close>)
  moreover have "confined ?u2 um'" unfolding um' by (rule ustore_confined [OF w(3)]) simp
  ultimately show ?thesis using confined_trans by blast
qed

text \<open>The entry point is that of the header of the file.\<close>

lemma load_program_entry:
  assumes "load_program Ops path um s = ret (E_OK, entry, um', s')"
  shows "\<exists>name fd s1 hdr s2. user_string um path = Inr name \<and> vfs_open Ops name O_RDONLY s = ret (fd, s1) \<and> 0 \<le> fd \<and>
    read_exact Ops fd 0 52 [] s1 = ret (E_OK, hdr, s2) \<and> take 4 hdr = [0x7F, 0x45, 0x4C, 0x46] \<and>
    entry = rd32 hdr 24 \<and> in_user_space entry 4"
proof -
  obtain name where nm: "user_string um path = Inr name" using assms by (auto simp: load_program_def split: sum.splits)
  obtain fd s1 where o: "vfs_open Ops name O_RDONLY s = ret (fd, s1)"
    using assms nm by (auto simp: load_program_def elim!: rbind_InrE)
  have fd: "0 \<le> fd" using assms nm o by (auto simp: load_program_def split: if_splits)
  then obtain rc hdr s2 where r: "read_exact Ops fd 0 52 [] s1 = ret (rc, hdr, s2)"
    using assms nm o by (auto simp: load_program_def elim!: rbind_InrE)
  have "rc = E_OK \<and> validate_header (ehdr_of hdr) = E_OK \<and> entry = e_entry (ehdr_of hdr)"
    using assms nm o fd r by (auto simp: load_program_def Let_def elim!: rbind_InrE split: if_splits)
  then show ?thesis using nm o fd r by (auto simp: validate_header_def ehdr_of_def min_def split: if_splits)
qed

text \<open>C22: whatever the file contains and whatever pointers it is given, a \<open>do_exec\<close> that returns has stored
  only into the megabyte of user space and leaves exactly the descriptors open that were open before, and
  the mounts.  If it fails, the registers of the caller are as they were.  If it succeeds, execution
  continues at the address in bytes 24 to 27 of the 52-byte header of the file at the path, which has
  the ELF magic and whose address is in user space; register 0 is the number of arguments of the
  snapshot, register 1 the address of the argument vector, or 0 without arguments, registers 2 and 3
  are 0, and the others and the status word are those of the caller.\<close>

theorem do_exec_confined:
  assumes "do_exec (vinix_ops B D sizes) path ctx argv um s = ret (rc, ctx', um', s')" "length (current_fds s) = MAX_FDS"
  shows "(\<forall>x. um' x \<noteq> um x \<longrightarrow> USER_SPACE_VA \<le> x \<and> x < USER_END) \<and>
    (\<forall>i < MAX_FDS. fd_in_use (current_fds s' ! i) = fd_in_use (current_fds s ! i) \<and>
      (fd_in_use (current_fds s ! i) \<longrightarrow> current_fds s' ! i = current_fds s ! i)) \<and>
    mount_table s' = mount_table s \<and> (rc \<noteq> E_OK \<longrightarrow> ctx' = ctx) \<and>
    (rc = E_OK \<longrightarrow> (\<exists>name fd s1 hdr s2 kbuf offs. user_string um path = Inr name \<and>
      vfs_open (vinix_ops B D sizes) name O_RDONLY s = ret (fd, s1) \<and> 0 \<le> fd \<and>
      read_exact (vinix_ops B D sizes) fd 0 52 [] s1 = ret (E_OK, hdr, s2) \<and> take 4 hdr = [0x7F, 0x45, 0x4C, 0x46] \<and>
      snapshot_argv um argv = Inr (Inr (kbuf, offs)) \<and> sv_lr ctx' = rd32 hdr 24 \<and> in_user_space (sv_lr ctx') 4 \<and>
      sv_r ctx' = (sv_r ctx)(0 := of_nat (length offs), 1 := (if offs = [] then 0 else USER_ARGV_AREA_VA), 2 := 0, 3 := 0) \<and>
      sv_spsr ctx' = sv_spsr ctx))"
proof -
  consider (bad) e where "snapshot_argv um argv = Inr (Inl e)" | (ok) kbuf offs where "snapshot_argv um argv = Inr (Inr (kbuf, offs))"
    using assms(1) by (auto simp: do_exec_def split: sum.splits)
  then show ?thesis
  proof cases
    case bad
    then have "e < 0" by (rule snapshot_argv_error)
    moreover have "rc = e" "ctx' = ctx" "um' = um" "s' = s" using bad assms(1) by (simp_all add: do_exec_def)
    ultimately show ?thesis by simp
  next
    case ok
    obtain rc1 entry um1 s1 where l: "load_program (vinix_ops B D sizes) path um s = ret (rc1, entry, um1, s1)"
      using assms(1) ok by (auto simp: do_exec_def elim!: rbind_InrE)
    note lf = load_program_frame [OF l assms(2)]
    obtain c1 um2 where i: "install_argv kbuf offs (snap_end kbuf offs) ctx um1 = (c1, um2)" by fastforce
    have ic: "confined um1 um2" using install_argv_confined [OF i] snapshot_argv_bound [OF ok] by blast
    have res: "rc = rc1 \<and> s' = s1 \<and> (if rc1 = E_OK then um' = um2 \<and> ctx' = (set_r 3 0 (set_r 2 0 c1))\<lparr>sv_lr := entry\<rparr> else um' = um1 \<and> ctx' = ctx)"
      using assms(1) ok l i by (auto simp: do_exec_def split: if_splits)
    have c: "confined um um'" using res lf ic confined_trans [of um um1 um2] by (cases "rc1 = E_OK") simp_all
    have f: "fds_except {} s s'" using res lf by simp
    have "same_fd (current_fds s ! j) (current_fds s' ! j)" if "j < MAX_FDS" for j
      using f that assms(2) by (simp add: fds_except_def)
    then have fds: "\<forall>j < MAX_FDS. fd_in_use (current_fds s' ! j) = fd_in_use (current_fds s ! j) \<and>
        (fd_in_use (current_fds s ! j) \<longrightarrow> current_fds s' ! j = current_fds s ! j)"
      unfolding same_fd_def by metis
    have regs: "sv_lr ctx' = entry \<and> sv_spsr ctx' = sv_spsr ctx \<and>
        sv_r ctx' = (sv_r ctx)(0 := of_nat (length offs), 1 := (if offs = [] then 0 else USER_ARGV_AREA_VA), 2 := 0, 3 := 0)" if "rc = E_OK"
      using res that i by (auto simp: install_argv_def set_r_def Let_def fun_eq_iff split: if_splits)
    show ?thesis using c [unfolded confined_def] f [unfolded fds_except_def] fds res regs ok
        load_program_entry [of "vinix_ops B D sizes" path um s entry um1 s1] l by auto
  qed
qed

subsection \<open>A program that comes in over the serial line\<close>

text \<open>The path \<open>/dev/tty\<close> in user memory, and in the receive ring an ELF file with the entry point
  \<open>0x40000200\<close> and one program header that is not loaded.\<close>

definition demo_elf :: "u8 list" where
  "demo_elf = [0x7F, 0x45, 0x4C, 0x46, 1, 1, 1, 0, 0, 0, 0, 0, 0, 0, 0, 0, 2, 0, 40, 0, 1, 0, 0, 0, 0, 2, 0, 0x40,
     52, 0, 0, 0, 0, 0, 0, 0, 0, 0, 0, 0, 52, 0, 32, 0, 1, 0, 0, 0, 0, 0, 0, 0]"

definition demo_path :: umem where
  "demo_path = ustore 0x40000100 [47, 100, 101, 118, 47, 116, 116, 121, 0] (\<lambda>x. 0)"

definition exec_sys :: "(unit, 'w) sys \<Rightarrow> (unit, 'w) sys" where
  "exec_sys s = (demo_sys s)\<lparr>cdevs := [tty_dev, null_dev], rb_data := demo_elf @ replicate 204 0, rb_head := 84, rb_tail := 0\<rparr>"

definition tty_at :: "int \<Rightarrow> ('u, 'w) sys \<Rightarrow> bool" where
  "tty_at fd s \<longleftrightarrow> \<not> bad_fd fd s \<and> fd_ops (current_fds s ! nat fd) = Some 1 \<and> fd_file_index (current_fds s ! nat fd) = 0 \<and>
     nat fd < length (current_fds s) \<and> cdevs s = [tty_dev, null_dev] \<and> ring_inv s"

lemma tty_read_byte:
  assumes "tty_at fd s" "ring_bytes s = c # cs" "len \<noteq> 0"
  shows "\<exists>s'. vfs_read (vinix_ops B D sizes) fd len s = ret (1, [c], s') \<and> tty_at fd s' \<and> ring_bytes s' = cs"
proof -
  have ri: "ring_inv s" using assms(1) by (simp add: tty_at_def)
  obtain s1 where g: "uart_getc s = (uint c, s1)" "ring_inv s1" "ring_bytes s1 = cs"
    using uart_getc_ring [OF ri] assms(2) by (metis prod.collapse)
  have same: "current_fds s1 = current_fds s" "cdevs s1 = cdevs s" "usc s1 = usc s"
    using g(1) by (auto simp: uart_getc_def current_fds_def split: if_splits option.splits)
  have "vfs_read (vinix_ops B D sizes) fd len s = ret (1, [c], advance fd 1 s1)"
    using assms uart_rx_available_ring [OF ri] g(1)
    by (simp add: vfs_read_def tty_at_def vinix_ops_def devfs_ops_def devfs_read_def char_dev_at_def tty_dev_def tty_read_def)
  moreover have "ring_bytes (advance fd 1 s1) = cs \<and> ring_inv (advance fd 1 s1)"
    using g(2,3) by (auto simp: advance_def set_fds_def ring_bytes_def ring_count_def ring_inv_def split: option.splits)
  moreover have "tty_at fd (advance fd 1 s1)"
    using assms(1) same g(2) calculation(2) by (auto simp: tty_at_def advance_def bad_fd_def)
  ultimately show ?thesis by blast
qed

lemma tty_read_exact:
  assumes "tty_at fd s" "ring_bytes s = xs @ ys" "unat got + length xs = unat len"
  shows "\<exists>s'. read_exact (vinix_ops B D sizes) fd got len buf s = ret (E_OK, buf @ xs, s') \<and> tty_at fd s' \<and> ring_bytes s' = ys"
  using assms
proof (induction xs arbitrary: got buf s)
  case Nil
  then show ?case by (subst read_exact.simps) (simp add: word_less_nat_alt)
next
  case (Cons c xs)
  then have lt: "got < len" "len - got \<noteq> 0" by (auto simp: word_less_nat_alt)
  obtain s1 where r: "vfs_read (vinix_ops B D sizes) fd (len - got) s = ret (1, [c], s1)" "tty_at fd s1" "ring_bytes s1 = xs @ ys"
    using tty_read_byte [OF Cons.prems(1) _ lt(2), of c "xs @ ys" B D sizes] Cons.prems(2) by auto
  have "unat (got + 1) = unat got + 1" using Cons.prems(3) unsigned_less [of len, where 'a = nat] by (intro unat_succ) simp
  then have "unat (got + 1) + length xs = unat len" using Cons.prems(3) by simp
  from Cons.IH [OF r(2,3) this, of "buf @ [c]"] show ?case using lt(1) r(1) by (subst read_exact.simps) simp
qed

lemma exec_sys_resolve: "resolve [47, 100, 101, 118, 47, 116, 116, 121] (exec_sys s) = Some (1, [116, 116, 121])"
proof -
  let ?p = "[47, 100, 101, 118, 47, 116, 116, 121] :: cstring"
  have "[0..<4] = [0, 1, 2, 3 :: nat]" by (simp add: upt_rec)
  moreover have l: "mp_len (demo_mount mp p) = length mp" "m_ops (demo_mount mp p) = Some p" for mp p by (simp_all add: demo_mount_def)
  moreover have "\<not> mount_matches p \<lparr>mount_point = [], m_ops = None, mp_len = 0, m_in_use = False\<rparr>" for p by (simp add: mount_matches_def)
  moreover have "mount_matches ?p (demo_mount (cstr ''/'') 0)" "mount_matches ?p (demo_mount (cstr ''/dev'') 1)" "\<not> mount_matches ?p (demo_mount (cstr ''/proc'') 2)"
    using mount_matches_covers [of "demo_mount (cstr ''/'') 0" ?p] mount_matches_covers [of "demo_mount (cstr ''/dev'') 1" ?p]
      mount_matches_covers [of "demo_mount (cstr ''/proc'') 2" ?p]
    by (simp_all add: demo_paths demo_mount_def covers_def)
  ultimately have "resolve_best ?p (mount_table (exec_sys s)) [0..<4] None = Some (1, 4)"
    by (simp add: exec_sys_def demo_sys_def demo_paths)
  then show ?thesis by (simp add: resolve_def MAX_MOUNTS_def exec_sys_def demo_sys_def l demo_paths chr0_def)
qed

lemma exec_sys_open:
  "\<exists>s1. vfs_open (vinix_ops B D sizes) [47, 100, 101, 118, 47, 116, 116, 121] O_RDONLY (exec_sys s) = ret (3, s1) \<and> tty_at 3 s1 \<and>
     ring_bytes s1 = demo_elf @ replicate 32 0"
proof -
  have fds: "current_fds (exec_sys s) = replicate MAX_FDS free_fd"
    by (simp add: exec_sys_def demo_sys_def current_fds_def scheduler_current_task_def)
  have fi: "char_dev_find [116, 116, 121] (exec_sys s) = 0"
    by (simp add: char_dev_find_def exec_sys_def tty_dev_def null_dev_def cstr_def first_idx_unfold chr0_def)
  have "fd_free_slot (replicate MAX_FDS free_fd) = Some 3"
    by (simp add: fd_free_slot_def first_idx_Some_iff MAX_FDS_def free_fd_def)
  then obtain s1 where o: "vfs_open (vinix_ops B D sizes) [47, 100, 101, 118, 47, 116, 116, 121] O_RDONLY (exec_sys s) = ret (3, s1)"
    "current_fds s1 = (replicate MAX_FDS free_fd)[3 := \<lparr>fd_in_use = True, fd_file_index = 0, fd_offset = 0, fd_flags = O_RDONLY, fd_ops = Some 1\<rparr>]"
    "cdevs s1 = [tty_dev, null_dev]" "rb_data s1 = demo_elf @ replicate 204 0" "rb_head s1 = 84" "rb_tail s1 = 0"
    using exec_sys_resolve [of s] fi fds
    by (simp add: set_fds_def current_fds_def scheduler_current_task_def vfs_open_def open_file_def vinix_ops_def devfs_ops_def devfs_lookup_def start_offset_def vx_consts exec_sys_def demo_sys_def)
  have "length demo_elf = 52" by (simp add: demo_elf_def)
  moreover have "map (\<lambda>k. xs ! (k mod 256)) [0..<84] = take 84 xs" if "length xs = 256" for xs :: "u8 list"
    by (rule nth_equalityI) (use that in simp_all)
  ultimately have "ring_inv s1" "ring_bytes s1 = take 84 (demo_elf @ replicate 204 0)"
    using o(4-6) by (simp_all add: ring_inv_def ring_bytes_def ring_count_def)
  then show ?thesis using o(1-3) \<open>length demo_elf = 52\<close> by (auto simp: tty_at_def bad_fd_def MAX_FDS_def)
qed

theorem do_exec_confined_witness:
  "\<forall>(s :: (unit, 'w) sys) B D sizes ctx. \<exists>ctx' um' s'. do_exec (vinix_ops B D sizes) 0x40000100 ctx 0 demo_path (exec_sys s) = ret (E_OK, ctx', um', s') \<and>
     sv_lr ctx' = 0x40000200 \<and> sv_r ctx' 0 = 0 \<and> sv_r ctx' 4 = sv_r ctx 4 \<and> (\<forall>i < MAX_FDS. \<not> fd_in_use (current_fds s' ! i))"
proof (intro allI)
  fix s :: "(unit, 'w) sys" and B :: "unit bus" and D :: "'w bdev_mem" and sizes ctx
  let ?Ops = "vinix_ops B D sizes"
  have fds: "current_fds (exec_sys s) = replicate MAX_FDS free_fd"
    by (simp add: exec_sys_def demo_sys_def current_fds_def scheduler_current_task_def)
  have nm: "user_string demo_path 0x40000100 = Inr [47, 100, 101, 118, 47, 116, 116, 121]"
  proof -
    have "ustr demo_path 0x40000100 (Suc (Suc (Suc (Suc (Suc (Suc (Suc (Suc (Suc n))))))))) = Some [47, 100, 101, 118, 47, 116, 116, 121]" for n
      by (simp add: demo_path_def ustore_def)
    from this [of 1048311] show ?thesis
      by (simp add: user_string_def in_user_space_unat USER_END_def USER_SPACE_VA_def USER_SPACE_BYTES_def)
  qed
  obtain s1 where o: "vfs_open ?Ops [47, 100, 101, 118, 47, 116, 116, 121] O_RDONLY (exec_sys s) = ret (3, s1)" "tty_at 3 s1"
    "ring_bytes s1 = demo_elf @ replicate 32 0" using exec_sys_open [of B D sizes s] by blast
  obtain s2 where h: "read_exact ?Ops 3 0 52 [] s1 = ret (E_OK, demo_elf, s2)" "tty_at 3 s2" "ring_bytes s2 = replicate 32 0"
    using tty_read_exact [OF o(2,3), of 0 52 B D sizes "[]"] by (auto simp: demo_elf_def)
  obtain s3 where p: "read_exact ?Ops 3 0 32 [] s2 = ret (E_OK, replicate 32 0, s3)"
    using tty_read_exact [OF h(2), of "replicate 32 0" "[]" 0 32 B D sizes "[]"] h(3) by auto
  have v: "validate_header (ehdr_of demo_elf) = E_OK" "e_phnum (ehdr_of demo_elf) = 1" "rd32 demo_elf 24 = 0x40000200"
    by (simp_all add: ehdr_of_def demo_elf_def rd16_def rd32_def validate_header_def vx_consts in_user_space_def)
  have "load_segments ?Ops 0x40000100 3 1 demo_path s2 = ret (E_OK, demo_path, s3)"
    using p by (simp add: phdr_of_def rd32_def PT_LOAD_def)
  then have "\<exists>c' u' t'. do_exec ?Ops 0x40000100 ctx 0 demo_path (exec_sys s) = ret (E_OK, c', u', t')"
    using nm o(1) h(1) v by (simp add: do_exec_def snapshot_argv_def load_program_def Let_def split: prod.splits)
  then obtain c' u' t' where x: "do_exec ?Ops 0x40000100 ctx 0 demo_path (exec_sys s) = ret (E_OK, c', u', t')" by blast
  have sn: "snapshot_argv demo_path 0 = Inr (Inr ([], []))" by (simp add: snapshot_argv_def)
  note T = do_exec_confined [OF x, unfolded fds, simplified nm sn]
  have "sv_lr c' = 0x40000200 \<and> sv_r c' 0 = 0 \<and> sv_r c' 4 = sv_r ctx 4 \<and> (\<forall>i < MAX_FDS. \<not> fd_in_use (current_fds t' ! i))"
    using T o(1) h(1) v(3) by (auto simp: free_fd_def)
  then show "\<exists>ctx' um' s'. do_exec ?Ops 0x40000100 ctx 0 demo_path (exec_sys s) = ret (E_OK, ctx', um', s') \<and>
     sv_lr ctx' = 0x40000200 \<and> sv_r ctx' 0 = 0 \<and> sv_r ctx' 4 = sv_r ctx 4 \<and> (\<forall>i < MAX_FDS. \<not> fd_in_use (current_fds s' ! i))" using x by blast
qed

end
