(* ===== verification/Platform.thy ===== *)
theory Platform
  imports Klibc
begin

section \<open>The platform bus (\<open>kernel/src/kernel/driver/\<close>, \<open>platform/bbb/devices.c\<close>)\<close>

text \<open>
  The bus registry of \<open>device.c\<close> and the platform bus of \<open>platform.c\<close>: devices and drivers are
  registered in any order and bound by name, and a driver's probe runs once for each device it is
  bound to.  A pointer to a device or a driver is a number; \<open>container_of\<close> of a structure at the same
  address is the identity, so one memory holds the platform devices and one the platform drivers.

  The probe of a driver acts on a state of its own (\<open>'s\<close>); \<open>None\<close> is a probe that does not return.
  None of the kernel's probes stores into the device it is given.
\<close>

subsection \<open>Structures\<close>

definition BUS_MAX_DEVICES :: nat where [vx_consts]: "BUS_MAX_DEVICES = 16"
definition BUS_MAX_DRIVERS :: nat where [vx_consts]: "BUS_MAX_DRIVERS = 16"
definition IORESOURCE_MEM :: u32 where [vx_consts]: "IORESOURCE_MEM = 1"
definition IORESOURCE_IRQ :: u32 where [vx_consts]: "IORESOURCE_IRQ = 2"

record resource =
  r_start :: u32
  r_end :: u32
  r_flags :: u32

record device =
  dev_name :: "cstring option"
  dev_on_bus :: bool
  dev_driver :: "nat option"
  resources :: "resource list"

record driver =
  drv_name :: "cstring option"
  drv_on_bus :: bool
  drv_probe_set :: bool

record platform_device =
  pd_dev :: device
  pd_name :: "cstring option"
  pd_base :: u32
  pd_irq :: int

record 's platform_driver =
  pdrv_drv :: driver
  pdrv_probe :: "(platform_device \<Rightarrow> 's \<Rightarrow> (int \<times> 's) option) option"
  pdrv_remove :: "(platform_device \<Rightarrow> 's \<Rightarrow> (int \<times> 's) option) option"

record 's plat_state =
  bus_devices :: "nat list"
  bus_drivers :: "nat list"
  pdevs :: "nat \<Rightarrow> platform_device"
  pdrvs :: "nat \<Rightarrow> 's platform_driver"
  pworld :: 's

definition upd_dev :: "nat \<Rightarrow> (device \<Rightarrow> device) \<Rightarrow> 's plat_state \<Rightarrow> 's plat_state" where
  "upd_dev d f s = s\<lparr>pdevs := (pdevs s)(d := (pdevs s d)\<lparr>pd_dev := f (pd_dev (pdevs s d))\<rparr>)\<rparr>"

definition upd_drv :: "nat \<Rightarrow> (driver \<Rightarrow> driver) \<Rightarrow> 's plat_state \<Rightarrow> 's plat_state" where
  "upd_drv v f s = s\<lparr>pdrvs := (pdrvs s)(v := (pdrvs s v)\<lparr>pdrv_drv := f (pdrv_drv (pdrvs s v))\<rparr>)\<rparr>"

abbreviation dev :: "'s plat_state \<Rightarrow> nat \<Rightarrow> device" where "dev s d \<equiv> pd_dev (pdevs s d)"
abbreviation drv :: "'s plat_state \<Rightarrow> nat \<Rightarrow> driver" where "drv s v \<equiv> pdrv_drv (pdrvs s v)"

subsection \<open>The bus registry\<close>

definition bus_register :: "'s plat_state \<Rightarrow> int \<times> 's plat_state" where
  "bus_register s = (0, s\<lparr>bus_devices := [], bus_drivers := []\<rparr>)"

definition platform_match :: "device \<Rightarrow> driver \<Rightarrow> bool" where
  "platform_match d v = (case (dev_name d, drv_name v) of (Some a, Some b) \<Rightarrow> strcmp a b = 0 | _ \<Rightarrow> False)"

text \<open>The thunk that the bus calls: it finds the driver in the device.\<close>

definition platform_probe_thunk :: "nat \<Rightarrow> 's plat_state \<Rightarrow> (int \<times> 's plat_state) option" where
  "platform_probe_thunk d s =
     (case dev_driver (dev s d) of
        None \<Rightarrow> None
      | Some v \<Rightarrow> (case pdrv_probe (pdrvs s v) of
          None \<Rightarrow> Some (0, s)
        | Some probe \<Rightarrow> map_option (\<lambda>(rc, w). (rc, s\<lparr>pworld := w\<rparr>)) (probe (pdevs s d) (pworld s))))"

definition platform_remove_thunk :: "nat \<Rightarrow> 's plat_state \<Rightarrow> (int \<times> 's plat_state) option" where
  "platform_remove_thunk d s =
     (case dev_driver (dev s d) of
        None \<Rightarrow> None
      | Some v \<Rightarrow> (case pdrv_remove (pdrvs s v) of
          None \<Rightarrow> Some (0, s)
        | Some remove \<Rightarrow> map_option (\<lambda>(rc, w). (rc, s\<lparr>pworld := w\<rparr>)) (remove (pdevs s d) (pworld s))))"

definition try_bind :: "nat \<Rightarrow> nat \<Rightarrow> 's plat_state \<Rightarrow> (int \<times> 's plat_state) option" where
  "try_bind d v s =
     (if \<not> platform_match (dev s d) (drv s v) then Some (0, s)
      else if \<not> drv_probe_set (drv s v) then Some (0, s)
      else map_option (\<lambda>(rc, s1). (rc, if rc \<noteq> 0 then upd_dev d (\<lambda>x. x\<lparr>dev_driver := None\<rparr>) s1 else s1))
        (platform_probe_thunk d (upd_dev d (\<lambda>x. x\<lparr>dev_driver := Some v\<rparr>) s)))"

fun bind_device :: "nat \<Rightarrow> nat list \<Rightarrow> 's plat_state \<Rightarrow> 's plat_state option" where
  "bind_device d [] s = Some s"
| "bind_device d (v # vs) s =
     (if dev_driver (dev s d) \<noteq> None then Some s
      else case try_bind d v s of None \<Rightarrow> None | Some (rc, s') \<Rightarrow> bind_device d vs s')"

definition bus_add_device :: "nat \<Rightarrow> 's plat_state \<Rightarrow> (int \<times> 's plat_state) option" where
  "bus_add_device d s =
     (if length (bus_devices s) \<ge> BUS_MAX_DEVICES then Some (- 1, s)
      else map_option (Pair 0) (bind_device d (bus_drivers s)
        (upd_dev d (\<lambda>x. x\<lparr>dev_on_bus := True\<rparr>) (s\<lparr>bus_devices := bus_devices s @ [d]\<rparr>))))"

fun bind_driver :: "nat \<Rightarrow> nat list \<Rightarrow> int \<Rightarrow> 's plat_state \<Rightarrow> (int \<times> 's plat_state) option" where
  "bind_driver v [] last_err s = Some (last_err, s)"
| "bind_driver v (d # ds) last_err s =
     (if dev_driver (dev s d) \<noteq> None then bind_driver v ds last_err s
      else case try_bind d v s of None \<Rightarrow> None | Some (rc, s') \<Rightarrow> bind_driver v ds (if rc \<noteq> 0 then rc else last_err) s')"

definition bus_add_driver :: "nat \<Rightarrow> 's plat_state \<Rightarrow> (int \<times> 's plat_state) option" where
  "bus_add_driver v s =
     (if length (bus_drivers s) \<ge> BUS_MAX_DRIVERS then Some (- 1, s)
      else bind_driver v (bus_devices s) 0
        (upd_drv v (\<lambda>x. x\<lparr>drv_on_bus := True\<rparr>) (s\<lparr>bus_drivers := bus_drivers s @ [v]\<rparr>)))"

subsection \<open>Platform devices and drivers\<close>

definition device_resources :: "platform_device \<Rightarrow> resource list" where
  "device_resources p =
     (if pd_base p \<noteq> 0 then [\<lparr>r_start = pd_base p, r_end = pd_base p + 0xFFF, r_flags = IORESOURCE_MEM\<rparr>] else []) @
     (if pd_irq p > 0 then [\<lparr>r_start = of_int (pd_irq p), r_end = of_int (pd_irq p), r_flags = IORESOURCE_IRQ\<rparr>] else [])"

definition platform_device_register :: "nat \<Rightarrow> 's plat_state \<Rightarrow> (int \<times> 's plat_state) option" where
  "platform_device_register d s =
     bus_add_device d (upd_dev d (\<lambda>x. x\<lparr>dev_name := pd_name (pdevs s d), dev_driver := None,
       resources := device_resources (pdevs s d)\<rparr>) s)"

definition platform_driver_register :: "nat \<Rightarrow> 's plat_state \<Rightarrow> (int \<times> 's plat_state) option" where
  "platform_driver_register v s =
     bus_add_driver v (upd_drv v (\<lambda>x. x\<lparr>drv_name := (case drv_name x of Some n \<Rightarrow> Some n | None \<Rightarrow> Some (cstr ''(unnamed)'')),
       drv_probe_set := True\<rparr>) s)"

fun nth_resource :: "u32 \<Rightarrow> nat \<Rightarrow> resource list \<Rightarrow> resource option" where
  "nth_resource type index [] = None"
| "nth_resource type index (r # rs) =
     (if r_flags r AND type \<noteq> 0
      then (if index = 0 then Some r else nth_resource type (index - 1) rs)
      else nth_resource type index rs)"

definition platform_get_resource :: "platform_device \<Rightarrow> u32 \<Rightarrow> u32 \<Rightarrow> resource option" where
  "platform_get_resource p type index = nth_resource type (unat index) (resources (pd_dev p))"

definition platform_get_irq :: "platform_device \<Rightarrow> u32 \<Rightarrow> int" where
  "platform_get_irq p index = (case platform_get_resource p IORESOURCE_IRQ index of Some r \<Rightarrow> sint (r_start r) | None \<Rightarrow> - 1)"

subsection \<open>Listing\<close>

record dev_info =
  di_name :: cstring
  di_base :: u32
  di_irq :: int
  di_driver :: cstring

definition copy_name :: "cstring option \<Rightarrow> nat \<Rightarrow> cstring" where
  "copy_name src cap = (case src of None \<Rightarrow> [] | Some n \<Rightarrow> take (cap - 1) n)"

definition device_info :: "'s plat_state \<Rightarrow> nat \<Rightarrow> dev_info" where
  "device_info s d = \<lparr>di_name = copy_name (dev_name (dev s d)) 16, di_base = pd_base (pdevs s d),
     di_irq = (if pd_irq (pdevs s d) > 0 then pd_irq (pdevs s d) else - 1),
     di_driver = copy_name (case dev_driver (dev s d) of Some v \<Rightarrow> drv_name (drv s v) | None \<Rightarrow> Some []) 16\<rparr>"

definition platform_list_devices :: "u32 \<Rightarrow> 's plat_state \<Rightarrow> int \<times> dev_info list" where
  "platform_list_devices max_count s =
     (let out = map (device_info s) (take (unat max_count) (bus_devices s)) in (int (length out), out))"

subsection \<open>The devices of the BeagleBone Black\<close>

definition PLATFORM_IRQ_MMC0 :: int where [vx_consts]: "PLATFORM_IRQ_MMC0 = 64"
definition PLATFORM_IRQ_DMTIMER2 :: int where [vx_consts]: "PLATFORM_IRQ_DMTIMER2 = 68"
definition PLATFORM_IRQ_UART0 :: int where [vx_consts]: "PLATFORM_IRQ_UART0 = 72"

definition zero_device :: device where
  "zero_device = \<lparr>dev_name = None, dev_on_bus = False, dev_driver = None, resources = []\<rparr>"

definition omap_uart0 :: platform_device where
  "omap_uart0 = \<lparr>pd_dev = zero_device, pd_name = Some (cstr ''omap-uart''), pd_base = 0x44E09000, pd_irq = PLATFORM_IRQ_UART0\<rparr>"

definition omap_intc :: platform_device where
  "omap_intc = \<lparr>pd_dev = zero_device, pd_name = Some (cstr ''omap-intc''), pd_base = 0x48200000, pd_irq = 0\<rparr>"

definition omap_dmtimer2 :: platform_device where
  "omap_dmtimer2 = \<lparr>pd_dev = zero_device, pd_name = Some (cstr ''omap-dmtimer''), pd_base = 0x48040000, pd_irq = PLATFORM_IRQ_DMTIMER2\<rparr>"

definition omap_hsmmc0 :: platform_device where
  "omap_hsmmc0 = \<lparr>pd_dev = zero_device, pd_name = Some (cstr ''omap-hsmmc''), pd_base = 0x48060000, pd_irq = PLATFORM_IRQ_MMC0\<rparr>"

text \<open>The four structures are at the addresses 0 to 3.\<close>

definition bbb_devices :: "platform_device list" where
  "bbb_devices = [omap_uart0, omap_intc, omap_dmtimer2, omap_hsmmc0]"

fun register_all :: "nat list \<Rightarrow> 's plat_state \<Rightarrow> 's plat_state option" where
  "register_all [] s = Some s"
| "register_all (d # ds) s = (case platform_device_register d s of None \<Rightarrow> None | Some (rc, s') \<Rightarrow> register_all ds s')"

definition platform_init :: "'s plat_state \<Rightarrow> 's plat_state option" where
  "platform_init s = register_all [0..<length bbb_devices] (snd (bus_register s))"

subsection \<open>Binding\<close>

text \<open>The registrations of devices and drivers, each at most once, in any order.\<close>

inductive bus_run :: "'s plat_state \<Rightarrow> 's plat_state \<Rightarrow> bool" for s0 where
  start: "bus_run s0 (snd (bus_register s0))"
| device: "bus_run s0 s \<Longrightarrow> d \<notin> set (bus_devices s) \<Longrightarrow> platform_device_register d s = Some (rc, s') \<Longrightarrow> bus_run s0 s'"
| driver: "bus_run s0 s \<Longrightarrow> v \<notin> set (bus_drivers s) \<Longrightarrow> platform_driver_register v s = Some (rc, s') \<Longrightarrow> bus_run s0 s'"

definition probes_succeed :: "'s plat_state \<Rightarrow> bool" where
  "probes_succeed s \<longleftrightarrow> (\<forall>v. case pdrv_probe (pdrvs s v) of None \<Rightarrow> True | Some p \<Rightarrow> \<forall>d w. \<exists>w'. p d w = Some (0, w'))"

abbreviation matching :: "'s plat_state \<Rightarrow> nat \<Rightarrow> nat \<Rightarrow> bool" where
  "matching s d v \<equiv> platform_match (dev s d) (drv s v)"

text \<open>What the board's table says of a device, and the name under which a driver is registered.\<close>

definition table_entry :: "'s plat_state \<Rightarrow> nat \<Rightarrow> cstring option \<times> u32 \<times> int" where
  "table_entry s d = (pd_name (pdevs s d), pd_base (pdevs s d), pd_irq (pdevs s d))"

definition driver_name :: "'s plat_state \<Rightarrow> nat \<Rightarrow> cstring" where
  "driver_name s v = (case drv_name (drv s v) of None \<Rightarrow> cstr ''(unnamed)'' | Some n \<Rightarrow> n)"

definition names_ok :: "'s plat_state \<Rightarrow> bool" where
  "names_ok s \<longleftrightarrow> (\<forall>d n. pd_name (pdevs s d) = Some n \<longrightarrow> 0 \<notin> set n) \<and> (\<forall>v. 0 \<notin> set (driver_name s v))"

text \<open>Nothing but the driver of some devices and the state of the drivers differs.\<close>

definition rebound :: "'s plat_state \<Rightarrow> 's plat_state \<Rightarrow> bool" where
  "rebound s s' \<longleftrightarrow> bus_devices s' = bus_devices s \<and> bus_drivers s' = bus_drivers s \<and> pdrvs s' = pdrvs s \<and>
     (\<forall>d. \<exists>D. pdevs s' d = (pdevs s d)\<lparr>pd_dev := (dev s d)\<lparr>dev_driver := D\<rparr>\<rparr>)"

lemma rebound_refl [simp]: "rebound s s"
proof -
  have "pdevs s d = (pdevs s d)\<lparr>pd_dev := (dev s d)\<lparr>dev_driver := dev_driver (dev s d)\<rparr>\<rparr>" for d by simp
  then show ?thesis unfolding rebound_def by blast
qed

lemma rebound_trans: "rebound s t \<Longrightarrow> rebound t u \<Longrightarrow> rebound s u"
  unfolding rebound_def
proof (intro conjI allI)
  assume st: "bus_devices t = bus_devices s \<and> bus_drivers t = bus_drivers s \<and> pdrvs t = pdrvs s \<and>
      (\<forall>d. \<exists>D. pdevs t d = (pdevs s d)\<lparr>pd_dev := (dev s d)\<lparr>dev_driver := D\<rparr>\<rparr>)"
    and tu: "bus_devices u = bus_devices t \<and> bus_drivers u = bus_drivers t \<and> pdrvs u = pdrvs t \<and>
      (\<forall>d. \<exists>D. pdevs u d = (pdevs t d)\<lparr>pd_dev := (dev t d)\<lparr>dev_driver := D\<rparr>\<rparr>)"
  fix d
  obtain D where "pdevs t d = (pdevs s d)\<lparr>pd_dev := (dev s d)\<lparr>dev_driver := D\<rparr>\<rparr>" using st by blast
  moreover obtain E where "pdevs u d = (pdevs t d)\<lparr>pd_dev := (dev t d)\<lparr>dev_driver := E\<rparr>\<rparr>" using tu by blast
  ultimately have "pdevs u d = (pdevs s d)\<lparr>pd_dev := (dev s d)\<lparr>dev_driver := E\<rparr>\<rparr>" by simp
  then show "\<exists>D. pdevs u d = (pdevs s d)\<lparr>pd_dev := (dev s d)\<lparr>dev_driver := D\<rparr>\<rparr>" by blast
qed auto

lemma rebound_frame:
  assumes "rebound s s'"
  shows "bus_devices s' = bus_devices s" "bus_drivers s' = bus_drivers s" "pdrvs s' = pdrvs s"
    "dev_name (dev s' d) = dev_name (dev s d)" "resources (dev s' d) = resources (dev s d)"
    "pd_name (pdevs s' d) = pd_name (pdevs s d)" "pd_base (pdevs s' d) = pd_base (pdevs s d)"
    "pd_irq (pdevs s' d) = pd_irq (pdevs s d)" "matching s' d v = matching s d v"
    "probes_succeed s' = probes_succeed s" "device_resources (pdevs s' d) = device_resources (pdevs s d)"
    "table_entry s' d = table_entry s d"
proof -
  obtain D where "pdevs s' d = (pdevs s d)\<lparr>pd_dev := (dev s d)\<lparr>dev_driver := D\<rparr>\<rparr>"
    using assms unfolding rebound_def by blast
  then show "dev_name (dev s' d) = dev_name (dev s d)" "resources (dev s' d) = resources (dev s d)"
    "pd_name (pdevs s' d) = pd_name (pdevs s d)" "pd_base (pdevs s' d) = pd_base (pdevs s d)"
    "pd_irq (pdevs s' d) = pd_irq (pdevs s d)" "matching s' d v = matching s d v"
    "device_resources (pdevs s' d) = device_resources (pdevs s d)" "table_entry s' d = table_entry s d"
    using assms by (simp_all add: platform_match_def rebound_def device_resources_def table_entry_def)
qed (use assms in \<open>auto simp: rebound_def probes_succeed_def\<close>)

lemma rebound_upd: "rebound s ((upd_dev d (\<lambda>x. x\<lparr>dev_driver := D\<rparr>) s)\<lparr>pworld := w\<rparr>)"
proof -
  have "\<exists>D'. pdevs ((upd_dev d (\<lambda>x. x\<lparr>dev_driver := D\<rparr>) s)\<lparr>pworld := w\<rparr>) e = (pdevs s e)\<lparr>pd_dev := (dev s e)\<lparr>dev_driver := D'\<rparr>\<rparr>" for e
  proof (cases "e = d")
    case True
    then show ?thesis by (auto simp: upd_dev_def)
  next
    case False
    then have "pdevs ((upd_dev d (\<lambda>x. x\<lparr>dev_driver := D\<rparr>) s)\<lparr>pworld := w\<rparr>) e =
      (pdevs s e)\<lparr>pd_dev := (dev s e)\<lparr>dev_driver := dev_driver (dev s e)\<rparr>\<rparr>" by (simp add: upd_dev_def)
    then show ?thesis by blast
  qed
  then show ?thesis by (auto simp: rebound_def upd_dev_def)
qed

lemma try_bind_effect:
  assumes "try_bind d v s = Some (rc, s')" "dev_driver (dev s d) = None"
  shows "rebound s s'" and "e \<noteq> d \<Longrightarrow> pdevs s' e = pdevs s e"
    and "dev_driver (dev s' d) = (if matching s d v \<and> drv_probe_set (drv s v) \<and> rc = 0 then Some v else None)"
    and "probes_succeed s \<Longrightarrow> rc = 0"
proof -
  have "rebound s s' \<and> (e \<noteq> d \<longrightarrow> pdevs s' e = pdevs s e) \<and>
    dev_driver (dev s' d) = (if matching s d v \<and> drv_probe_set (drv s v) \<and> rc = 0 then Some v else None) \<and>
    (probes_succeed s \<longrightarrow> rc = 0)"
  proof (cases "matching s d v \<and> drv_probe_set (drv s v)")
    case False
    then have "s' = s \<and> rc = 0" using assms(1) by (auto simp: try_bind_def split: if_splits)
    then show ?thesis using False assms(2) by auto
  next
    case True
    let ?s = "upd_dev d (\<lambda>x. x\<lparr>dev_driver := Some v\<rparr>) s"
    have v: "dev_driver (dev ?s d) = Some v" "pdrvs ?s = pdrvs s" by (simp_all add: upd_dev_def)
    obtain w where w: "platform_probe_thunk d ?s = Some (rc, ?s\<lparr>pworld := w\<rparr>)"
      and s': "s' = (if rc \<noteq> 0 then upd_dev d (\<lambda>x. x\<lparr>dev_driver := None\<rparr>) (?s\<lparr>pworld := w\<rparr>) else ?s\<lparr>pworld := w\<rparr>)"
    proof -
      obtain r s1 where p: "platform_probe_thunk d ?s = Some (r, s1)" using True assms(1) by (auto simp: try_bind_def)
      then have "\<exists>w. s1 = ?s\<lparr>pworld := w\<rparr>"
        using v by (auto simp: platform_probe_thunk_def split: option.splits) (metis plat_state.surjective plat_state.update_convs(5))+
      moreover have "rc = r" "s' = (if r \<noteq> 0 then upd_dev d (\<lambda>x. x\<lparr>dev_driver := None\<rparr>) s1 else s1)"
        using True assms(1) p by (auto simp: try_bind_def)
      ultimately show thesis using that p by auto
    qed
    have s'': "s' = (upd_dev d (\<lambda>x. x\<lparr>dev_driver := if rc = 0 then Some v else None\<rparr>) s)\<lparr>pworld := w\<rparr>"
      using s' by (simp add: upd_dev_def)
    have "probes_succeed s \<Longrightarrow> rc = 0"
    proof (cases "pdrv_probe (pdrvs s v)")
      case None
      then show ?thesis using w v by (simp add: platform_probe_thunk_def)
    next
      case (Some p)
      assume "probes_succeed s"
      then have "\<exists>w'. p (pdevs ?s d) (pworld ?s) = Some (0, w')"
        using Some by (auto simp: probes_succeed_def split: option.splits)
      then show ?thesis using w v Some by (auto simp: platform_probe_thunk_def)
    qed
    then show ?thesis using True rebound_upd [where s = s and d = d] by (auto simp: s'' upd_dev_def)
  qed
  then show "rebound s s'" "e \<noteq> d \<Longrightarrow> pdevs s' e = pdevs s e"
    "dev_driver (dev s' d) = (if matching s d v \<and> drv_probe_set (drv s v) \<and> rc = 0 then Some v else None)"
    "probes_succeed s \<Longrightarrow> rc = 0" by simp_all
qed

text \<open>A device that is added tries the drivers in order; a driver that is added tries the devices.\<close>

lemma bind_device_effect:
  "bind_device d vs s = Some s' \<Longrightarrow> dev_driver (dev s d) = None \<Longrightarrow> \<forall>v \<in> set vs. drv_probe_set (drv s v) \<Longrightarrow>
   rebound s s' \<and> (\<forall>e. e \<noteq> d \<longrightarrow> pdevs s' e = pdevs s e) \<and>
   (\<forall>v. dev_driver (dev s' d) = Some v \<longrightarrow> v \<in> set vs \<and> matching s d v) \<and>
   (probes_succeed s \<longrightarrow> dev_driver (dev s' d) = List.find (matching s d) vs)"
proof (induction vs arbitrary: s)
  case Nil
  then show ?case by simp
next
  case (Cons v vs)
  obtain rc t where t: "try_bind d v s = Some (rc, t)" "bind_device d vs t = Some s'"
    using Cons.prems(1,2) by (auto split: option.splits)
  note e = try_bind_effect [OF t(1) Cons.prems(2)]
  note f = rebound_frame [OF e(1)]
  show ?case
  proof (cases "dev_driver (dev t d)")
    case None
    have "rebound t s' \<and> (\<forall>e. e \<noteq> d \<longrightarrow> pdevs s' e = pdevs t e) \<and>
      (\<forall>v. dev_driver (dev s' d) = Some v \<longrightarrow> v \<in> set vs \<and> matching t d v) \<and>
      (probes_succeed t \<longrightarrow> dev_driver (dev s' d) = List.find (matching t d) vs)"
      by (rule Cons.IH [OF t(2) None]) (use Cons.prems(3) f in auto)
    moreover have "probes_succeed s \<Longrightarrow> \<not> matching s d v" using None e(3,4) Cons.prems(3) by (auto split: if_splits)
    ultimately show ?thesis using e(1,2) f rebound_trans by auto
  next
    case (Some x)
    then have "s' = t" using t(2) by (cases vs) auto
    moreover have "x = v" "matching s d v" using Some e(3) by (auto split: if_splits)
    ultimately show ?thesis using Some e by auto
  qed
qed

lemma bind_driver_effect:
  "bind_driver v ds err s = Some (rc, s') \<Longrightarrow> drv_probe_set (drv s v) \<Longrightarrow>
   rebound s s' \<and>
   (\<forall>d. dev_driver (dev s' d) = dev_driver (dev s d) \<or>
      dev_driver (dev s d) = None \<and> dev_driver (dev s' d) = Some v \<and> matching s d v) \<and>
   (probes_succeed s \<longrightarrow> (\<forall>d \<in> set ds. dev_driver (dev s d) = None \<and> matching s d v \<longrightarrow> dev_driver (dev s' d) = Some v))"
proof (induction ds arbitrary: s err)
  case Nil
  then show ?case by simp
next
  case (Cons d ds)
  show ?case
  proof (cases "dev_driver (dev s d)")
    case (Some x)
    then have "bind_driver v ds err s = Some (rc, s')" using Cons.prems(1) by simp
    from Cons.IH [OF this Cons.prems(2)] Some show ?thesis by auto
  next
    case None
    obtain r t where t: "try_bind d v s = Some (r, t)" "bind_driver v ds (if r \<noteq> 0 then r else err) t = Some (rc, s')"
      using Cons.prems(1) None by (auto split: option.splits)
    have e: "rebound s t" "\<And>e. e \<noteq> d \<Longrightarrow> pdevs t e = pdevs s e"
      "dev_driver (dev t d) = (if matching s d v \<and> r = 0 then Some v else None)" "probes_succeed s \<Longrightarrow> r = 0"
      using try_bind_effect [OF t(1) None] Cons.prems(2) by auto
    note f = rebound_frame [OF e(1)]
    have ih: "rebound t s'"
      "\<And>d. dev_driver (dev s' d) = dev_driver (dev t d) \<or>
        dev_driver (dev t d) = None \<and> dev_driver (dev s' d) = Some v \<and> matching t d v"
      "probes_succeed t \<Longrightarrow> d \<in> set ds \<Longrightarrow> dev_driver (dev t d) = None \<Longrightarrow> matching t d v \<Longrightarrow> dev_driver (dev s' d) = Some v" for d
      using Cons.IH [OF t(2)] Cons.prems(2) f(3) by auto
    have "dev_driver (dev s' e) = dev_driver (dev s e) \<or>
      dev_driver (dev s e) = None \<and> dev_driver (dev s' e) = Some v \<and> matching s e v" for e
      using ih(2) [of e] e(2) [of e] e(3) None f(3,9) by (cases "e = d") (auto split: if_splits)
    moreover have "dev_driver (dev s' x) = Some v"
      if x: "probes_succeed s" "x \<in> set (d # ds)" "dev_driver (dev s x) = None" "matching s x v" for x
    proof (cases "x = d")
      case True
      then have "dev_driver (dev t x) = Some v" using e(3,4) x by simp
      then show ?thesis using ih(2) [of x] by auto
    next
      case False
      then show ?thesis using ih(3) [of x] x e(2) [of x] f by auto
    qed
    ultimately show ?thesis using rebound_trans [OF e(1) ih(1)] by blast
  qed
qed

lemma find_snoc: "List.find P (xs @ [x]) = (case List.find P xs of Some y \<Rightarrow> Some y | None \<Rightarrow> if P x then Some x else None)"
  by (induction xs) auto

text \<open>The invariant of the registry.\<close>

definition dev_ok :: "'s plat_state \<Rightarrow> nat \<Rightarrow> bool" where
  "dev_ok s d \<longleftrightarrow> dev_name (dev s d) = pd_name (pdevs s d) \<and> resources (dev s d) = device_resources (pdevs s d) \<and>
     (\<forall>v. dev_driver (dev s d) = Some v \<longrightarrow> v \<in> set (bus_drivers s) \<and> matching s d v) \<and>
     (probes_succeed s \<longrightarrow> dev_driver (dev s d) = List.find (matching s d) (bus_drivers s))"

definition bus_inv :: "'s plat_state \<Rightarrow> bool" where
  "bus_inv s \<longleftrightarrow> (\<forall>v \<in> set (bus_drivers s). drv_probe_set (drv s v)) \<and> (\<forall>d \<in> set (bus_devices s). dev_ok s d)"

lemma dev_ok_cong:
  assumes "pdevs t d = pdevs s d" "bus_drivers t = bus_drivers s" "\<And>u. u \<in> set (bus_drivers s) \<Longrightarrow> drv t u = drv s u"
    "probes_succeed t = probes_succeed s"
  shows "dev_ok t d = dev_ok s d"
proof -
  have "matching t d u = matching s d u" if "u \<in> set (bus_drivers s)" for u using that assms(1,3) by simp
  moreover from this have "List.find (matching t d) (bus_drivers s) = List.find (matching s d) (bus_drivers s)"
    by (auto intro!: find_cong)
  ultimately show ?thesis using assms(1,2,4) by (auto simp: dev_ok_def)
qed

lemma bus_inv_device:
  assumes "bus_inv s" "d \<notin> set (bus_devices s)" "platform_device_register d s = Some (rc, s')"
  shows "bus_inv s' \<and> probes_succeed s' = probes_succeed s \<and> table_entry s' = table_entry s \<and> pdrvs s' = pdrvs s \<and> bus_drivers s' = bus_drivers s"
proof -
  define s1 where "s1 = upd_dev d (\<lambda>x. x\<lparr>dev_name := pd_name (pdevs s d), dev_driver := None, resources := device_resources (pdevs s d)\<rparr>) s"
  define s2 where "s2 = upd_dev d (\<lambda>x. x\<lparr>dev_on_bus := True\<rparr>) (s1\<lparr>bus_devices := bus_devices s1 @ [d]\<rparr>)"
  have r: "platform_device_register d s = bus_add_device d s1" by (simp add: platform_device_register_def s1_def)
  have u: "bus_devices s1 = bus_devices s" "bus_drivers s1 = bus_drivers s" "pdrvs s1 = pdrvs s" "probes_succeed s1 = probes_succeed s"
    "\<And>e. e \<noteq> d \<Longrightarrow> pdevs s1 e = pdevs s e" "table_entry s1 = table_entry s"
    by (simp_all add: s1_def upd_dev_def probes_succeed_def table_entry_def fun_eq_iff)
  have t: "bus_devices s2 = bus_devices s @ [d]" "bus_drivers s2 = bus_drivers s" "pdrvs s2 = pdrvs s" "probes_succeed s2 = probes_succeed s"
    "\<And>e. e \<noteq> d \<Longrightarrow> pdevs s2 e = pdevs s e" "dev_name (dev s2 d) = pd_name (pdevs s2 d)"
    "resources (dev s2 d) = device_resources (pdevs s2 d)" "dev_driver (dev s2 d) = None" "table_entry s2 = table_entry s"
    by (simp_all add: s1_def s2_def upd_dev_def device_resources_def probes_succeed_def table_entry_def fun_eq_iff)
  show ?thesis
  proof (cases "length (bus_devices s1) \<ge> BUS_MAX_DEVICES")
    case True
    then have "s' = s1" using assms(3) by (simp add: r bus_add_device_def)
    moreover have "dev_ok s1 x" if "x \<in> set (bus_devices s)" for x
    proof -
      have "x \<noteq> d" using that assms(2) by blast
      then show ?thesis using that assms(1) u dev_ok_cong [of s1 x s] by (simp add: bus_inv_def)
    qed
    ultimately show ?thesis using assms(1) u by (simp add: bus_inv_def)
  next
    case False
    then have b: "bind_device d (bus_drivers s) s2 = Some s'"
      using assms(3) by (simp add: r bus_add_device_def u s2_def)
    have e: "rebound s2 s'" "\<And>e. e \<noteq> d \<Longrightarrow> pdevs s' e = pdevs s2 e"
      "\<And>v. dev_driver (dev s' d) = Some v \<Longrightarrow> v \<in> set (bus_drivers s) \<and> matching s2 d v"
      "probes_succeed s2 \<Longrightarrow> dev_driver (dev s' d) = List.find (matching s2 d) (bus_drivers s)"
      using bind_device_effect [OF b t(8)] assms(1) t(3) by (auto simp: bus_inv_def)
    note f = rebound_frame [OF e(1)]
    have "dev_ok s' d" unfolding dev_ok_def using e(3,4) t f by (simp only:) simp
    moreover have "dev_ok s' x" if "x \<in> set (bus_devices s)" for x
    proof -
      have "x \<noteq> d" using that assms(2) by blast
      then show ?thesis using that assms(1) e(2) t f dev_ok_cong [of s' x s] by (simp add: bus_inv_def)
    qed
    ultimately show ?thesis using assms(1) f t by (simp add: bus_inv_def fun_eq_iff)
  qed
qed

lemma bus_inv_driver:
  assumes "bus_inv s" "v \<notin> set (bus_drivers s)" "platform_driver_register v s = Some (rc, s')"
  shows "bus_inv s' \<and> probes_succeed s' = probes_succeed s \<and> table_entry s' = table_entry s \<and>
    (\<forall>x. x \<noteq> v \<longrightarrow> drv s' x = drv s x) \<and> drv_name (drv s' v) = Some (driver_name s v) \<and> set (bus_drivers s') \<subseteq> insert v (set (bus_drivers s))"
proof -
  define s1 where "s1 = upd_drv v (\<lambda>x. x\<lparr>drv_name := (case drv_name x of Some n \<Rightarrow> Some n | None \<Rightarrow> Some (cstr ''(unnamed)'')), drv_probe_set := True\<rparr>) s"
  define s2 where "s2 = upd_drv v (\<lambda>x. x\<lparr>drv_on_bus := True\<rparr>) (s1\<lparr>bus_drivers := bus_drivers s1 @ [v]\<rparr>)"
  have r: "platform_driver_register v s = bus_add_driver v s1" by (simp add: platform_driver_register_def s1_def)
  have u: "bus_devices s1 = bus_devices s" "bus_drivers s1 = bus_drivers s" "pdevs s1 = pdevs s" "probes_succeed s1 = probes_succeed s"
    "\<And>x. x \<noteq> v \<Longrightarrow> drv s1 x = drv s x" by (auto simp: s1_def upd_drv_def probes_succeed_def)
  have t: "bus_devices s2 = bus_devices s" "bus_drivers s2 = bus_drivers s @ [v]" "pdevs s2 = pdevs s" "probes_succeed s2 = probes_succeed s"
    "\<And>x. x \<noteq> v \<Longrightarrow> drv s2 x = drv s x" "drv_probe_set (drv s2 v)" by (auto simp: s1_def s2_def upd_drv_def probes_succeed_def)
  have nm: "drv_name (drv s1 v) = Some (driver_name s v)" "drv_name (drv s2 v) = Some (driver_name s v)"
    by (auto simp: s1_def s2_def upd_drv_def driver_name_def split: option.splits)
  have tb: "table_entry s1 = table_entry s" "table_entry s2 = table_entry s" using u(3) t(3) by (simp_all add: table_entry_def fun_eq_iff)
  show ?thesis
  proof (cases "length (bus_drivers s1) \<ge> BUS_MAX_DRIVERS")
    case True
    then have s': "s' = s1" using assms(3) by (simp add: r bus_add_driver_def)
    have o: "drv s1 x = drv s x" if "x \<in> set (bus_drivers s)" for x using that assms(2) u(5) by metis
    have "dev_ok s1 x" if "x \<in> set (bus_devices s)" for x
      using that assms(1) o u dev_ok_cong [of s1 x s] by (simp add: bus_inv_def)
    then show ?thesis unfolding s' using assms(1) o u tb nm by (auto simp: bus_inv_def)
  next
    case False
    have b: "bind_driver v (bus_devices s) 0 s2 = Some (rc, s')"
      using False assms(3) by (simp add: r bus_add_driver_def s2_def u)
    have e: "rebound s2 s'"
      "\<And>d. dev_driver (dev s' d) = dev_driver (dev s d) \<or> dev_driver (dev s d) = None \<and> dev_driver (dev s' d) = Some v \<and> matching s2 d v"
      "\<And>d. probes_succeed s \<Longrightarrow> d \<in> set (bus_devices s) \<Longrightarrow> dev_driver (dev s d) = None \<Longrightarrow> matching s2 d v \<Longrightarrow> dev_driver (dev s' d) = Some v"
      using bind_driver_effect [OF b t(6)] t by auto
    note f = rebound_frame [OF e(1)]
    have old: "matching s' d x = matching s d x" if "x \<in> set (bus_drivers s)" for d x
      unfolding f(9) using that assms(2) t(3) t(5) [of x] by (cases "x = v") auto
    have fd: "List.find (matching s' d) (bus_drivers s') =
        (case List.find (matching s d) (bus_drivers s) of Some y \<Rightarrow> Some y | None \<Rightarrow> if matching s2 d v then Some v else None)" for d
    proof -
      have "List.find (matching s' d) (bus_drivers s) = List.find (matching s d) (bus_drivers s)"
        using old by (auto intro!: find_cong)
      then show ?thesis unfolding f(2) t(2) by (simp add: find_snoc f(9) split: option.splits)
    qed
    have "dev_ok s' d" if d: "d \<in> set (bus_devices s)" for d
    proof -
      have inv: "dev_ok s d" using assms(1) d by (simp add: bus_inv_def)
      have "x \<in> set (bus_drivers s') \<and> matching s' d x" if "dev_driver (dev s' d) = Some x" for x
        using that e(2) [of d] inv old [of x d] f(2,9) t(2) by (auto simp: dev_ok_def)
      moreover have "dev_driver (dev s' d) = List.find (matching s' d) (bus_drivers s')" if "probes_succeed s'"
        using that e(2,3) [of d] d inv f(10) t(4) fd [of d] by (auto simp: dev_ok_def split: option.splits)
      ultimately show ?thesis using inv f(4-6,11) t(3) by (simp add: dev_ok_def)
    qed
    moreover have "drv_probe_set (drv s' x)" if "x \<in> set (bus_drivers s')" for x
      using that assms(1) f(2,3) t(2,5,6) by (cases "x = v") (auto simp: bus_inv_def)
    ultimately show ?thesis using f(1-3,10,12) t tb nm by (auto simp: bus_inv_def fun_eq_iff)
  qed
qed

text \<open>Registrations leave the table and the names of the drivers alone; a driver without a name gets one.\<close>

lemma bus_run_inv: "bus_run s0 s \<Longrightarrow> bus_inv s \<and> probes_succeed s = probes_succeed s0 \<and> table_entry s = table_entry s0 \<and>
  driver_name s = driver_name s0 \<and> (\<forall>v \<in> set (bus_drivers s). drv_name (drv s v) = Some (driver_name s0 v))"
proof (induction rule: bus_run.induct)
  case start
  then show ?case by (simp add: bus_register_def bus_inv_def probes_succeed_def table_entry_def driver_name_def fun_eq_iff)
next
  case (device s d rc s')
  then have "bus_inv s' \<and> probes_succeed s' = probes_succeed s \<and> table_entry s' = table_entry s \<and> pdrvs s' = pdrvs s \<and> bus_drivers s' = bus_drivers s"
    using bus_inv_device by blast
  then show ?case using device.IH by (simp add: driver_name_def fun_eq_iff)
next
  case (driver s v rc s')
  then have e: "bus_inv s'" "probes_succeed s' = probes_succeed s" "table_entry s' = table_entry s" "\<And>x. x \<noteq> v \<Longrightarrow> drv s' x = drv s x"
    "drv_name (drv s' v) = Some (driver_name s v)" "set (bus_drivers s') \<subseteq> insert v (set (bus_drivers s))"
    using bus_inv_driver by blast+
  have "driver_name s' x = driver_name s x" for x
    using e(4) [of x] e(5) by (cases "x = v") (simp_all add: driver_name_def)
  moreover have "drv_name (drv s' x) = Some (driver_name s0 x)" if "x \<in> set (bus_drivers s')" for x
    using that e(4) [of x] e(5,6) driver.IH by (cases "x = v") auto
  ultimately show ?case using e driver.IH by (simp add: fun_eq_iff)
qed

lemma matching_names:
  assumes "bus_run s0 s" "names_ok s0" "d \<in> set (bus_devices s)" "v \<in> set (bus_drivers s)"
  shows "matching s d v \<longleftrightarrow> pd_name (pdevs s0 d) = Some (driver_name s0 v)"
proof -
  have "dev_ok s d" "table_entry s = table_entry s0" "drv_name (drv s v) = Some (driver_name s0 v)"
    using bus_run_inv [OF assms(1)] assms(3,4) by (auto simp: bus_inv_def)
  then have "dev_name (dev s d) = pd_name (pdevs s0 d)" "drv_name (drv s v) = Some (driver_name s0 v)"
    by (auto simp: dev_ok_def table_entry_def fun_eq_iff)
  then show ?thesis using assms(2) by (auto simp: platform_match_def names_ok_def strcmp_eq_0 split: option.splits)
qed

lemma device_resource_lookup:
  assumes "resources (pd_dev p) = device_resources p"
  shows "platform_get_resource p IORESOURCE_MEM 0 =
      (if pd_base p = 0 then None else Some \<lparr>r_start = pd_base p, r_end = pd_base p + 0xFFF, r_flags = IORESOURCE_MEM\<rparr>)"
    and "pd_irq p < 2 ^ 31 \<Longrightarrow> platform_get_irq p 0 = (if pd_irq p > 0 then pd_irq p else - 1)"
proof -
  show "platform_get_resource p IORESOURCE_MEM 0 =
      (if pd_base p = 0 then None else Some \<lparr>r_start = pd_base p, r_end = pd_base p + 0xFFF, r_flags = IORESOURCE_MEM\<rparr>)"
    using assms(1) by (simp add: platform_get_resource_def device_resources_def vx_consts)
  assume "pd_irq p < 2 ^ 31"
  then have "0 < pd_irq p \<Longrightarrow> sint (of_int (pd_irq p) :: u32) = pd_irq p"
    by (simp add: signed_of_int signed_take_bit_int_eq_self)
  then show "platform_get_irq p 0 = (if pd_irq p > 0 then pd_irq p else - 1)"
    using assms(1) by (simp add: platform_get_irq_def platform_get_resource_def device_resources_def vx_consts)
qed

text \<open>C39: devices and drivers are registered in any order, each at most once, from a state \<open>s0\<close> whose table
  and drivers have C strings as names.  Then a device of the bus is bound only to a registered driver
  whose name is the one the table gives the device, and when the probes succeed it is bound to the first
  such driver in the order of registration, or to none if there is none; \<open>platform_get_resource\<close> and
  \<open>platform_get_irq\<close> give the driver the memory window and the interrupt of the table's entry.\<close>

theorem platform_binding:
  assumes "bus_run s0 s" "names_ok s0" "d \<in> set (bus_devices s)"
  shows "(\<forall>v. dev_driver (dev s d) = Some v \<longrightarrow> v \<in> set (bus_drivers s) \<and> pd_name (pdevs s0 d) = Some (driver_name s0 v)) \<and>
    (probes_succeed s0 \<longrightarrow> dev_driver (dev s d) = List.find (\<lambda>v. pd_name (pdevs s0 d) = Some (driver_name s0 v)) (bus_drivers s)) \<and>
    platform_get_resource (pdevs s d) IORESOURCE_MEM 0 = (if pd_base (pdevs s0 d) = 0 then None
      else Some \<lparr>r_start = pd_base (pdevs s0 d), r_end = pd_base (pdevs s0 d) + 0xFFF, r_flags = IORESOURCE_MEM\<rparr>) \<and>
    (pd_irq (pdevs s0 d) < 2 ^ 31 \<longrightarrow>
      platform_get_irq (pdevs s d) 0 = (if pd_irq (pdevs s0 d) > 0 then pd_irq (pdevs s0 d) else - 1))"
proof -
  have ok: "dev_ok s d" and pr: "probes_succeed s = probes_succeed s0" and tb: "table_entry s d = table_entry s0 d"
    using bus_run_inv [OF assms(1)] assms(3) by (auto simp: bus_inv_def)
  note m = matching_names [OF assms]
  have "List.find (matching s d) (bus_drivers s) = List.find (\<lambda>v. pd_name (pdevs s0 d) = Some (driver_name s0 v)) (bus_drivers s)"
    using m by (auto intro!: find_cong)
  then show ?thesis using ok pr m tb device_resource_lookup [of "pdevs s d"] by (auto simp: dev_ok_def table_entry_def)
qed

definition demo_driver :: "cstring \<Rightarrow> unit platform_driver" where
  "demo_driver n = \<lparr>pdrv_drv = \<lparr>drv_name = Some n, drv_on_bus = False, drv_probe_set = False\<rparr>,
     pdrv_probe = Some (\<lambda>d w. Some (0, w)), pdrv_remove = None\<rparr>"

definition demo_plat :: "unit plat_state" where
  "demo_plat = \<lparr>bus_devices = [], bus_drivers = [], pdevs = (\<lambda>d. omap_uart0), pdrvs = (\<lambda>v. demo_driver (cstr ''omap-uart'')), pworld = ()\<rparr>"

text \<open>The driver is registered first, the device later.\<close>

theorem platform_binding_witness:
  "\<exists>s s'. platform_driver_register 7 (snd (bus_register demo_plat)) = Some (0, s) \<and> platform_device_register 0 s = Some (0, s') \<and>
     dev_driver (dev s' 0) = Some 7 \<and> platform_get_irq (pdevs s' 0) 0 = 72"
proof -
  let ?s0 = "snd (bus_register demo_plat)"
  define s where "s = upd_drv 7 (\<lambda>x. x\<lparr>drv_on_bus := True, drv_probe_set := True\<rparr>) (?s0\<lparr>bus_drivers := [7]\<rparr>)"
  have v: "platform_driver_register 7 ?s0 = Some (0, s)"
    by (simp add: s_def platform_driver_register_def bus_add_driver_def bus_register_def demo_plat_def upd_drv_def demo_driver_def vx_consts)
  have "strcmp (cstr ''omap-uart'') (cstr ''omap-uart'') = 0" by (simp add: strcmp_eq_0 cstr_def)
  then have "\<exists>s'. platform_device_register 0 s = Some (0, s') \<and> bus_devices s' = [0] \<and> bus_drivers s' = [7] \<and>
    pd_irq (pdevs demo_plat 0) = 72"
    by (simp add: s_def platform_device_register_def bus_add_device_def bus_register_def demo_plat_def upd_drv_def upd_dev_def
        demo_driver_def vx_consts try_bind_def platform_match_def platform_probe_thunk_def omap_uart0_def zero_device_def)
  then obtain s' where d: "platform_device_register 0 s = Some (0, s')" and b: "bus_devices s' = [0]" "bus_drivers s' = [7]"
    and k: "pd_irq (pdevs demo_plat 0) = 72" by blast
  have run: "bus_run demo_plat s'"
  proof (rule bus_run.device [OF _ _ d])
    show "bus_run demo_plat s"
      by (rule bus_run.driver [OF bus_run.start _ v]) (simp add: bus_register_def)
    show "0 \<notin> set (bus_devices s)" by (simp add: s_def upd_drv_def bus_register_def)
  qed
  have n: "names_ok demo_plat" "pd_name (pdevs demo_plat 0) = Some (driver_name demo_plat 7)"
    by (simp_all add: names_ok_def driver_name_def demo_plat_def demo_driver_def omap_uart0_def cstr_def)
  have "probes_succeed demo_plat" by (simp add: probes_succeed_def demo_plat_def demo_driver_def)
  then have "dev_driver (dev s' 0) = Some 7 \<and> platform_get_irq (pdevs s' 0) 0 = 72"
    using conjunct2 [OF platform_binding [OF run n(1), of 0]] b k n(2) by simp
  then show ?thesis using v d by blast
qed

end
