(* ===== verification/Timer.thy ===== *)
theory Timer
  imports Uart Platform
begin

section \<open>The system timer and the drivers of the platform bus (\<open>kernel/src/drivers/timer.c\<close>)\<close>

text \<open>
  DMTimer2 gives the scheduler its tick and, before that, a free-running counter for \<open>delay_ms\<close>.  The
  state extends that of the console by the tick counter, so the timer's handler and the console's can
  stand in one handler table.  A wait with no bound in the code is a partial function; so is
  \<open>while (1)\<close>, which is \<open>None\<close>.  The last part wires the drivers of the console, the interrupt
  controller and the timer to the platform bus.  Messages on the console are left out.
\<close>

subsection \<open>Registers\<close>

definition CM_PER_L4LS_CLKSTCTRL :: u32 where [vx_consts]: "CM_PER_L4LS_CLKSTCTRL = 0x44E00000"
definition CM_PER_TIMER2_CLKCTRL :: u32 where [vx_consts]: "CM_PER_TIMER2_CLKCTRL = 0x44E00080"
definition CLKTRCTRL_MASK :: u32 where [vx_consts]: "CLKTRCTRL_MASK = 3"
definition CLKTRCTRL_SW_WKUP :: u32 where [vx_consts]: "CLKTRCTRL_SW_WKUP = 2"
definition MODULEMODE_MASK :: u32 where [vx_consts]: "MODULEMODE_MASK = 3"
definition MODULEMODE_ENABLE :: u32 where [vx_consts]: "MODULEMODE_ENABLE = 2"
definition IDLEST_MASK :: u32 where [vx_consts]: "IDLEST_MASK = 3"
definition IDLEST_SHIFT :: nat where [vx_consts]: "IDLEST_SHIFT = 16"
definition IDLEST_FUNC :: u32 where [vx_consts]: "IDLEST_FUNC = 0"
definition DMTIMER2_BASE :: u32 where [vx_consts]: "DMTIMER2_BASE = 0x48040000"
definition TIMER2_IRQ :: u32 where [vx_consts]: "TIMER2_IRQ = 68"
definition TIOCP_CFG :: u32 where [vx_consts]: "TIOCP_CFG = 0x10"
definition IRQSTATUS :: u32 where [vx_consts]: "IRQSTATUS = 0x28"
definition IRQENABLE_SET :: u32 where [vx_consts]: "IRQENABLE_SET = 0x2C"
definition TCLR :: u32 where [vx_consts]: "TCLR = 0x38"
definition TCRR :: u32 where [vx_consts]: "TCRR = 0x3C"
definition TLDR :: u32 where [vx_consts]: "TLDR = 0x40"
definition TWPS :: u32 where [vx_consts]: "TWPS = 0x48"
definition TSICR :: u32 where [vx_consts]: "TSICR = 0x54"
definition TIOCP_SOFTRESET :: u32 where [vx_consts]: "TIOCP_SOFTRESET = 1"
definition TSICR_POSTED :: u32 where [vx_consts]: "TSICR_POSTED = 4"
definition TWPS_W_PEND_TCLR :: u32 where [vx_consts]: "TWPS_W_PEND_TCLR = 1"
definition TWPS_W_PEND_TCRR :: u32 where [vx_consts]: "TWPS_W_PEND_TCRR = 2"
definition TWPS_W_PEND_TLDR :: u32 where [vx_consts]: "TWPS_W_PEND_TLDR = 4"
definition TCLR_ST :: u32 where [vx_consts]: "TCLR_ST = 1"
definition TCLR_AR :: u32 where [vx_consts]: "TCLR_AR = 2"
definition IRQ_OVF_IT_FLAG :: u32 where [vx_consts]: "IRQ_OVF_IT_FLAG = 2"
definition TICKS_PER_MS :: u32 where [vx_consts]: "TICKS_PER_MS = 24000"
definition CM_DPLL_CLKSEL_TIMER2_CLK :: u32 where [vx_consts]: "CM_DPLL_CLKSEL_TIMER2_CLK = 0x44E00508"
definition CLKSEL_CLK_M_OSC :: u32 where [vx_consts]: "CLKSEL_CLK_M_OSC = 1"

record 'w timer_state = "'w uart_state" +
  timer_ticks :: u32

subsection \<open>Waiting\<close>

text \<open>\<open>while (busy(mmio_read32(addr)) && timeout--);\<close> with the value \<open>timeout\<close> has afterwards: the
  post-decrement of 0 leaves \<open>0xFFFFFFFF\<close>.\<close>

fun poll :: "'w bus \<Rightarrow> u32 \<Rightarrow> (u32 \<Rightarrow> bool) \<Rightarrow> nat \<Rightarrow> 'w \<Rightarrow> u32 \<times> 'w" where
  "poll B addr busy 0 w = (case mmio_read32 B addr w of (v, w') \<Rightarrow> (if busy v then 0xFFFFFFFF else 0, w'))"
| "poll B addr busy (Suc t) w = (case mmio_read32 B addr w of (v, w') \<Rightarrow>
     if busy v then poll B addr busy t w' else (of_nat (Suc t), w'))"

partial_function (option) spin :: "'w bus \<Rightarrow> u32 \<Rightarrow> (u32 \<Rightarrow> bool) \<Rightarrow> 'w \<Rightarrow> 'w option" where
  "spin B addr busy w = (case mmio_read32 B addr w of (v, w') \<Rightarrow> if busy v then spin B addr busy w' else Some w')"

text \<open>The loop that waits for the module clock; \<open>None\<close> is its final \<open>while (1)\<close>.\<close>

fun clock_ready :: "'w bus \<Rightarrow> nat \<Rightarrow> 'w \<Rightarrow> 'w option" where
  "clock_ready B 0 w = None"
| "clock_ready B (Suc t) w = (case mmio_read32 B CM_PER_TIMER2_CLKCTRL w of (v, w') \<Rightarrow>
     if drop_bit IDLEST_SHIFT v AND IDLEST_MASK = IDLEST_FUNC \<and> v AND MODULEMODE_MASK = MODULEMODE_ENABLE
     then Some w' else clock_ready B t w')"

definition l4ls_wakeup :: "'w bus \<Rightarrow> 'w \<Rightarrow> 'w option" where
  "l4ls_wakeup B w0 =
     (case mmio_read32 B CM_PER_L4LS_CLKSTCTRL w0 of (v, w) \<Rightarrow>
        if v AND CLKTRCTRL_MASK \<noteq> CLKTRCTRL_SW_WKUP
        then (case poll B CM_PER_L4LS_CLKSTCTRL (\<lambda>v. v AND CLKTRCTRL_MASK \<noteq> CLKTRCTRL_SW_WKUP) 10000
                (mmio_write32 B CM_PER_L4LS_CLKSTCTRL CLKTRCTRL_SW_WKUP w) of
              (timeout, w') \<Rightarrow> if timeout = 0 then None else Some w')
        else Some w)"

definition timer2_clock_enable :: "'w bus \<Rightarrow> 'w \<Rightarrow> 'w option" where
  "timer2_clock_enable B w =
     (case l4ls_wakeup B w of
        None \<Rightarrow> None
      | Some w' \<Rightarrow> clock_ready B 100000 (mmio_write32 B CM_PER_TIMER2_CLKCTRL MODULEMODE_ENABLE w'))"

subsection \<open>The tick\<close>

definition timer_irq_handler :: "'w bus \<Rightarrow> ('w, 'a) timer_state_scheme \<Rightarrow> ('w, 'a) timer_state_scheme option" where
  "timer_irq_handler B s =
     map_option (\<lambda>sc. s\<lparr>ihw := mmio_write32 B (DMTIMER2_BASE + IRQSTATUS) IRQ_OVF_IT_FLAG (ihw s),
         timer_ticks := timer_ticks s + 1, usc := sc\<rparr>) (scheduler_tick (usc s))"

definition wait_posted :: "'w bus \<Rightarrow> u32 \<Rightarrow> 'w \<Rightarrow> 'w" where
  "wait_posted B bits w = snd (poll B (DMTIMER2_BASE + TWPS) (\<lambda>v. v AND bits \<noteq> 0) 10000 w)"

definition timer_reload :: u32 where
  "timer_reload = 0xFFFFFFFF - (24000000 div 1000) * 10 + 1"

text \<open>\<open>h\<close> stands for the address of \<open>timer_irq_handler\<close>.\<close>

definition timer_start :: "'w bus \<Rightarrow> nat \<Rightarrow> ('w, 'a) timer_state_scheme \<Rightarrow> ('w, 'a) timer_state_scheme" where
  "timer_start B h s =
     (let w1 = wait_posted B TWPS_W_PEND_TCLR (bus_writes B [(DMTIMER2_BASE + TSICR, TSICR_POSTED), (DMTIMER2_BASE + TCLR, 0)] (ihw s));
          w2 = wait_posted B TWPS_W_PEND_TLDR (bus_writes B [(DMTIMER2_BASE + IRQSTATUS, 7), (DMTIMER2_BASE + TLDR, timer_reload)] w1);
          w3 = wait_posted B TWPS_W_PEND_TCRR (mmio_write32 B (DMTIMER2_BASE + TCRR) timer_reload w2);
          w4 = mmio_write32 B (DMTIMER2_BASE + IRQENABLE_SET) IRQ_OVF_IT_FLAG w3
      in case irq_register_handler TIMER2_IRQ (Some h) None (s\<lparr>ihw := w4\<rparr>) of (rc, s1) \<Rightarrow>
        if rc \<noteq> 0 then s1
        else let w5 = wait_posted B TWPS_W_PEND_TCLR (mmio_write32 B (DMTIMER2_BASE + TCLR) TCLR_AR (intc_enable_irq B TIMER2_IRQ (ihw s1)))
          in s1\<lparr>ihw := mmio_write32 B (DMTIMER2_BASE + TCLR) (TCLR_AR OR TCLR_ST) w5\<rparr>)"

definition timer_init :: "'w bus \<Rightarrow> nat \<Rightarrow> ('w, 'a) timer_state_scheme \<Rightarrow> ('w, 'a) timer_state_scheme option" where
  "timer_init B h s =
     (case timer2_clock_enable B (ihw s) of
        None \<Rightarrow> None
      | Some w \<Rightarrow> (case poll B (DMTIMER2_BASE + TIOCP_CFG) (\<lambda>v. v AND TIOCP_SOFTRESET \<noteq> 0) 10000
            (mmio_write32 B (DMTIMER2_BASE + TIOCP_CFG) TIOCP_SOFTRESET w) of
          (timeout, w') \<Rightarrow> if timeout = 0 then None else Some (timer_start B h (s\<lparr>ihw := w'\<rparr>))))"

definition timer_ticks_now :: "('w, 'a) timer_state_scheme \<Rightarrow> u32" where
  "timer_ticks_now s = timer_ticks s"

subsection \<open>Delays\<close>

definition timer_early_init :: "'w bus \<Rightarrow> 'w \<Rightarrow> 'w option" where
  "timer_early_init B w0 =
     (case mmio_read32 B CM_PER_L4LS_CLKSTCTRL w0 of (v, w1) \<Rightarrow>
        let w2 = (if v AND CLKTRCTRL_MASK \<noteq> CLKTRCTRL_SW_WKUP then mmio_write32 B CM_PER_L4LS_CLKSTCTRL CLKTRCTRL_SW_WKUP w1 else w1) in
        case spin B CM_DPLL_CLKSEL_TIMER2_CLK (\<lambda>v. v AND 3 \<noteq> CLKSEL_CLK_M_OSC)
            (mmio_write32 B CM_DPLL_CLKSEL_TIMER2_CLK CLKSEL_CLK_M_OSC w2) of
          None \<Rightarrow> None
        | Some w3 \<Rightarrow> (case spin B CM_PER_TIMER2_CLKCTRL (\<lambda>v. drop_bit IDLEST_SHIFT v AND IDLEST_MASK \<noteq> IDLEST_FUNC)
              (mmio_write32 B CM_PER_TIMER2_CLKCTRL MODULEMODE_ENABLE w3) of
            None \<Rightarrow> None
          | Some w4 \<Rightarrow> map_option (mmio_write32 B (DMTIMER2_BASE + TCLR) TCLR_ST)
              (spin B (DMTIMER2_BASE + TIOCP_CFG) (\<lambda>v. v AND TIOCP_SOFTRESET \<noteq> 0)
                (mmio_write32 B (DMTIMER2_BASE + TIOCP_CFG) TIOCP_SOFTRESET w4))))"

definition delay_ms :: "'w bus \<Rightarrow> u32 \<Rightarrow> 'w \<Rightarrow> 'w option" where
  "delay_ms B ms w =
     (case mmio_read32 B (DMTIMER2_BASE + TCRR) w of (start, w1) \<Rightarrow>
        spin B (DMTIMER2_BASE + TCRR) (\<lambda>v. v - start < ms * TICKS_PER_MS) w1)"

subsection \<open>Drivers of the platform bus\<close>

definition omap_uart_probe :: "platform_device \<Rightarrow> ('w, 'a) timer_state_scheme \<Rightarrow> (int \<times> ('w, 'a) timer_state_scheme) option" where
  "omap_uart_probe pdev s = Some (0, uart_init s)"

definition omap_intc_probe :: "'w bus \<Rightarrow> platform_device \<Rightarrow> ('w, 'a) timer_state_scheme \<Rightarrow> (int \<times> ('w, 'a) timer_state_scheme) option" where
  "omap_intc_probe B pdev s = Some (0, s\<lparr>ihw := intc_init B (ihw s)\<rparr>)"

definition omap_dmtimer_probe :: "'w bus \<Rightarrow> nat \<Rightarrow> platform_device \<Rightarrow> ('w, 'a) timer_state_scheme \<Rightarrow> (int \<times> ('w, 'a) timer_state_scheme) option" where
  "omap_dmtimer_probe B h pdev s = map_option (Pair 0) (timer_init B h s)"

definition bus_driver :: "cstring \<Rightarrow> (platform_device \<Rightarrow> 's \<Rightarrow> (int \<times> 's) option) \<Rightarrow> 's platform_driver" where
  "bus_driver n probe = \<lparr>pdrv_drv = \<lparr>drv_name = Some n, drv_on_bus = False, drv_probe_set = False\<rparr>,
     pdrv_probe = Some probe, pdrv_remove = None\<rparr>"

definition omap_uart_driver :: "('w, 'a) timer_state_scheme platform_driver" where
  "omap_uart_driver = bus_driver (cstr ''omap-uart'') omap_uart_probe"

definition omap_intc_driver :: "'w bus \<Rightarrow> ('w, 'a) timer_state_scheme platform_driver" where
  "omap_intc_driver B = bus_driver (cstr ''omap-intc'') (omap_intc_probe B)"

definition omap_dmtimer_driver :: "'w bus \<Rightarrow> nat \<Rightarrow> ('w, 'a) timer_state_scheme platform_driver" where
  "omap_dmtimer_driver B h = bus_driver (cstr ''omap-dmtimer'') (omap_dmtimer_probe B h)"

subsection \<open>Properties\<close>

text \<open>A time-out is never seen as one: the counter is not 0 then.  It is 0 when the awaited state shows at
  the last possible read.\<close>

lemma poll_timeout:
  assumes "\<And>u. busy (fst (mmio_read32 B addr u))"
  shows "fst (poll B addr busy t w) = 0xFFFFFFFF"
proof (induction t arbitrary: w)
  case 0
  then show ?case using assms [of w] by (cases "mmio_read32 B addr w") simp
next
  case (Suc t)
  then show ?case using assms [of w] by (cases "mmio_read32 B addr w") simp
qed

text \<open>The reload value leaves 240000 counts of the 24 MHz clock until the overflow, which is 10 ms.\<close>

lemma timer_reload_period: "2 ^ 32 - unat timer_reload = 10 * unat TICKS_PER_MS"
  by (simp add: timer_reload_def TICKS_PER_MS_def)

text \<open>The counter as \<open>timer_early_init\<close> leaves it, started from 0 without auto-reload: \<open>t\<close> is the number of
  counts of the 24 MHz clock since the start.  A read shows it until the overflow; from then on the
  counter stands still at 0 (one-shot mode).  At most \<open>k\<close> counts pass from one read to the next.\<close>

definition one_shot :: "'w bus \<Rightarrow> ('w \<Rightarrow> nat) \<Rightarrow> nat \<Rightarrow> bool" where
  "one_shot B t k \<longleftrightarrow> (\<forall>w. case mmio_read32 B (DMTIMER2_BASE + TCRR) w of (v, w') \<Rightarrow>
     v = (if t w < 2 ^ 32 then of_nat (t w) else 0) \<and> t w < t w' \<and> t w' \<le> t w + k)"

lemma one_shotD:
  assumes "one_shot B t k" "mmio_read32 B (DMTIMER2_BASE + TCRR) w = (v, w')"
  shows "v = (if t w < 2 ^ 32 then of_nat (t w) else 0)" "t w < t w'" "t w' \<le> t w + k"
  using assms unfolding one_shot_def by (metis (mono_tags, lifting) case_prod_conv)+

lemma elapsed_word:
  assumes "t0 \<le> t" "t - t0 < 2 ^ 32"
  shows "unat (of_nat t - of_nat t0 :: u32) = t - t0"
proof -
  have "of_nat t - of_nat t0 = (of_nat (t - t0) :: u32)" using assms(1) by (simp add: of_nat_diff)
  then show ?thesis using assms(2) by (simp add: unat_of_nat take_bit_nat_eq_self)
qed

text \<open>What the delay loop sees at time \<open>u\<close> when it started at time \<open>t0\<close>.\<close>

lemma elapsed_one_shot:
  assumes "t0 \<le> u"
  shows "unat ((if u < 2 ^ 32 then of_nat u else 0) - (if t0 < 2 ^ 32 then of_nat t0 else 0) :: u32) =
    (if u < 2 ^ 32 then u - t0 else if t0 = 0 \<or> 2 ^ 32 \<le> t0 then 0 else 2 ^ 32 - t0)"
proof -
  have "unat (- of_nat t0 :: u32) = 2 ^ 32 - t0" if "0 < t0" "t0 < 2 ^ 32"
  proof -
    have "- of_nat t0 = (of_nat (2 ^ 32) - of_nat t0 :: u32)" by simp
    moreover have "unat (of_nat (2 ^ 32) - of_nat t0 :: u32) = 2 ^ 32 - t0" by (rule elapsed_word) (use that in auto)
    ultimately show ?thesis by (simp only:)
  qed
  then show ?thesis using assms elapsed_word [OF assms] by auto
qed

lemma spin_delay:
  assumes "one_shot B t k" "t0 + unat d \<le> 2 ^ 32" "0 < t0" "t0 \<le> t w" "t w < t0 + unat d + k"
  shows "\<exists>w'. spin B (DMTIMER2_BASE + TCRR) (\<lambda>v. v - (if t0 < 2 ^ 32 then of_nat t0 else 0) < d) w = Some w' \<and>
    t0 + unat d \<le> t w' \<and> t w' \<le> t0 + unat d + 2 * k"
  using assms(4-5)
proof (induction "t0 + unat d - t w" arbitrary: w rule: less_induct)
  case less
  let ?s = "(if t0 < 2 ^ 32 then of_nat t0 else 0) :: u32"
  obtain v w1 where rd: "mmio_read32 B (DMTIMER2_BASE + TCRR) w = (v, w1)" by fastforce
  note v = one_shotD [OF assms(1) rd]
  have e: "v - ?s < d \<longleftrightarrow> t w < t0 + unat d"
    using elapsed_one_shot [OF less.prems(1)] assms(2,3) less.prems unsigned_less [of d, where 'a = nat]
    unfolding v(1) word_less_nat_alt by (auto split: if_splits)
  show ?case
  proof (cases "t w < t0 + unat d")
    case True
    have "\<exists>w'. spin B (DMTIMER2_BASE + TCRR) (\<lambda>v. v - ?s < d) w1 = Some w' \<and> t0 + unat d \<le> t w' \<and> t w' \<le> t0 + unat d + 2 * k"
      by (rule less.hyps) (use True v less.prems in auto)
    then show ?thesis using True e rd by (subst spin.simps) simp
  next
    case False
    then show ?thesis using e rd v less.prems by (subst spin.simps) simp
  qed
qed

text \<open>A wait whose condition never turns false does not end.\<close>

lemma spin_forever:
  assumes "\<And>u v u'. P u \<Longrightarrow> mmio_read32 B addr u = (v, u') \<Longrightarrow> busy v \<and> P u'" "P w"
  shows "spin B addr busy w = None"
proof -
  have "\<not> P w" if "spin B addr busy w = Some y" for y w
  proof -
    have "B = B \<and> addr = addr \<and> busy = busy \<longrightarrow> \<not> P w"
    proof (rule spin.raw_induct [OF _ that, where P = "\<lambda>b a c u z. b = B \<and> a = addr \<and> c = busy \<longrightarrow> \<not> P u"], goal_cases)
      case (1 f b a c u z)
      then show ?case using assms(1) [of u] by (fastforce split: prod.splits if_splits)
    qed
    then show ?thesis by simp
  qed
  then show ?thesis using assms(2) by fastforce
qed

text \<open>C40: on the counter as \<open>timer_early_init\<close> leaves it (one-shot: it stops at 0 when it overflows), at
  least one count after its start, a delay of \<open>ms\<close> milliseconds lasts \<open>ms * 24000\<close> counts, taken modulo \<open>2 ^ 32\<close>.  When that is 0 or the
  delay ends no later than the overflow, \<open>delay_ms\<close> returns, not before that many counts and at most two
  reads of the counter later; otherwise it never returns.\<close>

theorem delay_ms_elapsed:
  assumes "one_shot B t k" "0 < t w" "d = unat ms * 24000 mod 2 ^ 32"
  shows "if d = 0 \<or> t w + d \<le> 2 ^ 32
    then \<exists>w'. delay_ms B ms w = Some w' \<and> t w + d \<le> t w' \<and> t w' \<le> t w + d + 2 * k
    else delay_ms B ms w = None"
proof -
  obtain v w1 where rd: "mmio_read32 B (DMTIMER2_BASE + TCRR) w = (v, w1)" by fastforce
  note v = one_shotD [OF assms(1) rd]
  have d: "unat (ms * TICKS_PER_MS) = d" using assms(3) by (simp add: TICKS_PER_MS_def unat_word_ariths)
  have dl: "delay_ms B ms w = spin B (DMTIMER2_BASE + TCRR) (\<lambda>x. x - (if t w < 2 ^ 32 then of_nat (t w) else 0) < ms * TICKS_PER_MS) w1"
    by (simp add: delay_ms_def rd v(1))
  consider (zero) "d = 0" | (ends) "0 < d" "t w + d \<le> 2 ^ 32" | (hangs) "0 < d" "2 ^ 32 < t w + d" by linarith
  then show ?thesis
  proof cases
    case zero
    obtain v2 w2 where rd2: "mmio_read32 B (DMTIMER2_BASE + TCRR) w1 = (v2, w2)" by fastforce
    have "ms * TICKS_PER_MS = 0" using zero d by (simp add: unat_eq_zero)
    then have "delay_ms B ms w = Some w2" unfolding dl by (subst spin.simps) (simp add: rd2)
    then show ?thesis using zero v one_shotD(2,3) [OF assms(1) rd2] by auto
  next
    case ends
    then have "\<exists>w'. delay_ms B ms w = Some w' \<and> t w + d \<le> t w' \<and> t w' \<le> t w + d + 2 * k"
      unfolding dl d [symmetric] by (intro spin_delay [OF assms(1)]) (use v d ends assms(2) in auto)
    then show ?thesis using ends by simp
  next
    case hangs
    have "unat ((if t u < 2 ^ 32 then of_nat (t u) else 0) - (if t w < 2 ^ 32 then of_nat (t w) else 0) :: u32) < d" if "t w \<le> t u" for u
      using elapsed_one_shot [OF that] hangs unsigned_less [of "ms * TICKS_PER_MS", where 'a = nat] d by (auto split: if_splits)
    then have "delay_ms B ms w = None" unfolding dl
      by (intro spin_forever [where P = "\<lambda>u. t w \<le> t u"])
        (use v(2) d one_shotD [OF assms(1)] in \<open>fastforce simp: word_less_nat_alt\<close>)+
    then show ?thesis using hangs by simp
  qed
qed

text \<open>A counter that five counts pass from read to read.  A delay of 3 ms right after the start returns; one
  that starts 100 counts before the overflow does not, and neither does any delay after the overflow.\<close>

definition count_bus :: "nat bus" where
  "count_bus = \<lparr>mmio_read32 = (\<lambda>a n. (if n < 2 ^ 32 then of_nat n else 0, n + 5)), mmio_write32 = (\<lambda>a v n. n), mem_load = (\<lambda>a l n. []),
     mem_store = (\<lambda>a bs n. n), timer_get_ticks = (\<lambda>n. (0, n))\<rparr>"

theorem delay_ms_elapsed_witness:
  "(\<exists>n. delay_ms count_bus 3 1 = Some n \<and> 72001 \<le> n \<and> n \<le> 72011) \<and> delay_ms count_bus 3 (2 ^ 32 - 100) = None \<and>
   delay_ms count_bus 1 (2 ^ 32) = None"
proof -
  have c: "one_shot count_bus (\<lambda>n. n) 5" by (simp add: one_shot_def count_bus_def)
  show ?thesis using delay_ms_elapsed [OF c _ refl, of 1 3] delay_ms_elapsed [OF c _ refl, of "2 ^ 32 - 100" 3]
    delay_ms_elapsed [OF c _ refl, of "2 ^ 32" 1] by simp
qed

end
