(* ===== verification/Exec_Args.thy ===== *)
theory Exec_Args
  imports Exec Timer
begin

section \<open>The arguments of a new program\<close>

text \<open>
  \<open>snapshot_argv\<close> copies the arguments of \<open>do_exec\<close> into a kernel buffer and \<open>install_argv\<close> writes them
  into the memory of the new program.  \<open>user_args\<close> says that user memory holds an argument vector at
  an address; the two functions take an argument vector of the caller to the same one for the new
  program, as long as there are fewer than 16 arguments and they fit into 448 bytes.  With 16
  arguments the terminating null pointer falls onto the first string.
\<close>

definition user_args :: "umem \<Rightarrow> u32 \<Rightarrow> cstring list \<Rightarrow> bool" where
  "user_args um argv ws \<longleftrightarrow> in_user_space argv 64 \<and> length ws < 16 \<and> argv \<noteq> 0 \<and>
     (\<forall>i < length ws. let p = uload32 um (argv + 4 * of_nat i) in p \<noteq> 0 \<and> user_string um p = Inr (ws ! i)) \<and>
     uload32 um (argv + 4 * of_nat (length ws)) = 0"

definition packed :: "cstring list \<Rightarrow> u8 list" where
  "packed ws = concat (map (\<lambda>w. w @ [0]) ws)"

definition offsets :: "cstring list \<Rightarrow> u16 list" where
  "offsets ws = map (\<lambda>i. of_nat (length (packed (take i ws)))) [0..<length ws]"

lemma packed_simps [simp]: "packed [] = []" "packed (w # ws) = w @ 0 # packed ws" "packed (ws @ vs) = packed ws @ packed vs"
  by (simp_all add: packed_def)

lemma length_offsets [simp]: "length (offsets ws) = length ws"
  by (simp add: offsets_def)

lemma packed_split:
  assumes "i < length ws"
  shows "packed ws = packed (take i ws) @ ws ! i @ 0 # packed (drop (Suc i) ws)"
proof -
  have "packed ws = packed (take i ws @ ws ! i # drop (Suc i) ws)" using id_take_nth_drop [OF assms] by simp
  then show ?thesis by simp
qed

lemma packed_split_length:
  "i < length ws \<Longrightarrow> length (packed (take i ws)) + length (ws ! i) + 1 \<le> length (packed ws)"
  using arg_cong [OF packed_split, of i ws length] by simp

subsection \<open>Strings in user memory\<close>

lemma ustr_iff:
  "ustr um p n = Some w \<longleftrightarrow>
     length w < n \<and> 0 \<notin> set w \<and> (\<forall>i < length w. um (p + of_nat i) = w ! i) \<and> um (p + of_nat (length w)) = 0"
proof (induction n arbitrary: p w)
  case 0
  then show ?case by simp
next
  case (Suc n)
  show ?case
  proof (cases w)
    case Nil
    then show ?thesis by simp
  next
    case (Cons c v)
    have "(\<forall>i < length w. um (p + of_nat i) = w ! i) \<longleftrightarrow> um p = c \<and> (\<forall>i < length v. um (p + 1 + of_nat i) = v ! i)"
      unfolding Cons by (auto simp: less_Suc_eq_0_disj ac_simps)
    then show ?thesis using Suc.IH [of "p + 1" v] by (auto simp: Cons ac_simps)
  qed
qed

lemma user_end_minus: "in_user_space p 1 \<Longrightarrow> unat (USER_END - p) = 0x40100000 - unat p"
proof -
  assume "in_user_space p 1"
  then have "unat p \<le> unat USER_END" by (simp add: in_user_space_unat USER_END_def USER_SPACE_VA_def USER_SPACE_BYTES_def)
  then show ?thesis by (simp add: unat_sub word_le_nat_alt) (simp add: USER_END_def USER_SPACE_VA_def USER_SPACE_BYTES_def)
qed

lemma user_string_iff:
  "user_string um p = Inr w \<longleftrightarrow> 0x40000000 \<le> unat p \<and> unat p + length w < 0x40100000 \<and> 0 \<notin> set w \<and>
     (\<forall>i < length w. um (p + of_nat i) = w ! i) \<and> um (p + of_nat (length w)) = 0"
proof (cases "in_user_space p 1")
  case True
  have "user_string um p = Inr w \<longleftrightarrow> ustr um p (0x40100000 - unat p) = Some w"
    using True user_end_minus [OF True] by (auto simp: user_string_def split: option.splits)
  then show ?thesis unfolding ustr_iff using True [unfolded in_user_space_unat] by auto
next
  case False
  then show ?thesis unfolding in_user_space_unat by (auto simp: user_string_def in_user_space_unat)
qed

lemma copy_arg_string:
  "user_string um p = Inr w \<Longrightarrow> length kbuf + length w < USER_ARGV_STRS_SZ \<Longrightarrow>
   copy_arg um p kbuf = Inr (Inr (kbuf @ w @ [0]))"
proof (induction w arbitrary: p kbuf)
  case Nil
  then have "in_user_space p 1" "um p = 0" by (auto simp: user_string_iff in_user_space_unat)
  then show ?case using Nil.prems(2) by (simp add: copy_arg.simps [of um p])
next
  case (Cons c w)
  have f: "0x40000000 \<le> unat p" "unat p + Suc (length w) < 0x40100000" "c \<noteq> 0" "0 \<notin> set w"
    "\<forall>i < Suc (length w). um (p + of_nat i) = (c # w) ! i" "um (p + of_nat (Suc (length w))) = 0"
    using Cons.prems(1) by (auto simp: user_string_iff)
  have p: "um p = c" using f(5) by force
  have n: "unat (p + 1) = unat p + 1" using f(2) by (simp add: unat_word_ariths)
  have "um (p + 1 + of_nat i) = w ! i" if "i < length w" for i
    using f(5) [rule_format, of "Suc i"] that by (simp add: ac_simps)
  then have "user_string um (p + 1) = Inr w" using f n by (auto simp: user_string_iff ac_simps)
  then have "copy_arg um (p + 1) (kbuf @ [c]) = Inr (Inr ((kbuf @ [c]) @ w @ [0]))"
    by (rule Cons.IH) (use Cons.prems(2) in simp)
  then show ?case using f p Cons.prems(2) by (simp add: copy_arg.simps [of um p] in_user_space_unat)
qed

subsection \<open>The snapshot\<close>

lemma snapshot_loop_args:
  assumes "user_args um argv ws" "length (packed ws) \<le> USER_ARGV_STRS_SZ"
  shows "k + m = length ws \<Longrightarrow> m < n \<Longrightarrow>
    snapshot_loop um argv k n (packed (take k ws)) (map (\<lambda>i. of_nat (length (packed (take i ws)))) [0..<k]) = Inr (Inr (packed ws, offsets ws))"
proof (induction m arbitrary: k n)
  case 0
  then obtain n' where "n = Suc n'" by (cases n) auto
  then show ?case using 0 assms(1) by (simp add: user_args_def offsets_def)
next
  case (Suc m)
  obtain n' where n: "n = Suc n'" "m < n'" using Suc.prems(2) by (cases n) auto
  have k: "k < length ws" using Suc.prems(1) by simp
  let ?p = "uload32 um (argv + 4 * of_nat k)"
  have s: "?p \<noteq> 0" "user_string um ?p = Inr (ws ! k)" using assms(1) k by (auto simp: user_args_def Let_def)
  then have "in_user_space ?p 1" by (auto simp: user_string_iff in_user_space_unat)
  moreover have "copy_arg um ?p (packed (take k ws)) = Inr (Inr (packed (take k ws) @ ws ! k @ [0]))"
    using packed_split_length [OF k] assms(2) by (intro copy_arg_string [OF s(2)]) simp
  moreover have "packed (take k ws) @ ws ! k @ [0] = packed (take (Suc k) ws)" using k by (simp add: take_Suc_conv_app_nth)
  ultimately show ?case using Suc.IH [of "Suc k" n'] Suc.prems(1) n s(1) by simp
qed

lemma snapshot_args:
  assumes "user_args um argv ws" "length (packed ws) \<le> USER_ARGV_STRS_SZ"
  shows "snapshot_argv um argv = Inr (Inr (packed ws, offsets ws))"
proof -
  have "length ws < USER_ARGV_MAX" "in_user_space argv (4 * of_nat USER_ARGV_MAX)" "argv \<noteq> 0"
    using assms(1) by (simp_all add: user_args_def USER_ARGV_MAX_def)
  then show ?thesis using snapshot_loop_args [OF assms, of 0 "length ws" USER_ARGV_MAX] by (simp add: snapshot_argv_def)
qed

lemma unat_offset:
  "length (packed ws) \<le> 448 \<Longrightarrow> i < length ws \<Longrightarrow> unat (offsets ws ! i) = length (packed (take i ws))"
  using packed_split_length [of i ws] by (simp add: offsets_def unat_of_nat take_bit_nat_eq_self)

lemma snap_end_packed:
  assumes "length (packed ws) \<le> 448" "\<forall>w \<in> set ws. 0 \<notin> set w"
  shows "snap_end (packed ws) (offsets ws) = length (packed ws)"
proof (cases ws rule: rev_cases)
  case Nil
  then show ?thesis by (simp add: snap_end_def offsets_def)
next
  case (snoc vs w)
  have "offsets ws = map (\<lambda>i. of_nat (length (packed (take i ws)))) [0..<length vs] @ [of_nat (length (packed vs))]"
    by (simp add: offsets_def snoc)
  moreover have "unat (of_nat (length (packed vs)) :: u16) = length (packed vs)"
    using assms(1) snoc by (simp add: unat_of_nat take_bit_nat_eq_self)
  moreover have "takeWhile (\<lambda>c. c \<noteq> 0) (drop (length (packed vs)) (packed ws)) = w"
  proof -
    have "takeWhile (\<lambda>c. c \<noteq> 0) w = w" using assms(2) snoc by (auto simp: takeWhile_eq_all_conv)
    then show ?thesis using assms(2) snoc by (simp add: takeWhile_append2 [of w] takeWhile_append)
  qed
  ultimately show ?thesis by (simp add: snap_end_def snoc)
qed

subsection \<open>The new argument vector\<close>

definition area :: "nat \<Rightarrow> u32" where
  "area a = USER_ARGV_AREA_VA + of_nat a"

lemma area_plus: "area a + of_nat b = area (a + b)" "area 0 = USER_ARGV_AREA_VA" "USER_ARGV_AREA_VA + 4 * of_nat i = area (4 * i)"
  by (simp_all add: area_def ac_simps)

lemma unat_area: "a \<le> 512 \<Longrightarrow> unat (area a) = 0x400FFE00 + a"
proof -
  assume a: "a \<le> 512"
  then have "unat (of_nat a :: u32) = a" by (simp add: unat_of_nat take_bit_nat_eq_self)
  then show ?thesis using argv_area(1) a by (simp add: area_def unat_word_ariths)
qed

lemma ustore_area:
  assumes "a < 512" "b \<le> 512" "length bs \<le> 512"
  shows "ustore (area b) bs um (area a) = (if b \<le> a \<and> a - b < length bs then bs ! (a - b) else um (area a))"
proof -
  have d: "area a - area b = (of_nat a - of_nat b :: u32)" by (simp add: area_def)
  show ?thesis
  proof (cases "b \<le> a")
    case True
    then have "unat (of_nat a - of_nat b :: u32) = a - b" using assms by (intro elapsed_word) auto
    then show ?thesis using True by (simp add: ustore_def d)
  next
    case False
    have "\<not> unat (of_nat a - of_nat b :: u32) < length bs"
    proof
      define k where "k = unat (of_nat a - of_nat b :: u32)"
      assume "unat (of_nat a - of_nat b :: u32) < length bs"
      then have k: "k < 512" "(of_nat a - of_nat b :: u32) = of_nat k" using assms(3) by (simp_all add: k_def)
      then have "(of_nat a :: u32) = of_nat (b + k)" by (metis add.commute diff_add_cancel of_nat_add)
      then have "unat (of_nat a :: u32) = unat (of_nat (b + k) :: u32)" by simp
      then have "a = b + k" using assms k(1) by (simp only: unat_of_nat) (simp add: take_bit_nat_eq_self)
      then show False using \<open>\<not> b \<le> a\<close> by simp
    qed
    then show ?thesis using False by (simp add: ustore_def d)
  qed
qed

lemma nth_words:
  "i < length xs \<Longrightarrow> j < 4 \<Longrightarrow> concat (map (\<lambda>x. le32 (f x)) xs) ! (4 * i + j) = le32 (f (xs ! i)) ! j"
proof (induction xs arbitrary: i)
  case Nil
  then show ?case by simp
next
  case (Cons x xs)
  then show ?case by (cases i) (auto simp: nth_append)
qed

lemma uload32_words:
  assumes "\<And>j. j < 4 \<Longrightarrow> um (va + of_nat j) = le32 v ! j"
  shows "uload32 um va = v"
proof -
  have "um va = le32 v ! 0" "um (va + 1) = le32 v ! 1" "um (va + 2) = le32 v ! 2" "um (va + 3) = le32 v ! 3"
    using assms [of 0] assms [of 1] assms [of 2] assms [of 3] by simp_all
  then have "uload32 um va = rd32 (le32 v) 0" by (simp add: uload32_def rd32_def numeral_2_eq_2 numeral_3_eq_3)
  then show ?thesis by (simp add: rd32_le32)
qed

lemma le32_0: "j < 4 \<Longrightarrow> le32 0 ! j = 0"
  by (auto simp: le32_def less_Suc_eq numeral_eq_Suc)

lemma install_argv_area:
  assumes "install_argv kbuf offs (length kbuf) ctx um = (ctx', um')" "offs \<noteq> []" "length offs \<le> 16" "length kbuf \<le> 448" "a < 512"
  shows "um' (area a) = (if 4 * length offs \<le> a \<and> a < 4 * length offs + 4 then 0
      else if a < 4 * length offs then concat (map (\<lambda>off. le32 (area 64 + ucast off)) offs) ! a
      else if 64 \<le> a \<and> a < 64 + length kbuf then kbuf ! (a - 64) else um (area a))"
proof -
  let ?n = "length offs"
  let ?arr = "concat (map (\<lambda>off. le32 (area 64 + ucast off)) offs)"
  have e: "USER_ARGV_AREA_VA + 4 * of_nat USER_ARGV_MAX = area 64" by (simp only: area_plus) (simp add: USER_ARGV_MAX_def)
  have um': "um' = ustore (area (4 * ?n)) (le32 0) (ustore (area 0) ?arr (ustore (area 64) kbuf um))"
    using assms(1,2) unfolding install_argv_def Let_def e area_plus by (auto simp: USER_ARGV_MAX_def)
  have "um' (area a) = (if 4 * ?n \<le> a \<and> a - 4 * ?n < 4 then le32 0 ! (a - 4 * ?n)
      else if a < 4 * ?n then ?arr ! a
      else if 64 \<le> a \<and> a - 64 < length kbuf then kbuf ! (a - 64) else um (area a))"
    unfolding um' using assms(3-5) by (simp add: ustore_area)
  then show ?thesis using le32_0 [of "a - 4 * ?n"] by auto
qed

lemma install_args:
  assumes "install_argv (packed ws) (offsets ws) (length (packed ws)) ctx um = (ctx', um')" "ws \<noteq> []" "length ws < 16"
    "length (packed ws) \<le> 448" "\<forall>w \<in> set ws. 0 \<notin> set w"
  shows "user_args um' USER_ARGV_AREA_VA ws"
proof -
  let ?n = "length ws"
  have ne: "offsets ws \<noteq> []" using assms(2) length_offsets [of ws] by (metis length_0_conv)
  have at: "um' (area a) = (if 4 * ?n \<le> a \<and> a < 4 * ?n + 4 then 0
      else if a < 4 * ?n then concat (map (\<lambda>off. le32 (area 64 + ucast off)) (offsets ws)) ! a
      else if 64 \<le> a \<and> a < 64 + length (packed ws) then packed ws ! (a - 64) else um (area a))" if "a < 512" for a
    using install_argv_area [OF assms(1) ne _ assms(4) that] assms(3) by simp
  have ptr: "uload32 um' (USER_ARGV_AREA_VA + 4 * of_nat i) = area (64 + length (packed (take i ws)))" if i: "i < ?n" for i
  proof (rule uload32_words)
    fix j :: nat assume j: "j < 4"
    have "4 * i + j < 4 * ?n" using i j by linarith
    then have "um' (area (4 * i + j)) = le32 (area 64 + ucast (offsets ws ! i)) ! j"
      using at [of "4 * i + j"] nth_words [of i "offsets ws" j "\<lambda>off. area 64 + ucast off"] i j assms(3) by simp
    moreover have "ucast (offsets ws ! i) = (of_nat (length (packed (take i ws))) :: u32)"
      using unat_offset [OF assms(4) i] by (metis of_nat_unat)
    ultimately show "um' (USER_ARGV_AREA_VA + 4 * of_nat i + of_nat j) = le32 (area (64 + length (packed (take i ws)))) ! j"
      unfolding area_plus by (simp add: area_plus)
  qed
  have null: "uload32 um' (USER_ARGV_AREA_VA + 4 * of_nat ?n) = 0"
  proof (rule uload32_words)
    fix j :: nat assume j: "j < 4"
    have "um' (area (4 * ?n + j)) = 0" using at [of "4 * ?n + j"] j assms(3) by simp
    then show "um' (USER_ARGV_AREA_VA + 4 * of_nat ?n + of_nat j) = le32 0 ! j" unfolding area_plus using le32_0 [OF j] by simp
  qed
  have str: "user_string um' (area (64 + length (packed (take i ws)))) = Inr (ws ! i)" if i: "i < ?n" for i
  proof -
    let ?o = "length (packed (take i ws))" and ?w = "ws ! i"
    have l: "?o + length ?w + 1 \<le> length (packed ws)" by (rule packed_split_length [OF i])
    have b: "um' (area (64 + ?o + j)) = (?w @ [0]) ! j" if "j \<le> length ?w" for j
    proof -
      have "packed ws ! (?o + j) = (?w @ [0]) ! j"
        using that by (subst packed_split [OF i]) (auto simp: nth_append)
      then show ?thesis using at [of "64 + ?o + j"] that l assms(3,4) by simp
    qed
    have "um' (area (64 + ?o) + of_nat j) = ?w ! j" if "j < length ?w" for j
      unfolding area_plus using b [of j] that by (simp add: nth_append)
    moreover have "um' (area (64 + ?o) + of_nat (length ?w)) = 0" unfolding area_plus using b [of "length ?w"] by simp
    moreover have "unat (area (64 + ?o)) = 0x400FFE00 + 64 + ?o" using l assms(4) unat_area [of "64 + ?o"] by simp
    ultimately show ?thesis using l assms(4,5) i by (simp add: user_string_iff)
  qed
  have nz: "area (64 + length (packed (take i ws))) \<noteq> 0" if "i < ?n" for i
    using str [OF that] by (auto simp: user_string_iff)
  have "in_user_space USER_ARGV_AREA_VA 64" "USER_ARGV_AREA_VA \<noteq> 0" using argv_area(1) by (auto simp: in_user_space_unat)
  then show ?thesis unfolding user_args_def using assms(3) null ptr str nz by (simp add: Let_def)
qed

text \<open>With 16 arguments the null pointer behind the array overwrites the beginning of the first
  argument.\<close>

lemma install_argv_sixteen:
  assumes "install_argv kbuf offs (length kbuf) ctx um = (ctx', um')" "length offs = 16" "length kbuf \<le> 448"
  shows "um' (area 64) = 0"
  using install_argv_area [OF assms(1) _ _ assms(3), of 64] assms(2) by force

text \<open>C25: a new program gets the arguments its caller passed: when user memory holds fewer than 16 arguments
  that fit into 448 bytes, the snapshot succeeds, and whatever the loader did to user memory in the
  meantime, the argument vector that is installed afterwards holds the same strings; the registers
  carry their number and the address of the vector.\<close>

theorem exec_argv_roundtrip:
  assumes "user_args um argv ws" "sum_list (map (\<lambda>w. length w + 1) ws) \<le> 448"
  shows "\<exists>kbuf offs. snapshot_argv um argv = Inr (Inr (kbuf, offs)) \<and>
    (\<forall>um1 ctx. case install_argv kbuf offs (snap_end kbuf offs) ctx um1 of (ctx', um') \<Rightarrow>
      sv_r ctx' 0 = of_nat (length ws) \<and> (ws \<noteq> [] \<longrightarrow> sv_r ctx' 1 = USER_ARGV_AREA_VA \<and> user_args um' USER_ARGV_AREA_VA ws))"
proof -
  have l: "length (packed ws) \<le> 448" using assms(2) by (simp add: packed_def length_concat comp_def)
  have z: "\<forall>w \<in> set ws. 0 \<notin> set w"
    using assms(1) by (auto simp: user_args_def Let_def in_set_conv_nth user_string_iff)
  have "snapshot_argv um argv = Inr (Inr (packed ws, offsets ws))" using snapshot_args [OF assms(1)] l by (simp add: USER_ARGV_STRS_SZ_def)
  moreover have "sv_r ctx' 0 = of_nat (length ws) \<and> (ws \<noteq> [] \<longrightarrow> sv_r ctx' 1 = USER_ARGV_AREA_VA \<and> user_args um' USER_ARGV_AREA_VA ws)"
    if i: "install_argv (packed ws) (offsets ws) (snap_end (packed ws) (offsets ws)) ctx um1 = (ctx', um')" for um1 ctx ctx' um'
  proof -
    note i' = i [unfolded snap_end_packed [OF l z]]
    have "ws \<noteq> [] \<Longrightarrow> user_args um' USER_ARGV_AREA_VA ws" using install_args [OF i' _ _ l z] assms(1) by (simp add: user_args_def)
    then show ?thesis using i' by (cases "ws = []") (auto simp: install_argv_def Let_def set_r_def)
  qed
  ultimately show ?thesis by (auto split: prod.splits)
qed

text \<open>Memory that holds the arguments \<open>ls\<close> and \<open>/\<close>.\<close>

definition demo_args :: umem where
  "demo_args = ustore 0x40001000 (le32 0x40002000 @ le32 0x40002003 @ le32 0) (ustore 0x40002000 [108, 115, 0, 47, 0] (\<lambda>x. 0))"

theorem exec_argv_roundtrip_witness:
  "\<exists>kbuf offs. snapshot_argv demo_args 0x40001000 = Inr (Inr (kbuf, offs)) \<and>
    (\<forall>um1 ctx. case install_argv kbuf offs (snap_end kbuf offs) ctx um1 of (ctx', um') \<Rightarrow>
      sv_r ctx' 0 = 2 \<and> sv_r ctx' 1 = USER_ARGV_AREA_VA \<and> user_args um' USER_ARGV_AREA_VA [[108, 115], [47]])"
proof -
  have p: "uload32 demo_args 0x40001000 = 0x40002000" "uload32 demo_args 0x40001004 = 0x40002003" "uload32 demo_args 0x40001008 = 0"
    by (simp_all add: uload32_def rd32_def demo_args_def ustore_def le32_def nth_append)
  have s: "demo_args 0x40002000 = 108" "demo_args 0x40002001 = 115" "demo_args 0x40002002 = 0" "demo_args 0x40002003 = 47" "demo_args 0x40002004 = 0"
    by (simp_all add: demo_args_def ustore_def)
  have "user_string demo_args 0x40002000 = Inr [108, 115]" "user_string demo_args 0x40002003 = Inr [47]"
    using s by (simp_all add: user_string_iff less_Suc_eq all_conj_distrib)
  then have "user_args demo_args 0x40001000 [[108, 115], [47]]"
    using p by (simp add: user_args_def in_user_space_unat Let_def less_Suc_eq all_conj_distrib)
  from exec_argv_roundtrip [OF this] show ?thesis by simp
qed

end
