(* ===== verification/Svc.thy ===== *)
theory Svc
  imports Exec Platform
begin

section \<open>System calls (\<open>kernel/src/kernel/core/svc_handler.c\<close>)\<close>

text \<open>
  The dispatcher and every system call, over the whole kernel: the record \<open>kernel\<close> joins the state of
  the console, the file systems and the scheduler (\<open>sys\<close>) with that of the memory management, the
  waiting parents and the platform bus.  The functions of \<open>fork.c\<close> and \<open>wait.c\<close> work on the part
  \<open>kstate\<close> of it.

  The kernel reads and writes user memory through the page table of the current task.  \<open>user_mem\<close> is
  that view, and \<open>put_user_mem\<close> stores a changed view into the physical megabyte behind it.  A store
  that leaves the megabyte hits unmapped memory; it is the fault \<open>OutOfBounds\<close>.

  A call has three outcomes: it is done, with the caller's frame; the caller is blocked, and the call
  goes on when it runs again; or the caller has exited.  A call that never returns is \<open>None\<close>.  What
  the handler takes from outside of the C code is the record \<open>svc_env\<close>: the addresses and sizes the
  linker provides, the payload of the shell, and the banked user registers.  Messages on the console
  are left out.
\<close>

subsection \<open>The kernel\<close>

record ('u, 'w, 's) kernel =
  ksys :: "('u, 'w) sys"
  ksl :: slab_state
  kmm :: mmu_state
  kpmem :: "u32 \<Rightarrow> u32"
  kwq :: wait_queue
  kplat :: "'s plat_state"

record svc_env =
  env_kernel_pgd :: u32
  env_trampoline :: u32
  env_sp_usr :: u32
  env_lr_usr :: u32
  env_payload :: "u8 list"
  env_text :: u32
  env_data :: u32
  env_bss :: u32
  env_stack :: u32
  env_kernel_end :: u32

datatype ('u, 'w, 's) svc_out =
    Done svc_context "('u, 'w, 's) kernel"
  | Blocked "('u, 'w, 's) kernel"
  | Exited "('u, 'w, 's) kernel"

definition to_kstate :: "('u, 'w, 's) kernel \<Rightarrow> kstate" where
  "to_kstate k = \<lparr>sc = usc (ksys k), sl = ksl k, mm = kmm k, pmem = kpmem k, parent_wq = kwq k\<rparr>"

definition put_kstate :: "kstate \<Rightarrow> ('u, 'w, 's) kernel \<Rightarrow> ('u, 'w, 's) kernel" where
  "put_kstate x k = k\<lparr>ksys := (ksys k)\<lparr>usc := sc x, sys_pages := pages (sl x)\<rparr>, ksl := sl x, kmm := mm x,
     kpmem := pmem x, kwq := parent_wq x\<rparr>"

subsection \<open>User memory\<close>

definition current_table :: "svc_env \<Rightarrow> ('u, 'w, 's) kernel \<Rightarrow> l1_table" where
  "current_table E k = (case scheduler_current_task (usc (ksys k)) of
     Some t \<Rightarrow> task_table (env_kernel_pgd E) (kmm k) (tmem (usc (ksys k)) t) | None \<Rightarrow> kpgd (kmm k))"

definition load_byte :: "(u32 \<Rightarrow> u32) \<Rightarrow> u32 \<Rightarrow> u8" where
  "load_byte m pa = ucast (drop_bit (8 * unat (pa AND 3)) (m (pa AND NOT 3)))"

definition user_mem :: "svc_env \<Rightarrow> ('u, 'w, 's) kernel \<Rightarrow> umem" where
  "user_mem E k va = (case section_translate (current_table E k) va of Some (pa, u) \<Rightarrow> load_byte (kpmem k) pa | None \<Rightarrow> 0)"

definition put_user_mem :: "svc_env \<Rightarrow> umem \<Rightarrow> ('u, 'w, 's) kernel \<Rightarrow> ('u, 'w, 's) kernel" where
  "put_user_mem E um k = (case section_translate (current_table E k) USER_SPACE_VA of
     None \<Rightarrow> k
   | Some (base, u) \<Rightarrow> k\<lparr>kpmem := (\<lambda>pa. if pa - base < USER_SPACE_BYTES \<and> pa AND 3 = 0
       then uload32 um (USER_SPACE_VA + (pa - base)) else kpmem k pa)\<rparr>)"

definition user_write :: "u32 \<Rightarrow> u8 list \<Rightarrow> umem \<Rightarrow> fault + umem" where
  "user_write va bs um =
     (if bs = [] \<or> (0x40000000 \<le> unat va \<and> unat va + length bs \<le> 0x40100000) then Inr (ustore va bs um) else Inl OutOfBounds)"

fun user_writes :: "(u32 \<times> u8 list) list \<Rightarrow> umem \<Rightarrow> fault + umem" where
  "user_writes [] um = Inr um"
| "user_writes ((va, bs) # xs) um = fbind (user_write va bs um) (user_writes xs)"

definition user_bytes :: "umem \<Rightarrow> u32 \<Rightarrow> nat \<Rightarrow> u8 list" where
  "user_bytes um va n = map (\<lambda>i. um (va + of_nat i)) [0..<n]"

definition validate_user_pointer :: "u32 \<Rightarrow> u32 \<Rightarrow> int" where
  "validate_user_pointer ptr len =
     (let start = ptr; end = start + len in
      if end < start then E_PTR
      else if start \<ge> USER_SPACE_VA \<and> end \<le> USER_SPACE_VA + USER_SPACE_BYTES then E_OK else E_PTR)"

definition MAX_PATH :: u32 where [vx_consts]: "MAX_PATH = 256"

subsection \<open>Results\<close>

text \<open>A result goes to register 0 of the caller's frame.\<close>

type_synonym ('u, 'w, 's) svc_result = "(fault + ('u, 'w, 's) svc_out) option"

definition finish :: "int \<Rightarrow> svc_context \<Rightarrow> ('u, 'w, 's) kernel \<Rightarrow> ('u, 'w, 's) svc_result" where
  "finish r ctx k = ret (Done (set_r 0 (of_int r) ctx) k)"

text \<open>Entries for the caller's array: a failing store is a fault.\<close>

definition finish_writes :: "svc_env \<Rightarrow> int \<Rightarrow> (u32 \<times> u8 list) list \<Rightarrow> svc_context \<Rightarrow> ('u, 'w, 's) kernel \<Rightarrow> ('u, 'w, 's) svc_result" where
  "finish_writes E r ws ctx k = (case user_writes ws (user_mem E k) of
     Inl e \<Rightarrow> Some (Inl e) | Inr um \<Rightarrow> finish r ctx (put_user_mem E um k))"

text \<open>A call into the virtual file system with a path from user memory.\<close>

definition with_path :: "svc_env \<Rightarrow> u32 \<Rightarrow> svc_context \<Rightarrow> ('u, 'w, 's) kernel \<Rightarrow> (cstring \<Rightarrow> ('u, 'w, 's) svc_result) \<Rightarrow> ('u, 'w, 's) svc_result" where
  "with_path E p ctx k f =
     (if validate_user_pointer p MAX_PATH \<noteq> E_OK then finish E_PTR ctx k
      else case user_string (user_mem E k) p of Inl e \<Rightarrow> Some (Inl e) | Inr path \<Rightarrow> f path)"

subsection \<open>Console, tasks, memory\<close>

definition sys_write :: "'u bus \<Rightarrow> svc_env \<Rightarrow> svc_context \<Rightarrow> ('u, 'w, 's) kernel \<Rightarrow> ('u, 'w, 's) svc_result" where
  "sys_write B E ctx k =
     (let out = (\<lambda>fd buf len.
          if fd \<noteq> 1 \<and> fd \<noteq> 2 then finish E_ARG ctx k
          else if len > 256 then finish E_ARG ctx k
          else case putc_all B (crlf (user_bytes (user_mem E k) buf (unat len))) (ihw (ksys k)) of
              None \<Rightarrow> None
            | Some w \<Rightarrow> finish (sint len) ctx (k\<lparr>ksys := (ksys k)\<lparr>ihw := w\<rparr>\<rparr>)) in
      if validate_user_pointer (sv_r ctx 0) (sv_r ctx 1) = E_OK then out 1 (sv_r ctx 0) (sv_r ctx 1)
      else if validate_user_pointer (sv_r ctx 1) (sv_r ctx 2) = E_OK then out (sint (sv_r ctx 0)) (sv_r ctx 1) (sv_r ctx 2)
      else finish E_PTR ctx k)"

definition sys_exit :: "svc_env \<Rightarrow> svc_context \<Rightarrow> ('u, 'w, 's) kernel \<Rightarrow> ('u, 'w, 's) svc_result" where
  "sys_exit E ctx k =
     (let status = sint (sv_r ctx 0) in
      if (case scheduler_current_task (usc (ksys k)) of Some t \<Rightarrow> t_pid (tmem (usc (ksys k)) t) = 1 | None \<Rightarrow> False)
      then (case user_write USER_SPACE_VA (env_payload E) (user_mem E k) of
          Inl e \<Rightarrow> Some (Inl e)
        | Inr um \<Rightarrow> finish E_OK ((set_r 3 0 (set_r 2 0 (set_r 1 0 (set_r 0 0 ctx))))\<lparr>sv_lr := USER_SPACE_VA\<rparr>) (put_user_mem E um k))
      else map_option (map_sum id (\<lambda>x. Exited (put_kstate x k))) (do_exit status (to_kstate k)))"

text \<open>The caller's frame waits on its stack until it is scheduled again.\<close>

definition sys_yield :: "svc_context \<Rightarrow> ('u, 'w, 's) kernel \<Rightarrow> ('u, 'w, 's) svc_result" where
  "sys_yield ctx k = (case scheduler_yield ((usc (ksys k))\<lparr>need_reschedule := True\<rparr>) of
     Inl e \<Rightarrow> Some (Inl e)
   | Inr s \<Rightarrow> finish E_OK ctx (k\<lparr>ksys := (ksys k)\<lparr>usc := s\<rparr>\<rparr>))"

definition read_console :: "svc_env \<Rightarrow> u32 \<Rightarrow> svc_context \<Rightarrow> ('u, 'w, 's) kernel \<Rightarrow> ('u, 'w, 's) svc_result" where
  "read_console E buf ctx k =
     (if uart_rx_available (ksys k) > 0
      then (case uart_getc (ksys k) of (c, s) \<Rightarrow>
          if c = - 1 then finish 0 ctx (k\<lparr>ksys := s\<rparr>)
          else finish_writes E 1 [(buf, [of_int c])] ctx (k\<lparr>ksys := s\<rparr>))
      else (case wait_block (uart_rx_wq (ksys k)) (usc (ksys k)) of
          Inl e \<Rightarrow> Some (Inl e)
        | Inr (wq, s) \<Rightarrow> ret (Blocked (k\<lparr>ksys := (ksys k)\<lparr>uart_rx_wq := wq, usc := s\<rparr>\<rparr>))))"

definition sys_read :: "svc_env \<Rightarrow> svc_context \<Rightarrow> ('u, 'w, 's) kernel \<Rightarrow> ('u, 'w, 's) svc_result" where
  "sys_read E ctx k =
     (let inp = (\<lambda>fd buf len.
          if fd \<noteq> 0 then finish E_ARG ctx k
          else if validate_user_pointer buf len \<noteq> E_OK then finish E_PTR ctx k
          else if len = 0 then finish 0 ctx k
          else read_console E buf ctx k) in
      if validate_user_pointer (sv_r ctx 0) (sv_r ctx 1) = E_OK then inp 0 (sv_r ctx 0) (sv_r ctx 1)
      else if validate_user_pointer (sv_r ctx 1) (sv_r ctx 2) = E_OK then inp (sint (sv_r ctx 0)) (sv_r ctx 1) (sv_r ctx 2)
      else finish E_PTR ctx k)"

definition task_entries :: "u32 \<Rightarrow> process_info list \<Rightarrow> (u32 \<times> u8 list) list" where
  "task_entries buf ps = concat (map (\<lambda>(i, p). let a = buf + 40 * of_nat i in
     [(a, le32 (pi_id p)), (a + 4, pi_name p), (a + 36, le32 (pi_state p))]) (enumerate 0 ps))"

definition sys_get_tasks :: "svc_env \<Rightarrow> svc_context \<Rightarrow> ('u, 'w, 's) kernel \<Rightarrow> ('u, 'w, 's) svc_result" where
  "sys_get_tasks E ctx k =
     (let buf = sv_r ctx 0; max_count = sv_r ctx 1 in
      if validate_user_pointer buf (max_count * 40) \<noteq> E_OK then finish E_PTR ctx k
      else case scheduler_get_tasks max_count (usc (ksys k)) of (ps, n) \<Rightarrow>
        finish_writes E (int n) (task_entries buf ps) ctx k)"

definition PLATFORM_DDR_PA_BASE :: u32 where [vx_consts]: "PLATFORM_DDR_PA_BASE = 0x80000000"
definition PLATFORM_DDR_SIZE_MB :: u32 where [vx_consts]: "PLATFORM_DDR_SIZE_MB = 128"

definition sys_get_meminfo :: "svc_env \<Rightarrow> svc_context \<Rightarrow> ('u, 'w, 's) kernel \<Rightarrow> ('u, 'w, 's) svc_result" where
  "sys_get_meminfo E ctx k =
     (let buf = sv_r ctx 0; total_ram = PLATFORM_DDR_SIZE_MB * 1024 * 1024 in
      if validate_user_pointer buf 24 \<noteq> E_OK then finish E_PTR ctx k
      else finish_writes E E_OK [(buf, le32 total_ram), (buf + 8, le32 (env_text E)), (buf + 12, le32 (env_data E)),
        (buf + 16, le32 (env_bss E)), (buf + 20, le32 (env_stack E)),
        (buf + 4, le32 (total_ram - (env_kernel_end E - PLATFORM_DDR_PA_BASE)))] ctx k)"

subsection \<open>Files\<close>

definition on_sys :: "(int \<times> ('u, 'w) sys) res \<Rightarrow> svc_context \<Rightarrow> ('u, 'w, 's) kernel \<Rightarrow> ('u, 'w, 's) svc_result" where
  "on_sys m ctx k = rbind m (\<lambda>(r, s). finish r ctx (k\<lparr>ksys := s\<rparr>))"

definition sys_open :: "('u, 'w) ops_mem \<Rightarrow> svc_env \<Rightarrow> svc_context \<Rightarrow> ('u, 'w, 's) kernel \<Rightarrow> ('u, 'w, 's) svc_result" where
  "sys_open Ops E ctx k = with_path E (sv_r ctx 0) ctx k (\<lambda>path. on_sys (vfs_open Ops path (sint (sv_r ctx 1)) (ksys k)) ctx k)"

definition sys_read_file :: "('u, 'w) ops_mem \<Rightarrow> svc_env \<Rightarrow> svc_context \<Rightarrow> ('u, 'w, 's) kernel \<Rightarrow> ('u, 'w, 's) svc_result" where
  "sys_read_file Ops E ctx k =
     (let fd = sint (sv_r ctx 0); buf = sv_r ctx 1; len = sv_r ctx 2 in
      if validate_user_pointer buf len \<noteq> E_OK then finish E_PTR ctx k
      else rbind (vfs_read Ops fd len (ksys k)) (\<lambda>(n, bytes, s). finish_writes E n [(buf, bytes)] ctx (k\<lparr>ksys := s\<rparr>)))"

definition sys_write_file :: "('u, 'w) ops_mem \<Rightarrow> svc_env \<Rightarrow> svc_context \<Rightarrow> ('u, 'w, 's) kernel \<Rightarrow> ('u, 'w, 's) svc_result" where
  "sys_write_file Ops E ctx k =
     (let fd = sint (sv_r ctx 0); buf = sv_r ctx 1; len = sv_r ctx 2 in
      if validate_user_pointer buf len \<noteq> E_OK then finish E_PTR ctx k
      else on_sys (vfs_write Ops fd (user_bytes (user_mem E k) buf (unat len)) (ksys k)) ctx k)"

definition sys_close :: "svc_context \<Rightarrow> ('u, 'w, 's) kernel \<Rightarrow> ('u, 'w, 's) svc_result" where
  "sys_close ctx k = on_sys (ret (vfs_close (sint (sv_r ctx 0)) (ksys k))) ctx k"

definition file_entries :: "u32 \<Rightarrow> file_info list \<Rightarrow> (u32 \<times> u8 list) list" where
  "file_entries buf fs = concat (map (\<lambda>(i, nm, sz). let a = buf + 36 * of_nat i in [(a, nm @ [0]), (a + 32, le32 sz)]) (enumerate 0 fs))"

definition sys_listdir :: "('u, 'w) ops_mem \<Rightarrow> svc_env \<Rightarrow> svc_context \<Rightarrow> ('u, 'w, 's) kernel \<Rightarrow> ('u, 'w, 's) svc_result" where
  "sys_listdir Ops E ctx k =
     (let entries = sv_r ctx 1; max_entries = sv_r ctx 2 in
      if validate_user_pointer (sv_r ctx 0) MAX_PATH \<noteq> E_OK then finish E_PTR ctx k
      else if validate_user_pointer entries (max_entries * 36) \<noteq> E_OK then finish E_PTR ctx k
      else with_path E (sv_r ctx 0) ctx k (\<lambda>path.
        rbind (vfs_listdir Ops path max_entries (ksys k)) (\<lambda>(n, fs, s). finish_writes E n (file_entries entries fs) ctx (k\<lparr>ksys := s\<rparr>))))"

definition sys_exec :: "('u, 'w) ops_mem \<Rightarrow> svc_env \<Rightarrow> svc_context \<Rightarrow> ('u, 'w, 's) kernel \<Rightarrow> ('u, 'w, 's) svc_result" where
  "sys_exec Ops E ctx k =
     (if validate_user_pointer (sv_r ctx 0) MAX_PATH \<noteq> E_OK then finish E_PTR ctx k
      else rbind (do_exec Ops (sv_r ctx 0) ctx (sv_r ctx 1) (user_mem E k) (ksys k)) (\<lambda>(rc, ctx', um, s).
        let k' = put_user_mem E um (k\<lparr>ksys := s\<rparr>) in
        if rc < 0 then finish rc ctx' k' else finish (sint (sv_r ctx' 0)) ctx' k'))"

subsection \<open>The remaining calls and the dispatcher\<close>

definition current_field :: "(task_struct \<Rightarrow> int) \<Rightarrow> ('u, 'w, 's) kernel \<Rightarrow> int" where
  "current_field f k = (case scheduler_current_task (usc (ksys k)) of Some t \<Rightarrow> f (tmem (usc (ksys k)) t) | None \<Rightarrow> - 1)"

definition sys_fork :: "svc_env \<Rightarrow> svc_context \<Rightarrow> ('u, 'w, 's) kernel \<Rightarrow> ('u, 'w, 's) svc_result" where
  "sys_fork E ctx k =
     (case do_fork (env_kernel_pgd E) (env_trampoline E) (env_sp_usr E) (env_lr_usr E) ctx (to_kstate k) of
        Inl e \<Rightarrow> Some (Inl e) | Inr (r, x) \<Rightarrow> finish r ctx (put_kstate x k))"

definition sys_unlink :: "('u, 'w) ops_mem \<Rightarrow> svc_env \<Rightarrow> svc_context \<Rightarrow> ('u, 'w, 's) kernel \<Rightarrow> ('u, 'w, 's) svc_result" where
  "sys_unlink Ops E ctx k = with_path E (sv_r ctx 0) ctx k (\<lambda>path. on_sys (vfs_unlink Ops path (ksys k)) ctx k)"

definition sys_rename :: "('u, 'w) ops_mem \<Rightarrow> svc_env \<Rightarrow> svc_context \<Rightarrow> ('u, 'w, 's) kernel \<Rightarrow> ('u, 'w, 's) svc_result" where
  "sys_rename Ops E ctx k =
     (if validate_user_pointer (sv_r ctx 0) MAX_PATH \<noteq> E_OK \<or> validate_user_pointer (sv_r ctx 1) MAX_PATH \<noteq> E_OK
      then finish E_PTR ctx k
      else with_path E (sv_r ctx 0) ctx k (\<lambda>old. with_path E (sv_r ctx 1) ctx k (\<lambda>new.
        on_sys (vfs_rename Ops old new (ksys k)) ctx k)))"

definition dev_entries :: "u32 \<Rightarrow> dev_info list \<Rightarrow> (u32 \<times> u8 list) list" where
  "dev_entries buf ds = concat (map (\<lambda>(i, d). let a = buf + 40 * of_nat i in
     [(a, di_name d @ [0]), (a + 16, le32 (di_base d)), (a + 20, le32 (of_int (di_irq d))), (a + 24, di_driver d @ [0])]) (enumerate 0 ds))"

definition sys_devlist :: "svc_env \<Rightarrow> svc_context \<Rightarrow> ('u, 'w, 's) kernel \<Rightarrow> ('u, 'w, 's) svc_result" where
  "sys_devlist E ctx k =
     (let buf = sv_r ctx 0; max_count = sv_r ctx 1 in
      if validate_user_pointer buf (max_count * 40) \<noteq> E_OK then finish E_PTR ctx k
      else case platform_list_devices max_count (kplat k) of (n, ds) \<Rightarrow> finish_writes E n (dev_entries buf ds) ctx k)"

definition sys_kill :: "svc_context \<Rightarrow> ('u, 'w, 's) kernel \<Rightarrow> ('u, 'w, 's) svc_result" where
  "sys_kill ctx k =
     (let sig = sint (sv_r ctx 1); exit_code = (if sig > 0 then sint (128 + sv_r ctx 1) else 137) in
      case do_kill_by_pid (sint (sv_r ctx 0)) exit_code (to_kstate k) of
        None \<Rightarrow> None | Some (r, x) \<Rightarrow> finish r ctx (put_kstate x k))"

definition sys_wait :: "svc_env \<Rightarrow> svc_context \<Rightarrow> ('u, 'w, 's) kernel \<Rightarrow> ('u, 'w, 's) svc_result" where
  "sys_wait E ctx k =
     (case do_wait_round (env_kernel_pgd E) (to_kstate k) of
        Inl e \<Rightarrow> Some (Inl e)
      | Inr (None, x) \<Rightarrow> ret (Blocked (put_kstate x k))
      | Inr (Some (pid, st), x) \<Rightarrow>
          let k' = put_kstate x k; v = (case st of Some v \<Rightarrow> v | None \<Rightarrow> 0) in
          if pid \<ge> 0 \<and> sv_r ctx 0 \<noteq> 0 \<and> validate_user_pointer (sv_r ctx 0) 4 = E_OK
          then finish_writes E pid [(sv_r ctx 0, le32 (of_int v))] ctx k' else finish pid ctx k')"

definition svc_handler :: "'u bus \<Rightarrow> ('u, 'w) ops_mem \<Rightarrow> svc_env \<Rightarrow> svc_context \<Rightarrow> ('u, 'w, 's) kernel \<Rightarrow> ('u, 'w, 's) svc_result" where
  "svc_handler B Ops E ctx k =
     (let n = unat (sv_r ctx 7) in
      if n = 0 then sys_write B E ctx k
      else if n = 1 then sys_exit E ctx k
      else if n = 2 then sys_yield ctx k
      else if n = 3 then sys_read E ctx k
      else if n = 4 then sys_get_tasks E ctx k
      else if n = 5 then sys_get_meminfo E ctx k
      else if n = 6 then sys_open Ops E ctx k
      else if n = 7 then sys_read_file Ops E ctx k
      else if n = 8 then sys_close ctx k
      else if n = 9 then sys_listdir Ops E ctx k
      else if n = 10 then sys_exec Ops E ctx k
      else if n = 11 then sys_write_file Ops E ctx k
      else if n = 12 then sys_fork E ctx k
      else if n = 13 then sys_wait E ctx k
      else if n = 14 then finish (current_field t_pid k) ctx k
      else if n = 15 then finish (current_field t_ppid k) ctx k
      else if n = 16 then sys_kill ctx k
      else if n = 17 then on_sys (ret (vfs_dup (sint (sv_r ctx 0)) (ksys k))) ctx k
      else if n = 18 then on_sys (ret (vfs_dup2 (sint (sv_r ctx 0)) (sint (sv_r ctx 1)) (ksys k))) ctx k
      else if n = 19 then sys_devlist E ctx k
      else if n = 20 then sys_unlink Ops E ctx k
      else if n = 21 then sys_rename Ops E ctx k
      else finish E_INVAL ctx k)"

end
