(* ===== verification/Svc_Props.thy ===== *)
theory Svc_Props
  imports Svc
begin

section \<open>System calls: properties\<close>

text \<open>
  What every system call promises its caller: registers, the check of pointers, and the view of user
  memory after a store.
\<close>

subsection \<open>Registers\<close>

definition only_r0 :: "svc_context \<Rightarrow> ('u, 'w, 's) svc_result \<Rightarrow> bool" where
  "only_r0 ctx m \<longleftrightarrow> (\<forall>ctx' k. m = ret (Done ctx' k) \<longrightarrow> (\<exists>v. ctx' = set_r 0 v ctx))"

named_theorems svc_frame \<open>calls that change register 0 only\<close>

lemma only_r0_finish [svc_frame]: "only_r0 ctx (finish r ctx k)"
  by (auto simp: only_r0_def finish_def)

lemma only_r0_fault [svc_frame]: "only_r0 ctx (Some (Inl e))" "only_r0 ctx None" "only_r0 ctx (ret (Blocked k))" "only_r0 ctx (ret (Exited k))"
  by (auto simp: only_r0_def)

lemma only_r0_writes [svc_frame]: "only_r0 ctx (finish_writes E r ws ctx k)"
  by (auto simp: finish_writes_def intro: svc_frame split: sum.splits)

lemma only_r0_rbind: "(\<And>x. only_r0 ctx (f x)) \<Longrightarrow> only_r0 ctx (rbind m f)"
  by (auto simp: rbind_def intro: svc_frame split: option.splits sum.splits)

lemma only_r0_on_sys [svc_frame]: "only_r0 ctx (on_sys m ctx k)"
  unfolding on_sys_def by (rule only_r0_rbind) (auto intro: svc_frame)

lemma only_r0_path [svc_frame]: "(\<And>path. only_r0 ctx (f path)) \<Longrightarrow> only_r0 ctx (with_path E p ctx k f)"
  by (auto simp: with_path_def intro: svc_frame split: sum.splits)

lemma only_r0_calls [svc_frame]:
  "only_r0 ctx (sys_write B E ctx k)" "only_r0 ctx (sys_yield ctx k)" "only_r0 ctx (sys_read E ctx k)"
  "only_r0 ctx (sys_get_tasks E ctx k)" "only_r0 ctx (sys_get_meminfo E ctx k)" "only_r0 ctx (sys_open Ops E ctx k)"
  "only_r0 ctx (sys_close ctx k)" "only_r0 ctx (sys_write_file Ops E ctx k)" "only_r0 ctx (sys_fork E ctx k)"
  "only_r0 ctx (sys_unlink Ops E ctx k)" "only_r0 ctx (sys_rename Ops E ctx k)" "only_r0 ctx (sys_devlist E ctx k)"
  "only_r0 ctx (sys_kill ctx k)" "only_r0 ctx (sys_wait E ctx k)"
proof -
  show "only_r0 ctx (sys_write B E ctx k)"
    by (auto simp: sys_write_def Let_def intro: svc_frame split: option.splits)
  show "only_r0 ctx (sys_yield ctx k)" by (auto simp: sys_yield_def intro: svc_frame split: sum.splits)
  have "only_r0 ctx (read_console E buf ctx k)" for buf
    by (auto simp: read_console_def intro: svc_frame split: sum.splits prod.splits)
  then show "only_r0 ctx (sys_read E ctx k)" by (auto simp: sys_read_def Let_def intro: svc_frame)
  show "only_r0 ctx (sys_get_tasks E ctx k)" by (auto simp: sys_get_tasks_def Let_def intro: svc_frame split: prod.splits)
  show "only_r0 ctx (sys_get_meminfo E ctx k)" by (auto simp: sys_get_meminfo_def Let_def intro: svc_frame)
  show "only_r0 ctx (sys_open Ops E ctx k)" by (auto simp: sys_open_def intro: svc_frame)
  show "only_r0 ctx (sys_close ctx k)" by (auto simp: sys_close_def intro: svc_frame)
  show "only_r0 ctx (sys_write_file Ops E ctx k)" by (auto simp: sys_write_file_def Let_def intro: svc_frame)
  show "only_r0 ctx (sys_fork E ctx k)" by (auto simp: sys_fork_def intro: svc_frame split: sum.splits)
  show "only_r0 ctx (sys_unlink Ops E ctx k)" by (auto simp: sys_unlink_def intro: svc_frame)
  show "only_r0 ctx (sys_rename Ops E ctx k)" by (auto simp: sys_rename_def intro!: svc_frame)
  show "only_r0 ctx (sys_devlist E ctx k)" by (auto simp: sys_devlist_def Let_def intro: svc_frame split: prod.splits)
  show "only_r0 ctx (sys_kill ctx k)" by (auto simp: sys_kill_def Let_def intro: svc_frame split: option.splits)
  show "only_r0 ctx (sys_wait E ctx k)"
    by (auto simp: sys_wait_def Let_def intro: svc_frame split: sum.splits option.splits)
qed

lemma only_r0_reads [svc_frame]: "only_r0 ctx (sys_read_file Ops E ctx k)" "only_r0 ctx (sys_listdir Ops E ctx k)"
  by (auto simp: sys_read_file_def sys_listdir_def Let_def intro!: svc_frame only_r0_rbind)

text \<open>A failed \<open>sys_exec\<close> too; this rests on the frame of \<open>do_exec\<close>.\<close>

lemma do_exec_fail_ctx:
  assumes "do_exec Ops path ctx argv um s = ret (rc, ctx', um', s')" "rc \<noteq> E_OK"
  shows "ctx' = ctx"
  using assms by (auto simp: do_exec_def split: sum.splits prod.splits if_splits elim!: rbind_InrE)

lemma do_exec_ok_ctx:
  assumes "do_exec Ops path ctx argv um s = ret (E_OK, ctx', um', s')" "snapshot_argv um argv \<noteq> Inr (Inl E_OK)"
  shows "sv_spsr ctx' = sv_spsr ctx" "i > 3 \<Longrightarrow> sv_r ctx' i = sv_r ctx i" "sv_r ctx' 2 = 0" "sv_r ctx' 3 = 0"
  using assms
  by (auto simp: do_exec_def install_argv_def set_r_def Let_def split: sum.splits prod.splits if_splits elim!: rbind_InrE)

lemma sys_exec_ctx:
  assumes "sys_exec Ops E ctx k = ret (Done ctx' k')"
  shows "(\<exists>v. ctx' = set_r 0 v ctx) \<or>
    sv_spsr ctx' = sv_spsr ctx \<and> (\<forall>i > 3. sv_r ctx' i = sv_r ctx i) \<and> sv_r ctx' 2 = 0 \<and> sv_r ctx' 3 = 0"
proof (cases "validate_user_pointer (sv_r ctx 0) MAX_PATH = E_OK")
  case False
  then show ?thesis using assms by (auto simp: sys_exec_def finish_def)
next
  case True
  then obtain rc c um s v where x: "do_exec Ops (sv_r ctx 0) ctx (sv_r ctx 1) (user_mem E k) (ksys k) = ret (rc, c, um, s)"
    and c: "ctx' = set_r 0 v c"
    using assms by (auto simp: sys_exec_def finish_def Let_def elim!: rbind_InrE split: if_splits)
  show ?thesis
  proof (cases "rc = E_OK")
    case True
    have "snapshot_argv (user_mem E k) (sv_r ctx 1) \<noteq> Inr (Inl E_OK)" using snapshot_argv_error by fastforce
    then show ?thesis using do_exec_ok_ctx [OF x [unfolded True]] c by (auto simp: set_r_def)
  next
    case False
    then show ?thesis using do_exec_fail_ctx [OF x] c by auto
  qed
qed

lemma exited_not_done: "map_sum id (\<lambda>x. Exited (f x)) m \<noteq> Inr (Done c k)"
  by (cases m) auto

text \<open>C24: a system call that returns to its caller returns its result in register 0, and nothing else of
  the caller's frame changes, with two exceptions.  A successful \<open>exec\<close> starts the new program with
  registers 2 and 3 cleared, its own registers 0 and 1 and return address, and keeps the other registers
  and the mode.  \<open>exit\<close> returns only to process 1, which it restarts: registers 0 to 3 are 0 and the
  return address is the start of user space.  A number that is no system call changes nothing in the
  kernel and returns \<open>E_INVAL\<close>.\<close>

theorem svc_handler_registers:
  assumes "svc_handler B Ops E ctx k = ret (Done ctx' k')"
  shows "(sv_r ctx 7 \<noteq> 1 \<and> sv_r ctx 7 \<noteq> 10 \<longrightarrow> (\<exists>v. ctx' = set_r 0 v ctx)) \<and>
    (sv_r ctx 7 = 10 \<longrightarrow> (\<exists>v. ctx' = set_r 0 v ctx) \<or>
      sv_spsr ctx' = sv_spsr ctx \<and> (\<forall>i > 3. sv_r ctx' i = sv_r ctx i) \<and> sv_r ctx' 2 = 0 \<and> sv_r ctx' 3 = 0) \<and>
    (sv_r ctx 7 = 1 \<longrightarrow> (\<exists>t. scheduler_current_task (usc (ksys k)) = Some t \<and> t_pid (tmem (usc (ksys k)) t) = 1) \<and>
      ctx' = ctx\<lparr>sv_r := (sv_r ctx)(0 := 0, 1 := 0, 2 := 0, 3 := 0), sv_lr := USER_SPACE_VA\<rparr>) \<and>
    (unat (sv_r ctx 7) > 21 \<longrightarrow> k' = k \<and> ctx' = set_r 0 (of_int E_INVAL) ctx)"
proof (intro conjI impI)
  assume n: "sv_r ctx 7 \<noteq> 1 \<and> sv_r ctx 7 \<noteq> 10"
  then have "unat (sv_r ctx 7) \<noteq> 1" "unat (sv_r ctx 7) \<noteq> 10" by (simp_all add: word_unat_eq_iff)
  then have "only_r0 ctx (svc_handler B Ops E ctx k)" by (simp add: svc_handler_def Let_def svc_frame)
  then show "\<exists>v. ctx' = set_r 0 v ctx" using assms by (auto simp: only_r0_def)
next
  assume "sv_r ctx 7 = 10"
  then have "sys_exec Ops E ctx k = ret (Done ctx' k')" using assms by (simp add: svc_handler_def)
  then show "(\<exists>v. ctx' = set_r 0 v ctx) \<or>
      sv_spsr ctx' = sv_spsr ctx \<and> (\<forall>i > 3. sv_r ctx' i = sv_r ctx i) \<and> sv_r ctx' 2 = 0 \<and> sv_r ctx' 3 = 0" by (rule sys_exec_ctx)
next
  assume "sv_r ctx 7 = 1"
  then have x: "sys_exit E ctx k = ret (Done ctx' k')" using assms by (simp add: svc_handler_def)
  from x show "\<exists>t. scheduler_current_task (usc (ksys k)) = Some t \<and> t_pid (tmem (usc (ksys k)) t) = 1"
    by (auto simp: sys_exit_def Let_def exited_not_done split: option.splits if_splits)
  from x show "ctx' = ctx\<lparr>sv_r := (sv_r ctx)(0 := 0, 1 := 0, 2 := 0, 3 := 0), sv_lr := USER_SPACE_VA\<rparr>"
    by (auto simp: sys_exit_def Let_def exited_not_done finish_def set_r_def fun_eq_iff split: option.splits if_splits sum.splits)
next
  assume "unat (sv_r ctx 7) > 21"
  then show "k' = k" "ctx' = set_r 0 (of_int E_INVAL) ctx" using assms by (simp_all add: svc_handler_def finish_def)
qed

definition pid_ctx :: svc_context where
  "pid_ctx = \<lparr>sv_spsr = 0x10, sv_r = (\<lambda>_. 5)(7 := 14), sv_lr = 0x40000000\<rparr>"

theorem svc_handler_registers_witness:
  "\<forall>B Ops E k. \<exists>ctx'. svc_handler B Ops E pid_ctx k = ret (Done ctx' k) \<and> sv_spsr ctx' = 0x10 \<and> sv_r ctx' 1 = 5 \<and> sv_r ctx' 4 = 5"
proof (intro allI)
  fix B Ops E k
  obtain ctx' where x: "svc_handler B Ops E pid_ctx k = ret (Done ctx' k)"
    by (simp add: svc_handler_def finish_def pid_ctx_def)
  then have "\<exists>v. ctx' = set_r 0 v pid_ctx"
    using svc_handler_registers [OF x] by (simp add: pid_ctx_def)
  then have "sv_spsr ctx' = 0x10 \<and> sv_r ctx' 1 = 5 \<and> sv_r ctx' 4 = 5" by (auto simp: pid_ctx_def set_r_def)
  then show "\<exists>ctx'. svc_handler B Ops E pid_ctx k = ret (Done ctx' k) \<and> sv_spsr ctx' = 0x10 \<and> sv_r ctx' 1 = 5 \<and> sv_r ctx' 4 = 5"
    using x by blast
qed

subsection \<open>User memory\<close>

lemma validate_iff: "validate_user_pointer p n = E_OK \<longleftrightarrow> 0x40000000 \<le> unat p \<and> unat p + unat n \<le> 0x40100000"
proof -
  have "validate_user_pointer p n = E_OK \<longleftrightarrow> in_user_space p n"
    by (auto simp: validate_user_pointer_def in_user_space_def USER_END_def Let_def)
  then show ?thesis by (simp add: in_user_space_unat)
qed

text \<open>The product that is checked wraps: a count of \<open>0x06666667\<close> entries passes as 24 bytes, and the first
  entry already leaves the window.\<close>

lemma task_list_overrun:
  "validate_user_pointer 0x400FFFE0 (0x06666667 * 40) = E_OK"
  "length name = 32 \<Longrightarrow> user_writes (task_entries 0x400FFFE0 (\<lparr>pi_id = i, pi_name = name, pi_state = st\<rparr> # ps)) um = Inl OutOfBounds"
proof -
  show "validate_user_pointer 0x400FFFE0 (0x06666667 * 40) = E_OK" by (simp add: validate_iff)
  show "user_writes (task_entries 0x400FFFE0 (\<lparr>pi_id = i, pi_name = name, pi_state = st\<rparr> # ps)) um = Inl OutOfBounds" if "length name = 32"
    using that by (auto simp: task_entries_def Let_def user_write_def fbind_def)
qed

lemma current_table_put [simp]: "current_table E (put_user_mem E um k) = current_table E k"
  by (simp add: put_user_mem_def current_table_def split: option.splits prod.splits)

lemma ksys_put [simp]: "ksys (put_user_mem E um k) = ksys k"
  by (simp add: put_user_mem_def split: option.splits prod.splits)

text \<open>The view of user memory after it is stored, at the addresses of the window.\<close>

lemma window_idx: "0x40000000 \<le> unat va \<Longrightarrow> unat va < 0x40100000 \<Longrightarrow> sect_idx va = 0x400"
  by (simp add: sect_idx_eq)

lemma unat_lt32: "unat (x :: u32) < 4294967296"
  using unsigned_less [of x] by simp

lemma word_of_bytes_nth: "j < 4 \<Longrightarrow> [f b, f (b + 1), f (b + 2), f (b + 3)] ! j = f (b + of_nat j :: u32)"
  by (auto simp: less_Suc_eq numeral_eq_Suc)

lemma unat_low2: "unat ((pa :: u32) AND 3) = unat pa mod 4"
proof -
  have "pa AND 3 = take_bit 2 pa" by (simp add: take_bit_eq_mask mask_eq_exp_minus_1)
  then show ?thesis by (simp add: unsigned_take_bit_eq take_bit_eq_mod unat_mod)
qed

lemma and_not3: "(pa :: u32) AND NOT 3 = pa - (pa AND 3)"
proof -
  have "(pa AND NOT 3) AND (pa AND 3) = 0" by (rule bit_word_eqI) (auto simp: bit_simps)
  then have "(pa AND NOT 3) + (pa AND 3) = (pa AND NOT 3) OR (pa AND 3)" by (rule disjunctive_add_eq_or)
  also have "\<dots> = pa" by (rule bit_word_eqI) (auto simp: bit_simps)
  finally show ?thesis by (simp add: eq_diff_eq)
qed

lemma section_offset_low2:
  assumes "(base :: u32) = push_bit 20 (drop_bit 20 base)"
  shows "(off + base) AND 3 = off AND 3"
proof -
  have "unat base = push_bit 20 (drop_bit 20 (unat base))"
    by (subst assms) (simp add: unsigned_push_bit_eq unat_drop_bit_eq take_bit_push_bit take_bit_drop_bit take_bit_nat_eq_self unat_lt32)
  also have "\<dots> = 4 * (2 ^ 18 * drop_bit 20 (unat base))" by (simp add: push_bit_eq_mult)
  finally have "4 dvd unat base" by (metis dvd_triv_left)
  then obtain q where "unat base = 4 * q" by (elim dvdE)
  then have "unat (off + base) mod 4 = unat off mod 4"
    by (simp add: unat_word_ariths mod_mod_cancel)
  then show ?thesis by (simp add: word_unat_eq_iff unat_low2)
qed

lemma user_mem_put:
  assumes m: "maps_user (current_table E k) base" and va: "0x40000000 \<le> unat va" "unat va < 0x40100000"
  shows "user_mem E (put_user_mem E um k) va = um va"
proof -
  define off where "off = va - USER_SPACE_VA"
  let ?t = "current_table E k" and ?pa = "off + base" and ?j = "unat (off AND 3)"
  have low: "?pa AND 3 = off AND 3" using m section_offset_low2 by (simp add: maps_user_def)
  have o: "unat off < 0x100000" using va by (simp add: off_def USER_SPACE_VA_def unat_sub word_le_nat_alt)
  have lt: "?j < 4" "unat (off AND 3) \<le> unat off" by (simp_all add: unat_low2)
  have "sect_idx USER_SPACE_VA = 0x400" by (simp add: sect_idx_eq USER_SPACE_VA_def)
  then obtain u u' where t: "section_translate ?t va = Some (?pa, u)" "section_translate ?t USER_SPACE_VA = Some (base, u')"
    using m window_idx [OF va] unfolding maps_user_def off_def by (metis add_0 diff_self)
  have word: "(?pa AND NOT 3) - base = off - (off AND 3)" by (simp only: and_not3 low) simp
  have in_win: "off - (off AND 3) < USER_SPACE_BYTES"
    using o lt by (simp add: word_less_nat_alt word_le_nat_alt unat_sub USER_SPACE_BYTES_def)
  have al: "(?pa AND NOT 3) AND 3 = 0" by (rule bit_word_eqI) (auto simp: bit_simps)
  have va_eq: "USER_SPACE_VA + (off - (off AND 3)) + of_nat ?j = va" by (simp add: off_def)
  let ?b = "USER_SPACE_VA + (off - (off AND 3))"
  have "user_mem E (put_user_mem E um k) va = load_byte (kpmem (put_user_mem E um k)) ?pa"
    by (simp add: user_mem_def t)
  also have "\<dots> = ucast (drop_bit (8 * ?j) (uload32 um ?b))"
    using in_win by (simp add: load_byte_def put_user_mem_def t low al [simplified] word [simplified])
  also have "\<dots> = [um ?b, um (?b + 1), um (?b + 2), um (?b + 3)] ! ?j"
    using lt(1) by (simp add: uload32_def byte_of_rd32)
  also have "\<dots> = um (?b + of_nat ?j)"
    by (rule word_of_bytes_nth [OF lt(1)])
  also have "\<dots> = um va" by (simp only: va_eq)
  finally show ?thesis .
qed

end
