(* ===== verification/Ulibc.thy ===== *)
theory Ulibc
  imports Klibc
begin

section \<open>The user C library: strings, characters, numbers\<close>

text \<open>
  \<open>userspace/vinixlibc/src/string.c\<close>, \<open>ctype.c\<close> and the numeric part of \<open>stdlib.c\<close>.  The names carry
  the prefix \<open>u\<close> where the kernel has a function of the same name.

  A string argument is the list of its bytes before the terminator.  A function that returns a pointer
  into its argument returns the index, and \<open>NULL\<close> is \<open>None\<close>.  A function that stores gets the memory the
  pointers point into and the index each stands for, so that the two ranges of \<open>memmove\<close> may overlap.
  \<open>long\<close> and \<open>int\<close> have 32 bits and wrap.
\<close>

subsection \<open>Strings and memory\<close>

fun ustrlen :: "cstring \<Rightarrow> nat" where
  "ustrlen [] = 0"
| "ustrlen (c # s) = (if c = 0 then 0 else Suc (ustrlen s))"

fun ustrcmp :: "cstring \<Rightarrow> cstring \<Rightarrow> int" where
  "ustrcmp (a # s) t = (if a \<noteq> 0 \<and> a = chr0 t then ustrcmp s (tl t) else uint a - uint (chr0 t))"
| "ustrcmp [] t = 0 - uint (chr0 t)"

fun ustrncmp :: "cstring \<Rightarrow> cstring \<Rightarrow> nat \<Rightarrow> int" where
  "ustrncmp s t 0 = 0"
| "ustrncmp s t (Suc n) =
     (let a = chr0 s; b = chr0 t in
      if a \<noteq> b then uint a - uint b else if a = 0 then 0 else ustrncmp (tl s) (tl t) n)"

fun ustrcpy :: "u8 list \<Rightarrow> nat \<Rightarrow> cstring \<Rightarrow> u8 list" where
  "ustrcpy m d [] = m[d := 0]"
| "ustrcpy m d (c # s) = (if c = 0 then m[d := 0] else ustrcpy (m[d := c]) (Suc d) s)"

fun ustrncpy_zero :: "u8 list \<Rightarrow> nat \<Rightarrow> nat \<Rightarrow> u8 list" where
  "ustrncpy_zero m d 0 = m"
| "ustrncpy_zero m d (Suc n) = ustrncpy_zero (m[d := 0]) (Suc d) n"

fun ustrncpy :: "u8 list \<Rightarrow> nat \<Rightarrow> cstring \<Rightarrow> nat \<Rightarrow> u8 list" where
  "ustrncpy m d s 0 = m"
| "ustrncpy m d s (Suc n) =
     (if chr0 s \<noteq> 0 then ustrncpy (m[d := chr0 s]) (Suc d) (tl s) n else ustrncpy_zero m d (Suc n))"

text \<open>\<open>strcat\<close> walks to the terminator of the string at \<open>d\<close>; \<open>None\<close>: there is none in the memory.\<close>

fun end_of :: "u8 list \<Rightarrow> nat \<Rightarrow> nat option" where
  "end_of [] d = None"
| "end_of (c # m) d = (if c = 0 then Some d else end_of m (Suc d))"

definition ustrcat :: "u8 list \<Rightarrow> nat \<Rightarrow> cstring \<Rightarrow> u8 list option" where
  "ustrcat m d s = map_option (\<lambda>p. ustrcpy m p s) (end_of (drop d m) d)"

fun ustrchr_from :: "nat \<Rightarrow> cstring \<Rightarrow> u8 \<Rightarrow> nat option" where
  "ustrchr_from i [] c = (if c = 0 then Some i else None)"
| "ustrchr_from i (x # s) c = (if x = 0 then (if c = 0 then Some i else None) else if x = c then Some i else ustrchr_from (Suc i) s c)"

definition ustrchr :: "cstring \<Rightarrow> u8 \<Rightarrow> nat option" where
  "ustrchr s c = ustrchr_from 0 s c"

fun ustrrchr_from :: "nat \<Rightarrow> nat option \<Rightarrow> cstring \<Rightarrow> u8 \<Rightarrow> nat option" where
  "ustrrchr_from i l [] c = (if c = 0 then Some i else l)"
| "ustrrchr_from i l (x # s) c =
     (if x = 0 then (if c = 0 then Some i else l)
      else ustrrchr_from (Suc i) (if x = c then Some i else l) s c)"

definition ustrrchr :: "cstring \<Rightarrow> u8 \<Rightarrow> nat option" where
  "ustrrchr s c = ustrrchr_from 0 None s c"

text \<open>The inner loop of \<open>strstr\<close>: does the rest of the needle come to its end?\<close>

fun matches_at :: "cstring \<Rightarrow> cstring \<Rightarrow> bool" where
  "matches_at h [] = True"
| "matches_at [] (b # n) = (b = 0)"
| "matches_at (a # h) (b # n) = (if a \<noteq> 0 \<and> b \<noteq> 0 \<and> a = b then matches_at h n else b = 0)"

fun ustrstr_from :: "nat \<Rightarrow> cstring \<Rightarrow> cstring \<Rightarrow> nat option" where
  "ustrstr_from i [] n = None"
| "ustrstr_from i (a # h) n = (if a = 0 then None else if matches_at (a # h) n then Some i else ustrstr_from (Suc i) h n)"

definition ustrstr :: "cstring \<Rightarrow> cstring \<Rightarrow> nat option" where
  "ustrstr h n = (if chr0 n = 0 then Some 0 else ustrstr_from 0 h n)"

fun umemcpy :: "u8 list \<Rightarrow> nat \<Rightarrow> nat \<Rightarrow> nat \<Rightarrow> u8 list" where
  "umemcpy m d s 0 = m"
| "umemcpy m d s (Suc n) = umemcpy (m[d := m ! s]) (Suc d) (Suc s) n"

text \<open>The downward copy of \<open>memmove\<close>, from the last byte.\<close>

fun copy_down :: "u8 list \<Rightarrow> nat \<Rightarrow> nat \<Rightarrow> nat \<Rightarrow> u8 list" where
  "copy_down m d s 0 = m"
| "copy_down m d s (Suc n) = copy_down (m[d + n := m ! (s + n)]) d s n"

definition umemmove :: "u8 list \<Rightarrow> nat \<Rightarrow> nat \<Rightarrow> nat \<Rightarrow> u8 list" where
  "umemmove m d s n = (if d = s \<or> n = 0 then m else if d < s then umemcpy m d s n else copy_down m d s n)"

fun umemset :: "u8 list \<Rightarrow> nat \<Rightarrow> u8 \<Rightarrow> nat \<Rightarrow> u8 list" where
  "umemset m d c 0 = m"
| "umemset m d c (Suc n) = umemset (m[d := c]) (Suc d) c n"

fun umemcmp :: "u8 list \<Rightarrow> u8 list \<Rightarrow> nat \<Rightarrow> int" where
  "umemcmp p q 0 = 0"
| "umemcmp p q (Suc n) = (if hd p \<noteq> hd q then uint (hd p) - uint (hd q) else umemcmp (tl p) (tl q) n)"

subsection \<open>Characters and numbers\<close>

definition isdigit :: "int \<Rightarrow> bool" where "isdigit c \<longleftrightarrow> c \<ge> 48 \<and> c \<le> 57"
definition isupper :: "int \<Rightarrow> bool" where "isupper c \<longleftrightarrow> c \<ge> 65 \<and> c \<le> 90"
definition islower :: "int \<Rightarrow> bool" where "islower c \<longleftrightarrow> c \<ge> 97 \<and> c \<le> 122"
definition isalpha :: "int \<Rightarrow> bool" where "isalpha c \<longleftrightarrow> isupper c \<or> islower c"
definition isalnum :: "int \<Rightarrow> bool" where "isalnum c \<longleftrightarrow> isdigit c \<or> isalpha c"
definition isspace :: "int \<Rightarrow> bool" where "isspace c \<longleftrightarrow> c = 32 \<or> c = 9 \<or> c = 10 \<or> c = 13 \<or> c = 12 \<or> c = 11"
definition isprint :: "int \<Rightarrow> bool" where "isprint c \<longleftrightarrow> c \<ge> 32 \<and> c < 127"
definition toupper :: "int \<Rightarrow> int" where "toupper c = (if islower c then c - 97 + 65 else c)"
definition tolower :: "int \<Rightarrow> int" where "tolower c = (if isupper c then c - 65 + 97 else c)"

definition wrap32 :: "int \<Rightarrow> int" where
  "wrap32 x = sint (word_of_int x :: u32)"

definition uabs :: "int \<Rightarrow> int" where
  "uabs v = (if v < 0 then wrap32 (- v) else v)"

fun skip_space :: "cstring \<Rightarrow> cstring" where
  "skip_space (c # s) = (if isspace (uint c) then skip_space s else c # s)"
| "skip_space [] = []"

definition strtol_sign :: "cstring \<Rightarrow> int \<times> cstring" where
  "strtol_sign s = (if chr0 s = 45 then (- 1, tl s) else if chr0 s = 43 then (1, tl s) else (1, s))"

definition strtol_base :: "cstring \<Rightarrow> int \<Rightarrow> int \<times> cstring" where
  "strtol_base s base =
     (if (base = 0 \<or> base = 16) \<and> chr0 s = 48 \<and> (chr0 (tl s) = 120 \<or> chr0 (tl s) = 88) then (16, tl (tl s))
      else if base = 0 \<and> chr0 s = 48 then (8, tl s)
      else if base = 0 then (10, s) else (base, s))"

definition strtol_digit :: "u8 \<Rightarrow> int option" where
  "strtol_digit c =
     (if isdigit (uint c) then Some (uint c - 48)
      else if isalpha (uint c) then Some (tolower (uint c) - 97 + 10) else None)"

fun strtol_loop :: "cstring \<Rightarrow> int \<Rightarrow> int \<Rightarrow> int \<times> cstring" where
  "strtol_loop [] base v = (v, [])"
| "strtol_loop (c # s) base v =
     (if c = 0 then (v, c # s)
      else case strtol_digit c of
          None \<Rightarrow> (v, c # s)
        | Some d \<Rightarrow> if d \<ge> base then (v, c # s) else strtol_loop s base (wrap32 (v * base + d)))"

definition strtol :: "cstring \<Rightarrow> int \<Rightarrow> int \<times> cstring" where
  "strtol s base =
     (case strtol_sign (skip_space s) of (sign, s1) \<Rightarrow>
      case strtol_base s1 base of (b, s2) \<Rightarrow>
      case strtol_loop s2 b 0 of (v, rest) \<Rightarrow> (wrap32 (sign * v), rest))"

definition atol :: "cstring \<Rightarrow> int" where
  "atol s = fst (strtol s 10)"

definition atoi :: "cstring \<Rightarrow> int" where
  "atoi s = fst (strtol s 10)"

text \<open>\<open>itoa\<close>: the digits in reverse, in the order they are stored into \<open>tmp\<close>.  The bases are 2 to 36, as
  the comment of the function says.\<close>

definition itoa_digit :: "nat \<Rightarrow> u8" where
  "itoa_digit d = (if d < 10 then 48 + of_nat d else 97 + of_nat d - 10)"

fun itoa_rev :: "nat \<Rightarrow> nat \<Rightarrow> u8 list" where
  "itoa_rev v base = (if v = 0 \<or> base < 2 then [] else itoa_digit (v mod base) # itoa_rev (v div base) base)"

declare itoa_rev.simps [simp del]

definition itoa :: "int \<Rightarrow> nat \<Rightarrow> cstring" where
  "itoa value base =
     (let neg = (base = 10 \<and> value < 0);
          v = (if neg then unat (word_of_int (- value) :: u32) else unat (word_of_int value :: u32));
          tmp = (if v = 0 then [48] else itoa_rev v base);
          tmp = (if neg then tmp @ [45] else tmp)
      in rev tmp)"

subsection \<open>Copies and searches against their specification\<close>

lemma umemcpy_nth:
  assumes "d \<le> s" "s + n \<le> length m" "i < length m"
  shows "umemcpy m d s n ! i = (if d \<le> i \<and> i < d + n then m ! (s + (i - d)) else m ! i)"
  using assms
proof (induction n arbitrary: m d s)
  case (Suc n)
  have "umemcpy (m[d := m ! s]) (Suc d) (Suc s) n ! i =
      (if Suc d \<le> i \<and> i < Suc d + n then m[d := m ! s] ! (Suc s + (i - Suc d)) else m[d := m ! s] ! i)"
    using Suc.prems by (intro Suc.IH) simp_all
  moreover have "m[d := m ! s] ! (Suc s + (i - Suc d)) = m ! (s + (i - d))" if "Suc d \<le> i"
    using that Suc.prems(1) by (simp add: Suc_diff_Suc)
  ultimately show ?case using Suc.prems by (auto simp: nth_list_update)
qed auto

lemma copy_down_nth:
  assumes "s < d" "d + n \<le> length m" "i < length m"
  shows "copy_down m d s n ! i = (if d \<le> i \<and> i < d + n then m ! (s + (i - d)) else m ! i)"
  using assms
proof (induction n arbitrary: m)
  case (Suc n)
  have "copy_down (m[d + n := m ! (s + n)]) d s n ! i =
      (if d \<le> i \<and> i < d + n then m[d + n := m ! (s + n)] ! (s + (i - d)) else m[d + n := m ! (s + n)] ! i)"
    using Suc.prems by (intro Suc.IH) simp_all
  then show ?case using Suc.prems by (auto simp: nth_list_update)
qed auto

lemma length_umemcpy [simp]: "length (umemcpy m d s n) = length m"
  by (induction m d s n rule: umemcpy.induct) auto

lemma length_copy_down [simp]: "length (copy_down m d s n) = length m"
  by (induction m d s n rule: copy_down.induct) auto

lemma umemmove_blit:
  assumes "d + n \<le> length m" "s + n \<le> length m"
  shows "umemmove m d s n = blit m d (take n (drop s m))"
proof (rule nth_equalityI)
  show "length (umemmove m d s n) = length (blit m d (take n (drop s m)))" by (simp add: umemmove_def)
  fix i assume "i < length (umemmove m d s n)"
  then have i: "i < length m" by (auto simp: umemmove_def split: if_splits)
  have "blit m d (take n (drop s m)) ! i = (if d \<le> i \<and> i < d + n then m ! (s + (i - d)) else m ! i)"
    using i assms by (auto simp: nth_blit)
  moreover have "umemmove m d s n ! i = (if d \<le> i \<and> i < d + n then m ! (s + (i - d)) else m ! i)"
    using umemcpy_nth [of d s n m i] copy_down_nth [of s d n m i] assms i by (auto simp: umemmove_def)
  ultimately show "umemmove m d s n ! i = blit m d (take n (drop s m)) ! i" by simp
qed

lemma matches_at_prefix: "0 \<notin> set h \<Longrightarrow> 0 \<notin> set n \<Longrightarrow> matches_at h n \<longleftrightarrow> take (length n) h = n"
  by (induction h n rule: matches_at.induct) auto

lemma ustrstr_from_first:
  assumes "0 \<notin> set h" "0 \<notin> set n" "n \<noteq> []"
  shows "ustrstr_from i h n = map_option ((+) i) (first_idx (\<lambda>k. take (length n) (drop k h) = n) 0 (length h))"
  using assms
proof (induction h arbitrary: i)
  case Nil
  then show ?case by (simp add: first_idx_def)
next
  case (Cons a h)
  let ?P = "\<lambda>h k. take (length n) (drop k h) = n"
  have sh: "first_idx (?P (a # h)) (Suc 0) (Suc (length h)) = map_option Suc (first_idx (?P h) 0 (length h))"
  proof (cases "first_idx (?P h) 0 (length h)")
    case None
    then have "\<not> ?P (a # h) k" if "Suc 0 \<le> k" "k < Suc (length h)" for k
      using that by (cases k) (auto simp: first_idx_None_iff)
    then have "first_idx (?P (a # h)) (Suc 0) (Suc (length h)) = None" by (simp add: first_idx_None_iff)
    then show ?thesis using None by (simp only: option.map)
  next
    case (Some j)
    have "first_idx (?P (a # h)) (Suc 0) (Suc (length h)) = Some (Suc j)"
      unfolding first_idx_Some_iff
    proof (intro conjI allI impI)
      fix k assume k: "Suc 0 \<le> k \<and> k < Suc j"
      then show "take (length n) (drop k (a # h)) \<noteq> n"
        using first_idx_SomeD(4) [OF Some, of "k - 1"] by (cases k) auto
    qed (use first_idx_SomeD [OF Some] in auto)
    then show ?thesis using Some by simp
  qed
  show ?case
  proof (cases "?P (a # h) 0")
    case True
    then show ?thesis using Cons.prems matches_at_prefix [of "a # h" n] by (simp add: first_idx_unfold [of _ 0])
  next
    case False
    then have "ustrstr_from i (a # h) n = ustrstr_from (Suc i) h n"
      using Cons.prems matches_at_prefix [of "a # h" n] by simp
    also have "\<dots> = map_option ((+) (Suc i)) (first_idx (?P h) 0 (length h))" using Cons by simp
    also have "\<dots> = map_option ((+) i) (first_idx (?P (a # h)) 0 (length (a # h)))"
      using False sh by (subst (2) first_idx_unfold) (simp add: option.map_comp comp_def fun_eq_iff cong: option.map_cong)
    finally show ?thesis .
  qed
qed

subsection \<open>Numbers read back\<close>

lemma itoa_digit_value: "d < 36 \<Longrightarrow> strtol_digit (itoa_digit d) = Some (int d)" "d < 36 \<Longrightarrow> itoa_digit d \<noteq> 0"
  "d < 36 \<Longrightarrow> \<not> isspace (uint (itoa_digit d)) \<and> itoa_digit d \<noteq> 45 \<and> itoa_digit d \<noteq> 43"
proof -
  assume d: "d < 36"
  have e: "97 + of_nat d - 10 = (87 + of_nat d :: u8)" by simp
  have v: "unat (of_nat d :: u8) = d" using d by (simp add: unat_of_nat take_bit_nat_eq_self)
  have "unat (itoa_digit d) = (if d < 10 then 48 + d else 87 + d)"
    unfolding itoa_digit_def e using d v by (simp add: unat_word_ariths)
  then have u: "uint (itoa_digit d) = (if d < 10 then 48 + int d else 87 + int d)" by (simp add: uint_nat)
  then show "strtol_digit (itoa_digit d) = Some (int d)"
    using d by (auto simp: strtol_digit_def isdigit_def isalpha_def isupper_def islower_def tolower_def)
  show "itoa_digit d \<noteq> 0" using u by (auto simp: word_uint_eq_iff)
  show "\<not> isspace (uint (itoa_digit d)) \<and> itoa_digit d \<noteq> 45 \<and> itoa_digit d \<noteq> 43"
    using u by (auto simp: word_uint_eq_iff isspace_def)
qed

lemma wrap32_id: "- (2 ^ 31) \<le> x \<Longrightarrow> x < 2 ^ 31 \<Longrightarrow> wrap32 x = x"
  by (simp add: wrap32_def signed_of_int signed_take_bit_int_eq_self)

lemma itoa_digit_48: "d < 36 \<Longrightarrow> itoa_digit d = 48 \<longleftrightarrow> d = 0"
proof
  assume "d < 36" "itoa_digit d = 48"
  then have "strtol_digit 48 = Some (int d)" using itoa_digit_value(1) [of d] by simp
  then show "d = 0" by (simp add: strtol_digit_def isdigit_def)
qed (simp add: itoa_digit_def)

lemma strtol_loop_itoa:
  "2 \<le> base \<Longrightarrow> base \<le> 36 \<Longrightarrow> v < 2 ^ 31 \<Longrightarrow>
   strtol_loop (rev (itoa_rev v base) @ r) (int base) 0 = strtol_loop r (int base) (int v)"
proof (induction v base arbitrary: r rule: itoa_rev.induct)
  case (1 v base)
  show ?case
  proof (cases "v = 0")
    case True
    then show ?thesis by (simp add: itoa_rev.simps [of 0])
  next
    case False
    let ?d = "v mod base"
    have d: "?d < base" using 1(2) by simp
    then have d36: "?d < 36" using 1(3) by linarith
    have q: "v div base < 2 ^ 31" using 1(4) by (meson div_le_dividend le_less_trans)
    have "rev (itoa_rev v base) @ r = rev (itoa_rev (v div base) base) @ (itoa_digit ?d # r)"
      using False 1(2) by (subst itoa_rev.simps) simp
    then have "strtol_loop (rev (itoa_rev v base) @ r) (int base) 0 = strtol_loop (itoa_digit ?d # r) (int base) (int (v div base))"
      using 1(1) [OF _ 1(2,3) q] False 1(2) by simp
    also have "\<dots> = strtol_loop r (int base) (wrap32 (int (v div base) * int base + int ?d))"
      using itoa_digit_value(1,2) [OF d36] d by simp
    also have "int (v div base) * int base + int ?d = int v" by (metis div_mult_mod_eq of_nat_add of_nat_mult)
    finally show ?thesis using 1(4) wrap32_id [of "int v"] by simp
  qed
qed

lemma itoa_rev_last:
  "2 \<le> base \<Longrightarrow> 0 < v \<Longrightarrow> \<exists>ds d. itoa_rev v base = ds @ [itoa_digit d] \<and> 0 < d \<and> d < base"
proof (induction v base rule: itoa_rev.induct)
  case (1 v base)
  show ?case
  proof (cases "v div base = 0")
    case True
    then have "v < base" using 1(2) by (simp add: div_eq_0_iff)
    then have "itoa_rev v base = [itoa_digit v]"
      using 1(2,3) by (subst itoa_rev.simps) (simp add: itoa_rev.simps [of 0])
    then show ?thesis using \<open>v < base\<close> 1(3) by auto
  next
    case False
    then obtain ds d where "itoa_rev (v div base) base = ds @ [itoa_digit d]" "0 < d" "d < base"
      using 1(1) [OF _ 1(2)] 1(2,3) by auto
    then show ?thesis using 1(2,3) by (subst itoa_rev.simps) (auto intro!: exI [of _ "_ # ds"])
  qed
qed

lemma itoa_unsigned:
  assumes "2 \<le> base" "base \<le> 36" "v < 2 ^ 31" "t = (if v = 0 then [48] else rev (itoa_rev v base))"
  shows "strtol_loop t (int base) 0 = (int v, [])" "skip_space t = t" "chr0 t \<noteq> 45" "chr0 t \<noteq> 43" "strtol_base t (int base) = (int base, t)"
proof -
  have "\<exists>d ds. t = itoa_digit d # ds \<and> d < 36 \<and> (d = 0 \<longrightarrow> ds = [])"
  proof (cases "v = 0")
    case True
    then have "t = itoa_digit 0 # []" using assms(4) by (simp add: itoa_digit_def)
    then show ?thesis by (intro exI [of _ 0] exI [of _ "[]"]) simp
  next
    case False
    then obtain ds d where "itoa_rev v base = ds @ [itoa_digit d]" "0 < d" "d < base"
      using itoa_rev_last [OF assms(1), of v] by auto
    then have "t = itoa_digit d # rev ds" "d < 36" "d \<noteq> 0" using False assms(2,4) by auto
    then show ?thesis by (intro exI [of _ d] exI [of _ "rev ds"]) simp
  qed
  then obtain d ds where t: "t = itoa_digit d # ds" "d < 36" "d = 0 \<longrightarrow> ds = []" by blast
  show "skip_space t = t" "chr0 t \<noteq> 45" "chr0 t \<noteq> 43" using itoa_digit_value(3) [OF t(2)] by (simp_all add: t(1))
  show "strtol_base t (int base) = (int base, t)"
    using itoa_digit_48 [OF t(2)] t assms(1) by (auto simp: strtol_base_def)
  show "strtol_loop t (int base) 0 = (int v, [])"
  proof (cases "v = 0")
    case True
    then show ?thesis using assms(1) by (simp add: assms(4) strtol_digit_def isdigit_def wrap32_def)
  next
    case False
    then show ?thesis using strtol_loop_itoa [OF assms(1-3), of "[]"] assms(4) by simp
  qed
qed

text \<open>C29: a number printed by \<open>itoa\<close> in a base from 2 to 36 is read back by \<open>strtol\<close>, which consumes the
  whole text; with a sign in base 10.\<close>

theorem strtol_itoa:
  assumes "2 \<le> base" "base \<le> 36" "v < 2 ^ 31" "if base = 10 then - (2 ^ 31) < v else 0 \<le> v"
  shows "strtol (itoa v base) (int base) = (v, [])"
proof (cases "base = 10 \<and> v < 0")
  case True
  define n where "n = nat (- v)"
  have n: "n < 2 ^ 31" "v = - int n" "n \<noteq> 0" using True assms(4) by (auto simp: n_def)
  have "unat (word_of_int (- v) :: u32) = n"
    using n by (simp add: unat_of_nat take_bit_nat_eq_self)
  then have i: "itoa v base = 45 # rev (itoa_rev n base)" using True n(3) by (simp add: itoa_def)
  note u = itoa_unsigned [OF assms(1,2) n(1) refl]
  show ?thesis
    unfolding strtol_def i using u n wrap32_id [of "- int n"] by (simp add: strtol_sign_def isspace_def)
next
  case False
  define n where "n = nat v"
  have n: "n < 2 ^ 31" "v = int n" using False assms(3,4) by (auto simp: n_def split: if_splits)
  have "unat (word_of_int v :: u32) = n"
    using n by (simp add: unat_of_nat take_bit_nat_eq_self)
  then have i: "itoa v base = (if n = 0 then [48] else rev (itoa_rev n base))" using False by (auto simp: itoa_def Let_def)
  note u = itoa_unsigned [OF assms(1,2) n(1) i]
  show ?thesis using u n wrap32_id [of "int n"] by (simp add: strtol_def strtol_sign_def)
qed

theorem strtol_itoa_witness: "strtol (itoa (- 1234) 10) 10 = (- 1234, [])"
  using strtol_itoa [of 10 "- 1234"] by simp

end
