(* ===== verification/Format_Spec.thy ===== *)
theory Format_Spec
  imports Klibc
begin

section \<open>What a format stands for: the reference of both formatters\<close>

text \<open>
  The grammar of \<open>format.c\<close> and \<open>printf.c\<close>, \<open>%[-][0][width][l]{d,u,x,X,o,p,s,c,%}\<close>, as a relation between a
  format with its arguments and the text they stand for.  It uses nothing of the formatters: a numeral is
  any string of digits without leading zeros whose value is the number, and a field is padded to its width.
  \<open>cw\<close> says whether \<open>%c\<close> has a width, which it has in the user library and not in the kernel.
\<close>

subsection \<open>Numerals and fields\<close>

definition digit_list :: "bool \<Rightarrow> cstring" where
  "digit_list upper = cstr (if upper then ''0123456789ABCDEF'' else ''0123456789abcdef'')"

definition numeral_text :: "nat \<Rightarrow> bool \<Rightarrow> nat \<Rightarrow> u8 list \<Rightarrow> bool" where
  "numeral_text base upper v ds \<longleftrightarrow> ds \<noteq> [] \<and> set ds \<subseteq> set (take base (digit_list upper)) \<and>
     digits_value base ds = v \<and> (hd ds = 48 \<longrightarrow> ds = [48])"

definition field :: "bool \<Rightarrow> bool \<Rightarrow> nat \<Rightarrow> u8 list \<Rightarrow> u8 list \<Rightarrow> u8 list" where
  "field left zero width sign body =
     (let fill = width - length (sign @ body) in
      if left then sign @ body @ replicate fill 32
      else if zero then sign @ replicate fill 48 @ body
      else replicate fill 32 @ sign @ body)"

subsection \<open>Conversions and formats\<close>

inductive conv_text :: "bool \<Rightarrow> bool \<Rightarrow> bool \<Rightarrow> nat \<Rightarrow> u8 \<Rightarrow> fmt_arg list \<Rightarrow> u8 list \<Rightarrow> fmt_arg list \<Rightarrow> bool"
  for cw left zero width where
  conv_d: "numeral_text 10 False (nat \<bar>sint v\<bar>) ds \<Longrightarrow>
    conv_text cw left zero width 100 (AInt v # ap) (field left zero width (if sint v < 0 then [45] else []) ds) ap"
| conv_u: "numeral_text 10 False (unat v) ds \<Longrightarrow> conv_text cw left zero width 117 (AInt v # ap) (field left zero width [] ds) ap"
| conv_x: "numeral_text 16 False (unat v) ds \<Longrightarrow> conv_text cw left zero width 120 (AInt v # ap) (field left zero width [] ds) ap"
| conv_X: "numeral_text 16 True (unat v) ds \<Longrightarrow> conv_text cw left zero width 88 (AInt v # ap) (field left zero width [] ds) ap"
| conv_o: "numeral_text 8 False (unat v) ds \<Longrightarrow> conv_text cw left zero width 111 (AInt v # ap) (field left zero width [] ds) ap"
| conv_p: "numeral_text 16 False (unat v) ds \<Longrightarrow>
    conv_text cw left zero width 112 (AInt v # ap) (field left zero width [] ([48, 120] @ ds)) ap"
| conv_s: "0 \<notin> set t \<Longrightarrow> conv_text cw left zero width 115 (AStr (Some t) # ap) (field left False width [] t) ap"
| conv_null: "conv_text cw left zero width 115 (AStr None # ap) (field left False width [] (cstr ''(null)'')) ap"
| conv_c: "conv_text cw left zero width 99 (AInt v # ap) (field left False (if cw then width else 1) [] [ucast v]) ap"
| conv_pct: "conv_text cw left zero width 37 ap [37] ap"

text \<open>Flags, a width that does not begin with the flag 0 and fits into an \<open>int\<close>, and an optional \<open>l\<close>.\<close>

inductive printed :: "bool \<Rightarrow> u8 list \<Rightarrow> fmt_arg list \<Rightarrow> u8 list \<Rightarrow> bool" for cw where
  printed_end: "printed cw [] ap []"
| printed_char: "c \<notin> {0, 37} \<Longrightarrow> printed cw p ap t \<Longrightarrow> printed cw (c # p) ap (c # t)"
| printed_conv: "set flags \<subseteq> {45, 48} \<Longrightarrow> set ws \<subseteq> {48..57} \<Longrightarrow> (ws \<noteq> [] \<longrightarrow> hd ws \<noteq> 48) \<Longrightarrow>
    digits_value 10 ws < 2 ^ 31 \<Longrightarrow> l \<in> {[], [108]} \<Longrightarrow>
    conv_text cw (45 \<in> set flags) (48 \<in> set flags \<and> 45 \<notin> set flags) (digits_value 10 ws) spec ap t ap' \<Longrightarrow>
    printed cw p ap' ts \<Longrightarrow> printed cw (37 # flags @ ws @ l @ spec # p) ap (t @ ts)"

subsection \<open>Numerals are what \<open>render_uint\<close> writes\<close>

lemma digit_list_nth: "d < 16 \<Longrightarrow> digit_list upper ! d = digit_char upper d"
proof -
  assume "d < 16"
  then have "d \<in> set [0..<16]" by simp
  then have "\<forall>d\<in>set [0..<16]. digit_list True ! d = digit_char True d \<and> digit_list False ! d = digit_char False d"
    by (simp add: digit_list_def digit_char_def cstr_def upt_rec)
  with \<open>d \<in> set [0..<16]\<close> show ?thesis by (cases upper) simp_all
qed

lemma digit_list_char:
  assumes "c \<in> set (take base (digit_list upper))"
  obtains d where "d < base" "d < 16" "c = digit_char upper d" "char_digit c = d"
proof -
  have "length (digit_list upper) = 16" by (simp add: digit_list_def cstr_def)
  then obtain d where "d < base" "d < 16" "c = digit_list upper ! d" using assms by (auto simp: in_set_conv_nth)
  then show ?thesis using that digit_list_nth char_digit_char by metis
qed

lemma digits_value_pos:
  assumes "0 < base" "set ds \<subseteq> set (take base (digit_list upper))" "ds \<noteq> []" "hd ds \<noteq> 48"
  shows "digits_value base ds \<noteq> 0"
  using assms(2-)
proof (induction ds rule: rev_induct)
  case (snoc c xs)
  show ?case
  proof (cases xs)
    case Nil
    obtain d where "c = digit_char upper d" "char_digit c = d" using snoc.prems Nil digit_list_char [of c base upper] by auto
    moreover have "digit_char upper 0 = 48" by (simp add: digit_char_def)
    ultimately have "d \<noteq> 0" using snoc.prems(3) Nil by (metis append_Nil list.sel(1))
    then show ?thesis using Nil \<open>char_digit c = d\<close> by (simp add: digits_value_def)
  next
    case (Cons a as)
    then have "digits_value base xs \<noteq> 0" using snoc by simp
    then show ?thesis using assms(1) by (simp add: digits_value_snoc)
  qed
qed simp

lemma render_rev_digits:
  assumes "2 \<le> base" "set ds \<subseteq> set (take base (digit_list upper))" "ds \<noteq> [] \<longrightarrow> hd ds \<noteq> 48"
  shows "rev (render_rev (digits_value base ds) base upper) = ds"
  using assms(2-)
proof (induction ds rule: rev_induct)
  case Nil
  then show ?case by (simp add: digits_value_def render_rev.simps)
next
  case (snoc c xs)
  obtain d where d: "d < base" "c = digit_char upper d" "char_digit c = d" using snoc.prems(1) digit_list_char [of c base upper] by auto
  have ne: "digits_value base (xs @ [c]) \<noteq> 0" using digits_value_pos [of base "xs @ [c]" upper] snoc.prems assms(1) by auto
  have "rev (render_rev (digits_value base xs) base upper) = xs" using snoc by (cases xs) auto
  then show ?case using ne d assms(1) by (subst render_rev.simps) (simp add: digits_value_snoc)
qed

lemma numeral_render:
  assumes "numeral_text base upper (unat v) ds" "2 \<le> base"
  shows "render_uint v base upper = ds"
proof (cases "hd ds = 48")
  case True
  then have "ds = [48]" using assms by (auto simp: numeral_text_def)
  moreover from this have "unat v = 0" using assms by (auto simp: numeral_text_def digits_value_def char_digit_def)
  ultimately show ?thesis by (simp add: render_uint_def unat_eq_zero)
next
  case False
  then have "unat v \<noteq> 0" "rev (render_rev (unat v) base upper) = ds"
    using assms digits_value_pos [of base ds upper] render_rev_digits [of base ds upper] by (auto simp: numeral_text_def)
  then show ?thesis by (auto simp: render_uint_def)
qed

subsection \<open>Fields and conversions of the kernel formatter\<close>

lemma pad_space_eq: "w < 2 ^ 31 \<Longrightarrow> pad_space (of_nat w) n = w - n"
  by (auto simp: pad_space_def sint_of_nat_small)

lemma digit_not_sign: "numeral_text base upper v ds \<Longrightarrow> hd ds \<noteq> 45"
proof
  assume n: "numeral_text base upper v ds" and h: "hd ds = 45"
  then have "45 \<in> set (digit_list upper)" by (metis numeral_text_def hd_in_set in_set_takeD subset_iff)
  then show False by (cases upper) (auto simp: digit_list_def cstr_def)
qed

lemma pad_num_field:
  assumes "w < 2 ^ 31" "hd body \<noteq> 45" "body \<noteq> []" "sign \<in> {[], [45]}"
  shows "pad_num left (zero \<and> \<not> left) (of_nat w) (sign @ body) = field left (zero \<and> \<not> left) w sign body"
  using assms by (auto simp: pad_num_def field_def pad_space_eq Let_def)

lemma strlen_take: "0 \<notin> set t \<Longrightarrow> take (strlen t) t = t"
  by (simp add: strlen_nz)

lemma pad_str_field:
  "w < 2 ^ 31 \<Longrightarrow> 0 \<notin> set t \<Longrightarrow> pad_str left (of_nat w) (Some t) = field left False w [] t"
  "w < 2 ^ 31 \<Longrightarrow> pad_str left (of_nat w) None = field left False w [] (cstr ''(null)'')"
  by (auto simp: pad_str_def field_def pad_space_eq Let_def strlen_take)

lemma signed_text_numeral:
  assumes "numeral_text 10 False (nat \<bar>sint v\<bar>) ds"
  shows "signed_text v = (if sint v < 0 then [45] else []) @ ds"
proof (cases "sint v < 0")
  case True
  have "uint (- v) = uint (word_of_int (- sint v) :: u32)" by simp
  also have "\<dots> = - sint v" unfolding uint_word_of_int_eq
    using sint_greater_eq [of v] True by (intro take_bit_int_eq_self) auto
  finally have "uint (- v) = - sint v" .
  then have "unat (- v) = nat \<bar>sint v\<bar>" using True by (metis abs_of_neg nat_uint_eq)
  then show ?thesis using True numeral_render [of 10 False "- v" ds] assms by (simp add: signed_text_def)
next
  case False
  have "uint v = uint (word_of_int (sint v) :: u32)" by simp
  also have "\<dots> = sint v" unfolding uint_word_of_int_eq
    using sint_less [of v] False by (intro take_bit_int_eq_self) auto
  finally have "uint v = sint v" .
  then have "unat v = nat \<bar>sint v\<bar>" using False by (metis abs_of_nonneg nat_uint_eq not_less)
  then show ?thesis using False numeral_render [of 10 False v ds] assms by (simp add: signed_text_def)
qed

lemma conv_text_spec: "conv_text cw l z w spec ap t ap' \<Longrightarrow> spec \<in> {100, 117, 120, 88, 111, 112, 115, 99, 37}"
  by (induction rule: conv_text.induct) auto

lemma fmt_conv_text:
  assumes "conv_text False left (zero \<and> \<not> left) w spec ap t ap'" "w < 2 ^ 31"
  shows "fmt_conv left (zero \<and> \<not> left) (of_nat w) spec ap = (t, ap')"
  using assms(1)
proof cases
  case (conv_d v ds)
  then show ?thesis
    using signed_text_numeral [OF conv_d(4)] pad_num_field [OF assms(2) digit_not_sign, of 10 False _ ds "if sint v < 0 then [45] else []" left zero]
    by (auto simp: fmt_conv_def va_int_def numeral_text_def)
next
  case (conv_c v)
  then show ?thesis by (auto simp: fmt_conv_def va_int_def field_def)
qed (use assms(2) numeral_render pad_num_field [OF assms(2) digit_not_sign, where sign = "[]"] pad_num_field [OF assms(2), of "[48, 120] @ _" "[]"] in
      \<open>auto simp: fmt_conv_def va_int_def va_str_def pad_str_field numeral_text_def\<close>)

subsection \<open>Parsing\<close>

lemma fmt_flags_run:
  "set flags \<subseteq> {45, 48} \<Longrightarrow> fmt_flags (flags @ p) l z = fmt_flags p (l \<or> 45 \<in> set flags) (z \<or> 48 \<in> set flags)"
  by (induction flags arbitrary: l z) auto

lemma fmt_width_run:
  "set ws \<subseteq> {48..57} \<Longrightarrow> fmt_width (ws @ p) (of_nat v) = fmt_width p (of_nat (foldl (\<lambda>v c. v * 10 + char_digit c) v ws))"
proof (induction ws arbitrary: v)
  case (Cons c ws)
  then have c: "48 \<le> c" "c \<le> 57" by auto
  then have "char_digit c = unat (c - 48)" by (simp add: char_digit_def word_le_nat_alt)
  then have "of_nat v * 10 + ucast (c - 48) = (of_nat (v * 10 + char_digit c) :: u32)" by simp
  then show ?case using Cons.IH [of "v * 10 + char_digit c"] Cons.prems c by simp
qed simp

lemma fmt_parse_run:
  assumes "set flags \<subseteq> {45, 48}" "set ws \<subseteq> {48..57}" "ws \<noteq> [] \<longrightarrow> hd ws \<noteq> 48" "l \<in> {[], [108]}"
    "spec \<in> {100, 117, 120, 88, 111, 112, 115, 99, 37}"
  shows "fmt_parse (flags @ ws @ l @ spec # p) =
    (45 \<in> set flags, 48 \<in> set flags \<and> 45 \<notin> set flags, of_nat (digits_value 10 ws), spec # p)"
proof -
  have h: "hd (ws @ l @ spec # p) \<notin> {45, 48}" using assms(2-5) by (cases ws) auto
  then have "fmt_flags (ws @ l @ spec # p) x y = (x, y, ws @ l @ spec # p)" for x y
    by (cases "ws @ l @ spec # p") auto
  moreover have "fmt_width (l @ spec # p) n = (n, l @ spec # p)" for n using assms(4,5) by auto
  ultimately show ?thesis using fmt_flags_run [OF assms(1)] fmt_width_run [OF assms(2), of _ 0] assms(4,5)
    by (auto simp: fmt_parse_def digits_value_def)
qed

lemma printed_fmt_text: "printed False fmt ap t \<Longrightarrow> fmt_text fmt ap = t"
proof (induction rule: printed.induct)
  case (printed_conv flags ws l spec ap t ap' p ts)
  have sp: "spec \<in> {100, 117, 120, 88, 111, 112, 115, 99, 37}" using conv_text_spec [OF printed_conv.hyps(6)] .
  then have "spec \<noteq> 0" by auto
  then show ?case using fmt_parse_run [OF printed_conv.hyps(1,2,3,5) sp, of p]
      fmt_conv_text [of "45 \<in> set flags" "48 \<in> set flags", OF printed_conv.hyps(6,4)] printed_conv.IH by simp
qed auto

text \<open>C18: \<open>kvsnprintf\<close> into a buffer of \<open>sz > 0\<close> bytes, for every format of the documented grammar with
  arguments of the right kinds, widths that fit into an \<open>int\<close> and a text shorter than \<open>2 ^ 31\<close> bytes: it
  never stores outside of the buffer, leaves in it the text the format stands for (numbers as the
  numerals of their value, fields padded to their width), cut to \<open>sz - 1\<close> bytes and followed by a
  NUL, keeps the rest of the buffer, and returns the length of the whole, uncut text.\<close>

theorem kvsnprintf_correct:
  assumes "length b = unat sz" "0 < sz" "printed False fmt ap t" "length t < 2 ^ 31"
  shows "kvsnprintf (Some b) sz fmt ap =
    (int (length t), \<lparr>fo_buf = Some (blit b 0 (take (unat sz - 1) t @ [0])), fo_pos = of_nat (length t), fo_oob = False\<rparr>)"
  using kvsnprintf_text [OF assms(1,2), of fmt ap] printed_fmt_text [OF assms(3)] assms(4) by simp

text \<open>\<open>%-4d!\<close> with \<open>-7\<close> into five bytes.\<close>

theorem kvsnprintf_correct_witness:
  "kvsnprintf (Some [9, 9, 9, 9, 9]) 5 [37, 45, 52, 100, 33] [AInt (- 7)] =
   (5, \<lparr>fo_buf = Some [45, 55, 32, 32, 0], fo_pos = 5, fo_oob = False\<rparr>)"
proof -
  have n: "numeral_text 10 False (nat \<bar>sint (- 7 :: u32)\<bar>) [55]"
    by (simp add: numeral_text_def digit_list_def cstr_def digits_value_def char_digit_def)
  have "conv_text False True False 4 100 [AInt (- 7)] (field True False 4 (if sint (- 7 :: u32) < 0 then [45] else []) [55]) []"
    by (rule conv_d [OF n])
  then have c: "conv_text False (45 \<in> set [45 :: u8]) (48 \<in> set [45 :: u8] \<and> 45 \<notin> set [45 :: u8]) (digits_value 10 [52]) 100 [AInt (- 7)] [45, 55, 32, 32] []"
    by (simp add: field_def digits_value_def char_digit_def) (simp add: numeral_eq_Suc)
  have "printed False (37 # [45] @ [52] @ [] @ 100 # [33]) [AInt (- 7)] ([45, 55, 32, 32] @ [33])"
    by (rule printed_conv [OF _ _ _ _ _ c printed_char [OF _ printed_end]]) (simp_all add: digits_value_def char_digit_def)
  then have "printed False [37, 45, 52, 100, 33] [AInt (- 7)] [45, 55, 32, 32, 33]" by simp
  from kvsnprintf_correct [OF _ _ this, of "[9, 9, 9, 9, 9]" 5] show ?thesis by (simp add: blit_def)
qed

end
