(* ===== verification/Uprintf.thy ===== *)
theory Uprintf
  imports Ulibc Format_Spec
begin

section \<open>The user C library: formatted output (\<open>userspace/vinixlibc/src/printf.c\<close>)\<close>

text \<open>
  The formatter is written once over an output function and used with two of them: one stores into a
  buffer, the other collects bytes in a staging array of 128 bytes and hands it to the kernel when it is
  full.  The state of the first is the record \<open>fmt_out\<close> of the kernel formatter; a store through
  \<open>NULL\<close> or beyond the memory of the caller sets \<open>fo_oob\<close>.  The state of the second holds the descriptor,
  the staged bytes and the system calls made so far, each with its bytes.  Counts are \<open>size_t\<close> and the
  width is an \<open>int\<close>, both of 32 bits that wrap around as the instructions of the target do.
\<close>

subsection \<open>The code\<close>

definition emit_buf :: "u32 \<Rightarrow> u8 \<Rightarrow> fmt_out \<Rightarrow> fmt_out" where
  "emit_buf cap ch c =
     (let c' = (if cap = 0 \<or> fo_pos c + 1 < cap
        then (case fo_buf c of
                Some buf \<Rightarrow> c\<lparr>fo_buf := Some (buf[unat (fo_pos c) := ch]), fo_oob := fo_oob c \<or> length buf \<le> unat (fo_pos c)\<rparr>
              | None \<Rightarrow> c\<lparr>fo_oob := True\<rparr>)
        else c)
      in c'\<lparr>fo_pos := fo_pos c + 1\<rparr>)"

definition STAGING :: nat where [vx_consts]: "STAGING = 128"

datatype out_call = Sys_write "u8 list" | Sys_write_file int "u8 list"

record fd_ctx =
  fc_count :: u32
  fc_fd :: int
  fc_staging :: "u8 list"
  fc_calls :: "out_call list"

definition fd_flush :: "fd_ctx \<Rightarrow> fd_ctx" where
  "fd_flush c =
     (if fc_staging c = [] then c
      else c\<lparr>fc_calls := fc_calls c @
               [if fc_fd c = 1 \<or> fc_fd c = 2 then Sys_write (fc_staging c) else Sys_write_file (fc_fd c) (fc_staging c)],
             fc_staging := []\<rparr>)"

definition emit_fd :: "u8 \<Rightarrow> fd_ctx \<Rightarrow> fd_ctx" where
  "emit_fd ch c =
     (let c' = c\<lparr>fc_staging := fc_staging c @ [ch], fc_count := fc_count c + 1\<rparr> in
      if length (fc_staging c') \<ge> STAGING then fd_flush c' else c')"

definition udigit_to_char :: "bool \<Rightarrow> nat \<Rightarrow> u8" where
  "udigit_to_char upper d = (if d < 10 then 48 + of_nat d else (if upper then 65 else 97) + of_nat (d - 10))"

fun urender_rev :: "nat \<Rightarrow> nat \<Rightarrow> bool \<Rightarrow> u8 list" where
  "urender_rev v base upper = (if v = 0 \<or> base < 2 then [] else udigit_to_char upper (v mod base) # urender_rev (v div base) base upper)"

declare urender_rev.simps [simp del]

definition urender_uint :: "u32 \<Rightarrow> nat \<Rightarrow> bool \<Rightarrow> u8 list" where
  "urender_uint v base upper = (if v = 0 then [48] else rev (urender_rev (unat v) base upper))"

definition upad :: "nat \<Rightarrow> u8 \<Rightarrow> u8 list" where
  "upad n c = replicate n c"

definition uspace :: "u32 \<Rightarrow> nat \<Rightarrow> nat" where
  "uspace width len = (if sint width > int len then nat (sint width - int len) else 0)"

definition unum :: "bool \<Rightarrow> bool \<Rightarrow> u32 \<Rightarrow> u8 list \<Rightarrow> u8 list" where
  "unum left zero width tmp =
     (let space = uspace width (length tmp) in
      if \<not> left
      then if zero
        then (if tmp \<noteq> [] \<and> hd tmp = 45 then [45] @ upad space 48 @ tl tmp else upad space 48 @ tmp)
        else upad space 32 @ tmp
      else tmp @ upad space 32)"

definition utext :: "bool \<Rightarrow> u32 \<Rightarrow> u8 list \<Rightarrow> u8 list" where
  "utext left width s =
     (let space = uspace width (length s) in (if left then [] else upad space 32) @ s @ (if left then upad space 32 else []))"

definition ufmt_conv :: "bool \<Rightarrow> bool \<Rightarrow> u32 \<Rightarrow> u8 \<Rightarrow> fmt_arg list \<Rightarrow> u8 list \<times> fmt_arg list" where
  "ufmt_conv left zero width spec ap =
     (let num = (\<lambda>f. case va_int ap of (v, r) \<Rightarrow> (unum left zero width (f v), r)) in
      if spec = 100 then num (\<lambda>v. if sint v < 0 then 45 # urender_uint (- v) 10 False else urender_uint v 10 False)
      else if spec = 117 then num (\<lambda>v. urender_uint v 10 False)
      else if spec = 120 then num (\<lambda>v. urender_uint v 16 False)
      else if spec = 88 then num (\<lambda>v. urender_uint v 16 True)
      else if spec = 111 then num (\<lambda>v. urender_uint v 8 False)
      else if spec = 112 then num (\<lambda>v. [48, 120] @ urender_uint v 16 False)
      else if spec = 115 then (case va_str ap of (s, r) \<Rightarrow>
        (utext left width (case s of None \<Rightarrow> cstr ''(null)'' | Some t \<Rightarrow> take (ustrlen t) t), r))
      else if spec = 99 then (case va_int ap of (v, r) \<Rightarrow> (utext left width [ucast v], r))
      else if spec = 37 then ([37], ap)
      else ([37, spec], ap))"

text \<open>Flags, width and the length modifier.\<close>

fun ufmt_flags :: "u8 list \<Rightarrow> bool \<Rightarrow> bool \<Rightarrow> bool \<times> bool \<times> u8 list" where
  "ufmt_flags [] left zero = (left, zero, [])"
| "ufmt_flags (c # p) left zero =
     (if c = 45 \<or> c = 48 then ufmt_flags p (left \<or> c = 45) (zero \<or> c = 48) else (left, zero, c # p))"

fun ufmt_width :: "u8 list \<Rightarrow> u32 \<Rightarrow> u32 \<times> u8 list" where
  "ufmt_width [] w = (w, [])"
| "ufmt_width (c # p) w = (if c \<ge> 48 \<and> c \<le> 57 then ufmt_width p (w * 10 + ucast (c - 48)) else (w, c # p))"

definition ufmt_parse :: "u8 list \<Rightarrow> bool \<times> bool \<times> u32 \<times> u8 list" where
  "ufmt_parse p =
     (case ufmt_flags p False False of (left, zero, p1) \<Rightarrow>
      case ufmt_width p1 0 of (width, p2) \<Rightarrow>
        (left, (if left then False else zero), width, (if p2 \<noteq> [] \<and> hd p2 = 108 then tl p2 else p2)))"

lemma ufmt_flags_length: "ufmt_flags p l z = (l', z', q) \<Longrightarrow> length q \<le> length p"
  by (induction p l z rule: ufmt_flags.induct) (fastforce split: if_splits)+

lemma ufmt_width_length: "ufmt_width p w = (w', q) \<Longrightarrow> length q \<le> length p"
  by (induction p w rule: ufmt_width.induct) (fastforce split: if_splits)+

lemma ufmt_parse_length: "ufmt_parse p = (l, z, w, q) \<Longrightarrow> length q \<le> length p"
  by (auto simp: ufmt_parse_def split: prod.splits if_splits dest!: ufmt_flags_length ufmt_width_length)

function fmt_walk :: "(u8 \<Rightarrow> 'c \<Rightarrow> 'c) \<Rightarrow> u8 list \<Rightarrow> fmt_arg list \<Rightarrow> 'c \<Rightarrow> 'c" where
  "fmt_walk emit [] ap c = c"
| "fmt_walk emit (ch # p) ap c =
     (if ch = 0 then c
      else if ch \<noteq> 37 then fmt_walk emit p ap (emit ch c)
      else case ufmt_parse p of (left, zero, width, q) \<Rightarrow>
        (case ufmt_conv left zero width (chr0 q) ap of (cs, r) \<Rightarrow>
           fmt_walk emit (if chr0 q = 0 then [] else tl q) r (fold emit cs c)))"
  by pat_completeness auto
termination
  by (relation "measure (\<lambda>(emit, p, ap, c). length p)")
    (auto dest!: sym [of _ "ufmt_parse _"] ufmt_parse_length)

definition vsnprintf :: "u8 list option \<Rightarrow> u32 \<Rightarrow> u8 list \<Rightarrow> fmt_arg list \<Rightarrow> int \<times> fmt_out" where
  "vsnprintf buf sz fmt ap =
     (let c = fmt_walk (emit_buf sz) fmt ap \<lparr>fo_buf = buf, fo_pos = 0, fo_oob = False\<rparr>; n = fo_pos c in
      (sint n, case fo_buf c of
            None \<Rightarrow> c
          | Some b \<Rightarrow> if sz > 0 then let e = (if n < sz then n else sz - 1) in
                c\<lparr>fo_buf := Some (b[unat e := 0]), fo_oob := fo_oob c \<or> length b \<le> unat e\<rparr> else c))"

definition vsprintf :: "u8 list option \<Rightarrow> u8 list \<Rightarrow> fmt_arg list \<Rightarrow> int \<times> fmt_out" where
  "vsprintf buf fmt ap =
     (let c = fmt_walk (emit_buf 0) fmt ap \<lparr>fo_buf = buf, fo_pos = 0, fo_oob = False\<rparr>; n = fo_pos c in
      (sint n, case fo_buf c of
            None \<Rightarrow> c
          | Some b \<Rightarrow> c\<lparr>fo_buf := Some (b[unat n := 0]), fo_oob := fo_oob c \<or> length b \<le> unat n\<rparr>))"

definition snprintf :: "u8 list option \<Rightarrow> u32 \<Rightarrow> u8 list \<Rightarrow> fmt_arg list \<Rightarrow> int \<times> fmt_out" where
  "snprintf = vsnprintf"

definition sprintf :: "u8 list option \<Rightarrow> u8 list \<Rightarrow> fmt_arg list \<Rightarrow> int \<times> fmt_out" where
  "sprintf = vsprintf"

text \<open>Output to a descriptor: the number of bytes, and the system calls.\<close>

definition vdprintf_fd :: "int \<Rightarrow> u8 list \<Rightarrow> fmt_arg list \<Rightarrow> int \<times> out_call list" where
  "vdprintf_fd fd fmt ap =
     (let c = fd_flush (fmt_walk emit_fd fmt ap \<lparr>fc_count = 0, fc_fd = fd, fc_staging = [], fc_calls = []\<rparr>)
      in (sint (fc_count c), fc_calls c))"

definition vprintf :: "u8 list \<Rightarrow> fmt_arg list \<Rightarrow> int \<times> out_call list" where
  "vprintf fmt ap =
     (let c = fd_flush (fmt_walk emit_fd fmt ap \<lparr>fc_count = 0, fc_fd = 1, fc_staging = [], fc_calls = []\<rparr>)
      in (sint (fc_count c), fc_calls c))"

definition uprintf :: "u8 list \<Rightarrow> fmt_arg list \<Rightarrow> int \<times> out_call list" where
  "uprintf = vprintf"

subsection \<open>The text of a format\<close>

function ufmt_text :: "u8 list \<Rightarrow> fmt_arg list \<Rightarrow> u8 list" where
  "ufmt_text [] ap = []"
| "ufmt_text (c # p) ap =
     (if c = 0 then []
      else if c \<noteq> 37 then c # ufmt_text p ap
      else case ufmt_parse p of (left, zero, width, q) \<Rightarrow>
        (case ufmt_conv left zero width (chr0 q) ap of (cs, r) \<Rightarrow>
           cs @ ufmt_text (if chr0 q = 0 then [] else tl q) r))"
  by pat_completeness auto
termination
  by (relation "measure (\<lambda>(p, ap). length p)") (auto dest!: sym [of _ "ufmt_parse _"] ufmt_parse_length)

lemma fmt_walk_text: "fmt_walk emit p ap c = fold emit (ufmt_text p ap) c"
proof (induction p ap arbitrary: c rule: ufmt_text.induct)
  case (1 ap)
  then show ?case by simp
next
  case (2 ch p ap)
  then show ?case by (auto split: prod.splits)
qed

subsection \<open>Both sinks\<close>

lemma emit_buf_put: "fo_buf c = Some b \<Longrightarrow> emit_buf cap ch c = put cap ch c"
  by (simp add: emit_buf_def put_def)

lemma put_buf_Some: "fo_buf c = Some b \<Longrightarrow> \<exists>b'. fo_buf (put cap ch c) = Some b'"
  by (auto simp: put_def Let_def)

lemma emit_buf_puts: "fo_buf c = Some b \<Longrightarrow> fold (emit_buf cap) cs c = puts cap cs c"
proof (induction cs arbitrary: c b)
  case (Cons ch cs)
  then show ?case using put_buf_Some [OF Cons.prems, of cap ch] emit_buf_put [OF Cons.prems, of cap ch] by auto
qed simp

text \<open>What the staging array and the calls hold together; a call carries at most 128 bytes.\<close>

definition call_of :: "int \<Rightarrow> u8 list \<Rightarrow> out_call" where
  "call_of fd = (if fd = 1 \<or> fd = 2 then Sys_write else Sys_write_file fd)"

definition fd_ok :: "int \<Rightarrow> u8 list \<Rightarrow> fd_ctx \<Rightarrow> bool" where
  "fd_ok fd t c \<longleftrightarrow> fc_fd c = fd \<and> fc_count c = of_nat (length t) \<and> length (fc_staging c) < STAGING \<and>
     (\<exists>bs. fc_calls c = map (call_of fd) bs \<and> concat bs @ fc_staging c = t \<and>
       (\<forall>b \<in> set bs. 0 < length b \<and> length b \<le> STAGING))"

lemma fd_ok_flush:
  assumes "fd_ok fd t c"
  shows "fd_ok fd t (fd_flush c) \<and> fc_staging (fd_flush c) = []"
proof (cases "fc_staging c = []")
  case False
  obtain bs where "fc_calls c = map (call_of fd) bs" "concat bs @ fc_staging c = t" "\<forall>b \<in> set bs. 0 < length b \<and> length b \<le> STAGING"
    using assms by (auto simp: fd_ok_def)
  then show ?thesis using assms False
    by (auto simp: fd_ok_def fd_flush_def call_of_def STAGING_def intro!: exI [of _ "bs @ [fc_staging c]"])
qed (use assms in \<open>simp add: fd_flush_def\<close>)

lemma fd_ok_emit:
  assumes "fd_ok fd t c"
  shows "fd_ok fd (t @ [ch]) (emit_fd ch c)"
proof -
  obtain bs where bs: "fc_calls c = map (call_of fd) bs" "concat bs @ fc_staging c = t" "\<forall>b \<in> set bs. 0 < length b \<and> length b \<le> STAGING"
    using assms by (auto simp: fd_ok_def)
  show ?thesis
  proof (cases "Suc (length (fc_staging c)) < STAGING")
    case True
    then show ?thesis using assms bs by (auto simp: fd_ok_def emit_fd_def intro!: exI [of _ bs])
  next
    case False
    then show ?thesis using assms bs
      by (auto simp: fd_ok_def emit_fd_def fd_flush_def call_of_def STAGING_def intro!: exI [of _ "bs @ [fc_staging c @ [ch]]"])
  qed
qed

lemma fd_ok_fold: "fd_ok fd t c \<Longrightarrow> fd_ok fd (t @ cs) (fold emit_fd cs c)"
proof (induction cs arbitrary: t c)
  case (Cons ch cs)
  then show ?case using Cons.IH [OF fd_ok_emit [OF Cons.prems, of ch]] by simp
qed simp

lemma vdprintf_text:
  assumes "ufmt_text fmt ap = t" "length t < 2 ^ 31"
  shows "\<exists>bs. vdprintf_fd fd fmt ap = (int (length t), map (call_of fd) bs) \<and> concat bs = t \<and>
    (\<forall>b \<in> set bs. 0 < length b \<and> length b \<le> 128)"
proof -
  let ?c = "fd_flush (fold emit_fd t \<lparr>fc_count = 0, fc_fd = fd, fc_staging = [], fc_calls = []\<rparr>)"
  have "fd_ok fd [] \<lparr>fc_count = 0, fc_fd = fd, fc_staging = [], fc_calls = []\<rparr>" by (simp add: fd_ok_def STAGING_def)
  then have "fd_ok fd t ?c \<and> fc_staging ?c = []" using fd_ok_fold [of fd "[]"] fd_ok_flush by fastforce
  then show ?thesis using sint_of_nat_small [OF assms(2)]
    by (auto simp: vdprintf_fd_def fmt_walk_text assms(1) Let_def fd_ok_def STAGING_def)
qed

lemma vsnprintf_text:
  assumes "length b = unat sz" "0 < sz" "ufmt_text fmt ap = t" "length t < 2 ^ 31"
  shows "vsnprintf (Some b) sz fmt ap =
      (int (length t), \<lparr>fo_buf = Some (blit b 0 (take (unat sz - 1) t @ [0])), fo_pos = of_nat (length t), fo_oob = False\<rparr>)"
proof -
  let ?t = "take (unat sz - 1) t"
  have sz: "sz \<noteq> 0" "0 < unat sz" using assms(2) by (auto simp: unat_gt_0)
  then have c1: "unat (sz - 1) = unat sz - 1" by (metis unat_minus_one)
  have u: "unat (of_nat (length t) :: u32) = length t" using assms(4) by (simp add: unsigned_of_nat take_bit_nat_eq_self)
  have len: "length ?t < unat sz" using sz by simp
  have "fold (emit_buf sz) t \<lparr>fo_buf = Some b, fo_pos = 0, fo_oob = False\<rparr> =
      \<lparr>fo_buf = Some (blit b 0 ?t), fo_pos = of_nat (length t), fo_oob = False\<rparr>"
    using puts_buffer [OF assms(1,2), of 0 t] assms(4) by (simp add: emit_buf_puts)
  moreover have "(blit b 0 ?t)[length ?t := 0] = blit b 0 (?t @ [0])"
    using len assms by (intro nth_equalityI) (auto simp: nth_blit nth_list_update nth_append)
  moreover have "unat (if of_nat (length t) < sz then of_nat (length t) else sz - 1) = length ?t"
    using u c1 by (auto simp: word_less_nat_alt)
  moreover have "\<not> unat sz \<le> unat sz - Suc 0" using sz by simp
  ultimately show ?thesis using len assms sz sint_of_nat_small [OF assms(4)]
    by (cases "of_nat (length t) < sz") (simp_all add: vsnprintf_def fmt_walk_text Let_def)
qed

subsection \<open>The user formatter against the reference\<close>

lemma urender_rev_eq: "urender_rev v base upper = render_rev v base upper"
  by (induction v base upper rule: render_rev.induct)
    (simp add: urender_rev.simps render_rev.simps udigit_to_char_def digit_char_def)

lemma urender_uint_eq: "urender_uint v base upper = render_uint v base upper"
  by (simp add: urender_uint_def render_uint_def urender_rev_eq)

lemma unum_eq: "unum left zero width tmp = pad_num left zero width tmp"
  by (simp add: unum_def pad_num_def uspace_def pad_space_def upad_def)

lemma utext_field: "w < 2 ^ 31 \<Longrightarrow> utext left (of_nat w) t = field left False w [] t"
  by (auto simp: utext_def field_def uspace_def sint_of_nat_small upad_def Let_def)

lemma ufmt_parse_eq: "ufmt_parse p = fmt_parse p"
proof -
  have f: "ufmt_flags p l z = fmt_flags p l z" for p l z by (induction p l z rule: fmt_flags.induct) auto
  have w: "ufmt_width p v = fmt_width p v" for p v by (induction p v rule: fmt_width.induct) auto
  show ?thesis unfolding ufmt_parse_def fmt_parse_def f w by (auto split: prod.splits)
qed

lemma conv_text_cw: "conv_text True l z w spec ap t ap' \<Longrightarrow> spec \<noteq> 99 \<Longrightarrow> conv_text False l z w spec ap t ap'"
  by (induction rule: conv_text.induct) (blast intro: conv_text.intros | simp)+

lemma ustrlen_eq: "ustrlen s = strlen s"
  by (induction s) auto

lemma utext_str: "utext left width (case s of None \<Rightarrow> cstr ''(null)'' | Some t \<Rightarrow> take (ustrlen t) t) = pad_str left width s"
  by (cases s) (simp_all add: utext_def pad_str_def uspace_def pad_space_def upad_def ustrlen_eq Let_def)

lemma ufmt_conv_eq: "spec \<noteq> 99 \<Longrightarrow> ufmt_conv left zero width spec ap = fmt_conv left zero width spec ap"
  unfolding ufmt_conv_def fmt_conv_def Let_def utext_str unum_eq urender_uint_eq signed_text_def
  by (simp split: prod.splits)

lemma ufmt_conv_text:
  assumes "conv_text True left (zero \<and> \<not> left) w spec ap t ap'" "w < 2 ^ 31"
  shows "ufmt_conv left (zero \<and> \<not> left) (of_nat w) spec ap = (t, ap')"
proof (cases "spec = 99")
  case True
  then show ?thesis using assms by (auto elim!: conv_text.cases simp: ufmt_conv_def va_int_def utext_field Let_def)
next
  case False
  then show ?thesis using fmt_conv_text [OF conv_text_cw [OF assms(1)] assms(2)] ufmt_conv_eq by simp
qed

lemma printed_ufmt_text: "printed True fmt ap t \<Longrightarrow> ufmt_text fmt ap = t"
proof (induction rule: printed.induct)
  case (printed_conv flags ws l spec ap t ap' p ts)
  have sp: "spec \<in> {100, 117, 120, 88, 111, 112, 115, 99, 37}" using conv_text_spec [OF printed_conv.hyps(6)] .
  then have "spec \<noteq> 0" by auto
  then show ?case using fmt_parse_run [OF printed_conv.hyps(1,2,3,5) sp, of p]
      ufmt_conv_text [of "45 \<in> set flags" "48 \<in> set flags", OF printed_conv.hyps(6,4)] printed_conv.IH by (simp add: ufmt_parse_eq)
qed auto

text \<open>C28: the two ways out of the user formatter, for every format of the documented grammar with arguments of
  the right kinds, widths that fit into an \<open>int\<close> and a text shorter than \<open>2 ^ 31\<close> bytes.  \<open>vsnprintf\<close> into
  a buffer of \<open>sz > 0\<close> bytes stores the text the format stands for cut to \<open>sz - 1\<close> bytes with a
  terminator, nothing outside the buffer, and returns the length of the whole text; output to a
  descriptor hands the kernel exactly that text, in calls of 1 to 128 bytes, by \<open>sys_write\<close> for the
  descriptors 1 and 2 and by \<open>sys_write_file\<close> for the others, and returns its length.  (With \<open>sz = 0\<close>
  there is no limit: \<open>vsnprintf_null_stores\<close> below.)\<close>

theorem uprintf_sinks:
  assumes "printed True fmt ap t" "length t < 2 ^ 31" "length b = unat sz" "0 < sz"
  shows "vsnprintf (Some b) sz fmt ap =
      (int (length t), \<lparr>fo_buf = Some (blit b 0 (take (unat sz - 1) t @ [0])), fo_pos = of_nat (length t), fo_oob = False\<rparr>) \<and>
    (\<exists>bs. vdprintf_fd fd fmt ap = (int (length t), map (if fd = 1 \<or> fd = 2 then Sys_write else Sys_write_file fd) bs) \<and>
      concat bs = t \<and> (\<forall>b \<in> set bs. 0 < length b \<and> length b \<le> 128)) \<and>
    vprintf fmt ap = vdprintf_fd 1 fmt ap"
  using vsnprintf_text [OF assms(3,4) printed_ufmt_text [OF assms(1)] assms(2)]
    vdprintf_text [OF printed_ufmt_text [OF assms(1)] assms(2), of fd]
  by (simp add: call_of_def vprintf_def vdprintf_fd_def)

text \<open>\<open>%4c!\<close> into five bytes, and to the standard output.\<close>

theorem uprintf_sinks_witness:
  "vsnprintf (Some [9, 9, 9, 9, 9]) 5 [37, 52, 99, 33] [AInt 65] =
     (5, \<lparr>fo_buf = Some [32, 32, 32, 65, 0], fo_pos = 5, fo_oob = False\<rparr>) \<and>
   fst (vprintf [37, 52, 99, 33] [AInt 65]) = 5"
proof -
  have w: "digits_value 10 [52] = 4" by (simp add: digits_value_def char_digit_def)
  have "conv_text True False False 4 99 [AInt 65] (field False False 4 [] [65]) []"
    using conv_c [of True False False 4 65 "[]"] by simp
  then have c: "conv_text True (45 \<in> set ([] :: u8 list)) (48 \<in> set ([] :: u8 list) \<and> 45 \<notin> set ([] :: u8 list)) (digits_value 10 [52]) 99 [AInt 65] [32, 32, 32, 65] []"
    unfolding w by (simp add: field_def numeral_eq_Suc)
  have "printed True (37 # [] @ [52] @ [] @ 99 # [33]) [AInt 65] ([32, 32, 32, 65] @ [33])"
    by (rule printed_conv [OF _ _ _ _ _ c printed_char [OF _ printed_end]]) (simp_all add: w)
  then have p: "printed True [37, 52, 99, 33] [AInt 65] [32, 32, 32, 65, 33]" by simp
  show ?thesis using uprintf_sinks [OF p, of "[9, 9, 9, 9, 9]" 5 1] by (auto simp: blit_def)
qed

text \<open>The measuring call \<open>vsnprintf(NULL, 0, \<dots>)\<close>: a size of 0 means no limit, and the text is stored
  through the null pointer.\<close>

lemma vsnprintf_null_stores: "fo_oob (snd (vsnprintf None 0 [65] []))"
  by (simp add: vsnprintf_def emit_buf_def Let_def)

end
