(* ===== verification/Ucalls.thy ===== *)
theory Ucalls
  imports Svc_Props Uprintf
begin

section \<open>The user side of the system calls (\<open>syscall.c\<close>, \<open>unistd.c\<close>, \<open>signal.c\<close>, \<open>stat.c\<close>)\<close>

text \<open>
  \<open>userspace/lib/syscall.c\<close> loads registers and executes \<open>svc\<close>; \<open>userspace/vinixlibc/src/unistd.c\<close>
  turns the negative results into \<open>-1\<close> with \<open>errno\<close>.

  What user code runs on is the record \<open>machine\<close>: the \<open>svc\<close> instruction, and loads and stores of bytes.
  \<open>None\<close> as the result of \<open>svc\<close> says that control does not come back: the task has exited, or waits for
  ever, or the kernel has stopped.  \<open>vinix\<close> is this machine over the model of the kernel: the call is
  taken by \<open>svc_handler\<close>; a caller that is blocked goes on with its call when it runs again, and what
  the other tasks and the interrupts do until then is the parameter \<open>rest\<close>.

  The state of a process of the C library is the record \<open>uproc\<close>: its registers, \<open>errno\<close>, the machine,
  and the open streams of \<open>file.c\<close>.  The registers a wrapper does not load keep what they hold.
\<close>

subsection \<open>The machine\<close>

record 'w machine =
  svc_insn :: "svc_context \<Rightarrow> 'w \<Rightarrow> (svc_context \<times> 'w) option"
  ld8 :: "u32 \<Rightarrow> 'w \<Rightarrow> u8"
  st8 :: "u32 \<Rightarrow> u8 \<Rightarrow> 'w \<Rightarrow> 'w"

partial_function (option) run_svc ::
  "'u bus \<Rightarrow> ('u, 'w) ops_mem \<Rightarrow> svc_env \<Rightarrow> (('u, 'w, 's) kernel \<Rightarrow> ('u, 'w, 's) kernel option) \<Rightarrow>
   svc_context \<Rightarrow> ('u, 'w, 's) kernel \<Rightarrow> (svc_context \<times> ('u, 'w, 's) kernel) option" where
  "run_svc B Ops E rest ctx k =
     (case svc_handler B Ops E ctx k of
        Some (Inr (Done ctx' k')) \<Rightarrow> Some (ctx', k')
      | Some (Inr (Blocked k')) \<Rightarrow> Option.bind (rest k') (run_svc B Ops E rest ctx)
      | _ \<Rightarrow> None)"

definition vinix :: "'u bus \<Rightarrow> ('u, 'w) ops_mem \<Rightarrow> svc_env \<Rightarrow> (('u, 'w, 's) kernel \<Rightarrow> ('u, 'w, 's) kernel option) \<Rightarrow>
    ('u, 'w, 's) kernel machine" where
  "vinix B Ops E rest = \<lparr>svc_insn = run_svc B Ops E rest,
     ld8 = (\<lambda>va k. user_mem E k va),
     st8 = (\<lambda>va b k. put_user_mem E (ustore va [b] (user_mem E k)) k)\<rparr>"

definition FILE_IN_USE :: u32 where [vx_consts]: "FILE_IN_USE = 0x01"
definition FILE_EOF :: u32 where [vx_consts]: "FILE_EOF = 0x02"
definition FILE_ERR :: u32 where [vx_consts]: "FILE_ERR = 0x04"

record FILE =
  f_fd :: int
  f_flags :: u32
  f_pushback :: int
  f_owns_fd :: int

record 'w uproc =
  uregs :: svc_context
  errno :: int
  uworld :: 'w
  files :: "FILE list"
  std_streams :: "FILE list"

subsection \<open>The wrappers of \<open>syscall.c\<close>\<close>

text \<open>\<open>mov r7, #n; mov r_i, a_i \<dots>; svc #0; mov ret, r0\<close>.\<close>

definition syscall :: "'w machine \<Rightarrow> u32 \<Rightarrow> u32 list \<Rightarrow> 'w uproc \<Rightarrow> (int \<times> 'w uproc) option" where
  "syscall M n args p =
     (let r = fold (\<lambda>(i, v). set_r i v) (enumerate 0 args) (set_r 7 n (uregs p)) in
      case svc_insn M r (uworld p) of
        None \<Rightarrow> None
      | Some (r', w) \<Rightarrow> Some (sint (sv_r r' 0), p\<lparr>uregs := r', uworld := w\<rparr>))"

abbreviation iarg :: "int \<Rightarrow> u32" where "iarg \<equiv> of_int"

definition usys_yield :: "'w machine \<Rightarrow> 'w uproc \<Rightarrow> (int \<times> 'w uproc) option" where
  "usys_yield M = syscall M 2 [0, 0, 0]"

definition usys_write :: "'w machine \<Rightarrow> u32 \<Rightarrow> u32 \<Rightarrow> 'w uproc \<Rightarrow> (int \<times> 'w uproc) option" where
  "usys_write M buf len = syscall M 0 [buf, len, 0]"

text \<open>After the \<open>svc\<close> of \<open>sys_exit\<close> the code spins for ever.\<close>

definition usys_exit :: "'w machine \<Rightarrow> int \<Rightarrow> 'w uproc \<Rightarrow> (int \<times> 'w uproc) option" where
  "usys_exit M status p = (case syscall M 1 [iarg status, 0, 0] p of _ \<Rightarrow> None)"

definition usys_read :: "'w machine \<Rightarrow> u32 \<Rightarrow> u32 \<Rightarrow> 'w uproc \<Rightarrow> (int \<times> 'w uproc) option" where
  "usys_read M buf len = syscall M 3 [buf, len, 0]"

definition usys_get_tasks :: "'w machine \<Rightarrow> u32 \<Rightarrow> u32 \<Rightarrow> 'w uproc \<Rightarrow> (int \<times> 'w uproc) option" where
  "usys_get_tasks M buf max_count = syscall M 4 [buf, max_count, 0]"

definition usys_get_meminfo :: "'w machine \<Rightarrow> u32 \<Rightarrow> 'w uproc \<Rightarrow> (int \<times> 'w uproc) option" where
  "usys_get_meminfo M buf = syscall M 5 [buf, 0, 0]"

definition usys_open :: "'w machine \<Rightarrow> u32 \<Rightarrow> int \<Rightarrow> 'w uproc \<Rightarrow> (int \<times> 'w uproc) option" where
  "usys_open M path flags = syscall M 6 [path, iarg flags, 0]"

definition usys_read_file :: "'w machine \<Rightarrow> int \<Rightarrow> u32 \<Rightarrow> u32 \<Rightarrow> 'w uproc \<Rightarrow> (int \<times> 'w uproc) option" where
  "usys_read_file M fd buf len = syscall M 7 [iarg fd, buf, len]"

definition usys_close :: "'w machine \<Rightarrow> int \<Rightarrow> 'w uproc \<Rightarrow> (int \<times> 'w uproc) option" where
  "usys_close M fd = syscall M 8 [iarg fd, 0, 0]"

definition usys_listdir :: "'w machine \<Rightarrow> u32 \<Rightarrow> u32 \<Rightarrow> u32 \<Rightarrow> 'w uproc \<Rightarrow> (int \<times> 'w uproc) option" where
  "usys_listdir M path entries max_entries = syscall M 9 [path, entries, max_entries]"

definition usys_write_file :: "'w machine \<Rightarrow> int \<Rightarrow> u32 \<Rightarrow> u32 \<Rightarrow> 'w uproc \<Rightarrow> (int \<times> 'w uproc) option" where
  "usys_write_file M fd buf len = syscall M 11 [iarg fd, buf, len]"

definition usys_fork :: "'w machine \<Rightarrow> 'w uproc \<Rightarrow> (int \<times> 'w uproc) option" where
  "usys_fork M = syscall M 12 []"

definition usys_wait :: "'w machine \<Rightarrow> u32 \<Rightarrow> 'w uproc \<Rightarrow> (int \<times> 'w uproc) option" where
  "usys_wait M status = syscall M 13 [status]"

definition usys_getpid :: "'w machine \<Rightarrow> 'w uproc \<Rightarrow> (int \<times> 'w uproc) option" where
  "usys_getpid M = syscall M 14 []"

definition usys_getppid :: "'w machine \<Rightarrow> 'w uproc \<Rightarrow> (int \<times> 'w uproc) option" where
  "usys_getppid M = syscall M 15 []"

definition usys_kill :: "'w machine \<Rightarrow> int \<Rightarrow> int \<Rightarrow> 'w uproc \<Rightarrow> (int \<times> 'w uproc) option" where
  "usys_kill M pid sig = syscall M 16 [iarg pid, iarg sig]"

definition usys_dup :: "'w machine \<Rightarrow> int \<Rightarrow> 'w uproc \<Rightarrow> (int \<times> 'w uproc) option" where
  "usys_dup M oldfd = syscall M 17 [iarg oldfd]"

definition usys_dup2 :: "'w machine \<Rightarrow> int \<Rightarrow> int \<Rightarrow> 'w uproc \<Rightarrow> (int \<times> 'w uproc) option" where
  "usys_dup2 M oldfd newfd = syscall M 18 [iarg oldfd, iarg newfd]"

definition usys_devlist :: "'w machine \<Rightarrow> u32 \<Rightarrow> u32 \<Rightarrow> 'w uproc \<Rightarrow> (int \<times> 'w uproc) option" where
  "usys_devlist M buf max_count = syscall M 19 [buf, max_count]"

definition usys_exec :: "'w machine \<Rightarrow> u32 \<Rightarrow> u32 \<Rightarrow> 'w uproc \<Rightarrow> (int \<times> 'w uproc) option" where
  "usys_exec M path argv = syscall M 10 [path, argv, 0]"

subsection \<open>\<open>unistd.c\<close>\<close>

definition ENOENT :: int where [vx_consts]: "ENOENT = 2"
definition EIO :: int where [vx_consts]: "EIO = 5"
definition EBADF :: int where [vx_consts]: "EBADF = 9"
definition EACCES :: int where [vx_consts]: "EACCES = 13"
definition EFAULT :: int where [vx_consts]: "EFAULT = 14"
definition EINVAL :: int where [vx_consts]: "EINVAL = 22"
definition EMFILE :: int where [vx_consts]: "EMFILE = 24"
definition ERANGE :: int where [vx_consts]: "ERANGE = 34"
definition ECHILD :: int where [vx_consts]: "ECHILD = 100"

definition fail_with :: "int \<Rightarrow> 'w uproc \<Rightarrow> int \<times> 'w uproc" where
  "fail_with e p = (- 1, p\<lparr>errno := e\<rparr>)"

definition set_errno_from :: "int \<Rightarrow> 'w uproc \<Rightarrow> int \<times> 'w uproc" where
  "set_errno_from rc p =
     (if rc \<ge> 0 then (rc, p)
      else if rc = E_INVAL then fail_with EINVAL p
      else if rc = E_ARG then fail_with EINVAL p
      else if rc = E_PTR then fail_with EFAULT p
      else if rc = E_PERM then fail_with EACCES p
      else if rc = E_NOENT then fail_with ENOENT p
      else if rc = E_BADF then fail_with EBADF p
      else if rc = E_MFILE then fail_with EMFILE p
      else fail_with EIO p)"

definition posix :: "('w uproc \<Rightarrow> (int \<times> 'w uproc) option) \<Rightarrow> 'w uproc \<Rightarrow> (int \<times> 'w uproc) option" where
  "posix call p = map_option (\<lambda>(rc, q). set_errno_from rc q) (call p)"

definition uread :: "'w machine \<Rightarrow> int \<Rightarrow> u32 \<Rightarrow> u32 \<Rightarrow> 'w uproc \<Rightarrow> (int \<times> 'w uproc) option" where
  "uread M fd buf count = posix (if fd = 0 then usys_read M buf count else usys_read_file M fd buf count)"

definition uwrite :: "'w machine \<Rightarrow> int \<Rightarrow> u32 \<Rightarrow> u32 \<Rightarrow> 'w uproc \<Rightarrow> (int \<times> 'w uproc) option" where
  "uwrite M fd buf count = posix (if fd = 1 \<or> fd = 2 then usys_write M buf count else usys_write_file M fd buf count)"

definition uopen :: "'w machine \<Rightarrow> u32 \<Rightarrow> int \<Rightarrow> 'w uproc \<Rightarrow> (int \<times> 'w uproc) option" where
  "uopen M path flags = posix (usys_open M path flags)"

definition uclose :: "'w machine \<Rightarrow> int \<Rightarrow> 'w uproc \<Rightarrow> (int \<times> 'w uproc) option" where
  "uclose M fd = posix (usys_close M fd)"

definition udup :: "'w machine \<Rightarrow> int \<Rightarrow> 'w uproc \<Rightarrow> (int \<times> 'w uproc) option" where
  "udup M oldfd = posix (usys_dup M oldfd)"

definition udup2 :: "'w machine \<Rightarrow> int \<Rightarrow> int \<Rightarrow> 'w uproc \<Rightarrow> (int \<times> 'w uproc) option" where
  "udup2 M oldfd newfd = posix (usys_dup2 M oldfd newfd)"

definition ufork :: "'w machine \<Rightarrow> 'w uproc \<Rightarrow> (int \<times> 'w uproc) option" where
  "ufork M = posix (usys_fork M)"

definition execve :: "'w machine \<Rightarrow> u32 \<Rightarrow> u32 \<Rightarrow> u32 \<Rightarrow> 'w uproc \<Rightarrow> (int \<times> 'w uproc) option" where
  "execve M path argv envp = posix (usys_exec M path argv)"

definition uexit :: "'w machine \<Rightarrow> int \<Rightarrow> 'w uproc \<Rightarrow> (int \<times> 'w uproc) option" where
  "uexit M status = usys_exit M status"

definition uwait :: "'w machine \<Rightarrow> u32 \<Rightarrow> 'w uproc \<Rightarrow> (int \<times> 'w uproc) option" where
  "uwait M status p = map_option (\<lambda>(rc, q). if rc < 0 then fail_with ECHILD q else (rc, q)) (usys_wait M status p)"

definition waitpid :: "'w machine \<Rightarrow> int \<Rightarrow> u32 \<Rightarrow> int \<Rightarrow> 'w uproc \<Rightarrow> (int \<times> 'w uproc) option" where
  "waitpid M pid status options p = (if pid \<noteq> - 1 then Some (fail_with EINVAL p) else uwait M status p)"

definition getpid :: "'w machine \<Rightarrow> 'w uproc \<Rightarrow> (int \<times> 'w uproc) option" where
  "getpid M = usys_getpid M"

definition getppid :: "'w machine \<Rightarrow> 'w uproc \<Rightarrow> (int \<times> 'w uproc) option" where
  "getppid M = usys_getppid M"

definition ukill :: "'w machine \<Rightarrow> int \<Rightarrow> int \<Rightarrow> 'w uproc \<Rightarrow> (int \<times> 'w uproc) option" where
  "ukill M pid sig = posix (usys_kill M pid sig)"

text \<open>\<open>while (ticks--) sys_yield();\<close>\<close>

fun yield_loop :: "'w machine \<Rightarrow> nat \<Rightarrow> 'w uproc \<Rightarrow> 'w uproc option" where
  "yield_loop M 0 p = Some p"
| "yield_loop M (Suc n) p = (case usys_yield M p of None \<Rightarrow> None | Some (_, q) \<Rightarrow> yield_loop M n q)"

definition usleep_seconds :: "'w machine \<Rightarrow> u32 \<Rightarrow> 'w uproc \<Rightarrow> (int \<times> 'w uproc) option" where
  "usleep_seconds M seconds p = map_option (Pair 0) (yield_loop M (unat (seconds * 100)) p)"

definition usleep :: "'w machine \<Rightarrow> u32 \<Rightarrow> 'w uproc \<Rightarrow> (int \<times> 'w uproc) option" where
  "usleep M microseconds p = map_option (\<lambda>(_, q). (0, q)) (usys_yield M p)"

text \<open>\<open>pipe\<close>, \<open>mkdir\<close>, \<open>rmdir\<close>, \<open>chdir\<close>, \<open>access\<close> and, in \<open>stat.c\<close>, \<open>stat\<close> and \<open>fstat\<close> are not supported.\<close>

definition unsupported :: "'w uproc \<Rightarrow> int \<times> 'w uproc" where
  "unsupported p = fail_with EINVAL p"

definition ustat :: "u32 \<Rightarrow> u32 \<Rightarrow> 'w uproc \<Rightarrow> int \<times> 'w uproc" where
  "ustat path buf p = fail_with EINVAL p"

definition ufstat :: "int \<Rightarrow> u32 \<Rightarrow> 'w uproc \<Rightarrow> int \<times> 'w uproc" where
  "ufstat fd buf p = fail_with EINVAL p"

definition unlink :: "'w machine \<Rightarrow> u32 \<Rightarrow> 'w uproc \<Rightarrow> (int \<times> 'w uproc) option" where
  "unlink M path = posix (syscall M 20 [path])"

definition urename :: "'w machine \<Rightarrow> u32 \<Rightarrow> u32 \<Rightarrow> 'w uproc \<Rightarrow> (int \<times> 'w uproc) option" where
  "urename M oldp newp = posix (syscall M 21 [oldp, newp])"

text \<open>Stores of user code, byte by byte.\<close>

fun st_bytes :: "'w machine \<Rightarrow> u32 \<Rightarrow> u8 list \<Rightarrow> 'w uproc \<Rightarrow> 'w uproc" where
  "st_bytes M a [] p = p"
| "st_bytes M a (b # bs) p = st_bytes M (a + 1) bs (p\<lparr>uworld := st8 M a b (uworld p)\<rparr>)"

definition getcwd :: "'w machine \<Rightarrow> u32 \<Rightarrow> u32 \<Rightarrow> 'w uproc \<Rightarrow> u32 \<times> 'w uproc" where
  "getcwd M buf sz p = (if buf = 0 \<or> sz < 2 then (0, p\<lparr>errno := ERANGE\<rparr>) else (buf, st_bytes M buf [47, 0] p))"

subsection \<open>\<open>signal.c\<close>\<close>

definition signal :: "int \<Rightarrow> u32 \<Rightarrow> u32" where
  "signal signum handler = handler"

definition uraise :: "'w machine \<Rightarrow> int \<Rightarrow> 'w uproc \<Rightarrow> (int \<times> 'w uproc) option" where
  "uraise M sig p = (case getpid M p of None \<Rightarrow> None | Some (pid, q) \<Rightarrow> ukill M pid sig q)"

subsection \<open>Calls that return\<close>

lemma syscall_done:
  assumes "fold (\<lambda>(i, v). set_r i v) (enumerate 0 args) (set_r 7 n (uregs p)) = r"
    and "svc_handler B Ops E r (uworld p) = ret (Done r' k)"
  shows "syscall (vinix B Ops E rest) n args p = Some (sint (sv_r r' 0), p\<lparr>uregs := r', uworld := k\<rparr>)"
  using assms by (simp add: syscall_def vinix_def run_svc.simps Let_def)

lemma posix_ok: "call p = Some (rc, q) \<Longrightarrow> 0 \<le> rc \<Longrightarrow> posix call p = Some (rc, q)"
  by (simp add: posix_def set_errno_from_def)

lemma posix_error:
  "call p = Some (rc, q) \<Longrightarrow> rc < 0 \<Longrightarrow> posix call p = Some (- 1, q\<lparr>errno := errno (snd (set_errno_from rc q))\<rparr>)"
  by (simp add: posix_def set_errno_from_def fail_with_def)

end
