(* ===== verification/Ufile.thy ===== *)
theory Ufile
  imports Ucalls
begin

section \<open>Streams (\<open>userspace/vinixlibc/src/file.c\<close>)\<close>

text \<open>
  A \<open>FILE *\<close> is \<open>NULL\<close>, one of the three standard streams or one of the eight slots of \<open>files\<close>.  The
  buffers of the callers are addresses of the machine; a local byte that is passed to the kernel lies at
  an address \<open>tmp\<close> of the stack.  The loop of \<open>fread\<close> asks until the kernel has delivered everything,
  so it is a \<open>partial_function\<close>: \<open>None\<close> if it never ends.
\<close>

subsection \<open>The code\<close>

datatype file_ptr = NullFile | Std nat | Slot nat

definition EOF :: int where [vx_consts]: "EOF = - 1"
definition MAX_FILES :: nat where [vx_consts]: "MAX_FILES = 8"

definition std_file :: "int \<Rightarrow> FILE" where
  "std_file fd = \<lparr>f_fd = fd, f_flags = FILE_IN_USE, f_pushback = EOF, f_owns_fd = 0\<rparr>"

definition std_init :: "FILE list" where
  "std_init = [std_file 0, std_file 1, std_file 2]"

definition ustdin :: file_ptr where "ustdin = Std 0"
definition ustdout :: file_ptr where "ustdout = Std 1"
definition ustderr :: file_ptr where "ustderr = Std 2"

fun get_file :: "file_ptr \<Rightarrow> 'w uproc \<Rightarrow> FILE" where
  "get_file (Std i) p = std_streams p ! i"
| "get_file (Slot i) p = files p ! i"
| "get_file NullFile p = std_file 0"

fun set_file :: "file_ptr \<Rightarrow> (FILE \<Rightarrow> FILE) \<Rightarrow> 'w uproc \<Rightarrow> 'w uproc" where
  "set_file (Std i) g p = p\<lparr>std_streams := (std_streams p)[i := g (std_streams p ! i)]\<rparr>"
| "set_file (Slot i) g p = p\<lparr>files := (files p)[i := g (files p ! i)]\<rparr>"
| "set_file NullFile g p = p"

definition alloc_file :: "'w uproc \<Rightarrow> file_ptr \<times> 'w uproc" where
  "alloc_file p = (case first_idx (\<lambda>i. f_flags (files p ! i) AND FILE_IN_USE = 0) 0 MAX_FILES of
     None \<Rightarrow> (NullFile, p)
   | Some i \<Rightarrow> (Slot i, set_file (Slot i) (\<lambda>f. f\<lparr>f_flags := FILE_IN_USE, f_pushback := EOF\<rparr>) p))"

definition uO_RDONLY :: int where [vx_consts]: "uO_RDONLY = 0x00"
definition uO_WRONLY :: int where [vx_consts]: "uO_WRONLY = 0x01"
definition uO_RDWR :: int where [vx_consts]: "uO_RDWR = 0x02"
definition uO_CREAT :: int where [vx_consts]: "uO_CREAT = 0x04"
definition uO_TRUNC :: int where [vx_consts]: "uO_TRUNC = 0x08"
definition uO_APPEND :: int where [vx_consts]: "uO_APPEND = 0x10"

text \<open>\<open>None\<close> is a null pointer.  The string is the list of its bytes before the terminator.\<close>

definition parse_mode :: "cstring option \<Rightarrow> int" where
  "parse_mode mode = (case mode of
     None \<Rightarrow> - 1
   | Some m \<Rightarrow>
       if chr0 m = 0 then - 1
       else let m1 = chr0 (tl m); plus = (m1 = 43 \<or> (m1 \<noteq> 0 \<and> chr0 (tl (tl m)) = 43)) in
         if chr0 m = 114 then (if plus then uO_RDWR else uO_RDONLY)
         else if chr0 m = 119 then (if plus then uO_RDWR else uO_WRONLY) OR uO_CREAT OR uO_TRUNC
         else if chr0 m = 97 then (if plus then uO_RDWR else uO_WRONLY) OR uO_CREAT OR uO_APPEND
         else - 1)"

definition fopen :: "'w machine \<Rightarrow> u32 \<Rightarrow> cstring option \<Rightarrow> 'w uproc \<Rightarrow> (file_ptr \<times> 'w uproc) option" where
  "fopen M path mode p =
     (let flags = parse_mode mode in
      if flags < 0 then Some (NullFile, p\<lparr>errno := EINVAL\<rparr>)
      else case uopen M path flags p of
          None \<Rightarrow> None
        | Some (fd, q) \<Rightarrow>
            if fd < 0 then Some (NullFile, q)
            else case alloc_file q of
                (NullFile, q') \<Rightarrow> map_option (\<lambda>(_, r). (NullFile, r\<lparr>errno := EMFILE\<rparr>)) (uclose M fd q')
              | (fp, q') \<Rightarrow> Some (fp, set_file fp (\<lambda>f. f\<lparr>f_fd := fd, f_owns_fd := 1\<rparr>) q'))"

definition fclose :: "'w machine \<Rightarrow> file_ptr \<Rightarrow> 'w uproc \<Rightarrow> (int \<times> 'w uproc) option" where
  "fclose M fp p =
     (if fp = NullFile then Some (EOF, p)
      else map_option (\<lambda>(rc, q). (rc, set_file fp (\<lambda>f. f\<lparr>f_flags := 0, f_fd := - 1\<rparr>) q))
        (if f_owns_fd (get_file fp p) \<noteq> 0 \<and> f_fd (get_file fp p) \<ge> 0 then uclose M (f_fd (get_file fp p)) p
         else Some (0, p)))"

definition mark :: "file_ptr \<Rightarrow> u32 \<Rightarrow> 'w uproc \<Rightarrow> 'w uproc" where
  "mark fp bits = set_file fp (\<lambda>f. f\<lparr>f_flags := f_flags f OR bits\<rparr>)"

partial_function (option) fread_loop ::
  "'w machine \<Rightarrow> file_ptr \<Rightarrow> u32 \<Rightarrow> u32 \<Rightarrow> u32 \<Rightarrow> 'w uproc \<Rightarrow> (u32 \<times> 'w uproc) option" where
  "fread_loop M fp out total_bytes done_bytes p =
     (if done_bytes < total_bytes
      then (case uread M (f_fd (get_file fp p)) (out + done_bytes) (total_bytes - done_bytes) p of
          None \<Rightarrow> None
        | Some (n, q) \<Rightarrow>
            if n < 0 then Some (done_bytes, mark fp FILE_ERR q)
            else if n = 0 then Some (done_bytes, mark fp FILE_EOF q)
            else fread_loop M fp out total_bytes (done_bytes + of_int n) q)
      else Some (done_bytes, p))"

definition fread :: "'w machine \<Rightarrow> u32 \<Rightarrow> u32 \<Rightarrow> u32 \<Rightarrow> file_ptr \<Rightarrow> 'w uproc \<Rightarrow> (u32 \<times> 'w uproc) option" where
  "fread M ptr sz nmemb fp p =
     (if fp = NullFile \<or> sz = 0 \<or> nmemb = 0 then Some (0, p)
      else let total_bytes = sz * nmemb in
        map_option (\<lambda>(n, q). (n div sz, q))
          (if f_pushback (get_file fp p) \<noteq> EOF \<and> total_bytes > 0
           then fread_loop M fp (ptr + 1) total_bytes 1
             (set_file fp (\<lambda>f. f\<lparr>f_pushback := EOF\<rparr>) (st_bytes M ptr [of_int (f_pushback (get_file fp p))] p))
           else fread_loop M fp ptr total_bytes 0 p))"

definition fgetc :: "'w machine \<Rightarrow> u32 \<Rightarrow> file_ptr \<Rightarrow> 'w uproc \<Rightarrow> (int \<times> 'w uproc) option" where
  "fgetc M tmp fp p =
     (if fp = NullFile then Some (EOF, p)
      else if f_pushback (get_file fp p) \<noteq> EOF
      then Some (f_pushback (get_file fp p), set_file fp (\<lambda>f. f\<lparr>f_pushback := EOF\<rparr>) p)
      else case uread M (f_fd (get_file fp p)) tmp 1 p of
          None \<Rightarrow> None
        | Some (n, q) \<Rightarrow>
            if n < 0 then Some (EOF, mark fp FILE_ERR q)
            else if n = 0 then Some (EOF, mark fp FILE_EOF q)
            else Some (uint (ld8 M tmp (uworld q)), q))"

definition getchar :: "'w machine \<Rightarrow> u32 \<Rightarrow> 'w uproc \<Rightarrow> (int \<times> 'w uproc) option" where
  "getchar M tmp = fgetc M tmp ustdin"

text \<open>\<open>fgets_loop M tmp buf n i\<close>: \<open>n\<close> more bytes fit, \<open>i\<close> are stored.\<close>

fun fgets_loop :: "'w machine \<Rightarrow> u32 \<Rightarrow> u32 \<Rightarrow> nat \<Rightarrow> nat \<Rightarrow> file_ptr \<Rightarrow> 'w uproc \<Rightarrow> (nat \<times> 'w uproc) option" where
  "fgets_loop M tmp buf 0 i fp p = Some (i, p)"
| "fgets_loop M tmp buf (Suc n) i fp p = (case fgetc M tmp fp p of
     None \<Rightarrow> None
   | Some (c, q) \<Rightarrow>
       if c = EOF then Some (i, q)
       else let q' = st_bytes M (buf + of_nat i) [of_int c] q in
         if c = 10 then Some (Suc i, q') else fgets_loop M tmp buf n (Suc i) fp q')"

definition fgets :: "'w machine \<Rightarrow> u32 \<Rightarrow> u32 \<Rightarrow> int \<Rightarrow> file_ptr \<Rightarrow> 'w uproc \<Rightarrow> (u32 \<times> 'w uproc) option" where
  "fgets M tmp buf sz fp p =
     (if buf = 0 \<or> sz \<le> 0 \<or> fp = NullFile then Some (0, p)
      else map_option (\<lambda>(i, q). if i = 0 then (0, q) else (buf, st_bytes M (buf + of_nat i) [0] q))
        (fgets_loop M tmp buf (nat (sz - 1)) 0 fp p))"

definition fwrite :: "'w machine \<Rightarrow> u32 \<Rightarrow> u32 \<Rightarrow> u32 \<Rightarrow> file_ptr \<Rightarrow> 'w uproc \<Rightarrow> (u32 \<times> 'w uproc) option" where
  "fwrite M ptr sz nmemb fp p =
     (if fp = NullFile \<or> sz = 0 \<or> nmemb = 0 then Some (0, p)
      else map_option (\<lambda>(n, q). if n < 0 then (0, mark fp FILE_ERR q) else (of_int n div sz, q))
        (uwrite M (f_fd (get_file fp p)) ptr (sz * nmemb) p))"

definition fputc :: "'w machine \<Rightarrow> u32 \<Rightarrow> int \<Rightarrow> file_ptr \<Rightarrow> 'w uproc \<Rightarrow> (int \<times> 'w uproc) option" where
  "fputc M tmp c fp p =
     (let ch = (of_int c :: u8) in
      map_option (\<lambda>(n, q). (if n \<noteq> 1 then EOF else uint ch, q)) (fwrite M tmp 1 1 fp (st_bytes M tmp [ch] p)))"

definition putchar :: "'w machine \<Rightarrow> u32 \<Rightarrow> int \<Rightarrow> 'w uproc \<Rightarrow> (int \<times> 'w uproc) option" where
  "putchar M tmp c = fputc M tmp c ustdout"

text \<open>\<open>strlen\<close> on the memory of the machine; \<open>None\<close>: there is no terminator.\<close>

definition strlen_at :: "'w machine \<Rightarrow> u32 \<Rightarrow> 'w uproc \<Rightarrow> nat option" where
  "strlen_at M s p = first_idx (\<lambda>i. ld8 M (s + of_nat i) (uworld p) = 0) 0 (2 ^ 32)"

definition fputs :: "'w machine \<Rightarrow> u32 \<Rightarrow> file_ptr \<Rightarrow> 'w uproc \<Rightarrow> (int \<times> 'w uproc) option" where
  "fputs M s fp p =
     (if s = 0 \<or> fp = NullFile then Some (EOF, p)
      else case strlen_at M s p of
          None \<Rightarrow> None
        | Some n \<Rightarrow> map_option (\<lambda>(k, q). (if k \<noteq> of_nat n then EOF else 0, q)) (fwrite M s 1 (of_nat n) fp p))"

definition puts_out :: "'w machine \<Rightarrow> u32 \<Rightarrow> u32 \<Rightarrow> 'w uproc \<Rightarrow> (int \<times> 'w uproc) option" where
  "puts_out M tmp s p = (case fputs M s ustdout p of
     None \<Rightarrow> None
   | Some (r, q) \<Rightarrow> if r < 0 then Some (EOF, q) else map_option (\<lambda>(_, q'). (0, q')) (fputc M tmp 10 ustdout q))"

definition fflush :: "file_ptr \<Rightarrow> int" where
  "fflush fp = 0"

definition feof :: "file_ptr \<Rightarrow> 'w uproc \<Rightarrow> bool" where
  "feof fp p \<longleftrightarrow> (if fp \<noteq> NullFile then f_flags (get_file fp p) AND FILE_EOF \<noteq> 0 else False)"

definition ferror :: "file_ptr \<Rightarrow> 'w uproc \<Rightarrow> bool" where
  "ferror fp p \<longleftrightarrow> (if fp \<noteq> NullFile then f_flags (get_file fp p) AND FILE_ERR \<noteq> 0 else False)"

text \<open>The system calls of the descriptor sink of \<open>printf.c\<close>: each passes the staging array, which lies at
  an address of the stack.  Their results are ignored.\<close>

fun flush_call :: "'w machine \<Rightarrow> u32 \<Rightarrow> out_call \<Rightarrow> 'w uproc \<Rightarrow> (int \<times> 'w uproc) option" where
  "flush_call M staging (Sys_write bs) p = usys_write M staging (of_nat (length bs)) (st_bytes M staging bs p)"
| "flush_call M staging (Sys_write_file fd bs) p = usys_write_file M fd staging (of_nat (length bs)) (st_bytes M staging bs p)"

fun flush_calls :: "'w machine \<Rightarrow> u32 \<Rightarrow> out_call list \<Rightarrow> 'w uproc \<Rightarrow> 'w uproc option" where
  "flush_calls M staging [] p = Some p"
| "flush_calls M staging (c # rest) p =
     (case flush_call M staging c p of None \<Rightarrow> None | Some (_, q) \<Rightarrow> flush_calls M staging rest q)"

definition vfprintf :: "'w machine \<Rightarrow> u32 \<Rightarrow> file_ptr \<Rightarrow> u8 list \<Rightarrow> fmt_arg list \<Rightarrow> 'w uproc \<Rightarrow> (int \<times> 'w uproc) option" where
  "vfprintf M staging fp fmt ap p =
     (if fp = NullFile then Some (- 1, p)
      else case vdprintf_fd (f_fd (get_file fp p)) fmt ap of (n, calls) \<Rightarrow>
        map_option (Pair n) (flush_calls M staging calls p))"

definition fprintf :: "'w machine \<Rightarrow> u32 \<Rightarrow> file_ptr \<Rightarrow> u8 list \<Rightarrow> fmt_arg list \<Rightarrow> 'w uproc \<Rightarrow> (int \<times> 'w uproc) option" where
  "fprintf M staging fp fmt ap p = vfprintf M staging fp fmt ap p"

end
