(* ===== verification/Ufile_Props.thy ===== *)
theory Ufile_Props
  imports Ufile
begin

section \<open>Streams: properties\<close>

text \<open>
  What a stream promises rests on the descriptor below it.  The locale \<open>byte_stream\<close> is the contract of
  a descriptor that delivers a sequence of bytes: a read hands out a non-empty prefix of what is left,
  at most as long as asked for, or nothing at the end, and changes no other byte of user memory.
  Inside it, \<open>fread\<close> and \<open>fgets\<close> are shown to deliver the bytes of the sequence.
\<close>

subsection \<open>User addresses\<close>

definition in_window :: "u32 \<Rightarrow> bool" where
  "in_window va \<longleftrightarrow> 0x40000000 \<le> unat va \<and> unat va < 0x40100000"

definition fits :: "u32 \<Rightarrow> nat \<Rightarrow> bool" where
  "fits buf n \<longleftrightarrow> 0x40000000 \<le> unat buf \<and> unat buf + n \<le> 0x40100000"

lemma fits_validate: "fits buf (unat n) \<longleftrightarrow> validate_user_pointer buf n = E_OK"
  by (simp add: fits_def validate_iff)

lemma fits_le: "fits buf n \<Longrightarrow> m \<le> n \<Longrightarrow> fits buf m"
  by (simp add: fits_def)

lemma fits_unat_add: "fits buf n \<Longrightarrow> i \<le> n \<Longrightarrow> unat (buf + of_nat i) = unat buf + i"
  by (simp add: fits_def unat_word_ariths unat_of_nat)

lemma fits_add: "fits buf n \<Longrightarrow> i \<le> n \<Longrightarrow> m \<le> n - i \<Longrightarrow> fits (buf + of_nat i) m"
  using fits_unat_add [of buf n i] unfolding fits_def by linarith

lemma window_add: "fits buf n \<Longrightarrow> i < n \<Longrightarrow> in_window (buf + of_nat i)"
  using fits_unat_add [of buf n i] by (simp add: fits_def in_window_def)

text \<open>A part of a buffer, in terms of the distance from its start.\<close>

lemma dist_shift:
  assumes "i + k \<le> 2 ^ 31"
  shows "unat (va - (buf + of_nat i :: u32)) < k \<longleftrightarrow> i \<le> unat (va - buf) \<and> unat (va - buf) < i + k"
    "i \<le> unat (va - buf) \<Longrightarrow> unat (va - (buf + of_nat i)) = unat (va - buf) - i"
proof -
  have e: "va - (buf + of_nat i) = (va - buf) - of_nat i" by simp
  have i: "unat (of_nat i :: u32) = i" using assms by (simp add: unat_of_nat)
  have lt: "unat (va - buf) < 2 ^ 32" using unsigned_less [of "va - buf"] by simp
  show "unat (va - (buf + of_nat i)) < k \<longleftrightarrow> i \<le> unat (va - buf) \<and> unat (va - buf) < i + k"
    using assms lt unfolding e by (auto simp: unat_sub_if' i)
  show "unat (va - (buf + of_nat i)) = unat (va - buf) - i" if "i \<le> unat (va - buf)"
    using that unfolding e by (simp add: unat_sub_if' i)
qed

subsection \<open>Files of a process\<close>

fun live_file :: "file_ptr \<Rightarrow> 'w uproc \<Rightarrow> bool" where
  "live_file (Std i) p \<longleftrightarrow> i < length (std_streams p)"
| "live_file (Slot i) p \<longleftrightarrow> i < length (files p)"
| "live_file NullFile p \<longleftrightarrow> False"

lemma live_file_not_null: "live_file fp p \<Longrightarrow> fp \<noteq> NullFile"
  by auto

lemma get_file_step [simp]:
  "get_file fp (p\<lparr>uregs := r\<rparr>) = get_file fp p" "get_file fp (p\<lparr>uworld := w\<rparr>) = get_file fp p"
  by (cases fp; simp)+

lemma live_file_step [simp]:
  "live_file fp (p\<lparr>uregs := r\<rparr>) = live_file fp p" "live_file fp (p\<lparr>uworld := w\<rparr>) = live_file fp p"
  by (cases fp; simp)+

lemma get_set_file: "live_file fp p \<Longrightarrow> get_file fp (set_file fp g p) = g (get_file fp p)"
  by (cases fp) auto

lemma set_file_world [simp]: "uworld (set_file fp g p) = uworld p" "errno (set_file fp g p) = errno p"
  by (cases fp; simp)+

lemma st_bytes_world: "st_bytes M a bs p = p\<lparr>uworld := uworld (st_bytes M a bs p)\<rparr>"
  by (induction M a bs p rule: st_bytes.induct) auto

lemma mark_world [simp]: "uworld (mark fp bits p) = uworld p"
  by (simp add: mark_def)

lemma feof_step [simp]: "feof fp (p\<lparr>uregs := r\<rparr>) = feof fp p" "ferror fp (p\<lparr>uregs := r\<rparr>) = ferror fp p"
  "feof fp (p\<lparr>uworld := w\<rparr>) = feof fp p" "ferror fp (p\<lparr>uworld := w\<rparr>) = ferror fp p"
  by (simp_all add: feof_def ferror_def)

lemma feof_mark:
  assumes "live_file fp p"
  shows "feof fp (mark fp FILE_EOF p)" "ferror fp (mark fp FILE_EOF p) = ferror fp p"
  using assms live_file_not_null [OF assms]
  by (simp_all add: feof_def ferror_def mark_def get_set_file FILE_EOF_def FILE_ERR_def bit.conj_disj_distrib2)

subsection \<open>Memory after a store\<close>

text \<open>\<open>stored M A buf i bs w w'\<close>: on the addresses \<open>A\<close>, memory differs from before only in the bytes \<open>bs\<close>
  at \<open>buf + i\<close>.\<close>

definition stored :: "'w machine \<Rightarrow> (u32 \<Rightarrow> bool) \<Rightarrow> u32 \<Rightarrow> nat \<Rightarrow> u8 list \<Rightarrow> 'w \<Rightarrow> 'w \<Rightarrow> bool" where
  "stored M A buf i bs w w' \<longleftrightarrow> (\<forall>va. A va \<longrightarrow> ld8 M va w' =
     (if i \<le> unat (va - buf) \<and> unat (va - buf) < i + length bs then bs ! (unat (va - buf) - i) else ld8 M va w))"

lemma stored_Nil [simp]: "stored M A buf i [] w w' \<longleftrightarrow> (\<forall>va. A va \<longrightarrow> ld8 M va w' = ld8 M va w)"
  by (auto simp: stored_def)

lemma stored_append:
  assumes "stored M A buf i xs w w1" "stored M A buf (i + length xs) ys w1 w2"
  shows "stored M A buf i (xs @ ys) w w2"
  using assms by (auto simp: stored_def nth_append add.assoc)

lemma stored_shift:
  assumes "i + length bs \<le> 2 ^ 31"
  shows "stored M A (buf + of_nat i) 0 bs w w' = stored M A buf i bs w w'"
proof -
  have "(if 0 \<le> unat (va - (buf + of_nat i)) \<and> unat (va - (buf + of_nat i)) < 0 + length bs then bs ! (unat (va - (buf + of_nat i)) - 0) else z) =
    (if i \<le> unat (va - buf) \<and> unat (va - buf) < i + length bs then bs ! (unat (va - buf) - i) else z)" for va z
    using dist_shift [OF assms, of va buf] by auto
  then show ?thesis by (simp only: stored_def)
qed

lemma stored_mono: "stored M A buf i bs w w' \<Longrightarrow> (\<And>va. A' va \<Longrightarrow> A va) \<Longrightarrow> stored M A' buf i bs w w'"
  by (auto simp: stored_def)

text \<open>A line: the bytes up to and including the first newline, at most \<open>n\<close> of them.\<close>

fun line_of :: "nat \<Rightarrow> u8 list \<Rightarrow> u8 list" where
  "line_of 0 s = []"
| "line_of (Suc n) [] = []"
| "line_of (Suc n) (c # s) = (if c = 10 then [c] else c # line_of n s)"

lemma length_line_of: "length (line_of n s) \<le> n"
  by (induction n s rule: line_of.induct) auto

subsection \<open>The contract of a descriptor\<close>

locale byte_stream =
  fixes M :: "'w machine" and fd :: int and inv :: "'w \<Rightarrow> bool" and stream :: "'w \<Rightarrow> u8 list"
  assumes read_bytes: "inv (uworld p) \<Longrightarrow> 0 < n \<Longrightarrow> fits buf (unat n) \<Longrightarrow>
      \<exists>k r w. uread M fd buf n p = Some (int k, p\<lparr>uregs := r, uworld := w\<rparr>) \<and>
        k \<le> unat n \<and> k \<le> length (stream (uworld p)) \<and> (k = 0 \<longrightarrow> stream (uworld p) = []) \<and>
        inv w \<and> stream w = drop k (stream (uworld p)) \<and> stored M in_window buf 0 (take k (stream (uworld p))) (uworld p) w"
    and store_byte: "inv w \<Longrightarrow> in_window a \<Longrightarrow>
      inv (st8 M a b w) \<and> stream (st8 M a b w) = stream w \<and> stored M in_window a 0 [b] w (st8 M a b w)"
begin

lemma fread_loop_ok:
  assumes "inv (uworld p)" "f_fd (get_file fp p) = fd" "live_file fp p" "unat m \<le> unat t" "fits out (unat t)"
    and "bs = take (unat t - unat m) (stream (uworld p))"
  shows "\<exists>q. fread_loop M fp out t m p = Some (m + of_nat (length bs), q) \<and> inv (uworld q) \<and>
     stream (uworld q) = drop (length bs) (stream (uworld p)) \<and> stored M in_window out (unat m) bs (uworld p) (uworld q) \<and>
     (feof fp q \<longleftrightarrow> feof fp p \<or> length bs < unat t - unat m) \<and> (ferror fp q \<longleftrightarrow> ferror fp p)"
  using assms
proof (induction "unat t - unat m" arbitrary: m p bs rule: less_induct)
  case less
  let ?s = "stream (uworld p)"
  show ?case
  proof (cases "m < t")
    case False
    then show ?thesis using less.prems by (subst fread_loop.simps) (auto simp: word_less_nat_alt)
  next
    case True
    have d: "unat (t - m) = unat t - unat m" "0 < t - m" using True by (auto simp: word_less_nat_alt unat_sub word_le_nat_alt)
    have out: "out + m = out + of_nat (unat m)" by simp
    have bnd: "unat t \<le> 2 ^ 20" using less.prems(5) by (simp add: fits_def)
    have "fits (out + m) (unat (t - m))"
      unfolding out by (rule fits_add [OF less.prems(5)]) (use less.prems(4) d in auto)
    then obtain k r w where r: "uread M fd (out + m) (t - m) p = Some (int k, p\<lparr>uregs := r, uworld := w\<rparr>)"
      "k \<le> unat t - unat m" "k \<le> length ?s" "k = 0 \<longrightarrow> ?s = []" "inv w" "stream w = drop k ?s"
      and mem: "stored M in_window (out + m) 0 (take k ?s) (uworld p) w"
      using read_bytes [OF less.prems(1) d(2)] unfolding d(1) by metis
    have "unat m + length (take k ?s) \<le> 2 ^ 31" using r(2) bnd less.prems(4) by simp
    then have mem: "stored M in_window out (unat m) (take k ?s) (uworld p) w"
      using mem unfolding out by (simp only: stored_shift)
    let ?p = "p\<lparr>uregs := r, uworld := w\<rparr>"
    show ?thesis
    proof (cases "k = 0")
      case True
      then have "fread_loop M fp out t m p = Some (m, mark fp FILE_EOF ?p)"
        using \<open>m < t\<close> r(1) less.prems(2) by (subst fread_loop.simps) simp
      then show ?thesis using True r d \<open>m < t\<close> less.prems(1,3,6) mem by (auto simp: feof_mark word_less_nat_alt)
    next
      case False
      let ?m = "m + of_nat k" and ?bs = "take (unat t - unat m - k) (stream w)"
      have m: "unat ?m = unat m + k" using r(2) d bnd less.prems(4) by (simp add: unat_word_ariths unat_of_nat)
      have l: "fread_loop M fp out t m p = fread_loop M fp out t ?m ?p"
        using False \<open>m < t\<close> r(1) less.prems(2) by (subst fread_loop.simps) simp
      have bs: "bs = take k ?s @ ?bs"
        unfolding less.prems(6) r(6) using r(2) take_add [of k "unat t - unat m - k" ?s] by (simp only: le_add_diff_inverse)
      have "unat t - unat ?m < unat t - unat m" using m False r(2) d by simp
      moreover have "unat m + k \<le> unat t" using r(2) less.prems(4) by simp
      ultimately obtain q where q: "fread_loop M fp out t ?m ?p = Some (?m + of_nat (length ?bs), q)" "inv (uworld q)"
        "stream (uworld q) = drop (length ?bs) (stream w)" "stored M in_window out (unat m + k) ?bs w (uworld q)"
        "feof fp q \<longleftrightarrow> feof fp p \<or> length ?bs < unat t - (unat m + k)" "ferror fp q \<longleftrightarrow> ferror fp p"
        using less.hyps [of ?m ?p ?bs] less.prems(2,3,5) r(5) by (auto simp: m)
      have "stored M in_window out (unat m) bs (uworld p) (uworld q)"
        unfolding bs using mem q(4) r(3) by (intro stored_append) (simp_all add: min_absorb2)
      moreover have "length bs = k + length ?bs" unfolding bs using r(3) by simp
      ultimately show ?thesis using l q r(2,6) by (auto simp: add.assoc add.commute)
    qed
  qed
qed

lemma fread_ok:
  assumes "inv (uworld p)" "f_fd (get_file fp p) = fd" "live_file fp p" "f_pushback (get_file fp p) = EOF"
    and "sz \<noteq> 0" "unat sz * unat nmemb < 2 ^ 32" "fits ptr (unat sz * unat nmemb)"
    and "bs = take (unat sz * unat nmemb) (stream (uworld p))"
  shows "\<exists>q. fread M ptr sz nmemb fp p = Some (of_nat (length bs div unat sz), q) \<and>
     inv (uworld q) \<and> stream (uworld q) = drop (length bs) (stream (uworld p)) \<and>
     stored M in_window ptr 0 bs (uworld p) (uworld q) \<and>
     (feof fp q \<longleftrightarrow> feof fp p \<or> length bs < unat sz * unat nmemb) \<and> (ferror fp q \<longleftrightarrow> ferror fp p)"
proof -
  have t: "unat (sz * nmemb) = unat sz * unat nmemb" using assms(6) by (simp add: unat_word_ariths)
  obtain q where q: "fread_loop M fp ptr (sz * nmemb) 0 p = Some (of_nat (length bs), q)" "inv (uworld q)"
    "stream (uworld q) = drop (length bs) (stream (uworld p))" "stored M in_window ptr 0 bs (uworld p) (uworld q)"
    "feof fp q \<longleftrightarrow> feof fp p \<or> length bs < unat sz * unat nmemb" "ferror fp q \<longleftrightarrow> ferror fp p"
    using fread_loop_ok [OF assms(1-3), of 0 "sz * nmemb" ptr bs] assms(7,8) by (auto simp: t)
  have "unat (of_nat (length bs) :: u32) = length bs" using assms(6,8) by (simp add: unat_of_nat)
  then have d: "of_nat (length bs) div sz = (of_nat (length bs div unat sz) :: u32)" by (simp only: word_arith_nat_div)
  have "fp \<noteq> NullFile" using assms(3) by auto
  moreover have "q = p" if "nmemb = 0" using q(1) that by (simp add: fread_loop.simps)
  ultimately have "fread M ptr sz nmemb fp p = Some (of_nat (length bs div unat sz), q)"
    using q(1) assms(4,5,8) d by (auto simp: fread_def Let_def)
  then show ?thesis using q(2-6) by blast
qed

text \<open>One character.\<close>

lemma fgetc_ok:
  assumes "inv (uworld p)" "f_fd (get_file fp p) = fd" "live_file fp p" "f_pushback (get_file fp p) = EOF" "in_window tmp"
  shows "stream (uworld p) = [] \<Longrightarrow> \<exists>q. fgetc M tmp fp p = Some (EOF, q) \<and> inv (uworld q) \<and> stream (uworld q) = [] \<and> feof fp q \<and>
      stored M in_window 0 0 [] (uworld p) (uworld q)"
    "stream (uworld p) = b # s \<Longrightarrow> \<exists>r w. fgetc M tmp fp p = Some (uint b, p\<lparr>uregs := r, uworld := w\<rparr>) \<and>
      inv w \<and> stream w = s \<and> stored M (\<lambda>va. in_window va \<and> va \<noteq> tmp) 0 0 [] (uworld p) w"
proof -
  have "fits tmp (unat 1)" using assms(5) by (simp add: fits_def in_window_def)
  then obtain k r w where r: "uread M fd tmp 1 p = Some (int k, p\<lparr>uregs := r, uworld := w\<rparr>)"
    "k \<le> 1" "k \<le> length (stream (uworld p))" "k = 0 \<longrightarrow> stream (uworld p) = []" "inv w" "stream w = drop k (stream (uworld p))"
    and mem: "stored M in_window tmp 0 (take k (stream (uworld p))) (uworld p) w"
    using read_bytes [OF assms(1), of 1 tmp] by auto
  have nz: "fp \<noteq> NullFile" using assms(3) by auto
  { assume "stream (uworld p) = []"
    moreover from this have "fgetc M tmp fp p = Some (EOF, mark fp FILE_EOF (p\<lparr>uregs := r, uworld := w\<rparr>))"
      using nz assms(2,4) r by (simp add: fgetc_def)
    ultimately show "\<exists>q. fgetc M tmp fp p = Some (EOF, q) \<and> inv (uworld q) \<and> stream (uworld q) = [] \<and> feof fp q \<and>
      stored M in_window 0 0 [] (uworld p) (uworld q)" using r(3,5,6) mem assms(3) by (auto simp: feof_mark) }
  { assume Cons: "stream (uworld p) = b # s"
    then have k: "k = 1" using r(2,4) by (cases k) auto
    then have mem: "\<forall>va. in_window va \<longrightarrow> ld8 M va w = (if unat (va - tmp) = 0 then b else ld8 M va (uworld p))"
      using mem Cons by (simp add: stored_def)
    then have "fgetc M tmp fp p = Some (uint b, p\<lparr>uregs := r, uworld := w\<rparr>)"
      using nz assms(2,4,5) r(1) k by (simp add: fgetc_def)
    moreover have "stored M (\<lambda>va. in_window va \<and> va \<noteq> tmp) 0 0 [] (uworld p) w"
      using mem by (auto simp: unat_eq_zero)
    ultimately show "\<exists>r w. fgetc M tmp fp p = Some (uint b, p\<lparr>uregs := r, uworld := w\<rparr>) \<and>
      inv w \<and> stream w = s \<and> stored M (\<lambda>va. in_window va \<and> va \<noteq> tmp) 0 0 [] (uworld p) w" using Cons r(5,6) k by auto }
qed

lemma fgets_loop_ok:
  assumes "inv (uworld p)" "f_fd (get_file fp p) = fd" "live_file fp p" "f_pushback (get_file fp p) = EOF" "in_window tmp"
    and "fits buf (i + n)" "ln = line_of n (stream (uworld p))"
  shows "\<exists>q. fgets_loop M tmp buf n i fp p = Some (i + length ln, q) \<and> inv (uworld q) \<and>
     stream (uworld q) = drop (length ln) (stream (uworld p)) \<and>
     stored M (\<lambda>va. in_window va \<and> va \<noteq> tmp) buf i ln (uworld p) (uworld q)"
  using assms
proof (induction n arbitrary: i p ln)
  case 0
  then show ?case by auto
next
  case (Suc n)
  let ?A = "\<lambda>va. in_window va \<and> va \<noteq> tmp"
  note g = fgetc_ok [OF Suc.prems(1-5)]
  show ?case
  proof (cases "stream (uworld p)")
    case Nil
    then show ?thesis using g(1) Suc.prems(7) by auto
  next
    case (Cons b s)
    then obtain r w where w: "fgetc M tmp fp p = Some (uint b, p\<lparr>uregs := r, uworld := w\<rparr>)" "inv w" "stream w = s"
      "stored M ?A 0 0 [] (uworld p) w"
      using g(2) by blast
    have win: "in_window (buf + of_nat i)" by (rule window_add [OF Suc.prems(6)]) simp
    let ?w = "st8 M (buf + of_nat i) b w"
    let ?p = "p\<lparr>uregs := r, uworld := ?w\<rparr>"
    have st: "inv ?w" "stream ?w = s" "stored M ?A (buf + of_nat i) 0 [b] w ?w"
      using store_byte [OF w(2) win, of b] w(3) by (auto intro: stored_mono)
    have "i + length [b] \<le> 2 ^ 31" using Suc.prems(6) by (simp add: fits_def)
    then have "stored M ?A buf i [b] w ?w" using st(3) by (simp only: stored_shift)
    then have one: "stored M ?A buf i [b] (uworld p) ?w"
      using stored_append [of M ?A buf i "[]" "uworld p" w "[b]" ?w] w(4) by simp
    have eof: "uint b \<noteq> EOF" using uint_ge_0 [of b] unfolding EOF_def by linarith
    show ?thesis
    proof (cases "b = 10")
      case True
      then show ?thesis using w(1) eof st one Cons Suc.prems(7) by (auto simp: Let_def)
    next
      case False
      then have "uint b \<noteq> 10" by (metis word_of_int_uint of_int_numeral)
      then have l: "fgets_loop M tmp buf (Suc n) i fp p = fgets_loop M tmp buf n (Suc i) fp ?p"
        using w(1) eof by (simp add: Let_def)
      obtain q where q: "fgets_loop M tmp buf n (Suc i) fp ?p = Some (Suc i + length (line_of n s), q)" "inv (uworld q)"
        "stream (uworld q) = drop (length (line_of n s)) s" "stored M ?A buf (Suc i) (line_of n s) ?w (uworld q)"
        using Suc.IH [of ?p "Suc i" "line_of n s"] Suc.prems(2-6) st(1,2) by auto
      have "stored M ?A buf i ([b] @ line_of n s) (uworld p) (uworld q)"
        by (rule stored_append [OF one]) (use q(4) in simp)
      then show ?thesis using l q(1-3) Cons False Suc.prems(7) by auto
    qed
  qed
qed

lemma fgets_ok:
  assumes "inv (uworld p)" "f_fd (get_file fp p) = fd" "live_file fp p" "f_pushback (get_file fp p) = EOF" "in_window tmp"
    and "0 < sz" "fits buf (nat sz)" "ln = line_of (nat (sz - 1)) (stream (uworld p))"
  shows "\<exists>q. fgets M tmp buf sz fp p = Some (if ln = [] then 0 else buf, q) \<and> inv (uworld q) \<and>
     stream (uworld q) = drop (length ln) (stream (uworld p)) \<and>
     stored M (\<lambda>va. in_window va \<and> va \<noteq> tmp) buf 0 (if ln = [] then [] else ln @ [0]) (uworld p) (uworld q)"
proof -
  let ?A = "\<lambda>va. in_window va \<and> va \<noteq> tmp"
  have "fits buf (0 + nat (sz - 1))" using assms(7) unfolding fits_def by linarith
  from fgets_loop_ok [OF assms(1-5) this assms(8)]
  obtain q where q: "fgets_loop M tmp buf (nat (sz - 1)) 0 fp p = Some (length ln, q)" "inv (uworld q)"
    "stream (uworld q) = drop (length ln) (stream (uworld p))" "stored M ?A buf 0 ln (uworld p) (uworld q)" by auto
  have nz: "fp \<noteq> NullFile" "buf \<noteq> 0" using assms(3,7) by (auto simp: fits_def)
  have "length ln < nat sz" using length_line_of [of "nat (sz - 1)" "stream (uworld p)"] assms(6,8) by simp
  then have win: "in_window (buf + of_nat (length ln))" "0 + length ln + length [0::u8] \<le> 2 ^ 31"
    using assms(7) window_add by (auto simp: fits_def)
  let ?w = "st8 M (buf + of_nat (length ln)) 0 (uworld q)"
  have st: "inv ?w" "stream ?w = stream (uworld q)" "stored M ?A (buf + of_nat (length ln)) 0 [0] (uworld q) ?w"
    using store_byte [OF q(2) win(1), of 0] by (auto intro: stored_mono)
  have "stored M ?A buf 0 (ln @ [0]) (uworld p) ?w"
    by (rule stored_append [OF q(4)]) (use st(3) win(2) in \<open>simp only: stored_shift add_0\<close>)
  then show ?thesis using q nz st assms(6) by (auto simp: fgets_def)
qed

text \<open>After a pushed-back byte the buffer is addressed twice too far: the byte next to it is not written,
  and the last byte read lands behind the buffer.\<close>

lemma fread_pushback_gap:
  assumes "inv (uworld p)" "f_fd (get_file fp p) = fd" "live_file fp p" "f_pushback (get_file fp p) \<noteq> EOF"
    and "1 < n" "fits ptr (Suc (unat n))" "unat n \<le> length (stream (uworld p))"
  shows "\<exists>q. fread M ptr 1 n fp p = Some (n, q) \<and> ld8 M (ptr + 1) (uworld q) = ld8 M (ptr + 1) (uworld p) \<and>
    ld8 M (ptr + n) (uworld q) = stream (uworld p) ! (unat n - 2)"
proof -
  let ?b = "of_int (f_pushback (get_file fp p)) :: u8"
  let ?p = "set_file fp (\<lambda>f. f\<lparr>f_pushback := EOF\<rparr>) (st_bytes M ptr [?b] p)"
  have n: "1 < unat n" "unat n \<le> 2 ^ 20" using assms(5,6) by (simp_all add: word_less_nat_alt fits_def)
  have win: "in_window ptr" "in_window (ptr + 1)" "in_window (ptr + n)"
    using window_add [OF assms(6), of 0] window_add [OF assms(6), of 1] window_add [OF assms(6), of "unat n"] n(1) by simp_all
  have w: "uworld ?p = st8 M ptr ?b (uworld p)" by simp
  have st: "inv (uworld ?p)" "stream (uworld ?p) = stream (uworld p)" "stored M in_window ptr 0 [?b] (uworld p) (uworld ?p)"
    using store_byte [OF assms(1) win(1), of ?b] unfolding w by simp_all
  have f: "f_fd (get_file fp ?p) = fd" "live_file fp ?p" using assms(2,3) by (cases fp; simp)+
  have fit: "fits (ptr + 1) (unat n)" using fits_add [OF assms(6), of 1 "unat n"] by simp
  let ?bs = "take (unat n - unat (1 :: u32)) (stream (uworld ?p))"
  obtain q where q: "fread_loop M fp (ptr + 1) n 1 ?p = Some (1 + of_nat (length ?bs), q)" "stored M in_window (ptr + 1) 1 ?bs (uworld ?p) (uworld q)"
    using fread_loop_ok [OF st(1) f _ fit refl, of 1] n by auto
  have l: "length ?bs = unat n - 1" using assms(7) st(2) by simp
  have "1 + of_nat (length ?bs) = n" unfolding l using n by (simp add: of_nat_diff)
  then have "fread M ptr 1 n fp p = Some (n, q)"
    using q(1) assms(3,4) n(1) by (auto simp: fread_def Let_def word_less_nat_alt)
  moreover have "ld8 M (ptr + 1) (uworld q) = ld8 M (ptr + 1) (uworld p)"
    using q(2) st(3) win(2) by (simp add: stored_def)
  moreover have "unat (ptr + n - (ptr + 1)) = unat n - 1"
    using n by (simp add: unat_sub word_le_nat_alt)
  then have "ld8 M (ptr + n) (uworld q) = stream (uworld p) ! (unat n - 2)"
    using q(2) win(3) l st(2) Suc_leI [OF n(1)] by (simp add: stored_def numeral_2_eq_2 le_diff_conv2)
  ultimately show ?thesis by blast
qed

end

subsection \<open>The console\<close>

text \<open>A write to the console of more than 256 bytes is refused as a whole; this is what \<open>fwrite\<close>, \<open>fputs\<close> and
  \<open>puts\<close> of a long text do, while \<open>printf\<close> passes at most 128 bytes at a time.\<close>

lemma console_write_limit:
  assumes "fd = 1 \<or> fd = 2" "validate_user_pointer buf len = E_OK" "256 < len"
  shows "\<exists>r. uwrite (vinix B Ops E rest) fd buf len p = Some (- 1, p\<lparr>uregs := r, errno := EINVAL\<rparr>)"
proof -
  let ?r = "set_r 2 0 (set_r 1 len (set_r 0 buf (set_r 7 0 (uregs p))))"
  have "svc_handler B Ops E ?r (uworld p) = ret (Done (set_r 0 (of_int E_ARG) ?r) (uworld p))"
    using assms(2,3) by (simp add: svc_handler_def sys_write_def finish_def set_r_def Let_def not_less)
  from syscall_done [OF _ this, where args = "[buf, len, 0]" and n = 0 and rest = rest]
  have "syscall (vinix B Ops E rest) 0 [buf, len, 0] p = Some (E_ARG, p\<lparr>uregs := set_r 0 (of_int E_ARG) ?r, uworld := uworld p\<rparr>)"
    by (simp add: enumerate_eq_zip upt_rec set_r_def numeral_2_eq_2)
  then show ?thesis
    using assms(1) posix_error [of "syscall (vinix B Ops E rest) 0 [buf, len, 0]" p]
    by (auto simp: uwrite_def usys_write_def set_errno_from_def fail_with_def)
qed

end
