(* ===== verification/Read_Path.thy ===== *)
theory Read_Path
  imports Ufile_Props Vfs_Props Fat32_Props
begin

section \<open>Reading a file, from the C library to the disk\<close>

text \<open>
  The layers meet here: \<open>read\<close> of the C library loads registers and executes \<open>svc\<close>, the handler checks the
  buffer and calls \<open>vfs_read\<close>, which calls \<open>fat32_read\<close>, which reads sectors through the buffer cache.
  \<open>file_open\<close> says of a kernel that a descriptor of the current task is open on a file of the FAT32
  volume with a given content; \<open>file_rest\<close> is the part of the content behind the offset of the
  descriptor.  The result is that such a descriptor keeps the contract \<open>byte_stream\<close>.
\<close>

lemma int_cast_small: "n < 2 ^ 31 \<Longrightarrow> int_cast n = int n"
  by (simp add: int_cast_def signed_of_nat signed_take_bit_int_eq_self)

lemma fat32_ops_read:
  assumes "fat32_read D i off len (fat s) = Some (Inr (n, bs, t))"
  obtains rd where "vo_read (fat32_ops D) = Some rd" "rd i off len s = ret (n, bs, s\<lparr>fat := t\<rparr>)"
  using assms by (auto simp: fat32_ops_def on_fat_def)

lemma current_fds_fat [simp]: "current_fds (s\<lparr>fat := t\<rparr>) = current_fds s"
  by (simp add: current_fds_def split: option.splits)

lemma advance_simps [simp]: "mount_table (advance fd n s) = mount_table s" "fat (advance fd n s) = fat s"
  by (simp_all add: advance_def)

lemma advance_fds:
  "current_fds (advance fd (int n) (s\<lparr>fat := t\<rparr>)) =
     (current_fds s)[nat fd := (current_fds s ! nat fd)\<lparr>fd_offset := fd_offset (current_fds s ! nat fd) + of_nat n\<rparr>]"
  by (auto simp: advance_def)

lemma current_table_advance [simp]: "current_table E (k\<lparr>ksys := advance fd n ((ksys k)\<lparr>fat := t\<rparr>)\<rparr>) = current_table E k"
  by (simp add: current_table_def advance_def set_fds_def task_table_def scheduler_current_task_def upd_task_def split: option.splits)

lemma user_mem_advance [simp]: "user_mem E (k\<lparr>ksys := advance fd n ((ksys k)\<lparr>fat := t\<rparr>)\<rparr>) = user_mem E k"
  by (rule ext) (simp add: user_mem_def split: option.splits)

subsection \<open>An open file\<close>

definition cur_fd :: "int \<Rightarrow> ('u, 'w, 's) kernel \<Rightarrow> vfs_fd" where
  "cur_fd fd k = current_fds (ksys k) ! nat fd"

definition file_content :: "('w \<Rightarrow> nat \<Rightarrow> u32 \<Rightarrow> u8 list) \<Rightarrow> nat \<Rightarrow> u32 list \<Rightarrow> 'w fat_state \<Rightarrow> u8 list" where
  "file_content sector i cs t = take (unat (ff_size (file_table t ! i))) (fdata (ffs t) (vol sector t) cs)"

definition file_on :: "('w \<Rightarrow> nat \<Rightarrow> u32 \<Rightarrow> u8 list) \<Rightarrow> nat \<Rightarrow> u32 list \<Rightarrow> 'w fat_state \<Rightarrow> bool" where
  "file_on sector i cs t \<longleftrightarrow> fat_inv sector t \<and> geom (ffs t) \<and> i < file_count t \<and> i < FAT32_MAX_FILES \<and>
     chain_from (ffs t) (vol sector t) (first_cluster (file_table t ! i)) cs \<and>
     unat (ff_size (file_table t ! i)) \<le> length cs * clus_bytes (ffs t)"

definition file_open :: "svc_env \<Rightarrow> ('w \<Rightarrow> nat \<Rightarrow> u32 \<Rightarrow> u8 list) \<Rightarrow> int \<Rightarrow> nat \<Rightarrow> u32 list \<Rightarrow> ('u, 'w, 's) kernel \<Rightarrow> bool" where
  "file_open E sector fd i cs k \<longleftrightarrow> file_on sector i cs (fat (ksys k)) \<and> (\<exists>base. maps_user (current_table E k) base) \<and>
     length (current_fds (ksys k)) = MAX_FDS \<and> 0 < fd \<and> fd < int MAX_FDS \<and>
     fd_in_use (cur_fd fd k) \<and> fd_ops (cur_fd fd k) = Some 0 \<and> fd_file_index (cur_fd fd k) = of_nat i"

definition file_rest :: "('w \<Rightarrow> nat \<Rightarrow> u32 \<Rightarrow> u8 list) \<Rightarrow> int \<Rightarrow> nat \<Rightarrow> u32 list \<Rightarrow> ('u, 'w, 's) kernel \<Rightarrow> u8 list" where
  "file_rest sector fd i cs k = drop (unat (fd_offset (cur_fd fd k))) (file_content sector i cs (fat (ksys k)))"

lemma file_on_io:
  assumes "file_on sector i cs t" "fat_inv sector t'" "io_only t t'" "vol sector t' = vol sector t"
  shows "file_on sector i cs t'" "file_content sector i cs t' = file_content sector i cs t"
  using assms io_onlyD [OF assms(3)] by (simp_all add: file_on_def file_content_def)

lemma length_file_content: "length (file_content sector i cs t) < 2 ^ 32"
proof -
  have "length (file_content sector i cs t) \<le> unat (ff_size (file_table t ! i))" by (simp add: file_content_def)
  also have "\<dots> < 2 ^ 32" using unsigned_less [of "ff_size (file_table t ! i)"] by simp
  finally show ?thesis .
qed

text \<open>\<open>vfs_read\<close> on such a descriptor.\<close>

lemma vfs_read_file:
  assumes "reliable_device D sector" "file_open E sector fd i cs k" "unat len < 2 ^ 31"
    and "bs = take (unat len) (file_rest sector fd i cs k)"
  obtains t where "vfs_read (vinix_ops B D sizes) fd len (ksys k) = ret (int (length bs), bs, advance fd (int (length bs)) ((ksys k)\<lparr>fat := t\<rparr>))"
    "fat_inv sector t" "io_only (fat (ksys k)) t" "vol sector t = vol sector (fat (ksys k))"
proof -
  let ?s = "ksys k" and ?e = "cur_fd fd k"
  have on: "fat_inv sector (fat ?s)" "geom (ffs (fat ?s))" "i < file_count (fat ?s)" "i < FAT32_MAX_FILES"
    "chain_from (ffs (fat ?s)) (vol sector (fat ?s)) (first_cluster (file_table (fat ?s) ! i)) cs"
    "unat (ff_size (file_table (fat ?s) ! i)) \<le> length cs * clus_bytes (ffs (fat ?s))"
    and e: "length (current_fds ?s) = MAX_FDS" "0 < fd" "fd < int MAX_FDS" "fd_in_use ?e" "fd_ops ?e = Some 0" "fd_file_index ?e = of_nat i"
    using assms(2) by (auto simp: file_open_def file_on_def)
  obtain t where r: "fat32_read D (int i) (fd_offset ?e) len (fat ?s) = Some (Inr (int_cast (length bs), bs, t))"
    "fat_inv sector t" "io_only (fat ?s) t" "vol sector t = vol sector (fat ?s)"
    using fat32_read_slice [OF assms(1) on(1-3,5,6), of "fd_offset ?e" len] assms(4)
    by (auto simp: Let_def file_rest_def file_content_def)
  have n: "int_cast (length bs) = int (length bs)" using assms(3,4) by (intro int_cast_small) simp
  have i: "sint (fd_file_index ?e) = int i"
    using int_cast_small [of i] e(6) on(4) by (simp add: int_cast_def FAT32_MAX_FILES_def)
  have good: "\<not> bad_fd fd ?s" using e by (simp add: bad_fd_def cur_fd_def)
  obtain rd where rd: "vo_read (fat32_ops D) = Some rd" "rd (int i) (fd_offset ?e) len ?s = ret (int_cast (length bs), bs, ?s\<lparr>fat := t\<rparr>)"
    using fat32_ops_read [OF r(1)] by blast
  have "vfs_read (vinix_ops B D sizes) fd len ?s = ret (int (length bs), bs, advance fd (int (length bs)) (?s\<lparr>fat := t\<rparr>))"
    using good e(5) rd i n by (simp add: vfs_read_def vinix_ops_def Let_def cur_fd_def)
  then show ?thesis using r(2-4) that by blast
qed

text \<open>A validated store of bytes, seen through the page table.\<close>

lemma finish_store:
  assumes "maps_user (current_table E k) base" "validate_user_pointer buf len = E_OK" "length bs \<le> unat len"
  obtains k' where "finish_writes E r [(buf, bs)] ctx k = ret (Done (set_r 0 (of_int r) ctx) k')"
    "ksys k' = ksys k" "current_table E k' = current_table E k"
    "\<forall>va. in_window va \<longrightarrow> user_mem E k' va = ustore buf bs (user_mem E k) va"
proof
  let ?k = "put_user_mem E (ustore buf bs (user_mem E k)) k"
  show "finish_writes E r [(buf, bs)] ctx k = ret (Done (set_r 0 (of_int r) ctx) ?k)"
    using assms(2,3) by (simp add: finish_writes_def finish_def user_write_def validate_iff fbind_def)
  show "ksys ?k = ksys k" "current_table E ?k = current_table E k" by simp_all
  show "\<forall>va. in_window va \<longrightarrow> user_mem E ?k va = ustore buf bs (user_mem E k) va"
    using user_mem_put [OF assms(1)] by (simp add: in_window_def)
qed

text \<open>The descriptor after a read.\<close>

lemma file_open_advance:
  assumes "file_open E sector fd i cs k" "fat_inv sector t" "io_only (fat (ksys k)) t" "vol sector t = vol sector (fat (ksys k))"
    and "ksys k' = advance fd (int n) ((ksys k)\<lparr>fat := t\<rparr>)" "current_table E k' = current_table E k" "n \<le> length (file_rest sector fd i cs k)"
  shows "file_open E sector fd i cs k'" "file_rest sector fd i cs k' = drop n (file_rest sector fd i cs k)"
proof -
  let ?e = "cur_fd fd k" and ?c = "file_content sector i cs (fat (ksys k))"
  have on: "file_on sector i cs (fat (ksys k'))" "file_content sector i cs (fat (ksys k')) = ?c"
    using file_on_io [OF _ assms(2-4)] assms(1,5) by (auto simp: file_open_def)
  have lt: "nat fd < length (current_fds (ksys k))" using assms(1) by (auto simp: file_open_def nat_less_iff)
  then have e: "cur_fd fd k' = ?e\<lparr>fd_offset := fd_offset ?e + of_nat n\<rparr>" "length (current_fds (ksys k')) = length (current_fds (ksys k))"
    unfolding cur_fd_def assms(5) advance_fds by simp_all
  show "file_open E sector fd i cs k'" using assms(1,6) on(1) e by (simp add: file_open_def)
  show "file_rest sector fd i cs k' = drop n (file_rest sector fd i cs k)"
  proof (cases "n = 0")
    case True
    then show ?thesis using on(2) e(1) by (simp add: file_rest_def)
  next
    case False
    then have "unat (fd_offset ?e) + n < 2 ^ 32"
      using assms(7) length_file_content [of sector i cs "fat (ksys k)"] by (simp add: file_rest_def)
    then have "unat (fd_offset ?e + of_nat n) = n + unat (fd_offset ?e)" by (simp add: unat_word_ariths unat_of_nat)
    then show ?thesis using on(2) e(1) by (simp add: file_rest_def)
  qed
qed

subsection \<open>The system call\<close>

lemma svc_read_file:
  assumes "reliable_device D sector" "file_open E sector fd i cs k" "fits buf (unat len)"
    and "sv_r ctx 7 = 7" "sv_r ctx 0 = of_int fd" "sv_r ctx 1 = buf" "sv_r ctx 2 = len"
    and "bs = take (unat len) (file_rest sector fd i cs k)"
  shows "\<exists>k'. svc_handler B (vinix_ops B D sizes) E ctx k = ret (Done (set_r 0 (of_nat (length bs)) ctx) k') \<and>
    file_open E sector fd i cs k' \<and> file_rest sector fd i cs k' = drop (length bs) (file_rest sector fd i cs k) \<and>
    (\<forall>va. in_window va \<longrightarrow> user_mem E k' va = ustore buf bs (user_mem E k) va) \<and>
    vol sector (fat (ksys k')) = vol sector (fat (ksys k))"
proof -
  let ?n = "int (length bs)"
  have v: "validate_user_pointer buf len = E_OK" using assms(3) by (simp add: fits_validate)
  have len: "unat len < 2 ^ 31" using assms(3) by (simp add: fits_def)
  have fd: "sint (of_int fd :: u32) = fd"
    using assms(2) by (simp add: file_open_def MAX_FDS_def signed_of_int signed_take_bit_int_eq_self)
  obtain t where r: "vfs_read (vinix_ops B D sizes) fd len (ksys k) = ret (?n, bs, advance fd ?n ((ksys k)\<lparr>fat := t\<rparr>))"
    "fat_inv sector t" "io_only (fat (ksys k)) t" "vol sector t = vol sector (fat (ksys k))"
    by (rule vfs_read_file [OF assms(1,2) len assms(8)])
  obtain base where base: "maps_user (current_table E k) base" using assms(2) by (auto simp: file_open_def)
  let ?k = "k\<lparr>ksys := advance fd ?n ((ksys k)\<lparr>fat := t\<rparr>)\<rparr>"
  have mk: "maps_user (current_table E ?k) base" "length bs \<le> unat len" using base assms(8) by simp_all
  obtain k' where k': "finish_writes E ?n [(buf, bs)] ctx ?k = ret (Done (set_r 0 (of_int ?n) ctx) k')"
    "ksys k' = ksys ?k" "current_table E k' = current_table E ?k"
    "\<forall>va. in_window va \<longrightarrow> user_mem E k' va = ustore buf bs (user_mem E ?k) va"
    by (rule finish_store [OF mk(1) v mk(2), of ?n ctx])
  have "svc_handler B (vinix_ops B D sizes) E ctx k = ret (Done (set_r 0 (of_nat (length bs)) ctx) k')"
    using assms(4-7) v r(1) k'(1) fd by (simp add: svc_handler_def sys_read_file_def Let_def)
  moreover have "file_open E sector fd i cs k'" "file_rest sector fd i cs k' = drop (length bs) (file_rest sector fd i cs k)"
    using file_open_advance [OF assms(2) r(2-4), of k' "length bs"] k'(2,3) assms(8) by auto
  moreover have "\<forall>va. in_window va \<longrightarrow> user_mem E k' va = ustore buf bs (user_mem E k) va"
    using k'(4) by simp
  ultimately show ?thesis using r(4) k'(2) by simp
qed

subsection \<open>The descriptor as a byte stream\<close>

lemma stored_ustore:
  assumes "\<forall>va. in_window va \<longrightarrow> user_mem E k' va = ustore buf bs (user_mem E k) va"
  shows "stored (vinix B Ops E rest) in_window buf 0 bs k k'"
  using assms by (simp add: stored_def vinix_def ustore_def Let_def)

lemma uread_file:
  assumes "reliable_device D sector" "file_open E sector fd i cs (uworld p)" "fits buf (unat len)"
    and "bs = take (unat len) (file_rest sector fd i cs (uworld p))"
  shows "\<exists>r k'. uread (vinix B (vinix_ops B D sizes) E rest) fd buf len p = Some (int (length bs), p\<lparr>uregs := r, uworld := k'\<rparr>) \<and>
    file_open E sector fd i cs k' \<and> file_rest sector fd i cs k' = drop (length bs) (file_rest sector fd i cs (uworld p)) \<and>
    stored (vinix B (vinix_ops B D sizes) E rest) in_window buf 0 bs (uworld p) k' \<and>
    vol sector (fat (ksys k')) = vol sector (fat (ksys (uworld p)))"
proof -
  let ?ctx = "set_r 2 len (set_r 1 buf (set_r 0 (of_int fd) (set_r 7 7 (uregs p))))"
  have "sv_r ?ctx 7 = 7" "sv_r ?ctx 0 = of_int fd" "sv_r ?ctx 1 = buf" "sv_r ?ctx 2 = len" by (simp_all add: set_r_def)
  from svc_read_file [OF assms(1-3) this assms(4)]
  obtain k' where k': "svc_handler B (vinix_ops B D sizes) E ?ctx (uworld p) = ret (Done (set_r 0 (of_nat (length bs)) ?ctx) k')"
    "file_open E sector fd i cs k'" "file_rest sector fd i cs k' = drop (length bs) (file_rest sector fd i cs (uworld p))"
    "\<forall>va. in_window va \<longrightarrow> user_mem E k' va = ustore buf bs (user_mem E (uworld p)) va"
    "vol sector (fat (ksys k')) = vol sector (fat (ksys (uworld p)))" by blast
  have n: "sint (of_nat (length bs) :: u32) = int (length bs)"
    using assms(3,4) by (intro sint_of_nat_small) (auto simp: fits_def)
  have "syscall (vinix B (vinix_ops B D sizes) E rest) 7 [of_int fd, buf, len] p =
      Some (int (length bs), p\<lparr>uregs := set_r 0 (of_nat (length bs)) ?ctx, uworld := k'\<rparr>)" (is "_ = Some (_, ?q)")
    using syscall_done [OF _ k'(1), where args = "[of_int fd, buf, len]" and n = 7 and rest = rest] n
    by (simp add: enumerate_eq_zip upt_rec set_r_def numeral_2_eq_2)
  moreover have "fd \<noteq> 0" using assms(2) by (simp add: file_open_def)
  ultimately have "uread (vinix B (vinix_ops B D sizes) E rest) fd buf len p = Some (int (length bs), ?q)"
    using posix_ok [of "syscall (vinix B (vinix_ops B D sizes) E rest) 7 [of_int fd, buf, len]" p] by (simp add: uread_def usys_read_file_def)
  then show ?thesis using k'(2,3,5) stored_ustore [OF k'(4)] by blast
qed

text \<open>A store of user code.\<close>

lemma file_open_store:
  assumes "file_open E sector fd i cs k" "in_window a"
  shows "file_open E sector fd i cs (st8 (vinix B Ops E rest) a b k) \<and> file_rest sector fd i cs (st8 (vinix B Ops E rest) a b k) = file_rest sector fd i cs k \<and>
    stored (vinix B Ops E rest) in_window a 0 [b] k (st8 (vinix B Ops E rest) a b k) \<and>
    fat (ksys (st8 (vinix B Ops E rest) a b k)) = fat (ksys k)"
proof -
  obtain base where "maps_user (current_table E k) base" using assms(1) by (auto simp: file_open_def)
  from user_mem_put [OF this]
  have "\<forall>va. in_window va \<longrightarrow> user_mem E (put_user_mem E (ustore a [b] (user_mem E k)) k) va = ustore a [b] (user_mem E k) va"
    by (simp add: in_window_def)
  then show ?thesis using stored_ustore assms by (simp add: vinix_def file_open_def file_rest_def cur_fd_def)
qed

text \<open>The invariant of the stream holds the volume \<open>V\<close>: reading changes no sector of it.\<close>

interpretation fat_file: byte_stream "vinix B (vinix_ops B D sizes) E rest" fd
    "\<lambda>k. reliable_device D sector \<and> file_open E sector fd i cs k \<and> vol sector (fat (ksys k)) = V" "file_rest sector fd i cs"
  for B D sizes E rest fd sector i cs V
proof (unfold_locales, goal_cases)
  case (1 p n buf)
  let ?s = "file_rest sector fd i cs (uworld p)"
  let ?bs = "take (unat n) ?s"
  have "take (length ?bs) ?s = ?bs" by (simp add: min_def)
  moreover obtain r k' where "uread (vinix B (vinix_ops B D sizes) E rest) fd buf n p = Some (int (length ?bs), p\<lparr>uregs := r, uworld := k'\<rparr>)"
    "file_open E sector fd i cs k'" "file_rest sector fd i cs k' = drop (length ?bs) ?s"
    "stored (vinix B (vinix_ops B D sizes) E rest) in_window buf 0 ?bs (uworld p) k'" "vol sector (fat (ksys k')) = V"
    using uread_file [of D sector E fd i cs p buf n ?bs B sizes rest] 1 by auto
  ultimately show ?case using 1
    by (intro exI [of _ "length ?bs"] exI [of _ r] exI [of _ k']) (auto simp: word_less_nat_alt)
next
  case (2 k a b)
  then show ?case using file_open_store by metis
qed

end
