(* ===== verification/Umalloc.thy ===== *)
theory Umalloc
  imports Vx_Base
begin

section \<open>The user-space allocator (\<open>userspace/vinixlibc/src/stdlib.c\<close>)\<close>

text \<open>
  \<open>malloc\<close>, \<open>free\<close>, \<open>calloc\<close> and \<open>realloc\<close> over a fixed pool of 8192 units of 8 bytes.  A header sits
  in the first unit of its block, so a header pointer is the index of that unit, and the pointer the
  caller gets is the index of the next one; \<open>NULL\<close> is \<open>None\<close>.  The headers and the bytes of the blocks
  are two components of the state: a store that would leave the bytes of its block is the fault
  \<open>OutOfBounds\<close>.

  The free list is a ring in the order of addresses.  A walk along a damaged ring need not end, so the
  two loops are option-valued; the theorems show that they end on a well-formed heap.
\<close>

subsection \<open>The code\<close>

definition POOL_UNITS :: nat where [vx_consts]: "POOL_UNITS = 8192"

record uheap =
  hsize :: "nat \<Rightarrow> u32"
  hnext :: "nat \<Rightarrow> nat"
  ufree_list :: nat
  uinitialized :: bool
  ubytes :: "nat \<Rightarrow> u8"

definition pool_init :: "uheap \<Rightarrow> uheap" where
  "pool_init s = s\<lparr>hsize := (hsize s)(0 := of_nat POOL_UNITS), hnext := (hnext s)(0 := 0), ufree_list := 0, uinitialized := True\<rparr>"

definition units_for :: "u32 \<Rightarrow> u32" where
  "units_for nbytes = (nbytes + 8 - 1) div 8 + 1"

definition take_block :: "u32 \<Rightarrow> nat \<Rightarrow> nat \<Rightarrow> uheap \<Rightarrow> nat \<times> uheap" where
  "take_block need prev p s =
     (if hsize s p = need then (p, s\<lparr>hnext := (hnext s)(prev := hnext s p), ufree_list := prev\<rparr>)
      else let s1 = s\<lparr>hsize := (hsize s)(p := hsize s p - need)\<rparr>;
               q = p + unat (hsize s1 p) in
           (q, s1\<lparr>hsize := (hsize s1)(q := need), ufree_list := prev\<rparr>))"

partial_function (option) malloc_loop :: "u32 \<Rightarrow> nat \<Rightarrow> nat \<Rightarrow> uheap \<Rightarrow> (nat option \<times> uheap) option" where
  "malloc_loop need prev p s =
     (if hsize s p \<ge> need then (case take_block need prev p s of (q, s') \<Rightarrow> Some (Some (q + 1), s'))
      else if p = ufree_list s then Some (None, s)
      else malloc_loop need p (hnext s p) s)"

definition malloc :: "u32 \<Rightarrow> uheap \<Rightarrow> (nat option \<times> uheap) option" where
  "malloc nbytes s =
     (if nbytes = 0 then Some (None, s)
      else let s = (if uinitialized s then s else pool_init s); prev = ufree_list s in
           malloc_loop (units_for nbytes) prev (hnext s prev) s)"

text \<open>The insertion point for the block \<open>bp\<close>.\<close>

definition fits_after :: "nat \<Rightarrow> nat \<Rightarrow> uheap \<Rightarrow> bool" where
  "fits_after bp p s \<longleftrightarrow> (bp > p \<and> bp < hnext s p) \<or> (p \<ge> hnext s p \<and> (bp > p \<or> bp < hnext s p))"

partial_function (option) free_loop :: "nat \<Rightarrow> nat \<Rightarrow> uheap \<Rightarrow> nat option" where
  "free_loop bp p s = (if fits_after bp p s then Some p else free_loop bp (hnext s p) s)"

definition join_next :: "nat \<Rightarrow> nat \<Rightarrow> uheap \<Rightarrow> uheap" where
  "join_next bp p s =
     (if bp + unat (hsize s bp) = hnext s p
      then s\<lparr>hsize := (hsize s)(bp := hsize s bp + hsize s (hnext s p)), hnext := (hnext s)(bp := hnext s (hnext s p))\<rparr>
      else s\<lparr>hnext := (hnext s)(bp := hnext s p)\<rparr>)"

definition join_prev :: "nat \<Rightarrow> nat \<Rightarrow> uheap \<Rightarrow> uheap" where
  "join_prev bp p s =
     (if p + unat (hsize s p) = bp
      then s\<lparr>hsize := (hsize s)(p := hsize s p + hsize s bp), hnext := (hnext s)(p := hnext s bp)\<rparr>
      else s\<lparr>hnext := (hnext s)(p := bp)\<rparr>)"

definition free :: "nat option \<Rightarrow> uheap \<Rightarrow> (fault + uheap) option" where
  "free ptr s = (case ptr of
     None \<Rightarrow> Some (Inr s)
   | Some q \<Rightarrow>
       if \<not> uinitialized s then Some (Inl OutOfBounds)
       else let bp = q - 1 in
         (case free_loop bp (ufree_list s) s of
            None \<Rightarrow> None
          | Some p \<Rightarrow> Some (Inr ((join_prev bp p (join_next bp p s))\<lparr>ufree_list := p\<rparr>))))"

text \<open>The bytes of the block behind a pointer.\<close>

definition block_bytes :: "nat \<Rightarrow> uheap \<Rightarrow> u32" where
  "block_bytes q s = (hsize s (q - 1) - 1) * 8"

definition put_bytes :: "nat \<Rightarrow> u8 list \<Rightarrow> uheap \<Rightarrow> fault + uheap" where
  "put_bytes q bs s =
     (if length bs \<le> unat (block_bytes q s)
      then Inr (s\<lparr>ubytes := (\<lambda>i. if 8 * q \<le> i \<and> i < 8 * q + length bs then bs ! (i - 8 * q) else ubytes s i)\<rparr>)
      else Inl OutOfBounds)"

definition get_bytes :: "nat \<Rightarrow> nat \<Rightarrow> uheap \<Rightarrow> u8 list" where
  "get_bytes q n s = map (\<lambda>i. ubytes s (8 * q + i)) [0..<n]"

definition calloc :: "u32 \<Rightarrow> u32 \<Rightarrow> uheap \<Rightarrow> (fault + nat option \<times> uheap) option" where
  "calloc nmemb sz s =
     (let total_bytes = nmemb * sz in
      case malloc total_bytes s of
        None \<Rightarrow> None
      | Some (None, s1) \<Rightarrow> Some (Inr (None, s1))
      | Some (Some q, s1) \<Rightarrow> Some (fbind (put_bytes q (replicate (unat total_bytes) 0) s1) (\<lambda>s2. Inr (Some q, s2))))"

definition realloc :: "nat option \<Rightarrow> u32 \<Rightarrow> uheap \<Rightarrow> (fault + nat option \<times> uheap) option" where
  "realloc ptr sz s = (case ptr of
     None \<Rightarrow> map_option Inr (malloc sz s)
   | Some q \<Rightarrow>
       if sz = 0 then map_option (map_sum id (\<lambda>s. (None, s))) (free ptr s)
       else let old_bytes = block_bytes q s in
         (case malloc sz s of
            None \<Rightarrow> None
          | Some (None, s1) \<Rightarrow> Some (Inr (None, s1))
          | Some (Some n, s1) \<Rightarrow>
              (case put_bytes n (get_bytes q (unat (if sz < old_bytes then sz else old_bytes)) s1) s1 of
                 Inl e \<Rightarrow> Some (Inl e)
               | Inr s2 \<Rightarrow> map_option (map_sum id (\<lambda>s. (Some n, s))) (free ptr s2))))"

subsection \<open>Walks along a ring\<close>

text \<open>\<open>ring_next F p q\<close>: in the cyclic order of addresses, \<open>q\<close> follows \<open>p\<close> in \<open>F\<close>.\<close>

definition ring_next :: "nat set \<Rightarrow> nat \<Rightarrow> nat \<Rightarrow> bool" where
  "ring_next F p q \<longleftrightarrow> q \<in> F \<and> ((p < q \<and> (\<forall>r \<in> F. \<not> (p < r \<and> r < q))) \<or> (\<forall>r \<in> F. r \<le> p \<and> q \<le> r))"

primrec ring_walk :: "(nat \<Rightarrow> nat) \<Rightarrow> nat \<Rightarrow> nat list \<Rightarrow> bool" where
  "ring_walk nx a [] \<longleftrightarrow> True"
| "ring_walk nx a (x # xs) \<longleftrightarrow> x = nx a \<and> ring_walk nx x xs"

lemma ring_walk_append: "ring_walk nx a (xs @ ys) \<longleftrightarrow> ring_walk nx a xs \<and> ring_walk nx (last (a # xs)) ys"
  by (induction xs arbitrary: a) auto

lemma ring_walk_sorted:
  assumes "\<And>p. p \<in> F \<Longrightarrow> ring_next F p (nx p)" "a \<in> F" "sorted_wrt (<) xs" "set xs = {q \<in> F. a < q \<and> q \<le> m}"
  shows "ring_walk nx a xs"
  using assms(2-4)
proof (induction xs arbitrary: a)
  case (Cons x xs)
  have x: "x \<in> F" "a < x" "x \<le> m" using Cons.prems(3) by auto
  have n: "ring_next F a (nx a)" using assms(1) Cons.prems(1) by blast
  then have "a < nx a" "nx a \<in> F" "\<not> x < nx a" using x by (force simp: ring_next_def)+
  moreover have "\<not> nx a < x"
  proof
    assume lt: "nx a < x"
    then have "nx a \<in> set (x # xs)" using calculation x Cons.prems(3) by auto
    then show False using lt Cons.prems(2) by auto
  qed
  ultimately have e: "x = nx a" by simp
  have "set xs = {q \<in> F. x < q \<and> q \<le> m}"
  proof (rule set_eqI)
    fix q
    have "q \<in> set (x # xs) \<longleftrightarrow> q \<in> F \<and> a < q \<and> q \<le> m" unfolding Cons.prems(3) by simp
    moreover have "q \<in> set xs \<Longrightarrow> x < q" using Cons.prems(2) by auto
    ultimately show "q \<in> set xs \<longleftrightarrow> q \<in> {q \<in> F. x < q \<and> q \<le> m}" using x by auto
  qed
  then show ?case using Cons.IH [OF x(1)] Cons.prems(2) e by simp
qed simp

lemma ring_walk_exists:
  assumes nx: "\<And>p. p \<in> F \<Longrightarrow> ring_next F p (nx p)" and F: "finite F" "a \<in> F"
  obtains xs where "ring_walk nx a xs" "xs \<noteq> []" "last xs = a" "distinct xs" "set xs = F"
proof -
  define us where "us = sorted_list_of_set {q \<in> F. a < q}"
  define v where "v = Min F"
  define ws where "ws = sorted_list_of_set {q \<in> F. v < q \<and> q \<le> a}"
  have us: "sorted_wrt (<) us" "set us = {q \<in> F. a < q}" and ws: "sorted_wrt (<) ws" "set ws = {q \<in> F. v < q \<and> q \<le> a}"
    using F(1) by (simp_all add: us_def ws_def)
  have v: "v \<in> F" "\<And>r. r \<in> F \<Longrightarrow> v \<le> r" using F Min_in [of F] by (unfold v_def, blast, simp)
  have m: "r \<le> last (a # us)" if "r \<in> F" for r
  proof (cases "us = []")
    case True
    then show ?thesis using us(2) that by fastforce
  next
    case False
    have "r \<in> set us \<Longrightarrow> r \<le> last us" using us(1) False
      by (induction us) (auto dest: order.strict_implies_order split: if_splits)
    moreover have "a < last us" using us(2) last_in_set [OF False] by simp
    ultimately show ?thesis using us(2) that False by (cases "a < r") auto
  qed
  have l: "last (a # us) \<in> F" using us(2) F(2) by (cases "us = []") (auto dest: last_in_set)
  have "set us = {q \<in> F. a < q \<and> q \<le> Max F}" unfolding us(2) using Max_ge [OF F(1)] by blast
  then have w1: "ring_walk nx a us" using ring_walk_sorted [OF nx F(2) us(1)] by simp
  have "nx (last (a # us)) = v"
    using nx [OF l] m v unfolding ring_next_def by (meson leD le_antisym)
  moreover have "ring_walk nx v ws" using ring_walk_sorted [OF nx v(1) ws(1)] ws(2) by simp
  ultimately have walk: "ring_walk nx a (us @ v # ws)" using w1 by (simp add: ring_walk_append)
  have a_last: "last (v # ws) = a"
  proof (cases "v = a")
    case True
    then have "set ws = {}" unfolding ws(2) by auto
    then show ?thesis using True by simp
  next
    case False
    then have "a \<in> set ws" using ws(2) F(2) v(2) [OF F(2)] by simp
    moreover have "r \<in> set ws \<Longrightarrow> r \<le> last ws" for r using ws(1)
      by (induction ws) (auto dest: order.strict_implies_order)
    moreover have "last ws \<le> a" using calculation(1) ws(2) last_in_set [of ws] by fastforce
    ultimately show ?thesis by fastforce
  qed
  show ?thesis
  proof (rule that [OF walk])
    show "last (us @ v # ws) = a" using a_last by simp
    have "distinct us" "distinct ws" using us(1) ws(1) by (simp_all add: us_def ws_def)
    then show "distinct (us @ v # ws)" using us(2) ws(2) v(2) [OF F(2)] by auto
    show "set (us @ v # ws) = F"
    proof (rule set_eqI)
      fix q
      show "q \<in> set (us @ v # ws) \<longleftrightarrow> q \<in> F"
        using v(1) v(2) [of q] by (cases "a < q") (auto simp: us(2) ws(2) le_less)
    qed
  qed simp
qed

text \<open>The two loops take the first element of the walk that fits.\<close>

lemma malloc_loop_walk:
  assumes "ring_walk (hnext s) prev xs" "xs \<noteq> []" "last xs = ufree_list s" "distinct xs"
  shows "(\<forall>x \<in> set xs. hsize s x < need) \<Longrightarrow> malloc_loop need prev (hd xs) s = Some (None, s)"
    and "x \<in> set xs \<Longrightarrow> need \<le> hsize s x \<Longrightarrow> \<exists>pv q. (pv = prev \<or> pv \<in> set xs) \<and> q \<in> set xs \<and> hnext s pv = q \<and> need \<le> hsize s q \<and>
       malloc_loop need prev (hd xs) s = (case take_block need pv q s of (b, s') \<Rightarrow> Some (Some (b + 1), s'))"
  using assms
proof (induction xs arbitrary: prev)
  case (Cons y ys)
  { case 1
    show ?case
    proof (cases "ys = []")
      case True
      then show ?thesis using 1(1,4) by (subst malloc_loop.simps) (auto simp: not_le)
    next
      case False
      have "y \<noteq> ufree_list s" using 1(4,5) False last_in_set [OF False] by auto
      then have "malloc_loop need prev y s = malloc_loop need y (hd ys) s"
        using 1(1,2) False by (subst malloc_loop.simps) (cases ys, auto simp: not_le)
      then show ?thesis using Cons.IH(1) [of y] 1 False by auto
    qed
  next
    case 2
    show ?case
    proof (cases "need \<le> hsize s y")
      case True
      then have "malloc_loop need prev y s = (case take_block need prev y s of (b, s') \<Rightarrow> Some (Some (b + 1), s'))"
        by (subst malloc_loop.simps) simp
      then show ?thesis using True 2(3) by auto
    next
      case False
      then have x: "x \<in> set ys" using 2(1,2) by auto
      then have ne: "ys \<noteq> []" by auto
      have "y \<noteq> ufree_list s" using 2(5,6) ne last_in_set [OF ne] by auto
      then have l: "malloc_loop need prev y s = malloc_loop need y (hd ys) s"
        using False 2(3) ne by (subst malloc_loop.simps) (cases ys, auto)
      have "\<exists>pv q. (pv = y \<or> pv \<in> set ys) \<and> q \<in> set ys \<and> hnext s pv = q \<and> need \<le> hsize s q \<and>
         malloc_loop need y (hd ys) s = (case take_block need pv q s of (b, s') \<Rightarrow> Some (Some (b + 1), s'))"
        using Cons.IH(2) [OF x 2(2), of y] 2(3,5,6) ne by auto
      then show ?thesis unfolding list.sel l by auto
    qed }
qed auto

lemma free_loop_walk:
  assumes "ring_walk (hnext s) a xs" "\<exists>x \<in> insert a (set xs). fits_after bp x s"
  shows "\<exists>p \<in> insert a (set xs). fits_after bp p s \<and> free_loop bp a s = Some p"
  using assms
proof (induction xs arbitrary: a)
  case Nil
  then show ?case by (subst free_loop.simps) auto
next
  case (Cons y ys)
  show ?case
  proof (cases "fits_after bp a s")
    case True
    then show ?thesis by (subst free_loop.simps) auto
  next
    case False
    then have "free_loop bp a s = free_loop bp y s" using Cons.prems(1) by (subst free_loop.simps) simp
    moreover have "\<exists>p \<in> insert y (set ys). fits_after bp p s \<and> free_loop bp y s = Some p"
      using Cons.IH [of y] Cons.prems False by auto
    ultimately show ?thesis by auto
  qed
qed

subsection \<open>The invariant\<close>

text \<open>The free blocks \<open>F\<close>, linked as a ring in the order of addresses, and the live blocks \<open>L\<close> tile the
  pool, and no two free blocks touch.\<close>

definition uend :: "uheap \<Rightarrow> nat \<Rightarrow> nat" where
  "uend s p = p + unat (hsize s p)"

definition tiles :: "nat set \<Rightarrow> uheap \<Rightarrow> bool" where
  "tiles B s \<longleftrightarrow> (\<forall>p \<in> B. p < uend s p \<and> uend s p \<le> POOL_UNITS) \<and> (\<forall>p \<in> B. \<forall>q \<in> B. p < q \<longrightarrow> uend s p \<le> q) \<and>
     (\<forall>u < POOL_UNITS. \<exists>p \<in> B. p \<le> u \<and> u < uend s p)"

definition heap_inv :: "nat set \<Rightarrow> nat set \<Rightarrow> uheap \<Rightarrow> bool" where
  "heap_inv F L s \<longleftrightarrow> uinitialized s \<and> ufree_list s \<in> F \<and> F \<inter> L = {} \<and> (\<forall>p \<in> F. ring_next F p (hnext s p)) \<and>
     tiles (F \<union> L) s \<and> (\<forall>p \<in> F. \<forall>q \<in> F. uend s p \<noteq> q)"

lemma tiles_finite: "tiles B s \<Longrightarrow> finite B"
proof -
  assume "tiles B s"
  then have "B \<subseteq> {..<POOL_UNITS}" by (force simp: tiles_def)
  then show ?thesis by (rule finite_subset) simp
qed

lemma heap_inv_walk:
  assumes "heap_inv F L s"
  obtains xs where "ring_walk (hnext s) (ufree_list s) xs" "xs \<noteq> []" "last xs = ufree_list s" "distinct xs" "set xs = F"
proof -
  have "finite F" using assms tiles_finite [of "F \<union> L" s] by (simp add: heap_inv_def)
  then show ?thesis using ring_walk_exists [of F "hnext s" "ufree_list s"] assms that by (auto simp: heap_inv_def)
qed

text \<open>A fresh pool.\<close>

lemma heap_inv_init: "heap_inv {0} {} (pool_init s)"
  by (auto simp: heap_inv_def pool_init_def ring_next_def tiles_def uend_def POOL_UNITS_def)

text \<open>Tiles: a block is cut in two, two neighbours are joined.\<close>

lemma tiles_split:
  assumes "tiles B s" "p \<in> B" "need < hsize s p" "0 < need" "q = uend s p - unat need"
    and "hsize s' = (hsize s)(p := hsize s p - need, q := need)"
  shows "tiles (insert q B) s'" "q \<notin> B" "uend s' q = uend s p" "uend s' p = q" "p < q"
proof -
  have u: "unat need < unat (hsize s p)" "0 < unat need" using assms(3,4) by (simp_all add: word_less_nat_alt unat_gt_0)
  then have q: "p < q" "q < uend s p" by (simp_all add: assms(5) uend_def)
  then show "q \<notin> B" "p < q" using assms(1,2) by (force simp: tiles_def)+
  have e: "uend s' q = uend s p" "uend s' p = q"
    using u q assms(3) by (simp_all add: uend_def assms(5,6) unat_sub word_less_nat_alt word_le_nat_alt)
  then show "uend s' q = uend s p" "uend s' p = q" by simp_all
  have o: "uend s' x = uend s x" if "x \<noteq> p" "x \<noteq> q" for x using that by (simp add: uend_def assms(6))
  have T: "\<And>x. x \<in> B \<Longrightarrow> x < uend s x \<and> uend s x \<le> POOL_UNITS" "\<And>x y. x \<in> B \<Longrightarrow> y \<in> B \<Longrightarrow> x < y \<Longrightarrow> uend s x \<le> y"
    "\<And>u. u < POOL_UNITS \<Longrightarrow> \<exists>x \<in> B. x \<le> u \<and> u < uend s x"
    using assms(1) by (auto simp: tiles_def)
  have 1: "x < uend s' x \<and> uend s' x \<le> POOL_UNITS" if "x \<in> insert q B" for x
    using that T(1) [of x] T(1) [OF assms(2)] e q o [of x] by (cases "x = q"; cases "x = p") auto
  have 2: "uend s' x \<le> y" if "x \<in> insert q B" "y \<in> insert q B" "x < y" for x y
  proof -
    consider "x = q" | "x = p" | "x \<noteq> p" "x \<noteq> q" by blast
    then show ?thesis
    proof cases
      case 1
      then show ?thesis using that T(2) [OF assms(2), of y] e q by auto
    next
      case 2
      then show ?thesis using that T(2) [OF assms(2), of y] e q by auto
    next
      case 3
      then show ?thesis
        using that T(2) [of x y] T(2) [OF assms(2), of x] T(2) [of x p] o [of x] q assms(2) by (cases "x < p") auto
    qed
  qed
  have 3: "\<exists>x \<in> insert q B. x \<le> u \<and> u < uend s' x" if "u < POOL_UNITS" for u
  proof -
    obtain x where x: "x \<in> B" "x \<le> u" "u < uend s x" using T(3) \<open>u < POOL_UNITS\<close> by blast
    show ?thesis
    proof (cases "x = p")
      case True
      then show ?thesis using x e assms(2) by (cases "u < q") auto
    next
      case False
      moreover have "x \<noteq> q" using x(1) \<open>q \<notin> B\<close> by auto
      ultimately show ?thesis using x o [of x] by auto
    qed
  qed
  show "tiles (insert q B) s'" unfolding tiles_def using 1 2 3 by blast
qed

lemma tiles_join:
  assumes "tiles B s" "p \<in> B" "q \<in> B" "uend s p = q" "hsize s' = (hsize s)(p := hsize s p + hsize s q)"
  shows "tiles (B - {q}) s'" "uend s' p = uend s q" "p < q"
proof -
  have T: "\<And>x. x \<in> B \<Longrightarrow> x < uend s x \<and> uend s x \<le> POOL_UNITS" "\<And>x y. x \<in> B \<Longrightarrow> y \<in> B \<Longrightarrow> x < y \<Longrightarrow> uend s x \<le> y"
    "\<And>u. u < POOL_UNITS \<Longrightarrow> \<exists>x \<in> B. x \<le> u \<and> u < uend s x"
    using assms(1) by (auto simp: tiles_def)
  show pq: "p < q" using T(1) [OF assms(2)] assms(4) by simp
  have "unat (hsize s p) + unat (hsize s q) \<le> 8192"
    using T(1) [OF assms(3)] assms(4) by (simp add: uend_def POOL_UNITS_def)
  then have e: "uend s' p = uend s q" using assms(4) by (simp add: uend_def assms(5) unat_word_ariths)
  then show "uend s' p = uend s q" .
  have o: "uend s' x = uend s x" if "x \<noteq> p" for x using that by (simp add: uend_def assms(5))
  have 1: "x < uend s' x \<and> uend s' x \<le> POOL_UNITS" if "x \<in> B - {q}" for x
    using that T(1) [of x] T(1) [OF assms(3)] e o [of x] pq by (cases "x = p") auto
  have 2: "uend s' x \<le> y" if "x \<in> B - {q}" "y \<in> B - {q}" "x < y" for x y
  proof (cases "x = p")
    case True
    then have "q \<le> y" "y \<noteq> q" "y \<in> B" using that T(2) [of p y] assms(2,4) by auto
    then show ?thesis using True T(2) [OF assms(3), of y] e by simp
  next
    case False
    then show ?thesis using that T(2) [of x y] o [of x] by simp
  qed
  have 3: "\<exists>x \<in> B - {q}. x \<le> u \<and> u < uend s' x" if "u < POOL_UNITS" for u
  proof -
    obtain x where x: "x \<in> B" "x \<le> u" "u < uend s x" using T(3) \<open>u < POOL_UNITS\<close> by blast
    show ?thesis
    proof (cases "x = p \<or> x = q")
      case True
      then have "p \<le> u" "u < uend s' p" using x e pq T(1) [OF assms(3)] assms(4) by auto
      then show ?thesis using assms(2) pq by auto
    next
      case False
      then show ?thesis using x o [of x] by auto
    qed
  qed
  show "tiles (B - {q}) s'" unfolding tiles_def using 1 2 3 by blast
qed

text \<open>The ring without one of its elements, and with a new one.\<close>

lemma ring_next_inj: "ring_next F x y \<Longrightarrow> ring_next F x' y \<Longrightarrow> x \<in> F \<Longrightarrow> x' \<in> F \<Longrightarrow> x = x'"
  unfolding ring_next_def by (meson le_antisym linorder_neqE_nat not_le)

lemma ring_next_self: "ring_next F x x \<Longrightarrow> F = {x}"
  by (auto simp: ring_next_def intro: le_antisym)

lemma ring_remove:
  assumes "\<And>x. x \<in> F \<Longrightarrow> ring_next F x (nx x)" "v \<in> F" "p = nx v" "p \<noteq> v" "x \<in> F - {p}"
  shows "ring_next (F - {p}) x ((nx(v := nx p)) x)"
proof (cases "x = v")
  case True
  have p: "p \<in> F" using assms(1) [OF assms(2)] assms(3) by (simp add: ring_next_def)
  have "nx p \<noteq> p" using ring_next_self [of F p] assms(1) [OF p] assms(2,4) by auto
  then have q: "nx p \<in> F - {p}" using assms(1) [OF p] by (simp add: ring_next_def)
  have v: "(v < p \<and> (\<forall>r \<in> F. \<not> (v < r \<and> r < p))) \<or> (\<forall>r \<in> F. r \<le> v \<and> p \<le> r)"
    and n: "(p < nx p \<and> (\<forall>r \<in> F. \<not> (p < r \<and> r < nx p))) \<or> (\<forall>r \<in> F. r \<le> p \<and> nx p \<le> r)"
    using assms(1) [OF assms(2)] assms(1) [OF p] assms(3) by (simp_all add: ring_next_def)
  have "ring_next (F - {p}) v (nx p)"
  proof (cases "v < p")
    case vp: True
    then have b: "\<forall>r \<in> F. \<not> (v < r \<and> r < p)" using v p by force
    show ?thesis
    proof (cases "p < nx p")
      case True
      then have "\<forall>r \<in> F. \<not> (p < r \<and> r < nx p)" using n p by force
      then have "\<forall>r \<in> F - {p}. \<not> (v < r \<and> r < nx p)" using b by (metis DiffE linorder_neqE_nat singletonI)
      then show ?thesis using vp True q by (simp add: ring_next_def)
    next
      case False
      then have "\<forall>r \<in> F. r \<le> p \<and> nx p \<le> r" using n by simp
      then have "\<forall>r \<in> F - {p}. r \<le> v \<and> nx p \<le> r" using b by (metis DiffE le_neq_implies_less linorder_not_le singletonI)
      then show ?thesis using q by (simp add: ring_next_def)
    qed
  next
    case False
    then have v: "\<forall>r \<in> F. r \<le> v \<and> p \<le> r" using v by simp
    then have "p < nx p" using q by (metis DiffE le_neq_implies_less singletonI)
    then have "\<forall>r \<in> F. \<not> (p < r \<and> r < nx p)" using n p by force
    then have "\<forall>r \<in> F - {p}. r \<le> v \<and> nx p \<le> r" using v by (metis DiffE le_neq_implies_less linorder_not_le singletonI)
    then show ?thesis using q by (simp add: ring_next_def)
  qed
  then show ?thesis using True by simp
next
  case False
  have "ring_next F v p" "ring_next F x (nx x)" using assms(1) [of v] assms(1) [of x] assms(2,3,5) by simp_all
  then have "nx x \<noteq> p" using ring_next_inj [of F x p v] assms(2,5) False by auto
  then show ?thesis using assms(1) [of x] assms(5) False by (auto simp: ring_next_def)
qed

lemma ring_insert:
  assumes "\<And>x. x \<in> F \<Longrightarrow> ring_next F x (nx x)" "p \<in> F" "b \<notin> F" "(p < b \<and> b < nx p) \<or> (nx p \<le> p \<and> (p < b \<or> b < nx p))" "x \<in> insert b F"
  shows "ring_next (insert b F) x ((nx(b := nx p, p := b)) x)"
proof -
  have q: "nx p \<in> F" "nx x \<in> F \<or> x = b"
    and n: "(p < nx p \<and> (\<forall>r \<in> F. \<not> (p < r \<and> r < nx p))) \<or> (\<forall>r \<in> F. r \<le> p \<and> nx p \<le> r)"
    using assms(1) [OF assms(2)] assms(1) [of x] assms(5) by (auto simp: ring_next_def)
  have pb: "p \<noteq> b" using assms(2,3) by auto
  show ?thesis
  proof (cases "p < nx p")
    case True
    then have b: "p < b" "b < nx p" "\<forall>r \<in> F. \<not> (p < r \<and> r < nx p)" using n assms(2,4) by force+
    consider "x = p" | "x = b" | "x \<in> F" "x \<noteq> p" "x \<noteq> b" using assms(5) by blast
    then show ?thesis
    proof cases
      case 3
      have "(x < nx x \<and> (\<forall>r \<in> F. \<not> (x < r \<and> r < nx x))) \<or> (\<forall>r \<in> F. r \<le> x \<and> nx x \<le> r)"
        using assms(1) [OF 3(1)] by (simp add: ring_next_def)
      moreover have "\<not> (x < b \<and> b < nx x)" if "\<forall>r \<in> F. \<not> (x < r \<and> r < nx x)"
        using that b 3 assms(2) by (metis linorder_neqE_nat order.strict_trans)
      moreover have "b \<le> x \<and> nx x \<le> b" if "\<forall>r \<in> F. r \<le> x \<and> nx x \<le> r"
        using that b q(1) assms(2) by (meson le_trans less_imp_le)
      ultimately show ?thesis using 3 q(2) by (auto simp: ring_next_def)
    qed (use b pb q in \<open>force simp: ring_next_def\<close>)+
  next
    case False
    then have m: "\<forall>r \<in> F. r \<le> p \<and> nx p \<le> r" and b: "p < b \<or> b < nx p" using n assms(4) by auto
    consider "x = p" | "x = b" | "x \<in> F" "x \<noteq> p" "x \<noteq> b" using assms(5) by blast
    then show ?thesis
    proof cases
      case 3
      have "(x < nx x \<and> (\<forall>r \<in> F. \<not> (x < r \<and> r < nx x))) \<or> (\<forall>r \<in> F. r \<le> x \<and> nx x \<le> r)"
        using assms(1) [OF 3(1)] by (simp add: ring_next_def)
      moreover have "\<not> (x < b \<and> b < nx x)" using m b 3 q by (metis leD le_trans less_imp_le)
      moreover have "\<not> (\<forall>r \<in> F. r \<le> x \<and> nx x \<le> r)" using m 3 assms(2) by (metis le_antisym)
      ultimately show ?thesis using 3 q(2) by (auto simp: ring_next_def)
    qed (use b m pb q in \<open>force simp: ring_next_def\<close>)+
  qed
qed

subsection \<open>Allocation\<close>

lemma unat_units_for:
  assumes "unat nbytes + 7 < 2 ^ 32"
  shows "unat (units_for nbytes) = (unat nbytes + 7) div 8 + 1"
proof -
  have e: "nbytes + 8 - 1 = nbytes + 7" by simp
  have "unat (nbytes + 7) = unat nbytes + 7" using assms by (simp add: unat_word_ariths)
  then have "unat ((nbytes + 7) div 8) = (unat nbytes + 7) div 8" by (simp add: unat_div)
  then show ?thesis using assms unfolding units_for_def e by (simp add: unat_word_ariths)
qed

lemma take_block_inv:
  assumes inv: "heap_inv F L s" and q: "pv \<in> F" "q \<in> F" "hnext s pv = q" "need \<le> hsize s q" "0 < need"
    and sole: "\<not> (F = {q} \<and> hsize s q = need)" and t: "take_block need pv q s = (b, s')"
  shows "heap_inv (F - {b}) (insert b L) s' \<and> b \<notin> L \<and> hsize s' b = need \<and> (\<forall>x \<in> L. hsize s' x = hsize s x) \<and> ubytes s' = ubytes s"
proof (cases "hsize s q = need")
  case True
  then have s': "b = q" "s' = s\<lparr>hnext := (hnext s)(pv := hnext s q), ufree_list := pv\<rparr>"
    using t by (auto simp: take_block_def)
  have nx: "\<And>x. x \<in> F \<Longrightarrow> ring_next F x (hnext s x)" using inv by (simp add: heap_inv_def)
  have "q \<noteq> pv" using ring_next_self [of F q] nx [OF q(1)] q sole True by auto
  then have r: "\<forall>x \<in> F - {q}. ring_next (F - {q}) x (((hnext s)(pv := hnext s q)) x)"
    using ring_remove [OF nx q(1), of q] q(3) by blast
  have "F - {q} \<union> insert q L = F \<union> L" "uend s' = uend s" using q(2) by (auto simp: uend_def s' fun_eq_iff)
  then have "heap_inv (F - {q}) (insert q L) s'"
    using inv r q(1) \<open>q \<noteq> pv\<close> by (auto simp: heap_inv_def tiles_def s')
  then show ?thesis using inv q(2) True s' by (auto simp: heap_inv_def)
next
  case False
  then have lt: "need < hsize s q" using q(4) by simp
  have "uend s q - unat need = q + unat (hsize s q - need)"
    using lt by (simp add: uend_def unat_sub word_less_nat_alt word_le_nat_alt)
  then have s': "b = uend s q - unat need" "hsize s' = (hsize s)(q := hsize s q - need, b := need)" "hnext s' = hnext s"
    "ufree_list s' = pv" "uinitialized s' = uinitialized s" "ubytes s' = ubytes s"
    using t False by (auto simp: take_block_def Let_def)
  have T: "tiles (F \<union> L) s" using inv by (simp add: heap_inv_def)
  note sp = tiles_split [OF T UnI1 [OF q(2)] lt q(5) s'(1,2)]
  have u: "uend s' x = uend s x" if "x \<in> F" "x \<noteq> q" for x using that sp(2) by (auto simp: uend_def s'(2))
  have "uend s' x \<noteq> y" if "x \<in> F" "y \<in> F" for x y
    using that u [of x] sp(2,4) inv by (cases "x = q") (auto simp: heap_inv_def)
  moreover have "F \<inter> insert b L = {}" "F \<union> insert b L = insert b (F \<union> L)" using inv sp(2) by (auto simp: heap_inv_def)
  ultimately have "heap_inv F (insert b L) s'"
    using inv q(1) sp(1) by (simp add: heap_inv_def s'(3-5))
  moreover have "hsize s' x = hsize s x" if "x \<in> L" for x
    using that inv q(2) sp(2) by (auto simp: s'(2) heap_inv_def)
  moreover have "F - {b} = F" using sp(2) by auto
  ultimately show ?thesis using sp(2) s' by auto
qed

lemma malloc_is_walk:
  assumes "heap_inv F L s" "nbytes \<noteq> 0"
  obtains xs where "ring_walk (hnext s) (ufree_list s) xs" "xs \<noteq> []" "last xs = ufree_list s" "distinct xs" "set xs = F"
    "malloc nbytes s = malloc_loop (units_for nbytes) (ufree_list s) (hd xs) s"
proof -
  obtain xs where xs: "ring_walk (hnext s) (ufree_list s) xs" "xs \<noteq> []" "last xs = ufree_list s" "distinct xs" "set xs = F"
    by (rule heap_inv_walk [OF assms(1)])
  have hd: "hd xs = hnext s (ufree_list s)" using xs(1,2) by (cases xs) auto
  have "malloc nbytes s = malloc_loop (units_for nbytes) (ufree_list s) (hd xs) s"
    using assms by (simp add: malloc_def heap_inv_def hd Let_def)
  then show ?thesis using that xs by blast
qed

lemma malloc_null:
  assumes "heap_inv F L s" "nbytes \<noteq> 0" "\<forall>p \<in> F. hsize s p < units_for nbytes"
  shows "malloc nbytes s = Some (None, s)"
proof -
  obtain xs where xs: "ring_walk (hnext s) (ufree_list s) xs" "xs \<noteq> []" "last xs = ufree_list s" "distinct xs" "set xs = F"
    "malloc nbytes s = malloc_loop (units_for nbytes) (ufree_list s) (hd xs) s"
    by (rule malloc_is_walk [OF assms(1,2)])
  then show ?thesis using malloc_loop_walk(1) [OF xs(1-4)] assms(3) by simp
qed

lemma malloc_block:
  assumes "heap_inv F L s" "nbytes \<noteq> 0" "unat nbytes + 7 < 2 ^ 32" "\<not> (\<exists>p. F = {p} \<and> hsize s p = units_for nbytes)"
    and "p \<in> F" "units_for nbytes \<le> hsize s p"
  obtains b s' where "malloc nbytes s = Some (Some (b + 1), s')" "heap_inv (F - {b}) (insert b L) s'" "b \<notin> L"
    "unat nbytes \<le> 8 * (unat (hsize s' b) - 1)" "\<forall>x \<in> L. hsize s' x = hsize s x" "ubytes s' = ubytes s"
proof -
  let ?need = "units_for nbytes"
  obtain xs where xs: "ring_walk (hnext s) (ufree_list s) xs" "xs \<noteq> []" "last xs = ufree_list s" "distinct xs" "set xs = F"
    "malloc nbytes s = malloc_loop ?need (ufree_list s) (hd xs) s"
    by (rule malloc_is_walk [OF assms(1,2)])
  have n: "unat ?need = (unat nbytes + 7) div 8 + 1" by (rule unat_units_for [OF assms(3)])
  then have pos: "0 < ?need" by (simp add: word_less_nat_alt)
  obtain pv q where q: "pv \<in> F" "q \<in> F" "hnext s pv = q" "?need \<le> hsize s q"
    "malloc_loop ?need (ufree_list s) (hd xs) s = (case take_block ?need pv q s of (b, s') \<Rightarrow> Some (Some (b + 1), s'))"
    using malloc_loop_walk(2) [OF xs(1-4), of p ?need] assms(1,5,6) xs(5) by (auto simp: heap_inv_def)
  obtain b s' where t: "take_block ?need pv q s = (b, s')" by force
  have "\<not> (F = {q} \<and> hsize s q = ?need)" using assms(4) by blast
  then have "heap_inv (F - {b}) (insert b L) s' \<and> b \<notin> L \<and> hsize s' b = ?need \<and> (\<forall>x \<in> L. hsize s' x = hsize s x) \<and> ubytes s' = ubytes s"
    using take_block_inv [OF assms(1) q(1-4) pos _ t] by blast
  moreover from this have "unat nbytes \<le> 8 * (unat (hsize s' b) - 1)" using n by simp
  moreover have "malloc nbytes s = Some (Some (b + 1), s')" using xs(6) q(5) t by simp
  ultimately show ?thesis using that by blast
qed

text \<open>C26: on a well-formed heap, for a request that does not overflow the rounding (at most
  \<open>2 ^ 32 - 8\<close> bytes) and that is not exactly as large as the only free block, \<open>malloc\<close> ends.  It returns
  \<open>NULL\<close>, and changes nothing, exactly when the request is for no bytes or no free block is large enough;
  otherwise it returns a block that was not live and overlaps no live block (the blocks tile the pool),
  large enough for the request, and keeps the heap well-formed and every live block as it was.  Outside
  the two conditions the code fails: \<open>malloc_sole_block\<close> and \<open>malloc_huge\<close> below.\<close>

theorem malloc_correct:
  assumes "heap_inv F L s" "unat nbytes + 7 < 2 ^ 32" "\<not> (\<exists>p. F = {p} \<and> hsize s p = units_for nbytes)"
  shows "if nbytes = 0 \<or> (\<forall>p \<in> F. hsize s p < units_for nbytes) then malloc nbytes s = Some (None, s)
    else \<exists>b s'. malloc nbytes s = Some (Some (b + 1), s') \<and> heap_inv (F - {b}) (insert b L) s' \<and> b \<notin> L \<and>
      unat nbytes \<le> 8 * (unat (hsize s' b) - 1) \<and> (\<forall>x \<in> L. hsize s' x = hsize s x) \<and> ubytes s' = ubytes s"
proof (cases "nbytes = 0 \<or> (\<forall>p \<in> F. hsize s p < units_for nbytes)")
  case True
  then have "malloc nbytes s = Some (None, s)"
    using malloc_null [OF assms(1)] by (cases "nbytes = 0") (simp_all add: malloc_def)
  then show ?thesis using True by simp
next
  case False
  then obtain p where "nbytes \<noteq> 0" "p \<in> F" "units_for nbytes \<le> hsize s p" by (auto simp: not_less)
  then obtain b s' where "malloc nbytes s = Some (Some (b + 1), s')" "heap_inv (F - {b}) (insert b L) s'" "b \<notin> L"
    "unat nbytes \<le> 8 * (unat (hsize s' b) - 1)" "\<forall>x \<in> L. hsize s' x = hsize s x" "ubytes s' = ubytes s"
    using malloc_block [OF assms(1) _ assms(2,3)] by metis
  then show ?thesis unfolding if_not_P [OF False] by blast
qed

theorem malloc_correct_witness:
  "\<forall>s. \<exists>b s'. malloc 100 (pool_init s) = Some (Some (b + 1), s') \<and> heap_inv ({0} - {b}) {b} s' \<and> 100 \<le> 8 * (unat (hsize s' b) - 1)"
proof
  fix s
  have u: "units_for 100 = 14" by (simp add: units_for_def)
  have h: "hsize (pool_init s) 0 = 8192" by (simp add: pool_init_def POOL_UNITS_def)
  show "\<exists>b s'. malloc 100 (pool_init s) = Some (Some (b + 1), s') \<and> heap_inv ({0} - {b}) {b} s' \<and> 100 \<le> 8 * (unat (hsize s' b) - 1)"
    using malloc_correct [OF heap_inv_init, of 100 s] by (auto simp: u h)
qed

text \<open>Without that condition: when a request takes the only free block whole, the block stays on the
  ring, and the next request of the size gets it again.\<close>

lemma malloc_sole_block:
  assumes "\<not> uinitialized s"
  shows "\<exists>s'. malloc 65528 s = Some (Some 1, s') \<and> malloc 65528 s' = Some (Some 1, s')"
  using assms
  by (simp add: malloc_def pool_init_def Let_def units_for_def POOL_UNITS_def malloc_loop.simps [of _ 0 0] take_block_def)

text \<open>The rounding overflows: the largest requests get a block without a single byte.\<close>

lemma malloc_huge: "units_for 0xFFFFFFFF = 1"
  by (simp add: units_for_def)

subsection \<open>Release\<close>

lemma insertion_point:
  assumes "\<And>x. x \<in> F \<Longrightarrow> ring_next F x (hnext s x)" "finite F" "F \<noteq> {}" "bp \<notin> F"
  shows "\<exists>p \<in> F. fits_after bp p s"
proof (cases "\<exists>x \<in> F. x < bp")
  case True
  define p where "p = Max {x \<in> F. x < bp}"
  have "p \<in> {x \<in> F. x < bp}" unfolding p_def using True assms(2) by (intro Max_in) auto
  then have p: "p \<in> F" "p < bp" by auto
  have m: "x \<le> p" if "x \<in> F" "x < bp" for x unfolding p_def using that assms(2) by (intro Max_ge) auto
  have "ring_next F p (hnext s p)" using assms(1) p(1) .
  then have "hnext s p \<in> F" "p < hnext s p \<or> hnext s p \<le> p" by (auto simp: ring_next_def)
  then have "fits_after bp p s"
    using m [of "hnext s p"] p assms(4) by (cases "hnext s p = bp") (auto simp: fits_after_def not_le, force)
  then show ?thesis using p(1) by blast
next
  case False
  define p where "p = Max F"
  have p: "p \<in> F" "\<And>x. x \<in> F \<Longrightarrow> x \<le> p" using assms(2,3) by (auto simp: p_def)
  have n: "ring_next F p (hnext s p)" using assms(1) p(1) .
  then have "hnext s p \<in> F" by (simp add: ring_next_def)
  then have "hnext s p \<le> p" "bp < hnext s p" using p(2) False assms(4) by (auto simp: not_less le_less)
  then have "fits_after bp p s" by (simp add: fits_after_def)
  then show ?thesis using p(1) by blast
qed

text \<open>At the insertion point, only the two neighbours on the ring can touch the block.\<close>

lemma insertion_neighbours:
  assumes inv: "heap_inv F L s" and b: "bp \<in> L" and p: "p \<in> F" "fits_after bp p s"
  shows "x \<in> F \<Longrightarrow> uend s x = bp \<Longrightarrow> x = p" "uend s bp \<in> F \<Longrightarrow> uend s bp = hnext s p"
proof -
  let ?q = "hnext s p"
  have T: "\<And>x y. x \<in> F \<union> L \<Longrightarrow> y \<in> F \<union> L \<Longrightarrow> x < y \<Longrightarrow> uend s x \<le> y" "\<And>x. x \<in> F \<union> L \<Longrightarrow> x < uend s x"
    using inv by (auto simp: heap_inv_def tiles_def)
  have r: "?q \<in> F" "(p < ?q \<and> (\<forall>r \<in> F. \<not> (p < r \<and> r < ?q))) \<or> (\<forall>r \<in> F. r \<le> p \<and> ?q \<le> r)"
    using inv p(1) by (auto simp: heap_inv_def ring_next_def)
  show "x = p" if "x \<in> F" "uend s x = bp"
  proof -
    have x: "x < bp" using T(2) [of x] that by simp
    then have "p < bp" "\<not> p < x"
      using p(2) r that(1) by (auto simp: fits_after_def)
    moreover have "\<not> x < p" using T(1) [of x p] that p(1) \<open>p < bp\<close> by auto
    ultimately show ?thesis by simp
  qed
  show "uend s bp = ?q" if u: "uend s bp \<in> F"
  proof -
    have y: "bp < uend s bp" using T(2) [of bp] b by simp
    have "\<not> ?q < uend s bp \<or> \<not> bp < ?q" using T(1) [of bp ?q] b r(1) by auto
    then show ?thesis using y u p(2) r by (auto simp: fits_after_def)
  qed
qed

lemma join_hnext:
  assumes "p \<noteq> bp" "hnext s p \<noteq> bp" "uend s bp = hnext s p \<Longrightarrow> hnext s p \<noteq> p"
    and "nx = (hnext s)(bp := hnext s p, p := bp)" "nx1 = (if uend s bp = hnext s p then nx(bp := nx (hnext s p)) else nx)"
  shows "hnext (join_prev bp p (join_next bp p s)) = (if uend s p = bp then nx1(p := nx1 bp) else nx1)"
  using assms(1-3) by (auto simp: join_prev_def join_next_def uend_def assms(4,5) fun_eq_iff)

lemma join_hsize:
  assumes "p \<noteq> bp"
  shows "hsize (join_next bp p s) = (if uend s bp = hnext s p then (hsize s)(bp := hsize s bp + hsize s (hnext s p)) else hsize s)"
    and "hsize (join_prev bp p (join_next bp p s)) = (if uend s p = bp
      then (hsize (join_next bp p s))(p := hsize (join_next bp p s) p + hsize (join_next bp p s) bp) else hsize (join_next bp p s))"
  using assms by (auto simp: join_prev_def join_next_def uend_def)

lemma free_inv:
  assumes inv: "heap_inv F L s" and b: "bp \<in> L" and p: "p \<in> F" "fits_after bp p s"
    and sole: "\<not> (F = {p} \<and> uend s bp = p)"
    and s2: "s2 = (join_prev bp p (join_next bp p s))\<lparr>ufree_list := p\<rparr>"
  obtains F' where "heap_inv F' (L - {bp}) s2" "\<And>x. x \<in> L - {bp} \<Longrightarrow> hsize s2 x = hsize s x" "ubytes s2 = ubytes s"
proof -
  let ?q = "hnext s p" and ?s1 = "join_next bp p s"
  let ?c1 = "uend s bp = ?q" and ?c2 = "uend s p = bp"
  have nx: "\<And>x. x \<in> F \<Longrightarrow> ring_next F x (hnext s x)" and bF: "bp \<notin> F" and T: "tiles (F \<union> L) s"
    and gap: "\<And>x y. x \<in> F \<Longrightarrow> y \<in> F \<Longrightarrow> uend s x \<noteq> y" and FL: "F \<inter> L = {}"
    using inv b by (auto simp: heap_inv_def)
  have qF: "?q \<in> F" using nx [OF p(1)] by (simp add: ring_next_def)
  have ne: "p \<noteq> bp" "?q \<noteq> bp" using p(1) qF bF by auto
  have qp: "?q \<noteq> p" if ?c1 using ring_next_self [of F p] nx [OF p(1)] sole that by auto
  define nx0 where "nx0 = (hnext s)(bp := ?q, p := bp)"
  define F1 where "F1 = (if ?c1 then insert bp F - {?q} else insert bp F)"
  define nx1 where "nx1 = (if ?c1 then nx0(bp := nx0 ?q) else nx0)"
  define F2 where "F2 = (if ?c2 then F1 - {bp} else F1)"
  have r0: "ring_next (insert bp F) x (nx0 x)" if "x \<in> insert bp F" for x
    unfolding nx0_def using ring_insert [OF nx p(1) bF _ that] p(2) by (auto simp: fits_after_def)
  have r1: "ring_next F1 x (nx1 x)" if "x \<in> F1" for x
  proof (cases ?c1)
    case True
    have "nx0 bp = ?q" using ne(1) by (simp add: nx0_def)
    then show ?thesis using True that ring_remove [OF r0, of bp ?q x] ne(2) by (simp add: F1_def nx1_def)
  next
    case False
    then show ?thesis using that r0 by (simp add: F1_def nx1_def)
  qed
  have in1: "bp \<in> F1" "p \<in> F1" "nx1 p = bp" using ne p(1) qp by (auto simp: F1_def nx1_def nx0_def)
  have nxt: "hnext s2 = (if ?c2 then nx1(p := nx1 bp) else nx1)"
    unfolding s2 using join_hnext [OF ne qp nx0_def nx1_def] by simp
  have r2: "ring_next F2 x (hnext s2 x)" if "x \<in> F2" for x
    using that r1 ring_remove [OF r1, of p bp x] in1 ne(1) unfolding nxt F2_def by (auto split: if_splits)
  have h1: "hsize ?s1 = (if ?c1 then (hsize s)(bp := hsize s bp + hsize s ?q) else hsize s)" by (rule join_hsize(1) [OF ne(1)])
  have h2: "hsize s2 = (if ?c2 then (hsize ?s1)(p := hsize ?s1 p + hsize ?s1 bp) else hsize ?s1)"
    unfolding s2 using join_hsize(2) [OF ne(1)] by simp
  have B1: "F1 \<union> (L - {bp}) = (if ?c1 then F \<union> L - {?q} else F \<union> L)" using b FL qF ne by (auto simp: F1_def)
  have t1: "tiles (F1 \<union> (L - {bp})) ?s1"
  proof (cases ?c1)
    case True
    then show ?thesis using tiles_join(1) [OF T, of bp ?q ?s1] b qF h1 B1 by simp
  next
    case False
    then show ?thesis using T h1 B1 by (simp add: tiles_def uend_def)
  qed
  have u1: "uend ?s1 x = (if x = bp \<and> ?c1 then uend s ?q else uend s x)" for x
    using tiles_join(2) [OF T, of bp ?q ?s1] b qF h1 by (auto simp: uend_def)
  have B2: "F2 \<union> (L - {bp}) = (if ?c2 then (F1 \<union> (L - {bp})) - {bp} else F1 \<union> (L - {bp}))" by (auto simp: F2_def)
  have e2: "uend ?s1 p = bp \<longleftrightarrow> ?c2" using u1 [of p] ne by simp
  have t2: "tiles (F2 \<union> (L - {bp})) s2"
  proof (cases ?c2)
    case True
    then show ?thesis using tiles_join(1) [OF t1, of p bp s2] in1 h2 B2 e2 by simp
  next
    case False
    then show ?thesis using t1 h2 B2 by (simp add: tiles_def uend_def)
  qed
  have u2: "uend s2 x = (if x = p \<and> ?c2 then uend ?s1 bp else uend ?s1 x)" for x
    using tiles_join(2) [OF t1, of p bp s2] in1 h2 e2 by (auto simp: uend_def)
  have k: "uend ?s1 x \<noteq> y" if "x \<in> F1" "y \<in> F1" "\<not> (x = p \<and> y = bp)" for x y
  proof -
    have pos: "bp < uend s bp" using T b by (auto simp: tiles_def)
    have F1: "x \<in> F \<or> x = bp" "y \<in> F \<or> y = bp" using that by (auto simp: F1_def split: if_splits)
    show ?thesis
      using insertion_neighbours(1) [OF inv b p, of x] insertion_neighbours(1) [OF inv b p qF] insertion_neighbours(2) [OF inv b p]
        gap [of x y] gap [OF qF, of y] F1 that(3) qp pos bF by (auto simp: u1)
  qed
  have "uend s2 x \<noteq> y" if "x \<in> F2" "y \<in> F2" for x y
    using that k [of x y] k [of bp y] in1 ne e2 by (auto simp: u2 F2_def split: if_splits)
  moreover have "p \<in> F2" "F2 \<inter> (L - {bp}) = {}" using in1 ne(1) FL by (auto simp: F2_def F1_def split: if_splits)
  moreover have "uinitialized s2" "ufree_list s2 = p" using inv by (auto simp: s2 join_prev_def join_next_def heap_inv_def)
  ultimately have "heap_inv F2 (L - {bp}) s2" using r2 t2 by (simp add: heap_inv_def)
  moreover have "hsize s2 x = hsize s x" if "x \<in> L - {bp}" for x using that p(1) FL by (auto simp: h2 h1)
  moreover have "ubytes s2 = ubytes s" by (simp add: s2 join_prev_def join_next_def)
  ultimately show ?thesis using that by blast
qed

lemma free_block:
  assumes "heap_inv F L s" "bp \<in> L" "\<not> (\<exists>p. F = {p} \<and> uend s bp = p)"
  obtains s' F' where "free (Some (bp + 1)) s = Some (Inr s')" "heap_inv F' (L - {bp}) s'"
    "\<And>x. x \<in> L - {bp} \<Longrightarrow> hsize s' x = hsize s x" "ubytes s' = ubytes s"
proof -
  obtain xs where xs: "ring_walk (hnext s) (ufree_list s) xs" "set xs = F" by (rule heap_inv_walk [OF assms(1)])
  have F: "\<And>x. x \<in> F \<Longrightarrow> ring_next F x (hnext s x)" "finite F" "ufree_list s \<in> F" "bp \<notin> F" "uinitialized s"
    using assms(1,2) tiles_finite [of "F \<union> L" s] by (auto simp: heap_inv_def)
  have "\<exists>x \<in> insert (ufree_list s) (set xs). fits_after bp x s"
    using insertion_point [OF F(1,2) _ F(4)] F(3) xs(2) by blast
  then obtain p where p: "p \<in> F" "fits_after bp p s" "free_loop bp (ufree_list s) s = Some p"
    using free_loop_walk [OF xs(1)] xs(2) F(3) by (metis insert_absorb)
  let ?s = "(join_prev bp p (join_next bp p s))\<lparr>ufree_list := p\<rparr>"
  have f: "free (Some (bp + 1)) s = Some (Inr ?s)" using p(3) F(5) by (simp add: free_def)
  have "\<not> (F = {p} \<and> uend s bp = p)" using assms(3) by blast
  then obtain F' where "heap_inv F' (L - {bp}) ?s" "\<And>x. x \<in> L - {bp} \<Longrightarrow> hsize ?s x = hsize s x" "ubytes ?s = ubytes s"
    using free_inv [OF assms(1,2) p(1,2) _ refl] by metis
  then show ?thesis using that f by blast
qed

text \<open>C27: \<open>free\<close> of a live block of a well-formed heap that does not end where the only free block begins
  ends, makes exactly that block free and keeps the heap well-formed: the free blocks are still in the
  order of addresses, joined with their neighbours, and every other live block and its bytes are as they
  were.  Where the block ends at the start of the only free block the code fails: \<open>free_before_sole_block\<close>
  below.\<close>

theorem free_correct:
  assumes "heap_inv F L s" "bp \<in> L" "\<not> (\<exists>p. F = {p} \<and> uend s bp = p)"
  shows "\<exists>s' F'. free (Some (bp + 1)) s = Some (Inr s') \<and> heap_inv F' (L - {bp}) s' \<and>
    (\<forall>x \<in> L - {bp}. hsize s' x = hsize s x) \<and> ubytes s' = ubytes s"
  using free_block [OF assms] by metis

definition demo_heap :: "uheap \<Rightarrow> uheap" where
  "demo_heap s = (pool_init s)\<lparr>hsize := (hsize (pool_init s))(0 := 8178, 8178 := 14)\<rparr>"

lemma demo_heap_inv: "heap_inv {0} {8178} (demo_heap s)"
  by (auto simp: heap_inv_def demo_heap_def pool_init_def ring_next_def tiles_def uend_def POOL_UNITS_def)

theorem free_correct_witness:
  "\<forall>s. \<exists>s' F'. free (Some (8178 + 1)) (demo_heap s) = Some (Inr s') \<and> heap_inv F' {} s'"
proof
  fix s
  have "uend (demo_heap s) 8178 \<noteq> 0" by (simp add: uend_def)
  then show "\<exists>s' F'. free (Some (8178 + 1)) (demo_heap s) = Some (Inr s') \<and> heap_inv F' {} s'"
    using free_correct [OF demo_heap_inv [of s], of 8178] by auto
qed

text \<open>Without that condition: the only free block \<open>q\<close> is joined to the released block in front of it and
  yet stays on the ring, inside that block.\<close>

lemma free_before_sole_block:
  assumes "heap_inv {q} L s" "bp \<in> L" "uend s bp = q"
  shows "\<exists>s'. free (Some (bp + 1)) s = Some (Inr s') \<and> hnext s' q = bp \<and> hnext s' bp = q \<and>
    hsize s' q = hsize s q \<and> bp < q \<and> uend s' bp = uend s q"
proof -
  have q: "hnext s q = q" "ufree_list s = q" "uinitialized s" "tiles ({q} \<union> L) s"
    using assms(1) by (auto simp: heap_inv_def ring_next_def)
  then have lt: "bp < q" "q < uend s q" using assms(2,3) by (auto simp: tiles_def)
  let ?s1 = "join_next bp q s"
  have j: "?s1 = s\<lparr>hsize := (hsize s)(bp := hsize s bp + hsize s q), hnext := (hnext s)(bp := q)\<rparr>"
    using assms(3) q(1) by (simp add: join_next_def uend_def)
  have "q + unat (hsize ?s1 q) \<noteq> bp" using lt by (simp add: j)
  then have "join_prev bp q ?s1 = ?s1\<lparr>hnext := (hnext ?s1)(q := bp)\<rparr>" by (simp add: join_prev_def)
  moreover have "free_loop bp q s = Some q" using q(1) lt by (subst free_loop.simps) (simp add: fits_after_def)
  ultimately have "free (Some (bp + 1)) s = Some (Inr (?s1\<lparr>hnext := (hnext ?s1)(q := bp), ufree_list := q\<rparr>))"
    using q(2,3) by (simp add: free_def)
  moreover have "uend ?s1 bp = uend s q"
    using tiles_join(2) [OF q(4), of bp q ?s1] assms(2,3) by (simp add: j)
  ultimately show ?thesis using lt by (auto simp: j uend_def)
qed

subsection \<open>Cleared and resized blocks\<close>

lemma put_bytes_Inr:
  assumes "length bs \<le> unat (block_bytes q s)"
  obtains s' where "put_bytes q bs s = Inr s'" "get_bytes q (length bs) s' = bs" "hsize s' = hsize s" "hnext s' = hnext s"
    "ufree_list s' = ufree_list s" "uinitialized s' = uinitialized s"
    "\<And>i. \<not> (8 * q \<le> i \<and> i < 8 * q + length bs) \<Longrightarrow> ubytes s' i = ubytes s i"
proof (rule that)
  let ?s = "s\<lparr>ubytes := (\<lambda>i. if 8 * q \<le> i \<and> i < 8 * q + length bs then bs ! (i - 8 * q) else ubytes s i)\<rparr>"
  show "put_bytes q bs s = Inr ?s" using assms by (simp add: put_bytes_def)
  show "get_bytes q (length bs) ?s = bs" by (rule nth_equalityI) (simp_all add: get_bytes_def)
qed auto

lemma heap_inv_bytes:
  "hsize s' = hsize s \<Longrightarrow> hnext s' = hnext s \<Longrightarrow> ufree_list s' = ufree_list s \<Longrightarrow> uinitialized s' = uinitialized s \<Longrightarrow>
   heap_inv F L s' = heap_inv F L s"
  by (simp add: heap_inv_def tiles_def uend_def)

lemma block_bytes_live:
  assumes "heap_inv F L s" "b \<in> L"
  shows "unat (block_bytes (b + 1) s) = 8 * (unat (hsize s b) - 1)"
proof -
  have "b < uend s b" "uend s b \<le> POOL_UNITS" using assms by (auto simp: heap_inv_def tiles_def)
  then have h: "0 < unat (hsize s b)" "unat (hsize s b) \<le> 8192" by (simp_all add: uend_def POOL_UNITS_def)
  then have u: "unat (hsize s b - 1) = unat (hsize s b) - 1" by (subst unat_sub) (simp_all add: word_le_nat_alt)
  have "unat ((hsize s b - 1) * 8) = unat (hsize s b - 1) * 8 mod 2 ^ 32" by (subst unat_word_ariths(2)) simp
  then show ?thesis using h by (simp add: block_bytes_def u del: right_diff_distrib_numeral left_diff_distrib_numeral)
qed

lemma calloc_zeroed:
  assumes "heap_inv F L s" "nmemb * sz \<noteq> 0" "unat (nmemb * sz) + 7 < 2 ^ 32"
    and "\<not> (\<exists>p. F = {p} \<and> hsize s p = units_for (nmemb * sz))" "\<exists>p \<in> F. units_for (nmemb * sz) \<le> hsize s p"
  shows "\<exists>b s'. calloc nmemb sz s = Some (Inr (Some (b + 1), s')) \<and> heap_inv (F - {b}) (insert b L) s' \<and> b \<notin> L \<and>
    get_bytes (b + 1) (unat (nmemb * sz)) s' = replicate (unat (nmemb * sz)) 0"
proof -
  let ?n = "nmemb * sz"
  obtain b s1 where m: "malloc ?n s = Some (Some (b + 1), s1)" "heap_inv (F - {b}) (insert b L) s1" "b \<notin> L" "unat ?n \<le> 8 * (unat (hsize s1 b) - 1)"
    using malloc_block [OF assms(1-4)] assms(5) by metis
  have "length (replicate (unat ?n) 0) \<le> unat (block_bytes (b + 1) s1)" using m(4) block_bytes_live [OF m(2)] by simp
  then obtain s2 where s2: "put_bytes (b + 1) (replicate (unat ?n) 0) s1 = Inr s2"
    "get_bytes (b + 1) (length (replicate (unat ?n) (0 :: u8))) s2 = replicate (unat ?n) 0"
    "hsize s2 = hsize s1" "hnext s2 = hnext s1" "ufree_list s2 = ufree_list s1" "uinitialized s2 = uinitialized s1"
    by (rule put_bytes_Inr)
  then show ?thesis using m heap_inv_bytes [OF s2(3-6)] by (auto simp: calloc_def)
qed

lemma realloc_moves:
  assumes "heap_inv F L s" "bp \<in> L" "sz \<noteq> 0" "unat sz + 7 < 2 ^ 32" "2 < card F" "\<exists>p \<in> F. units_for sz \<le> hsize s p"
    and "n = min (unat sz) (unat (block_bytes (bp + 1) s))"
  shows "\<exists>b s' F'. realloc (Some (bp + 1)) sz s = Some (Inr (Some (b + 1), s')) \<and> heap_inv F' (insert b L - {bp}) s' \<and>
    b \<notin> L \<and> get_bytes (b + 1) n s' = get_bytes (bp + 1) n s"
proof -
  have no1: "\<not> (\<exists>p. F = {p} \<and> P p)" for P using assms(5) by auto
  have no2: "\<not> (\<exists>p. F - {b} = {p} \<and> P p)" for P b
  proof
    assume "\<exists>p. F - {b} = {p} \<and> P p"
    then obtain p where "F - {b} = {p}" by blast
    then have "card (F - {b}) = 1" by simp
    moreover have "card F - 1 \<le> card (F - {b})" by (simp add: card_Diff_singleton_if)
    ultimately show False using assms(5) by simp
  qed
  obtain b s1 where m: "malloc sz s = Some (Some (b + 1), s1)" "heap_inv (F - {b}) (insert b L) s1" "b \<notin> L"
    "unat sz \<le> 8 * (unat (hsize s1 b) - 1)" "\<forall>x \<in> L. hsize s1 x = hsize s x" "ubytes s1 = ubytes s"
    using malloc_block [OF assms(1,3,4) no1] assms(6) by metis
  let ?bs = "get_bytes (bp + 1) n s1"
  have len: "length ?bs = n" by (simp add: get_bytes_def)
  have "n \<le> unat sz" using assms(7) by simp
  then have "length ?bs \<le> unat (block_bytes (b + 1) s1)" using m(4) block_bytes_live [OF m(2), of b] unfolding len by simp
  then obtain s2 where s2: "put_bytes (b + 1) ?bs s1 = Inr s2" "get_bytes (b + 1) (length ?bs) s2 = ?bs"
    "hsize s2 = hsize s1" "hnext s2 = hnext s1" "ufree_list s2 = ufree_list s1" "uinitialized s2 = uinitialized s1"
    by (rule put_bytes_Inr)
  have i2: "heap_inv (F - {b}) (insert b L) s2" using m(2) heap_inv_bytes [OF s2(3-6)] by simp
  obtain s3 F' where f: "free (Some (bp + 1)) s2 = Some (Inr s3)" "heap_inv F' (insert b L - {bp}) s3" "ubytes s3 = ubytes s2"
    by (rule free_block [OF i2 insertI2 [OF assms(2)] no2])
  have n: "sz < block_bytes (bp + 1) s \<Longrightarrow> unat sz = n" "\<not> sz < block_bytes (bp + 1) s \<Longrightarrow> unat (block_bytes (bp + 1) s) = n"
    by (simp_all add: assms(7) min_def word_less_nat_alt)
  have "realloc (Some (bp + 1)) sz s = Some (Inr (Some (b + 1), s3))"
    using assms(3) m(1) s2(1) f(1) n by (simp add: realloc_def Let_def)
  moreover have "get_bytes (b + 1) n s3 = get_bytes (bp + 1) n s"
    using s2(2) f(3) m(6) unfolding len by (simp add: get_bytes_def)
  ultimately show ?thesis using f(2) m(3) by blast
qed

end
