(* ===== verification/Vmm.thy ===== *)
theory Vmm
  imports Slab Mmu
begin

section \<open>Address-space descriptors (\<open>kernel/src/kernel/mm/vmm.c\<close>)\<close>

text \<open>
  Per-process descriptors with a list of memory areas, both carved from slab caches, and a page table
  from the page allocator.  The objects of the two caches are maps from their address; the links of
  the slab free lists are kept apart by the slab model, so that freeing an area does not touch its
  fields here, and the code reads the link of an area before it frees it.

  The walks along the list of areas are option-valued, since a damaged list may be cyclic.
\<close>

subsection \<open>The code\<close>

definition VM_READ :: u32 where [vx_consts]: "VM_READ = 1"
definition VM_WRITE :: u32 where [vx_consts]: "VM_WRITE = 2"
definition VM_EXEC :: u32 where [vx_consts]: "VM_EXEC = 4"
definition VM_USER :: u32 where [vx_consts]: "VM_USER = 8"

record vm_area_struct =
  vm_start :: u32
  vm_end :: u32
  vm_flags :: u32
  vm_next :: "u32 option"

record mm_struct =
  mmap :: "u32 option"
  mm_pgd_pa :: u32
  mm_in_use :: bool

record vmm_state =
  vslab :: slab_state
  vmmu :: mmu_state
  mm_cache :: "nat option"
  vma_cache :: "nat option"
  mms :: "u32 \<Rightarrow> mm_struct"
  vmas :: "u32 \<Rightarrow> vm_area_struct"

definition vmm_init :: "vmm_state \<Rightarrow> fault + vmm_state" where
  "vmm_init s =
     fbind (kmem_cache_create (cstr ''mm_struct'') 12 (vslab s)) (\<lambda>(c1, sl1).
     fbind (kmem_cache_create (cstr ''vm_area'') 16 sl1) (\<lambda>(c2, sl2).
       if c1 = None then Inl AssertFail
       else if c2 = None then Inl AssertFail
       else Inr (s\<lparr>vslab := sl2, mm_cache := c1, vma_cache := c2\<rparr>)))"

definition mm_alloc :: "vmm_state \<Rightarrow> fault + u32 option \<times> vmm_state" where
  "mm_alloc s =
     fbind (kmem_cache_alloc (mm_cache s) (vslab s)) (\<lambda>(r, sl1).
       case r of
         None \<Rightarrow> Inr (None, s\<lparr>vslab := sl1\<rparr>)
       | Some m \<Rightarrow> (case mmu_new_pgd (pages sl1) (vmmu s) of (pa, pg, mu) \<Rightarrow>
           let s1 = s\<lparr>vslab := sl1\<lparr>pages := pg\<rparr>, vmmu := mu\<rparr> in
           if pa = 0 then fbind (kmem_cache_free (mm_cache s) (Some m) (vslab s1)) (\<lambda>sl2. Inr (None, s1\<lparr>vslab := sl2\<rparr>))
           else Inr (Some m, s1\<lparr>mms := (mms s1)(m := \<lparr>mmap = None, mm_pgd_pa = pa, mm_in_use = True\<rparr>)\<rparr>)))"

partial_function (option) free_vmas :: "u32 option \<Rightarrow> vmm_state \<Rightarrow> (fault + vmm_state) option" where
  "free_vmas vma s = (case vma of
     None \<Rightarrow> Some (Inr s)
   | Some v \<Rightarrow> let nxt = vm_next (vmas s v) in
       (case kmem_cache_free (vma_cache s) (Some v) (vslab s) of
          Inl e \<Rightarrow> Some (Inl e)
        | Inr sl1 \<Rightarrow> free_vmas nxt (s\<lparr>vslab := sl1\<rparr>)))"

definition mm_free :: "u32 option \<Rightarrow> vmm_state \<Rightarrow> (fault + vmm_state) option" where
  "mm_free mm s = (case mm of
     None \<Rightarrow> Some (Inl AssertFail)
   | Some m \<Rightarrow>
       if \<not> mm_in_use (mms s m) then Some (Inl AssertFail)
       else (case free_vmas (mmap (mms s m)) s of
          None \<Rightarrow> None
        | Some r \<Rightarrow> Some (fbind r (\<lambda>s1.
            fbind (mmu_free_pgd (mm_pgd_pa (mms s1 m)) (pages (vslab s1))) (\<lambda>pg.
            let s2 = s1\<lparr>vslab := (vslab s1)\<lparr>pages := pg\<rparr>, mms := (mms s1)(m := (mms s1 m)\<lparr>mm_in_use := False\<rparr>)\<rparr> in
            fbind (kmem_cache_free (mm_cache s2) (Some m) (vslab s2)) (\<lambda>sl. Inr (s2\<lparr>vslab := sl\<rparr>)))))))"

text \<open>The walk to the place of insertion.  The pointer \<open>pp\<close> is the address of a link: of the head when
  \<open>prev\<close> is \<open>None\<close>, of the link of the area \<open>prev\<close> otherwise; \<open>cur\<close> is what it points to.\<close>

partial_function (option) vma_walk :: "u32 \<Rightarrow> u32 option \<Rightarrow> u32 option \<Rightarrow> vmm_state \<Rightarrow> (u32 option \<times> u32 option) option" where
  "vma_walk start prev cur s = (case cur of
     None \<Rightarrow> Some (prev, None)
   | Some v \<Rightarrow> if vm_start (vmas s v) < start then vma_walk start (Some v) (vm_next (vmas s v)) s else Some (prev, Some v))"

definition vma_link :: "u32 \<Rightarrow> u32 \<Rightarrow> u32 option \<Rightarrow> u32 option \<Rightarrow> vmm_state \<Rightarrow> vmm_state" where
  "vma_link m v prev cur s =
     (let s1 = s\<lparr>vmas := (vmas s)(v := (vmas s v)\<lparr>vm_next := cur\<rparr>)\<rparr> in
      case prev of
        None \<Rightarrow> s1\<lparr>mms := (mms s1)(m := (mms s1 m)\<lparr>mmap := Some v\<rparr>)\<rparr>
      | Some p \<Rightarrow> s1\<lparr>vmas := (vmas s1)(p := (vmas s1 p)\<lparr>vm_next := Some v\<rparr>)\<rparr>)"

definition vma_create :: "u32 option \<Rightarrow> u32 \<Rightarrow> u32 \<Rightarrow> u32 \<Rightarrow> vmm_state \<Rightarrow> (fault + u32 option \<times> vmm_state) option" where
  "vma_create mm start stop flags s = (case mm of
     None \<Rightarrow> Some (Inl AssertFail)
   | Some m \<Rightarrow>
       if \<not> mm_in_use (mms s m) then Some (Inl AssertFail)
       else if \<not> start < stop then Some (Inl AssertFail)
       else (case kmem_cache_alloc (vma_cache s) (vslab s) of
          Inl e \<Rightarrow> Some (Inl e)
        | Inr (None, sl1) \<Rightarrow> Some (Inr (None, s\<lparr>vslab := sl1\<rparr>))
        | Inr (Some v, sl1) \<Rightarrow>
            let s1 = s\<lparr>vslab := sl1, vmas := (vmas s)(v := (vmas s v)\<lparr>vm_start := start, vm_end := stop, vm_flags := flags\<rparr>)\<rparr> in
            (case vma_walk start None (mmap (mms s1 m)) s1 of
               None \<Rightarrow> None
             | Some (prev, cur) \<Rightarrow> Some (Inr (Some v, vma_link m v prev cur s1)))))"

subsection \<open>The list of areas\<close>

abbreviation vma_next :: "vmm_state \<Rightarrow> u32 \<Rightarrow> u32 option" where "vma_next s v \<equiv> vm_next (vmas s v)"

text \<open>The walk stops behind the areas that start below.\<close>

lemma vma_walk_split:
  assumes "chain (vma_next s) cur xs"
  obtains ys zs where "xs = ys @ zs" "\<forall>y \<in> set ys. vm_start (vmas s y) < start" "zs = [] \<or> \<not> vm_start (vmas s (hd zs)) < start"
    "vma_walk start prev cur s = Some (if ys = [] then prev else Some (last ys), if zs = [] then None else Some (hd zs))"
proof -
  have "\<exists>ys zs. xs = ys @ zs \<and> (\<forall>y \<in> set ys. vm_start (vmas s y) < start) \<and> (zs = [] \<or> \<not> vm_start (vmas s (hd zs)) < start) \<and>
      vma_walk start prev cur s = Some (if ys = [] then prev else Some (last ys), if zs = [] then None else Some (hd zs))"
    using assms
  proof (induction xs arbitrary: cur prev)
    case Nil
    then show ?case by (subst vma_walk.simps) auto
  next
    case (Cons x xs)
    show ?case
    proof (cases "vm_start (vmas s x) < start")
      case True
      obtain ys zs where y: "xs = ys @ zs" "\<forall>y \<in> set ys. vm_start (vmas s y) < start" "zs = [] \<or> \<not> vm_start (vmas s (hd zs)) < start"
        "vma_walk start (Some x) (vma_next s x) s = Some (if ys = [] then Some x else Some (last ys), if zs = [] then None else Some (hd zs))"
        using Cons.IH [of "vma_next s x" "Some x"] Cons.prems by auto
      have "vma_walk start prev cur s = vma_walk start (Some x) (vma_next s x) s"
        using Cons.prems True by (subst vma_walk.simps) simp
      then show ?thesis using y True by (intro exI [of _ "x # ys"] exI [of _ zs]) auto
    next
      case False
      then have "vma_walk start prev cur s = Some (prev, Some x)" using Cons.prems by (subst vma_walk.simps) simp
      then show ?thesis using False by (intro exI [of _ "[]"] exI [of _ "x # xs"]) auto
    qed
  qed
  then show ?thesis using that by blast
qed

lemma chain_split: "chain nxt h (ys @ zs) \<longleftrightarrow>
  (if ys = [] then chain nxt h zs else \<exists>h'. chain (nxt(last ys := None)) h ys \<and> nxt (last ys) = h' \<and> chain nxt h' zs)" if "distinct (ys @ zs)"
  using that
proof (induction ys arbitrary: h)
  case (Cons y ys)
  show ?case
  proof (cases "ys = []")
    case True
    then show ?thesis by auto
  next
    case False
    then have "last ys \<in> set ys" by simp
    then have "last ys \<noteq> y" using Cons.prems by auto
    then show ?thesis using Cons.IH [of "nxt y"] Cons.prems False by auto
  qed
qed simp

lemma vma_link_chain:
  assumes ch: "chain (vma_next s) (mmap (mms s m)) (ys @ zs)" and d: "distinct (ys @ zs)" "v \<notin> set (ys @ zs)"
    and s': "s' = vma_link m v (if ys = [] then None else Some (last ys)) (if zs = [] then None else Some (hd zs)) s"
  shows "chain (vma_next s') (mmap (mms s' m)) (ys @ v # zs)"
proof -
  let ?cur = "if zs = [] then None else Some (hd zs)"
  have head: "chain (vma_next s) ?cur zs"
    using ch d(1) chain_split [OF d(1)] by (cases zs) (auto split: if_splits)
  show ?thesis
  proof (cases "ys = []")
    case True
    have "chain (vma_next s') ?cur zs = chain (vma_next s) ?cur zs"
      using d(2) True by (intro chain_cong) (auto simp: s' vma_link_def)
    then show ?thesis using head True by (simp add: s' vma_link_def)
  next
    case False
    let ?l = "last ys"
    have l: "?l \<in> set ys" "?l \<noteq> v" "?l \<notin> set zs" using False d by (auto dest: last_in_set)
    have n: "vma_next s' = (vma_next s)(v := ?cur, ?l := Some v)" "mmap (mms s' m) = mmap (mms s m)"
      using False l(2) by (auto simp: s' vma_link_def fun_eq_iff)
    note nx = fun_cong [OF n(1)]
    have d': "distinct (ys @ v # zs)" using d by auto
    have "chain ((vma_next s)(?l := None)) (mmap (mms s m)) ys" using ch False chain_split [OF d(1)] by auto
    moreover have "chain ((vma_next s')(?l := None)) h ys = chain ((vma_next s)(?l := None)) h ys" for h
      using d(2) by (intro chain_cong) (auto simp: nx)
    moreover have "chain (vma_next s') ?cur zs = chain (vma_next s) ?cur zs"
      using d(2) l by (intro chain_cong) (auto simp: nx)
    ultimately show ?thesis using head chain_split [OF d'] False l by (auto simp: nx n(2))
  qed
qed

lemma vma_link_fields:
  "vm_start (vmas (vma_link m v p c s) x) = vm_start (vmas s x)" "vm_end (vmas (vma_link m v p c s) x) = vm_end (vmas s x)"
  "vm_flags (vmas (vma_link m v p c s) x) = vm_flags (vmas s x)" "vslab (vma_link m v p c s) = vslab s"
  "mm_in_use (mms (vma_link m v p c s) m') = mm_in_use (mms s m')" "mm_pgd_pa (mms (vma_link m v p c s) m') = mm_pgd_pa (mms s m')"
  by (auto simp: vma_link_def Let_def split: option.splits)

text \<open>\<open>vma_create\<close> on a descriptor whose areas are in the order of their starts returns \<open>NULL\<close> and changes
  nothing, or returns an area that was in nobody's hands, with the requested bounds and flags, linked into
  the list at its place: the list is again in order and has gained exactly this area, and every other area
  keeps its fields.\<close>

lemma vma_create_sorted:
  assumes "slab_inv own fl (vslab s)" "vma_cache s = Some c" "c < SLAB_MAX_CACHES" "kc_in_use (cache_pool (vslab s) ! c)"
    and "mm_in_use (mms s m)" "start < stop" "chain (vma_next s) (mmap (mms s m)) xs" "distinct xs"
    and "sorted (map (\<lambda>x. vm_start (vmas s x)) xs)" "set xs \<subseteq> live own fl (vslab s) c"
  shows "vma_create (Some m) start stop flags s = Some (Inr (None, s)) \<or>
    (\<exists>v s' ys zs own' fl'. vma_create (Some m) start stop flags s = Some (Inr (Some v, s')) \<and>
       xs = ys @ zs \<and> chain (vma_next s') (mmap (mms s' m)) (ys @ v # zs) \<and> distinct (ys @ v # zs) \<and>
       sorted (map (\<lambda>x. vm_start (vmas s' x)) (ys @ v # zs)) \<and> (\<forall>d. v \<notin> live own fl (vslab s) d) \<and>
       slab_inv own' fl' (vslab s') \<and> set (ys @ v # zs) \<subseteq> live own' fl' (vslab s') c \<and>
       vm_start (vmas s' v) = start \<and> vm_end (vmas s' v) = stop \<and> vm_flags (vmas s' v) = flags \<and>
       (\<forall>x. x \<noteq> v \<longrightarrow> vm_start (vmas s' x) = vm_start (vmas s x) \<and> vm_end (vmas s' x) = vm_end (vmas s x) \<and> vm_flags (vmas s' x) = vm_flags (vmas s x)))"
proof -
  consider "kmem_cache_alloc (Some c) (vslab s) = Inr (None, vslab s)"
    | v sl own' fl' where "kmem_cache_alloc (Some c) (vslab s) = Inr (Some v, sl)" "slab_inv own' fl' sl" "\<forall>d. v \<notin> live own fl (vslab s) d"
      "live own' fl' sl = (live own fl (vslab s))(c := insert v (live own fl (vslab s) c))"
    using kmem_cache_alloc_cases [OF assms(1,3,4)] by metis
  then show ?thesis
  proof cases
    case 1
    then show ?thesis using assms(2,5,6) by (simp add: vma_create_def)
  next
    case (2 v sl own' fl')
    define s1 where "s1 = s\<lparr>vslab := sl, vmas := (vmas s)(v := (vmas s v)\<lparr>vm_start := start, vm_end := stop, vm_flags := flags\<rparr>)\<rparr>"
    have v: "v \<notin> set xs" using 2(3) assms(10) by auto
    have st: "vm_start (vmas s1 x) = (if x = v then start else vm_start (vmas s x))" for x by (simp add: s1_def)
    have "chain (vma_next s1) (mmap (mms s1 m)) xs = chain (vma_next s) (mmap (mms s m)) xs"
      by (simp add: s1_def) (intro chain_cong, auto)
    then have ch: "chain (vma_next s1) (mmap (mms s1 m)) xs" using assms(7) by simp
    obtain ys zs where y: "xs = ys @ zs" "\<forall>y \<in> set ys. vm_start (vmas s1 y) < start" "zs = [] \<or> \<not> vm_start (vmas s1 (hd zs)) < start"
      and w: "vma_walk start None (mmap (mms s1 m)) s1 = Some (if ys = [] then None else Some (last ys), if zs = [] then None else Some (hd zs))"
      by (rule vma_walk_split [OF ch])
    let ?s = "vma_link m v (if ys = [] then None else Some (last ys)) (if zs = [] then None else Some (hd zs)) s1"
    have res: "vma_create (Some m) start stop flags s = Some (Inr (Some v, ?s))"
      using assms(2,5,6) 2(1) w unfolding s1_def by (simp add: vma_create_def Let_def)
    have link: "chain (vma_next ?s) (mmap (mms ?s m)) (ys @ v # zs)"
      by (rule vma_link_chain) (use ch y(1) assms(8) v in auto)
    have "\<forall>z \<in> set zs. start \<le> vm_start (vmas s1 z)"
      using y(1,3) assms(9) v by (cases zs) (force simp: st sorted_append not_less)+
    then have "\<forall>y \<in> set ys. vm_start (vmas s y) < start" "\<forall>z \<in> set zs. start \<le> vm_start (vmas s z)"
      using y(1,2) v by (auto simp: st split: if_splits)
    then have "sorted (map (\<lambda>x. vm_start (vmas s x)) ys @ start # map (\<lambda>x. vm_start (vmas s x)) zs)"
      using y(1) assms(9) by (auto simp: sorted_append intro: less_imp_le)
    moreover have "map (\<lambda>x. vm_start (vmas ?s x)) (ys @ v # zs) = map (\<lambda>x. vm_start (vmas s x)) ys @ start # map (\<lambda>x. vm_start (vmas s x)) zs"
      using y(1) v by (auto simp: vma_link_fields st)
    ultimately have "sorted (map (\<lambda>x. vm_start (vmas ?s x)) (ys @ v # zs))" by (simp only:)
    moreover have "vslab ?s = sl" by (simp add: vma_link_fields s1_def)
    ultimately show ?thesis using res link 2 y(1) v assms(8,10)
      by (intro disjI2 exI [of _ v] exI [of _ ?s] exI [of _ ys] exI [of _ zs] exI [of _ own'] exI [of _ fl'])
        (auto simp: vma_link_fields s1_def)
  qed
qed

definition demo_mm :: "slab_state \<Rightarrow> vmm_state \<Rightarrow> vmm_state" where
  "demo_mm sl s = s\<lparr>vslab := sl, vma_cache := Some 0, mms := (\<lambda>_. \<lparr>mmap = None, mm_pgd_pa = 0, mm_in_use = True\<rparr>)\<rparr>"

theorem vma_create_sorted_witness:
  "\<exists>sl. slab_init slab_boot = Inr sl \<and> (\<forall>s m. vma_create (Some m) 0x40000000 0x40001000 VM_READ (demo_mm sl s) = Some (Inr (None, demo_mm sl s)) \<or>
     (\<exists>v s'. vma_create (Some m) 0x40000000 0x40001000 VM_READ (demo_mm sl s) = Some (Inr (Some v, s')) \<and>
        mmap (mms s' m) = Some v \<and> vm_start (vmas s' v) = 0x40000000))"
proof -
  obtain sl where sl: "slab_init slab_boot = Inr sl" "slab_inv (\<lambda>i. None) (\<lambda>c. []) sl"
    "classes_done KMALLOC_CLASSES sl" using slab_init_boot by blast
  then have c: "0 < SLAB_MAX_CACHES" "kc_in_use (cache_pool sl ! 0)" by (simp_all add: classes_done_def vx_consts)
  have "vma_create (Some m) 0x40000000 0x40001000 VM_READ (demo_mm sl s) = Some (Inr (None, demo_mm sl s)) \<or>
     (\<exists>v s'. vma_create (Some m) 0x40000000 0x40001000 VM_READ (demo_mm sl s) = Some (Inr (Some v, s')) \<and>
        mmap (mms s' m) = Some v \<and> vm_start (vmas s' v) = 0x40000000)" for s m
    using vma_create_sorted [of "\<lambda>i. None" "\<lambda>c. []" "demo_mm sl s" 0 m "0x40000000" "0x40001000" "[]" VM_READ] sl(2) c
    by (auto simp: demo_mm_def)
  then show ?thesis using sl(1) by blast
qed

text \<open>Releasing a descriptor gives back every area of its list.\<close>

lemma free_vmas_all:
  assumes "slab_inv own fl (vslab s)" "vma_cache s = Some c" "chain (vma_next s) h xs" "distinct xs" "set xs \<subseteq> live own fl (vslab s) c"
  obtains s' fl' where "free_vmas h s = Some (Inr s')" "slab_inv own fl' (vslab s')"
    "live own fl' (vslab s') = (live own fl (vslab s))(c := live own fl (vslab s) c - set xs)"
    "mms s' = mms s" "mm_cache s' = mm_cache s" "vmas s' = vmas s"
proof -
  have "\<exists>s' fl'. free_vmas h s = Some (Inr s') \<and> slab_inv own fl' (vslab s') \<and>
      live own fl' (vslab s') = (live own fl (vslab s))(c := live own fl (vslab s) c - set xs) \<and>
      mms s' = mms s \<and> mm_cache s' = mm_cache s \<and> vmas s' = vmas s"
    using assms
  proof (induction xs arbitrary: h s fl)
    case Nil
    then show ?case by (subst free_vmas.simps) auto
  next
    case (Cons x xs)
    obtain sl where f: "kmem_cache_free (Some c) (Some x) (vslab s) = Inr sl" "slab_inv own (fl(c := x # fl c)) sl"
      "live own (fl(c := x # fl c)) sl c = live own fl (vslab s) c - {x}" "\<forall>d. d \<noteq> c \<longrightarrow> live own (fl(c := x # fl c)) sl d = live own fl (vslab s) d"
      using kmem_cache_free_live [OF Cons.prems(1), of x c] Cons.prems(5) by auto
    let ?s = "s\<lparr>vslab := sl\<rparr>"
    have "free_vmas h s = free_vmas (vma_next s x) ?s"
      using Cons.prems(2,3) f(1) by (subst free_vmas.simps) simp
    moreover have "\<exists>s' fl'. free_vmas (vma_next s x) ?s = Some (Inr s') \<and> slab_inv own fl' (vslab s') \<and>
      live own fl' (vslab s') = (live own (fl(c := x # fl c)) (vslab ?s))(c := live own (fl(c := x # fl c)) (vslab ?s) c - set xs) \<and>
      mms s' = mms ?s \<and> mm_cache s' = mm_cache ?s \<and> vmas s' = vmas ?s"
      by (rule Cons.IH) (use Cons.prems f(2,3) in \<open>auto simp del: fun_upd_apply\<close>)
    moreover have "(live own (fl(c := x # fl c)) (vslab ?s))(c := live own (fl(c := x # fl c)) (vslab ?s) c - set xs) =
        (live own fl (vslab s))(c := live own fl (vslab s) c - set (x # xs))"
    proof
      fix d
      show "((live own (fl(c := x # fl c)) (vslab ?s))(c := live own (fl(c := x # fl c)) (vslab ?s) c - set xs)) d =
        ((live own fl (vslab s))(c := live own fl (vslab s) c - set (x # xs))) d"
        using f(3) f(4) [rule_format, of d] by (cases "d = c") (auto simp del: fun_upd_apply simp: fun_upd_same fun_upd_other)
    qed
    ultimately show ?case by (simp del: fun_upd_apply)
  qed
  then show ?thesis using that by blast
qed

subsection \<open>The self-test\<close>

text \<open>\<open>False\<close> is a printed \<open>FAIL\<close> line and the early return.  The calls through the options are chained by
  \<open>vthen\<close>.\<close>

definition vthen :: "(fault + 'a) option \<Rightarrow> ('a \<Rightarrow> (fault + 'b) option) \<Rightarrow> (fault + 'b) option" where
  "vthen m f = (case m of None \<Rightarrow> None | Some (Inl e) \<Rightarrow> Some (Inl e) | Some (Inr x) \<Rightarrow> f x)"

fun vmm_test_cycles :: "nat \<Rightarrow> nat \<Rightarrow> vmm_state \<Rightarrow> (fault + bool \<times> vmm_state) option" where
  "vmm_test_cycles i 0 s = Some (Inr (True, s))"
| "vmm_test_cycles i (Suc n) s =
     vthen (Some (mm_alloc s)) (\<lambda>(mm, s1). case mm of
       None \<Rightarrow> Some (Inr (False, s1))
     | Some m \<Rightarrow>
         if mm_pgd_pa (mms s1 m) = 0 then Some (Inr (False, s1))
         else if mm_pgd_pa (mms s1 m) AND 0x3FFF \<noteq> 0 then Some (Inr (False, s1))
         else vthen (vma_create mm (0x40000000 + of_nat i * 0x1000) (0x40001000 + of_nat i * 0x1000) (VM_READ OR VM_USER) s1) (\<lambda>(_, s2).
              vthen (mm_free mm s2) (vmm_test_cycles (Suc i) n)))"

partial_function (option) vma_count :: "u32 \<Rightarrow> nat \<Rightarrow> u32 option \<Rightarrow> vmm_state \<Rightarrow> nat option option" where
  "vma_count prev count v s = (case v of
     None \<Rightarrow> Some (Some count)
   | Some a \<Rightarrow> if vm_start (vmas s a) < prev then Some None
       else vma_count (vm_start (vmas s a)) (count + 1) (vm_next (vmas s a)) s)"

definition vmm_test_order :: "vmm_state \<Rightarrow> (fault + bool \<times> vmm_state) option" where
  "vmm_test_order s =
     vthen (Some (mm_alloc s)) (\<lambda>(mm, s1).
     vthen (vma_create mm 0x40000000 0x40001000 VM_READ s1) (\<lambda>(_, s2).
     vthen (vma_create mm 0x40010000 0x40011000 VM_WRITE s2) (\<lambda>(_, s3).
     vthen (vma_create mm 0x40005000 0x40006000 VM_EXEC s3) (\<lambda>(_, s4).
       case mm of None \<Rightarrow> Some (Inl OutOfBounds)
       | Some m \<Rightarrow> (case vma_count 0 0 (mmap (mms s4 m)) s4 of
           None \<Rightarrow> None
         | Some r \<Rightarrow> vthen (mm_free mm s4) (\<lambda>s5. Some (Inr (r = Some 3, s5))))))))"

definition vmm_selftest :: "vmm_state \<Rightarrow> (fault + bool \<times> vmm_state) option" where
  "vmm_selftest s =
     vthen (Some (mm_alloc s)) (\<lambda>(warm, s1).
       if warm = None then Some (Inl AssertFail)
       else vthen (vma_create warm 0x40000000 0x40001000 VM_READ s1) (\<lambda>(_, s2).
            vthen (mm_free warm s2) (\<lambda>s3.
            let pages_before = page_alloc_free_pages (pages (vslab s3)) in
            vthen (vmm_test_cycles 0 5 s3) (\<lambda>(ok, s4).
              if \<not> ok then Some (Inr (False, s4))
              else if page_alloc_free_pages (pages (vslab s4)) \<noteq> pages_before then Some (Inr (False, s4))
              else vmm_test_order s4))))"

text \<open>The list check accepts exactly the lists in order, and counts them.\<close>

lemma vma_count_sorted:
  assumes "chain (vma_next s) h xs"
  shows "vma_count prev n h s =
    Some (if sorted (prev # map (\<lambda>x. vm_start (vmas s x)) xs) then Some (n + length xs) else None)"
  using assms
proof (induction xs arbitrary: h prev n)
  case Nil
  then show ?case by (subst vma_count.simps) simp
next
  case (Cons x xs)
  let ?k = "\<lambda>y. vm_start (vmas s y)"
  have "sorted (prev # map ?k (x # xs)) \<longleftrightarrow> prev \<le> ?k x \<and> sorted (?k x # map ?k xs)" by auto
  moreover have "vma_count (?k x) (n + 1) (vma_next s x) s = Some (if sorted (?k x # map ?k xs) then Some (n + 1 + length xs) else None)"
    using Cons.IH [of "vma_next s x" "?k x" "n + 1"] Cons.prems by simp
  ultimately show ?case using Cons.prems
    by (subst vma_count.simps) (simp add: not_less [symmetric] del: sorted_simps)
qed

end
