(* ===== verification/Mmc.thy ===== *)
theory Mmc
  imports Mmio Block_Cache Platform
begin

section \<open>The SD-card driver (\<open>kernel/src/drivers/mmc.c\<close>) and the partition table (\<open>mbr.c\<close>)\<close>

text \<open>
  The driver of the MMC0 controller: clocks and pins, the identification of the card, reads and writes of
  512-byte sectors word by word through the data register, and the block device it registers; and the
  search for the FAT32 partition in the master boot record.  The controller is the bus \<open>'w bus\<close>.  Every
  wait of the driver is bounded by its counter.  Busy loops without an access to the bus and messages on
  the console are left out.  \<open>sdhc_card\<close> is passed and returned as a flag.
\<close>

subsection \<open>Registers\<close>

definition CM_PER_MMC0_CLKCTRL :: u32 where [vx_consts]: "CM_PER_MMC0_CLKCTRL = 0x44E0003C"
definition CONF_MMC0_DAT3 :: u32 where [vx_consts]: "CONF_MMC0_DAT3 = 0x44E108F0"
definition CONF_MMC0_DAT2 :: u32 where [vx_consts]: "CONF_MMC0_DAT2 = 0x44E108F4"
definition CONF_MMC0_DAT1 :: u32 where [vx_consts]: "CONF_MMC0_DAT1 = 0x44E108F8"
definition CONF_MMC0_DAT0 :: u32 where [vx_consts]: "CONF_MMC0_DAT0 = 0x44E108FC"
definition CONF_MMC0_CLK :: u32 where [vx_consts]: "CONF_MMC0_CLK = 0x44E10900"
definition CONF_MMC0_CMD :: u32 where [vx_consts]: "CONF_MMC0_CMD = 0x44E10904"
definition MMC_PIN :: u32 where [vx_consts]: "MMC_PIN = 0x30"
definition MMC_SYSCONFIG :: u32 where [vx_consts]: "MMC_SYSCONFIG = 0x48060110"
definition MMC_SYSSTATUS :: u32 where [vx_consts]: "MMC_SYSSTATUS = 0x48060114"
definition MMC_CON :: u32 where [vx_consts]: "MMC_CON = 0x4806012C"
definition MMC_BLK :: u32 where [vx_consts]: "MMC_BLK = 0x48060204"
definition MMC_ARG :: u32 where [vx_consts]: "MMC_ARG = 0x48060208"
definition MMC_CMD :: u32 where [vx_consts]: "MMC_CMD = 0x4806020C"
definition MMC_RSP10 :: u32 where [vx_consts]: "MMC_RSP10 = 0x48060210"
definition MMC_DATA :: u32 where [vx_consts]: "MMC_DATA = 0x48060220"
definition MMC_HCTL :: u32 where [vx_consts]: "MMC_HCTL = 0x48060228"
definition MMC_SYSCTL :: u32 where [vx_consts]: "MMC_SYSCTL = 0x4806022C"
definition MMC_STAT :: u32 where [vx_consts]: "MMC_STAT = 0x48060230"
definition MMC_IE :: u32 where [vx_consts]: "MMC_IE = 0x48060234"
definition MMC_ISE :: u32 where [vx_consts]: "MMC_ISE = 0x48060238"
definition MMC_CAPA :: u32 where [vx_consts]: "MMC_CAPA = 0x48060240"
definition MMC_HCTL_SDBP :: u32 where [vx_consts]: "MMC_HCTL_SDBP = 0x100"
definition MMC_HCTL_SDVS_3_3V :: u32 where [vx_consts]: "MMC_HCTL_SDVS_3_3V = 0xE00"
definition MMC_SYSCTL_ICS :: u32 where [vx_consts]: "MMC_SYSCTL_ICS = 2"
definition MMC_SYSCTL_CEN :: u32 where [vx_consts]: "MMC_SYSCTL_CEN = 4"
definition MMC_SYSCTL_SRC :: u32 where [vx_consts]: "MMC_SYSCTL_SRC = 0x2000000"
definition MMC_SYSCTL_SRD :: u32 where [vx_consts]: "MMC_SYSCTL_SRD = 0x4000000"
definition MMC_STAT_CC :: u32 where [vx_consts]: "MMC_STAT_CC = 1"
definition MMC_STAT_TC :: u32 where [vx_consts]: "MMC_STAT_TC = 2"
definition MMC_STAT_BWR :: u32 where [vx_consts]: "MMC_STAT_BWR = 0x10"
definition MMC_STAT_BRR :: u32 where [vx_consts]: "MMC_STAT_BRR = 0x20"
definition MMC_STAT_ERRI :: u32 where [vx_consts]: "MMC_STAT_ERRI = 0x8000"
definition MMC_CMD_DDIR_READ :: u32 where [vx_consts]: "MMC_CMD_DDIR_READ = 0x10"
definition MMC_CMD_DDIR_WRITE :: u32 where [vx_consts]: "MMC_CMD_DDIR_WRITE = 0"
definition MMC_CMD_DP :: u32 where [vx_consts]: "MMC_CMD_DP = 0x200000"
definition MMC_RSP_NONE :: u32 where [vx_consts]: "MMC_RSP_NONE = 0"
definition MMC_RSP_R1 :: u32 where [vx_consts]: "MMC_RSP_R1 = 0x1A0000"
definition MMC_RSP_R1b :: u32 where [vx_consts]: "MMC_RSP_R1b = 0x1B0000"
definition MMC_RSP_R2 :: u32 where [vx_consts]: "MMC_RSP_R2 = 0x90000"
definition MMC_RSP_R3 :: u32 where [vx_consts]: "MMC_RSP_R3 = 0x20000"
definition MMC_RSP_R6 :: u32 where [vx_consts]: "MMC_RSP_R6 = 0x1A0000"
definition MMC_RSP_R7 :: u32 where [vx_consts]: "MMC_RSP_R7 = 0x1A0000"

subsection \<open>Waits\<close>

text \<open>\<open>while (!ok(mmio_read32(addr))) if (--timeout == 0) return E_FAIL;\<close>\<close>

fun mmc_wait :: "'w bus \<Rightarrow> u32 \<Rightarrow> (u32 \<Rightarrow> bool) \<Rightarrow> nat \<Rightarrow> 'w \<Rightarrow> bool \<times> 'w" where
  "mmc_wait B addr ok 0 w = (False, w)"
| "mmc_wait B addr ok (Suc t) w = (case mmio_read32 B addr w of (v, w') \<Rightarrow> if ok v then (True, w') else mmc_wait B addr ok t w')"

text \<open>\<open>do { status = read; if (--timeout == 0) return E_FAIL; } while (\<dots>);\<close>  The last read counts as a
  time-out whatever it shows.\<close>

fun cmd_wait :: "'w bus \<Rightarrow> nat \<Rightarrow> 'w \<Rightarrow> u32 option \<times> 'w" where
  "cmd_wait B 0 w = (None, w)"
| "cmd_wait B (Suc t) w = (case mmio_read32 B MMC_STAT w of (v, w') \<Rightarrow>
     if t = 0 then (None, w')
     else if v AND (MMC_STAT_CC OR MMC_STAT_ERRI) = 0 then cmd_wait B t w' else (Some v, w'))"

text \<open>\<open>while ((mmio_read32(addr) & bits) && --t > 0);\<close>\<close>

fun reset_wait :: "'w bus \<Rightarrow> u32 \<Rightarrow> nat \<Rightarrow> 'w \<Rightarrow> 'w" where
  "reset_wait B bits 0 w = snd (mmio_read32 B MMC_SYSCTL w)"
| "reset_wait B bits (Suc t) w = (case mmio_read32 B MMC_SYSCTL w of (v, w') \<Rightarrow>
     if v AND bits \<noteq> 0 \<and> t > 0 then reset_wait B bits t w' else w')"

text \<open>The wait for a data flag: the status is read again to look for an error.\<close>

datatype poll_result = PollOk | PollError | PollTimeout

fun data_wait :: "'w bus \<Rightarrow> u32 \<Rightarrow> nat \<Rightarrow> 'w \<Rightarrow> poll_result \<times> 'w" where
  "data_wait B flag 0 w = (PollTimeout, w)"
| "data_wait B flag (Suc t) w = (case mmio_read32 B MMC_STAT w of (v, w1) \<Rightarrow>
     if v AND flag \<noteq> 0 then (PollOk, w1)
     else case mmio_read32 B MMC_STAT w1 of (st, w2) \<Rightarrow>
       if st AND MMC_STAT_ERRI \<noteq> 0 then (PollError, w2) else data_wait B flag t w2)"

definition DATA_TIMEOUT :: nat where "DATA_TIMEOUT = 10000000"

subsection \<open>Commands and initialisation\<close>

definition mmc_modify :: "'w bus \<Rightarrow> u32 \<Rightarrow> (u32 \<Rightarrow> u32) \<Rightarrow> 'w \<Rightarrow> 'w" where
  "mmc_modify B addr f w = (case mmio_read32 B addr w of (v, w') \<Rightarrow> mmio_write32 B addr (f v) w')"

definition mmc_enable_clocks :: "'w bus \<Rightarrow> 'w \<Rightarrow> bool \<times> 'w" where
  "mmc_enable_clocks B w =
     mmc_wait B CM_PER_MMC0_CLKCTRL (\<lambda>v. v AND 0x30000 = 0) 100000
       (mmc_modify B CM_PER_MMC0_CLKCTRL (\<lambda>v. (v AND NOT 3) OR 2) w)"

definition mmc_send_cmd :: "'w bus \<Rightarrow> u32 \<Rightarrow> u32 \<Rightarrow> u32 \<Rightarrow> 'w \<Rightarrow> int \<times> 'w" where
  "mmc_send_cmd B cmd arg flags w =
     (case cmd_wait B DATA_TIMEOUT (bus_writes B [(MMC_STAT, 0xFFFFFFFF), (MMC_ARG, arg), (MMC_CMD, push_bit 24 cmd OR flags)] w) of
        (None, w1) \<Rightarrow> (E_FAIL, w1)
      | (Some status, w1) \<Rightarrow>
          if status AND MMC_STAT_ERRI \<noteq> 0
          then (E_FAIL, mmio_write32 B MMC_STAT 0xFFFFFFFF
                  (reset_wait B MMC_SYSCTL_SRC 100000 (mmc_modify B MMC_SYSCTL (\<lambda>v. v OR MMC_SYSCTL_SRC) w1)))
          else (E_OK, mmio_write32 B MMC_STAT MMC_STAT_CC w1))"

text \<open>The phases of \<open>mmc_init\<close>.  A phase with a time-out returns whether it came to its end.\<close>

definition mmc_reset :: "'w bus \<Rightarrow> 'w \<Rightarrow> bool \<times> 'w" where
  "mmc_reset B w =
     (case mmc_wait B MMC_SYSSTATUS (\<lambda>v. v AND 1 \<noteq> 0) 1000000
        (bus_writes B [(CONF_MMC0_DAT3, MMC_PIN), (CONF_MMC0_DAT2, MMC_PIN), (CONF_MMC0_DAT1, MMC_PIN), (CONF_MMC0_DAT0, MMC_PIN),
           (CONF_MMC0_CLK, MMC_PIN), (CONF_MMC0_CMD, MMC_PIN), (MMC_SYSCONFIG, 2)] w) of
        (False, w1) \<Rightarrow> (False, w1)
      | (True, w1) \<Rightarrow>
          mmc_wait B MMC_SYSCTL (\<lambda>v. v AND (MMC_SYSCTL_SRC OR MMC_SYSCTL_SRD) = 0) 10000000
            (mmc_modify B MMC_SYSCTL (\<lambda>v. v OR MMC_SYSCTL_SRC OR MMC_SYSCTL_SRD)
              (bus_writes B [(MMC_SYSCONFIG, 0x308), (MMC_CON, 0)] w1)))"

definition mmc_power :: "'w bus \<Rightarrow> 'w \<Rightarrow> bool \<times> 'w" where
  "mmc_power B w =
     mmc_wait B MMC_HCTL (\<lambda>v. v AND MMC_HCTL_SDBP \<noteq> 0) 100000
       (mmc_modify B MMC_HCTL (\<lambda>v. v OR MMC_HCTL_SDBP)
         (mmio_write32 B MMC_HCTL MMC_HCTL_SDVS_3_3V (mmc_modify B MMC_CAPA (\<lambda>v. v OR 0x1000000) w)))"

definition mmc_clock :: "'w bus \<Rightarrow> 'w \<Rightarrow> bool \<times> 'w" where
  "mmc_clock B w =
     (case mmc_wait B MMC_SYSCTL (\<lambda>v. v AND MMC_SYSCTL_ICS \<noteq> 0) 1000000 (mmio_write32 B MMC_SYSCTL 0xE3C01 w) of
        (False, w1) \<Rightarrow> (False, w1)
      | (True, w1) \<Rightarrow> (True, bus_writes B [(MMC_IE, 0xFFFFFFFF), (MMC_ISE, 0xFFFFFFFF), (MMC_STAT, 0xFFFFFFFF)]
            (mmc_modify B MMC_SYSCTL (\<lambda>v. v OR MMC_SYSCTL_CEN) w1)))"

definition mmc_wakeup :: "'w bus \<Rightarrow> 'w \<Rightarrow> bool \<times> 'w" where
  "mmc_wakeup B w =
     (case mmc_wait B MMC_STAT (\<lambda>v. v AND MMC_STAT_CC \<noteq> 0) 1000000
        (mmio_write32 B MMC_CMD 0 (mmc_modify B MMC_CON (\<lambda>v. v OR 2) w)) of
        (False, w1) \<Rightarrow> (False, w1)
      | (True, w1) \<Rightarrow> (True, mmio_write32 B MMC_STAT 0xFFFFFFFF
            (mmc_modify B MMC_CON (\<lambda>v. v AND NOT 2) (mmio_write32 B MMC_STAT MMC_STAT_CC w1))))"

fun op_cond_loop :: "'w bus \<Rightarrow> nat \<Rightarrow> bool \<Rightarrow> 'w \<Rightarrow> bool \<times> 'w" where
  "op_cond_loop B 0 sdhc w = (sdhc, w)"
| "op_cond_loop B (Suc n) sdhc w =
     (case mmc_send_cmd B 55 0 MMC_RSP_R1 w of (rc, w1) \<Rightarrow>
      if rc \<noteq> E_OK then op_cond_loop B n sdhc w1
      else case mmc_send_cmd B 41 0x40300000 MMC_RSP_R3 w1 of (rc2, w2) \<Rightarrow>
      if rc2 \<noteq> E_OK then op_cond_loop B n sdhc w2
      else case mmio_read32 B MMC_RSP10 w2 of (rsp, w3) \<Rightarrow>
      if rsp AND 0x80000000 \<noteq> 0 then (sdhc \<or> rsp AND 0x40000000 \<noteq> 0, w3)
      else op_cond_loop B n sdhc w3)"

definition mmc_identify :: "'w bus \<Rightarrow> bool \<Rightarrow> 'w \<Rightarrow> bool \<times> 'w" where
  "mmc_identify B sdhc w =
     (case op_cond_loop B 2000 sdhc (snd (mmc_send_cmd B 8 0x1AA MMC_RSP_R7 (snd (mmc_send_cmd B 0 0 MMC_RSP_NONE w)))) of (sdhc', w1) \<Rightarrow>
      case mmio_read32 B MMC_RSP10 (snd (mmc_send_cmd B 3 0 MMC_RSP_R6 (snd (mmc_send_cmd B 2 0 MMC_RSP_R2 w1)))) of (rsp, w2) \<Rightarrow>
      let rca = drop_bit 16 rsp AND 0xFFFF in
      (sdhc', snd (mmc_send_cmd B 7 (push_bit 16 rca) MMC_RSP_R1b (snd (mmc_send_cmd B 9 (push_bit 16 rca) MMC_RSP_R2 w2)))))"

definition mmc_speed :: "'w bus \<Rightarrow> 'w \<Rightarrow> bool \<times> 'w" where
  "mmc_speed B w =
     (case mmc_wait B MMC_SYSCTL (\<lambda>v. v AND MMC_SYSCTL_ICS \<noteq> 0) 1000000
        (mmc_modify B MMC_SYSCTL (\<lambda>v. (v AND NOT 0xFFC0) OR 0x100)
          (mmc_modify B MMC_SYSCTL (\<lambda>v. v AND NOT MMC_SYSCTL_CEN)
            (mmc_modify B MMC_SYSCTL (\<lambda>v. (v AND NOT 0xF0000) OR 0xE0000) w))) of
        (False, w1) \<Rightarrow> (False, w1)
      | (True, w1) \<Rightarrow> (True, mmc_modify B MMC_SYSCTL (\<lambda>v. v OR MMC_SYSCTL_CEN) w1))"

definition mmc_init :: "'w bus \<Rightarrow> bool \<Rightarrow> 'w \<Rightarrow> int \<times> bool \<times> 'w" where
  "mmc_init B sdhc w =
     (case mmc_enable_clocks B w of (ok0, w0) \<Rightarrow> if \<not> ok0 then (E_FAIL, sdhc, w0) else
      case mmc_reset B w0 of (ok1, w1) \<Rightarrow> if \<not> ok1 then (E_FAIL, sdhc, w1) else
      case mmc_power B w1 of (ok2, w2) \<Rightarrow> if \<not> ok2 then (E_FAIL, sdhc, w2) else
      case mmc_clock B w2 of (ok3, w3) \<Rightarrow> if \<not> ok3 then (E_FAIL, sdhc, w3) else
      case mmc_wakeup B w3 of (ok4, w4) \<Rightarrow> if \<not> ok4 then (E_FAIL, sdhc, w4) else
      case mmc_identify B sdhc w4 of (sdhc', w5) \<Rightarrow>
      case mmc_speed B w5 of (ok6, w6) \<Rightarrow> if \<not> ok6 then (E_FAIL, sdhc', w6) else
      (E_OK, sdhc', snd (mmc_send_cmd B 16 512 MMC_RSP_R1 w6)))"

subsection \<open>Sectors\<close>

definition mmc_arg :: "bool \<Rightarrow> u32 \<Rightarrow> u32" where
  "mmc_arg sdhc lba = (if sdhc then lba else lba * 512)"

definition mmc_start :: "'w bus \<Rightarrow> u32 \<Rightarrow> u32 \<Rightarrow> 'w \<Rightarrow> 'w" where
  "mmc_start B arg cmd w = bus_writes B [(MMC_BLK, 0x10200), (MMC_STAT, 0xFFFFFFFF), (MMC_ARG, arg), (MMC_CMD, cmd)] w"

definition CMD17 :: u32 where "CMD17 = push_bit 24 17 OR MMC_RSP_R1 OR MMC_CMD_DP OR MMC_CMD_DDIR_READ"
definition CMD24 :: u32 where "CMD24 = push_bit 24 24 OR MMC_RSP_R1 OR MMC_CMD_DP OR MMC_CMD_DDIR_WRITE"

text \<open>The 128 words of a sector, stored from the byte offset \<open>off\<close> of the buffer on.\<close>

fun read_words :: "'w bus \<Rightarrow> nat \<Rightarrow> nat \<Rightarrow> u8 list \<Rightarrow> 'w \<Rightarrow> u8 list \<times> 'w" where
  "read_words B 0 off buf w = (buf, w)"
| "read_words B (Suc n) off buf w = (case mmio_read32 B MMC_DATA w of (v, w') \<Rightarrow> read_words B n (off + 4) (blit buf off (le32 v)) w')"

fun mmc_read_loop :: "'w bus \<Rightarrow> bool \<Rightarrow> u32 \<Rightarrow> nat \<Rightarrow> nat \<Rightarrow> u8 list \<Rightarrow> 'w \<Rightarrow> int \<times> u8 list \<times> 'w" where
  "mmc_read_loop B sdhc lba 0 off buf w = (E_OK, buf, w)"
| "mmc_read_loop B sdhc lba (Suc n) off buf w =
     (case data_wait B MMC_STAT_BRR DATA_TIMEOUT (mmc_start B (mmc_arg sdhc lba) CMD17 w) of
        (PollOk, w1) \<Rightarrow>
          (case read_words B 128 off buf w1 of (buf', w2) \<Rightarrow>
           case mmc_wait B MMC_STAT (\<lambda>v. v AND MMC_STAT_TC \<noteq> 0) DATA_TIMEOUT w2 of (tc, w3) \<Rightarrow>
             if \<not> tc then (E_FAIL, buf', w3)
             else mmc_read_loop B sdhc (lba + 1) n (off + 512) buf' (mmio_write32 B MMC_STAT 0xFFFFFFFF w3))
      | (_, w1) \<Rightarrow> (E_FAIL, buf, w1))"

definition mmc_read_sectors :: "'w bus \<Rightarrow> bool \<Rightarrow> u32 \<Rightarrow> u32 \<Rightarrow> u8 list \<Rightarrow> 'w \<Rightarrow> int \<times> u8 list \<times> 'w" where
  "mmc_read_sectors B sdhc lba count dst w = mmc_read_loop B sdhc lba (unat count) 0 dst w"

fun write_words :: "'w bus \<Rightarrow> nat \<Rightarrow> nat \<Rightarrow> u8 list \<Rightarrow> 'w \<Rightarrow> 'w" where
  "write_words B 0 off src w = w"
| "write_words B (Suc n) off src w = write_words B n (off + 4) src (mmio_write32 B MMC_DATA (rd32 src off) w)"

fun mmc_write_loop :: "'w bus \<Rightarrow> bool \<Rightarrow> u32 \<Rightarrow> nat \<Rightarrow> nat \<Rightarrow> u8 list \<Rightarrow> 'w \<Rightarrow> int \<times> 'w" where
  "mmc_write_loop B sdhc lba 0 off src w = (E_OK, w)"
| "mmc_write_loop B sdhc lba (Suc n) off src w =
     (case data_wait B MMC_STAT_BWR DATA_TIMEOUT (mmc_start B (mmc_arg sdhc lba) CMD24 w) of
        (PollOk, w1) \<Rightarrow>
          (case data_wait B MMC_STAT_TC DATA_TIMEOUT (write_words B 128 off src w1) of
             (PollOk, w2) \<Rightarrow> mmc_write_loop B sdhc (lba + 1) n (off + 512) src (mmio_write32 B MMC_STAT 0xFFFFFFFF w2)
           | (_, w2) \<Rightarrow> (E_FAIL, w2))
      | (PollError, w1) \<Rightarrow> (E_FAIL, mmio_write32 B MMC_STAT 0xFFFFFFFF
            (reset_wait B (MMC_SYSCTL_SRC OR MMC_SYSCTL_SRD) 100000
              (mmc_modify B MMC_SYSCTL (\<lambda>v. v OR MMC_SYSCTL_SRC OR MMC_SYSCTL_SRD) w1)))
      | (PollTimeout, w1) \<Rightarrow> (E_FAIL, w1))"

definition mmc_write_sectors :: "'w bus \<Rightarrow> bool \<Rightarrow> u32 \<Rightarrow> u32 \<Rightarrow> u8 list \<Rightarrow> 'w \<Rightarrow> int \<times> 'w" where
  "mmc_write_sectors B sdhc lba count src w = mmc_write_loop B sdhc lba (unat count) 0 src w"

subsection \<open>The block device and its platform driver\<close>

definition mmc_bdev_read :: "'w bus \<Rightarrow> bool \<Rightarrow> 'w \<Rightarrow> u32 \<Rightarrow> u32 \<Rightarrow> u8 list \<Rightarrow> int \<times> u8 list \<times> 'w" where
  "mmc_bdev_read B sdhc w lba count buf = mmc_read_sectors B sdhc lba count buf w"

definition mmc_bdev_write :: "'w bus \<Rightarrow> bool \<Rightarrow> 'w \<Rightarrow> u32 \<Rightarrow> u32 \<Rightarrow> u8 list \<Rightarrow> int \<times> 'w" where
  "mmc_bdev_write B sdhc w lba count buf = mmc_write_sectors B sdhc lba count buf w"

definition mmc_bdev :: "'w bus \<Rightarrow> bool \<Rightarrow> 'w block_device" where
  "mmc_bdev B sdhc = \<lparr>bd_name = cstr ''mmc0'', bd_sector_size = 512, bd_total_sectors = 0,
     bd_ops = Some \<lparr>read_sectors = Some (mmc_bdev_read B sdhc), write_sectors = Some (mmc_bdev_write B sdhc)\<rparr>\<rparr>"

text \<open>The probe: the pointer \<open>bdev\<close> is the address of \<open>mmc_bdev\<close>.\<close>

definition omap_hsmmc_probe :: "'w bus \<Rightarrow> nat \<Rightarrow> bool \<Rightarrow> nat list \<Rightarrow> 'w \<Rightarrow> int \<times> bool \<times> nat list \<times> 'w" where
  "omap_hsmmc_probe B bdev sdhc bdevs w =
     (case mmc_init B sdhc w of (rc, sdhc', w') \<Rightarrow>
        (rc, sdhc', (if rc = E_OK then snd (block_register bdev bdevs) else bdevs), w'))"

subsection \<open>The partition table\<close>

definition MBR_SIG_OFFSET :: nat where [vx_consts]: "MBR_SIG_OFFSET = 0x1FE"
definition MBR_SIG_VALUE :: u16 where [vx_consts]: "MBR_SIG_VALUE = 0xAA55"
definition MBR_PART_TABLE_OFFSET :: nat where [vx_consts]: "MBR_PART_TABLE_OFFSET = 0x1BE"
definition MBR_PART_ENTRY_SIZE :: nat where [vx_consts]: "MBR_PART_ENTRY_SIZE = 16"
definition MBR_NUM_PARTITIONS :: nat where [vx_consts]: "MBR_NUM_PARTITIONS = 4"
definition PART_TYPE_FAT32_CHS :: u8 where [vx_consts]: "PART_TYPE_FAT32_CHS = 0x0B"
definition PART_TYPE_FAT32_LBA :: u8 where [vx_consts]: "PART_TYPE_FAT32_LBA = 0x0C"

definition part_entry :: "nat \<Rightarrow> nat" where
  "part_entry i = MBR_PART_TABLE_OFFSET + i * MBR_PART_ENTRY_SIZE"

definition is_fat32 :: "u8 list \<Rightarrow> nat \<Rightarrow> bool" where
  "is_fat32 buf i \<longleftrightarrow> buf ! (part_entry i + 4) = PART_TYPE_FAT32_CHS \<or> buf ! (part_entry i + 4) = PART_TYPE_FAT32_LBA"

text \<open>The result: a code and, on success, the first sector and the size of the partition.\<close>

definition mbr_find_fat32 :: "'w bus \<Rightarrow> bool \<Rightarrow> u8 list \<Rightarrow> 'w \<Rightarrow> int \<times> (u32 \<times> u32) option \<times> 'w" where
  "mbr_find_fat32 B sdhc mbr_sector_buf w =
     (case mmc_read_sectors B sdhc 0 1 mbr_sector_buf w of (rc, buf, w') \<Rightarrow>
      if rc \<noteq> E_OK then (E_FAIL, None, w')
      else if rd16 buf MBR_SIG_OFFSET \<noteq> MBR_SIG_VALUE then (E_FAIL, None, w')
      else case first_idx (is_fat32 buf) 0 MBR_NUM_PARTITIONS of
          None \<Rightarrow> (E_FAIL, None, w')
        | Some i \<Rightarrow> (E_OK, Some (rd32 buf (part_entry i + 8), rd32 buf (part_entry i + 12)), w'))"

end
