(* ===== verification/Mmc_Props.thy ===== *)
theory Mmc_Props
  imports Mmc Fat32_Props
begin

section \<open>The SD-card driver: properties\<close>

text \<open>
  \<open>sd_host\<close> is what the driver relies on in the controller and the card, as the data phases of the SD
  specification give it: after a read command the data register delivers the words of the addressed
  block once the status shows \<open>BRR\<close>; after a write command it takes 128 words once the status shows
  \<open>BWR\<close>, and the block holds them once the status shows \<open>TC\<close>; until then only the addressed block may
  change.  The card is seen through the argument of the commands.  Nothing is assumed of how long this
  takes, or that it comes to an end: a controller that is stuck never shows the flags.

  The driver then is a sector device in the sense of the buffer cache.
\<close>

subsection \<open>Words and bytes of a sector\<close>

definition words_of :: "u8 list \<Rightarrow> nat \<Rightarrow> nat \<Rightarrow> u32 list" where
  "words_of src off n = map (\<lambda>j. rd32 src (off + 4 * j)) [0..<n]"

definition bytes_of :: "u32 list \<Rightarrow> u8 list" where
  "bytes_of ws = concat (map le32 ws)"

lemma bytes_of_append [simp]: "bytes_of (xs @ ys) = bytes_of xs @ bytes_of ys"
  by (simp add: bytes_of_def)

lemma length_bytes_of [simp]: "length (bytes_of ws) = 4 * length ws"
  by (induction ws) (simp_all add: bytes_of_def)

lemma bytes_words: "off + 4 * n \<le> length b \<Longrightarrow> bytes_of (words_of b off n) = take (4 * n) (drop off b)"
proof (induction n)
  case (Suc n)
  have "bytes_of (words_of b off (Suc n)) = take (4 * n) (drop off b) @ le32 (rd32 b (off + 4 * n))"
    using Suc by (simp add: words_of_def bytes_of_def)
  also have "\<dots> = take (4 * n + 4) (drop off b)"
    using Suc.prems by (subst le32_rd32) (simp_all add: take_add take_Suc_conv_app_nth numeral_eq_Suc drop_drop ac_simps)
  finally show ?case by (simp add: ac_simps)
qed (simp add: words_of_def bytes_of_def)

subsection \<open>The controller\<close>

text \<open>\<open>control_frame\<close>: no register but the data register changes the card.  The SD specification has commands that
  do (erase, lock, writing the card's own registers); the drivers issue the commands 0, 2, 3, 7, 8, 9, 16, 17, 24,
  41 and 55 only, and of these only the data phase of 24 does, which goes through the data register.\<close>

locale sd_host =
  fixes B :: "'w bus" and blk :: "'w \<Rightarrow> u32 \<Rightarrow> u8 list"
    and reading :: "'w \<Rightarrow> u32 \<Rightarrow> bool" and sending :: "'w \<Rightarrow> u32 \<Rightarrow> nat \<Rightarrow> bool"
    and writing :: "'w \<Rightarrow> u32 \<Rightarrow> bool" and taking :: "'w \<Rightarrow> u32 \<Rightarrow> u32 list \<Rightarrow> bool"
  assumes card_length: "length (blk w a) = 512"
    and control_frame: "r \<noteq> MMC_DATA \<Longrightarrow> blk (mmio_write32 B r v w) = blk w"
    and sysctl_frame: "mmio_read32 B MMC_SYSCTL w = (v, w') \<Longrightarrow> blk w' = blk w"
    and read_start: "reading (mmc_start B a CMD17 w) a"
    and read_poll: "reading w a \<Longrightarrow> mmio_read32 B MMC_STAT w = (v, w') \<Longrightarrow>
      reading w' a \<and> blk w' = blk w \<and> (v AND MMC_STAT_BRR \<noteq> 0 \<longrightarrow> sending w' a 0)"
    and read_word: "sending w a k \<Longrightarrow> k < 128 \<Longrightarrow> mmio_read32 B MMC_DATA w = (v, w') \<Longrightarrow>
      v = rd32 (blk w a) (4 * k) \<and> blk w' = blk w \<and> sending w' a (k + 1)"
    and read_end: "sending w a 128 \<Longrightarrow> mmio_read32 B MMC_STAT w = (v, w') \<Longrightarrow> sending w' a 128 \<and> blk w' = blk w"
    and write_start: "writing (mmc_start B a CMD24 w) a"
    and write_poll: "writing w a \<Longrightarrow> mmio_read32 B MMC_STAT w = (v, w') \<Longrightarrow>
      writing w' a \<and> blk w' = blk w \<and> (v AND MMC_STAT_BWR \<noteq> 0 \<longrightarrow> taking w' a [])"
    and write_word: "taking w a ws \<Longrightarrow> length ws < 128 \<Longrightarrow>
      taking (mmio_write32 B MMC_DATA v w) a (ws @ [v]) \<and> (\<forall>b. b \<noteq> a \<longrightarrow> blk (mmio_write32 B MMC_DATA v w) b = blk w b)"
    and write_end: "taking w a ws \<Longrightarrow> length ws = 128 \<Longrightarrow> mmio_read32 B MMC_STAT w = (v, w') \<Longrightarrow>
      taking w' a ws \<and> (\<forall>b. b \<noteq> a \<longrightarrow> blk w' b = blk w b) \<and> (v AND MMC_STAT_TC \<noteq> 0 \<longrightarrow> blk w' a = bytes_of ws)"
begin

lemma start_frame: "blk (mmc_start B a cmd w) = blk w"
  by (simp add: mmc_start_def control_frame vx_consts)

lemma modify_frame: "blk (mmc_modify B MMC_SYSCTL f w) = blk w"
  by (auto simp: mmc_modify_def control_frame vx_consts split: prod.splits dest: sysctl_frame [unfolded MMC_SYSCTL_def])

lemma reset_frame: "blk (reset_wait B bits t w) = blk w"
proof (induction t arbitrary: w)
  case 0
  then show ?case by (simp add: sysctl_frame [of w "fst (mmio_read32 B MMC_SYSCTL w)"])
next
  case (Suc t)
  obtain v w' where r: "mmio_read32 B MMC_SYSCTL w = (v, w')" by fastforce
  then show ?case using Suc sysctl_frame [OF r] by simp
qed

lemma read_wait:
  assumes "reading w a" "data_wait B MMC_STAT_BRR t w = (r, w')"
  shows "blk w' = blk w \<and> (r = PollOk \<longrightarrow> sending w' a 0)"
  using assms
proof (induction t arbitrary: w)
  case (Suc t)
  obtain v w1 where r: "mmio_read32 B MMC_STAT w = (v, w1)" by fastforce
  obtain st w2 where r2: "mmio_read32 B MMC_STAT w1 = (st, w2)" by fastforce
  note p = read_poll [OF Suc.prems(1) r] 
  then have q: "reading w2 a" "blk w2 = blk w" using read_poll [OF _ r2] by auto
  show ?case using Suc.prems(2) r r2 p q Suc.IH [OF q(1)] by (auto split: if_splits)
qed simp

lemma read_words_sector:
  assumes "sending w a k" "k + n \<le> 128" "off + 4 * n \<le> length buf" "read_words B n off buf w = (buf', w')"
  shows "blk w' = blk w \<and> sending w' a (k + n) \<and> buf' = blit buf off (bytes_of (map (\<lambda>j. rd32 (blk w a) (4 * j)) [k..<k + n]))"
  using assms
proof (induction n arbitrary: w k off buf)
  case 0
  then show ?case by (simp add: bytes_of_def)
next
  case (Suc n)
  obtain v w1 where r: "mmio_read32 B MMC_DATA w = (v, w1)" by fastforce
  have p: "v = rd32 (blk w a) (4 * k)" "blk w1 = blk w" "sending w1 a (k + 1)"
    using read_word [OF Suc.prems(1) _ r] Suc.prems(2) by auto
  have i: "blk w' = blk w1 \<and> sending w' a (k + 1 + n) \<and>
      buf' = blit (blit buf off (le32 v)) (off + 4) (bytes_of (map (\<lambda>j. rd32 (blk w1 a) (4 * j)) [k + 1..<k + 1 + n]))"
    using Suc.prems(2-4) r by (intro Suc.IH [OF p(3)]) simp_all
  have "bytes_of (map (\<lambda>j. rd32 (blk w a) (4 * j)) [k..<k + Suc n]) =
      le32 v @ bytes_of (map (\<lambda>j. rd32 (blk w a) (4 * j)) [k + 1..<k + 1 + n])"
    by (subst upt_conv_Cons) (simp_all add: bytes_of_def p(1))
  moreover have "blit (blit buf off (le32 v)) (off + 4) xs = blit buf off (le32 v @ xs)" for xs
    using Suc.prems(3) by (intro nth_equalityI) (auto simp: nth_blit nth_append)
  ultimately show ?case using i p(2) by simp
qed

lemma read_tc:
  assumes "sending w a 128" "mmc_wait B MMC_STAT ok t w = (r, w')"
  shows "blk w' = blk w"
  using assms
proof (induction t arbitrary: w)
  case (Suc t)
  obtain v w1 where r: "mmio_read32 B MMC_STAT w = (v, w1)" by fastforce
  note p = read_end [OF Suc.prems(1) r]
  then show ?case using Suc.prems(2) r Suc.IH [of w1] by (auto split: if_splits)
qed simp

lemma write_wait:
  assumes "writing w a" "data_wait B MMC_STAT_BWR t w = (r, w')"
  shows "blk w' = blk w \<and> (r = PollOk \<longrightarrow> taking w' a [])"
  using assms
proof (induction t arbitrary: w)
  case (Suc t)
  obtain v w1 where r: "mmio_read32 B MMC_STAT w = (v, w1)" by fastforce
  obtain st w2 where r2: "mmio_read32 B MMC_STAT w1 = (st, w2)" by fastforce
  note p = write_poll [OF Suc.prems(1) r]
  then have q: "writing w2 a" "blk w2 = blk w" using write_poll [OF _ r2] by auto
  show ?case using Suc.prems(2) r r2 p q Suc.IH [OF q(1)] by (auto split: if_splits)
qed simp

lemma write_words_sector:
  assumes "taking w a ws" "length ws + n \<le> 128"
  shows "taking (write_words B n off src w) a (ws @ words_of src off n) \<and> (\<forall>b. b \<noteq> a \<longrightarrow> blk (write_words B n off src w) b = blk w b)"
  using assms
proof (induction n arbitrary: w ws off)
  case (Suc n)
  let ?w = "mmio_write32 B MMC_DATA (rd32 src off) w"
  have "taking ?w a (ws @ [rd32 src off])" "\<forall>b. b \<noteq> a \<longrightarrow> blk ?w b = blk w b"
    using write_word [OF Suc.prems(1)] Suc.prems(2) by auto
  moreover have "words_of src off (Suc n) = rd32 src off # words_of src (off + 4) n"
    by (simp add: words_of_def upt_conv_Cons map_Suc_upt [symmetric] comp_def add.assoc del: upt_Suc)
  ultimately show ?case using Suc.IH [of ?w "ws @ [rd32 src off]" "off + 4"] Suc.prems(2) by simp
qed (simp add: words_of_def)

lemma write_tc:
  assumes "taking w a ws" "length ws = 128" "data_wait B MMC_STAT_TC t w = (r, w')"
  shows "(\<forall>b. b \<noteq> a \<longrightarrow> blk w' b = blk w b) \<and> (r = PollOk \<longrightarrow> blk w' a = bytes_of ws)"
  using assms
proof (induction t arbitrary: w)
  case (Suc t)
  obtain v w1 where r: "mmio_read32 B MMC_STAT w = (v, w1)" by fastforce
  obtain st w2 where r2: "mmio_read32 B MMC_STAT w1 = (st, w2)" by fastforce
  note p = write_end [OF Suc.prems(1,2) r]
  then have q: "taking w2 a ws" "\<forall>b. b \<noteq> a \<longrightarrow> blk w2 b = blk w b" using write_end [OF _ Suc.prems(2) r2] by auto
  show ?case using Suc.prems(3) r r2 p q Suc.IH [OF q(1) Suc.prems(2)] by (auto split: if_splits)
qed simp

lemma read_loop_sectors:
  assumes "off + 512 * n \<le> length buf" "mmc_read_loop B sdhc lba n off buf w = (rc, buf', w')"
  shows "blk w' = blk w \<and> length buf' = length buf \<and>
    (rc = E_OK \<longrightarrow> buf' = blit buf off (concat (map (\<lambda>i. blk w (mmc_arg sdhc (lba + of_nat i))) [0..<n])))"
  using assms
proof (induction n arbitrary: lba off buf w)
  case (Suc n)
  let ?a = "mmc_arg sdhc lba"
  let ?w0 = "mmc_start B ?a CMD17 w"
  obtain r w1 where p: "data_wait B MMC_STAT_BRR DATA_TIMEOUT ?w0 = (r, w1)" by fastforce
  have c1: "blk w1 = blk w" "r = PollOk \<Longrightarrow> sending w1 ?a 0"
    using read_wait [OF read_start p] start_frame by auto
  show ?case
  proof (cases "r = PollOk")
    case False
    then show ?thesis using Suc.prems(2) p c1(1) by (cases r) auto
  next
    case True
    obtain b1 w2 where rw: "read_words B 128 off buf w1 = (b1, w2)" by fastforce
    have b1: "blk w2 = blk w" "sending w2 ?a 128" "b1 = blit buf off (blk w ?a)"
      using read_words_sector [OF c1(2) [OF True] _ _ rw] Suc.prems(1) bytes_words [of 0 128 "blk w ?a"] card_length [of w ?a] c1(1)
      by (simp_all add: words_of_def)
    obtain tc w3 where tc: "mmc_wait B MMC_STAT (\<lambda>v. v AND MMC_STAT_TC \<noteq> 0) DATA_TIMEOUT w2 = (tc, w3)" by fastforce
    have c3: "blk w3 = blk w" using read_tc [OF b1(2) tc] b1(1) by simp
    let ?w4 = "mmio_write32 B MMC_STAT 0xFFFFFFFF w3"
    have c4: "blk ?w4 = blk w" using control_frame [of MMC_STAT "0xFFFFFFFF" w3] c3 by (simp add: vx_consts)
    show ?thesis
    proof (cases tc)
      case False
      moreover have "length b1 = length buf" using b1(3) by simp
      ultimately show ?thesis using Suc.prems(2) p True rw tc c3 by simp
    next
      case tcT: True
      have "mmc_read_loop B sdhc (lba + 1) n (off + 512) b1 ?w4 = (rc, buf', w')"
        using Suc.prems(2) p True rw tc tcT by simp
      moreover have "off + 512 + 512 * n \<le> length b1" using Suc.prems(1) b1(3) by simp
      ultimately have i: "blk w' = blk w \<and> length buf' = length buf \<and>
        (rc = E_OK \<longrightarrow> buf' = blit b1 (off + 512) (concat (map (\<lambda>i. blk w (mmc_arg sdhc (lba + 1 + of_nat i))) [0..<n])))"
        using Suc.IH [of "off + 512" b1 "lba + 1" ?w4] c4 b1(3) by simp
      have "concat (map (\<lambda>i. blk w (mmc_arg sdhc (lba + of_nat i))) [0..<Suc n]) =
          blk w ?a @ concat (map (\<lambda>i. blk w (mmc_arg sdhc (lba + 1 + of_nat i))) [0..<n])"
        by (simp add: upt_conv_Cons map_Suc_upt [symmetric] comp_def add.assoc del: upt_Suc)
      moreover have "blit b1 (off + 512) xs = blit buf off (blk w ?a @ xs)" for xs
        unfolding b1(3) using Suc.prems(1) card_length [of w ?a] by (intro nth_equalityI) (auto simp: nth_blit nth_append)
      ultimately show ?thesis using i by simp
    qed
  qed
qed simp

lemma write_loop_sectors:
  assumes "off + 512 * n \<le> length src" "inj_on (\<lambda>i. mmc_arg sdhc (lba + of_nat i)) {..<n}" "mmc_write_loop B sdhc lba n off src w = (rc, w')"
  shows "(\<forall>b. (\<forall>i < n. b \<noteq> mmc_arg sdhc (lba + of_nat i)) \<longrightarrow> blk w' b = blk w b) \<and>
    (rc = E_OK \<longrightarrow> (\<forall>i < n. blk w' (mmc_arg sdhc (lba + of_nat i)) = take 512 (drop (off + 512 * i) src)))"
  using assms
proof (induction n arbitrary: lba off w)
  case (Suc n)
  let ?a = "mmc_arg sdhc lba"
  let ?w0 = "mmc_start B ?a CMD24 w"
  obtain r w1 where p: "data_wait B MMC_STAT_BWR DATA_TIMEOUT ?w0 = (r, w1)" by fastforce
  have c1: "blk w1 = blk w" "r = PollOk \<Longrightarrow> taking w1 ?a []"
    using write_wait [OF write_start p] start_frame by auto
  show ?case
  proof (cases "r = PollOk")
    case False
    have "blk (mmio_write32 B MMC_STAT 0xFFFFFFFF (reset_wait B bits t (mmc_modify B MMC_SYSCTL f w1))) = blk w" for bits t f
      using control_frame [of MMC_STAT] modify_frame reset_frame c1(1) by (simp add: vx_consts)
    then show ?thesis using False Suc.prems(3) p c1(1) by (cases r) auto
  next
    case True
    let ?w2 = "write_words B 128 off src w1"
    have t2: "taking ?w2 ?a (words_of src off 128)" "\<forall>b. b \<noteq> ?a \<longrightarrow> blk ?w2 b = blk w b"
      using write_words_sector [OF c1(2) [OF True], of 128 off src] c1(1) by auto
    obtain tc w3 where tc: "data_wait B MMC_STAT_TC DATA_TIMEOUT ?w2 = (tc, w3)" by fastforce
    have c3: "\<forall>b. b \<noteq> ?a \<longrightarrow> blk w3 b = blk w b" "tc = PollOk \<Longrightarrow> blk w3 ?a = take 512 (drop off src)"
      using write_tc [OF t2(1) _ tc] t2(2) bytes_words [of off 128 src] Suc.prems(1) by (auto simp: words_of_def)
    have a0: "mmc_arg sdhc (lba + of_nat 0) = ?a" by simp
    show ?thesis
    proof (cases "tc = PollOk")
      case False
      then have "rc = E_FAIL" "w' = w3" using Suc.prems(3) p True tc by (cases tc; simp)+
      then show ?thesis using c3(1) a0 by (metis zero_less_Suc one_neq_neg_one zero_neq_neg_one)
    next
      case tcT: True
      let ?w4 = "mmio_write32 B MMC_STAT 0xFFFFFFFF w3"
      have c4: "blk ?w4 = blk w3" using control_frame [of MMC_STAT "0xFFFFFFFF" w3] by (simp add: vx_consts)
      have sh: "mmc_arg sdhc (lba + 1 + of_nat i) = mmc_arg sdhc (lba + of_nat (Suc i))" for i by (simp add: add.assoc)
      have ne: "mmc_arg sdhc (lba + of_nat (Suc i)) \<noteq> ?a" if "i < n" for i
        using inj_onD [OF Suc.prems(2), of "Suc i" 0] that by auto
      have "mmc_write_loop B sdhc (lba + 1) n (off + 512) src ?w4 = (rc, w')"
        using Suc.prems(3) p True tc tcT by simp
      moreover have "inj_on (\<lambda>i. mmc_arg sdhc (lba + 1 + of_nat i)) {..<n}"
      proof (rule inj_onI)
        fix x y assume "x \<in> {..<n}" "y \<in> {..<n}" "mmc_arg sdhc (lba + 1 + of_nat x) = mmc_arg sdhc (lba + 1 + of_nat y)"
        then have "Suc x = Suc y" unfolding sh by (intro inj_onD [OF Suc.prems(2)]) simp_all
        then show "x = y" by simp
      qed
      ultimately have i: "\<forall>b. (\<forall>i < n. b \<noteq> mmc_arg sdhc (lba + of_nat (Suc i))) \<longrightarrow> blk w' b = blk w3 b"
        "rc = E_OK \<Longrightarrow> \<forall>i < n. blk w' (mmc_arg sdhc (lba + of_nat (Suc i))) = take 512 (drop (off + 512 + 512 * i) src)"
        using Suc.IH [of "off + 512" "lba + 1" ?w4] Suc.prems(1) unfolding sh c4 by auto
      have "blk w' ?a = blk w3 ?a" using i(1) ne by metis
      moreover have "blk w' b = blk w b" if b: "\<forall>i < Suc n. b \<noteq> mmc_arg sdhc (lba + of_nat i)" for b
        using i(1) c3(1) b by (metis Suc_less_eq a0 zero_less_Suc)
      moreover have "blk w' (mmc_arg sdhc (lba + of_nat i)) = take 512 (drop (off + 512 * i) src)" if "rc = E_OK" "i < Suc n" for i
        using i(2) [OF that(1)] that(2) calculation(1) c3(2) [OF tcT] a0 by (cases i) (auto simp: algebra_simps)
      ultimately show ?thesis by blast
    qed
  qed
qed simp

lemma read_sectors:
  assumes "length buf = 512 * unat count" "mmc_read_sectors B sdhc lba count buf w = (rc, buf', w')"
  shows "blk w' = blk w \<and> length buf' = length buf \<and>
    (rc = E_OK \<longrightarrow> buf' = concat (map (\<lambda>i. blk w (mmc_arg sdhc (lba + of_nat i))) [0..<unat count]))"
proof -
  let ?bs = "concat (map (\<lambda>i. blk w (mmc_arg sdhc (lba + of_nat i))) [0..<unat count])"
  have "length ?bs = 512 * unat count" by (simp add: length_concat comp_def card_length sum_list_triv)
  then have "blit buf 0 ?bs = ?bs" using assms(1) by (intro blit_all) simp
  then show ?thesis using read_loop_sectors [of 0 "unat count" buf sdhc lba w rc buf' w'] assms by (simp add: mmc_read_sectors_def)
qed

end

subsection \<open>The sector device of the buffer cache\<close>

text \<open>The memory of block devices with the card at address 0 and none elsewhere.  A high-capacity card is
  addressed by sectors; for a standard one the address in bytes wraps beyond 4 GB.\<close>

definition mmc_mem :: "'w bus \<Rightarrow> bool \<Rightarrow> 'w bdev_mem" where
  "mmc_mem B sdhc p = (if p = 0 then mmc_bdev B sdhc else \<lparr>bd_name = [], bd_sector_size = 0, bd_total_sectors = 0, bd_ops = None\<rparr>)"

definition mmc_sector :: "('w \<Rightarrow> u32 \<Rightarrow> u8 list) \<Rightarrow> 'w \<Rightarrow> nat \<Rightarrow> u32 \<Rightarrow> u8 list" where
  "mmc_sector blk w p lba = (if p = 0 then blk w lba else replicate 512 0)"

sublocale sd_host \<subseteq> mmc: sector_device "mmc_mem B True" "mmc_sector blk"
proof
  fix w p lba
  show "length (mmc_sector blk w p lba) = BCACHE_BLOCK_SIZE" by (simp add: mmc_sector_def card_length BCACHE_BLOCK_SIZE_def)
next
  fix buf :: "u8 list" and p lba w d w' rc
  assume l: "length buf = BCACHE_BLOCK_SIZE"
  have r: "blk w' = blk w \<and> length d = 512 \<and> (rc = E_OK \<longrightarrow> d = blk w lba)" if "p = 0" "block_read (mmc_mem B True) (Some p) lba 1 buf w = (rc, d, w')" for d rc
    using read_sectors [of buf 1 True lba w rc d w'] that l
    by (simp add: block_read_def mmc_mem_def mmc_bdev_def mmc_bdev_read_def BCACHE_BLOCK_SIZE_def mmc_arg_def)
  have n: "rc = E_FAIL \<and> d = buf \<and> w' = w" if "p \<noteq> 0" "block_read (mmc_mem B True) (Some p) lba 1 buf w = (rc, d, w')" for d rc
    using that by (simp add: block_read_def mmc_mem_def)
  show "d = mmc_sector blk w p lba" if "block_read (mmc_mem B True) (Some p) lba 1 buf w = (E_OK, d, w')"
    using r [OF _ that] n [OF _ that] by (cases "p = 0") (auto simp: mmc_sector_def)
  show "length d = BCACHE_BLOCK_SIZE \<and> mmc_sector blk w' = mmc_sector blk w" if "block_read (mmc_mem B True) (Some p) lba 1 buf w = (rc, d, w')"
    using r [OF _ that] n [OF _ that] l by (cases "p = 0") (auto simp: mmc_sector_def BCACHE_BLOCK_SIZE_def fun_eq_iff)
next
  fix d :: "u8 list" and p lba w w' rc q l
  assume len: "length d = BCACHE_BLOCK_SIZE"
  have r: "(\<forall>b. b \<noteq> lba \<longrightarrow> blk w' b = blk w b) \<and> (rc = E_OK \<longrightarrow> blk w' lba = d)"
    if "p = 0" "block_write (mmc_mem B True) (Some p) lba 1 d w = (rc, w')" for rc
    using write_loop_sectors [of 0 1 d True lba w rc w'] that len inj_on_def [of "\<lambda>i. lba + of_nat i" "{..<Suc 0}"]
    by (simp add: block_write_def mmc_mem_def mmc_bdev_def mmc_bdev_write_def mmc_write_sectors_def BCACHE_BLOCK_SIZE_def mmc_arg_def)
  have n: "rc = E_PERM \<and> w' = w" if "p \<noteq> 0" "block_write (mmc_mem B True) (Some p) lba 1 d w = (rc, w')" for rc
    using that by (simp add: block_write_def mmc_mem_def)
  show "mmc_sector blk w' p lba = d" if "block_write (mmc_mem B True) (Some p) lba 1 d w = (E_OK, w')"
    using r [OF _ that] n [OF _ that] by (cases "p = 0") (auto simp: mmc_sector_def)
  show "mmc_sector blk w' q l = mmc_sector blk w q l" if "block_write (mmc_mem B True) (Some p) lba 1 d w = (rc, w')" "(q, l) \<noteq> (p, lba)"
    using r [OF _ that(1)] n [OF _ that(1)] that(2) by (cases "p = 0") (auto simp: mmc_sector_def)
qed

text \<open>C16: the sector functions of the driver, on any controller that keeps the data phases of the SD
  specification.  A read that returns \<open>E_OK\<close> has stored exactly the addressed sectors, in order; a write
  that returns \<open>E_OK\<close> has put exactly its data onto the addressed sectors; whatever they return, a read
  changes nothing on the card, and a write no sector but the addressed ones.\<close>

theorem mmc_sectors_correct:
  assumes "sd_host B blk reading sending writing taking" "length buf = 512 * unat count"
  shows "(case mmc_read_sectors B sdhc lba count buf w of (rc, data, w') \<Rightarrow>
      blk w' = blk w \<and> length data = length buf \<and>
      (rc = E_OK \<longrightarrow> data = concat (map (\<lambda>i. blk w (mmc_arg sdhc (lba + of_nat i))) [0..<unat count]))) \<and>
    (inj_on (\<lambda>i. mmc_arg sdhc (lba + of_nat i)) {..<unat count} \<longrightarrow>
      (case mmc_write_sectors B sdhc lba count buf w of (rc, w') \<Rightarrow>
        (\<forall>b. (\<forall>i < unat count. b \<noteq> mmc_arg sdhc (lba + of_nat i)) \<longrightarrow> blk w' b = blk w b) \<and>
        (rc = E_OK \<longrightarrow> (\<forall>i < unat count. blk w' (mmc_arg sdhc (lba + of_nat i)) = take 512 (drop (512 * i) buf)))))"
proof
  show "case mmc_read_sectors B sdhc lba count buf w of (rc, data, w') \<Rightarrow>
      blk w' = blk w \<and> length data = length buf \<and>
      (rc = E_OK \<longrightarrow> data = concat (map (\<lambda>i. blk w (mmc_arg sdhc (lba + of_nat i))) [0..<unat count]))"
    using sd_host.read_sectors [OF assms] by (auto split: prod.splits)
  have "case mmc_write_sectors B sdhc lba count buf w of (rc, w') \<Rightarrow>
        (\<forall>b. (\<forall>i < unat count. b \<noteq> mmc_arg sdhc (lba + of_nat i)) \<longrightarrow> blk w' b = blk w b) \<and>
        (rc = E_OK \<longrightarrow> (\<forall>i < unat count. blk w' (mmc_arg sdhc (lba + of_nat i)) = take 512 (drop (512 * i) buf)))"
    if "inj_on (\<lambda>i. mmc_arg sdhc (lba + of_nat i)) {..<unat count}"
  proof (cases "mmc_write_sectors B sdhc lba count buf w")
    case (Pair rc w')
    then show ?thesis
      using sd_host.write_loop_sectors [OF assms(1), of 0 "unat count" buf sdhc lba w rc w'] that assms(2)
      by (simp add: mmc_write_sectors_def)
  qed
  then show "inj_on (\<lambda>i. mmc_arg sdhc (lba + of_nat i)) {..<unat count} \<longrightarrow>
      (case mmc_write_sectors B sdhc lba count buf w of (rc, w') \<Rightarrow>
        (\<forall>b. (\<forall>i < unat count. b \<noteq> mmc_arg sdhc (lba + of_nat i)) \<longrightarrow> blk w' b = blk w b) \<and>
        (rc = E_OK \<longrightarrow> (\<forall>i < unat count. blk w' (mmc_arg sdhc (lba + of_nat i)) = take 512 (drop (512 * i) buf))))"
    by blast
qed

subsection \<open>A controller\<close>

text \<open>A controller that is always ready, with a card of 512-byte blocks.\<close>

record sim_sd =
  sd_blocks :: "u32 \<Rightarrow> u8 list"
  sd_arg :: u32
  sd_pos :: nat
  sd_words :: "u32 list"

definition sd_card :: "sim_sd \<Rightarrow> u32 \<Rightarrow> u8 list" where
  "sd_card w a = take 512 (sd_blocks w a @ replicate 512 0)"

definition sd_bus :: "sim_sd bus" where
  "sd_bus = \<lparr>mmio_read32 = (\<lambda>r w. if r = MMC_STAT then (0x33, w)
       else if r = MMC_DATA then (rd32 (sd_card w (sd_arg w)) (4 * sd_pos w), w\<lparr>sd_pos := sd_pos w + 1\<rparr>) else (0, w)),
     mmio_write32 = (\<lambda>r v w. if r = MMC_ARG then w\<lparr>sd_arg := v\<rparr>
       else if r = MMC_CMD then w\<lparr>sd_pos := 0, sd_words := []\<rparr>
       else if r = MMC_DATA then (let ws = sd_words w @ [v] in
         w\<lparr>sd_words := ws, sd_blocks := (if length ws = 128 then (sd_blocks w)(sd_arg w := bytes_of ws) else sd_blocks w)\<rparr>)
       else w),
     mem_load = (\<lambda>a n w. []), mem_store = (\<lambda>a bs w. w), timer_get_ticks = (\<lambda>w. (0, w))\<rparr>"

definition sd_sending :: "sim_sd \<Rightarrow> u32 \<Rightarrow> nat \<Rightarrow> bool" where
  "sd_sending w a k \<longleftrightarrow> sd_arg w = a \<and> sd_pos w = k"

definition sd_taking :: "sim_sd \<Rightarrow> u32 \<Rightarrow> u32 list \<Rightarrow> bool" where
  "sd_taking w a ws \<longleftrightarrow> sd_arg w = a \<and> sd_words w = ws \<and> (length ws = 128 \<longrightarrow> sd_blocks w a = bytes_of ws)"

interpretation sim: sd_host sd_bus sd_card "\<lambda>w a. sd_sending w a 0" sd_sending "\<lambda>w a. sd_taking w a []" sd_taking
  by unfold_locales
    (auto simp: sd_bus_def sd_card_def sd_sending_def sd_taking_def mmc_start_def vx_consts Let_def split: if_splits)

definition sd_demo :: "sim_sd \<Rightarrow> sim_sd" where
  "sd_demo s = s\<lparr>sd_blocks := (\<lambda>a. replicate 512 (ucast a))\<rparr>"

text \<open>Reads on this controller succeed.\<close>

lemma sd_wait: "DATA_TIMEOUT = Suc 9999999" by (simp add: DATA_TIMEOUT_def)

lemma sd_read_ok: "fst (mmc_read_loop sd_bus sdhc lba n off buf w) = E_OK"
proof (induction n arbitrary: lba off buf w)
  case (Suc n)
  have "data_wait sd_bus MMC_STAT_BRR DATA_TIMEOUT w = (PollOk, w)" "mmc_wait sd_bus MMC_STAT (\<lambda>v. v AND MMC_STAT_TC \<noteq> 0) DATA_TIMEOUT w = (True, w)" for w
  proof -
    have stat: "mmio_read32 sd_bus MMC_STAT w = (0x33, w)" by (simp add: sd_bus_def)
    show "data_wait sd_bus MMC_STAT_BRR DATA_TIMEOUT w = (PollOk, w)" "mmc_wait sd_bus MMC_STAT (\<lambda>v. v AND MMC_STAT_TC \<noteq> 0) DATA_TIMEOUT w = (True, w)"
      unfolding sd_wait data_wait.simps mmc_wait.simps stat by (simp_all add: MMC_STAT_BRR_def MMC_STAT_TC_def)
  qed
  then show ?case using Suc by (simp split: prod.splits)
qed simp

theorem mmc_sectors_correct_witness:
  "\<forall>s. \<exists>w'. mmc_read_sectors sd_bus True 7 2 (replicate 1024 0) (sd_demo s) = (E_OK, replicate 512 7 @ replicate 512 8, w') \<and> sd_card w' = sd_card (sd_demo s)"
proof
  fix s
  have c: "sd_card (sd_demo s) a = replicate 512 (ucast a)" for a by (simp add: sd_card_def sd_demo_def)
  obtain rc d w' where r: "mmc_read_sectors sd_bus True 7 2 (replicate 1024 0) (sd_demo s) = (rc, d, w')" by (metis prod_cases3)
  have "rc = E_OK" using sd_read_ok [of True 7 "unat (2 :: u32)" 0 "replicate 1024 0" "sd_demo s"] r by (simp only: mmc_read_sectors_def prod.sel)
  moreover have "sd_card w' = sd_card (sd_demo s) \<and> (rc = E_OK \<longrightarrow> d = replicate 512 7 @ replicate 512 8)"
  proof -
    have l: "length (replicate 1024 (0 :: u8)) = 512 * unat (2 :: u32)" by simp
    have "[0..<unat (2 :: u32)] = [0, 1]" by (simp add: upt_rec)
    then have k: "concat (map (\<lambda>i. sd_card (sd_demo s) (mmc_arg True (7 + of_nat i))) [0..<unat (2 :: u32)]) = replicate 512 7 @ replicate 512 8"
      by (simp add: mmc_arg_def c)
    show ?thesis
      using mmc_sectors_correct [OF sim.sd_host_axioms l, where sdhc = True and lba = 7 and w = "sd_demo s"]
      unfolding r prod.case k by blast
  qed
  ultimately show "\<exists>w'. mmc_read_sectors sd_bus True 7 2 (replicate 1024 0) (sd_demo s) = (E_OK, replicate 512 7 @ replicate 512 8, w') \<and>
      sd_card w' = sd_card (sd_demo s)" using r by simp
qed

text \<open>The partition table: the first entry of one of the two FAT32 types, taken from sector 0 of the card.\<close>

lemma mbr_first_fat32:
  assumes "sd_host B blk reading sending writing taking" "length buf = 512" "mbr_find_fat32 B sdhc buf w = (rc, r, w')"
  shows "blk w' = blk w \<and> (rc = E_OK \<longrightarrow> rd16 (blk w 0) MBR_SIG_OFFSET = MBR_SIG_VALUE \<and>
    (\<exists>i < MBR_NUM_PARTITIONS. is_fat32 (blk w 0) i \<and> (\<forall>j < i. \<not> is_fat32 (blk w 0) j) \<and>
       r = Some (rd32 (blk w 0) (part_entry i + 8), rd32 (blk w 0) (part_entry i + 12))))"
proof -
  obtain rc1 b w1 where m: "mmc_read_sectors B sdhc 0 1 buf w = (rc1, b, w1)" by (metis prod_cases3)
  have "blk w1 = blk w" "rc1 = E_OK \<Longrightarrow> b = blk w 0"
    using sd_host.read_sectors [OF assms(1) _ m] assms(2) by (simp_all add: mmc_arg_def)
  then show ?thesis using assms(3) m
    by (auto simp: mbr_find_fat32_def split: if_splits option.splits dest: first_idx_SomeD)
qed

end
