(* ===== verification/Fb.thy ===== *)
theory Fb
  imports Vx_Base
begin

section \<open>The framebuffer (\<open>kernel/src/drivers/fb.c\<close>)\<close>

text \<open>
  The framebuffer is an array of 16-bit pixels, row by row; its address only matters for the alignment of
  the 32-bit stores, which fill two pixels at a time.  A store outside of the array is the fault
  \<open>OutOfBounds\<close>.  Coordinates are \<open>uint32_t\<close> and wrap.  The loop of the integer square root need not
  end, since its square wraps; it is a \<open>partial_function\<close>.
\<close>

subsection \<open>The code\<close>

record fb_state =
  g_fb :: "u16 list"
  g_base :: u32
  g_width :: u32
  g_height :: u32
  g_pitch :: u32
  con_col :: u32
  con_row :: u32
  con_max_col :: u32
  con_max_row :: u32
  con_fg :: u16
  con_bg :: u16
  con_enabled :: int

definition FB_FONT_W :: u32 where [vx_consts]: "FB_FONT_W = 8"
definition FB_FONT_H :: u32 where [vx_consts]: "FB_FONT_H = 16"

definition FB_RGB :: "u32 \<Rightarrow> u32 \<Rightarrow> u32 \<Rightarrow> u16" where
  "FB_RGB r g b = ucast (push_bit 11 (drop_bit 3 r) OR push_bit 5 (drop_bit 2 g) OR drop_bit 3 b)"

definition font8x16 :: "u8 list list" where
  "font8x16 = [
   [0x00, 0x00, 0x00, 0x00, 0x00, 0x00, 0x00, 0x00, 0x00, 0x00, 0x00, 0x00, 0x00, 0x00, 0x00, 0x00],
   [0x00, 0x00, 0x18, 0x3C, 0x3C, 0x3C, 0x18, 0x18, 0x18, 0x00, 0x18, 0x18, 0x00, 0x00, 0x00, 0x00],
   [0x00, 0x66, 0x66, 0x66, 0x24, 0x00, 0x00, 0x00, 0x00, 0x00, 0x00, 0x00, 0x00, 0x00, 0x00, 0x00],
   [0x00, 0x00, 0x00, 0x6C, 0x6C, 0xFE, 0x6C, 0x6C, 0x6C, 0xFE, 0x6C, 0x6C, 0x00, 0x00, 0x00, 0x00],
   [0x18, 0x18, 0x7C, 0xC6, 0xC2, 0xC0, 0x7C, 0x06, 0x06, 0x86, 0xC6, 0x7C, 0x18, 0x18, 0x00, 0x00],
   [0x00, 0x00, 0x00, 0x00, 0xC2, 0xC6, 0x0C, 0x18, 0x30, 0x60, 0xC6, 0x86, 0x00, 0x00, 0x00, 0x00],
   [0x00, 0x00, 0x38, 0x6C, 0x6C, 0x38, 0x76, 0xDC, 0xCC, 0xCC, 0xCC, 0x76, 0x00, 0x00, 0x00, 0x00],
   [0x00, 0x30, 0x30, 0x30, 0x60, 0x00, 0x00, 0x00, 0x00, 0x00, 0x00, 0x00, 0x00, 0x00, 0x00, 0x00],
   [0x00, 0x00, 0x0C, 0x18, 0x30, 0x30, 0x30, 0x30, 0x30, 0x30, 0x18, 0x0C, 0x00, 0x00, 0x00, 0x00],
   [0x00, 0x00, 0x30, 0x18, 0x0C, 0x0C, 0x0C, 0x0C, 0x0C, 0x0C, 0x18, 0x30, 0x00, 0x00, 0x00, 0x00],
   [0x00, 0x00, 0x00, 0x00, 0x00, 0x66, 0x3C, 0xFF, 0x3C, 0x66, 0x00, 0x00, 0x00, 0x00, 0x00, 0x00],
   [0x00, 0x00, 0x00, 0x00, 0x00, 0x18, 0x18, 0x7E, 0x18, 0x18, 0x00, 0x00, 0x00, 0x00, 0x00, 0x00],
   [0x00, 0x00, 0x00, 0x00, 0x00, 0x00, 0x00, 0x00, 0x00, 0x18, 0x18, 0x18, 0x30, 0x00, 0x00, 0x00],
   [0x00, 0x00, 0x00, 0x00, 0x00, 0x00, 0x00, 0xFE, 0x00, 0x00, 0x00, 0x00, 0x00, 0x00, 0x00, 0x00],
   [0x00, 0x00, 0x00, 0x00, 0x00, 0x00, 0x00, 0x00, 0x00, 0x00, 0x18, 0x18, 0x00, 0x00, 0x00, 0x00],
   [0x00, 0x00, 0x00, 0x00, 0x02, 0x06, 0x0C, 0x18, 0x30, 0x60, 0xC0, 0x80, 0x00, 0x00, 0x00, 0x00],
   [0x00, 0x00, 0x7C, 0xC6, 0xC6, 0xCE, 0xDE, 0xF6, 0xE6, 0xC6, 0xC6, 0x7C, 0x00, 0x00, 0x00, 0x00],
   [0x00, 0x00, 0x18, 0x38, 0x78, 0x18, 0x18, 0x18, 0x18, 0x18, 0x18, 0x7E, 0x00, 0x00, 0x00, 0x00],
   [0x00, 0x00, 0x7C, 0xC6, 0x06, 0x0C, 0x18, 0x30, 0x60, 0xC0, 0xC6, 0xFE, 0x00, 0x00, 0x00, 0x00],
   [0x00, 0x00, 0x7C, 0xC6, 0x06, 0x06, 0x3C, 0x06, 0x06, 0x06, 0xC6, 0x7C, 0x00, 0x00, 0x00, 0x00],
   [0x00, 0x00, 0x0C, 0x1C, 0x3C, 0x6C, 0xCC, 0xFE, 0x0C, 0x0C, 0x0C, 0x1E, 0x00, 0x00, 0x00, 0x00],
   [0x00, 0x00, 0xFE, 0xC0, 0xC0, 0xC0, 0xFC, 0x06, 0x06, 0x06, 0xC6, 0x7C, 0x00, 0x00, 0x00, 0x00],
   [0x00, 0x00, 0x38, 0x60, 0xC0, 0xC0, 0xFC, 0xC6, 0xC6, 0xC6, 0xC6, 0x7C, 0x00, 0x00, 0x00, 0x00],
   [0x00, 0x00, 0xFE, 0xC6, 0x06, 0x06, 0x0C, 0x18, 0x30, 0x30, 0x30, 0x30, 0x00, 0x00, 0x00, 0x00],
   [0x00, 0x00, 0x7C, 0xC6, 0xC6, 0xC6, 0x7C, 0xC6, 0xC6, 0xC6, 0xC6, 0x7C, 0x00, 0x00, 0x00, 0x00],
   [0x00, 0x00, 0x7C, 0xC6, 0xC6, 0xC6, 0x7E, 0x06, 0x06, 0x06, 0x0C, 0x78, 0x00, 0x00, 0x00, 0x00],
   [0x00, 0x00, 0x00, 0x00, 0x18, 0x18, 0x00, 0x00, 0x00, 0x18, 0x18, 0x00, 0x00, 0x00, 0x00, 0x00],
   [0x00, 0x00, 0x00, 0x00, 0x18, 0x18, 0x00, 0x00, 0x00, 0x18, 0x18, 0x30, 0x00, 0x00, 0x00, 0x00],
   [0x00, 0x00, 0x00, 0x06, 0x0C, 0x18, 0x30, 0x60, 0x30, 0x18, 0x0C, 0x06, 0x00, 0x00, 0x00, 0x00],
   [0x00, 0x00, 0x00, 0x00, 0x00, 0x7E, 0x00, 0x00, 0x7E, 0x00, 0x00, 0x00, 0x00, 0x00, 0x00, 0x00],
   [0x00, 0x00, 0x00, 0x60, 0x30, 0x18, 0x0C, 0x06, 0x0C, 0x18, 0x30, 0x60, 0x00, 0x00, 0x00, 0x00],
   [0x00, 0x00, 0x7C, 0xC6, 0xC6, 0x0C, 0x18, 0x18, 0x18, 0x00, 0x18, 0x18, 0x00, 0x00, 0x00, 0x00],
   [0x00, 0x00, 0x00, 0x7C, 0xC6, 0xC6, 0xDE, 0xDE, 0xDE, 0xDC, 0xC0, 0x7C, 0x00, 0x00, 0x00, 0x00],
   [0x00, 0x00, 0x10, 0x38, 0x6C, 0xC6, 0xC6, 0xFE, 0xC6, 0xC6, 0xC6, 0xC6, 0x00, 0x00, 0x00, 0x00],
   [0x00, 0x00, 0xFC, 0x66, 0x66, 0x66, 0x7C, 0x66, 0x66, 0x66, 0x66, 0xFC, 0x00, 0x00, 0x00, 0x00],
   [0x00, 0x00, 0x3C, 0x66, 0xC2, 0xC0, 0xC0, 0xC0, 0xC0, 0xC2, 0x66, 0x3C, 0x00, 0x00, 0x00, 0x00],
   [0x00, 0x00, 0xF8, 0x6C, 0x66, 0x66, 0x66, 0x66, 0x66, 0x66, 0x6C, 0xF8, 0x00, 0x00, 0x00, 0x00],
   [0x00, 0x00, 0xFE, 0x66, 0x62, 0x68, 0x78, 0x68, 0x60, 0x62, 0x66, 0xFE, 0x00, 0x00, 0x00, 0x00],
   [0x00, 0x00, 0xFE, 0x66, 0x62, 0x68, 0x78, 0x68, 0x60, 0x60, 0x60, 0xF0, 0x00, 0x00, 0x00, 0x00],
   [0x00, 0x00, 0x3C, 0x66, 0xC2, 0xC0, 0xC0, 0xDE, 0xC6, 0xC6, 0x66, 0x3A, 0x00, 0x00, 0x00, 0x00],
   [0x00, 0x00, 0xC6, 0xC6, 0xC6, 0xC6, 0xFE, 0xC6, 0xC6, 0xC6, 0xC6, 0xC6, 0x00, 0x00, 0x00, 0x00],
   [0x00, 0x00, 0x3C, 0x18, 0x18, 0x18, 0x18, 0x18, 0x18, 0x18, 0x18, 0x3C, 0x00, 0x00, 0x00, 0x00],
   [0x00, 0x00, 0x1E, 0x0C, 0x0C, 0x0C, 0x0C, 0x0C, 0xCC, 0xCC, 0xCC, 0x78, 0x00, 0x00, 0x00, 0x00],
   [0x00, 0x00, 0xE6, 0x66, 0x66, 0x6C, 0x78, 0x78, 0x6C, 0x66, 0x66, 0xE6, 0x00, 0x00, 0x00, 0x00],
   [0x00, 0x00, 0xF0, 0x60, 0x60, 0x60, 0x60, 0x60, 0x60, 0x62, 0x66, 0xFE, 0x00, 0x00, 0x00, 0x00],
   [0x00, 0x00, 0xC6, 0xEE, 0xFE, 0xFE, 0xD6, 0xC6, 0xC6, 0xC6, 0xC6, 0xC6, 0x00, 0x00, 0x00, 0x00],
   [0x00, 0x00, 0xC6, 0xE6, 0xF6, 0xFE, 0xDE, 0xCE, 0xC6, 0xC6, 0xC6, 0xC6, 0x00, 0x00, 0x00, 0x00],
   [0x00, 0x00, 0x7C, 0xC6, 0xC6, 0xC6, 0xC6, 0xC6, 0xC6, 0xC6, 0xC6, 0x7C, 0x00, 0x00, 0x00, 0x00],
   [0x00, 0x00, 0xFC, 0x66, 0x66, 0x66, 0x7C, 0x60, 0x60, 0x60, 0x60, 0xF0, 0x00, 0x00, 0x00, 0x00],
   [0x00, 0x00, 0x7C, 0xC6, 0xC6, 0xC6, 0xC6, 0xC6, 0xC6, 0xD6, 0xDE, 0x7C, 0x0C, 0x0E, 0x00, 0x00],
   [0x00, 0x00, 0xFC, 0x66, 0x66, 0x66, 0x7C, 0x6C, 0x66, 0x66, 0x66, 0xE6, 0x00, 0x00, 0x00, 0x00],
   [0x00, 0x00, 0x7C, 0xC6, 0xC6, 0x60, 0x38, 0x0C, 0x06, 0xC6, 0xC6, 0x7C, 0x00, 0x00, 0x00, 0x00],
   [0x00, 0x00, 0xFF, 0xDB, 0x99, 0x18, 0x18, 0x18, 0x18, 0x18, 0x18, 0x3C, 0x00, 0x00, 0x00, 0x00],
   [0x00, 0x00, 0xC6, 0xC6, 0xC6, 0xC6, 0xC6, 0xC6, 0xC6, 0xC6, 0xC6, 0x7C, 0x00, 0x00, 0x00, 0x00],
   [0x00, 0x00, 0xC6, 0xC6, 0xC6, 0xC6, 0xC6, 0xC6, 0xC6, 0x6C, 0x38, 0x10, 0x00, 0x00, 0x00, 0x00],
   [0x00, 0x00, 0xC6, 0xC6, 0xC6, 0xC6, 0xD6, 0xD6, 0xD6, 0xFE, 0xEE, 0x6C, 0x00, 0x00, 0x00, 0x00],
   [0x00, 0x00, 0xC6, 0xC6, 0x6C, 0x7C, 0x38, 0x38, 0x7C, 0x6C, 0xC6, 0xC6, 0x00, 0x00, 0x00, 0x00],
   [0x00, 0x00, 0xC6, 0xC6, 0xC6, 0x6C, 0x38, 0x18, 0x18, 0x18, 0x18, 0x3C, 0x00, 0x00, 0x00, 0x00],
   [0x00, 0x00, 0xFE, 0xC6, 0x86, 0x0C, 0x18, 0x30, 0x60, 0xC2, 0xC6, 0xFE, 0x00, 0x00, 0x00, 0x00],
   [0x00, 0x00, 0x3C, 0x30, 0x30, 0x30, 0x30, 0x30, 0x30, 0x30, 0x30, 0x3C, 0x00, 0x00, 0x00, 0x00],
   [0x00, 0x00, 0x00, 0x80, 0xC0, 0xE0, 0x70, 0x38, 0x1C, 0x0E, 0x06, 0x02, 0x00, 0x00, 0x00, 0x00],
   [0x00, 0x00, 0x3C, 0x0C, 0x0C, 0x0C, 0x0C, 0x0C, 0x0C, 0x0C, 0x0C, 0x3C, 0x00, 0x00, 0x00, 0x00],
   [0x10, 0x38, 0x6C, 0xC6, 0x00, 0x00, 0x00, 0x00, 0x00, 0x00, 0x00, 0x00, 0x00, 0x00, 0x00, 0x00],
   [0x00, 0x00, 0x00, 0x00, 0x00, 0x00, 0x00, 0x00, 0x00, 0x00, 0x00, 0x00, 0x00, 0xFF, 0x00, 0x00],
   [0x00, 0x30, 0x18, 0x0C, 0x00, 0x00, 0x00, 0x00, 0x00, 0x00, 0x00, 0x00, 0x00, 0x00, 0x00, 0x00],
   [0x00, 0x00, 0x00, 0x00, 0x00, 0x78, 0x0C, 0x7C, 0xCC, 0xCC, 0xCC, 0x76, 0x00, 0x00, 0x00, 0x00],
   [0x00, 0x00, 0xE0, 0x60, 0x60, 0x78, 0x6C, 0x66, 0x66, 0x66, 0x66, 0x7C, 0x00, 0x00, 0x00, 0x00],
   [0x00, 0x00, 0x00, 0x00, 0x00, 0x7C, 0xC6, 0xC0, 0xC0, 0xC0, 0xC6, 0x7C, 0x00, 0x00, 0x00, 0x00],
   [0x00, 0x00, 0x1C, 0x0C, 0x0C, 0x3C, 0x6C, 0xCC, 0xCC, 0xCC, 0xCC, 0x76, 0x00, 0x00, 0x00, 0x00],
   [0x00, 0x00, 0x00, 0x00, 0x00, 0x7C, 0xC6, 0xFE, 0xC0, 0xC0, 0xC6, 0x7C, 0x00, 0x00, 0x00, 0x00],
   [0x00, 0x00, 0x1C, 0x36, 0x32, 0x30, 0x78, 0x30, 0x30, 0x30, 0x30, 0x78, 0x00, 0x00, 0x00, 0x00],
   [0x00, 0x00, 0x00, 0x00, 0x00, 0x76, 0xCC, 0xCC, 0xCC, 0xCC, 0xCC, 0x7C, 0x0C, 0xCC, 0x78, 0x00],
   [0x00, 0x00, 0xE0, 0x60, 0x60, 0x6C, 0x76, 0x66, 0x66, 0x66, 0x66, 0xE6, 0x00, 0x00, 0x00, 0x00],
   [0x00, 0x00, 0x18, 0x18, 0x00, 0x38, 0x18, 0x18, 0x18, 0x18, 0x18, 0x3C, 0x00, 0x00, 0x00, 0x00],
   [0x00, 0x00, 0x06, 0x06, 0x00, 0x0E, 0x06, 0x06, 0x06, 0x06, 0x06, 0x06, 0x66, 0x66, 0x3C, 0x00],
   [0x00, 0x00, 0xE0, 0x60, 0x60, 0x66, 0x6C, 0x78, 0x78, 0x6C, 0x66, 0xE6, 0x00, 0x00, 0x00, 0x00],
   [0x00, 0x00, 0x38, 0x18, 0x18, 0x18, 0x18, 0x18, 0x18, 0x18, 0x18, 0x3C, 0x00, 0x00, 0x00, 0x00],
   [0x00, 0x00, 0x00, 0x00, 0x00, 0xEC, 0xFE, 0xD6, 0xD6, 0xD6, 0xD6, 0xC6, 0x00, 0x00, 0x00, 0x00],
   [0x00, 0x00, 0x00, 0x00, 0x00, 0xDC, 0x66, 0x66, 0x66, 0x66, 0x66, 0x66, 0x00, 0x00, 0x00, 0x00],
   [0x00, 0x00, 0x00, 0x00, 0x00, 0x7C, 0xC6, 0xC6, 0xC6, 0xC6, 0xC6, 0x7C, 0x00, 0x00, 0x00, 0x00],
   [0x00, 0x00, 0x00, 0x00, 0x00, 0xDC, 0x66, 0x66, 0x66, 0x66, 0x66, 0x7C, 0x60, 0x60, 0xF0, 0x00],
   [0x00, 0x00, 0x00, 0x00, 0x00, 0x76, 0xCC, 0xCC, 0xCC, 0xCC, 0xCC, 0x7C, 0x0C, 0x0C, 0x1E, 0x00],
   [0x00, 0x00, 0x00, 0x00, 0x00, 0xDC, 0x76, 0x66, 0x60, 0x60, 0x60, 0xF0, 0x00, 0x00, 0x00, 0x00],
   [0x00, 0x00, 0x00, 0x00, 0x00, 0x7C, 0xC6, 0x60, 0x38, 0x0C, 0xC6, 0x7C, 0x00, 0x00, 0x00, 0x00],
   [0x00, 0x00, 0x10, 0x30, 0x30, 0xFC, 0x30, 0x30, 0x30, 0x30, 0x36, 0x1C, 0x00, 0x00, 0x00, 0x00],
   [0x00, 0x00, 0x00, 0x00, 0x00, 0xCC, 0xCC, 0xCC, 0xCC, 0xCC, 0xCC, 0x76, 0x00, 0x00, 0x00, 0x00],
   [0x00, 0x00, 0x00, 0x00, 0x00, 0xC6, 0xC6, 0xC6, 0xC6, 0x6C, 0x38, 0x10, 0x00, 0x00, 0x00, 0x00],
   [0x00, 0x00, 0x00, 0x00, 0x00, 0xC6, 0xC6, 0xD6, 0xD6, 0xD6, 0xFE, 0x6C, 0x00, 0x00, 0x00, 0x00],
   [0x00, 0x00, 0x00, 0x00, 0x00, 0xC6, 0x6C, 0x38, 0x38, 0x38, 0x6C, 0xC6, 0x00, 0x00, 0x00, 0x00],
   [0x00, 0x00, 0x00, 0x00, 0x00, 0xC6, 0xC6, 0xC6, 0xC6, 0xC6, 0xC6, 0x7E, 0x06, 0x0C, 0xF8, 0x00],
   [0x00, 0x00, 0x00, 0x00, 0x00, 0xFE, 0xCC, 0x18, 0x30, 0x60, 0xC6, 0xFE, 0x00, 0x00, 0x00, 0x00],
   [0x00, 0x00, 0x0E, 0x18, 0x18, 0x18, 0x70, 0x18, 0x18, 0x18, 0x18, 0x0E, 0x00, 0x00, 0x00, 0x00],
   [0x00, 0x00, 0x18, 0x18, 0x18, 0x18, 0x00, 0x18, 0x18, 0x18, 0x18, 0x18, 0x00, 0x00, 0x00, 0x00],
   [0x00, 0x00, 0x70, 0x18, 0x18, 0x18, 0x0E, 0x18, 0x18, 0x18, 0x18, 0x70, 0x00, 0x00, 0x00, 0x00],
   [0x00, 0x00, 0x76, 0xDC, 0x00, 0x00, 0x00, 0x00, 0x00, 0x00, 0x00, 0x00, 0x00, 0x00, 0x00, 0x00]]"

text \<open>What the display controller answers (\<open>lcdc_get_framebuffer\<close>, \<open>lcdc_get_width\<close>, \<open>\<dots>\<close>) is a parameter.\<close>

definition fb_init :: "u32 \<Rightarrow> u16 list \<Rightarrow> u32 \<Rightarrow> u32 \<Rightarrow> u32 \<Rightarrow> fb_state \<Rightarrow> fb_state" where
  "fb_init base mem width height pitch s = s\<lparr>g_base := base, g_fb := mem, g_width := width, g_height := height, g_pitch := pitch\<rparr>"

definition put16 :: "u32 \<Rightarrow> u16 \<Rightarrow> fb_state \<Rightarrow> fault + fb_state" where
  "put16 i c s = (if unat i < length (g_fb s) then Inr (s\<lparr>g_fb := (g_fb s)[unat i := c]\<rparr>) else Inl OutOfBounds)"

text \<open>A 32-bit store covers two pixels, the lower half first.\<close>

definition put32 :: "u32 \<Rightarrow> u32 \<Rightarrow> fb_state \<Rightarrow> fault + fb_state" where
  "put32 i v s = fbind (put16 i (ucast v) s) (put16 (i + 1) (ucast (drop_bit 16 v)))"

definition pack :: "u16 \<Rightarrow> u32" where
  "pack color = (push_bit 16 (ucast color) OR ucast color)"

fun put_pairs :: "nat \<Rightarrow> u32 \<Rightarrow> u32 \<Rightarrow> fb_state \<Rightarrow> fault + fb_state" where
  "put_pairs 0 i v s = Inr s"
| "put_pairs (Suc n) i v s = fbind (put32 i v s) (put_pairs n (i + 2) v)"

definition fb_putpixel :: "u32 \<Rightarrow> u32 \<Rightarrow> u16 \<Rightarrow> fb_state \<Rightarrow> fault + fb_state" where
  "fb_putpixel x y color s = (if x < g_width s \<and> y < g_height s then put16 (y * g_width s + x) color s else Inr s)"

definition fill_line :: "u32 \<Rightarrow> u32 \<Rightarrow> u16 \<Rightarrow> fb_state \<Rightarrow> fault + fb_state" where
  "fill_line line w color s =
     (let odd_start = ((g_base s + 2 * line) AND 2 \<noteq> 0 \<and> 0 < w); col = (if odd_start then 1 else 0); pairs = (w - col) div 2 in
      fbind (if odd_start then put16 line color s else Inr s) (\<lambda>s.
      fbind (put_pairs (unat pairs) (line + col) (pack color) s) (\<lambda>s.
        if col + pairs * 2 < w then put16 (line + (col + pairs * 2)) color s else Inr s)))"

fun fill_rows :: "nat \<Rightarrow> u32 \<Rightarrow> u32 \<Rightarrow> u32 \<Rightarrow> u16 \<Rightarrow> fb_state \<Rightarrow> fault + fb_state" where
  "fill_rows 0 row x w color s = Inr s"
| "fill_rows (Suc n) row x w color s = fbind (fill_line (row * g_width s + x) w color s) (fill_rows n (row + 1) x w color)"

definition fb_fillrect :: "u32 \<Rightarrow> u32 \<Rightarrow> u32 \<Rightarrow> u32 \<Rightarrow> u16 \<Rightarrow> fb_state \<Rightarrow> fault + fb_state" where
  "fb_fillrect x y w h color s =
     (if x \<ge> g_width s \<or> y \<ge> g_height s then Inr s
      else let w' = (if x + w > g_width s then g_width s - x else w);
               h' = (if y + h > g_height s then g_height s - y else h) in
        fill_rows (unat (y + h') - unat y) y x w' color s)"

definition fb_clear :: "u16 \<Rightarrow> fb_state \<Rightarrow> fault + fb_state" where
  "fb_clear color s = put_pairs (unat ((g_width s * g_height s) div 2)) 0 (pack color) s"

fun char_cols :: "nat \<Rightarrow> u32 \<Rightarrow> u32 \<Rightarrow> u8 \<Rightarrow> u16 \<Rightarrow> u16 \<Rightarrow> fb_state \<Rightarrow> fault + fb_state" where
  "char_cols 0 px py bits fg bg s = Inr s"
| "char_cols (Suc n) px py bits fg bg s =
     (if px \<ge> g_width s then Inr s
      else fbind (put16 (py * g_width s + px) (if bits AND 0x80 \<noteq> 0 then fg else bg) s)
        (char_cols n (px + 1) py (push_bit 1 bits) fg bg))"

fun char_rows :: "u8 list \<Rightarrow> u32 \<Rightarrow> u32 \<Rightarrow> u16 \<Rightarrow> u16 \<Rightarrow> fb_state \<Rightarrow> fault + fb_state" where
  "char_rows [] x py fg bg s = Inr s"
| "char_rows (bits # bs) x py fg bg s =
     (if py \<ge> g_height s then Inr s
      else fbind (char_cols (unat FB_FONT_W) x py bits fg bg s) (char_rows bs x (py + 1) fg bg))"

definition glyph :: "u8 \<Rightarrow> u8 list" where
  "glyph c = font8x16 ! (unat (if c < 32 \<or> c > 126 then 63 else c) - 32)"

definition fb_draw_char :: "u32 \<Rightarrow> u32 \<Rightarrow> u8 \<Rightarrow> u16 \<Rightarrow> u16 \<Rightarrow> fb_state \<Rightarrow> fault + fb_state" where
  "fb_draw_char x y c fg bg s = char_rows (glyph c) x y fg bg s"

fun fb_puts :: "u32 \<Rightarrow> u32 \<Rightarrow> cstring \<Rightarrow> u16 \<Rightarrow> u16 \<Rightarrow> fb_state \<Rightarrow> fault + fb_state" where
  "fb_puts x y [] fg bg s = Inr s"
| "fb_puts x y (c # str) fg bg s =
     (if c = 0 \<or> x + FB_FONT_W > g_width s then Inr s
      else fbind (fb_draw_char x y c fg bg s) (fb_puts (x + FB_FONT_W) y str fg bg))"

definition fb_print :: "u32 \<Rightarrow> u32 \<Rightarrow> cstring \<Rightarrow> u16 \<Rightarrow> u16 \<Rightarrow> fb_state \<Rightarrow> fault + fb_state" where
  "fb_print col row str fg bg = fb_puts (col * FB_FONT_W) (row * FB_FONT_H) str fg bg"

fun scaled_cols :: "nat \<Rightarrow> u32 \<Rightarrow> u32 \<Rightarrow> u8 \<Rightarrow> u16 \<Rightarrow> u16 \<Rightarrow> u32 \<Rightarrow> fb_state \<Rightarrow> fault + fb_state" where
  "scaled_cols 0 x y bits fg bg scale s = Inr s"
| "scaled_cols (Suc n) x y bits fg bg scale s =
     fbind (fb_fillrect x y scale scale (if bits AND 0x80 \<noteq> 0 then fg else bg) s)
       (scaled_cols n (x + scale) y (push_bit 1 bits) fg bg scale)"

fun scaled_rows :: "u8 list \<Rightarrow> u32 \<Rightarrow> u32 \<Rightarrow> u16 \<Rightarrow> u16 \<Rightarrow> u32 \<Rightarrow> fb_state \<Rightarrow> fault + fb_state" where
  "scaled_rows [] x y fg bg scale s = Inr s"
| "scaled_rows (bits # bs) x y fg bg scale s =
     fbind (scaled_cols (unat FB_FONT_W) x y bits fg bg scale s) (scaled_rows bs x (y + scale) fg bg scale)"

definition fb_draw_char_scaled :: "u32 \<Rightarrow> u32 \<Rightarrow> u8 \<Rightarrow> u16 \<Rightarrow> u16 \<Rightarrow> u32 \<Rightarrow> fb_state \<Rightarrow> fault + fb_state" where
  "fb_draw_char_scaled x y c fg bg scale s = scaled_rows (glyph c) x y fg bg scale s"

fun fb_puts_scaled :: "u32 \<Rightarrow> u32 \<Rightarrow> cstring \<Rightarrow> u16 \<Rightarrow> u16 \<Rightarrow> u32 \<Rightarrow> fb_state \<Rightarrow> fault + fb_state" where
  "fb_puts_scaled x y [] fg bg scale s = Inr s"
| "fb_puts_scaled x y (c # str) fg bg scale s =
     (if c = 0 then Inr s
      else fbind (fb_draw_char_scaled x y c fg bg scale s) (fb_puts_scaled (x + FB_FONT_W * scale) y str fg bg scale))"

partial_function (option) isqrt_loop :: "u32 \<Rightarrow> u32 \<Rightarrow> u32 option" where
  "isqrt_loop n x = (if (x + 1) * (x + 1) \<le> n then isqrt_loop n (x + 1) else Some x)"

definition fb_isqrt :: "u32 \<Rightarrow> u32 option" where
  "fb_isqrt n = isqrt_loop n 0"

definition circle_line :: "u32 \<Rightarrow> u32 \<Rightarrow> u32 \<Rightarrow> u32 \<Rightarrow> u16 \<Rightarrow> fb_state \<Rightarrow> (fault + fb_state) option" where
  "circle_line cx cy r dy color s = (case fb_isqrt (r * r - dy * dy) of
     None \<Rightarrow> None
   | Some dx \<Rightarrow> Some (fbind (fb_fillrect (cx - dx) (cy - dy) (2 * dx + 1) 1 color s) (\<lambda>s.
       if dy > 0 then fb_fillrect (cx - dx) (cy + dy) (2 * dx + 1) 1 color s else Inr s)))"

text \<open>\<open>for (dy = 0; dy <= r; dy++)\<close>: for the largest radius the condition always holds, and the loop does not end.\<close>

fun circle_loop :: "nat \<Rightarrow> u32 \<Rightarrow> u32 \<Rightarrow> u32 \<Rightarrow> u32 \<Rightarrow> u16 \<Rightarrow> fb_state \<Rightarrow> (fault + fb_state) option" where
  "circle_loop 0 dy cx cy r color s = Some (Inr s)"
| "circle_loop (Suc n) dy cx cy r color s = (case circle_line cx cy r dy color s of
     None \<Rightarrow> None | Some (Inl e) \<Rightarrow> Some (Inl e) | Some (Inr s') \<Rightarrow> circle_loop n (dy + 1) cx cy r color s')"

definition fb_fillcircle :: "u32 \<Rightarrow> u32 \<Rightarrow> u32 \<Rightarrow> u16 \<Rightarrow> fb_state \<Rightarrow> (fault + fb_state) option" where
  "fb_fillcircle cx cy r color s = (if r = 0xFFFFFFFF then None else circle_loop (Suc (unat r)) 0 cx cy r color s)"

subsection \<open>Console mode\<close>

definition fb_console_init :: "u16 \<Rightarrow> u16 \<Rightarrow> fb_state \<Rightarrow> fault + fb_state" where
  "fb_console_init fg bg s = fb_clear bg (s\<lparr>con_fg := fg, con_bg := bg, con_col := 0, con_row := 0,
     con_max_col := g_width s div FB_FONT_W, con_max_row := g_height s div FB_FONT_H, con_enabled := 1\<rparr>)"

fun copy_up :: "nat \<Rightarrow> u32 \<Rightarrow> u32 \<Rightarrow> fb_state \<Rightarrow> fault + fb_state" where
  "copy_up 0 i off s = Inr s"
| "copy_up (Suc n) i off s =
     (if unat (i + off) < length (g_fb s) then fbind (put16 i (g_fb s ! unat (i + off)) s) (copy_up n (i + 1) off) else Inl OutOfBounds)"

fun put_run :: "nat \<Rightarrow> u32 \<Rightarrow> u16 \<Rightarrow> fb_state \<Rightarrow> fault + fb_state" where
  "put_run 0 i c s = Inr s"
| "put_run (Suc n) i c s = fbind (put16 i c s) (put_run n (i + 1) c)"

definition con_scroll :: "fb_state \<Rightarrow> fault + fb_state" where
  "con_scroll s =
     (let row_pixels = g_width s * FB_FONT_H; total_pixels = g_width s * (con_max_row s - 1) * FB_FONT_H in
      fbind (copy_up (unat total_pixels) 0 row_pixels s) (put_run (unat row_pixels) total_pixels (con_bg s)))"

definition con_advance :: "u8 \<Rightarrow> fb_state \<Rightarrow> fault + fb_state" where
  "con_advance c s =
     (if c = 10 then Inr (s\<lparr>con_col := 0, con_row := con_row s + 1\<rparr>)
      else if c = 13 then Inr (s\<lparr>con_col := 0\<rparr>)
      else if c = 9 then Inr (s\<lparr>con_col := (con_col s + 4) AND NOT 3\<rparr>)
      else fbind (fb_draw_char (con_col s * FB_FONT_W) (con_row s * FB_FONT_H) c (con_fg s) (con_bg s) s)
        (\<lambda>s. Inr (s\<lparr>con_col := con_col s + 1\<rparr>)))"

definition con_wrap :: "fb_state \<Rightarrow> fb_state" where
  "con_wrap s = (if con_col s \<ge> con_max_col s then s\<lparr>con_col := 0, con_row := con_row s + 1\<rparr> else s)"

definition con_fit :: "fb_state \<Rightarrow> fault + fb_state" where
  "con_fit s = (if con_row s \<ge> con_max_row s
     then fbind (con_scroll s) (\<lambda>s. Inr (s\<lparr>con_row := con_max_row s - 1\<rparr>)) else Inr s)"

definition fb_console_putchar :: "u8 \<Rightarrow> fb_state \<Rightarrow> fault + fb_state" where
  "fb_console_putchar c s = (if con_enabled s = 0 then Inr s else fbind (con_advance c s) (\<lambda>s. con_fit (con_wrap s)))"

fun fb_console_puts :: "cstring \<Rightarrow> fb_state \<Rightarrow> fault + fb_state" where
  "fb_console_puts [] s = Inr s"
| "fb_console_puts (c # str) s = (if c = 0 then Inr s else fbind (fb_console_putchar c s) (fb_console_puts str))"

definition fb_console_enable :: "int \<Rightarrow> fb_state \<Rightarrow> fb_state" where
  "fb_console_enable en s = s\<lparr>con_enabled := en\<rparr>"

definition fb_console_is_enabled :: "fb_state \<Rightarrow> int" where
  "fb_console_is_enabled s = con_enabled s"

end
