(* ===== verification/Fb_Props.thy ===== *)
theory Fb_Props
  imports Fb
begin

section \<open>The framebuffer: properties\<close>

text \<open>
  \<open>pixel s a b\<close> is the picture: the pixel in column \<open>a\<close> of row \<open>b\<close>.  The lemmas give the exact picture after
  each primitive; the 32-bit stores of the rectangle are shown to be the same as filling pixel by pixel.
\<close>

definition fb_ok :: "fb_state \<Rightarrow> bool" where
  "fb_ok s \<longleftrightarrow> length (g_fb s) = unat (g_width s) * unat (g_height s) \<and> unat (g_width s) * unat (g_height s) < 2 ^ 31"

definition pixel :: "fb_state \<Rightarrow> nat \<Rightarrow> nat \<Rightarrow> u16" where
  "pixel s a b = g_fb s ! (b * unat (g_width s) + a)"

text \<open>A step that changes nothing but pixels.\<close>

definition draws :: "fb_state \<Rightarrow> fb_state \<Rightarrow> bool" where
  "draws s s' \<longleftrightarrow> s' = s\<lparr>g_fb := g_fb s'\<rparr> \<and> length (g_fb s') = length (g_fb s)"

lemma draws_refl [simp]: "draws s s"
  by (simp add: draws_def)

lemma draws_trans: "draws s t \<Longrightarrow> draws t u \<Longrightarrow> draws s u"
  unfolding draws_def by (metis fb_state.surjective fb_state.update_convs(1))

lemma draws_blit [simp]: "draws s (s\<lparr>g_fb := blit (g_fb s) i xs\<rparr>)"
  by (simp add: draws_def)

lemma drawsD:
  assumes "draws s s'"
  shows "g_width s' = g_width s" "g_height s' = g_height s" "con_max_row s' = con_max_row s" "con_max_col s' = con_max_col s"
    "con_row s' = con_row s" "con_col s' = con_col s" "con_enabled s' = con_enabled s" "con_bg s' = con_bg s" "g_base s' = g_base s"
    "fb_ok s' = fb_ok s" "length (g_fb s') = length (g_fb s)"
proof -
  from assms have e: "s' = s\<lparr>g_fb := g_fb s'\<rparr>" and l: "length (g_fb s') = length (g_fb s)" by (simp_all add: draws_def)
  show "length (g_fb s') = length (g_fb s)" by (rule l)
  show "g_width s' = g_width s" "g_height s' = g_height s" "con_max_row s' = con_max_row s" "con_max_col s' = con_max_col s"
    "con_row s' = con_row s" "con_col s' = con_col s" "con_enabled s' = con_enabled s" "con_bg s' = con_bg s" "g_base s' = g_base s"
    by (subst e, simp)+
  then show "fb_ok s' = fb_ok s" using l by (simp add: fb_ok_def)
qed

subsection \<open>Runs of pixels\<close>

lemma blit_one: "i < length m \<Longrightarrow> m[i := c] = blit m i [c]"
  by (rule nth_equalityI) (auto simp: nth_blit nth_list_update)

lemma blit_blit:
  "i + length xs + length ys \<le> length m \<Longrightarrow> blit (blit m i xs) (i + length xs) ys = blit m i (xs @ ys)"
  by (rule nth_equalityI) (auto simp: nth_blit nth_append)

lemma unat_add_small: "unat (i :: u32) + k < 2 ^ 32 \<Longrightarrow> unat (i + of_nat k) = unat i + k"
  by (simp add: unat_word_ariths unat_of_nat)

lemma put16_blit: "unat i < length (g_fb s) \<Longrightarrow> put16 i c s = Inr (s\<lparr>g_fb := blit (g_fb s) (unat i) [c]\<rparr>)"
  by (simp add: put16_def blit_one)

lemma pack_halves: "(ucast (pack c) :: u16) = c" "(ucast (drop_bit 16 (pack c)) :: u16) = c"
  by (rule bit_word_eqI; auto simp: pack_def bit_simps dest: bit_imp_le_length)+

lemma put_pairs_blit:
  assumes "unat i + 2 * n \<le> length (g_fb s)" "length (g_fb s) < 2 ^ 31"
  shows "put_pairs n i (pack c) s = Inr (s\<lparr>g_fb := blit (g_fb s) (unat i) (replicate (2 * n) c)\<rparr>)"
  using assms
proof (induction n arbitrary: i s)
  case (Suc n)
  have i: "unat (i + 1) = unat i + 1" "unat (i + 2) = unat i + 2"
    using unat_add_small [of i 1] unat_add_small [of i 2] Suc.prems by simp_all
  let ?s = "s\<lparr>g_fb := blit (g_fb s) (unat i) [c, c]\<rparr>"
  have "put32 i (pack c) s = Inr ?s"
    using Suc.prems i blit_blit [of "unat i" "[c]" "[c]" "g_fb s"] by (simp add: put32_def put16_blit pack_halves)
  moreover have "put_pairs n (i + 2) (pack c) ?s = Inr (?s\<lparr>g_fb := blit (g_fb ?s) (unat (i + 2)) (replicate (2 * n) c)\<rparr>)"
    by (rule Suc.IH) (use Suc.prems i in simp_all)
  ultimately show ?case using Suc.prems i blit_blit [of "unat i" "[c, c]" "replicate (2 * n) c" "g_fb s"] by simp
qed simp

lemma put_run_blit:
  assumes "unat i + n \<le> length (g_fb s)" "length (g_fb s) < 2 ^ 31"
  shows "put_run n i c s = Inr (s\<lparr>g_fb := blit (g_fb s) (unat i) (replicate n c)\<rparr>)"
  using assms
proof (induction n arbitrary: i s)
  case (Suc n)
  have i: "unat (i + 1) = unat i + 1" using unat_add_small [of i 1] Suc.prems by simp
  let ?s = "s\<lparr>g_fb := blit (g_fb s) (unat i) [c]\<rparr>"
  have "put_run n (i + 1) c ?s = Inr (?s\<lparr>g_fb := blit (g_fb ?s) (unat (i + 1)) (replicate n c)\<rparr>)"
    by (rule Suc.IH) (use Suc.prems i in simp_all)
  then show ?case using Suc.prems i blit_blit [of "unat i" "[c]" "replicate n c" "g_fb s"] by (simp add: put16_blit)
qed simp

text \<open>A line, whatever its alignment.\<close>

lemma fill_line_blit:
  assumes "unat i + unat w \<le> length (g_fb s)" "length (g_fb s) < 2 ^ 31"
  shows "fill_line i w c s = Inr (s\<lparr>g_fb := blit (g_fb s) (unat i) (replicate (unat w) c)\<rparr>)"
proof -
  define st where "st \<longleftrightarrow> (g_base s + 2 * i) AND 2 \<noteq> 0 \<and> 0 < w"
  define k where "k = (if st then 1 else 0 :: nat)"
  let ?n = "(unat w - k) div 2"
  have kw: "k \<le> unat w" "k \<le> 1" by (auto simp: k_def st_def word_less_nat_alt)
  have col: "(if st then 1 else 0 :: u32) = of_nat k" by (simp add: k_def)
  have uk: "unat (of_nat k :: u32) = k" using kw(2) by (cases k) auto
  have wk: "unat (w - of_nat k) = unat w - k" using kw uk by (simp add: unat_sub word_le_nat_alt)
  have pairs: "unat ((w - of_nat k) div 2) = ?n" by (simp add: unat_div wk)
  let ?s1 = "s\<lparr>g_fb := blit (g_fb s) (unat i) (replicate k c)\<rparr>"
  let ?s2 = "s\<lparr>g_fb := blit (g_fb s) (unat i) (replicate (k + 2 * ?n) c)\<rparr>"
  have e: "k + 2 * ?n \<le> unat w" "unat w \<le> k + 2 * ?n + 1" using kw by auto
  have s1: "(if st then put16 i c s else Inr s) = Inr ?s1"
    using assms kw by (auto simp: k_def put16_blit)
  have ik: "unat (i + of_nat k) = unat i + k" using unat_add_small [of i k] assms kw by simp
  have s2: "put_pairs ?n (i + of_nat k) (pack c) ?s1 = Inr ?s2"
    using assms e ik blit_blit [of "unat i" "replicate k c" "replicate (2 * ?n) c" "g_fb s"]
    by (subst put_pairs_blit) (simp_all add: replicate_add)
  have "(w - of_nat k) div 2 = of_nat ?n" using arg_cong [OF pairs, of "of_nat :: nat \<Rightarrow> u32"] by simp
  then have c2: "of_nat k + (w - of_nat k) div 2 * 2 = (of_nat (k + 2 * ?n) :: u32)" by simp
  have "unat (of_nat (k + 2 * ?n) :: u32) = k + 2 * ?n" using assms e(1) by (simp only: unat_of_nat) (simp add: mod_less)
  then have lt: "of_nat (k + 2 * ?n) < w \<longleftrightarrow> k + 2 * ?n < unat w" by (simp only: word_less_nat_alt)
  have ie: "unat (i + of_nat (k + 2 * ?n)) = unat i + (k + 2 * ?n)" by (rule unat_add_small) (use assms e(1) in simp)
  have "(if of_nat (k + 2 * ?n) < w then put16 (i + of_nat (k + 2 * ?n)) c ?s2 else Inr ?s2) =
      Inr (s\<lparr>g_fb := blit (g_fb s) (unat i) (replicate (unat w) c)\<rparr>)" (is "?l = _")
  proof (cases "k + 2 * ?n < unat w")
    case True
    then have "?l = Inr (s\<lparr>g_fb := blit (blit (g_fb s) (unat i) (replicate (k + 2 * ?n) c)) (unat i + (k + 2 * ?n)) [c]\<rparr>)"
      unfolding lt using assms(1) by (simp only: if_True, subst put16_blit) (simp_all only: ie, simp_all)
    also have "blit (blit (g_fb s) (unat i) (replicate (k + 2 * ?n) c)) (unat i + (k + 2 * ?n)) [c] = blit (g_fb s) (unat i) (replicate (k + 2 * ?n) c @ [c])"
      using blit_blit [of "unat i" "replicate (k + 2 * ?n) c" "[c]" "g_fb s"] True assms(1) by simp
    also have "replicate (k + 2 * ?n) c @ [c] = replicate (unat w) c"
      using True e(2) replicate_append_same [of "k + 2 * ?n" c] by (metis Suc_eq_plus1 le_antisym Suc_leI replicate_Suc)
    finally show ?thesis .
  next
    case False
    then show ?thesis using e(1) unfolding lt by simp
  qed
  then show ?thesis
    unfolding fill_line_def Let_def st_def [symmetric] col c2 pairs s1 fbind_simps s2 .
qed

subsection \<open>Rectangles\<close>

lemma row_index:
  assumes "a < W" "b < H"
  shows "b * W + a < W * (H :: nat)"
proof -
  have "b * W + a < b * W + W" using assms(1) by simp
  also have "\<dots> = W * Suc b" by simp
  also have "\<dots> \<le> W * H" using assms(2) by (intro mult_le_mono2) simp
  finally show ?thesis .
qed

lemma row_index_iff: "a < W \<Longrightarrow> b * W + a < W * (r :: nat) \<longleftrightarrow> b < r"
proof
  assume "a < W" "b < r"
  then show "b * W + a < W * r" by (rule row_index)
next
  assume "a < W" "b * W + a < W * r"
  then have "b * W < r * W" using mult.commute [of W r] by linarith
  then show "b < r" by simp
qed

lemma row_index_between:
  assumes "a < W" "x + n \<le> (W :: nat)"
  shows "r * W + x \<le> b * W + a \<and> b * W + a < r * W + x + n \<longleftrightarrow> b = r \<and> x \<le> a \<and> a < x + n"
proof
  assume h: "r * W + x \<le> b * W + a \<and> b * W + a < r * W + x + n"
  have "b * W \<le> r * W + (W - 1)" "r * W \<le> b * W + (W - 1)" using h assms by linarith+
  then have "\<not> Suc r * W \<le> b * W" "\<not> Suc b * W \<le> r * W" using assms(1) by simp_all
  then have "b = r" by (meson mult_le_mono1 not_less_eq_eq le_antisym)
  then show "b = r \<and> x \<le> a \<and> a < x + n" using h by simp
qed auto

text \<open>A row of \<open>n\<close> pixels from column \<open>x\<close> on.\<close>

lemma pixel_blit:
  assumes "fb_ok s" "a < unat (g_width s)" "b < unat (g_height s)" "x + length xs \<le> unat (g_width s)"
  shows "pixel (s\<lparr>g_fb := blit (g_fb s) (r * unat (g_width s) + x) xs\<rparr>) a b =
    (if b = r \<and> x \<le> a \<and> a < x + length xs then xs ! (a - x) else pixel s a b)"
proof -
  let ?W = "unat (g_width s)"
  have l: "b * ?W + a < length (g_fb s)" using row_index [OF assms(2,3)] assms(1) by (simp add: fb_ok_def)
  show ?thesis using row_index_between [OF assms(2,4), of r b] l by (auto simp: pixel_def nth_blit)
qed

lemma unat_pixel_index:
  assumes "fb_ok s" "x < g_width s" "y < g_height s"
  shows "unat (y * g_width s + x) = unat y * unat (g_width s) + unat x"
    "unat y * unat (g_width s) + unat x < length (g_fb s)"
proof -
  have "unat y * unat (g_width s) + unat x < unat (g_width s) * unat (g_height s)"
    using assms(2,3) by (intro row_index) (simp_all add: word_less_nat_alt)
  then show "unat (y * g_width s + x) = unat y * unat (g_width s) + unat x"
    "unat y * unat (g_width s) + unat x < length (g_fb s)"
    using assms(1) by (simp_all add: fb_ok_def unat_word_ariths)
qed

lemma fill_rows_pixels:
  assumes "fb_ok s" "x < g_width s" "unat x + unat w \<le> unat (g_width s)" "unat r + n \<le> unat (g_height s)"
  shows "\<exists>s'. fill_rows n r x w c s = Inr s' \<and> draws s s' \<and>
    (\<forall>a < unat (g_width s). \<forall>b < unat (g_height s). pixel s' a b =
       (if unat r \<le> b \<and> b < unat r + n \<and> unat x \<le> a \<and> a < unat x + unat w then c else pixel s a b))"
  using assms
proof (induction n arbitrary: r s)
  case (Suc n)
  let ?W = "unat (g_width s)"
  let ?s = "s\<lparr>g_fb := blit (g_fb s) (unat r * ?W + unat x) (replicate (unat w) c)\<rparr>"
  have r: "r < g_height s" using Suc.prems(4) by (simp add: word_less_nat_alt)
  note idx = unat_pixel_index [OF Suc.prems(1,2) r]
  have len: "length (g_fb s) < 2 ^ 31" "length (g_fb s) = ?W * unat (g_height s)" using Suc.prems(1) by (simp_all add: fb_ok_def)
  have "unat r * ?W + (unat x + unat w) \<le> unat r * ?W + ?W" using Suc.prems(3) by simp
  also have "\<dots> = ?W * Suc (unat r)" by simp
  also have "\<dots> \<le> ?W * unat (g_height s)" using Suc.prems(4) by (intro mult_le_mono2) simp
  finally have "fill_line (r * g_width s + x) w c s = Inr ?s" using len by (subst fill_line_blit) (simp_all add: idx)
  moreover have d: "draws s ?s" by simp
  have "unat (g_height s) < 2 ^ 32" using unsigned_less [of "g_height s"] by simp
  then have r1: "unat (r + 1) = unat r + 1" using unat_add_small [of r 1] Suc.prems(4) by simp
  have "fb_ok ?s" using Suc.prems(1) by (simp add: fb_ok_def)
  then obtain s' where s': "fill_rows n (r + 1) x w c ?s = Inr s'" "draws ?s s'"
    "\<forall>a < ?W. \<forall>b < unat (g_height s). pixel s' a b =
       (if unat r + 1 \<le> b \<and> b < unat r + 1 + n \<and> unat x \<le> a \<and> a < unat x + unat w then c else pixel ?s a b)"
    using Suc.IH [of ?s "r + 1"] Suc.prems r1 by auto
  moreover have "pixel ?s a b = (if b = unat r \<and> unat x \<le> a \<and> a < unat x + unat w then c else pixel s a b)"
    if "a < ?W" "b < unat (g_height s)" for a b
    using pixel_blit [OF Suc.prems(1) that, of "unat x" "replicate (unat w) c" "unat r"] Suc.prems(3) by auto
  ultimately show ?case using draws_trans [OF d] by auto
qed auto

lemma fillrect_clipped:
  assumes "fb_ok s" "unat x + unat w < 2 ^ 32" "unat y + unat h < 2 ^ 32"
  shows "\<exists>s'. fb_fillrect x y w h c s = Inr s' \<and> draws s s' \<and>
    (\<forall>a < unat (g_width s). \<forall>b < unat (g_height s). pixel s' a b =
       (if unat x \<le> a \<and> a < unat x + unat w \<and> unat y \<le> b \<and> b < unat y + unat h then c else pixel s a b))"
proof (cases "x \<ge> g_width s \<or> y \<ge> g_height s")
  case True
  then show ?thesis by (auto simp: fb_fillrect_def word_le_nat_alt)
next
  case False
  let ?W = "g_width s" and ?H = "g_height s"
  define w' where "w' = (if x + w > ?W then ?W - x else w)"
  define h' where "h' = (if y + h > ?H then ?H - y else h)"
  have xw: "unat (x + w) = unat x + unat w" "unat (y + h) = unat y + unat h" using assms(2,3) by (simp_all add: unat_word_ariths)
  have w: "unat w' = min (unat w) (unat ?W - unat x)" "unat h' = min (unat h) (unat ?H - unat y)"
    using False xw by (auto simp: w'_def h'_def word_less_nat_alt unat_sub word_le_nat_alt min_def)
  have le: "unat x + unat w' \<le> unat ?W" "unat y + unat h' \<le> unat ?H"
    using False w by (auto simp: word_le_nat_alt)
  have yh: "unat (y + h') = unat y + unat h'"
    using w(2) xw(2) assms(3) by (simp add: unat_word_ariths)
  obtain s' where "fill_rows (unat h') y x w' c s = Inr s'" "draws s s'"
    "\<forall>a < unat ?W. \<forall>b < unat ?H. pixel s' a b =
       (if unat y \<le> b \<and> b < unat y + unat h' \<and> unat x \<le> a \<and> a < unat x + unat w' then c else pixel s a b)"
    using fill_rows_pixels [OF assms(1) _ le, of c] False by (auto simp: not_le)
  moreover have "fb_fillrect x y w h c s = fill_rows (unat h') y x w' c s"
    using False yh by (simp add: fb_fillrect_def Let_def flip: w'_def h'_def)
  ultimately show ?thesis using w by auto
qed

text \<open>C19: when the rectangle starts outside of the screen, or \<open>x + w\<close> and \<open>y + h\<close> do not wrap around,
  \<open>fb_fillrect\<close> does not store outside of the framebuffer: afterwards exactly the pixels of the rectangle
  that lie on the screen have the colour, and every other pixel is unchanged.  The stores of two pixels at
  once, with their care for odd starts and odd remainders, are the same as filling pixel by pixel.  A
  rectangle that starts on the screen with a wrapping width is not cut: \<open>fb_fillrect_overrun\<close> below.\<close>

theorem fb_fillrect_pixels:
  assumes "fb_ok s" "x < g_width s \<and> y < g_height s \<Longrightarrow> unat x + unat w < 2 ^ 32 \<and> unat y + unat h < 2 ^ 32"
  shows "\<exists>s'. fb_fillrect x y w h c s = Inr s' \<and> draws s s' \<and>
    (\<forall>a < unat (g_width s). \<forall>b < unat (g_height s). pixel s' a b =
       (if unat x \<le> a \<and> a < unat x + unat w \<and> unat y \<le> b \<and> b < unat y + unat h then c else pixel s a b))"
proof (cases "x < g_width s \<and> y < g_height s")
  case True
  then show ?thesis using fillrect_clipped [OF assms(1)] assms(2) by blast
next
  case False
  then have "fb_fillrect x y w h c s = Inr s" by (auto simp: fb_fillrect_def not_less)
  then show ?thesis using False by (auto simp: word_less_nat_alt)
qed

definition demo_fb :: fb_state where
  "demo_fb = \<lparr>g_fb = replicate 15 0, g_base = 0x9E000002, g_width = 5, g_height = 3, g_pitch = 10, con_col = 0, con_row = 0,
     con_max_col = 0, con_max_row = 0, con_fg = 0, con_bg = 0, con_enabled = 0\<rparr>"

theorem fb_fillrect_pixels_witness:
  "\<exists>s'. fb_fillrect 1 1 9 1 7 demo_fb = Inr s' \<and> pixel s' 1 1 = 7 \<and> pixel s' 4 1 = 7 \<and> pixel s' 0 1 = 0 \<and> pixel s' 1 2 = 0"
proof -
  have ok: "fb_ok demo_fb" by (simp add: fb_ok_def demo_fb_def)
  obtain s' where s': "fb_fillrect 1 1 9 1 7 demo_fb = Inr s'"
    "\<forall>a < unat (g_width demo_fb). \<forall>b < unat (g_height demo_fb). pixel s' a b =
       (if unat (1 :: u32) \<le> a \<and> a < unat (1 :: u32) + unat (9 :: u32) \<and> unat (1 :: u32) \<le> b \<and> b < unat (1 :: u32) + unat (1 :: u32) then 7 else pixel demo_fb a b)"
    using fb_fillrect_pixels [OF ok, of 1 1 9 1 7] by auto
  have z: "pixel demo_fb 0 1 = 0" "pixel demo_fb 1 2 = 0" by (simp_all add: pixel_def demo_fb_def)
  show ?thesis using s'(1) s'(2) [rule_format, of 1 1] s'(2) [rule_format, of 4 1] s'(2) [rule_format, of 0 1] s'(2) [rule_format, of 1 2] z
    by (simp add: demo_fb_def)
qed

text \<open>The sum \<open>x + w\<close> is not checked for overflow: a width that wraps is not cut, and the line runs past the
  end of the framebuffer.\<close>

lemma fb_fillrect_overrun: "fb_fillrect 1 2 0xFFFFFFFF 1 7 demo_fb = Inl OutOfBounds"
proof -
  have e: "fill_line 11 0xFFFFFFFF 7 demo_fb =
      fbind (put_pairs 0x7FFFFFFF 11 (pack 7) demo_fb) (\<lambda>s. if 0xFFFFFFFE < (0xFFFFFFFF :: u32) then put16 (11 + 0xFFFFFFFE) 7 s else Inr s)"
    by (simp add: fill_line_def demo_fb_def Let_def)
  have "put_pairs (Suc (Suc (Suc 0x7FFFFFFC))) 11 (pack 7) demo_fb = Inl OutOfBounds"
    unfolding put_pairs.simps by (simp add: put32_def put16_def demo_fb_def)
  then have "put_pairs 0x7FFFFFFF 11 (pack 7) demo_fb = Inl OutOfBounds" by simp
  then have "fill_line 11 0xFFFFFFFF 7 demo_fb = Inl OutOfBounds" using e by simp
  then show ?thesis by (simp add: fb_fillrect_def demo_fb_def word_le_nat_alt word_less_nat_alt)
qed

subsection \<open>Characters\<close>

lemma char_cols_pixels:
  assumes "fb_ok s" "py < g_height s" "n \<le> 8"
  shows "\<exists>s'. char_cols n px py bits fg bg s = Inr s' \<and> draws s s' \<and>
    (\<forall>a < unat (g_width s). \<forall>b < unat (g_height s). pixel s' a b =
       (if b = unat py \<and> unat px \<le> a \<and> a < unat px + n then (if bit bits (7 - (a - unat px)) then fg else bg) else pixel s a b))"
  using assms
proof (induction n arbitrary: px bits s)
  case (Suc n)
  show ?case
  proof (cases "px \<ge> g_width s")
    case True
    then show ?thesis by (auto simp: word_le_nat_alt)
  next
    case False
    then have px: "px < g_width s" by simp
    let ?W = "unat (g_width s)" and ?c = "if bit bits 7 then fg else bg"
    let ?s = "s\<lparr>g_fb := blit (g_fb s) (unat py * ?W + unat px) [?c]\<rparr>"
    have top: "bits AND 0x80 \<noteq> 0 \<longleftrightarrow> bit bits 7"
    proof -
      have "(0x80 :: u8) = push_bit 7 1" by simp
      then show ?thesis by (simp only: bit_iff_and_push_bit_not_eq_0)
    qed
    note idx = unat_pixel_index [OF Suc.prems(1) px Suc.prems(2)]
    have st: "put16 (py * g_width s + px) ?c s = Inr ?s" using idx by (simp add: put16_blit)
    have "unat (g_width s) < 2 ^ 32" using unsigned_less [of "g_width s"] by simp
    then have p1: "unat (px + 1) = unat px + 1" using unat_add_small [of px 1] px by (simp add: word_less_nat_alt)
    have "fb_ok ?s" using Suc.prems(1) by (simp add: fb_ok_def)
    then obtain s' where s': "char_cols n (px + 1) py (push_bit 1 bits) fg bg ?s = Inr s'" "draws ?s s'"
      "\<forall>a < ?W. \<forall>b < unat (g_height s). pixel s' a b =
         (if b = unat py \<and> unat px + 1 \<le> a \<and> a < unat px + 1 + n then (if bit (push_bit 1 bits) (7 - (a - (unat px + 1))) then fg else bg) else pixel ?s a b)"
      using Suc.IH [of ?s "px + 1" "push_bit 1 bits"] Suc.prems p1 by auto
    have q: "pixel ?s a b = (if b = unat py \<and> a = unat px then ?c else pixel s a b)" if "a < ?W" "b < unat (g_height s)" for a b
      using pixel_blit [OF Suc.prems(1) that, of "unat px" "[?c]" "unat py"] px by (auto simp: word_less_nat_alt)
    have bb: "bit (push_bit 1 bits) (7 - (a - (unat px + 1))) = bit bits (7 - (a - unat px))" if "unat px < a" "a < unat px + Suc n" for a
    proof -
      have e: "7 - (a - (unat px + 1)) = Suc (7 - (a - unat px))" "7 - (a - unat px) < 7" using that Suc.prems(3) by linarith+
      have "bit (push_bit 1 bits) (Suc j) = bit bits j" if "j < 7" for j using that by (simp only: bit_push_bit_iff) simp
      then show ?thesis unfolding e(1) using e(2) by blast
    qed
    have "pixel s' a b = (if b = unat py \<and> unat px \<le> a \<and> a < unat px + Suc n then (if bit bits (7 - (a - unat px)) then fg else bg) else pixel s a b)"
      if "a < ?W" "b < unat (g_height s)" for a b
      using s'(3) that q [OF that] bb [of a] by (cases "a = unat px") auto
    then show ?thesis using s'(1,2) st False draws_trans [of s ?s s'] by (auto simp: top)
  qed
qed auto

text \<open>A glyph drawn from the corner \<open>(x, y)\<close>: the part of it that is on the screen.\<close>

lemma char_rows_pixels:
  assumes "fb_ok s" "length bs \<le> 16"
  shows "\<exists>s'. char_rows bs x py fg bg s = Inr s' \<and> draws s s' \<and>
    (\<forall>a < unat (g_width s). \<forall>b < unat (g_height s). pixel s' a b =
       (if unat py \<le> b \<and> b < unat py + length bs \<and> unat x \<le> a \<and> a < unat x + 8
        then (if bit (bs ! (b - unat py)) (7 - (a - unat x)) then fg else bg) else pixel s a b))"
  using assms
proof (induction bs arbitrary: py s)
  case (Cons bits bs)
  show ?case
  proof (cases "py \<ge> g_height s")
    case True
    then show ?thesis by (auto simp: word_le_nat_alt)
  next
    case False
    then have py: "py < g_height s" by simp
    let ?W = "unat (g_width s)" and ?H = "unat (g_height s)"
    obtain s1 where s1: "char_cols 8 x py bits fg bg s = Inr s1" "draws s s1"
      "\<forall>a < ?W. \<forall>b < ?H. pixel s1 a b =
         (if b = unat py \<and> unat x \<le> a \<and> a < unat x + 8 then (if bit bits (7 - (a - unat x)) then fg else bg) else pixel s a b)"
      using char_cols_pixels [OF Cons.prems(1) py, of 8] by blast
    have "unat (g_height s) < 2 ^ 32" using unsigned_less [of "g_height s"] by simp
    then have p1: "unat (py + 1) = unat py + 1" using unat_add_small [of py 1] py by (simp add: word_less_nat_alt)
    obtain s' where s': "char_rows bs x (py + 1) fg bg s1 = Inr s'" "draws s1 s'"
      "\<forall>a < ?W. \<forall>b < ?H. pixel s' a b =
       (if unat py + 1 \<le> b \<and> b < unat py + 1 + length bs \<and> unat x \<le> a \<and> a < unat x + 8
        then (if bit (bs ! (b - (unat py + 1))) (7 - (a - unat x)) then fg else bg) else pixel s1 a b)"
      using Cons.IH [of s1 "py + 1"] Cons.prems drawsD [OF s1(2)] p1 by auto
    have "pixel s' a b = (if unat py \<le> b \<and> b < unat py + length (bits # bs) \<and> unat x \<le> a \<and> a < unat x + 8
        then (if bit ((bits # bs) ! (b - unat py)) (7 - (a - unat x)) then fg else bg) else pixel s a b)"
      if "a < ?W" "b < ?H" for a b
      using s'(3) s1(3) that by (cases "b = unat py") (auto simp: nth_Cons')
    then show ?thesis using s'(1) s1(1) False draws_trans [OF s1(2) s'(2)] by (auto simp: FB_FONT_W_def)
  qed
qed auto

lemma length_font: "length font8x16 = 95" "\<forall>g \<in> set font8x16. length g = 16"
  by (simp_all add: font8x16_def)

lemma length_glyph: "length (glyph c) = 16"
proof -
  have "unat (if c < 32 \<or> c > 126 then 63 else c) - 32 < length font8x16"
    unfolding length_font(1) by (auto simp: word_less_nat_alt)
  then have "glyph c \<in> set font8x16" unfolding glyph_def by (rule nth_mem)
  then show ?thesis using length_font(2) by blast
qed

lemma fb_draw_char_pixels:
  assumes "fb_ok s"
  shows "\<exists>s'. fb_draw_char x y c fg bg s = Inr s' \<and> draws s s' \<and>
    (\<forall>a < unat (g_width s). \<forall>b < unat (g_height s). pixel s' a b =
       (if unat y \<le> b \<and> b < unat y + 16 \<and> unat x \<le> a \<and> a < unat x + 8
        then (if bit (glyph c ! (b - unat y)) (7 - (a - unat x)) then fg else bg) else pixel s a b))"
  using char_rows_pixels [OF assms, of "glyph c" x y fg bg] by (simp add: fb_draw_char_def length_glyph)

subsection \<open>The console\<close>

definition con_ok :: "fb_state \<Rightarrow> bool" where
  "con_ok s \<longleftrightarrow> fb_ok s \<and> con_max_col s = g_width s div FB_FONT_W \<and> con_max_row s = g_height s div FB_FONT_H \<and>
     con_col s < con_max_col s \<and> con_row s < con_max_row s"

lemma copy_up_shift:
  assumes "unat i + n + unat off \<le> length (g_fb s)" "length (g_fb s) < 2 ^ 31" "0 < unat off"
  shows "\<exists>s'. copy_up n i off s = Inr s' \<and> draws s s' \<and>
    (\<forall>j < length (g_fb s). g_fb s' ! j = (if unat i \<le> j \<and> j < unat i + n then g_fb s ! (j + unat off) else g_fb s ! j))"
  using assms
proof (induction n arbitrary: i s)
  case (Suc n)
  have i1: "unat (i + 1) = unat i + 1" using unat_add_small [of i 1] Suc.prems by simp
  have io: "unat (i + off) = unat i + unat off" using Suc.prems by (simp add: unat_word_ariths)
  let ?v = "g_fb s ! (unat i + unat off)"
  let ?s = "s\<lparr>g_fb := (g_fb s)[unat i := ?v]\<rparr>"
  have st: "put16 i ?v s = Inr ?s" using Suc.prems by (simp add: put16_def)
  have d: "draws s ?s" by (simp add: draws_def)
  obtain s' where s': "copy_up n (i + 1) off ?s = Inr s'" "draws ?s s'"
    "\<forall>j < length (g_fb s). g_fb s' ! j = (if unat i + 1 \<le> j \<and> j < unat i + 1 + n then g_fb ?s ! (j + unat off) else g_fb ?s ! j)"
    using Suc.IH [of "i + 1" ?s] Suc.prems i1 by auto
  have "g_fb s' ! j = (if unat i \<le> j \<and> j < unat i + Suc n then g_fb s ! (j + unat off) else g_fb s ! j)" if "j < length (g_fb s)" for j
    using s'(3) that Suc.prems(3) by (cases "j = unat i") (auto simp: nth_list_update)
  then show ?case using s'(1) st io Suc.prems draws_trans [OF d s'(2)] by auto
qed auto

text \<open>Scrolling moves the text up by one line of 16 rows of pixels and clears the last line; the rows below
  the last line of text, which are less than a line, stay as they are.\<close>

lemma con_scroll_pixels:
  assumes "fb_ok s" "con_max_row s = g_height s div FB_FONT_H" "0 < con_max_row s" "0 < g_width s"
  defines "R \<equiv> (unat (con_max_row s) - 1) * 16"
  shows "\<exists>s'. con_scroll s = Inr s' \<and> draws s s' \<and>
    (\<forall>a < unat (g_width s). \<forall>b < unat (g_height s). pixel s' a b =
       (if b < R then pixel s a (b + 16) else if b < R + 16 then con_bg s else pixel s a b))"
proof -
  let ?W = "unat (g_width s)" and ?H = "unat (g_height s)"
  have m: "unat (con_max_row s) = ?H div 16" unfolding assms(2) by (simp add: unat_div FB_FONT_H_def)
  have mp: "0 < ?H div 16" using assms(3) m by (simp add: word_less_nat_alt)
  have RH: "R + 16 \<le> ?H" unfolding R_def m using mp by (simp add: algebra_simps)
  have len: "length (g_fb s) = ?W * ?H" "?W * ?H < 2 ^ 31" using assms(1) by (auto simp: fb_ok_def)
  have le: "?W * (R + 16) \<le> ?W * ?H" using RH by (rule mult_le_mono2)
  have le: "?W * R + ?W * 16 \<le> ?W * ?H" using le by (simp only: distrib_left)
  have rp: "unat (g_width s * FB_FONT_H) = ?W * 16"
    using le len(2) by (simp add: unat_word_ariths FB_FONT_H_def)
  have m1: "unat (con_max_row s - 1) = unat (con_max_row s) - 1" using assms(3) by (simp add: unat_sub word_le_nat_alt word_less_nat_alt)
  have "g_width s * (con_max_row s - 1) * FB_FONT_H = of_nat (?W * R)"
    unfolding R_def m1 [symmetric] by (simp only: of_nat_mult of_nat_unat ucast_id FB_FONT_H_def of_nat_numeral mult.assoc)
  then have tp: "unat (g_width s * (con_max_row s - 1) * FB_FONT_H) = ?W * R"
    using le len(2) by (simp only: unat_of_nat) simp
  have W0: "0 < ?W" using assms(4) by (simp add: word_less_nat_alt)
  obtain s1 where s1: "copy_up (?W * R) 0 (g_width s * FB_FONT_H) s = Inr s1" "draws s s1"
    "\<forall>j < length (g_fb s). g_fb s1 ! j = (if j < ?W * R then g_fb s ! (j + ?W * 16) else g_fb s ! j)"
    using copy_up_shift [of 0 "?W * R" "g_width s * FB_FONT_H" s] len le W0 unfolding rp by auto
  let ?s2 = "s1\<lparr>g_fb := blit (g_fb s1) (?W * R) (replicate (?W * 16) (con_bg s))\<rparr>"
  have s2: "put_run (?W * 16) (g_width s * (con_max_row s - 1) * FB_FONT_H) (con_bg s) s1 = Inr ?s2"
    using put_run_blit [of "g_width s * (con_max_row s - 1) * FB_FONT_H" "?W * 16" s1 "con_bg s"] drawsD(11) [OF s1(2)] len le
    by (simp add: tp)
  have "pixel ?s2 a b = (if b < R then pixel s a (b + 16) else if b < R + 16 then con_bg s else pixel s a b)"
    if "a < ?W" "b < ?H" for a b
  proof -
    have lt: "b * ?W + a < ?W * ?H" by (rule row_index [OF that])
    have i: "b * ?W + a < ?W * R \<longleftrightarrow> b < R" "b * ?W + a < ?W * R + ?W * 16 \<longleftrightarrow> b < R + 16"
      using row_index_iff [OF that(1), of b] by (simp_all flip: distrib_left)
    have "pixel ?s2 a b = (if ?W * R \<le> b * ?W + a \<and> b * ?W + a < ?W * R + ?W * 16 then con_bg s else g_fb s1 ! (b * ?W + a))"
      using lt drawsD(1,11) [OF s1(2)] len(1) by (auto simp: pixel_def nth_blit)
    also have "\<dots> = (if b < R then pixel s a (b + 16) else if b < R + 16 then con_bg s else pixel s a b)"
    proof -
      have "b * ?W + a + ?W * 16 = (b + 16) * ?W + a" by (simp add: algebra_simps)
      then have "g_fb s1 ! (b * ?W + a) = (if b < R then pixel s a (b + 16) else pixel s a b)"
        using s1(3) lt len(1) unfolding pixel_def by (simp only: i)
      then show ?thesis unfolding not_less [symmetric] i by simp
    qed
    finally show ?thesis .
  qed
  then show ?thesis using s1(1,2) s2 draws_trans [OF s1(2), of ?s2] by (auto simp: con_scroll_def rp tp Let_def)
qed

text \<open>Every character leaves the cursor on the screen.\<close>

lemma con_small:
  assumes "con_ok s"
  shows "unat (con_col s) < unat (con_max_col s)" "unat (con_row s) < unat (con_max_row s)" "unat (con_max_row s) \<le> 2 ^ 28"
proof -
  show "unat (con_col s) < unat (con_max_col s)" "unat (con_row s) < unat (con_max_row s)"
    using assms unfolding con_ok_def word_less_nat_alt by blast+
  have "unat (g_height s) < 2 ^ 32" using unsigned_less [of "g_height s"] by simp
  then show "unat (con_max_row s) \<le> 2 ^ 28" using assms by (simp add: con_ok_def unat_div FB_FONT_H_def)
qed

definition con_ready :: "fb_state \<Rightarrow> bool" where
  "con_ready s \<longleftrightarrow> fb_ok s \<and> con_max_col s = g_width s div FB_FONT_W \<and> con_max_row s = g_height s div FB_FONT_H \<and>
     0 < con_max_col s \<and> 0 < con_max_row s \<and> unat (con_row s) \<le> unat (con_max_row s)"

lemma con_advance_ready:
  assumes "con_ok s"
  shows "\<exists>s'. con_advance c s = Inr s' \<and> con_ready s' \<and> (unat (con_row s') = unat (con_max_row s') \<longrightarrow> con_col s' = 0)"
proof -
  note sm = con_small [OF assms]
  have row: "unat (con_row s + 1) = unat (con_row s) + 1" using unat_add_small [of "con_row s" 1] sm by simp
  obtain s1 where s1: "fb_draw_char (con_col s * FB_FONT_W) (con_row s * FB_FONT_H) c (con_fg s) (con_bg s) s = Inr s1" "draws s s1"
    using fb_draw_char_pixels [of s "con_col s * FB_FONT_W" "con_row s * FB_FONT_H" c "con_fg s" "con_bg s"] assms by (auto simp: con_ok_def)
  show ?thesis
    using assms sm row s1(1) drawsD [OF s1(2)]
    by (auto simp: con_advance_def con_ready_def con_ok_def fb_ok_def word_less_nat_alt)
qed

lemma con_wrap_fit:
  assumes "con_ready s" "unat (con_row s) = unat (con_max_row s) \<longrightarrow> con_col s = 0"
  shows "\<exists>s'. con_fit (con_wrap s) = Inr s' \<and> con_ok s'"
proof -
  let ?s = "con_wrap s"
  have m: "0 < unat (con_max_row s)" "0 < unat (con_max_col s)" "fb_ok s"
    using assms(1) unfolding con_ready_def word_less_nat_alt by auto
  have "unat (con_row s + 1) = unat (con_row s) + 1" if "unat (con_row s) < unat (con_max_row s)"
  proof -
    have "unat (con_max_row s) < 2 ^ 32" using unsigned_less [of "con_max_row s"] by simp
    then show ?thesis using that unat_add_small [of "con_row s" 1] by simp
  qed
  then have r: "con_ready ?s" "con_col ?s < con_max_col ?s"
    using assms m by (auto simp: con_wrap_def con_ready_def fb_ok_def word_less_nat_alt word_le_nat_alt)
  show ?thesis
  proof (cases "con_row ?s \<ge> con_max_row ?s")
    case True
    have "0 < g_width ?s" using r(1) by (auto simp: con_ready_def FB_FONT_W_def word_less_nat_alt unat_div)
    then obtain s' where s': "con_scroll ?s = Inr s'" "draws ?s s'"
      using con_scroll_pixels [of ?s] r(1) by (auto simp: con_ready_def)
    have "0 < con_max_row s'" using r(1) unfolding con_ready_def drawsD(3) [OF s'(2)] by blast
    then have "con_max_row s' - 1 < con_max_row s'" by (simp add: word_less_nat_alt unat_sub word_le_nat_alt)
    then show ?thesis using True s' r drawsD [OF s'(2)] by (auto simp: con_fit_def con_ok_def con_ready_def fb_ok_def)
  next
    case False
    then show ?thesis using r by (auto simp: con_fit_def con_ok_def con_ready_def)
  qed
qed

lemma con_putchar_ok: "con_ok s \<Longrightarrow> \<exists>s'. fb_console_putchar c s = Inr s' \<and> con_ok s'"
  using con_advance_ready [of s c] con_wrap_fit by (fastforce simp: fb_console_putchar_def)

text \<open>C20: the console never stores outside of the framebuffer and keeps its cursor on the screen, whatever
  bytes are printed: starting it on a screen of at least one character and printing any string runs to the
  end without a fault.\<close>

theorem fb_console_safe:
  assumes "fb_ok s" "FB_FONT_W \<le> g_width s" "FB_FONT_H \<le> g_height s"
  shows "\<exists>s1 s2. fb_console_init fg bg s = Inr s1 \<and> con_ok s1 \<and> fb_console_puts str s1 = Inr s2 \<and> con_ok s2"
proof -
  have puts: "\<exists>s'. fb_console_puts str s = Inr s' \<and> con_ok s'" if "con_ok s" for s
    using that
  proof (induction str arbitrary: s)
    case (Cons c str)
    then show ?case using con_putchar_ok [OF Cons.prems, of c] by auto
  qed simp
  let ?s = "s\<lparr>con_fg := fg, con_bg := bg, con_col := 0, con_row := 0,
     con_max_col := g_width s div FB_FONT_W, con_max_row := g_height s div FB_FONT_H, con_enabled := 1\<rparr>"
  have ok: "fb_ok ?s" using assms(1) by (simp add: fb_ok_def)
  then have wh: "unat (g_width s * g_height s) = unat (g_width s) * unat (g_height s)" by (simp add: fb_ok_def unat_word_ariths)
  have "2 * unat ((g_width s * g_height s) div 2) \<le> unat (g_width s) * unat (g_height s)" by (simp add: unat_div wh)
  then obtain s1 where s1: "fb_console_init fg bg s = Inr s1" "draws ?s s1"
    using ok put_pairs_blit [of 0 "unat ((g_width s * g_height s) div 2)" ?s bg]
    by (auto simp: fb_console_init_def fb_clear_def fb_ok_def draws_def)
  have "con_ok s1" using ok drawsD [OF s1(2)] assms(2,3)
    by (simp add: con_ok_def word_less_nat_alt word_le_nat_alt unat_div FB_FONT_W_def FB_FONT_H_def div_greater_zero_iff)
  then show ?thesis using s1(1) puts by blast
qed

definition demo_console :: fb_state where
  "demo_console = demo_fb\<lparr>g_fb := replicate 128 0, g_width := 8, g_height := 16\<rparr>"

theorem fb_console_safe_witness:
  "\<exists>s1 s2. fb_console_init 7 3 demo_console = Inr s1 \<and> fb_console_puts [65, 10, 9, 66] s1 = Inr s2 \<and> con_ok s2"
proof -
  have ok: "fb_ok demo_console" "FB_FONT_W \<le> g_width demo_console" "FB_FONT_H \<le> g_height demo_console"
    by (simp_all add: fb_ok_def demo_console_def FB_FONT_W_def FB_FONT_H_def)
  show ?thesis using fb_console_safe [OF ok, of 7 3 "[65, 10, 9, 66]"] by blast
qed

subsection \<open>The square root\<close>

text \<open>Below \<open>65535\<^sup>2\<close> the loop ends with the integer square root; \<open>fb_fillcircle\<close> stays below for every radius
  up to 65534.\<close>

lemma isqrt_loop_ok:
  assumes "unat n < 65535 * 65535" "unat x * unat x \<le> unat n"
  shows "\<exists>r. isqrt_loop n x = Some r \<and> unat r * unat r \<le> unat n \<and> unat n < Suc (unat r) * Suc (unat r)"
  using assms(2)
proof (induction "65535 - unat x" arbitrary: x rule: less_induct)
  case less
  have "unat x < 65535"
  proof (rule ccontr)
    assume "\<not> unat x < 65535"
    then have "65535 * 65535 \<le> unat x * unat x" by (intro mult_le_mono) simp_all
    then show False using assms(1) less.prems by simp
  qed
  then have x1: "unat (x + 1) = Suc (unat x)" and "Suc (unat x) * Suc (unat x) \<le> 65535 * 65535"
    using unat_add_small [of x 1] by (simp, intro mult_le_mono) simp_all
  then have sq: "unat ((x + 1) * (x + 1)) = Suc (unat x) * Suc (unat x)" by (subst unat_word_ariths) (simp add: x1)
  show ?case
  proof (cases "(x + 1) * (x + 1) \<le> n")
    case True
    then have "Suc (unat x) * Suc (unat x) \<le> unat n" unfolding word_le_nat_alt sq .
    moreover have "65535 - unat (x + 1) < 65535 - unat x" using x1 \<open>unat x < 65535\<close> by simp
    ultimately obtain r where "isqrt_loop n (x + 1) = Some r" "unat r * unat r \<le> unat n" "unat n < Suc (unat r) * Suc (unat r)"
      using less.hyps [of "x + 1"] unfolding x1 by blast
    then show ?thesis using True by (subst isqrt_loop.simps) simp
  next
    case False
    then have "unat n < Suc (unat x) * Suc (unat x)" unfolding word_le_nat_alt sq by simp
    then show ?thesis using False less.prems by (subst isqrt_loop.simps) simp
  qed
qed

lemma fb_isqrt_floor:
  assumes "unat n < 65535 * 65535"
  shows "\<exists>r. fb_isqrt n = Some r \<and> unat r * unat r \<le> unat n \<and> unat n < Suc (unat r) * Suc (unat r)"
  using isqrt_loop_ok [OF assms, of 0] by (simp add: fb_isqrt_def)

end
