(* ===== verification/I2c.thy ===== *)
theory I2c
  imports Mmio
begin

section \<open>The I2C bus (\<open>kernel/src/drivers/i2c.c\<close>)\<close>

text \<open>
  The driver polls the status of the controller.  A wait for a status returns the status or, when the time
  runs out, 0.  Delay loops without accesses to the hardware and messages on the console are left out; a
  register read whose value is only printed stays a read.
\<close>

definition I2C0_BASE :: u32 where [vx_consts]: "I2C0_BASE = 0x44E0B000"
definition CONF_I2C0_SDA :: u32 where [vx_consts]: "CONF_I2C0_SDA = 0x44E10988"
definition CONF_I2C0_SCL :: u32 where [vx_consts]: "CONF_I2C0_SCL = 0x44E1098C"
definition PAD_I2C0_MODE :: u32 where [vx_consts]: "PAD_I2C0_MODE = 0x70"
definition CM_WKUP_I2C0_CLKCTRL :: u32 where [vx_consts]: "CM_WKUP_I2C0_CLKCTRL = 0x44E004B8"

definition I2C_REVNB_LO :: u32 where [vx_consts]: "I2C_REVNB_LO = 0x44E0B000"
definition I2C_SYSC :: u32 where [vx_consts]: "I2C_SYSC = 0x44E0B010"
definition I2C_IRQSTATUS_RAW :: u32 where [vx_consts]: "I2C_IRQSTATUS_RAW = 0x44E0B024"
definition I2C_IRQSTATUS :: u32 where [vx_consts]: "I2C_IRQSTATUS = 0x44E0B028"
definition I2C_IRQENABLE_CLR :: u32 where [vx_consts]: "I2C_IRQENABLE_CLR = 0x44E0B030"
definition I2C_SYSS :: u32 where [vx_consts]: "I2C_SYSS = 0x44E0B090"
definition I2C_CNT :: u32 where [vx_consts]: "I2C_CNT = 0x44E0B098"
definition I2C_DATA :: u32 where [vx_consts]: "I2C_DATA = 0x44E0B09C"
definition I2C_CON :: u32 where [vx_consts]: "I2C_CON = 0x44E0B0A4"
definition I2C_OA :: u32 where [vx_consts]: "I2C_OA = 0x44E0B0A8"
definition I2C_SA :: u32 where [vx_consts]: "I2C_SA = 0x44E0B0AC"
definition I2C_PSC :: u32 where [vx_consts]: "I2C_PSC = 0x44E0B0B0"
definition I2C_SCLL :: u32 where [vx_consts]: "I2C_SCLL = 0x44E0B0B4"
definition I2C_SCLH :: u32 where [vx_consts]: "I2C_SCLH = 0x44E0B0B8"
definition I2C_SYSTEST :: u32 where [vx_consts]: "I2C_SYSTEST = 0x44E0B0BC"

definition I2C_SYSC_SRST :: u32 where [vx_consts]: "I2C_SYSC_SRST = 2"
definition I2C_SYSS_RDONE :: u32 where [vx_consts]: "I2C_SYSS_RDONE = 1"
definition I2C_CON_EN :: u32 where [vx_consts]: "I2C_CON_EN = 0x8000"
definition I2C_CON_MST :: u32 where [vx_consts]: "I2C_CON_MST = 0x400"
definition I2C_CON_TRX :: u32 where [vx_consts]: "I2C_CON_TRX = 0x200"
definition I2C_CON_STP :: u32 where [vx_consts]: "I2C_CON_STP = 2"
definition I2C_CON_STT :: u32 where [vx_consts]: "I2C_CON_STT = 1"
definition I2C_STAT_BB :: u32 where [vx_consts]: "I2C_STAT_BB = 0x1000"
definition I2C_STAT_XRDY :: u32 where [vx_consts]: "I2C_STAT_XRDY = 0x10"
definition I2C_STAT_RRDY :: u32 where [vx_consts]: "I2C_STAT_RRDY = 8"
definition I2C_STAT_ARDY :: u32 where [vx_consts]: "I2C_STAT_ARDY = 4"
definition I2C_STAT_NACK :: u32 where [vx_consts]: "I2C_STAT_NACK = 2"
definition I2C_STAT_AL :: u32 where [vx_consts]: "I2C_STAT_AL = 1"
definition I2C_TIMEOUT :: nat where [vx_consts]: "I2C_TIMEOUT = 100000"

definition i2c_wait_bus_free :: "'w bus \<Rightarrow> 'w \<Rightarrow> int \<times> 'w" where
  "i2c_wait_bus_free B w =
     (case spin_while (reg_test B I2C_IRQSTATUS_RAW (\<lambda>v. v AND I2C_STAT_BB \<noteq> 0)) I2C_TIMEOUT w of
        (t, w') \<Rightarrow> (if t = 0 then - 1 else 0, w'))"

fun wait_status_loop :: "'w bus \<Rightarrow> u32 \<Rightarrow> nat \<Rightarrow> 'w \<Rightarrow> u32 \<times> 'w" where
  "wait_status_loop B m 0 w = (0, w)"
| "wait_status_loop B m (Suc t) w = (case mmio_read32 B I2C_IRQSTATUS_RAW w of (stat, w') \<Rightarrow>
     if stat AND (m OR I2C_STAT_NACK OR I2C_STAT_AL) \<noteq> 0 then (stat, w') else wait_status_loop B m t w')"

definition i2c_wait_status :: "'w bus \<Rightarrow> u32 \<Rightarrow> 'w \<Rightarrow> u32 \<times> 'w" where
  "i2c_wait_status B m w = wait_status_loop B m I2C_TIMEOUT w"

definition i2c_clear_status :: "'w bus \<Rightarrow> 'w \<Rightarrow> 'w" where
  "i2c_clear_status B w = mmio_write32 B I2C_IRQSTATUS 0x7FFF w"

definition i2c_flush :: "'w bus \<Rightarrow> 'w \<Rightarrow> 'w" where
  "i2c_flush B w = i2c_clear_status B (bus_writes B
     [(I2C_CON, I2C_CON_EN OR I2C_CON_MST OR I2C_CON_STP), (I2C_CON, 0), (I2C_CON, I2C_CON_EN)] w)"

definition i2c_configure :: "'w bus \<Rightarrow> 'w \<Rightarrow> 'w" where
  "i2c_configure B w = bus_reads B [I2C_REVNB_LO, I2C_SYSTEST]
     (bus_writes B [(I2C_IRQENABLE_CLR, 0x7FFF), (I2C_CON, I2C_CON_EN)]
     (i2c_clear_status B
     (bus_writes B [(I2C_PSC, 3), (I2C_SCLL, 53), (I2C_SCLH, 55), (I2C_OA, 1)] w)))"

definition i2c_init :: "'w bus \<Rightarrow> 'w \<Rightarrow> 'w" where
  "i2c_init B w =
     (let w = bus_reads B [CONF_I2C0_SCL, CONF_I2C0_SDA] (bus_writes B [(CONF_I2C0_SCL, PAD_I2C0_MODE), (CONF_I2C0_SDA, PAD_I2C0_MODE)] w);
          w = mmio_write32 B CM_WKUP_I2C0_CLKCTRL 2 w in
      case spin_until (reg_test B CM_WKUP_I2C0_CLKCTRL (\<lambda>v. drop_bit 16 v AND 3 = 0)) I2C_TIMEOUT w of (t, w) \<Rightarrow>
        if t = 0 then w
        else case spin_while (reg_test B I2C_SYSS (\<lambda>v. v AND I2C_SYSS_RDONE = 0)) I2C_TIMEOUT
               (bus_writes B [(I2C_CON, 0), (I2C_SYSC, I2C_SYSC_SRST)] w) of (t, w) \<Rightarrow>
          if t = 0 then w else i2c_configure B w)"

text \<open>A wait for a status flag, and what the callers do with it: the transfer goes on with \<open>f\<close>, or is flushed.
  The waits for data also stop at a missing acknowledge; those for the end of a phase do not.\<close>

definition await_data :: "'w bus \<Rightarrow> u32 \<Rightarrow> 'a \<Rightarrow> 'w \<Rightarrow> ('w \<Rightarrow> 'a \<times> 'w) \<Rightarrow> 'a \<times> 'w" where
  "await_data B m err w f = (case i2c_wait_status B m w of (stat, w') \<Rightarrow>
     if stat = 0 \<or> stat AND I2C_STAT_NACK \<noteq> 0 then (err, i2c_flush B w') else f w')"

definition send_byte :: "'w bus \<Rightarrow> u8 \<Rightarrow> 'w \<Rightarrow> 'w" where
  "send_byte B b w = bus_writes B [(I2C_DATA, ucast b), (I2C_IRQSTATUS, I2C_STAT_XRDY)] w"

definition start_transfer :: "'w bus \<Rightarrow> u8 \<Rightarrow> u32 \<Rightarrow> u32 \<Rightarrow> 'w \<Rightarrow> 'w" where
  "start_transfer B slave cnt con w = bus_writes B [(I2C_SA, ucast slave), (I2C_CNT, cnt), (I2C_CON, con)] (i2c_clear_status B w)"

definition i2c_write_reg :: "'w bus \<Rightarrow> u8 \<Rightarrow> u8 \<Rightarrow> u8 \<Rightarrow> 'w \<Rightarrow> int \<times> 'w" where
  "i2c_write_reg B slave reg val w = (case i2c_wait_bus_free B w of (r, w) \<Rightarrow>
     if r \<noteq> 0 then (- 1, i2c_flush B w)
     else let w = start_transfer B slave 2 (I2C_CON_EN OR I2C_CON_MST OR I2C_CON_TRX OR I2C_CON_STT OR I2C_CON_STP) w in
       await_data B I2C_STAT_XRDY (- 1) w (\<lambda>w.
       await_data B I2C_STAT_XRDY (- 1) (send_byte B reg w) (\<lambda>w.
       case i2c_wait_status B I2C_STAT_ARDY (send_byte B val w) of (stat, w) \<Rightarrow>
         if stat = 0 then (- 1, i2c_flush B (bus_reads B [I2C_IRQSTATUS_RAW] w))
         else (0, mmio_write32 B I2C_IRQSTATUS I2C_STAT_ARDY w))))"

text \<open>The first phase of a read: the register address, without a stop.\<close>

definition read_phase1 :: "'w bus \<Rightarrow> u8 \<Rightarrow> u8 \<Rightarrow> 'a \<Rightarrow> 'w \<Rightarrow> ('w \<Rightarrow> 'a \<times> 'w) \<Rightarrow> 'a \<times> 'w" where
  "read_phase1 B slave reg err w f = (case i2c_wait_bus_free B w of (r, w) \<Rightarrow>
     if r \<noteq> 0 then (err, i2c_flush B w)
     else let w = start_transfer B slave 1 (I2C_CON_EN OR I2C_CON_MST OR I2C_CON_TRX OR I2C_CON_STT) w in
       await_data B I2C_STAT_XRDY err w (\<lambda>w.
       case i2c_wait_status B I2C_STAT_ARDY (send_byte B reg w) of (stat, w) \<Rightarrow>
         if stat = 0 then (err, i2c_flush B w) else f (mmio_write32 B I2C_IRQSTATUS I2C_STAT_ARDY w)))"

definition read_byte :: "'w bus \<Rightarrow> 'w \<Rightarrow> u8 \<times> 'w" where
  "read_byte B w = (case mmio_read32 B I2C_DATA w of (v, w') \<Rightarrow> (ucast (v AND 0xFF), mmio_write32 B I2C_IRQSTATUS I2C_STAT_RRDY w'))"

definition end_read :: "'w bus \<Rightarrow> 'w \<Rightarrow> 'w" where
  "end_read B w = (case i2c_wait_status B I2C_STAT_ARDY w of (stat, w') \<Rightarrow>
     if stat \<noteq> 0 then mmio_write32 B I2C_IRQSTATUS I2C_STAT_ARDY w' else w')"

definition start_read :: "'w bus \<Rightarrow> u32 \<Rightarrow> 'w \<Rightarrow> 'w" where
  "start_read B len w = bus_writes B [(I2C_CNT, len), (I2C_CON, I2C_CON_EN OR I2C_CON_MST OR I2C_CON_STT OR I2C_CON_STP)] (i2c_clear_status B w)"

text \<open>The result is the return value and what was stored through \<open>val\<close>, if anything.\<close>

definition i2c_read_reg :: "'w bus \<Rightarrow> u8 \<Rightarrow> u8 \<Rightarrow> 'w \<Rightarrow> (int \<times> u8 option) \<times> 'w" where
  "i2c_read_reg B slave reg w = read_phase1 B slave reg (- 1, None) w (\<lambda>w.
     await_data B I2C_STAT_RRDY (- 1, None) (start_read B 1 w) (\<lambda>w.
       case read_byte B w of (v, w) \<Rightarrow> ((0, Some v), end_read B w)))"

fun read_bytes :: "'w bus \<Rightarrow> nat \<Rightarrow> u8 list \<Rightarrow> 'w \<Rightarrow> (int \<times> u8 list) \<times> 'w" where
  "read_bytes B 0 acc w = ((0, acc), end_read B w)"
| "read_bytes B (Suc n) acc w = await_data B I2C_STAT_RRDY (- 1, acc) w (\<lambda>w.
     case read_byte B w of (v, w) \<Rightarrow> read_bytes B n (acc @ [v]) w)"

text \<open>\<open>buf = None\<close> is the null pointer; the bytes returned are those stored from \<open>buf[0]\<close> on.\<close>

definition i2c_read_block :: "'w bus \<Rightarrow> u8 \<Rightarrow> u8 \<Rightarrow> u8 list option \<Rightarrow> int \<Rightarrow> 'w \<Rightarrow> (int \<times> u8 list) \<times> 'w" where
  "i2c_read_block B slave reg buf len w =
     (if len \<le> 0 \<or> buf = None then ((- 1, []), w)
      else read_phase1 B slave reg (- 1, []) w (\<lambda>w. read_bytes B (nat len) [] (start_read B (of_int len) w)))"

definition scan_one :: "'w bus \<Rightarrow> u8 \<Rightarrow> 'w \<Rightarrow> bool \<times> 'w" where
  "scan_one B addr w = (case i2c_wait_bus_free B w of (r, w) \<Rightarrow>
     if r \<noteq> 0 then (False, i2c_flush B w)
     else let w = start_transfer B addr 1 (I2C_CON_EN OR I2C_CON_MST OR I2C_CON_TRX OR I2C_CON_STT OR I2C_CON_STP) w in
       case i2c_wait_status B I2C_STAT_XRDY w of (stat, w) \<Rightarrow>
         if stat = 0 \<or> stat AND I2C_STAT_NACK \<noteq> 0 then (False, i2c_flush B (mmio_write32 B I2C_IRQSTATUS stat w))
         else case i2c_wait_status B I2C_STAT_ARDY (send_byte B 0 w) of (stat, w) \<Rightarrow>
           (stat \<noteq> 0 \<and> stat AND I2C_STAT_NACK = 0, i2c_flush B (mmio_write32 B I2C_IRQSTATUS stat w)))"

text \<open>The number of devices found.\<close>

fun scan_from :: "'w bus \<Rightarrow> u8 list \<Rightarrow> nat \<Rightarrow> 'w \<Rightarrow> nat \<times> 'w" where
  "scan_from B [] found w = (found, w)"
| "scan_from B (a # as) found w = (case scan_one B a w of (hit, w') \<Rightarrow> scan_from B as (if hit then found + 1 else found) w')"

definition i2c_scan :: "'w bus \<Rightarrow> 'w \<Rightarrow> nat \<times> 'w" where
  "i2c_scan B w = scan_from B (map of_nat [0x08..<0x78]) 0 w"

text \<open>A bus that stays busy is not noticed: the wait reports success after all its reads.\<close>

lemma stuck_bus_unnoticed:
  assumes "\<And>w. fst (mmio_read32 B I2C_IRQSTATUS_RAW w) AND I2C_STAT_BB \<noteq> 0"
  shows "fst (i2c_wait_bus_free B w) = 0"
proof -
  have "fst (spin_while (reg_test B I2C_IRQSTATUS_RAW (\<lambda>v. v AND I2C_STAT_BB \<noteq> 0)) I2C_TIMEOUT w) = - 1"
    by (rule spin_while_timeout) (use assms in \<open>simp add: reg_test_def split_beta\<close>)
  then show ?thesis by (simp add: i2c_wait_bus_free_def split_beta)
qed

end
