(* ===== verification/Hdmi.thy ===== *)
theory Hdmi
  imports I2c
begin

section \<open>The HDMI transmitter (\<open>kernel/src/drivers/tda19988.c\<close>)\<close>

text \<open>
  The chip has pages of 256 registers; a register number is \<open>(page << 8) | addr\<close>, and a write to address
  \<open>0xFF\<close> selects the page.  The driver remembers the selected page in \<open>g_current_page\<close>, with \<open>0xFF\<close> for
  unknown.  The state is that byte and the world behind the bus.  The two initialisation functions are
  straight sequences of calls; a call is a constructor of \<open>tda_op\<close> and \<open>tda_seq\<close> runs a sequence.  Delays
  and messages are left out.
\<close>

subsection \<open>The code\<close>

definition TDA_HDMI_I2C_ADDR :: u8 where [vx_consts]: "TDA_HDMI_I2C_ADDR = 0x70"
definition TDA_CEC_I2C_ADDR :: u8 where [vx_consts]: "TDA_CEC_I2C_ADDR = 0x34"
definition TDA_CURPAGE_ADDR :: u8 where [vx_consts]: "TDA_CURPAGE_ADDR = 0xFF"

definition TDA_PAGE :: "u16 \<Rightarrow> u8" where "TDA_PAGE reg = ucast (drop_bit 8 reg AND 0xFF)"
definition TDA_ADDR :: "u16 \<Rightarrow> u8" where "TDA_ADDR reg = ucast (reg AND 0xFF)"

definition REG_MAIN_CNTRL0 :: u16 where [vx_consts]: "REG_MAIN_CNTRL0 = 0x0001"
definition REG_SOFTRESET :: u16 where [vx_consts]: "REG_SOFTRESET = 0x000A"
definition REG_I2C_MASTER :: u16 where [vx_consts]: "REG_I2C_MASTER = 0x000D"
definition REG_DDC_DISABLE :: u16 where [vx_consts]: "REG_DDC_DISABLE = 0x000B"
definition REG_ENA_VP_0 :: u16 where [vx_consts]: "REG_ENA_VP_0 = 0x0018"
definition REG_ENA_VP_1 :: u16 where [vx_consts]: "REG_ENA_VP_1 = 0x0019"
definition REG_ENA_VP_2 :: u16 where [vx_consts]: "REG_ENA_VP_2 = 0x001A"
definition REG_ENA_AP :: u16 where [vx_consts]: "REG_ENA_AP = 0x001E"
definition REG_VIP_CNTRL_0 :: u16 where [vx_consts]: "REG_VIP_CNTRL_0 = 0x0020"
definition REG_VIP_CNTRL_1 :: u16 where [vx_consts]: "REG_VIP_CNTRL_1 = 0x0021"
definition REG_VIP_CNTRL_2 :: u16 where [vx_consts]: "REG_VIP_CNTRL_2 = 0x0022"
definition REG_VIP_CNTRL_3 :: u16 where [vx_consts]: "REG_VIP_CNTRL_3 = 0x0023"
definition REG_VIP_CNTRL_4 :: u16 where [vx_consts]: "REG_VIP_CNTRL_4 = 0x0024"
definition REG_VIP_CNTRL_5 :: u16 where [vx_consts]: "REG_VIP_CNTRL_5 = 0x0025"
definition REG_MUX_VP_VIP_OUT :: u16 where [vx_consts]: "REG_MUX_VP_VIP_OUT = 0x0027"
definition REG_MAT_CONTRL :: u16 where [vx_consts]: "REG_MAT_CONTRL = 0x0080"
definition REG_VIDFORMAT :: u16 where [vx_consts]: "REG_VIDFORMAT = 0x00A0"
definition REG_REFPIX_MSB :: u16 where [vx_consts]: "REG_REFPIX_MSB = 0x00A1"
definition REG_REFLINE_MSB :: u16 where [vx_consts]: "REG_REFLINE_MSB = 0x00A3"
definition REG_NPIX_MSB :: u16 where [vx_consts]: "REG_NPIX_MSB = 0x00A5"
definition REG_NLINE_MSB :: u16 where [vx_consts]: "REG_NLINE_MSB = 0x00A7"
definition REG_VS_LINE_STRT_1_MSB :: u16 where [vx_consts]: "REG_VS_LINE_STRT_1_MSB = 0x00A9"
definition REG_VS_PIX_STRT_1_MSB :: u16 where [vx_consts]: "REG_VS_PIX_STRT_1_MSB = 0x00AB"
definition REG_VS_LINE_END_1_MSB :: u16 where [vx_consts]: "REG_VS_LINE_END_1_MSB = 0x00AD"
definition REG_VS_PIX_END_1_MSB :: u16 where [vx_consts]: "REG_VS_PIX_END_1_MSB = 0x00AF"
definition REG_VS_LINE_STRT_2_MSB :: u16 where [vx_consts]: "REG_VS_LINE_STRT_2_MSB = 0x00B1"
definition REG_VS_PIX_STRT_2_MSB :: u16 where [vx_consts]: "REG_VS_PIX_STRT_2_MSB = 0x00B3"
definition REG_VS_LINE_END_2_MSB :: u16 where [vx_consts]: "REG_VS_LINE_END_2_MSB = 0x00B5"
definition REG_VS_PIX_END_2_MSB :: u16 where [vx_consts]: "REG_VS_PIX_END_2_MSB = 0x00B7"
definition REG_HS_PIX_START_MSB :: u16 where [vx_consts]: "REG_HS_PIX_START_MSB = 0x00B9"
definition REG_HS_PIX_STOP_MSB :: u16 where [vx_consts]: "REG_HS_PIX_STOP_MSB = 0x00BB"
definition REG_VWIN_START_1_MSB :: u16 where [vx_consts]: "REG_VWIN_START_1_MSB = 0x00BD"
definition REG_VWIN_END_1_MSB :: u16 where [vx_consts]: "REG_VWIN_END_1_MSB = 0x00BF"
definition REG_VWIN_START_2_MSB :: u16 where [vx_consts]: "REG_VWIN_START_2_MSB = 0x00C1"
definition REG_VWIN_END_2_MSB :: u16 where [vx_consts]: "REG_VWIN_END_2_MSB = 0x00C3"
definition REG_DE_START_MSB :: u16 where [vx_consts]: "REG_DE_START_MSB = 0x00C5"
definition REG_DE_STOP_MSB :: u16 where [vx_consts]: "REG_DE_STOP_MSB = 0x00C7"
definition REG_TBG_CNTRL_0 :: u16 where [vx_consts]: "REG_TBG_CNTRL_0 = 0x00CA"
definition REG_TBG_CNTRL_1 :: u16 where [vx_consts]: "REG_TBG_CNTRL_1 = 0x00CB"
definition REG_HVF_CNTRL_0 :: u16 where [vx_consts]: "REG_HVF_CNTRL_0 = 0x00E4"
definition REG_HVF_CNTRL_1 :: u16 where [vx_consts]: "REG_HVF_CNTRL_1 = 0x00E5"
definition REG_RPT_CNTRL :: u16 where [vx_consts]: "REG_RPT_CNTRL = 0x00F0"
definition REG_ENABLE_SPACE :: u16 where [vx_consts]: "REG_ENABLE_SPACE = 0x00D6"
definition REG_AIP_CNTRL_0 :: u16 where [vx_consts]: "REG_AIP_CNTRL_0 = 0x1100"
definition REG_ENC_CNTRL :: u16 where [vx_consts]: "REG_ENC_CNTRL = 0x110D"
definition REG_DIP_IF_FLAGS :: u16 where [vx_consts]: "REG_DIP_IF_FLAGS = 0x110F"
definition REG_TX33 :: u16 where [vx_consts]: "REG_TX33 = 0x12B8"
definition REG_PLL_SERIAL_1 :: u16 where [vx_consts]: "REG_PLL_SERIAL_1 = 0x0200"
definition REG_PLL_SERIAL_2 :: u16 where [vx_consts]: "REG_PLL_SERIAL_2 = 0x0201"
definition REG_PLL_SERIAL_3 :: u16 where [vx_consts]: "REG_PLL_SERIAL_3 = 0x0202"
definition REG_SERIALIZER :: u16 where [vx_consts]: "REG_SERIALIZER = 0x0203"
definition REG_BUFFER_OUT :: u16 where [vx_consts]: "REG_BUFFER_OUT = 0x0204"
definition REG_PLL_SCG1 :: u16 where [vx_consts]: "REG_PLL_SCG1 = 0x0205"
definition REG_PLL_SCG2 :: u16 where [vx_consts]: "REG_PLL_SCG2 = 0x0206"
definition REG_PLL_SCGN1 :: u16 where [vx_consts]: "REG_PLL_SCGN1 = 0x0207"
definition REG_PLL_SCGN2 :: u16 where [vx_consts]: "REG_PLL_SCGN2 = 0x0208"
definition REG_PLL_SCGR1 :: u16 where [vx_consts]: "REG_PLL_SCGR1 = 0x0209"
definition REG_PLL_SCGR2 :: u16 where [vx_consts]: "REG_PLL_SCGR2 = 0x020A"
definition REG_AUDIO_DIV :: u16 where [vx_consts]: "REG_AUDIO_DIV = 0x020E"
definition REG_SEL_CLK :: u16 where [vx_consts]: "REG_SEL_CLK = 0x0211"
definition REG_ANA_GENERAL :: u16 where [vx_consts]: "REG_ANA_GENERAL = 0x0212"
definition REG_AVI_IF :: u16 where [vx_consts]: "REG_AVI_IF = 0x1040"

type_synonym 'w tda = "u8 \<times> 'w"

definition tda_set_page :: "'w bus \<Rightarrow> u8 \<Rightarrow> 'w tda \<Rightarrow> 'w tda" where
  "tda_set_page B page s = (case s of (cur, w) \<Rightarrow>
     if page \<noteq> cur then (page, snd (i2c_write_reg B TDA_HDMI_I2C_ADDR TDA_CURPAGE_ADDR page w)) else (cur, w))"

definition tda_write :: "'w bus \<Rightarrow> u16 \<Rightarrow> u8 \<Rightarrow> 'w tda \<Rightarrow> int \<times> 'w tda" where
  "tda_write B reg val s = (case tda_set_page B (TDA_PAGE reg) s of (cur, w) \<Rightarrow>
     case i2c_write_reg B TDA_HDMI_I2C_ADDR (TDA_ADDR reg) val w of (r, w') \<Rightarrow> (r, (cur, w')))"

definition tda_read :: "'w bus \<Rightarrow> u16 \<Rightarrow> 'w tda \<Rightarrow> (int \<times> u8 option) \<times> 'w tda" where
  "tda_read B reg s = (case tda_set_page B (TDA_PAGE reg) s of (cur, w) \<Rightarrow>
     case i2c_read_reg B TDA_HDMI_I2C_ADDR (TDA_ADDR reg) w of (r, w') \<Rightarrow> (r, (cur, w')))"

text \<open>Read, modify, write; a failed read leaves \<open>val\<close> at 0.\<close>

definition tda_modify :: "'w bus \<Rightarrow> u16 \<Rightarrow> (u8 \<Rightarrow> u8) \<Rightarrow> 'w tda \<Rightarrow> 'w tda" where
  "tda_modify B reg f s = (case tda_read B reg s of ((_, v), s') \<Rightarrow> snd (tda_write B reg (f (case v of Some x \<Rightarrow> x | None \<Rightarrow> 0)) s'))"

definition tda_set :: "'w bus \<Rightarrow> u16 \<Rightarrow> u8 \<Rightarrow> 'w tda \<Rightarrow> 'w tda" where
  "tda_set B reg bits = tda_modify B reg (\<lambda>v. v OR bits)"

definition tda_clear :: "'w bus \<Rightarrow> u16 \<Rightarrow> u8 \<Rightarrow> 'w tda \<Rightarrow> 'w tda" where
  "tda_clear B reg bits = tda_modify B reg (\<lambda>v. v AND NOT bits)"

definition tda_cec_write :: "'w bus \<Rightarrow> u8 \<Rightarrow> u8 \<Rightarrow> 'w tda \<Rightarrow> int \<times> 'w tda" where
  "tda_cec_write B reg val s = (case s of (cur, w) \<Rightarrow> case i2c_write_reg B TDA_CEC_I2C_ADDR reg val w of (r, w') \<Rightarrow> (r, (cur, w')))"

definition tda_write16 :: "'w bus \<Rightarrow> u16 \<Rightarrow> u16 \<Rightarrow> 'w tda \<Rightarrow> 'w tda" where
  "tda_write16 B reg_msb val16 s =
     snd (tda_write B (reg_msb + 1) (ucast (val16 AND 0xFF)) (snd (tda_write B reg_msb (ucast (drop_bit 8 val16 AND 0xFF)) s)))"

datatype tda_op = TWrite u16 u8 | TWrite16 u16 u16 | TSet u16 u8 | TClear u16 u8 | TCec u8 u8 | TForget

fun tda_do :: "'w bus \<Rightarrow> tda_op \<Rightarrow> 'w tda \<Rightarrow> 'w tda" where
  "tda_do B (TWrite r v) s = snd (tda_write B r v s)"
| "tda_do B (TWrite16 r v) s = tda_write16 B r v s"
| "tda_do B (TSet r b) s = tda_set B r b s"
| "tda_do B (TClear r b) s = tda_clear B r b s"
| "tda_do B (TCec r v) s = snd (tda_cec_write B r v s)"
| "tda_do B TForget s = (0xFF, snd s)"

definition tda_seq :: "'w bus \<Rightarrow> tda_op list \<Rightarrow> 'w tda \<Rightarrow> 'w tda" where
  "tda_seq B xs s = fold (tda_do B) xs s"

definition probe_ops :: "tda_op list" where
  "probe_ops = [
     TCec 0xFF 0x06, TWrite REG_SOFTRESET 0x03, TWrite REG_SOFTRESET 0x00, TSet REG_MAIN_CNTRL0 0x01,
     TClear REG_MAIN_CNTRL0 0x01, TForget, TWrite REG_PLL_SERIAL_1 0x00, TWrite REG_PLL_SERIAL_2 0x01,
     TWrite REG_PLL_SERIAL_3 0x00, TWrite REG_SERIALIZER 0x00, TWrite REG_BUFFER_OUT 0x00, TWrite REG_PLL_SCG1 0x00,
     TWrite REG_AUDIO_DIV 0x03, TWrite REG_SEL_CLK 0x09, TWrite REG_PLL_SCGN1 0xFA, TWrite REG_PLL_SCGN2 0x00,
     TWrite REG_PLL_SCGR1 0x5B, TWrite REG_PLL_SCGR2 0x00, TWrite REG_PLL_SCG2 0x10, TWrite REG_MUX_VP_VIP_OUT 0x24,
     TWrite REG_DDC_DISABLE 0x00, TSet REG_I2C_MASTER 0x01, TCec 0xFB 0x82]"

definition tda_probe :: "'w bus \<Rightarrow> 'w tda \<Rightarrow> 'w tda" where
  "tda_probe B = tda_seq B probe_ops"

text \<open>The AVI InfoFrame, with its checksum in byte 3.\<close>

definition infoframe_body :: "u8 list" where
  "infoframe_body = [0x82, 0x02, 0x0D, 0, 0x10, 0x18, 0, 0, 0, 0, 0, 0, 0, 0, 0, 0, 0]"

definition infoframe :: "u8 list" where
  "infoframe = (let sum = foldl (\<lambda>sum i. if i = 3 then sum else sum + infoframe_body ! i) 0 [0..<17] in infoframe_body[3 := 256 - sum])"

definition infoframe_ops :: "tda_op list" where
  "infoframe_ops = TClear REG_DIP_IF_FLAGS 2 # map (\<lambda>i. TWrite (REG_AVI_IF + of_nat i) (infoframe ! i)) [0..<17] @ [TSet REG_DIP_IF_FLAGS 2]"

definition tda_write_avi_infoframe :: "'w bus \<Rightarrow> 'w tda \<Rightarrow> 'w tda" where
  "tda_write_avi_infoframe B = tda_seq B infoframe_ops"

definition video_ops :: "tda_op list" where
  "video_ops = [
     TWrite REG_ENA_AP 0x03, TWrite REG_ENA_VP_0 0xFF, TWrite REG_ENA_VP_1 0xFF, TWrite REG_ENA_VP_2 0xFF,
     TWrite REG_VIP_CNTRL_0 0x23, TWrite REG_VIP_CNTRL_1 0x01, TWrite REG_VIP_CNTRL_2 0x45, TSet REG_AIP_CNTRL_0 0x01,
     TSet REG_TBG_CNTRL_1 0x40, TSet REG_TX33 0x02, TWrite REG_ENC_CNTRL 0x00, TWrite REG_HVF_CNTRL_0 0x00,
     TWrite REG_VIP_CNTRL_5 0x00, TWrite REG_VIP_CNTRL_4 0x00, TClear REG_PLL_SERIAL_3 0x01,
     TClear REG_PLL_SERIAL_1 0x40, TClear REG_PLL_SERIAL_3 0x04, TWrite REG_SERIALIZER 0x00,
     TWrite REG_HVF_CNTRL_1 0x00, TWrite REG_RPT_CNTRL 0x00, TWrite REG_SEL_CLK 0x09, TWrite REG_PLL_SERIAL_2 0x02,
     TSet REG_MAT_CONTRL 0x04, TWrite REG_ANA_GENERAL 0x09, TWrite REG_VIDFORMAT 0x00, TWrite16 REG_REFPIX_MSB 171,
     TWrite16 REG_REFLINE_MSB 2, TWrite16 REG_NPIX_MSB 1056, TWrite16 REG_NLINE_MSB 628,
     TWrite16 REG_VS_LINE_STRT_1_MSB 1, TWrite16 REG_VS_PIX_STRT_1_MSB 40, TWrite16 REG_VS_LINE_END_1_MSB 5,
     TWrite16 REG_VS_PIX_END_1_MSB 40, TWrite16 REG_VS_LINE_STRT_2_MSB 0, TWrite16 REG_VS_PIX_STRT_2_MSB 0,
     TWrite16 REG_VS_LINE_END_2_MSB 0, TWrite16 REG_VS_PIX_END_2_MSB 0, TWrite16 REG_HS_PIX_START_MSB 40,
     TWrite16 REG_HS_PIX_STOP_MSB 168, TWrite16 REG_VWIN_START_1_MSB 27, TWrite16 REG_VWIN_END_1_MSB 627,
     TWrite16 REG_VWIN_START_2_MSB 0, TWrite16 REG_VWIN_END_2_MSB 0, TWrite16 REG_DE_START_MSB 256,
     TWrite16 REG_DE_STOP_MSB 1056, TWrite REG_ENABLE_SPACE 0x01, TClear REG_TBG_CNTRL_0 0x40,
     TWrite REG_VIP_CNTRL_3 0x00, TSet REG_VIP_CNTRL_3 0x20, TWrite REG_TBG_CNTRL_1 0x04, TClear REG_TBG_CNTRL_1 0x40,
     TWrite REG_ENC_CNTRL 0x04, TClear REG_TBG_CNTRL_0 0x80]"

definition tda_enable_video :: "'w bus \<Rightarrow> 'w tda \<Rightarrow> 'w tda" where
  "tda_enable_video B s = tda_write_avi_infoframe B (tda_seq B video_ops s)"

definition tda19988_init :: "'w bus \<Rightarrow> 'w tda \<Rightarrow> 'w tda" where
  "tda19988_init B s = tda_enable_video B (tda_probe B s)"

subsection \<open>The contract of the chip\<close>

text \<open>What the chip promises over the I2C driver: a page register and a file of registers, and that every
  transfer is acknowledged.  The CEC part answers at an address of its own and has no pages.  A write to one of
  the two reset registers may change every other register, and when it ends the core reset (bit 0 of
  \<open>MAIN_CNTRL0\<close> goes from 1 to 0) the selected page is no longer known.\<close>

definition reg_key :: "u16 \<Rightarrow> u8 \<times> u8" where
  "reg_key r = (TDA_PAGE r, TDA_ADDR r)"

definition reset_keys :: "(u8 \<times> u8) set" where
  "reset_keys = {reg_key REG_SOFTRESET, reg_key REG_MAIN_CNTRL0}"

definition ends_core_reset :: "u8 \<times> u8 \<Rightarrow> u8 \<Rightarrow> u8 \<Rightarrow> bool" where
  "ends_core_reset k old new \<longleftrightarrow> k = reg_key REG_MAIN_CNTRL0 \<and> old AND 1 \<noteq> 0 \<and> new AND 1 = 0"

locale hdmi_chip =
  fixes B :: "'w bus" and chip_ok :: "'w \<Rightarrow> bool" and page :: "'w \<Rightarrow> u8" and regs :: "'w \<Rightarrow> u8 \<times> u8 \<Rightarrow> u8"
  assumes write_page: "chip_ok w \<Longrightarrow> \<exists>w'. i2c_write_reg B TDA_HDMI_I2C_ADDR TDA_CURPAGE_ADDR v w = (0, w') \<and> chip_ok w' \<and> page w' = v \<and> regs w' = regs w"
    and write_reg: "chip_ok w \<Longrightarrow> a \<noteq> TDA_CURPAGE_ADDR \<Longrightarrow> (page w, a) \<notin> reset_keys \<Longrightarrow>
      \<exists>w'. i2c_write_reg B TDA_HDMI_I2C_ADDR a v w = (0, w') \<and> chip_ok w' \<and> page w' = page w \<and> regs w' = (regs w)((page w, a) := v)"
    and write_reset: "chip_ok w \<Longrightarrow> (page w, a) \<in> reset_keys \<Longrightarrow>
      \<exists>w'. i2c_write_reg B TDA_HDMI_I2C_ADDR a v w = (0, w') \<and> chip_ok w' \<and> (\<not> ends_core_reset (page w, a) (regs w (page w, a)) v \<longrightarrow> page w' = page w)"
    and read_reg: "chip_ok w \<Longrightarrow> a \<noteq> TDA_CURPAGE_ADDR \<Longrightarrow>
      \<exists>w'. i2c_read_reg B TDA_HDMI_I2C_ADDR a w = ((0, Some (regs w (page w, a))), w') \<and> chip_ok w' \<and> page w' = page w \<and> regs w' = regs w"
    and write_cec: "chip_ok w \<Longrightarrow> \<exists>w'. i2c_write_reg B TDA_CEC_I2C_ADDR a v w = (0, w') \<and> chip_ok w' \<and> page w' = page w \<and> regs w' = regs w"

text \<open>The meaning of an operation on the register file alone.\<close>

fun tda_sem :: "tda_op \<Rightarrow> (u8 \<times> u8 \<Rightarrow> u8) \<Rightarrow> u8 \<times> u8 \<Rightarrow> u8" where
  "tda_sem (TWrite r v) f = f(reg_key r := v)"
| "tda_sem (TWrite16 r v) f = f(reg_key r := ucast (drop_bit 8 v AND 0xFF), reg_key (r + 1) := ucast (v AND 0xFF))"
| "tda_sem (TSet r b) f = f(reg_key r := f (reg_key r) OR b)"
| "tda_sem (TClear r b) f = f(reg_key r := f (reg_key r) AND NOT b)"
| "tda_sem (TCec r v) f = f"
| "tda_sem TForget f = f"

text \<open>A register that an operation may use: not on page \<open>0xFF\<close>, which stands for unknown, not the page
  register itself, and no reset register.\<close>

definition addressable :: "u16 \<Rightarrow> bool" where
  "addressable r \<longleftrightarrow> TDA_PAGE r \<noteq> 0xFF \<and> TDA_ADDR r \<noteq> TDA_CURPAGE_ADDR"

definition proper :: "u16 \<Rightarrow> bool" where
  "proper r \<longleftrightarrow> addressable r \<and> reg_key r \<notin> reset_keys"

fun proper_op :: "tda_op \<Rightarrow> bool" where
  "proper_op (TWrite r v) = proper r"
| "proper_op (TWrite16 r v) = (proper r \<and> proper (r + 1))"
| "proper_op (TSet r b) = proper r"
| "proper_op (TClear r b) = proper r"
| "proper_op (TCec r v) = True"
| "proper_op TForget = True"

context hdmi_chip
begin

text \<open>The remembered page is the selected one.\<close>

definition coherent :: "'w tda \<Rightarrow> bool" where
  "coherent s \<longleftrightarrow> chip_ok (snd s) \<and> (fst s \<noteq> 0xFF \<longrightarrow> page (snd s) = fst s)"

lemma set_page_ok:
  assumes "coherent s" "pg \<noteq> 0xFF"
  shows "\<exists>w. tda_set_page B pg s = (pg, w) \<and> chip_ok w \<and> page w = pg \<and> regs w = regs (snd s)"
  using assms write_page [of "snd s" pg] by (cases s) (auto simp: tda_set_page_def coherent_def)

lemma tda_write_ok:
  assumes "coherent s" "proper r"
  shows "\<exists>s'. tda_write B r v s = (0, s') \<and> coherent s' \<and> regs (snd s') = (regs (snd s))(reg_key r := v)"
proof -
  obtain w where w: "tda_set_page B (TDA_PAGE r) s = (TDA_PAGE r, w)" "chip_ok w" "page w = TDA_PAGE r" "regs w = regs (snd s)"
    using set_page_ok [OF assms(1), of "TDA_PAGE r"] assms(2) by (auto simp: proper_def addressable_def)
  then show ?thesis using write_reg [OF w(2), of "TDA_ADDR r" v] assms(2)
    by (auto simp: tda_write_def coherent_def proper_def addressable_def reg_key_def)
qed

text \<open>A reset register: the remembered page stays right unless the core reset ends.\<close>

lemma tda_write_reset:
  assumes "coherent s" "addressable r" "reg_key r \<in> reset_keys"
  shows "\<exists>s'. tda_write B r v s = (0, s') \<and> chip_ok (snd s') \<and> (\<not> ends_core_reset (reg_key r) (regs (snd s) (reg_key r)) v \<longrightarrow> coherent s')"
proof -
  obtain w where w: "tda_set_page B (TDA_PAGE r) s = (TDA_PAGE r, w)" "chip_ok w" "page w = TDA_PAGE r" "regs w = regs (snd s)"
    using set_page_ok [OF assms(1), of "TDA_PAGE r"] assms(2) by (auto simp: addressable_def)
  then show ?thesis using write_reset [OF w(2), of "TDA_ADDR r" v] assms(3)
    by (auto simp: tda_write_def coherent_def reg_key_def)
qed

lemma tda_read_ok:
  assumes "coherent s" "addressable r"
  shows "\<exists>s'. tda_read B r s = ((0, Some (regs (snd s) (reg_key r))), s') \<and> coherent s' \<and> regs (snd s') = regs (snd s)"
proof -
  obtain w where w: "tda_set_page B (TDA_PAGE r) s = (TDA_PAGE r, w)" "chip_ok w" "page w = TDA_PAGE r" "regs w = regs (snd s)"
    using set_page_ok [OF assms(1), of "TDA_PAGE r"] assms(2) by (auto simp: addressable_def)
  then show ?thesis using read_reg [OF w(2), of "TDA_ADDR r"] assms(2)
    by (auto simp: tda_read_def coherent_def addressable_def reg_key_def)
qed

lemma tda_modify_ok:
  assumes "coherent s" "proper r"
  shows "coherent (tda_modify B r f s) \<and> regs (snd (tda_modify B r f s)) = (regs (snd s))(reg_key r := f (regs (snd s) (reg_key r)))"
proof -
  obtain s1 where s1: "tda_read B r s = ((0, Some (regs (snd s) (reg_key r))), s1)" "coherent s1" "regs (snd s1) = regs (snd s)"
    using tda_read_ok [OF assms(1), of r] assms(2) unfolding proper_def by blast
  then show ?thesis using tda_write_ok [OF s1(2) assms(2), of "f (regs (snd s) (reg_key r))"] by (auto simp: tda_modify_def)
qed

lemma tda_modify_reset:
  assumes "coherent s" "addressable r" "reg_key r \<in> reset_keys"
  shows "chip_ok (snd (tda_modify B r f s)) \<and>
    (\<not> ends_core_reset (reg_key r) (regs (snd s) (reg_key r)) (f (regs (snd s) (reg_key r))) \<longrightarrow> coherent (tda_modify B r f s))"
proof -
  obtain s1 where s1: "tda_read B r s = ((0, Some (regs (snd s) (reg_key r))), s1)" "coherent s1" "regs (snd s1) = regs (snd s)"
    using tda_read_ok [OF assms(1,2)] by blast
  then show ?thesis using tda_write_reset [OF s1(2) assms(2,3), of "f (regs (snd s) (reg_key r))"] by (auto simp: tda_modify_def)
qed

lemma tda_do_ok:
  assumes "coherent s" "proper_op x"
  shows "coherent (tda_do B x s) \<and> regs (snd (tda_do B x s)) = tda_sem x (regs (snd s))"
proof (cases x)
  case (TWrite r v)
  then show ?thesis using tda_write_ok [OF assms(1), of r v] assms(2) by auto
next
  case (TWrite16 r v)
  let ?hi = "ucast (drop_bit 8 v AND 0xFF) :: u8" and ?lo = "ucast (v AND 0xFF) :: u8"
  obtain s1 where s1: "tda_write B r ?hi s = (0, s1)" "coherent s1" "regs (snd s1) = (regs (snd s))(reg_key r := ?hi)"
    using tda_write_ok [OF assms(1), of r ?hi] assms(2) TWrite16 by auto
  obtain s2 where "tda_write B (r + 1) ?lo s1 = (0, s2)" "coherent s2" "regs (snd s2) = (regs (snd s1))(reg_key (r + 1) := ?lo)"
    using tda_write_ok [OF s1(2), of "r + 1" ?lo] assms(2) TWrite16 by auto
  then show ?thesis using s1 TWrite16 by (simp add: tda_write16_def del: fun_upd_apply)
next
  case (TCec r v)
  then show ?thesis using write_cec [of "snd s" r v] assms(1) by (cases s) (auto simp: tda_cec_write_def coherent_def)
qed (use assms tda_modify_ok in \<open>auto simp: tda_set_def tda_clear_def coherent_def\<close>)

lemma tda_seq_ok:
  assumes "coherent s" "list_all proper_op xs"
  shows "coherent (tda_seq B xs s) \<and> regs (snd (tda_seq B xs s)) = fold tda_sem xs (regs (snd s))"
  using assms
proof (induction xs arbitrary: s)
  case (Cons x xs)
  then show ?case using tda_do_ok [OF Cons.prems(1), of x] Cons.IH [of "tda_do B x s"] by (simp add: tda_seq_def)
qed (simp add: tda_seq_def)

end

end
