(* ===== verification/Mdio.thy ===== *)
theory Mdio
  imports Mmio
begin

section \<open>The MDIO bus and the PHY (\<open>kernel/src/drivers/mdio.c\<close>)\<close>

text \<open>
  Every wait has a bound and reports when it runs out.  Messages on the console are left out; the read of
  \<open>MDIO_ALIVE\<close> whose value is only printed stays a read.
\<close>

subsection \<open>The code\<close>

definition CM_PER_CPGMAC0_CLKCTRL :: u32 where [vx_consts]: "CM_PER_CPGMAC0_CLKCTRL = 0x44E00014"
definition CM_PER_CPSW_CLKSTCTRL :: u32 where [vx_consts]: "CM_PER_CPSW_CLKSTCTRL = 0x44E00144"
definition CONF_MDIO_DATA :: u32 where [vx_consts]: "CONF_MDIO_DATA = 0x44E10948"
definition CONF_MDIO_CLK :: u32 where [vx_consts]: "CONF_MDIO_CLK = 0x44E1094C"
definition MDIO_CONTROL :: u32 where [vx_consts]: "MDIO_CONTROL = 0x4A101004"
definition MDIO_ALIVE :: u32 where [vx_consts]: "MDIO_ALIVE = 0x4A101008"
definition MDIO_USERACCESS0 :: u32 where [vx_consts]: "MDIO_USERACCESS0 = 0x4A101080"
definition MDIO_CTRL_ENABLE :: u32 where [vx_consts]: "MDIO_CTRL_ENABLE = 0x40000000"
definition MDIO_CTRL_CLKDIV :: u32 where [vx_consts]: "MDIO_CTRL_CLKDIV = 49"
definition USERACCESS_GO :: u32 where [vx_consts]: "USERACCESS_GO = 0x80000000"
definition USERACCESS_WRITE :: u32 where [vx_consts]: "USERACCESS_WRITE = 0x40000000"
definition USERACCESS_ACK :: u32 where [vx_consts]: "USERACCESS_ACK = 0x20000000"
definition MII_BMCR :: u8 where [vx_consts]: "MII_BMCR = 0"
definition MII_BMSR :: u8 where [vx_consts]: "MII_BMSR = 1"
definition MII_PHYSID1 :: u8 where [vx_consts]: "MII_PHYSID1 = 2"
definition MII_PHYSID2 :: u8 where [vx_consts]: "MII_PHYSID2 = 3"
definition MII_ANAR :: u8 where [vx_consts]: "MII_ANAR = 4"
definition MII_ANLPAR :: u8 where [vx_consts]: "MII_ANLPAR = 5"
definition BMCR_ANENABLE :: u16 where [vx_consts]: "BMCR_ANENABLE = 0x1000"
definition BMCR_ANRESTART :: u16 where [vx_consts]: "BMCR_ANRESTART = 0x200"
definition BMSR_LINK_UP :: u32 where [vx_consts]: "BMSR_LINK_UP = 4"
definition BMSR_ANEG_DONE :: u32 where [vx_consts]: "BMSR_ANEG_DONE = 0x20"
definition ANAR_ALL :: u16 where [vx_consts]: "ANAR_ALL = 0x01E1"

text \<open>\<open>while (c()) if (--n == 0) return false;\<close>\<close>

fun drain :: "('w \<Rightarrow> bool \<times> 'w) \<Rightarrow> nat \<Rightarrow> 'w \<Rightarrow> bool \<times> 'w" where
  "drain c 0 w = (False, w)"
| "drain c (Suc n) w = (case c w of (b, w') \<Rightarrow> if \<not> b then (True, w') else if n = 0 then (False, w') else drain c n w')"

definition mdio_wait_go :: "'w bus \<Rightarrow> 'w \<Rightarrow> int \<times> 'w" where
  "mdio_wait_go B w = (case drain (reg_test B MDIO_USERACCESS0 (\<lambda>v. v AND USERACCESS_GO \<noteq> 0)) 100000 w of
     (ok, w') \<Rightarrow> (if ok then E_OK else E_FAIL, w'))"

definition mdio_init :: "'w bus \<Rightarrow> 'w \<Rightarrow> int \<times> 'w" where
  "mdio_init B w =
     (case mmio_read32 B CM_PER_CPGMAC0_CLKCTRL (mmio_write32 B CM_PER_CPSW_CLKSTCTRL 2 w) of (reg, w) \<Rightarrow>
      case drain (reg_test B CM_PER_CPGMAC0_CLKCTRL (\<lambda>v. v AND 0x30000 \<noteq> 0)) 50000
             (mmio_write32 B CM_PER_CPGMAC0_CLKCTRL ((reg AND NOT 3) OR 2) w) of (ok, w) \<Rightarrow>
        if \<not> ok then (E_FAIL, w)
        else let w = bus_writes B [(CONF_MDIO_DATA, 0x30), (CONF_MDIO_CLK, 0), (MDIO_CONTROL, MDIO_CTRL_ENABLE OR MDIO_CTRL_CLKDIV)] w in
          case drain (reg_test B MDIO_ALIVE (\<lambda>v. v = 0)) 100000 w of (_, w) \<Rightarrow> (E_OK, bus_reads B [MDIO_ALIVE] w))"

definition access_word :: "u32 \<Rightarrow> u8 \<Rightarrow> u8 \<Rightarrow> u32" where
  "access_word flags phy_addr reg = (flags OR push_bit 21 (ucast reg AND 0x1F) OR push_bit 16 (ucast phy_addr AND 0x1F))"

definition mdio_read :: "'w bus \<Rightarrow> u8 \<Rightarrow> u8 \<Rightarrow> 'w \<Rightarrow> int \<times> 'w" where
  "mdio_read B phy_addr reg w = (case mdio_wait_go B w of (r, w) \<Rightarrow>
     if r \<noteq> E_OK then (E_FAIL, w)
     else case mdio_wait_go B (mmio_write32 B MDIO_USERACCESS0 (access_word USERACCESS_GO phy_addr reg) w) of (r, w) \<Rightarrow>
       if r \<noteq> E_OK then (E_FAIL, w)
       else case mmio_read32 B MDIO_USERACCESS0 w of (val, w) \<Rightarrow>
         if val AND USERACCESS_ACK = 0 then (E_FAIL, w) else (uint (val AND 0xFFFF), w))"

definition mdio_write :: "'w bus \<Rightarrow> u8 \<Rightarrow> u8 \<Rightarrow> u16 \<Rightarrow> 'w \<Rightarrow> int \<times> 'w" where
  "mdio_write B phy_addr reg data w = (case mdio_wait_go B w of (r, w) \<Rightarrow>
     if r \<noteq> E_OK then (E_FAIL, w)
     else mdio_wait_go B (mmio_write32 B MDIO_USERACCESS0 (access_word (USERACCESS_GO OR USERACCESS_WRITE) phy_addr reg OR ucast data) w))"

record phy_info =
  phy_addr :: u8
  phy_id :: u32
  phy_link_up :: u8
  phy_speed :: u16
  phy_duplex :: u8

text \<open>\<open>while (--n)\<close> with two reads of the latched status: \<open>link_loop B a n\<close> has \<open>n\<close> iterations left.\<close>

fun link_loop :: "'w bus \<Rightarrow> u8 \<Rightarrow> nat \<Rightarrow> 'w \<Rightarrow> bool \<times> 'w" where
  "link_loop B a 0 w = (False, w)"
| "link_loop B a (Suc n) w = (case mdio_read B a MII_BMSR (snd (mdio_read B a MII_BMSR w)) of (bmsr, w') \<Rightarrow>
     if bmsr \<ge> 0 \<and> (of_int bmsr :: u32) AND BMSR_LINK_UP \<noteq> 0 \<and> (of_int bmsr :: u32) AND BMSR_ANEG_DONE \<noteq> 0
     then (True, w') else link_loop B a n w')"

definition phy_wait_link :: "'w bus \<Rightarrow> u8 \<Rightarrow> 'w \<Rightarrow> int \<times> phy_info option \<times> 'w" where
  "phy_wait_link B a w =
     (let w = snd (mdio_write B a MII_ANAR ANAR_ALL w); w = snd (mdio_write B a MII_BMCR (BMCR_ANENABLE OR BMCR_ANRESTART) w) in
      case link_loop B a 9999999 w of (up, w) \<Rightarrow>
        if \<not> up then (E_FAIL, None, w)
        else case mdio_read B a MII_PHYSID1 w of (id1, w) \<Rightarrow>
          case mdio_read B a MII_PHYSID2 w of (id2, w) \<Rightarrow>
          case mdio_read B a MII_ANLPAR w of (anlp, w) \<Rightarrow>
            (E_OK, Some \<lparr>phy_addr = a, phy_id = push_bit 16 (of_int id1) OR of_int id2, phy_link_up = 1,
               phy_speed = (if (of_int anlp :: u32) AND 0x0180 \<noteq> 0 then 100 else 10),
               phy_duplex = (if (of_int anlp :: u32) AND 0x0140 \<noteq> 0 then 1 else 0)\<rparr>, w))"

subsection \<open>The command word\<close>

text \<open>The fields of the word do not overlap: the controller gets exactly the register, the PHY and the data.\<close>

lemma access_word_fields:
  fixes a r :: u8 and d :: u16
  assumes "a < 32" "r < 32"
  defines "v \<equiv> access_word (USERACCESS_GO OR USERACCESS_WRITE) a r OR ucast d"
  shows "drop_bit 21 v AND 0x1F = ucast r" "drop_bit 16 v AND 0x1F = ucast a" "(ucast v :: u16) = d"
    "v AND USERACCESS_GO \<noteq> 0" "v AND USERACCESS_WRITE \<noteq> 0"
proof -
  have m: "(0x1F :: u32) = mask 5" by (simp add: mask_eq_exp_minus_1)
  have small: "\<not> bit x n" if "x < 32" "5 \<le> n" for x :: u8 and n
  proof -
    have "unat x < 2 ^ 5" using that(1) by (simp add: word_less_nat_alt)
    also have "(2 :: nat) ^ 5 \<le> 2 ^ n" using that(2) by (rule power_increasing) simp
    finally have "\<not> bit (unat x) n" by (simp add: bit_iff_odd)
    then show ?thesis by (simp add: bit_unsigned_iff)
  qed
  define F where "F = USERACCESS_GO OR USERACCESS_WRITE"
  have go: "USERACCESS_GO = push_bit 31 1" "USERACCESS_WRITE = push_bit 30 1"
    by (simp_all add: USERACCESS_GO_def USERACCESS_WRITE_def)
  have F: "bit F n \<longleftrightarrow> n = 31 \<or> n = 30" for n
    unfolding F_def go by (simp only: bit_or_iff bit_push_bit_iff bit_1_iff possible_bit_word) auto
  note bits = v_def access_word_def m bit_simps F [unfolded F_def] F_def [symmetric] F
  show "drop_bit 21 v AND 0x1F = ucast r"
  proof (rule bit_word_eqI, unfold m)
    fix n
    have "\<not> bit d (21 + n)" "\<not> bit a (5 + n)" using small [OF assms(1), of "5 + n"] by (auto dest: bit_imp_le_length)
    moreover have "bit r n \<Longrightarrow> n < 5" using small [OF assms(2), of n] by force
    ultimately show "bit (drop_bit 21 v AND mask 5) n = bit (ucast r :: u32) n" by (auto simp: bits)
  qed
  show "drop_bit 16 v AND 0x1F = ucast a"
  proof (rule bit_word_eqI, unfold m)
    fix n
    have "\<not> bit d (16 + n)" by (auto dest: bit_imp_le_length)
    moreover have "bit a n \<Longrightarrow> n < 5" using small [OF assms(1), of n] by force
    ultimately show "bit (drop_bit 16 v AND mask 5) n = bit (ucast a :: u32) n" by (auto simp: bits)
  qed
  show "(ucast v :: u16) = d"
    by (rule bit_word_eqI) (auto simp: bits)
  have "bit v 31" "bit v 30" by (auto simp: bits)
  then show "v AND USERACCESS_GO \<noteq> 0" "v AND USERACCESS_WRITE \<noteq> 0"
    unfolding go by (simp_all only: bit_iff_and_push_bit_not_eq_0 not_False_eq_True)
qed

text \<open>A read returns 16 bits or \<open>E_FAIL\<close>, nothing else.\<close>

lemma mdio_read_range: "fst (mdio_read B a r w) = E_FAIL \<or> 0 \<le> fst (mdio_read B a r w) \<and> fst (mdio_read B a r w) < 2 ^ 16"
proof -
  have "uint (v AND 0xFFFF) < 2 ^ 16" for v :: u32
  proof -
    have "(0xFFFF :: u32) = mask 16" by (simp add: mask_eq_exp_minus_1)
    then have e: "v AND 0xFFFF = take_bit 16 v" by (simp only: take_bit_eq_mask)
    show ?thesis unfolding e by (simp only: unsigned_take_bit_eq take_bit_int_less_exp)
  qed
  then show ?thesis by (auto simp: mdio_read_def split_beta)
qed

end
