(* ===== verification/Watchdog.thy ===== *)
theory Watchdog
  imports Mmio
begin

section \<open>The watchdog (\<open>kernel/src/drivers/watchdog.c\<close>)\<close>

text \<open>The waits have no bound, so they are \<open>partial_function\<close>s: \<open>None\<close> if the awaited state never comes.\<close>

definition CM_WKUP_WDT1_CLKCTRL :: u32 where [vx_consts]: "CM_WKUP_WDT1_CLKCTRL = 0x44E004D4"
definition WDT_WSPR :: u32 where [vx_consts]: "WDT_WSPR = 0x44E35048"
definition WDT_WWPS :: u32 where [vx_consts]: "WDT_WWPS = 0x44E35034"

partial_function (option) wait_reg :: "'w bus \<Rightarrow> u32 \<Rightarrow> (u32 \<Rightarrow> bool) \<Rightarrow> 'w \<Rightarrow> 'w option" where
  "wait_reg B addr f w = (case mmio_read32 B addr w of (v, w') \<Rightarrow> if f v then Some w' else wait_reg B addr f w')"

definition watchdog_disable :: "'w bus \<Rightarrow> 'w \<Rightarrow> 'w option" where
  "watchdog_disable B w =
     Option.bind (wait_reg B CM_WKUP_WDT1_CLKCTRL (\<lambda>v. v AND 3 = 2) (mmio_write32 B CM_WKUP_WDT1_CLKCTRL 2 w)) (\<lambda>w.
     Option.bind (wait_reg B WDT_WWPS (\<lambda>v. v = 0) (mmio_write32 B WDT_WSPR 0xAAAA w)) (\<lambda>w.
     wait_reg B WDT_WWPS (\<lambda>v. v = 0) (mmio_write32 B WDT_WSPR 0x5555 w)))"

text \<open>A wait returns if some number of reads leads to the awaited state.\<close>

lemma wait_reg_returns:
  "f (fst (mmio_read32 B addr (((\<lambda>w. snd (mmio_read32 B addr w)) ^^ n) w))) \<Longrightarrow> \<exists>w'. wait_reg B addr f w = Some w'"
proof (induction n arbitrary: w)
  case 0
  then show ?case by (subst wait_reg.simps) (simp add: split_beta)
next
  case (Suc n)
  have "\<exists>w'. wait_reg B addr f (snd (mmio_read32 B addr w)) = Some w'"
    by (rule Suc.IH) (use Suc.prems in \<open>simp only: funpow_Suc_right o_apply\<close>)
  then show ?case by (subst wait_reg.simps) (simp add: split_beta)
qed

end
