(* ===== verification/Lcdc.thy ===== *)
theory Lcdc
  imports Mmio Mmu
begin

section \<open>The display controller (\<open>kernel/src/drivers/lcdc.c\<close>)\<close>

text \<open>
  The setup of pins, clocks, framebuffer and raster.  The framebuffer is reached with plain stores, the
  registers with \<open>mmio_write32\<close>.  The two waits for the clock generator are those of \<open>spin_while\<close>: a
  time-out is not noticed.  Delay loops and messages are left out.
\<close>

definition LCDC_BASE :: u32 where [vx_consts]: "LCDC_BASE = 0x4830E000"
definition CONF_LCD_DATA0 :: u32 where [vx_consts]: "CONF_LCD_DATA0 = 0x44E108A0"
definition CONF_LCD_VSYNC :: u32 where [vx_consts]: "CONF_LCD_VSYNC = 0x44E108E0"
definition CONF_LCD_HSYNC :: u32 where [vx_consts]: "CONF_LCD_HSYNC = 0x44E108E4"
definition CONF_LCD_PCLK :: u32 where [vx_consts]: "CONF_LCD_PCLK = 0x44E108E8"
definition CONF_LCD_AC_BIAS_EN :: u32 where [vx_consts]: "CONF_LCD_AC_BIAS_EN = 0x44E108EC"
definition LCD_PAD_MODE0 :: u32 where [vx_consts]: "LCD_PAD_MODE0 = 0x28"
definition CM_PER_LCDC_CLKCTRL :: u32 where [vx_consts]: "CM_PER_LCDC_CLKCTRL = 0x44E00018"
definition CM_PER_LCDC_CLKSTCTRL :: u32 where [vx_consts]: "CM_PER_LCDC_CLKSTCTRL = 0x44E00148"
definition CM_CLKMODE_DPLL_DISP :: u32 where [vx_consts]: "CM_CLKMODE_DPLL_DISP = 0x44E00498"
definition CM_IDLEST_DPLL_DISP :: u32 where [vx_consts]: "CM_IDLEST_DPLL_DISP = 0x44E00448"
definition CM_CLKSEL_DPLL_DISP :: u32 where [vx_consts]: "CM_CLKSEL_DPLL_DISP = 0x44E00454"
definition CM_DIV_M2_DPLL_DISP :: u32 where [vx_consts]: "CM_DIV_M2_DPLL_DISP = 0x44E004A4"
definition CLKSEL_LCDC_PIXEL_CLK :: u32 where [vx_consts]: "CLKSEL_LCDC_PIXEL_CLK = 0x44E00534"

definition LCD_CTRL :: u32 where [vx_consts]: "LCD_CTRL = 0x4830E004"
definition LCD_RASTER_CTRL :: u32 where [vx_consts]: "LCD_RASTER_CTRL = 0x4830E028"
definition LCD_RASTER_TIMING_0 :: u32 where [vx_consts]: "LCD_RASTER_TIMING_0 = 0x4830E02C"
definition LCD_RASTER_TIMING_1 :: u32 where [vx_consts]: "LCD_RASTER_TIMING_1 = 0x4830E030"
definition LCD_RASTER_TIMING_2 :: u32 where [vx_consts]: "LCD_RASTER_TIMING_2 = 0x4830E034"
definition LCD_LCDDMA_CTRL :: u32 where [vx_consts]: "LCD_LCDDMA_CTRL = 0x4830E040"
definition LCD_LCDDMA_FB0_BASE :: u32 where [vx_consts]: "LCD_LCDDMA_FB0_BASE = 0x4830E044"
definition LCD_LCDDMA_FB0_CEIL :: u32 where [vx_consts]: "LCD_LCDDMA_FB0_CEIL = 0x4830E048"
definition LCD_LCDDMA_FB1_BASE :: u32 where [vx_consts]: "LCD_LCDDMA_FB1_BASE = 0x4830E04C"
definition LCD_LCDDMA_FB1_CEIL :: u32 where [vx_consts]: "LCD_LCDDMA_FB1_CEIL = 0x4830E050"
definition LCD_IRQSTATUS :: u32 where [vx_consts]: "LCD_IRQSTATUS = 0x4830E05C"
definition LCD_CLKC_ENABLE :: u32 where [vx_consts]: "LCD_CLKC_ENABLE = 0x4830E06C"
definition LCD_CLKC_RESET :: u32 where [vx_consts]: "LCD_CLKC_RESET = 0x4830E070"

definition LCD_HORLSB :: "u32 \<Rightarrow> u32" where "LCD_HORLSB x = push_bit 4 ((drop_bit 4 x - 1) AND 0x3F)"
definition LCD_HORMSB :: "u32 \<Rightarrow> u32" where "LCD_HORMSB x = drop_bit 3 ((drop_bit 4 x - 1) AND 0x40)"
definition LCD_HFPLSB :: "u32 \<Rightarrow> u32" where "LCD_HFPLSB x = push_bit 16 ((x - 1) AND 0xFF)"
definition LCD_HBPLSB :: "u32 \<Rightarrow> u32" where "LCD_HBPLSB x = push_bit 24 ((x - 1) AND 0xFF)"
definition LCD_HSWLSB :: "u32 \<Rightarrow> u32" where "LCD_HSWLSB x = push_bit 10 ((x - 1) AND 0x3F)"
definition LCD_VERLSB :: "u32 \<Rightarrow> u32" where "LCD_VERLSB x = (x - 1) AND 0x3FF"
definition LCD_VFP :: "u32 \<Rightarrow> u32" where "LCD_VFP x = push_bit 16 x"
definition LCD_VBP :: "u32 \<Rightarrow> u32" where "LCD_VBP x = push_bit 24 x"
definition LCD_VSW :: "u32 \<Rightarrow> u32" where "LCD_VSW x = push_bit 10 (x - 1)"
definition LCD_HSWMSB :: "u32 \<Rightarrow> u32" where "LCD_HSWMSB x = push_bit 21 ((x - 1) AND 0x3C0)"
definition LCD_VERMSB :: "u32 \<Rightarrow> u32" where "LCD_VERMSB x = push_bit 16 ((x - 1) AND 0x400)"
definition LCD_HBPMSB :: "u32 \<Rightarrow> u32" where "LCD_HBPMSB x = drop_bit 4 ((x - 1) AND 0x300)"
definition LCD_HFPMSB :: "u32 \<Rightarrow> u32" where "LCD_HFPMSB x = drop_bit 8 ((x - 1) AND 0x300)"

definition DISPLAY_WIDTH :: u32 where [vx_consts]: "DISPLAY_WIDTH = 800"
definition DISPLAY_HEIGHT :: u32 where [vx_consts]: "DISPLAY_HEIGHT = 600"
definition DISPLAY_HFP :: u32 where [vx_consts]: "DISPLAY_HFP = 40"
definition DISPLAY_HBP :: u32 where [vx_consts]: "DISPLAY_HBP = 88"
definition DISPLAY_HSW :: u32 where [vx_consts]: "DISPLAY_HSW = 128"
definition DISPLAY_VFP :: u32 where [vx_consts]: "DISPLAY_VFP = 1"
definition DISPLAY_VBP :: u32 where [vx_consts]: "DISPLAY_VBP = 23"
definition DISPLAY_VSW :: u32 where [vx_consts]: "DISPLAY_VSW = 4"
definition PALETTE_SIZE :: u32 where [vx_consts]: "PALETTE_SIZE = 32"
definition FB_SIZE :: u32 where [vx_consts]: "FB_SIZE = DISPLAY_WIDTH * DISPLAY_HEIGHT * 2"
definition DPLL_DISP_M :: u32 where [vx_consts]: "DPLL_DISP_M = 10"
definition DPLL_DISP_N :: u32 where [vx_consts]: "DPLL_DISP_N = 2"
definition DPLL_DISP_M2 :: u32 where [vx_consts]: "DPLL_DISP_M2 = 1"
definition LCDC_CLKDIV :: u32 where [vx_consts]: "LCDC_CLKDIV = 2"

definition lcd_pinmux_setup :: "'w bus \<Rightarrow> 'w \<Rightarrow> 'w" where
  "lcd_pinmux_setup B w = bus_writes B (map (\<lambda>i. (CONF_LCD_DATA0 + of_nat i * 4, LCD_PAD_MODE0)) [0..<16] @
     [(CONF_LCD_VSYNC, LCD_PAD_MODE0), (CONF_LCD_HSYNC, LCD_PAD_MODE0), (CONF_LCD_PCLK, LCD_PAD_MODE0), (CONF_LCD_AC_BIAS_EN, LCD_PAD_MODE0)]) w"

definition dpll_mode :: "'w bus \<Rightarrow> u32 \<Rightarrow> 'w \<Rightarrow> 'w" where
  "dpll_mode B m w = (case mmio_read32 B CM_CLKMODE_DPLL_DISP w of (v, w') \<Rightarrow> mmio_write32 B CM_CLKMODE_DPLL_DISP ((v AND NOT 7) OR m) w')"

definition dpll_disp_setup :: "'w bus \<Rightarrow> 'w \<Rightarrow> 'w" where
  "dpll_disp_setup B w =
     (case spin_while (reg_test B CM_IDLEST_DPLL_DISP (\<lambda>v. v AND 0x100 = 0)) 100000 (dpll_mode B 4 w) of (t, w) \<Rightarrow>
        if t = 0 then w
        else let w = bus_writes B [(CM_CLKSEL_DPLL_DISP, push_bit 8 DPLL_DISP_M OR DPLL_DISP_N), (CM_DIV_M2_DPLL_DISP, DPLL_DISP_M2)] w in
          case spin_while (reg_test B CM_IDLEST_DPLL_DISP (\<lambda>v. v AND 1 = 0)) 100000 (dpll_mode B 7 w) of (t, w) \<Rightarrow>
            if t = 0 then w else mmio_write32 B CLKSEL_LCDC_PIXEL_CLK 0 w)"

definition lcdc_clock_enable :: "'w bus \<Rightarrow> 'w \<Rightarrow> 'w" where
  "lcdc_clock_enable B w =
     snd (spin_until (reg_test B CM_PER_LCDC_CLKCTRL (\<lambda>v. drop_bit 16 v AND 3 = 0)) 100000
       (bus_writes B [(CM_PER_LCDC_CLKSTCTRL, 2), (CM_PER_LCDC_CLKCTRL, 2)] w))"

text \<open>The palette header and the cleared pixels; the result is the address of the first pixel.\<close>

definition framebuffer_setup :: "'w bus \<Rightarrow> 'w \<Rightarrow> u32 \<times> 'w" where
  "framebuffer_setup B w =
     (let w = fold (\<lambda>i. mem_store B (FB_PA_BASE + 4 * of_nat i) (le32 (if i = 0 then 0x4000 else 0))) [0..<8] w in
      (FB_PA_BASE + PALETTE_SIZE, fold (\<lambda>i. mem_store B (FB_PA_BASE + PALETTE_SIZE + 2 * of_nat i) (le16 0)) [0..<unat FB_SIZE div 2] w))"

definition timing0 :: u32 where
  "timing0 = (LCD_HORLSB DISPLAY_WIDTH OR LCD_HORMSB DISPLAY_WIDTH OR LCD_HFPLSB DISPLAY_HFP OR LCD_HBPLSB DISPLAY_HBP OR LCD_HSWLSB DISPLAY_HSW)"

definition timing1 :: u32 where
  "timing1 = (LCD_VBP DISPLAY_VBP OR LCD_VFP DISPLAY_VFP OR LCD_VSW DISPLAY_VSW OR LCD_VERLSB DISPLAY_HEIGHT)"

definition timing2 :: u32 where
  "timing2 = (LCD_HSWMSB DISPLAY_HSW OR LCD_VERMSB DISPLAY_HEIGHT OR LCD_HBPMSB DISPLAY_HBP OR LCD_HFPMSB DISPLAY_HFP OR
     0x02000000 OR 0x01000000 OR 0x00400000 OR 0x00200000 OR 0x0000FF00)"

definition raster_writes :: "(u32 \<times> u32) list" where
  "raster_writes = [(LCD_CLKC_ENABLE, 7), (LCD_CLKC_RESET, 0x0F), (LCD_CLKC_RESET, 0), (LCD_RASTER_CTRL, 0),
     (LCD_CTRL, push_bit 8 LCDC_CLKDIV OR 2 OR 1),
     (LCD_LCDDMA_FB0_BASE, FB_PA_BASE), (LCD_LCDDMA_FB0_CEIL, FB_PA_BASE + PALETTE_SIZE + FB_SIZE),
     (LCD_LCDDMA_FB1_BASE, FB_PA_BASE), (LCD_LCDDMA_FB1_CEIL, FB_PA_BASE + PALETTE_SIZE + FB_SIZE),
     (LCD_LCDDMA_CTRL, 0x40 OR push_bit 8 6),
     (LCD_RASTER_TIMING_0, timing0), (LCD_RASTER_TIMING_1, timing1), (LCD_RASTER_TIMING_2, timing2)]"

text \<open>\<open>fb_pixels\<close> is the first component of the state; \<open>None\<close> is \<open>NULL\<close>.\<close>

definition lcdc_init :: "'w bus \<Rightarrow> u32 option \<times> 'w \<Rightarrow> u32 option \<times> 'w" where
  "lcdc_init B s = (case framebuffer_setup B (lcdc_clock_enable B (dpll_disp_setup B (lcd_pinmux_setup B (snd s)))) of
     (p, w) \<Rightarrow> (Some p, bus_writes B raster_writes w))"

definition lcdc_start_raster :: "'w bus \<Rightarrow> 'w \<Rightarrow> 'w" where
  "lcdc_start_raster B w = bus_writes B [(LCD_RASTER_CTRL, 0x00200000 OR 0x80 OR 1), (LCD_IRQSTATUS, 0xFFFFFFFF)] w"

definition lcdc_get_framebuffer :: "u32 option \<times> 'w \<Rightarrow> u32 option" where
  "lcdc_get_framebuffer s = fst s"

definition lcdc_get_width :: u32 where "lcdc_get_width = DISPLAY_WIDTH"
definition lcdc_get_height :: u32 where "lcdc_get_height = DISPLAY_HEIGHT"
definition lcdc_get_pitch :: u32 where "lcdc_get_pitch = DISPLAY_WIDTH * 2"

subsection \<open>The mode\<close>

text \<open>The fields of the timing registers read back as the mode, and the pixel clock is 40 MHz.\<close>

lemma timing_fields:
  "16 * ((drop_bit 4 timing0 AND 0x3F) + 1) = DISPLAY_WIDTH" "timing1 AND 0x3FF = DISPLAY_HEIGHT - 1"
  "drop_bit 24 timing0 + 1 = DISPLAY_HBP" "(drop_bit 16 timing0 AND 0xFF) + 1 = DISPLAY_HFP"
  "(drop_bit 10 timing0 AND 0x3F) + push_bit 6 (drop_bit 27 timing2) + 1 = DISPLAY_HSW"
  "24 * DPLL_DISP_M div (DPLL_DISP_N + 1) div DPLL_DISP_M2 div LCDC_CLKDIV = 40"
  by (simp_all add: timing0_def timing1_def timing2_def LCD_HORLSB_def LCD_HORMSB_def LCD_HFPLSB_def LCD_HBPLSB_def LCD_HSWLSB_def
      LCD_VERLSB_def LCD_VFP_def LCD_VBP_def LCD_VSW_def LCD_HSWMSB_def LCD_VERMSB_def LCD_HBPMSB_def LCD_HFPMSB_def vx_consts)

end
