(* ===== verification/Exceptions.thy ===== *)
theory Exceptions
  imports Svc
begin

section \<open>Exceptions (\<open>kernel/src/kernel/exceptions/exception_handlers.c\<close>)\<close>

text \<open>
  What the kernel does on an exception that is neither a system call nor an interrupt: an abort in user
  mode ends the process that caused it, everything else stops the kernel.  \<open>Halted\<close> is \<open>halt_kernel\<close>,
  a loop without exit; \<open>PANIC\<close> is the fault \<open>AssertFail\<close>.  The report on the console is left out but
  for the two functions that decode the status registers for it.
\<close>

definition FAULT_EXIT_SIGSEGV :: int where [vx_consts]: "FAULT_EXIT_SIGSEGV = 139"

record exception_context =
  ec_spsr :: u32
  ec_r :: "u32 list"
  ec_lr :: u32

datatype ('u, 'w, 's) exc_out = Halted "('u, 'w, 's) kernel" | Switched "('u, 'w, 's) kernel"

type_synonym ('u, 'w, 's) exc_result = "(fault + ('u, 'w, 's) exc_out) option"

definition decode_cpu_mode :: "u32 \<Rightarrow> string" where
  "decode_cpu_mode spsr =
     (let m = unat (spsr AND 0x1F) in
      if m = 0x10 then ''USR'' else if m = 0x11 then ''FIQ'' else if m = 0x12 then ''IRQ'' else if m = 0x13 then ''SVC''
      else if m = 0x17 then ''ABT'' else if m = 0x1B then ''UND'' else if m = 0x1F then ''SYS'' else ''???'')"

definition fault_status :: "u32 \<Rightarrow> u32" where
  "fault_status dfsr = (dfsr AND 0xF) OR (drop_bit 6 dfsr AND 0x10)"

definition decode_fault_status :: "u32 \<Rightarrow> string" where
  "decode_fault_status dfsr =
     (let fs = unat (fault_status dfsr) in
      if fs = 0x01 then ''Alignment fault''
      else if fs = 0x02 then ''Debug event''
      else if fs = 0x04 then ''Instruction cache maintenance fault''
      else if fs = 0x05 then ''Translation fault (Section)''
      else if fs = 0x07 then ''Translation fault (Page)''
      else if fs = 0x08 then ''Synchronous external abort (non-translation)''
      else if fs = 0x09 then ''Domain fault (Section)''
      else if fs = 0x0B then ''Domain fault (Page)''
      else if fs = 0x0C then ''Sync external abort on translation (L1)''
      else if fs = 0x0D then ''Permission fault (Section)''
      else if fs = 0x0E then ''Sync external abort on translation (L2)''
      else if fs = 0x0F then ''Permission fault (Page)''
      else if fs = 0x16 then ''Asynchronous external abort''
      else ''Unknown fault'')"

definition halt_kernel :: "('u, 'w, 's) kernel \<Rightarrow> ('u, 'w, 's) exc_result" where
  "halt_kernel k = ret (Halted k)"

text \<open>The containment that both abort handlers end with.\<close>

definition contain_fault :: "exception_context \<Rightarrow> ('u, 'w, 's) kernel \<Rightarrow> ('u, 'w, 's) exc_result" where
  "contain_fault ctx k =
     (if ec_spsr ctx AND 0x1F = 0x10
      then (case scheduler_current_task (usc (ksys k)) of
          None \<Rightarrow> Some (Inl AssertFail)
        | Some t \<Rightarrow> map_option (map_sum id (\<lambda>x. Switched (put_kstate x k))) (do_exit FAULT_EXIT_SIGSEGV (to_kstate k)))
      else halt_kernel k)"

definition handle_undefined_instruction :: "exception_context \<Rightarrow> ('u, 'w, 's) kernel \<Rightarrow> ('u, 'w, 's) exc_result" where
  "handle_undefined_instruction ctx k = halt_kernel k"

definition handle_svc :: "exception_context \<Rightarrow> ('u, 'w, 's) kernel \<Rightarrow> ('u, 'w, 's) exc_result" where
  "handle_svc ctx k = halt_kernel k"

definition handle_prefetch_abort :: "exception_context \<Rightarrow> ('u, 'w, 's) kernel \<Rightarrow> ('u, 'w, 's) exc_result" where
  "handle_prefetch_abort ctx k = contain_fault ctx k"

definition handle_data_abort :: "exception_context \<Rightarrow> ('u, 'w, 's) kernel \<Rightarrow> ('u, 'w, 's) exc_result" where
  "handle_data_abort ctx k = contain_fault ctx k"

definition handle_irq :: "exception_context \<Rightarrow> ('u, 'w, 's) kernel \<Rightarrow> ('u, 'w, 's) exc_result" where
  "handle_irq ctx k = halt_kernel k"

definition handle_fiq :: "exception_context \<Rightarrow> ('u, 'w, 's) kernel \<Rightarrow> ('u, 'w, 's) exc_result" where
  "handle_fiq ctx k = halt_kernel k"

subsection \<open>Decoding\<close>

lemma fault_status_bits: "bit (fault_status d) n \<longleftrightarrow> (n < 4 \<and> bit d n) \<or> (n = 4 \<and> bit d 10)"
proof -
  have "fault_status d = take_bit 4 d OR (drop_bit 6 d AND push_bit 4 1)" by (simp add: fault_status_def take_bit_eq_mask mask_eq_exp_minus_1)
  moreover have "bit (push_bit 4 (1 :: u32)) n \<longleftrightarrow> n = 4"
    unfolding bit_push_bit_iff bit_1_iff by auto
  ultimately show ?thesis by (auto simp: bit_take_bit_iff bit_drop_bit_eq bit_or_iff bit_and_iff simp del: push_bit_of_1 push_bit_numeral)
qed

text \<open>A mode has a name of its own, or is none that the processor has.\<close>

lemma decode_cpu_mode_inj:
  "decode_cpu_mode a = decode_cpu_mode b \<Longrightarrow> decode_cpu_mode a \<noteq> ''???'' \<Longrightarrow> a AND 0x1F = b AND 0x1F"
  by (auto simp: word_unat_eq_iff decode_cpu_mode_def Let_def split: if_splits)

subsection \<open>Fault containment\<close>

text \<open>What the parent of the victim finds: a zombie child with the exit status of a fault.\<close>

definition fault_reported :: "sched \<Rightarrow> nat \<Rightarrow> sched \<Rightarrow> bool" where
  "fault_reported s me s' \<longleftrightarrow>
     is_zombie_child (t_ppid (tmem s me)) s' (current_task_index s) \<and> has_zombie_child (t_ppid (tmem s me)) s' \<and>
     tasks_array_get (current_task_index s) s' = Some me \<and> t_pid (tmem s' me) = t_pid (tmem s me) \<and>
     t_exit_status (tmem s' me) = FAULT_EXIT_SIGSEGV"

lemma zombie_reported:
  assumes "sched_inv s" "current_task s = Some me" "tasks s' = tasks s" "tstate (tmem s' me) = ZOMBIE"
    and "t_exit_status (tmem s' me) = FAULT_EXIT_SIGSEGV" "t_pid (tmem s' me) = t_pid (tmem s me)" "t_ppid (tmem s' me) = t_ppid (tmem s me)"
  shows "fault_reported s me s'"
proof -
  have cur: "tasks s ! current_task_index s = Some me" "current_task_index s < MAX_TASKS"
    using assms(1,2) by (simp_all add: sched_inv_def)
  then have get: "tasks_array_get (current_task_index s) s' = Some me" using assms(3) by (simp add: tasks_array_get_def)
  then have z: "is_zombie_child (t_ppid (tmem s me)) s' (current_task_index s)" using assms(4,7) by (simp add: is_zombie_child_def)
  then have "has_zombie_child (t_ppid (tmem s me)) s'" using cur(2) by (auto simp: has_zombie_child_def first_idx_None_iff)
  then show ?thesis using get z assms(5,6) by (simp add: fault_reported_def)
qed

text \<open>C17: a load, store or instruction fetch that faults in user mode, in a process other than the idle task,
  ends the process that made it and nothing else: both abort handlers return into another task, which
  was ready or waiting for a child; the victim is a zombie with status 139 that its parent finds with
  its pid; the waiting parents are ready to run, but for the next task, which runs; and everything
  else is as before: every field of every other task, the task table, the stacks, memory, page tables
  and files.  The scheduler stays consistent.\<close>

theorem user_fault_contained:
  assumes "ec_spsr ctx AND 0x1F = 0x10" "sched_inv (usc (ksys k))" "current_task (usc (ksys k)) = Some me"
    and "current_task_index (usc (ksys k)) \<noteq> 0" "waiters (kwq k) (usc (ksys k)) ps" "me \<notin> set ps"
  shows "\<exists>s' nxt k'. handle_data_abort ctx k = ret (Switched k') \<and> handle_prefetch_abort ctx k = ret (Switched k') \<and>
    k' = k\<lparr>ksys := (ksys k)\<lparr>usc := s', sys_pages := pages (ksl k)\<rparr>, kwq := None\<rparr> \<and>
    sched_inv s' \<and> fault_reported (usc (ksys k)) me s' \<and> current_task s' = Some nxt \<and> nxt \<noteq> me \<and>
    (nxt \<in> set ps \<or> tstate (tmem (usc (ksys k)) nxt) = READY) \<and>
    (\<forall>t. tmem s' t = (let z = tmem (usc (ksys k)) t in
       if t = me then z\<lparr>t_exit_status := FAULT_EXIT_SIGSEGV, tstate := ZOMBIE\<rparr>
       else if t \<in> set ps then z\<lparr>wait_next := None, tstate := (if t = nxt then RUNNING else READY)\<rparr>
       else if t = nxt then z\<lparr>tstate := RUNNING\<rparr> else z)) \<and>
    tasks s' = tasks (usc (ksys k)) \<and> stk s' = stk (usc (ksys k))"
proof -
  obtain x nxt where x: "do_exit FAULT_EXIT_SIGSEGV (to_kstate k) = Some (Inr x)" "sched_inv (sc x)" "parent_wq x = None"
    "current_task (sc x) = Some nxt" "nxt \<noteq> me" "nxt \<in> set ps \<or> tstate (tmem (usc (ksys k)) nxt) = READY"
    "tmem (sc x) = exit_task me FAULT_EXIT_SIGSEGV ps nxt (tmem (usc (ksys k)))"
    "tasks (sc x) = tasks (usc (ksys k))" "stk (sc x) = stk (usc (ksys k))" "sl x = ksl k" "mm x = kmm k" "pmem x = kpmem k"
    using do_exit_correct [of "to_kstate k" me ps FAULT_EXIT_SIGSEGV] assms(2-6) by (auto simp: to_kstate_def)
  have rep: "fault_reported (usc (ksys k)) me (sc x)" by (rule zombie_reported) (use assms x in \<open>simp_all add: exit_task_def\<close>)
  have "contain_fault ctx k = ret (Switched (put_kstate x k))"
    using assms(1,3) x(1) by (simp add: contain_fault_def scheduler_current_task_def)
  moreover have "put_kstate x k = k\<lparr>ksys := (ksys k)\<lparr>usc := sc x, sys_pages := pages (ksl k)\<rparr>, kwq := None\<rparr>"
    using x by (simp add: put_kstate_def)
  ultimately show ?thesis using rep x(2,4-9)
    by (intro exI [of _ "sc x"] exI [of _ nxt] exI [of _ "put_kstate x k"]) (simp add: handle_data_abort_def handle_prefetch_abort_def exit_task_def Let_def)
qed

definition demo_user_fault :: exception_context where
  "demo_user_fault = \<lparr>ec_spsr = 0x60000010, ec_r = replicate 13 0, ec_lr = 0x40000100\<rparr>"

definition exc_kernel :: "('u, 'w) sys \<Rightarrow> 's plat_state \<Rightarrow> ('u, 'w, 's) kernel" where
  "exc_kernel y p = \<lparr>ksys = y\<lparr>usc := demo_sched2\<rparr>, ksl = slab_boot, kmm = zero_mmu, kpmem = (\<lambda>a. 0), kwq = None, kplat = p\<rparr>"

theorem user_fault_contained_witness:
  "\<forall>y p. \<exists>k'. handle_data_abort demo_user_fault (exc_kernel y p) = ret (Switched k') \<and>
     t_exit_status (tmem (usc (ksys k')) 2) = 139 \<and> current_task (usc (ksys k')) \<noteq> Some 2"
proof (intro allI)
  fix y :: "('u, 'w) sys" and p :: "'s plat_state"
  show "\<exists>k'. handle_data_abort demo_user_fault (exc_kernel y p) = ret (Switched k') \<and>
     t_exit_status (tmem (usc (ksys k')) 2) = 139 \<and> current_task (usc (ksys k')) \<noteq> Some 2"
  proof -
    obtain s' nxt k' where "handle_data_abort demo_user_fault (exc_kernel y p) = ret (Switched k')"
      "k' = (exc_kernel y p)\<lparr>ksys := (ksys (exc_kernel y p))\<lparr>usc := s', sys_pages := pages (ksl (exc_kernel y p))\<rparr>, kwq := None\<rparr>"
      "fault_reported (usc (ksys (exc_kernel y p))) 2 s'" "current_task s' = Some nxt" "nxt \<noteq> 2"
      using user_fault_contained [of demo_user_fault "exc_kernel y p" 2 "[]"]
      by (auto simp: demo_user_fault_def exc_kernel_def demo_sched2_inv waiters_def)
    then show ?thesis by (auto simp: fault_reported_def FAULT_EXIT_SIGSEGV_def)
  qed
qed

text \<open>The same fault while the kernel runs, and an undefined instruction in any mode, stop the machine.\<close>

lemma other_faults_halt:
  "ec_spsr ctx AND 0x1F \<noteq> 0x10 \<Longrightarrow> handle_data_abort ctx k = ret (Halted k) \<and> handle_prefetch_abort ctx k = ret (Halted k)"
  "handle_undefined_instruction ctx k = ret (Halted k)"
  by (simp_all add: handle_data_abort_def handle_prefetch_abort_def contain_fault_def halt_kernel_def handle_undefined_instruction_def)

end
