(* ===== verification/Boot.thy ===== *)
theory Boot
  imports Svc Vmm Mmc
begin

section \<open>Boot (\<open>kernel/src/kernel/main.c\<close>, \<open>scheduler/idle.c\<close>, \<open>test/selftest.c\<close>, \<open>sync/sync_selftest.c\<close>)\<close>

text \<open>
  The steps of \<open>kernel_main\<close> that build the state the other theories start from: memory management,
  storage and mounts, the shell's image, the first two tasks, the self-tests and the start of the
  scheduler.  The setup of the devices is modelled with each driver and not repeated here.  A message
  followed by \<open>while (1)\<close> is \<open>None\<close>.  The addresses of static objects and of code are the record
  \<open>boot_env\<close>.
\<close>

record boot_env =
  be_svc :: svc_env
  be_idle :: nat
  be_shell :: nat
  be_idle_task :: u32
  be_idle_stack :: u32

definition IDLE_STACK_SIZE :: u32 where [vx_consts]: "IDLE_STACK_SIZE = 4096"
definition USER_STACK_BASE :: u32 where [vx_consts]: "USER_STACK_BASE = USER_SPACE_VA + USER_SPACE_BYTES"
definition USER_STACK_SIZE :: u32 where [vx_consts]: "USER_STACK_SIZE = 4096"

subsection \<open>The idle task\<close>

definition get_idle_task :: "boot_env \<Rightarrow> sched \<Rightarrow> fault + sched" where
  "get_idle_task be s =
     task_stack_init (env_trampoline (be_svc be)) (be_idle be) (be_idle_task be) (be_idle_stack be) IDLE_STACK_SIZE
       (upd_task (be_idle be) (\<lambda>t. t\<lparr>tname := Some (cstr ''idle''), tstate := READY, tid := 0\<rparr>) s)"

text \<open>A round of the idle loop up to its yield.\<close>

definition idle_round :: "u32 \<Rightarrow> sched \<Rightarrow> fault + u32 \<times> sched" where
  "idle_round counter s = fbind (scheduler_yield (s\<lparr>need_reschedule := True\<rparr>)) (\<lambda>s'. Inr (counter + 1, s'))"

subsection \<open>Self-tests\<close>

definition atomic_times :: "nat \<Rightarrow> u32 \<Rightarrow> u32 \<times> u32 \<Rightarrow> u32 \<times> u32" where
  "atomic_times n delta = (\<lambda>s. snd (atomic_add_return delta s)) ^^ n"

definition sync_selftest :: "u32 \<Rightarrow> bool \<times> u32" where
  "sync_selftest cpsr =
     (case atomic_times 1000 1 (0, cpsr) of (a, cpsr) \<Rightarrow>
      if a \<noteq> 1000 then (False, cpsr)
      else case atomic_times 500 (- 1) (a, cpsr) of (a, cpsr) \<Rightarrow>
      if a \<noteq> 500 then (False, cpsr)
      else case atomic_cmpxchg 500 777 (a, cpsr) of (old, a, cpsr) \<Rightarrow>
      if old \<noteq> 500 \<or> a \<noteq> 777 then (False, cpsr)
      else case atomic_cmpxchg 500 0 (a, cpsr) of (old, a, cpsr) \<Rightarrow>
      if old \<noteq> 777 \<or> a \<noteq> 777 then (False, cpsr)
      else let lock = spin_lock \<lparr>lk_locked = 0\<rparr> in
      if lk_locked lock \<noteq> 1 then (False, cpsr)
      else let lock = spin_unlock lock in
      if lk_locked lock \<noteq> 0 then (False, cpsr)
      else case spin_lock_irqsave lock cpsr of (fl, lock, cpsr) \<Rightarrow>
        (True, snd (spin_unlock_irqrestore lock fl cpsr)))"

definition test_bcache_hit :: "'w bdev_mem \<Rightarrow> nat list \<Rightarrow> 'w io_state \<Rightarrow> int \<times> 'w io_state" where
  "test_bcache_hit D bdevs s =
     (case block_find D (cstr ''mmc0'') bdevs of
        None \<Rightarrow> (- 1, s)
      | Some d \<Rightarrow> (case bread D (Some d) 8192 s of
          (None, s) \<Rightarrow> (- 2, s)
        | (Some a, s) \<Rightarrow>
            let s = brelse a s; hit0 = bcache_hits (cache s) in
            (case bread D (Some d) 8192 s of
               (None, s) \<Rightarrow> (- 3, s)
             | (Some b, s) \<Rightarrow> let s = brelse b s in
                 if bcache_hits (cache s) \<le> hit0 then (- 4, s) else (0, s))))"

definition test_procfs_content :: "image_sizes \<Rightarrow> ('u, 'w) sys \<Rightarrow> (int \<times> ('u, 'w) sys) res" where
  "test_procfs_content sizes s =
     rbind (procfs_lookup (cstr ''version'') s) (\<lambda>(idx, s).
       if idx < 0 then ret (- 2, s)
       else rbind (procfs_read sizes idx 0 128 s) (\<lambda>(n, buf, s).
         if n \<le> 0 then ret (- 3, s)
         else if n < 7 \<or> take 7 buf \<noteq> cstr ''VinixOS'' then ret (- 4, s) else ret (0, s)))"

definition selftest_run_all :: "'w bdev_mem \<Rightarrow> nat list \<Rightarrow> image_sizes \<Rightarrow> ('u, 'w) sys \<Rightarrow> ('u, 'w) sys res" where
  "selftest_run_all D bdevs sizes s =
     (case test_bcache_hit D bdevs (fio (fat s)) of (rc, io) \<Rightarrow>
        if rc \<noteq> 0 then Some (Inl AssertFail)
        else rbind (test_procfs_content sizes (s\<lparr>fat := (fat s)\<lparr>fio := io\<rparr>\<rparr>)) (\<lambda>(rc, s).
          if rc \<noteq> 0 then Some (Inl AssertFail) else ret s))"

subsection \<open>The stages\<close>

text \<open>A self-test of the allocators only reports; the first component of its result is dropped.\<close>

definition boot_memory :: "vmm_state \<Rightarrow> vmm_state res" where
  "boot_memory v =
     (case fbind (page_alloc_selftest page_alloc_init) (\<lambda>(ok, pg).
           fbind (slab_init ((vslab v)\<lparr>pages := pg\<rparr>)) (\<lambda>sl.
           fbind (slab_selftest sl) (\<lambda>(ok, sl). vmm_init (v\<lparr>vslab := sl\<rparr>)))) of
        Inl e \<Rightarrow> Some (Inl e)
      | Inr v \<Rightarrow> rbind (vmm_selftest v) (\<lambda>(ok, v). ret v))"

definition boot_mount :: "string \<Rightarrow> nat \<Rightarrow> ('u, 'w) sys \<Rightarrow> ('u, 'w) sys option" where
  "boot_mount mp ops y = (case vfs_mount (cstr mp) ops y of (rc, y') \<Rightarrow> if rc \<noteq> E_OK then None else Some y')"

definition boot_files :: "'w bdev_mem \<Rightarrow> nat list \<Rightarrow> u32 \<Rightarrow> ('u, 'w) sys \<Rightarrow> ('u, 'w) sys option" where
  "boot_files D bdevs lba y =
     (case fat32_init D bdevs lba (fat y) of
        None \<Rightarrow> None
      | Some (rc, f) \<Rightarrow>
          if rc \<noteq> E_OK then None
          else Option.bind (boot_mount ''/'' 0 (y\<lparr>fat := f\<rparr>)) (\<lambda>y.
               Option.bind (boot_mount ''/dev'' 1 (devfs_init y)) (boot_mount ''/proc'' 2)))"

definition set_medium :: "'w \<Rightarrow> ('u, 'w) sys \<Rightarrow> ('u, 'w) sys" where
  "set_medium w y = y\<lparr>fat := (fat y)\<lparr>fio := (fio (fat y))\<lparr>medium := w\<rparr>\<rparr>\<rparr>"

text \<open>The SD card is probed, its partition table read and the volume mounted.  \<open>mmcdev\<close> is the address
  of the block device; the result has the card type and the registered devices.\<close>

definition boot_storage :: "'w bus \<Rightarrow> nat \<Rightarrow> bool \<Rightarrow> u8 list \<Rightarrow> nat list \<Rightarrow> ('u, 'w) sys \<Rightarrow> (bool \<times> nat list \<times> ('u, 'w) sys) option" where
  "boot_storage B mmcdev sdhc buf bdevs y0 =
     (let y = vfs_init (y0\<lparr>fat := (fat y0)\<lparr>fio := (fio (fat y0))\<lparr>cache := bcache_init (cache (fio (fat y0)))\<rparr>\<rparr>\<rparr>) in
      case omap_hsmmc_probe B mmcdev sdhc bdevs (medium (fio (fat y))) of (rc, sdhc, bdevs, w) \<Rightarrow>
        if rc \<noteq> E_OK then None
        else case mbr_find_fat32 B sdhc buf w of
            (rc, None, w) \<Rightarrow> None
          | (rc, Some (lba, n), w) \<Rightarrow>
              if rc \<noteq> E_OK then None
              else map_option (\<lambda>y. (sdhc, bdevs, y)) (boot_files (\<lambda>p. mmc_bdev B sdhc) bdevs lba (set_medium w y)))"

definition load_payload :: "svc_env \<Rightarrow> ('u, 'w, 's) kernel \<Rightarrow> fault + ('u, 'w, 's) kernel" where
  "load_payload E k = fbind (user_write USER_SPACE_VA (env_payload E) (user_mem E k)) (\<lambda>um. Inr (put_user_mem E um k))"

definition boot_tasks :: "boot_env \<Rightarrow> sched \<Rightarrow> fault + sched" where
  "boot_tasks be s =
     fbind (get_idle_task be (scheduler_init s)) (\<lambda>s.
     let s = snd (scheduler_add_task (env_kernel_pgd (be_svc be)) (be_idle be) s);
         s = upd_task (be_shell be) (\<lambda>t. t\<lparr>tname := Some (cstr ''init''), tstate := READY, tid := 0\<rparr>) s in
     fbind (task_stack_init (env_trampoline (be_svc be)) (be_shell be) USER_SPACE_VA (USER_STACK_BASE - USER_STACK_SIZE) USER_STACK_SIZE s)
       (\<lambda>s. Inr (snd (scheduler_add_task (env_kernel_pgd (be_svc be)) (be_shell be) s))))"

definition kernel_main :: "boot_env \<Rightarrow> 'w bus \<Rightarrow> nat \<Rightarrow> bool \<Rightarrow> u8 list \<Rightarrow> nat list \<Rightarrow> image_sizes \<Rightarrow> vmm_state \<Rightarrow> ('u, 'w, 's) kernel \<Rightarrow> ('u, 'w, 's) kernel res" where
  "kernel_main be B mmcdev sdhc buf bdevs sizes v k =
     rbind (boot_memory (v\<lparr>vmmu := mmu_init (kmm k)\<rparr>)) (\<lambda>v.
     case boot_storage B mmcdev sdhc buf bdevs (ksys k) of
       None \<Rightarrow> None
     | Some (sdhc, bdevs, y) \<Rightarrow>
         case load_payload (be_svc be) (k\<lparr>ksys := y\<lparr>sys_pages := pages (vslab v)\<rparr>, ksl := vslab v, kmm := vmmu v\<rparr>) of
           Inl e \<Rightarrow> Some (Inl e)
         | Inr k \<Rightarrow> (case boot_tasks be (usc (ksys k)) of
             Inl e \<Rightarrow> Some (Inl e)
           | Inr s \<Rightarrow> rbind (selftest_run_all (\<lambda>p. mmc_bdev B sdhc) bdevs sizes ((ksys k)\<lparr>usc := s\<rparr>)) (\<lambda>y.
               case scheduler_start (usc y) of
                 Inl e \<Rightarrow> Some (Inl e)
               | Inr s \<Rightarrow> ret (k\<lparr>ksys := y\<lparr>usc := s\<rparr>\<rparr>))))"

subsection \<open>The self-tests pass\<close>

lemma atomic_times_fst: "fst (atomic_times n d s) = fst s + of_nat n * d"
  by (induction n arbitrary: s) (simp_all add: atomic_times_def atomic_add_return_def split_beta Let_def algebra_simps)

lemma sync_selftest_passes: "fst (sync_selftest cpsr)"
proof -
  obtain p where a: "atomic_times 1000 1 (0, cpsr) = (1000, p)"
    using atomic_times_fst [of 1000 1 "(0, cpsr)"] by (cases "atomic_times 1000 1 (0, cpsr)") simp
  obtain q where b: "atomic_times 500 (- 1) (1000, p) = (500, q)"
    using atomic_times_fst [of 500 "- 1" "(1000, p)"] by (cases "atomic_times 500 (- 1) (1000, p)") simp
  show ?thesis by (simp add: sync_selftest_def a b atomic_cmpxchg_def spin_lock_def spin_unlock_def spin_lock_irqsave_def split_beta Let_def)
qed

lemma gen_text: "length (fmt_text f ap) < 2 ^ 31 \<Longrightarrow>
    gen f ap = (int (length (fmt_text f ap)), blit (replicate 512 0) 0 (take 511 (fmt_text f ap) @ [0]))"
  using kvsnprintf_text [of "replicate PROCFS_GEN_BUF 0" "of_nat PROCFS_GEN_BUF" f ap] by (simp add: gen_def ksnprintf_def PROCFS_GEN_BUF_def)

lemma version_text: "fmt_text (cstr ''VinixOS 0.1 (armv7-a) BeagleBone Black'' @ NL @ cstr ''Built with arm-none-eabi-gcc'' @ NL @
     cstr ''100%% hand-written '' @ [0xE2, 0x80, 0x94] @ cstr '' kernel, libc, userspace'' @ NL) [] =
   cstr ''VinixOS 0.1 (armv7-a) BeagleBone Black'' @ NL @ cstr ''Built with arm-none-eabi-gcc'' @ NL @
     cstr ''100% hand-written '' @ [0xE2, 0x80, 0x94] @ cstr '' kernel, libc, userspace'' @ NL"
  by code_simp

lemma test_procfs_passes: "test_procfs_content sizes s = ret (0, s)"
proof -
  have "procfs_lookup (cstr ''version'') s = ret (1, s)" by (simp add: procfs_lookup_def cstr_def)
  moreover have "length (fmt_text (cstr ''VinixOS 0.1 (armv7-a) BeagleBone Black'' @ NL @ cstr ''Built with arm-none-eabi-gcc'' @ NL @
     cstr ''100%% hand-written '' @ [0xE2, 0x80, 0x94] @ cstr '' kernel, libc, userspace'' @ NL) []) < 2 ^ 31"
    unfolding version_text by (simp add: cstr_def NL_def)
  note version = gen_version_def [unfolded gen_text [OF this, unfolded version_text]]
  have "\<exists>n bs. procfs_read sizes 1 0 128 s = ret (n, bs, s) \<and> 7 \<le> n \<and> take 7 bs = cstr ''VinixOS''"
    by (simp add: procfs_read_def regenerate_def version) (simp add: cstr_def NL_def blit_def Let_def int_cast_def)
  ultimately show ?thesis by (auto simp: test_procfs_content_def)
qed

subsection \<open>The first tasks\<close>

text \<open>What the linker provides: two task structures and the idle stack in the kernel image, which is mapped
  above \<open>0xC0000000\<close> and, as the kernel's page table, outside of the page pool.  Static data is zero.\<close>

definition outside_pool :: "u32 \<Rightarrow> bool" where
  "outside_pool pa \<longleftrightarrow> POOL_PAGES \<le> page_index pa"

definition image_ok :: "boot_env \<Rightarrow> bool" where
  "image_ok be \<longleftrightarrow> be_idle be \<noteq> be_shell be \<and> be_idle be < 2 ^ 32 \<and> be_shell be < 2 ^ 32 \<and>
     outside_pool (of_nat (be_idle be) - VA_OFFSET) \<and> outside_pool (of_nat (be_shell be) - VA_OFFSET) \<and>
     outside_pool (be_idle_stack be - VA_OFFSET) \<and> outside_pool (env_kernel_pgd (be_svc be)) \<and>
     0xC0000000 \<le> be_idle_stack be \<and> be_idle_stack be \<le> 0xFFFFE000 \<and> 0xC0000000 \<le> be_idle_task be"

definition starts_at :: "u32 \<Rightarrow> u32 \<Rightarrow> sched \<Rightarrow> nat \<Rightarrow> bool" where
  "starts_at tr entry s t \<longleftrightarrow> (\<forall>j<26. stk s (ctx_sp (task_ctx (tmem s t)) + 4 * of_nat j) = rev (boot_frame tr entry) ! j)"

abbreviation shell_stack :: u32 where "shell_stack \<equiv> USER_STACK_BASE - USER_STACK_SIZE"

lemma kernel_not_shell_stack:
  assumes "0xC0000000 \<le> a"
  shows "a \<noteq> shell_stack" "k < 26 \<Longrightarrow> a \<noteq> shell_stack + USER_STACK_SIZE - 4 * of_nat (Suc k)"
proof -
  have a: "0xC0000000 \<le> unat a" using assms by (simp add: word_le_nat_alt)
  show "a \<noteq> shell_stack" using a by (auto simp: vx_consts)
  assume k: "k < 26"
  have "unat (shell_stack + USER_STACK_SIZE - of_nat n) = 0x40100000 - n" if "n \<le> 104" for n
  proof -
    have "unat (of_nat n :: u32) = n" using that by (simp add: unat_of_nat take_bit_nat_eq_self)
    then show ?thesis using that by (subst unat_sub) (simp_all add: vx_consts word_le_nat_alt)
  qed
  moreover have "4 * Suc k \<le> 104" using k by simp
  ultimately have "unat (shell_stack + USER_STACK_SIZE - of_nat (4 * Suc k)) = 0x40100000 - 4 * Suc k" by blast
  then have "unat (shell_stack + USER_STACK_SIZE - of_nat (4 * Suc k)) \<noteq> unat a" using a by linarith
  then have "a \<noteq> shell_stack + USER_STACK_SIZE - of_nat (4 * Suc k)" by metis
  then show "a \<noteq> shell_stack + USER_STACK_SIZE - 4 * of_nat (Suc k)" by (simp only: of_nat_mult of_nat_numeral) simp
qed

lemma idle_stack_addr:
  assumes "0xC0000000 \<le> b" "b \<le> 0xFFFFE000" "j < 26"
  shows "0xC0000000 \<le> b + IDLE_STACK_SIZE - 104 + 4 * of_nat j"
proof -
  have b: "0xC0000000 \<le> unat b" "unat b \<le> 0xFFFFE000" using assms(1,2) by (simp_all add: word_le_nat_alt)
  have "unat (of_nat (3992 + 4 * j) :: u32) = 3992 + 4 * j" using assms(3) by (simp add: unat_of_nat take_bit_nat_eq_self del: of_nat_add of_nat_mult)
  then have "unat (b + of_nat (3992 + 4 * j)) = unat b + (3992 + 4 * j)"
    using b assms(3) by (subst unat_add_lem [THEN iffD1]) (simp_all del: of_nat_add of_nat_mult)
  moreover have "b + IDLE_STACK_SIZE - 104 + 4 * of_nat j = b + of_nat (3992 + 4 * j)" by (simp add: IDLE_STACK_SIZE_def)
  ultimately show ?thesis using b by (simp only: word_le_nat_alt) simp
qed

lemma boot_tasks_result:
  assumes "image_ok be"
  shows "\<exists>s. boot_tasks be s0 = Inr s \<and> tasks s = [Some (be_idle be), Some (be_shell be), None, None, None] \<and> task_count s = 2 \<and>
    stk s (be_idle_stack be) = STACK_CANARY_VALUE \<and> stk s shell_stack = STACK_CANARY_VALUE \<and>
    starts_at (env_trampoline (be_svc be)) (be_idle_task be) s (be_idle be) \<and>
    starts_at (env_trampoline (be_svc be)) USER_SPACE_VA s (be_shell be) \<and>
    (\<forall>t. t = be_idle be \<or> t = be_shell be \<longrightarrow> tstate (tmem s t) = READY \<and> t_ppid (tmem s t) = - 1 \<and>
       t_pid (tmem s t) = (if t = be_idle be then 0 else 1) \<and> stack_base (tmem s t) = (if t = be_idle be then be_idle_stack be else shell_stack) \<and>
       pgd_pa (tmem s t) = (if pgd_pa (tmem s0 t) = 0 then env_kernel_pgd (be_svc be) else pgd_pa (tmem s0 t)))"
proof -
  let ?tr = "env_trampoline (be_svc be)" and ?i = "be_idle be" and ?h = "be_shell be"
  have ne: "?i \<noteq> ?h" and st: "0xC0000000 \<le> be_idle_stack be" "be_idle_stack be \<le> 0xFFFFE000"
    using assms by (simp_all add: image_ok_def)
  have "unat (be_idle_stack be) \<le> 0xFFFFE000" using st(2) by (simp add: word_le_nat_alt)
  then have sz: "unat (be_idle_stack be) + unat IDLE_STACK_SIZE < 2 ^ 32" "1024 \<le> IDLE_STACK_SIZE"
    "unat shell_stack + unat USER_STACK_SIZE < 2 ^ 32" "1024 \<le> USER_STACK_SIZE" by (simp_all add: vx_consts)
  let ?s1 = "upd_task ?i (\<lambda>t. t\<lparr>tname := Some (cstr ''idle''), tstate := READY, tid := 0\<rparr>) (scheduler_init s0)"
  obtain m where m: "get_idle_task be (scheduler_init s0) = Inr (upd_task ?i (\<lambda>t. t\<lparr>
        task_ctx := \<lparr>ctx_sp = be_idle_stack be + IDLE_STACK_SIZE - 104, ctx_sp_usr = be_idle_stack be + IDLE_STACK_SIZE - 512, ctx_lr_usr = be_idle_task be\<rparr>,
        stack_base := be_idle_stack be, stack_size := IDLE_STACK_SIZE, tstate := READY\<rparr>) (?s1\<lparr>stk := m\<rparr>))"
    "\<forall>k<26. m (be_idle_stack be + IDLE_STACK_SIZE - 104 + 4 * of_nat k) = rev (boot_frame ?tr (be_idle_task be)) ! k"
    "m (be_idle_stack be) = STACK_CANARY_VALUE"
    using task_stack_init_frame [OF sz(1,2)] unfolding get_idle_task_def by blast
  let ?s2 = "upd_task ?i (\<lambda>t. t\<lparr>
        task_ctx := \<lparr>ctx_sp = be_idle_stack be + IDLE_STACK_SIZE - 104, ctx_sp_usr = be_idle_stack be + IDLE_STACK_SIZE - 512, ctx_lr_usr = be_idle_task be\<rparr>,
        stack_base := be_idle_stack be, stack_size := IDLE_STACK_SIZE, tstate := READY\<rparr>) (?s1\<lparr>stk := m\<rparr>)"
  let ?s3 = "upd_task ?h (\<lambda>t. t\<lparr>tname := Some (cstr ''init''), tstate := READY, tid := 0\<rparr>) (snd (scheduler_add_task (env_kernel_pgd (be_svc be)) ?i ?s2))"
  obtain n where n: "task_stack_init ?tr ?h USER_SPACE_VA shell_stack USER_STACK_SIZE ?s3 = Inr (upd_task ?h (\<lambda>t. t\<lparr>
        task_ctx := \<lparr>ctx_sp = shell_stack + USER_STACK_SIZE - 104, ctx_sp_usr = shell_stack + USER_STACK_SIZE - 512, ctx_lr_usr = USER_SPACE_VA\<rparr>,
        stack_base := shell_stack, stack_size := USER_STACK_SIZE, tstate := READY\<rparr>) (?s3\<lparr>stk := n\<rparr>))"
    "\<forall>k<26. n (shell_stack + USER_STACK_SIZE - 104 + 4 * of_nat k) = rev (boot_frame ?tr USER_SPACE_VA) ! k"
    "n shell_stack = STACK_CANARY_VALUE"
    "\<forall>a. a \<noteq> shell_stack \<and> (\<forall>k<26. a \<noteq> shell_stack + USER_STACK_SIZE - 4 * of_nat (Suc k)) \<longrightarrow> n a = stk ?s3 a"
    using task_stack_init_frame [OF sz(3,4)] by blast
  have nm: "n a = m a" if "0xC0000000 \<le> a" for a
    using n(4) [rule_format, of a] kernel_not_shell_stack [OF that]
    by (auto simp: upd_task_def scheduler_add_task_def Let_def scheduler_init_def)
  have f: "n (be_idle_stack be) = STACK_CANARY_VALUE"
    "\<forall>k<26. n (be_idle_stack be + IDLE_STACK_SIZE - 104 + 4 * of_nat k) = rev (boot_frame ?tr (be_idle_task be)) ! k"
    using nm [OF st(1)] nm [OF idle_stack_addr [OF st]] m(2,3) by simp_all
  have empty: "replicate MAX_TASKS None = [None, None, None, None, None]" by (simp add: MAX_TASKS_def numeral_eq_Suc)
  show ?thesis
    unfolding boot_tasks_def m(1) fbind_simps Let_def n(1) starts_at_def
    using ne f n(2,3)
    by (simp add: scheduler_add_task_def scheduler_init_def upd_task_def Let_def empty) (simp add: MAX_TASKS_def word_le_nat_alt)
qed

text \<open>C13: Boot leaves the scheduler with two tasks that cannot fail to start: \<open>boot_tasks\<close> and
  \<open>scheduler_start\<close> pass every check, the idle task runs in slot 0 as pid 0 and the shell is ready in slot
  1 as pid 1, each with the intact first frame of its entry point on its own stack and the kernel's page
  table, and the invariant that system calls rely on holds of the whole state.\<close>

theorem boot_tasks_consistent:
  assumes "image_ok be" "slab_inv own fl (sl k)" "kmalloc_ready (sl k)"
    and "pgd_pa (tmem (sc k) (be_idle be)) = 0" "pgd_pa (tmem (sc k) (be_shell be)) = 0"
  shows "\<exists>s s'. boot_tasks be (sc k) = Inr s \<and> scheduler_start s = Inr s' \<and> proc_inv own fl (k\<lparr>sc := s'\<rparr>) \<and>
    tasks s' = [Some (be_idle be), Some (be_shell be), None, None, None] \<and>
    current_task s' = Some (be_idle be) \<and> t_pid (tmem s' (be_idle be)) = 0 \<and>
    tstate (tmem s' (be_shell be)) = READY \<and> t_pid (tmem s' (be_shell be)) = 1 \<and>
    starts_at (env_trampoline (be_svc be)) (be_idle_task be) s' (be_idle be) \<and>
    starts_at (env_trampoline (be_svc be)) USER_SPACE_VA s' (be_shell be) \<and>
    (\<forall>t\<in>{be_idle be, be_shell be}. pgd_pa (tmem s' t) = env_kernel_pgd (be_svc be))"
proof -
  let ?i = "be_idle be" and ?h = "be_shell be"
  have im: "?i \<noteq> ?h" "?i < 2 ^ 32" "?h < 2 ^ 32" "POOL_PAGES \<le> page_index (of_nat ?i - VA_OFFSET)"
    "POOL_PAGES \<le> page_index (of_nat ?h - VA_OFFSET)" "POOL_PAGES \<le> page_index (be_idle_stack be - VA_OFFSET)"
    "POOL_PAGES \<le> page_index (env_kernel_pgd (be_svc be))"
    using assms(1) by (simp_all add: image_ok_def outside_pool_def)
  obtain s where s: "boot_tasks be (sc k) = Inr s" "tasks s = [Some ?i, Some ?h, None, None, None]" "task_count s = 2"
    "stk s (be_idle_stack be) = STACK_CANARY_VALUE" "stk s shell_stack = STACK_CANARY_VALUE"
    "starts_at (env_trampoline (be_svc be)) (be_idle_task be) s ?i" "starts_at (env_trampoline (be_svc be)) USER_SPACE_VA s ?h"
    "tstate (tmem s ?i) = READY" "tstate (tmem s ?h) = READY" "t_pid (tmem s ?i) = 0" "t_pid (tmem s ?h) = 1"
    "stack_base (tmem s ?i) = be_idle_stack be" "stack_base (tmem s ?h) = shell_stack"
    "pgd_pa (tmem s ?i) = env_kernel_pgd (be_svc be)" "pgd_pa (tmem s ?h) = env_kernel_pgd (be_svc be)"
    using boot_tasks_result [OF assms(1), of "sc k"] assms(4,5) im(1) by auto
  let ?s = "(upd_task ?i (\<lambda>x. x\<lparr>tstate := RUNNING\<rparr>) s)\<lparr>current_task := Some ?i, current_task_index := 0, scheduler_started := True\<rparr>"
  have start: "scheduler_start s = Inr ?s" using s(2,3) by (simp add: scheduler_start_def)
  have tm: "tmem ?s t = (if t = ?i then (tmem s t)\<lparr>tstate := RUNNING\<rparr> else tmem s t)" for t by (simp add: upd_task_def)
  have inv: "sched_inv ?s"
  proof (rule sched_invI)
    show "slots_inj (tasks ?s)" using s(2) im(1) by (auto simp: slots_inj_def upd_task_def less_MAX_TASKS nth_Cons')
  next
    fix i t assume "i < MAX_TASKS" "tasks ?s ! i = Some t"
    then have "t = ?i \<or> t = ?h" using s(2) by (auto simp: less_MAX_TASKS upd_task_def)
    then show "stk ?s (stack_base (tmem ?s t)) = STACK_CANARY_VALUE \<and> (tstate (tmem ?s t) = RUNNING \<longrightarrow> current_task ?s = Some t)"
      using s(4,5,9,12,13) im(1) by (auto simp: upd_task_def)
  qed (use s(2,3) in \<open>simp_all add: upd_task_def idle_ok_def MAX_TASKS_def\<close>)
  have sh: "POOL_PAGES \<le> page_index (shell_stack - VA_OFFSET)" by (simp add: page_index_def vx_consts POOL_PAGES_eq)
  have "task_mem_ok own fl (k\<lparr>sc := ?s\<rparr>) t" if "t = ?i \<or> t = ?h" for t
    using that im sh s(12-15) by (auto simp: task_mem_ok_def held_def tm)
  then have "proc_inv own fl (k\<lparr>sc := ?s\<rparr>)"
    using inv assms(2,3) s(2) by (auto simp: proc_inv_def upd_task_def less_MAX_TASKS nth_Cons')
  then show ?thesis using s(1) start s(2,6-15) im(1)
    by (intro exI [of _ s] exI [of _ ?s]) (auto simp: starts_at_def upd_task_def)
qed

definition demo_boot_env :: boot_env where
  "demo_boot_env = \<lparr>be_svc = \<lparr>env_kernel_pgd = 0x80004000, env_trampoline = 0xC0008100, env_sp_usr = 0, env_lr_usr = 0,
       env_payload = [], env_text = 0, env_data = 0, env_bss = 0, env_stack = 0, env_kernel_end = 0xC0100000\<rparr>,
     be_idle = 0xC0050000, be_shell = 0xC0050200, be_idle_task = 0xC0009000, be_idle_stack = 0xC0060000\<rparr>"

theorem boot_tasks_consistent_witness:
  "\<exists>sl s s'. slab_init slab_boot = Inr sl \<and> boot_tasks demo_boot_env demo_sched = Inr s \<and> scheduler_start s = Inr s' \<and>
     proc_inv (\<lambda>i. None) (\<lambda>c. []) \<lparr>sc = s', sl = sl, mm = zero_mmu, pmem = (\<lambda>a. 0), parent_wq = None\<rparr> \<and>
     current_task s' = Some 0xC0050000"
proof -
  obtain sl where sl: "slab_init slab_boot = Inr sl" "slab_inv (\<lambda>i. None) (\<lambda>c. []) sl" "classes_done KMALLOC_CLASSES sl"
    using slab_init_boot by blast
  have "image_ok demo_boot_env"
    by (simp add: image_ok_def outside_pool_def demo_boot_env_def page_index_def vx_consts POOL_PAGES_eq)
  from boot_tasks_consistent [OF this, of "\<lambda>i. None" "\<lambda>c. []" "\<lparr>sc = demo_sched, sl = sl, mm = zero_mmu, pmem = (\<lambda>a. 0), parent_wq = None\<rparr>"]
  show ?thesis using sl(1,2) slab_init_ready [OF sl(3)]
    by (auto simp: demo_boot_env_def demo_sched_def demo_task_def)
qed

subsection \<open>The mounts\<close>

text \<open>A volume that \<open>fat32_init\<close> accepts is mounted at \<open>/\<close>, the devices at \<open>/dev\<close> and the process
  information at \<open>/proc\<close>: the three \<open>vfs_mount\<close> calls cannot fail.\<close>

definition mount_at :: "string \<Rightarrow> nat \<Rightarrow> vfs_mount_entry" where
  "mount_at p ops = \<lparr>mount_point = cstr p, m_ops = Some ops, mp_len = length p, m_in_use = True\<rparr>"

lemma boot_files_mounts:
  assumes "fat32_init D bdevs lba (fat y) = Some (E_OK, f)"
  shows "\<exists>y'. boot_files D bdevs lba (vfs_init y) = Some y' \<and>
    take 3 (mount_table y') = [mount_at ''/'' 0, mount_at ''/dev'' 1, mount_at ''/proc'' 2] \<and> fat y' = f"
proof -
  have l: "[0..<MAX_MOUNTS] = [0, 1, 2, 3]" "replicate MAX_MOUNTS x = [x, x, x, x]" for x :: vfs_mount_entry
    by (simp_all add: MAX_MOUNTS_def upt_rec numeral_eq_Suc)
  have c: "strlen (cstr ''/'') = 1" "strlen (cstr ''/dev'') = 4" "strlen (cstr ''/proc'') = 5" by (simp_all add: cstr_def)
  show ?thesis using assms
    by (simp add: boot_files_def boot_mount_def vfs_mount_def vfs_init_def devfs_init_def char_dev_register_def first_idx_def l c mount_at_def)
qed

end
