(* ===== verification/Shell.thy ===== *)
theory Shell
  imports Ufile
begin

section \<open>The shell (\<open>userspace/apps/shell/shell.c\<close>, \<open>commands.c\<close>)\<close>

text \<open>
  The interactive shell on the machine of \<open>Ucalls\<close>: output with its redirection, the line editor, the
  tokenizer, redirections, the built-in commands and the start of programs.  What the shell reads and
  writes in memory is at the addresses of \<open>shell_env\<close>: the line buffer, the locals whose address goes to
  the kernel, and the string literals that do.  An operation takes the state and gives a result and the
  next state; \<open>None\<close> is control that does not come back.  The shell's \<open>printf\<close> is \<open>shell_printf\<close>.
\<close>

definition SHELL_LINE_BUFFER_SIZE :: u32 where [vx_consts]: "SHELL_LINE_BUFFER_SIZE = 128"
definition SHELL_MAX_ARGS :: nat where [vx_consts]: "SHELL_MAX_ARGS = 8"
definition SIGKILL :: int where [vx_consts]: "SIGKILL = 9"

record shell_env =
  a_line :: u32
  a_char :: u32
  a_buf :: u32
  a_local :: u32
  a_status :: u32
  a_argv :: u32
  a_path :: u32
  a_space :: u32
  a_newline :: u32
  a_root :: u32
  e_cpsr :: u32

record 'w shell =
  sh_proc :: "'w uproc"
  shell_stdin_fd :: int
  shell_stdout_fd :: int
  lb_pos :: u32

type_synonym ('w, 'a) sh = "'w shell \<Rightarrow> ('a \<times> 'w shell) option"

definition sret :: "'a \<Rightarrow> ('w, 'a) sh" where
  "sret x s = Some (x, s)"

definition sbind :: "('w, 'a) sh \<Rightarrow> ('a \<Rightarrow> ('w, 'b) sh) \<Rightarrow> ('w, 'b) sh" where
  "sbind m f s = (case m s of None \<Rightarrow> None | Some (x, s') \<Rightarrow> f x s')"

abbreviation sseq :: "('w, 'a) sh \<Rightarrow> ('w, 'b) sh \<Rightarrow> ('w, 'b) sh" where
  "sseq m k \<equiv> sbind m (\<lambda>_. k)"

fun sall :: "('w, 'a) sh list \<Rightarrow> ('w, unit) sh" where
  "sall [] = sret ()"
| "sall (m # ms) = sseq m (sall ms)"

definition sys :: "('w uproc \<Rightarrow> ('a \<times> 'w uproc) option) \<Rightarrow> ('w, 'a) sh" where
  "sys f s = map_option (\<lambda>(r, q). (r, s\<lparr>sh_proc := q\<rparr>)) (f (sh_proc s))"

definition store :: "'w machine \<Rightarrow> u32 \<Rightarrow> u8 list \<Rightarrow> ('w, unit) sh" where
  "store M a bs s = Some ((), s\<lparr>sh_proc := st_bytes M a bs (sh_proc s)\<rparr>)"

definition load :: "'w machine \<Rightarrow> u32 \<Rightarrow> nat \<Rightarrow> ('w, u8 list) sh" where
  "load M a n s = Some (map (\<lambda>i. ld8 M (a + of_nat i) (uworld (sh_proc s))) [0..<n], s)"

text \<open>The C string at an address, without its terminator.\<close>

definition load_str :: "'w machine \<Rightarrow> u32 \<Rightarrow> ('w, cstring) sh" where
  "load_str M a s = (case strlen_at M a (sh_proc s) of None \<Rightarrow> None | Some n \<Rightarrow> load M a n s)"

definition load32 :: "'w machine \<Rightarrow> u32 \<Rightarrow> ('w, u32) sh" where
  "load32 M a = sbind (load M a 4) (\<lambda>bs. sret (rd32 bs 0))"

subsection \<open>Output\<close>

definition stdout_write :: "'w machine \<Rightarrow> u32 \<Rightarrow> u32 \<Rightarrow> ('w, unit) sh" where
  "stdout_write M buf len s =
     sseq (if shell_stdout_fd s = 1 then sys (usys_write M buf len) else sys (usys_write_file M (shell_stdout_fd s) buf len)) (sret ()) s"

definition shell_putc :: "'w machine \<Rightarrow> shell_env \<Rightarrow> u8 \<Rightarrow> ('w, unit) sh" where
  "shell_putc M E c = sseq (store M (a_buf E) [c]) (stdout_write M (a_buf E) 1)"

text \<open>The writes of \<open>shell_puts\<close>: \<open>buf\<close> is what the stack buffer holds, \<open>con\<close> whether output goes to the
  console.\<close>

fun puts_chunks :: "bool \<Rightarrow> cstring \<Rightarrow> u8 list \<Rightarrow> u8 list list" where
  "puts_chunks con [] buf = (if buf = [] then [] else [buf])"
| "puts_chunks con (c # s) buf =
     (if c = 0 then (if buf = [] then [] else [buf])
      else let nl = (c = 10 \<and> con); out = (if nl then (if buf = [] then [] else [buf]) @ [[13]] else []);
               buf' = (if nl then [] else buf) @ [c] in
        out @ (if length buf' \<ge> 64 then buf' # puts_chunks con s [] else puts_chunks con s buf'))"

definition shell_puts :: "'w machine \<Rightarrow> shell_env \<Rightarrow> cstring \<Rightarrow> ('w, unit) sh" where
  "shell_puts M E str s =
     sall (map (\<lambda>bs. sseq (store M (a_buf E) bs) (stdout_write M (a_buf E) (of_nat (length bs)))) (puts_chunks (shell_stdout_fd s = 1) str [])) s"

definition shell_text :: "cstring \<Rightarrow> fmt_arg list \<Rightarrow> cstring" where
  "shell_text fmt ap = (case vsnprintf (Some (replicate 256 0)) 256 fmt ap of (n, c) \<Rightarrow>
     takeWhile (\<lambda>b. b \<noteq> 0) (case fo_buf c of Some b \<Rightarrow> b | None \<Rightarrow> []))"

definition shell_printf :: "'w machine \<Rightarrow> shell_env \<Rightarrow> cstring \<Rightarrow> fmt_arg list \<Rightarrow> ('w, int) sh" where
  "shell_printf M E fmt ap = sseq (shell_puts M E (shell_text fmt ap)) (sret (fst (vsnprintf (Some (replicate 256 0)) 256 fmt ap)))"

subsection \<open>Tokens\<close>

definition is_redirect :: "cstring \<Rightarrow> bool" where
  "is_redirect tok \<longleftrightarrow> strcmp tok (cstr ''>'') = 0 \<or> strcmp tok (cstr ''>>'') = 0 \<or> strcmp tok (cstr ''<'') = 0"

definition blank :: "u8 \<Rightarrow> bool" where
  "blank c \<longleftrightarrow> c = 32 \<or> c = 9"

text \<open>The tokens of a line that starts with none of the blanks, with their offsets; at most \<open>n\<close>.\<close>

fun tokens :: "nat \<Rightarrow> nat \<Rightarrow> cstring \<Rightarrow> (nat \<times> cstring) list" where
  "tokens 0 p cs = []"
| "tokens (Suc n) p cs =
     (if cs = [] then []
      else let t = takeWhile (\<lambda>c. \<not> blank c) cs; r = dropWhile (\<lambda>c. \<not> blank c) cs in
        (p, t) # (if r = [] then []
                  else tokens n (p + length t + 1 + length (takeWhile blank (tl r))) (dropWhile blank (tl r))))"

text \<open>The line after the terminators have been stored behind the tokens.\<close>

definition terminate :: "(nat \<times> cstring) list \<Rightarrow> u8 list \<Rightarrow> u8 list" where
  "terminate ts line = fold (\<lambda>(p, t) l. l[p + length t := 0]) ts line"

definition tokenize :: "cstring \<Rightarrow> (nat \<times> cstring) list" where
  "tokenize line = tokens SHELL_MAX_ARGS (length (takeWhile blank line)) (dropWhile blank line)"

subsection \<open>Redirection\<close>

text \<open>An argument is the address of a token with its text.  The loop keeps the descriptors opened so far and
  the arguments kept so far; \<open>None\<close> is the result \<open>-1\<close>.\<close>

type_synonym arg = "u32 \<times> cstring"

fun redirect_loop :: "'w machine \<Rightarrow> shell_env \<Rightarrow> arg list \<Rightarrow> arg list \<Rightarrow> int \<Rightarrow> int \<Rightarrow> ('w, (arg list \<times> int \<times> int) option) sh" where
  "redirect_loop M E [] kept in_fd out_fd = sret (Some (kept, in_fd, out_fd))"
| "redirect_loop M E (a # as) kept in_fd out_fd =
     (if \<not> is_redirect (snd a) then redirect_loop M E as (kept @ [a]) in_fd out_fd
      else case as of
          [] \<Rightarrow> sseq (shell_printf M E (cstr ''syntax error: '' @ [39] @ cstr ''%s'' @ [39] @ cstr '' needs a filename'' @ [10]) [AStr (Some (snd a))]) (sret None)
        | target # rest \<Rightarrow>
            if strcmp (snd a) (cstr ''<'') = 0
            then sbind (sys (usys_open M (fst target) uO_RDONLY)) (\<lambda>fd.
              if fd < 0 then sseq (shell_printf M E (cstr ''open '' @ [39] @ cstr ''%s'' @ [39] @ cstr '' for read failed: %d'' @ [10]) [AStr (Some (snd target)), AInt (of_int fd)]) (sret None)
              else sseq (if in_fd \<ge> 0 then sys (usys_close M in_fd) else sret 0) (redirect_loop M E rest kept fd out_fd))
            else sbind (sys (usys_open M (fst target) (uO_WRONLY OR uO_CREAT OR (if strcmp (snd a) (cstr ''>>'') = 0 then uO_APPEND else uO_TRUNC)))) (\<lambda>fd.
              if fd < 0 then sseq (shell_printf M E (cstr ''open '' @ [39] @ cstr ''%s'' @ [39] @ cstr '' for write failed: %d'' @ [10]) [AStr (Some (snd target)), AInt (of_int fd)])
                (sseq (if in_fd \<ge> 0 then sys (usys_close M in_fd) else sret 0) (sret None))
              else sseq (if out_fd \<ge> 0 then sys (usys_close M out_fd) else sret 0) (redirect_loop M E rest kept in_fd fd)))"

definition apply_redirects :: "'w machine \<Rightarrow> shell_env \<Rightarrow> arg list \<Rightarrow> ('w, (arg list \<times> int \<times> int) option) sh" where
  "apply_redirects M E args = redirect_loop M E args [] (- 1) (- 1)"

subsection \<open>The line buffer\<close>

definition line_buffer_init :: "'w machine \<Rightarrow> shell_env \<Rightarrow> ('w, unit) sh" where
  "line_buffer_init M E s = store M (a_line E) [0] (s\<lparr>lb_pos := 0\<rparr>)"

definition line_buffer_add :: "'w machine \<Rightarrow> shell_env \<Rightarrow> u8 \<Rightarrow> ('w, int) sh" where
  "line_buffer_add M E c s =
     (if lb_pos s \<ge> SHELL_LINE_BUFFER_SIZE - 1 then Some (- 1, s)
      else sseq (store M (a_line E + lb_pos s) [c]) (sseq (store M (a_line E + (lb_pos s + 1)) [0]) (sret 0)) (s\<lparr>lb_pos := lb_pos s + 1\<rparr>))"

definition line_buffer_backspace :: "'w machine \<Rightarrow> shell_env \<Rightarrow> ('w, int) sh" where
  "line_buffer_backspace M E s =
     (if lb_pos s > 0 then sseq (store M (a_line E + (lb_pos s - 1)) [0]) (sret 0) (s\<lparr>lb_pos := lb_pos s - 1\<rparr>)
      else Some (- 1, s))"

subsection \<open>The built-in commands\<close>

abbreviation say :: "'w machine \<Rightarrow> shell_env \<Rightarrow> string \<Rightarrow> fmt_arg list \<Rightarrow> ('w, int) sh" where
  "say M E txt ap \<equiv> shell_printf M E (cstr txt) ap"

abbreviation sayln :: "'w machine \<Rightarrow> shell_env \<Rightarrow> string \<Rightarrow> fmt_arg list \<Rightarrow> ('w, int) sh" where
  "sayln M E txt ap \<equiv> shell_printf M E (cstr txt @ [10]) ap"

abbreviation str :: "cstring \<Rightarrow> fmt_arg" where "str t \<equiv> AStr (Some t)"
abbreviation num :: "int \<Rightarrow> fmt_arg" where "num n \<equiv> AInt (of_int n)"

datatype builtin = Help | Info | Ps | Mem | Ls | Cat | Write | Exec | Echo | Clear | Pid | Fork | Kill | Crash | Devlist

definition cmd_table :: "(cstring \<times> builtin \<times> cstring) list" where
  "cmd_table = [
     (cstr ''help'', Help, cstr ''Show this help message''), (cstr ''info'', Info, cstr ''Show system info''),
     (cstr ''ps'', Ps, cstr ''Show running tasks''), (cstr ''mem'', Mem, cstr ''Show memory usage''),
     (cstr ''ls'', Ls, cstr ''List directory contents''), (cstr ''cat'', Cat, cstr ''Display file contents''),
     (cstr ''write'', Write, cstr ''Write text to file (create/truncate)''), (cstr ''exec'', Exec, cstr ''Execute binary file''),
     (cstr ''echo'', Echo, cstr ''Echo arguments''), (cstr ''clear'', Clear, cstr ''Clear screen''),
     (cstr ''pid'', Pid, cstr ''Print current pid + ppid''), (cstr ''fork'', Fork, cstr ''Fork a child that exits immediately''),
     (cstr ''kill'', Kill, cstr ''Kill a running task by pid''),
     (cstr ''crash'', Crash, cstr ''Fork a child that NULL-derefs (demo isolation)''),
     (cstr ''devlist'', Devlist, cstr ''Show platform bus devices + bound drivers'')]"

definition cmd_help :: "'w machine \<Rightarrow> shell_env \<Rightarrow> arg list \<Rightarrow> ('w, int) sh" where
  "cmd_help M E args = sseq (shell_printf M E ([10] @ cstr ''Available Commands:'' @ [10]) []) (sseq (sayln M E ''-------------------'' [])
     (sseq (sall (map (\<lambda>(name, b, desc). shell_printf M E (cstr ''  %s'' @ [9] @ cstr '': %s'' @ [10]) [str name, str desc]) cmd_table))
       (sseq (sayln M E '''' []) (sret 0))))"

definition cmd_info :: "'w machine \<Rightarrow> shell_env \<Rightarrow> arg list \<Rightarrow> ('w, int) sh" where
  "cmd_info M E args = sseq (sall [shell_printf M E ([10] @ cstr ''VinixOS Info:'' @ [10]) [], sayln M E ''  OS Name  : VinixOS'' [],
     sayln M E ''  Platform : BeagleBone Black (Cortex-A8)'' [], sayln M E ''  Arch     : ARMv7-A'' [],
     sayln M E ''  Developer: Vinalinux <vinalinux2022@gmail.com>'' [], sayln M E '''' []]) (sret 0)"

definition cmd_echo :: "'w machine \<Rightarrow> shell_env \<Rightarrow> arg list \<Rightarrow> ('w, int) sh" where
  "cmd_echo M E args = sseq (sall (map (\<lambda>a. say M E ''%s '' [str (snd a)]) (tl args))) (sseq (sayln M E '''' []) (sret 0))"

definition cmd_clear :: "'w machine \<Rightarrow> shell_env \<Rightarrow> arg list \<Rightarrow> ('w, int) sh" where
  "cmd_clear M E args = sseq (shell_printf M E ([27] @ cstr ''[2J'' @ [27] @ cstr ''[H'') []) (sret 0)"

definition ps_state :: "u32 \<Rightarrow> cstring" where
  "ps_state v = (if v = 0 then cstr ''READY'' else if v = 1 then cstr ''RUNNING'' else if v = 2 then cstr ''BLOCKED''
     else if v = 3 then cstr ''ZOMBIE'' else cstr ''UNKNOWN'')"

definition ps_line :: "'w machine \<Rightarrow> shell_env \<Rightarrow> nat \<Rightarrow> ('w, int) sh" where
  "ps_line M E i =
     (let a = a_local E + 40 * of_nat i in
      sbind (load32 M a) (\<lambda>tid. sbind (load_str M (a + 4)) (\<lambda>name. sbind (load32 M (a + 36)) (\<lambda>st.
        sayln M E ''%-8d%-32s%-16s'' [AInt tid, str name, str (ps_state st)]))))"

definition cmd_ps :: "'w machine \<Rightarrow> shell_env \<Rightarrow> arg list \<Rightarrow> ('w, int) sh" where
  "cmd_ps M E args = sbind (sys (usys_get_tasks M (a_local E) 16)) (\<lambda>count.
     if count < 0 then sseq (sayln M E ''Error getting tasks'' []) (sret (- 1))
     else sseq (sall [shell_printf M E ([10] @ cstr ''%-8s%-32s%-16s'' @ [10]) [str (cstr ''ID''), str (cstr ''NAME''), str (cstr ''STATE'')],
         sayln M E ''%-8s%-32s%-16s'' [str (cstr ''--''), str (cstr ''----''), str (cstr ''-----'')]])
       (sseq (sall (map (ps_line M E) [0..<nat count])) (sseq (sayln M E '''' []) (sret 0))))"

definition mem_line :: "'w machine \<Rightarrow> shell_env \<Rightarrow> u32 \<Rightarrow> string \<Rightarrow> ('w, int) sh" where
  "mem_line M E off txt = sbind (load32 M (a_local E + off)) (\<lambda>v. sayln M E txt [AInt v])"

definition cmd_mem :: "'w machine \<Rightarrow> shell_env \<Rightarrow> arg list \<Rightarrow> ('w, int) sh" where
  "cmd_mem M E args = sbind (sys (usys_get_meminfo M (a_local E))) (\<lambda>r.
     if r \<noteq> 0 then sseq (sayln M E ''Error getting mem info'' []) (sret (- 1))
     else sseq (sall [shell_printf M E ([10] @ cstr ''Memory Layout (128MB Total):'' @ [10]) [],
         mem_line M E 8 ''  Kernel Text : %u bytes'', mem_line M E 12 ''  Kernel Data : %u bytes'',
         mem_line M E 16 ''  Kernel BSS  : %u bytes'', mem_line M E 20 ''  Kernel Stack: %u bytes'',
         mem_line M E 4 ''  Free Memory : %u bytes'', sayln M E '''' []]) (sret 0))"

definition cmd_ls :: "'w machine \<Rightarrow> shell_env \<Rightarrow> arg list \<Rightarrow> ('w, int) sh" where
  "cmd_ls M E args =
     sbind (sys (usys_listdir M (if length args > 1 then fst (args ! 1) else a_root E) (a_local E) 16)) (\<lambda>count.
       if count < 0 then sseq (sayln M E ''Error listing directory: %d'' [num count]) (sret (- 1))
       else sseq (sall (map (\<lambda>i. sbind (load_str M (a_local E + 36 * of_nat i)) (\<lambda>name. sayln M E ''  %s'' [str name])) [0..<nat count])) (sret 0))"

text \<open>The loop of \<open>cat\<close>: it ends when a read gives nothing or fails.\<close>

partial_function (option) cat_loop :: "'w machine \<Rightarrow> shell_env \<Rightarrow> int \<Rightarrow> 'w shell \<Rightarrow> (int \<times> 'w shell) option" where
  "cat_loop M E fd s = (case sys (usys_read_file M fd (a_local E) 255) s of
     None \<Rightarrow> None
   | Some (n, s) \<Rightarrow>
       if n > 0
       then (case sseq (store M (a_local E + of_int n) [0]) (sbind (load_str M (a_local E)) (\<lambda>t. say M E ''%s'' [str t])) s of
           None \<Rightarrow> None | Some (_, s) \<Rightarrow> cat_loop M E fd s)
       else Some (n, s))"

definition cat_fd :: "'w machine \<Rightarrow> shell_env \<Rightarrow> int \<Rightarrow> bool \<Rightarrow> ('w, int) sh" where
  "cat_fd M E fd opened_here = sseq (sayln M E '''' []) (sbind (cat_loop M E fd) (\<lambda>n.
     sseq (if n < 0 then shell_printf M E ([10] @ cstr ''Error reading file: %d'' @ [10]) [num n] else sret 0)
       (sseq (sayln M E '''' []) (sseq (if opened_here then sys (usys_close M fd) else sret 0) (sret 0)))))"

definition cmd_cat :: "'w machine \<Rightarrow> shell_env \<Rightarrow> arg list \<Rightarrow> ('w, int) sh" where
  "cmd_cat M E args s =
     (if length args \<ge> 2
      then sbind (sys (usys_open M (fst (args ! 1)) uO_RDONLY)) (\<lambda>fd.
        if fd < 0 then sseq (shell_printf M E (cstr ''Error opening file '' @ [39] @ cstr ''%s'' @ [39] @ cstr '': %d'' @ [10]) [str (snd (args ! 1)), num fd]) (sret (- 1))
        else cat_fd M E fd True) s
      else if shell_stdin_fd s > 2 then cat_fd M E (shell_stdin_fd s) False s
      else sseq (sayln M E ''Usage: cat <filename>   (or redirect: cat < file)'' []) (sret (- 1)) s)"

fun write_args :: "'w machine \<Rightarrow> shell_env \<Rightarrow> int \<Rightarrow> arg list \<Rightarrow> bool \<Rightarrow> int \<Rightarrow> ('w, int option) sh" where
  "write_args M E fd [] first n = sret (Some n)"
| "write_args M E fd (a # as) first n =
     sbind (if first then sret n else sseq (sys (usys_write_file M fd (a_space E) 1)) (sret (n + 1))) (\<lambda>n.
     sbind (sys (usys_write_file M fd (fst a) (of_nat (strlen (snd a))))) (\<lambda>r.
       if r < 0 then sseq (sayln M E ''Write failed: %d'' [num r]) (sseq (sys (usys_close M fd)) (sret None))
       else write_args M E fd as False (n + r)))"

definition cmd_write :: "'w machine \<Rightarrow> shell_env \<Rightarrow> arg list \<Rightarrow> ('w, int) sh" where
  "cmd_write M E args =
     (if length args < 3
      then sseq (sall [sayln M E ''Usage: write <filename> <text...>'' [], sayln M E ''Example: write hello.txt Hello World'' []]) (sret (- 1))
      else sbind (sys (usys_open M (fst (args ! 1)) (uO_WRONLY OR uO_CREAT OR uO_TRUNC))) (\<lambda>fd.
        if fd < 0 then sseq (shell_printf M E (cstr ''Error opening '' @ [39] @ cstr ''%s'' @ [39] @ cstr '' for write: %d'' @ [10]) [str (snd (args ! 1)), num fd]) (sret (- 1))
        else sbind (write_args M E fd (drop 2 args) True 0) (\<lambda>r. case r of
            None \<Rightarrow> sret (- 1)
          | Some n \<Rightarrow> sseq (sys (usys_write_file M fd (a_newline E) 1)) (sseq (sys (usys_close M fd))
              (sseq (sayln M E ''Wrote %d bytes to %s'' [num (n + 1), str (snd (args ! 1))]) (sret 0))))))"

definition cmd_pid :: "'w machine \<Rightarrow> shell_env \<Rightarrow> arg list \<Rightarrow> ('w, int) sh" where
  "cmd_pid M E args = sbind (sys (usys_getpid M)) (\<lambda>p. sbind (sys (usys_getppid M)) (\<lambda>pp.
     sseq (sayln M E ''pid=%d ppid=%d'' [num p, num pp]) (sret 0)))"

text \<open>\<open>sys_wait(&status)\<close> on a status that is 0: the pid and the status.\<close>

definition wait_status :: "'w machine \<Rightarrow> shell_env \<Rightarrow> ('w, int \<times> u32) sh" where
  "wait_status M E = sseq (store M (a_status E) (le32 0)) (sbind (sys (usys_wait M (a_status E))) (\<lambda>w.
     sbind (load32 M (a_status E)) (\<lambda>st. sret (w, st))))"

definition cmd_fork :: "'w machine \<Rightarrow> shell_env \<Rightarrow> arg list \<Rightarrow> ('w, int) sh" where
  "cmd_fork M E args = sbind (sys (usys_fork M)) (\<lambda>pid.
     if pid < 0 then sseq (sayln M E ''fork failed: %d'' [num pid]) (sret (- 1))
     else if pid = 0
     then sbind (sys (usys_getpid M)) (\<lambda>p. sbind (sys (usys_getppid M)) (\<lambda>pp.
       sseq (shell_printf M E (cstr ''[child] pid=%d ppid=%d '' @ [0xE2, 0x80, 0x94] @ cstr '' exiting'' @ [10]) [num p, num pp])
         (sseq (sys (usys_exit M 42)) (sret 0))))
     else sbind (wait_status M E) (\<lambda>(w, st). sseq (sayln M E ''[parent] child pid=%d exited with status=%d'' [num w, AInt st]) (sret 0)))"

fun pid_digits :: "cstring \<Rightarrow> u32 \<Rightarrow> u32" where
  "pid_digits [] pid = pid"
| "pid_digits (c # cs) pid = (if c \<ge> 48 \<and> c \<le> 57 then pid_digits cs (pid * 10 + (ucast c - 48)) else pid)"

definition cmd_kill :: "'w machine \<Rightarrow> shell_env \<Rightarrow> arg list \<Rightarrow> ('w, int) sh" where
  "cmd_kill M E args =
     (if length args < 2 then sseq (sayln M E ''Usage: kill <pid>'' []) (sret (- 1))
      else let pid = sint (pid_digits (snd (args ! 1)) 0) in
        sbind (sys (usys_kill M pid SIGKILL)) (\<lambda>r.
          if r < 0 then sseq (sayln M E ''kill %d: cannot kill (slot empty, self, or protected)'' [num pid]) (sret (- 1))
          else sbind (wait_status M E) (\<lambda>(w, st).
            sseq (if w \<ge> 0 then sayln M E ''reaped pid=%d status=%d'' [num w, AInt st] else sret 0) (sret 0))))"

text \<open>The decimal digits of an interrupt number, the last first.\<close>

fun irq_digits :: "nat \<Rightarrow> u8 list" where
  "irq_digits v = (if v = 0 then [] else of_nat (48 + v mod 10) # irq_digits (v div 10))"

declare irq_digits.simps [simp del]

definition irq_text :: "int \<Rightarrow> cstring" where
  "irq_text irq = (if irq < 0 then [45] else rev (if irq = 0 then [48] else irq_digits (nat irq)))"

definition dev_line :: "'w machine \<Rightarrow> shell_env \<Rightarrow> nat \<Rightarrow> ('w, int) sh" where
  "dev_line M E i =
     (let a = a_local E + 40 * of_nat i in
      sbind (load_str M a) (\<lambda>name. sbind (load32 M (a + 16)) (\<lambda>base. sbind (load32 M (a + 20)) (\<lambda>irq. sbind (load_str M (a + 24)) (\<lambda>drv.
        sayln M E ''%-14s0x%08x  %-6s%s'' [str name, AInt base, str (irq_text (sint irq)), str (if drv \<noteq> [] then drv else cstr ''(unbound)'')])))))"

definition cmd_devlist :: "'w machine \<Rightarrow> shell_env \<Rightarrow> arg list \<Rightarrow> ('w, int) sh" where
  "cmd_devlist M E args = sbind (sys (usys_devlist M (a_local E) 8)) (\<lambda>n.
     if n < 0 then sseq (sayln M E ''devlist failed: %d'' [num n]) (sret (- 1))
     else sseq (sall [shell_printf M E ([10] @ cstr ''%-14s%-12s%-6s%-14s'' @ [10]) [str (cstr ''NAME''), str (cstr ''BASE''), str (cstr ''IRQ''), str (cstr ''DRIVER'')],
         sayln M E ''%-14s%-12s%-6s%-14s'' [str (cstr ''----''), str (cstr ''----''), str (cstr ''---''), str (cstr ''------'')]])
       (sseq (sall (map (dev_line M E) [0..<nat n])) (sseq (sayln M E '''' []) (sret 0))))"

text \<open>The store through a null pointer does not return.\<close>

definition cmd_crash :: "'w machine \<Rightarrow> shell_env \<Rightarrow> arg list \<Rightarrow> ('w, int) sh" where
  "cmd_crash M E args = sbind (sys (usys_fork M)) (\<lambda>pid.
     if pid < 0 then sseq (sayln M E ''fork failed: %d'' [num pid]) (sret (- 1))
     else if pid = 0
     then sbind (sys (usys_getpid M)) (\<lambda>p. sseq (sayln M E ''[child] pid=%d about to NULL-deref...'' [num p]) (\<lambda>s. None))
     else sbind (wait_status M E) (\<lambda>(w, st). sseq (sayln M E ''[parent] child pid=%d died with status=%d (139 = SIGSEGV)'' [num w, AInt st]) (sret 0)))"

definition cmd_exec :: "'w machine \<Rightarrow> shell_env \<Rightarrow> arg list \<Rightarrow> ('w, int) sh" where
  "cmd_exec M E args =
     (if length args < 2 then sseq (sall [sayln M E ''Usage: exec <path>'' [], sayln M E ''Example: exec /bin/ls'' []]) (sret (- 1))
      else sseq (shell_printf M E (cstr ''Executing '' @ [39] @ cstr ''%s'' @ [39] @ cstr ''...'' @ [10]) [str (snd (args ! 1))])
        (sbind (sys (usys_exec M (fst (args ! 1)) 0)) (\<lambda>r.
          if r < 0 then sseq (shell_printf M E (cstr ''exec failed for '' @ [39] @ cstr ''%s'' @ [39] @ cstr '': %d'' @ [10]) [str (snd (args ! 1)), num r]) (sret (- 1))
          else sseq (sayln M E ''exec returned unexpectedly: %d'' [num r]) (sret (- 1)))))"

fun run_builtin :: "'w machine \<Rightarrow> shell_env \<Rightarrow> builtin \<Rightarrow> arg list \<Rightarrow> ('w, int) sh" where
  "run_builtin M E Help = cmd_help M E" | "run_builtin M E Info = cmd_info M E" | "run_builtin M E Ps = cmd_ps M E"
| "run_builtin M E Mem = cmd_mem M E" | "run_builtin M E Ls = cmd_ls M E" | "run_builtin M E Cat = cmd_cat M E"
| "run_builtin M E Write = cmd_write M E" | "run_builtin M E Exec = cmd_exec M E" | "run_builtin M E Echo = cmd_echo M E"
| "run_builtin M E Clear = cmd_clear M E" | "run_builtin M E Pid = cmd_pid M E" | "run_builtin M E Fork = cmd_fork M E"
| "run_builtin M E Kill = cmd_kill M E" | "run_builtin M E Crash = cmd_crash M E" | "run_builtin M E Devlist = cmd_devlist M E"

subsection \<open>Programs and lines\<close>

definition bin_path :: "cstring \<Rightarrow> u8 list" where
  "bin_path cmd = cstr ''/bin/'' @ take 58 cmd @ [0]"

definition run_child :: "'w machine \<Rightarrow> shell_env \<Rightarrow> arg list \<Rightarrow> ('w, int) sh" where
  "run_child M E args =
     (let cmd = args ! 0; has_slash = (47 \<in> set (snd cmd)) in
      sseq (store M (a_argv E) (concat (map (\<lambda>a. le32 (fst a)) args) @ le32 0))
      (sseq (if has_slash then sret 0 else sseq (store M (a_path E) (bin_path (snd cmd))) (sys (usys_exec M (a_path E) (a_argv E))))
      (sbind (sys (usys_exec M (fst cmd) (a_argv E))) (\<lambda>er.
      sseq (shell_printf M E ([39] @ cstr ''%s'' @ [39] @ cstr '': exec failed (%d) '' @ [0xE2, 0x80, 0x94] @ cstr '' not a built-in, not a file'' @ [10]) [str (snd cmd), num er])
        (sys (usys_exit M 127))))))"

definition run_program :: "'w machine \<Rightarrow> shell_env \<Rightarrow> arg list \<Rightarrow> ('w, int) sh" where
  "run_program M E args = sbind (sys (usys_fork M)) (\<lambda>pid.
     if pid < 0 then sseq (sayln M E ''fork failed: %d'' [num pid]) (sret (- 1))
     else if pid = 0 then run_child M E args
     else sbind (wait_status M E) (\<lambda>(w, st). sret (sint st)))"

definition dispatch :: "'w machine \<Rightarrow> shell_env \<Rightarrow> arg list \<Rightarrow> ('w, int) sh" where
  "dispatch M E args = (case List.find (\<lambda>(name, b, desc). strcmp name (snd (args ! 0)) = 0) cmd_table of
     Some (name, b, desc) \<Rightarrow> run_builtin M E b args | None \<Rightarrow> run_program M E args)"

definition close_if :: "'w machine \<Rightarrow> int \<Rightarrow> ('w, int) sh" where
  "close_if M fd = (if fd \<ge> 0 then sys (usys_close M fd) else sret 0)"

text \<open>A command with its redirections in force, and the descriptors restored after it.\<close>

definition run_redirected :: "'w machine \<Rightarrow> shell_env \<Rightarrow> arg list \<Rightarrow> int \<Rightarrow> int \<Rightarrow> ('w, int) sh" where
  "run_redirected M E args redir_in redir_out s =
     sbind (dispatch M E args) (\<lambda>rc s'.
       sseq (close_if M redir_in) (sseq (close_if M redir_out) (sret rc))
         (s'\<lparr>shell_stdin_fd := shell_stdin_fd s, shell_stdout_fd := shell_stdout_fd s\<rparr>))
     (s\<lparr>shell_stdin_fd := (if redir_in \<ge> 0 then redir_in else shell_stdin_fd s),
        shell_stdout_fd := (if redir_out \<ge> 0 then redir_out else shell_stdout_fd s)\<rparr>)"

definition execute_command :: "'w machine \<Rightarrow> shell_env \<Rightarrow> u32 \<Rightarrow> ('w, int) sh" where
  "execute_command M E line = sbind (load_str M line) (\<lambda>text.
     let ts = tokenize text; args = map (\<lambda>(p, t). (line + of_nat p, t)) ts in
     if ts = [] then sret 0
     else sseq (store M line (terminate ts (text @ [0]))) (sbind (apply_redirects M E args) (\<lambda>r. case r of
         None \<Rightarrow> sret (- 1)
       | Some (args, redir_in, redir_out) \<Rightarrow>
           if args = [] then sseq (close_if M redir_in) (sseq (close_if M redir_out) (sret 0))
           else run_redirected M E args redir_in redir_out)))"

text \<open>What one byte from the console does, and a round of the main loop.\<close>

definition shell_key :: "'w machine \<Rightarrow> shell_env \<Rightarrow> u8 \<Rightarrow> ('w, unit) sh" where
  "shell_key M E c =
     (if c = 13 \<or> c = 10
      then sseq (shell_putc M E 10) (sseq (execute_command M E (a_line E)) (sseq (line_buffer_init M E) (sseq (say M E ''> '' []) (sret ()))))
      else if c = 8 \<or> c = 127
      then sbind (line_buffer_backspace M E) (\<lambda>r. if r = 0 then sall (map (shell_putc M E) [8, 32, 8]) else sret ())
      else if c \<ge> 32 \<and> c \<le> 126
      then sbind (line_buffer_add M E c) (\<lambda>r. shell_putc M E (if r = 0 then c else 7))
      else sret ())"

definition shell_round :: "'w machine \<Rightarrow> shell_env \<Rightarrow> ('w, unit) sh" where
  "shell_round M E = sbind (sys (usys_read M (a_char E) 1)) (\<lambda>n.
     if n > 0 then sbind (load M (a_char E) 1) (\<lambda>bs. shell_key M E (bs ! 0)) else sseq (sys (usys_yield M)) (sret ()))"

definition shell_start :: "'w machine \<Rightarrow> shell_env \<Rightarrow> ('w, unit) sh" where
  "shell_start M E = sseq (line_buffer_init M E) (sall [sayln M E '''' [], sayln M E ''========================================'' [],
     sayln M E '' VinixOS User Shell'' [], sayln M E ''========================================'' [],
     sayln M E ''[SHELL] CPSR=0x%x, Mode=0x%x (USR=0x10, SVC=0x13)'' [AInt (e_cpsr E), AInt (e_cpsr E AND 0x1F)], say M E ''> '' []])"

end
