(* ===== verification/Shell_Props.thy ===== *)
theory Shell_Props
  imports Shell Read_Path
begin

section \<open>Properties of the shell\<close>

text \<open>
  The tokenizer against a definition by splitting at every blank, the strings it leaves in the line buffer,
  and the writes of \<open>shell_puts\<close>.
\<close>

subsection \<open>Words\<close>

fun pieces :: "cstring \<Rightarrow> cstring list" where
  "pieces [] = [[]]"
| "pieces (c # cs) = (if blank c then [] # pieces cs else (c # hd (pieces cs)) # tl (pieces cs))"

definition line_words :: "cstring \<Rightarrow> cstring list" where
  "line_words cs = filter (\<lambda>w. w \<noteq> []) (pieces cs)"

abbreviation nonblank :: "u8 \<Rightarrow> bool" where "nonblank c \<equiv> \<not> blank c"

lemma pieces_split:
  "pieces cs = takeWhile nonblank cs # (if dropWhile nonblank cs = [] then [] else pieces (tl (dropWhile nonblank cs)))"
  by (induction cs) auto

lemma line_words_Nil [simp]: "line_words [] = []"
  by (simp add: line_words_def)

lemma line_words_blank [simp]: "blank c \<Longrightarrow> line_words (c # cs) = line_words cs"
  by (simp add: line_words_def)

lemma line_words_dropWhile [simp]: "line_words (dropWhile blank cs) = line_words cs"
  by (induction cs) auto

lemma line_words_token:
  assumes "nonblank c"
  shows "line_words (c # cs) = takeWhile nonblank (c # cs) #
    (if dropWhile nonblank cs = [] then [] else line_words (tl (dropWhile nonblank cs)))"
  unfolding line_words_def by (subst pieces_split) (use assms in auto)

definition trimmed :: "cstring \<Rightarrow> bool" where
  "trimmed cs \<longleftrightarrow> cs = [] \<or> nonblank (hd cs)"

lemma trimmed_dropWhile [simp]: "trimmed (dropWhile blank cs)"
  using hd_dropWhile [of blank cs] by (auto simp: trimmed_def)

lemma tokens_words: "trimmed cs \<Longrightarrow> map snd (tokens n p cs) = take n (line_words cs)"
proof (induction n p cs rule: tokens.induct)
  case (2 n p cs)
  show ?case
  proof (cases cs)
    case (Cons c cs')
    then have "nonblank c" using 2(2) by (simp add: trimmed_def)
    then show ?thesis using 2(1) Cons by (simp add: line_words_token Let_def)
  qed simp
qed simp

subsection \<open>The tokens in place\<close>

definition token_at :: "cstring \<Rightarrow> nat \<times> cstring \<Rightarrow> bool" where
  "token_at line pt = (case pt of (p, t) \<Rightarrow> p + length t \<le> length line \<and> take (length t) (drop p line) = t \<and>
     (\<forall>c\<in>set t. nonblank c) \<and> (p + length t < length line \<longrightarrow> blank (line ! (p + length t))))"

lemma token_at_front: "token_at (pre @ cs) (length pre, takeWhile nonblank cs)"
proof -
  have "blank (cs ! length (takeWhile nonblank cs))" if "length (takeWhile nonblank cs) < length cs"
    using nth_length_takeWhile [OF that] by simp
  moreover have "take (length (takeWhile nonblank cs)) cs = takeWhile nonblank cs" by (metis takeWhile_eq_take)
  ultimately show ?thesis using length_takeWhile_le [of nonblank cs] set_takeWhileD [of _ nonblank cs]
    by (auto simp: token_at_def nth_append)
qed

lemma tokens_at: "pt \<in> set (tokens n (length pre) cs) \<Longrightarrow> token_at (pre @ cs) pt"
proof (induction n arbitrary: pre cs)
  case (Suc n)
  let ?t = "takeWhile nonblank cs" and ?r = "dropWhile nonblank cs"
  let ?b = "takeWhile blank (tl ?r)" and ?d = "dropWhile blank (tl ?r)"
  have "cs \<noteq> []" using Suc.prems by (cases "cs = []") simp_all
  then have "pt = (length pre, ?t) \<or> (?r \<noteq> [] \<and> pt \<in> set (tokens n (length pre + length ?t + 1 + length ?b) ?d))"
    using Suc.prems by (cases "?r = []") (simp_all only: tokens.simps if_False if_True Let_def list.set insert_iff empty_iff HOL.simp_thms)
  then show ?case
  proof (elim disjE conjE)
    assume r: "?r \<noteq> []" "pt \<in> set (tokens n (length pre + length ?t + 1 + length ?b) ?d)"
    let ?pre = "pre @ ?t @ [hd ?r] @ ?b"
    have "length ?pre = length pre + length ?t + 1 + length ?b" by simp
    then have "token_at (?pre @ ?d) pt" using Suc.IH [of ?pre ?d] r(2) by (simp only:)
    moreover have "?pre @ ?d = pre @ cs"
    proof -
      have "?t @ hd ?r # (?b @ ?d) = cs" using r(1) by (metis list.collapse takeWhile_dropWhile_id)
      then show ?thesis by simp
    qed
    ultimately show ?thesis by (simp only:)
  qed (simp only: token_at_front)
qed simp

lemma terminate_nth:
  "length (terminate ts l) = length l"
  "i < length l \<Longrightarrow> terminate ts l ! i = (if \<exists>(p, t)\<in>set ts. i = p + length t then 0 else l ! i)"
proof -
  show len: "length (terminate ts l) = length l" for l
    unfolding terminate_def by (induction ts arbitrary: l) (auto simp: split_beta)
  show "terminate ts l ! i = (if \<exists>(p, t)\<in>set ts. i = p + length t then 0 else l ! i)" if "i < length l"
    using that unfolding terminate_def by (induction ts arbitrary: l) (auto simp: split_beta nth_list_update)
qed

lemma string_at:
  assumes "p + n < length l" "\<And>k. k < n \<Longrightarrow> l ! (p + k) = t ! k \<and> t ! k \<noteq> 0" "l ! (p + n) = 0" "length t = n"
  shows "takeWhile (\<lambda>b. b \<noteq> (0 :: u8)) (drop p l) = t"
proof -
  have "take n (drop p l) = t" using assms by (intro nth_equalityI) (auto simp: nth_append)
  then have "drop p l = t @ l ! (p + n) # drop (Suc (p + n)) l"
    using assms(1) by (metis append_take_drop_id drop_drop Cons_nth_drop_Suc add.commute)
  moreover have "\<forall>b\<in>set t. b \<noteq> 0" using assms(2,4) by (auto simp: in_set_conv_nth)
  ultimately show ?thesis using assms(3) by (simp add: takeWhile_append2)
qed

text \<open>C23: The tokenizer of the shell gives the words of a line, as splitting at every blank and dropping the
  empty pieces gives them, up to the eighth; and after it has stored its terminators into the line, the C
  string at the address of each argument is that word.\<close>

theorem shell_tokens:
  assumes "0 \<notin> set line"
  shows "map snd (tokenize line) = take SHELL_MAX_ARGS (line_words line) \<and>
    (\<forall>(p, t)\<in>set (tokenize line). takeWhile (\<lambda>b. b \<noteq> 0) (drop p (terminate (tokenize line) (line @ [0]))) = t)"
proof (intro conjI ballI, goal_cases)
  case 1
  show ?case by (simp add: tokenize_def tokens_words)
next
  case (2 pt)
  obtain p t where pt: "pt = (p, t)" by fastforce
  have at: "token_at line x" if "x \<in> set (tokenize line)" for x
    using tokens_at [of x SHELL_MAX_ARGS "takeWhile blank line" "dropWhile blank line"] that by (simp add: tokenize_def)
  from at [OF 2] have t: "p + length t \<le> length line" "take (length t) (drop p line) = t" "\<forall>c\<in>set t. nonblank c"
    by (simp_all add: token_at_def pt)
  let ?l = "terminate (tokenize line) (line @ [0])"
  have "?l ! (p + k) = t ! k \<and> t ! k \<noteq> 0" if k: "k < length t" for k
  proof -
    have lk: "line ! (p + k) = t ! k" using t(1,2) k by (metis le_add1 nth_drop nth_take order.trans)
    then have "nonblank (line ! (p + k))" using t(3) k by simp
    moreover have "line ! (p + k) \<in> set line" using t(1) k by (intro nth_mem) simp
    moreover have "\<not> (\<exists>(p', t')\<in>set (tokenize line). p + k = p' + length t')"
      using at calculation(1) t(1) k by (fastforce simp: token_at_def)
    ultimately show ?thesis using terminate_nth(2) [of "p + k" "line @ [0]" "tokenize line"] lk t(1) k assms
      by (auto simp: nth_append)
  qed
  moreover have "?l ! (p + length t) = 0"
    using terminate_nth(2) [of "p + length t" "line @ [0]" "tokenize line"] t(1) 2 pt by auto
  ultimately show ?case using t(1) terminate_nth(1) [of "tokenize line" "line @ [0]"]
    by (simp add: pt) (rule string_at, auto)
qed

theorem shell_tokens_witness:
  "map snd (tokenize (cstr ''  ls /bin'')) = [cstr ''ls'', cstr ''/bin''] \<and>
   takeWhile (\<lambda>b. b \<noteq> 0) (drop 2 (terminate (tokenize (cstr ''  ls /bin'')) (cstr ''  ls /bin'' @ [0]))) = cstr ''ls''"
proof -
  have w: "take SHELL_MAX_ARGS (line_words (cstr ''  ls /bin'')) = [cstr ''ls'', cstr ''/bin'']"
    and m: "(2, cstr ''ls'') \<in> set (tokenize (cstr ''  ls /bin''))" and z: "0 \<notin> set (cstr ''  ls /bin'')"
    by code_simp+
  show ?thesis using shell_tokens [OF z] w m by fastforce
qed

subsection \<open>Output\<close>

definition console_text :: "bool \<Rightarrow> cstring \<Rightarrow> u8 list" where
  "console_text con s = concat (map (\<lambda>c. if c = 10 \<and> con then [13, 10] else [c]) s)"

text \<open>\<open>shell_puts\<close> writes the text, with each newline preceded by a carriage return on the console, in pieces
  of at most 64 bytes.\<close>

lemma puts_chunks_text:
  "0 \<notin> set s \<Longrightarrow> length buf < 64 \<Longrightarrow>
   concat (puts_chunks con s buf) = buf @ console_text con s \<and> (\<forall>x\<in>set (puts_chunks con s buf). 0 < length x \<and> length x \<le> 64)"
proof (induction s arbitrary: buf)
  case (Cons c s)
  define b where "b = (if c = 10 \<and> con then [] else buf) @ [c]"
  define out where "out = (if c = 10 \<and> con then (if buf = [] then [] else [buf]) @ [[13]] else [])"
  define rest where "rest = (if length b \<ge> 64 then b # puts_chunks con s [] else puts_chunks con s b)"
  have c0: "c \<noteq> 0" "0 \<notin> set s" using Cons.prems(1) by simp_all
  then have eq: "puts_chunks con (c # s) buf = out @ rest" by (simp only: puts_chunks.simps b_def out_def rest_def Let_def if_False)
  have b: "0 < length b" "length b \<le> 64" using Cons.prems(2) by (simp_all add: b_def)
  have "concat rest = b @ console_text con s \<and> (\<forall>x\<in>set rest. 0 < length x \<and> length x \<le> 64)"
  proof (cases "length b \<ge> 64")
    case True
    then show ?thesis using Cons.IH [OF c0(2), of "[]"] b by (auto simp: rest_def)
  next
    case False
    then show ?thesis using Cons.IH [OF c0(2), of b] by (simp add: rest_def)
  qed
  moreover have "concat out @ b = buf @ (if c = 10 \<and> con then [13, 10] else [c])" by (auto simp: out_def b_def)
  moreover have "\<forall>x\<in>set out. 0 < length x \<and> length x \<le> 64" using Cons.prems(2) by (auto simp: out_def)
  moreover have "console_text con (c # s) = (if c = 10 \<and> con then [13, 10] else [c]) @ console_text con s" by (simp add: console_text_def)
  ultimately show ?case unfolding eq by (metis (no_types, lifting) Un_iff append.assoc concat_append set_append)
qed (auto simp: console_text_def)

text \<open>The console driver inserts the carriage return itself, so a newline of the shell arrives as two carriage
  returns and a line feed.\<close>

lemma shell_newline_doubled: "crlf (console_text True [10]) = [13, 13, 10]"
  by (simp add: console_text_def crlf_def)

subsection \<open>The line editor\<close>

text \<open>Memory that user code may use: a store to a byte of the user window changes that byte.\<close>

locale user_memory =
  fixes M :: "'w machine" and ok :: "'w \<Rightarrow> bool"
  assumes store_byte: "ok w \<Longrightarrow> in_window a \<Longrightarrow> ok (st8 M a b w) \<and> stored M in_window a 0 [b] w (st8 M a b w)"
begin

lemma store_one:
  assumes "ok (uworld (sh_proc s))" "in_window a"
  shows "\<exists>s'. store M a [b] s = Some ((), s') \<and> ok (uworld (sh_proc s')) \<and> lb_pos s' = lb_pos s \<and>
    (\<forall>x. in_window x \<longrightarrow> ld8 M x (uworld (sh_proc s')) = (if x = a then b else ld8 M x (uworld (sh_proc s))))"
proof -
  have "unat (x - a) = 0 \<longleftrightarrow> x = a" for x by (simp add: unat_eq_0)
  then show ?thesis using store_byte [OF assms, of b] by (simp add: store_def stored_def)
qed

text \<open>The line buffer holds a line: its bytes, the terminator and the position.\<close>

definition holds_line :: "shell_env \<Rightarrow> cstring \<Rightarrow> 'w shell \<Rightarrow> bool" where
  "holds_line E line s \<longleftrightarrow> length line < 128 \<and> fits (a_line E) 128 \<and> lb_pos s = of_nat (length line) \<and> ok (uworld (sh_proc s)) \<and>
     (\<forall>i<length line. ld8 M (a_line E + of_nat i) (uworld (sh_proc s)) = line ! i) \<and>
     ld8 M (a_line E + of_nat (length line)) (uworld (sh_proc s)) = 0"

lemma line_addr:
  assumes "fits (a_line E) 128" "i < 128"
  shows "in_window (a_line E + of_nat i)" "j < 128 \<Longrightarrow> a_line E + of_nat i = a_line E + of_nat j \<longleftrightarrow> i = j"
proof -
  have u: "unat (of_nat n :: u32) = n" if "n < 128" for n using that by (simp add: unat_of_nat take_bit_nat_eq_self)
  have "unat (a_line E) + i < 2 ^ 32" using assms by (simp add: fits_def)
  then have "unat (a_line E + of_nat i) = unat (a_line E) + i" using u [OF assms(2)] by (simp add: unat_add_lem [THEN iffD1])
  then show "in_window (a_line E + of_nat i)" using assms by (simp add: in_window_def fits_def)
  show "a_line E + of_nat i = a_line E + of_nat j \<longleftrightarrow> i = j" if "j < 128"
    using u [OF assms(2)] u [OF that] by (metis add_left_cancel)
qed

lemma init_empty:
  assumes "fits (a_line E) 128" "ok (uworld (sh_proc s))"
  shows "\<exists>s'. line_buffer_init M E s = Some ((), s') \<and> holds_line E [] s'"
proof -
  obtain s' where "store M (a_line E) [0] (s\<lparr>lb_pos := 0\<rparr>) = Some ((), s')" "ok (uworld (sh_proc s'))" "lb_pos s' = 0"
    "\<forall>x. in_window x \<longrightarrow> ld8 M x (uworld (sh_proc s')) = (if x = a_line E then 0 else ld8 M x (uworld (sh_proc s)))"
    using store_one [of "s\<lparr>lb_pos := 0\<rparr>" "a_line E" 0] assms line_addr(1) [OF assms(1), of 0] by auto
  then show ?thesis using assms(1) line_addr(1) [OF assms(1), of 0] by (auto simp: line_buffer_init_def holds_line_def)
qed

lemma add_full:
  assumes "holds_line E line s" "length line = 127"
  shows "line_buffer_add M E c s = Some (- 1, s)"
  using assms by (simp add: line_buffer_add_def holds_line_def SHELL_LINE_BUFFER_SIZE_def)

lemma add_char:
  assumes h: "holds_line E line s" and n: "length line < 127"
  shows "\<exists>s'. line_buffer_add M E c s = Some (0, s') \<and> holds_line E (line @ [c]) s'"
proof -
  let ?n = "length line" and ?a = "\<lambda>i. a_line E + of_nat i :: u32"
  have f: "fits (a_line E) 128" and p: "lb_pos s = of_nat ?n" and w: "ok (uworld (sh_proc s))" using h by (simp_all add: holds_line_def)
  note addr = line_addr [OF f]
  obtain s1 where s1: "store M (?a ?n) [c] (s\<lparr>lb_pos := lb_pos s + 1\<rparr>) = Some ((), s1)" "ok (uworld (sh_proc s1))" "lb_pos s1 = lb_pos s + 1"
    "\<forall>x. in_window x \<longrightarrow> ld8 M x (uworld (sh_proc s1)) = (if x = ?a ?n then c else ld8 M x (uworld (sh_proc s)))"
    using store_one [of "s\<lparr>lb_pos := lb_pos s + 1\<rparr>" "?a ?n" c] w addr(1) [of ?n] n by auto
  obtain s2 where s2: "store M (?a (Suc ?n)) [0] s1 = Some ((), s2)" "ok (uworld (sh_proc s2))" "lb_pos s2 = lb_pos s1"
    "\<forall>x. in_window x \<longrightarrow> ld8 M x (uworld (sh_proc s2)) = (if x = ?a (Suc ?n) then 0 else ld8 M x (uworld (sh_proc s1)))"
    using store_one [of s1 "?a (Suc ?n)" 0] s1(2) addr(1) [of "Suc ?n"] n by auto
  have lt: "\<not> lb_pos s \<ge> SHELL_LINE_BUFFER_SIZE - 1"
    using n by (simp add: p SHELL_LINE_BUFFER_SIZE_def word_le_nat_alt unat_of_nat take_bit_nat_eq_self)
  have sum: "a_line E + (lb_pos s + 1) = ?a (Suc ?n)" "a_line E + lb_pos s = ?a ?n" by (simp_all add: p add.commute)
  have "line_buffer_add M E c s = Some (0, s2)"
    unfolding line_buffer_add_def if_not_P [OF lt] sum by (simp add: sbind_def sret_def s1(1) s2(1) del: of_nat_Suc)
  moreover have "ld8 M (?a i) (uworld (sh_proc s2)) = (line @ [c]) ! i" if "i < Suc ?n" for i
  proof -
    have i: "i < 128" "i \<noteq> Suc ?n" using that n by auto
    have "ld8 M (?a i) (uworld (sh_proc s2)) = (if i = ?n then c else ld8 M (?a i) (uworld (sh_proc s)))"
      using s1(4) s2(4) addr(1) [OF i(1)] addr(2) [OF i(1), of ?n] addr(2) [OF i(1), of "Suc ?n"] i(2) n by (simp del: of_nat_Suc)
    then show ?thesis using h that by (auto simp: holds_line_def nth_append less_Suc_eq)
  qed
  moreover have "ld8 M (?a (Suc ?n)) (uworld (sh_proc s2)) = 0" using s2(4) addr(1) [of "Suc ?n"] n by (simp del: of_nat_Suc)
  moreover have "lb_pos s2 = of_nat (Suc ?n)" using s1(3) s2(3) p by simp
  ultimately show ?thesis using f n s2(2) by (auto simp: holds_line_def simp del: of_nat_Suc)
qed

lemma backspace_char:
  assumes h: "holds_line E line s"
  shows "if line = [] then line_buffer_backspace M E s = Some (- 1, s)
    else \<exists>s'. line_buffer_backspace M E s = Some (0, s') \<and> holds_line E (butlast line) s'"
proof (cases "line = []")
  case False
  let ?n = "length line - 1" and ?a = "\<lambda>i. a_line E + of_nat i :: u32"
  have f: "fits (a_line E) 128" and p: "lb_pos s = of_nat (length line)" and w: "ok (uworld (sh_proc s))" and l: "length line < 128"
    using h by (simp_all add: holds_line_def)
  note addr = line_addr [OF f]
  have n: "lb_pos s - 1 = of_nat ?n" using False by (simp add: p of_nat_diff Suc_leI)
  have pos: "lb_pos s > 0" using False l by (simp add: p word_less_nat_alt unat_of_nat take_bit_nat_eq_self)
  obtain s1 where s1: "store M (?a ?n) [0] (s\<lparr>lb_pos := lb_pos s - 1\<rparr>) = Some ((), s1)" "ok (uworld (sh_proc s1))" "lb_pos s1 = lb_pos s - 1"
    "\<forall>x. in_window x \<longrightarrow> ld8 M x (uworld (sh_proc s1)) = (if x = ?a ?n then 0 else ld8 M x (uworld (sh_proc s)))"
    using store_one [of "s\<lparr>lb_pos := lb_pos s - 1\<rparr>" "?a ?n" 0] w addr(1) [of ?n] l by auto
  have "line_buffer_backspace M E s = Some (0, s1)"
    unfolding line_buffer_backspace_def if_P [OF pos] n [symmetric] using s1(1) n by (simp add: sbind_def sret_def)
  moreover have "ld8 M (?a i) (uworld (sh_proc s1)) = butlast line ! i" if "i < ?n" for i
  proof -
    have i: "i < 128" "i \<noteq> ?n" "?n < 128" using that l by auto
    then have "ld8 M (?a i) (uworld (sh_proc s1)) = ld8 M (?a i) (uworld (sh_proc s))"
      using s1(4) addr(1) [OF i(1)] addr(2) [OF i(1,3)] by simp
    then show ?thesis using h that by (simp add: holds_line_def nth_butlast)
  qed
  moreover have "ld8 M (?a ?n) (uworld (sh_proc s1)) = 0" using s1(4) addr(1) [of ?n] l by simp
  ultimately show ?thesis using False f l s1(2,3) n by (auto simp: holds_line_def)
qed (use h in \<open>simp add: holds_line_def line_buffer_backspace_def\<close>)

end

interpretation vinix_memory: user_memory "vinix B Ops E rest" "\<lambda>k. \<exists>base. maps_user (current_table E k) base"
  for B Ops E rest
proof (unfold_locales, goal_cases)
  case (1 k a b)
  then obtain base where m: "maps_user (current_table E k) base" by blast
  from user_mem_put [OF m]
  have "\<forall>va. in_window va \<longrightarrow> user_mem E (put_user_mem E (ustore a [b] (user_mem E k)) k) va = ustore a [b] (user_mem E k) va"
    by (simp add: in_window_def)
  then show ?case using stored_ustore m by (auto simp: vinix_def)
qed

end
