(* ===== verification/Bootloader.thy ===== *)
theory Bootloader
  imports Mmc_Props
begin

section \<open>The boot loader (\<open>bootloader/src/\<close>)\<close>

text \<open>
  The first program after the boot ROM: it sets the clocks and the memory controller, tests the memory,
  identifies the SD card, reads the kernel image into memory, looks at its first instruction and jumps to
  it.  The board is a parameter: the bus of \<open>Mmio\<close> with the store of a byte.  An operation gives \<open>None\<close>
  when one of its unbounded waits never ends, \<open>Inl\<close> with the world when it halts in \<open>panic\<close>, and
  otherwise its result with the next world.  Counting loops that touch no register are left out.  The
  command and data phases of the SD controller are those of the kernel driver (\<open>Mmc\<close>), which has the same
  register accesses; only what differs is defined here.
\<close>

record 'w board =
  regs :: "'w bus"
  writeb :: "u32 \<Rightarrow> u8 \<Rightarrow> 'w \<Rightarrow> 'w"

type_synonym ('w, 'a) bl = "'w \<Rightarrow> ('w + 'a \<times> 'w) option"

definition bret :: "'a \<Rightarrow> ('w, 'a) bl" where
  "bret x w = Some (Inr (x, w))"

definition bbind :: "('w, 'a) bl \<Rightarrow> ('a \<Rightarrow> ('w, 'b) bl) \<Rightarrow> ('w, 'b) bl" where
  "bbind m f w = (case m w of None \<Rightarrow> None | Some (Inl w') \<Rightarrow> Some (Inl w') | Some (Inr (x, w')) \<Rightarrow> f x w')"

abbreviation bseq :: "('w, 'a) bl \<Rightarrow> ('w, 'b) bl \<Rightarrow> ('w, 'b) bl" where
  "bseq m k \<equiv> bbind m (\<lambda>_. k)"

fun ball :: "('w, unit) bl list \<Rightarrow> ('w, unit) bl" where
  "ball [] = bret ()"
| "ball (m # ms) = bseq m (ball ms)"

text \<open>An operation that always comes back, and one that does not say more than its next world.\<close>

definition bdo :: "('w \<Rightarrow> 'a \<times> 'w) \<Rightarrow> ('w, 'a) bl" where
  "bdo f w = Some (Inr (f w))"

definition bstep :: "('w \<Rightarrow> 'w) \<Rightarrow> ('w, unit) bl" where
  "bstep f w = Some (Inr ((), f w))"

definition bhalt :: "('w, 'a) bl" where
  "bhalt w = Some (Inl w)"

text \<open>\<open>writel\<close>, \<open>writel(f(readl(a)), a)\<close>, and \<open>while (!ok(readl(a)));\<close>\<close>

definition writel :: "'w board \<Rightarrow> u32 \<Rightarrow> u32 \<Rightarrow> ('w, unit) bl" where
  "writel H v a = bstep (mmio_write32 (regs H) a v)"

definition modify :: "'w board \<Rightarrow> u32 \<Rightarrow> (u32 \<Rightarrow> u32) \<Rightarrow> ('w, unit) bl" where
  "modify H a f = bstep (mmc_modify (regs H) a f)"

partial_function (option) bl_poll :: "'w bus \<Rightarrow> u32 \<Rightarrow> (u32 \<Rightarrow> bool) \<Rightarrow> 'w \<Rightarrow> 'w option" where
  "bl_poll B a ok w = (case mmio_read32 B a w of (v, w') \<Rightarrow> if ok v then Some w' else bl_poll B a ok w')"

definition await :: "'w board \<Rightarrow> u32 \<Rightarrow> (u32 \<Rightarrow> bool) \<Rightarrow> ('w, unit) bl" where
  "await H a ok w = map_option (\<lambda>w'. Inr ((), w')) (bl_poll (regs H) a ok w)"

subsection \<open>Registers (\<open>am335x.h\<close>)\<close>

definition DDR_BASE :: u32 where [vx_consts]: "DDR_BASE = 0x80000000"
definition CONF_UART0_RXD :: u32 where [vx_consts]: "CONF_UART0_RXD = 0x44E10970"
definition CONF_UART0_TXD :: u32 where [vx_consts]: "CONF_UART0_TXD = 0x44E10974"
definition CM_PER_L4LS_CLKSTCTRL_boot :: u32 where [vx_consts]: "CM_PER_L4LS_CLKSTCTRL_boot = 0x44E00000"
definition CM_PER_L3_CLKSTCTRL :: u32 where [vx_consts]: "CM_PER_L3_CLKSTCTRL = 0x44E00004"
definition CM_PER_L4FW_CLKSTCTRL :: u32 where [vx_consts]: "CM_PER_L4FW_CLKSTCTRL = 0x44E00008"
definition CM_PER_EMIF_CLKCTRL :: u32 where [vx_consts]: "CM_PER_EMIF_CLKCTRL = 0x44E00028"
definition CM_WKUP_UART0_CLKCTRL :: u32 where [vx_consts]: "CM_WKUP_UART0_CLKCTRL = 0x44E004B4"
definition CM_CLKMODE_DPLL_DDR :: u32 where [vx_consts]: "CM_CLKMODE_DPLL_DDR = 0x44E00594"
definition CM_IDLEST_DPLL_DDR :: u32 where [vx_consts]: "CM_IDLEST_DPLL_DDR = 0x44E00534"
definition CM_CLKSEL_DPLL_DDR :: u32 where [vx_consts]: "CM_CLKSEL_DPLL_DDR = 0x44E00540"
definition CM_DIV_M2_DPLL_DDR :: u32 where [vx_consts]: "CM_DIV_M2_DPLL_DDR = 0x44E005A0"
definition CM_DIV_M5_DPLL_CORE :: u32 where [vx_consts]: "CM_DIV_M5_DPLL_CORE = 0x44E00584"
definition DPLL_MN_BYP_MODE :: u32 where [vx_consts]: "DPLL_MN_BYP_MODE = 4"
definition DPLL_LOCK_MODE :: u32 where [vx_consts]: "DPLL_LOCK_MODE = 7"
definition MODULE_ENABLE :: u32 where [vx_consts]: "MODULE_ENABLE = 2"
definition UART0_THR :: u32 where [vx_consts]: "UART0_THR = 0x44E09000"
definition UART0_RHR :: u32 where [vx_consts]: "UART0_RHR = 0x44E09000"
definition UART0_DLL :: u32 where [vx_consts]: "UART0_DLL = 0x44E09000"
definition UART0_DLH :: u32 where [vx_consts]: "UART0_DLH = 0x44E09004"
definition UART0_FCR :: u32 where [vx_consts]: "UART0_FCR = 0x44E09008"
definition UART0_LCR :: u32 where [vx_consts]: "UART0_LCR = 0x44E0900C"
definition UART0_LSR :: u32 where [vx_consts]: "UART0_LSR = 0x44E09014"
definition UART0_MDR1 :: u32 where [vx_consts]: "UART0_MDR1 = 0x44E09020"
definition UART_LSR_RXFIFOE :: u32 where [vx_consts]: "UART_LSR_RXFIFOE = 1"
definition UART_LSR_TXFIFOE :: u32 where [vx_consts]: "UART_LSR_TXFIFOE = 0x20"
definition UART_LSR_TEMT :: u32 where [vx_consts]: "UART_LSR_TEMT = 0x40"
definition UART_16X_MODE :: u32 where [vx_consts]: "UART_16X_MODE = 0"
definition UART_DISABLE :: u32 where [vx_consts]: "UART_DISABLE = 7"
definition UART_LCR_BAUD_SETUP :: u32 where [vx_consts]: "UART_LCR_BAUD_SETUP = 0x83"
definition UART_LCR_8N1 :: u32 where [vx_consts]: "UART_LCR_8N1 = 3"
definition EMIF_SDRAM_CONFIG :: u32 where [vx_consts]: "EMIF_SDRAM_CONFIG = 0x4C000008"
definition EMIF_SDRAM_REF_CTRL :: u32 where [vx_consts]: "EMIF_SDRAM_REF_CTRL = 0x4C000010"
definition EMIF_SDRAM_TIM_1 :: u32 where [vx_consts]: "EMIF_SDRAM_TIM_1 = 0x4C000018"
definition EMIF_SDRAM_TIM_2 :: u32 where [vx_consts]: "EMIF_SDRAM_TIM_2 = 0x4C000020"
definition EMIF_SDRAM_TIM_3 :: u32 where [vx_consts]: "EMIF_SDRAM_TIM_3 = 0x4C000028"
definition EMIF_DDR_PHY_CTRL_1 :: u32 where [vx_consts]: "EMIF_DDR_PHY_CTRL_1 = 0x4C0000E4"
definition EMIF_DDR_PHY_CTRL_2 :: u32 where [vx_consts]: "EMIF_DDR_PHY_CTRL_2 = 0x4C0000EC"
definition DDR_IO_CTRL :: u32 where [vx_consts]: "DDR_IO_CTRL = 0x44E10E04"
definition VTP_CTRL :: u32 where [vx_consts]: "VTP_CTRL = 0x44E10E0C"
definition DDR_CKE_CTRL :: u32 where [vx_consts]: "DDR_CKE_CTRL = 0x44E1131C"
definition DDR_DATA0_IOCTRL :: u32 where [vx_consts]: "DDR_DATA0_IOCTRL = 0x44E11440"
definition DDR_DATA1_IOCTRL :: u32 where [vx_consts]: "DDR_DATA1_IOCTRL = 0x44E11444"
definition DDR_CMD0_SLAVE_RATIO_0 :: u32 where [vx_consts]: "DDR_CMD0_SLAVE_RATIO_0 = 0x44E10C1C"
definition DDR_CMD0_INVERT_CLKOUT_0 :: u32 where [vx_consts]: "DDR_CMD0_INVERT_CLKOUT_0 = 0x44E10C2C"
definition DDR_CMD1_SLAVE_RATIO_0 :: u32 where [vx_consts]: "DDR_CMD1_SLAVE_RATIO_0 = 0x44E10C50"
definition DDR_CMD1_INVERT_CLKOUT_0 :: u32 where [vx_consts]: "DDR_CMD1_INVERT_CLKOUT_0 = 0x44E10C60"
definition DDR_CMD2_SLAVE_RATIO_0 :: u32 where [vx_consts]: "DDR_CMD2_SLAVE_RATIO_0 = 0x44E10C84"
definition DDR_CMD2_INVERT_CLKOUT_0 :: u32 where [vx_consts]: "DDR_CMD2_INVERT_CLKOUT_0 = 0x44E10C94"
definition DDR_DATA0_RD_DQS_SLAVE_RATIO_0 :: u32 where [vx_consts]: "DDR_DATA0_RD_DQS_SLAVE_RATIO_0 = 0x44E10CC8"
definition DDR_DATA0_WR_DQS_SLAVE_RATIO_0 :: u32 where [vx_consts]: "DDR_DATA0_WR_DQS_SLAVE_RATIO_0 = 0x44E10CD4"
definition DDR_DATA0_FIFO_WE_SLAVE_RATIO_0 :: u32 where [vx_consts]: "DDR_DATA0_FIFO_WE_SLAVE_RATIO_0 = 0x44E10CD8"
definition DDR_DATA0_WR_DATA_SLAVE_RATIO_0 :: u32 where [vx_consts]: "DDR_DATA0_WR_DATA_SLAVE_RATIO_0 = 0x44E10CDC"
definition DDR_DATA0_GATE_LEVEL_INIT_RATIO_0 :: u32 where [vx_consts]: "DDR_DATA0_GATE_LEVEL_INIT_RATIO_0 = 0x44E10CE4"
definition DDR_DATA1_RD_DQS_SLAVE_RATIO_0 :: u32 where [vx_consts]: "DDR_DATA1_RD_DQS_SLAVE_RATIO_0 = 0x44E10D0C"
definition DDR_DATA1_WR_DQS_SLAVE_RATIO_0 :: u32 where [vx_consts]: "DDR_DATA1_WR_DQS_SLAVE_RATIO_0 = 0x44E10D18"
definition DDR_DATA1_FIFO_WE_SLAVE_RATIO_0 :: u32 where [vx_consts]: "DDR_DATA1_FIFO_WE_SLAVE_RATIO_0 = 0x44E10D1C"
definition DDR_DATA1_WR_DATA_SLAVE_RATIO_0 :: u32 where [vx_consts]: "DDR_DATA1_WR_DATA_SLAVE_RATIO_0 = 0x44E10D20"
definition DDR_DATA1_GATE_LEVEL_INIT_RATIO_0 :: u32 where [vx_consts]: "DDR_DATA1_GATE_LEVEL_INIT_RATIO_0 = 0x44E10D28"
definition WDT1_WSPR :: u32 where [vx_consts]: "WDT1_WSPR = 0x44E35048"
definition WDT1_WWPS :: u32 where [vx_consts]: "WDT1_WWPS = 0x44E35034"

subsection \<open>Console (\<open>uart.c\<close>)\<close>

definition bl_uart_flush :: "'w board \<Rightarrow> ('w, unit) bl" where
  "bl_uart_flush H = await H UART0_LSR (\<lambda>v. v AND UART_LSR_TEMT \<noteq> 0)"

fun drain_rx :: "'w board \<Rightarrow> nat \<Rightarrow> ('w, unit) bl" where
  "drain_rx H 0 = bret ()"
| "drain_rx H (Suc n) = bbind (bdo (mmio_read32 (regs H) UART0_LSR)) (\<lambda>v.
     if v AND UART_LSR_RXFIFOE \<noteq> 0 then bseq (bdo (mmio_read32 (regs H) UART0_RHR)) (drain_rx H n) else bret ())"

definition bl_uart_init :: "'w board \<Rightarrow> ('w, unit) bl" where
  "bl_uart_init H = (let divisor = 26 in ball [
     writel H 2 CM_WKUP_UART0_CLKCTRL, await H CM_WKUP_UART0_CLKCTRL (\<lambda>v. v AND 3 = 2),
     writel H 0x30 CONF_UART0_RXD, writel H 0x10 CONF_UART0_TXD,
     writel H UART_DISABLE UART0_MDR1, writel H 7 UART0_FCR, drain_rx H 16,
     writel H UART_LCR_BAUD_SETUP UART0_LCR,
     writel H (divisor AND 0xFF) UART0_DLL, writel H (drop_bit 8 divisor AND 0xFF) UART0_DLH,
     writel H UART_LCR_8N1 UART0_LCR, writel H 7 UART0_FCR, writel H UART_16X_MODE UART0_MDR1,
     bl_uart_flush H])"

definition bl_send_byte :: "'w board \<Rightarrow> u8 \<Rightarrow> ('w, unit) bl" where
  "bl_send_byte H c = ball [await H UART0_LSR (\<lambda>v. v AND UART_LSR_TXFIFOE \<noteq> 0), bstep (writeb H UART0_THR c),
     await H UART0_LSR (\<lambda>v. v AND UART_LSR_TXFIFOE \<noteq> 0)]"

definition bl_uart_putc :: "'w board \<Rightarrow> u8 \<Rightarrow> ('w, unit) bl" where
  "bl_uart_putc H c = bseq (if c = 10 then bl_send_byte H 13 else bret ()) (bl_send_byte H c)"

fun bl_uart_puts :: "'w board \<Rightarrow> cstring \<Rightarrow> ('w, unit) bl" where
  "bl_uart_puts H [] = bret ()"
| "bl_uart_puts H (c # cs) = (if c = 0 then bret () else bseq (bl_uart_putc H c) (bl_uart_puts H cs))"

definition hex_digits :: cstring where
  "hex_digits = cstr ''0123456789ABCDEF''"

definition bl_uart_print_hex :: "'w board \<Rightarrow> u32 \<Rightarrow> ('w, unit) bl" where
  "bl_uart_print_hex H val = bseq (bl_uart_puts H (cstr ''0x''))
     (ball (map (\<lambda>i. bl_uart_putc H (hex_digits ! unat (drop_bit i val AND 0xF))) [28, 24, 20, 16, 12, 8, 4, 0]))"

abbreviation bputs :: "'w board \<Rightarrow> string \<Rightarrow> ('w, unit) bl" where
  "bputs H txt \<equiv> bl_uart_puts H (cstr txt)"

abbreviation bputln :: "'w board \<Rightarrow> string \<Rightarrow> ('w, unit) bl" where
  "bputln H txt \<equiv> bl_uart_puts H (cstr txt @ [13, 10])"

subsection \<open>Halting (\<open>main.c\<close>)\<close>

definition bl_panic :: "'w board \<Rightarrow> string \<Rightarrow> ('w, 'a) bl" where
  "bl_panic H msg = bseq (ball [bl_uart_puts H ([13, 10] @ cstr ''PANIC: ''), bputs H msg, bl_uart_puts H ([13, 10] @ cstr ''SYSTEM HALTED.'' @ [13, 10])]) bhalt"

definition c_prefetch_abort_handler :: "'w board \<Rightarrow> u32 \<Rightarrow> u32 \<Rightarrow> ('w, unit) bl" where
  "c_prefetch_abort_handler H ifsr ifar = bseq (ball [bl_uart_puts H ([13, 10] @ cstr ''========================================'' @ [13, 10]),
     bputln H ''PANIC: PREFETCH ABORT EXCEPTION!'',
     bputs H ''IFSR (Instruction Fault Status): '', bl_uart_print_hex H ifsr, bputln H '''',
     bputs H ''IFAR (Instruction Fault Address): '', bl_uart_print_hex H ifar, bputln H '''',
     bputln H ''SYSTEM HALTED.'']) bhalt"

definition abort_cause :: "u32 \<Rightarrow> string" where
  "abort_cause dfar = (if dfar \<ge> 0x44E00000 \<and> dfar \<le> 0x44E0FFFF then ''Peripheral access without clock enable''
     else if dfar \<ge> 0x4C000000 \<and> dfar \<le> 0x4C000FFF then ''DDR controller access before initialization''
     else ''Memory access violation'')"

definition c_data_abort_handler :: "'w board \<Rightarrow> u32 \<Rightarrow> u32 \<Rightarrow> ('w, unit) bl" where
  "c_data_abort_handler H dfsr dfar = bseq (ball [bl_uart_puts H ([13, 10] @ cstr ''========================================'' @ [13, 10]),
     bputln H ''PANIC: DATA ABORT EXCEPTION!'',
     bputs H ''DFAR (Fault Address): 0x'', bl_uart_print_hex H dfar, bputln H '''',
     bputs H ''DFSR (Status): 0x'', bl_uart_print_hex H dfsr, bputln H '''',
     bputs H ''Possible Cause: '', bputs H (abort_cause dfar),
     bl_uart_puts H ([13, 10] @ cstr ''SYSTEM HALTED.'' @ [13, 10])]) bhalt"

definition c_undef_handler :: "'w board \<Rightarrow> u32 \<Rightarrow> u32 \<Rightarrow> ('w, unit) bl" where
  "c_undef_handler H ifsr ifar = bseq (ball [bl_uart_puts H ([13, 10] @ cstr ''========================================'' @ [13, 10]),
     bputln H ''PANIC: UNDEFINED INSTRUCTION!'',
     bputs H ''IFAR (Fault PC): 0x'', bl_uart_print_hex H ifar, bputln H '''',
     bputs H ''IFSR (Status):   0x'', bl_uart_print_hex H ifsr, bputln H '''',
     bputln H ''SYSTEM HALTED.'']) bhalt"

subsection \<open>Clocks (\<open>clock.c\<close>)\<close>

definition ddr_clksel :: "u32 \<Rightarrow> u32" where
  "ddr_clksel v = (v AND NOT 0x7FFFF) OR (push_bit 8 400 OR 23)"

definition config_ddr_pll :: "'w board \<Rightarrow> ('w, unit) bl" where
  "config_ddr_pll H = ball [
     modify H CM_CLKMODE_DPLL_DDR (\<lambda>v. (v AND NOT 7) OR DPLL_MN_BYP_MODE),
     bseq (bdo (wait_set (regs H) CM_IDLEST_DPLL_DDR 0x100 10000)) (bret ()),
     modify H CM_CLKSEL_DPLL_DDR ddr_clksel,
     modify H CM_DIV_M2_DPLL_DDR (\<lambda>v. (v AND NOT 0x1F) OR 1),
     modify H CM_CLKMODE_DPLL_DDR (\<lambda>v. (v AND NOT 7) OR DPLL_LOCK_MODE),
     bseq (bdo (wait_set (regs H) CM_IDLEST_DPLL_DDR 1 10000)) (bret ())]"

definition enable_peripheral_clocks :: "'w board \<Rightarrow> ('w, unit) bl" where
  "enable_peripheral_clocks H = ball [
     writel H MODULE_ENABLE CM_PER_EMIF_CLKCTRL, await H CM_PER_EMIF_CLKCTRL (\<lambda>v. v AND 0x30000 = 0),
     writel H MODULE_ENABLE CM_PER_MMC0_CLKCTRL, await H CM_PER_MMC0_CLKCTRL (\<lambda>v. v AND 0x30000 = 0),
     writel H MODULE_ENABLE CM_WKUP_UART0_CLKCTRL, await H CM_WKUP_UART0_CLKCTRL (\<lambda>v. v AND 0x30000 = 0),
     writel H (push_bit 9 1 OR 8) CM_DIV_M5_DPLL_CORE]"

definition clock_init :: "'w board \<Rightarrow> ('w, unit) bl" where
  "clock_init H = bseq (config_ddr_pll H) (enable_peripheral_clocks H)"

subsection \<open>Memory controller (\<open>ddr.c\<close>)\<close>

definition EMIF_TIM1 :: u32 where [vx_consts]: "EMIF_TIM1 = 0x0AAAE51B"
definition EMIF_TIM2 :: u32 where [vx_consts]: "EMIF_TIM2 = 0x266B7FDA"
definition EMIF_TIM3 :: u32 where [vx_consts]: "EMIF_TIM3 = 0x501F867F"
definition EMIF_REF_CTRL :: u32 where [vx_consts]: "EMIF_REF_CTRL = 0xC30"
definition EMIF_CFG :: u32 where [vx_consts]: "EMIF_CFG = 0x61C05332"
definition DDR_PHY_CTRL :: u32 where [vx_consts]: "DDR_PHY_CTRL = 0x100007"
definition DDR_IO_CTRL_VAL :: u32 where [vx_consts]: "DDR_IO_CTRL_VAL = 0x18B"
definition VTP_CTRL_ENABLE :: u32 where [vx_consts]: "VTP_CTRL_ENABLE = 0x40"
definition VTP_CTRL_READY :: u32 where [vx_consts]: "VTP_CTRL_READY = 0x20"

definition ddr_init :: "'w board \<Rightarrow> ('w, unit) bl" where
  "ddr_init H = ball [bl_uart_putc H 54,
     modify H VTP_CTRL (\<lambda>v. v AND NOT VTP_CTRL_ENABLE), modify H VTP_CTRL (\<lambda>v. v OR VTP_CTRL_ENABLE),
     bseq (bdo (wait_set (regs H) VTP_CTRL VTP_CTRL_READY 10000)) (bret ()),
     bl_uart_putc H 118, bl_uart_putc H 55,
     writel H DDR_IO_CTRL_VAL DDR_IO_CTRL, writel H DDR_IO_CTRL_VAL DDR_DATA0_IOCTRL, writel H DDR_IO_CTRL_VAL DDR_DATA1_IOCTRL,
     writel H 1 DDR_CKE_CTRL,
     writel H 0x80 DDR_CMD0_SLAVE_RATIO_0, writel H 0x80 DDR_CMD1_SLAVE_RATIO_0, writel H 0x80 DDR_CMD2_SLAVE_RATIO_0,
     writel H 0 DDR_CMD0_INVERT_CLKOUT_0, writel H 0 DDR_CMD1_INVERT_CLKOUT_0, writel H 0 DDR_CMD2_INVERT_CLKOUT_0,
     writel H 0x38 DDR_DATA0_RD_DQS_SLAVE_RATIO_0, writel H 0x44 DDR_DATA0_WR_DQS_SLAVE_RATIO_0,
     writel H 0x94 DDR_DATA0_FIFO_WE_SLAVE_RATIO_0, writel H 0x7D DDR_DATA0_WR_DATA_SLAVE_RATIO_0,
     writel H 0 DDR_DATA0_GATE_LEVEL_INIT_RATIO_0,
     writel H 0x38 DDR_DATA1_RD_DQS_SLAVE_RATIO_0, writel H 0x44 DDR_DATA1_WR_DQS_SLAVE_RATIO_0,
     writel H 0x94 DDR_DATA1_FIFO_WE_SLAVE_RATIO_0, writel H 0x7D DDR_DATA1_WR_DATA_SLAVE_RATIO_0,
     writel H 0 DDR_DATA1_GATE_LEVEL_INIT_RATIO_0,
     writel H DDR_PHY_CTRL EMIF_DDR_PHY_CTRL_1, writel H DDR_PHY_CTRL EMIF_DDR_PHY_CTRL_2,
     writel H EMIF_TIM1 EMIF_SDRAM_TIM_1, writel H EMIF_TIM2 EMIF_SDRAM_TIM_2, writel H EMIF_TIM3 EMIF_SDRAM_TIM_3,
     writel H EMIF_REF_CTRL EMIF_SDRAM_REF_CTRL, writel H EMIF_CFG EMIF_SDRAM_CONFIG,
     bl_uart_putc H 57,
     writel H EMIF_REF_CTRL EMIF_SDRAM_REF_CTRL]"

definition ddr_addr :: "nat \<Rightarrow> u32" where
  "ddr_addr i = DDR_BASE + 4 * of_nat i"

definition ddr_word :: "'w board \<Rightarrow> 'w \<Rightarrow> nat \<Rightarrow> u32" where
  "ddr_word H w i = rd32 (mem_load (regs H) (ddr_addr i) 4 w) 0"

definition ddr_fill :: "'w board \<Rightarrow> u32 \<Rightarrow> 'w \<Rightarrow> 'w" where
  "ddr_fill H pattern w = fold (\<lambda>i. mem_store (regs H) (ddr_addr i) (le32 pattern)) [0..<1024] w"

text \<open>The first word that does not show the pattern.\<close>

definition ddr_bad :: "'w board \<Rightarrow> u32 \<Rightarrow> 'w \<Rightarrow> nat option" where
  "ddr_bad H pattern w = List.find (\<lambda>i. ddr_word H w i \<noteq> pattern) [0..<1024]"

definition ddr_test :: "'w board \<Rightarrow> ('w, int) bl" where
  "ddr_test H = bseq (bl_uart_putc H 84) (bseq (bstep (ddr_fill H 0xAA55AA55)) (\<lambda>w. case ddr_bad H 0xAA55AA55 w of
     Some i \<Rightarrow> bseq (ball [bl_uart_puts H ([13, 10] @ cstr ''FAIL P1 @ ''), bl_uart_print_hex H (ddr_addr i),
         bputs H '': R='', bl_uart_print_hex H (ddr_word H w i), bputs H '' E='', bl_uart_print_hex H 0xAA55AA55]) (bret (- 1)) w
   | None \<Rightarrow> bseq (bl_uart_putc H 46) (bseq (bstep (ddr_fill H 0x55AA55AA)) (\<lambda>w. case ddr_bad H 0x55AA55AA w of
       Some i \<Rightarrow> bseq (ball [bl_uart_puts H ([13, 10] @ cstr ''FAIL P2 @ ''), bl_uart_print_hex H (ddr_addr i),
           bputs H '': R='', bl_uart_print_hex H (ddr_word H w i)]) (bret (- 1)) w
     | None \<Rightarrow> bseq (bl_uart_putc H 75) (bret 0) w)) w))"

subsection \<open>SD card (\<open>mmc.c\<close>)\<close>

text \<open>\<open>while (!ok(readl(a))) if (--timeout == 0) { uart_puts(msg); return -1; }\<close>, followed by \<open>k\<close>.\<close>

definition wait_or :: "'w board \<Rightarrow> u32 \<Rightarrow> (u32 \<Rightarrow> bool) \<Rightarrow> nat \<Rightarrow> cstring \<Rightarrow> ('w, int \<times> bool) bl \<Rightarrow> ('w, int \<times> bool) bl" where
  "wait_or H a ok timeout msg k = bbind (bdo (mmc_wait (regs H) a ok timeout)) (\<lambda>r.
     if r then k else bseq (bl_uart_puts H msg) (bret (- 1, False)))"

definition bl_mmc_send_cmd :: "'w board \<Rightarrow> u32 \<Rightarrow> u32 \<Rightarrow> u32 \<Rightarrow> ('w, int) bl" where
  "bl_mmc_send_cmd H cmd arg flags = bdo (mmc_send_cmd (regs H) cmd arg flags)"

fun bl_op_cond :: "'w board \<Rightarrow> nat \<Rightarrow> ('w, bool) bl" where
  "bl_op_cond H 0 = bret False"
| "bl_op_cond H (Suc n) = bbind (bl_mmc_send_cmd H 55 0 MMC_RSP_R1) (\<lambda>r. if r \<noteq> 0 then bl_op_cond H n else
     bbind (bl_mmc_send_cmd H 41 0x40300000 MMC_RSP_R3) (\<lambda>r. if r \<noteq> 0 then bl_op_cond H n else
     bbind (bdo (mmio_read32 (regs H) MMC_RSP10)) (\<lambda>v.
       if v AND 0x80000000 \<noteq> 0 then bbind (bdo (mmio_read32 (regs H) MMC_RSP10)) (\<lambda>v. bret (v AND 0x40000000 \<noteq> 0))
       else bl_op_cond H n)))"

definition bl_mmc_identify :: "'w board \<Rightarrow> ('w, bool) bl" where
  "bl_mmc_identify H =
     bseq (bl_mmc_send_cmd H 0 0 MMC_RSP_NONE) (bseq (bl_mmc_send_cmd H 8 0x1AA MMC_RSP_R7)
     (bbind (bl_op_cond H 2000) (\<lambda>sdhc_card.
     bseq (bl_mmc_send_cmd H 2 0 MMC_RSP_R2) (bseq (bl_mmc_send_cmd H 3 0 MMC_RSP_R6)
     (bbind (bdo (mmio_read32 (regs H) MMC_RSP10)) (\<lambda>rsp. let rca = drop_bit 16 rsp AND 0xFFFF in
     bseq (bl_mmc_send_cmd H 9 (push_bit 16 rca) MMC_RSP_R2) (bseq (bl_mmc_send_cmd H 7 (push_bit 16 rca) MMC_RSP_R1b)
     (bret sdhc_card))))))))"

definition bl_mmc_init :: "'w board \<Rightarrow> ('w, int \<times> bool) bl" where
  "bl_mmc_init H =
     bseq (bl_uart_putc H 97) (bseq (ball [writel H MMC_PIN CONF_MMC0_DAT3, writel H MMC_PIN CONF_MMC0_DAT2, writel H MMC_PIN CONF_MMC0_DAT1,
       writel H MMC_PIN CONF_MMC0_DAT0, writel H MMC_PIN CONF_MMC0_CLK, writel H MMC_PIN CONF_MMC0_CMD, writel H 2 MMC_SYSCONFIG])
     (wait_or H MMC_SYSSTATUS (\<lambda>v. v AND 1 \<noteq> 0) 1000000 (cstr ''MMC:    Timeout waiting for SYSSTATUS reset'' @ [13, 10])
     (bseq (ball [writel H 0x308 MMC_SYSCONFIG, writel H 0 MMC_CON, modify H MMC_SYSCTL (\<lambda>v. v OR MMC_SYSCTL_SRC OR MMC_SYSCTL_SRD)])
     (wait_or H MMC_SYSCTL (\<lambda>v. v AND (MMC_SYSCTL_SRC OR MMC_SYSCTL_SRD) = 0) 10000000 []
     (bseq (ball [modify H MMC_CAPA (\<lambda>v. v OR 0x1000000), writel H MMC_HCTL_SDVS_3_3V MMC_HCTL, modify H MMC_HCTL (\<lambda>v. v OR MMC_HCTL_SDBP)])
     (wait_or H MMC_HCTL (\<lambda>v. v AND MMC_HCTL_SDBP \<noteq> 0) 100000 (cstr ''MMC:    Failed to enable bus power (SDBP)'' @ [13, 10])
     (bseq (writel H 0xE3C01 MMC_SYSCTL)
     (wait_or H MMC_SYSCTL (\<lambda>v. v AND MMC_SYSCTL_ICS \<noteq> 0) 1000000 (cstr ''MMC:    Timeout waiting for Internal Clock Stable'' @ [13, 10])
     (bseq (ball [modify H MMC_SYSCTL (\<lambda>v. v OR MMC_SYSCTL_CEN), writel H 0xFFFFFFFF MMC_IE, writel H 0xFFFFFFFF MMC_ISE,
       writel H 0xFFFFFFFF MMC_STAT, modify H MMC_CON (\<lambda>v. v OR 2), writel H 0 MMC_CMD])
     (wait_or H MMC_STAT (\<lambda>v. v AND 1 \<noteq> 0) 1000000 (cstr ''MMC:    Timeout waiting for 80-clock init'' @ [13, 10])
     (bseq (ball [writel H 1 MMC_STAT, modify H MMC_CON (\<lambda>v. v AND NOT 2), writel H 0xFFFFFFFF MMC_STAT])
     (bbind (bl_mmc_identify H) (\<lambda>sdhc_card.
     bseq (ball [modify H MMC_SYSCTL (\<lambda>v. (v AND NOT 0xF0000) OR 0xE0000), modify H MMC_SYSCTL (\<lambda>v. v AND NOT 4),
       modify H MMC_SYSCTL (\<lambda>v. (v AND NOT 0xFFC0) OR 0x100)])
     (wait_or H MMC_SYSCTL (\<lambda>v. v AND 2 \<noteq> 0) 1000000 []
     (bseq (modify H MMC_SYSCTL (\<lambda>v. v OR 4)) (bseq (bl_mmc_send_cmd H 16 512 MMC_RSP_R1) (bret (0, sdhc_card))))))))))))))))))"

fun bl_read_words :: "'w bus \<Rightarrow> nat \<Rightarrow> u32 \<Rightarrow> 'w \<Rightarrow> 'w" where
  "bl_read_words B 0 buf w = w"
| "bl_read_words B (Suc n) buf w = (case mmio_read32 B MMC_DATA w of (v, w') \<Rightarrow> bl_read_words B n (buf + 4) (mem_store B buf (le32 v) w'))"

fun bl_read_loop :: "'w board \<Rightarrow> bool \<Rightarrow> u32 \<Rightarrow> nat \<Rightarrow> u32 \<Rightarrow> ('w, int) bl" where
  "bl_read_loop H sdhc_card sector 0 buf = bret 0"
| "bl_read_loop H sdhc_card sector (Suc n) buf =
     bseq (bstep (mmc_start (regs H) (mmc_arg sdhc_card sector) CMD17))
     (bbind (bdo (data_wait (regs H) MMC_STAT_BRR DATA_TIMEOUT)) (\<lambda>r. case r of
        PollError \<Rightarrow> bl_panic H ''MMC Read ERR''
      | PollTimeout \<Rightarrow> bl_panic H ''MMC Read BRR T/O''
      | PollOk \<Rightarrow> bseq (bstep (bl_read_words (regs H) 128 buf))
          (bbind (bdo (mmc_wait (regs H) MMC_STAT (\<lambda>v. v AND MMC_STAT_TC \<noteq> 0) DATA_TIMEOUT)) (\<lambda>tc.
            if \<not> tc then bl_panic H ''MMC Read TC T/O''
            else bseq (writel H 0xFFFFFFFF MMC_STAT) (bl_read_loop H sdhc_card (sector + 1) n (buf + 512))))))"

definition bl_mmc_read_sectors :: "'w board \<Rightarrow> bool \<Rightarrow> u32 \<Rightarrow> u32 \<Rightarrow> u32 \<Rightarrow> ('w, int) bl" where
  "bl_mmc_read_sectors H sdhc_card start_sector count dest = bl_read_loop H sdhc_card start_sector (unat count) dest"

subsection \<open>Main (\<open>main.c\<close>)\<close>

record boot_params =
  reserved :: u32
  mem_desc_addr :: u32
  boot_device :: u8
  reset_reason :: u8
  reserved2 :: u8
  reserved3 :: u8

text \<open>The registers at the entry of the kernel and the parameters \<open>r2\<close> points to.\<close>

record kernel_entry =
  entry_r0 :: u32
  entry_r1 :: u32
  entry_r2 :: u32
  entry_pc :: u32
  entry_params :: boot_params

definition KERNEL_BASE_ADDR :: u32 where [vx_consts]: "KERNEL_BASE_ADDR = 0x80000000"
definition KERNEL_START_SECTOR :: u32 where [vx_consts]: "KERNEL_START_SECTOR = 2048"
definition KERNEL_SIZE_SECTORS :: u32 where [vx_consts]: "KERNEL_SIZE_SECTORS = 2048"

definition boot_early :: "'w board \<Rightarrow> ('w, unit) bl" where
  "boot_early H = ball ([writel H 2 CM_PER_L4LS_CLKSTCTRL_boot, writel H 2 CM_PER_L3_CLKSTCTRL, writel H 2 CM_PER_L4FW_CLKSTCTRL,
     writel H 2 0x44E000AC, modify H 0x4804C134 (\<lambda>v. v AND NOT (push_bit 21 0xF)), writel H (push_bit 21 0xF) 0x4804C194,
     writel H 0xAAAA WDT1_WSPR, await H WDT1_WWPS (\<lambda>v. v = 0), writel H 0x5555 WDT1_WSPR, await H WDT1_WWPS (\<lambda>v. v = 0),
     bl_uart_init H] @ concat (replicate 10 [bl_uart_putc H 13, bl_uart_putc H 10]))"

definition boot_banner :: "'w board \<Rightarrow> ('w, unit) bl" where
  "boot_banner H = ball [bputln H ''========================================'', bputln H ''VinixOS Bootloader'',
     bputln H ''========================================'', bputln H ''Board:  BeagleBone Black (AM335x)'',
     bputln H ''UART:   Initialized @ 115200 8N1'', bputln H ''Clock:  ROM default (48 MHz UART)'', bputln H '''']"

definition boot_dram :: "'w board \<Rightarrow> ('w, unit) bl" where
  "boot_dram H = bseq (ball [bputs H ''Clock:  Configuring DDR PLL for 400MHz... '', clock_init H, bputln H ''Done.'',
     bputln H ''Clock:  DDR PLL locked @ 400MHz'', bputln H '''', bputln H ''DDR:    Initializing 256MB DDR3...'', ddr_init H,
     bputln H ''DDR:    Running memory test...''])
     (bbind (ddr_test H) (\<lambda>r. if r = 0 then ball [bputln H ''DDR:    Test PASSED'', bputln H ''DDR:    OK (256MB @ 0x80000000)'', bputln H '''']
       else bl_panic H ''DDR memory test FAILED!''))"

text \<open>The image is in memory afterwards; the result is whether the card is addressed by sectors.\<close>

definition boot_load :: "'w board \<Rightarrow> ('w, bool) bl" where
  "boot_load H = bseq (bputln H ''MMC:    Initializing SD card...'') (bbind (bl_mmc_init H) (\<lambda>(rc, sdhc_card).
     if rc \<noteq> 0 then bl_panic H ''MMC initialization FAILED!''
     else bseq (ball [bputln H ''MMC:    Initialized OK'', bputln H ''MMC:    Loading kernel from SD card...''])
       (bbind (bl_mmc_read_sectors H sdhc_card KERNEL_START_SECTOR KERNEL_SIZE_SECTORS KERNEL_BASE_ADDR) (\<lambda>rc.
         if rc \<noteq> 0 then bl_panic H ''Failed to load kernel from SD card!''
         else bseq (ball [bputln H ''MMC:    Kernel loaded successfully'', bputln H '''']) (bret sdhc_card)))))"

definition kernel_magic :: "u32 \<Rightarrow> bool" where
  "kernel_magic first \<longleftrightarrow> (first AND 0xFF000000 = 0xEA000000 \<or> first AND 0xFFFFF000 = 0xE59FF000) \<and> first \<noteq> 0 \<and> first \<noteq> 0xFFFFFFFF"

definition kernel_call :: "u32 \<Rightarrow> kernel_entry" where
  "kernel_call a_params = \<lparr>entry_r0 = 0, entry_r1 = 0xE05, entry_r2 = a_params, entry_pc = 0x80000000,
     entry_params = \<lparr>reserved = 0, mem_desc_addr = 0, boot_device = 8, reset_reason = 1, reserved2 = 0, reserved3 = 0\<rparr>\<rparr>"

definition check_magic :: "'w board \<Rightarrow> u32 \<Rightarrow> u32 \<Rightarrow> ('w, kernel_entry) bl" where
  "check_magic H a_params first =
     (if \<not> kernel_magic first then bseq (ball [bputs H ''KERNEL MAGIC FAIL: '', bl_uart_print_hex H first]) (bl_panic H '' - Invalid kernel image!'')
      else bseq (ball [bputs H ''Kernel: Magic = '', bl_uart_print_hex H first, bputln H '' OK'',
          bputln H ''========================================'', bputln H '''', bl_uart_flush H]) (bret (kernel_call a_params)))"

definition boot_jump :: "'w board \<Rightarrow> u32 \<Rightarrow> ('w, kernel_entry) bl" where
  "boot_jump H a_params = bseq (ball [bputln H ''Boot:   Setting up boot parameters...'',
     bputln H ''========================================'', bputln H ''Boot:   Jumping to kernel @ 0x80000000''])
     (\<lambda>w. check_magic H a_params (ddr_word H w 0) w)"

definition bootloader_main :: "'w board \<Rightarrow> u32 \<Rightarrow> ('w, kernel_entry) bl" where
  "bootloader_main H a_params = bseq (boot_early H) (bseq (boot_banner H) (bseq (boot_dram H) (bseq (boot_load H) (boot_jump H a_params))))"

end
