(* ===== verification/Bootloader_Props.thy ===== *)
theory Bootloader_Props
  imports Bootloader
begin

section \<open>The boot loader: properties\<close>

text \<open>
  \<open>boot_board\<close> is what the boot loader relies on: the SD controller of \<open>Mmc_Props\<close>, memory that keeps what is
  stored in it, and registers that have no effect on the memory or the card.  With \<open>live\<close> the board also
  answers: every unbounded wait is over after some reads, and every bounded one within its counter.
\<close>

subsection \<open>Fields of the settings\<close>

text \<open>The multiplier and divider of the memory clock: 24 MHz * 400 / (23 + 1).\<close>

lemma ddr_clock_400: "drop_bit 8 (ddr_clksel v) AND 0x7FF = 400" "ddr_clksel v AND 0x7F = 23"
proof -
  have z: "(v AND NOT 0x7FFFF) AND m = 0" if "NOT 0x7FFFF AND m = 0" for m :: u32
    using that by (simp only: and.assoc) simp
  have "ddr_clksel v AND 0x7FF00 = 0x19000"
    unfolding ddr_clksel_def bit.conj_disj_distrib2 by (subst z, simp, simp)
  moreover have "ddr_clksel v AND 0x7F = 23"
    unfolding ddr_clksel_def bit.conj_disj_distrib2 by (subst z, simp, simp)
  moreover have "drop_bit 8 (ddr_clksel v) AND 0x7FF = drop_bit 8 (ddr_clksel v AND 0x7FF00)" by (simp add: drop_bit_and)
  ultimately show "drop_bit 8 (ddr_clksel v) AND 0x7FF = 400" "ddr_clksel v AND 0x7F = 23" by simp_all
qed

text \<open>The geometry of the memory in \<open>EMIF_CFG\<close>: 2\^15 rows, 8 banks and 2\^10 columns of 16 bits, 512 MB.\<close>

lemma emif_geometry:
  "2 ^ (9 + unat (drop_bit 7 EMIF_CFG AND 7)) * 2 ^ unat (drop_bit 4 EMIF_CFG AND 7) * 2 ^ (8 + unat (EMIF_CFG AND 7)) * (2 :: nat) = 512 * 1024 * 1024"
  by (simp add: EMIF_CFG_def)

text \<open>The timings in steps of 2.5 ns: \<open>T_RP\<close>, \<open>T_RCD\<close>, \<open>T_WR\<close>, \<open>T_RAS\<close>, \<open>T_RC\<close>, \<open>T_RRD\<close>, \<open>T_WTR\<close>, \<open>T_RFC\<close> and \<open>T_XSNR\<close>, each
  field being one less.\<close>

lemma emif_timings:
  "unat (drop_bit 25 EMIF_TIM1 AND 0xF) + 1 = 6" "unat (drop_bit 21 EMIF_TIM1 AND 0xF) + 1 = 6" "unat (drop_bit 17 EMIF_TIM1 AND 0xF) + 1 = 6"
  "unat (drop_bit 12 EMIF_TIM1 AND 0x1F) + 1 = 15" "unat (drop_bit 6 EMIF_TIM1 AND 0x3F) + 1 = 21"
  "unat (drop_bit 3 EMIF_TIM1 AND 7) + 1 = 4" "unat (EMIF_TIM1 AND 7) + 1 = 4"
  "unat (drop_bit 4 EMIF_TIM3 AND 0x1FF) + 1 = 104" "unat (drop_bit 16 EMIF_TIM2 AND 0x1FF) + 1 = 108"
  by (simp_all add: EMIF_TIM1_def EMIF_TIM2_def EMIF_TIM3_def)

subsection \<open>Runs\<close>

text \<open>What holds when a run comes back; a run on a live board does.\<close>

fun outcome :: "bool \<Rightarrow> ('a \<Rightarrow> 'w \<Rightarrow> bool) \<Rightarrow> ('w + 'a \<times> 'w) option \<Rightarrow> bool" where
  "outcome live P None \<longleftrightarrow> \<not> live"
| "outcome live P (Some (Inl w)) \<longleftrightarrow> \<not> live"
| "outcome live P (Some (Inr (x, w))) \<longleftrightarrow> P x w"

lemma outcome_mono: "outcome live P r \<Longrightarrow> (\<And>x w. P x w \<Longrightarrow> Q x w) \<Longrightarrow> outcome live Q r"
  by (cases "(live, P, r)" rule: outcome.cases) auto

lemma outcome_both:
  "outcome live P r \<Longrightarrow> (live \<Longrightarrow> outcome True P' r) \<Longrightarrow> (\<And>x w. P x w \<Longrightarrow> (live \<Longrightarrow> P' x w) \<Longrightarrow> Q x w) \<Longrightarrow> outcome live Q r"
  by (cases "(live, P, r)" rule: outcome.cases) auto

lemma outcome_bind: "outcome live (\<lambda>x w'. outcome live P (f x w')) (m w) \<Longrightarrow> outcome live P (bbind m f w)"
  by (auto simp: bbind_def split: option.splits sum.splits)

lemma bbind_assoc: "bbind (bbind m f) g = bbind m (\<lambda>x. bbind (f x) g)"
  by (rule ext) (auto simp: bbind_def split: option.splits sum.splits)

lemma outcome_dead: "\<not> live \<Longrightarrow> outcome live P (bseq m bhalt w)"
  by (cases "m w") (auto simp: bbind_def bhalt_def split: sum.splits)

text \<open>Operations whose result, if they come back with one, is in \<open>Q\<close>.\<close>

definition gives :: "('a \<Rightarrow> bool) \<Rightarrow> ('w, 'a) bl \<Rightarrow> bool" where
  "gives Q m \<longleftrightarrow> (\<forall>w x w'. m w = Some (Inr (x, w')) \<longrightarrow> Q x)"

lemma gives_bind: "gives P m \<Longrightarrow> (\<And>x. P x \<Longrightarrow> gives Q (f x)) \<Longrightarrow> gives Q (bbind m f)"
  by (fastforce simp: gives_def bbind_def split: option.splits sum.splits)

lemma gives_then: "(\<And>x. gives Q (f x)) \<Longrightarrow> gives Q (bbind m f)"
  by (rule gives_bind [where P = "\<lambda>_. True"]) (simp_all add: gives_def)

lemma gives_ret: "Q x \<Longrightarrow> gives Q (bret x)"
  by (simp add: gives_def bret_def)

lemma gives_wait: "gives Q k \<Longrightarrow> Q (- 1, False) \<Longrightarrow> gives Q (wait_or H r ok t msg k)"
  unfolding wait_or_def by (rule gives_then) (simp add: gives_then gives_ret)

lemma outcome_gives: "outcome live P (m w) \<Longrightarrow> gives Q m \<Longrightarrow> outcome live (\<lambda>x w'. P x w' \<and> Q x) (m w)"
  by (cases "(live, P, m w)" rule: outcome.cases) (auto simp: gives_def)

text \<open>Operations that keep a relation of worlds and, on a live board, have a result in \<open>Q\<close>.\<close>

definition runs :: "bool \<Rightarrow> ('w \<Rightarrow> 'w \<Rightarrow> bool) \<Rightarrow> ('a \<Rightarrow> bool) \<Rightarrow> ('w, 'a) bl \<Rightarrow> bool" where
  "runs live R Q m \<longleftrightarrow> (\<forall>w. outcome live (\<lambda>x w'. R w w' \<and> (live \<longrightarrow> Q x)) (m w))"

abbreviation goes :: "bool \<Rightarrow> ('w \<Rightarrow> 'w \<Rightarrow> bool) \<Rightarrow> ('w, 'a) bl \<Rightarrow> bool" where
  "goes live R m \<equiv> runs live R (\<lambda>_. True) m"

lemma runs_bind:
  assumes "transp R" "runs live R P m" "\<And>x. (live \<Longrightarrow> P x) \<Longrightarrow> runs live R Q (f x)"
  shows "runs live R Q (bbind m f)"
  unfolding runs_def
proof (intro allI outcome_bind)
  fix w
  have "outcome live (\<lambda>x w'. R w w' \<and> (live \<longrightarrow> Q x)) (f x w1)" if "R w w1" "live \<longrightarrow> P x" for x w1
    using assms(3) [of x] that unfolding runs_def by (blast intro: outcome_mono transpD [OF assms(1)])
  then show "outcome live (\<lambda>x w'. outcome live (\<lambda>x w'. R w w' \<and> (live \<longrightarrow> Q x)) (f x w')) (m w)"
    using assms(2) unfolding runs_def by (blast intro: outcome_mono)
qed

lemma runs_ret: "reflp R \<Longrightarrow> (live \<Longrightarrow> Q x) \<Longrightarrow> runs live R Q (bret x)"
  by (simp add: runs_def bret_def reflpD)

lemma runs_step: "(\<And>w. R w (f w)) \<Longrightarrow> goes live R (bstep f)"
  by (simp add: runs_def bstep_def)

lemma outcome_do: "outcome live P (bdo f w) \<longleftrightarrow> P (fst (f w)) (snd (f w))"
  by (cases "f w") (simp add: bdo_def)

lemma runs_do: "(\<And>w. R w (snd (f w))) \<Longrightarrow> (\<And>w. live \<Longrightarrow> Q (fst (f w))) \<Longrightarrow> runs live R Q (bdo f)"
  by (simp add: runs_def outcome_do)

lemma runs_all: "transp R \<Longrightarrow> reflp R \<Longrightarrow> \<forall>m\<in>set ms. goes live R m \<Longrightarrow> goes live R (ball ms)"
  by (induction ms) (auto intro: runs_ret runs_bind)

lemma runs_dead: "\<not> live \<Longrightarrow> runs live R Q (bseq m bhalt)"
  by (simp add: runs_def outcome_dead)

text \<open>An unbounded wait is over when one of the next reads shows the awaited value.\<close>

fun within :: "'w bus \<Rightarrow> u32 \<Rightarrow> (u32 \<Rightarrow> bool) \<Rightarrow> nat \<Rightarrow> 'w \<Rightarrow> bool" where
  "within B a ok 0 w = False"
| "within B a ok (Suc n) w = (case mmio_read32 B a w of (v, w') \<Rightarrow> ok v \<or> within B a ok n w')"

lemma poll_ends: "within B a ok n w \<Longrightarrow> \<exists>w'. bl_poll B a ok w = Some w'"
  by (induction n arbitrary: w) (subst bl_poll.simps, auto split: prod.splits)+

lemma poll_frame:
  assumes "\<And>w v w'. mmio_read32 B a w = (v, w') \<Longrightarrow> R w w'" "transp R" "bl_poll B a ok w = Some w'"
  shows "R w w'"
proof -
  have "B' = B \<and> a' = a \<longrightarrow> R w w'" if "bl_poll B' a' ok w = Some w'" for B' a'
  proof (rule bl_poll.raw_induct [OF _ that, where P = "\<lambda>B' a' ok w w'. B' = B \<and> a' = a \<longrightarrow> R w w'"], goal_cases)
    case (1 f B' a' ok w y)
    then show ?case using assms(1) transpD [OF assms(2)] by (auto split: prod.splits if_splits) blast
  qed
  then show ?thesis using assms(3) by blast
qed

subsection \<open>The board\<close>

text \<open>Bytes of memory from an address on.\<close>

definition put_ram :: "u32 \<Rightarrow> u8 list \<Rightarrow> (u32 \<Rightarrow> u8) \<Rightarrow> u32 \<Rightarrow> u8" where
  "put_ram a bs f x = (if unat (x - a) < length bs then bs ! unat (x - a) else f x)"

lemma put_ram_below:
  assumes "unat x < unat a" "unat a + length bs \<le> 2 ^ 32"
  shows "put_ram a bs f x = f x"
proof -
  have "unat (x - a) = unat x + 2 ^ 32 - unat a" using assms(1) by (simp add: unat_sub_if')
  then have "\<not> unat (x - a) < length bs" using assms by linarith
  then show ?thesis by (simp add: put_ram_def)
qed

lemma put_ram_load: "length bs = n \<Longrightarrow> n \<le> 2 ^ 32 \<Longrightarrow> map (\<lambda>i. put_ram a bs f (a + of_nat i)) [0..<n] = bs"
  by (rule nth_equalityI) (auto simp: put_ram_def unat_of_nat take_bit_nat_eq_self)

lemma put_ram_append:
  assumes "length xs + length ys \<le> 2 ^ 32"
  shows "put_ram (a + of_nat (length xs)) ys (put_ram a xs f) = put_ram a (xs @ ys) f"
proof
  fix x
  define d where "d = unat (x - a)"
  have d: "d < 2 ^ 32" using unsigned_less [of "x - a"] by (simp add: d_def)
  have "unat (x - (a + of_nat (length xs))) = (if length xs \<le> d then d - length xs else d + 2 ^ 32 - length xs)" if "length xs < 2 ^ 32"
  proof -
    have "x - (a + of_nat (length xs)) = (x - a) - of_nat (length xs)" by simp
    moreover have "unat (of_nat (length xs) :: u32) = length xs" using that by (simp add: unat_of_nat take_bit_nat_eq_self)
    moreover have "unat (y - z) = (if unat z \<le> unat y then unat y - unat z else unat y + 2 ^ 32 - unat z)" for y z :: u32
      by (simp add: unat_sub_if')
    ultimately show ?thesis by (simp only: d_def)
  qed
  moreover have "put_ram (a + of_nat (length xs)) [] g = g" for g by (auto simp: put_ram_def)
  ultimately show "put_ram (a + of_nat (length xs)) ys (put_ram a xs f) x = put_ram a (xs @ ys) f x"
    using assms d by (cases "ys = []") (auto simp: put_ram_def nth_append simp flip: d_def)
qed

definition bytes_at :: "(u32 \<Rightarrow> u8) \<Rightarrow> u32 \<Rightarrow> nat \<Rightarrow> u8 list" where
  "bytes_at f a n = map (\<lambda>i. f (a + of_nat i)) [0..<n]"

lemma bytes_at_nth: "i < n \<Longrightarrow> bytes_at f a n ! i = f (a + of_nat i)"
  by (simp add: bytes_at_def)

text \<open>The kernel image on the card: a high-capacity card is addressed by sectors, any other by bytes.\<close>

definition kernel_image :: "(u32 \<Rightarrow> u8 list) \<Rightarrow> bool \<Rightarrow> u8 list" where
  "kernel_image blocks high_capacity = concat (map (\<lambda>i. blocks (if high_capacity then 2048 + of_nat i else 512 * (2048 + of_nat i)))
     [0..<unat KERNEL_SIZE_SECTORS])"

lemma kernel_image_arg:
  "concat (map (\<lambda>i. blocks (mmc_arg high (KERNEL_START_SECTOR + of_nat i))) [0..<unat KERNEL_SIZE_SECTORS]) = kernel_image blocks high"
  by (cases high) (simp_all only: kernel_image_def mmc_arg_def KERNEL_START_SECTOR_def if_True if_False mult.commute)

text \<open>The card answers one of the next \<open>n\<close> requests for its operating conditions as ready.\<close>

fun powers_up :: "'w bus \<Rightarrow> nat \<Rightarrow> 'w \<Rightarrow> bool" where
  "powers_up B 0 w = False"
| "powers_up B (Suc n) w = (case mmc_send_cmd B 55 0 MMC_RSP_R1 w of (r, w1) \<Rightarrow> if r \<noteq> 0 then powers_up B n w1
     else case mmc_send_cmd B 41 0x40300000 MMC_RSP_R3 w1 of (r, w2) \<Rightarrow> if r \<noteq> 0 then powers_up B n w2
     else case mmio_read32 B MMC_RSP10 w2 of (v, w3) \<Rightarrow> v AND 0x80000000 \<noteq> 0 \<or> powers_up B n w3)"

text \<open>\<open>high\<close> is the capacity of the card: a card that is ready shows it in bit 30 of its operating conditions.\<close>

locale boot_board = sd_host "regs H" blk reading sending writing taking
  for H :: "'w board" and blk reading sending writing taking +
  fixes ram :: "'w \<Rightarrow> u32 \<Rightarrow> u8" and live :: bool and high :: bool
  assumes power_up: "powers_up (regs H) 2000 w"
    and capacity: "mmc_send_cmd (regs H) 41 0x40300000 MMC_RSP_R3 w = (0, w1) \<Longrightarrow> mmio_read32 (regs H) MMC_RSP10 w1 = (v1, w2) \<Longrightarrow>
      v1 AND 0x80000000 \<noteq> 0 \<Longrightarrow> mmio_read32 (regs H) MMC_RSP10 w2 = (v2, w3) \<Longrightarrow> (v2 AND 0x40000000 \<noteq> 0) = high"
    and read_frame: "mmio_read32 (regs H) r w = (v, w') \<Longrightarrow> ram w' = ram w \<and> (r \<noteq> MMC_DATA \<longrightarrow> blk w' = blk w)"
    and write_frame: "ram (mmio_write32 (regs H) r v w) = ram w"
    and byte_frame: "ram (writeb H r b w) = ram w \<and> blk (writeb H r b w) = blk w"
    and store_ram: "DDR_BASE \<le> a \<Longrightarrow> ram (mem_store (regs H) a bs w) = put_ram a bs (ram w)"
    and store_card: "blk (mem_store (regs H) a bs w) = blk w" "sending w c k \<Longrightarrow> sending (mem_store (regs H) a bs w) c k"
    and load_ram: "DDR_BASE \<le> a \<Longrightarrow> mem_load (regs H) a n w = map (\<lambda>i. ram w (a + of_nat i)) [0..<n]"
    and uart_live: "live \<Longrightarrow> \<exists>n. within (regs H) UART0_LSR (\<lambda>v. v AND UART_LSR_TEMT \<noteq> 0) n w"
      "live \<Longrightarrow> \<exists>n. within (regs H) UART0_LSR (\<lambda>v. v AND UART_LSR_TXFIFOE \<noteq> 0) n w"
    and wdt_live: "live \<Longrightarrow> \<exists>n. within (regs H) WDT1_WWPS (\<lambda>v. v = 0) n w"
    and clock_live: "live \<Longrightarrow> r \<in> {CM_PER_EMIF_CLKCTRL, CM_PER_MMC0_CLKCTRL, CM_WKUP_UART0_CLKCTRL} \<Longrightarrow>
        \<exists>n. within (regs H) r (\<lambda>v. v AND 0x30000 = 0) n (mmio_write32 (regs H) r 2 w)"
      "live \<Longrightarrow> \<exists>n. within (regs H) CM_WKUP_UART0_CLKCTRL (\<lambda>v. v AND 3 = 2) n (mmio_write32 (regs H) CM_WKUP_UART0_CLKCTRL 2 w)"
    and reset_live: "live \<Longrightarrow> fst (mmc_wait (regs H) MMC_SYSSTATUS (\<lambda>v. v AND 1 \<noteq> 0) 1000000 (mmio_write32 (regs H) MMC_SYSCONFIG 2 w))"
      "live \<Longrightarrow> fst (mmc_wait (regs H) MMC_SYSCTL (\<lambda>v. v AND (MMC_SYSCTL_SRC OR MMC_SYSCTL_SRD) = 0) 10000000
        (mmio_write32 (regs H) MMC_SYSCTL (u OR MMC_SYSCTL_SRC OR MMC_SYSCTL_SRD) w))"
    and power_live: "live \<Longrightarrow> fst (mmc_wait (regs H) MMC_HCTL (\<lambda>v. v AND MMC_HCTL_SDBP \<noteq> 0) 100000 (mmio_write32 (regs H) MMC_HCTL (u OR MMC_HCTL_SDBP) w))"
    and sdclock_live: "live \<Longrightarrow> fst (mmc_wait (regs H) MMC_SYSCTL (\<lambda>v. v AND MMC_SYSCTL_ICS \<noteq> 0) 1000000 (mmio_write32 (regs H) MMC_SYSCTL 0xE3C01 w))"
      "live \<Longrightarrow> fst (mmc_wait (regs H) MMC_SYSCTL (\<lambda>v. v AND 2 \<noteq> 0) 1000000 (mmio_write32 (regs H) MMC_SYSCTL ((u AND NOT 0xFFC0) OR 0x100) w))"
    and wakeup_live: "live \<Longrightarrow> fst (mmc_wait (regs H) MMC_STAT (\<lambda>v. v AND 1 \<noteq> 0) 1000000 (mmio_write32 (regs H) MMC_CMD 0 w))"
    and data_live: "live \<Longrightarrow> reading w a \<Longrightarrow> fst (data_wait (regs H) MMC_STAT_BRR DATA_TIMEOUT w) = PollOk"
      "live \<Longrightarrow> sending w a 128 \<Longrightarrow> fst (mmc_wait (regs H) MMC_STAT (\<lambda>v. v AND MMC_STAT_TC \<noteq> 0) DATA_TIMEOUT w)"
begin

definition same :: "'w \<Rightarrow> 'w \<Rightarrow> bool" where
  "same w w' \<longleftrightarrow> blk w' = blk w \<and> ram w' = ram w"

lemma same_rel: "transp same" "reflp same"
  by (auto simp: same_def transp_def reflp_def)

lemmas same_bind = runs_bind [OF same_rel(1)]
lemmas same_ret = runs_ret [OF same_rel(2)]
lemmas same_all = runs_all [OF same_rel]

lemma same_read: "r \<noteq> MMC_DATA \<Longrightarrow> same w (snd (mmio_read32 (regs H) r w))"
  using read_frame [of r w "fst (mmio_read32 (regs H) r w)"] by (simp add: same_def)

lemma same_write: "r \<noteq> MMC_DATA \<Longrightarrow> same w (mmio_write32 (regs H) r v w)"
  by (simp add: same_def write_frame control_frame)

lemma same_trans: "same u v \<Longrightarrow> same v w \<Longrightarrow> same u w"
  using transpD [OF same_rel(1)] by blast

lemma same_modify: "r \<noteq> MMC_DATA \<Longrightarrow> same w (mmc_modify (regs H) r f w)"
  using same_trans [OF same_read same_write] by (simp add: mmc_modify_def split_beta)

lemma same_wait: "r \<noteq> MMC_DATA \<Longrightarrow> same w (snd (mmc_wait (regs H) r ok t w))"
proof (induction t arbitrary: w)
  case (Suc t)
  then show ?case using same_trans [OF same_read [OF Suc.prems] Suc.IH [OF Suc.prems]] same_read [OF Suc.prems] by (simp add: split_beta)
qed (simp add: same_def)

lemma same_wait_set: "r \<noteq> MMC_DATA \<Longrightarrow> same w (snd (wait_set (regs H) r bits t w))"
proof (induction t arbitrary: w)
  case (Suc t)
  then show ?case using same_trans [OF same_read [OF Suc.prems] Suc.IH [OF Suc.prems]] same_read [OF Suc.prems] by (simp add: split_beta)
qed (simp add: same_def)

lemma same_data_wait: "same w (snd (data_wait (regs H) flag t w))"
proof (induction t arbitrary: w)
  case (Suc t)
  have s: "same u (snd (mmio_read32 (regs H) MMC_STAT u))" for u by (simp add: same_read vx_consts)
  then show ?case using same_trans [OF s same_trans [OF s Suc.IH]] same_trans [OF s s] by (simp add: split_beta)
qed (simp add: same_def)

lemma same_cmd_wait: "same w (snd (cmd_wait (regs H) t w))"
proof (induction t arbitrary: w)
  case (Suc t)
  have s: "same u (snd (mmio_read32 (regs H) MMC_STAT u))" for u by (simp add: same_read vx_consts)
  then show ?case using same_trans [OF s Suc.IH] by (simp add: split_beta)
qed (simp add: same_def)

lemma same_reset_wait: "same w (reset_wait (regs H) bits t w)"
proof (induction t arbitrary: w)
  case (Suc t)
  have s: "same u (snd (mmio_read32 (regs H) MMC_SYSCTL u))" for u by (simp add: same_read vx_consts)
  then show ?case using same_trans [OF s Suc.IH] by (simp add: split_beta)
qed (simp add: same_read vx_consts)

lemma same_send_cmd: "same w (snd (mmc_send_cmd (regs H) cmd arg flags w))"
proof -
  let ?w0 = "bus_writes (regs H) [(MMC_STAT, 0xFFFFFFFF), (MMC_ARG, arg), (MMC_CMD, push_bit 24 cmd OR flags)] w"
  have "same w ?w0" by (simp add: same_def write_frame control_frame vx_consts)
  then have c: "same w (snd (cmd_wait (regs H) DATA_TIMEOUT ?w0))" by (rule same_trans [OF _ same_cmd_wait])
  have st: "same u (mmio_write32 (regs H) MMC_STAT v u)" for u v by (simp add: same_write vx_consts)
  have "same u (mmio_write32 (regs H) MMC_STAT v (reset_wait (regs H) b t (mmc_modify (regs H) MMC_SYSCTL f u)))" for u v b t f
    using same_trans [OF same_modify same_trans [OF same_reset_wait st]] by (simp add: vx_consts)
  then show ?thesis using same_trans [OF c] st c
    by (cases "cmd_wait (regs H) DATA_TIMEOUT ?w0") (auto simp: mmc_send_cmd_def split: option.splits)
qed

lemma goes_writel: "r \<noteq> MMC_DATA \<Longrightarrow> goes live same (writel H v r)"
  by (simp add: writel_def runs_step same_write)

lemma goes_modify: "r \<noteq> MMC_DATA \<Longrightarrow> goes live same (modify H r f)"
  by (simp add: modify_def runs_step same_modify)

lemma goes_wait_set: "r \<noteq> MMC_DATA \<Longrightarrow> goes live same (bseq (bdo (wait_set (regs H) r bits t)) (bret ()))"
  by (intro same_bind [of _ "\<lambda>_. True"] runs_do same_ret) (simp_all add: same_wait_set)

lemma goes_read: "r \<noteq> MMC_DATA \<Longrightarrow> goes live same (bdo (mmio_read32 (regs H) r))"
  by (intro runs_do same_read) simp_all

lemma goes_send_cmd: "goes live same (bl_mmc_send_cmd H cmd arg flags)"
  by (simp add: bl_mmc_send_cmd_def runs_do same_send_cmd)

lemma await_at:
  assumes "r \<noteq> MMC_DATA" "live \<Longrightarrow> \<exists>n. within (regs H) r ok n w"
  shows "outcome live (\<lambda>_ w'. same w w') (await H r ok w)"
proof (cases "bl_poll (regs H) r ok w")
  case None
  then show ?thesis using assms(2) poll_ends by (fastforce simp: await_def)
next
  case (Some w')
  have "R w w'" if "\<And>w v w'. mmio_read32 (regs H) r w = (v, w') \<Longrightarrow> R w w'" "transp R" for R
    using poll_frame [OF that Some] .
  from this [of same] show ?thesis using Some same_read [OF assms(1)] same_rel(1) by (metis await_def map_option_eq_Some option.simps(9) outcome.simps(3) snd_conv)
qed

lemma goes_await: "r \<noteq> MMC_DATA \<Longrightarrow> (\<And>w. live \<Longrightarrow> \<exists>n. within (regs H) r ok n w) \<Longrightarrow> goes live same (await H r ok)"
  unfolding runs_def by (auto intro: outcome_mono [OF await_at])

lemma write_await:
  assumes "r \<noteq> MMC_DATA" "\<And>w. live \<Longrightarrow> \<exists>n. within (regs H) r ok n (mmio_write32 (regs H) r v w)" "runs live same Q k"
  shows "runs live same Q (bseq (writel H v r) (bseq (await H r ok) k))"
proof -
  have "goes live same (bseq (writel H v r) (await H r ok))"
    unfolding runs_def
  proof (intro allI outcome_bind)
    fix w
    have "outcome live (\<lambda>_ w'. same w w') (await H r ok (mmio_write32 (regs H) r v w))"
      by (rule outcome_mono [OF await_at [OF assms(1,2)]]) (simp_all add: same_trans [OF same_write [OF assms(1)]])
    then show "outcome live (\<lambda>x w'. outcome live (\<lambda>x w'. same w w' \<and> (live \<longrightarrow> True)) (await H r ok w')) (writel H v r w)"
      by (simp add: writel_def bstep_def)
  qed
  then have "runs live same Q (bseq (bseq (writel H v r) (await H r ok)) k)" by (rule same_bind) (rule assms(3))
  then show ?thesis by (simp only: bbind_assoc)
qed

subsubsection \<open>Output\<close>

lemma not_data: "UART0_LSR \<noteq> MMC_DATA" "UART0_RHR \<noteq> MMC_DATA" "WDT1_WWPS \<noteq> MMC_DATA" "CM_PER_EMIF_CLKCTRL \<noteq> MMC_DATA"
  "CM_PER_MMC0_CLKCTRL \<noteq> MMC_DATA" "CM_WKUP_UART0_CLKCTRL \<noteq> MMC_DATA" "MMC_STAT \<noteq> MMC_DATA" "MMC_RSP10 \<noteq> MMC_DATA"
  by (simp_all add: vx_consts)

lemma goes_send: "goes live same (bl_send_byte H c)"
  unfolding bl_send_byte_def
  by (intro same_all) (auto intro!: goes_await runs_step uart_live not_data simp: same_def byte_frame)

lemma goes_putc: "goes live same (bl_uart_putc H c)"
  unfolding bl_uart_putc_def by (intro same_bind [of _ "\<lambda>_. True"]) (auto intro: goes_send same_ret)

lemma goes_puts: "goes live same (bl_uart_puts H s)"
  by (induction s) (auto intro: same_ret same_bind [of _ "\<lambda>_. True"] goes_putc)

lemma goes_hex: "goes live same (bl_uart_print_hex H v)"
  unfolding bl_uart_print_hex_def by (intro same_bind [of _ "\<lambda>_. True"] goes_puts same_all) (auto intro: goes_putc)

lemma goes_flush: "goes live same (bl_uart_flush H)"
  unfolding bl_uart_flush_def by (intro goes_await uart_live not_data)

lemmas goes_out = goes_putc goes_puts goes_hex goes_flush

lemma panic_dead: "outcome False P (bl_panic H msg w)" "runs False R Q (bl_panic H msg)"
  by (simp_all add: bl_panic_def runs_dead outcome_dead)

subsubsection \<open>The stages before the card\<close>

lemma ball_pair: "ball (a # b # ms) = bseq a (bseq b (ball ms))" by simp

lemmas goes_wdt = goes_await [OF not_data(3) wdt_live, unfolded vx_consts]

lemma goes_drain: "goes live same (drain_rx H n)"
proof (induction n)
  case (Suc n)
  have "goes live same (if c then bseq (bdo (mmio_read32 (regs H) UART0_RHR)) (drain_rx H n) else bret ())" for c
    by (cases c) (simp_all add: same_bind [OF goes_read [OF not_data(2)] Suc.IH] same_ret)
  then show ?case by (simp add: same_bind [OF goes_read [OF not_data(1)]])
qed (simp add: same_ret)

lemma goes_uart_init: "goes live same (bl_uart_init H)"
  unfolding bl_uart_init_def Let_def
  by (subst ball_pair, rule write_await [OF not_data(6) clock_live(2)], assumption, rule same_all)
    (simp add: goes_writel goes_drain goes_flush vx_consts)

lemma goes_early: "goes live same (boot_early H)"
  unfolding boot_early_def
  by (rule same_all) (auto simp: goes_writel goes_modify goes_wdt goes_uart_init goes_putc vx_consts)

lemma goes_banner: "goes live same (boot_banner H)"
  unfolding boot_banner_def by (rule same_all) (auto simp: goes_puts)

lemma goes_pll: "goes live same (config_ddr_pll H)"
  unfolding config_ddr_pll_def by (rule same_all) (auto simp: goes_modify goes_wait_set vx_consts)

lemma goes_clocks: "goes live same (enable_peripheral_clocks H)"
  unfolding enable_peripheral_clocks_def MODULE_ENABLE_def
  by (subst ball_pair, rule write_await [OF not_data(4) clock_live(1)], assumption, simp,
      subst ball_pair, rule write_await [OF not_data(5) clock_live(1)], assumption, simp,
      subst ball_pair, rule write_await [OF not_data(6) clock_live(1)], assumption, simp, rule same_all)
    (simp add: goes_writel vx_consts)

lemma goes_ddr_init: "goes live same (ddr_init H)"
  unfolding ddr_init_def by (rule same_all) (auto simp: goes_writel goes_modify goes_wait_set goes_putc vx_consts)

subsubsection \<open>The memory test\<close>

definition card_kept :: "'w \<Rightarrow> 'w \<Rightarrow> bool" where
  "card_kept w w' \<longleftrightarrow> blk w' = blk w"

lemma kept_rel: "transp card_kept" "reflp card_kept"
  by (auto simp: card_kept_def transp_def reflp_def)

lemma kept_runs: "runs live same Q m \<Longrightarrow> runs live card_kept Q m"
  unfolding runs_def by (auto intro: outcome_mono simp: same_def card_kept_def)

lemma unat_ddr: "i < 1024 \<Longrightarrow> unat (ddr_addr i) = 0x80000000 + 4 * i"
  by (simp add: ddr_addr_def DDR_BASE_def unat_word_ariths unat_of_nat take_bit_nat_eq_self)

lemma ddr_fill_word:
  assumes "n \<le> 1024" "i < n"
  shows "ddr_word H (fold (\<lambda>i. mem_store (regs H) (ddr_addr i) (le32 p)) [0..<n] w) i = p"
  using assms
proof (induction n)
  case (Suc n)
  let ?w = "fold (\<lambda>i. mem_store (regs H) (ddr_addr i) (le32 p)) [0..<n] w"
  have le: "DDR_BASE \<le> ddr_addr j" if "j < 1024" for j using unat_ddr [OF that] by (simp add: word_le_nat_alt DDR_BASE_def)
  have step: "ddr_word H (mem_store (regs H) (ddr_addr n) (le32 p) ?w) i =
      rd32 (map (\<lambda>k. put_ram (ddr_addr n) (le32 p) (ram ?w) (ddr_addr i + of_nat k)) [0..<4]) 0"
    using Suc.prems by (simp add: ddr_word_def load_ram store_ram le del: upt_Suc)
  show ?case
  proof (cases "i = n")
    case True
    then show ?thesis using put_ram_load [of "le32 p" 4 "ddr_addr n" "ram ?w"] step by (simp add: rd32_le32)
  next
    case False
    have "put_ram (ddr_addr n) (le32 p) (ram ?w) (ddr_addr i + of_nat k) = ram ?w (ddr_addr i + of_nat k)" if "k < 4" for k
      using that False Suc.prems unat_ddr [of i] unat_ddr [of n]
      by (intro put_ram_below) (simp_all add: unat_word_ariths unat_of_nat take_bit_nat_eq_self)
    then have "map (\<lambda>k. put_ram (ddr_addr n) (le32 p) (ram ?w) (ddr_addr i + of_nat k)) [0..<4] = mem_load (regs H) (ddr_addr i) 4 ?w"
      using Suc.prems by (simp add: load_ram le del: upt_Suc)
    then show ?thesis using step Suc.IH False Suc.prems by (simp add: ddr_word_def)
  qed
qed simp

lemma fill_check:
  assumes "runs live card_kept Q k"
  shows "runs live card_kept Q (bseq (bstep (ddr_fill H p)) (\<lambda>w. case ddr_bad H p w of Some i \<Rightarrow> bad i w | None \<Rightarrow> k w))"
proof -
  have "ddr_bad H p (ddr_fill H p w) = None" for w
    by (auto simp: ddr_bad_def ddr_fill_def find_None_iff ddr_fill_word)
  moreover have c: "card_kept w (ddr_fill H p w)" for w
  proof -
    have "blk (fold (\<lambda>i. mem_store (regs H) (ddr_addr i) (le32 p)) is w) = blk w" for "is" by (induction "is" arbitrary: w) (auto simp: store_card)
    then show ?thesis by (simp add: card_kept_def ddr_fill_def)
  qed
  moreover have "outcome live (\<lambda>x w'. card_kept w w' \<and> (live \<longrightarrow> Q x)) (k (ddr_fill H p w))" for w
  proof -
    have "outcome live (\<lambda>x w'. card_kept (ddr_fill H p w) w' \<and> (live \<longrightarrow> Q x)) (k (ddr_fill H p w))" using assms by (simp add: runs_def)
    then show ?thesis by (rule outcome_mono) (use transpD [OF kept_rel(1) c] in blast)
  qed
  ultimately show ?thesis by (simp add: runs_def bbind_def bstep_def)
qed

lemma ddr_test_passes: "runs live card_kept (\<lambda>r. r = 0) (ddr_test H)"
  unfolding ddr_test_def
  by (rule runs_bind [OF kept_rel(1) kept_runs [OF goes_putc]], rule fill_check,
      rule runs_bind [OF kept_rel(1) kept_runs [OF goes_putc]], rule fill_check,
      rule runs_bind [OF kept_rel(1) kept_runs [OF goes_putc]], rule runs_ret [OF kept_rel(2)]) simp

lemma goes_dram: "goes live card_kept (boot_dram H)"
proof -
  have "goes live card_kept (if r = 0 then ball [bputln H t, bputln H u, bputln H v] else bl_panic H m)" if "live \<Longrightarrow> r = 0" for r :: int and t u v m
  proof (cases "r = 0")
    case True
    have "goes live same (ball [bputln H t, bputln H u, bputln H v])" by (rule same_all) (simp add: goes_puts)
    then show ?thesis using True kept_runs by simp
  next
    case False
    then have "\<not> live" using that by blast
    then show ?thesis using False by (simp add: panic_dead)
  qed
  note last = this
  have "goes live same (clock_init H)" unfolding clock_init_def by (rule same_bind [OF goes_pll goes_clocks])
  then show ?thesis unfolding boot_dram_def
    by (intro runs_bind [OF kept_rel(1) kept_runs [OF same_all]] runs_bind [OF kept_rel(1) ddr_test_passes] last)
      (simp_all add: goes_puts goes_ddr_init)
qed

subsubsection \<open>Reading sectors\<close>

lemma read_words_ram:
  assumes "sending w c k" "k + n \<le> 128" "DDR_BASE \<le> buf" "unat buf + 4 * n < 2 ^ 32"
  shows "blk (bl_read_words (regs H) n buf w) = blk w \<and> sending (bl_read_words (regs H) n buf w) c (k + n) \<and>
    ram (bl_read_words (regs H) n buf w) = put_ram buf (bytes_of (map (\<lambda>j. rd32 (blk w c) (4 * j)) [k..<k + n])) (ram w)"
  using assms
proof (induction n arbitrary: w k buf)
  case 0
  then show ?case by (simp add: bytes_of_def put_ram_def fun_eq_iff)
next
  case (Suc n)
  obtain v w1 where r: "mmio_read32 (regs H) MMC_DATA w = (v, w1)" by fastforce
  have p: "v = rd32 (blk w c) (4 * k)" "blk w1 = blk w" "sending w1 c (k + 1)" using read_word [OF Suc.prems(1) _ r] Suc.prems(2) by auto
  let ?w2 = "mem_store (regs H) buf (le32 v) w1"
  have b: "unat (buf + 4) = unat buf + 4" using Suc.prems(4) by (simp add: unat_word_ariths)
  have i: "blk (bl_read_words (regs H) n (buf + 4) ?w2) = blk ?w2 \<and> sending (bl_read_words (regs H) n (buf + 4) ?w2) c (k + 1 + n) \<and>
      ram (bl_read_words (regs H) n (buf + 4) ?w2) = put_ram (buf + 4) (bytes_of (map (\<lambda>j. rd32 (blk ?w2 c) (4 * j)) [k + 1..<k + 1 + n])) (ram ?w2)"
    using Suc.prems b by (intro Suc.IH store_card(2) p(3)) (simp_all add: word_le_nat_alt)
  have l: "bytes_of (map (\<lambda>j. rd32 (blk w c) (4 * j)) [k..<k + Suc n]) = le32 v @ bytes_of (map (\<lambda>j. rd32 (blk w c) (4 * j)) [k + 1..<k + 1 + n])"
    by (subst upt_conv_Cons) (simp_all add: bytes_of_def p(1))
  have "put_ram (buf + of_nat (length (le32 v))) ys (put_ram buf (le32 v) g) = put_ram buf (le32 v @ ys) g" if "length ys = 4 * n" for ys g
    using Suc.prems(4) that by (intro put_ram_append) simp
  moreover have "ram ?w2 = put_ram buf (le32 v) (ram w)" using read_frame [OF r] Suc.prems(3) by (simp add: store_ram)
  ultimately show ?case using i p(2) r unfolding l by (simp add: store_card)
qed

lemma start_same: "same w (mmc_start (regs H) c cmd w)"
  by (simp add: same_def start_frame) (simp add: mmc_start_def write_frame)

lemma read_loop_ram:
  assumes "DDR_BASE \<le> buf" "unat buf + 512 * n < 2 ^ 32"
  shows "outcome live (\<lambda>rc w'. rc = 0 \<and> blk w' = blk w \<and>
     ram w' = put_ram buf (concat (map (\<lambda>i. blk w (mmc_arg sdhc (sector + of_nat i))) [0..<n])) (ram w)) (bl_read_loop H sdhc sector n buf w)"
  using assms
proof (induction n arbitrary: w sector buf)
  case 0
  then show ?case by (simp add: bret_def put_ram_def fun_eq_iff)
next
  case (Suc n)
  let ?a = "mmc_arg sdhc sector"
  let ?w0 = "mmc_start (regs H) ?a CMD17 w"
  obtain r w1 where d: "data_wait (regs H) MMC_STAT_BRR DATA_TIMEOUT ?w0 = (r, w1)" by fastforce
  have s1: "same w w1" using same_trans [OF start_same same_data_wait [of ?w0 MMC_STAT_BRR DATA_TIMEOUT]] d by simp
  show ?case
  proof (cases "r = PollOk")
    case False
    then have "\<not> live" using d data_live(1) [OF _ read_start, of ?a w] by auto
    then show ?thesis using False d by (cases r) (simp_all add: panic_dead bbind_def bstep_def bdo_def)
  next
    case True
    let ?w2 = "bl_read_words (regs H) 128 buf w1"
    have "sending w1 ?a 0" using read_wait [OF read_start d] True by simp
    then have w2: "blk ?w2 = blk w" "sending ?w2 ?a 128" "ram ?w2 = put_ram buf (blk w ?a) (ram w)"
      using read_words_ram [of w1 ?a 0 128 buf] Suc.prems s1 bytes_words [of 0 128 "blk w ?a"] card_length [of w ?a]
      by (simp_all add: same_def words_of_def)
    obtain tc w3 where tc: "mmc_wait (regs H) MMC_STAT (\<lambda>v. v AND MMC_STAT_TC \<noteq> 0) DATA_TIMEOUT ?w2 = (tc, w3)" by fastforce
    let ?w4 = "mmio_write32 (regs H) MMC_STAT 0xFFFFFFFF w3"
    have s4: "same ?w2 ?w4" using same_trans [OF same_wait same_write] tc not_data(7) by (metis snd_conv)
    show ?thesis
    proof (cases tc)
      case False
      then have "\<not> live" using tc data_live(2) [OF _ w2(2)] by auto
      then show ?thesis using False d True tc by (simp add: panic_dead bbind_def bstep_def bdo_def)
    next
      case tcT: True
      have b: "unat (buf + 512) = unat buf + 512" using Suc.prems by (simp add: unat_word_ariths)
      let ?xs = "concat (map (\<lambda>i. blk w (mmc_arg sdhc (sector + 1 + of_nat i))) [0..<n])"
      have len: "length ?xs = 512 * n" by (simp add: length_concat comp_def card_length sum_list_triv)
      have sh: "concat (map (\<lambda>i. blk w (mmc_arg sdhc (sector + of_nat i))) [0..<Suc n]) = blk w ?a @ ?xs"
        by (simp add: upt_conv_Cons map_Suc_upt [symmetric] comp_def add.assoc del: upt_Suc)
      have "put_ram (buf + of_nat (length (blk w ?a))) ?xs (put_ram buf (blk w ?a) g) = put_ram buf (blk w ?a @ ?xs) g" for g
        using Suc.prems len card_length [of w ?a] by (intro put_ram_append) simp
      moreover have "outcome live (\<lambda>rc w'. rc = 0 \<and> blk w' = blk ?w4 \<and>
          ram w' = put_ram (buf + 512) (concat (map (\<lambda>i. blk ?w4 (mmc_arg sdhc (sector + 1 + of_nat i))) [0..<n])) (ram ?w4))
          (bl_read_loop H sdhc (sector + 1) n (buf + 512) ?w4)"
        using Suc.prems b by (intro Suc.IH) (simp_all add: word_le_nat_alt)
      ultimately show ?thesis using d True tc tcT s4 w2 unfolding sh
        by (simp add: bbind_def bstep_def bdo_def writel_def same_def card_length)
    qed
  qed
qed

subsubsection \<open>The card\<close>

lemma wait_after:
  assumes "r \<noteq> MMC_DATA" "goes live same m" "\<And>w. live \<Longrightarrow> outcome True (\<lambda>_ w1. fst (mmc_wait (regs H) r ok t w1)) (m w)"
    and k: "runs live same (\<lambda>x. fst x = 0) k"
  shows "runs live same (\<lambda>x. fst x = 0) (bseq m (wait_or H r ok t msg k))"
  unfolding runs_def
proof (intro allI outcome_bind)
  fix w
  have w: "outcome live (\<lambda>x w'. same w w' \<and> (live \<longrightarrow> fst x = 0)) (wait_or H r ok t msg k w1)"
    if s1: "same w w1" and l: "live \<Longrightarrow> fst (mmc_wait (regs H) r ok t w1)" for w1
  proof -
    obtain b w2 where b: "mmc_wait (regs H) r ok t w1 = (b, w2)" by fastforce
    have s2: "same w w2" using same_trans [OF s1 same_wait [OF assms(1), of w1 ok t]] b by simp
    show ?thesis
    proof (cases b)
      case True
      have "outcome live (\<lambda>x w'. same w2 w' \<and> (live \<longrightarrow> fst x = 0)) (k w2)" using k by (simp add: runs_def)
      then have "outcome live (\<lambda>x w'. same w w' \<and> (live \<longrightarrow> fst x = 0)) (k w2)" by (rule outcome_mono) (use same_trans [OF s2] in blast)
      then show ?thesis using b True by (simp add: wait_or_def bbind_def bdo_def)
    next
      case False
      then have nl: "\<not> live" using l b by auto
      have "runs live same (\<lambda>x. fst x = 0) (bseq (bl_uart_puts H msg) (bret (- 1 :: int, False)))"
        by (rule same_bind [OF goes_puts], rule same_ret) (use nl in simp)
      then have "outcome live (\<lambda>x w'. same w2 w' \<and> (live \<longrightarrow> fst x = 0)) (bseq (bl_uart_puts H msg) (bret (- 1 :: int, False)) w2)"
        by (simp add: runs_def)
      then have "outcome live (\<lambda>x w'. same w w' \<and> (live \<longrightarrow> fst x = 0)) (bseq (bl_uart_puts H msg) (bret (- 1 :: int, False)) w2)"
        by (rule outcome_mono) (use same_trans [OF s2] in blast)
      then show ?thesis using b False unfolding wait_or_def by (subst bbind_def) (simp add: bdo_def)
    qed
  qed
  show "outcome live (\<lambda>x w1. outcome live (\<lambda>x w'. same w w' \<and> (live \<longrightarrow> fst x = 0)) (wait_or H r ok t msg k w1)) (m w)"
    by (rule outcome_both [OF assms(2) [unfolded runs_def, rule_format] assms(3)]) (simp_all add: w)
qed

lemma goes_op_cond: "goes live same (bl_op_cond H n)"
proof (induction n)
  case (Suc n)
  have r: "goes live same (bbind (bdo (mmio_read32 (regs H) MMC_RSP10)) (\<lambda>v. bret (v AND 0x40000000 \<noteq> 0)))"
    by (rule same_bind [OF goes_read [OF not_data(8)] same_ret]) simp
  have "goes live same (if c then bbind (bdo (mmio_read32 (regs H) MMC_RSP10)) (\<lambda>v. bret (v AND 0x40000000 \<noteq> 0)) else bl_op_cond H n)" for c
    using r Suc.IH by simp
  then have "goes live same (bbind (bdo (mmio_read32 (regs H) MMC_RSP10)) (\<lambda>v.
       if v AND 0x80000000 \<noteq> 0 then bbind (bdo (mmio_read32 (regs H) MMC_RSP10)) (\<lambda>v. bret (v AND 0x40000000 \<noteq> 0)) else bl_op_cond H n))"
    by (rule same_bind [OF goes_read [OF not_data(8)]])
  then have "goes live same (if c then bl_op_cond H n else bbind (bdo (mmio_read32 (regs H) MMC_RSP10)) (\<lambda>v.
       if v AND 0x80000000 \<noteq> 0 then bbind (bdo (mmio_read32 (regs H) MMC_RSP10)) (\<lambda>v. bret (v AND 0x40000000 \<noteq> 0)) else bl_op_cond H n))" for c
    using Suc.IH by simp
  note in2 = same_bind [OF goes_send_cmd this]
  show ?case unfolding bl_op_cond.simps by (rule same_bind [OF goes_send_cmd]) (use in2 Suc.IH in \<open>simp split: if_split\<close>)
qed (simp add: same_ret)

lemma goes_identify: "goes live same (bl_mmc_identify H)"
  unfolding bl_mmc_identify_def Let_def
  by (intro same_bind [OF goes_send_cmd] same_bind [OF goes_op_cond] same_bind [OF goes_read [OF not_data(8)]] same_ret) simp

lemma op_cond_capacity: "powers_up (regs H) n w \<Longrightarrow> \<exists>w'. bl_op_cond H n w = Some (Inr (high, w'))"
proof (induction n arbitrary: w)
  case (Suc n)
  obtain r1 w1 r2 w2 v1 w3 v2 w4 where c: "mmc_send_cmd (regs H) 55 0 MMC_RSP_R1 w = (r1, w1)"
    "mmc_send_cmd (regs H) 41 0x40300000 MMC_RSP_R3 w1 = (r2, w2)" "mmio_read32 (regs H) MMC_RSP10 w2 = (v1, w3)"
    "mmio_read32 (regs H) MMC_RSP10 w3 = (v2, w4)" by (metis surj_pair)
  show ?case
  proof (cases "r1 = 0 \<and> r2 = 0 \<and> v1 AND 0x80000000 \<noteq> 0")
    case True
    then show ?thesis using c capacity [of w1 w2 v1 w3 v2 w4] by (simp add: bl_mmc_send_cmd_def bbind_def bdo_def bret_def)
  next
    case False
    then show ?thesis using c Suc by (auto simp: bl_mmc_send_cmd_def bbind_def bdo_def split: if_splits)
  qed
qed simp

lemma gives_identify: "gives (\<lambda>b. b = high) (bl_mmc_identify H)"
  unfolding bl_mmc_identify_def Let_def
proof (rule gives_then, rule gives_then, rule gives_bind)
  show "gives (\<lambda>b. b = high) (bl_op_cond H 2000)" unfolding gives_def using op_cond_capacity [OF power_up] by (metis Inr_inject option.inject prod.inject)
qed (intro gives_then gives_ret, assumption)

lemma gives_init: "gives (\<lambda>x. fst x = 0 \<longrightarrow> snd x = high) (bl_mmc_init H)"
proof -
  have last: "gives (\<lambda>x. fst x = 0 \<longrightarrow> snd x = high) (bbind (bl_mmc_identify H) f)"
    if "gives (\<lambda>x. fst x = 0 \<longrightarrow> snd x = high) (f high)" for f
    by (rule gives_bind [OF gives_identify]) (use that in simp)
  show ?thesis unfolding bl_mmc_init_def
    by (rule gives_then gives_wait last gives_ret | simp del: ball.simps)+
qed

lemma mmc_init_ok: "runs live same (\<lambda>x. fst x = 0) (bl_mmc_init H)"
  unfolding bl_mmc_init_def
  by (rule same_bind [OF goes_putc], rule wait_after, (simp add: vx_consts), (rule same_all, simp add: goes_writel vx_consts),
      (simp add: bbind_def bstep_def bret_def writel_def reset_live),
      rule wait_after, (simp add: vx_consts), (rule same_all, simp add: goes_writel goes_modify vx_consts),
      (simp add: bbind_def bstep_def bret_def writel_def modify_def mmc_modify_def split_beta reset_live),
      rule wait_after, (simp add: vx_consts), (rule same_all, simp add: goes_writel goes_modify vx_consts),
      (simp add: bbind_def bstep_def bret_def writel_def modify_def mmc_modify_def split_beta power_live),
      rule wait_after, (simp add: vx_consts), (simp add: goes_writel vx_consts),
      (simp add: bstep_def writel_def sdclock_live),
      rule wait_after, (simp add: vx_consts), (rule same_all, simp add: goes_writel goes_modify vx_consts),
      (simp add: bbind_def bstep_def bret_def writel_def modify_def mmc_modify_def split_beta wakeup_live),
      rule same_bind [OF same_all], (simp add: goes_writel goes_modify vx_consts), rule same_bind [OF goes_identify],
      rule wait_after, (simp add: vx_consts), (rule same_all, simp add: goes_writel goes_modify vx_consts),
      (simp add: bbind_def bstep_def bret_def writel_def modify_def mmc_modify_def split_beta sdclock_live(2) [simplified]),
      rule same_bind [OF goes_modify], (simp add: vx_consts), rule same_bind [OF goes_send_cmd], rule same_ret, simp)

subsubsection \<open>The image and the jump\<close>

lemma runs_then:
  assumes "runs live R Q m" "\<And>x w'. R w w' \<Longrightarrow> (live \<Longrightarrow> Q x) \<Longrightarrow> outcome live P (f x w')"
  shows "outcome live P (bbind m f w)"
  using assms by (intro outcome_bind) (auto simp: runs_def intro: outcome_mono)

lemma image_length: "length (kernel_image (blk w) sdhc) = 0x100000"
  by (simp add: kernel_image_def length_concat comp_def card_length sum_list_triv KERNEL_SIZE_SECTORS_def)

lemma load_image:
  "outcome live (\<lambda>_ w'. blk w' = blk w \<and> ram w' = put_ram KERNEL_BASE_ADDR (kernel_image (blk w) high) (ram w)) (boot_load H w)"
  unfolding boot_load_def
proof (rule runs_then [OF goes_puts], rule outcome_bind, rule outcome_mono [OF outcome_gives [OF mmc_init_ok [unfolded runs_def, rule_format] gives_init]])
  fix w1 w2 and x :: "int \<times> bool"
  assume s: "same w w1" and "(same w1 w2 \<and> (live \<longrightarrow> fst x = 0)) \<and> (fst x = 0 \<longrightarrow> snd x = high)"
  then have s2: "same w1 w2" and ok: "live \<Longrightarrow> fst x = 0" and hi: "fst x = 0 \<Longrightarrow> snd x = high" by simp_all
  obtain rc sdhc where x: "x = (rc, sdhc)" by fastforce
  let ?P = "\<lambda>_ w'. blk w' = blk w \<and> ram w' = put_ram KERNEL_BASE_ADDR (kernel_image (blk w) high) (ram w)"
  have rd: "outcome live ?P (bbind (bl_mmc_read_sectors H sdhc KERNEL_START_SECTOR KERNEL_SIZE_SECTORS KERNEL_BASE_ADDR) (\<lambda>rc.
         if rc \<noteq> 0 then bl_panic H m else bseq (ball [bputln H t, bputln H u]) (bret b)) w3)" if s3: "same w2 w3" and c: "sdhc = high" for w3 m t u b
  proof (rule outcome_bind, rule outcome_mono)
    show "outcome live (\<lambda>rc w'. rc = 0 \<and> blk w' = blk w3 \<and> ram w' = put_ram KERNEL_BASE_ADDR (kernel_image (blk w3) high) (ram w3))
        (bl_mmc_read_sectors H sdhc KERNEL_START_SECTOR KERNEL_SIZE_SECTORS KERNEL_BASE_ADDR w3)"
      unfolding bl_mmc_read_sectors_def kernel_image_arg [symmetric] c by (rule read_loop_ram) (simp_all add: vx_consts)
    fix rc :: int and w4
    assume r: "rc = 0 \<and> blk w4 = blk w3 \<and> ram w4 = put_ram KERNEL_BASE_ADDR (kernel_image (blk w3) high) (ram w3)"
    have g: "goes live same (ball [bputln H t, bputln H u])" by (rule same_all) (simp add: goes_puts)
    show "outcome live ?P ((if rc \<noteq> 0 then bl_panic H m else bseq (ball [bputln H t, bputln H u]) (bret b)) w4)"
      using r s s2 s3 by (simp del: ball.simps) (rule runs_then [OF g], simp add: bret_def same_def)
  qed
  show "outcome live ?P ((case x of (rc, sdhc_card) \<Rightarrow> if rc \<noteq> 0 then bl_panic H ''MMC initialization FAILED!''
      else bseq (ball [bputln H ''MMC:    Initialized OK'', bputln H ''MMC:    Loading kernel from SD card...''])
        (bbind (bl_mmc_read_sectors H sdhc_card KERNEL_START_SECTOR KERNEL_SIZE_SECTORS KERNEL_BASE_ADDR) (\<lambda>rc.
         if rc \<noteq> 0 then bl_panic H ''Failed to load kernel from SD card!''
         else bseq (ball [bputln H ''MMC:    Kernel loaded successfully'', bputln H []]) (bret sdhc_card)))) w2)"
  proof (cases "rc = 0")
    case True
    have "goes live same (ball [bputln H ''MMC:    Initialized OK'', bputln H ''MMC:    Loading kernel from SD card...''])"
      by (rule same_all) (simp add: goes_puts)
    moreover have "sdhc = high" using hi x True by simp
    ultimately show ?thesis using rd x True by (simp del: ball.simps) (rule runs_then)
  next
    case False
    then have "\<not> live" using ok x by auto
    then show ?thesis using False x by (simp add: panic_dead)
  qed
qed

lemma image_word:
  assumes "ram w = put_ram KERNEL_BASE_ADDR (kernel_image (blk w) sdhc) f"
  shows "ddr_word H w 0 = rd32 (kernel_image (blk w) sdhc) 0"
    and "bytes_at (ram w) KERNEL_BASE_ADDR 0x100000 = kernel_image (blk w) sdhc"
proof -
  let ?im = "kernel_image (blk w) sdhc"
  show all: "bytes_at (ram w) KERNEL_BASE_ADDR 0x100000 = ?im"
    unfolding assms bytes_at_def by (rule put_ram_load) (simp_all add: image_length)
  have "mem_load (regs H) (ddr_addr 0) 4 w = map (\<lambda>i. ram w (KERNEL_BASE_ADDR + of_nat i)) [0..<4]"
    by (simp add: load_ram ddr_addr_def DDR_BASE_def KERNEL_BASE_ADDR_def)
  also have "\<dots> = take 4 (bytes_at (ram w) KERNEL_BASE_ADDR 0x100000)" unfolding bytes_at_def by (simp only: take_map take_upt) simp
  finally have "ddr_word H w 0 = rd32 (take 4 ?im) 0" using all by (simp add: ddr_word_def)
  also have "\<dots> = rd32 ?im 0" by (rule rd32_cong) simp_all
  finally show "ddr_word H w 0 = rd32 ?im 0" .
qed

text \<open>What a run of a sequence shows, given what holds in between.\<close>

lemma then_result:
  assumes "outcome live P (m w)" "\<And>x w'. P x w' \<Longrightarrow> G (f x w')" "\<not> live \<Longrightarrow> G None" "\<And>w'. \<not> live \<Longrightarrow> G (Some (Inl w'))"
  shows "G (bbind m f w)"
  using assms by (cases "m w") (auto simp: bbind_def split: sum.splits)

lemma goes_then:
  assumes "runs live R Q m" "\<And>x w'. R w w' \<Longrightarrow> (live \<Longrightarrow> Q x) \<Longrightarrow> G (f x w')" "\<not> live \<Longrightarrow> G None" "\<And>w'. \<not> live \<Longrightarrow> G (Some (Inl w'))"
  shows "G (bbind m f w)"
  by (rule then_result [where m = m and P = "\<lambda>x w'. R w w' \<and> (live \<longrightarrow> Q x)"]) (use assms in \<open>auto simp: runs_def\<close>)

lemma jump_result:
  defines "valid \<equiv> (\<lambda>w. kernel_magic (ddr_word H w 0))"
  shows "case boot_jump H a w of None \<Rightarrow> \<not> live | Some (Inl w') \<Rightarrow> \<not> (live \<and> valid w) | Some (Inr (e, w')) \<Rightarrow> valid w \<and> same w w' \<and> e = kernel_call a"
proof -
  let ?G = "\<lambda>r. case r of None \<Rightarrow> \<not> live | Some (Inl w') \<Rightarrow> \<not> (live \<and> valid w) | Some (Inr (e, w')) \<Rightarrow> valid w \<and> same w w' \<and> e = kernel_call a"
  have G: "?G (check_magic H a (ddr_word H w1 0) w1)" if s: "same w w1" for w1
  proof -
    have word: "ddr_word H w1 0 = ddr_word H w 0" using s by (simp add: ddr_word_def load_ram same_def ddr_addr_def)
    show ?thesis
    proof (cases "valid w")
      case True
      have "?G (bseq (ball ms) (bret (kernel_call a)) w1)" if "\<forall>m\<in>set ms. goes live same m" for ms
        by (rule goes_then [OF same_all [OF that], where G = ?G]) (use True same_trans [OF s] in \<open>simp_all add: bret_def\<close>)
      then show ?thesis using True unfolding check_magic_def word valid_def by (simp only: not_True_eq_False if_False) (simp add: goes_out del: ball.simps)
    next
      case False
      have "?G (bseq (ball ms) (bl_panic H m) w1)" if "\<forall>m\<in>set ms. goes live same m" for ms m
        unfolding bl_panic_def
        by (rule goes_then [OF same_all [OF that], where G = ?G], rule goes_then [OF same_all, where G = ?G])
          (use False in \<open>simp_all add: goes_puts bhalt_def del: bl_uart_puts.simps\<close>)
      then show ?thesis using False unfolding check_magic_def word valid_def by (simp only: not_False_eq_True if_True) (simp add: goes_out del: ball.simps)
    qed
  qed
  show ?thesis unfolding boot_jump_def
    by (rule goes_then [OF same_all, where G = ?G]) (simp_all add: goes_puts G del: ball.simps)
qed

lemma main_result:
  "let image = kernel_image (blk w) high; valid = kernel_magic (rd32 image 0) in
     case bootloader_main H a w of
       None \<Rightarrow> \<not> live
     | Some (Inl w') \<Rightarrow> \<not> (live \<and> valid)
     | Some (Inr (e, w')) \<Rightarrow> valid \<and> e = kernel_call a \<and> blk w' = blk w \<and> bytes_at (ram w') KERNEL_BASE_ADDR 0x100000 = image"
proof -
  let ?G = "\<lambda>r. let image = kernel_image (blk w) high; valid = kernel_magic (rd32 image 0) in
     case r of None \<Rightarrow> \<not> live | Some (Inl w') \<Rightarrow> \<not> (live \<and> valid)
     | Some (Inr (e, w')) \<Rightarrow> valid \<and> e = kernel_call a \<and> blk w' = blk w \<and> bytes_at (ram w') KERNEL_BASE_ADDR 0x100000 = image"
  have jump: "?G (boot_jump H a w4)" if w4: "blk w4 = blk w" "ram w4 = put_ram KERNEL_BASE_ADDR (kernel_image (blk w) high) f" for w4 f
  proof -
    have r: "ram w4 = put_ram KERNEL_BASE_ADDR (kernel_image (blk w4) high) f" using w4 by simp
    show ?thesis using jump_result [where a = a and w = w4] image_word [OF r] w4(1)
      by (auto simp: Let_def same_def split: option.splits sum.splits)
  qed
  have load: "?G (bseq (boot_load H) (boot_jump H a) w3)" if "blk w3 = blk w" for w3
    by (rule then_result [OF load_image, where G = ?G]) (use jump that in \<open>auto simp: Let_def\<close>)
  show ?thesis unfolding bootloader_main_def
    by (rule goes_then [OF goes_early, where G = ?G], rule goes_then [OF goes_banner, where G = ?G], rule goes_then [OF goes_dram, where G = ?G], rule load)
      (simp_all add: same_def card_kept_def Let_def)
qed

end

subsection \<open>A board\<close>

record boot_sim =
  bs_sd :: sim_sd
  bs_ram :: "u32 \<Rightarrow> u8"
  bs_out :: "u8 list"

definition sim_read :: "u32 \<Rightarrow> boot_sim \<Rightarrow> u32 \<times> boot_sim" where
  "sim_read r w =
     (if r = UART0_LSR then (0x60, w) else if r = WDT1_WWPS then (0, w)
      else if r \<in> {CM_PER_EMIF_CLKCTRL, CM_PER_MMC0_CLKCTRL, CM_WKUP_UART0_CLKCTRL} then (2, w)
      else if r = MMC_SYSSTATUS then (1, w) else if r = MMC_SYSCTL then (2, w) else if r = MMC_HCTL then (0x100, w)
      else if r = MMC_RSP10 then (0xC0000000, w)
      else case mmio_read32 sd_bus r (bs_sd w) of (v, d) \<Rightarrow> (v, w\<lparr>bs_sd := d\<rparr>))"

definition sim_board :: "boot_sim board" where
  "sim_board = \<lparr>regs = \<lparr>mmio_read32 = sim_read, mmio_write32 = (\<lambda>r v w. w\<lparr>bs_sd := mmio_write32 sd_bus r v (bs_sd w)\<rparr>),
     mem_load = (\<lambda>a n w. map (\<lambda>i. bs_ram w (a + of_nat i)) [0..<n]), mem_store = (\<lambda>a bs w. w\<lparr>bs_ram := put_ram a bs (bs_ram w)\<rparr>),
     timer_get_ticks = (\<lambda>w. (0, w))\<rparr>,
     writeb = (\<lambda>r b w. w\<lparr>bs_out := bs_out w @ [b]\<rparr>)\<rparr>"

lemma mmc_wait_now: "mmio_read32 B r w = (v, w') \<Longrightarrow> ok v \<Longrightarrow> 0 < t \<Longrightarrow> fst (mmc_wait B r ok t w)"
  by (cases t) auto

lemma data_wait_now: "mmio_read32 B MMC_STAT w = (v, w') \<Longrightarrow> v AND flag \<noteq> 0 \<Longrightarrow> 0 < t \<Longrightarrow> fst (data_wait B flag t w) = PollOk"
  by (cases t) auto

lemma within_now: "mmio_read32 B r w = (v, w') \<Longrightarrow> ok v \<Longrightarrow> \<exists>n. within B r ok n w"
  by (intro exI [of _ "Suc 0"]) simp

lemma sim_reads: "mmio_read32 (regs sim_board) UART0_LSR w = (0x60, w)" "mmio_read32 (regs sim_board) WDT1_WWPS w = (0, w)"
  "r \<in> {CM_PER_EMIF_CLKCTRL, CM_PER_MMC0_CLKCTRL, CM_WKUP_UART0_CLKCTRL} \<Longrightarrow> mmio_read32 (regs sim_board) r w = (2, w)"
  "mmio_read32 (regs sim_board) MMC_SYSSTATUS w = (1, w)" "mmio_read32 (regs sim_board) MMC_SYSCTL w = (2, w)"
  "mmio_read32 (regs sim_board) MMC_HCTL w = (0x100, w)" "mmio_read32 (regs sim_board) MMC_STAT w = (0x33, w)"
  by (auto simp: sim_board_def sim_read_def sd_bus_def vx_consts)

lemma sim_sd_read: "mmio_read32 (regs sim_board) r w = (v, w') \<Longrightarrow>
  bs_ram w' = bs_ram w \<and> (sd_card (bs_sd w') = sd_card (bs_sd w)) \<and> (r \<noteq> MMC_DATA \<longrightarrow> bs_sd w' = bs_sd w)"
  by (auto simp: sim_board_def sim_read_def sd_bus_def sd_card_def split: if_splits)

lemma sim_data: "mmio_read32 (regs sim_board) MMC_DATA w = (case mmio_read32 sd_bus MMC_DATA (bs_sd w) of (v, d) \<Rightarrow> (v, w\<lparr>bs_sd := d\<rparr>))"
  by (simp add: sim_board_def sim_read_def vx_consts)

lemma sim_write: "mmio_write32 (regs sim_board) r v w = w\<lparr>bs_sd := mmio_write32 sd_bus r v (bs_sd w)\<rparr>"
  by (simp add: sim_board_def)

lemma sim_start: "bs_sd (mmc_start (regs sim_board) a cmd w) = mmc_start sd_bus a cmd (bs_sd w)"
  by (simp add: mmc_start_def sim_write)

interpretation board_sd: sd_host "regs sim_board" "sd_card \<circ> bs_sd" "\<lambda>w a. sd_sending (bs_sd w) a 0" "sd_sending \<circ> bs_sd"
    "\<lambda>w a. sd_taking (bs_sd w) a []" "sd_taking \<circ> bs_sd"
proof (unfold_locales, goal_cases)
  case 1 then show ?case by (simp add: sim.card_length)
next
  case 2 then show ?case by (simp add: sim_write sim.control_frame)
next
  case 3 then show ?case using sim_sd_read by auto
next
  case 4 then show ?case by (simp add: sim_start sim.read_start)
next
  case 5 then show ?case by (auto simp: sim_reads)
next
  case 6 then show ?case using sim.read_word by (auto simp: sim_data split: prod.splits)
next
  case 7 then show ?case by (auto simp: sim_reads)
next
  case 8 then show ?case by (simp add: sim_start sim.write_start)
next
  case 9 then show ?case by (auto simp: sim_reads)
next
  case (10 w a ws v) then show ?case using sim.write_word [of "bs_sd w" a ws v] by (simp add: sim_write)
next
  case (11 w a ws v w') then show ?case using sim.write_end [of "bs_sd w" a ws "0x33" "bs_sd w"] by (auto simp: sim_reads) (simp add: sd_bus_def)+
qed

lemma sim_ocr: "mmio_read32 (regs sim_board) MMC_RSP10 w = (0xC0000000, w)"
  by (simp add: sim_board_def sim_read_def vx_consts)

lemma sim_send_cmd: "fst (mmc_send_cmd (regs sim_board) cmd arg flags w) = 0"
proof -
  have "DATA_TIMEOUT = Suc (Suc 9999998)" by (simp add: DATA_TIMEOUT_def)
  then obtain t where t: "DATA_TIMEOUT = Suc (Suc t)" by blast
  show ?thesis unfolding mmc_send_cmd_def t by (simp add: sim_reads MMC_STAT_CC_def MMC_STAT_ERRI_def)
qed

interpretation board: boot_board sim_board "sd_card \<circ> bs_sd" "\<lambda>w a. sd_sending (bs_sd w) a 0" "sd_sending \<circ> bs_sd"
    "\<lambda>w a. sd_taking (bs_sd w) a []" "sd_taking \<circ> bs_sd" bs_ram True True
proof (unfold_locales, goal_cases)
  case (1 w)
  have "powers_up (regs sim_board) (Suc n) w" for n by (simp add: sim_send_cmd sim_ocr split_beta)
  from this [of 1999] show ?case by simp
next
  case 2 then show ?case by (auto simp: sim_ocr)
next
  case 3 then show ?case using sim_sd_read by auto
next
  case 4 then show ?case by (simp add: sim_write)
next
  case 10 show ?case by (rule within_now [OF sim_reads(1)]) (simp add: vx_consts)
next
  case 11 show ?case by (rule within_now [OF sim_reads(1)]) (simp add: vx_consts)
next
  case 12 show ?case by (rule within_now [OF sim_reads(2)]) simp
next
  case 13 then show ?case by (intro within_now [OF sim_reads(3)]) simp_all
next
  case 14 then show ?case by (intro within_now [OF sim_reads(3)]) simp_all
next
  case 15 then show ?case by (intro mmc_wait_now [OF sim_reads(4)]) simp_all
next
  case 16 then show ?case by (intro mmc_wait_now [OF sim_reads(5)]) (simp_all add: vx_consts)
next
  case 17 then show ?case by (intro mmc_wait_now [OF sim_reads(6)]) (simp_all add: vx_consts)
next
  case 18 then show ?case by (intro mmc_wait_now [OF sim_reads(5)]) (simp_all add: vx_consts)
next
  case 19 then show ?case by (intro mmc_wait_now [OF sim_reads(5)]) simp_all
next
  case 20 then show ?case by (intro mmc_wait_now [OF sim_reads(7)]) simp_all
next
  case 21 then show ?case by (intro data_wait_now [OF sim_reads(7)]) (simp_all add: vx_consts DATA_TIMEOUT_def)
next
  case 22 then show ?case by (intro mmc_wait_now [OF sim_reads(7)]) (simp_all add: vx_consts DATA_TIMEOUT_def)
qed (simp_all add: sim_board_def)

text \<open>C3: the boot loader from reset to the jump, on any board whose memory keeps what is stored in it, whose
  controller keeps the data phases of the SD specification, and whose card is ready within 2000 requests and
  shows its capacity then.  It jumps to the kernel only when the megabyte at \<open>0x80000000\<close> holds exactly the
  2048 sectors of the card from sector 2048 on, found by sector numbers on a high-capacity card and by byte
  addresses on any other, and the first word of the image is a branch or a load of the program counter,
  with the registers and parameters of the boot protocol, and has changed no sector.  On a board whose
  waits are answered (\<open>live\<close>) it never hangs, and it jumps unless the image is not valid.\<close>

theorem bootloader_main_loads:
  assumes "boot_board H blk reading sending writing taking ram live high_capacity"
  shows "let image = kernel_image (blk w) high_capacity; valid = kernel_magic (rd32 image 0) in
     case bootloader_main H a_params w of
       None \<Rightarrow> \<not> live
     | Some (Inl w') \<Rightarrow> \<not> (live \<and> valid)
     | Some (Inr (e, w')) \<Rightarrow> valid \<and> e = kernel_call a_params \<and> blk w' = blk w \<and>
         bytes_at (ram w') KERNEL_BASE_ADDR 0x100000 = image"
  by (rule boot_board.main_result [OF assms])

definition demo_board_state :: boot_sim where
  "demo_board_state = \<lparr>bs_sd = \<lparr>sd_blocks = (\<lambda>a. [6, 0, 0, 0xEA] @ replicate 508 0), sd_arg = 0, sd_pos = 0, sd_words = []\<rparr>, bs_ram = (\<lambda>a. 0xFF), bs_out = []\<rparr>"

theorem bootloader_main_loads_witness:
  "\<exists>w'. bootloader_main sim_board 0x402F0400 demo_board_state = Some (Inr (kernel_call 0x402F0400, w')) \<and> bs_ram w' 0x80000003 = 0xEA"
proof -
  have b: "(sd_card \<circ> bs_sd) demo_board_state a = [6, 0, 0, 0xEA] @ replicate 508 0" for a by (simp add: sd_card_def demo_board_state_def)
  have im: "kernel_image ((sd_card \<circ> bs_sd) demo_board_state) sdhc ! k = ([6, 0, 0, 0xEA] :: u8 list) ! k" if "k < 4" for sdhc k
  proof -
    have "unat KERNEL_SIZE_SECTORS = Suc 2047" by (simp add: KERNEL_SIZE_SECTORS_def)
    then have "[0..<unat KERNEL_SIZE_SECTORS] = 0 # [Suc 0..<unat KERNEL_SIZE_SECTORS]" by (intro upt_conv_Cons) (simp only: zero_less_Suc)
    then obtain xs where "kernel_image ((sd_card \<circ> bs_sd) demo_board_state) sdhc = ([6, 0, 0, 0xEA] @ replicate 508 0) @ xs"
      unfolding kernel_image_def by (simp only: list.map concat.simps b)
    moreover have "k < length ([6, 0, 0, 0xEA] :: u8 list)" using that by simp
    ultimately show ?thesis by (simp only: append_assoc nth_append if_True)
  qed
  have "rd32 (kernel_image ((sd_card \<circ> bs_sd) demo_board_state) sdhc) 0 = rd32 [6, 0, 0, 0xEA] 0" for sdhc by (rule rd32_cong) (simp only: add_0 im)
  then have valid: "kernel_magic (rd32 (kernel_image ((sd_card \<circ> bs_sd) demo_board_state) sdhc) 0)" for sdhc
    by (simp add: kernel_magic_def rd32_def)
  have G: "case bootloader_main sim_board 0x402F0400 demo_board_state of None \<Rightarrow> \<not> True | Some (Inl w') \<Rightarrow> \<not> (True \<and> True)
     | Some (Inr (e, w')) \<Rightarrow> True \<and> e = kernel_call 0x402F0400 \<and> (sd_card \<circ> bs_sd) w' = (sd_card \<circ> bs_sd) demo_board_state \<and>
         bytes_at (bs_ram w') KERNEL_BASE_ADDR 0x100000 = kernel_image ((sd_card \<circ> bs_sd) demo_board_state) True"
    using bootloader_main_loads [OF board.boot_board_axioms, of demo_board_state "0x402F0400"] valid unfolding Let_def by (simp only: valid)
  then obtain w' where r: "bootloader_main sim_board 0x402F0400 demo_board_state = Some (Inr (kernel_call 0x402F0400, w'))"
    "bytes_at (bs_ram w') KERNEL_BASE_ADDR 0x100000 = kernel_image ((sd_card \<circ> bs_sd) demo_board_state) True"
    by (auto split: option.splits sum.splits)
  have "bs_ram w' (KERNEL_BASE_ADDR + of_nat 3) = bytes_at (bs_ram w') KERNEL_BASE_ADDR 0x100000 ! 3"
    by (subst bytes_at_nth) simp_all
  then show ?thesis using r im [of 3] by (simp add: KERNEL_BASE_ADDR_def)
qed

end
