(* ===== verification/Apps.thy ===== *)
theory Apps
  imports Ufile Umalloc
begin

section \<open>\<open>init\<close> and the programs of \<open>/bin\<close> (\<open>userspace/apps\<close>)\<close>

text \<open>
  The main functions of \<open>init\<close> and of the small programs, on the machine of \<open>Ucalls\<close>.  An argument is the
  address of its text with the text.  What goes to the kernel by address is at the addresses of \<open>app_env\<close>:
  the staging array of \<open>printf\<close>, the local buffer, the status word and the string literals.  \<open>None\<close> is control
  that does not come back.
\<close>

record app_env =
  at_staging :: u32
  at_buf :: u32
  at_status :: u32
  at_argv :: u32
  at_bin_sh :: u32
  at_sh :: u32
  at_meminfo :: u32
  at_root :: u32

type_synonym ('w, 'a) app = "'w uproc \<Rightarrow> ('a \<times> 'w uproc) option"
type_synonym app_arg = "u32 \<times> cstring"

definition aret :: "'a \<Rightarrow> ('w, 'a) app" where
  "aret x p = Some (x, p)"

definition abind :: "('w, 'a) app \<Rightarrow> ('a \<Rightarrow> ('w, 'b) app) \<Rightarrow> ('w, 'b) app" where
  "abind m f p = (case m p of None \<Rightarrow> None | Some (x, q) \<Rightarrow> f x q)"

abbreviation aseq :: "('w, 'a) app \<Rightarrow> ('w, 'b) app \<Rightarrow> ('w, 'b) app" where
  "aseq m k \<equiv> abind m (\<lambda>_. k)"

fun aall :: "('w, 'a) app list \<Rightarrow> ('w, unit) app" where
  "aall [] = aret ()"
| "aall (m # ms) = aseq m (aall ms)"

text \<open>\<open>printf\<close> of the library: the formatter with its output to descriptor 1.\<close>

definition app_printf :: "'w machine \<Rightarrow> app_env \<Rightarrow> cstring \<Rightarrow> fmt_arg list \<Rightarrow> ('w, int) app" where
  "app_printf M A fmt ap p = (case uprintf fmt ap of (n, calls) \<Rightarrow> map_option (Pair n) (flush_calls M (at_staging A) calls p))"

abbreviation aprint :: "'w machine \<Rightarrow> app_env \<Rightarrow> string \<Rightarrow> fmt_arg list \<Rightarrow> ('w, int) app" where
  "aprint M A txt ap \<equiv> app_printf M A (cstr txt) ap"

abbreviation aprintln :: "'w machine \<Rightarrow> app_env \<Rightarrow> string \<Rightarrow> fmt_arg list \<Rightarrow> ('w, int) app" where
  "aprintln M A txt ap \<equiv> app_printf M A (cstr txt @ [10]) ap"

abbreviation atxt :: "cstring \<Rightarrow> fmt_arg" where "atxt t \<equiv> AStr (Some t)"
abbreviation anum :: "int \<Rightarrow> fmt_arg" where "anum n \<equiv> AInt (of_int n)"

definition abytes :: "'w machine \<Rightarrow> u32 \<Rightarrow> nat \<Rightarrow> 'w uproc \<Rightarrow> u8 list" where
  "abytes M a n p = map (\<lambda>i. ld8 M (a + of_nat i) (uworld p)) [0..<n]"

definition aload32 :: "'w machine \<Rightarrow> u32 \<Rightarrow> ('w, u32) app" where
  "aload32 M a p = Some (rd32 (abytes M a 4 p) 0, p)"

definition aload_str :: "'w machine \<Rightarrow> u32 \<Rightarrow> ('w, cstring) app" where
  "aload_str M a p = (case strlen_at M a p of None \<Rightarrow> None | Some n \<Rightarrow> Some (abytes M a n p, p))"

definition astore :: "'w machine \<Rightarrow> u32 \<Rightarrow> u8 list \<Rightarrow> ('w, unit) app" where
  "astore M a bs p = Some ((), st_bytes M a bs p)"

subsection \<open>\<open>init\<close>\<close>

definition init_child :: "'w machine \<Rightarrow> app_env \<Rightarrow> ('w, unit) app" where
  "init_child M A =
     aseq (astore M (at_argv A) (le32 (at_sh A) @ le32 0))
     (aseq (execve M (at_bin_sh A) (at_argv A) 0) (aseq (execve M (at_sh A) (at_argv A) 0)
     (aseq (app_printf M A (cstr ''[INIT] exec sh failed '' @ [0xE2, 0x80, 0x94] @ cstr '' /bin/sh missing'' @ [10]) [])
     (aseq (uexit M 127) (aret ())))))"

definition init_round :: "'w machine \<Rightarrow> app_env \<Rightarrow> ('w, unit) app" where
  "init_round M A = abind (ufork M) (\<lambda>pid.
     if pid < 0 then aseq (aprintln M A ''[INIT] fork failed, pausing'' []) (aseq (usleep_seconds M 1) (aret ()))
     else if pid = 0 then init_child M A
     else aseq (astore M (at_status A) (le32 0)) (abind (waitpid M (- 1) (at_status A) 0) (\<lambda>reaped.
       abind (aload32 M (at_status A)) (\<lambda>status.
       aseq (aprintln M A ''[INIT] shell pid=%d exited (status=%d), respawning'' [anum reaped, AInt status])
         (aseq (usleep_seconds M 1) (aret ()))))))"

definition init_start :: "'w machine \<Rightarrow> app_env \<Rightarrow> ('w, unit) app" where
  "init_start M A = abind (getpid M) (\<lambda>pid.
     aall [app_printf M A ([10] @ cstr ''[INIT] VinixOS init (pid=%d)'' @ [10]) [anum pid], aprintln M A ''[INIT] launching /sh...'' []])"

subsection \<open>\<open>cat\<close> and \<open>free\<close>\<close>

partial_function (option) dump_loop :: "'w machine \<Rightarrow> u32 \<Rightarrow> int \<Rightarrow> 'w uproc \<Rightarrow> (int \<times> 'w uproc) option" where
  "dump_loop M buf fd p = (case uread M fd buf 256 p of
     None \<Rightarrow> None
   | Some (n, q) \<Rightarrow>
       if n > 0 then (case uwrite M 1 buf (of_int n) q of None \<Rightarrow> None | Some (_, q) \<Rightarrow> dump_loop M buf fd q) else Some (n, q))"

definition dump :: "'w machine \<Rightarrow> app_env \<Rightarrow> int \<Rightarrow> ('w, int) app" where
  "dump M A fd = abind (dump_loop M (at_buf A) fd) (\<lambda>n. aret (if n < 0 then 1 else 0))"

fun cat_files :: "'w machine \<Rightarrow> app_env \<Rightarrow> app_arg list \<Rightarrow> int \<Rightarrow> ('w, int) app" where
  "cat_files M A [] rc = aret rc"
| "cat_files M A (a # as) rc = abind (uopen M (fst a) uO_RDONLY) (\<lambda>fd.
     if fd < 0 then aseq (aprintln M A ''cat: %s: open failed'' [atxt (snd a)]) (cat_files M A as 1)
     else abind (dump M A fd) (\<lambda>r. aseq (uclose M fd) (cat_files M A as (if r \<noteq> 0 then 1 else rc))))"

definition cat_main :: "'w machine \<Rightarrow> app_env \<Rightarrow> app_arg list \<Rightarrow> ('w, int) app" where
  "cat_main M A argv = (if length argv < 2 then dump M A 0 else cat_files M A (tl argv) 0)"

definition free_main :: "'w machine \<Rightarrow> app_env \<Rightarrow> app_arg list \<Rightarrow> ('w, int) app" where
  "free_main M A argv = abind (uopen M (at_meminfo A) uO_RDONLY) (\<lambda>fd.
     if fd < 0 then aseq (aprintln M A ''free: /proc/meminfo: open failed'' []) (aret 1)
     else aseq (dump_loop M (at_buf A) fd) (aseq (uclose M fd) (aret 0)))"

subsection \<open>The others\<close>

fun echo_words :: "'w machine \<Rightarrow> app_env \<Rightarrow> bool \<Rightarrow> app_arg list \<Rightarrow> ('w, unit) app" where
  "echo_words M A first [] = aret ()"
| "echo_words M A first (a # as) =
     aseq (if first then aret 0 else aprint M A '' '' []) (aseq (aprint M A ''%s'' [atxt (snd a)]) (echo_words M A False as))"

definition echo_main :: "'w machine \<Rightarrow> app_env \<Rightarrow> app_arg list \<Rightarrow> ('w, int) app" where
  "echo_main M A argv = aseq (echo_words M A True (tl argv)) (aseq (app_printf M A [10] []) (aret 0))"

text \<open>\<open>hello\<close> also uses the heap of the C library.\<close>

definition hello_malloc :: "'w machine \<Rightarrow> app_env \<Rightarrow> uheap \<Rightarrow> ('w, unit) app" where
  "hello_malloc M A h p = (case malloc 64 h of
     None \<Rightarrow> None
   | Some (None, h) \<Rightarrow> Some ((), p)
   | Some (Some msg, h) \<Rightarrow> (case put_bytes msg (cstr ''  malloc works: '' @ [0]) h of
        Inl e \<Rightarrow> None
      | Inr h \<Rightarrow>
          let t = takeWhile (\<lambda>c. c \<noteq> 0) (get_bytes msg 64 h) in
          (case aprintln M A ''%s%d bytes returned, len=%d'' [atxt t, anum 64, anum (int (ustrlen t))] p of
             None \<Rightarrow> None
           | Some (_, q) \<Rightarrow> (case free (Some msg) h of Some (Inr h) \<Rightarrow> Some ((), q) | _ \<Rightarrow> None))))"

definition hello_main :: "'w machine \<Rightarrow> app_env \<Rightarrow> uheap \<Rightarrow> app_arg list \<Rightarrow> ('w, int) app" where
  "hello_main M A h argv = aseq (aprintln M A ''Hello from an external VinixOS program!'' [])
     (abind (getpid M) (\<lambda>pid. abind (getppid M) (\<lambda>ppid.
       aseq (aprintln M A ''  pid=%d  ppid=%d'' [anum pid, anum ppid]) (aseq (hello_malloc M A h) (aret 0)))))"

definition kill_main :: "'w machine \<Rightarrow> app_env \<Rightarrow> app_arg list \<Rightarrow> ('w, int) app" where
  "kill_main M A argv =
     (if length argv < 2 then aseq (aprintln M A ''Usage: kill <pid>'' []) (aret 1)
      else let pid = atoi (snd (argv ! 1)) in abind (ukill M pid 9) (\<lambda>r.
        if r < 0 then aseq (aprintln M A ''kill: pid %d: cannot signal'' [anum pid]) (aret 1) else aret 0))"

definition ls_main :: "'w machine \<Rightarrow> app_env \<Rightarrow> app_arg list \<Rightarrow> ('w, int) app" where
  "ls_main M A argv =
     (let path = (if length argv \<ge> 2 then argv ! 1 else (at_root A, cstr ''/'')) in
      abind (usys_listdir M (fst path) (at_buf A) 32) (\<lambda>n.
        if n < 0 then aseq (aprintln M A ''ls: %s: error %d'' [atxt (snd path), anum n]) (aret 1)
        else aseq (aall (map (\<lambda>i. abind (aload_str M (at_buf A + 36 * of_nat i)) (\<lambda>name. aprintln M A ''  %s'' [atxt name])) [0..<nat n])) (aret 0)))"

definition mv_main :: "'w machine \<Rightarrow> app_env \<Rightarrow> app_arg list \<Rightarrow> ('w, int) app" where
  "mv_main M A argv =
     (if length argv < 3 then aseq (aprintln M A ''Usage: mv <src> <dst>'' []) (aret 1)
      else abind (urename M (fst (argv ! 1)) (fst (argv ! 2))) (\<lambda>r.
        if r < 0 then aseq (app_printf M A (cstr ''mv: cannot rename '' @ [39] @ cstr ''%s'' @ [39] @ cstr '' -> '' @ [39] @ cstr ''%s'' @ [39, 10])
          [atxt (snd (argv ! 1)), atxt (snd (argv ! 2))]) (aret 1)
        else aret 0))"

definition app_state :: "u32 \<Rightarrow> cstring" where
  "app_state v = (if v = 0 then cstr ''READY'' else if v = 1 then cstr ''RUNNING'' else if v = 2 then cstr ''BLOCKED''
     else if v = 3 then cstr ''ZOMBIE'' else cstr ''?'')"

definition ps_row :: "'w machine \<Rightarrow> app_env \<Rightarrow> nat \<Rightarrow> ('w, int) app" where
  "ps_row M A i = (let a = at_buf A + 40 * of_nat i in
     abind (aload32 M a) (\<lambda>tid. abind (aload_str M (a + 4)) (\<lambda>name. abind (aload32 M (a + 36)) (\<lambda>st.
       aprintln M A ''%-6d%-24s%-10s'' [AInt tid, atxt name, atxt (app_state st)]))))"

definition ps_main :: "'w machine \<Rightarrow> app_env \<Rightarrow> app_arg list \<Rightarrow> ('w, int) app" where
  "ps_main M A argv = abind (usys_get_tasks M (at_buf A) 16) (\<lambda>n.
     if n < 0 then aseq (aprintln M A ''ps: error %d'' [anum n]) (aret 1)
     else aseq (aall [app_printf M A ([10] @ cstr ''%-6s%-24s%-10s'' @ [10]) [atxt (cstr ''PID''), atxt (cstr ''NAME''), atxt (cstr ''STATE'')],
         aprintln M A ''%-6s%-24s%-10s'' [atxt (cstr ''---''), atxt (cstr ''----''), atxt (cstr ''-----'')]])
       (aseq (aall (map (ps_row M A) [0..<nat n])) (aseq (app_printf M A [10] []) (aret 0))))"

definition pwd_main :: "'w machine \<Rightarrow> app_env \<Rightarrow> app_arg list \<Rightarrow> ('w, int) app" where
  "pwd_main M A argv p = (case getcwd M (at_buf A) 64 p of (r, q) \<Rightarrow>
     if r = 0 then aseq (aprintln M A ''pwd: getcwd failed'' []) (aret 1) q
     else abind (aload_str M (at_buf A)) (\<lambda>t. aseq (aprintln M A ''%s'' [atxt t]) (aret 0)) q)"

fun rm_files :: "'w machine \<Rightarrow> app_env \<Rightarrow> app_arg list \<Rightarrow> int \<Rightarrow> ('w, int) app" where
  "rm_files M A [] rc = aret rc"
| "rm_files M A (a # as) rc = abind (unlink M (fst a)) (\<lambda>r.
     if r < 0 then aseq (aprintln M A ''rm: %s: cannot remove'' [atxt (snd a)]) (rm_files M A as 1) else rm_files M A as rc)"

definition rm_main :: "'w machine \<Rightarrow> app_env \<Rightarrow> app_arg list \<Rightarrow> ('w, int) app" where
  "rm_main M A argv = (if length argv < 2 then aseq (aprintln M A ''Usage: rm <file>'' []) (aret 1) else rm_files M A (tl argv) 0)"

definition uname_main :: "'w machine \<Rightarrow> app_env \<Rightarrow> app_arg list \<Rightarrow> ('w, int) app" where
  "uname_main M A argv = aseq (aprintln M A ''VinixOS 0.1 armv7-a beaglebone-black'' []) (aret 0)"

subsection \<open>Exit status\<close>

text \<open>The library calls behind the programs give at least \<open>-1\<close>, so their test for a negative result is the test for a failure.\<close>

lemma posix_result: "posix call p = Some (r, q) \<Longrightarrow> - 1 \<le> r"
  by (auto simp: posix_def set_errno_from_def fail_with_def split: if_splits)

text \<open>The status of \<open>rm\<close> and \<open>cat\<close> over several files is 0 or 1, and a failure on one file is not forgotten on the next.\<close>

lemma rm_files_status: "rm_files M A as rc p = Some (r, q) \<Longrightarrow> rc \<in> {0, 1} \<Longrightarrow> r \<in> {0, 1} \<and> (rc = 1 \<longrightarrow> r = 1)"
  by (induction as arbitrary: rc p) (auto simp: aret_def abind_def split: option.splits if_splits)

lemma cat_files_status: "cat_files M A as rc p = Some (r, q) \<Longrightarrow> rc \<in> {0, 1} \<Longrightarrow> r \<in> {0, 1} \<and> (rc = 1 \<longrightarrow> r = 1)"
  by (induction as arbitrary: rc p) (auto simp: aret_def abind_def split: option.splits if_splits)

text \<open>The text of \<open>echo\<close>: each word goes out as it is.\<close>

lemma echo_word_text: "0 \<notin> set w \<Longrightarrow> ufmt_text (cstr ''%s'') [AStr (Some w)] = w"
  by (simp add: cstr_def ufmt_parse_def ufmt_conv_def utext_def uspace_def upad_def va_str_def ustrlen_eq strlen_nz)

end
