(* ===== verification/Boot_Screen.thy ===== *)
theory Boot_Screen
  imports Fb_Props Lcdc
begin

section \<open>The boot screens (\<open>kernel/src/ui/boot_screen.c\<close>)\<close>

text \<open>
  The boot log, the splash screen and the home screen, drawn with the primitives of \<open>Fb\<close> on the
  screen of the size that \<open>lcdc_get_width\<close> and \<open>lcdc_get_height\<close> give.  The delays between the steps have no effect
  on the framebuffer.  A drawing ends with the framebuffer or with a store out of bounds; \<open>None\<close> is a
  circle whose square root never ends.
\<close>

subsection \<open>The code\<close>

type_synonym drawing = "fb_state \<Rightarrow> (fault + fb_state) option"

definition draw :: "(fb_state \<Rightarrow> fault + fb_state) \<Rightarrow> drawing" where
  "draw f s = Some (f s)"

fun draw_all :: "drawing list \<Rightarrow> drawing" where
  "draw_all [] s = Some (Inr s)"
| "draw_all (d # ds) s = (case d s of None \<Rightarrow> None | Some (Inl e) \<Rightarrow> Some (Inl e) | Some (Inr s') \<Rightarrow> draw_all ds s')"

definition FB_BLACK :: u16 where [vx_consts]: "FB_BLACK = 0"
definition FB_WHITE :: u16 where [vx_consts]: "FB_WHITE = 0xFFFF"

definition labels :: "cstring list" where
  "labels = map cstr [''CPU: ARM Cortex-A8 800MHz (ARMv7-A)'', ''Board: BeagleBone Black Rev.C'', ''SoC: Texas Instruments AM335x'',
     ''Memory: 256MB DDR3 @ 400MHz'', ''MMU: Virtual memory enabled'', ''Watchdog: Disabled'', ''I2C0: Bus initialized (100kHz)'',
     ''LCDC: Framebuffer 800x600 RGB565'', ''DPLL: Display PLL locked @ 40MHz'', ''HDMI: TDA19988 TMDS link active'',
     ''INTC: Interrupt controller ready'', ''Timer: DMTimer2 (10ms preemptive tick)'', ''UART0: Console 115200 8N1'',
     ''Storage: SD/MMC card mounted'', ''VFS: Virtual filesystem mounted at /'', ''Scheduler: Round-robin preemptive ready'']"

fun label_lines :: "u32 \<Rightarrow> u32 \<Rightarrow> u32 \<Rightarrow> u16 \<Rightarrow> u16 \<Rightarrow> u16 \<Rightarrow> cstring list \<Rightarrow> drawing list" where
  "label_lines cx cy line_h txt_col ok_col bg [] = []"
| "label_lines cx cy line_h txt_col ok_col bg (l # ls) =
     [draw (fb_puts cx cy (cstr ''[ '') txt_col bg), draw (fb_puts (cx + 2 * FB_FONT_W) cy (cstr ''OK'') ok_col bg),
      draw (fb_puts (cx + 4 * FB_FONT_W) cy (cstr '' ]  '') txt_col bg), draw (fb_puts (cx + 8 * FB_FONT_W) cy l txt_col bg)] @
     label_lines cx (cy + line_h) line_h txt_col ok_col bg ls"

definition show_boot_log :: drawing where
  "show_boot_log =
     (let sw = lcdc_get_width; sh = lcdc_get_height; bg = FB_BLACK; border = FB_RGB 180 180 180; ok_col = FB_RGB 0 220 0;
          txt_col = FB_WHITE; done_col = FB_RGB 220 200 60; title_col = FB_RGB 180 180 180;
          bx = 20; byy = 20; bw = sw - 40; bh = sh - 40; cx = bx + 24; cy = byy + 20; line_h = FB_FONT_H + 4;
          cy1 = cy + (line_h + 8); cy2 = cy1 + of_nat (length labels) * line_h in
      draw_all ([draw (fb_clear bg),
        draw (fb_fillrect bx byy bw 1 border), draw (fb_fillrect bx (byy + bh - 1) bw 1 border),
        draw (fb_fillrect bx byy 1 bh border), draw (fb_fillrect (bx + bw - 1) byy 1 bh border),
        draw (fb_puts cx cy (cstr ''VinixOS Boot'') title_col bg)] @
        label_lines cx cy1 line_h txt_col ok_col bg labels @
        [draw (fb_puts cx (cy2 + line_h div 2) (cstr ''Boot complete. All services ready.'') done_col bg)]))"

definition dots_step :: "u32 \<Rightarrow> u32 \<Rightarrow> u16 \<Rightarrow> u16 \<Rightarrow> nat \<Rightarrow> drawing list" where
  "dots_step dot_x dots_y dot_col bg dots = draw (fb_fillrect dot_x dots_y (3 * FB_FONT_W) FB_FONT_H bg) #
     map (\<lambda>d. draw (fb_draw_char (dot_x + of_nat d * FB_FONT_W) dots_y 46 dot_col bg)) [0..<dots]"

definition show_splash :: drawing where
  "show_splash =
     (let sw = lcdc_get_width; sh = lcdc_get_height; bg = FB_RGB 10 10 46; scale = 6;
          tw = 8 * FB_FONT_W * scale; th = FB_FONT_H * scale; tx = (sw - tw) div 2; ty = sh div 3 - th div 2;
          s1w = 31 * FB_FONT_W; s2w = 52 * FB_FONT_W; dots_y = sh * 2 div 3 + 20; mw = 20 * FB_FONT_W;
          mx = (sw - (mw + 3 * FB_FONT_W)) div 2; dot_col = FB_RGB 136 136 136; dot_x = mx + mw in
      draw_all ([draw (fb_clear bg), draw (fb_puts_scaled tx ty (cstr ''VINIX OS'') FB_WHITE bg scale),
        draw (fb_puts ((sw - s1w) div 2) (ty + th + 30) (cstr ''Reference ARM Software Platform'') (FB_RGB 170 170 170) bg),
        draw (fb_puts ((sw - s2w) div 2) (ty + th + 56) (cstr ''Developed by Vinalinux - Vietnamese Operating System'') (FB_RGB 100 200 200) bg),
        draw (fb_puts mx dots_y (cstr ''Starting environment'') dot_col bg)] @
        concat (map (\<lambda>cycle. concat (map (dots_step dot_x dots_y dot_col bg) [1, 2, 3])) [0..<3])))"

record app_icon =
  icon_label :: cstring
  icon_symbol :: cstring
  sym_scale :: u8
  icon_color :: u16

fun icon_slen :: "cstring \<Rightarrow> u32" where
  "icon_slen [] = 0"
| "icon_slen (c # s) = (if c = 0 then 0 else icon_slen s + 1)"

definition draw_wifi :: "u32 \<Rightarrow> u32 \<Rightarrow> u16 \<Rightarrow> u16 \<Rightarrow> drawing" where
  "draw_wifi x y active dim = draw_all [draw (fb_fillrect x (y + 8) 3 4 dim), draw (fb_fillrect (x + 4) (y + 4) 3 8 active),
     draw (fb_fillrect (x + 8) y 3 12 active)]"

definition draw_battery :: "u32 \<Rightarrow> u32 \<Rightarrow> u32 \<Rightarrow> u16 \<Rightarrow> u16 \<Rightarrow> drawing" where
  "draw_battery x y level color bar_bg =
     (let fill_w = (level * 16) div 100 in
      draw_all ([draw (fb_fillrect x y 22 12 color), draw (fb_fillrect (x + 1) (y + 1) 20 10 bar_bg), draw (fb_fillrect (x + 22) (y + 3) 3 6 color)] @
        (if fill_w > 0 then [draw (fb_fillrect (x + 2) (y + 2) fill_w 8 color)] else [])))"

definition draw_page_dots :: "u32 \<Rightarrow> u32 \<Rightarrow> u16 \<Rightarrow> u16 \<Rightarrow> drawing" where
  "draw_page_dots cx cy active inactive = draw_all [fb_fillcircle (cx - 16) cy 4 active, fb_fillcircle cx cy 4 inactive, fb_fillcircle (cx + 16) cy 4 inactive]"

definition draw_app_icon :: "u32 \<Rightarrow> u32 \<Rightarrow> u32 \<Rightarrow> app_icon \<Rightarrow> u16 \<Rightarrow> drawing" where
  "draw_app_icon cx cy r icon bg =
     (let sc = ucast (sym_scale icon); sym_w = icon_slen (icon_symbol icon) * FB_FONT_W * sc; sym_h = FB_FONT_H * sc;
          lbl_w = icon_slen (icon_label icon) * FB_FONT_W in
      draw_all [fb_fillcircle (cx + 2) (cy + 3) r (FB_RGB 8 8 20), fb_fillcircle cx cy r (icon_color icon),
        draw (fb_puts_scaled (cx - sym_w div 2) (cy - sym_h div 2) (icon_symbol icon) FB_WHITE (icon_color icon) sc),
        draw (fb_puts (cx - lbl_w div 2) (cy + r + 12) (icon_label icon) FB_WHITE bg)])"

definition icons :: "app_icon list" where
  "icons = map (\<lambda>(l, sy, sc, c). \<lparr>icon_label = cstr l, icon_symbol = cstr sy, sym_scale = sc, icon_color = c\<rparr>)
     [(''Terminal'', ''>_'', 2, FB_RGB 255 193 7), (''Files'', ''F'', 3, FB_RGB 76 175 80), (''Settings'', ''#'', 3, FB_RGB 96 125 139),
      (''Network'', ''~'', 3, FB_RGB 0 150 136), (''System'', ''S'', 3, FB_RGB 63 81 181), (''Tasks'', ''T'', 3, FB_RGB 156 39 176),
      (''Clock'', ''O'', 3, FB_RGB 255 87 34), (''About'', ''?'', 3, FB_RGB 0 188 212)]"

definition show_home :: drawing where
  "show_home =
     (let sw = lcdc_get_width; sh = lcdc_get_height; bg_main = FB_RGB 18 18 38; bar_bg = FB_RGB 12 12 26; bar_sep = FB_RGB 40 50 75;
          bar_txt = FB_RGB 200 210 230; clk_col = FB_WHITE; sig_col = FB_RGB 0 200 80; sig_dim = FB_RGB 50 60 80; dot_dim = FB_RGB 55 65 90;
          cx_list = [100, 300, 500, 700]; cy_list = [184, 407]; icon_r = 55; bar_h = 44;
          clk_ty = (bar_h - FB_FONT_H * 2) div 2; ttw = 8 * FB_FONT_W * 2; tth = FB_FONT_H * 2;
          ind_y = (bar_h - 12) div 2; batt_x = sw - 16 - 25; wifi_x = batt_x - 8 - 11 in
      draw_all ([draw (fb_clear bg_main), draw (fb_fillrect 0 0 sw bar_h bar_bg), draw (fb_fillrect 0 (bar_h - 1) sw 1 bar_sep),
        draw (fb_puts_scaled 16 clk_ty (cstr ''10:07'') clk_col bar_bg 2),
        draw (fb_puts_scaled ((sw - ttw) div 2) ((bar_h - tth) div 2) (cstr ''VINIX OS'') bar_txt bar_bg 2),
        draw_wifi wifi_x ind_y sig_col sig_dim, draw_battery batt_x ind_y 80 sig_col bar_bg] @
        concat (map (\<lambda>row. map (\<lambda>col. draw_app_icon (cx_list ! col) (cy_list ! row) icon_r (icons ! (row * 4 + col)) bg_main) [0..<4]) [0..<2]) @
        [draw_page_dots (sw div 2) (sh - 18) FB_WHITE dot_dim]))"

definition boot_screen_run :: drawing where
  "boot_screen_run = draw_all [show_boot_log, show_splash, show_home]"

subsection \<open>Every drawing stays on the screen\<close>

definition stays :: "drawing \<Rightarrow> bool" where
  "stays d \<longleftrightarrow> (\<forall>s. fb_ok s \<longrightarrow> (\<exists>s'. d s = Some (Inr s') \<and> draws s s'))"

lemma stays_draw: "(\<And>s. fb_ok s \<Longrightarrow> \<exists>s'. f s = Inr s' \<and> draws s s') \<Longrightarrow> stays (draw f)"
  by (simp add: stays_def draw_def)

lemma stays_all: "\<forall>d\<in>set ds. stays d \<Longrightarrow> stays (draw_all ds)"
proof (induction ds)
  case (Cons d ds)
  have "\<exists>s'. draw_all (d # ds) s = Some (Inr s') \<and> draws s s'" if ok: "fb_ok s" for s
  proof -
    obtain s1 where s1: "d s = Some (Inr s1)" "draws s s1" using Cons.prems ok by (auto simp: stays_def)
    moreover obtain s2 where "draw_all ds s1 = Some (Inr s2)" "draws s1 s2"
      using Cons drawsD(10) [OF s1(2)] ok by (auto simp: stays_def)
    ultimately show ?thesis using draws_trans by auto
  qed
  then show ?case by (simp add: stays_def)
qed (simp add: stays_def)

text \<open>A rectangle of less than half the coordinate range never wraps on the screen, wherever it starts.\<close>

lemma fillrect_stays:
  assumes "fb_ok s" "unat w < 2 ^ 31" "unat h < 2 ^ 31"
  shows "\<exists>s'. fb_fillrect x y w h c s = Inr s' \<and> draws s s'"
proof (cases "x \<ge> g_width s \<or> y \<ge> g_height s")
  case False
  have lt: "unat x < unat (g_width s)" "unat y < unat (g_height s)" using False by (simp_all add: word_le_nat_alt)
  have area: "unat (g_width s) * unat (g_height s) < 2147483648" using assms(1) by (simp add: fb_ok_def)
  have "unat (g_width s) \<le> unat (g_width s) * unat (g_height s)" "unat (g_height s) \<le> unat (g_width s) * unat (g_height s)"
    using lt by simp_all
  moreover have "unat w < 2147483648" "unat h < 2147483648" using assms(2,3) by simp_all
  ultimately have "unat x + unat w < 4294967296" "unat y + unat h < 4294967296" using lt area by linarith+
  then have "unat x + unat w < 2 ^ 32" "unat y + unat h < 2 ^ 32" by simp_all
  then show ?thesis using fillrect_clipped [OF assms(1)] by blast
qed (simp add: fb_fillrect_def)

lemma stays_rect: "unat w < 2 ^ 31 \<Longrightarrow> unat h < 2 ^ 31 \<Longrightarrow> stays (draw (fb_fillrect x y w h c))"
  by (intro stays_draw fillrect_stays)

lemma then_draws:
  assumes "\<exists>s1. r = Inr s1 \<and> draws s s1" "fb_ok s" "\<And>s1. fb_ok s1 \<Longrightarrow> \<exists>s'. f s1 = Inr s' \<and> draws s1 s'"
  shows "\<exists>s'. fbind r f = Inr s' \<and> draws s s'"
proof -
  obtain s1 where s1: "r = Inr s1" "draws s s1" using assms(1) by blast
  obtain s2 where "f s1 = Inr s2" "draws s1 s2" using assms(2,3) drawsD(10) [OF s1(2)] by blast
  then show ?thesis using s1 draws_trans [OF s1(2)] by simp
qed

lemma stays_char: "stays (draw (fb_draw_char x y c fg bg))"
  by (rule stays_draw) (use fb_draw_char_pixels in blast)

lemma stays_puts: "stays (draw (fb_puts x y str fg bg))"
proof (rule stays_draw)
  show "\<exists>s'. fb_puts x y str fg bg s = Inr s' \<and> draws s s'" if "fb_ok s" for s
    using that
  proof (induction str arbitrary: x s)
    case (Cons c str)
    have "\<exists>s1. fb_draw_char x y c fg bg s = Inr s1 \<and> draws s s1" using fb_draw_char_pixels [OF Cons.prems] by blast
    from then_draws [OF this Cons.prems Cons.IH] show ?case by simp
  qed simp
qed

lemma stays_clear: "stays (draw (fb_clear c))"
proof (rule stays_draw)
  show "\<exists>s'. fb_clear c s = Inr s' \<and> draws s s'" if "fb_ok s" for s
  proof -
    have "unat (g_width s * g_height s) = unat (g_width s) * unat (g_height s)" using that by (simp add: fb_ok_def unat_word_ariths)
    then have "2 * unat (g_width s * g_height s div 2) \<le> length (g_fb s)" using that by (simp add: fb_ok_def unat_div)
    then show ?thesis using put_pairs_blit [of 0 "unat (g_width s * g_height s div 2)" s c] that by (simp add: fb_clear_def fb_ok_def)
  qed
qed

lemma stays_scaled:
  assumes "unat scale < 2 ^ 31"
  shows "stays (draw (fb_puts_scaled x y str fg bg scale))"
proof (rule stays_draw)
  have cols: "\<exists>s'. scaled_cols n x y bits fg bg scale s = Inr s' \<and> draws s s'" if "fb_ok s" for n x y bits s
    using that
  proof (induction n arbitrary: x bits s)
    case (Suc n)
    show ?case unfolding scaled_cols.simps by (rule then_draws [OF fillrect_stays [OF Suc.prems assms assms] Suc.prems Suc.IH])
  qed simp
  have rows: "\<exists>s'. scaled_rows bs x y fg bg scale s = Inr s' \<and> draws s s'" if "fb_ok s" for bs x y s
    using that
  proof (induction bs arbitrary: y s)
    case (Cons b bs)
    show ?case unfolding scaled_rows.simps by (rule then_draws [OF cols [OF Cons.prems] Cons.prems Cons.IH])
  qed simp
  show "\<exists>s'. fb_puts_scaled x y str fg bg scale s = Inr s' \<and> draws s s'" if "fb_ok s" for s
    using that
  proof (induction str arbitrary: x s)
    case (Cons c str)
    have "\<exists>s1. fb_draw_char_scaled x y c fg bg scale s = Inr s1 \<and> draws s s1"
      unfolding fb_draw_char_scaled_def by (rule rows [OF Cons.prems])
    from then_draws [OF this Cons.prems Cons.IH] show ?case by simp
  qed simp
qed

text \<open>The square root of a number below 2\^31 is found.\<close>

lemma isqrt_ends:
  assumes "unat n < 2 ^ 31" "unat x \<le> 46341"
  shows "\<exists>d. isqrt_loop n x = Some d \<and> unat d \<le> 46341"
  using assms(2)
proof (induction "46341 - unat x" arbitrary: x rule: less_induct)
  case less
  have u: "unat (x + 1) = unat x + 1" using less.prems by (simp add: unat_word_ariths)
  have "(unat x + 1) * (unat x + 1) \<le> 46342 * 46342" using less.prems by (intro mult_le_mono) simp_all
  then have sq: "unat ((x + 1) * (x + 1)) = (unat x + 1) * (unat x + 1)" using u by (simp add: unat_word_ariths)
  show ?case
  proof (cases "(x + 1) * (x + 1) \<le> n")
    case True
    have "unat x \<noteq> 46341" using True sq assms(1) by (auto simp: word_le_nat_alt)
    then have "unat x < 46341" using less.prems by simp
    then show ?thesis using less.hyps [of "x + 1"] u True by (subst isqrt_loop.simps) simp
  qed (use less.prems in \<open>subst isqrt_loop.simps, simp\<close>)
qed

lemma stays_circle:
  assumes "unat r \<le> 30000"
  shows "stays (fb_fillcircle cx cy r c)"
proof -
  have line: "\<exists>s'. circle_line cx cy r dy c s = Some (Inr s') \<and> draws s s'" if "fb_ok s" "unat dy \<le> unat r" for dy s
  proof -
    note ok = that(1)
    have "unat r * unat r \<le> 30000 * 30000" "unat dy * unat dy \<le> unat r * unat r" using assms that(2) by (intro mult_le_mono; simp)+
    then have "unat (r * r - dy * dy) < 2 ^ 31" by (simp add: unat_sub_if' unat_word_ariths)
    then obtain dx where dx: "fb_isqrt (r * r - dy * dy) = Some dx" "unat dx \<le> 46341" using isqrt_ends [of "r * r - dy * dy" 0] by (auto simp: fb_isqrt_def)
    have w: "unat (2 * dx + 1) < 2 ^ 31" "unat (1 :: u32) < 2 ^ 31" using dx(2) by (simp_all add: unat_word_ariths)
    have "\<exists>s'. fbind (fb_fillrect (cx - dx) (cy - dy) (2 * dx + 1) 1 c s) (\<lambda>s. if dy > 0 then fb_fillrect (cx - dx) (cy + dy) (2 * dx + 1) 1 c s else Inr s) = Inr s' \<and> draws s s'"
      by (rule then_draws [OF fillrect_stays [OF ok w] ok]) (use fillrect_stays [OF _ w] in simp)
    then show ?thesis by (simp only: circle_line_def dx(1) option.case) blast
  qed
  have loop: "\<exists>s'. circle_loop n dy cx cy r c s = Some (Inr s') \<and> draws s s'" if "fb_ok s" "unat dy + n \<le> Suc (unat r)" for n dy s
    using that
  proof (induction n arbitrary: dy s)
    case (Suc n)
    obtain s1 where s1: "circle_line cx cy r dy c s = Some (Inr s1)" "draws s s1" using line [OF Suc.prems(1), of dy] Suc.prems(2) by auto
    have "unat (dy + 1) = unat dy + 1" using Suc.prems(2) assms by (simp add: unat_word_ariths)
    then obtain s2 where "circle_loop n (dy + 1) cx cy r c s1 = Some (Inr s2)" "draws s1 s2"
      using Suc.IH [of s1 "dy + 1"] Suc.prems drawsD(10) [OF s1(2)] by auto
    then show ?case using s1 draws_trans by auto
  qed simp
  have "r \<noteq> 0xFFFFFFFF" using assms by auto
  then show ?thesis using loop [of _ 0 "Suc (unat r)"] by (simp add: stays_def fb_fillcircle_def del: circle_loop.simps)
qed

lemmas stays_rules = stays_rect stays_char stays_puts stays_clear stays_scaled stays_circle

lemma stays_labels: "\<forall>d\<in>set (label_lines cx cy line_h t k bg ls). stays d"
  by (induction ls arbitrary: cy) (auto simp: stays_puts)

lemma stays_log: "stays show_boot_log"
  unfolding show_boot_log_def Let_def
  by (rule stays_all) (use stays_labels in \<open>auto simp: stays_rules lcdc_get_width_def lcdc_get_height_def vx_consts\<close>)

lemma stays_splash: "stays show_splash"
  unfolding show_splash_def Let_def
  by (rule stays_all) (auto simp: stays_rules dots_step_def vx_consts)

lemma stays_icon: "unat r \<le> 30000 \<Longrightarrow> stays (draw_app_icon cx cy r i bg)"
proof -
  assume "unat r \<le> 30000"
  moreover have "unat (ucast k :: u32) < 2 ^ 31" for k :: u8 
  proof -
    have "unat k < 2 ^ 8" using unsigned_less [where ?'a = nat, of k] by simp
    then have "take_bit 32 (unat k) < 2 ^ 31" by (intro le_less_trans [OF take_bit_nat_less_eq_self]) simp
    then show ?thesis by (simp add: unsigned_ucast_eq)
  qed
  ultimately show ?thesis unfolding draw_app_icon_def Let_def by (intro stays_all) (simp add: stays_rules)
qed

lemma stays_home: "stays show_home"
proof -
  have "stays (draw_wifi x y a d)" "stays (draw_battery x y 80 a d)" "stays (draw_page_dots x y a d)" for x y a d
    unfolding draw_wifi_def draw_battery_def draw_page_dots_def Let_def by (rule stays_all, simp add: stays_rules)+
  then show ?thesis unfolding show_home_def Let_def
    by (intro stays_all) (auto simp: stays_rules stays_icon lcdc_get_width_def vx_consts)
qed

text \<open>The three screens are drawn to their end, without a store outside of the framebuffer, whatever its size.\<close>

lemma boot_screen_safe: "fb_ok s \<Longrightarrow> \<exists>s'. boot_screen_run s = Some (Inr s') \<and> draws s s'"
proof -
  have "stays boot_screen_run" unfolding boot_screen_run_def by (rule stays_all) (simp add: stays_log stays_splash stays_home)
  then show "fb_ok s \<Longrightarrow> ?thesis" by (simp add: stays_def)
qed

end
