(* ===== verification/Spec2Isabelle.thy ===== *)
theory Spec2Isabelle
  imports Netcore_Props Exec_Args Read_Path Umalloc Vmm Mmc_Props
    Fb_Props Hdmi_Props Mdio Watchdog Lcdc Exceptions Boot Shell_Props Bootloader_Props Apps Boot_Screen
begin

text \<open>
  A verification library for VinixOS (\<open>src/VinixOS\<close>), a Unix-like system for the AM335x (BeagleBone Black):
  a boot loader, a kernel with processes, virtual memory, a FAT32 file system, drivers and a network stack,
  a C library for user programs and a shell.  Every definition that models code is a translation of the
  functions its theory names; hardware and everything else that is not C code of the repository is a
  parameter with its contract.

  \<^bold>\<open>The system and how its parts interact.\<close>  The boot loader reads the kernel from the SD card and jumps to it.
  \<open>kernel_main\<close> builds memory management, registers devices and drivers on the platform bus, mounts the file
  systems and starts two tasks, the idle task and the shell.  From then on the kernel runs on interrupts
  and system calls.  \<open>svc_handler\<close> dispatches a call to the virtual file system, to the process code or to the
  scheduler.  The virtual file system picks a file system by the longest mount point; FAT32 goes through
  the buffer cache to a block device, which is the SD driver; devfs goes to the console; procfs renders the
  live state.  A process is a task slot, a kernel stack from the slab allocator, a first-level page table
  and a one-megabyte user section from the page allocator.  User programs reach the kernel through the
  wrappers of the C library, which the streams and the shell use.

  \<^bold>\<open>Foundations.\<close>
  \<^item> \<open>Vx_Base\<close>: the prelude.  Types of machine words and C strings, little-endian loads and stores on byte
    lists, searches in tables, and the lemma collection \<open>vx_consts\<close> of register and size constants.
  \<^item> \<open>Mmio\<close>: the bus.  A record of register reads and writes on an abstract world and the bounded waits the drivers share.
  \<^item> \<open>Klibc\<close>: \<open>kernel/libc\<close>, strings and the formatter.  \<open>Format_Spec\<close>: what a format means, as inductive relations between
    format, arguments and text that share nothing with the code (\<open>conv_text\<close>, \<open>printed\<close>); the formatters of the kernel and
    of user space are proved against them.

  \<^bold>\<open>Kernel: memory.\<close>
  \<^item> \<open>Page_Alloc\<close> (\<open>mm/page_alloc.c\<close>), \<open>Slab\<close> (\<open>mm/slab.c\<close>), \<open>Vmm\<close> (\<open>mm/vmm.c\<close>), \<open>Mmu\<close> (\<open>mmu/mmu.c\<close>): allocation is
    exact, the blocks that runs of \<open>kmalloc\<close> and \<open>kfree\<close> leave allocated are disjoint, freeing inverts allocation, and
    the tables give the kernel and a process exactly the addresses they are meant to have, for every address.  \<open>Slab\<close> rests on the locale \<open>page_provider\<close>,
    interpreted by the page allocator.

  \<^bold>\<open>Kernel: tasks.\<close>
  \<^item> \<open>Sched\<close> (\<open>scheduler/\<close>, \<open>sync/\<close>): the task table, round robin, wait queues, sleeping, atomics and spinlocks; no panic
    on a consistent table, fairness, and no starvation.
  \<^item> \<open>Process\<close> (\<open>proc/fork.c\<close>, \<open>proc/wait.c\<close>): fork, exit, wait and kill over the allocators and the scheduler; a fork fails
    only without room (\<open>fork_room\<close>), and copies and shares nothing it should not.
  \<^item> \<open>Exec\<close>, \<open>Exec_Args\<close> (\<open>proc/exec.c\<close>): the ELF loader; it writes only inside the user window, starts the program at
    the entry of its header, and the arguments reach the new program.
  \<^item> \<open>Svc\<close>, \<open>Svc_Props\<close> (\<open>core/svc_handler.c\<close>): the dispatcher and all calls over the composed state.
  \<^item> \<open>Exceptions\<close> (\<open>exceptions/\<close>): a fault of user code ends exactly the faulting process.
  \<^item> \<open>Boot\<close> (\<open>main.c\<close>, \<open>idle.c\<close>, the self-tests): boot establishes the invariant the calls rely on.

  \<^bold>\<open>Kernel: storage and files.\<close>
  \<^item> \<open>Block_Cache\<close> (\<open>block/\<close>): the write-back cache over the locale \<open>sector_device\<close>; reads show every write, and a sync puts it on the medium.
  \<^item> \<open>Mmc\<close>, \<open>Mmc_Props\<close> (\<open>drivers/mmc.c\<close>, \<open>mbr.c\<close>): the SD driver; the locale \<open>sd_host\<close> is the data protocol of the controller, and a
    \<open>sublocale\<close> makes it a sector device.
  \<^item> \<open>Fat32\<close>, \<open>Fat32_Props\<close> (\<open>fs/fat32.c\<close>): the whole driver; cluster chains, allocation and release.
  \<^item> \<open>Vfs\<close>, \<open>Vfs_Props\<close>, \<open>Devfs\<close> (\<open>fs/vfs.c\<close>, \<open>devfs.c\<close>, \<open>procfs.c\<close>, \<open>dev/char_dev.c\<close>): mounts, descriptors and the operation tables; the locale
    \<open>file_system\<close> is the contract of an operation table and is interpreted by the three file systems.

  \<^bold>\<open>Kernel: devices.\<close>
  \<^item> \<open>Irq\<close>, \<open>Uart\<close>, \<open>Timer\<close>, \<open>Platform\<close>, \<open>Watchdog\<close>: interrupts, the console with its receive ring (locale \<open>byte_queue\<close>),
    the tick and delays, driver binding, the watchdog.
  \<^item> \<open>Cpsw\<close>, \<open>Netcore\<close>, \<open>Netcore_Props\<close>, \<open>Mdio\<close>: Ethernet and the ARP, IP, ICMP code over the locales \<open>transmitter\<close> and \<open>pending_frame\<close>.
  \<^item> \<open>I2c\<close>, \<open>Hdmi\<close>, \<open>Hdmi_Props\<close>, \<open>Lcdc\<close>, \<open>Fb\<close>, \<open>Fb_Props\<close>, \<open>Boot_Screen\<close>: the display path, from the bus of the HDMI chip (locale \<open>hdmi_chip\<close>) to the
    pixels, the text console and the boot screens.

  \<^bold>\<open>User space.\<close>
  \<^item> \<open>Ulibc\<close>, \<open>Uprintf\<close>, \<open>Umalloc\<close> (\<open>vinixlibc/src\<close>): strings, numbers, formatted output and the allocator.
  \<^item> \<open>Ucalls\<close> (\<open>lib/syscall.c\<close>, \<open>unistd.c\<close>): a user program is a machine whose world is the kernel state; a wrapper sets
    registers and runs \<open>svc_handler\<close>.
  \<^item> \<open>Ufile\<close>, \<open>Ufile_Props\<close>, \<open>Read_Path\<close> (\<open>file.c\<close>): streams over the locale \<open>byte_stream\<close>, interpreted by a file of the FAT32
    volume through every layer of the kernel.
  \<^item> \<open>Shell\<close>, \<open>Shell_Props\<close> (\<open>apps/shell\<close>): line editor (locale \<open>user_memory\<close>), tokenizer, redirection, built-in commands, start of programs.
  \<^item> \<open>Apps\<close> (\<open>apps/\<close>): \<open>init\<close> and the small programs of \<open>/bin\<close>.

  \<^bold>\<open>Boot loader.\<close>
  \<^item> \<open>Bootloader\<close>, \<open>Bootloader_Props\<close> (\<open>bootloader/src\<close>): clocks, memory, SD card, load and jump, over the locale \<open>boot_board\<close>, which
    holds the card's capacity.

  \<^bold>\<open>Conventions.\<close>  A C structure is a record and a pointer into a fixed table an index or an address; 32-bit
  arithmetic is on words and wraps as in the code.  An operation takes the state and returns its result with
  the next state.  Errors are the codes of the source; an assertion that fails and a panic are values of their own.
  A loop that the code does not bound, such as a walk along a cluster chain or a wait for a register, is a
  \<^theory_text>\<open>partial_function\<close> whose value \<open>None\<close> says that it never ends, and each property proves that it ends where it claims
  a result.  A loop with a counter recurses on the counter, with the bound of the source.  Only the nesting
  of the receive callback in \<open>Netcore\<close> has a depth of its own, because there the code recurses without a bound;
  a property about it says at which depths it holds.  Console messages of drivers and delay loops that
  touch no register are left out, except where output is what a component does.

  \<^bold>\<open>Hardware.\<close>  The devices behind the bus are parameters.  What a driver relies on is a locale with the documented
  behaviour as its assumptions, interpreted on a small simulated device so that the assumptions are known
  to be satisfiable; the locales between components are interpreted on the model of the providing component.

  \<^bold>\<open>Not modelled.\<close>  The assembly (start-up code, vectors, the register swap of \<open>context_switch.S\<close>, cache and TLB maintenance);
  its effect on the state that the C code sees is part of the model (the change of the current task, the
  saved registers of a trap).  The cross compiler (Python), the reference sources under \<open>docs_trainingAI\<close> (third-party code that is not part of
  the system), the board test \<open>testcase/layer1\<close>, build scripts and linker scripts, whose addresses are
  parameters.  Caches, the memory model of the processor and preemption inside the kernel are outside
  of the model: kernel code runs to its next blocking point, and interrupts are steps of their own.
\<close>

section \<open>Properties across components\<close>

text \<open>C1: \<open>fread\<close> of the C library, from the call in a user program through the system call, the virtual
  file system, the FAT32 code and the buffer cache down to the sectors and back into user memory: on a
  stream whose descriptor is open on a file of the FAT32 volume and a buffer inside of user space it
  ends, the buffer holds exactly the bytes of the file from the offset of the descriptor on, cut at the
  requested size and at the end of the file, every other byte of user memory and every sector of the
  volume is as before, the offset has moved past the bytes read, the result is the number of whole
  objects, and the end-of-file mark is set exactly when the file was too short.  The stream is in use
  and has no pushed-back character, the size of an object is not 0 and the transfers of the disk succeed.\<close>

theorem fread_file:
  assumes "reliable_device D sector" "file_open E sector fd i cs (uworld p)"
    and "f_fd (get_file fp p) = fd" "live_file fp p" "f_pushback (get_file fp p) = EOF"
    and "sz \<noteq> 0" "unat sz * unat nmemb < 2 ^ 32" "fits ptr (unat sz * unat nmemb)"
    and "bs = take (unat sz * unat nmemb) (file_rest sector fd i cs (uworld p))"
  shows "\<exists>q. fread (vinix B (vinix_ops B D sizes) E rest) ptr sz nmemb fp p = Some (of_nat (length bs div unat sz), q) \<and>
    (\<forall>va. in_window va \<longrightarrow> user_mem E (uworld q) va =
       (let d = unat (va - ptr) in if d < length bs then bs ! d else user_mem E (uworld p) va)) \<and>
    file_open E sector fd i cs (uworld q) \<and>
    file_rest sector fd i cs (uworld q) = drop (length bs) (file_rest sector fd i cs (uworld p)) \<and>
    vol sector (fat (ksys (uworld q))) = vol sector (fat (ksys (uworld p))) \<and>
    (feof fp q \<longleftrightarrow> feof fp p \<or> length bs < unat sz * unat nmemb) \<and> (ferror fp q \<longleftrightarrow> ferror fp p)"
proof -
  let ?M = "vinix B (vinix_ops B D sizes) E rest"
  obtain q where q: "fread ?M ptr sz nmemb fp p = Some (of_nat (length bs div unat sz), q)" "file_open E sector fd i cs (uworld q)"
    "file_rest sector fd i cs (uworld q) = drop (length bs) (file_rest sector fd i cs (uworld p))"
    "stored ?M in_window ptr 0 bs (uworld p) (uworld q)"
    "feof fp q \<longleftrightarrow> feof fp p \<or> length bs < unat sz * unat nmemb" "ferror fp q \<longleftrightarrow> ferror fp p"
    "vol sector (fat (ksys (uworld q))) = vol sector (fat (ksys (uworld p)))"
    using fat_file.fread_ok [OF conjI [OF assms(1) conjI [OF assms(2) refl]] assms(3-9)] by blast
  moreover have "\<forall>va. in_window va \<longrightarrow> user_mem E (uworld q) va =
       (let d = unat (va - ptr) in if d < length bs then bs ! d else user_mem E (uworld p) va)"
    using q(4) by (simp add: stored_def vinix_def Let_def)
  ultimately show ?thesis by blast
qed

definition demo_fd :: vfs_fd where
  "demo_fd = \<lparr>fd_in_use = True, fd_file_index = 0, fd_offset = 510, fd_flags = 0, fd_ops = Some 0\<rparr>"

definition read_kernel :: "(unit, nat \<Rightarrow> u32 \<Rightarrow> u8 list, 's) kernel \<Rightarrow> (unit, nat \<Rightarrow> u32 \<Rightarrow> u8 list, 's) kernel" where
  "read_kernel k = k\<lparr>ksys := (demo_sys (ksys k))\<lparr>fat := demo_fat_state, boot_fd_table := (replicate MAX_FDS free_fd)[3 := demo_fd]\<rparr>,
     kmm := zero_mmu\<lparr>kpgd := pgds (mmu_install_user_section 0 USER_SPACE_VA 0x90000000 zero_mmu) 0\<rparr>\<rparr>"

definition read_proc :: "svc_context \<Rightarrow> 'w \<Rightarrow> 'w uproc" where
  "read_proc r w = \<lparr>uregs = r, errno = 0, uworld = w, files = [\<lparr>f_fd = 3, f_flags = FILE_IN_USE, f_pushback = EOF, f_owns_fd = 1\<rparr>], std_streams = std_init\<rparr>"

lemma read_kernel_open: "file_open E disk_sector 3 0 [3, 4] (read_kernel k)" "cur_fd 3 (read_kernel k) = demo_fd" "fat (ksys (read_kernel k)) = demo_fat_state"
proof -
  have fds: "current_fds (ksys (read_kernel k)) = (replicate MAX_FDS free_fd)[3 := demo_fd]"
    by (simp add: demo_sys_def current_fds_def scheduler_current_task_def read_kernel_def)
  show e: "cur_fd 3 (read_kernel k) = demo_fd" unfolding cur_fd_def fds by (simp add: MAX_FDS_def)
  show f: "fat (ksys (read_kernel k)) = demo_fat_state" by (simp add: read_kernel_def)
  have c: "clus_bytes demo_fs = 512" by (simp add: clus_bytes_def demo_fs_def)
  have "file_on disk_sector 0 [3, 4] demo_fat_state"
    using demo_vol demo_geom demo_chain c by (simp add: file_on_def demo_fat_state_def FAT32_MAX_FILES_def demo_file_def)
  moreover have "maps_user (current_table E (read_kernel k)) 0x90000000"
    using install_maps_user [where upa = "0x90000000" and pa = 0 and s = zero_mmu]
    by (simp add: current_table_def scheduler_current_task_def read_kernel_def demo_sys_def)
  ultimately show "file_open E disk_sector 3 0 [3, 4] (read_kernel k)"
    unfolding file_open_def e f fds by (auto simp: MAX_FDS_def demo_fd_def)
qed

theorem fread_file_witness:
  "\<forall>(k :: (unit, nat \<Rightarrow> u32 \<Rightarrow> u8 list, unit) kernel) B sizes E rest r. \<exists>q.
     fread (vinix B (vinix_ops B disk_mem sizes) E rest) 0x40000200 1 4 (Slot 0) (read_proc r (read_kernel k)) = Some (4, q) \<and>
     map (user_mem E (uworld q)) [0x40000200, 0x40000201, 0x40000202, 0x40000203] = [4, 4, 5, 5] \<and> \<not> feof (Slot 0) q \<and>
     vol disk_sector (fat (ksys (uworld q))) = demo_volume"
proof (intro allI)
  fix k :: "(unit, nat \<Rightarrow> u32 \<Rightarrow> u8 list, unit) kernel" and B sizes E rest r
  let ?p = "read_proc r (read_kernel k)"
  have d: "fdata demo_fs demo_volume [3, 4] = replicate 512 4 @ replicate 512 5"
    by (simp add: fdata_def cdata_def demo_fs_def cluster_to_sector_def demo_volume_def)
  have bs: "take 4 (drop 510 (take 600 (fdata demo_fs demo_volume [3, 4]))) = [4, 4, 5, 5]"
    unfolding d by (simp add: take_replicate drop_replicate numeral_eq_Suc)
  have w: "uworld ?p = read_kernel k" by (simp add: read_proc_def)
  have rest: "[4, 4, 5, 5] = take (unat (1 :: u32) * unat (4 :: u32)) (file_rest disk_sector 3 0 [3, 4] (uworld ?p))"
    unfolding w file_rest_def read_kernel_open file_content_def
    using bs demo_vol(2) demo_geom by (simp add: demo_fd_def demo_fat_state_def FAT32_MAX_FILES_def demo_file_def)
  have "\<exists>q. fread (vinix B (vinix_ops B disk_mem sizes) E rest) 0x40000200 1 4 (Slot 0) ?p = Some (of_nat (length [4, 4, 5, 5 :: u8] div unat (1 :: u32)), q) \<and>
    (\<forall>va. in_window va \<longrightarrow> user_mem E (uworld q) va =
       (let d = unat (va - 0x40000200) in if d < length [4, 4, 5, 5 :: u8] then [4, 4, 5, 5] ! d else user_mem E (uworld ?p) va)) \<and>
    file_open E disk_sector 3 0 [3, 4] (uworld q) \<and>
    file_rest disk_sector 3 0 [3, 4] (uworld q) = drop (length [4, 4, 5, 5 :: u8]) (file_rest disk_sector 3 0 [3, 4] (uworld ?p)) \<and>
    vol disk_sector (fat (ksys (uworld q))) = vol disk_sector (fat (ksys (uworld ?p))) \<and>
    (feof (Slot 0) q \<longleftrightarrow> feof (Slot 0) ?p \<or> length [4, 4, 5, 5 :: u8] < unat (1 :: u32) * unat (4 :: u32)) \<and> (ferror (Slot 0) q \<longleftrightarrow> ferror (Slot 0) ?p)"
    by (rule fread_file [OF disk.reliable_device_axioms _ _ _ _ _ _ _ rest])
      (simp_all add: w read_kernel_open(1), simp_all add: read_proc_def fits_def)
  then show "\<exists>q. fread (vinix B (vinix_ops B disk_mem sizes) E rest) 0x40000200 1 4 (Slot 0) ?p = Some (4, q) \<and>
     map (user_mem E (uworld q)) [0x40000200, 0x40000201, 0x40000202, 0x40000203] = [4, 4, 5, 5] \<and> \<not> feof (Slot 0) q \<and>
     vol disk_sector (fat (ksys (uworld q))) = demo_volume"
    unfolding w read_kernel_open(3) demo_vol(2) by (auto simp: in_window_def feof_def read_proc_def FILE_IN_USE_def FILE_EOF_def)
qed

end
